(* ===== verification/Prelude.thy ===== *)
theory Prelude
  imports Main "HOL-Library.Word" "HOL-Library.Monad_Syntax"
begin

text \<open>
  Shared vocabulary of the development.

  \<^item> The machine integers of the sources (\<open>uint8_t\<close> to \<open>uint64_t\<close>) as words; \<open>size_t\<close>
    as \<^typ>\<open>nat\<close>, with its wrap-around subtraction written out.
  \<^item> Byte buffers as lists with bounds-checked accesses. A C++ read or write outside
    the buffer is undefined behaviour; in the model it is the value \<^term>\<open>None\<close>, so every
    theorem that says an operation returns \<^term>\<open>Some\<close> is a memory-safety theorem.
  \<^item> Counted loops over buffers (\<open>foldM\<close>, \<open>read_items\<close>, \<open>write_items\<close>) and the locale
    \<open>item_codec\<close>: the interface of a fixed-width wire record, from which the round trip
    of every array of such records follows once.
\<close>

unbundle bit_operations_syntax

type_synonym byte = "8 word"
type_synonym u16 = "16 word"
type_synonym u32 = "32 word"
type_synonym u64 = "64 word"

named_theorems mem_simps \<open>rewriting of bounds-checked buffer accesses\<close>
named_theorems be_simps \<open>big-endian fields\<close>

section \<open>Unsigned 64-bit sizes\<close>

text \<open>\<open>a - b\<close> on \<open>size_t\<close> operands: wraps modulo \<open>2^64\<close>.\<close>

definition size_sub :: "nat \<Rightarrow> nat \<Rightarrow> nat" where
  "size_sub a b = nat ((int a - int b) mod 2 ^ 64)"

lemma size_sub_le [simp]: "b \<le> a \<Longrightarrow> a < 2 ^ 64 \<Longrightarrow> size_sub a b = a - b"
  by (simp add: size_sub_def nat_diff_distrib')

lemma unat_of_nat_small: "n < 2 ^ LENGTH('a) \<Longrightarrow> unat (of_nat n :: 'a::len word) = n"
  by (simp add: unat_of_nat take_bit_nat_eq_self)

section \<open>Bounds-checked buffers\<close>

definition rd :: "'a list \<Rightarrow> nat \<Rightarrow> 'a option" where
  "rd b i = (if i < length b then Some (b ! i) else None)"

definition wr :: "'a list \<Rightarrow> nat \<Rightarrow> 'a \<Rightarrow> 'a list option" where
  "wr b i v = (if i < length b then Some (b[i := v]) else None)"

text \<open>\<open>put b i xs\<close> overwrites the bytes from \<open>i\<close> on, \<open>seg b i n\<close> reads \<open>n\<close> bytes.\<close>

definition put :: "'a list \<Rightarrow> nat \<Rightarrow> 'a list \<Rightarrow> 'a list option" where
  "put b i xs = (if i + length xs \<le> length b
     then Some (take i b @ xs @ drop (i + length xs) b) else None)"

definition seg :: "'a list \<Rightarrow> nat \<Rightarrow> nat \<Rightarrow> 'a list option" where
  "seg b i n = (if i + n \<le> length b then Some (take n (drop i b)) else None)"

lemma rd_Some [simp]: "i < length b \<Longrightarrow> rd b i = Some (b ! i)"
  by (simp add: rd_def)

lemma rd_eq_Some_iff: "rd b i = Some x \<longleftrightarrow> i < length b \<and> x = b ! i"
  by (auto simp: rd_def)

lemma rd_middle: "i < length xs \<Longrightarrow> rd (pre @ xs @ post) (length pre + i) = Some (xs ! i)"
  by (simp add: rd_def nth_append)

lemma wr_put [mem_simps]: "wr b i v = put b i [v]"
  by (simp add: wr_def put_def upd_conv_take_nth_drop)

lemma put_Nil [simp]: "i \<le> length b \<Longrightarrow> put b i [] = Some b"
  by (simp add: put_def)

lemma put_put:
  assumes "q = i + length xs"
  shows "Option.bind (put b i xs) (\<lambda>b'. put b' q ys) = put b i (xs @ ys)"
proof (cases "i + length xs + length ys \<le> length b")
  case True
  with assms show ?thesis by (simp add: put_def min_absorb2 ac_simps)
next
  case False
  with assms show ?thesis by (auto simp: put_def)
qed

lemma put_put_bind:
  assumes "q = i + length xs"
  shows "Option.bind (put b i xs) (\<lambda>b'. Option.bind (put b' q ys) f) =
    Option.bind (put b i (xs @ ys)) f"
  by (simp only: put_put [OF assms, of b ys, symmetric] bind_assoc)

lemma put_length: "put b i xs = Some b' \<Longrightarrow> length b' = length b"
  by (auto simp: put_def split: if_splits)

lemma put_SomeI: "i + length xs \<le> length b \<Longrightarrow>
    put b i xs = Some (take i b @ xs @ drop (i + length xs) b)"
  by (simp add: put_def)

lemma put_frame:
  assumes "put b i xs = Some b'" and "j < i \<or> i + length xs \<le> j"
  shows "j < length b \<Longrightarrow> b' ! j = b ! j"
  using assms by (auto simp: put_def nth_append min_def split: if_splits)

lemma put_drop: "put b i xs = Some b' \<Longrightarrow> i + length xs \<le> k \<Longrightarrow> drop k b' = drop k b"
  by (rule nth_equalityI) (auto simp: put_length put_frame)

lemma put_take: "put b i xs = Some b' \<Longrightarrow> k \<le> i \<Longrightarrow> take k b' = take k b"
  by (rule nth_equalityI) (auto simp: put_length put_frame)

lemma seg_put_same: "put b i xs = Some b' \<Longrightarrow> seg b' i (length xs) = Some xs"
  by (auto simp: put_def seg_def min_def split: if_splits)

lemma seg_length: "seg b i n = Some xs \<Longrightarrow> length xs = n"
  by (auto simp: seg_def split: if_splits)

lemma seg_take_put:
  assumes "put b i xs = Some b'"
  shows "take (i + length xs) b' = take i b @ xs"
  using assms by (auto simp: put_def min_absorb2 split: if_splits)

section \<open>Loops\<close>

text \<open>A counted loop over a list of indices or elements, stopping at undefined behaviour.\<close>

primrec foldM :: "('x \<Rightarrow> 's \<Rightarrow> 's option) \<Rightarrow> 'x list \<Rightarrow> 's \<Rightarrow> 's option" where
  "foldM f [] s = Some s"
| "foldM f (x # xs) s = Option.bind (f x s) (foldM f xs)"

lemma foldM_append: "foldM f (xs @ ys) s = Option.bind (foldM f xs s) (foldM f ys)"
  by (induction xs arbitrary: s) (auto simp: Option.bind_assoc intro: Option.bind_cong)

lemma foldM_Nil_Some: "foldM f [] = Some"
  by (rule ext) simp

lemma foldM_Cons_fun: "foldM f (x # xs) = (\<lambda>s. Option.bind (f x s) (foldM f xs))"
  by (rule ext) simp

lemma foldM_snoc [simp]: "foldM f (xs @ [x]) s = Option.bind (foldM f xs s) (f x)"
  by (cases "foldM f xs s") (auto simp: foldM_append foldM_Nil_Some)

lemma foldM_cong [fundef_cong]:
  "xs = ys \<Longrightarrow> s = t \<Longrightarrow> (\<And>x s. x \<in> set ys \<Longrightarrow> f x s = g x s) \<Longrightarrow> foldM f xs s = foldM g ys t"
  by (induction ys arbitrary: xs s t) (auto intro!: Option.bind_cong)

text \<open>An invariant of the loop that every step keeps, and under which every step succeeds.\<close>

lemma foldM_inv:
  assumes "\<And>x s. x \<in> set xs \<Longrightarrow> P s \<Longrightarrow> \<exists>s'. f x s = Some s' \<and> P s'" and "P s"
  shows "\<exists>s'. foldM f xs s = Some s' \<and> P s'"
  using assms by (induction xs arbitrary: s) fastforce+

section \<open>Arrays of fixed-width records\<close>

fun read_items :: "('b list \<Rightarrow> nat \<Rightarrow> 'a option) \<Rightarrow> nat \<Rightarrow> nat \<Rightarrow> 'b list \<Rightarrow> nat \<Rightarrow> 'a list option" where
  "read_items dec w 0 b pos = Some []"
| "read_items dec w (Suc n) b pos = do {
     x \<leftarrow> dec b pos;
     xs \<leftarrow> read_items dec w n b (pos + w);
     Some (x # xs) }"

fun write_items :: "('a \<Rightarrow> 'b list \<Rightarrow> nat \<Rightarrow> 'b list option) \<Rightarrow> nat \<Rightarrow> 'a list \<Rightarrow> 'b list \<Rightarrow> nat
    \<Rightarrow> 'b list option" where
  "write_items wrt w [] b pos = Some b"
| "write_items wrt w (x # xs) b pos = do {
     b' \<leftarrow> wrt x b pos;
     write_items wrt w xs b' (pos + w) }"

text \<open>
  The interface of a wire record of \<open>width\<close> bytes: a reader at an offset, a writer at an
  offset, and the bytes (\<open>enc\<close>) the writer puts there. \<open>ok\<close> are the values the wire
  format can carry.
\<close>

locale item_codec =
  fixes dec :: "'b list \<Rightarrow> nat \<Rightarrow> 'a option"
    and wrt :: "'a \<Rightarrow> 'b list \<Rightarrow> nat \<Rightarrow> 'b list option"
    and enc :: "'a \<Rightarrow> 'b list"
    and width :: nat
    and ok :: "'a \<Rightarrow> bool"
  assumes enc_length: "length (enc x) = width"
    and wrt_put: "wrt x b pos = put b pos (enc x)"
    and dec_enc: "ok x \<Longrightarrow> dec (pre @ enc x @ post) (length pre) = Some x"
    and dec_total: "pos + width \<le> length b \<Longrightarrow> \<exists>x. dec b pos = Some x"
begin

lemma concat_enc_length: "length (concat (map enc xs)) = length xs * width"
  by (induction xs) (auto simp: enc_length)

lemma write_items_put:
  "pos \<le> length b \<Longrightarrow> write_items wrt width xs b pos = put b pos (concat (map enc xs))"
proof (induction xs arbitrary: b pos)
  case (Cons x xs)
  show ?case
  proof (cases "put b pos (enc x)")
    case None
    then show ?thesis by (auto simp: wrt_put put_def enc_length split: if_splits)
  next
    case (Some b')
    then have "pos + width \<le> length b'"
      by (auto simp: put_def enc_length split: if_splits)
    then have "write_items wrt width xs b' (pos + width) = put b' (pos + width) (concat (map enc xs))"
      by (rule Cons.IH)
    then show ?thesis
      using put_put [of "pos + width" pos "enc x" b "concat (map enc xs)"] Some
      by (simp add: wrt_put [of x b pos] enc_length)
  qed
qed simp

lemma read_items_enc:
  "\<forall>x\<in>set xs. ok x \<Longrightarrow>
    read_items dec width (length xs) (pre @ concat (map enc xs) @ post) (length pre) = Some xs"
proof (induction xs arbitrary: pre)
  case (Cons x xs)
  have "read_items dec width (length xs) ((pre @ enc x) @ concat (map enc xs) @ post)
      (length (pre @ enc x)) = Some xs"
    using Cons.prems by (intro Cons.IH) auto
  moreover have "dec (pre @ enc x @ concat (map enc xs) @ post) (length pre) = Some x"
    using Cons.prems by (intro dec_enc) simp
  ultimately show ?case by (simp add: enc_length)
qed simp

lemma read_items_total:
  "pos + n * width \<le> length b \<Longrightarrow> \<exists>xs. read_items dec width n b pos = Some xs \<and> length xs = n"
proof (induction n arbitrary: pos)
  case (Suc n)
  obtain x where "dec b pos = Some x"
    using dec_total [of pos b] Suc.prems by auto
  moreover obtain xs where "read_items dec width n b (pos + width) = Some xs" "length xs = n"
    using Suc.IH [of "pos + width"] Suc.prems by (auto simp: algebra_simps)
  ultimately show ?case by auto
qed simp

end

end
