(* ===== verification/ByteIO.thy ===== *)
theory ByteIO
  imports Prelude
begin

text \<open>
  Model of \<open>src/common/byte_io.h\<close>: the class templates \<open>ByteReader\<close> and \<open>ByteWriter\<close>.

  The generic templates are loops over \<open>B\<close> bytes; the header then specialises them for
  1, 2, 4 and 8 bytes. Both are modelled, with the buffer pointer \<open>data\<close> as a buffer and
  an offset, and the specialisations are shown equal to the loops. \<open>be_bytes\<close> and
  \<open>be_val\<close> are the mathematical big-endian encoding the round trips are stated with.
\<close>

section \<open>The generic templates\<close>

definition ReadBigEndian :: "nat \<Rightarrow> byte list \<Rightarrow> nat \<Rightarrow> 'a::len word option" where
  "ReadBigEndian B data pos =
     foldM (\<lambda>i val. do {
        d \<leftarrow> rd data (pos + i);
        Some (val OR push_bit ((B - 1 - i) * 8) (ucast d)) }) [0..<B] 0"

definition ReadLittleEndian :: "nat \<Rightarrow> byte list \<Rightarrow> nat \<Rightarrow> 'a::len word option" where
  "ReadLittleEndian B data pos =
     foldM (\<lambda>i val. do {
        d \<leftarrow> rd data (pos + i);
        Some (val OR push_bit (i * 8) (ucast d)) }) [0..<B] 0"

definition WriteBigEndian :: "nat \<Rightarrow> byte list \<Rightarrow> nat \<Rightarrow> 'a::len word \<Rightarrow> byte list option" where
  "WriteBigEndian B data pos val =
     foldM (\<lambda>i d. wr d (pos + i) (ucast (drop_bit ((B - 1 - i) * 8) val))) [0..<B] data"

definition WriteLittleEndian :: "nat \<Rightarrow> byte list \<Rightarrow> nat \<Rightarrow> 'a::len word \<Rightarrow> byte list option" where
  "WriteLittleEndian B data pos val =
     foldM (\<lambda>i d. wr d (pos + i) (ucast (drop_bit (i * 8) val))) [0..<B] data"

section \<open>Specialisations for 1, 2, 4 and 8 bytes\<close>

definition ReadBigEndian1 :: "byte list \<Rightarrow> nat \<Rightarrow> 'a::len word option" where
  "ReadBigEndian1 data pos = map_option ucast (rd data pos)"

definition ReadLittleEndian1 :: "byte list \<Rightarrow> nat \<Rightarrow> 'a::len word option" where
  "ReadLittleEndian1 data pos = map_option ucast (rd data pos)"

definition WriteBigEndian1 :: "byte list \<Rightarrow> nat \<Rightarrow> 'a::len word \<Rightarrow> byte list option" where
  "WriteBigEndian1 data pos val = wr data pos (ucast val)"

definition WriteLittleEndian1 :: "byte list \<Rightarrow> nat \<Rightarrow> 'a::len word \<Rightarrow> byte list option" where
  "WriteLittleEndian1 data pos val = wr data pos (ucast val)"

definition ReadBigEndian2 :: "byte list \<Rightarrow> nat \<Rightarrow> 'a::len word option" where
  "ReadBigEndian2 data pos = do {
     d0 \<leftarrow> rd data pos; d1 \<leftarrow> rd data (pos + 1);
     Some (push_bit 8 (ucast d0) OR ucast d1) }"

definition ReadLittleEndian2 :: "byte list \<Rightarrow> nat \<Rightarrow> 'a::len word option" where
  "ReadLittleEndian2 data pos = do {
     d0 \<leftarrow> rd data pos; d1 \<leftarrow> rd data (pos + 1);
     Some (ucast d0 OR push_bit 8 (ucast d1)) }"

definition WriteBigEndian2 :: "byte list \<Rightarrow> nat \<Rightarrow> 'a::len word \<Rightarrow> byte list option" where
  "WriteBigEndian2 data pos val = do {
     data \<leftarrow> wr data pos (ucast (drop_bit 8 val));
     wr data (pos + 1) (ucast val) }"

definition WriteLittleEndian2 :: "byte list \<Rightarrow> nat \<Rightarrow> 'a::len word \<Rightarrow> byte list option" where
  "WriteLittleEndian2 data pos val = do {
     data \<leftarrow> wr data pos (ucast val);
     wr data (pos + 1) (ucast (drop_bit 8 val)) }"

definition ReadBigEndian4 :: "byte list \<Rightarrow> nat \<Rightarrow> 'a::len word option" where
  "ReadBigEndian4 data pos = do {
     d0 \<leftarrow> rd data pos; d1 \<leftarrow> rd data (pos + 1); d2 \<leftarrow> rd data (pos + 2); d3 \<leftarrow> rd data (pos + 3);
     Some (push_bit 24 (ucast d0) OR push_bit 16 (ucast d1) OR push_bit 8 (ucast d2) OR ucast d3) }"

definition ReadLittleEndian4 :: "byte list \<Rightarrow> nat \<Rightarrow> 'a::len word option" where
  "ReadLittleEndian4 data pos = do {
     d0 \<leftarrow> rd data pos; d1 \<leftarrow> rd data (pos + 1); d2 \<leftarrow> rd data (pos + 2); d3 \<leftarrow> rd data (pos + 3);
     Some (ucast d0 OR push_bit 8 (ucast d1) OR push_bit 16 (ucast d2) OR push_bit 24 (ucast d3)) }"

definition WriteBigEndian4 :: "byte list \<Rightarrow> nat \<Rightarrow> 'a::len word \<Rightarrow> byte list option" where
  "WriteBigEndian4 data pos val = do {
     data \<leftarrow> wr data pos (ucast (drop_bit 24 val));
     data \<leftarrow> wr data (pos + 1) (ucast (drop_bit 16 val));
     data \<leftarrow> wr data (pos + 2) (ucast (drop_bit 8 val));
     wr data (pos + 3) (ucast val) }"

definition WriteLittleEndian4 :: "byte list \<Rightarrow> nat \<Rightarrow> 'a::len word \<Rightarrow> byte list option" where
  "WriteLittleEndian4 data pos val = do {
     data \<leftarrow> wr data pos (ucast val);
     data \<leftarrow> wr data (pos + 1) (ucast (drop_bit 8 val));
     data \<leftarrow> wr data (pos + 2) (ucast (drop_bit 16 val));
     wr data (pos + 3) (ucast (drop_bit 24 val)) }"

definition ReadBigEndian8 :: "byte list \<Rightarrow> nat \<Rightarrow> 'a::len word option" where
  "ReadBigEndian8 data pos = do {
     d0 \<leftarrow> rd data pos; d1 \<leftarrow> rd data (pos + 1); d2 \<leftarrow> rd data (pos + 2); d3 \<leftarrow> rd data (pos + 3);
     d4 \<leftarrow> rd data (pos + 4); d5 \<leftarrow> rd data (pos + 5); d6 \<leftarrow> rd data (pos + 6); d7 \<leftarrow> rd data (pos + 7);
     Some (push_bit 56 (ucast d0) OR push_bit 48 (ucast d1) OR push_bit 40 (ucast d2) OR
           push_bit 32 (ucast d3) OR push_bit 24 (ucast d4) OR push_bit 16 (ucast d5) OR
           push_bit 8 (ucast d6) OR ucast d7) }"

definition ReadLittleEndian8 :: "byte list \<Rightarrow> nat \<Rightarrow> 'a::len word option" where
  "ReadLittleEndian8 data pos = do {
     d0 \<leftarrow> rd data pos; d1 \<leftarrow> rd data (pos + 1); d2 \<leftarrow> rd data (pos + 2); d3 \<leftarrow> rd data (pos + 3);
     d4 \<leftarrow> rd data (pos + 4); d5 \<leftarrow> rd data (pos + 5); d6 \<leftarrow> rd data (pos + 6); d7 \<leftarrow> rd data (pos + 7);
     Some (ucast d0 OR push_bit 8 (ucast d1) OR push_bit 16 (ucast d2) OR
           push_bit 24 (ucast d3) OR push_bit 32 (ucast d4) OR push_bit 40 (ucast d5) OR
           push_bit 48 (ucast d6) OR push_bit 56 (ucast d7)) }"

definition WriteBigEndian8 :: "byte list \<Rightarrow> nat \<Rightarrow> 'a::len word \<Rightarrow> byte list option" where
  "WriteBigEndian8 data pos val = do {
     data \<leftarrow> wr data pos (ucast (drop_bit 56 val));
     data \<leftarrow> wr data (pos + 1) (ucast (drop_bit 48 val));
     data \<leftarrow> wr data (pos + 2) (ucast (drop_bit 40 val));
     data \<leftarrow> wr data (pos + 3) (ucast (drop_bit 32 val));
     data \<leftarrow> wr data (pos + 4) (ucast (drop_bit 24 val));
     data \<leftarrow> wr data (pos + 5) (ucast (drop_bit 16 val));
     data \<leftarrow> wr data (pos + 6) (ucast (drop_bit 8 val));
     wr data (pos + 7) (ucast val) }"

definition WriteLittleEndian8 :: "byte list \<Rightarrow> nat \<Rightarrow> 'a::len word \<Rightarrow> byte list option" where
  "WriteLittleEndian8 data pos val = do {
     data \<leftarrow> wr data pos (ucast val);
     data \<leftarrow> wr data (pos + 1) (ucast (drop_bit 8 val));
     data \<leftarrow> wr data (pos + 2) (ucast (drop_bit 16 val));
     data \<leftarrow> wr data (pos + 3) (ucast (drop_bit 24 val));
     data \<leftarrow> wr data (pos + 4) (ucast (drop_bit 32 val));
     data \<leftarrow> wr data (pos + 5) (ucast (drop_bit 40 val));
     data \<leftarrow> wr data (pos + 6) (ucast (drop_bit 48 val));
     wr data (pos + 7) (ucast (drop_bit 56 val)) }"

section \<open>Signed 32-bit values in fewer bytes\<close>

text \<open>
  The signed specialisation at \<open>T = int32_t\<close> and \<open>U = uint32_t\<close>. \<open>SignExtend\<close> sets the bits
  above the \<open>B\<close> bytes when the most significant of them has its top bit set.
\<close>

definition SignExtend :: "nat \<Rightarrow> u32 \<Rightarrow> u32" where
  "SignExtend B val =
     (let kMsb = ucast (drop_bit ((B - 1) * 8) val) :: byte in
      if kMsb AND 0x80 \<noteq> 0
      then let kUsedBitsMask = push_bit ((B mod 4) * 8) 1 - 1 in NOT kUsedBitsMask OR val
      else val)"

text \<open>\<open>ReinterpretAsSigned\<close> masks the top bit out and puts it back as the minimum value.\<close>

definition ReinterpretAsSigned :: "u32 \<Rightarrow> int" where
  "ReinterpretAsSigned unsigned_val =
     (let kUnsignedHighestBitMask = push_bit 31 1 :: u32 in
      if unsigned_val AND kUnsignedHighestBitMask \<noteq> 0
      then uint (unsigned_val AND NOT kUnsignedHighestBitMask) - 2 ^ 31
      else uint unsigned_val)"

definition ReinterpretAsUnsigned :: "int \<Rightarrow> u32" where
  "ReinterpretAsUnsigned val = word_of_int val"

definition ReadBigEndian_int32 :: "nat \<Rightarrow> byte list \<Rightarrow> nat \<Rightarrow> int option" where
  "ReadBigEndian_int32 B data pos = do {
     unsigned_val \<leftarrow> ReadBigEndian B data pos;
     Some (ReinterpretAsSigned (if B < 4 then SignExtend B unsigned_val else unsigned_val)) }"

definition WriteBigEndian_int32 :: "nat \<Rightarrow> byte list \<Rightarrow> nat \<Rightarrow> int \<Rightarrow> byte list option" where
  "WriteBigEndian_int32 B data pos val = WriteBigEndian B data pos (ReinterpretAsUnsigned val)"

section \<open>The encoding\<close>

definition be_bytes :: "nat \<Rightarrow> 'a::len word \<Rightarrow> byte list" where
  "be_bytes B v = map (\<lambda>i. ucast (drop_bit ((B - 1 - i) * 8) v)) [0..<B]"

definition be_val :: "byte list \<Rightarrow> 'a::len word" where
  "be_val bs = foldl (\<lambda>acc b. push_bit 8 acc OR ucast b) 0 bs"

lemma be_bytes_length [simp]: "length (be_bytes B v) = B"
  by (simp add: be_bytes_def)

lemma be_bytes_Suc: "be_bytes (Suc B) v = be_bytes B (drop_bit 8 v) @ [ucast v]"
proof -
  have "(B - i) * 8 = (B - 1 - i) * 8 + 8" if "i < B" for i
    using that by (cases B) auto
  then show ?thesis
    unfolding be_bytes_def by auto
qed

lemma be_val_append: "be_val (xs @ [b]) = push_bit 8 (be_val xs) OR ucast b"
  by (simp add: be_val_def)

lemma be_val_Nil [simp]: "be_val [] = 0"
  by (simp add: be_val_def)

lemma be_val_Cons:
  "(be_val (b # bs) :: 'a::len word) = push_bit (8 * length bs) (ucast b) OR be_val bs"
proof (induction bs rule: rev_induct)
  case Nil
  show ?case by (simp add: be_val_def)
next
  case (snoc x xs)
  have "(be_val (b # xs @ [x]) :: 'a word) = push_bit 8 (be_val (b # xs)) OR ucast x"
    using be_val_append [of "b # xs" x] by simp
  also have "\<dots> = push_bit (8 * length (xs @ [x])) (ucast b) OR be_val (xs @ [x])"
    by (simp add: snoc be_val_append push_bit_or push_bit_push_bit or.assoc add.commute)
  finally show ?case .
qed

lemma take_bit_Suc_byte:
  "take_bit (8 * Suc B) v = push_bit 8 (take_bit (8 * B) (drop_bit 8 v)) OR ucast (ucast v :: byte)"
  for v :: "'a::len word"
  by (rule bit_word_eqI) (auto simp: bit_simps not_le)

lemma be_val_be_bytes: "be_val (be_bytes B v) = take_bit (8 * B) v"
proof (induction B arbitrary: v)
  case 0
  show ?case by (simp add: be_bytes_def)
next
  case (Suc B)
  show ?case by (simp only: be_bytes_Suc be_val_append Suc.IH take_bit_Suc_byte)
qed

section \<open>The loops compute the encoding\<close>

lemma WriteBigEndian_put:
  assumes "pos \<le> length data"
  shows "WriteBigEndian B data pos v = put data pos (be_bytes B v)"
proof -
  define f where "f = (\<lambda>i d. wr d (pos + i) (ucast (drop_bit ((B - 1 - i) * 8) v) :: byte))"
  have "foldM f [0..<k] data = put data pos (take k (be_bytes B v))" if "k \<le> B" for k
    using that
  proof (induction k)
    case 0
    then show ?case using assms by simp
  next
    case (Suc k)
    then have "foldM f [0..<Suc k] data =
        Option.bind (put data pos (take k (be_bytes B v))) (\<lambda>d. put d (pos + k) [be_bytes B v ! k])"
      by (simp add: f_def mem_simps be_bytes_def)
    also have "\<dots> = put data pos (take k (be_bytes B v) @ [be_bytes B v ! k])"
      using Suc.prems by (intro put_put) simp
    finally show ?case
      using Suc.prems by (simp add: take_Suc_conv_app_nth)
  qed
  from this [of B] show ?thesis
    unfolding WriteBigEndian_def f_def by simp
qed

lemma ReadBigEndian_seg:
  assumes "pos \<le> length data"
  shows "ReadBigEndian B data pos = map_option be_val (seg data pos B)"
proof -
  define f where "f = (\<lambda>i (val :: 'a word). Option.bind (rd data (pos + i))
    (\<lambda>d. Some (val OR push_bit ((B - 1 - i) * 8) (ucast d))))"
  have "foldM f [0..<k] 0 = map_option (\<lambda>bs. push_bit ((B - k) * 8) (be_val bs)) (seg data pos k)"
    if "k \<le> B" for k
    using that
  proof (induction k)
    case 0
    then show ?case using assms by (simp add: seg_def)
  next
    case (Suc k)
    then have e: "(B - k) * 8 = (B - Suc k) * 8 + 8" by (cases B) auto
    have "foldM f [0..<Suc k] 0 = Option.bind (seg data pos k) (\<lambda>xs. Option.bind (rd data (pos + k))
        (\<lambda>d. Some (push_bit ((B - Suc k) * 8) (be_val (xs @ [d])))))"
      using Suc unfolding be_val_append
      by (cases "seg data pos k")
        (simp_all add: f_def e push_bit_or push_bit_push_bit)
    then show ?case by (auto simp: seg_def rd_def take_Suc_conv_app_nth)
  qed
  from this [of B] show ?thesis
    unfolding ReadBigEndian_def f_def by simp
qed

text \<open>Little endian is the mirror image.\<close>

lemma le_bytes_nth:
  "i < B \<Longrightarrow> rev (be_bytes B v) ! i = ucast (drop_bit (i * 8) v)"
  by (simp add: be_bytes_def rev_nth)

lemma WriteLittleEndian_put:
  assumes "pos \<le> length data"
  shows "WriteLittleEndian B data pos v = put data pos (rev (be_bytes B v))"
proof -
  define f where "f = (\<lambda>i d. wr d (pos + i) (ucast (drop_bit (i * 8) v) :: byte))"
  have "foldM f [0..<k] data = put data pos (take k (rev (be_bytes B v)))" if "k \<le> B" for k
    using that
  proof (induction k)
    case 0
    then show ?case using assms by simp
  next
    case (Suc k)
    then have "foldM f [0..<Suc k] data = Option.bind (put data pos (take k (rev (be_bytes B v))))
        (\<lambda>d. put d (pos + k) [rev (be_bytes B v) ! k])"
      by (simp add: f_def mem_simps le_bytes_nth)
    also have "\<dots> = put data pos (take k (rev (be_bytes B v)) @ [rev (be_bytes B v) ! k])"
      using Suc.prems by (intro put_put) simp
    finally show ?case
      using Suc.prems by (simp add: take_Suc_conv_app_nth)
  qed
  from this [of B] show ?thesis
    unfolding WriteLittleEndian_def f_def by simp
qed

lemma ReadLittleEndian_seg:
  assumes "pos \<le> length data"
  shows "ReadLittleEndian B data pos = map_option (be_val \<circ> rev) (seg data pos B)"
proof -
  define f where "f = (\<lambda>i (val :: 'a word). Option.bind (rd data (pos + i))
    (\<lambda>d. Some (val OR push_bit (i * 8) (ucast d))))"
  have "foldM f [0..<k] 0 = map_option (be_val \<circ> rev) (seg data pos k)" for k
  proof (induction k)
    case 0
    then show ?case using assms by (simp add: seg_def)
  next
    case (Suc k)
    have "foldM f [0..<Suc k] 0 = Option.bind (seg data pos k) (\<lambda>xs. Option.bind (rd data (pos + k))
        (\<lambda>d. Some (be_val (rev (xs @ [d])))))"
      using Suc
      by (cases "seg data pos k")
        (simp_all add: f_def be_val_Cons or.commute mult.commute seg_length)
    then show ?case by (auto simp: seg_def rd_def take_Suc_conv_app_nth)
  qed
  from this [of B] show ?thesis
    unfolding ReadLittleEndian_def f_def by simp
qed

section \<open>The specialisations agree with the loops\<close>

lemma specialise1:
  fixes v :: "'a::len word"
  shows "(ReadBigEndian1 data pos :: 'a word option) = ReadBigEndian 1 data pos"
    and "(ReadLittleEndian1 data pos :: 'a word option) = ReadLittleEndian 1 data pos"
    and "WriteBigEndian1 data pos v = WriteBigEndian 1 data pos v"
    and "WriteLittleEndian1 data pos v = WriteLittleEndian 1 data pos v"
proof -
  note d = ReadBigEndian_def ReadLittleEndian_def WriteBigEndian_def WriteLittleEndian_def foldM_Cons_fun foldM_Nil_Some
  show "(ReadBigEndian1 data pos :: 'a word option) = ReadBigEndian 1 data pos"
    by (cases "rd data pos") (simp_all add: ReadBigEndian1_def d)
  show "(ReadLittleEndian1 data pos :: 'a word option) = ReadLittleEndian 1 data pos"
    by (cases "rd data pos") (simp_all add: ReadLittleEndian1_def d)
  show "WriteBigEndian1 data pos v = WriteBigEndian 1 data pos v"
    by (cases "wr data pos (ucast v)") (simp_all add: WriteBigEndian1_def d)
  show "WriteLittleEndian1 data pos v = WriteLittleEndian 1 data pos v"
    by (cases "wr data pos (ucast v)") (simp_all add: WriteLittleEndian1_def d)
qed

lemma specialise:
  fixes v :: "'a::len word"
  shows "(ReadBigEndian2 data pos :: 'a word option) = ReadBigEndian 2 data pos"
    and "(ReadLittleEndian2 data pos :: 'a word option) = ReadLittleEndian 2 data pos"
    and "(ReadBigEndian4 data pos :: 'a word option) = ReadBigEndian 4 data pos"
    and "(ReadLittleEndian4 data pos :: 'a word option) = ReadLittleEndian 4 data pos"
    and "(ReadBigEndian8 data pos :: 'a word option) = ReadBigEndian 8 data pos"
    and "(ReadLittleEndian8 data pos :: 'a word option) = ReadLittleEndian 8 data pos"
    and "WriteBigEndian2 data pos v = WriteBigEndian 2 data pos v"
    and "WriteLittleEndian2 data pos v = WriteLittleEndian 2 data pos v"
    and "WriteBigEndian4 data pos v = WriteBigEndian 4 data pos v"
    and "WriteLittleEndian4 data pos v = WriteLittleEndian 4 data pos v"
    and "WriteBigEndian8 data pos v = WriteBigEndian 8 data pos v"
    and "WriteLittleEndian8 data pos v = WriteLittleEndian 8 data pos v"
proof -
  have u2: "[0..<2] = [0, 1 :: nat]" and u4: "[0..<4] = [0, 1, 2, 3 :: nat]"
    and u8: "[0..<8] = [0, 1, 2, 3, 4, 5, 6, 7 :: nat]"
    by (simp_all add: upt_rec)
  note d = ReadBigEndian_def ReadLittleEndian_def WriteBigEndian_def WriteLittleEndian_def
    u2 u4 u8 foldM_Cons_fun foldM_Nil_Some
  show "(ReadBigEndian2 data pos :: 'a word option) = ReadBigEndian 2 data pos"
    by (simp add: ReadBigEndian2_def d)
  show "(ReadLittleEndian2 data pos :: 'a word option) = ReadLittleEndian 2 data pos"
    by (simp add: ReadLittleEndian2_def d)
  show "(ReadBigEndian4 data pos :: 'a word option) = ReadBigEndian 4 data pos"
    by (simp add: ReadBigEndian4_def d or.assoc)
  show "(ReadLittleEndian4 data pos :: 'a word option) = ReadLittleEndian 4 data pos"
    by (simp add: ReadLittleEndian4_def d or.assoc)
  show "(ReadBigEndian8 data pos :: 'a word option) = ReadBigEndian 8 data pos"
    by (simp add: ReadBigEndian8_def d or.assoc)
  show "(ReadLittleEndian8 data pos :: 'a word option) = ReadLittleEndian 8 data pos"
    by (simp add: ReadLittleEndian8_def d or.assoc)
  show "WriteBigEndian2 data pos v = WriteBigEndian 2 data pos v"
    by (simp add: WriteBigEndian2_def d)
  show "WriteLittleEndian2 data pos v = WriteLittleEndian 2 data pos v"
    by (simp add: WriteLittleEndian2_def d)
  show "WriteBigEndian4 data pos v = WriteBigEndian 4 data pos v"
    by (simp add: WriteBigEndian4_def d)
  show "WriteLittleEndian4 data pos v = WriteLittleEndian 4 data pos v"
    by (simp add: WriteLittleEndian4_def d)
  show "WriteBigEndian8 data pos v = WriteBigEndian 8 data pos v"
    by (simp add: WriteBigEndian8_def d)
  show "WriteLittleEndian8 data pos v = WriteLittleEndian 8 data pos v"
    by (simp add: WriteLittleEndian8_def d)
qed

text \<open>
  C37: every specialisation of \<open>ByteReader\<close> and \<open>ByteWriter\<close> for 1, 2, 4 and 8 bytes computes
  exactly what the generic loop computes, for both byte orders, out-of-bounds accesses
  included.
\<close>

theorem byte_io_specialisations:
  fixes v :: "'a::len word"
  shows "(ReadBigEndian1 data pos :: 'a word option) = ReadBigEndian 1 data pos \<and>
    (ReadLittleEndian1 data pos :: 'a word option) = ReadLittleEndian 1 data pos \<and>
    WriteBigEndian1 data pos v = WriteBigEndian 1 data pos v \<and>
    WriteLittleEndian1 data pos v = WriteLittleEndian 1 data pos v \<and>
    (ReadBigEndian2 data pos :: 'a word option) = ReadBigEndian 2 data pos \<and>
    (ReadBigEndian4 data pos :: 'a word option) = ReadBigEndian 4 data pos \<and>
    (ReadBigEndian8 data pos :: 'a word option) = ReadBigEndian 8 data pos \<and>
    (ReadLittleEndian2 data pos :: 'a word option) = ReadLittleEndian 2 data pos \<and>
    (ReadLittleEndian4 data pos :: 'a word option) = ReadLittleEndian 4 data pos \<and>
    (ReadLittleEndian8 data pos :: 'a word option) = ReadLittleEndian 8 data pos \<and>
    WriteBigEndian2 data pos v = WriteBigEndian 2 data pos v \<and>
    WriteBigEndian4 data pos v = WriteBigEndian 4 data pos v \<and>
    WriteBigEndian8 data pos v = WriteBigEndian 8 data pos v \<and>
    WriteLittleEndian2 data pos v = WriteLittleEndian 2 data pos v \<and>
    WriteLittleEndian4 data pos v = WriteLittleEndian 4 data pos v \<and>
    WriteLittleEndian8 data pos v = WriteLittleEndian 8 data pos v"
  by (intro conjI specialise1 specialise)

section \<open>Round trips\<close>

lemma ReadBigEndian_be_bytes:
  "ReadBigEndian B (pre @ be_bytes B v @ post) (length pre) = Some (take_bit (8 * B) v)"
  by (simp add: ReadBigEndian_seg seg_def be_val_be_bytes)

lemma ReadLittleEndian_be_bytes:
  "ReadLittleEndian B (pre @ rev (be_bytes B v) @ post) (length pre) = Some (take_bit (8 * B) v)"
  by (simp add: ReadLittleEndian_seg seg_def be_val_be_bytes)

lemma write_read_big_endian:
  assumes "pos + B \<le> length data"
  shows "\<exists>data'. WriteBigEndian B data pos v = Some data' \<and> length data' = length data \<and>
    take pos data' = take pos data \<and> drop (pos + B) data' = drop (pos + B) data \<and>
    ReadBigEndian B data' pos = Some (take_bit (8 * B) v)"
  using assms ReadBigEndian_be_bytes [of B "take pos data" v "drop (pos + B) data"]
  by (simp add: WriteBigEndian_put put_SomeI min_absorb2)

lemma write_read_little_endian:
  assumes "pos + B \<le> length data"
  shows "\<exists>data'. WriteLittleEndian B data pos v = Some data' \<and> length data' = length data \<and>
    take pos data' = take pos data \<and> drop (pos + B) data' = drop (pos + B) data \<and>
    ReadLittleEndian B data' pos = Some (take_bit (8 * B) v)"
  using assms ReadLittleEndian_be_bytes [of B "take pos data" v "drop (pos + B) data"]
  by (simp add: WriteLittleEndian_put put_SomeI min_absorb2)

text \<open>
  writing \<open>B\<close> bytes inside the buffer always succeeds, changes only those bytes, and
  reading them back in the same byte order gives the low \<open>8 * B\<close> bits of the value.
\<close>

theorem byte_io_roundtrip:
  fixes v :: "'a::len word"
  assumes "pos + B \<le> length data"
  shows "(\<exists>data'. WriteBigEndian B data pos v = Some data' \<and> length data' = length data \<and>
      take pos data' = take pos data \<and> drop (pos + B) data' = drop (pos + B) data \<and>
      ReadBigEndian B data' pos = Some (take_bit (8 * B) v)) \<and>
    (\<exists>data'. WriteLittleEndian B data pos v = Some data' \<and> length data' = length data \<and>
      take pos data' = take pos data \<and> drop (pos + B) data' = drop (pos + B) data \<and>
      ReadLittleEndian B data' pos = Some (take_bit (8 * B) v))"
  using write_read_big_endian [OF assms, of v] write_read_little_endian [OF assms, of v] by blast

theorem byte_io_roundtrip_witness:
  "(\<exists>data'. WriteBigEndian 2 [0, 0, 7 :: byte] 0 (0x1234 :: u16) = Some data' \<and>
      ReadBigEndian 2 data' 0 = Some (0x1234 :: u16)) \<and>
   WriteBigEndian 2 [0, 0, 7 :: byte] 0 (0x1234 :: u16) = Some [0x12, 0x34, 7]"
proof
  show "\<exists>data'. WriteBigEndian 2 [0, 0, 7 :: byte] 0 (0x1234 :: u16) = Some data' \<and>
      ReadBigEndian 2 data' 0 = Some (0x1234 :: u16)"
    using byte_io_roundtrip [of 0 2 "[0, 0, 7 :: byte]" "0x1234 :: u16"] by auto
  show "WriteBigEndian 2 [0, 0, 7 :: byte] 0 (0x1234 :: u16) = Some [0x12, 0x34, 7]"
    by (simp add: specialise [symmetric] WriteBigEndian2_def wr_def)
qed

text \<open>The signed readers.\<close>

lemma and_not_top_bit: "Suc n = LENGTH('a) \<Longrightarrow> w AND NOT (push_bit n 1) = take_bit n w"
  for w :: "'a::len word"
  by (rule bit_word_eqI) (auto simp: bit_simps)

lemma and_push_bit_1: "w AND push_bit n 1 = 0 \<longleftrightarrow> \<not> bit w n"
  for w :: "'a::len word"
  by (simp only: push_bit_eq_mult mult_1_left and_exp_eq_0_iff_not_bit)

lemma ReinterpretAsSigned_sint: "ReinterpretAsSigned w = sint w"
proof (cases "bit w 31")
  case True
  then have "w AND push_bit 31 1 \<noteq> 0"
    by (simp only: and_push_bit_1) simp
  moreover have "w AND NOT (push_bit 31 1) = take_bit 31 w"
    by (rule and_not_top_bit) simp
  moreover have "uint (take_bit 31 w) - 2 ^ 31 = sint w"
  proof -
    have "take_bit (Suc 31) (uint w) = 2 ^ 31 + take_bit 31 (uint w)"
      using True by (simp only: take_bit_Suc_from_most) (simp add: bit_uint_iff)
    then show ?thesis
      using True by (simp add: sint_uint signed_take_bit_eq_take_bit_minus bit_uint_iff
        unsigned_take_bit_eq)
  qed
  ultimately show ?thesis
    by (simp add: ReinterpretAsSigned_def Let_def)
next
  case False
  then have "w AND push_bit 31 1 = 0"
    by (simp only: and_push_bit_1) simp
  moreover have "uint w = sint w"
    using False unsigned_take_bit_eq [of 32 w, where ?'a = int]
    by (simp add: sint_uint signed_take_bit_eq_take_bit_minus bit_uint_iff take_bit_word_eq_self)
  ultimately show ?thesis
    by (simp add: ReinterpretAsSigned_def Let_def)
qed

lemma SignExtend_signed_take_bit:
  assumes "B \<in> {2, 3}"
  shows "SignExtend B (take_bit (8 * B) w) = signed_take_bit (8 * B - 1) w"
proof -
  define m where "m = (B - 1) * 8"
  have msb: "ucast (drop_bit m (take_bit (8 * B) w)) AND (0x80 :: byte) \<noteq> 0 \<longleftrightarrow> bit w (8 * B - 1)"
  proof -
    have "(x AND 0x80 \<noteq> 0) = bit x 7" for x :: byte
    proof -
      have "x AND 0x80 = (if bit x 7 then 0x80 else 0)"
        by (rule bit_word_eqI) (auto simp: bit_simps numeral_eq_Suc elim!: less_SucE)
      then show ?thesis by simp
    qed
    then show ?thesis
      using assms by (auto simp: m_def bit_simps)
  qed
  have "SignExtend B (take_bit (8 * B) w) =
    (if bit w (8 * B - 1) then NOT (mask (8 * B)) OR take_bit (8 * B) w else take_bit (8 * B) w)"
    using assms msb
    by (auto simp: SignExtend_def Let_def m_def mask_eq_exp_minus_1)
  also have "\<dots> = signed_take_bit (8 * B - 1) w"
  proof (rule bit_word_eqI)
    fix n
    assume "n < LENGTH(32)"
    then show "bit (if bit w (8 * B - 1) then NOT (mask (8 * B)) OR take_bit (8 * B) w
        else take_bit (8 * B) w) n = bit (signed_take_bit (8 * B - 1) w) n"
      using assms by (cases "n = 8 * B - 1") (auto simp: bit_simps min_def)
  qed
  finally show ?thesis .
qed

lemma int32_roundtrip_value:
  assumes "B \<in> {2, 3, 4}" and "- (2 ^ (8 * B - 1)) \<le> x" and "x < 2 ^ (8 * B - 1)"
  defines "v \<equiv> take_bit (8 * B) (ReinterpretAsUnsigned x)"
  shows "ReinterpretAsSigned (if B < 4 then SignExtend B v else v) = x"
proof -
  have "(if B < 4 then SignExtend B v else v) = signed_take_bit (8 * B - 1) (word_of_int x :: u32)"
  proof (cases "B < 4")
    case True
    with assms show ?thesis by (simp add: SignExtend_signed_take_bit ReinterpretAsUnsigned_def)
  next
    case False
    with assms(1) have "B = 4" by auto
    have "v = signed_take_bit 31 (word_of_int x)"
    proof (rule bit_word_eqI)
      fix n
      assume "n < LENGTH(32)"
      with \<open>B = 4\<close> show "bit v n = bit (signed_take_bit 31 (word_of_int x :: u32)) n"
        by (cases "n = 31") (auto simp: v_def ReinterpretAsUnsigned_def bit_simps min_def)
    qed
    with \<open>B = 4\<close> show ?thesis by simp
  qed
  moreover have "sint (signed_take_bit (8 * B - 1) (word_of_int x :: u32)) = signed_take_bit (8 * B - 1) x"
    using assms(1) by (intro bit_eqI) (auto simp: bit_simps min_def)
  moreover have "signed_take_bit (8 * B - 1) x = x"
    using assms(2,3) by (intro signed_take_bit_int_eq_self) auto
  ultimately show ?thesis
    by (simp add: ReinterpretAsSigned_sint)
qed

text \<open>
  a signed value that fits in \<open>B\<close> bytes survives \<open>ByteWriter<int32_t, B>\<close> followed by
  \<open>ByteReader<int32_t, B>\<close>: the sign extension restores exactly the bits the writer dropped.
\<close>

theorem byte_io_int32_roundtrip:
  assumes "B \<in> {2, 3, 4}" and "- (2 ^ (8 * B - 1)) \<le> x" and "x < 2 ^ (8 * B - 1)"
    and "pos + B \<le> length data"
  shows "\<exists>data'. WriteBigEndian_int32 B data pos x = Some data' \<and>
    ReadBigEndian_int32 B data' pos = Some x"
  using write_read_big_endian [OF assms(4), of "ReinterpretAsUnsigned x"]
    int32_roundtrip_value [OF assms(1-3)]
  by (auto simp: WriteBigEndian_int32_def ReadBigEndian_int32_def)

theorem byte_io_int32_roundtrip_witness:
  "\<exists>data'. WriteBigEndian_int32 3 [0, 0, 0] 0 (- 5) = Some data' \<and>
    ReadBigEndian_int32 3 data' 0 = Some (- 5)"
  by (rule byte_io_int32_roundtrip) simp_all

section \<open>16- and 32-bit fields as wire records\<close>

lemma WriteBigEndian2_put [be_simps]: "WriteBigEndian2 b pos v = put b pos (be_bytes 2 v)"
  by (cases "pos \<le> length b")
    (auto simp: specialise WriteBigEndian_put, simp add: specialise(7) [symmetric]
      WriteBigEndian2_def wr_def put_def)

lemma WriteBigEndian4_put [be_simps]: "WriteBigEndian4 b pos v = put b pos (be_bytes 4 v)"
  by (cases "pos \<le> length b")
    (auto simp: specialise WriteBigEndian_put, simp add: specialise(9) [symmetric]
      WriteBigEndian4_def wr_def put_def)

interpretation be16: item_codec "ReadBigEndian2 :: byte list \<Rightarrow> nat \<Rightarrow> u16 option"
  "\<lambda>v b pos. WriteBigEndian2 b pos v" "be_bytes 2" 2 "\<lambda>_. True"
proof unfold_locales
  show "\<exists>x. (ReadBigEndian2 b pos :: u16 option) = Some x" if "pos + 2 \<le> length b" for pos b
    using that by (simp add: specialise ReadBigEndian_seg seg_def)
  show "ReadBigEndian2 (pre @ be_bytes 2 x @ post) (length pre) = Some x" for pre post and x :: u16
    using ReadBigEndian_be_bytes [of 2 pre x post] by (simp add: specialise take_bit_word_eq_self)
qed (simp_all add: be_simps)

interpretation be32: item_codec "ReadBigEndian4 :: byte list \<Rightarrow> nat \<Rightarrow> u32 option"
  "\<lambda>v b pos. WriteBigEndian4 b pos v" "be_bytes 4" 4 "\<lambda>_. True"
proof unfold_locales
  show "\<exists>x. (ReadBigEndian4 b pos :: u32 option) = Some x" if "pos + 4 \<le> length b" for pos b
    using that by (simp add: specialise ReadBigEndian_seg seg_def)
  show "ReadBigEndian4 (pre @ be_bytes 4 x @ post) (length pre) = Some x" for pre post and x :: u32
    using ReadBigEndian_be_bytes [of 4 pre x post] by (simp add: specialise take_bit_word_eq_self)
qed (simp_all add: be_simps)

end
