(* ===== verification/RtpPacket.thy ===== *)
theory RtpPacket
  imports ByteIO
begin

text \<open>
  \<open>src/rtp/rtp_packet/rtp_packet.{h,cpp}\<close>: an RTP packet over its bytes, with the parser that
  every received and every built packet goes through, and the absolute-send-time header
  extension that is overwritten just before a packet is sent.

  The shared buffer (\<open>CopyOnWriteBuffer\<close>) has value semantics and is a list of bytes. The
  parser is split at the points where the source has its comments; every early return is a
  branch, with the fields assigned up to it.
\<close>

section \<open>The class\<close>

definition kOneByteExtensionProfileId :: u16 where "kOneByteExtensionProfileId = 0xBEDE"
definition kFixedHeaderSize :: nat where "kFixedHeaderSize = 12"
definition kMaxRtpCsrcSize :: nat where "kMaxRtpCsrcSize = 15"
definition kRtpVersion :: byte where "kRtpVersion = 2"

record Extension =
  ext_id :: byte
  ext_len :: byte
  ext_data_offset :: nat
  ext_data :: "byte list"

record RtpPacket =
  rp_version :: byte
  rp_has_padding :: bool
  rp_has_extension :: bool
  rp_csrc_count :: byte
  rp_marker :: bool
  rp_payload_type :: byte
  rp_sequence_number :: u16
  rp_timestamp :: u32
  rp_ssrc :: u32
  rp_csrcs :: "u32 list"
  rp_extension_profile :: u16
  rp_extension_len :: u16
  rp_extensions :: "Extension list"
  rp_abs_send_time_ext_id :: "byte option"
  rp_payload_offset :: nat
  rp_payload_size :: nat
  rp_padding_size :: nat
  rp_buffer :: "byte list"
  rp_size :: nat

definition new_RtpPacket :: RtpPacket where
  "new_RtpPacket = \<lparr>rp_version = 0, rp_has_padding = False, rp_has_extension = False,
     rp_csrc_count = 0, rp_marker = False, rp_payload_type = 0, rp_sequence_number = 1,
     rp_timestamp = 0, rp_ssrc = 0, rp_csrcs = [], rp_extension_profile = 0, rp_extension_len = 0,
     rp_extensions = [], rp_abs_send_time_ext_id = None, rp_payload_offset = 0,
     rp_payload_size = 0, rp_padding_size = 0, rp_buffer = [], rp_size = 0\<rparr>"

text \<open>Fields assembled with shifts, as the parser writes them.\<close>

definition get16 :: "byte list \<Rightarrow> nat \<Rightarrow> u16 option" where
  "get16 buffer i = do {
     a \<leftarrow> rd buffer i;
     b \<leftarrow> rd buffer (i + 1);
     Some (push_bit 8 (ucast a) OR ucast b) }"

definition get32 :: "byte list \<Rightarrow> nat \<Rightarrow> u32 option" where
  "get32 buffer i = do {
     a \<leftarrow> rd buffer i;
     b \<leftarrow> rd buffer (i + 1);
     c \<leftarrow> rd buffer (i + 2);
     d \<leftarrow> rd buffer (i + 3);
     Some (push_bit 24 (ucast a) OR push_bit 16 (ucast b) OR push_bit 8 (ucast c) OR ucast d) }"

section \<open>Parsing\<close>

text \<open>The first twelve bytes and the contributing sources.\<close>

definition parse_fixed :: "RtpPacket \<Rightarrow> byte list \<Rightarrow> nat \<Rightarrow> (bool \<times> RtpPacket) option" where
  "parse_fixed p buffer sz = do {
     b0 \<leftarrow> rd buffer 0;
     let p = p\<lparr>rp_version := drop_bit 6 b0 AND 0x03\<rparr> in
     if rp_version p \<noteq> kRtpVersion then Some (False, p)
     else
       let p = p\<lparr>rp_has_padding := (drop_bit 5 b0 AND 0x01 \<noteq> 0),
                 rp_has_extension := (drop_bit 4 b0 AND 0x01 \<noteq> 0),
                 rp_csrc_count := b0 AND 0x0f\<rparr> in
       if unat (rp_csrc_count p) > kMaxRtpCsrcSize then Some (False, p)
       else do {
         b1 \<leftarrow> rd buffer 1;
         seq \<leftarrow> get16 buffer 2;
         ts \<leftarrow> get32 buffer 4;
         ssrc \<leftarrow> get32 buffer 8;
         let p = p\<lparr>rp_marker := (drop_bit 7 b1 AND 0x01 \<noteq> 0), rp_payload_type := b1 AND 0x7f,
                   rp_sequence_number := seq, rp_timestamp := ts, rp_ssrc := ssrc,
                   rp_payload_offset := kFixedHeaderSize\<rparr>;
             n = unat (rp_csrc_count p) in
         if kFixedHeaderSize + n * 4 > sz then Some (False, p)
         else do {
           csrcs \<leftarrow> read_items get32 4 n buffer (rp_payload_offset p);
           let p = p\<lparr>rp_csrcs := csrcs, rp_payload_offset := kFixedHeaderSize + n * 4\<rparr> in
           if rp_payload_offset p > sz then Some (False, p) else Some (True, p) } } }"

text \<open>The loop over one-byte header extensions; \<open>False\<close> when an element overruns the block.\<close>

function parse_extension_loop ::
  "byte list \<Rightarrow> nat \<Rightarrow> nat \<Rightarrow> Extension list \<Rightarrow> (bool \<times> Extension list) option" where
  "parse_extension_loop buffer extension_end offset exts =
     (if offset < extension_end then do {
        b \<leftarrow> rd buffer offset;
        let ident = drop_bit 4 b in
        if ident = 0 then parse_extension_loop buffer extension_end (offset + 1) exts
        else if ident = 15 then Some (True, exts)
        else
          let len = (b AND 0x0F) + 1 in
          if offset + 1 + unat len > extension_end then Some (False, exts)
          else do {
            d \<leftarrow> seg buffer (offset + 1) (unat len);
            parse_extension_loop buffer extension_end (offset + 1 + unat len)
              (exts @ [\<lparr>ext_id = ident, ext_len = len, ext_data_offset = offset + 1, ext_data = d\<rparr>]) } }
      else Some (True, exts))"
  by pat_completeness auto
termination
  by (relation "measure (\<lambda>(b, e, off, x). e - off)") auto

declare parse_extension_loop.simps [simp del]

definition parse_extension :: "RtpPacket \<Rightarrow> byte list \<Rightarrow> nat \<Rightarrow> (bool \<times> RtpPacket) option" where
  "parse_extension p buffer sz =
     (if rp_payload_offset p + 4 > sz then Some (False, p)
      else do {
        profile \<leftarrow> get16 buffer (rp_payload_offset p);
        len \<leftarrow> get16 buffer (rp_payload_offset p + 2);
        let p = p\<lparr>rp_extension_profile := profile, rp_extension_len := len,
                  rp_payload_offset := rp_payload_offset p + 4\<rparr> in
        if rp_payload_offset p + unat len * 4 > sz then Some (False, p)
        else
          let total_ext_len = unat len * 4 in do {
            (ok, exts) \<leftarrow>
              (if profile = kOneByteExtensionProfileId
               then parse_extension_loop buffer (rp_payload_offset p + total_ext_len)
                      (rp_payload_offset p) (rp_extensions p)
               else Some (True, rp_extensions p));
            let p = p\<lparr>rp_extensions := exts\<rparr> in
            if \<not> ok then Some (False, p)
            else Some (True, p\<lparr>rp_payload_offset := rp_payload_offset p + total_ext_len\<rparr>) } })"

definition parse_padding :: "RtpPacket \<Rightarrow> byte list \<Rightarrow> nat \<Rightarrow> RtpPacket option" where
  "parse_padding p buffer sz =
     (if rp_has_padding p \<and> rp_payload_offset p < sz then do {
        x \<leftarrow> rd buffer (sz - 1);
        Some (if x = 0 then p\<lparr>rp_has_padding := False, rp_padding_size := 0\<rparr>
              else p\<lparr>rp_padding_size := unat x\<rparr>) }
      else Some (p\<lparr>rp_padding_size := 0\<rparr>))"

definition RtpPacket_Parse :: "RtpPacket \<Rightarrow> byte list \<Rightarrow> nat \<Rightarrow> (bool \<times> RtpPacket) option" where
  "RtpPacket_Parse p buffer sz =
     (let p = p\<lparr>rp_payload_offset := 0, rp_csrcs := [], rp_extensions := []\<rparr> in
      if sz < kFixedHeaderSize then Some (False, p)
      else do {
        (ok, p) \<leftarrow> parse_fixed p buffer sz;
        if \<not> ok then Some (False, p)
        else do {
          (ok, p) \<leftarrow> (if rp_has_extension p then parse_extension p buffer sz else Some (True, p));
          if \<not> ok then Some (False, p)
          else do {
            p \<leftarrow> parse_padding p buffer sz;
            if rp_payload_offset p + rp_padding_size p > sz then Some (False, p)
            else Some (True, p\<lparr>rp_payload_size := sz - rp_payload_offset p - rp_padding_size p\<rparr>) } } })"

definition RtpPacket_Build :: "RtpPacket \<Rightarrow> byte list \<Rightarrow> nat \<Rightarrow> (bool \<times> RtpPacket) option" where
  "RtpPacket_Build p buffer sz = do {
     (ok, p) \<leftarrow> RtpPacket_Parse p buffer sz;
     if \<not> ok then Some (False, p)
     else do {
       d \<leftarrow> seg buffer 0 sz;
       Some (True, p\<lparr>rp_buffer := d, rp_size := sz\<rparr>) } }"

section \<open>Accessors and the absolute send time\<close>

text \<open>\<open>Payload()\<close> with \<open>PayloadSize()\<close>.\<close>

definition Payload :: "RtpPacket \<Rightarrow> byte list option" where
  "Payload p = seg (rp_buffer p) (rp_payload_offset p) (rp_payload_size p)"

definition add_offset_to_payload :: "RtpPacket \<Rightarrow> nat \<Rightarrow> RtpPacket" where
  "add_offset_to_payload p offset =
     p\<lparr>rp_payload_offset := rp_payload_offset p + offset,
       rp_payload_size := size_sub (rp_payload_size p) offset\<rparr>"

definition UpdateSequenceNumber :: "RtpPacket \<Rightarrow> u16 \<Rightarrow> RtpPacket option" where
  "UpdateSequenceNumber p sequence_number =
     (if length (rp_buffer p) \<ge> 4 then do {
        b \<leftarrow> wr (rp_buffer p) 2 (ucast (drop_bit 8 sequence_number AND 0xFF));
        b \<leftarrow> wr b 3 (ucast (sequence_number AND 0xFF));
        Some (p\<lparr>rp_buffer := b, rp_sequence_number := sequence_number\<rparr>) }
      else Some p)"

text \<open>The loop over the extensions: the first that matches is rewritten in place.\<close>

fun update_send_time_loop ::
  "byte \<Rightarrow> u32 \<Rightarrow> byte list \<Rightarrow> Extension list \<Rightarrow> (bool \<times> byte list \<times> Extension list) option" where
  "update_send_time_loop ident t buffer [] = Some (False, buffer, [])"
| "update_send_time_loop ident t buffer (e # es) =
     (if ext_id e \<noteq> ident \<or> ext_len e \<noteq> 3 \<or> ext_data_offset e + 3 > length buffer then do {
        (ok, b, es') \<leftarrow> update_send_time_loop ident t buffer es;
        Some (ok, b, e # es') }
      else
        let t = t AND 0x00FFFFFF in do {
          b \<leftarrow> wr buffer (ext_data_offset e) (ucast (drop_bit 16 t));
          b \<leftarrow> wr b (ext_data_offset e + 1) (ucast (drop_bit 8 t));
          b \<leftarrow> wr b (ext_data_offset e + 2) (ucast t);
          d \<leftarrow> seg b (ext_data_offset e) 3;
          Some (True, b, e\<lparr>ext_data := d\<rparr> # es) })"

definition UpdateAbsoluteSendTimestamp :: "RtpPacket \<Rightarrow> byte \<Rightarrow> u32 \<Rightarrow> (bool \<times> RtpPacket) option" where
  "UpdateAbsoluteSendTimestamp p extension_id abs_send_time =
     (if rp_extension_profile p \<noteq> kOneByteExtensionProfileId then Some (False, p)
      else do {
        (ok, b, es) \<leftarrow> update_send_time_loop extension_id abs_send_time (rp_buffer p) (rp_extensions p);
        Some (ok, p\<lparr>rp_buffer := b, rp_extensions := es\<rparr>) })"

fun get_send_time_loop :: "byte \<Rightarrow> Extension list \<Rightarrow> u32 option" where
  "get_send_time_loop ident [] = None"
| "get_send_time_loop ident (e # es) =
     (if ext_id e = ident \<and> length (ext_data e) = 3
      then Some (push_bit 16 (ucast (ext_data e ! 0)) OR push_bit 8 (ucast (ext_data e ! 1)) OR
                 ucast (ext_data e ! 2))
      else get_send_time_loop ident es)"

definition GetAbsoluteSendTimestamp_id :: "RtpPacket \<Rightarrow> byte \<Rightarrow> u32 option" where
  "GetAbsoluteSendTimestamp_id p extension_id = get_send_time_loop extension_id (rp_extensions p)"

definition GetAbsoluteSendTimestamp :: "RtpPacket \<Rightarrow> u32 option" where
  "GetAbsoluteSendTimestamp p =
     (case rp_abs_send_time_ext_id p of None \<Rightarrow> None
      | Some i \<Rightarrow> GetAbsoluteSendTimestamp_id p i)"

section \<open>Frames\<close>

text \<open>
  The header bytes that the packetizers and \<open>BuildRtxPacket\<close> push one by one into
  \<open>rtp_packet_frame_\<close>, the contributing sources included.
\<close>

definition push32 :: "u32 \<Rightarrow> byte list" where
  "push32 v = [ucast (drop_bit 24 v AND 0xFF), ucast (drop_bit 16 v AND 0xFF),
     ucast (drop_bit 8 v AND 0xFF), ucast (v AND 0xFF)]"

definition frame_header ::
  "byte \<Rightarrow> bool \<Rightarrow> bool \<Rightarrow> byte \<Rightarrow> bool \<Rightarrow> byte \<Rightarrow> u16 \<Rightarrow> u32 \<Rightarrow> u32 \<Rightarrow> u32 list \<Rightarrow> byte list" where
  "frame_header version has_padding has_extension csrc_count marker payload_type sequence_number
       timestamp ssrc csrcs =
     [push_bit 6 version OR push_bit 5 (of_bool has_padding) OR push_bit 4 (of_bool has_extension) OR csrc_count,
      push_bit 7 (of_bool marker) OR payload_type,
      ucast (drop_bit 8 sequence_number AND 0xFF), ucast (sequence_number AND 0xFF)] @
     push32 timestamp @ push32 ssrc @ concat (map push32 (take (unat csrc_count) csrcs))"

section \<open>Safety of the parser\<close>

lemmas rtp_consts = kFixedHeaderSize_def kMaxRtpCsrcSize_def kRtpVersion_def

lemma get32_ReadBigEndian4: "get32 = ReadBigEndian4"
  by (intro ext) (simp add: get32_def ReadBigEndian4_def)

lemma get16_ReadBigEndian2: "get16 = ReadBigEndian2"
  by (intro ext) (simp add: get16_def ReadBigEndian2_def)

lemma get16_total: "i + 2 \<le> length b \<Longrightarrow> \<exists>v. get16 b i = Some v"
  by (simp add: get16_ReadBigEndian2 be16.dec_total)

interpretation csrc: item_codec get32 "\<lambda>v b pos. WriteBigEndian4 b pos v" "be_bytes 4" 4 "\<lambda>_. True"
  using be32.item_codec_axioms by (simp add: get32_ReadBigEndian4)

text \<open>An extension element as the loop records it, between two offsets of the buffer.\<close>

definition ext_ok :: "nat \<Rightarrow> nat \<Rightarrow> byte list \<Rightarrow> Extension \<Rightarrow> bool" where
  "ext_ok lo hi buffer e \<longleftrightarrow> lo < ext_data_offset e \<and> ext_data_offset e + unat (ext_len e) \<le> hi \<and>
     seg buffer (ext_data_offset e) (unat (ext_len e)) = Some (ext_data e) \<and>
     1 \<le> ext_len e \<and> ext_len e \<le> 16 \<and> 1 \<le> ext_id e \<and> ext_id e \<le> 14"

lemma nibble_facts:
  fixes b :: byte
  shows "drop_bit 4 b \<noteq> 0 \<Longrightarrow> drop_bit 4 b \<noteq> 15 \<Longrightarrow> 1 \<le> drop_bit 4 b \<and> drop_bit 4 b \<le> 14"
    and "1 \<le> (b AND 0x0F) + 1" and "(b AND 0x0F) + 1 \<le> 16" and "unat ((b AND 0x0F) + 1) = unat (b AND 0x0F) + 1"
proof -
  have "unat (drop_bit 4 b) < 16"
    using unsigned_less [of b, where 'a = nat] by (simp only: unat_drop_bit_eq) (simp add: drop_bit_eq_div)
  then show "drop_bit 4 b \<noteq> 0 \<Longrightarrow> drop_bit 4 b \<noteq> 15 \<Longrightarrow> 1 \<le> drop_bit 4 b \<and> drop_bit 4 b \<le> 14"
    by (simp add: word_le_nat_alt word_unat_eq_iff del: unat_drop_bit_eq)
  have "unat (b AND 0x0F) \<le> 15"
    using word_and_le1 [of b "0x0F"] by (simp add: word_le_nat_alt)
  then show "unat ((b AND 0x0F) + 1) = unat (b AND 0x0F) + 1"
    by (subst unat_add_lem [THEN iffD1]) simp_all
  with \<open>unat (b AND 0x0F) \<le> 15\<close> show "1 \<le> (b AND 0x0F) + 1" "(b AND 0x0F) + 1 \<le> 16"
    by (simp_all add: word_le_nat_alt)
qed

lemma parse_extension_loop_ok:
  assumes "extension_end \<le> length buffer" and "lo \<le> offset" and "\<forall>e \<in> set exts. ext_ok lo extension_end buffer e"
  shows "\<exists>ok exts'. parse_extension_loop buffer extension_end offset exts = Some (ok, exts') \<and>
    (\<forall>e \<in> set exts'. ext_ok lo extension_end buffer e)"
  using assms
proof (induction buffer extension_end offset exts rule: parse_extension_loop.induct)
  case (1 buffer extension_end offset exts)
  show ?case
  proof (cases "offset < extension_end")
    case False
    with "1.prems" show ?thesis by (auto simp: parse_extension_loop.simps)
  next
    case True
    define b where "b = buffer ! offset"
    have rd: "rd buffer offset = Some b" using True "1.prems" by (simp add: b_def)
    let ?len = "(b AND 0x0F) + 1"
    consider "drop_bit 4 b = 0" | "drop_bit 4 b = 15"
      | "drop_bit 4 b \<noteq> 0" "drop_bit 4 b \<noteq> 15" "extension_end < offset + 1 + unat ?len"
      | "drop_bit 4 b \<noteq> 0" "drop_bit 4 b \<noteq> 15" "offset + 1 + unat ?len \<le> extension_end"
      by linarith
    then show ?thesis
    proof cases
      case 1
      with "1.IH"(1) [OF True rd refl _ "1.prems"(1) _ "1.prems"(3)] "1.prems"(2) True rd show ?thesis
        by (simp add: parse_extension_loop.simps [of _ _ offset])
    next
      case 4
      define d where "d = take (unat ?len) (drop (offset + 1) buffer)"
      let ?e = "\<lparr>ext_id = drop_bit 4 b, ext_len = ?len, ext_data_offset = offset + 1, ext_data = d\<rparr>"
      have sg: "seg buffer (offset + 1) (unat ?len) = Some d"
        using 4 "1.prems"(1) by (simp add: d_def seg_def)
      have "ext_ok lo extension_end buffer ?e"
        using 4 "1.prems"(2) sg nibble_facts [of b] by (simp add: ext_ok_def)
      then have ok: "\<forall>e \<in> set (exts @ [?e]). ext_ok lo extension_end buffer e"
        using "1.prems"(3) by auto
      obtain ok' exts' where "parse_extension_loop buffer extension_end (offset + 1 + unat ?len) (exts @ [?e]) =
          Some (ok', exts')" "\<forall>e \<in> set exts'. ext_ok lo extension_end buffer e"
        using "1.IH"(2) [OF True rd refl 4(1,2) refl _ sg "1.prems"(1) _ ok] 4 "1.prems"(2) by auto
      then show ?thesis using True rd 4 sg
        by (simp add: parse_extension_loop.simps [of _ _ offset] Let_def)
    qed (use True rd "1.prems" in \<open>auto simp: parse_extension_loop.simps [of _ _ offset] Let_def\<close>)
  qed
qed

lemma parse_fixed_ok:
  assumes "sz \<le> length buffer" and "12 \<le> sz"
  shows "\<exists>ok p'. parse_fixed p buffer sz = Some (ok, p') \<and> rp_extensions p' = rp_extensions p \<and>
    (ok \<longrightarrow> rp_payload_offset p' = 12 + 4 * unat (rp_csrc_count p') \<and> rp_payload_offset p' \<le> sz \<and>
      length (rp_csrcs p') = unat (rp_csrc_count p'))"
proof -
  define n where "n = unat (buffer ! 0 AND 0x0f)"
  have r: "rd buffer 0 = Some (buffer ! 0)" "rd buffer 1 = Some (buffer ! 1)"
    using assms by (auto simp: rd_def)
  obtain seq ts ssrc where g: "get16 buffer 2 = Some seq" "get32 buffer 4 = Some ts" "get32 buffer 8 = Some ssrc"
    using assms get16_total [of 2 buffer] csrc.dec_total [of 4 buffer] csrc.dec_total [of 8 buffer] by auto
  have "\<exists>xs. read_items get32 4 n buffer 12 = Some xs \<and> length xs = n" if "12 + n * 4 \<le> sz"
    using that assms(1) by (intro csrc.read_items_total) simp
  then obtain xs where xs: "12 + n * 4 \<le> sz \<Longrightarrow> read_items get32 4 n buffer 12 = Some xs \<and> length xs = n"
    by blast
  show ?thesis
    unfolding parse_fixed_def rtp_consts r bind.bind_lunit Let_def
    using r g xs by (auto simp: n_def [symmetric] mult.commute not_less)
qed

lemma parse_extension_ok:
  assumes "sz \<le> length buffer" and "rp_payload_offset p \<le> sz" and "rp_extensions p = []"
  shows "\<exists>ok p'. parse_extension p buffer sz = Some (ok, p') \<and>
    (ok \<longrightarrow> rp_payload_offset p + 4 \<le> rp_payload_offset p' \<and> rp_payload_offset p' \<le> sz \<and>
      rp_csrcs p' = rp_csrcs p \<and> rp_csrc_count p' = rp_csrc_count p \<and>
      (\<forall>e \<in> set (rp_extensions p'). ext_ok (rp_payload_offset p) (rp_payload_offset p') buffer e))"
proof (cases "sz < rp_payload_offset p + 4")
  case False
  let ?o = "rp_payload_offset p"
  obtain profile len where g: "get16 buffer ?o = Some profile" "get16 buffer (?o + 2) = Some len"
    using False assms(1) get16_total [of ?o buffer] get16_total [of "?o + 2" buffer] by auto
  let ?e = "?o + 4 + unat len * 4"
  have "\<exists>ok exts. parse_extension_loop buffer ?e (?o + 4) [] = Some (ok, exts) \<and>
      (\<forall>e \<in> set exts. ext_ok ?o ?e buffer e)" if "?e \<le> sz"
    using that assms(1) by (intro parse_extension_loop_ok) auto
  with False g assms(3) show ?thesis
    by (auto simp: parse_extension_def Let_def not_less ex_bool_eq)
qed (auto simp: parse_extension_def)

lemma parse_padding_ok:
  assumes "sz \<le> length buffer"
  shows "\<exists>p'. parse_padding p buffer sz = Some p' \<and> rp_payload_offset p' = rp_payload_offset p \<and>
    rp_extensions p' = rp_extensions p \<and> rp_csrcs p' = rp_csrcs p \<and> rp_csrc_count p' = rp_csrc_count p"
  using assms by (auto simp: parse_padding_def)

lemma RtpPacket_Parse_ok:
  assumes "sz \<le> length buffer"
  shows "\<exists>ok p'. RtpPacket_Parse p buffer sz = Some (ok, p') \<and>
    (ok \<longrightarrow> 12 \<le> rp_payload_offset p' \<and>
      rp_payload_offset p' + rp_payload_size p' + rp_padding_size p' = sz \<and>
      length (rp_csrcs p') = unat (rp_csrc_count p') \<and>
      (\<forall>e \<in> set (rp_extensions p'). ext_ok 12 (rp_payload_offset p') buffer e))"
proof (cases "sz < 12")
  case False
  let ?p = "p\<lparr>rp_payload_offset := 0, rp_csrcs := [], rp_extensions := []\<rparr>"
  obtain ok1 p1 where 1: "parse_fixed ?p buffer sz = Some (ok1, p1)" "rp_extensions p1 = []"
    "ok1 \<Longrightarrow> rp_payload_offset p1 = 12 + 4 * unat (rp_csrc_count p1) \<and> rp_payload_offset p1 \<le> sz \<and>
      length (rp_csrcs p1) = unat (rp_csrc_count p1)"
    using parse_fixed_ok [OF assms, of ?p] False by auto
  show ?thesis
  proof (cases ok1)
    case True
    let ?step = "if rp_has_extension p1 then parse_extension p1 buffer sz else Some (True, p1)"
    obtain ok2 p2 where 2: "?step = Some (ok2, p2)"
      "ok2 \<Longrightarrow> 12 \<le> rp_payload_offset p2 \<and> rp_payload_offset p2 \<le> sz \<and>
        length (rp_csrcs p2) = unat (rp_csrc_count p2) \<and>
        (\<forall>e \<in> set (rp_extensions p2). ext_ok 12 (rp_payload_offset p2) buffer e)"
    proof (cases "rp_has_extension p1")
      case True
      have mono: "ext_ok (rp_payload_offset p1) h buffer e \<Longrightarrow> ext_ok 12 h buffer e" for h e
        using 1(3) [OF \<open>ok1\<close>] by (auto simp: ext_ok_def)
      from True show ?thesis
        using that parse_extension_ok [OF assms, of p1] 1(2) 1(3) [OF \<open>ok1\<close>] mono by fastforce
    next
      case False
      with that 1(2) 1(3) [OF \<open>ok1\<close>] show ?thesis by simp
    qed
    obtain p3 where 3: "parse_padding p2 buffer sz = Some p3" "rp_payload_offset p3 = rp_payload_offset p2"
      "rp_extensions p3 = rp_extensions p2" "rp_csrcs p3 = rp_csrcs p2" "rp_csrc_count p3 = rp_csrc_count p2"
      using parse_padding_ok [OF assms] by blast
    show ?thesis
      using False 1(1) True 2 3 by (auto simp: RtpPacket_Parse_def rtp_consts)
  qed (use False 1 in \<open>auto simp: RtpPacket_Parse_def rtp_consts\<close>)
qed (auto simp: RtpPacket_Parse_def rtp_consts)

section \<open>Parsing a built frame\<close>

lemma push32_be_bytes: "push32 v = be_bytes 4 v"
proof -
  have ff: "(255 :: u32) = mask 8" by (simp add: mask_eq_exp_minus_1)
  have "ucast (w AND 0xFF) = (ucast w :: byte)" for w :: u32
    by (rule bit_word_eqI) (auto simp: ff bit_simps)
  then show ?thesis by (simp add: push32_def be_bytes_def upt_rec)
qed

lemma seq_bytes: "[ucast (drop_bit 8 s AND 0xFF), ucast (s AND 0xFF)] = be_bytes 2 (s :: u16)"
proof -
  have ff: "(255 :: u16) = mask 8" by (simp add: mask_eq_exp_minus_1)
  have "ucast (w AND 0xFF) = (ucast w :: byte)" for w :: u16
    by (rule bit_word_eqI) (auto simp: ff bit_simps)
  then show ?thesis by (simp add: be_bytes_def upt_rec)
qed

lemma small_bits: "unat (c :: byte) < 2 ^ k \<Longrightarrow> k \<le> n \<Longrightarrow> \<not> bit c n"
proof -
  assume "unat c < 2 ^ k" "k \<le> n"
  then have "take_bit k (unat c) = unat c" by (simp add: take_bit_nat_eq_self)
  then have "\<not> bit (unat c) n" using \<open>k \<le> n\<close> by (metis bit_take_bit_iff not_less)
  then show ?thesis by (auto simp: bit_unsigned_iff dest: bit_imp_le_length)
qed

lemma and_1_bit: "drop_bit k b AND 1 \<noteq> 0 \<longleftrightarrow> bit b k" for b :: byte
  by (simp add: and_one_eq odd_iff_mod_2_eq_one [symmetric] bit_iff_odd_drop_bit)

lemma first_byte:
  fixes c :: byte and hp hx :: bool
  assumes "unat c < 16"
  defines "b \<equiv> push_bit 6 2 OR push_bit 5 (of_bool hp) OR push_bit 4 (of_bool hx) OR c"
  shows "drop_bit 6 b AND 0x03 = 2" and "drop_bit 5 b AND 0x01 \<noteq> 0 \<longleftrightarrow> hp"
    and "drop_bit 4 b AND 0x01 \<noteq> 0 \<longleftrightarrow> hx" and "b AND 0x0f = c"
proof -
  have c: "\<not> bit c n" if "4 \<le> n" for n using assms(1) that small_bits [of c 4 n] by simp
  show "drop_bit 6 b AND 0x03 = 2"
    by (rule bit_word_eqI) (auto simp: b_def bit_simps c numeral_eq_Suc elim!: less_SucE)
  show "drop_bit 5 b AND 0x01 \<noteq> 0 \<longleftrightarrow> hp" "drop_bit 4 b AND 0x01 \<noteq> 0 \<longleftrightarrow> hx"
    unfolding and_1_bit by (auto simp: b_def bit_simps c)
  show "b AND 0x0f = c"
    by (rule bit_word_eqI) (auto simp: b_def bit_simps c numeral_eq_Suc elim!: less_SucE)
qed

lemma second_byte:
  fixes pt :: byte and m :: bool
  assumes "unat pt < 128"
  defines "b \<equiv> push_bit 7 (of_bool m) OR pt"
  shows "drop_bit 7 b AND 0x01 \<noteq> 0 \<longleftrightarrow> m" and "b AND 0x7f = pt"
proof -
  have c: "\<not> bit pt n" if "7 \<le> n" for n using assms(1) that small_bits [of pt 7 n] by simp
  show "drop_bit 7 b AND 0x01 \<noteq> 0 \<longleftrightarrow> m"
    unfolding and_1_bit by (auto simp: b_def bit_simps c)
  show "b AND 0x7f = pt"
    by (rule bit_word_eqI) (auto simp: b_def bit_simps c numeral_eq_Suc elim!: less_SucE)
qed

lemma frame_header_length [simp]:
  "length csrcs = unat cc \<Longrightarrow> length (frame_header v hp hx cc m pt seq ts ssrc csrcs) = 12 + 4 * length csrcs"
  using csrc.concat_enc_length [of csrcs]
  by (simp add: frame_header_def push32_be_bytes [abs_def])

lemma parse_fixed_frame:
  assumes "length csrcs = unat cc" and "unat cc < 16" and "unat pt < 128" and "12 + 4 * length csrcs \<le> sz"
  shows "parse_fixed p (frame_header kRtpVersion hp hx cc m pt seq ts ssrc csrcs @ rest) sz =
    Some (True, p\<lparr>rp_version := kRtpVersion, rp_has_padding := hp, rp_has_extension := hx,
      rp_csrc_count := cc, rp_marker := m, rp_payload_type := pt, rp_sequence_number := seq,
      rp_timestamp := ts, rp_ssrc := ssrc, rp_csrcs := csrcs,
      rp_payload_offset := 12 + 4 * length csrcs\<rparr>)"
proof -
  define b0 b1 where "b0 = (push_bit 6 2 OR push_bit 5 (of_bool hp) OR push_bit 4 (of_bool hx) OR cc :: byte)"
    and "b1 = (push_bit 7 (of_bool m) OR pt :: byte)"
  let ?cs = "concat (map (be_bytes 4) csrcs)"
  let ?f = "frame_header kRtpVersion hp hx cc m pt seq ts ssrc csrcs @ rest"
  have f: "?f = [b0, b1] @ be_bytes 2 seq @ be_bytes 4 ts @ be_bytes 4 ssrc @ ?cs @ rest"
    using assms(1) seq_bytes [of seq]
    by (simp add: frame_header_def b0_def b1_def kRtpVersion_def push32_be_bytes [abs_def])
  have r: "rd ?f 0 = Some b0" "rd ?f 1 = Some b1" unfolding f by (simp_all add: rd_def)
  have s: "get16 ?f 2 = Some seq"
    unfolding f get16_ReadBigEndian2 using be16.dec_enc [of "[b0, b1]" seq] by (simp add: numeral_2_eq_2)
  have t: "get32 ?f 4 = Some ts"
    unfolding f using csrc.dec_enc [of "[b0, b1] @ be_bytes 2 seq" ts] by simp
  have u: "get32 ?f 8 = Some ssrc"
    unfolding f using csrc.dec_enc [of "[b0, b1] @ be_bytes 2 seq @ be_bytes 4 ts" ssrc] by simp
  have c: "read_items get32 4 (unat cc) ?f 12 = Some csrcs"
    unfolding f using csrc.read_items_enc [of csrcs "[b0, b1] @ be_bytes 2 seq @ be_bytes 4 ts @ be_bytes 4 ssrc"]
      assms(1) by simp
  show ?thesis
    unfolding parse_fixed_def r s t u bind.bind_lunit Let_def
    using assms c by (simp add: first_byte [OF assms(2), of hp hx, folded b0_def] second_byte [OF assms(3), of m, folded b1_def] rtp_consts mult.commute
        not_less)
qed

text \<open>The absolute-send-time extension block: profile, length, element header and three bytes.\<close>

definition abs_send_time_bytes :: "byte \<Rightarrow> byte list \<Rightarrow> byte list" where
  "abs_send_time_bytes ident t = [0xBE, 0xDE, 0, 1, push_bit 4 ident OR 2] @ t"

lemma element_byte:
  fixes ident :: byte
  assumes "unat ident < 16"
  shows "drop_bit 4 (push_bit 4 ident OR 2) = ident" and "(push_bit 4 ident OR 2) AND 0x0F = 2"
proof -
  have c: "n < 4" if "bit ident n" for n using assms(1) that small_bits [of ident 4 n] by fastforce
  have f: "(0x0F :: byte) = mask 4" by (simp add: mask_eq_exp_minus_1)
  show "drop_bit 4 (push_bit 4 ident OR 2) = ident"
    by (rule bit_word_eqI) (auto simp: bit_simps bit_2_iff dest: c)
  show "(push_bit 4 ident OR 2) AND 0x0F = 2"
    unfolding f by (rule bit_word_eqI) (auto simp: bit_simps bit_2_iff dest: c)
qed

lemma parse_extension_abs:
  assumes "1 \<le> unat ident" and "unat ident \<le> 14" and "length t = 3" and "rp_payload_offset p = length hdr"
    and "rp_extensions p = []" and "length hdr + 8 \<le> sz"
  shows "parse_extension p (hdr @ abs_send_time_bytes ident t @ rest) sz =
    Some (True, p\<lparr>rp_extension_profile := kOneByteExtensionProfileId, rp_extension_len := 1,
      rp_payload_offset := length hdr + 8,
      rp_extensions := [\<lparr>ext_id = ident, ext_len = 3, ext_data_offset = length hdr + 5, ext_data = t\<rparr>]\<rparr>)"
proof -
  let ?b = "hdr @ abs_send_time_bytes ident t @ rest" and ?o = "length hdr"
  let ?e = "\<lparr>ext_id = ident, ext_len = 3, ext_data_offset = ?o + 5, ext_data = t\<rparr>"
  have g: "get16 ?b ?o = Some 0xBEDE" "get16 ?b (?o + 2) = Some 1"
    using assms(3) by (simp_all add: get16_def rd_def abs_send_time_bytes_def nth_append)
  have r: "rd ?b (?o + 4) = Some (push_bit 4 ident OR 2)"
    by (simp add: rd_def abs_send_time_bytes_def nth_append)
  have sg: "seg ?b (?o + 5) 3 = Some t"
    using assms(3) by (simp add: seg_def abs_send_time_bytes_def)
  have i: "ident \<noteq> 0" "ident \<noteq> 15"
    using assms(1,2) by (auto simp: word_unat_eq_iff)
  have "parse_extension_loop ?b (?o + 8) (?o + 8) [?e] = Some (True, [?e])"
    by (simp add: parse_extension_loop.simps)
  moreover have "parse_extension_loop ?b (?o + 8) (?o + 4) [] =
      parse_extension_loop ?b (?o + 8) (?o + 8) [?e]"
  proof (subst parse_extension_loop.simps, goal_cases)
    case 1
    have "unat ident < 16" using assms(2) by simp
    note el = element_byte [OF this]
    have *: "?o + 4 + 1 = ?o + 5" "?o + 5 + 3 = ?o + 8" "unat (3 :: byte) = 3" by simp_all
    show ?case
      using i sg r by (simp only: Let_def bind.bind_lunit el) (simp add: * del: One_nat_def)
  qed
  ultimately show ?thesis
    using assms(4-6) g by (simp add: parse_extension_def Let_def kOneByteExtensionProfileId_def
        add.commute [of 8])
qed

text \<open>What a built packet holds.\<close>

definition holds :: "RtpPacket \<Rightarrow> bool \<Rightarrow> byte \<Rightarrow> u16 \<Rightarrow> u32 \<Rightarrow> u32 \<Rightarrow> byte list \<Rightarrow> bool" where
  "holds p marker pt seq ts ssrc payload \<longleftrightarrow> rp_version p = 2 \<and> rp_marker p = marker \<and>
     rp_payload_type p = pt \<and> rp_sequence_number p = seq \<and> rp_timestamp p = ts \<and> rp_ssrc p = ssrc \<and>
     rp_size p = length (rp_buffer p) \<and> Payload p = Some payload"

definition send_time_block :: "byte option \<Rightarrow> byte list \<Rightarrow> byte list" where
  "send_time_block eid t = (case eid of None \<Rightarrow> [] | Some i \<Rightarrow> abs_send_time_bytes i t)"

definition valid_ext_id :: "byte option \<Rightarrow> bool" where
  "valid_ext_id eid = (case eid of None \<Rightarrow> True | Some i \<Rightarrow> 1 \<le> unat i \<and> unat i \<le> 14)"

lemma parse_padding_frame:
  assumes "rp_payload_offset p = length pre" and "rp_has_padding p = hp"
    and "hp \<Longrightarrow> body \<noteq> [] \<and> last body \<noteq> 0"
  shows "parse_padding p (pre @ body) (length (pre @ body)) =
    Some (p\<lparr>rp_padding_size := (if hp then unat (last body) else 0)\<rparr>)"
proof (cases hp)
  case True
  then have "rd (pre @ body) (length (pre @ body) - 1) = Some (last body)"
    using assms(3) by (cases body rule: rev_cases) (auto simp: rd_def nth_append)
  with True assms show ?thesis by (simp add: parse_padding_def)
qed (use assms(2) in \<open>simp add: parse_padding_def\<close>)

lemma Build_frame:
  fixes m :: bool and seq :: u16 and ts ssrc :: u32
  assumes "valid_ext_id eid" and "length t = 3" and "unat pt < 128"
    and "hp \<Longrightarrow> body \<noteq> [] \<and> last body \<noteq> 0 \<and> unat (last body) \<le> length body"
  defines "frame \<equiv> frame_header kRtpVersion hp (eid \<noteq> None) 0 m pt seq ts ssrc [] @ send_time_block eid t @ body"
    and "pad \<equiv> (if hp then unat (last body) else 0)"
    and "off \<equiv> (if eid = None then 12 else 20)"
  shows "\<exists>p'. RtpPacket_Build p frame (length frame) = Some (True, p') \<and>
    holds p' m pt seq ts ssrc (take (length body - pad) body) \<and> rp_buffer p' = frame \<and>
    rp_has_padding p' = hp \<and> rp_has_extension p' = (eid \<noteq> None) \<and> rp_padding_size p' = pad \<and>
    rp_payload_size p' = length body - pad \<and> rp_payload_offset p' = off \<and> rp_csrcs p' = [] \<and>
    (eid \<noteq> None \<longrightarrow> rp_extension_profile p' = kOneByteExtensionProfileId) \<and>
    rp_extensions p' = (case eid of None \<Rightarrow> []
      | Some i \<Rightarrow> [\<lparr>ext_id = i, ext_len = 3, ext_data_offset = 17, ext_data = t\<rparr>])"
proof -
  let ?H = "frame_header kRtpVersion hp (eid \<noteq> None) 0 m pt seq ts ssrc []" and ?E = "send_time_block eid t"
  let ?p0 = "p\<lparr>rp_payload_offset := 0, rp_csrcs := [], rp_extensions := []\<rparr>"
  define p1 where "p1 = ?p0\<lparr>rp_version := kRtpVersion, rp_has_padding := hp, rp_has_extension := (eid \<noteq> None),
    rp_csrc_count := 0, rp_marker := m, rp_payload_type := pt, rp_sequence_number := seq, rp_timestamp := ts,
    rp_ssrc := ssrc, rp_csrcs := [], rp_payload_offset := 12\<rparr>"
  have H: "length ?H = 12" by simp
  have lE: "length (?H @ ?E) = off"
    using assms(2) by (auto simp: H off_def send_time_block_def abs_send_time_bytes_def split: option.split)
  have F: "parse_fixed ?p0 frame (length frame) = Some (True, p1)"
    using parse_fixed_frame [of "[]" 0 pt "length frame" ?p0 hp "eid \<noteq> None" m seq ts ssrc "?E @ body"] assms(3)
    by (simp add: frame_def p1_def)
  obtain p2 where X: "(if rp_has_extension p1 then parse_extension p1 frame (length frame) else Some (True, p1)) =
      Some (True, p2)"
    and p2: "p2 = p1\<lparr>rp_payload_offset := off, rp_extensions := (case eid of None \<Rightarrow> []
      | Some i \<Rightarrow> [\<lparr>ext_id = i, ext_len = 3, ext_data_offset = 17, ext_data = t\<rparr>]),
      rp_extension_profile := (if eid = None then rp_extension_profile p1 else kOneByteExtensionProfileId),
      rp_extension_len := (if eid = None then rp_extension_len p1 else 1)\<rparr>"
  proof (cases eid)
    case None
    then show ?thesis by (intro that [of p1]) (simp_all add: p1_def off_def)
  next
    case (Some i)
    have "parse_extension p1 (?H @ abs_send_time_bytes i t @ body) (length frame) =
      Some (True, p1\<lparr>rp_extension_profile := kOneByteExtensionProfileId, rp_extension_len := 1,
        rp_payload_offset := length ?H + 8, rp_extensions := [\<lparr>ext_id = i, ext_len = 3,
          ext_data_offset = length ?H + 5, ext_data = t\<rparr>]\<rparr>)"
      using assms(1,2) Some
      by (intro parse_extension_abs)
        (simp_all add: valid_ext_id_def p1_def frame_def send_time_block_def abs_send_time_bytes_def)
    moreover have "frame = ?H @ abs_send_time_bytes i t @ body"
      using Some by (simp add: frame_def send_time_block_def)
    ultimately show ?thesis using Some
      by (intro that) (simp_all add: p1_def off_def)
  qed
  have o2: "rp_payload_offset p2 = length (?H @ ?E)" and h2: "rp_has_padding p2 = hp"
    using lE by (simp_all add: p2 p1_def)
  have fr: "frame = (?H @ ?E) @ body" by (simp add: frame_def)
  have P: "parse_padding p2 frame (length frame) = Some (p2\<lparr>rp_padding_size := pad\<rparr>)"
    unfolding fr pad_def using o2 h2 assms(4) by (intro parse_padding_frame) auto
  have lf: "length frame = off + length body" using lE fr by (metis length_append)
  have padle: "pad \<le> length body" using assms(4) by (simp add: pad_def)
  let ?p3 = "p2\<lparr>rp_padding_size := pad, rp_payload_size := length body - pad\<rparr>"
  have "RtpPacket_Parse p frame (length frame) = Some (True, ?p3)"
  proof -
    have "\<not> length frame < 12" using lf by (simp add: off_def)
    moreover have "\<not> length frame < rp_payload_offset p2 + pad"
      "length frame - rp_payload_offset p2 - pad = length body - pad"
      using lf padle o2 lE by simp_all
    ultimately show ?thesis
      unfolding RtpPacket_Parse_def Let_def kFixedHeaderSize_def F
      by (simp only: if_False bind.bind_lunit prod.case not_True_eq_False X P) simp
  qed
  then have B: "RtpPacket_Build p frame (length frame) =
      Some (True, ?p3\<lparr>rp_buffer := frame, rp_size := length frame\<rparr>)"
    by (simp add: RtpPacket_Build_def seg_def)
  have "seg frame off (length body - pad) = Some (take (length body - pad) body)"
    using lE lf fr by (simp add: seg_def)
  then show ?thesis
    by (intro exI [of _ "?p3\<lparr>rp_buffer := frame, rp_size := length frame\<rparr>"] conjI B)
      (simp_all add: holds_def Payload_def p2 p1_def kRtpVersion_def)
qed

section \<open>Properties\<close>

lemma RtpPacket_Build_ok:
  assumes "sz \<le> length buffer"
  shows "\<exists>ok p'. RtpPacket_Build p buffer sz = Some (ok, p') \<and>
    (ok \<longrightarrow> 12 \<le> rp_payload_offset p' \<and>
      rp_payload_offset p' + rp_payload_size p' + rp_padding_size p' = sz \<and> rp_size p' = sz \<and>
      rp_buffer p' = take sz buffer \<and> length (rp_csrcs p') = unat (rp_csrc_count p') \<and>
      (\<forall>e \<in> set (rp_extensions p'). ext_ok 12 (rp_payload_offset p') buffer e) \<and>
      Payload p' = Some (take (rp_payload_size p') (drop (rp_payload_offset p') buffer)))"
proof -
  obtain ok p1 where p1: "RtpPacket_Parse p buffer sz = Some (ok, p1)"
    "ok \<Longrightarrow> 12 \<le> rp_payload_offset p1 \<and>
      rp_payload_offset p1 + rp_payload_size p1 + rp_padding_size p1 = sz \<and>
      length (rp_csrcs p1) = unat (rp_csrc_count p1) \<and>
      (\<forall>e \<in> set (rp_extensions p1). ext_ok 12 (rp_payload_offset p1) buffer e)"
    using RtpPacket_Parse_ok [OF assms, of p] by blast
  show ?thesis
  proof (cases ok)
    case True
    let ?p = "p1\<lparr>rp_buffer := take sz buffer, rp_size := sz\<rparr>"
    have B: "RtpPacket_Build p buffer sz = Some (True, ?p)"
      using p1(1) True assms by (simp add: RtpPacket_Build_def seg_def)
    have "Payload ?p = Some (take (rp_payload_size p1) (drop (rp_payload_offset p1) buffer))"
      using p1(2) [OF True] assms by (auto simp: Payload_def seg_def drop_take min_def)
    with B p1(2) [OF True] show ?thesis by auto
  next
    case False
    with p1(1) show ?thesis by (auto simp: RtpPacket_Build_def)
  qed
qed

text \<open>
  C34: parsing an RTP packet reads only the received bytes, for every input, and always ends. On
  success header, payload and padding make up the packet exactly, the contributing sources are
  as many as announced, and every header extension lies between the fixed header and the payload
  with an id and a length the one-byte format allows; the payload accessor is then in bounds.
\<close>

theorem RtpPacket_Build_safe:
  assumes "sz \<le> length buffer"
  shows "\<exists>ok p'. RtpPacket_Build p buffer sz = Some (ok, p') \<and>
    (ok \<longrightarrow> 12 \<le> rp_payload_offset p' \<and>
      rp_payload_offset p' + rp_payload_size p' + rp_padding_size p' = sz \<and> rp_size p' = sz \<and>
      rp_buffer p' = take sz buffer \<and> length (rp_csrcs p') = unat (rp_csrc_count p') \<and>
      (\<forall>e \<in> set (rp_extensions p'). ext_ok 12 (rp_payload_offset p') buffer e) \<and>
      Payload p' = Some (take (rp_payload_size p') (drop (rp_payload_offset p') buffer)))"
  by (rule RtpPacket_Build_ok [OF assms])

theorem RtpPacket_Build_safe_witness:
  "\<exists>ok p'. RtpPacket_Build new_RtpPacket (replicate 20 0xFF) 20 = Some (ok, p') \<and>
    (ok \<longrightarrow> 12 \<le> rp_payload_offset p')"
  using RtpPacket_Build_safe [of 20 "replicate 20 0xFF" new_RtpPacket] by auto

lemma send_time_value:
  fixes t :: u32
  shows "push_bit 16 (ucast (ucast (drop_bit 16 (t AND 0x00FFFFFF)) :: byte)) OR
    push_bit 8 (ucast (ucast (drop_bit 8 (t AND 0x00FFFFFF)) :: byte)) OR
    ucast (ucast (t AND 0x00FFFFFF) :: byte) = t AND 0x00FFFFFF"
proof (rule bit_word_eqI)
  fix n assume n: "n < LENGTH(32)"
  have f: "(0x00FFFFFF :: u32) = mask 24" by (simp add: mask_eq_exp_minus_1)
  consider "n < 8" | "8 \<le> n" "n < 16" | "16 \<le> n" "n < 24" | "24 \<le> n" by linarith
  then show "bit (push_bit 16 (ucast (ucast (drop_bit 16 (t AND 0x00FFFFFF)) :: byte)) OR
      push_bit 8 (ucast (ucast (drop_bit 8 (t AND 0x00FFFFFF)) :: byte)) OR
      ucast (ucast (t AND 0x00FFFFFF) :: byte) :: u32) n = bit (t AND 0x00FFFFFF) n"
    using n unfolding f by cases (auto simp: bit_simps)
qed

text \<open>The three bytes of a send time, as they are written.\<close>

definition send_time_bytes :: "u32 \<Rightarrow> byte list" where
  "send_time_bytes t = [ucast (drop_bit 16 (t AND 0x00FFFFFF)), ucast (drop_bit 8 (t AND 0x00FFFFFF)),
     ucast (t AND 0x00FFFFFF)]"

lemma update_send_time_loop_spec:
  assumes "\<forall>e \<in> set es. ext_ok lo hi b0 e" and "hi \<le> length b" and "length b \<le> length b0"
  shows "\<exists>b' es'. update_send_time_loop ident t b es =
      Some (\<exists>e \<in> set es. ext_id e = ident \<and> ext_len e = 3, b', es') \<and>
    length b' = length b \<and> drop hi b' = drop hi b \<and> take lo b' = take lo b \<and>
    ((\<exists>e \<in> set es. ext_id e = ident \<and> ext_len e = 3) \<longrightarrow>
      get_send_time_loop ident es' = Some (t AND 0x00FFFFFF))"
  using assms(1)
proof (induction es)
  case (Cons e es)
  have e: "lo < ext_data_offset e" "ext_data_offset e + unat (ext_len e) \<le> hi"
    "length (ext_data e) = unat (ext_len e)"
    using Cons.prems by (auto simp: ext_ok_def dest: seg_length)
  have l3: "unat (ext_len e) = 3 \<longleftrightarrow> ext_len e = 3" by (auto simp: word_unat_eq_iff)
  show ?case
  proof (cases "ext_id e = ident \<and> ext_len e = 3")
    case True
    then have fit: "ext_data_offset e + 3 \<le> length b" using e assms(2) by simp
    let ?o = "ext_data_offset e"
    obtain b' where b': "put b ?o (send_time_bytes t) = Some b'"
      using fit by (simp add: put_SomeI send_time_bytes_def)
    have sg: "seg b' ?o 3 = Some (send_time_bytes t)"
      using seg_put_same [OF b'] by (simp add: send_time_bytes_def numeral_3_eq_3)
    have "update_send_time_loop ident t b (e # es) = Some (True, b', e\<lparr>ext_data := send_time_bytes t\<rparr> # es)"
      using True fit b' sg
      by (simp add: Let_def wr_put put_put_bind send_time_bytes_def numeral_2_eq_2)
    moreover have "length b' = length b" using put_length [OF b'] .
    moreover have "drop hi b' = drop hi b" "take lo b' = take lo b"
      using b' e True by (auto intro: put_drop put_take simp: send_time_bytes_def)
    ultimately show ?thesis
      using True send_time_value [of t] by (auto simp: send_time_bytes_def)
  next
    case False
    then have skip: "ext_id e \<noteq> ident \<or> ext_len e \<noteq> 3 \<or> length b < ext_data_offset e + 3" by auto
    from Cons obtain b' es' where "update_send_time_loop ident t b es =
        Some (\<exists>e \<in> set es. ext_id e = ident \<and> ext_len e = 3, b', es')"
      "length b' = length b" "drop hi b' = drop hi b" "take lo b' = take lo b"
      "(\<exists>e \<in> set es. ext_id e = ident \<and> ext_len e = 3) \<longrightarrow>
        get_send_time_loop ident es' = Some (t AND 0x00FFFFFF)"
      by auto
    with False skip e(3) l3 show ?thesis by (auto simp del: One_nat_def)
  qed
qed simp

lemma Build_parts:
  assumes "RtpPacket_Build p0 buffer sz = Some (True, p)" and "sz \<le> length buffer"
  shows "12 \<le> rp_payload_offset p" and "rp_payload_offset p + rp_payload_size p + rp_padding_size p = sz"
    and "rp_buffer p = take sz buffer"
    and "\<forall>e \<in> set (rp_extensions p). ext_ok 12 (rp_payload_offset p) buffer e"
proof -
  obtain p1 where "RtpPacket_Parse p0 buffer sz = Some (True, p1)"
    and p: "p = p1\<lparr>rp_buffer := take sz buffer, rp_size := sz\<rparr>"
    using assms by (auto simp: RtpPacket_Build_def seg_def Option.bind_eq_Some_conv split: if_splits)
  with RtpPacket_Parse_ok [OF assms(2), of p0]
  show "12 \<le> rp_payload_offset p" "rp_payload_offset p + rp_payload_size p + rp_padding_size p = sz"
    "rp_buffer p = take sz buffer" "\<forall>e \<in> set (rp_extensions p). ext_ok 12 (rp_payload_offset p) buffer e"
    by auto
qed

text \<open>
  writing the send time into a parsed packet never leaves the buffer. It succeeds exactly
  when the packet has a one-byte-format extension with that id and three bytes of data; then the
  value read back is the low 24 bits of the value given, and the fixed header, the payload and
  the packet size are untouched.
\<close>

theorem UpdateAbsoluteSendTimestamp_correct:
  assumes "RtpPacket_Build p0 buffer sz = Some (True, p)" and "sz \<le> length buffer"
  shows "\<exists>p'. UpdateAbsoluteSendTimestamp p ident t =
      Some (rp_extension_profile p = kOneByteExtensionProfileId \<and>
        (\<exists>e \<in> set (rp_extensions p). ext_id e = ident \<and> ext_len e = 3), p') \<and>
    length (rp_buffer p') = length (rp_buffer p) \<and> take 12 (rp_buffer p') = take 12 (rp_buffer p) \<and>
    Payload p' = Payload p \<and>
    (rp_extension_profile p = kOneByteExtensionProfileId \<and>
        (\<exists>e \<in> set (rp_extensions p). ext_id e = ident \<and> ext_len e = 3) \<longrightarrow>
      GetAbsoluteSendTimestamp_id p' ident = Some (t AND 0x00FFFFFF))"
proof (cases "rp_extension_profile p = kOneByteExtensionProfileId")
  case False
  then show ?thesis by (simp add: UpdateAbsoluteSendTimestamp_def)
next
  case True
  note P = Build_parts [OF assms]
  let ?f = "\<exists>e \<in> set (rp_extensions p). ext_id e = ident \<and> ext_len e = 3"
  have len: "rp_payload_offset p \<le> length (rp_buffer p)" "length (rp_buffer p) \<le> length buffer"
    using P(2,3) assms(2) by auto
  obtain b' es' where u: "update_send_time_loop ident t (rp_buffer p) (rp_extensions p) = Some (?f, b', es')"
    "length b' = length (rp_buffer p)" "drop (rp_payload_offset p) b' = drop (rp_payload_offset p) (rp_buffer p)"
    "take 12 b' = take 12 (rp_buffer p)"
    "?f \<longrightarrow> get_send_time_loop ident es' = Some (t AND 0x00FFFFFF)"
    using update_send_time_loop_spec [OF P(4) len, of ident t] by blast
  then have "UpdateAbsoluteSendTimestamp p ident t =
      Some (?f, p\<lparr>rp_buffer := b', rp_extensions := es'\<rparr>)"
    using True by (simp add: UpdateAbsoluteSendTimestamp_def)
  with u True show ?thesis
    by (intro exI [of _ "p\<lparr>rp_buffer := b', rp_extensions := es'\<rparr>"])
      (simp add: Payload_def seg_def GetAbsoluteSendTimestamp_id_def)
qed

theorem UpdateAbsoluteSendTimestamp_correct_witness:
  "\<exists>p p'. RtpPacket_Build new_RtpPacket
      [0x90, 96, 0, 1, 0, 0, 0, 0, 0, 0, 0, 7, 0xBE, 0xDE, 0, 1, 0x32, 0, 0, 0, 5] 21 = Some (True, p) \<and>
    UpdateAbsoluteSendTimestamp p 3 0x123456 = Some (True, p') \<and>
    GetAbsoluteSendTimestamp_id p' 3 = Some 0x123456"
proof -
  let ?b = "[0x90, 96, 0, 1, 0, 0, 0, 0, 0, 0, 0, 7, 0xBE, 0xDE, 0, 1, 0x32, 0, 0, 0, 5] :: byte list"
  have eq: "frame_header kRtpVersion False (Some (3 :: byte) \<noteq> None) 0 False 96 1 0 7 [] @
      send_time_block (Some 3) [0, 0, 0] @ [5] = ?b"
    by (simp add: frame_header_def push32_def kRtpVersion_def send_time_block_def abs_send_time_bytes_def)
  have l: "length ?b = 21" by simp
  obtain p where p: "RtpPacket_Build new_RtpPacket ?b 21 = Some (True, p)"
    "rp_extension_profile p = kOneByteExtensionProfileId"
    "rp_extensions p = [\<lparr>ext_id = 3, ext_len = 3, ext_data_offset = 17, ext_data = [0, 0, 0]\<rparr>]"
    using Build_frame [where eid = "Some 3" and t = "[0, 0, 0]" and pt = 96 and hp = False and body = "[5]"
        and m = False and seq = 1 and ts = 0 and ssrc = 7 and p = new_RtpPacket]
    unfolding eq l by (auto simp: valid_ext_id_def)
  then show ?thesis
    using UpdateAbsoluteSendTimestamp_correct [OF p(1), of 3 "0x123456"] by auto
qed

end
