(* ===== verification/Packetizer.thy ===== *)
theory Packetizer
  imports RtpPacket
begin

text \<open>
  The RTP packetizers: \<open>src/rtp/rtp_packetizer/rtp_packetizer.{h,cpp}\<close> (base class),
  \<open>rtp_packetizer_h264.cpp\<close> and \<open>rtp_packetizer_generic.cpp\<close>, and the receiving side of H.264,
  \<open>src/rtp/rtp_packet/rtp_packet_h264.{h,cpp}\<close>.

  One record holds the members the three classes share. The flag \<open>use_rtp_packet_to_send\<close> only
  chooses between \<open>RtpPacket\<close> and its subclass for the new object; both are filled by
  \<open>RtpPacket::Build\<close>, and the model has the base part. The mutex serialises calls; a call is one
  step of the model.
\<close>

section \<open>Base class\<close>

definition MAX_NALU_LEN :: nat where "MAX_NALU_LEN = 1150"
definition PT_H264 :: u32 where "PT_H264 = 96"
definition PT_RTX :: byte where "PT_RTX = 127"
definition NAL_NALU :: byte where "NAL_NALU = 1"
definition NAL_FU_A :: byte where "NAL_FU_A = 28"

record Packetizer =
  pz_version :: byte
  pz_has_padding :: bool
  pz_has_extension :: bool
  pz_csrc_count :: byte
  pz_marker :: bool
  pz_payload_type :: u32
  pz_sequence_number :: u16
  pz_timestamp :: u32
  pz_ssrc :: u32
  pz_csrcs :: "u32 list"
  pz_abs_send_time_ext_id :: "byte option"
  pz_frame :: "byte list"

definition new_Packetizer :: "u32 \<Rightarrow> u32 \<Rightarrow> Packetizer" where
  "new_Packetizer ssrc payload_type = \<lparr>pz_version = kRtpVersion, pz_has_padding = False,
     pz_has_extension = False, pz_csrc_count = 0, pz_marker = False, pz_payload_type = payload_type,
     pz_sequence_number = 0, pz_timestamp = 0, pz_ssrc = ssrc, pz_csrcs = [],
     pz_abs_send_time_ext_id = None, pz_frame = []\<rparr>"

definition IsValidOneByteExtensionId :: "u32 \<Rightarrow> bool" where
  "IsValidOneByteExtensionId i \<longleftrightarrow> i \<ge> 1 \<and> i \<le> 14"

definition SetAbsoluteSendTimeExtensionId :: "Packetizer \<Rightarrow> byte option \<Rightarrow> Packetizer" where
  "SetAbsoluteSendTimeExtensionId z extension_id =
     (case extension_id of
        Some i \<Rightarrow> if \<not> IsValidOneByteExtensionId (ucast i) then z\<lparr>pz_abs_send_time_ext_id := None\<rparr>
                  else z\<lparr>pz_abs_send_time_ext_id := extension_id\<rparr>
      | None \<Rightarrow> z\<lparr>pz_abs_send_time_ext_id := extension_id\<rparr>)"

definition HasAbsoluteSendTimeExtension :: "Packetizer \<Rightarrow> bool" where
  "HasAbsoluteSendTimeExtension z \<longleftrightarrow> pz_abs_send_time_ext_id z \<noteq> None"

definition AppendAbsoluteSendTimeExtension :: "Packetizer \<Rightarrow> byte list \<Rightarrow> byte list" where
  "AppendAbsoluteSendTimeExtension z frame =
     (case pz_abs_send_time_ext_id z of None \<Rightarrow> frame
      | Some i \<Rightarrow> frame @ [ucast (drop_bit 8 kOneByteExtensionProfileId), ucast kOneByteExtensionProfileId,
          0, 1, push_bit 4 i OR 2] @ replicate 3 0)"

text \<open>
  The beginning of every packet: the header members are set, the sequence number is advanced,
  and header, sources and extension are pushed into the cleared frame.
\<close>

definition start_frame :: "Packetizer \<Rightarrow> bool \<Rightarrow> bool \<Rightarrow> byte \<Rightarrow> u32 \<Rightarrow> Packetizer" where
  "start_frame z has_padding marker payload_type rtp_timestamp =
     (let z = z\<lparr>pz_version := kRtpVersion, pz_has_padding := has_padding,
          pz_has_extension := HasAbsoluteSendTimeExtension z, pz_csrc_count := 0,
          pz_marker := marker, pz_sequence_number := pz_sequence_number z + 1,
          pz_timestamp := rtp_timestamp\<rparr>;
          frame = frame_header (pz_version z) (pz_has_padding z) (pz_has_extension z)
            (pz_csrc_count z) (pz_marker z) payload_type (pz_sequence_number z) (pz_timestamp z)
            (pz_ssrc z) (pz_csrcs z) in
      z\<lparr>pz_frame := (if pz_has_extension z then AppendAbsoluteSendTimeExtension z frame else frame)\<rparr>)"

text \<open>Building the packet object; a packet that does not parse is dropped.\<close>

definition emit_packet :: "Packetizer \<Rightarrow> RtpPacket list \<Rightarrow> RtpPacket list option" where
  "emit_packet z packets = do {
     (ok, p) \<leftarrow> RtpPacket_Build new_RtpPacket (pz_frame z) (length (pz_frame z));
     Some (if ok then packets @ [p] else packets) }"

section \<open>H.264\<close>

definition BuildNalu :: "Packetizer \<Rightarrow> byte list \<Rightarrow> nat \<Rightarrow> u32 \<Rightarrow> (RtpPacket list \<times> Packetizer) option" where
  "BuildNalu z payload payload_size rtp_timestamp =
     (let z = start_frame z False True (ucast (pz_payload_type z)) rtp_timestamp in do {
        d \<leftarrow> seg payload 0 payload_size;
        let z = z\<lparr>pz_frame := pz_frame z @ [push_bit 7 0 OR push_bit 5 1 OR NAL_NALU] @ d\<rparr> in do {
        ps \<leftarrow> emit_packet z [];
        Some (ps, z) } })"

text \<open>One round of the loop of \<open>BuildFua\<close>.\<close>

definition fua_step :: "byte list \<Rightarrow> nat \<Rightarrow> nat \<Rightarrow> u32 \<Rightarrow> nat \<Rightarrow>
    RtpPacket list \<times> Packetizer \<Rightarrow> (RtpPacket list \<times> Packetizer) option" where
  "fua_step payload packet_num last_packet_size rtp_timestamp index s =
     (case s of (ps, z) \<Rightarrow>
       let last = (index = packet_num - 1);
           z = start_frame z False last (ucast (pz_payload_type z)) rtp_timestamp;
           fu_indicator = push_bit 7 0 OR push_bit 5 0 OR NAL_FU_A;
           fu_header = push_bit 7 (of_bool (index = 0)) OR push_bit 6 (of_bool last) OR
             push_bit 5 0 OR NAL_FU_A in do {
         d \<leftarrow> (if last \<and> last_packet_size > 0
               then seg payload (index * MAX_NALU_LEN) last_packet_size
               else seg payload (index * MAX_NALU_LEN) MAX_NALU_LEN);
         let z = z\<lparr>pz_frame := pz_frame z @ [fu_indicator, fu_header] @ d\<rparr> in do {
         ps \<leftarrow> emit_packet z ps;
         Some (ps, z) } })"

definition BuildFua :: "Packetizer \<Rightarrow> byte list \<Rightarrow> nat \<Rightarrow> u32 \<Rightarrow> (RtpPacket list \<times> Packetizer) option" where
  "BuildFua z payload payload_size rtp_timestamp =
     (let last_packet_size = payload_size mod MAX_NALU_LEN;
          packet_num = payload_size div MAX_NALU_LEN + (if last_packet_size \<noteq> 0 then 1 else 0) in
      foldM (fua_step payload packet_num last_packet_size rtp_timestamp) [0..<packet_num] ([], z))"

definition H264_Build :: "Packetizer \<Rightarrow> byte list \<Rightarrow> nat \<Rightarrow> u32 \<Rightarrow> (RtpPacket list \<times> Packetizer) option" where
  "H264_Build z payload payload_size rtp_timestamp =
     (if payload_size \<le> MAX_NALU_LEN then BuildNalu z payload payload_size rtp_timestamp
      else BuildFua z payload payload_size rtp_timestamp)"

text \<open>The loop of \<open>BuildPadding\<close> over the size that remains.\<close>

function padding_loop :: "u32 \<Rightarrow> nat \<Rightarrow> RtpPacket list \<times> Packetizer \<Rightarrow> (RtpPacket list \<times> Packetizer) option" where
  "padding_loop rtp_timestamp remaining_size s =
     (if remaining_size > 0 then
        (case s of (ps, z) \<Rightarrow>
          let packet_data_size = min remaining_size MAX_NALU_LEN;
              z = start_frame z True False (ucast (pz_payload_type z - 1)) rtp_timestamp;
              frame = pz_frame z @ replicate packet_data_size 0;
              z = z\<lparr>pz_frame := frame[length frame - 1 := 1]\<rparr> in do {
            ps \<leftarrow> emit_packet z ps;
            padding_loop rtp_timestamp (remaining_size - packet_data_size) (ps, z) })
      else Some s)"
  by pat_completeness auto
termination
  by (relation "measure (\<lambda>(t, n, s). n)") (auto simp: MAX_NALU_LEN_def)

declare padding_loop.simps [simp del]

definition H264_BuildPadding :: "Packetizer \<Rightarrow> nat \<Rightarrow> u32 \<Rightarrow> (RtpPacket list \<times> Packetizer) option" where
  "H264_BuildPadding z payload_size rtp_timestamp = padding_loop rtp_timestamp payload_size ([], z)"

section \<open>Generic payloads\<close>

text \<open>
  One round of the loop of \<open>RtpPacketizerGeneric::Build\<close>. The source copies from \<open>payload\<close>
  itself in every round.
\<close>

definition generic_step :: "byte list \<Rightarrow> nat \<Rightarrow> nat \<Rightarrow> u32 \<Rightarrow> nat \<Rightarrow>
    RtpPacket list \<times> Packetizer \<Rightarrow> (RtpPacket list \<times> Packetizer) option" where
  "generic_step payload packet_num last_packet_size rtp_timestamp index s =
     (case s of (ps, z) \<Rightarrow>
       let z = start_frame z False (index = packet_num - 1) (ucast (pz_payload_type z)) rtp_timestamp in do {
         d \<leftarrow> (if index = packet_num - 1 \<and> last_packet_size > 0
               then seg payload 0 last_packet_size
               else seg payload 0 MAX_NALU_LEN);
         let z = z\<lparr>pz_frame := pz_frame z @ d\<rparr> in do {
         (ok, p) \<leftarrow> RtpPacket_Build new_RtpPacket (pz_frame z) (length (pz_frame z));
         Some (ps @ [p], z) } })"

definition Generic_Build :: "Packetizer \<Rightarrow> byte list \<Rightarrow> nat \<Rightarrow> u32 \<Rightarrow> (RtpPacket list \<times> Packetizer) option" where
  "Generic_Build z payload payload_size rtp_timestamp =
     (let last_packet_size = payload_size mod MAX_NALU_LEN;
          packet_num = payload_size div MAX_NALU_LEN + (if last_packet_size \<noteq> 0 then 1 else 0) in
      foldM (generic_step payload packet_num last_packet_size rtp_timestamp) [0..<packet_num] ([], z))"

section \<open>Receiving H.264\<close>

record RtpPacketH264 =
  h264_packet :: RtpPacket
  h264_osn :: u16
  fui_forbidden_bit :: byte
  fui_nal_reference_idc :: byte
  fui_nal_unit_type :: byte
  fuh_start :: bool
  fuh_end :: bool
  fuh_remain_bit :: bool
  fuh_nal_unit_type :: byte
  fu_info_got :: bool

definition GetFrameHeaderInfo :: "RtpPacketH264 \<Rightarrow> (bool \<times> RtpPacketH264) option" where
  "GetFrameHeaderInfo h =
     (if fu_info_got h then Some (True, h)
      else
        let p = h264_packet h;
            base = rp_payload_offset p;
            rtx = (rp_payload_type p = PT_RTX);
            offset = (if rtx then 2 else 0) in
        if rtx \<and> rp_payload_size p < 2 then Some (False, h)
        else do {
          h \<leftarrow> (if rtx then do {
                  o1 \<leftarrow> rd (rp_buffer p) base;
                  o2 \<leftarrow> rd (rp_buffer p) (base + 1);
                  Some (h\<lparr>h264_osn := push_bit 8 (ucast o1) OR ucast o2\<rparr>) }
                else Some h);
          if rp_payload_size p \<le> offset then Some (False, h)
          else do {
            b \<leftarrow> rd (rp_buffer p) (base + offset);
            let h = h\<lparr>fui_forbidden_bit := drop_bit 7 b AND 0x01,
                      fui_nal_reference_idc := drop_bit 5 b AND 0x03,
                      fui_nal_unit_type := b AND 0x1F\<rparr> in
            if fui_nal_unit_type h = NAL_NALU then
              Some (True, h\<lparr>h264_packet := add_offset_to_payload p (1 + offset), fu_info_got := True\<rparr>)
            else if fui_nal_unit_type h = NAL_FU_A then
              (if rp_payload_size p \<le> offset + 1 then Some (False, h)
               else do {
                 c \<leftarrow> rd (rp_buffer p) (base + 1 + offset);
                 Some (True, h\<lparr>fuh_start := (drop_bit 7 c AND 0x01 \<noteq> 0),
                   fuh_end := (drop_bit 6 c AND 0x01 \<noteq> 0),
                   fuh_remain_bit := (drop_bit 5 c AND 0x01 \<noteq> 0),
                   fuh_nal_unit_type := c AND 0x1F,
                   h264_packet := add_offset_to_payload p (2 + offset), fu_info_got := True\<rparr>) })
            else Some (True, h\<lparr>fu_info_got := True\<rparr>) } })"

text \<open>
  What the video receiver does with the bytes of a packet: a new \<open>RtpPacketH264\<close>, \<open>Build\<close>, then
  \<open>GetFrameHeaderInfo\<close>. The members of a new object are not initialised, except \<open>fu_info_got_\<close>,
  so the object is an argument.
\<close>

definition open_h264 :: "RtpPacketH264 \<Rightarrow> byte list \<Rightarrow> nat \<Rightarrow> (bool \<times> RtpPacketH264) option" where
  "open_h264 h buffer sz = do {
     (ok, p) \<leftarrow> RtpPacket_Build new_RtpPacket buffer sz;
     if ok then GetFrameHeaderInfo (h\<lparr>h264_packet := p, fu_info_got := False\<rparr>)
     else Some (False, h\<lparr>h264_packet := p\<rparr>) }"

section \<open>Frames of the packetizers\<close>

definition pz_ok :: "Packetizer \<Rightarrow> bool" where
  "pz_ok z \<longleftrightarrow> valid_ext_id (pz_abs_send_time_ext_id z)"

lemma SetAbsoluteSendTimeExtensionId_ok: "pz_ok (SetAbsoluteSendTimeExtensionId z i)"
proof -
  have "IsValidOneByteExtensionId (ucast b) \<longleftrightarrow> 1 \<le> unat b \<and> unat b \<le> 14" for b :: byte
    by (simp add: IsValidOneByteExtensionId_def word_le_nat_alt unsigned_ucast_eq take_bit_nat_eq_self
        less_trans [OF unsigned_less])
  then show ?thesis
    by (auto simp: pz_ok_def valid_ext_id_def SetAbsoluteSendTimeExtensionId_def split: option.split)
qed

lemma frame_header_no_csrcs:
  "frame_header v hp hx 0 m pt seq ts ssrc csrcs = frame_header v hp hx 0 m pt seq ts ssrc []"
  by (simp add: frame_header_def)

lemma start_frame_frame:
  "pz_frame (start_frame z hp m pt ts) =
    frame_header kRtpVersion hp (pz_abs_send_time_ext_id z \<noteq> None) 0 m pt (pz_sequence_number z + 1) ts
      (pz_ssrc z) [] @ send_time_block (pz_abs_send_time_ext_id z) [0, 0, 0]"
  using frame_header_no_csrcs [where csrcs = "pz_csrcs z"]
  by (auto simp: start_frame_def Let_def HasAbsoluteSendTimeExtension_def send_time_block_def
      AppendAbsoluteSendTimeExtension_def abs_send_time_bytes_def kOneByteExtensionProfileId_def
      numeral_3_eq_3 split: option.split)

lemma start_frame_fields [simp]:
  "pz_sequence_number (start_frame z hp m pt ts) = pz_sequence_number z + 1"
  "pz_ssrc (start_frame z hp m pt ts) = pz_ssrc z"
  "pz_payload_type (start_frame z hp m pt ts) = pz_payload_type z"
  "pz_abs_send_time_ext_id (start_frame z hp m pt ts) = pz_abs_send_time_ext_id z"
  by (simp_all add: start_frame_def Let_def)

text \<open>A packet made from a started frame and a body, as sent and as seen by the receiver.\<close>

definition plain_frame :: "byte option \<Rightarrow> u32 \<Rightarrow> bool \<Rightarrow> byte \<Rightarrow> u16 \<Rightarrow> u32 \<Rightarrow> byte list \<Rightarrow> RtpPacket \<Rightarrow> bool" where
  "plain_frame eid ssrc m pt seq ts payload p \<longleftrightarrow> (rp_padding_size p = 0 \<longrightarrow>
     rp_buffer p = frame_header kRtpVersion False (eid \<noteq> None) 0 m pt seq ts ssrc [] @ send_time_block eid [0, 0, 0] @ payload)"

definition built :: "Packetizer \<Rightarrow> bool \<Rightarrow> byte \<Rightarrow> u16 \<Rightarrow> u32 \<Rightarrow> byte list \<Rightarrow> RtpPacket \<Rightarrow> bool" where
  "built z m pt seq ts payload p \<longleftrightarrow> holds p m pt seq ts (pz_ssrc z) payload \<and>
     rp_payload_size p = length payload \<and> RtpPacket_Build new_RtpPacket (rp_buffer p) (length (rp_buffer p)) = Some (True, p) \<and>
     length (rp_buffer p) = rp_payload_offset p + length payload + rp_padding_size p \<and>
     rp_payload_offset p = (if pz_abs_send_time_ext_id z = None then 12 else 20) \<and>
     rp_extensions p = (case pz_abs_send_time_ext_id z of None \<Rightarrow> []
       | Some i \<Rightarrow> [\<lparr>ext_id = i, ext_len = 3, ext_data_offset = 17, ext_data = [0, 0, 0]\<rparr>]) \<and>
     plain_frame (pz_abs_send_time_ext_id z) (pz_ssrc z) m pt seq ts payload p"

lemma built_cong:
  "pz_ssrc z' = pz_ssrc z \<Longrightarrow> pz_abs_send_time_ext_id z' = pz_abs_send_time_ext_id z \<Longrightarrow>
    built z' = built z"
  by (simp add: built_def fun_eq_iff)

lemma emit_packet_built:
  assumes "pz_ok z" and "unat pt < 128"
    and "hp \<Longrightarrow> body \<noteq> [] \<and> last body \<noteq> 0 \<and> unat (last body) \<le> length body"
    and "z' = (start_frame z hp m pt ts)\<lparr>pz_frame := pz_frame (start_frame z hp m pt ts) @ body\<rparr>"
  shows "\<exists>p. RtpPacket_Build new_RtpPacket (pz_frame z') (length (pz_frame z')) = Some (True, p) \<and>
    emit_packet z' ps = Some (ps @ [p]) \<and> rp_padding_size p = (if hp then unat (last body) else 0) \<and>
    built z m pt (pz_sequence_number z + 1) ts (take (length body - (if hp then unat (last body) else 0)) body) p"
proof -
  let ?eid = "pz_abs_send_time_ext_id z"
  let ?frame = "frame_header kRtpVersion hp (?eid \<noteq> None) 0 m pt (pz_sequence_number z + 1) ts (pz_ssrc z) [] @
    send_time_block ?eid [0, 0, 0] @ body"
  have f: "pz_frame z' = ?frame" by (simp add: assms(4) start_frame_frame)
  have l: "length ?frame = (if ?eid = None then 12 else 20) + length body"
    by (auto simp: send_time_block_def abs_send_time_bytes_def split: option.split)
  obtain p where p: "RtpPacket_Build new_RtpPacket ?frame (length ?frame) = Some (True, p)"
    "holds p m pt (pz_sequence_number z + 1) ts (pz_ssrc z) (take (length body - (if hp then unat (last body) else 0)) body)"
    "rp_buffer p = ?frame" "rp_padding_size p = (if hp then unat (last body) else 0)"
    "rp_payload_size p = length body - (if hp then unat (last body) else 0)"
    "rp_payload_offset p = (if ?eid = None then 12 else 20)"
    "rp_extensions p = (case ?eid of None \<Rightarrow> []
       | Some i \<Rightarrow> [\<lparr>ext_id = i, ext_len = 3, ext_data_offset = 17, ext_data = [0, 0, 0]\<rparr>])"
    using Build_frame [where eid = ?eid and t = "[0, 0, 0]" and pt = pt and hp = hp and body = body and m = m
        and seq = "pz_sequence_number z + 1" and ts = ts and ssrc = "pz_ssrc z" and p = new_RtpPacket]
      assms(1-3) by (auto simp: pz_ok_def)
  have "hp \<Longrightarrow> unat (last body) \<noteq> 0" using assms(3) by (simp add: unat_eq_0)
  then have pl: "plain_frame ?eid (pz_ssrc z) m pt (pz_sequence_number z + 1) ts
      (take (length body - (if hp then unat (last body) else 0)) body) p"
    using p(3,4) by (auto simp: plain_frame_def)
  have "(if hp then unat (last body) else 0) \<le> length body" using assms(3) by simp
  then have "built z m pt (pz_sequence_number z + 1) ts
      (take (length body - (if hp then unat (last body) else 0)) body) p"
    unfolding built_def using p l pl by (auto simp del: append_assoc)
  then show ?thesis
    using p(1,4) f by (auto simp: emit_packet_def)
qed

section \<open>Fragmentation\<close>

lemma concat_chunks: "concat (map (\<lambda>i. take c (drop (i * c) xs)) [0..<k]) = take (k * c) xs"
proof (induction k)
  case (Suc k)
  have "take (Suc k * c) xs = take (k * c) xs @ take c (drop (k * c) xs)"
    using take_add [of "k * c" c xs] by (simp add: add.commute)
  with Suc show ?case by simp
qed simp

definition packet_count :: "nat \<Rightarrow> nat" where
  "packet_count n = n div MAX_NALU_LEN + (if n mod MAX_NALU_LEN \<noteq> 0 then 1 else 0)"

lemma packet_count_bounds:
  "n \<le> packet_count n * MAX_NALU_LEN" "0 < n \<Longrightarrow> (packet_count n - 1) * MAX_NALU_LEN < n"
proof -
  define q r where "q = n div MAX_NALU_LEN" and "r = n mod MAX_NALU_LEN"
  have n: "n = q * MAX_NALU_LEN + r" and m: "r < MAX_NALU_LEN" and c: "packet_count n = q + (if r \<noteq> 0 then 1 else 0)"
    by (simp_all add: MAX_NALU_LEN_def packet_count_def q_def r_def)
  show "n \<le> packet_count n * MAX_NALU_LEN"
    unfolding c using m by (subst n) auto
  show "0 < n \<Longrightarrow> (packet_count n - 1) * MAX_NALU_LEN < n"
    unfolding c using m n by (cases q) auto
qed

text \<open>The bytes of fragment \<open>i\<close> of the first \<open>n\<close> bytes of a payload.\<close>

definition chunk :: "byte list \<Rightarrow> nat \<Rightarrow> nat \<Rightarrow> byte list" where
  "chunk payload n i = take MAX_NALU_LEN (drop (i * MAX_NALU_LEN) (take n payload))"

lemma concat_chunk: "concat (map (chunk payload n) [0..<packet_count n]) = take n payload"
  using concat_chunks [of MAX_NALU_LEN "take n payload" "packet_count n"] packet_count_bounds(1) [of n]
  by (simp add: chunk_def [abs_def] min_absorb1)

lemma chunk_seg:
  assumes "n \<le> length payload" and "i < packet_count n"
  shows "(if i = packet_count n - 1 \<and> n mod MAX_NALU_LEN > 0
      then seg payload (i * MAX_NALU_LEN) (n mod MAX_NALU_LEN)
      else seg payload (i * MAX_NALU_LEN) MAX_NALU_LEN) = Some (chunk payload n i)"
proof (cases "i = packet_count n - 1 \<and> n mod MAX_NALU_LEN > 0")
  case True
  then have i: "i = n div MAX_NALU_LEN" by (auto simp: packet_count_def)
  have n: "i * MAX_NALU_LEN + n mod MAX_NALU_LEN = n" unfolding i by simp
  then have n': "n - i * MAX_NALU_LEN = n mod MAX_NALU_LEN" by (metis add_diff_cancel_left')
  have m: "n mod MAX_NALU_LEN \<le> MAX_NALU_LEN" by (simp add: MAX_NALU_LEN_def)
  have "chunk payload n i = take (n mod MAX_NALU_LEN) (drop (i * MAX_NALU_LEN) payload)"
    unfolding chunk_def drop_take n' take_take using m by (simp only: min_absorb2)
  with True n assms(1) show ?thesis by (simp add: seg_def)
next
  case False
  have "i * MAX_NALU_LEN + MAX_NALU_LEN \<le> n"
  proof -
    define q r where "q = n div MAX_NALU_LEN" and "r = n mod MAX_NALU_LEN"
    have "Suc i \<le> q" using False assms(2) unfolding packet_count_def q_def [symmetric] r_def [symmetric]
      by (cases "r = 0") auto
    then have "Suc i \<le> n div MAX_NALU_LEN" by (simp only: q_def)
    then have "Suc i * MAX_NALU_LEN \<le> n div MAX_NALU_LEN * MAX_NALU_LEN" by (rule mult_le_mono1)
    also have "\<dots> \<le> n" by simp
    finally show ?thesis by simp
  qed
  with False assms(1) show ?thesis by (auto simp: seg_def chunk_def drop_take)
qed

definition fu_indicator_byte :: byte where "fu_indicator_byte = push_bit 7 0 OR push_bit 5 0 OR NAL_FU_A"

definition fu_header_byte :: "bool \<Rightarrow> bool \<Rightarrow> byte" where
  "fu_header_byte start fin = push_bit 7 (of_bool start) OR push_bit 6 (of_bool fin) OR push_bit 5 0 OR NAL_FU_A"

lemma fua_run:
  assumes "pz_ok z" and "unat (ucast (pz_payload_type z) :: byte) < 128" and "n \<le> length payload"
    and "k \<le> packet_count n"
  shows "\<exists>ps z'. foldM (fua_step payload (packet_count n) (n mod MAX_NALU_LEN) ts) [0..<k] ([], z) = Some (ps, z') \<and>
    length ps = k \<and> pz_sequence_number z' = pz_sequence_number z + of_nat k \<and> pz_ok z' \<and>
    pz_ssrc z' = pz_ssrc z \<and> pz_payload_type z' = pz_payload_type z \<and>
    pz_abs_send_time_ext_id z' = pz_abs_send_time_ext_id z \<and>
    (\<forall>i < k. rp_padding_size (ps ! i) = 0 \<and>
      built z (i = packet_count n - 1) (ucast (pz_payload_type z)) (pz_sequence_number z + 1 + of_nat i) ts
      ([fu_indicator_byte, fu_header_byte (i = 0) (i = packet_count n - 1)] @ chunk payload n i) (ps ! i))"
  using assms(4)
proof (induction k)
  case (Suc k)
  then obtain ps z1 where IH: "foldM (fua_step payload (packet_count n) (n mod MAX_NALU_LEN) ts) [0..<k] ([], z) = Some (ps, z1)"
    "length ps = k" "pz_sequence_number z1 = pz_sequence_number z + of_nat k" "pz_ok z1"
    "pz_ssrc z1 = pz_ssrc z" "pz_payload_type z1 = pz_payload_type z"
    "pz_abs_send_time_ext_id z1 = pz_abs_send_time_ext_id z"
    "\<forall>i < k. rp_padding_size (ps ! i) = 0 \<and>
      built z (i = packet_count n - 1) (ucast (pz_payload_type z)) (pz_sequence_number z + 1 + of_nat i) ts
      ([fu_indicator_byte, fu_header_byte (i = 0) (i = packet_count n - 1)] @ chunk payload n i) (ps ! i)"
    by auto
  let ?last = "k = packet_count n - 1" and ?pt = "ucast (pz_payload_type z) :: byte"
  let ?body = "[fu_indicator_byte, fu_header_byte (k = 0) ?last] @ chunk payload n k"
  define z2 where "z2 = (start_frame z1 False ?last ?pt ts)\<lparr>pz_frame := pz_frame (start_frame z1 False ?last ?pt ts) @ ?body\<rparr>"
  obtain p where p: "emit_packet z2 ps = Some (ps @ [p])" "rp_padding_size p = 0"
    "built z1 ?last ?pt (pz_sequence_number z1 + 1) ts ?body p"
    using emit_packet_built [OF IH(4), of ?pt False ?body z2 ?last ts ps] assms(2) z2_def by auto
  have b: "built z ?last ?pt (pz_sequence_number z + 1 + of_nat k) ts ?body p"
    using p(3) IH(3) built_cong [OF IH(5,7)] by (simp add: ac_simps)
  have c: "(if ?last \<and> n mod MAX_NALU_LEN > 0 then seg payload (k * MAX_NALU_LEN) (n mod MAX_NALU_LEN)
      else seg payload (k * MAX_NALU_LEN) MAX_NALU_LEN) = Some (chunk payload n k)"
    using chunk_seg [OF assms(3), of k] Suc.prems by simp
  have st: "fua_step payload (packet_count n) (n mod MAX_NALU_LEN) ts k (ps, z1) = Some (ps @ [p], z2)"
    unfolding fua_step_def Let_def prod.case c
    using p(1) IH(6) by (simp add: z2_def fu_indicator_byte_def fu_header_byte_def)
  have "\<forall>i < Suc k. rp_padding_size ((ps @ [p]) ! i) = 0 \<and>
      built z (i = packet_count n - 1) ?pt (pz_sequence_number z + 1 + of_nat i) ts
      ([fu_indicator_byte, fu_header_byte (i = 0) (i = packet_count n - 1)] @ chunk payload n i) ((ps @ [p]) ! i)"
    using IH(2,8) b p(2) by (auto simp: nth_append less_Suc_eq)
  moreover have "foldM (fua_step payload (packet_count n) (n mod MAX_NALU_LEN) ts) [0..<Suc k] ([], z) = Some (ps @ [p], z2)"
    using IH(1) st by simp
  moreover have "pz_sequence_number z2 = pz_sequence_number z + of_nat (Suc k)" "pz_ok z2"
    "pz_ssrc z2 = pz_ssrc z" "pz_payload_type z2 = pz_payload_type z"
    "pz_abs_send_time_ext_id z2 = pz_abs_send_time_ext_id z" "length (ps @ [p]) = Suc k"
    using IH(2-7) by (simp_all add: z2_def pz_ok_def)
  ultimately show ?case by blast
qed (use assms(1) in simp)

section \<open>The receiver's view of H.264 packets\<close>

lemma Payload_rd:
  "Payload p = Some pl \<Longrightarrow> i < length pl \<Longrightarrow> rd (rp_buffer p) (rp_payload_offset p + i) = Some (pl ! i)"
  by (auto simp: Payload_def seg_def split: if_splits)

lemma Payload_size: "Payload p = Some pl \<Longrightarrow> rp_payload_size p = length pl"
  by (auto simp: Payload_def seg_def split: if_splits)

lemma Payload_add_offset:
  assumes "Payload p = Some pl" and "k \<le> length pl" and "length pl < 2 ^ 64"
  shows "Payload (add_offset_to_payload p k) = Some (drop k pl)"
proof -
  have pl: "pl = take (length pl) (drop (rp_payload_offset p) (rp_buffer p))"
    "rp_payload_offset p + length pl \<le> length (rp_buffer p)"
    using assms(1) Payload_size [OF assms(1)] by (auto simp: Payload_def seg_def split: if_splits)
  have "drop k pl = take (length pl - k) (drop (rp_payload_offset p + k) (rp_buffer p))"
    by (subst pl(1)) (simp add: drop_take ac_simps)
  then show ?thesis
    using assms(2,3) pl(2) Payload_size [OF assms(1)]
    by (simp add: Payload_def seg_def add_offset_to_payload_def)
qed

lemma GetFrameHeaderInfo_nalu:
  assumes "Payload (h264_packet h) = Some (b # d)" and "length d < 2 ^ 63"
    and "rp_payload_type (h264_packet h) \<noteq> PT_RTX" and "b AND 0x1F = NAL_NALU" and "\<not> fu_info_got h"
  shows "\<exists>h'. GetFrameHeaderInfo h = Some (True, h') \<and> Payload (h264_packet h') = Some d \<and>
    h264_packet h' = add_offset_to_payload (h264_packet h) 1 \<and>
    fui_forbidden_bit h' = drop_bit 7 b AND 0x01 \<and> fui_nal_reference_idc h' = drop_bit 5 b AND 0x03 \<and>
    fui_nal_unit_type h' = NAL_NALU"
proof -
  have "rd (rp_buffer (h264_packet h)) (rp_payload_offset (h264_packet h)) = Some b"
    using Payload_rd [OF assms(1), of 0] by simp
  moreover have "Payload (add_offset_to_payload (h264_packet h) 1) = Some d"
    using Payload_add_offset [OF assms(1), of 1] assms(2) by simp
  ultimately show ?thesis
    using assms(3-5) Payload_size [OF assms(1)] by (simp add: GetFrameHeaderInfo_def Let_def)
qed

lemma GetFrameHeaderInfo_fua:
  assumes "Payload (h264_packet h) = Some (b # c # d)" and "length d < 2 ^ 63"
    and "rp_payload_type (h264_packet h) \<noteq> PT_RTX" and "b AND 0x1F = NAL_FU_A" and "\<not> fu_info_got h"
  shows "\<exists>h'. GetFrameHeaderInfo h = Some (True, h') \<and> Payload (h264_packet h') = Some d \<and>
    h264_packet h' = add_offset_to_payload (h264_packet h) 2 \<and>
    fui_forbidden_bit h' = drop_bit 7 b AND 0x01 \<and> fui_nal_reference_idc h' = drop_bit 5 b AND 0x03 \<and>
    fui_nal_unit_type h' = NAL_FU_A \<and> fuh_start h' = (drop_bit 7 c AND 0x01 \<noteq> 0) \<and>
    fuh_end h' = (drop_bit 6 c AND 0x01 \<noteq> 0) \<and> fuh_nal_unit_type h' = c AND 0x1F"
proof -
  have "rd (rp_buffer (h264_packet h)) (rp_payload_offset (h264_packet h)) = Some b"
    "rd (rp_buffer (h264_packet h)) (rp_payload_offset (h264_packet h) + 1) = Some c"
    using Payload_rd [OF assms(1), of 0] Payload_rd [OF assms(1), of 1] by simp_all
  moreover have "Payload (add_offset_to_payload (h264_packet h) 2) = Some d"
    using Payload_add_offset [OF assms(1), of 2] assms(2) by simp
  moreover have "NAL_FU_A \<noteq> NAL_NALU" by (simp add: NAL_FU_A_def NAL_NALU_def)
  ultimately show ?thesis
    using assms(3-5) Payload_size [OF assms(1)] by (simp add: GetFrameHeaderInfo_def Let_def numeral_2_eq_2)
qed

lemma fu_bytes:
  "fu_indicator_byte AND 0x1F = NAL_FU_A" "drop_bit 7 fu_indicator_byte = 0" "drop_bit 5 fu_indicator_byte = 0"
  "drop_bit 7 (fu_header_byte s e) AND 0x01 \<noteq> 0 \<longleftrightarrow> s" "drop_bit 6 (fu_header_byte s e) AND 0x01 \<noteq> 0 \<longleftrightarrow> e"
  "fu_header_byte s e AND 0x1F = NAL_FU_A"
  by (cases s; cases e; simp add: fu_indicator_byte_def fu_header_byte_def NAL_FU_A_def)+

lemma open_h264_fua:
  assumes "built z m pt seq ts ([fu_indicator_byte, fu_header_byte s e] @ d) p" and "pt \<noteq> PT_RTX"
    and "length d < 2 ^ 63"
  shows "\<exists>h'. open_h264 h (rp_buffer p) (length (rp_buffer p)) = Some (True, h') \<and>
    Payload (h264_packet h') = Some d \<and> fui_nal_unit_type h' = NAL_FU_A \<and> fuh_start h' = s \<and> fuh_end h' = e \<and>
    fui_forbidden_bit h' = 0 \<and> fui_nal_reference_idc h' = 0 \<and> fuh_nal_unit_type h' = NAL_FU_A \<and>
    rp_sequence_number (h264_packet h') = seq \<and> rp_timestamp (h264_packet h') = ts \<and>
    rp_ssrc (h264_packet h') = pz_ssrc z"
  using GetFrameHeaderInfo_fua [where h = "h\<lparr>h264_packet := p, fu_info_got := False\<rparr>" and
      b = fu_indicator_byte and c = "fu_header_byte s e" and d = d] assms
  by (auto simp: open_h264_def built_def holds_def fu_bytes add_offset_to_payload_def)

definition nalu_byte :: byte where "nalu_byte = push_bit 7 0 OR push_bit 5 1 OR NAL_NALU"

lemma open_h264_nalu:
  assumes "built z m pt seq ts (nalu_byte # d) p" and "pt \<noteq> PT_RTX" and "length d < 2 ^ 63"
  shows "\<exists>h'. open_h264 h (rp_buffer p) (length (rp_buffer p)) = Some (True, h') \<and>
    Payload (h264_packet h') = Some d \<and> fui_nal_unit_type h' = NAL_NALU \<and>
    fui_forbidden_bit h' = 0 \<and> fui_nal_reference_idc h' = 1 \<and>
    rp_sequence_number (h264_packet h') = seq \<and> rp_timestamp (h264_packet h') = ts \<and>
    rp_ssrc (h264_packet h') = pz_ssrc z"
proof -
  have "nalu_byte AND 0x1F = NAL_NALU" "drop_bit 7 nalu_byte AND 1 = 0" "drop_bit 5 nalu_byte AND 3 = 1"
    by (simp_all add: nalu_byte_def NAL_NALU_def)
  then show ?thesis
    using GetFrameHeaderInfo_nalu [where h = "h\<lparr>h264_packet := p, fu_info_got := False\<rparr>" and
        b = nalu_byte and d = d] assms
    by (auto simp: open_h264_def built_def holds_def add_offset_to_payload_def)
qed

lemma chunk_length: "length (chunk payload n i) \<le> MAX_NALU_LEN"
  by (simp add: chunk_def)

lemma BuildFua_run:
  assumes "pz_ok z" and "unat (ucast (pz_payload_type z) :: byte) < 128" and "n \<le> length payload"
  shows "\<exists>ps z'. BuildFua z payload n ts = Some (ps, z') \<and> length ps = packet_count n \<and>
    pz_sequence_number z' = pz_sequence_number z + of_nat (packet_count n) \<and> pz_ok z' \<and>
    (\<forall>i < packet_count n. rp_padding_size (ps ! i) = 0 \<and>
      built z (i = packet_count n - 1) (ucast (pz_payload_type z)) (pz_sequence_number z + 1 + of_nat i) ts
      ([fu_indicator_byte, fu_header_byte (i = 0) (i = packet_count n - 1)] @ chunk payload n i) (ps ! i))"
  using fua_run [OF assms, of "packet_count n" ts] unfolding BuildFua_def packet_count_def [symmetric] Let_def
  by blast

lemma BuildNalu_run:
  assumes "pz_ok z" and "unat (ucast (pz_payload_type z) :: byte) < 128" and "n \<le> length payload"
  shows "\<exists>p z'. BuildNalu z payload n ts = Some ([p], z') \<and>
    pz_sequence_number z' = pz_sequence_number z + 1 \<and> pz_ok z' \<and> rp_padding_size p = 0 \<and>
    built z True (ucast (pz_payload_type z)) (pz_sequence_number z + 1) ts (nalu_byte # take n payload) p"
proof -
  let ?pt = "ucast (pz_payload_type z) :: byte"
  define z2 where "z2 = (start_frame z False True ?pt ts)\<lparr>pz_frame :=
    pz_frame (start_frame z False True ?pt ts) @ (nalu_byte # take n payload)\<rparr>"
  obtain p where p: "emit_packet z2 [] = Some [p]" "rp_padding_size p = 0"
    "built z True ?pt (pz_sequence_number z + 1) ts (nalu_byte # take n payload) p"
    using emit_packet_built [OF assms(1), of ?pt False "nalu_byte # take n payload" z2 True ts "[]"] assms(2,3) z2_def
    by (auto simp: min_absorb2)
  have "BuildNalu z payload n ts = Some ([p], z2)"
    unfolding BuildNalu_def Let_def using assms(3) p(1)
    by (simp add: seg_def z2_def nalu_byte_def)
  moreover have "pz_sequence_number z2 = pz_sequence_number z + 1" "pz_ok z2"
    using assms(1) by (simp_all add: z2_def pz_ok_def)
  ultimately show ?thesis using p by blast
qed

section \<open>Padding\<close>

text \<open>The padding packets for \<open>n\<close> bytes, with the properties of each.\<close>

definition padding_packet :: "Packetizer \<Rightarrow> u16 \<Rightarrow> u32 \<Rightarrow> nat \<Rightarrow> RtpPacket \<Rightarrow> bool" where
  "padding_packet z seq ts k p \<longleftrightarrow> 0 < k \<and> k \<le> MAX_NALU_LEN \<and> rp_padding_size p = 1 \<and>
     built z False (ucast (pz_payload_type z - 1)) seq ts (replicate (k - 1) 0) p"

lemma padding_loop_run:
  assumes "pz_ok z" and "unat (ucast (pz_payload_type z - 1) :: byte) < 128"
  shows "\<exists>qs z' ks. padding_loop ts n (ps, z) = Some (ps @ qs, z') \<and> pz_ok z' \<and> sum_list ks = n \<and>
    length ks = length qs \<and> pz_sequence_number z' = pz_sequence_number z + of_nat (length qs) \<and>
    (\<forall>i < length qs. padding_packet z (pz_sequence_number z + 1 + of_nat i) ts (ks ! i) (qs ! i))"
  using assms
proof (induction n arbitrary: ps z rule: less_induct)
  case (less n)
  show ?case
  proof (cases "n = 0")
    case True
    with less.prems show ?thesis by (intro exI [of _ "[]"] exI [of _ z]) (simp add: padding_loop.simps)
  next
    case False
    let ?k = "min n MAX_NALU_LEN" and ?pt = "ucast (pz_payload_type z - 1) :: byte"
    let ?z1 = "start_frame z True False ?pt ts" and ?body = "replicate (?k - 1) 0 @ [1 :: byte]"
    define z2 where "z2 = ?z1\<lparr>pz_frame := pz_frame ?z1 @ ?body\<rparr>"
    have k: "0 < ?k" using False by (simp add: MAX_NALU_LEN_def)
    then have "replicate ?k (0 :: byte) = replicate (?k - 1) 0 @ [0]"
      by (metis Suc_diff_1 replicate_Suc replicate_append_same)
    moreover from this have "length (pz_frame ?z1 @ replicate ?k (0 :: byte)) - 1 = length (pz_frame ?z1 @ replicate (?k - 1) (0 :: byte))"
      by simp
    ultimately have f: "(pz_frame ?z1 @ replicate ?k 0)[length (pz_frame ?z1 @ replicate ?k (0 :: byte)) - 1 := 1] = pz_frame ?z1 @ ?body"
      using list_update_length [of "pz_frame ?z1 @ replicate (?k - 1) 0" 0 "[]" 1] by (simp only: append_assoc)
    obtain p where p: "emit_packet z2 ps = Some (ps @ [p])" "rp_padding_size p = 1"
      "built z False ?pt (pz_sequence_number z + 1) ts (replicate (?k - 1) 0) p"
      using emit_packet_built [OF less.prems(1), of ?pt True ?body z2 False ts ps] less.prems(2) z2_def by (simp del: min_less_iff_conj) blast
    have z2: "pz_ok z2" "unat (ucast (pz_payload_type z2 - 1) :: byte) < 128" "built z2 = built z"
      "pz_sequence_number z2 = pz_sequence_number z + 1" "pz_payload_type z2 = pz_payload_type z"
      using less.prems built_cong [of z2 z] by (simp_all add: z2_def pz_ok_def)
    obtain qs z' ks where IH: "padding_loop ts (n - ?k) ((ps @ [p]), z2) = Some ((ps @ [p]) @ qs, z')" "pz_ok z'"
      "sum_list ks = n - ?k" "length ks = length qs" "pz_sequence_number z' = pz_sequence_number z2 + of_nat (length qs)"
      "\<forall>i < length qs. padding_packet z2 (pz_sequence_number z2 + 1 + of_nat i) ts (ks ! i) (qs ! i)"
      using less.IH [OF _ z2(1,2), of "n - ?k" "ps @ [p]"] k by auto
    have "padding_loop ts n (ps, z) = Some (ps @ (p # qs), z')"
      using False IH(1) p(1) unfolding padding_loop.simps [of ts n] Let_def prod.case f z2_def [symmetric] by simp
    moreover have "\<forall>i < length (p # qs). padding_packet z (pz_sequence_number z + 1 + of_nat i) ts ((?k # ks) ! i) ((p # qs) ! i)"
      using IH(6) p(2,3) k z2(3-5)
      by (auto simp: padding_packet_def nth_Cons ac_simps split: nat.splits)
    moreover have "sum_list (?k # ks) = n" "length (?k # ks) = length (p # qs)"
      "pz_sequence_number z' = pz_sequence_number z + of_nat (length (p # qs))"
      using IH(3-5) z2(4) by (simp_all add: ac_simps)
    ultimately show ?thesis using IH(2) by blast
  qed
qed

section \<open>Generic fragments\<close>

lemma seg_start: "seg b i k = Some xs \<Longrightarrow> seg b 0 k = Some (take (length xs) b)"
  using seg_length [of b i k xs] by (auto simp: seg_def split: if_splits)

lemma seg_start_if:
  "(if c then seg b i k else seg b j m) = Some xs \<Longrightarrow>
    (if c then seg b 0 k else seg b 0 m) = Some (take (length xs) b)"
  by (cases c) (simp_all add: seg_start)

lemma generic_run:
  assumes "pz_ok z" and "unat (ucast (pz_payload_type z) :: byte) < 128" and "n \<le> length payload"
    and "k \<le> packet_count n"
  shows "\<exists>ps z'. foldM (generic_step payload (packet_count n) (n mod MAX_NALU_LEN) ts) [0..<k] ([], z) = Some (ps, z') \<and>
    length ps = k \<and> pz_sequence_number z' = pz_sequence_number z + of_nat k \<and> pz_ok z' \<and>
    pz_ssrc z' = pz_ssrc z \<and> pz_payload_type z' = pz_payload_type z \<and>
    pz_abs_send_time_ext_id z' = pz_abs_send_time_ext_id z \<and>
    (\<forall>i < k. rp_padding_size (ps ! i) = 0 \<and>
      built z (i = packet_count n - 1) (ucast (pz_payload_type z)) (pz_sequence_number z + 1 + of_nat i) ts
      (take (length (chunk payload n i)) payload) (ps ! i))"
  using assms(4)
proof (induction k)
  case (Suc k)
  then obtain ps z1 where IH: "foldM (generic_step payload (packet_count n) (n mod MAX_NALU_LEN) ts) [0..<k] ([], z) = Some (ps, z1)"
    "length ps = k" "pz_sequence_number z1 = pz_sequence_number z + of_nat k" "pz_ok z1"
    "pz_ssrc z1 = pz_ssrc z" "pz_payload_type z1 = pz_payload_type z"
    "pz_abs_send_time_ext_id z1 = pz_abs_send_time_ext_id z"
    "\<forall>i < k. rp_padding_size (ps ! i) = 0 \<and>
      built z (i = packet_count n - 1) (ucast (pz_payload_type z)) (pz_sequence_number z + 1 + of_nat i) ts
      (take (length (chunk payload n i)) payload) (ps ! i)"
    by auto
  let ?last = "k = packet_count n - 1" and ?pt = "ucast (pz_payload_type z) :: byte"
  let ?body = "take (length (chunk payload n k)) payload"
  define z2 where "z2 = (start_frame z1 False ?last ?pt ts)\<lparr>pz_frame := pz_frame (start_frame z1 False ?last ?pt ts) @ ?body\<rparr>"
  obtain p where p: "RtpPacket_Build new_RtpPacket (pz_frame z2) (length (pz_frame z2)) = Some (True, p)" "rp_padding_size p = 0"
    "built z1 ?last ?pt (pz_sequence_number z1 + 1) ts ?body p"
    using emit_packet_built [OF IH(4), of ?pt False ?body z2 ?last ts ps] assms(2) z2_def by (auto simp: min_def split: if_splits)
  have b: "built z ?last ?pt (pz_sequence_number z + 1 + of_nat k) ts ?body p"
    using p(3) IH(3) built_cong [OF IH(5,7)] by (simp add: ac_simps)
  have "(if ?last \<and> n mod MAX_NALU_LEN > 0 then seg payload (k * MAX_NALU_LEN) (n mod MAX_NALU_LEN)
      else seg payload (k * MAX_NALU_LEN) MAX_NALU_LEN) = Some (chunk payload n k)"
    using chunk_seg [OF assms(3), of k] Suc.prems by simp
  then have c: "(if ?last \<and> n mod MAX_NALU_LEN > 0 then seg payload 0 (n mod MAX_NALU_LEN)
      else seg payload 0 MAX_NALU_LEN) = Some ?body"
    by (rule seg_start_if)
  have st: "generic_step payload (packet_count n) (n mod MAX_NALU_LEN) ts k (ps, z1) = Some (ps @ [p], z2)"
    unfolding generic_step_def Let_def prod.case c
    using p(1) IH(6) by (simp add: z2_def)
  have "\<forall>i < Suc k. rp_padding_size ((ps @ [p]) ! i) = 0 \<and>
      built z (i = packet_count n - 1) ?pt (pz_sequence_number z + 1 + of_nat i) ts
      (take (length (chunk payload n i)) payload) ((ps @ [p]) ! i)"
    using IH(2,8) b p(2) by (auto simp: nth_append less_Suc_eq)
  moreover have "foldM (generic_step payload (packet_count n) (n mod MAX_NALU_LEN) ts) [0..<Suc k] ([], z) = Some (ps @ [p], z2)"
    using IH(1) st by simp
  moreover have "pz_sequence_number z2 = pz_sequence_number z + of_nat (Suc k)" "pz_ok z2"
    "pz_ssrc z2 = pz_ssrc z" "pz_payload_type z2 = pz_payload_type z"
    "pz_abs_send_time_ext_id z2 = pz_abs_send_time_ext_id z" "length (ps @ [p]) = Suc k"
    using IH(2-7) by (simp_all add: z2_def pz_ok_def)
  ultimately show ?case by blast
qed (use assms(1) in simp)

section \<open>Properties\<close>

lemma built_size:
  assumes "built z m pt seq ts payload p" and "rp_padding_size p = 0" and "length payload \<le> MAX_NALU_LEN + 2"
  shows "length (rp_buffer p) \<le> 1172"
  using assms by (auto simp: built_def MAX_NALU_LEN_def split: if_splits)

lemma built_fields:
  "built z m pt seq ts payload p \<Longrightarrow> rp_marker p = m \<and> rp_payload_type p = pt \<and> rp_sequence_number p = seq \<and>
    rp_timestamp p = ts \<and> rp_ssrc p = pz_ssrc z \<and> Payload p = Some payload \<and>
    RtpPacket_Build new_RtpPacket (rp_buffer p) (length (rp_buffer p)) = Some (True, p)"
  unfolding built_def holds_def by blast

lemma new_Packetizer_ok: "pz_ok (new_Packetizer ssrc pt)"
  by (simp add: pz_ok_def new_Packetizer_def valid_ext_id_def)

text \<open>
  C30: H.264 transmission. For every payload and every packetizer state, \<open>RtpPacketizerH264::Build\<close>
  returns a non-empty list of packets of at most 1172 bytes each with consecutive sequence numbers
  and the marker on the last one only. Parsing the bytes of each packet at the receiver and reading
  its header succeeds, the fragments the receiver sees are in order exactly the payload, and
  payloads of up to 1150 bytes travel as one unit, larger ones as fragments with the start flag on
  the first and the end flag on the last.
\<close>

theorem H264_Build_transmission:
  assumes "pz_ok z" and "unat (ucast (pz_payload_type z) :: byte) < 128"
    and "(ucast (pz_payload_type z) :: byte) \<noteq> PT_RTX" and "n \<le> length payload"
  shows "\<exists>ps z' frags. H264_Build z payload n ts = Some (ps, z') \<and> pz_ok z' \<and> ps \<noteq> [] \<and>
    pz_sequence_number z' = pz_sequence_number z + of_nat (length ps) \<and>
    length frags = length ps \<and> concat frags = take n payload \<and>
    (\<forall>i < length ps. length (rp_buffer (ps ! i)) \<le> 1172 \<and> (rp_marker (ps ! i) \<longleftrightarrow> i = length ps - 1) \<and>
      (\<exists>h'. open_h264 h (rp_buffer (ps ! i)) (length (rp_buffer (ps ! i))) = Some (True, h') \<and>
        rp_sequence_number (h264_packet h') = pz_sequence_number z + 1 + of_nat i \<and>
        rp_timestamp (h264_packet h') = ts \<and> rp_ssrc (h264_packet h') = pz_ssrc z \<and>
        Payload (h264_packet h') = Some (frags ! i) \<and>
        (if n \<le> MAX_NALU_LEN then fui_nal_unit_type h' = NAL_NALU
         else fui_nal_unit_type h' = NAL_FU_A \<and> (fuh_start h' \<longleftrightarrow> i = 0) \<and> (fuh_end h' \<longleftrightarrow> i = length ps - 1))))"
proof (cases "n \<le> MAX_NALU_LEN")
  case True
  obtain p z' where p: "BuildNalu z payload n ts = Some ([p], z')" "pz_sequence_number z' = pz_sequence_number z + 1"
    "pz_ok z'" "rp_padding_size p = 0"
    "built z True (ucast (pz_payload_type z)) (pz_sequence_number z + 1) ts (nalu_byte # take n payload) p"
    using BuildNalu_run [OF assms(1,2,4), of ts] by blast
  have "length (rp_buffer p) \<le> 1172"
    using built_size [OF p(5,4)] True by simp
  moreover have "length (take n payload) < 2 ^ 63" using True by (simp add: MAX_NALU_LEN_def)
  ultimately show ?thesis
    using True p open_h264_nalu [OF p(5) assms(3), of h] built_fields [OF p(5)]
    by (intro exI [of _ "[p]"] exI [of _ z'] exI [of _ "[take n payload]"]) (auto simp: H264_Build_def)
next
  case False
  let ?c = "packet_count n"
  obtain ps z' where ps: "BuildFua z payload n ts = Some (ps, z')" "length ps = ?c"
    "pz_sequence_number z' = pz_sequence_number z + of_nat ?c" "pz_ok z'"
    "\<forall>i < ?c. rp_padding_size (ps ! i) = 0 \<and>
      built z (i = ?c - 1) (ucast (pz_payload_type z)) (pz_sequence_number z + 1 + of_nat i) ts
      ([fu_indicator_byte, fu_header_byte (i = 0) (i = ?c - 1)] @ chunk payload n i) (ps ! i)"
    using BuildFua_run [OF assms(1,2,4), of ts] by blast
  have len: "length (chunk payload n i) < 2 ^ 63" for i
    using chunk_length [of payload n i] by (simp add: MAX_NALU_LEN_def)
  have each: "length (rp_buffer (ps ! i)) \<le> 1172 \<and> (rp_marker (ps ! i) \<longleftrightarrow> i = ?c - 1) \<and>
      (\<exists>h'. open_h264 h (rp_buffer (ps ! i)) (length (rp_buffer (ps ! i))) = Some (True, h') \<and>
        rp_sequence_number (h264_packet h') = pz_sequence_number z + 1 + of_nat i \<and>
        rp_timestamp (h264_packet h') = ts \<and> rp_ssrc (h264_packet h') = pz_ssrc z \<and>
        Payload (h264_packet h') = Some (chunk payload n i) \<and> fui_nal_unit_type h' = NAL_FU_A \<and>
        (fuh_start h' \<longleftrightarrow> i = 0) \<and> (fuh_end h' \<longleftrightarrow> i = ?c - 1))" if "i < ?c" for i
  proof -
    have b: "rp_padding_size (ps ! i) = 0"
      "built z (i = ?c - 1) (ucast (pz_payload_type z)) (pz_sequence_number z + 1 + of_nat i) ts
        ([fu_indicator_byte, fu_header_byte (i = 0) (i = ?c - 1)] @ chunk payload n i) (ps ! i)"
      using ps(5) that by simp_all
    show ?thesis
      using built_size [OF b(2,1)] chunk_length [of payload n i] open_h264_fua [OF b(2) assms(3) len, of h]
        built_fields [OF b(2)] by auto
  qed
  have "0 < n" using False by simp
  then have "?c \<noteq> 0" using packet_count_bounds(1) [of n] by (metis mult_0 not_le)
  then show ?thesis
    using False ps(1-4) each concat_chunk [of payload n]
    by (intro exI [of _ ps] exI [of _ z'] exI [of _ "map (chunk payload n) [0..<?c]"]) (auto simp: H264_Build_def)
qed

theorem H264_Build_transmission_witness:
  "\<exists>ps z' frags. H264_Build (new_Packetizer 7 PT_H264) (replicate 1200 5) 1200 90 = Some (ps, z') \<and>
    concat frags = replicate 1200 5 \<and> length frags = length ps \<and>
    (\<forall>i < length ps. \<exists>h'. open_h264 undefined (rp_buffer (ps ! i)) (length (rp_buffer (ps ! i))) = Some (True, h') \<and>
      Payload (h264_packet h') = Some (frags ! i) \<and> (fuh_start h' \<longleftrightarrow> i = 0))"
proof -
  have "pz_payload_type (new_Packetizer 7 PT_H264) = 96" by (simp add: new_Packetizer_def PT_H264_def)
  then show ?thesis
    using H264_Build_transmission [of "new_Packetizer 7 PT_H264" 1200 "replicate 1200 5" 90 undefined]
    by (auto simp: new_Packetizer_ok PT_RTX_def MAX_NALU_LEN_def) blast
qed

text \<open>
  padding. \<open>BuildPadding\<close> ends for every size; the packets' bodies add up to the requested size,
  each is at most 1150 bytes, consists of zeroes closed by a padding count of one, carries the
  payload type before the media type, and the receiver parses it back.
\<close>

theorem H264_BuildPadding_correct:
  assumes "pz_ok z" and "unat (ucast (pz_payload_type z - 1) :: byte) < 128"
  shows "\<exists>ps z' ks. H264_BuildPadding z n ts = Some (ps, z') \<and> length ks = length ps \<and> sum_list ks = n \<and>
    pz_sequence_number z' = pz_sequence_number z + of_nat (length ps) \<and>
    (\<forall>i < length ps. 0 < ks ! i \<and> ks ! i \<le> MAX_NALU_LEN \<and>
      RtpPacket_Build new_RtpPacket (rp_buffer (ps ! i)) (length (rp_buffer (ps ! i))) = Some (True, ps ! i) \<and>
      Payload (ps ! i) = Some (replicate (ks ! i - 1) 0) \<and> rp_padding_size (ps ! i) = 1 \<and>
      \<not> rp_marker (ps ! i) \<and> rp_payload_type (ps ! i) = ucast (pz_payload_type z - 1) \<and>
      rp_sequence_number (ps ! i) = pz_sequence_number z + 1 + of_nat i)"
proof -
  obtain ps z' ks where "H264_BuildPadding z n ts = Some (ps, z')" "length ks = length ps" "sum_list ks = n"
    "pz_sequence_number z' = pz_sequence_number z + of_nat (length ps)"
    "\<forall>i < length ps. padding_packet z (pz_sequence_number z + 1 + of_nat i) ts (ks ! i) (ps ! i)"
    using padding_loop_run [OF assms, of ts n "[]"] by (auto simp: H264_BuildPadding_def)
  then show ?thesis
    by (intro exI [of _ ps] exI [of _ z'] exI [of _ ks]) (auto simp: padding_packet_def built_def holds_def)
qed

theorem H264_BuildPadding_correct_witness:
  "\<exists>ps z' ks. H264_BuildPadding (new_Packetizer 7 PT_H264) 2000 90 = Some (ps, z') \<and> length ks = length ps \<and>
    sum_list ks = (2000 :: nat) \<and> (\<forall>i < length ps. rp_padding_size (ps ! i) = 1 \<and> rp_payload_type (ps ! i) = 95)"
proof -
  have "pz_payload_type (new_Packetizer 7 PT_H264) = 96" by (simp add: new_Packetizer_def PT_H264_def)
  then show ?thesis
    using H264_BuildPadding_correct [of "new_Packetizer 7 PT_H264" 2000 90]
    by (auto simp: new_Packetizer_ok)
qed

text \<open>
  generic payloads. \<open>RtpPacketizerGeneric::Build\<close> sends as many packets as the size needs, with
  consecutive sequence numbers and the marker on the last; every packet carries a prefix of the
  payload, of the length of its fragment. A payload of up to 1150 bytes therefore arrives whole,
  and every later fragment of a larger one repeats the beginning of the payload.
\<close>

theorem Generic_Build_prefixes:
  assumes "pz_ok z" and "unat (ucast (pz_payload_type z) :: byte) < 128" and "n \<le> length payload"
  shows "\<exists>ps z'. Generic_Build z payload n ts = Some (ps, z') \<and> length ps = packet_count n \<and>
    pz_sequence_number z' = pz_sequence_number z + of_nat (length ps) \<and>
    (\<forall>i < length ps. Payload (ps ! i) = Some (take (length (chunk payload n i)) payload) \<and>
      (rp_marker (ps ! i) \<longleftrightarrow> i = length ps - 1) \<and>
      rp_sequence_number (ps ! i) = pz_sequence_number z + 1 + of_nat i \<and>
      RtpPacket_Build new_RtpPacket (rp_buffer (ps ! i)) (length (rp_buffer (ps ! i))) = Some (True, ps ! i)) \<and>
    (0 < n \<and> n \<le> MAX_NALU_LEN \<longrightarrow> length ps = 1 \<and> Payload (ps ! 0) = Some (take n payload))"
proof -
  obtain ps z' where ps: "Generic_Build z payload n ts = Some (ps, z')" "length ps = packet_count n"
    "pz_sequence_number z' = pz_sequence_number z + of_nat (packet_count n)"
    "\<forall>i < packet_count n. rp_padding_size (ps ! i) = 0 \<and>
      built z (i = packet_count n - 1) (ucast (pz_payload_type z)) (pz_sequence_number z + 1 + of_nat i) ts
      (take (length (chunk payload n i)) payload) (ps ! i)"
    using generic_run [OF assms, of "packet_count n" ts] unfolding Generic_Build_def packet_count_def [symmetric] Let_def
    by blast
  have "0 < n \<and> n \<le> MAX_NALU_LEN \<longrightarrow> packet_count n = 1 \<and> length (chunk payload n 0) = n"
    using assms(3) by (cases "n = MAX_NALU_LEN") (auto simp: packet_count_def chunk_def MAX_NALU_LEN_def)
  then show ?thesis
    using ps by (intro exI [of _ ps] exI [of _ z']) (auto dest: built_fields)
qed

theorem Generic_Build_prefixes_witness:
  "\<exists>ps z'. Generic_Build (new_Packetizer 7 PT_H264) (replicate 1150 5 @ [1]) 1151 90 = Some (ps, z') \<and>
    length ps = 2 \<and> Payload (ps ! 1) = Some [5]"
proof -
  have "pz_payload_type (new_Packetizer 7 PT_H264) = 96" by (simp add: new_Packetizer_def PT_H264_def)
  moreover have "packet_count 1151 = 2" by (simp add: packet_count_def MAX_NALU_LEN_def)
  moreover have "length (chunk (replicate 1150 (5 :: byte) @ [1]) 1151 1) = 1" by (simp add: chunk_def MAX_NALU_LEN_def)
  moreover have "take 1 (replicate 1150 (5 :: byte) @ [1]) = [5]" by simp
  ultimately show ?thesis
    using Generic_Build_prefixes [of "new_Packetizer 7 PT_H264" 1151 "replicate 1150 5 @ [1]" 90] new_Packetizer_ok [of 7 PT_H264]
    by auto
qed

end
