(* ===== verification/Rtx.thy ===== *)
theory Rtx
  imports Packetizer
begin

text \<open>
  Retransmission: the packet with sending metadata (\<open>src/rtp/rtp_packet/rtp_packet_to_send.{h,cpp}\<close>),
  the encapsulation that \<open>VideoChannelSend::ReSendPacket\<close> passes to the packet history
  (\<open>src/transport/channel/video_channel_send.cpp\<close>) and its inverse at the receiver,
  \<open>RtpVideoReceiver::RestoreMediaPacketFromRtx\<close>
  (\<open>src/transport/channel/rtp_video_receiver.cpp\<close>).
\<close>

section \<open>Packets to send\<close>

datatype RtpPacketMediaType = kAudio | kVideo | kRetransmission | kForwardErrorCorrection | kPadding
datatype OriginalType = Original_kAudio | Original_kVideo

record RtpPacketToSend =
  ts_packet :: RtpPacket
  ts_packet_type :: "RtpPacketMediaType option"
  ts_original_packet_type :: "OriginalType option"
  ts_original_ssrc :: "u32 option"
  ts_retransmitted_sequence_number :: "u16 option"
  ts_is_first_packet_of_frame :: bool
  ts_is_key_frame :: bool
  ts_fec_protect_packet :: bool
  ts_capture_time :: int
  ts_transport_sequence_number :: "int option"
  ts_time_in_send_queue :: "int option"
  ts_stream_name :: string

definition new_RtpPacketToSend :: "RtpPacket \<Rightarrow> RtpPacketToSend" where
  "new_RtpPacketToSend p = \<lparr>ts_packet = p, ts_packet_type = None, ts_original_packet_type = None,
     ts_original_ssrc = None, ts_retransmitted_sequence_number = None,
     ts_is_first_packet_of_frame = False, ts_is_key_frame = False, ts_fec_protect_packet = False,
     ts_capture_time = 0, ts_transport_sequence_number = None, ts_time_in_send_queue = None, ts_stream_name = []\<rparr>"

definition set_packet_type :: "RtpPacketToSend \<Rightarrow> RtpPacketMediaType \<Rightarrow> RtpPacketToSend" where
  "set_packet_type t type =
     (let t = (if ts_packet_type t = Some kAudio then t\<lparr>ts_original_packet_type := Some Original_kAudio\<rparr>
               else if ts_packet_type t = Some kVideo then t\<lparr>ts_original_packet_type := Some Original_kVideo\<rparr>
               else t) in
      t\<lparr>ts_packet_type := Some type\<rparr>)"

text \<open>
  The payload type is read before it is set to RTX, so the caller has to set it; the result of the
  final \<open>Build\<close> is not looked at.
\<close>

definition BuildRtxPacket :: "RtpPacketToSend \<Rightarrow> (bool \<times> RtpPacketToSend) option" where
  "BuildRtxPacket t =
     (case ts_retransmitted_sequence_number t of
        None \<Rightarrow> Some (False, t)
      | Some osn \<Rightarrow>
          let p = ts_packet t;
              csrc_count = of_nat (length (rp_csrcs p)) :: byte;
              payload_type = rp_payload_type p;
              frame = frame_header (rp_version p) (rp_has_padding p) (rp_has_extension p) csrc_count
                (rp_marker p) payload_type (rp_sequence_number p) (rp_timestamp p) (rp_ssrc p) (rp_csrcs p);
              original_header_size = rp_payload_offset p;
              original_buffer = rp_buffer p;
              p = p\<lparr>rp_payload_type := PT_RTX\<rparr>;
              extension_offset = kFixedHeaderSize + unat csrc_count * 4 in
          if rp_has_extension p \<and>
             (extension_offset > original_header_size \<or> original_header_size > length original_buffer)
          then Some (False, t\<lparr>ts_packet := p\<rparr>)
          else do {
            ext \<leftarrow> (if rp_has_extension p
                    then seg original_buffer extension_offset (original_header_size - extension_offset)
                    else Some []);
            d \<leftarrow> Payload p;
            let frame = frame @ ext @ [ucast (drop_bit 8 osn AND 0xFF), ucast (osn AND 0xFF)] @ d in do {
            (ok, p) \<leftarrow> RtpPacket_Build p frame (length frame);
            Some (True, t\<lparr>ts_packet := p\<rparr>) } })"

text \<open>The encapsulation of \<open>ReSendPacket\<close>: a copy of the stored packet becomes its RTX packet.\<close>

definition make_rtx :: "u32 \<Rightarrow> RtpPacketToSend \<Rightarrow> RtpPacketToSend option option" where
  "make_rtx rtx_ssrc stored =
     (let r = stored\<lparr>ts_packet := (ts_packet stored)\<lparr>rp_ssrc := rtx_ssrc, rp_payload_type := PT_RTX\<rparr>,
                ts_retransmitted_sequence_number := Some (rp_sequence_number (ts_packet stored)),
                ts_original_ssrc := Some (rp_ssrc (ts_packet stored))\<rparr> in do {
      (ok, r) \<leftarrow> BuildRtxPacket r;
      Some (if ok then Some r else None) })"

text \<open>
  \<open>PacedSender::SendPacket\<close> assigns the sequence number at the last moment: one counter per source,
  starting at one. The packet with its number goes to the transport callback.
\<close>

definition SendPacket :: "(u32 \<rightharpoonup> u16) \<Rightarrow> RtpPacketToSend \<Rightarrow> (RtpPacketToSend \<times> (u32 \<rightharpoonup> u16)) option" where
  "SendPacket ssrc_seq t =
     (let ssrc = rp_ssrc (ts_packet t);
          n = (case ssrc_seq ssrc of None \<Rightarrow> 1 | Some n \<Rightarrow> n) in do {
      p \<leftarrow> UpdateSequenceNumber (ts_packet t) n;
      Some (t\<lparr>ts_packet := p\<rparr>, ssrc_seq(ssrc \<mapsto> n + 1)) })"

section \<open>Restoring the media packet\<close>

definition PT_UNDEFINED :: byte where "PT_UNDEFINED = 0"

definition RestoreMediaPacketFromRtx :: "u32 \<Rightarrow> byte \<Rightarrow> RtpPacket \<Rightarrow> RtpPacket \<Rightarrow> (bool \<times> RtpPacket) option" where
  "RestoreMediaPacketFromRtx media_ssrc media_payload_type rtx media_packet =
     (if rp_payload_type rtx \<noteq> PT_RTX \<or> rp_payload_size rtx < 2 \<or> rp_payload_offset rtx < kFixedHeaderSize \<or>
         media_ssrc = 0 \<or> media_payload_type = PT_UNDEFINED \<or> media_payload_type = PT_RTX
      then Some (False, media_packet)
      else
        let off = rp_payload_offset rtx; pad = rp_padding_size rtx in do {
          o1 \<leftarrow> rd (rp_buffer rtx) off;
          o2 \<leftarrow> rd (rp_buffer rtx) (off + 1);
          let osn = push_bit 8 (ucast o1) OR ucast o2 :: u16 in do {
          hdr \<leftarrow> seg (rp_buffer rtx) 0 off;
          pl \<leftarrow> seg (rp_buffer rtx) (off + 2) (rp_payload_size rtx - 2);
          padding \<leftarrow> (if pad > 0 then seg (rp_buffer rtx) (size_sub (rp_size rtx) pad) pad else Some []);
          let b = hdr @ pl @ padding in do {
          b1 \<leftarrow> rd b 1;
          b \<leftarrow> wr b 1 ((b1 AND 0x80) OR media_payload_type);
          b \<leftarrow> wr b 2 (ucast (drop_bit 8 osn));
          b \<leftarrow> wr b 3 (ucast osn);
          b \<leftarrow> wr b 8 (ucast (drop_bit 24 media_ssrc));
          b \<leftarrow> wr b 9 (ucast (drop_bit 16 media_ssrc));
          b \<leftarrow> wr b 10 (ucast (drop_bit 8 media_ssrc));
          b \<leftarrow> wr b 11 (ucast media_ssrc);
          RtpPacket_Build media_packet b (length b) } } })"

section \<open>Frames on the wire\<close>

text \<open>A frame of a packetizer, with its send time and body.\<close>

definition wire :: "byte option \<Rightarrow> byte list \<Rightarrow> bool \<Rightarrow> byte \<Rightarrow> u16 \<Rightarrow> u32 \<Rightarrow> u32 \<Rightarrow> byte list \<Rightarrow> byte list" where
  "wire eid t m pt seq ts ssrc body =
     frame_header kRtpVersion False (eid \<noteq> None) 0 m pt seq ts ssrc [] @ send_time_block eid t @ body"

lemma low_byte: "(ucast (x AND 255) :: byte) = ucast (x :: 'a::len word)"
proof -
  have "(255 :: 'a word) = mask 8" by (simp add: mask_eq_exp_minus_1)
  show ?thesis unfolding \<open>255 = mask 8\<close>
    by (auto intro!: bit_eqI simp: bit_simps dest: bit_imp_le_length)
qed

lemma wire_length:
  "length t = 3 \<Longrightarrow> length (wire eid t m pt seq ts ssrc body) = (if eid = None then 12 else 20) + length body"
  by (auto simp: wire_def send_time_block_def abs_send_time_bytes_def split: option.split)

lemma wire_bytes:
  "wire eid t m pt seq ts ssrc body =
    [push_bit 6 kRtpVersion OR push_bit 4 (of_bool (eid \<noteq> None)), push_bit 7 (of_bool m) OR pt,
     ucast (drop_bit 8 seq), ucast seq] @ push32 ts @ push32 ssrc @ send_time_block eid t @ body"
  by (simp add: wire_def frame_header_def low_byte)

lemma Build_wire:
  assumes "valid_ext_id eid" and "length t = 3" and "unat pt < 128"
  shows "\<exists>p'. RtpPacket_Build p (wire eid t m pt seq ts ssrc body) (length (wire eid t m pt seq ts ssrc body)) = Some (True, p') \<and>
    holds p' m pt seq ts ssrc body \<and> rp_buffer p' = wire eid t m pt seq ts ssrc body \<and>
    rp_has_padding p' = False \<and> rp_has_extension p' = (eid \<noteq> None) \<and> rp_padding_size p' = 0 \<and>
    rp_payload_size p' = length body \<and> rp_payload_offset p' = (if eid = None then 12 else 20) \<and> rp_csrcs p' = []"
  using Build_frame [OF assms, where hp = False and m = m and seq = seq and ts = ts and ssrc = ssrc and p = p and body = body]
  unfolding wire_def by auto

text \<open>A packet object that stands for such a frame.\<close>

definition on_wire :: "byte option \<Rightarrow> byte list \<Rightarrow> bool \<Rightarrow> byte \<Rightarrow> u16 \<Rightarrow> u32 \<Rightarrow> u32 \<Rightarrow> byte list \<Rightarrow> RtpPacket \<Rightarrow> bool" where
  "on_wire eid t m pt seq ts ssrc body p \<longleftrightarrow> holds p m pt seq ts ssrc body \<and>
     rp_buffer p = wire eid t m pt seq ts ssrc body \<and> \<not> rp_has_padding p \<and> rp_has_extension p = (eid \<noteq> None) \<and>
     rp_padding_size p = 0 \<and> rp_payload_size p = length body \<and> rp_payload_offset p = (if eid = None then 12 else 20) \<and>
     rp_csrcs p = [] \<and> (eid \<noteq> None \<longrightarrow> rp_extension_profile p = kOneByteExtensionProfileId) \<and>
     rp_extensions p = (case eid of None \<Rightarrow> []
       | Some i \<Rightarrow> [\<lparr>ext_id = i, ext_len = 3, ext_data_offset = 17, ext_data = t\<rparr>])"

lemma Build_on_wire:
  assumes "valid_ext_id eid" and "length t = 3" and "unat pt < 128"
  shows "\<exists>p'. RtpPacket_Build p (wire eid t m pt seq ts ssrc body) (length (wire eid t m pt seq ts ssrc body)) = Some (True, p') \<and>
    on_wire eid t m pt seq ts ssrc body p'"
  using Build_frame [OF assms, where hp = False and m = m and seq = seq and ts = ts and ssrc = ssrc and p = p and body = body]
  unfolding wire_def on_wire_def by auto

lemma UpdateSequenceNumber_wire:
  assumes "rp_buffer p = wire eid t m pt seq ts ssrc body"
  shows "UpdateSequenceNumber p s = Some (p\<lparr>rp_buffer := wire eid t m pt s ts ssrc body, rp_sequence_number := s\<rparr>)"
  using assms by (simp add: UpdateSequenceNumber_def wire_bytes wr_def low_byte numeral_2_eq_2 numeral_3_eq_3)

lemma UpdateSequenceNumber_on_wire:
  assumes "on_wire eid t m pt seq ts ssrc body p"
  shows "\<exists>p'. UpdateSequenceNumber p s = Some p' \<and> on_wire eid t m pt s ts ssrc body p'"
proof -
  have b: "rp_buffer p = wire eid t m pt seq ts ssrc body" using assms by (simp add: on_wire_def)
  have l: "length (wire eid t m pt s ts ssrc body) = length (wire eid t m pt seq ts ssrc body)" by (simp add: wire_bytes)
  have "Payload p = Some body" "rp_payload_offset p = (if eid = None then 12 else 20)"
    using assms by (auto simp: on_wire_def holds_def)
  then have "drop (rp_payload_offset p) (wire eid t m pt s ts ssrc body) = drop (rp_payload_offset p) (rp_buffer p)"
    unfolding b by (auto simp: wire_def drop_append)
  then have "Payload (p\<lparr>rp_buffer := wire eid t m pt s ts ssrc body, rp_sequence_number := s\<rparr>) = Payload p"
    using l b by (auto simp: Payload_def seg_def)
  then show ?thesis using UpdateSequenceNumber_wire [OF b, of s] assms l b by (auto simp: on_wire_def holds_def)
qed

text \<open>Stamping the send time.\<close>

lemma UpdateAbsoluteSendTimestamp_on_wire:
  assumes "on_wire (Some i) t m pt seq ts ssrc body p" and "length t = 3"
  shows "\<exists>t' p'. UpdateAbsoluteSendTimestamp p i abs_send_time = Some (True, p') \<and> length t' = 3 \<and>
    on_wire (Some i) t' m pt seq ts ssrc body p'"
proof -
  define w where "w = abs_send_time AND 0x00FFFFFF"
  define t' where "t' = [ucast (drop_bit 16 w), ucast (drop_bit 8 w), ucast w :: byte]"
  define pre where "pre = frame_header kRtpVersion False True 0 m pt seq ts ssrc [] @ [0xBE, 0xDE, 0, 1, push_bit 4 i OR 2]"
  have wire: "wire (Some i) u m pt seq ts ssrc body = pre @ u @ body" for u
    by (simp add: wire_def pre_def send_time_block_def abs_send_time_bytes_def)
  have n: "length pre = 17" by (simp add: pre_def)
  have b: "rp_buffer p = pre @ t @ body" using assms by (simp add: on_wire_def wire)
  obtain x y z where t: "t = [x, y, z]" using assms(2) by (auto simp: numeral_3_eq_3 length_Suc_conv)
  have ext: "rp_extensions p = [\<lparr>ext_id = i, ext_len = 3, ext_data_offset = 17, ext_data = t\<rparr>]"
    "rp_extension_profile p = kOneByteExtensionProfileId"
    using assms(1) by (simp_all add: on_wire_def)
  have "update_send_time_loop i abs_send_time (rp_buffer p) (rp_extensions p) =
      Some (True, pre @ t' @ body, [\<lparr>ext_id = i, ext_len = 3, ext_data_offset = 17, ext_data = t'\<rparr>])"
    unfolding b t ext(1) using n
    by (simp add: wr_def Let_def seg_def list_update_append nth_append t'_def w_def numeral_2_eq_2)
  then have u: "UpdateAbsoluteSendTimestamp p i abs_send_time = Some (True, p\<lparr>rp_buffer := pre @ t' @ body,
      rp_extensions := [\<lparr>ext_id = i, ext_len = 3, ext_data_offset = 17, ext_data = t'\<rparr>]\<rparr>)"
    using ext(2) by (simp add: UpdateAbsoluteSendTimestamp_def)
  have l: "length t' = 3" by (simp add: t'_def)
  have "on_wire (Some i) t' m pt seq ts ssrc body (p\<lparr>rp_buffer := pre @ t' @ body,
      rp_extensions := [\<lparr>ext_id = i, ext_len = 3, ext_data_offset = 17, ext_data = t'\<rparr>]\<rparr>)"
    using assms(1) n l unfolding on_wire_def holds_def wire by (simp add: Payload_def seg_def b assms(2))
  with u l show ?thesis by blast
qed

section \<open>The round trip of a retransmission\<close>

lemma make_rtx_wire:
  assumes "on_wire eid t m pt seq ts ssrc body p"
    and "ts_packet stored = p" and "valid_ext_id eid" and "length t = 3" and "unat pt < 128"
  shows "\<exists>r. make_rtx rtx_ssrc stored = Some (Some r) \<and> ts_retransmitted_sequence_number r = Some seq \<and>
    ts_original_ssrc r = Some ssrc \<and> 
    on_wire eid t m PT_RTX seq ts rtx_ssrc ([ucast (drop_bit 8 seq), ucast seq] @ body) (ts_packet r)"
proof -
  let ?w = "wire eid t m pt seq ts ssrc body" and ?off = "if eid = None then 12 else 20"
  let ?r = "wire eid t m PT_RTX seq ts rtx_ssrc ([ucast (drop_bit 8 seq), ucast seq] @ body)"
  have p: "holds p m pt seq ts ssrc body" "rp_buffer p = ?w" "\<not> rp_has_padding p" "rp_has_extension p \<longleftrightarrow> eid \<noteq> None"
    "rp_payload_size p = length body" "rp_payload_offset p = ?off" "rp_csrcs p = []"
    using assms(1) by (auto simp: on_wire_def)
  have ext: "(if eid \<noteq> None then seg ?w 12 (?off - 12) else Some []) = Some (send_time_block eid t)"
  proof (cases eid)
    case (Some i)
    have "length (send_time_block eid t) = 8"
      using Some assms(4) by (simp add: send_time_block_def abs_send_time_bytes_def)
    then show ?thesis using Some by (simp add: seg_def wire_def)
  qed (simp add: send_time_block_def)
  have off: "\<not> length ?w < ?off" by (simp add: wire_length [OF assms(4)])
  obtain q where q: "RtpPacket_Build (p\<lparr>rp_ssrc := rtx_ssrc, rp_payload_type := PT_RTX\<rparr>) ?r (length ?r) = Some (True, q)"
    "on_wire eid t m PT_RTX seq ts rtx_ssrc ([ucast (drop_bit 8 seq), ucast seq] @ body) q"
    using Build_on_wire [OF assms(3,4), of PT_RTX "p\<lparr>rp_ssrc := rtx_ssrc, rp_payload_type := PT_RTX\<rparr>" m seq ts rtx_ssrc
        "[ucast (drop_bit 8 seq), ucast seq] @ body"] by (auto simp: PT_RTX_def)
  have fr: "frame_header kRtpVersion False (eid \<noteq> None) 0 m PT_RTX seq ts rtx_ssrc [] @ send_time_block eid t @
      [ucast (drop_bit 8 seq AND 255), ucast (seq AND 255)] @ body = ?r"
    by (simp add: wire_def low_byte)
  have "Payload (p\<lparr>rp_ssrc := rtx_ssrc, rp_payload_type := PT_RTX\<rparr>) = Some body"
    using p(1) by (simp add: holds_def Payload_def)
  then have "make_rtx rtx_ssrc stored = Some (Some (stored\<lparr>ts_packet := q,
      ts_retransmitted_sequence_number := Some seq, ts_original_ssrc := Some ssrc\<rparr>))"
    using p off ext q(1) fr assms(2)
    by (cases eid) (simp_all add: make_rtx_def BuildRtxPacket_def Let_def holds_def kFixedHeaderSize_def kRtpVersion_def
        del: append.simps length_append)
  then show ?thesis using q(2) by auto
qed

lemma wire_rewrite:
  fixes seq osn :: u16 and ts rtx_ssrc ssrc :: u32
  assumes "b = wire eid t m PT_RTX seq ts rtx_ssrc body"
  shows "do {
      b1 \<leftarrow> rd b 1;
      b \<leftarrow> wr b 1 ((b1 AND 0x80) OR pt);
      b \<leftarrow> wr b 2 (ucast (drop_bit 8 osn));
      b \<leftarrow> wr b 3 (ucast osn);
      b \<leftarrow> wr b 8 (ucast (drop_bit 24 ssrc));
      b \<leftarrow> wr b 9 (ucast (drop_bit 16 ssrc));
      b \<leftarrow> wr b 10 (ucast (drop_bit 8 ssrc));
      b \<leftarrow> wr b 11 (ucast ssrc);
      f b } = (f (wire eid t m pt osn ts ssrc body) :: 'b option)"
proof -
  have "((push_bit 7 (of_bool m) OR PT_RTX) AND 0x80) OR pt = (push_bit 7 (of_bool m) OR pt :: byte)"
    by (cases m) (simp_all add: PT_RTX_def)
  then show ?thesis
    unfolding assms wire_bytes push32_def low_byte
    by (simp add: wr_def numeral_nat)
qed

lemma RestoreMediaPacketFromRtx_wire:
  assumes "RtpPacket_Build new_RtpPacket (wire eid t m PT_RTX s ts rtx_ssrc ([ucast (drop_bit 8 seq), ucast seq] @ body))
      (length (wire eid t m PT_RTX s ts rtx_ssrc ([ucast (drop_bit 8 seq), ucast seq] @ body))) = Some (True, q)"
    and "valid_ext_id eid" and "length t = 3" and "ssrc \<noteq> 0" and "pt \<noteq> PT_UNDEFINED" and "pt \<noteq> PT_RTX"
  shows "RestoreMediaPacketFromRtx ssrc pt q mp =
    RtpPacket_Build mp (wire eid t m pt seq ts ssrc body) (length (wire eid t m pt seq ts ssrc body))"
proof -
  let ?w = "wire eid t m PT_RTX s ts rtx_ssrc" and ?o = "[ucast (drop_bit 8 seq), ucast seq] :: byte list"
  have q: "holds q m PT_RTX s ts rtx_ssrc (?o @ body)" "rp_buffer q = ?w (?o @ body)" "rp_padding_size q = 0"
    "rp_payload_size q = length body + 2" "rp_payload_offset q = length (?w [])"
    using Build_wire [OF assms(2,3), of PT_RTX new_RtpPacket m s ts rtx_ssrc "?o @ body"] assms(1)
    by (auto simp: PT_RTX_def wire_length [OF assms(3)])
  have w: "?w (?o @ body) = ?w [] @ ?o @ body" "?w body = ?w [] @ body" by (simp_all add: wire_def)
  have "kFixedHeaderSize \<le> length (?w [])" by (simp add: wire_length [OF assms(3)] kFixedHeaderSize_def)
  moreover have "rd (rp_buffer q) (length (?w [])) = Some (ucast (drop_bit 8 seq))"
    "rd (rp_buffer q) (length (?w []) + 1) = Some (ucast seq)"
    "seg (rp_buffer q) 0 (length (?w [])) = Some (?w [])"
    "seg (rp_buffer q) (length (?w []) + 2) (length body + 2 - 2) = Some body"
    unfolding q(2) w(1) by (simp_all add: rd_def nth_append seg_def)
  moreover have "push_bit 8 (ucast (ucast (drop_bit 8 seq) :: byte)) OR ucast (ucast seq :: byte) = seq"
    by (rule bit_eqI) (auto simp: bit_simps dest: bit_imp_le_length)
  ultimately show ?thesis
    using q(1,3,4,5) assms(4-6) wire_rewrite [OF w(2) [symmetric], where pt = pt and osn = seq and ssrc = ssrc]
    by (simp add: RestoreMediaPacketFromRtx_def Let_def holds_def del: drop_bit_or)
qed

section \<open>Properties\<close>

text \<open>
  C31: a retransmission restores the lost packet. Take any packet as the packetizers make it, with or
  without a send time and with any body; encapsulate it for a negotiated RTX stream, number it in
  that stream with whatever its counter holds, and send the bytes: the receiver parses them as an
  RTX packet of that stream, restores from them the original packet, byte for byte and field for
  field.
\<close>

theorem rtx_roundtrip:
  assumes "RtpPacket_Build new_RtpPacket (wire eid t m pt seq ts ssrc body) (length (wire eid t m pt seq ts ssrc body)) = Some (True, p)"
    and "valid_ext_id eid" and "length t = 3" and "unat pt < 128" and "pt \<noteq> PT_RTX" and "pt \<noteq> PT_UNDEFINED"
    and "ssrc \<noteq> 0" and "ts_packet stored = p"
  shows "\<exists>r s ssrc_seq' q. make_rtx rtx_ssrc stored = Some (Some r) \<and> SendPacket ssrc_seq r = Some (s, ssrc_seq') \<and>
    RtpPacket_Build new_RtpPacket (rp_buffer (ts_packet s)) (length (rp_buffer (ts_packet s))) = Some (True, q) \<and>
    rp_payload_type q = PT_RTX \<and> rp_ssrc q = rtx_ssrc \<and>
    rp_sequence_number q = (case ssrc_seq rtx_ssrc of None \<Rightarrow> 1 | Some n \<Rightarrow> n) \<and>
    ssrc_seq' = ssrc_seq(rtx_ssrc \<mapsto> rp_sequence_number q + 1) \<and>
    RestoreMediaPacketFromRtx ssrc pt q new_RtpPacket = Some (True, p)"
proof -
  let ?n = "case ssrc_seq rtx_ssrc of None \<Rightarrow> 1 | Some n \<Rightarrow> n"
  let ?w = "\<lambda>s. wire eid t m PT_RTX s ts rtx_ssrc ([ucast (drop_bit 8 seq), ucast seq] @ body)"
  have "on_wire eid t m pt seq ts ssrc body p" using Build_on_wire [OF assms(2-4), of new_RtpPacket m seq ts ssrc body] assms(1) by auto
  then obtain r where r: "make_rtx rtx_ssrc stored = Some (Some r)" "rp_ssrc (ts_packet r) = rtx_ssrc"
    "rp_buffer (ts_packet r) = ?w seq"
    using make_rtx_wire [OF _ assms(8,2,3,4)] by (fastforce simp: on_wire_def holds_def)
  let ?s = "r\<lparr>ts_packet := (ts_packet r)\<lparr>rp_buffer := ?w ?n, rp_sequence_number := ?n\<rparr>\<rparr>"
  have s: "SendPacket ssrc_seq r = Some (?s, ssrc_seq(rtx_ssrc \<mapsto> ?n + 1))"
    using r(2) UpdateSequenceNumber_wire [OF r(3), of ?n] by (simp add: SendPacket_def Let_def)
  obtain q where q: "RtpPacket_Build new_RtpPacket (?w ?n) (length (?w ?n)) = Some (True, q)"
    "holds q m PT_RTX ?n ts rtx_ssrc ([ucast (drop_bit 8 seq), ucast seq] @ body)"
    using Build_wire [OF assms(2,3), of PT_RTX new_RtpPacket m ?n ts rtx_ssrc "[ucast (drop_bit 8 seq), ucast seq] @ body"]
    by (auto simp: PT_RTX_def)
  have "RestoreMediaPacketFromRtx ssrc pt q new_RtpPacket = Some (True, p)"
    using RestoreMediaPacketFromRtx_wire [OF q(1) assms(2,3,7,6,5)] assms(1) by simp
  with r(1) s q show ?thesis
    by (intro exI [of _ r] exI [of _ ?s] exI [of _ "ssrc_seq(rtx_ssrc \<mapsto> ?n + 1)"] exI [of _ q])
      (auto simp: holds_def)
qed

theorem rtx_roundtrip_witness:
  "\<exists>p r s ssrc_seq' q. RtpPacket_Build new_RtpPacket (wire (Some 3) [1, 2, 3] True 96 7 90 55 [0x21, 9])
      (length (wire (Some 3) [1, 2, 3] True 96 7 90 55 [0x21, 9])) = Some (True, p) \<and>
    make_rtx 66 (new_RtpPacketToSend p) = Some (Some r) \<and> SendPacket Map.empty r = Some (s, ssrc_seq') \<and>
    RtpPacket_Build new_RtpPacket (rp_buffer (ts_packet s)) (length (rp_buffer (ts_packet s))) = Some (True, q) \<and>
    rp_sequence_number q = 1 \<and> RestoreMediaPacketFromRtx 55 96 q new_RtpPacket = Some (True, p)"
proof -
  have v: "valid_ext_id (Some 3)" "length [1 :: byte, 2, 3] = 3" "unat (96 :: byte) < 128" "(96 :: byte) \<noteq> PT_RTX"
    "(96 :: byte) \<noteq> PT_UNDEFINED" "(55 :: u32) \<noteq> 0"
    by (simp_all add: valid_ext_id_def PT_RTX_def PT_UNDEFINED_def)
  obtain p where p: "RtpPacket_Build new_RtpPacket (wire (Some 3) [1, 2, 3] True 96 7 90 55 [0x21, 9])
      (length (wire (Some 3) [1, 2, 3] True 96 7 90 55 [0x21, 9])) = Some (True, p)"
    using Build_wire [OF v(1-3)] by blast
  have "ts_packet (new_RtpPacketToSend p) = p" by (simp add: new_RtpPacketToSend_def)
  from rtx_roundtrip [OF p v this, of 66 Map.empty] p show ?thesis
    by (simp only: option.case) blast
qed

end
