(* ===== verification/Units.thy ===== *)
theory Units
  imports Prelude "HOL-Library.Signed_Division"
begin

text \<open>
  The unit types \<open>TimeDelta\<close>, \<open>Timestamp\<close>, \<open>DataSize\<close> and \<open>DataRate\<close>
  (\<open>src/common/api/units\<close>) and the rounding divisions
  (\<open>src/common/rtc_base/numerics/divide_round.h\<close>).

  Every unit wraps an \<open>int64_t\<close> whose extreme values stand for the infinities. The model has the
  value as an \<open>int\<close>; \<open>int64\<close> says that it fits. Arithmetic that leaves the range is undefined in
  the source, so the laws below carry range conditions. C++ integer division truncates
  (\<open>sdiv\<close>, \<open>smod\<close>).
\<close>

type_synonym unit_value = int
type_synonym timestamp = unit_value
type_synonym time_delta = unit_value

definition int64 :: "int \<Rightarrow> bool" where
  "int64 v \<longleftrightarrow> - (2 ^ 63) \<le> v \<and> v < 2 ^ 63"

section \<open>The base class\<close>

definition PlusInfinity :: unit_value where "PlusInfinity = 2 ^ 63 - 1"
definition MinusInfinity :: unit_value where "MinusInfinity = - (2 ^ 63)"

definition IsPlusInfinity :: "unit_value \<Rightarrow> bool" where "IsPlusInfinity v \<longleftrightarrow> v = PlusInfinity"
definition IsMinusInfinity :: "unit_value \<Rightarrow> bool" where "IsMinusInfinity v \<longleftrightarrow> v = MinusInfinity"
definition IsInfinite :: "unit_value \<Rightarrow> bool" where
  "IsInfinite v \<longleftrightarrow> v = PlusInfinity \<or> v = MinusInfinity"
definition IsFinite :: "unit_value \<Rightarrow> bool" where "IsFinite v \<longleftrightarrow> \<not> IsInfinite v"

definition RoundTo :: "unit_value \<Rightarrow> unit_value \<Rightarrow> unit_value" where
  "RoundTo v resolution = (v + resolution sdiv 2) sdiv resolution * resolution"
definition RoundUpTo :: "unit_value \<Rightarrow> unit_value \<Rightarrow> unit_value" where
  "RoundUpTo v resolution = (v + resolution - 1) sdiv resolution * resolution"
definition RoundDownTo :: "unit_value \<Rightarrow> unit_value \<Rightarrow> unit_value" where
  "RoundDownTo v resolution = v sdiv resolution * resolution"

definition DivideRoundUp :: "int \<Rightarrow> int \<Rightarrow> int" where
  "DivideRoundUp dividend divisor =
     dividend sdiv divisor + (if dividend smod divisor > 0 then 1 else 0)"

definition DivideRoundToNearest :: "int \<Rightarrow> int \<Rightarrow> int" where
  "DivideRoundToNearest dividend divisor =
     (let quotient = dividend sdiv divisor; remainder = dividend smod divisor in
      if dividend < 0 then (if - remainder > divisor sdiv 2 then quotient - 1 else quotient)
      else (if remainder > (divisor - 1) sdiv 2 then quotient + 1 else quotient))"

definition FromFraction :: "int \<Rightarrow> int \<Rightarrow> unit_value" where
  "FromFraction denominator v = v * denominator"
definition ToFraction :: "int \<Rightarrow> unit_value \<Rightarrow> int" where
  "ToFraction denominator v = DivideRoundToNearest v denominator"
definition ToFractionOr :: "int \<Rightarrow> int \<Rightarrow> unit_value \<Rightarrow> int" where
  "ToFractionOr denominator fallback v = (if IsFinite v then DivideRoundToNearest v denominator else fallback)"

text \<open>
  Addition and subtraction; the operators of \<open>RelativeUnit\<close> and those between \<open>Timestamp\<close> and
  \<open>TimeDelta\<close> have the same body.
\<close>

definition unit_add :: "unit_value \<Rightarrow> unit_value \<Rightarrow> unit_value" where
  "unit_add a b =
     (if IsPlusInfinity a \<or> IsPlusInfinity b then PlusInfinity
      else if IsMinusInfinity a \<or> IsMinusInfinity b then MinusInfinity
      else a + b)"

definition unit_sub :: "unit_value \<Rightarrow> unit_value \<Rightarrow> unit_value" where
  "unit_sub a b =
     (if IsPlusInfinity a \<or> IsMinusInfinity b then PlusInfinity
      else if IsMinusInfinity a \<or> IsPlusInfinity b then MinusInfinity
      else a - b)"

definition Timestamp_add :: "timestamp \<Rightarrow> time_delta \<Rightarrow> timestamp" where
  "Timestamp_add a delta =
     (if IsPlusInfinity a \<or> IsPlusInfinity delta then PlusInfinity
      else if IsMinusInfinity a \<or> IsMinusInfinity delta then MinusInfinity
      else a + delta)"

definition Timestamp_sub :: "timestamp \<Rightarrow> timestamp \<Rightarrow> time_delta" where
  "Timestamp_sub a other =
     (if IsPlusInfinity a \<or> IsMinusInfinity other then PlusInfinity
      else if IsMinusInfinity a \<or> IsPlusInfinity other then MinusInfinity
      else a - other)"

definition Timestamp_sub_delta :: "timestamp \<Rightarrow> time_delta \<Rightarrow> timestamp" where
  "Timestamp_sub_delta a delta =
     (if IsPlusInfinity a \<or> IsMinusInfinity delta then PlusInfinity
      else if IsMinusInfinity a \<or> IsPlusInfinity delta then MinusInfinity
      else a - delta)"

definition Clamped :: "unit_value \<Rightarrow> unit_value \<Rightarrow> unit_value \<Rightarrow> unit_value" where
  "Clamped v min_value max_value = max min_value (min v max_value)"

definition unit_scale :: "unit_value \<Rightarrow> int \<Rightarrow> unit_value" where
  "unit_scale v scalar = v * scalar"
definition unit_div :: "unit_value \<Rightarrow> int \<Rightarrow> unit_value" where
  "unit_div v scalar = v sdiv scalar"

section \<open>Time, size and rate\<close>

definition Seconds :: "int \<Rightarrow> unit_value" where "Seconds v = FromFraction 1000000 v"
definition Millis :: "int \<Rightarrow> unit_value" where "Millis v = FromFraction 1000 v"
definition ms :: "unit_value \<Rightarrow> int" where "ms v = ToFraction 1000 v"
definition time_seconds :: "unit_value \<Rightarrow> int" where "time_seconds v = ToFraction 1000000 v"

definition Microbits :: "unit_value \<Rightarrow> int" where "Microbits sz = sz * 8000000"
definition size_over_time :: "unit_value \<Rightarrow> time_delta \<Rightarrow> unit_value" where
  "size_over_time sz duration = Microbits sz sdiv duration"
definition size_over_rate :: "unit_value \<Rightarrow> unit_value \<Rightarrow> time_delta" where
  "size_over_rate sz rate = Microbits sz sdiv rate"
definition rate_times_time :: "unit_value \<Rightarrow> time_delta \<Rightarrow> unit_value" where
  "rate_times_time rate duration = (rate * duration + 4000000) sdiv 8000000"

section \<open>Laws\<close>

lemmas infinity_defs = PlusInfinity_def MinusInfinity_def IsPlusInfinity_def IsMinusInfinity_def
  IsInfinite_def IsFinite_def

lemma Timestamp_ops: "Timestamp_add = unit_add" "Timestamp_sub = unit_sub" "Timestamp_sub_delta = unit_sub"
  by (simp_all add: fun_eq_iff unit_add_def unit_sub_def Timestamp_add_def Timestamp_sub_def Timestamp_sub_delta_def)

lemma sub_MinusInfinity [simp]: "unit_sub a MinusInfinity = PlusInfinity"
  by (simp add: unit_sub_def infinity_defs)

lemma PlusInfinity_ge: "int64 v \<Longrightarrow> v \<le> PlusInfinity"
  by (simp add: int64_def PlusInfinity_def)

lemma finite_unit_sub: "IsFinite a \<Longrightarrow> IsFinite b \<Longrightarrow> unit_sub a b = a - b"
  by (simp add: unit_sub_def infinity_defs)

lemma finite_unit_add: "IsFinite a \<Longrightarrow> IsFinite b \<Longrightarrow> unit_add a b = a + b"
  by (simp add: unit_add_def infinity_defs)

lemma sdiv_pos: "0 \<le> a \<Longrightarrow> 0 < b \<Longrightarrow> a sdiv b = a div b" for a b :: int
  by (cases "a = 0") (auto simp: signed_divide_int_def sgn_if)

lemma smod_pos: "0 \<le> a \<Longrightarrow> 0 < b \<Longrightarrow> a smod b = a mod b" for a b :: int
  using minus_sdiv_mult_eq_smod [of a b] sdiv_pos [of a b] by (simp add: minus_div_mult_eq_mod)

lemma sdiv_neg: "a < 0 \<Longrightarrow> 0 < b \<Longrightarrow> a sdiv b = - (- a div b)" for a b :: int
  by (simp add: signed_divide_int_def sgn_if)

lemma smod_neg:
  fixes a b :: int
  assumes "a < 0" and "0 < b"
  shows "a smod b = - (- a mod b)"
proof -
  have "a smod b = a - a sdiv b * b" by (simp add: minus_sdiv_mult_eq_smod)
  also have "\<dots> = - (- a - (- a div b) * b)" using assms by (simp add: sdiv_neg)
  finally show ?thesis by (simp add: minus_div_mult_eq_mod)
qed

text \<open>Rounding stays within half a divisor, on both sides of zero.\<close>

lemma DivideRoundToNearest_bounds:
  assumes "0 < b"
  shows "2 * \<bar>a - b * DivideRoundToNearest a b\<bar> \<le> b"
proof (cases "a < 0")
  case True
  define q r where "q = - a div b" and "r = - a mod b"
  have a: "- a = b * q + r" and r: "0 \<le> r" "r < b" using assms by (simp_all add: q_def r_def)
  have "DivideRoundToNearest a b = (if r > b div 2 then - q - 1 else - q)"
    using True assms by (simp add: DivideRoundToNearest_def Let_def sdiv_neg smod_neg sdiv_pos q_def r_def)
  then show ?thesis using a r by (auto simp: right_diff_distrib)
next
  case False
  define q r where "q = a div b" and "r = a mod b"
  have a: "a = b * q + r" and r: "0 \<le> r" "r < b" using assms by (simp_all add: q_def r_def)
  have "DivideRoundToNearest a b = (if r > (b - 1) div 2 then q + 1 else q)"
    using False assms by (simp add: DivideRoundToNearest_def Let_def sdiv_pos smod_pos q_def r_def)
  then show ?thesis using a r by (auto simp: distrib_left)
qed

lemma DivideRoundToNearest_unique:
  assumes "0 < b" and "2 * \<bar>a - b * k\<bar> < b"
  shows "DivideRoundToNearest a b = k"
proof -
  let ?d = "DivideRoundToNearest a b"
  define x y where "x = b * ?d" and "y = b * k"
  have "2 * \<bar>x - y\<bar> < 2 * b"
    using assms(2) DivideRoundToNearest_bounds [OF assms(1), of a] unfolding x_def [symmetric] y_def [symmetric]
    by (auto simp: abs_if split: if_splits)
  then have "2 * \<bar>b * ?d - b * k\<bar> < 2 * b" by (simp only: x_def y_def)
  then have "b * \<bar>?d - k\<bar> < b * 1" using assms(1) by (simp add: abs_mult flip: right_diff_distrib)
  then have "\<bar>?d - k\<bar> < 1" using assms(1) by (simp only: mult_less_cancel_left_pos)
  then show ?thesis by simp
qed

lemma ms_Millis [simp]: "ms (Millis v) = v"
  unfolding ms_def Millis_def ToFraction_def FromFraction_def by (rule DivideRoundToNearest_unique) simp_all

section \<open>Properties\<close>

text \<open>
  unit conversion. Division rounded to nearest is within half the divisor of the exact quotient
  on both sides of zero and exact on multiples, so milliseconds survive the trip through the
  internal microseconds; a difference with the infinitely old timestamp is above every duration,
  and finite values add and subtract like integers.
\<close>

theorem unit_conversions:
  "(0 < b \<longrightarrow> 2 * \<bar>a - b * DivideRoundToNearest a b\<bar> \<le> b \<and> DivideRoundToNearest (b * k) b = k) \<and>
   ms (Millis v) = v \<and> (int64 d \<longrightarrow> d \<le> Timestamp_sub now MinusInfinity) \<and>
   (IsFinite a \<and> IsFinite b \<longrightarrow> unit_add a b = a + b \<and> unit_sub a b = a - b)"
  using DivideRoundToNearest_bounds [of b a] DivideRoundToNearest_unique [of b "b * k" k] PlusInfinity_ge [of d]
  by (auto simp: Timestamp_ops finite_unit_add finite_unit_sub)

theorem unit_conversions_witness:
  "2 * \<bar>(7 :: int) - 3 * DivideRoundToNearest 7 3\<bar> \<le> 3 \<and> DivideRoundToNearest (3 * 5) 3 = 5 \<and>
    10 \<le> Timestamp_sub 0 MinusInfinity \<and> unit_add 4 6 = 10"
  using unit_conversions [of 3 7 5 0 10 0] unit_conversions [of 6 4 0 0 10 0]
  by (simp add: int64_def infinity_defs)

end
