(* ===== verification/SeqNum.thy ===== *)
theory SeqNum
  imports Prelude
begin

text \<open>
  Sequence numbers that wrap: \<open>src/common/rtc_base/numerics/mod_ops.h\<close>,
  \<open>sequence_number_util.h\<close> and \<open>sequence_number_unwrapper.h\<close>, and the older comparison in
  \<open>src/common/module_common_types_public.h\<close>.

  The templates are instantiated at unsigned types; here a type \<open>T\<close> of \<open>n\<close> bits is
  \<open>'a word\<close> with \<open>LENGTH('a) = n\<close>, and the template argument \<open>M\<close> is a word of that type,
  \<open>0\<close> for wrapping at the end of the type. The two \<open>enable_if\<close> overloads for \<open>M > 0\<close> and
  \<open>M == 0\<close> are the two branches of one definition.
\<close>

section \<open>Modular operations\<close>

definition Add :: "'a::len word \<Rightarrow> 'a word \<Rightarrow> 'a word \<Rightarrow> 'a word" where
  "Add M a b =
     (let t = M - b mod M; res = a - t in
      if t > a then res + M else res)"

definition Subtract :: "'a::len word \<Rightarrow> 'a word \<Rightarrow> 'a word \<Rightarrow> 'a word" where
  "Subtract M a b =
     (let sub = b mod M in
      if a < sub then M - (sub - a) else a - sub)"

definition ForwardDiff :: "'a::len word \<Rightarrow> 'a word \<Rightarrow> 'a word \<Rightarrow> 'a word" where
  "ForwardDiff M a b =
     (if M > 0 then (if a \<le> b then b - a else M - (a - b)) else b - a)"

definition ReverseDiff :: "'a::len word \<Rightarrow> 'a word \<Rightarrow> 'a word \<Rightarrow> 'a word" where
  "ReverseDiff M a b =
     (if M > 0 then (if b \<le> a then a - b else M - (b - a)) else a - b)"

definition MinDiff :: "'a::len word \<Rightarrow> 'a word \<Rightarrow> 'a word \<Rightarrow> 'a word" where
  "MinDiff M a b = min (ForwardDiff M a b) (ReverseDiff M a b)"

section \<open>Comparison\<close>

text \<open>\<open>std::numeric_limits<T>::max() / 2 + T(1)\<close>, half the sequence number space.\<close>

definition max_dist :: "'a::len word" where
  "max_dist = (- 1) div 2 + 1"

definition AheadOrAt :: "'a::len word \<Rightarrow> 'a word \<Rightarrow> 'a word \<Rightarrow> bool" where
  "AheadOrAt M a b =
     (if M > 0 then
        (let maxDist = M div 2 in
         if M AND 1 = 0 \<and> MinDiff M a b = maxDist then b < a
         else ForwardDiff M b a \<le> maxDist)
      else if a - b = max_dist then b < a
      else ForwardDiff 0 b a < max_dist)"

text \<open>
  For a type narrower than \<open>int\<close> the difference \<open>a - b\<close> is an \<open>int\<close>, not reduced modulo
  the type. This is the \<open>M == 0\<close> overload as the compiler reads it at \<open>uint8_t\<close> and
  \<open>uint16_t\<close>.
\<close>

definition AheadOrAt_promoted :: "'a::len word \<Rightarrow> 'a word \<Rightarrow> bool" where
  "AheadOrAt_promoted a b =
     (if uint a - uint b = uint (max_dist :: 'a word) then b < a
      else ForwardDiff 0 b a < max_dist)"

definition AheadOf :: "'a::len word \<Rightarrow> 'a word \<Rightarrow> 'a word \<Rightarrow> bool" where
  "AheadOf M a b \<longleftrightarrow> a \<noteq> b \<and> AheadOrAt M a b"

definition AscendingSeqNumComp :: "'a::len word \<Rightarrow> 'a word \<Rightarrow> 'a word \<Rightarrow> bool" where
  "AscendingSeqNumComp M a b = AheadOf M a b"

definition DescendingSeqNumComp :: "'a::len word \<Rightarrow> 'a word \<Rightarrow> 'a word \<Rightarrow> bool" where
  "DescendingSeqNumComp M a b = AheadOf M b a"

text \<open>The comparison of \<open>module_common_types_public.h\<close>, with \<open>(max >> 1) + 1\<close> as breakpoint.\<close>

definition IsNewer :: "'a::len word \<Rightarrow> 'a word \<Rightarrow> bool" where
  "IsNewer value prev_value =
     (let kBreakpoint = drop_bit 1 (- 1) + 1 in
      if value - prev_value = kBreakpoint then value > prev_value
      else value \<noteq> prev_value \<and> value - prev_value < kBreakpoint)"

text \<open>The instance at a type narrower than \<open>int\<close>, with the promoted difference.\<close>

definition IsNewer_promoted :: "'a::len word \<Rightarrow> 'a word \<Rightarrow> bool" where
  "IsNewer_promoted value prev_value =
     (let kBreakpoint = drop_bit 1 (- 1) + 1 in
      if uint value - uint prev_value = uint kBreakpoint then value > prev_value
      else value \<noteq> prev_value \<and> value - prev_value < kBreakpoint)"

definition IsNewerSequenceNumber :: "u16 \<Rightarrow> u16 \<Rightarrow> bool" where
  "IsNewerSequenceNumber sequence_number prev_sequence_number =
     IsNewer_promoted sequence_number prev_sequence_number"

definition IsNewerTimestamp :: "u32 \<Rightarrow> u32 \<Rightarrow> bool" where
  "IsNewerTimestamp timestamp prev_timestamp = IsNewer timestamp prev_timestamp"

definition LatestSequenceNumber :: "u16 \<Rightarrow> u16 \<Rightarrow> u16" where
  "LatestSequenceNumber sequence_number1 sequence_number2 =
     (if IsNewerSequenceNumber sequence_number1 sequence_number2
      then sequence_number1 else sequence_number2)"

definition LatestTimestamp :: "u32 \<Rightarrow> u32 \<Rightarrow> u32" where
  "LatestTimestamp timestamp1 timestamp2 =
     (if IsNewerTimestamp timestamp1 timestamp2 then timestamp1 else timestamp2)"

section \<open>The unwrapper\<close>

text \<open>
  \<open>class SeqNumUnwrapper<T, M>\<close>. \<open>last_unwrapped_\<close> is an \<open>int64_t\<close>, modelled as an
  unbounded integer: \<open>unwrap_all_bound\<close> below bounds it by the number of calls, so that for
  16-bit sequence numbers \<open>2^46\<close> packets cannot overflow it.
\<close>

record 'v unwrapper =
  last_unwrapped :: int
  last_value :: "'v option"

definition new_unwrapper :: "'a::len word unwrapper" where
  "new_unwrapper = \<lparr>last_unwrapped = 0, last_value = None\<rparr>"

definition Delta :: "'a::len word \<Rightarrow> 'a word \<Rightarrow> 'a word \<Rightarrow> int" where
  "Delta M last_val new_value =
     (let kBackwardAdjustment = (if M = 0 then 2 ^ LENGTH('a) else uint M);
          result = uint (ForwardDiff M last_val new_value) in
      if \<not> AheadOrAt M new_value last_val then result - kBackwardAdjustment else result)"

definition Unwrap :: "'a::len word \<Rightarrow> 'a word unwrapper \<Rightarrow> 'a word \<Rightarrow> int \<times> 'a word unwrapper" where
  "Unwrap M s value =
     (let u = (case last_value s of None \<Rightarrow> uint value
               | Some l \<Rightarrow> last_unwrapped s + Delta M l value) in
      (u, s\<lparr>last_unwrapped := u, last_value := Some value\<rparr>))"

definition PeekUnwrap :: "'a::len word \<Rightarrow> 'a word unwrapper \<Rightarrow> 'a word \<Rightarrow> int" where
  "PeekUnwrap M s value =
     (case last_value s of None \<Rightarrow> uint value
      | Some l \<Rightarrow> last_unwrapped s + Delta M l value)"

definition Reset :: "'a::len word unwrapper \<Rightarrow> 'a word unwrapper" where
  "Reset s = s\<lparr>last_unwrapped := 0, last_value := None\<rparr>"

section \<open>Arithmetic of the sequence number circle\<close>

lemma max_dist_drop_bit: "max_dist = drop_bit 1 (- 1 :: 'a::len word) + 1"
  by (simp add: max_dist_def drop_bit_eq_div)

lemma max_dist_exp: "(max_dist :: 'a::len word) = 2 ^ (LENGTH('a) - 1)"
proof -
  have "drop_bit 1 (- 1 :: 'a word) = mask (LENGTH('a) - 1)"
    by (rule bit_word_eqI) (auto simp: bit_simps)
  then show ?thesis
    by (simp add: max_dist_drop_bit mask_eq_exp_minus_1)
qed

lemma uint_max_dist: "uint (max_dist :: 'a::len word) = 2 ^ (LENGTH('a) - 1)"
proof -
  have "uint (2 ^ (LENGTH('a) - 1) :: 'a word) = take_bit LENGTH('a) (2 ^ (LENGTH('a) - 1))"
    using uint_word_of_int_eq [of "2 ^ (LENGTH('a) - 1)", where 'a = 'a] by simp
  also have "\<dots> = 2 ^ (LENGTH('a) - 1)"
    by (rule take_bit_int_eq_self) simp_all
  finally show ?thesis by (simp add: max_dist_exp)
qed

text \<open>The signed distance from \<open>b\<close> to \<open>a\<close> on the circle decides the comparison.\<close>

abbreviation half :: "'a::len itself \<Rightarrow> int" where
  "half _ \<equiv> 2 ^ (LENGTH('a) - 1)"

lemma two_half: "2 * half TYPE('a::len) = 2 ^ LENGTH('a)"
  by (simp flip: power_Suc)

lemma uint_diff: "uint (a - b) = (if uint b \<le> uint a then uint a - uint b
    else uint a - uint b + 2 ^ LENGTH('a))" for a b :: "'a::len word"
  using uint_sub_ge [of b a] uint_sub_if' [of a b] by (auto simp: word_le_def)

lemma AheadOrAt0_iff:
  "AheadOrAt 0 a b \<longleftrightarrow> uint (a - b) < half TYPE('a) \<or> uint (a - b) = half TYPE('a) \<and> b < a"
  for a b :: "'a::len word"
proof -
  have "a - b = max_dist \<longleftrightarrow> uint (a - b) = half TYPE('a)"
    using uint_max_dist [where 'a = 'a] by (metis word_uint_eqI)
  then show ?thesis
    by (auto simp: AheadOrAt_def ForwardDiff_def word_less_def uint_max_dist)
qed


lemma AheadOrAt_promoted_eq: "AheadOrAt_promoted a b = AheadOrAt 0 a b"
  for a b :: "'a::len word"
  by (auto simp: AheadOrAt_promoted_def AheadOrAt0_iff ForwardDiff_def word_less_def uint_max_dist
      uint_diff two_half [where 'a = 'a, symmetric])

lemma IsNewer_eq_AheadOf: "IsNewer a b = AheadOf 0 a b"
  for a b :: "'a::len word"
  unfolding IsNewer_def max_dist_drop_bit [symmetric]
  by (auto simp: AheadOf_def AheadOrAt_def ForwardDiff_def Let_def)

lemma IsNewer_promoted_eq: "IsNewer_promoted a b = (a \<noteq> b \<and> AheadOrAt_promoted a b)"
  for a b :: "'a::len word"
  unfolding IsNewer_promoted_def max_dist_drop_bit [symmetric]
  by (auto simp: AheadOrAt_promoted_def ForwardDiff_def Let_def)

text \<open>
  the sequence number comparisons of the code base are one relation. \<open>IsNewer\<close> and
  \<open>AheadOf\<close> agree on every width, and on the 8- and 16-bit types, where the integral
  promotions make \<open>a - b\<close> an \<open>int\<close> that can be negative, both give the same answer as with
  modular subtraction.
\<close>

theorem IsNewer_AheadOf:
  "IsNewer a b = AheadOf 0 a b \<and> IsNewer_promoted a b = AheadOf 0 a b \<and>
    AheadOrAt_promoted a b = AheadOrAt 0 a b"
  for a b :: "'a::len word"
  by (simp add: IsNewer_eq_AheadOf IsNewer_promoted_eq AheadOrAt_promoted_eq AheadOf_def)

lemma AheadOf0_antisym: "a \<noteq> b \<Longrightarrow> AheadOf 0 a b \<longleftrightarrow> \<not> AheadOf 0 b a"
  for a b :: "'a::len word"
  using uint_lt2p [of a] uint_lt2p [of b] word_uint_eqI [of a b]
  by (auto simp: AheadOf_def AheadOrAt0_iff word_less_def uint_diff
      two_half [where 'a = 'a, symmetric])

lemma and_1_even: "M AND 1 = 0 \<longleftrightarrow> even (unat M)" for M :: "'a::len word"
proof -
  have "odd (unat M) = odd M"
    using bit_unsigned_iff [of M 0, where 'a = nat] by (simp add: bit_0)
  then show ?thesis
    by (simp add: and_one_eq flip: even_iff_mod_2_eq_zero)
qed

lemma unat_ForwardDiff_M:
  assumes "a < M" and "b < M"
  shows "unat (ForwardDiff M a b) =
    (if unat a \<le> unat b then unat b - unat a else unat M - (unat a - unat b))"
proof -
  have "0 < M" using assms(1) by (metis le_less_trans word_zero_le)
  moreover have "a - b \<le> M" if "b \<le> a"
    using that assms by (simp add: word_le_nat_alt unat_sub word_less_nat_alt)
  ultimately show ?thesis
    using assms by (auto simp: ForwardDiff_def unat_sub word_le_nat_alt)
qed

lemma unat_ReverseDiff_M:
  assumes "a < M" and "b < M"
  shows "unat (ReverseDiff M a b) =
    (if unat b \<le> unat a then unat a - unat b else unat M - (unat b - unat a))"
  using unat_ForwardDiff_M [OF assms(2,1)] by (simp add: ReverseDiff_def ForwardDiff_def)

text \<open>The arithmetic of the \<open>M > 0\<close> branch, on the values of the words.\<close>

lemma unat_div_2: "unat (M div 2) = unat M div 2" for M :: "'a::len word"
proof (cases "LENGTH('a) = 1")
  case True
  have "unat M < 2 ^ LENGTH('a)" by simp
  with True show ?thesis by (simp add: unat_div)
next
  case False
  then show ?thesis by (simp add: unat_div)
qed

lemma half_distance_cases:
  fixes a M b :: nat
  assumes "a < M" and "b < M" and "a \<noteq> b"
  defines "d \<equiv> (if b \<le> a then a - b else M - (b - a))"
  shows "(if even M \<and> min (M - d) d = M div 2 then b < a else d \<le> M div 2) \<longleftrightarrow>
    2 * d < M \<or> 2 * d = M \<and> b < a"
proof -
  have d: "0 < d" "d < M" using assms by (auto simp: d_def)
  show ?thesis
  proof (cases "even M")
    case True
    then obtain k where k: "M = 2 * k" by blast
    then have "min (M - d) d = k \<longleftrightarrow> d = k" using d by (auto simp: min_def)
    with k show ?thesis by auto
  next
    case False
    then obtain k where "M = 2 * k + 1" using oddE by blast
    then show ?thesis by auto
  qed
qed

lemma half_distance_total:
  fixes a M b :: nat
  assumes "a < M" and "b < M" and "a \<noteq> b"
  shows "(2 * (if b \<le> a then a - b else M - (b - a)) < M \<or>
      2 * (if b \<le> a then a - b else M - (b - a)) = M \<and> b < a) \<longleftrightarrow>
    \<not> (2 * (if a \<le> b then b - a else M - (a - b)) < M \<or>
      2 * (if a \<le> b then b - a else M - (a - b)) = M \<and> a < b)"
  using assms by (cases "a \<le> b") auto

lemma AheadOrAt_M_iff:
  assumes "a < M" and "b < M" and "a \<noteq> b"
  defines "d \<equiv> (if unat b \<le> unat a then unat a - unat b else unat M - (unat b - unat a))"
  shows "AheadOrAt M a b \<longleftrightarrow> 2 * d < unat M \<or> 2 * d = unat M \<and> b < a"
proof -
  have M: "0 < M" using assms(1) by (metis le_less_trans word_zero_le)
  have l: "unat a < unat M" "unat b < unat M" "unat a \<noteq> unat b"
    using assms by (auto simp: word_less_nat_alt word_unat_eq_iff)
  have F: "unat (ForwardDiff M b a) = d"
    using assms by (simp add: unat_ForwardDiff_M)
  have m: "unat (MinDiff M a b) = min (unat M - d) d"
    using assms l by (auto simp: MinDiff_def min_def word_le_nat_alt unat_ForwardDiff_M
        unat_ReverseDiff_M)
  have h: "unat (M div 2) = unat M div 2"
    by (rule unat_div_2)
  have eq: "MinDiff M a b = M div 2 \<longleftrightarrow> min (unat M - d) d = unat M div 2"
    by (simp add: word_unat_eq_iff m h)
  show ?thesis
    using M l half_distance_cases [of "unat a" "unat M" "unat b"]
    unfolding AheadOrAt_def Let_def and_1_even eq word_le_nat_alt F h d_def word_less_nat_alt
    by simp
qed

text \<open>
  of two different sequence numbers exactly one is ahead of the other, for every width
  and every modulus the numbers are below. This is the tie-breaking rule at maximal distance.
\<close>

theorem AheadOf_total:
  assumes "a \<noteq> b" and "M = 0 \<or> a < M \<and> b < M"
  shows "AheadOf M a b \<longleftrightarrow> \<not> AheadOf M b a"
proof (cases "M = 0")
  case True
  then show ?thesis using AheadOf0_antisym [OF assms(1)] by blast
next
  case False
  with assms have l: "a < M" "b < M" "unat a \<noteq> unat b" by (auto simp: word_unat_eq_iff)
  then have "unat a < unat M" "unat b < unat M" by (simp_all add: word_less_nat_alt)
  then show ?thesis
    using assms(1) l(3) half_distance_total [of "unat a" "unat M" "unat b"]
    unfolding AheadOf_def AheadOrAt_M_iff [OF l(1,2) assms(1)]
      AheadOrAt_M_iff [OF l(2,1) assms(1) [symmetric]] word_less_nat_alt
    by blast
qed

theorem AheadOf_total_witness:
  "AheadOf 0 (0x8000 :: u16) 0 \<and> \<not> AheadOf 0 (0 :: u16) 0x8000"
proof -
  have "AheadOf 0 (0x8000 :: u16) 0"
    by (simp add: AheadOf_def AheadOrAt_def ForwardDiff_def max_dist_def)
  then show ?thesis
    using AheadOf_total [of "0x8000 :: u16" 0 0] by simp
qed

section \<open>Sequence numbers as residues of an unbounded counter\<close>

lemma uint_of_int_diff: "uint (word_of_int x - word_of_int y :: 'a::len word) = (x - y) mod 2 ^ LENGTH('a)"
  by (simp add: uint_word_of_int flip: of_int_diff)

lemma uint_of_int_diff_near:
  assumes "\<bar>x - y\<bar> < 2 ^ (LENGTH('a) - 1)"
  shows "uint (word_of_int x - word_of_int y :: 'a::len word) =
    (if y \<le> x then x - y else x - y + 2 ^ LENGTH('a))"
proof (cases "y \<le> x")
  case True
  with assms show ?thesis
    using two_half [where 'a = 'a] by (simp add: uint_of_int_diff)
next
  case False
  with assms have "(x - y + 2 ^ LENGTH('a)) mod 2 ^ LENGTH('a) = x - y + 2 ^ LENGTH('a)"
    using two_half [where 'a = 'a] by (intro mod_pos_pos_trivial) auto
  with False show ?thesis by (simp add: uint_of_int_diff)
qed

lemma word_of_int_near_eq_iff:
  assumes "\<bar>x - y\<bar> < 2 ^ (LENGTH('a) - 1)"
  shows "word_of_int x = (word_of_int y :: 'a::len word) \<longleftrightarrow> x = y"
  using uint_of_int_diff_near [OF assms] assms two_half [where 'a = 'a]
  by (auto split: if_splits)

lemma AheadOrAt_near:
  assumes "\<bar>x - y\<bar> < 2 ^ (LENGTH('a) - 1)"
  shows "AheadOrAt 0 (word_of_int x) (word_of_int y :: 'a::len word) \<longleftrightarrow> y \<le> x"
  unfolding AheadOrAt0_iff uint_of_int_diff_near [OF assms]
  using assms two_half [where 'a = 'a] by auto

text \<open>
  if two packet counters are less than half the sequence number space apart, comparing
  their wrapped sequence numbers with \<open>AheadOf\<close> compares the counters.
\<close>

theorem AheadOf_counter:
  assumes "\<bar>x - y\<bar> < 2 ^ (LENGTH('a) - 1)"
  shows "AheadOf 0 (word_of_int x) (word_of_int y :: 'a::len word) \<longleftrightarrow> y < x"
  using AheadOrAt_near [OF assms] word_of_int_near_eq_iff [OF assms] by (auto simp: AheadOf_def)

theorem AheadOf_counter_witness:
  "AheadOf 0 (word_of_int 65537 :: u16) (word_of_int 65535) \<longleftrightarrow> 65535 < (65537 :: int)"
  by (rule AheadOf_counter) simp

lemma Delta_near:
  assumes "\<bar>x - y\<bar> < 2 ^ (LENGTH('a) - 1)"
  shows "Delta 0 (word_of_int y) (word_of_int x :: 'a::len word) = x - y"
  using uint_of_int_diff_near [OF assms]
  by (simp add: Delta_def ForwardDiff_def AheadOrAt_near [OF assms])

section \<open>Runs of the unwrapper\<close>

fun unwrap_all :: "'a::len word \<Rightarrow> 'a word unwrapper \<Rightarrow> 'a word list \<Rightarrow> int list" where
  "unwrap_all M s [] = []"
| "unwrap_all M s (v # vs) = (let (u, s') = Unwrap M s v in u # unwrap_all M s' vs)"

text \<open>Consecutive counters less than half the sequence number space apart.\<close>

fun near_run :: "int \<Rightarrow> int \<Rightarrow> int list \<Rightarrow> bool" where
  "near_run h x [] = True"
| "near_run h x (y # ys) = (\<bar>y - x\<bar> < h \<and> near_run h y ys)"

lemma unwrap_all_near:
  assumes "near_run (2 ^ (LENGTH('a) - 1)) (last_unwrapped s) xs"
    and "last_value s = Some (word_of_int (last_unwrapped s) :: 'a::len word)"
  shows "unwrap_all 0 s (map word_of_int xs) = xs"
  using assms
proof (induction xs arbitrary: s)
  case (Cons x xs)
  then have "Delta 0 (word_of_int (last_unwrapped s)) (word_of_int x :: 'a word) =
      x - last_unwrapped s"
    by (intro Delta_near) simp
  with Cons show ?case by (simp add: Unwrap_def)
qed simp

text \<open>
  C36: the unwrapper recovers a packet counter from its wrapped sequence numbers: fed the
  residues of a run of counters in which consecutive ones are less than half the space apart
  (late and reordered packets included), it returns the counters themselves, over any number
  of wraps. The first counter is the one the stream starts with, below the wrap point.
\<close>

theorem unwrap_all_counter:
  assumes "0 \<le> x" and "x < 2 ^ LENGTH('a::len)" and "near_run (2 ^ (LENGTH('a) - 1)) x xs"
  shows "unwrap_all 0 (new_unwrapper :: 'a word unwrapper) (map word_of_int (x # xs)) = x # xs"
proof -
  have "uint (word_of_int x :: 'a word) = x"
    using assms by (simp add: uint_word_of_int)
  then show ?thesis
    using unwrap_all_near [of "\<lparr>last_unwrapped = x, last_value = Some (word_of_int x :: 'a word)\<rparr>" xs] assms
    by (simp add: Unwrap_def new_unwrapper_def)
qed

theorem unwrap_all_counter_witness:
  "unwrap_all 0 (new_unwrapper :: u16 unwrapper) (map word_of_int [65535, 65537, 65536, 90000]) =
    [65535, 65537, 65536, 90000]"
  by (rule unwrap_all_counter) simp_all

lemma Delta_bound:
  fixes l v :: "'a::len word"
  assumes "M = 0 \<or> v < M \<and> l < M"
  shows "\<bar>Delta M l v\<bar> \<le> 2 ^ LENGTH('a)"
proof -
  define m f where "m = uint M" and "f = uint (ForwardDiff M l v)"
  have "0 \<le> m" "m < 2 ^ LENGTH('a)" "0 \<le> f" "f < 2 ^ LENGTH('a)"
    by (simp_all add: m_def f_def)
  then show ?thesis
    unfolding Delta_def Let_def m_def [symmetric] f_def [symmetric] by auto
qed

lemma unwrap_all_bound:
  fixes s :: "'a::len word unwrapper"
  assumes "M = 0 \<or> (\<forall>v \<in> set vs. v < M) \<and> (\<forall>l. last_value s = Some l \<longrightarrow> l < M)"
    and "u \<in> set (unwrap_all M s vs)"
  shows "\<bar>u\<bar> \<le> \<bar>last_unwrapped s\<bar> + int (length vs) * 2 ^ LENGTH('a)"
  using assms
proof (induction vs arbitrary: s)
  case (Cons v vs)
  define w where "w = fst (Unwrap M s v)"
  let ?s = "s\<lparr>last_unwrapped := w, last_value := Some v\<rparr>"
  have un: "Unwrap M s v = (w, ?s)"
    by (simp add: w_def Unwrap_def Let_def)
  have w: "\<bar>w\<bar> \<le> \<bar>last_unwrapped s\<bar> + 2 ^ LENGTH('a)"
  proof (cases "last_value s")
    case None
    then have "w = uint v" by (simp add: w_def Unwrap_def Let_def)
    then have "0 \<le> w" "w < 2 ^ LENGTH('a)" by simp_all
    then show ?thesis by linarith
  next
    case (Some l)
    then have "\<bar>Delta M l v\<bar> \<le> 2 ^ LENGTH('a)"
      using Cons.prems by (intro Delta_bound) auto
    with Some show ?thesis by (simp add: w_def Unwrap_def Let_def)
  qed
  show ?case
  proof (cases "u = w")
    case True
    moreover have "0 \<le> int (length vs) * 2 ^ LENGTH('a)" by simp
    ultimately have "\<bar>u\<bar> \<le> \<bar>last_unwrapped s\<bar> + 2 ^ LENGTH('a) + int (length vs) * 2 ^ LENGTH('a)"
      using w by linarith
    then show ?thesis by (simp add: algebra_simps)
  next
    case False
    with Cons.prems(2) have "u \<in> set (unwrap_all M ?s vs)" by (simp add: un)
    then have "\<bar>u\<bar> \<le> \<bar>last_unwrapped ?s\<bar> + int (length vs) * 2 ^ LENGTH('a)"
      using Cons.prems(1) by (intro Cons.IH) auto
    with w show ?thesis by (simp add: algebra_simps)
  qed
qed simp

section \<open>Modular addition and subtraction\<close>

lemma unat_Add:
  assumes "a < M"
  shows "unat (Add M a b) = (unat a + unat b) mod unat M"
proof -
  define r where "r = unat b mod unat M"
  have l: "unat a < unat M" using assms by (simp add: word_less_nat_alt)
  then have r: "r < unat M" by (simp add: r_def)
  have bm: "unat (b mod M) = r" by (simp add: r_def unat_mod)
  then have t: "unat (M - b mod M) = unat M - r"
    using r by (simp add: unat_sub word_le_nat_alt)
  have "(unat a + unat b) mod unat M = (unat a + r) mod unat M"
    by (simp add: r_def mod_add_right_eq)
  also have "\<dots> = (if unat a + r < unat M then unat a + r else unat a + r - unat M)"
    using l r by (auto simp: mod_if)
  finally have m: "(unat a + unat b) mod unat M =
      (if unat a + r < unat M then unat a + r else unat a + r - unat M)" .
  show ?thesis
  proof (cases "a < M - b mod M")
    case True
    then have lt: "unat a + r < unat M" using t by (simp add: word_less_nat_alt)
    have "Add M a b = a + b mod M" using True by (simp add: Add_def Let_def)
    moreover have "unat (a + b mod M) = unat a + r"
      using lt bm less_trans [OF lt unsigned_less [of M]] by (metis unat_add_lem)
    ultimately show ?thesis using m lt by simp
  next
    case False
    then have ge: "unat M \<le> unat a + r" using t by (simp add: word_less_nat_alt)
    have "unat (a - (M - b mod M)) = unat a - (unat M - r)"
      using False t by (simp add: unat_sub word_le_nat_alt not_less)
    with m ge r False show ?thesis by (simp add: Add_def Let_def)
  qed
qed

lemma unat_Subtract:
  assumes "a < M"
  shows "unat (Subtract M a b) = (unat a + (unat M - unat b mod unat M)) mod unat M"
proof -
  define r where "r = unat b mod unat M"
  have l: "unat a < unat M" using assms by (simp add: word_less_nat_alt)
  then have r: "r < unat M" by (simp add: r_def)
  have bm: "unat (b mod M) = r" by (simp add: r_def unat_mod)
  show ?thesis
  proof (cases "a < b mod M")
    case True
    then have lt: "unat a < r" using bm by (simp add: word_less_nat_alt)
    then have "unat (b mod M - a) = r - unat a"
      using True bm by (simp add: unat_sub less_imp_le)
    then have "unat (M - (b mod M - a)) = unat M - (r - unat a)"
      using r by (simp add: unat_sub word_le_nat_alt)
    with True lt r show ?thesis by (simp add: Subtract_def Let_def r_def [symmetric])
  next
    case False
    then have ge: "r \<le> unat a" using bm by (simp add: word_less_nat_alt)
    then have "unat (a - b mod M) = unat a - r"
      using bm by (simp add: unat_sub word_le_nat_alt)
    moreover have "(unat a + (unat M - r)) mod unat M = unat a - r"
      using ge l r by (simp add: mod_if)
    ultimately show ?thesis using False by (simp add: Subtract_def Let_def r_def [symmetric])
  qed
qed

text \<open>
  \<open>Add<M>\<close> and \<open>Subtract<M>\<close> compute modulo \<open>M\<close> and undo each other for every operand
  \<open>b\<close> of the type, although no intermediate value of theirs is wider than the type.
\<close>

theorem Add_Subtract_modular:
  assumes "a < M"
  shows "unat (Add M a b) = (unat a + unat b) mod unat M \<and>
    Subtract M (Add M a b) b = a \<and> Add M (Subtract M a b) b = a"
proof -
  have l: "unat a < unat M" using assms by (simp add: word_less_nat_alt)
  have A: "Add M a b < M" and S: "Subtract M a b < M"
    using l by (simp_all add: word_less_nat_alt unat_Add [OF assms] unat_Subtract [OF assms])
  let ?r = "unat b mod unat M"
  have r: "?r < unat M" using l by simp
  have "unat (Subtract M (Add M a b) b) =
      ((unat a + ?r) mod unat M + (unat M - ?r)) mod unat M"
    by (simp add: unat_Subtract [OF A] unat_Add [OF assms] mod_add_right_eq)
  also have "\<dots> = (unat a + ?r + (unat M - ?r)) mod unat M"
    by (rule mod_add_left_eq)
  also have "unat a + ?r + (unat M - ?r) = unat a + unat M"
    using r by simp
  finally have 1: "Subtract M (Add M a b) b = a"
    using l by (simp add: word_unat_eq_iff)
  have "unat (Add M (Subtract M a b) b) =
      ((unat a + (unat M - ?r)) mod unat M + ?r) mod unat M"
    by (simp add: unat_Add [OF S] unat_Subtract [OF assms] mod_add_right_eq)
  also have "\<dots> = (unat a + (unat M - ?r) + ?r) mod unat M"
    by (rule mod_add_left_eq)
  also have "unat a + (unat M - ?r) + ?r = unat a + unat M"
    using r by simp
  finally have 2: "Add M (Subtract M a b) b = a"
    using l by (simp add: word_unat_eq_iff)
  from 1 2 show ?thesis by (simp add: unat_Add [OF assms])
qed

theorem Add_Subtract_modular_witness:
  "unat (Add 200 (150 :: byte) 230) = (150 + 230) mod 200 \<and>
    Subtract 200 (Add 200 (150 :: byte) 230) 230 = 150 \<and> Add 200 (Subtract 200 (150 :: byte) 230) 230 = 150"
  using Add_Subtract_modular [of "150 :: byte" 200 230] by simp

end
