(* ===== verification/PacketHistory.thy ===== *)
theory PacketHistory
  imports Rtx Units SeqNum
begin

text \<open>
  The history of sent packets that answers NACKs, \<open>src/rtp/rtp_packet/rtp_packet_history.{h,cpp}\<close>.

  The deque is a list of slots, one per sequence number from the oldest stored packet on; a slot
  may be empty. Reading through an empty slot's pointer, or outside the deque, is the value \<open>None\<close>
  of the model, so that every theorem with a \<open>Some\<close> also says that this does not happen. The
  clock is an argument, in microseconds.
\<close>

section \<open>State\<close>

definition kMaxCapacity :: nat where "kMaxCapacity = 10001"
definition kMinPacketDuration :: time_delta where "kMinPacketDuration = Seconds 1"
definition kMinPacketDurationRtt :: int where "kMinPacketDurationRtt = 3"
definition kPacketCullingDelayFactor :: int where "kPacketCullingDelayFactor = 3"

record StoredPacket =
  sp_packet :: "RtpPacketToSend option"
  sp_pending_transmission :: bool
  sp_send_time :: timestamp
  sp_times_retransmitted :: nat

definition empty_slot :: StoredPacket where
  "empty_slot = \<lparr>sp_packet = None, sp_pending_transmission = False, sp_send_time = 0, sp_times_retransmitted = 0\<rparr>"

definition new_StoredPacket :: "RtpPacketToSend \<Rightarrow> timestamp \<Rightarrow> StoredPacket" where
  "new_StoredPacket packet send_time =
     \<lparr>sp_packet = Some packet, sp_pending_transmission = False, sp_send_time = send_time, sp_times_retransmitted = 0\<rparr>"

record PacketHistory =
  ph_history :: "StoredPacket list"
  ph_rtt :: time_delta
  ph_number_to_store :: nat

definition new_PacketHistory :: PacketHistory where
  "new_PacketHistory = \<lparr>ph_history = [], ph_rtt = Millis 100, ph_number_to_store = kMaxCapacity\<rparr>"

definition seq_of :: "RtpPacketToSend \<Rightarrow> u16" where
  "seq_of t = rp_sequence_number (ts_packet t)"

section \<open>Operations\<close>

definition GetPacketIndex :: "StoredPacket list \<Rightarrow> u16 \<Rightarrow> int option" where
  "GetPacketIndex hist sequence_number =
     (case hist of [] \<Rightarrow> Some 0
      | front # _ \<Rightarrow>
        (case sp_packet front of None \<Rightarrow> None
         | Some p \<Rightarrow>
           let first_seq = seq_of p;
               packet_index = uint sequence_number - uint first_seq;
               kSeqNumSpan = 2 ^ 16 in
           Some (if first_seq = sequence_number then 0
             else if IsNewerSequenceNumber sequence_number first_seq then
               (if sequence_number < first_seq then packet_index + kSeqNumSpan else packet_index)
             else if sequence_number > first_seq then packet_index - kSeqNumSpan
             else packet_index)))"

text \<open>\<open>GetStoredPacket\<close>: the index of the slot instead of a pointer to it.\<close>

definition GetStoredPacket :: "StoredPacket list \<Rightarrow> u16 \<Rightarrow> nat option option" where
  "GetStoredPacket hist sequence_number = do {
     i \<leftarrow> GetPacketIndex hist sequence_number;
     if i < 0 \<or> nat i \<ge> length hist then Some None
     else Some (if sp_packet (hist ! nat i) = None then None else Some (nat i)) }"

definition RemovePacket :: "StoredPacket list \<Rightarrow> nat \<Rightarrow> StoredPacket list" where
  "RemovePacket hist packet_index =
     (let hist = hist[packet_index := (hist ! packet_index)\<lparr>sp_packet := None\<rparr>] in
      if packet_index = 0 then dropWhile (\<lambda>s. sp_packet s = None) hist else hist)"

lemma RemovePacket_0: "RemovePacket (s # hist) 0 = dropWhile (\<lambda>s. sp_packet s = None) hist"
  by (simp add: RemovePacket_def)

definition packet_duration :: "time_delta \<Rightarrow> time_delta" where
  "packet_duration rtt = (if IsFinite rtt then max (unit_scale rtt kMinPacketDurationRtt) kMinPacketDuration
     else kMinPacketDuration)"

text \<open>The loop of \<open>RemoveDeadPackets\<close>.\<close>

function remove_dead :: "timestamp \<Rightarrow> time_delta \<Rightarrow> nat \<Rightarrow> StoredPacket list \<Rightarrow> StoredPacket list" where
  "remove_dead now duration number_to_store [] = []"
| "remove_dead now duration number_to_store (s # hist) =
     (if length (s # hist) > kMaxCapacity
      then remove_dead now duration number_to_store (RemovePacket (s # hist) 0)
      else if sp_pending_transmission s then s # hist
      else if Timestamp_add (sp_send_time s) duration > now then s # hist
      else if length (s # hist) \<ge> number_to_store \<or>
              Timestamp_add (sp_send_time s) (unit_scale duration kPacketCullingDelayFactor) \<le> now
      then remove_dead now duration number_to_store (RemovePacket (s # hist) 0)
      else s # hist)"
  by pat_completeness auto
termination
  by (relation "measure (\<lambda>(t, d, n, hist). length hist)")
    (auto simp: RemovePacket_0 less_Suc_eq_le length_dropWhile_le)

declare remove_dead.simps(2) [simp del]

definition RemoveDeadPackets :: "timestamp \<Rightarrow> PacketHistory \<Rightarrow> PacketHistory" where
  "RemoveDeadPackets now h =
     h\<lparr>ph_history := remove_dead now (packet_duration (ph_rtt h)) (ph_number_to_store h) (ph_history h)\<rparr>"

definition SetRtt :: "timestamp \<Rightarrow> PacketHistory \<Rightarrow> time_delta \<Rightarrow> PacketHistory" where
  "SetRtt now h rtt = RemoveDeadPackets now (h\<lparr>ph_rtt := rtt\<rparr>)"

text \<open>The insertion of \<open>PutRtpPacket\<close>, between its two culls.\<close>

definition place_packet :: "StoredPacket list \<Rightarrow> RtpPacketToSend \<Rightarrow> timestamp \<Rightarrow> StoredPacket list option" where
  "place_packet hist rtp_packet send_time = do {
     i \<leftarrow> GetPacketIndex hist (seq_of rtp_packet);
     (hist, i) \<leftarrow> (if i \<ge> 0 \<and> nat i < length hist \<and> sp_packet (hist ! nat i) \<noteq> None
       then let hist = RemovePacket hist (nat i) in do {
         i \<leftarrow> GetPacketIndex hist (seq_of rtp_packet); Some (hist, i) }
       else Some (hist, i));
     let hist = replicate (nat (- i)) empty_slot @ hist;
         j = nat (max i 0);
         hist = hist @ replicate (j + 1 - length hist) empty_slot in
     Some (hist[j := new_StoredPacket rtp_packet send_time]) }"

definition PutRtpPacket :: "timestamp \<Rightarrow> PacketHistory \<Rightarrow> RtpPacketToSend \<Rightarrow> timestamp \<Rightarrow> PacketHistory option" where
  "PutRtpPacket now h rtp_packet send_time =
     (let h = RemoveDeadPackets now h in do {
        hist \<leftarrow> place_packet (ph_history h) rtp_packet send_time;
        Some (RemoveDeadPackets now (h\<lparr>ph_history := hist\<rparr>)) })"

definition VerifyRtt :: "timestamp \<Rightarrow> PacketHistory \<Rightarrow> StoredPacket \<Rightarrow> bool" where
  "VerifyRtt now h s \<longleftrightarrow> \<not> (sp_times_retransmitted s > 0 \<and> Timestamp_sub now (sp_send_time s) < ph_rtt h)"

text \<open>The encapsulation is an argument; its \<open>None\<close> is a fault inside it.\<close>

definition GetPacketAndMarkAsPending :: "timestamp \<Rightarrow> PacketHistory \<Rightarrow> u16 \<Rightarrow>
    (RtpPacketToSend \<Rightarrow> RtpPacketToSend option option) \<Rightarrow> (RtpPacketToSend option \<times> PacketHistory) option" where
  "GetPacketAndMarkAsPending now h sequence_number encapsulate = do {
     k \<leftarrow> GetStoredPacket (ph_history h) sequence_number;
     case k of None \<Rightarrow> Some (None, h)
     | Some i \<Rightarrow>
       let s = ph_history h ! i in
       if sp_pending_transmission s then Some (None, h)
       else if \<not> VerifyRtt now h s then Some (None, h)
       else do {
         p \<leftarrow> sp_packet s;
         e \<leftarrow> encapsulate p;
         Some (e, if e \<noteq> None
           then h\<lparr>ph_history := (ph_history h)[i := s\<lparr>sp_pending_transmission := True\<rparr>]\<rparr> else h) } }"

definition MarkPacketAsSent :: "timestamp \<Rightarrow> PacketHistory \<Rightarrow> u16 \<Rightarrow> PacketHistory option" where
  "MarkPacketAsSent now h sequence_number = do {
     k \<leftarrow> GetStoredPacket (ph_history h) sequence_number;
     Some (case k of None \<Rightarrow> h
       | Some i \<Rightarrow> let s = ph_history h ! i in
           h\<lparr>ph_history := (ph_history h)[i := s\<lparr>sp_send_time := now, sp_pending_transmission := False,
               sp_times_retransmitted := sp_times_retransmitted s + 1\<rparr>]\<rparr>) }"

definition MarkPacketAsAborted :: "PacketHistory \<Rightarrow> u16 \<Rightarrow> PacketHistory option" where
  "MarkPacketAsAborted h sequence_number = do {
     k \<leftarrow> GetStoredPacket (ph_history h) sequence_number;
     Some (case k of None \<Rightarrow> h
       | Some i \<Rightarrow> h\<lparr>ph_history := (ph_history h)[i := (ph_history h ! i)\<lparr>sp_pending_transmission := False\<rparr>]\<rparr>) }"

section \<open>Slots and sequence numbers\<close>

text \<open>Slot \<open>i\<close> holds number \<open>base + i\<close>, or nothing.\<close>

definition aligned :: "u16 \<Rightarrow> StoredPacket list \<Rightarrow> bool" where
  "aligned base hist \<longleftrightarrow> (\<forall>i < length hist. \<forall>p. sp_packet (hist ! i) = Some p \<longrightarrow> seq_of p = base + of_nat i)"

definition slots_ok :: "StoredPacket list \<Rightarrow> bool" where
  "slots_ok hist \<longleftrightarrow> hist = [] \<or> (\<exists>p. sp_packet (hd hist) = Some p \<and> aligned (seq_of p) hist)"

definition entries :: "StoredPacket list \<Rightarrow> StoredPacket set" where
  "entries hist = {x \<in> set hist. sp_packet x \<noteq> None}"

definition slot_seq :: "StoredPacket \<Rightarrow> u16 option" where
  "slot_seq x = map_option seq_of (sp_packet x)"

lemma slots_ok_Nil [simp]: "slots_ok []" by (simp add: slots_ok_def)

lemma aligned_drop: "aligned base hist \<Longrightarrow> aligned (base + of_nat k) (drop k hist)"
proof (unfold aligned_def, intro allI impI)
  fix i p assume a: "\<forall>i < length hist. \<forall>p. sp_packet (hist ! i) = Some p \<longrightarrow> seq_of p = base + of_nat i"
    and "i < length (drop k hist)" "sp_packet (drop k hist ! i) = Some p"
  then have "k + i < length hist" "sp_packet (hist ! (k + i)) = Some p" by auto
  with a have "seq_of p = base + of_nat (k + i)" by blast
  then show "seq_of p = base + of_nat k + of_nat i" by (simp add: ac_simps)
qed

lemma aligned_Cons:
  "aligned base (x # hist) \<longleftrightarrow> (\<forall>p. sp_packet x = Some p \<longrightarrow> seq_of p = base) \<and> aligned (base + 1) hist"
proof -
  have "(\<forall>i < Suc (length hist). P i) \<longleftrightarrow> P 0 \<and> (\<forall>i < length hist. P (Suc i))" for P
    by (metis less_Suc_eq_0_disj not0_implies_Suc)
  then show ?thesis by (auto simp: aligned_def ac_simps)
qed

lemma aligned_append:
  "aligned base (xs @ ys) \<longleftrightarrow> aligned base xs \<and> aligned (base + of_nat (length xs)) ys"
  by (induction xs arbitrary: base) (simp_all add: aligned_Cons ac_simps aligned_def [of _ "[]"])

lemma aligned_empty [simp]: "aligned base (replicate k empty_slot)"
  by (simp add: aligned_def empty_slot_def)

lemma slots_ok_dropWhile:
  assumes "aligned base hist"
  shows "slots_ok (dropWhile (\<lambda>s. sp_packet s = None) hist)"
proof (cases "dropWhile (\<lambda>s. sp_packet s = None) hist")
  case (Cons x r)
  then obtain p where p: "sp_packet x = Some p" by (auto simp: dropWhile_eq_Cons_conv)
  obtain k where k: "x # r = drop k hist" using Cons by (metis dropWhile_eq_drop)
  then have "aligned (base + of_nat k) (x # r)" using aligned_drop [OF assms, of k] by simp
  moreover have "seq_of p = base + of_nat k" using calculation p by (simp add: aligned_Cons)
  ultimately show ?thesis using Cons p by (simp add: slots_ok_def)
qed (simp only: slots_ok_Nil)

lemma slots_ok_Cons: "slots_ok (x # hist) \<longleftrightarrow> (\<exists>p. sp_packet x = Some p \<and> aligned (seq_of p + 1) hist)"
  by (auto simp: slots_ok_def aligned_Cons)

lemma slots_ok_RemovePacket_0: "slots_ok (s # hist) \<Longrightarrow> slots_ok (RemovePacket (s # hist) 0)"
  unfolding RemovePacket_0 by (auto simp: slots_ok_Cons intro: slots_ok_dropWhile)

section \<open>Culling\<close>

definition protected :: "timestamp \<Rightarrow> time_delta \<Rightarrow> StoredPacket \<Rightarrow> bool" where
  "protected now duration x \<longleftrightarrow> sp_pending_transmission x \<or> Timestamp_add (sp_send_time x) duration > now"

lemma remove_dead_props:
  assumes "slots_ok hist"
  shows "slots_ok (remove_dead now dur n hist) \<and> length (remove_dead now dur n hist) \<le> kMaxCapacity \<and>
    entries (remove_dead now dur n hist) \<subseteq> entries hist \<and>
    (length hist \<le> kMaxCapacity \<longrightarrow> (\<forall>x \<in> entries hist. protected now dur x \<longrightarrow> x \<in> entries (remove_dead now dur n hist)))"
  using assms
proof (induction now dur n hist rule: remove_dead.induct)
  case (2 now dur n s hist)
  let ?r = "RemovePacket (s # hist) 0"
  have ok: "slots_ok ?r" by (rule slots_ok_RemovePacket_0 [OF "2.prems"])
  have ent: "entries ?r = entries hist"
    unfolding RemovePacket_0 by (induction hist) (auto simp: entries_def)
  have len: "length ?r \<le> length hist" unfolding RemovePacket_0 by (rule length_dropWhile_le)
  have sub: "entries hist \<subseteq> entries (s # hist)" by (auto simp: entries_def)
  show ?case
  proof (cases "length (s # hist) > kMaxCapacity")
    case True
    then have "remove_dead now dur n (s # hist) = remove_dead now dur n ?r" by (simp add: remove_dead.simps(2))
    then show ?thesis using "2.IH"(1) [OF True ok] ent sub True by auto
  next
    case False
    show ?thesis
    proof (cases "\<not> protected now dur s \<and> (length (s # hist) \<ge> n \<or>
        Timestamp_add (sp_send_time s) (unit_scale dur kPacketCullingDelayFactor) \<le> now)")
      case True
      then have "remove_dead now dur n (s # hist) = remove_dead now dur n ?r"
        using False by (auto simp: remove_dead.simps(2) protected_def)
      moreover have "slots_ok (remove_dead now dur n ?r) \<and> length (remove_dead now dur n ?r) \<le> kMaxCapacity \<and>
        entries (remove_dead now dur n ?r) \<subseteq> entries ?r \<and>
        (length ?r \<le> kMaxCapacity \<longrightarrow> (\<forall>x \<in> entries ?r. protected now dur x \<longrightarrow> x \<in> entries (remove_dead now dur n ?r)))"
        using "2.IH"(2) [OF False _ _ _ ok] True by (auto simp: protected_def)
      moreover have "x \<in> entries hist" if "x \<in> entries (s # hist)" "protected now dur x" for x
        using that True by (auto simp: entries_def)
      ultimately show ?thesis using ent sub len False by auto
    next
      case F: False
      then have "remove_dead now dur n (s # hist) = s # hist"
        using False by (auto simp: remove_dead.simps(2) protected_def)
      then show ?thesis using "2.prems" False by auto
    qed
  qed
qed (simp add: entries_def)

section \<open>Lookup\<close>

lemma GetPacketIndex_first:
  assumes "sp_packet x = Some p"
  shows "\<exists>i. GetPacketIndex (x # r) s = Some i \<and> word_of_int i = s - seq_of p \<and> - (2 ^ 15) \<le> i \<and> i \<le> 2 ^ 15 \<and>
    (uint (s - seq_of p) < 2 ^ 15 \<longrightarrow> i = uint (s - seq_of p)) \<and>
    (2 ^ 15 < uint (s - seq_of p) \<longrightarrow> i = uint (s - seq_of p) - 2 ^ 16)"
proof -
  let ?f = "seq_of p"
  have n: "IsNewerSequenceNumber s ?f \<longleftrightarrow> AheadOf 0 s ?f"
    by (simp add: IsNewerSequenceNumber_def IsNewer_promoted_eq AheadOrAt_promoted_eq AheadOf_def)
  have a: "AheadOf 0 s ?f \<longleftrightarrow> s \<noteq> ?f \<and> (uint (s - ?f) < 2 ^ 15 \<or> uint (s - ?f) = 2 ^ 15 \<and> ?f < s)"
    by (simp add: AheadOf_def AheadOrAt0_iff)
  define u v where "u = uint s" and "v = uint ?f"
  have b: "0 \<le> u" "u < 2 ^ 16" "0 \<le> v" "v < 2 ^ 16"
    using uint_lt2p [of s] uint_lt2p [of ?f] by (simp_all add: u_def v_def)
  have d: "uint (s - ?f) = (if v \<le> u then u - v else u - v + 2 ^ 16)"
    using uint_diff [of s ?f] by (simp add: u_def v_def)
  have l: "?f < s \<longleftrightarrow> v < u" "s < ?f \<longleftrightarrow> u < v" "s = ?f \<longleftrightarrow> u = v" "?f = s \<longleftrightarrow> u = v"
    by (auto simp: word_less_def u_def v_def word_uint_eq_iff)
  have w: "word_of_int (u - v) = s - ?f" "word_of_int (u - v + 65536) = s - ?f" "word_of_int (u - v - 65536) = s - ?f"
    by (simp_all add: u_def v_def)
  show ?thesis
    unfolding GetPacketIndex_def list.case assms option.case Let_def n a d l u_def [symmetric] v_def [symmetric]
    using b w by (auto simp: l(3))
qed

lemma unat_u16: "i < 2 ^ 16 \<Longrightarrow> unat (of_nat i :: u16) = i"
  by (rule unat_of_nat_small) simp

lemma of_nat_u16_inj: "i < 2 ^ 16 \<Longrightarrow> j < 2 ^ 16 \<Longrightarrow> of_nat i = (of_nat j :: u16) \<Longrightarrow> i = j"
  by (metis unat_u16)

lemma GetStoredPacket_total: "slots_ok hist \<Longrightarrow> \<exists>r. GetStoredPacket hist s = Some r"
proof (cases hist)
  case (Cons x r)
  assume "slots_ok hist"
  then obtain p where "sp_packet x = Some p" using Cons by (auto simp: slots_ok_Cons)
  then show ?thesis using GetPacketIndex_first [of x p r s] Cons by (auto simp: GetStoredPacket_def)
qed (simp add: GetStoredPacket_def GetPacketIndex_def)

lemma GetStoredPacket_Some:
  assumes "slots_ok hist" and "GetStoredPacket hist s = Some (Some i)"
  shows "i < length hist \<and> slot_seq (hist ! i) = Some s"
proof (cases hist)
  case (Cons x r)
  obtain p where p: "sp_packet x = Some p" "aligned (seq_of p) hist" using assms(1) Cons by (auto simp: slots_ok_def)
  obtain k where k: "GetPacketIndex hist s = Some k" "word_of_int k = s - seq_of p"
    using GetPacketIndex_first [OF p(1), of r s] Cons by auto
  then have i: "0 \<le> k" "i = nat k" "i < length hist" "sp_packet (hist ! i) \<noteq> None"
    using assms(2) by (auto simp: GetStoredPacket_def split: if_splits)
  then obtain q where q: "sp_packet (hist ! i) = Some q" by auto
  then have "seq_of q = seq_of p + of_nat i" using p(2) i(3) by (simp add: aligned_def)
  also have "of_nat i = (word_of_int k :: u16)" using i(1,2) by simp
  finally show ?thesis using k(2) i(3) q by (simp add: slot_seq_def)
qed (use assms in \<open>simp add: GetStoredPacket_def GetPacketIndex_def\<close>)

lemma GetStoredPacket_entry:
  assumes "slots_ok hist" and "length hist \<le> kMaxCapacity" and "x \<in> entries hist" and "slot_seq x = Some s"
  shows "\<exists>i < length hist. GetStoredPacket hist s = Some (Some i) \<and> hist ! i = x"
proof -
  obtain i where i: "i < length hist" "hist ! i = x" using assms(3) by (auto simp: entries_def in_set_conv_nth)
  obtain q where q: "sp_packet x = Some q" "seq_of q = s" using assms(4) by (auto simp: slot_seq_def)
  obtain y r where h: "hist = y # r" using i(1) by (cases hist) auto
  obtain p where p: "sp_packet y = Some p" "aligned (seq_of p) hist" using assms(1) h by (auto simp: slots_ok_def)
  have "s = seq_of p + of_nat i" using p(2) i q by (auto simp: aligned_def)
  then have "s - seq_of p = of_nat i" by simp
  moreover have "uint (of_nat i :: u16) = int i"
    using unat_u16 [of i] i(1) assms(2) unfolding uint_nat kMaxCapacity_def by (simp del: of_nat_unat)
  ultimately have "GetPacketIndex hist s = Some (int i)"
    using GetPacketIndex_first [OF p(1), of r s] h i(1) assms(2) by (auto simp: kMaxCapacity_def)
  then show ?thesis using i q by (auto simp: GetStoredPacket_def)
qed

section \<open>Insertion\<close>

lemma entries_append [simp]: "entries (xs @ ys) = entries xs \<union> entries ys"
  by (auto simp: entries_def)

lemma entries_empty [simp]: "entries (replicate k empty_slot) = {}" "entries [] = {}"
  by (auto simp: entries_def empty_slot_def)

lemma entries_Cons: "entries (x # xs) = (if sp_packet x = None then {} else {x}) \<union> entries xs"
  by (auto simp: entries_def)

lemma new_StoredPacket_packet [simp]: "sp_packet (new_StoredPacket p t) = Some p"
  by (simp add: new_StoredPacket_def)

lemma entries_update:
  assumes "aligned base hist" and "length hist \<le> 2 ^ 16" and "i < length hist" and "s = base + of_nat i"
    and "sp_packet y = None \<or> slot_seq y = Some s"
  shows "entries (hist[i := y]) = (if sp_packet y = None then {} else {y}) \<union> {x \<in> entries hist. slot_seq x \<noteq> Some s} \<and>
    aligned base (hist[i := y])"
proof
  have other: "slot_seq (hist ! j) \<noteq> Some s" if "j < length hist" "j \<noteq> i" for j
    using that assms of_nat_u16_inj [of i j] by (auto simp: aligned_def slot_seq_def)
  have "x \<in> entries (hist[i := y]) \<longleftrightarrow> x = y \<and> sp_packet y \<noteq> None \<or> x \<in> entries hist \<and> slot_seq x \<noteq> Some s" for x
  proof -
    have "x \<in> set (hist[i := y]) \<longleftrightarrow> x = y \<or> (\<exists>j < length hist. j \<noteq> i \<and> x = hist ! j)"
      using assms(3) by (auto simp: in_set_conv_nth nth_list_update)
    moreover have "(\<exists>j < length hist. j \<noteq> i \<and> x = hist ! j) \<and> sp_packet x \<noteq> None \<longleftrightarrow> x \<in> entries hist \<and> slot_seq x \<noteq> Some s" for x
    proof -
      have "slot_seq (hist ! i) = Some s \<or> sp_packet (hist ! i) = None"
        using assms(1,3,4) by (auto simp: aligned_def slot_seq_def)
      then show ?thesis using other by (auto simp: entries_def in_set_conv_nth slot_seq_def)
    qed
    ultimately show ?thesis by (auto simp: entries_def)
  qed
  then show "entries (hist[i := y]) = (if sp_packet y = None then {} else {y}) \<union> {x \<in> entries hist. slot_seq x \<noteq> Some s}"
    by auto
  show "aligned base (hist[i := y])"
    using assms(1,3-5) by (auto simp: aligned_def nth_list_update slot_seq_def)
qed

lemma slots_okI: "aligned base hist \<Longrightarrow> hist \<noteq> [] \<Longrightarrow> sp_packet (hd hist) \<noteq> None \<Longrightarrow> slots_ok hist"
  by (cases hist) (auto simp: slots_ok_Cons aligned_Cons)

text \<open>The list after the expansion and the assignment, for a packet at index \<open>i\<close>.\<close>

definition put_at :: "StoredPacket list \<Rightarrow> int \<Rightarrow> StoredPacket \<Rightarrow> StoredPacket list" where
  "put_at hist i y =
     (let hist = replicate (nat (- i)) empty_slot @ hist; j = nat (max i 0);
          hist = hist @ replicate (j + 1 - length hist) empty_slot in hist[j := y])"

lemma put_at_props:
  assumes "aligned f hist" and "hist \<noteq> [] \<Longrightarrow> sp_packet (hd hist) \<noteq> None" and "hist = [] \<Longrightarrow> i = 0"
    and "word_of_int i = s - f" and "- (2 ^ 15) \<le> i" and "i \<le> 2 ^ 15" and "length hist \<le> kMaxCapacity" and "slot_seq y = Some s"
  shows "slots_ok (put_at hist i y) \<and> entries (put_at hist i y) = insert y {x \<in> entries hist. slot_seq x \<noteq> Some s} \<and>
    (0 \<le> i \<longrightarrow> length (put_at hist i y) = max (length hist) (nat i + 1))"
proof -
  have y: "sp_packet y \<noteq> None" using assms(8) by (auto simp: slot_seq_def)
  show ?thesis
  proof (cases "i < 0")
    case True
    define k where "k = nat (- i)"
    have k: "0 < k" "i = - int k" "k \<le> 2 ^ 15" using True assms(5) by (simp_all add: k_def)
    let ?h = "replicate k empty_slot @ hist"
    have s: "s = f - of_nat k" using assms(4) k(2) by (simp add: eq_diff_eq)
    have al: "aligned s ?h" using assms(1) by (simp add: aligned_append s)
    have p: "put_at hist i y = ?h[0 := y]" using True k(1) by (simp add: put_at_def k_def)
    have l: "length ?h \<le> 2 ^ 16" "0 < length ?h" using k(1,3) assms(7) by (simp_all add: kMaxCapacity_def)
    have u: "entries (?h[0 := y]) = insert y {x \<in> entries ?h. slot_seq x \<noteq> Some s}" "aligned s (?h[0 := y])"
      using entries_update [OF al l(1,2), of s y] assms(8) y by simp_all
    moreover have "slots_ok (?h[0 := y])"
      using slots_okI [OF u(2)] k(1) y by (cases ?h) auto
    ultimately show ?thesis using True p by simp
  next
    case False
    let ?j = "nat i"
    let ?h = "hist @ replicate (?j + 1 - length hist) empty_slot"
    have s: "s = f + of_nat ?j" using assms(4) False by (simp add: eq_diff_eq ac_simps)
    have al: "aligned f ?h" using assms(1) by (simp add: aligned_append)
    have p: "put_at hist i y = ?h[?j := y]" using False by (simp add: put_at_def Let_def)
    have l: "length ?h \<le> 2 ^ 16" "?j < length ?h" using assms(6,7) by (auto simp: kMaxCapacity_def)
    have u: "entries (?h[?j := y]) = insert y {x \<in> entries ?h. slot_seq x \<noteq> Some s}" "aligned f (?h[?j := y])"
      using entries_update [OF al l(1,2) s, of y] assms(8) y by simp_all
    moreover have "sp_packet (hd (?h[?j := y])) \<noteq> None"
      using assms(2,3) y by (cases hist) (auto split: nat.split)
    ultimately show ?thesis using False p slots_okI [OF u(2)] l(2) by auto
  qed
qed

lemma GetPacketIndex_slots:
  assumes "slots_ok hist"
  shows "\<exists>i f. GetPacketIndex hist s = Some i \<and> aligned f hist \<and> (hist \<noteq> [] \<longrightarrow> slot_seq (hd hist) = Some f) \<and>
    (hist = [] \<longrightarrow> i = 0) \<and> word_of_int i = s - f \<and> - (2 ^ 15) \<le> i \<and> i \<le> 2 ^ 15 \<and>
    (uint (s - f) < 2 ^ 15 \<longrightarrow> i = uint (s - f))"
proof (cases hist)
  case Nil
  then show ?thesis by (intro exI [of _ 0] exI [of _ s]) (simp add: GetPacketIndex_def aligned_def)
next
  case (Cons x r)
  obtain p where p: "sp_packet x = Some p" "aligned (seq_of p) hist" using assms Cons by (auto simp: slots_ok_def)
  then show ?thesis using GetPacketIndex_first [OF p(1), of r s] Cons by (auto simp: slot_seq_def)
qed

lemma RemovePacket_props:
  assumes "aligned f hist" and "slots_ok hist" and "length hist \<le> kMaxCapacity" and "i < length hist"
    and "sp_packet (hist ! i) \<noteq> None" and "s = f + of_nat i"
  shows "slots_ok (RemovePacket hist i) \<and> entries (RemovePacket hist i) = {x \<in> entries hist. slot_seq x \<noteq> Some s} \<and>
    length (RemovePacket hist i) \<le> length hist"
proof -
  let ?h = "hist[i := (hist ! i)\<lparr>sp_packet := None\<rparr>]"
  have u: "entries ?h = {x \<in> entries hist. slot_seq x \<noteq> Some s}" "aligned f ?h"
    using entries_update [OF assms(1) _ assms(4,6), of "(hist ! i)\<lparr>sp_packet := None\<rparr>"] assms(3) by (simp_all add: kMaxCapacity_def)
  have e: "entries (dropWhile (\<lambda>s. sp_packet s = None) xs) = entries xs" for xs
    by (induction xs) (auto simp: entries_Cons)
  show ?thesis
  proof (cases "i = 0")
    case True
    have "length (dropWhile (\<lambda>s. sp_packet s = None) ?h) \<le> length ?h" by (rule length_dropWhile_le)
    then show ?thesis using True u slots_ok_dropWhile [OF u(2)] e by (simp add: RemovePacket_def)
  next
    case False
    have "sp_packet (hd ?h) \<noteq> None"
      using False assms(2,4) by (cases hist; cases i) (auto simp: slots_ok_Cons)
    moreover have "?h \<noteq> []" using assms(4) by auto
    ultimately have "slots_ok ?h" by (intro slots_okI [OF u(2)])
    with False u show ?thesis by (simp add: RemovePacket_def)
  qed
qed

lemma place_packet_props:
  fixes t :: RtpPacketToSend and send_time :: timestamp
  assumes "slots_ok hist" and "length hist \<le> kMaxCapacity"
  defines "y \<equiv> new_StoredPacket t send_time"
  shows "\<exists>hist'. place_packet hist t send_time = Some hist' \<and> slots_ok hist' \<and>
    entries hist' = insert y {x \<in> entries hist. slot_seq x \<noteq> Some (seq_of t)} \<and>
    ((\<forall>x \<in> entries hist. \<forall>s. slot_seq x = Some s \<longrightarrow> uint (seq_of t - s) \<le> 10000) \<longrightarrow> length hist' \<le> kMaxCapacity)"
proof -
  have y: "slot_seq y = Some (seq_of t)" by (simp add: y_def slot_seq_def)
  have fin: "slots_ok (put_at h i y) \<and> entries (put_at h i y) = insert y {x \<in> entries h. slot_seq x \<noteq> Some (seq_of t)} \<and>
      ((\<forall>x \<in> entries h. \<forall>s. slot_seq x = Some s \<longrightarrow> uint (seq_of t - s) \<le> 10000) \<longrightarrow> length (put_at h i y) \<le> kMaxCapacity)"
    if h: "slots_ok h" "length h \<le> kMaxCapacity" and gi: "GetPacketIndex h (seq_of t) = Some i" for h i
  proof -
    obtain f where f: "aligned f h" "h \<noteq> [] \<longrightarrow> slot_seq (hd h) = Some f" "h = [] \<longrightarrow> i = 0" "word_of_int i = seq_of t - f"
      "- (2 ^ 15) \<le> i" "i \<le> 2 ^ 15" "uint (seq_of t - f) < 2 ^ 15 \<longrightarrow> i = uint (seq_of t - f)"
      using GetPacketIndex_slots [OF h(1), of "seq_of t"] gi by auto
    have nn: "h \<noteq> [] \<Longrightarrow> sp_packet (hd h) \<noteq> None" using f(2) by (auto simp: slot_seq_def)
    have P: "slots_ok (put_at h i y)" "entries (put_at h i y) = insert y {x \<in> entries h. slot_seq x \<noteq> Some (seq_of t)}"
      "0 \<le> i \<Longrightarrow> length (put_at h i y) = max (length h) (nat i + 1)"
      using put_at_props [OF f(1) nn _ f(4-6) h(2) y] f(3) by blast+
    have "length (put_at h i y) \<le> kMaxCapacity"
      if a: "\<forall>x \<in> entries h. \<forall>s. slot_seq x = Some s \<longrightarrow> uint (seq_of t - s) \<le> 10000"
    proof (cases "h = []")
      case False
      then have "hd h \<in> entries h" using nn by (auto simp: entries_def)
      then have "uint (seq_of t - f) \<le> 10000" using a f(2) False by blast
      then have "0 \<le> i" "i \<le> 10000" using f(7) by auto
      then show ?thesis using P(3) h(2) by (auto simp: kMaxCapacity_def)
    next
      case True
      then have "i = 0" using f(3) by simp
      then show ?thesis using P(3) True by (simp add: kMaxCapacity_def)
    qed
    with P show ?thesis by blast
  qed
  obtain i f where i: "GetPacketIndex hist (seq_of t) = Some i" "aligned f hist" "word_of_int i = seq_of t - f"
    using GetPacketIndex_slots [OF assms(1), of "seq_of t"] by blast
  show ?thesis
  proof (cases "i \<ge> 0 \<and> nat i < length hist \<and> sp_packet (hist ! nat i) \<noteq> None")
    case True
    have "seq_of t = f + of_nat (nat i)" using True i(3) by (simp add: eq_diff_eq ac_simps)
    then have R: "slots_ok (RemovePacket hist (nat i))" "length (RemovePacket hist (nat i)) \<le> length hist"
      "entries (RemovePacket hist (nat i)) = {x \<in> entries hist. slot_seq x \<noteq> Some (seq_of t)}"
      using RemovePacket_props [OF i(2) assms(1,2), of "nat i" "seq_of t"] True by auto
    obtain k where k: "GetPacketIndex (RemovePacket hist (nat i)) (seq_of t) = Some k"
      using GetPacketIndex_slots [OF R(1)] by blast
    have "place_packet hist t send_time = Some (put_at (RemovePacket hist (nat i)) k y)"
      using i(1) k True by (simp add: place_packet_def put_at_def y_def Let_def)
    then show ?thesis using fin [OF R(1) _ k] R assms(2) by auto
  next
    case False
    then have "place_packet hist t send_time = Some (put_at hist i y)"
      using i(1) by (auto simp: place_packet_def put_at_def y_def Let_def)
    then show ?thesis using fin [OF assms(1,2) i(1)] by auto
  qed
qed

definition history_ok :: "PacketHistory \<Rightarrow> bool" where
  "history_ok h \<longleftrightarrow> slots_ok (ph_history h) \<and> length (ph_history h) \<le> kMaxCapacity"

lemma new_PacketHistory_ok: "history_ok new_PacketHistory"
  by (simp add: history_ok_def new_PacketHistory_def)

lemma RemoveDeadPackets_ok:
  "slots_ok (ph_history h) \<Longrightarrow> history_ok (RemoveDeadPackets now h)"
  using remove_dead_props by (simp add: history_ok_def RemoveDeadPackets_def)

lemma PutRtpPacket_props:
  assumes "history_ok h"
  shows "\<exists>h'. PutRtpPacket now h t send_time = Some h' \<and> history_ok h' \<and> ph_rtt h' = ph_rtt h \<and>
    entries (ph_history h') \<subseteq> insert (new_StoredPacket t send_time) {x \<in> entries (ph_history h). slot_seq x \<noteq> Some (seq_of t)} \<and>
    ((\<forall>x \<in> entries (ph_history h). \<forall>s. slot_seq x = Some s \<longrightarrow> uint (seq_of t - s) \<le> 10000) \<longrightarrow>
     (\<forall>x \<in> insert (new_StoredPacket t send_time) {x \<in> entries (ph_history h). slot_seq x \<noteq> Some (seq_of t)}.
       protected now (packet_duration (ph_rtt h)) x \<longrightarrow> x \<in> entries (ph_history h')))"
proof -
  let ?d = "packet_duration (ph_rtt h)" and ?h1 = "RemoveDeadPackets now h"
  have h1: "history_ok ?h1" "ph_rtt ?h1 = ph_rtt h" "ph_number_to_store ?h1 = ph_number_to_store h"
    "entries (ph_history ?h1) \<subseteq> entries (ph_history h)"
    "\<forall>x \<in> entries (ph_history h). protected now ?d x \<longrightarrow> x \<in> entries (ph_history ?h1)"
    using assms remove_dead_props [of "ph_history h" now ?d "ph_number_to_store h"]
    by (simp_all add: history_ok_def RemoveDeadPackets_def)
  obtain hist where p: "place_packet (ph_history ?h1) t send_time = Some hist" "slots_ok hist"
    "entries hist = insert (new_StoredPacket t send_time) {x \<in> entries (ph_history ?h1). slot_seq x \<noteq> Some (seq_of t)}"
    "(\<forall>x \<in> entries (ph_history ?h1). \<forall>s. slot_seq x = Some s \<longrightarrow> uint (seq_of t - s) \<le> 10000) \<longrightarrow> length hist \<le> kMaxCapacity"
    using place_packet_props [of "ph_history ?h1" t send_time] h1(1) by (auto simp: history_ok_def)
  let ?h2 = "RemoveDeadPackets now (?h1\<lparr>ph_history := hist\<rparr>)"
  have h2: "history_ok ?h2" "ph_rtt ?h2 = ph_rtt h" "entries (ph_history ?h2) \<subseteq> entries hist"
    "length hist \<le> kMaxCapacity \<longrightarrow> (\<forall>x \<in> entries hist. protected now ?d x \<longrightarrow> x \<in> entries (ph_history ?h2))"
    using remove_dead_props [OF p(2), of now ?d "ph_number_to_store h"] h1(2,3)
    by (simp_all add: history_ok_def RemoveDeadPackets_def)
  have "PutRtpPacket now h t send_time = Some ?h2" using p(1) by (simp add: PutRtpPacket_def Let_def)
  with h2 p(3,4) h1(4,5) show ?thesis by (intro exI [of _ ?h2]) auto
qed

section \<open>Retransmission marks\<close>

lemma GetPacketIndex_update:
  assumes "sp_packet y = sp_packet (hist ! i)" and "i < length hist"
  shows "GetPacketIndex (hist[i := y]) s = GetPacketIndex hist s"
  using assms by (cases hist; cases i) (auto simp: GetPacketIndex_def)

lemma GetStoredPacket_update:
  assumes "sp_packet y = sp_packet (hist ! i)" and "i < length hist"
  shows "GetStoredPacket (hist[i := y]) s = GetStoredPacket hist s"
proof -
  have "sp_packet (hist[i := y] ! j) = sp_packet (hist ! j)" if "j < length hist" for j
    using assms that by (cases "j = i") auto
  then show ?thesis
    using GetPacketIndex_update [OF assms, of s]
    by (cases "GetPacketIndex hist s") (auto simp: GetStoredPacket_def)
qed

lemma slots_ok_update:
  assumes "slots_ok hist" and "sp_packet y = sp_packet (hist ! i)" and "i < length hist"
  shows "slots_ok (hist[i := y])"
proof -
  have p: "sp_packet (hist[i := y] ! j) = sp_packet (hist ! j)" if "j < length hist" for j
    using assms(2,3) that by (cases "j = i") auto
  have ne: "hist \<noteq> []" "hist[i := y] \<noteq> []" using assms(3) by auto
  then have "sp_packet (hd (hist[i := y])) = sp_packet (hd hist)" using p [of 0] by (simp add: hd_conv_nth)
  moreover have "aligned f (hist[i := y]) = aligned f hist" for f using p by (simp add: aligned_def)
  ultimately show ?thesis using assms(1) ne by (simp add: slots_ok_def)
qed

lemma history_ok_update:
  assumes "history_ok h" and "GetStoredPacket (ph_history h) s = Some (Some i)" and "sp_packet y = sp_packet (ph_history h ! i)"
  shows "history_ok (h\<lparr>ph_history := (ph_history h)[i := y]\<rparr>)"
  using assms slots_ok_update [of "ph_history h" y i] GetStoredPacket_Some [OF _ assms(2)] by (simp add: history_ok_def)

lemma GetPacketAndMarkAsPending_ok:
  assumes "history_ok h" and "\<And>p. encapsulate p \<noteq> None"
  shows "\<exists>e h'. GetPacketAndMarkAsPending now h s encapsulate = Some (e, h') \<and> history_ok h'"
proof -
  obtain r where r: "GetStoredPacket (ph_history h) s = Some r"
    using GetStoredPacket_total assms(1) by (auto simp: history_ok_def)
  show ?thesis
  proof (cases r)
    case (Some i)
    then obtain p where p: "sp_packet (ph_history h ! i) = Some p"
      using GetStoredPacket_Some [of "ph_history h" s i] assms(1) r by (auto simp: history_ok_def slot_seq_def)
    obtain e where "encapsulate p = Some e" using assms(2) by auto
    with r Some p show ?thesis
      using assms(1) history_ok_update [OF assms(1), of s i "(ph_history h ! i)\<lparr>sp_pending_transmission := True\<rparr>"]
      by (auto simp: GetPacketAndMarkAsPending_def Let_def)
  qed (use r assms(1) in \<open>simp add: GetPacketAndMarkAsPending_def\<close>)
qed

lemma MarkPacketAsSent_ok: "history_ok h \<Longrightarrow> \<exists>h'. MarkPacketAsSent now h s = Some h' \<and> history_ok h'"
  using GetStoredPacket_total [of "ph_history h" s] history_ok_update [of h s]
  by (fastforce simp: MarkPacketAsSent_def Let_def history_ok_def [of h] split: option.splits)

lemma MarkPacketAsAborted_ok: "history_ok h \<Longrightarrow> \<exists>h'. MarkPacketAsAborted h s = Some h' \<and> history_ok h'"
  using GetStoredPacket_total [of "ph_history h" s] history_ok_update [of h s]
  by (fastforce simp: MarkPacketAsAborted_def Let_def history_ok_def [of h] split: option.splits)

section \<open>Runs\<close>

inductive history_reach :: "PacketHistory \<Rightarrow> bool" where
  history_new: "history_reach new_PacketHistory"
| history_put: "history_reach h \<Longrightarrow> PutRtpPacket now h t send_time = Some h' \<Longrightarrow> history_reach h'"
| history_rtt: "history_reach h \<Longrightarrow> history_reach (SetRtt now h rtt)"
| history_get: "history_reach h \<Longrightarrow> GetPacketAndMarkAsPending now h s enc = Some (e, h') \<Longrightarrow>
    (\<And>p. enc p \<noteq> None) \<Longrightarrow> history_reach h'"
| history_sent: "history_reach h \<Longrightarrow> MarkPacketAsSent now h s = Some h' \<Longrightarrow> history_reach h'"
| history_aborted: "history_reach h \<Longrightarrow> MarkPacketAsAborted h s = Some h' \<Longrightarrow> history_reach h'"

lemma history_reach_ok: "history_reach h \<Longrightarrow> history_ok h"
proof (induction rule: history_reach.induct)
  case (history_put h now t send_time h')
  then show ?case using PutRtpPacket_props [of h now t send_time] by auto
next
  case (history_rtt h now rtt)
  then show ?case by (simp add: SetRtt_def RemoveDeadPackets_ok history_ok_def [of h])
next
  case (history_get h now s enc e h')
  then show ?case using GetPacketAndMarkAsPending_ok [of h enc now s] by auto
next
  case (history_sent h now s h')
  then show ?case using MarkPacketAsSent_ok [of h now s] by auto
next
  case (history_aborted h s h')
  then show ?case using MarkPacketAsAborted_ok [of h s] by auto
qed (rule new_PacketHistory_ok)

section \<open>Properties\<close>

text \<open>
  C40: the packet history never reads an empty slot. In every reachable state the front slot holds a
  packet, the slot at distance \<open>i\<close> from it holds the packet numbered \<open>i\<close> later or nothing, there are
  at most 10001 slots, and every operation, whatever its arguments, completes in such a state.
\<close>

theorem history_safe:
  assumes "history_reach h" and "\<And>p. encapsulate p \<noteq> None"
  shows "length (ph_history h) \<le> 10001 \<and>
    (ph_history h \<noteq> [] \<longrightarrow> (\<exists>p. sp_packet (hd (ph_history h)) = Some p \<and>
      (\<forall>i < length (ph_history h). \<forall>q. sp_packet (ph_history h ! i) = Some q \<longrightarrow> seq_of q = seq_of p + of_nat i))) \<and>
    (\<exists>h'. PutRtpPacket now h t send_time = Some h' \<and> history_reach h') \<and>
    (\<exists>e h'. GetPacketAndMarkAsPending now h s encapsulate = Some (e, h') \<and> history_reach h') \<and>
    (\<exists>h'. MarkPacketAsSent now h s = Some h' \<and> history_reach h') \<and>
    (\<exists>h'. MarkPacketAsAborted h s = Some h' \<and> history_reach h') \<and> history_reach (SetRtt now h rtt)"
proof -
  have ok: "history_ok h" using history_reach_ok [OF assms(1)] .
  note reach = history_reach.intros(2-6) [OF assms(1)]
  have "\<exists>h'. PutRtpPacket now h t send_time = Some h' \<and> history_reach h'"
    using PutRtpPacket_props [OF ok, of now t send_time] reach(1) by blast
  moreover have "\<exists>e h'. GetPacketAndMarkAsPending now h s encapsulate = Some (e, h') \<and> history_reach h'"
  proof -
    obtain e h' where g: "GetPacketAndMarkAsPending now h s encapsulate = Some (e, h')"
      using GetPacketAndMarkAsPending_ok [of h encapsulate now s] ok assms(2) by blast
    have "history_reach h'" by (rule history_get [OF assms(1) g]) (rule assms(2))
    with g show ?thesis by blast
  qed
  moreover have "\<exists>h'. MarkPacketAsSent now h s = Some h' \<and> history_reach h'"
    using MarkPacketAsSent_ok [OF ok, of now s] reach(4) by blast
  moreover have "\<exists>h'. MarkPacketAsAborted h s = Some h' \<and> history_reach h'"
    using MarkPacketAsAborted_ok [OF ok, of s] reach(5) by blast
  moreover have "length (ph_history h) \<le> 10001 \<and>
    (ph_history h \<noteq> [] \<longrightarrow> (\<exists>p. sp_packet (hd (ph_history h)) = Some p \<and>
      (\<forall>i < length (ph_history h). \<forall>q. sp_packet (ph_history h ! i) = Some q \<longrightarrow> seq_of q = seq_of p + of_nat i)))"
    using ok by (auto simp: history_ok_def slots_ok_def aligned_def kMaxCapacity_def)
  ultimately show ?thesis using reach(2) by blast
qed

theorem history_safe_witness:
  "history_reach new_PacketHistory \<and>
    (\<exists>h'. PutRtpPacket 0 new_PacketHistory (new_RtpPacketToSend new_RtpPacket) 0 = Some h' \<and> history_reach h') \<and>
    (\<exists>e h'. GetPacketAndMarkAsPending 0 new_PacketHistory 5 (\<lambda>p. Some (Some p)) = Some (e, h') \<and> history_reach h')"
  using history_safe [OF history_new, of "\<lambda>p. Some (Some p)" 0 "new_RtpPacketToSend new_RtpPacket" 0 5 0] history_new
  by simp

text \<open>
  a sent packet can be retransmitted. Put a packet whose number is at most 10000 after every
  stored one. The packet, and every other stored packet except an older copy of it, can then be
  fetched for retransmission, provided it is younger than the retention time of at least one second
  and not held back by a recent retransmission; the fetch returns its encapsulation.
\<close>

theorem history_put_get:
  assumes "history_reach h"
    and "\<forall>x \<in> entries (ph_history h). \<forall>s. slot_seq x = Some s \<longrightarrow> uint (seq_of t - s) \<le> 10000"
    and "x = new_StoredPacket t send_time \<or> x \<in> entries (ph_history h) \<and> slot_seq x \<noteq> Some (seq_of t)"
    and "sp_packet x = Some p" and "Timestamp_add (sp_send_time x) (packet_duration (ph_rtt h)) > now"
    and "\<not> sp_pending_transmission x" and "VerifyRtt later h x" and "encapsulate p = Some (Some e)"
  shows "\<exists>h' h''. PutRtpPacket now h t send_time = Some h' \<and>
    GetPacketAndMarkAsPending later h' (seq_of p) encapsulate = Some (Some e, h'')"
proof -
  obtain h' where h': "PutRtpPacket now h t send_time = Some h'" "history_ok h'" "ph_rtt h' = ph_rtt h"
    "x \<in> entries (ph_history h')"
    using PutRtpPacket_props [OF history_reach_ok [OF assms(1)], of now t send_time] assms(2,3,5)
    by (auto simp: protected_def)
  obtain i where i: "GetStoredPacket (ph_history h') (seq_of p) = Some (Some i)" "ph_history h' ! i = x"
    using GetStoredPacket_entry [of "ph_history h'" x "seq_of p"] h' assms(4) by (auto simp: history_ok_def slot_seq_def)
  then have "GetPacketAndMarkAsPending later h' (seq_of p) encapsulate =
      Some (Some e, h'\<lparr>ph_history := (ph_history h')[i := x\<lparr>sp_pending_transmission := True\<rparr>]\<rparr>)"
    using assms(4,6,7,8) h'(3) by (simp add: GetPacketAndMarkAsPending_def Let_def VerifyRtt_def)
  with h'(1) show ?thesis by blast
qed

theorem history_put_get_witness:
  "\<exists>h' h''. PutRtpPacket 0 new_PacketHistory (new_RtpPacketToSend new_RtpPacket) 0 = Some h' \<and>
    GetPacketAndMarkAsPending 50 h' 1 (\<lambda>p. Some (Some p)) = Some (Some (new_RtpPacketToSend new_RtpPacket), h'')"
proof -
  let ?t = "new_RtpPacketToSend new_RtpPacket"
  have s: "seq_of ?t = 1" by (simp add: seq_of_def new_RtpPacketToSend_def new_RtpPacket_def)
  have d: "packet_duration (ph_rtt new_PacketHistory) = 1000000"
    by (simp add: packet_duration_def new_PacketHistory_def Millis_def FromFraction_def unit_scale_def infinity_defs
        kMinPacketDuration_def kMinPacketDurationRtt_def Seconds_def)
  have t: "Timestamp_add (sp_send_time (new_StoredPacket ?t 0)) 1000000 > 0"
    by (simp add: new_StoredPacket_def Timestamp_add_def infinity_defs)
  have e: "entries (ph_history new_PacketHistory) = {}" by (simp add: new_PacketHistory_def)
  show ?thesis
    using history_put_get [OF history_new, of ?t "new_StoredPacket ?t 0" 0 ?t 0 50 "\<lambda>p. Some (Some p)" ?t] t
    unfolding d e s by (simp add: new_StoredPacket_def VerifyRtt_def)
qed

text \<open>
  retransmissions are paced. A packet fetched for retransmission is not fetched again until the
  attempt is reported; after a report that it was sent, not before a round-trip time has passed; and
  after a report that it was aborted, at once.
\<close>

theorem history_gating:
  assumes "history_reach h" and "GetPacketAndMarkAsPending now h s encapsulate = Some (Some e, h1)"
  shows "(\<forall>t enc. GetPacketAndMarkAsPending t h1 s enc = Some (None, h1)) \<and>
    (\<exists>h2. MarkPacketAsSent sent h1 s = Some h2 \<and>
      (\<forall>t enc. Timestamp_sub t sent < ph_rtt h \<longrightarrow> GetPacketAndMarkAsPending t h2 s enc = Some (None, h2)) \<and>
      (\<forall>t. Timestamp_sub t sent \<ge> ph_rtt h \<longrightarrow> (\<exists>h3. GetPacketAndMarkAsPending t h2 s encapsulate = Some (Some e, h3)))) \<and>
    (\<exists>h2. MarkPacketAsAborted h1 s = Some h2 \<and>
      (\<exists>h3. GetPacketAndMarkAsPending now h2 s encapsulate = Some (Some e, h3)))"
proof -
  have ok: "slots_ok (ph_history h)" using history_reach_ok [OF assms(1)] by (simp add: history_ok_def)
  obtain i p where i: "GetStoredPacket (ph_history h) s = Some (Some i)" "\<not> sp_pending_transmission (ph_history h ! i)"
    "VerifyRtt now h (ph_history h ! i)" "sp_packet (ph_history h ! i) = Some p" "encapsulate p = Some (Some e)"
    and h1: "h1 = h\<lparr>ph_history := (ph_history h)[i := (ph_history h ! i)\<lparr>sp_pending_transmission := True\<rparr>]\<rparr>"
    using assms(2) by (auto simp: GetPacketAndMarkAsPending_def Let_def split: bind_splits option.splits if_splits)
  have l: "i < length (ph_history h)" using GetStoredPacket_Some [OF ok i(1)] by simp
  have g: "GetStoredPacket ((ph_history h)[i := y]) s = Some (Some i)" if "sp_packet y = Some p" for y
    using GetStoredPacket_update [of y "ph_history h" i s] that i(1,4) l by simp
  let ?x = "ph_history h ! i"
  let ?sent = "h\<lparr>ph_history := (ph_history h)[i := ?x\<lparr>sp_send_time := sent, sp_pending_transmission := False,
    sp_times_retransmitted := sp_times_retransmitted ?x + 1\<rparr>]\<rparr>"
  let ?abort = "h\<lparr>ph_history := (ph_history h)[i := ?x\<lparr>sp_pending_transmission := False\<rparr>]\<rparr>"
  have "MarkPacketAsSent sent h1 s = Some ?sent" "MarkPacketAsAborted h1 s = Some ?abort"
    using g i(4) l by (simp_all add: MarkPacketAsSent_def MarkPacketAsAborted_def Let_def h1)
  moreover have "GetPacketAndMarkAsPending t h1 s enc = Some (None, h1)" for t enc
    using g i(4) l by (simp add: GetPacketAndMarkAsPending_def Let_def h1)
  moreover have "GetPacketAndMarkAsPending t ?sent s enc = Some (None, ?sent)" if "Timestamp_sub t sent < ph_rtt h" for t enc
    using g i(4) l that by (simp add: GetPacketAndMarkAsPending_def Let_def VerifyRtt_def)
  moreover have "\<exists>h3. GetPacketAndMarkAsPending t ?sent s encapsulate = Some (Some e, h3)" if "Timestamp_sub t sent \<ge> ph_rtt h" for t
    using g i(4,5) l that by (simp add: GetPacketAndMarkAsPending_def Let_def VerifyRtt_def)
  moreover have "\<exists>h3. GetPacketAndMarkAsPending now ?abort s encapsulate = Some (Some e, h3)"
    using g i(3-5) l by (simp add: GetPacketAndMarkAsPending_def Let_def VerifyRtt_def)
  ultimately show ?thesis by blast
qed

text \<open>A history that holds one packet.\<close>

definition one_packet :: PacketHistory where
  "one_packet = new_PacketHistory\<lparr>ph_history := [new_StoredPacket (new_RtpPacketToSend new_RtpPacket) 0]\<rparr>"

lemma one_packet_reach: "history_reach one_packet"
proof -
  have "PutRtpPacket 0 new_PacketHistory (new_RtpPacketToSend new_RtpPacket) 0 = Some one_packet"
    by (simp add: PutRtpPacket_def RemoveDeadPackets_def new_PacketHistory_def place_packet_def GetPacketIndex_def
        one_packet_def new_StoredPacket_def empty_slot_def kMaxCapacity_def packet_duration_def Millis_def FromFraction_def
        unit_scale_def infinity_defs kMinPacketDuration_def kMinPacketDurationRtt_def Seconds_def Timestamp_add_def remove_dead.simps)
  then show ?thesis by (rule history_put [OF history_new])
qed

theorem history_gating_witness:
  "\<exists>h1. GetPacketAndMarkAsPending 50 one_packet 1 (\<lambda>p. Some (Some p)) = Some (Some (new_RtpPacketToSend new_RtpPacket), h1) \<and>
    (\<forall>t. GetPacketAndMarkAsPending t h1 1 (\<lambda>p. Some (Some p)) = Some (None, h1)) \<and>
    (\<exists>h2. MarkPacketAsSent 60 h1 1 = Some h2 \<and> GetPacketAndMarkAsPending 70 h2 1 (\<lambda>p. Some (Some p)) = Some (None, h2))"
proof -
  let ?t = "new_RtpPacketToSend new_RtpPacket" and ?enc = "\<lambda>p. Some (Some p)"
  obtain h1 where h1: "GetPacketAndMarkAsPending 50 one_packet 1 ?enc = Some (Some ?t, h1)"
    by (simp add: GetPacketAndMarkAsPending_def one_packet_def GetStoredPacket_def GetPacketIndex_def new_StoredPacket_def
        seq_of_def new_RtpPacketToSend_def new_RtpPacket_def VerifyRtt_def)
  have "ph_rtt one_packet = 100000" "Timestamp_sub 70 60 = 10"
    by (simp_all add: one_packet_def new_PacketHistory_def Millis_def FromFraction_def Timestamp_sub_def infinity_defs)
  then show ?thesis using history_gating [OF one_packet_reach h1, of 60] h1 by auto
qed

end
