(* ===== verification/Obu.thy ===== *)
theory Obu
  imports Prelude
begin

text \<open>
  AV1 open bitstream units: the byte reader \<open>src/rtp/rtp_packet/byte_buffer.{h,cpp}\<close> and the
  parser \<open>src/rtp/rtp_packet/obu_parser.cpp\<close>, which splits an encoded frame into units for the
  packetizer.

  A read outside the frame is \<^term>\<open>None\<close>; the parser's own rejection of a malformed frame is the
  empty list, as in the source. The main results: the parser is safe and ends on every input, and
  it inverts the AV1 encoding of a list of units, so that the units it hands to the packetizer
  concatenate to the frame.
\<close>

section \<open>The byte reader\<close>

record ByteBufferReader =
  br_bytes :: "byte list"
  br_size :: nat
  br_start :: nat
  br_end :: nat

definition new_ByteBufferReader :: "byte list \<Rightarrow> nat \<Rightarrow> ByteBufferReader" where
  "new_ByteBufferReader bytes len = \<lparr>br_bytes = bytes, br_size = len, br_start = 0, br_end = len\<rparr>"

definition Length :: "ByteBufferReader \<Rightarrow> nat" where
  "Length r = br_end r - br_start r"

text \<open>The inner \<^term>\<open>None\<close> is the result \<open>false\<close>.\<close>

definition ReadBytes :: "ByteBufferReader \<Rightarrow> nat \<Rightarrow> (byte list option \<times> ByteBufferReader) option" where
  "ReadBytes r len =
     (if len > Length r then Some (None, r)
      else do { d \<leftarrow> seg (br_bytes r) (br_start r) len; Some (Some d, r\<lparr>br_start := br_start r + len\<rparr>) })"

definition ReadUInt8 :: "ByteBufferReader \<Rightarrow> (byte option \<times> ByteBufferReader) option" where
  "ReadUInt8 r = do { (d, r) \<leftarrow> ReadBytes r 1; Some (map_option hd d, r) }"

text \<open>The loop of \<open>ReadUVarint\<close> over its bit offsets; the result is the value and its length.\<close>

fun uvarint_loop :: "nat list \<Rightarrow> u64 \<Rightarrow> ByteBufferReader \<Rightarrow> ((u64 \<times> nat) option \<times> ByteBufferReader) option" where
  "uvarint_loop [] v r = Some (None, r)"
| "uvarint_loop (i # is) v r = do {
     (d, r) \<leftarrow> ReadBytes r 1;
     case d of None \<Rightarrow> Some (None, r)
     | Some bs \<Rightarrow>
       let b = hd bs; v = v OR push_bit i (ucast b AND 0x7F) in
       if unat b < 0x80 then Some (Some (v, i div 8 + (if i mod 8 \<noteq> 0 then 1 else 0) + 1), r)
       else uvarint_loop is v r }"

definition ReadUVarint :: "ByteBufferReader \<Rightarrow> ((u64 \<times> nat) option \<times> ByteBufferReader) option" where
  "ReadUVarint r = uvarint_loop (map (\<lambda>k. 7 * k) [0..<10]) 0 r"

definition Consume :: "ByteBufferReader \<Rightarrow> nat \<Rightarrow> bool \<times> ByteBufferReader" where
  "Consume r sz = (if sz > Length r then (False, r) else (True, r\<lparr>br_start := br_start r + sz\<rparr>))"

section \<open>The parser\<close>

record Obu =
  ob_header :: byte
  ob_extension_header :: "byte option"
  ob_payload :: "byte list"
  ob_size :: nat

definition kObuSizePresentBit :: byte where "kObuSizePresentBit = 2"

definition ObuHasExtension :: "byte \<Rightarrow> bool" where
  "ObuHasExtension obu_header \<longleftrightarrow> obu_header AND 4 \<noteq> 0"

definition ObuHasSize :: "byte \<Rightarrow> bool" where
  "ObuHasSize obu_header \<longleftrightarrow> obu_header AND kObuSizePresentBit \<noteq> 0"

definition ObuType :: "byte \<Rightarrow> byte" where
  "ObuType obu_header = drop_bit 3 (obu_header AND 0x78)"

text \<open>The optional extension header; the inner \<^term>\<open>None\<close> is the early return.\<close>

definition obu_extension :: "byte \<Rightarrow> ByteBufferReader \<Rightarrow> (byte option option \<times> ByteBufferReader) option" where
  "obu_extension h r =
     (if ObuHasExtension h then
        if Length r = 0 then Some (None, r)
        else do { (e, r) \<leftarrow> ReadUInt8 r; e \<leftarrow> e; Some (Some (Some e), r) }
      else Some (Some None, r))"

text \<open>The size field and the bytes of the unit; the inner \<^term>\<open>None\<close> is the early return.\<close>

definition obu_body :: "byte \<Rightarrow> ByteBufferReader \<Rightarrow> (byte list option \<times> ByteBufferReader) option" where
  "obu_body h r =
     (if \<not> ObuHasSize h then do {
        d \<leftarrow> seg (br_bytes r) (br_start r) (Length r);
        Some (Some d, snd (Consume r (Length r))) }
      else do {
        (s, r) \<leftarrow> ReadUVarint r;
        case s of None \<Rightarrow> Some (None, r)
        | Some (sz, size_len) \<Rightarrow>
          if unat sz > Length r then Some (None, r)
          else do {
            d \<leftarrow> (if sz = 0 then Some [0]
                  else if br_start r < size_len then None
                  else do {
                    d \<leftarrow> seg (br_bytes r) (br_start r) (unat sz);
                    size_data \<leftarrow> seg (br_bytes r) (br_start r - size_len) size_len;
                    Some (size_data @ d) });
            Some (Some d, snd (Consume r (unat sz))) } })"

text \<open>One round of the loop of \<open>ParseObus\<close>.\<close>

definition parse_obu :: "ByteBufferReader \<Rightarrow> (Obu option \<times> ByteBufferReader) option" where
  "parse_obu r = do {
     (h, r) \<leftarrow> ReadUInt8 r;
     h \<leftarrow> h;
     (e, r) \<leftarrow> obu_extension h r;
     case e of None \<Rightarrow> Some (None, r)
     | Some ext \<Rightarrow> do {
         (d, r) \<leftarrow> obu_body h r;
         case d of None \<Rightarrow> Some (None, r)
         | Some d \<Rightarrow>
           let sz = 1 + (if ext = None then 0 else 1) + length d;
               d = (case ext of None \<Rightarrow> d | Some e \<Rightarrow> e # d) in
           Some (Some \<lparr>ob_header = h, ob_extension_header = ext, ob_payload = h # d, ob_size = sz\<rparr>, r) } }"

lemma ReadBytes_shorter: "ReadBytes r n = Some (d, r') \<Longrightarrow> Length r' \<le> Length r"
  by (auto simp: ReadBytes_def Length_def split: if_splits bind_splits)

lemma ReadBytes_shorter_Some: "ReadBytes r n = Some (Some d, r') \<Longrightarrow> 0 < n \<Longrightarrow> Length r' < Length r"
  by (auto simp: ReadBytes_def Length_def split: if_splits bind_splits)

lemma uvarint_loop_shorter: "uvarint_loop is v r = Some (s, r') \<Longrightarrow> Length r' \<le> Length r"
proof (induction "is" arbitrary: v r)
  case (Cons i "is")
  then obtain d r1 where d: "ReadBytes r 1 = Some (d, r1)" by (auto split: bind_splits)
  then have "Length r1 \<le> Length r" by (rule ReadBytes_shorter)
  then show ?case using Cons d by (force simp: Let_def split: option.splits if_splits)
qed simp

lemma ReadUInt8_shorter: "ReadUInt8 r = Some (Some b, r') \<Longrightarrow> Length r' < Length r"
  by (auto simp: ReadUInt8_def bind_eq_Some_conv dest!: ReadBytes_shorter_Some)

lemma Consume_shorter: "Length b \<le> Length r \<Longrightarrow> Length (snd (Consume b n)) \<le> Length r"
  by (auto simp: Consume_def Length_def)

lemma obu_body_shorter: "obu_body h r = Some (d, r') \<Longrightarrow> Length r' \<le> Length r"
  by (auto simp: obu_body_def ReadUVarint_def split: if_splits bind_splits option.splits
      dest!: uvarint_loop_shorter intro!: Consume_shorter)

lemma obu_extension_shorter: "obu_extension h r = Some (e, r') \<Longrightarrow> Length r' \<le> Length r"
  by (auto simp: obu_extension_def bind_eq_Some_conv split: if_splits dest!: ReadUInt8_shorter)

lemma parse_obu_shorter: "parse_obu r = Some (Some u, r') \<Longrightarrow> Length r' < Length r"
  by (auto simp: parse_obu_def Let_def split: bind_splits option.splits
      dest!: ReadUInt8_shorter obu_extension_shorter obu_body_shorter)

function parse_obus :: "ByteBufferReader \<Rightarrow> Obu list \<Rightarrow> Obu list option" where
  "parse_obus r result =
     (if Length r > 0 then
        (case parse_obu r of None \<Rightarrow> None
         | Some (None, _) \<Rightarrow> Some []
         | Some (Some u, r') \<Rightarrow> parse_obus r' (result @ [u]))
      else Some result)"
  by pat_completeness auto
termination
  by (relation "measure (\<lambda>(r, result). Length r)") (auto dest: parse_obu_shorter)

declare parse_obus.simps [simp del]

definition ParseObus :: "byte list \<Rightarrow> int \<Rightarrow> Obu list option" where
  "ParseObus payload payload_size = parse_obus (new_ByteBufferReader payload (nat (payload_size mod 2 ^ 64))) []"

section \<open>Safety\<close>

definition reader_ok :: "ByteBufferReader \<Rightarrow> bool" where
  "reader_ok r \<longleftrightarrow> br_start r \<le> br_end r \<and> br_end r \<le> length (br_bytes r)"

text \<open>The same bytes, read further.\<close>

definition advances :: "ByteBufferReader \<Rightarrow> ByteBufferReader \<Rightarrow> bool" where
  "advances r r' \<longleftrightarrow> reader_ok r' \<and> br_bytes r' = br_bytes r \<and> br_end r' = br_end r \<and> br_start r \<le> br_start r'"

lemma advances_refl: "reader_ok r \<Longrightarrow> advances r r"
  by (simp add: advances_def)

lemma advances_trans: "advances r s \<Longrightarrow> advances s t \<Longrightarrow> advances r t"
  by (auto simp: advances_def)

lemma advances_ok: "advances r r' \<Longrightarrow> reader_ok r'"
  by (simp add: advances_def)

lemma Consume_advances: "reader_ok r \<Longrightarrow> advances r (snd (Consume r n))"
  by (auto simp: advances_def reader_ok_def Consume_def Length_def)

lemma ReadBytes_ok:
  assumes "reader_ok r"
  shows "\<exists>d r'. ReadBytes r n = Some (d, r') \<and> advances r r' \<and> (d = None \<longleftrightarrow> Length r < n) \<and>
    (d \<noteq> None \<longrightarrow> br_start r' = br_start r + n)"
  using assms by (auto simp: ReadBytes_def reader_ok_def advances_def Length_def seg_def)

lemma ReadUInt8_ok:
  assumes "reader_ok r"
  shows "\<exists>d r'. ReadUInt8 r = Some (d, r') \<and> advances r r' \<and> (d = None \<longleftrightarrow> Length r = 0)"
  using ReadBytes_ok [OF assms, of 1] by (auto simp: ReadUInt8_def)

lemma uvarint_loop_ok:
  assumes "reader_ok r" and "\<forall>j < length is. is ! j \<le> 7 * (k + j)"
  shows "\<exists>s r'. uvarint_loop is v r = Some (s, r') \<and> advances r r' \<and>
    (\<forall>x n. s = Some (x, n) \<longrightarrow> n \<le> k + (br_start r' - br_start r))"
  using assms
proof (induction "is" arbitrary: v r k)
  case Nil
  then show ?case by (simp add: advances_refl)
next
  case (Cons i "is")
  obtain d r1 where d: "ReadBytes r 1 = Some (d, r1)" "advances r r1" "d \<noteq> None \<longrightarrow> br_start r1 = br_start r + 1"
    using ReadBytes_ok [OF Cons.prems(1), of 1] by auto
  have i: "i \<le> 7 * k" "\<forall>j < length is. is ! j \<le> 7 * (Suc k + j)"
    using Cons.prems(2) by (auto dest: spec [of _ 0] spec [of _ "Suc _"])
  show ?case
  proof (cases d)
    case None
    with d show ?thesis by auto
  next
    case (Some bs)
    define w where "w = v OR push_bit i (ucast (hd bs) AND 0x7F)"
    obtain s r' where IH: "uvarint_loop is w r1 = Some (s, r')" "advances r1 r'"
      "\<forall>x n. s = Some (x, n) \<longrightarrow> n \<le> Suc k + (br_start r' - br_start r1)"
      using Cons.IH [OF advances_ok [OF d(2)] i(2)] by blast
    show ?thesis
    proof (cases "unat (hd bs) < 0x80")
      case True
      have "i div 8 + (if i mod 8 \<noteq> 0 then 1 else 0) \<le> k" using i(1) by auto
      with True Some d show ?thesis by (simp add: Let_def)
    next
      case False
      have "uvarint_loop (i # is) v r = Some (s, r')" using False Some d(1) IH(1) by (simp add: Let_def w_def)
      moreover have "advances r r'" using d(2) IH(2) by (rule advances_trans)
      moreover have "Suc (br_start r' - br_start r1) = br_start r' - br_start r"
        using d(3) Some IH(2) by (auto simp: advances_def)
      ultimately show ?thesis using IH(3) by (auto simp flip: add_Suc_right)
    qed
  qed
qed

lemma ReadUVarint_ok:
  assumes "reader_ok r"
  shows "\<exists>s r'. ReadUVarint r = Some (s, r') \<and> advances r r' \<and>
    (\<forall>x n. s = Some (x, n) \<longrightarrow> n \<le> br_start r' - br_start r)"
  using uvarint_loop_ok [OF assms, of "map (\<lambda>k. 7 * k) [0..<10]" 0 0] by (auto simp: ReadUVarint_def)

lemma obu_extension_ok: "reader_ok r \<Longrightarrow> \<exists>e r'. obu_extension h r = Some (e, r') \<and> advances r r'"
  using ReadUInt8_ok [of r] by (auto simp: obu_extension_def advances_refl)

lemma obu_body_ok:
  assumes "reader_ok r"
  shows "\<exists>d r'. obu_body h r = Some (d, r') \<and> advances r r'"
proof (cases "ObuHasSize h")
  case False
  with assms show ?thesis
    using Consume_advances [OF assms, of "Length r"]
    by (auto simp: obu_body_def seg_def Length_def reader_ok_def)
next
  case True
  obtain s r1 where s: "ReadUVarint r = Some (s, r1)" "advances r r1"
    "\<forall>x n. s = Some (x, n) \<longrightarrow> n \<le> br_start r1 - br_start r"
    using ReadUVarint_ok [OF assms] by blast
  have c: "advances r (snd (Consume r1 n))" for n
    using s(2) Consume_advances advances_ok advances_trans by blast
  show ?thesis
  proof (cases s)
    case None
    with s True show ?thesis by (auto simp: obu_body_def)
  next
    case (Some p)
    obtain x n where p: "p = (x, n)" by (cases p)
    have n: "n \<le> br_start r1" using s(3) Some p by auto
    have b: "br_start r1 \<le> br_end r1" "br_end r1 \<le> length (br_bytes r1)"
      using s(2) by (auto simp: advances_def reader_ok_def)
    then have g: "seg (br_bytes r1) (br_start r1 - n) n \<noteq> None"
      "unat x \<le> Length r1 \<Longrightarrow> seg (br_bytes r1) (br_start r1) (unat x) \<noteq> None"
      using n by (auto simp: seg_def Length_def)
    show ?thesis
    proof (cases "unat x > Length r1")
      case True
      with Some p s \<open>ObuHasSize h\<close> show ?thesis by (auto simp: obu_body_def)
    next
      case False
      with g n Some p s(1) \<open>ObuHasSize h\<close> c [of "unat x"] c [of 0] show ?thesis
        by (auto simp: obu_body_def)
    qed
  qed
qed

definition obu_ok :: "Obu \<Rightarrow> bool" where
  "obu_ok u \<longleftrightarrow> ob_size u = length (ob_payload u) \<and> ob_payload u \<noteq> []"

lemma parse_obu_ok:
  assumes "reader_ok r" and "Length r > 0"
  shows "\<exists>u r'. parse_obu r = Some (u, r') \<and> advances r r' \<and> (\<forall>x. u = Some x \<longrightarrow> obu_ok x)"
proof -
  obtain h r1 where h: "ReadUInt8 r = Some (Some h, r1)" "advances r r1"
    using ReadUInt8_ok [OF assms(1)] assms(2) by fastforce
  obtain e r2 where e: "obu_extension h r1 = Some (e, r2)" "advances r1 r2"
    using obu_extension_ok [OF advances_ok [OF h(2)]] by blast
  obtain d r3 where d: "obu_body h r2 = Some (d, r3)" "advances r2 r3"
    using obu_body_ok [OF advances_ok [OF e(2)]] by blast
  have a: "advances r r2" "advances r r3" using h(2) e(2) d(2) advances_trans by blast+
  show ?thesis
    using h(1) e(1) d(1) a by (cases e; cases d) (auto simp: parse_obu_def Let_def obu_ok_def split: option.split)
qed

lemma parse_obus_ok:
  assumes "reader_ok r" and "\<forall>u \<in> set acc. obu_ok u"
  shows "\<exists>us. parse_obus r acc = Some us \<and> (\<forall>u \<in> set us. obu_ok u)"
  using assms
proof (induction r acc rule: parse_obus.induct)
  case (1 r acc)
  show ?case
  proof (cases "Length r > 0")
    case True
    obtain u r' where u: "parse_obu r = Some (u, r')" "advances r r'" "\<forall>x. u = Some x \<longrightarrow> obu_ok x"
      using parse_obu_ok [OF 1(2) True] by blast
    show ?thesis
    proof (cases u)
      case None
      with True u show ?thesis by (subst parse_obus.simps) simp
    next
      case (Some x)
      have "\<exists>us. parse_obus r' (acc @ [x]) = Some us \<and> (\<forall>u \<in> set us. obu_ok u)"
        using True u Some 1 advances_ok by (intro 1(1)) auto
      with True u Some show ?thesis by (subst parse_obus.simps) simp
    qed
  qed (use 1 in \<open>simp add: parse_obus.simps\<close>)
qed

lemma ParseObus_ok:
  assumes "nat (n mod 2 ^ 64) \<le> length payload"
  shows "\<exists>us. ParseObus payload n = Some us \<and> (\<forall>u \<in> set us. obu_ok u)"
  unfolding ParseObus_def using assms
  by (intro parse_obus_ok) (simp_all add: reader_ok_def new_ByteBufferReader_def)

section \<open>The AV1 encoding of a list of units\<close>

text \<open>The size field: seven bits per byte, least significant first, the top bit set on all but the last byte.\<close>

fun uvarint :: "nat \<Rightarrow> byte list" where
  "uvarint n = (if n < 128 then [of_nat n] else of_nat (128 + n mod 128) # uvarint (n div 128))"

declare uvarint.simps [simp del]

text \<open>A unit is a header, an extension header if its header says so, and its bytes.\<close>

record obu_unit =
  un_header :: byte
  un_extension :: "byte option"
  un_body :: "byte list"

definition unit_bytes :: "obu_unit \<Rightarrow> byte list" where
  "unit_bytes u = un_header u # (case un_extension u of None \<Rightarrow> [] | Some e \<Rightarrow> [e]) @
     (if ObuHasSize (un_header u) then uvarint (length (un_body u)) else []) @ un_body u"

definition unit_ok :: "obu_unit \<Rightarrow> bool" where
  "unit_ok u \<longleftrightarrow> (ObuHasExtension (un_header u) \<longleftrightarrow> un_extension u \<noteq> None) \<and> length (un_body u) < 2 ^ 31"

text \<open>Only the last unit of a frame may leave out its size.\<close>

definition units_ok :: "obu_unit list \<Rightarrow> bool" where
  "units_ok us \<longleftrightarrow> (\<forall>u \<in> set us. unit_ok u) \<and> (\<forall>u \<in> set (butlast us). ObuHasSize (un_header u))"

definition unit_obu :: "obu_unit \<Rightarrow> Obu" where
  "unit_obu u = \<lparr>ob_header = un_header u, ob_extension_header = un_extension u, ob_payload = unit_bytes u,
     ob_size = length (unit_bytes u)\<rparr>"

lemma uvarint_ne [simp]: "uvarint n \<noteq> []"
  by (subst uvarint.simps) simp

lemma uvarint_length: "n < 128 ^ k \<Longrightarrow> 0 < k \<Longrightarrow> length (uvarint n) \<le> k"
proof (induction k arbitrary: n)
  case (Suc k)
  have "n div 128 < 128 ^ k" using Suc.prems(1) by (simp add: less_mult_imp_div_less mult.commute)
  moreover have "k = 0 \<Longrightarrow> n < 128" using Suc.prems(1) by simp
  ultimately show ?case using Suc.IH [of "n div 128"] by (cases "k = 0") (subst uvarint.simps; simp)+
qed simp

text \<open>A reader before the bytes \<open>xs\<close>, and after them.\<close>

definition reader_at :: "byte list \<Rightarrow> byte list \<Rightarrow> ByteBufferReader" where
  "reader_at pre post = \<lparr>br_bytes = pre @ post, br_size = length (pre @ post), br_start = length pre,
     br_end = length (pre @ post)\<rparr>"

lemma Length_reader_at [simp]: "Length (reader_at pre post) = length post"
  by (simp add: Length_def reader_at_def)

lemma ReadBytes_at: "ReadBytes (reader_at pre (b # post)) (Suc 0) = Some (Some [b], reader_at (pre @ [b]) post)"
  by (simp add: ReadBytes_def seg_def) (simp add: reader_at_def)

lemma ReadUInt8_at: "ReadUInt8 (reader_at pre (b # post)) = Some (Some b, reader_at (pre @ [b]) post)"
  by (simp add: ReadUInt8_def ReadBytes_at)

lemma Consume_at: "Consume (reader_at pre (xs @ post)) (length xs) = (True, reader_at (pre @ xs) post)"
  by (simp add: Consume_def) (simp add: reader_at_def)

lemma seg_at: "br_start (reader_at pre post) = length pre" "br_bytes (reader_at pre post) = pre @ post"
  by (simp_all add: reader_at_def)

lemma bit_word_of_nat_iff: "bit (of_nat n :: 'a::len word) j \<longleftrightarrow> j < LENGTH('a) \<and> bit n j"
  by transfer (auto simp: bit_simps)

lemma low_bits:
  fixes v :: u64
  assumes "n < 2 ^ 64"
  shows "(v OR push_bit i (of_nat (n mod 128))) OR push_bit (i + 7) (of_nat (n div 128)) = v OR push_bit i (of_nat n)"
proof -
  have "of_nat n = (of_nat (n mod 128) :: u64) OR push_bit 7 (of_nat (n div 128))"
  proof -
    have "(of_nat n :: u64) = of_nat (n mod 128) + of_nat (n div 128 * 128)"
      by (metis add.commute div_mult_mod_eq of_nat_add)
    also have "of_nat (n div 128 * 128) = push_bit 7 (of_nat (n div 128) :: u64)"
      by (simp add: push_bit_eq_mult mult.commute)
    also have "of_nat (n mod 128) + push_bit 7 (of_nat (n div 128) :: u64) = of_nat (n mod 128) OR push_bit 7 (of_nat (n div 128))"
    proof (rule disjunctive_add)
      fix j
      have "n mod 128 = take_bit 7 n" by (simp add: take_bit_eq_mod)
      then show "\<not> bit (of_nat (n mod 128) :: u64) j \<or> \<not> bit (push_bit 7 (of_nat (n div 128) :: u64)) j"
        by (auto simp: bit_word_of_nat_iff bit_simps)
    qed
    finally show ?thesis .
  qed
  then show ?thesis by (simp add: push_bit_or ac_simps)
qed

lemma uvarint_byte:
  "unat (of_nat (n mod 128) :: byte) = n mod 128" "unat (of_nat (128 + n mod 128) :: byte) = 128 + n mod 128"
  "(ucast (of_nat (128 + n mod 128) :: byte) :: u64) AND 0x7F = of_nat (n mod 128)"
  "n < 128 \<Longrightarrow> (ucast (of_nat n :: byte) :: u64) AND 0x7F = of_nat n"
proof -
  have m: "n mod 128 < 128" by simp
  then have 1: "128 + n mod 128 < 2 ^ 8" "n mod 128 < 2 ^ 8" by simp_all
  show u: "unat (of_nat (n mod 128) :: byte) = n mod 128" "unat (of_nat (128 + n mod 128) :: byte) = 128 + n mod 128"
    using unat_of_nat_small [where 'a = 8] 1 by (simp_all del: of_nat_add)
  have k: "(0x7F :: u64) = mask 7" by (simp add: mask_eq_exp_minus_1)
  have c: "(ucast (of_nat x :: byte) :: u64) = of_nat x" if "x < 2 ^ 8" for x
    using that by (simp add: unsigned_of_nat take_bit_nat_eq_self)
  have t: "take_bit 7 (of_nat x :: u64) = of_nat (x mod 128)" if "x < 2 ^ 8" for x
  proof -
    have "take_bit 7 (of_nat x :: u64) = of_nat (take_bit 7 x)"
      by (rule bit_eqI) (simp add: bit_simps bit_word_of_nat_iff)
    then show ?thesis by (simp add: take_bit_eq_mod)
  qed
  show "(ucast (of_nat (128 + n mod 128) :: byte) :: u64) AND 0x7F = of_nat (n mod 128)"
    unfolding k take_bit_eq_mask [symmetric] c [OF 1(1)] t [OF 1(1)] by simp
  show "(ucast (of_nat n :: byte) :: u64) AND 0x7F = of_nat n" if "n < 128"
    using c [of n] t [of n] that unfolding k take_bit_eq_mask [symmetric] by simp
qed

lemma uvarint_loop_at:
  assumes "n < 2 ^ 64" and "k + length (uvarint n) \<le> 8"
  shows "uvarint_loop (map (\<lambda>k. 7 * k) [k..<10]) v (reader_at pre (uvarint n @ post)) =
    Some (Some (v OR push_bit (7 * k) (of_nat n), k + length (uvarint n)), reader_at (pre @ uvarint n) post)"
  using assms
proof (induction "length (uvarint n)" arbitrary: n k v pre rule: less_induct)
  case less
  have k: "k < 10" using less.prems(2) by simp
  have len: "7 * k div 8 + (if 7 * k mod 8 \<noteq> 0 then 1 else 0) + 1 = k + 1"
  proof -
    have "k < 8" using less.prems(2) uvarint_ne [of n] by (cases "uvarint n") auto
    then have "k \<in> {0, 1, 2, 3, 4, 5, 6, 7}" by auto
    then show ?thesis by auto
  qed
  show ?case
  proof (cases "n < 128")
    case True
    then have u: "uvarint n = [of_nat n]" by (subst uvarint.simps) simp
    have "unat (of_nat n :: byte) < 128" using True by (simp add: unat_of_nat_small)
    then show ?thesis
      unfolding u upt_conv_Cons [OF k] list.map uvarint_loop.simps
      using uvarint_byte(4) [OF True] len by (simp add: ReadBytes_at del: push_bit_and)
  next
    case False
    let ?b = "of_nat (128 + n mod 128) :: byte"
    have u: "uvarint n = ?b # uvarint (n div 128)" using False by (subst uvarint.simps) simp
    have b: "\<not> unat ?b < 128" unfolding uvarint_byte(2) by simp
    have "uvarint_loop (map (\<lambda>k. 7 * k) [Suc k..<10]) (v OR push_bit (7 * k) (of_nat (n mod 128)))
        (reader_at (pre @ [?b]) (uvarint (n div 128) @ post)) =
      Some (Some ((v OR push_bit (7 * k) (of_nat (n mod 128))) OR push_bit (7 * Suc k) (of_nat (n div 128)),
        Suc k + length (uvarint (n div 128))), reader_at ((pre @ [?b]) @ uvarint (n div 128)) post)"
      using less.prems by (intro less.hyps) (simp_all add: u div_le_dividend le_less_trans [of _ n])
    moreover have "(v OR push_bit (7 * k) (of_nat (n mod 128))) OR push_bit (7 * Suc k) (of_nat (n div 128)) =
        v OR push_bit (7 * k) (of_nat n)"
      using low_bits [OF less.prems(1), of v "7 * k"] by (simp add: ac_simps)
    ultimately show ?thesis
      unfolding u upt_conv_Cons [OF k] list.map uvarint_loop.simps using b uvarint_byte(3) [of n]
      by (simp add: ReadBytes_at Let_def del: push_bit_and)
  qed
qed

lemma ReadUVarint_at:
  assumes "n < 2 ^ 31"
  shows "ReadUVarint (reader_at pre (uvarint n @ post)) =
    Some (Some (of_nat n, length (uvarint n)), reader_at (pre @ uvarint n) post)"
proof -
  have "length (uvarint n) \<le> 5" using assms by (intro uvarint_length) auto
  then show ?thesis using uvarint_loop_at [of n 0 0 pre post] assms by (simp add: ReadUVarint_def)
qed

lemma obu_extension_at:
  assumes "unit_ok u"
  shows "obu_extension (un_header u) (reader_at pre ((case un_extension u of None \<Rightarrow> [] | Some e \<Rightarrow> [e]) @ post)) =
    Some (Some (un_extension u), reader_at (pre @ (case un_extension u of None \<Rightarrow> [] | Some e \<Rightarrow> [e])) post)"
  using assms by (cases "un_extension u") (auto simp: obu_extension_def unit_ok_def ReadUInt8_at)

lemma obu_body_at:
  assumes "length (un_body u) < 2 ^ 31" and "ObuHasSize (un_header u) \<or> post = []"
  defines "sz \<equiv> (if ObuHasSize (un_header u) then uvarint (length (un_body u)) else [])"
  shows "obu_body (un_header u) (reader_at pre (sz @ un_body u @ post)) =
    Some (Some (sz @ un_body u), reader_at (pre @ sz @ un_body u) post)"
proof (cases "ObuHasSize (un_header u)")
  case True
  let ?n = "length (un_body u)" and ?v = "uvarint (length (un_body u))"
  have n: "unat (of_nat ?n :: u64) = ?n" using assms(1) by (simp add: unat_of_nat_small)
  have z: "(of_nat ?n :: u64) = 0 \<longleftrightarrow> un_body u = []" using n by (cases "(of_nat ?n :: u64) = 0") auto
  have v: "?v = [0]" if "un_body u = []" using that by (subst uvarint.simps) simp
  show ?thesis
    using True assms(1) ReadUVarint_at [of ?n pre "un_body u @ post"] Consume_at [of "pre @ ?v" "un_body u" post] n z v
    by (cases "un_body u = []") (simp_all add: obu_body_def sz_def seg_def seg_at)
next
  case False
  with assms(2) show ?thesis
    using Consume_at [of pre "un_body u" "[]"] by (simp add: obu_body_def sz_def seg_def seg_at)
qed

lemma parse_obu_at:
  assumes "unit_ok u" and "ObuHasSize (un_header u) \<or> post = []"
  shows "parse_obu (reader_at pre (unit_bytes u @ post)) = Some (Some (unit_obu u), reader_at (pre @ unit_bytes u) post)"
proof -
  let ?e = "case un_extension u of None \<Rightarrow> [] | Some e \<Rightarrow> [e]"
    and ?s = "if ObuHasSize (un_header u) then uvarint (length (un_body u)) else []"
  have "obu_extension (un_header u) (reader_at (pre @ [un_header u]) (?e @ ?s @ un_body u @ post)) =
      Some (Some (un_extension u), reader_at (pre @ un_header u # ?e) (?s @ un_body u @ post))"
    using obu_extension_at [OF assms(1), of "pre @ [un_header u]"] by simp
  moreover have "obu_body (un_header u) (reader_at (pre @ un_header u # ?e) (?s @ un_body u @ post)) =
      Some (Some (?s @ un_body u), reader_at (pre @ unit_bytes u) post)"
    using obu_body_at [of u post "pre @ un_header u # ?e"] assms by (simp add: unit_ok_def unit_bytes_def)
  moreover have "unit_bytes u @ post = un_header u # ?e @ ?s @ un_body u @ post" by (simp add: unit_bytes_def)
  moreover have "unit_bytes u = un_header u # (case un_extension u of None \<Rightarrow> ?s @ un_body u | Some e \<Rightarrow> e # ?s @ un_body u)"
    by (simp add: unit_bytes_def split: option.split)
  moreover have "length (unit_bytes u) = 1 + (if un_extension u = None then 0 else 1) + length (?s @ un_body u)"
    by (simp add: unit_bytes_def split: option.split)
  ultimately show ?thesis
    by (simp only: parse_obu_def ReadUInt8_at bind.simps prod.case option.case Let_def unit_obu_def)
qed

lemma parse_obus_at:
  assumes "units_ok us"
  shows "parse_obus (reader_at pre (concat (map unit_bytes us))) acc = Some (acc @ map unit_obu us)"
  using assms
proof (induction us arbitrary: pre acc)
  case Nil
  then show ?case by (simp add: parse_obus.simps)
next
  case (Cons u us)
  let ?post = "concat (map unit_bytes us)"
  have "ObuHasSize (un_header u) \<or> ?post = []" "unit_ok u" "units_ok us"
    using Cons.prems by (auto simp: units_ok_def split: if_splits)
  then have "parse_obu (reader_at pre (unit_bytes u @ ?post)) = Some (Some (unit_obu u), reader_at (pre @ unit_bytes u) ?post)"
    "parse_obus (reader_at (pre @ unit_bytes u) ?post) (acc @ [unit_obu u]) = Some ((acc @ [unit_obu u]) @ map unit_obu us)"
    using parse_obu_at Cons.IH by blast+
  moreover have "0 < Length (reader_at pre (unit_bytes u @ ?post))" by (simp add: unit_bytes_def)
  ultimately show ?case by (subst parse_obus.simps) simp
qed

lemma ParseObus_units:
  assumes "units_ok us" and "length (concat (map unit_bytes us)) < 2 ^ 31"
  shows "ParseObus (concat (map unit_bytes us)) (int (length (concat (map unit_bytes us)))) = Some (map unit_obu us)"
proof -
  let ?f = "concat (map unit_bytes us)"
  have "new_ByteBufferReader ?f (nat (int (length ?f) mod 2 ^ 64)) = reader_at [] ?f"
    using assms(2) by (simp add: new_ByteBufferReader_def reader_at_def)
  then show ?thesis
    using parse_obus_at [OF assms(1), of "[]" "[]"] by (simp only: ParseObus_def append_Nil)
qed

section \<open>Properties\<close>

text \<open>
  C12: the AV1 parser on frames. On every input within its buffer the parser ends, reads only inside
  the buffer, and every unit it returns is non-empty with a size field equal to its number of bytes,
  which is what the packetizer slices by. On the encoding of any list of units, of which only the
  last may omit its size, it returns exactly these units, whose bytes concatenate to the frame.
\<close>

theorem ParseObus_correct:
  "(nat (n mod 2 ^ 64) \<le> length payload \<longrightarrow>
     (\<exists>obus. ParseObus payload n = Some obus \<and>
       (\<forall>u \<in> set obus. ob_size u = length (ob_payload u) \<and> ob_payload u \<noteq> []))) \<and>
   (units_ok us \<and> length (concat (map unit_bytes us)) < 2 ^ 31 \<longrightarrow>
     (let frame = concat (map unit_bytes us) in
       ParseObus frame (int (length frame)) = Some (map unit_obu us) \<and> concat (map (ob_payload \<circ> unit_obu) us) = frame))"
proof -
  have "ob_payload \<circ> unit_obu = unit_bytes" by (simp add: unit_obu_def fun_eq_iff)
  then show ?thesis using ParseObus_ok [of n payload] ParseObus_units [of us] by (simp add: obu_ok_def Let_def)
qed

theorem ParseObus_correct_witness:
  "ParseObus [0x0A, 2, 7, 8, 0x14, 1, 5] 7 = Some [
     \<lparr>ob_header = 0x0A, ob_extension_header = None, ob_payload = [0x0A, 2, 7, 8], ob_size = 4\<rparr>,
     \<lparr>ob_header = 0x14, ob_extension_header = Some 1, ob_payload = [0x14, 1, 5], ob_size = 3\<rparr>] \<and>
   (\<exists>obus. ParseObus [1, 2, 3] 3 = Some obus)"
proof -
  let ?us = "[\<lparr>un_header = 0x0A, un_extension = None, un_body = [7, 8]\<rparr>,
    \<lparr>un_header = 0x14, un_extension = Some 1, un_body = [5]\<rparr>]"
  have b: "concat (map unit_bytes ?us) = [0x0A, 2, 7, 8, 0x14, 1, 5]"
    "map unit_obu ?us = [
     \<lparr>ob_header = 0x0A, ob_extension_header = None, ob_payload = [0x0A, 2, 7, 8], ob_size = 4\<rparr>,
     \<lparr>ob_header = 0x14, ob_extension_header = Some 1, ob_payload = [0x14, 1, 5], ob_size = 3\<rparr>]"
    by (simp_all add: unit_bytes_def unit_obu_def ObuHasSize_def kObuSizePresentBit_def uvarint.simps)
  have "units_ok ?us"
    by (simp add: units_ok_def unit_ok_def ObuHasSize_def ObuHasExtension_def kObuSizePresentBit_def)
  then show ?thesis
    using ParseObus_correct [of 3 "[1, 2, 3]" ?us] unfolding b by (auto simp: Let_def)
qed

end
