(* ===== verification/Av1.thy ===== *)
theory Av1
  imports Packetizer Obu
begin

text \<open>
  AV1 over RTP: the packetizer \<open>src/rtp/rtp_packetizer/rtp_packetizer_av1.{h,cpp}\<close> and the packet
  of the receiving side, \<open>src/rtp/rtp_packet/rtp_packet_av1.{h,cpp}\<close>.

  A frame is split into units, a unit into fragments of at most \<^term>\<open>MAX_NALU_LEN\<close> bytes, and
  each fragment travels behind an aggregation header whose bits say whether the fragment
  continues the previous packet, is continued by the next, and starts a key frame.
\<close>

section \<open>The packetizer\<close>

definition PT_AV1 :: u32 where "PT_AV1 = 99"

record Av1Packetizer =
  av_base :: Packetizer
  av_aggr_header :: byte
  av_current_frame_is_key_frame :: bool

definition new_Av1Packetizer :: "u32 \<Rightarrow> Av1Packetizer" where
  "new_Av1Packetizer ssrc = \<lparr>av_base = new_Packetizer ssrc PT_AV1, av_aggr_header = 0, av_current_frame_is_key_frame = False\<rparr>"

definition SetIsKeyFrame :: "Av1Packetizer \<Rightarrow> bool \<Rightarrow> Av1Packetizer" where
  "SetIsKeyFrame a is_key_frame = a\<lparr>av_current_frame_is_key_frame := is_key_frame\<rparr>"

definition SetAv1AggrHeader :: "Av1Packetizer \<Rightarrow> int \<Rightarrow> int \<Rightarrow> int \<Rightarrow> int \<Rightarrow> Av1Packetizer" where
  "SetAv1AggrHeader a z y w n =
     (let h = 0;
          h = (if z \<noteq> 0 then h OR push_bit 7 1 else h);
          h = (if y \<noteq> 0 then h OR push_bit 6 1 else h);
          h = (if w \<noteq> 0 then h OR push_bit 4 (word_of_int w) else h);
          h = (if n \<noteq> 0 then h OR push_bit 3 1 else h) in
      a\<lparr>av_aggr_header := h\<rparr>)"

definition set_frame :: "Av1Packetizer \<Rightarrow> byte list \<Rightarrow> Av1Packetizer" where
  "set_frame a frame = a\<lparr>av_base := (av_base a)\<lparr>pz_frame := frame\<rparr>\<rparr>"

definition BuildRtpHeader :: "Av1Packetizer \<Rightarrow> bool \<Rightarrow> u32 \<Rightarrow> Av1Packetizer" where
  "BuildRtpHeader a marker rtp_timestamp =
     (let z = av_base a in
      set_frame a (frame_header kRtpVersion False (pz_has_extension z) 0 marker (ucast (pz_payload_type z))
        (pz_sequence_number z) rtp_timestamp (pz_ssrc z) []))"

definition AppendCsrcsAndExtensions :: "Av1Packetizer \<Rightarrow> Av1Packetizer" where
  "AppendCsrcsAndExtensions a =
     (let z = av_base a;
          frame = pz_frame z @ concat (map push32 (take (unat (pz_csrc_count z)) (pz_csrcs z))) in
      set_frame a (if pz_has_extension z then AppendAbsoluteSendTimeExtension z frame else frame))"

text \<open>
  One packet: sequence number, aggregation header, RTP header, data. The packet object is kept
  whether or not it parses.
\<close>

definition av1_emit :: "bool \<Rightarrow> bool \<Rightarrow> bool \<Rightarrow> bool \<Rightarrow> u32 \<Rightarrow> byte list \<Rightarrow>
    RtpPacket list \<times> Av1Packetizer \<Rightarrow> (RtpPacket list \<times> Av1Packetizer) option" where
  "av1_emit is_last z y first rtp_timestamp d s =
     (case s of (ps, a) \<Rightarrow>
       let a = a\<lparr>av_base := (av_base a)\<lparr>pz_sequence_number := pz_sequence_number (av_base a) + 1\<rparr>\<rparr>;
           a = SetAv1AggrHeader a (of_bool z) (of_bool y) 1 (of_bool (av_current_frame_is_key_frame a \<and> first));
           a = AppendCsrcsAndExtensions (BuildRtpHeader a is_last rtp_timestamp);
           a = set_frame a (pz_frame (av_base a) @ [av_aggr_header a] @ d);
           frame = pz_frame (av_base a) in do {
         (ok, p) \<leftarrow> RtpPacket_Build new_RtpPacket frame (length frame);
         Some (ps @ [p], a) })"

definition av1_fragment_step :: "Obu list \<Rightarrow> u32 \<Rightarrow> nat \<Rightarrow> nat \<Rightarrow> nat \<Rightarrow>
    RtpPacket list \<times> Av1Packetizer \<Rightarrow> (RtpPacket list \<times> Av1Packetizer) option" where
  "av1_fragment_step obus rtp_timestamp i packet_num j s =
     (let obu = obus ! i;
          is_last = (i = length obus - 1 \<and> j = packet_num - 1);
          offset = j * MAX_NALU_LEN;
          sz = (if j = packet_num - 1 then ob_size obu - offset else MAX_NALU_LEN) in do {
        d \<leftarrow> seg (ob_payload obu) offset sz;
        av1_emit is_last (i > 0 \<or> j > 0) (\<not> is_last) (i = 0 \<and> j = 0) rtp_timestamp d s })"

definition av1_obu_step :: "Obu list \<Rightarrow> u32 \<Rightarrow> nat \<Rightarrow>
    RtpPacket list \<times> Av1Packetizer \<Rightarrow> (RtpPacket list \<times> Av1Packetizer) option" where
  "av1_obu_step obus rtp_timestamp i s =
     (let obu = obus ! i in
      if ob_size obu \<le> MAX_NALU_LEN then
        let is_last = (i = length obus - 1) in
        av1_emit is_last (i > 0) (\<not> is_last) (i = 0) rtp_timestamp (ob_payload obu) s
      else
        let packet_num = (ob_size obu + MAX_NALU_LEN - 1) div MAX_NALU_LEN in
        foldM (av1_fragment_step obus rtp_timestamp i packet_num) [0..<packet_num] s)"

definition Av1_Build :: "Av1Packetizer \<Rightarrow> byte list \<Rightarrow> nat \<Rightarrow> u32 \<Rightarrow> (RtpPacket list \<times> Av1Packetizer) option" where
  "Av1_Build a payload payload_size rtp_timestamp = do {
     obus \<leftarrow> ParseObus payload (sint (of_nat payload_size :: u32));
     let a = a\<lparr>av_base := (av_base a)\<lparr>pz_has_extension := HasAbsoluteSendTimeExtension (av_base a)\<rparr>\<rparr> in
     foldM (av1_obu_step obus rtp_timestamp) [0..<length obus] ([], a) }"

definition Av1_BuildPadding :: "Av1Packetizer \<Rightarrow> nat \<Rightarrow> u32 \<Rightarrow> RtpPacket list \<times> Av1Packetizer" where
  "Av1_BuildPadding a payload_size rtp_timestamp = ([], a)"

section \<open>The received packet\<close>

record RtpPacketAv1 =
  av1_packet :: RtpPacket
  av1_aggr_header :: byte
  av1_z :: byte
  av1_y :: byte
  av1_w :: byte
  av1_n :: byte

definition new_RtpPacketAv1 :: RtpPacketAv1 where
  "new_RtpPacketAv1 = \<lparr>av1_packet = new_RtpPacket, av1_aggr_header = 0, av1_z = 0, av1_y = 0, av1_w = 0, av1_n = 0\<rparr>"

definition Av1_GetFrameHeaderInfo :: "RtpPacketAv1 \<Rightarrow> (bool \<times> RtpPacketAv1) option" where
  "Av1_GetFrameHeaderInfo q =
     (let p = av1_packet q in
      if rp_payload_size p < 1 then Some (False, q)
      else do {
        h \<leftarrow> rd (rp_buffer p) (rp_payload_offset p);
        Some (True, \<lparr>av1_packet = add_offset_to_payload p 1, av1_aggr_header = h, av1_z = drop_bit 7 h,
          av1_y = drop_bit 6 h AND 1, av1_w = drop_bit 4 h AND 3, av1_n = drop_bit 3 h AND 1\<rparr>) })"

definition Av1FrameStart :: "RtpPacketAv1 \<Rightarrow> bool" where
  "Av1FrameStart q \<longleftrightarrow> av1_z q = 0 \<and> av1_y q = 0 \<and> av1_w q = 1 \<or> av1_z q = 0 \<and> av1_y q = 1 \<and> av1_w q = 1"

definition Av1FrameEnd :: "RtpPacketAv1 \<Rightarrow> bool" where
  "Av1FrameEnd q \<longleftrightarrow> av1_z q = 0 \<and> av1_y q = 0 \<and> av1_w q = 1 \<or> av1_z q = 1 \<and> av1_y q = 0 \<and> av1_w q = 1"

definition Av1_IsKeyFrame :: "RtpPacketAv1 \<Rightarrow> bool" where
  "Av1_IsKeyFrame q \<longleftrightarrow> av1_n q = 1"

definition open_av1 :: "byte list \<Rightarrow> nat \<Rightarrow> (bool \<times> RtpPacketAv1) option" where
  "open_av1 buffer sz = do {
     (ok, p) \<leftarrow> RtpPacket_Build new_RtpPacket buffer sz;
     let q = new_RtpPacketAv1\<lparr>av1_packet := p\<rparr> in
     if ok then Av1_GetFrameHeaderInfo q else Some (False, q) }"

section \<open>One packet\<close>

definition aggr_byte :: "bool \<Rightarrow> bool \<Rightarrow> bool \<Rightarrow> byte" where
  "aggr_byte z y n = (if z then 128 else 0) + (if y then 64 else 0) + 16 + (if n then 8 else 0)"

lemma SetAv1AggrHeader_byte:
  "SetAv1AggrHeader a (of_bool z) (of_bool y) 1 (of_bool n) = a\<lparr>av_aggr_header := aggr_byte z y n\<rparr>"
  by (cases z; cases y; cases n; simp add: SetAv1AggrHeader_def aggr_byte_def)

lemma aggr_byte_bits:
  "drop_bit 7 (aggr_byte z y n) = of_bool z" "drop_bit 6 (aggr_byte z y n) AND 1 = of_bool y"
  "drop_bit 4 (aggr_byte z y n) AND 3 = 1" "drop_bit 3 (aggr_byte z y n) AND 1 = of_bool n"
  by (cases z; cases y; cases n; simp add: aggr_byte_def)+

definition av_ok :: "Av1Packetizer \<Rightarrow> bool" where
  "av_ok a \<longleftrightarrow> pz_ok (av_base a) \<and> pz_payload_type (av_base a) = PT_AV1 \<and> pz_csrcs (av_base a) = []"

text \<open>The members that stay the same while a frame is packetized.\<close>

definition same_stream :: "Av1Packetizer \<Rightarrow> Av1Packetizer \<Rightarrow> bool" where
  "same_stream a b \<longleftrightarrow> pz_ssrc (av_base b) = pz_ssrc (av_base a) \<and> pz_payload_type (av_base b) = pz_payload_type (av_base a) \<and>
     pz_csrcs (av_base b) = pz_csrcs (av_base a) \<and> pz_abs_send_time_ext_id (av_base b) = pz_abs_send_time_ext_id (av_base a) \<and>
     pz_has_extension (av_base b) = (pz_abs_send_time_ext_id (av_base a) \<noteq> None) \<and>
     av_current_frame_is_key_frame b = av_current_frame_is_key_frame a"

lemma av1_emit_built:
  assumes "av_ok a" and "same_stream a b"
  shows "\<exists>p b'. av1_emit is_last z y first ts d (ps, b) = Some (ps @ [p], b') \<and> same_stream a b' \<and>
    pz_sequence_number (av_base b') = pz_sequence_number (av_base b) + 1 \<and> rp_padding_size p = 0 \<and>
    built (av_base a) is_last 99 (pz_sequence_number (av_base b) + 1) ts
      (aggr_byte z y (av_current_frame_is_key_frame a \<and> first) # d) p"
proof -
  let ?eid = "pz_abs_send_time_ext_id (av_base a)" and ?n = "av_current_frame_is_key_frame a \<and> first"
  let ?frame = "frame_header kRtpVersion False (?eid \<noteq> None) 0 is_last 99 (pz_sequence_number (av_base b) + 1) ts
    (pz_ssrc (av_base a)) [] @ send_time_block ?eid [0, 0, 0] @ aggr_byte z y ?n # d"
  obtain p where p: "RtpPacket_Build new_RtpPacket ?frame (length ?frame) = Some (True, p)"
    "holds p is_last 99 (pz_sequence_number (av_base b) + 1) ts (pz_ssrc (av_base a)) (aggr_byte z y ?n # d)"
    "rp_buffer p = ?frame" "rp_padding_size p = 0" "rp_payload_size p = length (aggr_byte z y ?n # d)"
    "rp_payload_offset p = (if ?eid = None then 12 else 20)"
    "rp_extensions p = (case ?eid of None \<Rightarrow> []
       | Some i \<Rightarrow> [\<lparr>ext_id = i, ext_len = 3, ext_data_offset = 17, ext_data = [0, 0, 0]\<rparr>])"
    using Build_frame [where eid = ?eid and t = "[0, 0, 0]" and pt = 99 and hp = False and body = "aggr_byte z y ?n # d"
        and m = is_last and seq = "pz_sequence_number (av_base b) + 1" and ts = ts and ssrc = "pz_ssrc (av_base a)"
        and p = new_RtpPacket] assms(1) by (auto simp: av_ok_def pz_ok_def)
  have l: "length ?frame = (if ?eid = None then 12 else 20) + length (aggr_byte z y ?n # d)"
    by (auto simp: send_time_block_def abs_send_time_bytes_def split: option.split)
  have "plain_frame ?eid (pz_ssrc (av_base a)) is_last 99 (pz_sequence_number (av_base b) + 1) ts (aggr_byte z y ?n # d) p"
    using p(3) by (simp add: plain_frame_def)
  then have b: "built (av_base a) is_last 99 (pz_sequence_number (av_base b) + 1) ts (aggr_byte z y ?n # d) p"
    unfolding built_def using p l by (auto simp del: append_assoc)
  have t: "(ucast PT_AV1 :: byte) = 99" by (simp add: PT_AV1_def)
  have k: "(48862 :: byte) = 222" by simp
  show ?thesis
    using p(1,4) b assms
    by (intro exI [of _ p])
      (auto simp: av1_emit_def Let_def SetAv1AggrHeader_byte BuildRtpHeader_def AppendCsrcsAndExtensions_def set_frame_def
        same_stream_def av_ok_def t send_time_block_def AppendAbsoluteSendTimeExtension_def abs_send_time_bytes_def
        kOneByteExtensionProfileId_def numeral_3_eq_3 k split: option.splits)
qed

section \<open>One frame\<close>

text \<open>The fragments of a frame, by unit and position in the unit.\<close>

definition frag_index :: "Obu list \<Rightarrow> (nat \<times> nat) list" where
  "frag_index obus = concat (map (\<lambda>i. map (Pair i) [0..<packet_count (ob_size (obus ! i))]) [0..<length obus])"

definition frag :: "Obu list \<Rightarrow> nat \<times> nat \<Rightarrow> byte list" where
  "frag obus x = chunk (ob_payload (obus ! fst x)) (ob_size (obus ! fst x)) (snd x)"

definition frag_last :: "Obu list \<Rightarrow> nat \<times> nat \<Rightarrow> bool" where
  "frag_last obus x \<longleftrightarrow> fst x = length obus - 1 \<and> snd x = packet_count (ob_size (obus ! fst x)) - 1"

definition frag_step :: "Obu list \<Rightarrow> u32 \<Rightarrow> nat \<times> nat \<Rightarrow>
    RtpPacket list \<times> Av1Packetizer \<Rightarrow> (RtpPacket list \<times> Av1Packetizer) option" where
  "frag_step obus ts x = av1_emit (frag_last obus x) (x \<noteq> (0, 0)) (\<not> frag_last obus x) (x = (0, 0)) ts (frag obus x)"

lemma foldM_map: "foldM f (map g xs) s = foldM (\<lambda>x. f (g x)) xs s"
  by (induction xs arbitrary: s) (auto intro: Option.bind_cong)

lemma foldM_concat: "foldM f (concat (map g xs)) s = foldM (\<lambda>x. foldM f (g x)) xs s"
  by (induction xs arbitrary: s) (auto simp: foldM_append intro: Option.bind_cong)

lemma packet_count_ceiling: "(n + MAX_NALU_LEN - 1) div MAX_NALU_LEN = packet_count n"
proof -
  define q r where "q = n div MAX_NALU_LEN" and "r = n mod MAX_NALU_LEN"
  have n: "n = q * MAX_NALU_LEN + r" and r: "r < MAX_NALU_LEN" by (simp_all add: q_def r_def MAX_NALU_LEN_def)
  have c: "packet_count n = q + (if r \<noteq> 0 then 1 else 0)" by (simp add: packet_count_def q_def r_def)
  show ?thesis
  proof (cases "r = 0")
    case True
    then show ?thesis unfolding c by (subst n) (simp add: MAX_NALU_LEN_def)
  next
    case False
    then have e: "q * MAX_NALU_LEN + r + MAX_NALU_LEN - 1 = (q + 1) * MAX_NALU_LEN + (r - 1)" by simp
    have "((q + 1) * MAX_NALU_LEN + (r - 1)) div MAX_NALU_LEN = q + 1"
      using r by (intro div_nat_eqI) auto
    with False show ?thesis unfolding c by (subst n) (simp only: e if_True not_False_eq_True)
  qed
qed

lemma packet_count_one: "0 < n \<Longrightarrow> n \<le> MAX_NALU_LEN \<Longrightarrow> packet_count n = 1"
  using packet_count_ceiling [of n] by (simp add: div_nat_eqI MAX_NALU_LEN_def)

lemma packet_count_pos: "0 < n \<Longrightarrow> 0 < packet_count n"
  using packet_count_bounds(1) [of n] by (cases "packet_count n") auto

lemma av1_fragment_chunk:
  assumes "n \<le> length payload" and "j < packet_count n"
  shows "seg payload (j * MAX_NALU_LEN) (if j = packet_count n - 1 then n - j * MAX_NALU_LEN else MAX_NALU_LEN) =
    Some (chunk payload n j)"
proof -
  have b: "n \<le> packet_count n * MAX_NALU_LEN" "(packet_count n - 1) * MAX_NALU_LEN < n"
  proof -
    have "0 < n" using assms(2) by (cases n) (auto simp: packet_count_def)
    then show "n \<le> packet_count n * MAX_NALU_LEN" "(packet_count n - 1) * MAX_NALU_LEN < n"
      by (simp_all only: packet_count_bounds)
  qed
  show ?thesis
  proof (cases "j = packet_count n - 1")
    case True
    then have "n - j * MAX_NALU_LEN \<le> MAX_NALU_LEN" using b(1) assms(2) by (simp add: algebra_simps)
    with True b assms(1) show ?thesis by (simp add: seg_def chunk_def drop_take min_absorb2 min_def)
  next
    case False
    then have "(j + 1) * MAX_NALU_LEN \<le> (packet_count n - 1) * MAX_NALU_LEN"
      using assms(2) by (intro mult_le_mono1) simp
    with b(2) False assms(1) show ?thesis by (auto simp: seg_def chunk_def drop_take min_absorb1)
  qed
qed

lemma av1_obu_step_frags:
  assumes "\<forall>u \<in> set obus. obu_ok u" and "i < length obus"
  shows "av1_obu_step obus ts i s = foldM (frag_step obus ts) (map (Pair i) [0..<packet_count (ob_size (obus ! i))]) s"
proof -
  let ?u = "obus ! i" and ?n = "ob_size (obus ! i)"
  have u: "?n = length (ob_payload ?u)" "0 < ?n" using assms by (auto simp: obu_ok_def)
  show ?thesis
  proof (cases "?n \<le> MAX_NALU_LEN")
    case True
    have "packet_count ?n = 1" using packet_count_one u(2) True .
    moreover from this have "chunk (ob_payload ?u) ?n 0 = ob_payload ?u" using u True by (simp add: chunk_def)
    ultimately show ?thesis
      using True by (simp add: av1_obu_step_def frag_step_def frag_last_def frag_def Let_def foldM_Nil_Some)
  next
    case False
    have "av1_fragment_step obus ts i (packet_count ?n) j s = frag_step obus ts (i, j) s" if "j < packet_count ?n" for j s
      unfolding av1_fragment_step_def Let_def av1_fragment_chunk [OF eq_refl [OF u(1)] that]
      by (simp add: frag_step_def frag_last_def frag_def)
    with False show ?thesis
      unfolding av1_obu_step_def Let_def packet_count_ceiling foldM_map
      by (auto intro!: foldM_cong)
  qed
qed

lemma Av1_frags:
  assumes "\<forall>u \<in> set obus. obu_ok u"
  shows "foldM (av1_obu_step obus ts) [0..<length obus] s = foldM (frag_step obus ts) (frag_index obus) s"
  unfolding frag_index_def foldM_concat using av1_obu_step_frags [OF assms] by (intro foldM_cong) auto

lemma frag_run:
  assumes "av_ok a" and "same_stream a b" and "k \<le> length xs"
  shows "\<exists>ps b'. foldM (frag_step obus ts) (take k xs) ([], b) = Some (ps, b') \<and> length ps = k \<and> same_stream a b' \<and>
    pz_sequence_number (av_base b') = pz_sequence_number (av_base b) + of_nat k \<and>
    (\<forall>i < k. rp_padding_size (ps ! i) = 0 \<and> built (av_base a) (frag_last obus (xs ! i)) 99 (pz_sequence_number (av_base b) + 1 + of_nat i) ts
      (aggr_byte (xs ! i \<noteq> (0, 0)) (\<not> frag_last obus (xs ! i)) (av_current_frame_is_key_frame a \<and> xs ! i = (0, 0)) #
        frag obus (xs ! i)) (ps ! i))"
  using assms(3)
proof (induction k)
  case 0
  then show ?case using assms(2) by simp
next
  case (Suc k)
  then obtain ps b1 where IH: "foldM (frag_step obus ts) (take k xs) ([], b) = Some (ps, b1)" "length ps = k" "same_stream a b1"
    "pz_sequence_number (av_base b1) = pz_sequence_number (av_base b) + of_nat k"
    "\<forall>i < k. rp_padding_size (ps ! i) = 0 \<and> built (av_base a) (frag_last obus (xs ! i)) 99 (pz_sequence_number (av_base b) + 1 + of_nat i) ts
      (aggr_byte (xs ! i \<noteq> (0, 0)) (\<not> frag_last obus (xs ! i)) (av_current_frame_is_key_frame a \<and> xs ! i = (0, 0)) #
        frag obus (xs ! i)) (ps ! i)"
    by auto
  obtain p b2 where p: "frag_step obus ts (xs ! k) (ps, b1) = Some (ps @ [p], b2)" "same_stream a b2"
    "pz_sequence_number (av_base b2) = pz_sequence_number (av_base b1) + 1" "rp_padding_size p = 0"
    "built (av_base a) (frag_last obus (xs ! k)) 99 (pz_sequence_number (av_base b1) + 1) ts
      (aggr_byte (xs ! k \<noteq> (0, 0)) (\<not> frag_last obus (xs ! k)) (av_current_frame_is_key_frame a \<and> xs ! k = (0, 0)) #
        frag obus (xs ! k)) p"
    using av1_emit_built [OF assms(1) IH(3)] unfolding frag_step_def by blast
  have "foldM (frag_step obus ts) (take (Suc k) xs) ([], b) = Some (ps @ [p], b2)"
    using IH(1) p(1) Suc.prems by (simp add: take_Suc_conv_app_nth)
  moreover have "\<forall>i < Suc k. rp_padding_size ((ps @ [p]) ! i) = 0 \<and> built (av_base a) (frag_last obus (xs ! i)) 99 (pz_sequence_number (av_base b) + 1 + of_nat i) ts
      (aggr_byte (xs ! i \<noteq> (0, 0)) (\<not> frag_last obus (xs ! i)) (av_current_frame_is_key_frame a \<and> xs ! i = (0, 0)) #
        frag obus (xs ! i)) ((ps @ [p]) ! i)"
    using IH(2,4,5) p(4,5) by (auto simp: nth_append less_Suc_eq ac_simps)
  ultimately show ?case
    using IH(2,4) p(2,3) by (intro exI [of _ "ps @ [p]"] exI [of _ b2]) (simp add: ac_simps)
qed

lemma concat_map_concat: "concat (map f (concat xss)) = concat (map (\<lambda>xs. concat (map f xs)) xss)"
  by (induction xss) auto

lemma frag_index_facts:
  assumes "\<forall>u \<in> set obus. obu_ok u" and "obus \<noteq> []"
  defines "xs \<equiv> frag_index obus"
  shows "xs \<noteq> []" "\<And>k. k < length xs \<Longrightarrow> xs ! k = (0, 0) \<longleftrightarrow> k = 0"
    "\<And>k. k < length xs \<Longrightarrow> frag_last obus (xs ! k) \<longleftrightarrow> k = length xs - 1"
    "concat (map (frag obus) xs) = concat (map ob_payload obus)"
proof -
  let ?c = "\<lambda>i. packet_count (ob_size (obus ! i))" and ?m = "length obus"
  let ?l = "(?m - 1, ?c (?m - 1) - 1)"
  have c: "0 < ?c i" "ob_size (obus ! i) = length (ob_payload (obus ! i))" if "i < ?m" for i
    using assms(1) that by (auto simp: obu_ok_def intro: packet_count_pos)
  have m: "0 < ?m" using assms(2) by simp
  have "x = y" if "x < ?m" "y < ?m" "map (Pair x) [0..<?c x] = map (Pair y) [0..<?c y]" for x y
    using arg_cong [OF that(3), of hd] c(1) [OF that(1)] c(1) [OF that(2)] by (simp add: hd_map)
  then have d: "distinct xs"
    unfolding xs_def frag_index_def
    by (intro distinct_concat) (auto simp: distinct_map inj_on_def)
  have r: "[0..<?m] = 0 # [1..<?m]" "[0..<?m] = [0..<?m - 1] @ [?m - 1]" "[0..<?c 0] = 0 # [1..<?c 0]"
    "[0..<?c (?m - 1)] = [0..<?c (?m - 1) - 1] @ [?c (?m - 1) - 1]"
    using c(1) [of 0] c(1) [of "?m - 1"] m
    by (simp_all add: upt_conv_Cons upt_Suc_append [symmetric] Suc_diff_1 del: upt_Suc_append)
  have "\<exists>ys. xs = (0, 0) # ys" unfolding xs_def frag_index_def by (subst r(1)) (simp add: r(3))
  then show ne: "xs \<noteq> []" and h: "\<And>k. k < length xs \<Longrightarrow> xs ! k = (0, 0) \<longleftrightarrow> k = 0"
    using nth_eq_iff_index_eq [OF d, of _ 0] by auto
  have "\<exists>ys. xs = ys @ [?l]" unfolding xs_def frag_index_def
    by (subst r(2)) (simp only: map_append list.map concat_append concat.simps append_Nil2 r(4), simp)
  then have l: "xs ! k = ?l \<longleftrightarrow> k = length xs - 1" if "k < length xs" for k
    using d that ne nth_eq_iff_index_eq [OF d, of k "length xs - 1"] by (auto simp: last_conv_nth [symmetric])
  show "frag_last obus (xs ! k) \<longleftrightarrow> k = length xs - 1" if "k < length xs" for k
  proof -
    have "frag_last obus (xs ! k) \<longleftrightarrow> xs ! k = ?l" by (cases "xs ! k") (auto simp: frag_last_def)
    with l [OF that] show ?thesis by simp
  qed
  have mc: "map (frag obus) (map (Pair i) [0..<?c i]) = map (chunk (ob_payload (obus ! i)) (ob_size (obus ! i))) [0..<?c i]" for i
    by (simp add: frag_def)
  have "concat (map (frag obus) (map (Pair i) [0..<?c i])) = ob_payload (obus ! i)" if "i < ?m" for i
    unfolding mc concat_chunk using c(2) [OF that] by simp
  then have "concat (map (frag obus) xs) = concat (map (\<lambda>i. ob_payload (obus ! i)) [0..<?m])"
    unfolding xs_def frag_index_def concat_map_concat map_map
    by (intro arg_cong [where f = concat] map_cong) (auto simp: comp_def)
  also have "map (\<lambda>i. ob_payload (obus ! i)) [0..<?m] = map ob_payload obus"
    by (intro nth_equalityI) auto
  finally show "concat (map (frag obus) xs) = concat (map ob_payload obus)" .
qed

section \<open>Transmission\<close>

lemma open_av1_built:
  assumes "built z m 99 seq ts (aggr_byte c y n # d) p" and "length d < 2 ^ 63"
  shows "\<exists>q. open_av1 (rp_buffer p) (length (rp_buffer p)) = Some (True, q) \<and> Payload (av1_packet q) = Some d \<and>
    rp_sequence_number (av1_packet q) = seq \<and> rp_timestamp (av1_packet q) = ts \<and> rp_ssrc (av1_packet q) = pz_ssrc z \<and>
    (Av1FrameStart q \<longleftrightarrow> \<not> c) \<and> (Av1FrameEnd q \<longleftrightarrow> \<not> y) \<and> (Av1_IsKeyFrame q \<longleftrightarrow> n)"
proof -
  have p: "Payload p = Some (aggr_byte c y n # d)" "RtpPacket_Build new_RtpPacket (rp_buffer p) (length (rp_buffer p)) = Some (True, p)"
    "rp_sequence_number p = seq" "rp_timestamp p = ts" "rp_ssrc p = pz_ssrc z"
    using built_fields [OF assms(1)] by simp_all
  have "rd (rp_buffer p) (rp_payload_offset p) = Some (aggr_byte c y n)" using Payload_rd [OF p(1), of 0] by simp
  moreover have "Payload (add_offset_to_payload p 1) = Some d" using Payload_add_offset [OF p(1), of 1] assms(2) by simp
  ultimately show ?thesis
    using p(2-5) Payload_size [OF p(1)]
    by (auto simp: open_av1_def Av1_GetFrameHeaderInfo_def Let_def Av1FrameStart_def Av1FrameEnd_def Av1_IsKeyFrame_def
        aggr_byte_bits add_offset_to_payload_def)
qed

text \<open>What packet \<open>i\<close> of a frame of \<open>c\<close> packets is, to its receiver.\<close>

definition av1_view :: "Av1Packetizer \<Rightarrow> u32 \<Rightarrow> nat \<Rightarrow> nat \<Rightarrow> byte list \<Rightarrow> RtpPacket \<Rightarrow> RtpPacketAv1 \<Rightarrow> bool" where
  "av1_view a ts c i d p q \<longleftrightarrow> length (rp_buffer p) \<le> 1171 \<and> (rp_marker p \<longleftrightarrow> i = c - 1) \<and>
     open_av1 (rp_buffer p) (length (rp_buffer p)) = Some (True, q) \<and> Payload (av1_packet q) = Some d \<and>
     rp_sequence_number (av1_packet q) = pz_sequence_number (av_base a) + 1 + of_nat i \<and>
     rp_timestamp (av1_packet q) = ts \<and> rp_ssrc (av1_packet q) = pz_ssrc (av_base a) \<and>
     (Av1FrameStart q \<longleftrightarrow> i = 0) \<and> (Av1FrameEnd q \<longleftrightarrow> i = c - 1) \<and>
     (Av1_IsKeyFrame q \<longleftrightarrow> av_current_frame_is_key_frame a \<and> i = 0)"

lemma Av1_Build_run:
  assumes "av_ok a" and "ParseObus payload (sint (of_nat n :: u32)) = Some obus" and "\<forall>u \<in> set obus. obu_ok u" and "obus \<noteq> []"
  shows "\<exists>ps a' qs. Av1_Build a payload n ts = Some (ps, a') \<and> ps \<noteq> [] \<and> length qs = length ps \<and>
    pz_sequence_number (av_base a') = pz_sequence_number (av_base a) + of_nat (length ps) \<and>
    (\<forall>i < length ps. \<exists>d. av1_view a ts (length ps) i d (ps ! i) (qs ! i)) \<and>
    concat (map (\<lambda>q. the (Payload (av1_packet q))) qs) = concat (map ob_payload obus)"
proof -
  let ?b = "a\<lparr>av_base := (av_base a)\<lparr>pz_has_extension := HasAbsoluteSendTimeExtension (av_base a)\<rparr>\<rparr>"
    and ?xs = "frag_index obus"
  note F = frag_index_facts [OF assms(3,4)]
  have "same_stream a ?b" by (simp add: same_stream_def HasAbsoluteSendTimeExtension_def)
  then obtain ps b' where ps: "foldM (frag_step obus ts) (take (length ?xs) ?xs) ([], ?b) = Some (ps, b')" "length ps = length ?xs"
    "pz_sequence_number (av_base b') = pz_sequence_number (av_base ?b) + of_nat (length ?xs)"
    "\<forall>i < length ?xs. rp_padding_size (ps ! i) = 0 \<and> built (av_base a) (frag_last obus (?xs ! i)) 99 (pz_sequence_number (av_base ?b) + 1 + of_nat i) ts
      (aggr_byte (?xs ! i \<noteq> (0, 0)) (\<not> frag_last obus (?xs ! i)) (av_current_frame_is_key_frame a \<and> ?xs ! i = (0, 0)) #
        frag obus (?xs ! i)) (ps ! i)"
    using frag_run [OF assms(1), of ?b "length ?xs" ?xs obus ts] by blast
  have each: "\<exists>q. av1_view a ts (length ps) i (frag obus (?xs ! i)) (ps ! i) q" if "i < length ps" for i
  proof -
    have i: "i < length ?xs" using that ps(2) by simp
    have pad: "rp_padding_size (ps ! i) = 0" and b: "built (av_base a) (i = length ps - 1) 99 (pz_sequence_number (av_base a) + 1 + of_nat i) ts
      (aggr_byte (i \<noteq> 0) (i \<noteq> length ps - 1) (av_current_frame_is_key_frame a \<and> i = 0) # frag obus (?xs ! i)) (ps ! i)"
      using ps(2) ps(4) [rule_format, OF i] unfolding F(2,3) [OF i] by simp_all
    have l: "length (frag obus (?xs ! i)) \<le> MAX_NALU_LEN" using chunk_length by (simp add: frag_def)
    have "length (rp_buffer (ps ! i)) \<le> 1171"
      using pad b l by (auto simp: built_def MAX_NALU_LEN_def split: if_splits)
    then show ?thesis
      using open_av1_built [OF b] l built_fields [OF b] by (auto simp: av1_view_def MAX_NALU_LEN_def)
  qed
  then obtain f where f: "\<And>i. i < length ps \<Longrightarrow> av1_view a ts (length ps) i (frag obus (?xs ! i)) (ps ! i) (f i)" by metis
  let ?qs = "map f [0..<length ps]"
  have "map (\<lambda>q. the (Payload (av1_packet q))) ?qs = map (frag obus) ?xs"
    using f ps(2) by (intro nth_equalityI) (auto simp: av1_view_def)
  then have "concat (map (\<lambda>q. the (Payload (av1_packet q))) ?qs) = concat (map ob_payload obus)"
    using F(4) by simp
  moreover have "Av1_Build a payload n ts = Some (ps, b')"
    using assms(2) ps(1) by (simp add: Av1_Build_def Av1_frags [OF assms(3)])
  moreover have "ps \<noteq> []" using ps(2) F(1) by auto
  ultimately show ?thesis
    using ps(2,3) f by (intro exI [of _ ps] exI [of _ b'] exI [of _ ?qs]) auto
qed

section \<open>Properties\<close>

text \<open>
  C11: AV1 transmission. A frame that encodes a non-empty list of AV1 units is sent as packets of at
  most 1171 bytes with consecutive sequence numbers and the marker on the last. The receiver parses
  every packet; the start flag is on the first packet only, the end flag on the last only, the
  key-frame flag on the first packet of a key frame only, and the fragments in order are exactly
  the frame.
\<close>

theorem Av1_Build_transmission:
  assumes "av_ok a" and "units_ok us" and "us \<noteq> []" and "length (concat (map unit_bytes us)) < 2 ^ 31"
  defines "frame \<equiv> concat (map unit_bytes us)"
  shows "\<exists>ps a' qs. Av1_Build a frame (length frame) ts = Some (ps, a') \<and> ps \<noteq> [] \<and> length qs = length ps \<and>
    pz_sequence_number (av_base a') = pz_sequence_number (av_base a) + of_nat (length ps) \<and>
    (\<forall>i < length ps. length (rp_buffer (ps ! i)) \<le> 1171 \<and> (rp_marker (ps ! i) \<longleftrightarrow> i = length ps - 1) \<and>
      open_av1 (rp_buffer (ps ! i)) (length (rp_buffer (ps ! i))) = Some (True, qs ! i) \<and>
      rp_sequence_number (av1_packet (qs ! i)) = pz_sequence_number (av_base a) + 1 + of_nat i \<and>
      rp_timestamp (av1_packet (qs ! i)) = ts \<and> rp_ssrc (av1_packet (qs ! i)) = pz_ssrc (av_base a) \<and>
      Payload (av1_packet (qs ! i)) \<noteq> None \<and> (Av1FrameStart (qs ! i) \<longleftrightarrow> i = 0) \<and>
      (Av1FrameEnd (qs ! i) \<longleftrightarrow> i = length ps - 1) \<and>
      (Av1_IsKeyFrame (qs ! i) \<longleftrightarrow> av_current_frame_is_key_frame a \<and> i = 0)) \<and>
    concat (map (\<lambda>q. the (Payload (av1_packet q))) qs) = frame"
proof -
  have s: "sint (of_nat (length frame) :: u32) = int (length frame)"
    using assms(4) by (simp add: frame_def signed_of_nat signed_take_bit_int_eq_self)
  have P: "ParseObus frame (sint (of_nat (length frame) :: u32)) = Some (map unit_obu us)"
    unfolding s unfolding frame_def by (rule ParseObus_units [OF assms(2,4)])
  have ok: "\<forall>u \<in> set (map unit_obu us). obu_ok u" by (auto simp: obu_ok_def unit_obu_def unit_bytes_def)
  have f: "concat (map ob_payload (map unit_obu us)) = frame" by (simp add: frame_def unit_obu_def comp_def)
  obtain ps a' qs where "Av1_Build a frame (length frame) ts = Some (ps, a')" "ps \<noteq> []" "length qs = length ps"
    "pz_sequence_number (av_base a') = pz_sequence_number (av_base a) + of_nat (length ps)"
    "\<forall>i < length ps. \<exists>d. av1_view a ts (length ps) i d (ps ! i) (qs ! i)"
    "concat (map (\<lambda>q. the (Payload (av1_packet q))) qs) = frame"
    using Av1_Build_run [OF assms(1) P ok, of ts] assms(3) unfolding f by auto
  then show ?thesis
    by (intro exI [of _ ps] exI [of _ a'] exI [of _ qs]) (auto simp: av1_view_def)
qed

theorem Av1_Build_transmission_witness:
  "\<exists>ps a' qs. Av1_Build (SetIsKeyFrame (new_Av1Packetizer 7) True) [0x0A, 2, 7, 8] 4 90 = Some (ps, a') \<and>
    ps \<noteq> [] \<and> concat (map (\<lambda>q. the (Payload (av1_packet q))) qs) = [0x0A, 2, 7, 8] \<and>
    (\<forall>i < length ps. Av1_IsKeyFrame (qs ! i) \<longleftrightarrow> i = 0)"
proof -
  let ?us = "[\<lparr>un_header = 0x0A, un_extension = None, un_body = [7, 8]\<rparr>]"
    and ?a = "SetIsKeyFrame (new_Av1Packetizer 7) True"
  have b: "concat (map unit_bytes ?us) = [0x0A, 2, 7, 8]"
    by (simp add: unit_bytes_def ObuHasSize_def kObuSizePresentBit_def uvarint.simps)
  have l: "length [0x0A :: byte, 2, 7, 8] = 4" by simp
  have "units_ok ?us"
    by (simp add: units_ok_def unit_ok_def ObuHasSize_def ObuHasExtension_def kObuSizePresentBit_def)
  moreover have "av_ok ?a" "av_current_frame_is_key_frame ?a"
    by (simp_all add: av_ok_def SetIsKeyFrame_def new_Av1Packetizer_def new_Packetizer_ok) (simp add: new_Packetizer_def)
  ultimately show ?thesis
    using Av1_Build_transmission [of ?a ?us 90] unfolding b l by simp blast
qed

end
