(* ===== verification/Clock.thy ===== *)
theory Clock
  imports SeqNum Units
begin

text \<open>
  Clocks and media time: \<open>src/common/clock/system_clock.{h,cpp}\<close> (NTP conversions) and
  \<open>src/rtp/rtp_packet/rtp_timestamp.h\<close> (RTP timestamp generators and the mapper of the receiver).

  The operating system's time sources are arguments: \<open>mono_ns\<close> and \<open>utc_ns\<close> are what the two
  sources return at the call. \<open>int64_t\<close> values are integers; an overflow, undefined in the
  source, would need times beyond 290000 years. Conversions to unsigned types wrap as in the source.
\<close>

section \<open>The system clock\<close>

definition kMicrosecondsPerSecond :: int where "kMicrosecondsPerSecond = 1000000"
definition kNanosecondsPerSecond :: int where "kNanosecondsPerSecond = 1000000000"
definition kNtpEpochOffsetSeconds :: int where "kNtpEpochOffsetSeconds = 2208988800"
definition kNtpFractionalUnit :: int where "kNtpFractionalUnit = 2 ^ 32"

record SystemClock =
  monotonic_to_utc_offset_us :: int

definition CurrentTimeUs :: "int \<Rightarrow> int" where "CurrentTimeUs mono_ns = mono_ns sdiv 1000"
definition CurrentTimeMs :: "int \<Rightarrow> int" where "CurrentTimeMs mono_ns = mono_ns sdiv 1000000"
definition CurrentUtcTimeUs :: "int \<Rightarrow> int" where "CurrentUtcTimeUs utc_ns = utc_ns sdiv 1000"
definition CurrentUtcTimeMs :: "int \<Rightarrow> int" where "CurrentUtcTimeMs utc_ns = utc_ns sdiv 1000000"
definition CurrentUtcTime :: "int \<Rightarrow> int" where "CurrentUtcTime utc_ns = utc_ns sdiv kNanosecondsPerSecond"

definition new_SystemClock :: "int \<Rightarrow> int \<Rightarrow> SystemClock" where
  "new_SystemClock mono_ns utc_ns = \<lparr>monotonic_to_utc_offset_us = CurrentUtcTimeUs utc_ns - CurrentTimeUs mono_ns\<rparr>"

definition UtcTimeUsToNtp :: "int \<Rightarrow> u64" where
  "UtcTimeUsToNtp utc_time_us =
     (let unix_seconds = utc_time_us sdiv kMicrosecondsPerSecond;
          microseconds = utc_time_us smod kMicrosecondsPerSecond;
          (unix_seconds, microseconds) = (if microseconds < 0
            then (unix_seconds - 1, microseconds + kMicrosecondsPerSecond) else (unix_seconds, microseconds));
          ntp_seconds = (word_of_int (unix_seconds + kNtpEpochOffsetSeconds) :: u32);
          ntp_fractions = (word_of_int (microseconds * kNtpFractionalUnit mod 2 ^ 64 div kMicrosecondsPerSecond) :: u32) in
      push_bit 32 (ucast ntp_seconds) OR ucast ntp_fractions)"

definition MonotonicTimeUsToNtp :: "SystemClock \<Rightarrow> int \<Rightarrow> u64" where
  "MonotonicTimeUsToNtp c monotonic_time_us = UtcTimeUsToNtp (monotonic_time_us + monotonic_to_utc_offset_us c)"

definition CurrentNtpTime :: "SystemClock \<Rightarrow> int \<Rightarrow> u64" where
  "CurrentNtpTime c mono_ns = MonotonicTimeUsToNtp c (CurrentTimeUs mono_ns)"

definition NtpToUtcTimeUs :: "int \<Rightarrow> u64 \<Rightarrow> int" where
  "NtpToUtcTimeUs utc_ns ntp_time =
     (let ntp_seconds = (ucast (drop_bit 32 ntp_time) :: u32);
          ntp_fractions = (ucast ntp_time :: u32);
          current_ntp_seconds = CurrentUtcTimeUs utc_ns sdiv kMicrosecondsPerSecond + kNtpEpochOffsetSeconds;
          current_era = current_ntp_seconds div 2 ^ 32;
          expanded = push_bit 32 current_era OR uint ntp_seconds;
          kNtpEraSeconds = 2 ^ 32;
          expanded = (if expanded - current_ntp_seconds > kNtpEraSeconds sdiv 2 then expanded - kNtpEraSeconds
            else if current_ntp_seconds - expanded > kNtpEraSeconds sdiv 2 then expanded + kNtpEraSeconds
            else expanded);
          fractional_us = (uint ntp_fractions * kMicrosecondsPerSecond + kNtpFractionalUnit div 2) mod 2 ^ 64
            div kNtpFractionalUnit in
      (expanded - kNtpEpochOffsetSeconds) * kMicrosecondsPerSecond + fractional_us)"

definition NtpToMonotonicTimeUs :: "SystemClock \<Rightarrow> int \<Rightarrow> u64 \<Rightarrow> int" where
  "NtpToMonotonicTimeUs c utc_ns ntp_time = NtpToUtcTimeUs utc_ns ntp_time - monotonic_to_utc_offset_us c"

definition CompactNtp :: "u64 \<Rightarrow> u32" where
  "CompactNtp ntp_time = push_bit 16 (ucast (drop_bit 32 ntp_time)) OR drop_bit 16 (ucast ntp_time)"

definition CompactNtpIntervalToMilliseconds :: "u32 \<Rightarrow> int" where
  "CompactNtpIntervalToMilliseconds interval = (uint interval * 1000 + 2 ^ 16 div 2) div 2 ^ 16"

definition NtpToAbsoluteSendTime :: "u64 \<Rightarrow> u32" where
  "NtpToAbsoluteSendTime ntp_time = ucast (drop_bit (32 - 18) ntp_time) AND 0x00FFFFFF"

section \<open>RTP timestamps\<close>

definition kRtpTimestampMicrosecondsPerSecond :: int where "kRtpTimestampMicrosecondsPerSecond = 1000000"

definition RtpTicksToMicroseconds :: "int \<Rightarrow> u32 \<Rightarrow> int" where
  "RtpTicksToMicroseconds ticks clock_rate =
     (if clock_rate = 0 then 0
      else (ticks sdiv uint clock_rate) * kRtpTimestampMicrosecondsPerSecond +
        (ticks smod uint clock_rate) * kRtpTimestampMicrosecondsPerSecond sdiv uint clock_rate)"

definition ExtrapolateRtpTimestamp :: "u32 \<Rightarrow> int \<Rightarrow> int \<Rightarrow> u32 \<Rightarrow> u32" where
  "ExtrapolateRtpTimestamp anchor_rtp_timestamp anchor_time_us target_time_us clock_rate =
     (let elapsed_us = target_time_us - anchor_time_us;
          absolute_elapsed_us = (if elapsed_us \<ge> 0 then elapsed_us else - (elapsed_us + 1) + 1) mod 2 ^ 64;
          elapsed_ticks = (absolute_elapsed_us div kRtpTimestampMicrosecondsPerSecond * uint clock_rate +
            absolute_elapsed_us mod kRtpTimestampMicrosecondsPerSecond * uint clock_rate
              div kRtpTimestampMicrosecondsPerSecond) mod 2 ^ 64 in
      if elapsed_us \<ge> 0 then anchor_rtp_timestamp + word_of_int elapsed_ticks
      else anchor_rtp_timestamp - word_of_int elapsed_ticks)"

record RtpTimestampGenerator =
  tg_clock_rate :: u32
  tg_base_timestamp :: u32
  tg_first_capture_time_us :: "int option"

definition new_RtpTimestampGenerator :: "u32 \<Rightarrow> u32 \<Rightarrow> RtpTimestampGenerator" where
  "new_RtpTimestampGenerator clock_rate base_timestamp =
     \<lparr>tg_clock_rate = clock_rate, tg_base_timestamp = base_timestamp, tg_first_capture_time_us = None\<rparr>"

definition TimestampForTimeUsLocked :: "RtpTimestampGenerator \<Rightarrow> int \<Rightarrow> int \<Rightarrow> u32" where
  "TimestampForTimeUsLocked g first time_us =
     (if time_us - first \<le> 0 then tg_base_timestamp g
      else ExtrapolateRtpTimestamp (tg_base_timestamp g) first time_us (tg_clock_rate g))"

definition TimestampForCaptureTimeUs :: "RtpTimestampGenerator \<Rightarrow> int \<Rightarrow> u32 \<times> RtpTimestampGenerator" where
  "TimestampForCaptureTimeUs g capture_time_us =
     (case tg_first_capture_time_us g of
        None \<Rightarrow> (tg_base_timestamp g, g\<lparr>tg_first_capture_time_us := Some capture_time_us\<rparr>)
      | Some first \<Rightarrow> (TimestampForTimeUsLocked g first capture_time_us, g))"

definition TimestampForPaddingTimeUs :: "RtpTimestampGenerator \<Rightarrow> int \<Rightarrow> u32" where
  "TimestampForPaddingTimeUs g time_us =
     (case tg_first_capture_time_us g of None \<Rightarrow> tg_base_timestamp g
      | Some first \<Rightarrow> TimestampForTimeUsLocked g first time_us)"

record RtpSampleTimestampGenerator =
  sg_base_timestamp :: u32
  sg_sample_count :: u64
  sg_first_capture_time_us :: "int option"

definition kOpusRtpClockRate :: u32 where "kOpusRtpClockRate = 48000"

definition new_RtpSampleTimestampGenerator :: "u32 \<Rightarrow> RtpSampleTimestampGenerator" where
  "new_RtpSampleTimestampGenerator base_timestamp =
     \<lparr>sg_base_timestamp = base_timestamp, sg_sample_count = 0, sg_first_capture_time_us = None\<rparr>"

definition NextTimestamp :: "RtpSampleTimestampGenerator \<Rightarrow> u32 \<Rightarrow> int \<Rightarrow> (u32 \<times> int) \<times> RtpSampleTimestampGenerator" where
  "NextTimestamp g samples_per_channel capture_time_us =
     (let first = (case sg_first_capture_time_us g of None \<Rightarrow> capture_time_us | Some t \<Rightarrow> t);
          timestamp = sg_base_timestamp g + ucast (sg_sample_count g);
          media_time_us = first + RtpTicksToMicroseconds (sint (sg_sample_count g)) kOpusRtpClockRate in
      ((timestamp, media_time_us),
       g\<lparr>sg_sample_count := sg_sample_count g + ucast samples_per_channel, sg_first_capture_time_us := Some first\<rparr>))"

record TimestampUnwrapper =
  tu_last_timestamp :: "u32 option"
  tu_last_unwrapped_timestamp :: int

definition TimestampUnwrapper_Unwrap :: "TimestampUnwrapper \<Rightarrow> u32 \<Rightarrow> int \<times> TimestampUnwrapper" where
  "TimestampUnwrapper_Unwrap w timestamp =
     (case tu_last_timestamp w of
        None \<Rightarrow> (uint timestamp, \<lparr>tu_last_timestamp = Some timestamp, tu_last_unwrapped_timestamp = uint timestamp\<rparr>)
      | Some l \<Rightarrow>
        let wrapped_delta = timestamp - l;
            delta = (if wrapped_delta \<le> 0x7fffffff then uint wrapped_delta else uint wrapped_delta - 2 ^ 32);
            u = tu_last_unwrapped_timestamp w + delta in
        (u, \<lparr>tu_last_timestamp = Some timestamp, tu_last_unwrapped_timestamp = u\<rparr>))"

definition TimestampUnwrapper_Reset :: "TimestampUnwrapper \<Rightarrow> TimestampUnwrapper" where
  "TimestampUnwrapper_Reset w = \<lparr>tu_last_timestamp = None, tu_last_unwrapped_timestamp = 0\<rparr>"

record RtpTimestampMapper =
  tm_clock_rate :: u32
  tm_unwrapper :: TimestampUnwrapper
  tm_first_unwrapped_timestamp :: "int option"
  tm_first_local_time_us :: int
  tm_sender_report_unwrapped_timestamp :: "int option"
  tm_sender_report_local_time_us :: int

definition new_RtpTimestampMapper :: "u32 \<Rightarrow> RtpTimestampMapper" where
  "new_RtpTimestampMapper clock_rate = \<lparr>tm_clock_rate = clock_rate,
     tm_unwrapper = \<lparr>tu_last_timestamp = None, tu_last_unwrapped_timestamp = 0\<rparr>, tm_first_unwrapped_timestamp = None,
     tm_first_local_time_us = 0, tm_sender_report_unwrapped_timestamp = None, tm_sender_report_local_time_us = 0\<rparr>"

definition ToLocalTimeUs :: "RtpTimestampMapper \<Rightarrow> u32 \<Rightarrow> int \<Rightarrow> int \<times> RtpTimestampMapper" where
  "ToLocalTimeUs m rtp_timestamp arrival_time_us =
     (let (unwrapped_timestamp, w) = TimestampUnwrapper_Unwrap (tm_unwrapper m) rtp_timestamp;
          m = m\<lparr>tm_unwrapper := w\<rparr> in
      case tm_sender_report_unwrapped_timestamp m of
        Some s \<Rightarrow> (tm_sender_report_local_time_us m + RtpTicksToMicroseconds (unwrapped_timestamp - s) (tm_clock_rate m), m)
      | None \<Rightarrow>
        (case tm_first_unwrapped_timestamp m of
           None \<Rightarrow> (arrival_time_us, m\<lparr>tm_first_unwrapped_timestamp := Some unwrapped_timestamp,
             tm_first_local_time_us := arrival_time_us\<rparr>)
         | Some f \<Rightarrow> (tm_first_local_time_us m + RtpTicksToMicroseconds (unwrapped_timestamp - f) (tm_clock_rate m), m)))"

definition UpdateFromSenderReport :: "RtpTimestampMapper \<Rightarrow> u32 \<Rightarrow> int \<Rightarrow> RtpTimestampMapper" where
  "UpdateFromSenderReport m rtp_timestamp sender_report_local_time_us =
     (let (u, w) = TimestampUnwrapper_Unwrap (tm_unwrapper m) rtp_timestamp in
      m\<lparr>tm_unwrapper := w, tm_sender_report_unwrapped_timestamp := Some u,
        tm_sender_report_local_time_us := sender_report_local_time_us\<rparr>)"

definition Mapper_Reset :: "RtpTimestampMapper \<Rightarrow> RtpTimestampMapper" where
  "Mapper_Reset m = m\<lparr>tm_unwrapper := TimestampUnwrapper_Reset (tm_unwrapper m), tm_first_unwrapped_timestamp := None,
     tm_first_local_time_us := 0, tm_sender_report_unwrapped_timestamp := None, tm_sender_report_local_time_us := 0\<rparr>"

section \<open>NTP\<close>

lemmas clock_consts = kMicrosecondsPerSecond_def kNanosecondsPerSecond_def kNtpEpochOffsetSeconds_def
  kNtpFractionalUnit_def kRtpTimestampMicrosecondsPerSecond_def

lemma floor_split:
  fixes t :: int
  shows "(let s = t sdiv 1000000; m = t smod 1000000 in if m < 0 then (s - 1, m + 1000000) else (s, m)) =
    (t div 1000000, t mod 1000000)"
proof (cases "0 \<le> t")
  case True
  then show ?thesis by (simp add: sdiv_pos smod_pos Let_def)
next
  case False
  have s: "t sdiv 1000000 = - (- t div 1000000)" "t smod 1000000 = - (- t mod 1000000)"
    using False by (simp_all add: sdiv_neg smod_neg)
  define q r where "q = - t div 1000000" and "r = - t mod 1000000"
  have "- t = q * 1000000 + r" by (simp only: q_def r_def div_mult_mod_eq)
  then have t: "t = 1000000 * (- q) + - r" by simp
  have r: "0 \<le> r" "r < 1000000" by (simp_all add: r_def)
  show ?thesis
  proof (cases "r = 0")
    case True
    then have "t div 1000000 = - q" "t mod 1000000 = 0" using t by simp_all
    with True show ?thesis unfolding s q_def [symmetric] r_def [symmetric] by simp
  next
    case False
    have e: "t = 1000000 * (- q - 1) + (1000000 - r)" using t by simp
    have "t div 1000000 = - q - 1" "t mod 1000000 = 1000000 - r"
      using int_div_pos_eq [OF e] int_mod_pos_eq [OF e] r False by simp_all
    with False r show ?thesis unfolding s q_def [symmetric] r_def [symmetric] by (simp add: Let_def)
  qed
qed

lemma era_expand:
  fixes s cur :: int
  assumes "\<bar>s - cur\<bar> < 2 ^ 31"
  shows "(let e = cur div 2 ^ 32 * 2 ^ 32 + s mod 2 ^ 32 in
      if e - cur > 2 ^ 31 then e - 2 ^ 32 else if cur - e > 2 ^ 31 then e + 2 ^ 32 else e) = s"
proof -
  define a r b q where "a = s div 2 ^ 32" and "r = s mod 2 ^ 32" and "b = cur div 2 ^ 32" and "q = cur mod 2 ^ 32"
  have s: "s = a * 2 ^ 32 + r" and c: "cur = b * 2 ^ 32 + q" by (simp_all add: a_def r_def b_def q_def)
  have r: "0 \<le> r" "r < 2 ^ 32" "0 \<le> q" "q < 2 ^ 32" by (simp_all add: r_def q_def)
  have "a = b - 1 \<or> a = b \<or> a = b + 1" using assms r unfolding s c by auto
  then show ?thesis
    unfolding Let_def a_def [symmetric] r_def [symmetric] b_def [symmetric]
    using assms r unfolding s c by auto
qed

lemma fraction_roundtrip:
  fixes us :: int
  assumes "0 \<le> us" and "us < 1000000"
  shows "((us * 2 ^ 32 div 1000000) * 1000000 + 2 ^ 31) div 2 ^ 32 = us" "0 \<le> us * 2 ^ 32 div 1000000"
    "us * 2 ^ 32 div 1000000 < 2 ^ 32"
proof -
  define f r where "f = us * 2 ^ 32 div 1000000" and "r = us * 2 ^ 32 mod 1000000"
  have "us * 2 ^ 32 = f * 1000000 + r" by (simp only: f_def r_def div_mult_mod_eq)
  moreover have "0 \<le> r" "r < 1000000" by (simp_all add: r_def)
  ultimately have f: "us * 2 ^ 32 = f * 1000000 + r" "0 \<le> r" "r < 1000000" .
  then have e: "f * 1000000 + 2 ^ 31 = 2 ^ 32 * us + (2 ^ 31 - r)" by simp
  have "(f * 1000000 + 2 ^ 31) div 2 ^ 32 = us" by (rule int_div_pos_eq [OF e]) (use f(2,3) in simp_all)
  moreover have "0 \<le> f" using assms(1) by (simp add: f_def pos_imp_zdiv_nonneg_iff)
  moreover have "f < 2 ^ 32" using f assms(2) by simp
  ultimately show "((us * 2 ^ 32 div 1000000) * 1000000 + 2 ^ 31) div 2 ^ 32 = us" "0 \<le> us * 2 ^ 32 div 1000000"
    "us * 2 ^ 32 div 1000000 < 2 ^ 32"
    by (simp_all only: f_def)
qed

lemma hi_lo_split:
  fixes a b :: u32
  shows "ucast (drop_bit 32 (push_bit 32 (ucast a) OR ucast b :: u64)) = a" "ucast (push_bit 32 (ucast a) OR ucast b :: u64) = b"
  by (rule bit_word_eqI; auto simp: bit_simps dest: bit_imp_le_length)+

lemma era_or:
  fixes e :: int and s :: u32
  shows "push_bit 32 e OR uint s = e * 2 ^ 32 + uint s"
proof -
  have "uint s < 2 ^ 32" using uint_bounded [of s] by simp
  then have t: "take_bit 32 (uint s) = uint s" by (simp add: take_bit_int_eq_self)
  have "push_bit 32 e + uint s = push_bit 32 e OR uint s"
    by (rule disjunctive_add) (subst t [symmetric], auto simp: bit_simps)
  then show ?thesis by (simp add: push_bit_eq_mult)
qed

lemma UtcTimeUsToNtp_parts:
  "UtcTimeUsToNtp t = push_bit 32 (ucast (word_of_int (t div 1000000 + kNtpEpochOffsetSeconds) :: u32)) OR
     ucast (word_of_int (t mod 1000000 * 2 ^ 32 div 1000000) :: u32)"
proof -
  have m: "0 \<le> t mod 1000000" "t mod 1000000 < 1000000" by simp_all
  then have "t mod 1000000 * 2 ^ 32 < 2 ^ 64" by simp
  with m(1) have "t mod 1000000 * 2 ^ 32 mod 2 ^ 64 = t mod 1000000 * 2 ^ 32" by simp
  then show ?thesis
    unfolding UtcTimeUsToNtp_def clock_consts floor_split [of t, unfolded Let_def] Let_def prod.case by (simp only:)
qed

lemma ntp_roundtrip_utc:
  assumes "\<bar>t div 1000000 - CurrentUtcTimeUs utc_ns sdiv 1000000\<bar> < 2 ^ 31"
  shows "NtpToUtcTimeUs utc_ns (UtcTimeUsToNtp t) = t"
proof -
  define us where "us = t mod 1000000"
  let ?s = "t div 1000000 + kNtpEpochOffsetSeconds" and ?f = "us * 2 ^ 32 div 1000000"
  let ?cur = "CurrentUtcTimeUs utc_ns sdiv 1000000 + kNtpEpochOffsetSeconds"
  have us: "0 \<le> us" "us < 1000000" by (simp_all add: us_def)
  note fr = fraction_roundtrip [OF us]
  have sec: "uint (word_of_int ?s :: u32) = ?s mod 2 ^ 32" by (simp add: uint_word_of_int del: of_int_add)
  have frac: "uint (word_of_int ?f :: u32) = ?f" using fr(2,3) by (simp add: uint_word_of_int)
  have small: "(?f * 1000000 + 2 ^ 32 div 2) mod 2 ^ 64 = ?f * 1000000 + 2 ^ 31" using fr(2,3) by simp
  have two: "(2 ^ 32 :: int) sdiv 2 = 2 ^ 31" by simp
  have e: "(let e = ?cur div 2 ^ 32 * 2 ^ 32 + ?s mod 2 ^ 32 in
      if e - ?cur > 2 ^ 31 then e - 2 ^ 32 else if ?cur - e > 2 ^ 31 then e + 2 ^ 32 else e) = ?s"
    by (rule era_expand) (use assms in simp)
  have "NtpToUtcTimeUs utc_ns (UtcTimeUsToNtp t) = (?s - kNtpEpochOffsetSeconds) * 1000000 + us"
    unfolding NtpToUtcTimeUs_def UtcTimeUsToNtp_parts us_def [symmetric] Let_def hi_lo_split era_or sec frac
      kMicrosecondsPerSecond_def kNtpFractionalUnit_def small two fr(1) e [unfolded Let_def] ..
  also have "\<dots> = t" by (simp add: us_def)
  finally show ?thesis .
qed

section \<open>Ticks\<close>

lemma split_scale:
  fixes e r m :: int
  assumes "0 < m"
  shows "e div m * r + (e mod m * r) div m = e * r div m"
proof -
  have "e * r = (e div m * r) * m + e mod m * r"
    by (metis (no_types, lifting) distrib_right div_mult_mod_eq mult.assoc mult.commute)
  then have "e * r div m = ((e div m * r) * m + e mod m * r) div m" by simp
  then show ?thesis using assms by simp
qed

lemma RtpTicksToMicroseconds_trunc:
  assumes "rate \<noteq> 0"
  shows "RtpTicksToMicroseconds ticks rate = ticks * 1000000 sdiv uint rate"
proof -
  have r: "0 < uint rate" using assms by (simp add: word_greater_zero_iff [symmetric] word_less_def)
  have pos: "x sdiv uint rate * 1000000 + x smod uint rate * 1000000 sdiv uint rate = x * 1000000 sdiv uint rate" if "0 \<le> x" for x
    using that r split_scale [OF r, of x 1000000] by (simp add: sdiv_pos smod_pos)
  show ?thesis
    using pos [of ticks] pos [of "- ticks"] assms by (cases "0 \<le> ticks") (auto simp: RtpTicksToMicroseconds_def clock_consts)
qed

lemma ExtrapolateRtpTimestamp_ticks:
  assumes "0 \<le> t - a"
  shows "ExtrapolateRtpTimestamp anchor a t rate = anchor + word_of_int ((t - a) mod 2 ^ 64 * uint rate div 1000000)"
proof -
  have w: "(word_of_int (x mod 2 ^ 64) :: u32) = word_of_int x" for x
    by (rule word_of_int_eq_iff [THEN iffD2]) (simp add: take_bit_eq_mod mod_mod_cancel)
  show ?thesis
    using assms split_scale [of 1000000 "(t - a) mod 2 ^ 64" "uint rate"]
    unfolding ExtrapolateRtpTimestamp_def Let_def clock_consts w by simp
qed

section \<open>The timeline of a stream\<close>

fun stamp_all :: "RtpTimestampGenerator \<Rightarrow> int list \<Rightarrow> u32 list" where
  "stamp_all g [] = []"
| "stamp_all g (c # cs) = (let (t, g) = TimestampForCaptureTimeUs g c in t # stamp_all g cs)"

fun local_all :: "RtpTimestampMapper \<Rightarrow> (u32 \<times> int) list \<Rightarrow> int list" where
  "local_all m [] = []"
| "local_all m ((t, a) # xs) = (let (l, m) = ToLocalTimeUs m t a in l # local_all m xs)"

definition ticks_of :: "u32 \<Rightarrow> int \<Rightarrow> int" where
  "ticks_of rate us = us * uint rate div 1000000"

lemma stamp_all_run:
  assumes "tg_first_capture_time_us g = Some c0" and "\<forall>c \<in> set cs. c0 \<le> c \<and> c - c0 < 2 ^ 64"
  shows "stamp_all g cs = map (\<lambda>c. tg_base_timestamp g + word_of_int (ticks_of (tg_clock_rate g) (c - c0))) cs"
  using assms(2)
proof (induction cs)
  case (Cons c cs)
  have "TimestampForTimeUsLocked g c0 c = tg_base_timestamp g + word_of_int (ticks_of (tg_clock_rate g) (c - c0))"
    using ExtrapolateRtpTimestamp_ticks [of c c0 "tg_base_timestamp g" "tg_clock_rate g"] Cons.prems
    by (auto simp: TimestampForTimeUsLocked_def ticks_of_def)
  with Cons assms(1) show ?case by (simp add: TimestampForCaptureTimeUs_def)
qed simp

lemma Unwrap_near:
  assumes "tu_last_timestamp w = Some (base + word_of_int k)" and "tu_last_unwrapped_timestamp w = un + k"
    and "\<bar>k' - k\<bar> < 2 ^ 31"
  shows "TimestampUnwrapper_Unwrap w (base + word_of_int k') =
    (un + k', \<lparr>tu_last_timestamp = Some (base + word_of_int k'), tu_last_unwrapped_timestamp = un + k'\<rparr>)"
proof -
  define d where "d = k' - k"
  have d: "base + word_of_int k' - (base + word_of_int k) = (word_of_int d :: u32)"
    by (simp add: d_def)
  have u: "uint (word_of_int d :: u32) = d mod 2 ^ 32" by (simp add: uint_word_of_int)
  have le: "(word_of_int d :: u32) \<le> 0x7fffffff \<longleftrightarrow> d mod 2 ^ 32 \<le> 0x7fffffff"
    unfolding word_le_def u by simp
  have D: "(if (word_of_int d :: u32) \<le> 0x7fffffff then uint (word_of_int d :: u32) else uint (word_of_int d :: u32) - 2 ^ 32) = d"
  proof (cases "0 \<le> d")
    case True
    then have "d mod 2 ^ 32 = d" using assms(3) by (simp add: d_def)
    with True assms(3) show ?thesis unfolding le u by (simp add: d_def)
  next
    case False
    then have "d mod 2 ^ 32 = d + 2 ^ 32" using assms(3) by (intro int_mod_pos_eq [of _ _ "- 1"]) (simp_all add: d_def)
    with False assms(3) show ?thesis unfolding le u by (simp add: d_def)
  qed
  show ?thesis
    unfolding TimestampUnwrapper_Unwrap_def assms(1,2) option.case Let_def d D by (simp add: d_def)
qed

lemma local_all_run:
  assumes "tm_sender_report_unwrapped_timestamp m = None" and "tm_first_unwrapped_timestamp m = Some un"
    and "tu_last_timestamp (tm_unwrapper m) = Some (base + word_of_int k)" and "tu_last_unwrapped_timestamp (tm_unwrapper m) = un + k"
    and "near_run (2 ^ 31) k ks" and "length as = length ks"
  shows "local_all m (zip (map (\<lambda>k. base + word_of_int k) ks) as) =
    map (\<lambda>k. tm_first_local_time_us m + RtpTicksToMicroseconds k (tm_clock_rate m)) ks"
  using assms
proof (induction ks arbitrary: m k as)
  case (Cons k' ks)
  then obtain a as' where as: "as = a # as'" "length as' = length ks" by (cases as) auto
  let ?m = "m\<lparr>tm_unwrapper := \<lparr>tu_last_timestamp = Some (base + word_of_int k'), tu_last_unwrapped_timestamp = un + k'\<rparr>\<rparr>"
  have "ToLocalTimeUs m (base + word_of_int k') a =
      (tm_first_local_time_us m + RtpTicksToMicroseconds k' (tm_clock_rate m), ?m)"
    using Unwrap_near [OF Cons.prems(3,4), of k'] Cons.prems(1,2,5) by (simp add: ToLocalTimeUs_def)
  moreover have "local_all ?m (zip (map (\<lambda>k. base + word_of_int k) ks) as') =
      map (\<lambda>k. tm_first_local_time_us ?m + RtpTicksToMicroseconds k (tm_clock_rate ?m)) ks"
    using Cons.prems as(2) by (intro Cons.IH [where k = k']) auto
  ultimately show ?case by (simp add: as(1))
qed simp

lemma ticks_error:
  fixes x :: int
  assumes "rate \<noteq> 0" and "0 \<le> x"
  defines "l \<equiv> RtpTicksToMicroseconds (ticks_of rate x) rate"
  shows "l \<le> x \<and> x - l \<le> 1000000 div uint rate + 1"
proof -
  define R k where "R = uint rate" and "k = ticks_of rate x"
  have R: "0 < R" using assms(1) by (simp add: R_def word_greater_zero_iff [symmetric] word_less_def)
  have k: "k * 1000000 \<le> x * R" "x * R < k * 1000000 + 1000000" "0 \<le> k"
    using R assms(2) pos_mod_bound [of 1000000 "x * R"] pos_mod_sign [of 1000000 "x * R"] div_mult_mod_eq [of "x * R" 1000000]
    by (simp_all add: k_def ticks_of_def R_def pos_imp_zdiv_nonneg_iff) 
  have l: "l = k * 1000000 div R"
    unfolding l_def RtpTicksToMicroseconds_trunc [OF assms(1)] R_def k_def [symmetric]
    using k(3) R by (simp add: sdiv_pos R_def)
  have lR: "l * R \<le> k * 1000000" "k * 1000000 < l * R + R"
  proof -
    have "k * 1000000 = l * R + k * 1000000 mod R" by (simp only: l div_mult_mod_eq)
    then show "l * R \<le> k * 1000000" "k * 1000000 < l * R + R"
      using R pos_mod_bound [of R "k * 1000000"] pos_mod_sign [of R "k * 1000000"] by linarith+
  qed
  have "l * R \<le> x * R" using lR(1) k(1) by simp
  then have "l \<le> x" using R by simp
  moreover have "(x - l - 1) * R < 1000000" using lR(2) k(2) by (simp add: algebra_simps)
  then have "x - l - 1 \<le> 1000000 div R"
    using R zdiv_mono1 [of "(x - l - 1) * R" 1000000 R] by simp
  ultimately show ?thesis by (simp add: R_def)
qed

section \<open>Properties\<close>

text \<open>
  NTP conversions. The time of a clock, converted to an NTP timestamp and back, is exact to the
  microsecond in every NTP era, as long as it is within 68 years of the local wall clock; the
  compact form and the absolute send time are the bits of the timestamp that the protocols say; and
  a compact interval converts to the nearest millisecond.
\<close>

theorem ntp_roundtrip:
  "(\<bar>(t + monotonic_to_utc_offset_us c) div 1000000 - CurrentUtcTimeUs utc_ns sdiv 1000000\<bar> < 2 ^ 31 \<longrightarrow>
      NtpToMonotonicTimeUs c utc_ns (MonotonicTimeUsToNtp c t) = t) \<and>
   CompactNtp ntp = ucast (drop_bit 16 ntp) \<and>
   NtpToAbsoluteSendTime ntp = ucast (take_bit 24 (drop_bit 14 ntp)) \<and>
   2 * \<bar>CompactNtpIntervalToMilliseconds interval * 2 ^ 16 - uint interval * 1000\<bar> \<le> 2 ^ 16"
proof (intro conjI impI)
  assume "\<bar>(t + monotonic_to_utc_offset_us c) div 1000000 - CurrentUtcTimeUs utc_ns sdiv 1000000\<bar> < 2 ^ 31"
  then show "NtpToMonotonicTimeUs c utc_ns (MonotonicTimeUsToNtp c t) = t"
    by (simp add: NtpToMonotonicTimeUs_def MonotonicTimeUsToNtp_def ntp_roundtrip_utc)
next
  show "CompactNtp ntp = ucast (drop_bit 16 ntp)"
    unfolding CompactNtp_def by (rule bit_word_eqI) (auto simp: bit_simps)
next
  have m: "(0x00FFFFFF :: u32) = mask 24" by (simp add: mask_eq_exp_minus_1)
  show "NtpToAbsoluteSendTime ntp = ucast (take_bit 24 (drop_bit 14 ntp))"
    unfolding NtpToAbsoluteSendTime_def m by (rule bit_word_eqI) (auto simp: bit_simps)
next
  define x m r where "x = uint interval * 1000 + 2 ^ 15" and "m = x div 2 ^ 16" and "r = x mod 2 ^ 16"
  have "x = m * 2 ^ 16 + r" "0 \<le> r" "r < 2 ^ 16" by (simp_all add: m_def r_def)
  moreover have "CompactNtpIntervalToMilliseconds interval = m"
    by (simp add: CompactNtpIntervalToMilliseconds_def m_def x_def)
  ultimately show "2 * \<bar>CompactNtpIntervalToMilliseconds interval * 2 ^ 16 - uint interval * 1000\<bar> \<le> 2 ^ 16"
    by (simp add: x_def)
qed

theorem ntp_roundtrip_witness:
  "NtpToMonotonicTimeUs (new_SystemClock 0 5000000000) 1700000000000000000
     (MonotonicTimeUsToNtp (new_SystemClock 0 5000000000) 1699999990000007) = 1699999990000007"
  using ntp_roundtrip [of 1699999990000007 "new_SystemClock 0 5000000000" 1700000000000000000 0 0]
  by (simp add: new_SystemClock_def CurrentUtcTimeUs_def CurrentTimeUs_def)

text \<open>
  C13: the media timeline. Capture times stamped by the sender's generator and mapped by the
  receiver before any sender report come out, relative to the first frame's arrival, as the capture
  times relative to the first capture, never late and early by at most one clock tick and a
  microsecond, across any number of wraps of the 32-bit timestamp, provided frames that follow each
  other at the receiver are less than \<open>2^31\<close> ticks apart. Arrival times of later frames have no
  influence.
\<close>

theorem media_timeline:
  fixes rate base :: u32 and c0 a0 :: int and cs arrivals :: "int list"
  assumes "rate \<noteq> 0" and "\<forall>c \<in> set cs. c0 \<le> c \<and> c - c0 < 2 ^ 64"
    and "near_run (2 ^ 31) 0 (map (\<lambda>c. (c - c0) * uint rate div 1000000) cs)" and "length arrivals = length cs"
  defines "ls \<equiv> local_all (new_RtpTimestampMapper rate)
    (zip (stamp_all (new_RtpTimestampGenerator rate base) (c0 # cs)) (a0 # arrivals))"
  shows "length ls = Suc (length cs) \<and> ls ! 0 = a0 \<and>
    (\<forall>i < length cs. ls ! Suc i \<le> a0 + (cs ! i - c0) \<and> a0 + (cs ! i - c0) - ls ! Suc i \<le> 1000000 div uint rate + 1)"
proof -
  let ?g = "(new_RtpTimestampGenerator rate base)\<lparr>tg_first_capture_time_us := Some c0\<rparr>"
  let ?m = "(new_RtpTimestampMapper rate)\<lparr>tm_unwrapper := \<lparr>tu_last_timestamp = Some base, tu_last_unwrapped_timestamp = uint base\<rparr>,
    tm_first_unwrapped_timestamp := Some (uint base), tm_first_local_time_us := a0\<rparr>"
  let ?ks = "map (\<lambda>c. ticks_of rate (c - c0)) cs"
  have g: "stamp_all (new_RtpTimestampGenerator rate base) (c0 # cs) = base # map (\<lambda>k. base + word_of_int k) ?ks"
    using stamp_all_run [of ?g c0 cs] assms(2) by (simp add: TimestampForCaptureTimeUs_def new_RtpTimestampGenerator_def comp_def)
  have "ls = a0 # local_all ?m (zip (map (\<lambda>k. base + word_of_int k) ?ks) arrivals)"
    unfolding ls_def g by (simp add: ToLocalTimeUs_def new_RtpTimestampMapper_def TimestampUnwrapper_Unwrap_def)
  also have "local_all ?m (zip (map (\<lambda>k. base + word_of_int k) ?ks) arrivals) =
      map (\<lambda>k. tm_first_local_time_us ?m + RtpTicksToMicroseconds k (tm_clock_rate ?m)) ?ks"
    using assms(3,4) by (intro local_all_run [where k = 0 and un = "uint base"]) (simp_all add: new_RtpTimestampMapper_def ticks_of_def)
  finally have ls: "ls = a0 # map (\<lambda>c. a0 + RtpTicksToMicroseconds (ticks_of rate (c - c0)) rate) cs"
    by (simp add: new_RtpTimestampMapper_def comp_def)
  have "RtpTicksToMicroseconds (ticks_of rate (cs ! i - c0)) rate \<le> cs ! i - c0 \<and>
      cs ! i - c0 - RtpTicksToMicroseconds (ticks_of rate (cs ! i - c0)) rate \<le> 1000000 div uint rate + 1" if "i < length cs" for i
    using ticks_error [OF assms(1), of "cs ! i - c0"] assms(2) that by simp
  then show ?thesis unfolding ls by (auto simp: algebra_simps)
qed

theorem media_timeline_witness:
  "let ls = local_all (new_RtpTimestampMapper 90000)
      (zip (stamp_all (new_RtpTimestampGenerator 90000 4294967290) [100, 33433, 66766]) [500, 40000, 70000]) in
    length ls = 3 \<and> ls ! 0 = 500 \<and> ls ! 1 \<le> 33833 \<and> 33833 - ls ! 1 \<le> 12"
  using media_timeline [of 90000 "[33433, 66766]" 100 "[40000, 70000]" 4294967290 500] by (auto simp: Let_def)

end
