(* ===== verification/RtcpPacket.thy ===== *)
theory RtcpPacket
  imports ByteIO
begin

text \<open>
  The RTCP common header and the base class of the RTCP packets:
  \<open>src/rtcp/rtcp_packet/rtcp_common_header.{h,cpp}\<close> and \<open>rtcp_packet.{h,cpp}\<close>.

  A pointer into a received buffer (\<open>payload_\<close>) is the suffix of the buffer it points to. A
  packet under construction is a \<open>wstate\<close>: the buffer \<open>packet\<close>, the write position \<open>*index\<close>
  and, as a trace, the datagrams handed to the \<open>PacketReadyCallback\<close> so far.
  \<open>LOG_FATAL\<close> only logs; the code goes on after it, and so does the model.
\<close>

section \<open>Common header\<close>

definition kHeaderSizeBytes :: nat where "kHeaderSizeBytes = 4"

record RtcpCommonHeader =
  hdr_packet_type :: byte
  hdr_count_or_format :: byte
  hdr_padding_size :: byte
  hdr_payload_size :: u32
  hdr_payload :: "byte list"

definition new_header :: RtcpCommonHeader where
  "new_header = \<lparr>hdr_packet_type = 0, hdr_count_or_format = 0, hdr_padding_size = 0,
     hdr_payload_size = 0, hdr_payload = []\<rparr>"

definition payload_size_bytes :: "RtcpCommonHeader \<Rightarrow> nat" where
  "payload_size_bytes h = unat (hdr_payload_size h)"

definition packet_size :: "RtcpCommonHeader \<Rightarrow> nat" where
  "packet_size h = kHeaderSizeBytes + unat (hdr_payload_size h) + unat (hdr_padding_size h)"

text \<open>\<open>NextPacket\<close>: the rest of a compound packet; \<open>None\<close> when the pointer leaves the buffer.\<close>

definition NextPacket :: "RtcpCommonHeader \<Rightarrow> byte list option" where
  "NextPacket h =
     (let n = unat (hdr_payload_size h) + unat (hdr_padding_size h) in
      if n \<le> length (hdr_payload h) then Some (drop n (hdr_payload h)) else None)"

text \<open>
  \<open>RtcpCommonHeader::Create\<close> with a non-null buffer; the operands of the shifts are promoted to
  \<open>int\<close> and the result is truncated to the byte.
\<close>

definition RtcpCommonHeader_Create ::
  "byte \<Rightarrow> byte \<Rightarrow> byte \<Rightarrow> byte \<Rightarrow> u16 \<Rightarrow> byte list \<Rightarrow> (nat \<times> byte list) option" where
  "RtcpCommonHeader_Create version has_padding count_or_format payload_type length_in_words_minus_one buffer = do {
     b0 \<leftarrow> wr buffer 0 (push_bit 6 version OR push_bit 5 has_padding OR count_or_format);
     b1 \<leftarrow> wr b0 1 payload_type;
     b2 \<leftarrow> wr b1 2 (ucast (drop_bit 8 length_in_words_minus_one AND 0xFF));
     b3 \<leftarrow> wr b2 3 (ucast (length_in_words_minus_one AND 0xFF));
     Some (4, b3) }"

definition RtcpCommonHeader_Parse ::
  "RtcpCommonHeader \<Rightarrow> byte list \<Rightarrow> nat \<Rightarrow> (bool \<times> RtcpCommonHeader) option" where
  "RtcpCommonHeader_Parse h buffer size_bytes =
     (if size_bytes < kHeaderSizeBytes then Some (False, h)
      else do {
        x0 \<leftarrow> rd buffer 0;
        if drop_bit 6 x0 \<noteq> 2 then Some (False, h)
        else do {
          x1 \<leftarrow> rd buffer 1;
          x2 \<leftarrow> rd buffer 2;
          x3 \<leftarrow> rd buffer 3;
          let has_padding = x0 AND 0x20 \<noteq> 0;
              payload_size = (push_bit 8 (ucast x2) OR ucast x3) * 4 :: u32;
              payload = drop kHeaderSizeBytes buffer;
              h = h\<lparr>hdr_count_or_format := x0 AND 0x1F, hdr_packet_type := x1,
                    hdr_payload_size := payload_size, hdr_payload := payload,
                    hdr_padding_size := 0\<rparr> in
          if size_bytes < kHeaderSizeBytes + unat payload_size then Some (False, h)
          else if has_padding then
            (if payload_size = 0 then Some (False, h)
             else do {
               padding_size \<leftarrow> rd payload (unat (payload_size - 1));
               let h = h\<lparr>hdr_padding_size := padding_size\<rparr> in
               if padding_size = 0 then Some (False, h)
               else if ucast padding_size > payload_size then Some (False, h)
               else Some (True, h\<lparr>hdr_payload_size := payload_size - ucast padding_size\<rparr>) })
          else Some (True, h) } })"

section \<open>The base class of the packets\<close>

definition kHeaderLength :: nat where "kHeaderLength = 4"

record wstate =
  w_packet :: "byte list"
  w_index :: nat
  w_ready :: "byte list list"

text \<open>
  \<open>OnBufferFull\<close>: hands the first \<open>*index\<close> bytes to the callback. The callback is called with
  a pointer into the buffer, so \<open>*index\<close> beyond it would be a read out of bounds.
\<close>

definition OnBufferFull :: "wstate \<Rightarrow> (bool \<times> wstate) option" where
  "OnBufferFull s =
     (if w_index s = 0 then Some (False, s)
      else do {
        datagram \<leftarrow> seg (w_packet s) 0 (w_index s);
        Some (True, s\<lparr>w_ready := w_ready s @ [datagram], w_index := 0\<rparr>) })"

text \<open>\<open>HeaderLength\<close>; the error value \<open>-1\<close> is converted to \<open>size_t\<close>.\<close>

definition HeaderLength :: "nat \<Rightarrow> nat" where
  "HeaderLength BlockLength =
     (let length_in_bytes = BlockLength in
      if length_in_bytes \<le> 0 then 2 ^ 64 - 1
      else if length_in_bytes mod 4 \<noteq> 0 then 2 ^ 64 - 1
      else size_sub length_in_bytes kHeaderLength div 4)"

definition CreateHeader :: "nat \<Rightarrow> byte \<Rightarrow> nat \<Rightarrow> bool \<Rightarrow> byte list \<Rightarrow> nat \<Rightarrow> (byte list \<times> nat) option" where
  "CreateHeader count_or_format packet_type len padding buffer pos =
    (let kVersionBits = push_bit 6 2 :: byte;
         padding_bit = if padding then push_bit 5 1 else 0 in do {
     b0 \<leftarrow> wr buffer (pos + 0) (kVersionBits OR padding_bit OR of_nat count_or_format);
     b1 \<leftarrow> wr b0 (pos + 1) packet_type;
     b2 \<leftarrow> wr b1 (pos + 2) (of_nat (drop_bit 8 len AND 0xff));
     b3 \<leftarrow> wr b2 (pos + 3) (of_nat (len AND 0xff));
     Some (b3, pos + kHeaderLength) })"

section \<open>The bytes of a header\<close>

text \<open>The four bytes \<open>CreateHeader\<close> writes, when count and length fit their fields.\<close>

definition header_bytes :: "nat \<Rightarrow> byte \<Rightarrow> nat \<Rightarrow> bool \<Rightarrow> byte list" where
  "header_bytes count pt len padding =
     [push_bit 6 2 OR (if padding then push_bit 5 1 else 0) OR of_nat count, pt,
      of_nat (drop_bit 8 len AND 0xff), of_nat (len AND 0xff)]"

lemma header_bytes_length [simp]: "length (header_bytes c pt len p) = 4"
  by (simp add: header_bytes_def)

lemma CreateHeader_put:
  "CreateHeader c pt len padding b pos =
     map_option (\<lambda>b'. (b', pos + kHeaderLength)) (put b pos (header_bytes c pt len padding))"
  by (simp add: CreateHeader_def Let_def header_bytes_def wr_put put_put_bind
      map_conv_bind_option comp_def)

lemma byte_fields:
  assumes "c < (32 :: byte)"
  shows "drop_bit 6 (push_bit 6 2 OR (if p then push_bit 5 1 else 0) OR c) = (2 :: byte)"
    and "(push_bit 6 2 OR (if p then push_bit 5 1 else 0) OR c) AND 0x1F = c"
    and "(push_bit 6 2 OR (if p then push_bit 5 1 else 0) OR c) AND 0x20 \<noteq> 0 \<longleftrightarrow> p"
proof -
  have c: "\<not> bit c n" if "5 \<le> n" for n
  proof -
    have "c = take_bit 5 c" using assms
      by (simp add: word_unat_eq_iff word_less_nat_alt unsigned_take_bit_eq take_bit_nat_eq_self)
    then show ?thesis using that by (metis bit_take_bit_iff not_less)
  qed
  show "drop_bit 6 (push_bit 6 2 OR (if p then push_bit 5 1 else 0) OR c) = (2 :: byte)"
    by (rule bit_word_eqI) (auto simp: bit_simps c numeral_eq_Suc elim!: less_SucE)
  show "(push_bit 6 2 OR (if p then push_bit 5 1 else 0) OR c) AND 0x1F = c"
    by (rule bit_word_eqI) (auto simp: bit_simps c numeral_eq_Suc elim!: less_SucE)
  have "bit ((push_bit 6 2 OR (if p then push_bit 5 1 else 0) OR c) AND 0x20) 5 = p"
    using c [of 5] by (simp add: bit_simps)
  moreover have "\<not> p \<Longrightarrow> (push_bit 6 2 OR (if p then push_bit 5 1 else 0) OR c) AND 0x20 = 0"
    by (rule bit_word_eqI) (auto simp: bit_simps c numeral_eq_Suc elim!: less_SucE)
  ultimately show "(push_bit 6 2 OR (if p then push_bit 5 1 else 0) OR c) AND 0x20 \<noteq> 0 \<longleftrightarrow> p"
    by (metis bit_0_eq bot_apply bot_bool_def)
qed

lemma length_field:
  assumes "len < 65536"
  shows "push_bit 8 (ucast (of_nat (drop_bit 8 len AND 0xff) :: byte)) OR
    ucast (of_nat (len AND 0xff) :: byte) = (of_nat len :: u32)"
proof (rule bit_word_eqI)
  fix n
  assume "n < LENGTH(32)"
  have ff: "(255 :: nat) = mask 8" by (simp add: mask_eq_exp_minus_1)
  have big: "\<not> bit len n" if "16 \<le> n"
  proof -
    have "take_bit 16 len = len" using assms by (simp add: take_bit_nat_eq_self)
    then show ?thesis using that by (metis bit_take_bit_iff not_less)
  qed
  show "bit (push_bit 8 (ucast (of_nat (drop_bit 8 len AND 0xff) :: byte)) OR
      ucast (of_nat (len AND 0xff) :: byte) :: u32) n = bit (of_nat len :: u32) n"
    using \<open>n < LENGTH(32)\<close> big
    by (cases "n < 8"; cases "n < 16") (auto simp: bit_simps ff bit_of_nat_iff)
qed

lemma unat_times4: "len < 65536 \<Longrightarrow> unat (of_nat len * 4 :: u32) = 4 * len"
  by (simp add: unat_word_ariths unat_of_nat take_bit_nat_eq_self)

text \<open>The length field as the parser reads it.\<close>

lemma payload_size_bound:
  "unat ((push_bit 8 (ucast (x :: byte)) OR ucast (y :: byte)) * 4 :: u32) mod 4 = 0"
proof -
  define v where "v = (push_bit 8 (ucast x) OR ucast y :: u32)"
  have "take_bit 16 v = v"
    by (rule bit_word_eqI) (auto simp: v_def bit_simps dest: bit_imp_le_length)
  then have "take_bit 16 (unat v) = unat v" by (metis unsigned_take_bit_eq)
  then have "unat v < 2 ^ 16" by (metis take_bit_nat_less_exp)
  then have "unat (v * 4) = unat v * 4" by (simp add: unat_word_ariths)
  then show ?thesis unfolding v_def [symmetric] by simp
qed

section \<open>Parsing\<close>

lemma Parse_total:
  assumes "size_bytes \<le> length buffer"
  shows "\<exists>ok h'. RtcpCommonHeader_Parse h buffer size_bytes = Some (ok, h')"
proof (cases "size_bytes < 4")
  case False
  define ps where "ps = ((push_bit 8 (ucast (buffer ! 2)) OR ucast (buffer ! 3)) * 4 :: u32)"
  have "unat (ps - 1) < length buffer - 4" if "4 + unat ps \<le> size_bytes" "ps \<noteq> 0"
  proof -
    have "unat (ps - 1) = unat ps - 1" "0 < unat ps"
      using that(2) by (simp_all add: unat_minus_one unat_gt_0)
    with that(1) assms show ?thesis by linarith
  qed
  moreover have "rd buffer 0 = Some (buffer ! 0)" "rd buffer 1 = Some (buffer ! 1)"
    "rd buffer 2 = Some (buffer ! 2)" "rd buffer 3 = Some (buffer ! 3)"
    using False assms by (auto simp: rd_def)
  ultimately show ?thesis
    by (auto simp: RtcpCommonHeader_Parse_def kHeaderSizeBytes_def Let_def ps_def [symmetric])
qed (auto simp: RtcpCommonHeader_Parse_def kHeaderSizeBytes_def)

text \<open>
  parsing a common header reads only inside the received bytes, whatever they are. On
  success the described packet, padding included, lies inside the datagram, its size is a
  positive multiple of four bytes, and \<open>NextPacket\<close> points at what follows it: a loop over a
  compound packet makes progress and stays in bounds.
\<close>

theorem RtcpCommonHeader_Parse_safe:
  assumes "size_bytes \<le> length buffer"
  shows "\<exists>ok h'. RtcpCommonHeader_Parse h buffer size_bytes = Some (ok, h') \<and>
    (ok \<longrightarrow> hdr_payload h' = drop 4 buffer \<and> 4 \<le> packet_size h' \<and> packet_size h' mod 4 = 0 \<and>
      packet_size h' \<le> size_bytes \<and> NextPacket h' = Some (drop (packet_size h') buffer) \<and>
      hdr_count_or_format h' < 32)"
proof -
  obtain ok h' where P: "RtcpCommonHeader_Parse h buffer size_bytes = Some (ok, h')"
    using Parse_total [OF assms] by blast
  define ps where "ps = ((push_bit 8 (ucast (buffer ! 2)) OR ucast (buffer ! 3)) * 4 :: u32)"
  have m: "unat ps mod 4 = 0" by (simp add: ps_def payload_size_bound)
  have cnt: "x AND 0x1F < (32 :: byte)" for x :: byte
    using word_and_le1 [of x "0x1F"] by (simp add: word_less_nat_alt word_le_nat_alt)
  have "hdr_payload h' = drop 4 buffer \<and> unat (hdr_payload_size h') + unat (hdr_padding_size h') = unat ps
      \<and> 4 + unat ps \<le> size_bytes \<and> hdr_count_or_format h' < 32" if ok
  proof -
    have pad: "unat (ps - ucast b) + unat b = unat ps" if "ucast b \<le> ps" for b :: byte
      using that by (simp add: unat_sub word_le_nat_alt unsigned_ucast_eq take_bit_nat_eq_self
          less_trans [OF unsigned_less])
    from P that assms show ?thesis
      by (auto simp: RtcpCommonHeader_Parse_def kHeaderSizeBytes_def Let_def ps_def [symmetric]
          cnt pad not_less Option.bind_eq_Some_conv split: if_splits)
  qed
  then have "hdr_payload h' = drop 4 buffer \<and> packet_size h' = 4 + unat ps \<and>
      4 + unat ps \<le> size_bytes \<and> NextPacket h' = Some (drop (4 + unat ps) buffer) \<and>
      hdr_count_or_format h' < 32" if ok
    using that assms by (auto simp: packet_size_def NextPacket_def kHeaderSizeBytes_def Let_def ac_simps)
  with P m show ?thesis by (auto simp: mod_add_eq [symmetric])
qed

theorem RtcpCommonHeader_Parse_safe_witness:
  "\<exists>ok h'. RtcpCommonHeader_Parse new_header [0x81, 201, 0, 1, 0, 0, 0, 7] 8 = Some (ok, h') \<and>
    (ok \<longrightarrow> packet_size h' \<le> 8)"
  using RtcpCommonHeader_Parse_safe [of 8 "[0x81, 201, 0, 1, 0, 0, 0, 7]" new_header] by auto

text \<open>What the parser returns on the bytes of a header followed by its payload.\<close>

lemma Parse_header_bytes:
  assumes "count < 32" and "length body = 4 * len" and "len < 65536" and "4 + 4 * len \<le> size_bytes"
    and "padding \<Longrightarrow> body \<noteq> [] \<and> 0 < last body \<and> unat (last body) \<le> length body"
  shows "RtcpCommonHeader_Parse h (header_bytes count pt len padding @ body @ rest) size_bytes =
    Some (True, \<lparr>hdr_packet_type = pt, hdr_count_or_format = of_nat count,
      hdr_padding_size = (if padding then last body else 0),
      hdr_payload_size = of_nat (length body - (if padding then unat (last body) else 0)),
      hdr_payload = body @ rest\<rparr>)"
proof -
  have c: "of_nat count < (32 :: byte)"
    using assms(1) by (simp add: word_less_nat_alt unat_of_nat)
  have l: "((of_nat len :: u32) * 4 = 0) = (body = [])" "unat (of_nat len * 4 :: u32) = length body"
    using assms(2,3) unat_times4 [OF assms(3)] by (auto simp: unat_eq_0)
  have p: "rd (body @ rest) (unat (of_nat len * 4 - 1 :: u32)) = Some (last body)" if "body \<noteq> []"
    using l that by (simp add: unat_minus_one rd_def nth_append last_conv_nth trans_less_add1)
  show ?thesis
  proof (cases padding)
    case False
    with assms(2-4) l show ?thesis
      by (simp add: RtcpCommonHeader_Parse_def header_bytes_def kHeaderSizeBytes_def Let_def rd_def
          byte_fields [OF c, where p = False, simplified] length_field [OF assms(3)])
  next
    case True
    then have n: "body \<noteq> []" "last body \<noteq> 0" "unat (last body) \<le> length body"
      using assms(5) by auto
    have "of_nat len * 4 - ucast (last body) = (of_nat (length body - unat (last body)) :: u32)"
      using n(3) l(2) assms(2) by (simp add: of_nat_diff)
    moreover have "\<not> of_nat len * 4 < (ucast (last body) :: u32)"
      using n(3) l(2) by (simp add: word_less_nat_alt unsigned_ucast_eq take_bit_nat_eq_self
          less_trans [OF unsigned_less])
    ultimately show ?thesis using True assms(2-4) l n p [OF n(1)]
      by (simp add: RtcpCommonHeader_Parse_def header_bytes_def kHeaderSizeBytes_def Let_def rd_def
          byte_fields [OF c, where p = True, simplified] length_field [OF assms(3)])
  qed
qed

text \<open>
  a header written by \<open>CreateHeader\<close> at any position of a buffer that holds the packet is
  read back by \<open>RtcpCommonHeader::Parse\<close>: type, count and payload are the ones written, and
  with the padding bit the padding announced by the last payload byte is taken off the payload
  and kept as \<open>padding_size_\<close>.
\<close>

theorem CreateHeader_Parse_roundtrip:
  assumes "count < 32" and "len < 65536" and "pos + 4 + 4 * len \<le> length buffer"
    and "padding \<Longrightarrow> 0 < len \<and> 0 < buffer ! (pos + 3 + 4 * len) \<and>
      unat (buffer ! (pos + 3 + 4 * len)) \<le> 4 * len"
  shows "\<exists>buffer' h'. CreateHeader count pt len padding buffer pos = Some (buffer', pos + 4) \<and>
    RtcpCommonHeader_Parse h (drop pos buffer') (length buffer' - pos) = Some (True, h') \<and>
    hdr_packet_type h' = pt \<and> hdr_count_or_format h' = of_nat count \<and> packet_size h' = 4 + 4 * len \<and>
    payload_size_bytes h' = 4 * len - (if padding then unat (buffer ! (pos + 3 + 4 * len)) else 0) \<and>
    take (4 * len) (hdr_payload h') = take (4 * len) (drop (pos + 4) buffer)"
proof -
  let ?body = "take (4 * len) (drop (pos + 4) buffer)" and ?rest = "drop (pos + 4 + 4 * len) buffer"
  let ?h = "header_bytes count pt len padding"
  have split: "drop (pos + 4) buffer = ?body @ ?rest"
    by (metis append_take_drop_id drop_drop add.commute)
  have put: "put buffer pos ?h = Some (take pos buffer @ ?h @ ?body @ ?rest)"
    using assms(3) put_SomeI [of pos ?h buffer] split by simp
  have lb: "length ?body = 4 * len" using assms(3) by simp
  have last: "last ?body = buffer ! (pos + 3 + 4 * len)" if "0 < len"
  proof -
    have "?body \<noteq> []" using lb that by auto
    then have "last ?body = ?body ! (4 * len - 1)" using last_conv_nth [of ?body] lb by argo
    also have "\<dots> = buffer ! (pos + 4 + (4 * len - 1))" using that assms(3) by simp
    also have "pos + 4 + (4 * len - 1) = pos + 3 + 4 * len" using that by simp
    finally show ?thesis .
  qed
  have "RtcpCommonHeader_Parse h (?h @ ?body @ ?rest) (length buffer - pos) =
    Some (True, \<lparr>hdr_packet_type = pt, hdr_count_or_format = of_nat count,
      hdr_padding_size = (if padding then last ?body else 0),
      hdr_payload_size = of_nat (length ?body - (if padding then unat (last ?body) else 0)),
      hdr_payload = ?body @ ?rest\<rparr>)"
    using assms last lb by (intro Parse_header_bytes) auto
  moreover have "drop pos (take pos buffer @ ?h @ ?body @ ?rest) = ?h @ ?body @ ?rest"
    using assms(3) by simp
  moreover have "length (take pos buffer @ ?h @ ?body @ ?rest) = length buffer"
    using assms(3) by simp
  moreover have "unat (of_nat (4 * len - n) :: u32) = 4 * len - n" for n
    using assms(2) by (simp add: unat_of_nat take_bit_nat_eq_self)
  ultimately show ?thesis
    using assms(4) last lb put
    by (auto simp: CreateHeader_put kHeaderLength_def packet_size_def payload_size_bytes_def
        kHeaderSizeBytes_def simp del: of_nat_diff)
qed

theorem CreateHeader_Parse_roundtrip_witness:
  "\<exists>buffer' h'. CreateHeader 31 205 1 True [0, 0, 0, 0, 0, 9, 9, 9, 2] 1 = Some (buffer', 1 + 4) \<and>
    RtcpCommonHeader_Parse new_header (drop 1 buffer') (length buffer' - 1) = Some (True, h') \<and>
    payload_size_bytes h' = 2"
  using CreateHeader_Parse_roundtrip [of 31 1 1 "[0, 0, 0, 0, 0, 9, 9, 9, 2]" True 205 new_header]
  by auto

text \<open>
  The other writer of the same four bytes, \<open>RtcpCommonHeader::Create\<close>, used by the reports.
\<close>

lemma RtcpCommonHeader_Create_put:
  assumes "pad = 0 \<or> pad = 1"
  shows "RtcpCommonHeader_Create 2 pad count pt len buffer =
    map_option (\<lambda>b. (4, b)) (put buffer 0 (header_bytes (unat count) pt (unat len) (pad = 1)))"
proof -
  have ff: "(255 :: nat) = mask 8" "(255 :: u16) = mask 8" by (simp_all add: mask_eq_exp_minus_1)
  have "ucast (drop_bit 8 len AND 0xFF) = (of_nat (drop_bit 8 (unat len) AND 0xff) :: byte)"
    by (rule bit_word_eqI) (auto simp: ff bit_simps bit_of_nat_iff)
  moreover have "ucast (len AND 0xFF) = (of_nat (unat len AND 0xff) :: byte)"
    by (rule bit_word_eqI) (auto simp: ff bit_simps bit_of_nat_iff)
  ultimately show ?thesis using assms
    by (auto simp: RtcpCommonHeader_Create_def header_bytes_def wr_put put_put_bind
        map_conv_bind_option comp_def)
qed

text \<open>The payload of an accepted packet lies in the received bytes.\<close>

lemma Parse_payload_length:
  assumes "RtcpCommonHeader_Parse h buffer size_bytes = Some (True, h')" and "size_bytes \<le> length buffer"
  shows "payload_size_bytes h' \<le> length (hdr_payload h')"
proof -
  have "4 + unat ps \<le> size_bytes \<Longrightarrow> unat (ps - ucast b) \<le> length buffer - 4"
    if "ucast b \<le> ps" for ps :: u32 and b :: byte
    using that assms(2) by (auto simp: unat_sub)
  with assms show ?thesis
    by (auto simp: RtcpCommonHeader_Parse_def payload_size_bytes_def kHeaderSizeBytes_def Let_def
        Option.bind_eq_Some_conv not_less split: if_splits)
qed

section \<open>What a serialiser promises\<close>

text \<open>
  \<open>ready\<close>: the write position is inside \<open>max_length\<close> and the buffer is at least that large.
  \<open>emits max s bs s'\<close>: between \<open>s\<close> and \<open>s'\<close> the blocks \<open>bs\<close> were appended to the pending ones;
  some groups of whole blocks went out as datagrams of at most \<open>max\<close> bytes, in order, and the
  rest is pending. No block is split over two datagrams, none is lost or duplicated.
\<close>

definition ready :: "nat \<Rightarrow> wstate \<Rightarrow> bool" where
  "ready max_length s \<longleftrightarrow> w_index s \<le> max_length \<and> max_length \<le> length (w_packet s) \<and>
     max_length < 2 ^ 64"

definition pending :: "wstate \<Rightarrow> byte list" where
  "pending s = take (w_index s) (w_packet s)"

definition emits :: "nat \<Rightarrow> wstate \<Rightarrow> byte list list \<Rightarrow> wstate \<Rightarrow> bool" where
  "emits max_length s bs s' \<longleftrightarrow> length (w_packet s') = length (w_packet s) \<and>
     (\<forall>pend. pending s = concat pend \<longrightarrow>
       (\<exists>gs pend'. pend @ bs = concat gs @ pend' \<and> pending s' = concat pend' \<and>
          w_ready s' = w_ready s @ map concat gs \<and>
          (\<forall>g \<in> set gs. concat g \<noteq> [] \<and> length (concat g) \<le> max_length)))"

lemma emits_refl: "emits max_length s [] s"
  by (auto simp: emits_def intro!: exI [of _ "[]"])

lemma emits_trans:
  assumes "emits max_length s bs s'" and "emits max_length s' bs' s''"
  shows "emits max_length s (bs @ bs') s''"
  unfolding emits_def
proof (intro conjI allI impI)
  show "length (w_packet s'') = length (w_packet s)" using assms by (simp add: emits_def)
  fix pend
  assume "pending s = concat pend"
  with assms(1) obtain gs p1 where 1: "pend @ bs = concat gs @ p1" "pending s' = concat p1"
    "w_ready s' = w_ready s @ map concat gs"
    "\<forall>g \<in> set gs. concat g \<noteq> [] \<and> length (concat g) \<le> max_length"
    unfolding emits_def by blast
  with assms(2) obtain gs' p2 where 2: "p1 @ bs' = concat gs' @ p2" "pending s'' = concat p2"
    "w_ready s'' = w_ready s' @ map concat gs'"
    "\<forall>g \<in> set gs'. concat g \<noteq> [] \<and> length (concat g) \<le> max_length"
    unfolding emits_def by blast
  from 1(1) 2(1) have "pend @ bs @ bs' = concat (gs @ gs') @ p2"
    by (metis append.assoc concat_append)
  with 1 2 show "\<exists>gs pend'. pend @ bs @ bs' = concat gs @ pend' \<and> pending s'' = concat pend' \<and>
      w_ready s'' = w_ready s @ map concat gs \<and>
      (\<forall>g \<in> set gs. concat g \<noteq> [] \<and> length (concat g) \<le> max_length)"
    by (intro exI [of _ "gs @ gs'"] exI [of _ p2]) auto
qed

lemma emits_block:
  assumes "put (w_packet s) (w_index s) blk = Some b"
  shows "emits max_length s [blk] (s\<lparr>w_packet := b, w_index := w_index s + length blk\<rparr>)"
  using assms seg_take_put [OF assms]
  by (auto simp: emits_def pending_def put_length intro!: exI [of _ "[]"])

lemma OnBufferFull_emits:
  assumes "ready max_length s"
  shows "\<exists>s'. OnBufferFull s = Some (w_index s \<noteq> 0, s') \<and> w_index s' = 0 \<and>
    ready max_length s' \<and> emits max_length s [] s'"
proof (cases "w_index s = 0")
  case True
  with assms emits_refl show ?thesis by (auto simp: OnBufferFull_def)
next
  case False
  let ?s = "s\<lparr>w_ready := w_ready s @ [pending s], w_index := 0\<rparr>"
  have "OnBufferFull s = Some (True, ?s)"
    using False assms by (simp add: OnBufferFull_def seg_def ready_def pending_def)
  moreover have "emits max_length s [] ?s"
    unfolding emits_def
  proof (intro conjI allI impI)
    fix pend
    assume p: "pending s = concat pend"
    moreover have "length (pending s) = w_index s"
      using assms by (auto simp: pending_def ready_def)
    ultimately show "\<exists>gs pend'. pend @ [] = concat gs @ pend' \<and> pending ?s = concat pend' \<and>
        w_ready ?s = w_ready s @ map concat gs \<and>
        (\<forall>g \<in> set gs. concat g \<noteq> [] \<and> length (concat g) \<le> max_length)"
      using False assms
      by (intro exI [of _ "[pend]"] exI [of _ "[]"])
        (auto simp: pending_def ready_def simp del: concat_eq_Nil_conv)
  qed simp
  ultimately show ?thesis using False assms by (auto simp: ready_def)
qed

text \<open>
  The interface of \<open>RtcpPacket::Create\<close>. \<open>fits\<close> says when a packet can be serialised with a
  given \<open>max_length\<close>, \<open>represents\<close> which sequences of blocks are a serialisation of it.
\<close>

locale rtcp_block =
  fixes create :: "'p \<Rightarrow> nat \<Rightarrow> wstate \<Rightarrow> (bool \<times> wstate) option"
    and fits :: "'p \<Rightarrow> nat \<Rightarrow> bool"
    and represents :: "'p \<Rightarrow> byte list list \<Rightarrow> bool"
  assumes create_emits: "ready max_length s \<Longrightarrow>
    \<exists>s' bs. create p max_length s = Some (fits p max_length, s') \<and> ready max_length s' \<and>
      emits max_length s bs s' \<and> (fits p max_length \<longrightarrow> represents p bs) \<and>
      (\<not> fits p max_length \<longrightarrow> bs = [])"

end
