(* ===== verification/RtcpReports.thy ===== *)
theory RtcpReports
  imports RtcpPacket
begin

text \<open>
  Sender and receiver reports: \<open>src/rtcp/rtcp_packet/rtcp_report_block.{h,cpp}\<close>,
  \<open>sender_report.{h,cpp}\<close> and \<open>receiver_report.{h,cpp}\<close>.

  An \<open>int32_t\<close> field (\<open>cumulative_lost_\<close>) is kept as its 32-bit word and read with
  \<^const>\<open>sint\<close>. A buffer from \<open>new uint8_t[n]\<close> has unspecified contents, the argument
  \<open>junk\<close> of the model. \<open>Build\<close> returns \<open>nullptr\<close> (here \<^term>\<open>None\<close> as the inner option) for
  more than 31 report blocks.
\<close>

section \<open>32-bit fields\<close>

definition read_u32 :: "byte list \<Rightarrow> nat \<Rightarrow> u32 option" where
  "read_u32 payload pos = do {
     a \<leftarrow> rd payload pos;
     b \<leftarrow> rd payload (pos + 1);
     c \<leftarrow> rd payload (pos + 2);
     d \<leftarrow> rd payload (pos + 3);
     Some (push_bit 24 (ucast a) OR push_bit 16 (ucast b) OR push_bit 8 (ucast c) OR ucast d) }"

definition write_u32 :: "u32 \<Rightarrow> byte list \<Rightarrow> nat \<Rightarrow> byte list option" where
  "write_u32 v buffer pos = do {
     b \<leftarrow> wr buffer pos (ucast (drop_bit 24 v AND 0xFF));
     b \<leftarrow> wr b (pos + 1) (ucast (drop_bit 16 v AND 0xFF));
     b \<leftarrow> wr b (pos + 2) (ucast (drop_bit 8 v AND 0xFF));
     wr b (pos + 3) (ucast (v AND 0xFF)) }"

section \<open>Report blocks\<close>

definition kReportBlockLength :: nat where "kReportBlockLength = 24"

record RtcpReportBlock =
  rb_sender_ssrc :: u32
  rb_source_ssrc :: u32
  rb_fraction_lost :: byte
  rb_cumulative_lost :: u32
  rb_extended_high_seq_num :: u32
  rb_jitter :: u32
  rb_last_sr :: u32
  rb_delay_since_last_sr :: u32
  rb_timestamp_utc :: int
  rb_timestamp :: int
  rb_last_rtt :: int
  rb_sum_rtt :: int
  rb_num_rtts :: nat

definition new_report_block :: RtcpReportBlock where
  "new_report_block = \<lparr>rb_sender_ssrc = 0, rb_source_ssrc = 0, rb_fraction_lost = 0,
     rb_cumulative_lost = 0, rb_extended_high_seq_num = 0, rb_jitter = 0, rb_last_sr = 0,
     rb_delay_since_last_sr = 0, rb_timestamp_utc = 0, rb_timestamp = 0, rb_last_rtt = 0,
     rb_sum_rtt = 0, rb_num_rtts = 0\<rparr>"

definition SetCumulativeLost :: "RtcpReportBlock \<Rightarrow> int \<Rightarrow> bool \<times> RtcpReportBlock" where
  "SetCumulativeLost r cumulative_lost =
     (if cumulative_lost \<ge> 2 ^ 23 \<or> cumulative_lost < - (2 ^ 23) then (False, r)
      else (True, r\<lparr>rb_cumulative_lost := word_of_int cumulative_lost\<rparr>))"

definition CumulativeLost :: "RtcpReportBlock \<Rightarrow> int" where
  "CumulativeLost r = sint (rb_cumulative_lost r)"

definition RtcpReportBlock_Create :: "RtcpReportBlock \<Rightarrow> byte list \<Rightarrow> nat \<Rightarrow> byte list option" where
  "RtcpReportBlock_Create r buffer pos = do {
     b \<leftarrow> write_u32 (rb_source_ssrc r) buffer pos;
     b \<leftarrow> wr b (pos + 4) (rb_fraction_lost r);
     b \<leftarrow> wr b (pos + 5) (ucast (drop_bit 16 (rb_cumulative_lost r) AND 0xFF));
     b \<leftarrow> wr b (pos + 6) (ucast (drop_bit 8 (rb_cumulative_lost r) AND 0xFF));
     b \<leftarrow> wr b (pos + 7) (ucast (rb_cumulative_lost r AND 0xFF));
     b \<leftarrow> write_u32 (rb_extended_high_seq_num r) b (pos + 8);
     b \<leftarrow> write_u32 (rb_jitter r) b (pos + 12);
     b \<leftarrow> write_u32 (rb_last_sr r) b (pos + 16);
     write_u32 (rb_delay_since_last_sr r) b (pos + 20) }"

definition RtcpReportBlock_Parse :: "RtcpReportBlock \<Rightarrow> byte list \<Rightarrow> nat \<Rightarrow> RtcpReportBlock option" where
  "RtcpReportBlock_Parse r buffer pos = do {
     source_ssrc \<leftarrow> read_u32 buffer pos;
     fraction_lost \<leftarrow> rd buffer (pos + 4);
     c0 \<leftarrow> rd buffer (pos + 5);
     c1 \<leftarrow> rd buffer (pos + 6);
     c2 \<leftarrow> rd buffer (pos + 7);
     ehsn \<leftarrow> read_u32 buffer (pos + 8);
     jitter \<leftarrow> read_u32 buffer (pos + 12);
     last_sr \<leftarrow> read_u32 buffer (pos + 16);
     dlsr \<leftarrow> read_u32 buffer (pos + 20);
     let lost = push_bit 16 (ucast c0) OR push_bit 8 (ucast c1) OR ucast c2;
         lost = (if lost AND 0x800000 \<noteq> 0 then lost OR 0xFF000000 else lost) in
     Some (r\<lparr>rb_source_ssrc := source_ssrc, rb_fraction_lost := fraction_lost,
       rb_cumulative_lost := lost, rb_extended_high_seq_num := ehsn, rb_jitter := jitter,
       rb_last_sr := last_sr, rb_delay_since_last_sr := dlsr\<rparr>) }"

definition RtcpReportBlock_SetReportBlock ::
  "RtcpReportBlock \<Rightarrow> u32 \<Rightarrow> RtcpReportBlock \<Rightarrow> int \<Rightarrow> int \<Rightarrow> RtcpReportBlock" where
  "RtcpReportBlock_SetReportBlock r sender_ssrc report_block timestamp_utc timestamp =
     r\<lparr>rb_sender_ssrc := sender_ssrc, rb_source_ssrc := rb_source_ssrc report_block,
       rb_fraction_lost := rb_fraction_lost report_block,
       rb_cumulative_lost := rb_cumulative_lost report_block,
       rb_extended_high_seq_num := rb_extended_high_seq_num report_block,
       rb_jitter := rb_jitter report_block, rb_timestamp_utc := timestamp_utc,
       rb_timestamp := timestamp\<rparr>"

definition AddRoundTripTimeSample :: "RtcpReportBlock \<Rightarrow> int \<Rightarrow> RtcpReportBlock" where
  "AddRoundTripTimeSample r rtt =
     r\<lparr>rb_last_rtt := rtt, rb_sum_rtt := rb_sum_rtt r + rtt, rb_num_rtts := rb_num_rtts r + 1\<rparr>"

section \<open>Sender reports\<close>

definition DEFAULT_RTCP_VERSION :: byte where "DEFAULT_RTCP_VERSION = 2"
definition DEFAULT_RTCP_HEADER_SIZE :: nat where "DEFAULT_RTCP_HEADER_SIZE = 4"
definition DEFAULT_SR_SIZE :: nat where "DEFAULT_SR_SIZE = 24"
definition DEFAULT_RR_SIZE :: nat where "DEFAULT_RR_SIZE = 4"
definition RTCP_TYPE_SR :: byte where "RTCP_TYPE_SR = 200"
definition RTCP_TYPE_RR :: byte where "RTCP_TYPE_RR = 201"

text \<open>\<open>new uint8_t[n]\<close>: \<open>n\<close> bytes of unspecified contents.\<close>

definition new_array :: "(nat \<Rightarrow> byte) \<Rightarrow> nat \<Rightarrow> byte list" where
  "new_array junk n = map junk [0..<n]"

record SenderInfo =
  si_sender_ssrc :: u32
  si_ntp_ts_msw :: u32
  si_ntp_ts_lsw :: u32
  si_rtp_ts :: u32
  si_sender_packet_count :: u32
  si_sender_octet_count :: u32

record SenderReport =
  sr_sender_ssrc :: u32
  sr_header :: RtcpCommonHeader
  sr_info :: SenderInfo
  sr_reports :: "RtcpReportBlock list"
  sr_buffer :: "byte list"
  sr_size :: nat

definition SetNtpTimestamp :: "SenderReport \<Rightarrow> u64 \<Rightarrow> SenderReport" where
  "SetNtpTimestamp r ntp_timestamp = r\<lparr>sr_info := (sr_info r)\<lparr>
     si_ntp_ts_msw := ucast (drop_bit 32 ntp_timestamp), si_ntp_ts_lsw := ucast ntp_timestamp\<rparr>\<rparr>"

definition NtpTimestamp :: "SenderReport \<Rightarrow> u64" where
  "NtpTimestamp r = push_bit 32 (ucast (si_ntp_ts_msw (sr_info r))) OR ucast (si_ntp_ts_lsw (sr_info r))"

definition CompactNtpTimestamp :: "SenderReport \<Rightarrow> u32" where
  "CompactNtpTimestamp r =
     push_bit 16 (si_ntp_ts_msw (sr_info r)) OR drop_bit 16 (si_ntp_ts_lsw (sr_info r))"

definition SenderReport_SetReportBlock :: "SenderReport \<Rightarrow> RtcpReportBlock \<Rightarrow> SenderReport" where
  "SenderReport_SetReportBlock r report_block = r\<lparr>sr_reports := sr_reports r @ [report_block]\<rparr>"

definition SenderReport_SetReportBlocks :: "SenderReport \<Rightarrow> RtcpReportBlock list \<Rightarrow> SenderReport" where
  "SenderReport_SetReportBlocks r report_blocks = r\<lparr>sr_reports := report_blocks\<rparr>"

text \<open>The part of \<open>Build\<close> that fills the buffer.\<close>

definition SenderReport_fill :: "SenderReport \<Rightarrow> nat \<Rightarrow> byte list \<Rightarrow> byte list option" where
  "SenderReport_fill r buffer_size buffer =
     (let i = sr_info r in do {
        (pos, b) \<leftarrow> RtcpCommonHeader_Create DEFAULT_RTCP_VERSION 0
           (of_nat (length (sr_reports r))) RTCP_TYPE_SR
           (of_nat ((buffer_size - DEFAULT_RTCP_HEADER_SIZE) div 4)) buffer;
        b \<leftarrow> write_items write_u32 4 [si_sender_ssrc i, si_ntp_ts_msw i, si_ntp_ts_lsw i,
           si_rtp_ts i, si_sender_packet_count i, si_sender_octet_count i] b pos;
        write_items RtcpReportBlock_Create kReportBlockLength (sr_reports r) b (pos + 24) })"

definition SenderReport_Build ::
  "(nat \<Rightarrow> byte) \<Rightarrow> SenderReport \<Rightarrow> (byte list option \<times> SenderReport) option" where
  "SenderReport_Build junk r =
     (if length (sr_reports r) > 0x1f then Some (None, r)
      else
        let buffer_size = DEFAULT_RTCP_HEADER_SIZE + DEFAULT_SR_SIZE
              + length (sr_reports r) * kReportBlockLength;
            buffer = (if buffer_size \<noteq> sr_size r then new_array junk buffer_size else sr_buffer r)
        in do {
          b \<leftarrow> SenderReport_fill r buffer_size buffer;
          Some (Some b, r\<lparr>sr_buffer := b, sr_size := buffer_size\<rparr>) })"

definition SenderReport_Parse :: "SenderReport \<Rightarrow> RtcpCommonHeader \<Rightarrow> (bool \<times> SenderReport) option" where
  "SenderReport_Parse r packet =
     (let r = r\<lparr>sr_reports := []\<rparr>;
          report_count = unat (hdr_count_or_format packet);
          required_payload_size = DEFAULT_SR_SIZE + report_count * kReportBlockLength in
      if payload_size_bytes packet < required_payload_size then Some (False, r)
      else do {
        let payload = hdr_payload packet in do {
        ssrc \<leftarrow> read_u32 payload 0;
        msw \<leftarrow> read_u32 payload 4;
        lsw \<leftarrow> read_u32 payload 8;
        rtp \<leftarrow> read_u32 payload 12;
        pc \<leftarrow> read_u32 payload 16;
        oc \<leftarrow> read_u32 payload 20;
        reports \<leftarrow> read_items (RtcpReportBlock_Parse new_report_block) kReportBlockLength
           report_count payload 24;
        let pos = 24 + length reports * kReportBlockLength in
        Some (pos = required_payload_size,
          r\<lparr>sr_header := packet, sr_sender_ssrc := ssrc,
            sr_info := \<lparr>si_sender_ssrc = ssrc, si_ntp_ts_msw = msw, si_ntp_ts_lsw = lsw,
              si_rtp_ts = rtp, si_sender_packet_count = pc, si_sender_octet_count = oc\<rparr>,
            sr_reports := reports\<rparr>) }})"

section \<open>Receiver reports\<close>

record ReceiverReport =
  rr_sender_ssrc :: u32
  rr_header :: RtcpCommonHeader
  rr_reports :: "RtcpReportBlock list"
  rr_buffer :: "byte list"
  rr_size :: nat

definition ReceiverReport_SetReportBlock :: "ReceiverReport \<Rightarrow> RtcpReportBlock \<Rightarrow> ReceiverReport" where
  "ReceiverReport_SetReportBlock r report_block = r\<lparr>rr_reports := rr_reports r @ [report_block]\<rparr>"

definition ReceiverReport_SetReportBlocks :: "ReceiverReport \<Rightarrow> RtcpReportBlock list \<Rightarrow> ReceiverReport" where
  "ReceiverReport_SetReportBlocks r report_blocks = r\<lparr>rr_reports := report_blocks\<rparr>"

definition ReceiverReport_fill :: "ReceiverReport \<Rightarrow> nat \<Rightarrow> byte list \<Rightarrow> byte list option" where
  "ReceiverReport_fill r buffer_size buffer = do {
     (pos, b) \<leftarrow> RtcpCommonHeader_Create DEFAULT_RTCP_VERSION 0
        (of_nat (length (rr_reports r))) RTCP_TYPE_RR
        (of_nat ((buffer_size - DEFAULT_RTCP_HEADER_SIZE) div 4)) buffer;
     b \<leftarrow> write_u32 (rr_sender_ssrc r) b pos;
     write_items RtcpReportBlock_Create kReportBlockLength (rr_reports r) b (pos + 4) }"

definition ReceiverReport_Build ::
  "(nat \<Rightarrow> byte) \<Rightarrow> ReceiverReport \<Rightarrow> (byte list option \<times> ReceiverReport) option" where
  "ReceiverReport_Build junk r =
     (if length (rr_reports r) > 0x1f then Some (None, r)
      else
        let buffer_size = DEFAULT_RTCP_HEADER_SIZE + DEFAULT_RR_SIZE
              + length (rr_reports r) * kReportBlockLength;
            buffer = (if buffer_size \<noteq> rr_size r then new_array junk buffer_size else rr_buffer r)
        in do {
          b \<leftarrow> ReceiverReport_fill r buffer_size buffer;
          Some (Some b, r\<lparr>rr_buffer := b, rr_size := buffer_size\<rparr>) })"

definition ReceiverReport_Parse :: "ReceiverReport \<Rightarrow> RtcpCommonHeader \<Rightarrow> (nat \<times> ReceiverReport) option" where
  "ReceiverReport_Parse r packet =
     (let r = r\<lparr>rr_reports := []\<rparr>;
          report_count = unat (hdr_count_or_format packet);
          required_payload_size = DEFAULT_RR_SIZE + report_count * kReportBlockLength in
      if payload_size_bytes packet < required_payload_size then Some (0, r)
      else do {
        ssrc \<leftarrow> read_u32 (hdr_payload packet) 0;
        reports \<leftarrow> read_items (RtcpReportBlock_Parse new_report_block) kReportBlockLength
           report_count (hdr_payload packet) 4;
        Some (4 + length reports * kReportBlockLength,
          r\<lparr>rr_header := packet, rr_sender_ssrc := ssrc, rr_reports := reports\<rparr>) })"

lemmas report_consts = kReportBlockLength_def DEFAULT_RTCP_HEADER_SIZE_def DEFAULT_SR_SIZE_def
  DEFAULT_RR_SIZE_def DEFAULT_RTCP_VERSION_def RTCP_TYPE_SR_def RTCP_TYPE_RR_def

section \<open>The wire records\<close>

lemma be_bytes_4:
  "be_bytes 4 v = [ucast (drop_bit 24 v AND 0xFF), ucast (drop_bit 16 v AND 0xFF),
     ucast (drop_bit 8 v AND 0xFF), ucast (v AND 0xFF)]" for v :: u32
proof -
  have m: "ucast (w AND 0xFF) = (ucast w :: byte)" for w :: u32
  proof -
    have ff: "(255 :: u32) = mask 8" by (simp add: mask_eq_exp_minus_1)
    show ?thesis by (rule bit_word_eqI) (auto simp: ff bit_simps)
  qed
  show ?thesis by (simp add: be_bytes_def m upt_rec)
qed

lemma write_u32_put: "write_u32 v b pos = put b pos (be_bytes 4 v)"
  by (simp add: write_u32_def be_bytes_4 wr_put put_put put_put_bind)

lemma read_u32_ReadBigEndian4: "read_u32 = ReadBigEndian4"
  by (intro ext) (simp add: read_u32_def ReadBigEndian4_def)

interpretation field32: item_codec read_u32 write_u32 "be_bytes 4" 4 "\<lambda>_. True"
proof unfold_locales
  show "read_u32 (pre @ be_bytes 4 x @ post) (length pre) = Some x" for pre x post
    by (simp add: read_u32_ReadBigEndian4 be32.dec_enc)
  show "pos + 4 \<le> length b \<Longrightarrow> \<exists>x. read_u32 b pos = Some x" for pos b
    by (simp add: read_u32_ReadBigEndian4 be32.dec_total)
qed (simp_all add: write_u32_put)

text \<open>The 24-bit field of the lost packets, sign extended by the parser.\<close>

definition lost_bytes :: "u32 \<Rightarrow> byte list" where
  "lost_bytes v = [ucast (drop_bit 16 v AND 0xFF), ucast (drop_bit 8 v AND 0xFF), ucast (v AND 0xFF)]"

definition lost_value :: "byte \<Rightarrow> byte \<Rightarrow> byte \<Rightarrow> u32" where
  "lost_value c0 c1 c2 =
     (let lost = push_bit 16 (ucast c0) OR push_bit 8 (ucast c1) OR ucast c2 in
      if lost AND 0x800000 \<noteq> 0 then lost OR 0xFF000000 else lost)"

lemma signed_take_bit_23:
  assumes "- (2 ^ 23) \<le> sint v" and "sint v < 2 ^ 23"
  shows "signed_take_bit 23 v = (v :: u32)"
proof -
  have "signed_take_bit 23 (sint v) = sint v"
    using assms by (intro signed_take_bit_int_eq_self) auto
  then have "\<And>n. n < 32 \<Longrightarrow> bit (signed_take_bit 23 v) n = bit v n"
  proof -
    fix n :: nat
    assume eq: "signed_take_bit 23 (sint v) = sint v" and n: "n < 32"
    have "bit (sint v) k = bit v (min k 31)" for k by (auto simp: bit_sint_iff min_def dest: bit_imp_le_length)
    moreover have "bit (sint v) (min 23 n) = bit (sint v) n"
      using arg_cong [OF eq, of "\<lambda>x. bit x n"] by (simp add: bit_signed_take_bit_iff)
    ultimately have "bit v (min (min 23 n) 31) = bit v (min n 31)" by simp
    with n show "bit (signed_take_bit 23 v) n = bit v n"
      by (simp add: bit_signed_take_bit_iff min_def split: if_splits)
  qed
  then show ?thesis by (intro bit_word_eqI) simp
qed

lemma lost_value_bytes:
  assumes "- (2 ^ 23) \<le> sint v" and "sint v < 2 ^ 23"
  shows "lost_value (ucast (drop_bit 16 v AND 0xFF)) (ucast (drop_bit 8 v AND 0xFF)) (ucast (v AND 0xFF)) = v"
proof -
  have ff: "(255 :: u32) = mask 8" by (simp add: mask_eq_exp_minus_1)
  have low: "push_bit 16 (ucast (ucast (drop_bit 16 v AND 0xFF) :: byte)) OR
      push_bit 8 (ucast (ucast (drop_bit 8 v AND 0xFF) :: byte)) OR
      ucast (ucast (v AND 0xFF) :: byte) = (take_bit 24 v :: u32)"
  proof (rule bit_word_eqI)
    fix n assume "n < LENGTH(32)"
    then consider "n < 8" | "8 \<le> n" "n < 16" | "16 \<le> n" "n < 24" | "24 \<le> n" by linarith
    then show "bit (push_bit 16 (ucast (ucast (drop_bit 16 v AND 0xFF) :: byte)) OR
      push_bit 8 (ucast (ucast (drop_bit 8 v AND 0xFF) :: byte)) OR
      ucast (ucast (v AND 0xFF) :: byte) :: u32) n = bit (take_bit 24 v) n"
      using \<open>n < LENGTH(32)\<close> by cases (auto simp: ff bit_simps)
  qed
  have c: "(0x800000 :: u32) = push_bit 23 1" by (simp add: push_bit_eq_mult)
  have h: "(0xFF000000 :: u32) = NOT (mask 24)" by (simp add: mask_eq_exp_minus_1)
  have top: "take_bit 24 v AND 0x800000 \<noteq> 0 \<longleftrightarrow> bit v 23"
    unfolding c by (simp only: and_push_bit_1 bit_take_bit_iff) simp
  have "(if bit v 23 then take_bit 24 v OR NOT (mask 24) else take_bit 24 v) = signed_take_bit 23 v"
  proof (rule bit_word_eqI)
    fix n assume "n < LENGTH(32)"
    then show "bit (if bit v 23 then take_bit 24 v OR NOT (mask 24) else take_bit 24 v) n =
        bit (signed_take_bit 23 v) n"
      by (cases "n = 23") (auto simp: bit_simps min_def)
  qed
  then show ?thesis
    unfolding lost_value_def Let_def low top h signed_take_bit_23 [OF assms] by simp
qed

definition report_block_bytes :: "RtcpReportBlock \<Rightarrow> byte list" where
  "report_block_bytes r = be_bytes 4 (rb_source_ssrc r) @ [rb_fraction_lost r] @
     lost_bytes (rb_cumulative_lost r) @ be_bytes 4 (rb_extended_high_seq_num r) @
     be_bytes 4 (rb_jitter r) @ be_bytes 4 (rb_last_sr r) @ be_bytes 4 (rb_delay_since_last_sr r)"

text \<open>The part of a report block that travels, and the values the 24-bit field can carry.\<close>

definition wire_part :: "RtcpReportBlock \<Rightarrow> RtcpReportBlock" where
  "wire_part r = new_report_block\<lparr>rb_source_ssrc := rb_source_ssrc r,
     rb_fraction_lost := rb_fraction_lost r, rb_cumulative_lost := rb_cumulative_lost r,
     rb_extended_high_seq_num := rb_extended_high_seq_num r, rb_jitter := rb_jitter r,
     rb_last_sr := rb_last_sr r, rb_delay_since_last_sr := rb_delay_since_last_sr r\<rparr>"

definition lost_in_range :: "RtcpReportBlock \<Rightarrow> bool" where
  "lost_in_range r \<longleftrightarrow> - (2 ^ 23) \<le> CumulativeLost r \<and> CumulativeLost r < 2 ^ 23"

lemma report_block_bytes_length [simp]: "length (report_block_bytes r) = 24"
  by (simp add: report_block_bytes_def lost_bytes_def)

lemma report_block_bytes_wire_part [simp]: "report_block_bytes (wire_part r) = report_block_bytes r"
  by (simp add: report_block_bytes_def wire_part_def)

lemma read_u32_at: "length xs = k \<Longrightarrow> read_u32 (pre @ xs @ be_bytes 4 v @ post) (length pre + k) = Some v"
  using field32.dec_enc [of "pre @ xs" v post] by simp

lemma RtcpReportBlock_Parse_bytes:
  assumes "lost_in_range r"
  shows "RtcpReportBlock_Parse new_report_block (pre @ report_block_bytes r @ post) (length pre) =
    Some (wire_part r)"
proof -
  let ?b = "pre @ report_block_bytes r @ post" and ?n = "length pre"
  let ?s = "be_bytes 4 (rb_source_ssrc r)" and ?e = "be_bytes 4 (rb_extended_high_seq_num r)"
  let ?j = "be_bytes 4 (rb_jitter r)" and ?l = "be_bytes 4 (rb_last_sr r)"
  let ?c = "[rb_fraction_lost r] @ lost_bytes (rb_cumulative_lost r)"
  have "read_u32 ?b ?n = Some (rb_source_ssrc r)"
    by (simp add: report_block_bytes_def field32.dec_enc)
  moreover have "read_u32 ?b (?n + 8) = Some (rb_extended_high_seq_num r)"
    using read_u32_at [of "?s @ ?c" 8] by (simp add: report_block_bytes_def lost_bytes_def)
  moreover have "read_u32 ?b (?n + 12) = Some (rb_jitter r)"
    using read_u32_at [of "?s @ ?c @ ?e" 12] by (simp add: report_block_bytes_def lost_bytes_def)
  moreover have "read_u32 ?b (?n + 16) = Some (rb_last_sr r)"
    using read_u32_at [of "?s @ ?c @ ?e @ ?j" 16] by (simp add: report_block_bytes_def lost_bytes_def)
  moreover have "read_u32 ?b (?n + 20) = Some (rb_delay_since_last_sr r)"
    using read_u32_at [of "?s @ ?c @ ?e @ ?j @ ?l" 20] by (simp add: report_block_bytes_def lost_bytes_def)
  moreover have "rd ?b (?n + 4) = Some (rb_fraction_lost r)"
    "rd ?b (?n + 5) = Some (ucast (drop_bit 16 (rb_cumulative_lost r) AND 0xFF))"
    "rd ?b (?n + 6) = Some (ucast (drop_bit 8 (rb_cumulative_lost r) AND 0xFF))"
    "rd ?b (?n + 7) = Some (ucast (rb_cumulative_lost r AND 0xFF))"
    by (simp_all add: rd_def report_block_bytes_def lost_bytes_def nth_append)
  ultimately show ?thesis
    using lost_value_bytes [of "rb_cumulative_lost r"] assms
    by (simp add: RtcpReportBlock_Parse_def wire_part_def lost_in_range_def CumulativeLost_def
        lost_value_def Let_def del: append_assoc)
qed

interpretation report_block: item_codec "RtcpReportBlock_Parse new_report_block" RtcpReportBlock_Create
  report_block_bytes kReportBlockLength "\<lambda>r. lost_in_range r \<and> wire_part r = r"
proof unfold_locales
  show "RtcpReportBlock_Create x b pos = put b pos (report_block_bytes x)" for x b pos
    by (simp add: RtcpReportBlock_Create_def report_block_bytes_def lost_bytes_def write_u32_put
        wr_put put_put put_put_bind)
  show "\<exists>x. RtcpReportBlock_Parse new_report_block b pos = Some x" if "pos + kReportBlockLength \<le> length b" for b pos
  proof -
    have "\<exists>x. read_u32 b (pos + k) = Some x" if "k + 4 \<le> 24" for k
      using that \<open>pos + kReportBlockLength \<le> length b\<close>
      by (intro field32.dec_total) (simp add: kReportBlockLength_def)
    from this [of 0] this [of 8] this [of 12] this [of 16] this [of 20] show ?thesis
      using that by (auto simp: RtcpReportBlock_Parse_def kReportBlockLength_def Let_def)
  qed
  show "RtcpReportBlock_Parse new_report_block (pre @ report_block_bytes x @ post) (length pre) = Some x"
    if "lost_in_range x \<and> wire_part x = x" for x pre post
    using RtcpReportBlock_Parse_bytes that by simp
qed (simp add: kReportBlockLength_def)

section \<open>Building and parsing reports\<close>

lemma new_array_length [simp]: "length (new_array junk n) = n"
  by (simp add: new_array_def)

lemma header_Create_put:
  assumes "n \<le> 31" and "len < 65536"
  shows "RtcpCommonHeader_Create DEFAULT_RTCP_VERSION 0 (of_nat n) pt (of_nat len) b =
    map_option (\<lambda>b. (4, b)) (put b 0 (header_bytes n pt len False))"
  using assms RtcpCommonHeader_Create_put [of 0 "of_nat n" pt "of_nat len" b]
  by (simp add: DEFAULT_RTCP_VERSION_def unat_of_nat_small)

text \<open>Header, fixed part and report blocks written one after the other fill the buffer.\<close>

lemma write_report:
  assumes "length b = 4 + length info + 24 * length rs"
    and "\<And>b pos. pos + length info \<le> length b \<Longrightarrow> W b pos = put b pos info"
  shows "Option.bind (map_option (\<lambda>b. (4, b)) (put b 0 (header_bytes c pt len False)))
      (\<lambda>(pos, b). Option.bind (W b pos)
        (\<lambda>b. write_items RtcpReportBlock_Create kReportBlockLength rs b (pos + length info))) =
    Some (header_bytes c pt len False @ info @ concat (map report_block_bytes rs))"
proof -
  let ?h = "header_bytes c pt len False" and ?r = "concat (map report_block_bytes rs)"
  have lr: "length ?r = 24 * length rs"
    using report_block.concat_enc_length [of rs] by (simp add: kReportBlockLength_def)
  obtain b1 where b1: "put b 0 ?h = Some b1" "length b1 = length b"
    using assms(1) put_SomeI [of 0 ?h b] put_length by force
  have W: "W b1 4 = put b1 4 info" using assms b1 by simp
  obtain b2 where b2: "put b1 4 info = Some b2" "length b2 = length b"
    using assms(1) b1 put_SomeI [of 4 info b1] put_length by force
  have I: "write_items RtcpReportBlock_Create kReportBlockLength rs b2 (4 + length info) =
      put b2 (4 + length info) ?r"
    using assms(1) b2 by (intro report_block.write_items_put) simp
  have "put b 0 (?h @ info) = Some b2" using put_put [of 4 0 ?h b info] b1 b2 by simp
  then have "put b 0 (?h @ info @ ?r) = put b2 (4 + length info) ?r"
    using put_put [of "4 + length info" 0 "?h @ info" b ?r] by simp
  moreover have "put b 0 (?h @ info @ ?r) = Some (?h @ info @ ?r)"
    using assms(1) lr by (simp add: put_def)
  ultimately show ?thesis using b1 b2 W I by simp
qed

definition sender_info_bytes :: "SenderInfo \<Rightarrow> byte list" where
  "sender_info_bytes i = concat (map (be_bytes 4) [si_sender_ssrc i, si_ntp_ts_msw i, si_ntp_ts_lsw i,
     si_rtp_ts i, si_sender_packet_count i, si_sender_octet_count i])"

definition SenderReport_bytes :: "SenderReport \<Rightarrow> byte list" where
  "SenderReport_bytes r = header_bytes (length (sr_reports r)) RTCP_TYPE_SR
     (6 + 6 * length (sr_reports r)) False @ sender_info_bytes (sr_info r) @
     concat (map report_block_bytes (sr_reports r))"

definition ReceiverReport_bytes :: "ReceiverReport \<Rightarrow> byte list" where
  "ReceiverReport_bytes r = header_bytes (length (rr_reports r)) RTCP_TYPE_RR
     (1 + 6 * length (rr_reports r)) False @ be_bytes 4 (rr_sender_ssrc r) @
     concat (map report_block_bytes (rr_reports r))"

lemma concat_report_length: "length (concat (map report_block_bytes rs)) = 24 * length rs"
  using report_block.concat_enc_length [of rs] by (simp add: kReportBlockLength_def)

lemma sender_info_bytes_length [simp]: "length (sender_info_bytes i) = 24"
  by (simp add: sender_info_bytes_def)

lemma SenderReport_fill_bytes:
  assumes "length (sr_reports r) \<le> 31" and "length b = 28 + length (sr_reports r) * 24"
  shows "SenderReport_fill r (length b) b = Some (SenderReport_bytes r)"
proof -
  let ?n = "length (sr_reports r)" and ?i = "sr_info r"
  let ?ws = "[si_sender_ssrc ?i, si_ntp_ts_msw ?i, si_ntp_ts_lsw ?i, si_rtp_ts ?i,
    si_sender_packet_count ?i, si_sender_octet_count ?i]"
  have W: "write_items write_u32 4 ?ws x pos = put x pos (sender_info_bytes ?i)"
    if "pos + length (sender_info_bytes ?i) \<le> length x" for x pos
    unfolding sender_info_bytes_def using that by (intro field32.write_items_put) simp
  have d: "(length b - DEFAULT_RTCP_HEADER_SIZE) div 4 = 6 + 6 * ?n"
    using assms(2) by (simp add: DEFAULT_RTCP_HEADER_SIZE_def)
  have h: "RtcpCommonHeader_Create DEFAULT_RTCP_VERSION 0 (of_nat ?n) RTCP_TYPE_SR (of_nat (6 + 6 * ?n)) b =
      map_option (\<lambda>b. (4, b)) (put b 0 (header_bytes ?n RTCP_TYPE_SR (6 + 6 * ?n) False))"
    using assms(1) by (intro header_Create_put) simp_all
  show ?thesis
    unfolding SenderReport_fill_def Let_def d h SenderReport_bytes_def
    using write_report [of b "sender_info_bytes ?i" "sr_reports r" "write_items write_u32 4 ?ws"
        ?n RTCP_TYPE_SR "6 + 6 * ?n"] W assms(2)
    by (simp del: write_items.simps)
qed

lemma ReceiverReport_fill_bytes:
  assumes "length (rr_reports r) \<le> 31" and "length b = 8 + length (rr_reports r) * 24"
  shows "ReceiverReport_fill r (length b) b = Some (ReceiverReport_bytes r)"
proof -
  let ?n = "length (rr_reports r)"
  have d: "(length b - DEFAULT_RTCP_HEADER_SIZE) div 4 = 1 + 6 * ?n"
    using assms(2) by (simp add: DEFAULT_RTCP_HEADER_SIZE_def)
  have h: "RtcpCommonHeader_Create DEFAULT_RTCP_VERSION 0 (of_nat ?n) RTCP_TYPE_RR (of_nat (1 + 6 * ?n)) b =
      map_option (\<lambda>b. (4, b)) (put b 0 (header_bytes ?n RTCP_TYPE_RR (1 + 6 * ?n) False))"
    using assms(1) by (intro header_Create_put) simp_all
  show ?thesis
    unfolding ReceiverReport_fill_def d h ReceiverReport_bytes_def
    using write_report [of b "be_bytes 4 (rr_sender_ssrc r)" "rr_reports r" "write_u32 (rr_sender_ssrc r)"
        ?n RTCP_TYPE_RR "1 + 6 * ?n"] assms(2)
    by (simp add: write_u32_put)
qed

lemma SenderReport_Build_bytes:
  assumes "length (sr_reports r) \<le> 31" and "sr_size r = length (sr_buffer r)"
  shows "SenderReport_Build junk r = Some (Some (SenderReport_bytes r),
    r\<lparr>sr_buffer := SenderReport_bytes r, sr_size := length (SenderReport_bytes r)\<rparr>)"
proof -
  let ?n = "28 + length (sr_reports r) * 24"
  define b where "b = (if ?n \<noteq> sr_size r then new_array junk ?n else sr_buffer r)"
  have b: "length b = ?n" using assms(2) by (simp add: b_def)
  then have "SenderReport_fill r ?n b = Some (SenderReport_bytes r)"
    using SenderReport_fill_bytes [OF assms(1) b] by simp
  then show ?thesis
    using assms(1) unfolding b_def
    by (simp add: SenderReport_Build_def report_consts(1-3) Let_def concat_report_length
        SenderReport_bytes_def mult.commute)
qed

lemma ReceiverReport_Build_bytes:
  assumes "length (rr_reports r) \<le> 31" and "rr_size r = length (rr_buffer r)"
  shows "ReceiverReport_Build junk r = Some (Some (ReceiverReport_bytes r),
    r\<lparr>rr_buffer := ReceiverReport_bytes r, rr_size := length (ReceiverReport_bytes r)\<rparr>)"
proof -
  let ?n = "8 + length (rr_reports r) * 24"
  define b where "b = (if ?n \<noteq> rr_size r then new_array junk ?n else rr_buffer r)"
  have b: "length b = ?n" using assms(2) by (simp add: b_def)
  then have "ReceiverReport_fill r ?n b = Some (ReceiverReport_bytes r)"
    using ReceiverReport_fill_bytes [OF assms(1) b] by simp
  then show ?thesis
    using assms(1) unfolding b_def
    by (simp add: ReceiverReport_Build_def report_consts(1,2,4) Let_def concat_report_length
        ReceiverReport_bytes_def mult.commute)
qed

lemma read_reports:
  assumes "\<forall>r \<in> set rs. lost_in_range r" and "n = length pre" and "k = length rs"
  shows "read_items (RtcpReportBlock_Parse new_report_block) kReportBlockLength k
    (pre @ concat (map report_block_bytes rs)) n = Some (map wire_part rs)"
proof -
  have "lost_in_range (wire_part r) \<and> wire_part (wire_part r) = wire_part r" if "lost_in_range r" for r
    using that by (simp add: lost_in_range_def CumulativeLost_def wire_part_def)
  with assms(1) have "\<forall>r \<in> set (map wire_part rs). lost_in_range r \<and> wire_part r = r" by auto
  from report_block.read_items_enc [OF this, of pre "[]"] assms(2,3) show ?thesis
    by (simp add: comp_def)
qed

lemma report_header_Parse:
  assumes "n \<le> 31" and "length body = 4 * len" and "len < 65536"
  shows "RtcpCommonHeader_Parse h (header_bytes n pt len False @ body) (4 + 4 * len) =
    Some (True, \<lparr>hdr_packet_type = pt, hdr_count_or_format = of_nat n, hdr_padding_size = 0,
      hdr_payload_size = of_nat (4 * len), hdr_payload = body\<rparr>)"
  using Parse_header_bytes [of n body len "4 + 4 * len" False h pt "[]"] assms by simp

text \<open>
  C35: \<open>SenderReport::Build\<close> fills exactly its buffer, for every content of freshly allocated
  memory and whatever was built before. Parsing the bytes gives back the sender information
  (SSRC, NTP and RTP time, counters) and every report block, with negative loss counts sign
  extended. The header announces the right type, count and size.
\<close>

theorem SenderReport_roundtrip:
  assumes "length (sr_reports r) \<le> 31" and "sr_size r = length (sr_buffer r)"
    and "\<forall>b \<in> set (sr_reports r). lost_in_range b"
  shows "\<exists>bytes r' h r''. SenderReport_Build junk r = Some (Some bytes, r') \<and> sr_size r' = length bytes \<and>
    RtcpCommonHeader_Parse h0 bytes (length bytes) = Some (True, h) \<and>
    hdr_packet_type h = 200 \<and> packet_size h = length bytes \<and>
    SenderReport_Parse r0 h = Some (True, r'') \<and> sr_info r'' = sr_info r \<and>
    sr_sender_ssrc r'' = si_sender_ssrc (sr_info r) \<and> sr_reports r'' = map wire_part (sr_reports r)"
proof -
  let ?n = "length (sr_reports r)" and ?i = "sr_info r" and ?len = "6 + 6 * length (sr_reports r)"
  let ?body = "sender_info_bytes ?i @ concat (map report_block_bytes (sr_reports r))"
  let ?h = "\<lparr>hdr_packet_type = 200, hdr_count_or_format = of_nat ?n, hdr_padding_size = 0,
      hdr_payload_size = of_nat (4 * ?len), hdr_payload = ?body\<rparr>"
  have lb: "length ?body = 4 * ?len" by (simp add: concat_report_length)
  have bytes: "SenderReport_bytes r = header_bytes ?n 200 ?len False @ ?body"
    by (simp add: SenderReport_bytes_def RTCP_TYPE_SR_def)
  have H: "RtcpCommonHeader_Parse h0 (SenderReport_bytes r) (length (SenderReport_bytes r)) = Some (True, ?h)"
    using report_header_Parse [OF assms(1) lb, of h0 200] assms(1) lb unfolding bytes by simp
  have sz: "unat (of_nat (4 * ?len) :: u32) = 4 * ?len"
    using assms(1) by (intro unat_of_nat_small) simp
  have cnt: "unat (of_nat ?n :: byte) = ?n"
    using assms(1) by (intro unat_of_nat_small) simp
  have f: "read_u32 ?body 0 = Some (si_sender_ssrc ?i)" "read_u32 ?body 4 = Some (si_ntp_ts_msw ?i)"
    "read_u32 ?body 8 = Some (si_ntp_ts_lsw ?i)" "read_u32 ?body 12 = Some (si_rtp_ts ?i)"
    "read_u32 ?body 16 = Some (si_sender_packet_count ?i)" "read_u32 ?body 20 = Some (si_sender_octet_count ?i)"
    using read_u32_at [of "[]" 0 "[]"] read_u32_at [of "be_bytes 4 (si_sender_ssrc ?i)" 4 "[]"]
      read_u32_at [of "be_bytes 4 (si_sender_ssrc ?i) @ be_bytes 4 (si_ntp_ts_msw ?i)" 8 "[]"]
      read_u32_at [of "be_bytes 4 (si_sender_ssrc ?i) @ be_bytes 4 (si_ntp_ts_msw ?i) @
        be_bytes 4 (si_ntp_ts_lsw ?i)" 12 "[]"]
      read_u32_at [of "be_bytes 4 (si_sender_ssrc ?i) @ be_bytes 4 (si_ntp_ts_msw ?i) @
        be_bytes 4 (si_ntp_ts_lsw ?i) @ be_bytes 4 (si_rtp_ts ?i)" 16 "[]"]
      read_u32_at [of "be_bytes 4 (si_sender_ssrc ?i) @ be_bytes 4 (si_ntp_ts_msw ?i) @
        be_bytes 4 (si_ntp_ts_lsw ?i) @ be_bytes 4 (si_rtp_ts ?i) @
        be_bytes 4 (si_sender_packet_count ?i)" 20 "[]"]
    by (simp_all add: sender_info_bytes_def)
  have rs: "read_items (RtcpReportBlock_Parse new_report_block) kReportBlockLength ?n ?body 24 =
      Some (map wire_part (sr_reports r))"
    by (rule read_reports [OF assms(3)]) simp_all
  have "SenderReport_Parse r0 ?h = Some (True, r0\<lparr>sr_header := ?h, sr_sender_ssrc := si_sender_ssrc ?i,
      sr_info := ?i, sr_reports := map wire_part (sr_reports r)\<rparr>)"
    unfolding SenderReport_Parse_def Let_def
    using f rs sz cnt by (cases ?i) (simp add: payload_size_bytes_def report_consts(1,3))
  with H sz SenderReport_Build_bytes [OF assms(1,2), of junk] show ?thesis
    by (auto simp: packet_size_def kHeaderSizeBytes_def bytes concat_report_length)
qed

theorem SenderReport_roundtrip_witness:
  "\<exists>bytes r' h r''. SenderReport_Build (\<lambda>_. 7) \<lparr>sr_sender_ssrc = 1, sr_header = new_header,
      sr_info = \<lparr>si_sender_ssrc = 1, si_ntp_ts_msw = 2, si_ntp_ts_lsw = 3, si_rtp_ts = 4,
        si_sender_packet_count = 5, si_sender_octet_count = 6\<rparr>,
      sr_reports = [new_report_block\<lparr>rb_cumulative_lost := - 3\<rparr>], sr_buffer = [], sr_size = 0\<rparr> =
      Some (Some bytes, r') \<and>
    RtcpCommonHeader_Parse new_header bytes (length bytes) = Some (True, h) \<and>
    SenderReport_Parse r' h = Some (True, r'') \<and> map CumulativeLost (sr_reports r'') = [- 3]"
  (is "\<exists>bytes r' h r''. SenderReport_Build _ ?r = _ \<and> _")
proof -
  have "sint (- 3 :: u32) = - 3" by simp
  then have l: "\<forall>b \<in> set (sr_reports ?r). lost_in_range b"
    by (simp add: lost_in_range_def CumulativeLost_def)
  show ?thesis
    using SenderReport_roundtrip [of ?r "\<lambda>_. 7" new_header, OF _ _ l]
      SenderReport_Build_bytes [of ?r "\<lambda>_. 7"] \<open>sint (- 3 :: u32) = - 3\<close>
    by (fastforce simp: CumulativeLost_def wire_part_def)
qed

lemma ReceiverReport_Parse_bytes:
  assumes "length (rr_reports r) \<le> 31" and "\<forall>b \<in> set (rr_reports r). lost_in_range b"
    and "bytes = ReceiverReport_bytes r"
  shows "\<exists>h r''. RtcpCommonHeader_Parse h0 bytes (length bytes) = Some (True, h) \<and>
    hdr_packet_type h = 201 \<and> packet_size h = length bytes \<and>
    ReceiverReport_Parse r0 h = Some (length bytes - 4, r'') \<and>
    rr_sender_ssrc r'' = rr_sender_ssrc r \<and> rr_reports r'' = map wire_part (rr_reports r)"
proof -
  let ?n = "length (rr_reports r)" and ?len = "1 + 6 * length (rr_reports r)"
  let ?body = "be_bytes 4 (rr_sender_ssrc r) @ concat (map report_block_bytes (rr_reports r))"
  let ?h = "\<lparr>hdr_packet_type = 201, hdr_count_or_format = of_nat ?n, hdr_padding_size = 0,
      hdr_payload_size = of_nat (4 * ?len), hdr_payload = ?body\<rparr>"
  have lb: "length ?body = 4 * ?len" by (simp add: concat_report_length)
  have bytes: "ReceiverReport_bytes r = header_bytes ?n 201 ?len False @ ?body"
    by (simp add: ReceiverReport_bytes_def RTCP_TYPE_RR_def)
  have H: "RtcpCommonHeader_Parse h0 (ReceiverReport_bytes r) (length (ReceiverReport_bytes r)) = Some (True, ?h)"
    using report_header_Parse [OF assms(1) lb, of h0 201] assms(1) lb unfolding bytes by simp
  have sz: "unat (of_nat (4 * ?len) :: u32) = 4 * ?len"
    using assms(1) by (intro unat_of_nat_small) simp
  have cnt: "unat (of_nat ?n :: byte) = ?n"
    using assms(1) by (intro unat_of_nat_small) simp
  have f: "read_u32 ?body 0 = Some (rr_sender_ssrc r)"
    using read_u32_at [of "[]" 0 "[]"] by simp
  have rs: "read_items (RtcpReportBlock_Parse new_report_block) kReportBlockLength ?n ?body 4 =
      Some (map wire_part (rr_reports r))"
    by (rule read_reports [OF assms(2)]) simp_all
  have "ReceiverReport_Parse r0 ?h = Some (length (ReceiverReport_bytes r) - 4, r0\<lparr>rr_header := ?h,
      rr_sender_ssrc := rr_sender_ssrc r, rr_reports := map wire_part (rr_reports r)\<rparr>)"
    unfolding ReceiverReport_Parse_def Let_def
    using f rs sz cnt lb by (simp add: payload_size_bytes_def report_consts(1,4) bytes)
  with H sz show ?thesis
    by (auto simp: assms(3) packet_size_def kHeaderSizeBytes_def bytes concat_report_length)
qed

text \<open>
  the same for \<open>ReceiverReport\<close>: parsing what \<open>Build\<close> wrote returns the number of bytes of
  the payload, the sender's SSRC and every report block.
\<close>

theorem ReceiverReport_roundtrip:
  assumes "length (rr_reports r) \<le> 31" and "rr_size r = length (rr_buffer r)"
    and "\<forall>b \<in> set (rr_reports r). lost_in_range b"
  shows "\<exists>bytes r' h r''. ReceiverReport_Build junk r = Some (Some bytes, r') \<and> rr_size r' = length bytes \<and>
    RtcpCommonHeader_Parse h0 bytes (length bytes) = Some (True, h) \<and>
    hdr_packet_type h = 201 \<and> packet_size h = length bytes \<and>
    ReceiverReport_Parse r0 h = Some (length bytes - 4, r'') \<and>
    rr_sender_ssrc r'' = rr_sender_ssrc r \<and> rr_reports r'' = map wire_part (rr_reports r)"
  using ReceiverReport_Build_bytes [OF assms(1,2), of junk] ReceiverReport_Parse_bytes [OF assms(1,3) refl, of h0 r0]
  by fastforce

theorem ReceiverReport_roundtrip_witness:
  "\<exists>bytes r'. ReceiverReport_Build (\<lambda>_. 7) \<lparr>rr_sender_ssrc = 1, rr_header = new_header,
      rr_reports = [new_report_block], rr_buffer = [], rr_size = 0\<rparr> = Some (Some bytes, r') \<and>
    rr_size r' = length bytes"
  using ReceiverReport_roundtrip [of "\<lparr>rr_sender_ssrc = 1, rr_header = new_header,
      rr_reports = [new_report_block], rr_buffer = [], rr_size = 0\<rparr>" "\<lambda>_. 7"]
  by (fastforce simp: lost_in_range_def CumulativeLost_def new_report_block_def)

text \<open>
  on every packet whose common header was accepted, the report parsers finish inside the
  received bytes; a report is accepted exactly when its payload holds the announced number of
  blocks, and then that many blocks are stored.
\<close>

theorem report_Parse_safe:
  assumes "RtcpCommonHeader_Parse h buffer size_bytes = Some (True, h')" and "size_bytes \<le> length buffer"
  shows "(\<exists>r'. SenderReport_Parse r h' =
        Some (24 + 24 * unat (hdr_count_or_format h') \<le> payload_size_bytes h', r') \<and>
      (24 + 24 * unat (hdr_count_or_format h') \<le> payload_size_bytes h' \<longrightarrow>
        length (sr_reports r') = unat (hdr_count_or_format h'))) \<and>
    (\<exists>q'. ReceiverReport_Parse q h' =
        Some (if 4 + 24 * unat (hdr_count_or_format h') \<le> payload_size_bytes h'
          then 4 + 24 * unat (hdr_count_or_format h') else 0, q'))"
proof -
  let ?p = "hdr_payload h'" and ?c = "unat (hdr_count_or_format h')" and ?n = "payload_size_bytes h'"
  have len: "?n \<le> length ?p" using Parse_payload_length [OF assms] .
  have u: "\<exists>x. read_u32 ?p k = Some x" if "k + 4 \<le> ?n" for k
    using that len by (intro field32.dec_total) simp
  have rs: "\<exists>xs. read_items (RtcpReportBlock_Parse new_report_block) kReportBlockLength ?c ?p k = Some xs \<and>
      length xs = ?c" if "k + 24 * ?c \<le> ?n" for k
    using that len by (intro report_block.read_items_total) (simp add: kReportBlockLength_def mult.commute)
  have "\<exists>r'. SenderReport_Parse r h' = Some (24 + 24 * ?c \<le> ?n, r') \<and>
      (24 + 24 * ?c \<le> ?n \<longrightarrow> length (sr_reports r') = ?c)"
  proof (cases "24 + 24 * ?c \<le> ?n")
    case True
    with u [of 0] u [of 4] u [of 8] u [of 12] u [of 16] u [of 20] rs [of 24] show ?thesis
      by (auto simp: SenderReport_Parse_def report_consts(1,3) Let_def mult.commute)
  qed (simp add: SenderReport_Parse_def report_consts(1,3) Let_def mult.commute)
  moreover have "\<exists>q'. ReceiverReport_Parse q h' = Some (if 4 + 24 * ?c \<le> ?n then 4 + 24 * ?c else 0, q')"
  proof (cases "4 + 24 * ?c \<le> ?n")
    case True
    with u [of 0] rs [of 4] show ?thesis
      by (auto simp: ReceiverReport_Parse_def report_consts(1,4) Let_def mult.commute)
  qed (simp add: ReceiverReport_Parse_def report_consts(1,4) Let_def mult.commute)
  ultimately show ?thesis by blast
qed

theorem report_Parse_safe_witness:
  "\<exists>h'. RtcpCommonHeader_Parse new_header [0x81, 201, 0, 1, 0, 0, 0, 7] 8 = Some (True, h') \<and>
    (\<exists>q'. ReceiverReport_Parse \<lparr>rr_sender_ssrc = 1, rr_header = new_header, rr_reports = [],
        rr_buffer = [], rr_size = 0\<rparr> h' =
      Some (if 4 + 24 * unat (hdr_count_or_format h') \<le> payload_size_bytes h'
          then 4 + 24 * unat (hdr_count_or_format h') else 0, q'))"
proof -
  have "\<exists>h'. RtcpCommonHeader_Parse new_header [0x81, 201, 0, 1, 0, 0, 0, 7] 8 = Some (True, h')"
    by (simp add: RtcpCommonHeader_Parse_def kHeaderSizeBytes_def rd_def Let_def)
  then show ?thesis using report_Parse_safe by fastforce
qed

text \<open>
  the NTP timestamp of a sender report is split and reassembled without loss, and the
  compact form that receivers echo as LSR is its middle 32 bits.
\<close>

theorem NtpTimestamp_compact:
  "NtpTimestamp (SetNtpTimestamp r t) = t \<and>
    CompactNtpTimestamp (SetNtpTimestamp r t) = ucast (drop_bit 16 t)"
proof
  show "NtpTimestamp (SetNtpTimestamp r t) = t"
    by (rule bit_word_eqI) (auto simp: NtpTimestamp_def SetNtpTimestamp_def bit_simps)
  show "CompactNtpTimestamp (SetNtpTimestamp r t) = ucast (drop_bit 16 t)"
    by (rule bit_word_eqI) (auto simp: CompactNtpTimestamp_def SetNtpTimestamp_def bit_simps)
qed

end
