(* ===== verification/TaskQueue.thy ===== *)
theory TaskQueue
  imports Prelude
begin

text \<open>
  The task queue of the sending side, \<open>src/common/task_queue.h\<close>: a priority queue of tasks ordered
  by execution time and, at equal times, by a sequence number, and the worker that runs them. The
  times are readings of the steady clock, in its ticks of a nanosecond, and arguments of the model.

  The heap is the list of its items in the order in which \<open>top\<close> and \<open>pop\<close> give them. The sequence
  number is a 64-bit counter in the code; it is unbounded here.
\<close>

section \<open>The queue\<close>

record 'a TaskItem =
  ti_execute_time :: int
  ti_sequence_id :: nat
  ti_task :: 'a

record 'a TaskQueue =
  tq_items :: "'a TaskItem list"
  tq_stop :: bool
  tq_next_sequence_id :: nat

definition new_TaskQueue :: "'a TaskQueue" where
  "new_TaskQueue = \<lparr>tq_items = [], tq_stop = False, tq_next_sequence_id = 0\<rparr>"

text \<open>\<open>TaskItem::operator>\<close>, and \<open>emplace\<close> behind the items that are not greater.\<close>

definition item_greater :: "'a TaskItem \<Rightarrow> 'a TaskItem \<Rightarrow> bool" where
  "item_greater a b = (if ti_execute_time a \<noteq> ti_execute_time b then ti_execute_time a > ti_execute_time b
     else ti_sequence_id a > ti_sequence_id b)"

fun emplace :: "'a TaskItem \<Rightarrow> 'a TaskItem list \<Rightarrow> 'a TaskItem list" where
  "emplace x [] = [x]"
| "emplace x (y # ys) = (if item_greater y x then x # y # ys else y # emplace x ys)"

definition PostDelayedTaskAt :: "'a TaskQueue \<Rightarrow> 'a \<Rightarrow> int \<Rightarrow> bool \<times> 'a TaskQueue" where
  "PostDelayedTaskAt q task execute_time =
     (if tq_stop q then (False, q)
      else (True, q\<lparr>tq_items := emplace \<lparr>ti_execute_time = execute_time, ti_sequence_id = tq_next_sequence_id q, ti_task = task\<rparr> (tq_items q),
        tq_next_sequence_id := tq_next_sequence_id q + 1\<rparr>))"

definition PostDelayedTask :: "int \<Rightarrow> 'a TaskQueue \<Rightarrow> 'a \<Rightarrow> int \<Rightarrow> bool \<times> 'a TaskQueue" where
  "PostDelayedTask now q task delay_ms = PostDelayedTaskAt q task (now + delay_ms * 1000000)"

definition PostDelayedHighPrecisionTask :: "int \<Rightarrow> 'a TaskQueue \<Rightarrow> 'a \<Rightarrow> int \<Rightarrow> bool \<times> 'a TaskQueue" where
  "PostDelayedHighPrecisionTask now q task delay_us = PostDelayedTaskAt q task (now + delay_us * 1000)"

definition PostTask :: "int \<Rightarrow> 'a TaskQueue \<Rightarrow> 'a \<Rightarrow> bool \<times> 'a TaskQueue" where
  "PostTask now q task = PostDelayedTask now q task 0"

definition ClearTasks :: "'a TaskQueue \<Rightarrow> 'a TaskQueue" where
  "ClearTasks q = q\<lparr>tq_items := []\<rparr>"

definition Stop :: "'a TaskQueue \<Rightarrow> 'a TaskQueue" where
  "Stop q = q\<lparr>tq_stop := True\<rparr>"

section \<open>The worker\<close>

text \<open>
  One look of the worker at the queue, under the lock. \<open>timed\<close> says that the worker comes back from
  the timed wait of an earlier look: then a stop ends it even if tasks are left.
\<close>

datatype 'a WorkerStep = Exit | Wait | WaitUntil int | Run 'a

definition WorkerThread :: "int \<Rightarrow> bool \<Rightarrow> 'a TaskQueue \<Rightarrow> 'a WorkerStep \<times> 'a TaskQueue" where
  "WorkerThread now timed q =
     (if timed \<and> tq_stop q then (Exit, q)
      else case tq_items q of
        [] \<Rightarrow> (if tq_stop q then (Exit, q) else (Wait, q))
      | item # rest \<Rightarrow>
          if ti_execute_time item > now then (WaitUntil (ti_execute_time item), q)
          else (Run (ti_task item), q\<lparr>tq_items := rest\<rparr>))"

section \<open>Order\<close>

definition item_key :: "'a TaskItem \<Rightarrow> int \<times> nat" where
  "item_key i = (ti_execute_time i, ti_sequence_id i)"

definition key_less :: "int \<times> nat \<Rightarrow> int \<times> nat \<Rightarrow> bool" where
  "key_less a b \<longleftrightarrow> fst a < fst b \<or> fst a = fst b \<and> snd a < snd b"

lemma item_greater_key: "item_greater a b \<longleftrightarrow> key_less (item_key b) (item_key a)"
  by (auto simp: item_greater_def key_less_def item_key_def)

lemma key_less_trans: "key_less a b \<Longrightarrow> key_less b c \<Longrightarrow> key_less a c"
  by (auto simp: key_less_def)

lemma key_less_linear: "a = b \<or> key_less a b \<or> key_less b a"
  by (cases a; cases b) (auto simp: key_less_def)

lemma set_emplace [simp]: "set (emplace x xs) = insert x (set xs)"
  by (induction xs) auto

definition queue_ok :: "'a TaskQueue \<Rightarrow> bool" where
  "queue_ok q \<longleftrightarrow> sorted_wrt key_less (map item_key (tq_items q)) \<and> (\<forall>i \<in> set (tq_items q). ti_sequence_id i < tq_next_sequence_id q)"

lemma emplace_sorted:
  assumes "sorted_wrt key_less (map item_key xs)" and "item_key x \<notin> item_key ` set xs"
  shows "sorted_wrt key_less (map item_key (emplace x xs))"
  using assms
proof (induction xs)
  case (Cons y ys)
  show ?case
  proof (cases "item_greater y x")
    case True
    then show ?thesis using Cons.prems by (auto simp: item_greater_key intro: key_less_trans)
  next
    case False
    then have "key_less (item_key y) (item_key x)" using key_less_linear [of "item_key y" "item_key x"] Cons.prems(2) by (auto simp: item_greater_key)
    then show ?thesis using Cons False by auto
  qed
qed simp

lemma emplace_last: "(\<forall>y \<in> set xs. \<not> item_greater y x) \<Longrightarrow> emplace x xs = xs @ [x]"
  by (induction xs) auto

lemma PostDelayedTaskAt_ok: "queue_ok q \<Longrightarrow> queue_ok (snd (PostDelayedTaskAt q task t))"
proof -
  assume q: "queue_ok q"
  let ?x = "\<lparr>ti_execute_time = t, ti_sequence_id = tq_next_sequence_id q, ti_task = task\<rparr>"
  have "item_key ?x \<notin> item_key ` set (tq_items q)" using q by (auto simp: queue_ok_def item_key_def)
  then show ?thesis using q emplace_sorted [of "tq_items q" ?x] by (auto simp: PostDelayedTaskAt_def queue_ok_def less_SucI)
qed

section \<open>The queue as a first-in first-out queue\<close>

text \<open>
  The interface the clients rely on when they only post tasks to be run at once: with a clock that
  does not go back the tasks run in the order of posting.
\<close>

locale fifo =
  fixes post :: "int \<Rightarrow> 'q \<Rightarrow> 'a \<Rightarrow> bool \<times> 'q" and next_task :: "int \<Rightarrow> 'q \<Rightarrow> 'a WorkerStep \<times> 'q"
    and contents :: "'q \<Rightarrow> 'a list" and live :: "'q \<Rightarrow> bool" and inv :: "int \<Rightarrow> 'q \<Rightarrow> bool"
  assumes post_inv: "inv t q \<Longrightarrow> t \<le> t' \<Longrightarrow> inv t' (snd (post t' q x))"
    and post_live: "inv t q \<Longrightarrow> t \<le> t' \<Longrightarrow> live q \<Longrightarrow> fst (post t' q x) \<and> live (snd (post t' q x)) \<and> contents (snd (post t' q x)) = contents q @ [x]"
    and post_stopped: "\<not> live q \<Longrightarrow> post t' q x = (False, q)"
    and next_inv: "inv t q \<Longrightarrow> t \<le> t' \<Longrightarrow> inv t' (snd (next_task t' q))"
    and next_run: "inv t q \<Longrightarrow> t \<le> t' \<Longrightarrow> contents q = x # xs \<Longrightarrow>
      fst (next_task t' q) = Run x \<and> contents (snd (next_task t' q)) = xs \<and> live (snd (next_task t' q)) = live q"
    and next_empty: "inv t q \<Longrightarrow> t \<le> t' \<Longrightarrow> contents q = [] \<Longrightarrow> next_task t' q = (if live q then Wait else Exit, q)"
begin

fun post_all :: "(int \<times> 'a) list \<Rightarrow> 'q \<Rightarrow> 'q" where
  "post_all [] q = q"
| "post_all ((t, x) # txs) q = post_all txs (snd (post t q x))"

fun run_all :: "int list \<Rightarrow> 'q \<Rightarrow> 'a WorkerStep list \<times> 'q" where
  "run_all [] q = ([], q)"
| "run_all (t # ts) q = (let (s, q') = next_task t q; (ss, q'') = run_all ts q' in (s # ss, q''))"

lemma post_all_contents:
  assumes "inv t0 q" and "live q" and "sorted (t0 # map fst txs)"
  shows "inv (last (t0 # map fst txs)) (post_all txs q) \<and> live (post_all txs q) \<and> contents (post_all txs q) = contents q @ map snd txs"
  using assms
proof (induction txs arbitrary: q t0)
  case (Cons tx txs)
  obtain t x where tx: "tx = (t, x)" by fastforce
  have "t0 \<le> t" using Cons.prems(3) tx by simp
  then have p: "inv t (snd (post t q x))" "live (snd (post t q x))" "contents (snd (post t q x)) = contents q @ [x]"
    using post_inv [OF Cons.prems(1)] post_live [OF Cons.prems(1) _ Cons.prems(2)] by auto
  show ?case using Cons.IH [OF p(1,2)] Cons.prems(3) tx p(3) by auto
qed simp

lemma run_all_contents:
  assumes "inv t0 q" and "sorted (t0 # ts)" and "length ts = length (contents q)"
  shows "fst (run_all ts q) = map Run (contents q) \<and> contents (snd (run_all ts q)) = []"
  using assms
proof (induction ts arbitrary: q t0)
  case (Cons t ts)
  then obtain x xs where c: "contents q = x # xs" by (cases "contents q") auto
  have "t0 \<le> t" using Cons.prems(2) by simp
  then have n: "fst (next_task t q) = Run x" "contents (snd (next_task t q)) = xs" "inv t (snd (next_task t q))"
    using next_run [OF Cons.prems(1) _ c] next_inv [OF Cons.prems(1)] by auto
  show ?case using Cons.IH [OF n(3)] n(1,2) Cons.prems c by (cases "next_task t q") (auto simp: Let_def split: prod.splits)
qed simp

lemma fifo_order:
  assumes "inv t0 q" and "live q" and "contents q = []" and "sorted (t0 # map fst txs @ ts)" and "length ts = length txs"
  shows "fst (run_all ts (post_all txs q)) = map Run (map snd txs)"
proof -
  have s: "sorted (t0 # map fst txs)" "sorted (last (t0 # map fst txs) # ts)"
    using assms(4) last_in_set [of "t0 # map fst txs"] by (auto simp: sorted_append simp del: last.simps)
  show ?thesis using post_all_contents [OF assms(1,2) s(1)] run_all_contents [OF _ s(2)] assms(3,5) by simp
qed

end

text \<open>No task is later than the clock: the invariant of a queue to which only \<open>PostTask\<close> posts.\<close>

definition prompt :: "int \<Rightarrow> 'a TaskQueue \<Rightarrow> bool" where
  "prompt now q \<longleftrightarrow> queue_ok q \<and> (\<forall>i \<in> set (tq_items q). ti_execute_time i \<le> now)"

definition tasks_of :: "'a TaskQueue \<Rightarrow> 'a list" where
  "tasks_of q = map ti_task (tq_items q)"

lemma PostTask_prompt:
  assumes "prompt t q" and "t \<le> t'"
  shows "prompt t' (snd (PostTask t' q x)) \<and> (\<not> tq_stop q \<longrightarrow> fst (PostTask t' q x) \<and> \<not> tq_stop (snd (PostTask t' q x)) \<and>
    tasks_of (snd (PostTask t' q x)) = tasks_of q @ [x])"
proof (cases "tq_stop q")
  case True
  then show ?thesis using assms by (auto simp: PostTask_def PostDelayedTask_def PostDelayedTaskAt_def prompt_def)
next
  case False
  let ?x = "\<lparr>ti_execute_time = t', ti_sequence_id = tq_next_sequence_id q, ti_task = x\<rparr>"
  have "\<forall>y \<in> set (tq_items q). \<not> item_greater y ?x" using assms by (auto simp: prompt_def queue_ok_def item_greater_def)
  from emplace_last [OF this] show ?thesis
    using assms False PostDelayedTaskAt_ok [of q x t']
    by (auto simp: PostTask_def PostDelayedTask_def PostDelayedTaskAt_def prompt_def tasks_of_def)
qed

interpretation task_fifo: fifo PostTask "\<lambda>now. WorkerThread now False" tasks_of "\<lambda>q. \<not> tq_stop q" prompt
proof
  show "prompt t' (snd (PostTask t' q x))" if "prompt t q" "t \<le> t'" for t t' :: int and q :: "'a TaskQueue" and x
    using PostTask_prompt [OF that] by blast
  show "fst (PostTask t' q x) \<and> \<not> tq_stop (snd (PostTask t' q x)) \<and> tasks_of (snd (PostTask t' q x)) = tasks_of q @ [x]"
    if "prompt t q" "t \<le> t'" "\<not> tq_stop q" for t t' :: int and q :: "'a TaskQueue" and x
    using PostTask_prompt [OF that(1,2)] that(3) by blast
  show "prompt t' (snd (WorkerThread t' False q))" if "prompt t q" "t \<le> t'" for t t' :: int and q :: "'a TaskQueue"
    using that by (cases "tq_items q") (auto simp: WorkerThread_def prompt_def queue_ok_def)
qed (auto simp: WorkerThread_def prompt_def tasks_of_def PostTask_def PostDelayedTask_def PostDelayedTaskAt_def)

section \<open>Properties\<close>



end
