(* ===== verification/VideoSender.thy ===== *)
theory VideoSender
  imports PacketHistory Av1 Clock RtcpReports TaskQueue
begin

text \<open>
  The sending side of a video channel, \<open>src/transport/channel/video_channel_send.{h,cpp}\<close>, with the
  choice of a packetizer (\<open>src/rtp/rtp_packetizer/rtp_packetizer.cpp\<close>) and the entrance of the paced
  sender (\<open>src/transport/paced_sender/paced_sender.cpp\<close>).

  The history is only touched by the tasks of its own queue. \<open>OnReceiveNack\<close> collects numbers under
  a lock and schedules at most one task that answers them; the locked sections are definitions of
  their own, so that executions can interleave between them. Clock readings and the frame are
  arguments; \<open>std::unordered_set\<close> is a list without duplicates whose order says nothing (executions may
  permute it). Random sources and timestamps are arguments of the constructor.
\<close>

section \<open>Packetizers\<close>

datatype AnyPacketizer = RtpPacketizerH264 Packetizer | RtpPacketizerAv1 Av1Packetizer | RtpPacketizerGeneric Packetizer

definition Packetizer_Create :: "u32 \<Rightarrow> u32 \<Rightarrow> AnyPacketizer" where
  "Packetizer_Create payload_type ssrc =
     (if payload_type = PT_H264 then RtpPacketizerH264 (new_Packetizer ssrc PT_H264)
      else if payload_type = PT_AV1 then RtpPacketizerAv1 (new_Av1Packetizer ssrc)
      else RtpPacketizerGeneric (new_Packetizer ssrc payload_type))"

fun any_SetAbsoluteSendTimeExtensionId :: "byte option \<Rightarrow> AnyPacketizer \<Rightarrow> AnyPacketizer" where
  "any_SetAbsoluteSendTimeExtensionId i (RtpPacketizerH264 z) = RtpPacketizerH264 (SetAbsoluteSendTimeExtensionId z i)"
| "any_SetAbsoluteSendTimeExtensionId i (RtpPacketizerAv1 a) = RtpPacketizerAv1 (a\<lparr>av_base := SetAbsoluteSendTimeExtensionId (av_base a) i\<rparr>)"
| "any_SetAbsoluteSendTimeExtensionId i (RtpPacketizerGeneric z) = RtpPacketizerGeneric (SetAbsoluteSendTimeExtensionId z i)"

fun any_SetIsKeyFrame :: "bool \<Rightarrow> AnyPacketizer \<Rightarrow> AnyPacketizer" where
  "any_SetIsKeyFrame k (RtpPacketizerAv1 a) = RtpPacketizerAv1 (SetIsKeyFrame a k)"
| "any_SetIsKeyFrame k z = z"

fun any_Build :: "AnyPacketizer \<Rightarrow> byte list \<Rightarrow> nat \<Rightarrow> u32 \<Rightarrow> (RtpPacket list \<times> AnyPacketizer) option" where
  "any_Build (RtpPacketizerH264 z) payload n ts = map_option (apsnd RtpPacketizerH264) (H264_Build z payload n ts)"
| "any_Build (RtpPacketizerAv1 a) payload n ts = map_option (apsnd RtpPacketizerAv1) (Av1_Build a payload n ts)"
| "any_Build (RtpPacketizerGeneric z) payload n ts = map_option (apsnd RtpPacketizerGeneric) (Generic_Build z payload n ts)"

fun any_BuildPadding :: "AnyPacketizer \<Rightarrow> nat \<Rightarrow> u32 \<Rightarrow> (RtpPacket list \<times> AnyPacketizer) option" where
  "any_BuildPadding (RtpPacketizerH264 z) n ts = map_option (apsnd RtpPacketizerH264) (H264_BuildPadding z n ts)"
| "any_BuildPadding (RtpPacketizerAv1 a) n ts = Some (apsnd RtpPacketizerAv1 (Av1_BuildPadding a n ts))"
| "any_BuildPadding (RtpPacketizerGeneric z) n ts = Some ([], RtpPacketizerGeneric z)"

section \<open>The entrance of the paced sender\<close>

text \<open>
  A packet that is let in is posted to the task queue of the pacer: \<open>pa_posted\<close> are the packets
  posted, in this order.
\<close>

record PacedSender =
  pa_is_shutdown :: bool
  pa_posted :: "RtpPacketToSend list"

definition EnqueueRtpPacket :: "PacedSender \<Rightarrow> RtpPacketToSend \<Rightarrow> int \<times> PacedSender" where
  "EnqueueRtpPacket p packet = (if pa_is_shutdown p then (- 1, p) else (0, p\<lparr>pa_posted := pa_posted p @ [packet]\<rparr>))"

definition media_type_of :: "byte \<Rightarrow> RtpPacketMediaType" where
  "media_type_of payload_type =
     (if payload_type = 97 \<or> payload_type = 98 then kForwardErrorCorrection
      else if payload_type = 111 then kAudio else kVideo)"

definition EnqueueRtpPackets :: "PacedSender \<Rightarrow> RtpPacketToSend list \<Rightarrow> int \<Rightarrow> string \<Rightarrow> PacedSender" where
  "EnqueueRtpPackets p rtp_packets captured_timestamp_us stream_name =
     (let to_send = map (\<lambda>t. set_packet_type (t\<lparr>ts_capture_time := captured_timestamp_us, ts_stream_name := stream_name\<rparr>)
            (media_type_of (rp_payload_type (ts_packet t)))) rtp_packets in
      if pa_is_shutdown p then p else p\<lparr>pa_posted := pa_posted p @ to_send\<rparr>)"

section \<open>State\<close>

text \<open>The closures posted to the queue of the history.\<close>

datatype HistoryTask = SentTask RtpPacketToSend | AbortTask u16 | KeepTask RtpPacketToSend | NackTask | RttTask int

record VideoSender =
  vs_channel_name :: string
  vs_clock :: "SystemClock option"
  vs_ice_agent :: bool
  vs_paced_sender :: "PacedSender option"
  vs_rtp_packetizer :: "AnyPacketizer option"
  vs_padding_packetizer :: "AnyPacketizer option"
  vs_abs_send_time_ext_id :: "byte option"
  vs_ssrc :: u32
  vs_rtx_ssrc :: u32
  vs_rtx_enabled :: bool
  vs_rtp_timestamp_generator :: RtpTimestampGenerator
  vs_rtp_packet_history :: PacketHistory
  vs_pending_nacks :: "u16 list"
  vs_nack_task_scheduled :: bool
  vs_history_shutdown :: bool
  vs_last_sender_report_time_us :: int
  vs_sender_packet_count :: u32
  vs_sender_octet_count :: u32
  vs_task_queue_history :: "HistoryTask TaskQueue option"
  vs_rtcp_sent :: "byte list list"

definition kSenderReportIntervalUs :: int where "kSenderReportIntervalUs = 1000000"
definition kVideoPayloadTypeFrequency :: u32 where "kVideoPayloadTypeFrequency = 90000"
definition kMaxNacksPerTask :: nat where "kMaxNacksPerTask = 512"

definition new_VideoSender :: "string \<Rightarrow> SystemClock option \<Rightarrow> bool \<Rightarrow> u32 \<Rightarrow> u32 \<Rightarrow> u32 \<Rightarrow> VideoSender" where
  "new_VideoSender channel_name clock ice_agent ssrc rtx_ssrc random_timestamp =
     \<lparr>vs_channel_name = channel_name, vs_clock = clock, vs_ice_agent = ice_agent, vs_paced_sender = None,
      vs_rtp_packetizer = None, vs_padding_packetizer = None, vs_abs_send_time_ext_id = None,
      vs_ssrc = ssrc, vs_rtx_ssrc = rtx_ssrc, vs_rtx_enabled = False,
      vs_rtp_timestamp_generator = new_RtpTimestampGenerator kVideoPayloadTypeFrequency random_timestamp,
      vs_rtp_packet_history = new_PacketHistory, vs_pending_nacks = [], vs_nack_task_scheduled = False,
      vs_history_shutdown = False, vs_last_sender_report_time_us = 0, vs_sender_packet_count = 0,
      vs_sender_octet_count = 0, vs_task_queue_history = None, vs_rtcp_sent = []\<rparr>"

definition Send_Initialize :: "VideoSender \<Rightarrow> u32 \<Rightarrow> PacedSender \<Rightarrow> bool \<Rightarrow> VideoSender" where
  "Send_Initialize s payload_type packet_sender rtx_enabled =
     (let i = vs_abs_send_time_ext_id s in
      s\<lparr>vs_rtx_enabled := rtx_enabled, vs_paced_sender := Some packet_sender,
        vs_rtp_packetizer := Some (any_SetAbsoluteSendTimeExtensionId i (Packetizer_Create payload_type (vs_ssrc s))),
        vs_padding_packetizer := Some (any_SetAbsoluteSendTimeExtensionId i
          (Packetizer_Create payload_type (if rtx_enabled then vs_rtx_ssrc s else vs_ssrc s))),
        vs_task_queue_history := Some new_TaskQueue\<rparr>)"

definition Send_SetAbsoluteSendTimeExtensionId :: "VideoSender \<Rightarrow> byte option \<Rightarrow> VideoSender" where
  "Send_SetAbsoluteSendTimeExtensionId s extension_id =
     s\<lparr>vs_abs_send_time_ext_id := extension_id,
       vs_rtp_packetizer := map_option (any_SetAbsoluteSendTimeExtensionId extension_id) (vs_rtp_packetizer s),
       vs_padding_packetizer := map_option (any_SetAbsoluteSendTimeExtensionId extension_id) (vs_padding_packetizer s)\<rparr>"

text \<open>\<open>task_queue_history_->PostTask\<close>; the pointer is checked by every caller.\<close>

definition post_history :: "int \<Rightarrow> HistoryTask \<Rightarrow> VideoSender \<Rightarrow> (bool \<times> VideoSender) option" where
  "post_history tick task s = do {
     q \<leftarrow> vs_task_queue_history s;
     let (ok, q) = PostTask tick q task in Some (ok, s\<lparr>vs_task_queue_history := Some q\<rparr>) }"

section \<open>Sending a frame\<close>

record EncodedFrame =
  ef_buffer :: "byte list"
  ef_size :: nat
  ef_is_key :: bool
  ef_captured_timestamp :: int

definition SendVideo :: "VideoSender \<Rightarrow> EncodedFrame \<Rightarrow> VideoSender option" where
  "SendVideo s encoded_frame =
     (case (vs_rtp_packetizer s, vs_paced_sender s) of
        (Some z, Some p) \<Rightarrow>
          let is_key_frame = ef_is_key encoded_frame;
              z = any_SetIsKeyFrame is_key_frame z;
              (rtp_timestamp, g) = TimestampForCaptureTimeUs (vs_rtp_timestamp_generator s) (ef_captured_timestamp encoded_frame) in do {
          (rtp_packets, z) \<leftarrow> any_Build z (ef_buffer encoded_frame) (unat (of_nat (ef_size encoded_frame) :: u32)) rtp_timestamp;
          let to_send = map (\<lambda>index. (new_RtpPacketToSend (rtp_packets ! index))\<lparr>ts_is_key_frame := is_key_frame,
                ts_is_first_packet_of_frame := (index = 0)\<rparr>) [0..<length rtp_packets] in
          Some (s\<lparr>vs_rtp_packetizer := Some z, vs_rtp_timestamp_generator := g,
            vs_paced_sender := Some (EnqueueRtpPackets p to_send (ef_captured_timestamp encoded_frame) (vs_channel_name s))\<rparr>) }
      | _ \<Rightarrow> Some s)"

definition GeneratePadding :: "VideoSender \<Rightarrow> nat \<Rightarrow> int \<Rightarrow> (RtpPacket list \<times> VideoSender) option" where
  "GeneratePadding s payload_size padding_time_us =
     (case vs_padding_packetizer s of
        Some z \<Rightarrow> do {
          (ps, z) \<leftarrow> any_BuildPadding z payload_size (TimestampForPaddingTimeUs (vs_rtp_timestamp_generator s) padding_time_us);
          Some (ps, s\<lparr>vs_padding_packetizer := Some z\<rparr>) }
      | None \<Rightarrow> Some ([], s))"

section \<open>Sender reports\<close>

text \<open>The report object on the stack: its header and its unset members are arbitrary.\<close>

definition make_sender_report :: "SenderReport \<Rightarrow> u32 \<Rightarrow> u64 \<Rightarrow> u32 \<Rightarrow> u32 \<Rightarrow> u32 \<Rightarrow> SenderReport" where
  "make_sender_report object ssrc ntp timestamp packets octets =
     (let r = object\<lparr>sr_reports := [], sr_buffer := [], sr_size := 0, sr_sender_ssrc := ssrc,
            sr_info := (sr_info object)\<lparr>si_sender_ssrc := ssrc\<rparr>\<rparr>;
          r = SetNtpTimestamp r ntp in
      r\<lparr>sr_info := (sr_info r)\<lparr>si_rtp_ts := timestamp, si_sender_packet_count := packets,
        si_sender_octet_count := octets\<rparr>\<rparr>)"

definition MaybeSendSenderReport :: "(nat \<Rightarrow> byte) \<Rightarrow> SenderReport \<Rightarrow> int \<Rightarrow> VideoSender \<Rightarrow> RtpPacketToSend \<Rightarrow> VideoSender option" where
  "MaybeSendSenderReport junk object now_us s packet =
     (case vs_clock s of None \<Rightarrow> Some s
      | Some clock \<Rightarrow>
        if \<not> vs_ice_agent s \<or> rp_ssrc (ts_packet packet) \<noteq> vs_ssrc s \<or>
           ts_retransmitted_sequence_number packet \<noteq> None \<or> ts_packet_type packet \<noteq> Some kVideo
        then Some s
        else
          let s = s\<lparr>vs_sender_packet_count := vs_sender_packet_count s + 1,
                vs_sender_octet_count := vs_sender_octet_count s + of_nat (rp_payload_size (ts_packet packet))\<rparr> in
          if vs_last_sender_report_time_us s \<noteq> 0 \<and> now_us - vs_last_sender_report_time_us s < kSenderReportIntervalUs
          then Some s
          else
            let s = s\<lparr>vs_last_sender_report_time_us := now_us\<rparr>;
                r = make_sender_report object (vs_ssrc s) (MonotonicTimeUsToNtp clock now_us)
                  (TimestampForPaddingTimeUs (vs_rtp_timestamp_generator s) now_us)
                  (vs_sender_packet_count s) (vs_sender_octet_count s) in do {
            (built, r) \<leftarrow> SenderReport_Build junk r;
            if built = None then Some s
            else do { d \<leftarrow> seg (sr_buffer r) 0 (sr_size r); Some (s\<lparr>vs_rtcp_sent := vs_rtcp_sent s @ [d]\<rparr>) } })"

section \<open>The outcome of sending\<close>

definition OnSentRtpPacket :: "(nat \<Rightarrow> byte) \<Rightarrow> SenderReport \<Rightarrow> int \<Rightarrow> int \<Rightarrow> VideoSender \<Rightarrow> RtpPacketToSend option \<Rightarrow> VideoSender option" where
  "OnSentRtpPacket junk object now_us tick s packet =
     (case packet of None \<Rightarrow> Some s
      | Some packet \<Rightarrow> do {
          s \<leftarrow> MaybeSendSenderReport junk object now_us s packet;
          if vs_task_queue_history s = None \<or> vs_history_shutdown s then Some s
          else map_option snd (post_history tick (SentTask packet) s) })"

definition OnRtpPacketSendFailed :: "int \<Rightarrow> VideoSender \<Rightarrow> RtpPacketToSend \<Rightarrow> VideoSender option" where
  "OnRtpPacketSendFailed tick s packet =
     (if vs_task_queue_history s = None \<or> vs_history_shutdown s then Some s
      else case ts_retransmitted_sequence_number packet of
        Some original_sequence_number \<Rightarrow> map_option snd (post_history tick (AbortTask original_sequence_number) s)
      | None \<Rightarrow> if ts_packet_type packet = Some kVideo then map_option snd (post_history tick (KeepTask packet) s) else Some s)"

definition OnRttUpdate :: "int \<Rightarrow> VideoSender \<Rightarrow> int \<Rightarrow> VideoSender option" where
  "OnRttUpdate tick s rtt_ms =
     (if rtt_ms \<le> 0 \<or> rtt_ms > 2000 \<or> vs_task_queue_history s = None \<or> vs_history_shutdown s then Some s
      else map_option snd (post_history tick (RttTask rtt_ms) s))"

section \<open>Retransmission\<close>

text \<open>The stored packet on which \<open>GetPacketAndMarkAsPending\<close> calls the encapsulation, if it does.\<close>

definition offered :: "timestamp \<Rightarrow> PacketHistory \<Rightarrow> u16 \<Rightarrow> RtpPacketToSend option option" where
  "offered now h sequence_number = do {
     k \<leftarrow> GetStoredPacket (ph_history h) sequence_number;
     case k of None \<Rightarrow> Some None
     | Some i \<Rightarrow> let s = ph_history h ! i in
         if sp_pending_transmission s \<or> \<not> VerifyRtt now h s then Some None else map_option Some (sp_packet s) }"

definition ReSendPacket :: "timestamp \<Rightarrow> VideoSender \<Rightarrow> u16 \<Rightarrow> (int \<times> VideoSender) option" where
  "ReSendPacket now s packet_id =
     (case vs_paced_sender s of None \<Rightarrow> Some (- 1, s)
      | Some pacer \<Rightarrow>
        if \<not> vs_rtx_enabled s then Some (- 1, s)
        else do {
          stored \<leftarrow> offered now (vs_rtp_packet_history s) packet_id;
          (packet, h) \<leftarrow> GetPacketAndMarkAsPending now (vs_rtp_packet_history s) packet_id (make_rtx (vs_rtx_ssrc s));
          let packet_size = (case stored of None \<Rightarrow> 0 | Some p \<Rightarrow> sint (of_nat (rp_size (ts_packet p)) :: u32));
              s = s\<lparr>vs_rtp_packet_history := h\<rparr> in
          if packet_size = 0 then Some (0, s)
          else case packet of None \<Rightarrow> Some (- 1, s)
          | Some packet \<Rightarrow>
              let packet = (set_packet_type packet kRetransmission)\<lparr>ts_fec_protect_packet := False\<rparr>;
                  (enqueue_result, pacer) = EnqueueRtpPacket pacer packet;
                  s = s\<lparr>vs_paced_sender := Some pacer\<rparr> in
              if enqueue_result < 0 then do {
                h \<leftarrow> MarkPacketAsAborted (vs_rtp_packet_history s) packet_id;
                Some (enqueue_result, s\<lparr>vs_rtp_packet_history := h\<rparr>) }
              else Some (enqueue_result, s) })"

text \<open>The locked section of \<open>OnReceiveNack\<close>; its result says whether a task has to be posted.\<close>

fun insert_pending :: "u16 list \<Rightarrow> u16 list \<Rightarrow> u16 list" where
  "insert_pending [] nacks = nacks"
| "insert_pending (sequence_number # numbers) nacks =
     (if length nacks \<ge> kMaxCapacity then nacks
      else insert_pending numbers (if sequence_number \<in> set nacks then nacks else nacks @ [sequence_number]))"

definition collect_nacks :: "VideoSender \<Rightarrow> u16 list \<Rightarrow> bool \<times> VideoSender" where
  "collect_nacks s nack_sequence_numbers =
     (if vs_history_shutdown s then (False, s)
      else
        let s = s\<lparr>vs_pending_nacks := insert_pending nack_sequence_numbers (vs_pending_nacks s)\<rparr> in
        if \<not> vs_nack_task_scheduled s \<and> vs_pending_nacks s \<noteq> [] then (True, s\<lparr>vs_nack_task_scheduled := True\<rparr>)
        else (False, s))"

text \<open>Posting the task, and taking the mark back when the queue is stopped.\<close>

definition schedule_nacks :: "int \<Rightarrow> VideoSender \<Rightarrow> VideoSender option" where
  "schedule_nacks tick s = do {
     (ok, s) \<leftarrow> post_history tick NackTask s;
     Some (if ok then s else s\<lparr>vs_nack_task_scheduled := False\<rparr>) }"

definition OnReceiveNack :: "int \<Rightarrow> VideoSender \<Rightarrow> u16 list \<Rightarrow> VideoSender option" where
  "OnReceiveNack tick s nack_sequence_numbers =
     (if \<not> vs_rtx_enabled s \<or> vs_task_queue_history s = None \<or> nack_sequence_numbers = [] then Some s
      else case collect_nacks s nack_sequence_numbers of
        (schedule_task, s) \<Rightarrow> if schedule_task then schedule_nacks tick s else Some s)"

text \<open>The three parts of \<open>ProcessPendingNacks\<close>.\<close>

definition take_nacks :: "VideoSender \<Rightarrow> u16 list option \<times> VideoSender" where
  "take_nacks s =
     (if vs_history_shutdown s then (None, s\<lparr>vs_pending_nacks := [], vs_nack_task_scheduled := False\<rparr>)
      else (Some (take kMaxNacksPerTask (vs_pending_nacks s)), s\<lparr>vs_pending_nacks := drop kMaxNacksPerTask (vs_pending_nacks s)\<rparr>))"

fun resend_all :: "timestamp \<Rightarrow> u16 list \<Rightarrow> VideoSender \<Rightarrow> VideoSender option" where
  "resend_all now [] s = Some s"
| "resend_all now (seq_no # packet_ids) s =
     (if vs_history_shutdown s then Some s
      else do { (r, s) \<leftarrow> ReSendPacket now s seq_no; resend_all now packet_ids s })"

definition finish_nacks :: "VideoSender \<Rightarrow> bool \<times> VideoSender" where
  "finish_nacks s =
     (if vs_history_shutdown s \<or> vs_pending_nacks s = []
      then (False, s\<lparr>vs_pending_nacks := [], vs_nack_task_scheduled := False\<rparr>) else (True, s))"

definition ProcessPendingNacks :: "timestamp \<Rightarrow> int \<Rightarrow> VideoSender \<Rightarrow> VideoSender option" where
  "ProcessPendingNacks now tick s =
     (case take_nacks s of
        (None, s) \<Rightarrow> Some s
      | (Some packet_ids, s) \<Rightarrow> do {
          s \<leftarrow> resend_all now packet_ids s;
          case finish_nacks s of (reschedule, s) \<Rightarrow> if reschedule then schedule_nacks tick s else Some s })"

section \<open>The tasks\<close>

definition run_history_task :: "timestamp \<Rightarrow> int \<Rightarrow> HistoryTask \<Rightarrow> VideoSender \<Rightarrow> VideoSender option" where
  "run_history_task now tick task s =
     (let h = vs_rtp_packet_history s; keep = map_option (\<lambda>h. s\<lparr>vs_rtp_packet_history := h\<rparr>) in
      case task of
        SentTask packet \<Rightarrow>
          (case ts_retransmitted_sequence_number packet of
             Some n \<Rightarrow> keep (MarkPacketAsSent now h n)
           | None \<Rightarrow> if rp_payload_type (ts_packet packet) \<noteq> ucast (PT_H264 - 1) then keep (PutRtpPacket now h packet now) else Some s)
      | AbortTask n \<Rightarrow> keep (MarkPacketAsAborted h n)
      | KeepTask packet \<Rightarrow> keep (PutRtpPacket now h packet now)
      | NackTask \<Rightarrow> ProcessPendingNacks now tick s
      | RttTask rtt_ms \<Rightarrow> if \<not> vs_history_shutdown s then Some (s\<lparr>vs_rtp_packet_history := SetRtt now h (Millis rtt_ms)\<rparr>) else Some s)"

text \<open>One turn of the worker of the queue.\<close>

definition history_worker :: "timestamp \<Rightarrow> int \<Rightarrow> VideoSender \<Rightarrow> VideoSender option" where
  "history_worker now tick s =
     (case vs_task_queue_history s of None \<Rightarrow> Some s
      | Some q \<Rightarrow>
        (case WorkerThread tick False q of
           (Run task, q) \<Rightarrow> run_history_task now tick task (s\<lparr>vs_task_queue_history := Some q\<rparr>)
         | _ \<Rightarrow> Some s))"

definition Send_Destroy :: "VideoSender \<Rightarrow> VideoSender" where
  "Send_Destroy s =
     (case vs_task_queue_history s of None \<Rightarrow> s
      | Some q \<Rightarrow> s\<lparr>vs_history_shutdown := True, vs_pending_nacks := [], vs_nack_task_scheduled := False,
          vs_task_queue_history := Some (Stop (ClearTasks q))\<rparr>)"

section \<open>One retransmission\<close>

text \<open>A packet as the packetizers build it and the pacer stamps it.\<close>

definition wire_packet :: "RtpPacketToSend \<Rightarrow> bool" where
  "wire_packet p \<longleftrightarrow> (\<exists>eid t m pt seq ts ssrc body. on_wire eid t m pt seq ts ssrc body (ts_packet p) \<and> valid_ext_id eid \<and>
     length t = 3 \<and> unat pt < 128 \<and> length body < 2 ^ 30)"

definition stored_ok :: "PacketHistory \<Rightarrow> bool" where
  "stored_ok h \<longleftrightarrow> history_ok h \<and> (\<forall>x \<in> entries (ph_history h). \<forall>p. sp_packet x = Some p \<longrightarrow> wire_packet p)"

lemma stored_wire: "stored_ok h \<Longrightarrow> i < length (ph_history h) \<Longrightarrow> sp_packet (ph_history h ! i) = Some p \<Longrightarrow> wire_packet p"
proof -
  assume "stored_ok h" "i < length (ph_history h)" "sp_packet (ph_history h ! i) = Some p"
  moreover from this have "ph_history h ! i \<in> entries (ph_history h)" by (simp add: entries_def)
  ultimately show ?thesis by (auto simp: stored_ok_def)
qed

text \<open>What is posted to the pacer for a stored packet.\<close>

definition retransmission :: "u32 \<Rightarrow> RtpPacketToSend \<Rightarrow> RtpPacketToSend" where
  "retransmission rtx_ssrc p = (set_packet_type (the (the (make_rtx rtx_ssrc p))) kRetransmission)\<lparr>ts_fec_protect_packet := False\<rparr>"

definition mark_pending :: "u16 \<Rightarrow> PacketHistory \<Rightarrow> PacketHistory" where
  "mark_pending n h = (case GetStoredPacket (ph_history h) n of
     Some (Some i) \<Rightarrow> h\<lparr>ph_history := (ph_history h)[i := (ph_history h ! i)\<lparr>sp_pending_transmission := True\<rparr>]\<rparr> | _ \<Rightarrow> h)"

lemma wire_packet_rtx:
  assumes "wire_packet p"
  shows "\<exists>r. make_rtx rtx_ssrc p = Some (Some r) \<and> ts_retransmitted_sequence_number r = Some (seq_of p) \<and> 0 < rp_size (ts_packet p) \<and>
    rp_size (ts_packet p) < 2 ^ 31"
proof -
  obtain eid t m pt seq ts ssrc body where w: "on_wire eid t m pt seq ts ssrc body (ts_packet p)" "valid_ext_id eid" "length t = 3"
    "unat pt < 128" "length body < 2 ^ 30"
    using assms by (auto simp: wire_packet_def)
  obtain r where r: "make_rtx rtx_ssrc p = Some (Some r)" "ts_retransmitted_sequence_number r = Some seq"
    using make_rtx_wire [OF w(1) refl w(2-4)] by blast
  have "seq_of p = seq" using w(1) by (simp add: on_wire_def holds_def seq_of_def)
  moreover have "rp_size (ts_packet p) = length (wire eid t m pt seq ts ssrc body)" using w(1) by (simp add: on_wire_def holds_def)
  ultimately show ?thesis using r w(5) wire_length [OF w(3)] by (auto split: if_splits)
qed

lemma offered_cases:
  assumes "history_ok h"
  obtains "offered now h n = Some None" "\<And>enc. GetPacketAndMarkAsPending now h n enc = Some (None, h)"
  | i p where "offered now h n = Some (Some p)" "GetStoredPacket (ph_history h) n = Some (Some i)" "i < length (ph_history h)"
      "sp_packet (ph_history h ! i) = Some p" "seq_of p = n"
      "\<And>enc e. enc p = Some (Some e) \<Longrightarrow> GetPacketAndMarkAsPending now h n enc = Some (Some e, mark_pending n h)"
proof -
  obtain k where k: "GetStoredPacket (ph_history h) n = Some k" using GetStoredPacket_total assms by (auto simp: history_ok_def)
  show ?thesis
  proof (cases k)
    case None
    then show ?thesis using that(1) k by (simp add: offered_def GetPacketAndMarkAsPending_def)
  next
    case (Some i)
    then have i: "i < length (ph_history h)" "slot_seq (ph_history h ! i) = Some n"
      using GetStoredPacket_Some [of "ph_history h" n i] assms k by (auto simp: history_ok_def)
    then obtain p where p: "sp_packet (ph_history h ! i) = Some p" "seq_of p = n" by (auto simp: slot_seq_def)
    show ?thesis
    proof (cases "sp_pending_transmission (ph_history h ! i) \<or> \<not> VerifyRtt now h (ph_history h ! i)")
      case True
      then show ?thesis using that(1) k Some by (auto simp: offered_def GetPacketAndMarkAsPending_def Let_def)
    next
      case False
      show ?thesis
        by (rule that(2)) (use k Some False i p in \<open>auto simp: offered_def GetPacketAndMarkAsPending_def Let_def mark_pending_def\<close>)
    qed
  qed
qed

lemma mark_pending_ok:
  assumes "stored_ok h"
  shows "stored_ok (mark_pending n h)"
proof (cases "GetStoredPacket (ph_history h) n")
  case (Some k)
  show ?thesis
  proof (cases k)
    case (Some i)
    let ?y = "(ph_history h ! i)\<lparr>sp_pending_transmission := True\<rparr>"
    have i: "i < length (ph_history h)" using GetStoredPacket_Some [of "ph_history h" n i] assms \<open>_ = Some k\<close> Some by (auto simp: stored_ok_def history_ok_def)
    have "set ((ph_history h)[i := ?y]) \<subseteq> insert ?y (set (ph_history h))" by (rule set_update_subset_insert)
    moreover have "ph_history h ! i \<in> set (ph_history h)" using i by simp
    ultimately have "\<forall>x \<in> entries ((ph_history h)[i := ?y]). \<forall>p. sp_packet x = Some p \<longrightarrow> wire_packet p"
      using assms by (fastforce simp: stored_ok_def entries_def)
    then show ?thesis using assms \<open>_ = Some k\<close> Some history_ok_update [of h n i ?y] by (auto simp: stored_ok_def mark_pending_def)
  qed (use assms Some in \<open>simp add: mark_pending_def\<close>)
qed (use assms in \<open>simp add: mark_pending_def\<close>)

lemma offered_mark_pending:
  assumes "history_ok h" and "n' \<noteq> n"
  shows "offered now (mark_pending n h) n' = offered now h n'"
proof (cases "GetStoredPacket (ph_history h) n")
  case (Some k)
  show ?thesis
  proof (cases k)
    case (Some i)
    have ok: "slots_ok (ph_history h)" using assms(1) by (simp add: history_ok_def)
    have i: "i < length (ph_history h)" "slot_seq (ph_history h ! i) = Some n" using GetStoredPacket_Some [OF ok] \<open>_ = Some k\<close> Some by auto
    obtain k' where k': "GetStoredPacket (ph_history h) n' = Some k'" using GetStoredPacket_total [OF ok] by blast
    let ?y = "(ph_history h ! i)\<lparr>sp_pending_transmission := True\<rparr>"
    have "k' \<noteq> Some i" using GetStoredPacket_Some [OF ok, of n' i] k' i(2) assms(2) by auto
    then have eq: "(ph_history h)[i := ?y] ! j = ph_history h ! j" if "k' = Some j" for j using that by auto
    have m: "mark_pending n h = h\<lparr>ph_history := (ph_history h)[i := ?y]\<rparr>" using \<open>_ = Some k\<close> Some by (simp add: mark_pending_def)
    have g: "GetStoredPacket ((ph_history h)[i := ?y]) n' = Some k'" using GetStoredPacket_update [of ?y "ph_history h" i n'] i(1) k' by simp
    show ?thesis
      by (cases k') (simp_all add: offered_def m g k' eq VerifyRtt_def Let_def)
  qed (use Some in \<open>simp add: mark_pending_def\<close>)
qed (simp add: mark_pending_def)

text \<open>What one request does: nothing when there is no packet to offer, and otherwise one packet for the pacer.\<close>

definition answers :: "timestamp \<Rightarrow> u32 \<Rightarrow> PacketHistory \<Rightarrow> u16 \<Rightarrow> RtpPacketToSend list" where
  "answers now rtx_ssrc h n = (case offered now h n of Some (Some p) \<Rightarrow> [retransmission rtx_ssrc p] | _ \<Rightarrow> [])"

definition sender_ready :: "VideoSender \<Rightarrow> bool" where
  "sender_ready s \<longleftrightarrow> vs_rtx_enabled s \<and> \<not> vs_history_shutdown s \<and> stored_ok (vs_rtp_packet_history s) \<and>
     (\<exists>p. vs_paced_sender s = Some p \<and> \<not> pa_is_shutdown p)"

lemma ReSendPacket_ready:
  assumes "sender_ready s"
  shows "\<exists>h p. ReSendPacket now s n = Some (0, s\<lparr>vs_rtp_packet_history := h, vs_paced_sender := Some p\<rparr>) \<and>
    sender_ready (s\<lparr>vs_rtp_packet_history := h, vs_paced_sender := Some p\<rparr>) \<and>
    pa_posted p = pa_posted (the (vs_paced_sender s)) @ answers now (vs_rtx_ssrc s) (vs_rtp_packet_history s) n \<and>
    (\<forall>t n'. n' \<noteq> n \<longrightarrow> offered t h n' = offered t (vs_rtp_packet_history s) n')"
proof -
  let ?h = "vs_rtp_packet_history s"
  have ok: "history_ok ?h" "stored_ok ?h" "vs_rtx_enabled s" "\<not> vs_history_shutdown s" using assms by (simp_all add: sender_ready_def stored_ok_def)
  obtain p where p: "vs_paced_sender s = Some p" "\<not> pa_is_shutdown p" using assms by (auto simp: sender_ready_def)
  show ?thesis
  proof (cases rule: offered_cases [OF ok(1), of now n])
    case 1
    then have "ReSendPacket now s n = Some (0, s\<lparr>vs_rtp_packet_history := ?h, vs_paced_sender := Some p\<rparr>)"
      using p(1) ok(3) by (simp add: ReSendPacket_def)
    moreover have "s\<lparr>vs_rtp_packet_history := ?h, vs_paced_sender := Some p\<rparr> = s" using p(1) by simp
    ultimately show ?thesis using 1(1) assms p(1) by (intro exI [of _ ?h] exI [of _ p]) (simp add: answers_def sender_ready_def)
  next
    case (2 i q)
    have w: "wire_packet q" by (rule stored_wire [OF ok(2) 2(3,4)])
    obtain r where r: "make_rtx (vs_rtx_ssrc s) q = Some (Some r)" "0 < rp_size (ts_packet q)" "rp_size (ts_packet q) < 2 ^ 31"
      using wire_packet_rtx [OF w] by blast
    have sz: "sint (of_nat (rp_size (ts_packet q)) :: u32) \<noteq> 0"
    proof -
      have "unat (of_nat (rp_size (ts_packet q)) :: u32) = rp_size (ts_packet q)" using r(3) by (intro unat_of_nat_small) simp
      then have "(of_nat (rp_size (ts_packet q)) :: u32) \<noteq> 0" using r(2) by auto
      then show ?thesis by (simp add: signed_eq_0_iff)
    qed
    let ?p = "p\<lparr>pa_posted := pa_posted p @ [retransmission (vs_rtx_ssrc s) q]\<rparr>" and ?m = "mark_pending n ?h"
    have "ReSendPacket now s n = Some (0, s\<lparr>vs_rtp_packet_history := ?m, vs_paced_sender := Some ?p\<rparr>)"
      using p ok(3) 2(1) 2(6) [of "make_rtx (vs_rtx_ssrc s)", OF r(1)] sz by (simp add: ReSendPacket_def EnqueueRtpPacket_def retransmission_def r(1) Let_def)
    then show ?thesis
      using ok p 2(1) mark_pending_ok [OF ok(2), of n] offered_mark_pending [OF ok(1)]
      by (intro exI [of _ ?m] exI [of _ ?p]) (simp add: sender_ready_def answers_def)
  qed
qed

lemma answers_cong: "offered now h n = offered now h' n \<Longrightarrow> answers now rtx h n = answers now rtx h' n"
  by (simp add: answers_def)

lemma resend_all_ready:
  assumes "sender_ready s" and "distinct ids"
  shows "\<exists>h p. resend_all now ids s = Some (s\<lparr>vs_rtp_packet_history := h, vs_paced_sender := Some p\<rparr>) \<and>
    sender_ready (s\<lparr>vs_rtp_packet_history := h, vs_paced_sender := Some p\<rparr>) \<and>
    pa_posted p = pa_posted (the (vs_paced_sender s)) @ concat (map (answers now (vs_rtx_ssrc s) (vs_rtp_packet_history s)) ids) \<and>
    (\<forall>t n. n \<notin> set ids \<longrightarrow> offered t h n = offered t (vs_rtp_packet_history s) n)"
  using assms
proof (induction ids arbitrary: s)
  case Nil
  then obtain p where "vs_paced_sender s = Some p" by (auto simp: sender_ready_def)
  then show ?case using Nil by (intro exI [of _ "vs_rtp_packet_history s"] exI [of _ p]) (simp add: sender_ready_def)
next
  case (Cons n ids)
  obtain h p where 1: "ReSendPacket now s n = Some (0, s\<lparr>vs_rtp_packet_history := h, vs_paced_sender := Some p\<rparr>)"
    "sender_ready (s\<lparr>vs_rtp_packet_history := h, vs_paced_sender := Some p\<rparr>)"
    "pa_posted p = pa_posted (the (vs_paced_sender s)) @ answers now (vs_rtx_ssrc s) (vs_rtp_packet_history s) n"
    "\<forall>t n'. n' \<noteq> n \<longrightarrow> offered t h n' = offered t (vs_rtp_packet_history s) n'"
    using ReSendPacket_ready [OF Cons.prems(1), of now n] by blast
  have eq: "map (answers now (vs_rtx_ssrc s) h) ids = map (answers now (vs_rtx_ssrc s) (vs_rtp_packet_history s)) ids"
    using Cons.prems(2) 1(4) by (auto intro!: answers_cong)
  have sh: "\<not> vs_history_shutdown s" using Cons.prems(1) by (simp add: sender_ready_def)
  obtain h' p' where 2: "resend_all now ids (s\<lparr>vs_rtp_packet_history := h, vs_paced_sender := Some p\<rparr>) = Some (s\<lparr>vs_rtp_packet_history := h', vs_paced_sender := Some p'\<rparr>)"
    "sender_ready (s\<lparr>vs_rtp_packet_history := h', vs_paced_sender := Some p'\<rparr>)"
    "pa_posted p' = pa_posted p @ concat (map (answers now (vs_rtx_ssrc s) h) ids)"
    "\<forall>t n. n \<notin> set ids \<longrightarrow> offered t h' n = offered t h n"
    using Cons.IH [OF 1(2)] Cons.prems(2) by auto
  show ?case
    by (intro exI [of _ h'] exI [of _ p']) (simp add: sh 1(1) 2(1,2,3) eq 1(3), use 1(4) 2(4) in auto)
qed

section \<open>Rounds\<close>

text \<open>A channel whose only work is a list of collected requests.\<close>

definition nack_state :: "int \<Rightarrow> u16 list \<Rightarrow> VideoSender \<Rightarrow> bool" where
  "nack_state tick ids s \<longleftrightarrow> sender_ready s \<and> vs_pending_nacks s = ids \<and> vs_nack_task_scheduled s = (ids \<noteq> []) \<and>
     (\<exists>q. vs_task_queue_history s = Some q \<and> prompt tick q \<and> \<not> tq_stop q \<and> tasks_of q = (if ids = [] then [] else [NackTask]))"

lemma schedule_nacks_fifo:
  assumes "vs_task_queue_history s = Some q" and "prompt t q" and "t \<le> tick" and "\<not> tq_stop q"
  shows "\<exists>q'. schedule_nacks tick s = Some (s\<lparr>vs_task_queue_history := Some q'\<rparr>) \<and> prompt tick q' \<and> \<not> tq_stop q' \<and>
    tasks_of q' = tasks_of q @ [NackTask]"
proof -
  obtain ok q' where q': "PostTask tick q NackTask = (ok, q')" by fastforce
  then have "ok" "prompt tick q'" "\<not> tq_stop q'" "tasks_of q' = tasks_of q @ [NackTask]"
    using task_fifo.post_inv [OF assms(2,3), of NackTask] task_fifo.post_live [OF assms(2,3), of NackTask] assms(4) by auto
  with q' assms(1) show ?thesis by (auto simp: schedule_nacks_def post_history_def)
qed

lemma insert_pending_props:
  "distinct ids \<Longrightarrow> distinct (insert_pending ns ids) \<and> set ids \<subseteq> set (insert_pending ns ids) \<and> set (insert_pending ns ids) \<subseteq> set ids \<union> set ns \<and>
    (length ids \<le> kMaxCapacity \<longrightarrow> length (insert_pending ns ids) \<le> kMaxCapacity) \<and>
    (card (set ids \<union> set ns) \<le> kMaxCapacity \<longrightarrow> set (insert_pending ns ids) = set ids \<union> set ns)"
proof (induction ns arbitrary: ids)
  case (Cons n ns)
  let ?ids = "if n \<in> set ids then ids else ids @ [n]"
  have d: "distinct ?ids" "set ?ids = insert n (set ids)" using Cons.prems by auto
  show ?case
  proof (cases "length ids \<ge> kMaxCapacity")
    case True
    have "set ns \<union> {n} \<subseteq> set ids" if "card (set ids \<union> set (n # ns)) \<le> kMaxCapacity"
    proof -
      have "card (set ids \<union> set (n # ns)) \<le> card (set ids)" using that True distinct_card [OF Cons.prems] by simp
      then have "set ids = set ids \<union> set (n # ns)" by (intro card_seteq) auto
      then show ?thesis by auto
    qed
    then show ?thesis using True Cons.prems by auto
  next
    case False
    have "insert n (set ids) \<union> set ns = set ids \<union> set (n # ns)" by auto
    with Cons.IH [OF d(1)] False d(2) show ?thesis by (simp del: Un_insert_left)
  qed
qed auto

lemma insert_pending_nonempty: "ns \<noteq> [] \<Longrightarrow> insert_pending ns [] \<noteq> []"
  using insert_pending_props [of "[hd ns]" "tl ns"] by (cases ns) (auto simp: kMaxCapacity_def)

lemma OnReceiveNack_state:
  assumes "nack_state t [] s" and "ns \<noteq> []" and "t \<le> tick"
  shows "\<exists>s'. OnReceiveNack tick s ns = Some s' \<and> nack_state tick (insert_pending ns []) s' \<and>
    vs_rtp_packet_history s' = vs_rtp_packet_history s \<and> vs_paced_sender s' = vs_paced_sender s \<and> vs_rtx_ssrc s' = vs_rtx_ssrc s"
proof -
  obtain q where q: "vs_task_queue_history s = Some q" "prompt t q" "\<not> tq_stop q" "tasks_of q = []"
    using assms(1) by (auto simp: nack_state_def)
  let ?s = "s\<lparr>vs_pending_nacks := insert_pending ns [], vs_nack_task_scheduled := True\<rparr>"
  obtain q' where q': "schedule_nacks tick ?s = Some (?s\<lparr>vs_task_queue_history := Some q'\<rparr>)" "prompt tick q'" "\<not> tq_stop q'" "tasks_of q' = [NackTask]"
    using schedule_nacks_fifo [of ?s q t tick] q assms(3) by auto
  have "OnReceiveNack tick s ns = Some (?s\<lparr>vs_task_queue_history := Some q'\<rparr>)"
    using assms(1,2) q(1) q'(1) insert_pending_nonempty [OF assms(2)]
    by (simp add: OnReceiveNack_def nack_state_def sender_ready_def collect_nacks_def)
  then show ?thesis using q'(2-4) assms(1) insert_pending_nonempty [OF assms(2)] by (auto simp: nack_state_def sender_ready_def)
qed

lemma worker_round:
  assumes "nack_state t ids s" and "ids \<noteq> []" and "t \<le> tick" and "distinct ids"
  shows "\<exists>s'. history_worker now tick s = Some s' \<and> nack_state tick (drop kMaxNacksPerTask ids) s' \<and> vs_rtx_ssrc s' = vs_rtx_ssrc s \<and>
    pa_posted (the (vs_paced_sender s')) = pa_posted (the (vs_paced_sender s)) @
      concat (map (answers now (vs_rtx_ssrc s) (vs_rtp_packet_history s)) (take kMaxNacksPerTask ids)) \<and>
    (\<forall>u n. n \<notin> set (take kMaxNacksPerTask ids) \<longrightarrow> offered u (vs_rtp_packet_history s') n = offered u (vs_rtp_packet_history s) n)"
proof -
  let ?now = "take kMaxNacksPerTask ids" and ?later = "drop kMaxNacksPerTask ids"
  obtain q where q: "vs_task_queue_history s = Some q" "prompt t q" "\<not> tq_stop q" "tasks_of q = [NackTask]"
    using assms(1,2) by (auto simp: nack_state_def)
  obtain q1 where q1: "WorkerThread tick False q = (Run NackTask, q1)" "prompt tick q1" "\<not> tq_stop q1" "tasks_of q1 = []"
    using task_fifo.next_run [OF q(2) assms(3) q(4)] task_fifo.next_inv [OF q(2) assms(3)] q(3)
    by (cases "WorkerThread tick False q") auto
  let ?s = "s\<lparr>vs_task_queue_history := Some q1, vs_pending_nacks := ?later\<rparr>"
  have s: "sender_ready ?s" "\<not> vs_history_shutdown s" "vs_pending_nacks s = ids" "vs_nack_task_scheduled s"
    using assms(1,2) by (simp_all add: nack_state_def sender_ready_def)
  obtain h p where r: "resend_all now ?now ?s = Some (?s\<lparr>vs_rtp_packet_history := h, vs_paced_sender := Some p\<rparr>)"
    "sender_ready (?s\<lparr>vs_rtp_packet_history := h, vs_paced_sender := Some p\<rparr>)"
    "pa_posted p = pa_posted (the (vs_paced_sender s)) @ concat (map (answers now (vs_rtx_ssrc s) (vs_rtp_packet_history s)) ?now)"
    "\<forall>u n. n \<notin> set ?now \<longrightarrow> offered u h n = offered u (vs_rtp_packet_history s) n"
    using resend_all_ready [OF s(1), of ?now now] assms(4) by auto
  let ?r = "?s\<lparr>vs_rtp_packet_history := h, vs_paced_sender := Some p\<rparr>"
  have w: "history_worker now tick s = (case finish_nacks ?r of (b, s) \<Rightarrow> if b then schedule_nacks tick s else Some s)"
    using q(1) q1(1) s(2,3) r(1) by (simp add: history_worker_def run_history_task_def ProcessPendingNacks_def take_nacks_def Let_def)
  show ?thesis
  proof (cases "?later = []")
    case True
    let ?f = "?r\<lparr>vs_pending_nacks := [], vs_nack_task_scheduled := False\<rparr>"
    have "history_worker now tick s = Some ?f" unfolding w using True by (simp add: finish_nacks_def)
    moreover have "nack_state tick ?later ?f" using True r(2) q1(2-4) by (simp add: nack_state_def sender_ready_def)
    ultimately show ?thesis using r(3,4) by auto
  next
    case False
    obtain q' where q': "schedule_nacks tick ?r = Some (?r\<lparr>vs_task_queue_history := Some q'\<rparr>)" "prompt tick q'" "\<not> tq_stop q'" "tasks_of q' = [NackTask]"
      using schedule_nacks_fifo [of ?r q1 tick tick] q1(2-4) by auto
    have "history_worker now tick s = Some (?r\<lparr>vs_task_queue_history := Some q'\<rparr>)"
      unfolding w using False s(2) q'(1) by (simp add: finish_nacks_def)
    moreover have "nack_state tick ?later (?r\<lparr>vs_task_queue_history := Some q'\<rparr>)"
      using False r(2) q'(2-4) s(4) by (simp add: nack_state_def sender_ready_def)
    ultimately show ?thesis using r(3,4) by auto
  qed
qed

section \<open>Answering requests\<close>

fun batches :: "u16 list \<Rightarrow> (timestamp \<times> int) list \<Rightarrow> (timestamp \<times> u16 list) list" where
  "batches ids [] = []"
| "batches ids ((now, tick) # clocks) = (now, take kMaxNacksPerTask ids) # batches (drop kMaxNacksPerTask ids) clocks"

definition rounds :: "u16 list \<Rightarrow> nat" where
  "rounds ids = (length ids + kMaxNacksPerTask - 1) div kMaxNacksPerTask"

lemma rounds_step: "ids \<noteq> [] \<Longrightarrow> rounds ids = Suc (rounds (drop kMaxNacksPerTask ids))"
proof -
  assume "ids \<noteq> []"
  then have "0 < length ids" by simp
  then have "(511 + length ids) div 512 = Suc ((511 + (length ids - 512)) div 512)"
  proof (cases "length ids \<le> 512")
    case True
    have "(511 + length ids) div 512 = 1" using \<open>ids \<noteq> []\<close> True by (intro div_nat_eqI) (auto simp: Suc_le_eq)
    then show ?thesis using True by simp
  next
    case False
    then have "511 + length ids = 512 + (511 + (length ids - 512))" by simp
    then show ?thesis by (simp only: div_add_self1)
  qed
  then show ?thesis by (simp add: rounds_def kMaxNacksPerTask_def add.commute)
qed

lemma rounds_0: "rounds ids = 0 \<longleftrightarrow> ids = []"
  using rounds_step [of ids] by (cases "ids = []") (simp_all add: rounds_def kMaxNacksPerTask_def)

lemma worker_rounds:
  assumes "nack_state t ids s" and "distinct ids" and "length clocks = rounds ids" and "sorted (t # map snd clocks)"
  shows "\<exists>s'. foldM (\<lambda>(now, tick). history_worker now tick) clocks s = Some s' \<and> nack_state (last (t # map snd clocks)) [] s' \<and>
    pa_posted (the (vs_paced_sender s')) = pa_posted (the (vs_paced_sender s)) @
      concat (map (\<lambda>(now, ns). concat (map (answers now (vs_rtx_ssrc s) (vs_rtp_packet_history s)) ns)) (batches ids clocks))"
  using assms
proof (induction clocks arbitrary: t ids s)
  case Nil
  then show ?case using rounds_0 [of ids] by simp
next
  case (Cons c clocks)
  obtain now tick where c: "c = (now, tick)" by fastforce
  let ?now = "take kMaxNacksPerTask ids" and ?later = "drop kMaxNacksPerTask ids"
  have ne: "ids \<noteq> []" using Cons.prems(3) rounds_0 [of ids] by auto
  have t: "t \<le> tick" "sorted (tick # map snd clocks)" using Cons.prems(4) c by auto
  obtain s1 where s1: "history_worker now tick s = Some s1" "nack_state tick ?later s1" "vs_rtx_ssrc s1 = vs_rtx_ssrc s"
    "pa_posted (the (vs_paced_sender s1)) = pa_posted (the (vs_paced_sender s)) @
      concat (map (answers now (vs_rtx_ssrc s) (vs_rtp_packet_history s)) ?now)"
    "\<forall>u n. n \<notin> set ?now \<longrightarrow> offered u (vs_rtp_packet_history s1) n = offered u (vs_rtp_packet_history s) n"
    using worker_round [OF Cons.prems(1) ne t(1) Cons.prems(2), of now] by blast
  have fresh: "n \<notin> set ?now" if "n \<in> set ?later" for n
    using set_take_disj_set_drop_if_distinct [OF Cons.prems(2), of kMaxNacksPerTask kMaxNacksPerTask] that by auto
  have sub: "set ns \<subseteq> set ids" if "(u, ns) \<in> set (batches ids cs)" for u ns ids cs
    using that by (induction ids cs rule: batches.induct) (auto dest: in_set_takeD in_set_dropD)
  have eq: "map (\<lambda>(now, ns). concat (map (answers now (vs_rtx_ssrc s) (vs_rtp_packet_history s1)) ns)) (batches ?later clocks) =
      map (\<lambda>(now, ns). concat (map (answers now (vs_rtx_ssrc s) (vs_rtp_packet_history s)) ns)) (batches ?later clocks)"
  proof (intro map_cong refl, clarify)
    fix u ns assume "(u, ns) \<in> set (batches ?later clocks)"
    then have "\<forall>n \<in> set ns. offered u (vs_rtp_packet_history s1) n = offered u (vs_rtp_packet_history s) n" using sub fresh s1(5) by blast
    then show "concat (map (answers u (vs_rtx_ssrc s) (vs_rtp_packet_history s1)) ns) =
        concat (map (answers u (vs_rtx_ssrc s) (vs_rtp_packet_history s)) ns)"
      by (auto intro!: arg_cong [where f = concat] answers_cong)
  qed
  have len: "length clocks = rounds ?later" using Cons.prems(3) rounds_step [OF ne] by simp
  from Cons.IH [OF s1(2) _ len t(2)] Cons.prems(2) s1(1,3,4) show ?case
    by (auto simp: c eq)
qed

lemma offered_answered:
  assumes "stored_ok h" and "offered now h n = Some (Some p)"
  shows "\<exists>r. make_rtx rtx_ssrc p = Some (Some r) \<and>
    answers now rtx_ssrc h n = [(set_packet_type r kRetransmission)\<lparr>ts_fec_protect_packet := False\<rparr>] \<and>
    ts_retransmitted_sequence_number r = Some n"
proof -
  have "history_ok h" using assms(1) by (simp add: stored_ok_def)
  from offered_cases [OF this, of now n] assms(2) obtain i where
    i: "i < length (ph_history h)" "sp_packet (ph_history h ! i) = Some p" "seq_of p = n"
    by (metis option.inject option.distinct(1))
  from wire_packet_rtx [OF stored_wire [OF assms(1) i(1,2)], of rtx_ssrc] show ?thesis
    using assms(2) i(3) by (auto simp: answers_def retransmission_def)
qed

section \<open>Properties\<close>

text \<open>
  requests for lost packets are answered. The channel is idle and the pacer takes packets. A
  list of at most 10001 different numbers is received. The worker of the history then needs one turn
  for each 512 numbers, and afterwards no request is left and none is scheduled. For every number
  exactly one RTX packet was given to the pacer if the history offered a packet under that number at
  the time of its turn, and none otherwise; such a packet wraps the stored packet with that number.
\<close>

theorem nack_answered:
  assumes "nack_state t [] s" and "ns \<noteq> []" and "card (set ns) \<le> kMaxCapacity" and "t \<le> tick"
  shows "\<exists>s1 ids. OnReceiveNack tick s ns = Some s1 \<and> distinct ids \<and> set ids = set ns \<and>
    (\<forall>clocks. length clocks = rounds ids \<and> sorted (tick # map snd clocks) \<longrightarrow>
      (\<exists>s2. foldM (\<lambda>(now, tick). history_worker now tick) clocks s1 = Some s2 \<and>
        vs_pending_nacks s2 = [] \<and> \<not> vs_nack_task_scheduled s2 \<and>
        concat (map snd (batches ids clocks)) = ids \<and>
        pa_posted (the (vs_paced_sender s2)) = pa_posted (the (vs_paced_sender s)) @
          concat (map (\<lambda>(now, ns). concat (map (answers now (vs_rtx_ssrc s) (vs_rtp_packet_history s)) ns)) (batches ids clocks)))) \<and>
    (\<forall>now n p. offered now (vs_rtp_packet_history s) n = Some (Some p) \<longrightarrow> (\<exists>r. make_rtx (vs_rtx_ssrc s) p = Some (Some r) \<and>
      answers now (vs_rtx_ssrc s) (vs_rtp_packet_history s) n = [(set_packet_type r kRetransmission)\<lparr>ts_fec_protect_packet := False\<rparr>] \<and>
      ts_retransmitted_sequence_number r = Some n))"
proof -
  let ?ids = "insert_pending ns []" and ?h = "vs_rtp_packet_history s"
  obtain s1 where s1: "OnReceiveNack tick s ns = Some s1" "nack_state tick ?ids s1" "vs_rtp_packet_history s1 = ?h"
    "vs_paced_sender s1 = vs_paced_sender s" "vs_rtx_ssrc s1 = vs_rtx_ssrc s"
    using OnReceiveNack_state [OF assms(1,2,4)] by blast
  have ids: "distinct ?ids" "set ?ids = set ns" using insert_pending_props [of "[]" ns] assms(3) by auto
  have b: "concat (map snd (batches xs clocks)) = xs" if "length clocks = rounds xs" for xs and clocks :: "(timestamp \<times> int) list"
    using that
  proof (induction xs clocks rule: batches.induct)
    case (2 xs now tick clocks)
    then have "xs \<noteq> []" using rounds_0 [of xs] by auto
    with 2 show ?case using rounds_step [of xs] by simp
  qed (simp add: rounds_0)
  have "\<exists>s2. foldM (\<lambda>(now, tick). history_worker now tick) clocks s1 = Some s2 \<and>
      vs_pending_nacks s2 = [] \<and> \<not> vs_nack_task_scheduled s2 \<and> concat (map snd (batches ?ids clocks)) = ?ids \<and>
      pa_posted (the (vs_paced_sender s2)) = pa_posted (the (vs_paced_sender s)) @
        concat (map (\<lambda>(now, ns). concat (map (answers now (vs_rtx_ssrc s) ?h) ns)) (batches ?ids clocks))"
    if "length clocks = rounds ?ids" "sorted (tick # map snd clocks)" for clocks
    using worker_rounds [OF s1(2) ids(1) that] b [OF that(1)] s1(3-5) by (auto simp: nack_state_def)
  moreover have "\<exists>r. make_rtx (vs_rtx_ssrc s) p = Some (Some r) \<and>
      answers now (vs_rtx_ssrc s) ?h n = [(set_packet_type r kRetransmission)\<lparr>ts_fec_protect_packet := False\<rparr>] \<and>
      ts_retransmitted_sequence_number r = Some n"
    if "offered now ?h n = Some (Some p)" for now n p
    by (rule offered_answered) (use assms(1) that in \<open>simp_all add: nack_state_def sender_ready_def\<close>)
  ultimately show ?thesis using s1(1) ids by (intro exI [of _ s1] exI [of _ ?ids]) simp
qed

text \<open>A channel that has sent one packet, with number 5.\<close>

definition sent_packet :: RtpPacketToSend where
  "sent_packet = new_RtpPacketToSend (snd (the (RtpPacket_Build new_RtpPacket (wire None [0, 0, 0] True 96 5 90 7 [1, 2])
     (length (wire None [0, 0, 0] True 96 5 90 7 [1, 2])))))"

definition sending_channel :: VideoSender where
  "sending_channel = (Send_Initialize (new_VideoSender [] None False 7 8 0) PT_H264 \<lparr>pa_is_shutdown = False, pa_posted = []\<rparr> True)
     \<lparr>vs_rtp_packet_history := new_PacketHistory\<lparr>ph_history := [new_StoredPacket sent_packet 0]\<rparr>\<rparr>"

lemma sent_packet_wire: "wire_packet sent_packet" "seq_of sent_packet = 5"
proof -
  have w: "on_wire None [0, 0, 0] True 96 5 90 7 [1, 2] (ts_packet sent_packet)"
    using Build_on_wire [of None "[0, 0, 0]" 96 new_RtpPacket True 5 90 7 "[1, 2]"]
    by (auto simp: sent_packet_def new_RtpPacketToSend_def valid_ext_id_def)
  then show "wire_packet sent_packet" unfolding wire_packet_def
    by (intro exI conjI, assumption) (simp_all add: valid_ext_id_def)
  show "seq_of sent_packet = 5" using w by (simp add: on_wire_def holds_def seq_of_def)
qed

lemma sending_channel_state: "nack_state 0 [] sending_channel" "offered 9 (vs_rtp_packet_history sending_channel) 5 = Some (Some sent_packet)"
proof -
  let ?h = "new_PacketHistory\<lparr>ph_history := [new_StoredPacket sent_packet 0]\<rparr>"
  have "stored_ok ?h"
    using sent_packet_wire(1) by (simp add: stored_ok_def history_ok_def slots_ok_Cons aligned_def entries_Cons kMaxCapacity_def)
  then show "nack_state 0 [] sending_channel"
    by (simp add: nack_state_def sending_channel_def Send_Initialize_def new_VideoSender_def sender_ready_def Let_def
        new_TaskQueue_def prompt_def queue_ok_def tasks_of_def)
  show "offered 9 (vs_rtp_packet_history sending_channel) 5 = Some (Some sent_packet)"
    using sent_packet_wire(2)
    by (simp add: sending_channel_def offered_def GetStoredPacket_def GetPacketIndex_def VerifyRtt_def new_StoredPacket_def)
qed

theorem nack_answered_witness:
  "\<exists>s1 s2 r. OnReceiveNack 1 sending_channel [5, 6, 5] = Some s1 \<and> history_worker 9 2 s1 = Some s2 \<and> vs_pending_nacks s2 = [] \<and>
    make_rtx 8 sent_packet = Some (Some r) \<and>
    pa_posted (the (vs_paced_sender s2)) = [(set_packet_type r kRetransmission)\<lparr>ts_fec_protect_packet := False\<rparr>]"
proof -
  have six: "answers 9 8 (vs_rtp_packet_history sending_channel) 6 = []"
    using sent_packet_wire(2)
    by (simp add: answers_def sending_channel_def offered_def GetStoredPacket_def GetPacketIndex_def IsNewerSequenceNumber_def
        IsNewer_def new_StoredPacket_def)
  have c: "vs_rtx_ssrc sending_channel = 8" "pa_posted (the (vs_paced_sender sending_channel)) = []"
    by (simp_all add: sending_channel_def Send_Initialize_def new_VideoSender_def)
  have k: "card (set [5, 6, 5 :: u16]) \<le> kMaxCapacity" by (rule order_trans [OF card_length]) (simp add: kMaxCapacity_def)
  obtain s1 ids where s1: "OnReceiveNack 1 sending_channel [5, 6, 5] = Some s1" "distinct ids" "set ids = set [5, 6, 5]"
    and run: "\<forall>clocks. length clocks = rounds ids \<and> sorted (1 # map snd clocks) \<longrightarrow>
      (\<exists>s2. foldM (\<lambda>(now, tick). history_worker now tick) clocks s1 = Some s2 \<and>
        vs_pending_nacks s2 = [] \<and> \<not> vs_nack_task_scheduled s2 \<and> concat (map snd (batches ids clocks)) = ids \<and>
        pa_posted (the (vs_paced_sender s2)) =
          concat (map (\<lambda>(now, ns). concat (map (answers now 8 (vs_rtp_packet_history sending_channel)) ns)) (batches ids clocks)))"
    and ans: "\<forall>now n p. offered now (vs_rtp_packet_history sending_channel) n = Some (Some p) \<longrightarrow> (\<exists>r. make_rtx 8 p = Some (Some r) \<and>
      answers now 8 (vs_rtp_packet_history sending_channel) n = [(set_packet_type r kRetransmission)\<lparr>ts_fec_protect_packet := False\<rparr>] \<and>
      ts_retransmitted_sequence_number r = Some n)"
    using nack_answered [OF sending_channel_state(1) list.distinct(2) k zero_le_one] unfolding c append_Nil by (elim exE conjE) (rule that)
  obtain r where r: "make_rtx 8 sent_packet = Some (Some r)"
      "answers 9 8 (vs_rtp_packet_history sending_channel) 5 = [(set_packet_type r kRetransmission)\<lparr>ts_fec_protect_packet := False\<rparr>]"
    using ans sending_channel_state(2) by blast
  have e: "set [5, 6, 5 :: u16] = {5, 6}" by auto
  have l: "length ids = 2" using distinct_card [OF s1(2)] unfolding s1(3) e by simp
  have "rounds ids = 1" by (simp add: rounds_def l kMaxNacksPerTask_def)
  then have p: "length [(9 :: timestamp, 2 :: int)] = rounds ids \<and> sorted (1 # map snd [(9 :: timestamp, 2 :: int)])" by simp
  obtain s2 where f: "foldM (\<lambda>(now, tick). history_worker now tick) [(9, 2)] s1 = Some s2" and s2: "vs_pending_nacks s2 = []"
    "pa_posted (the (vs_paced_sender s2)) =
      concat (map (\<lambda>(now, ns). concat (map (answers now 8 (vs_rtp_packet_history sending_channel)) ns)) (batches ids [(9, 2)]))"
    using run [rule_format, OF p] by blast
  have w: "history_worker 9 2 s1 = Some s2" using f by (cases "history_worker 9 2 s1") simp_all
  have s3: "pa_posted (the (vs_paced_sender s2)) = concat (map (answers 9 8 (vs_rtp_packet_history sending_channel)) ids)"
    using s2(2) l by (simp add: kMaxNacksPerTask_def)
  obtain a b where ab: "ids = [a, b]" using l by (auto simp: numeral_2_eq_2 length_Suc_conv)
  then have "{a, b} = {5, 6}" using s1(3) e by simp
  then have "ids = [5, 6] \<or> ids = [6, 5]" unfolding ab doubleton_eq_iff by simp
  then have "pa_posted (the (vs_paced_sender s2)) = [(set_packet_type r kRetransmission)\<lparr>ts_fec_protect_packet := False\<rparr>]"
    using s3 six r(2) by auto
  then show ?thesis using s1(1) s2(1) w r(1) by blast
qed

end
