(* ===== verification/SenderRuns.thy ===== *)
theory SenderRuns
  imports VideoSender "HOL-Library.Multiset"
begin

text \<open>
  Executions of the sending side of a video channel: the thread that receives feedback, the worker
  of the history and the thread that tears the channel down interleave between the locked sections
  of \<open>video_channel_send.cpp\<close>. The invariant is that no request for a retransmission is lost and
  that no step faults.
\<close>

section \<open>The history under any request\<close>

definition task_ok :: "HistoryTask \<Rightarrow> bool" where
  "task_ok t = (case t of SentTask p \<Rightarrow> ts_retransmitted_sequence_number p = None \<longrightarrow> wire_packet p | KeepTask p \<Rightarrow> wire_packet p | _ \<Rightarrow> True)"

text \<open>The part of the state that the requests for retransmissions go through.\<close>

definition nack_part :: "VideoSender \<Rightarrow> u16 list \<times> bool \<times> bool \<times> HistoryTask TaskQueue option" where
  "nack_part s = (vs_pending_nacks s, vs_nack_task_scheduled s, vs_history_shutdown s, vs_task_queue_history s)"

lemma nack_part_simps [simp]:
  "nack_part (s\<lparr>vs_rtp_packet_history := h\<rparr>) = nack_part s"
  "nack_part (s\<lparr>vs_paced_sender := p\<rparr>) = nack_part s"
  by (simp_all add: nack_part_def)

lemma stored_ok_slot:
  assumes "stored_ok h" and "GetStoredPacket (ph_history h) n = Some (Some i)" and "sp_packet y = sp_packet (ph_history h ! i)"
  shows "stored_ok (h\<lparr>ph_history := (ph_history h)[i := y]\<rparr>)"
proof -
  have ok: "history_ok h" using assms(1) by (simp add: stored_ok_def)
  have i: "i < length (ph_history h)" using GetStoredPacket_Some [OF _ assms(2)] ok by (simp add: history_ok_def)
  have "wire_packet p" if "x \<in> entries ((ph_history h)[i := y])" "sp_packet x = Some p" for x p
  proof -
    have "x = y \<or> x \<in> set (ph_history h)" using that(1) set_update_subset_insert [of "ph_history h" i y] by (auto simp: entries_def)
    then show ?thesis using that stored_wire [OF assms(1) i] assms(1,3) by (auto simp: stored_ok_def entries_def)
  qed
  then show ?thesis using history_ok_update [OF ok assms(2,3)] by (simp add: stored_ok_def)
qed

lemma ReSendPacket_any:
  assumes "stored_ok (vs_rtp_packet_history s)"
  shows "\<exists>r s'. ReSendPacket now s n = Some (r, s') \<and> stored_ok (vs_rtp_packet_history s') \<and> nack_part s' = nack_part s"
proof -
  let ?h = "vs_rtp_packet_history s" and ?p = "vs_paced_sender s"
  show ?thesis
  proof (cases "vs_rtx_enabled s \<and> ?p \<noteq> None")
    case False
    then have "ReSendPacket now s n = Some (- 1, s)" by (auto simp: ReSendPacket_def split: option.split)
    then show ?thesis using assms by simp
  next
    case True
    then obtain p where p: "?p = Some p" "vs_rtx_enabled s" by auto
    have ok: "history_ok ?h" using assms by (simp add: stored_ok_def)
    show ?thesis
    proof (cases rule: offered_cases [OF ok, of now n])
      case 1
      then have "ReSendPacket now s n = Some (0, s)" using p by (simp add: ReSendPacket_def)
      then show ?thesis using assms by simp
    next
      case (2 i q)
      obtain r where r: "make_rtx (vs_rtx_ssrc s) q = Some (Some r)" using wire_packet_rtx [OF stored_wire [OF assms 2(3,4)]] by blast
      have m: "stored_ok (mark_pending n ?h)" by (rule mark_pending_ok [OF assms])
      obtain h where h: "MarkPacketAsAborted (mark_pending n ?h) n = Some h" "stored_ok h"
      proof -
        let ?x = "ph_history ?h ! i"
        have "GetStoredPacket ((ph_history ?h)[i := ?x\<lparr>sp_pending_transmission := True\<rparr>]) n = Some (Some i)"
          using GetStoredPacket_update [of "?x\<lparr>sp_pending_transmission := True\<rparr>" "ph_history ?h" i n] 2(2,3) by simp
        then have a: "MarkPacketAsAborted (mark_pending n ?h) n = Some (?h\<lparr>ph_history := (ph_history ?h)[i := ?x\<lparr>sp_pending_transmission := False\<rparr>]\<rparr>)"
          using 2(2,3) by (simp add: mark_pending_def MarkPacketAsAborted_def)
        have "stored_ok (?h\<lparr>ph_history := (ph_history ?h)[i := ?x\<lparr>sp_pending_transmission := False\<rparr>]\<rparr>)"
          by (rule stored_ok_slot [OF assms 2(2)]) simp
        with a show ?thesis using that by blast
      qed
      from p 2(1) 2(6) [of "make_rtx (vs_rtx_ssrc s)", OF r] m h show ?thesis
        by (cases "pa_is_shutdown p") (auto simp: ReSendPacket_def EnqueueRtpPacket_def Let_def)
    qed
  qed
qed

lemma stored_ok_entries:
  assumes "stored_ok h" and "history_ok h'" and "entries (ph_history h') \<subseteq> insert (new_StoredPacket t u) (entries (ph_history h))" and "wire_packet t"
  shows "stored_ok h'"
  using assms by (fastforce simp: stored_ok_def)

lemma PutRtpPacket_stored:
  assumes "stored_ok h" and "wire_packet t"
  shows "\<exists>h'. PutRtpPacket now h t u = Some h' \<and> stored_ok h'"
proof -
  obtain h' where h': "PutRtpPacket now h t u = Some h'" "history_ok h'"
    "entries (ph_history h') \<subseteq> insert (new_StoredPacket t u) {x \<in> entries (ph_history h). slot_seq x \<noteq> Some (seq_of t)}"
    using PutRtpPacket_props [of h now t u] assms(1) by (auto simp: stored_ok_def)
  then have "entries (ph_history h') \<subseteq> insert (new_StoredPacket t u) (entries (ph_history h))" by blast
  with stored_ok_entries [OF assms(1) h'(2) _ assms(2)] h'(1) show ?thesis by blast
qed

lemma MarkPacketAs_stored:
  assumes "stored_ok h"
  shows "\<exists>h'. MarkPacketAsSent now h n = Some h' \<and> stored_ok h'" and "\<exists>h'. MarkPacketAsAborted h n = Some h' \<and> stored_ok h'"
proof -
  obtain k where k: "GetStoredPacket (ph_history h) n = Some k"
    using GetStoredPacket_total [of "ph_history h" n] assms by (auto simp: stored_ok_def history_ok_def)
  show "\<exists>h'. MarkPacketAsSent now h n = Some h' \<and> stored_ok h'"
    using k assms by (cases k) (auto simp: MarkPacketAsSent_def Let_def intro!: stored_ok_slot)
  show "\<exists>h'. MarkPacketAsAborted h n = Some h' \<and> stored_ok h'"
    using k assms by (cases k) (auto simp: MarkPacketAsAborted_def Let_def intro!: stored_ok_slot)
qed

lemma SetRtt_stored: "stored_ok h \<Longrightarrow> stored_ok (SetRtt now h rtt)"
proof -
  assume "stored_ok h"
  moreover from this have "slots_ok (ph_history h)" by (simp add: stored_ok_def history_ok_def)
  ultimately show ?thesis
    using remove_dead_props [of "ph_history h" now "packet_duration rtt" "ph_number_to_store h"]
    by (auto simp: stored_ok_def history_ok_def SetRtt_def RemoveDeadPackets_def)
qed

lemma run_history_task_any:
  assumes "stored_ok (vs_rtp_packet_history s)" and "task_ok t" and "t \<noteq> NackTask"
  shows "\<exists>s'. run_history_task now tick t s = Some s' \<and> stored_ok (vs_rtp_packet_history s') \<and> nack_part s' = nack_part s"
proof (cases t)
  case (SentTask p)
  then show ?thesis
    using assms MarkPacketAs_stored(1) [OF assms(1), of now "the (ts_retransmitted_sequence_number p)"] PutRtpPacket_stored [OF assms(1), of p now now]
    by (cases "ts_retransmitted_sequence_number p") (auto simp: run_history_task_def Let_def task_ok_def)
next
  case (AbortTask n)
  then show ?thesis using MarkPacketAs_stored(2) [OF assms(1), of n] by (auto simp: run_history_task_def Let_def)
next
  case (KeepTask p)
  then show ?thesis using assms PutRtpPacket_stored [OF assms(1), of p now now] by (auto simp: run_history_task_def Let_def task_ok_def)
next
  case (RttTask r)
  then show ?thesis using assms(1) SetRtt_stored by (auto simp: run_history_task_def Let_def)
qed (use assms in simp)

section \<open>Tokens\<close>

text \<open>
  A token is a task that answers requests, in the queue, about to be posted or running. While the
  channel lives there is one token when a task is marked as scheduled and none otherwise.
\<close>

definition queued_nacks :: "HistoryTask TaskQueue \<Rightarrow> nat" where
  "queued_nacks q = count (mset (tasks_of q)) NackTask"

lemma mset_emplace: "mset (emplace x xs) = add_mset x (mset xs)"
  by (induction xs) auto

lemma mset_PostTask: "\<not> tq_stop q \<Longrightarrow> fst (PostTask t q x) \<and> \<not> tq_stop (snd (PostTask t q x)) \<and>
    mset (tasks_of (snd (PostTask t q x))) = add_mset x (mset (tasks_of q))"
  by (simp add: PostTask_def PostDelayedTask_def PostDelayedTaskAt_def tasks_of_def mset_emplace)

lemma WorkerThread_Run:
  "WorkerThread t timed q = (Run x, q') \<Longrightarrow> mset (tasks_of q) = add_mset x (mset (tasks_of q')) \<and> tq_stop q' = tq_stop q"
  by (auto simp: WorkerThread_def tasks_of_def split: list.splits if_splits)

datatype nack_pc = Idle | Resending "u16 list" | Reposting

text \<open>
  The events of an execution that concern the requests, the latest first: a request arrived, with the
  number of requests that were waiting then, or \<open>ReSendPacket\<close> was run for a number. A request is
  accepted as a whole when the set of waiting numbers has room for it.
\<close>

datatype nack_event = Requested "u16 list" nat | Answered u16

fun accepted :: "u16 list \<Rightarrow> nat \<Rightarrow> u16 set" where
  "accepted ns waiting = (if waiting + length ns \<le> kMaxCapacity then set ns else {})"

text \<open>The numbers accepted and not answered since, and the numbers ever requested or answered.\<close>

fun unanswered :: "nack_event list \<Rightarrow> u16 set" where
  "unanswered [] = {}"
| "unanswered (Requested ns waiting # tr) = accepted ns waiting \<union> unanswered tr"
| "unanswered (Answered n # tr) = unanswered tr - {n}"

definition requested :: "nack_event list \<Rightarrow> u16 set" where
  "requested tr = (\<Union>e \<in> set tr. case e of Requested ns _ \<Rightarrow> set ns | Answered _ \<Rightarrow> {})"

definition answered :: "nack_event list \<Rightarrow> u16 set" where
  "answered tr = {n. Answered n \<in> set tr}"

fun to_resend :: "nack_pc \<Rightarrow> u16 list" where
  "to_resend (Resending ids) = ids"
| "to_resend _ = []"

definition run_inv :: "VideoSender \<Rightarrow> nat \<Rightarrow> nack_pc \<Rightarrow> bool" where
  "run_inv s posting pc \<longleftrightarrow> stored_ok (vs_rtp_packet_history s) \<and> distinct (vs_pending_nacks s) \<and> length (vs_pending_nacks s) \<le> kMaxCapacity \<and>
     (\<exists>q. vs_task_queue_history s = Some q \<and> (\<forall>t \<in> set (tasks_of q). task_ok t) \<and>
       (\<not> vs_history_shutdown s \<longrightarrow> \<not> tq_stop q \<and> (vs_pending_nacks s \<noteq> [] \<longrightarrow> vs_nack_task_scheduled s) \<and>
         queued_nacks q + posting + of_bool (pc \<noteq> Idle) = of_bool (vs_nack_task_scheduled s)))"

text \<open>
  The steps. \<open>posting\<close> counts the threads between the locked section of \<open>OnReceiveNack\<close> and the
  posting of the task, \<open>pc\<close> is the point the worker has reached in \<open>ProcessPendingNacks\<close>.
\<close>

inductive sender_run :: "VideoSender \<Rightarrow> nack_event list \<Rightarrow> nat \<Rightarrow> nack_pc \<Rightarrow> bool" where
  run_start: "sender_run (Send_Initialize (new_VideoSender name clock ice ssrc rtx_ssrc ts) payload_type pacer rtx) [] 0 Idle"
| run_frame: "sender_run s tr n pc \<Longrightarrow> SendVideo s frame = Some s' \<Longrightarrow> sender_run s' tr n pc"
| run_padding: "sender_run s tr n pc \<Longrightarrow> GeneratePadding s k us = Some (ps, s') \<Longrightarrow> sender_run s' tr n pc"
| run_extension: "sender_run s tr n pc \<Longrightarrow> sender_run (Send_SetAbsoluteSendTimeExtensionId s i) tr n pc"
| run_pacer: "sender_run s tr n pc \<Longrightarrow> sender_run (s\<lparr>vs_paced_sender := pacer\<rparr>) tr n pc"
| run_sent: "sender_run s tr n pc \<Longrightarrow> (\<And>p. packet = Some p \<Longrightarrow> ts_retransmitted_sequence_number p = None \<Longrightarrow> wire_packet p) \<Longrightarrow>
    OnSentRtpPacket junk object us tick s packet = Some s' \<Longrightarrow> sender_run s' tr n pc"
| run_failed: "sender_run s tr n pc \<Longrightarrow> (ts_retransmitted_sequence_number p = None \<Longrightarrow> wire_packet p) \<Longrightarrow>
    OnRtpPacketSendFailed tick s p = Some s' \<Longrightarrow> sender_run s' tr n pc"
| run_rtt: "sender_run s tr n pc \<Longrightarrow> OnRttUpdate tick s rtt = Some s' \<Longrightarrow> sender_run s' tr n pc"
| run_rehash: "sender_run s tr n pc \<Longrightarrow> mset ids = mset (vs_pending_nacks s) \<Longrightarrow> sender_run (s\<lparr>vs_pending_nacks := ids\<rparr>) tr n pc"
| run_collect: "sender_run s tr n pc \<Longrightarrow> vs_rtx_enabled s \<Longrightarrow> ns \<noteq> [] \<Longrightarrow> collect_nacks s ns = (b, s') \<Longrightarrow>
    sender_run s' (Requested ns (length (vs_pending_nacks s)) # tr) (n + of_bool b) pc"
| run_post: "sender_run s tr (Suc n) pc \<Longrightarrow> schedule_nacks tick s = Some s' \<Longrightarrow> sender_run s' tr n pc"
| run_task: "sender_run s tr n Idle \<Longrightarrow> vs_task_queue_history s = Some q \<Longrightarrow> WorkerThread tick timed q = (Run t, q') \<Longrightarrow> t \<noteq> NackTask \<Longrightarrow>
    run_history_task now tick t (s\<lparr>vs_task_queue_history := Some q'\<rparr>) = Some s' \<Longrightarrow> sender_run s' tr n Idle"
| run_take: "sender_run s tr n Idle \<Longrightarrow> vs_task_queue_history s = Some q \<Longrightarrow> WorkerThread tick timed q = (Run NackTask, q') \<Longrightarrow>
    take_nacks (s\<lparr>vs_task_queue_history := Some q'\<rparr>) = (ids, s') \<Longrightarrow> sender_run s' tr n (case ids of None \<Rightarrow> Idle | Some ids \<Rightarrow> Resending ids)"
| run_resend: "sender_run s tr n (Resending (i # ids)) \<Longrightarrow> \<not> vs_history_shutdown s \<Longrightarrow> ReSendPacket now s i = Some (r, s') \<Longrightarrow>
    sender_run s' (Answered i # tr) n (Resending ids)"
| run_break: "sender_run s tr n (Resending ids) \<Longrightarrow> vs_history_shutdown s \<Longrightarrow> sender_run s tr n (Resending [])"
| run_finish: "sender_run s tr n (Resending []) \<Longrightarrow> finish_nacks s = (b, s') \<Longrightarrow> sender_run s' tr n (if b then Reposting else Idle)"
| run_repost: "sender_run s tr n Reposting \<Longrightarrow> schedule_nacks tick s = Some s' \<Longrightarrow> sender_run s' tr n Idle"
| run_shutdown: "sender_run s tr n pc \<Longrightarrow> sender_run (s\<lparr>vs_history_shutdown := True\<rparr>) tr n pc"
| run_clear: "sender_run s tr n pc \<Longrightarrow> vs_history_shutdown s \<Longrightarrow> sender_run (s\<lparr>vs_pending_nacks := [], vs_nack_task_scheduled := False\<rparr>) tr n pc"
| run_stop: "sender_run s tr n pc \<Longrightarrow> vs_history_shutdown s \<Longrightarrow> vs_task_queue_history s = Some q \<Longrightarrow>
    sender_run (s\<lparr>vs_task_queue_history := Some (Stop (ClearTasks q))\<rparr>) tr n pc"

section \<open>The invariant\<close>

lemma run_inv_part: "run_inv s n pc \<Longrightarrow> nack_part s' = nack_part s \<Longrightarrow> stored_ok (vs_rtp_packet_history s') \<Longrightarrow> run_inv s' n pc"
  by (simp add: run_inv_def nack_part_def)

lemma post_history_part:
  assumes "post_history tick t s = Some (ok, s')" and "vs_task_queue_history s = Some q"
  shows "\<exists>q'. s' = s\<lparr>vs_task_queue_history := Some q'\<rparr> \<and> (tq_stop q \<longrightarrow> \<not> ok \<and> q' = q) \<and>
    (\<not> tq_stop q \<longrightarrow> ok \<and> \<not> tq_stop q' \<and> mset (tasks_of q') = add_mset t (mset (tasks_of q)))"
proof (cases "tq_stop q")
  case True
  then have "PostTask tick q t = (False, q)" using task_fifo.post_stopped [of q tick t] by simp
  then show ?thesis using assms True by (auto simp: post_history_def)
next
  case False
  then show ?thesis using assms mset_PostTask [OF False, of tick t] by (cases "PostTask tick q t") (auto simp: post_history_def)
qed

lemma post_history_inv:
  assumes "run_inv s n pc" and "post_history tick t s = Some (ok, s')" and "t \<noteq> NackTask" and "task_ok t"
  shows "run_inv s' n pc"
proof -
  obtain q where q: "vs_task_queue_history s = Some q" using assms(1) by (auto simp: run_inv_def)
  obtain q' where q': "s' = s\<lparr>vs_task_queue_history := Some q'\<rparr>" "tq_stop q \<longrightarrow> q' = q"
    "\<not> tq_stop q \<longrightarrow> \<not> tq_stop q' \<and> mset (tasks_of q') = add_mset t (mset (tasks_of q))"
    using post_history_part [OF assms(2) q] by blast
  have "\<forall>x \<in> set (tasks_of q'). task_ok x" "queued_nacks q' = queued_nacks q" "\<not> tq_stop q \<longrightarrow> \<not> tq_stop q'"
    using assms(1,3,4) q q'(2,3) by (cases "tq_stop q"; auto simp: run_inv_def queued_nacks_def simp flip: set_mset_mset)+
  then show ?thesis using assms(1) q q'(1) by (simp add: run_inv_def)
qed

lemma schedule_nacks_inv:
  assumes "run_inv s n pc" and "schedule_nacks tick s = Some s'"
    and "\<not> vs_history_shutdown s \<Longrightarrow> n + of_bool (pc \<noteq> Idle) = Suc (n' + of_bool (pc' \<noteq> Idle))"
  shows "run_inv s' n' pc'"
proof -
  obtain q where q: "vs_task_queue_history s = Some q" using assms(1) by (auto simp: run_inv_def)
  obtain ok s1 where p: "post_history tick NackTask s = Some (ok, s1)" "s' = (if ok then s1 else s1\<lparr>vs_nack_task_scheduled := False\<rparr>)"
    using assms(2) by (auto simp: schedule_nacks_def split: Option.bind_splits)
  obtain q' where q': "s1 = s\<lparr>vs_task_queue_history := Some q'\<rparr>" "tq_stop q \<longrightarrow> \<not> ok \<and> q' = q"
    "\<not> tq_stop q \<longrightarrow> ok \<and> \<not> tq_stop q' \<and> mset (tasks_of q') = add_mset NackTask (mset (tasks_of q))"
    using post_history_part [OF p(1) q] by blast
  have t: "\<forall>x \<in> set (tasks_of q'). task_ok x"
    using assms(1) q q'(2,3) by (cases "tq_stop q") (auto simp: run_inv_def task_ok_def simp flip: set_mset_mset)
  show ?thesis
  proof (cases "vs_history_shutdown s")
    case True
    then show ?thesis using assms(1) q p(2) q'(1) t by (simp add: run_inv_def)
  next
    case False
    then have "\<not> tq_stop q" using assms(1) q by (simp add: run_inv_def)
    then have "ok" "\<not> tq_stop q'" "queued_nacks q' = Suc (queued_nacks q)" using q'(3) by (simp_all add: queued_nacks_def)
    then show ?thesis using assms(1) assms(3) [OF False] q p(2) q'(1) t False by (simp add: run_inv_def)
  qed
qed

lemma MaybeSendSenderReport_part:
  "MaybeSendSenderReport junk object us s p = Some s' \<Longrightarrow> nack_part s' = nack_part s \<and> vs_rtp_packet_history s' = vs_rtp_packet_history s"
  by (auto simp: MaybeSendSenderReport_def nack_part_def Let_def split: option.splits if_splits Option.bind_splits)

lemma run_start_inv: "run_inv (Send_Initialize (new_VideoSender name clock ice ssrc rtx_ssrc ts) payload_type pacer rtx) 0 Idle"
  by (simp add: run_inv_def Send_Initialize_def new_VideoSender_def Let_def new_TaskQueue_def tasks_of_def queued_nacks_def
      stored_ok_def new_PacketHistory_ok) (simp add: new_PacketHistory_def)

lemma WorkerThread_inv:
  assumes "run_inv s n pc" and "vs_task_queue_history s = Some q" and "WorkerThread tick timed q = (Run t, q')"
  shows "task_ok t \<and> (\<forall>x \<in> set (tasks_of q'). task_ok x) \<and> tq_stop q' = tq_stop q \<and> queued_nacks q = queued_nacks q' + of_bool (t = NackTask)"
proof -
  have m: "mset (tasks_of q) = add_mset t (mset (tasks_of q'))" "tq_stop q' = tq_stop q" using WorkerThread_Run [OF assms(3)] by simp_all
  have "\<forall>x \<in># mset (tasks_of q). task_ok x" using assms(1,2) by (auto simp: run_inv_def)
  then show ?thesis using m by (auto simp: queued_nacks_def)
qed

lemma sender_run_inv: "sender_run s tr n pc \<Longrightarrow> run_inv s n pc"
proof (induction rule: sender_run.induct)
  case (run_start name clock ice ssrc rtx_ssrc ts payload_type pacer rtx)
  show ?case by (rule run_start_inv)
next
  case (run_frame s tr n pc frame s')
  from run_frame.hyps(2) have "nack_part s' = nack_part s \<and> vs_rtp_packet_history s' = vs_rtp_packet_history s"
    by (auto simp: SendVideo_def nack_part_def Let_def split: option.splits prod.splits Option.bind_splits)
  then show ?case using run_frame.IH run_inv_part [of s n pc s'] by (simp add: run_inv_def)
next
  case (run_padding s tr n pc k us ps s')
  from run_padding.hyps(2) have "nack_part s' = nack_part s \<and> vs_rtp_packet_history s' = vs_rtp_packet_history s"
    by (auto simp: GeneratePadding_def nack_part_def split: option.splits Option.bind_splits)
  then show ?case using run_padding.IH run_inv_part [of s n pc s'] by (simp add: run_inv_def)
next
  case (run_sent s tr n pc packet junk object us tick s')
  show ?case
  proof (cases packet)
    case None
    then show ?thesis using run_sent by (simp add: OnSentRtpPacket_def)
  next
    case (Some p)
    obtain s1 where s1: "MaybeSendSenderReport junk object us s p = Some s1"
      "(if vs_task_queue_history s1 = None \<or> vs_history_shutdown s1 then Some s1 else map_option snd (post_history tick (SentTask p) s1)) = Some s'"
      using run_sent.hyps(3) Some by (auto simp: OnSentRtpPacket_def split: Option.bind_splits)
    have i: "run_inv s1 n pc" using MaybeSendSenderReport_part [OF s1(1)] run_inv_part [OF run_sent.IH, of s1] run_sent.IH by (simp add: run_inv_def)
    have "task_ok (SentTask p)" using run_sent.hyps(2) Some by (simp add: task_ok_def)
    then show ?thesis using s1(2) i post_history_inv [OF i, of tick "SentTask p"] by (auto split: if_splits)
  qed
next
  case (run_failed s tr n pc p tick s')
  then show ?case using post_history_inv [OF run_failed.IH, of tick]
    by (auto simp: OnRtpPacketSendFailed_def task_ok_def split: if_splits option.splits)
next
  case (run_rtt s tr n pc tick rtt s')
  then show ?case using post_history_inv [OF run_rtt.IH, of tick] by (auto simp: OnRttUpdate_def task_ok_def split: if_splits)
next
  case (run_rehash s tr n pc ids)
  then have "distinct ids" "length ids = length (vs_pending_nacks s)" "ids = [] \<longleftrightarrow> vs_pending_nacks s = []"
    using mset_eq_imp_distinct_iff [of ids "vs_pending_nacks s"] mset_eq_length [of ids "vs_pending_nacks s"] by (auto simp: run_inv_def)
  then show ?case using run_rehash.IH by (simp add: run_inv_def)
next
  case (run_collect s tr n pc ns b s')
  let ?ids = "insert_pending ns (vs_pending_nacks s)"
  have "distinct ?ids" "length ?ids \<le> kMaxCapacity" using insert_pending_props [of "vs_pending_nacks s" ns] run_collect.IH by (auto simp: run_inv_def)
  then show ?case using run_collect.IH run_collect.hyps(4) by (auto simp: run_inv_def collect_nacks_def Let_def split: if_splits)
next
  case (run_post s tr n pc tick s')
  show ?case by (rule schedule_nacks_inv [OF run_post.IH run_post.hyps(2)]) simp
next
  case (run_task s tr n q tick timed t q' now s')
  let ?s = "s\<lparr>vs_task_queue_history := Some q'\<rparr>"
  note w = WorkerThread_inv [OF run_task.IH run_task.hyps(2,3)]
  have "run_inv ?s n Idle" using run_task.IH run_task.hyps(2,4) w by (simp add: run_inv_def)
  moreover obtain s1 where "run_history_task now tick t ?s = Some s1" "stored_ok (vs_rtp_packet_history s1)" "nack_part s1 = nack_part ?s"
    using run_history_task_any [of ?s t now tick] w run_task.hyps(4) run_task.IH by (auto simp: run_inv_def)
  ultimately show ?case using run_task.hyps(5) run_inv_part by auto
next
  case (run_take s tr n q tick timed q' ids s')
  note w = WorkerThread_inv [OF run_take.IH run_take.hyps(2,3)]
  then show ?case using run_take.IH run_take.hyps(2,4) by (auto simp: run_inv_def take_nacks_def split: if_splits)
next
  case (run_resend s tr n i ids now r s')
  then obtain r1 s1 where "ReSendPacket now s i = Some (r1, s1)" "stored_ok (vs_rtp_packet_history s1)" "nack_part s1 = nack_part s"
    using ReSendPacket_any [of s now i] by (auto simp: run_inv_def)
  with run_resend have "run_inv s' n (Resending (i # ids))" using run_inv_part by auto
  then show ?case by (simp add: run_inv_def)
next
  case (run_finish s tr n b s')
  then show ?case by (auto simp: run_inv_def finish_nacks_def of_bool_def split: if_splits)
next
  case (run_repost s tr n tick s')
  show ?case by (rule schedule_nacks_inv [OF run_repost.IH run_repost.hyps(2)]) simp
next
  case (run_stop s tr n pc q)
  then show ?case by (auto simp: run_inv_def Stop_def ClearTasks_def tasks_of_def)
qed (auto simp: run_inv_def Send_SetAbsoluteSendTimeExtensionId_def)

section \<open>Requests and answers\<close>

text \<open>
  No request is dropped: while the channel lives, a number that was accepted and not answered since is
  waiting in the set or in the list of the running task; and only requested numbers wait or are
  answered.
\<close>

definition trace_inv :: "VideoSender \<Rightarrow> nack_event list \<Rightarrow> nack_pc \<Rightarrow> bool" where
  "trace_inv s tr pc \<longleftrightarrow>
     (\<not> vs_history_shutdown s \<longrightarrow> unanswered tr \<subseteq> set (vs_pending_nacks s) \<union> set (to_resend pc)) \<and>
     set (vs_pending_nacks s) \<union> set (to_resend pc) \<union> answered tr \<subseteq> requested tr"

lemma trace_inv_same:
  "trace_inv s tr pc \<Longrightarrow> vs_pending_nacks s' = vs_pending_nacks s \<Longrightarrow> vs_history_shutdown s' = vs_history_shutdown s \<Longrightarrow>
    to_resend pc' = to_resend pc \<Longrightarrow> trace_inv s' tr pc'"
  by (simp add: trace_inv_def)

lemma trace_inv_part: "trace_inv s tr pc \<Longrightarrow> nack_part s' = nack_part s \<Longrightarrow> trace_inv s' tr pc"
  by (rule trace_inv_same) (simp_all add: nack_part_def)

lemma post_history_same:
  "post_history tick t s = Some (ok, s') \<Longrightarrow> vs_pending_nacks s' = vs_pending_nacks s \<and> vs_history_shutdown s' = vs_history_shutdown s"
  by (auto simp: post_history_def split: Option.bind_splits prod.splits)

lemma schedule_nacks_same:
  "schedule_nacks tick s = Some s' \<Longrightarrow> vs_pending_nacks s' = vs_pending_nacks s \<and> vs_history_shutdown s' = vs_history_shutdown s"
  by (auto simp: schedule_nacks_def dest!: post_history_same split: Option.bind_splits if_splits)

lemma insert_pending_room:
  assumes "distinct ids"
  shows "set ids \<union> accepted ns (length ids) \<subseteq> set (insert_pending ns ids)" and "set (insert_pending ns ids) \<subseteq> set ids \<union> set ns"
proof -
  have "card (set ids \<union> set ns) \<le> length ids + length ns"
    using card_Un_le [of "set ids" "set ns"] card_length [of ids] card_length [of ns] by linarith
  then show "set ids \<union> accepted ns (length ids) \<subseteq> set (insert_pending ns ids)"
    and "set (insert_pending ns ids) \<subseteq> set ids \<union> set ns"
    using insert_pending_props [OF assms, of ns] by auto
qed

lemma sender_run_trace: "sender_run s tr n pc \<Longrightarrow> trace_inv s tr pc"
proof (induction rule: sender_run.induct)
  case (run_start name clock ice ssrc rtx_ssrc ts payload_type pacer rtx)
  show ?case by (simp add: trace_inv_def answered_def Send_Initialize_def new_VideoSender_def Let_def)
next
  case (run_frame s tr n pc frame s')
  from run_frame.hyps(2) have "nack_part s' = nack_part s"
    by (auto simp: SendVideo_def nack_part_def Let_def split: option.splits prod.splits Option.bind_splits)
  then show ?case by (rule trace_inv_part [OF run_frame.IH])
next
  case (run_padding s tr n pc k us ps s')
  from run_padding.hyps(2) have "nack_part s' = nack_part s"
    by (auto simp: GeneratePadding_def nack_part_def split: option.splits Option.bind_splits)
  then show ?case by (rule trace_inv_part [OF run_padding.IH])
next
  case (run_sent s tr n pc packet junk object us tick s')
  then have "vs_pending_nacks s' = vs_pending_nacks s \<and> vs_history_shutdown s' = vs_history_shutdown s"
    by (auto simp: OnSentRtpPacket_def nack_part_def dest!: MaybeSendSenderReport_part post_history_same
        split: option.splits if_splits Option.bind_splits)
  then show ?case using trace_inv_same [OF run_sent.IH] by blast
next
  case (run_failed s tr n pc p tick s')
  then show ?case using trace_inv_same [OF run_failed.IH]
    by (auto simp: OnRtpPacketSendFailed_def dest!: post_history_same split: if_splits option.splits)
next
  case (run_rtt s tr n pc tick rtt s')
  then show ?case using trace_inv_same [OF run_rtt.IH] by (auto simp: OnRttUpdate_def dest!: post_history_same split: if_splits)
next
  case (run_rehash s tr n pc ids)
  then show ?case using mset_eq_setD [OF run_rehash.hyps(2)] by (simp add: trace_inv_def)
next
  case (run_collect s tr n pc ns b s')
  have "distinct (vs_pending_nacks s)" using sender_run_inv [OF run_collect.hyps(1)] by (simp add: run_inv_def)
  from insert_pending_room [OF this, of ns]
  show ?case using run_collect.IH run_collect.hyps(4)
    by (auto simp: trace_inv_def collect_nacks_def Let_def requested_def answered_def split: if_splits)
next
  case (run_post s tr n pc tick s')
  then show ?case using trace_inv_same [OF run_post.IH] schedule_nacks_same by blast
next
  case (run_task s tr n q tick timed t q' now s')
  let ?s = "s\<lparr>vs_task_queue_history := Some q'\<rparr>"
  note i = sender_run_inv [OF run_task.hyps(1)]
  have "task_ok t" using WorkerThread_inv [OF i run_task.hyps(2,3)] by simp
  then obtain s1 where "run_history_task now tick t ?s = Some s1" "nack_part s1 = nack_part ?s"
    using run_history_task_any [of ?s t now tick] run_task.hyps(4) i by (auto simp: run_inv_def)
  then show ?case using run_task.hyps(5) by (auto simp: nack_part_def intro!: trace_inv_same [OF run_task.IH])
next
  case (run_take s tr n q tick timed q' ids s')
  have "set (vs_pending_nacks s) = set (take kMaxNacksPerTask (vs_pending_nacks s)) \<union> set (drop kMaxNacksPerTask (vs_pending_nacks s))"
    by (simp flip: set_append)
  then show ?case using run_take.IH run_take.hyps(4) by (auto simp: trace_inv_def take_nacks_def split: if_splits)
next
  case (run_resend s tr n i ids now r s')
  then obtain r1 s1 where "ReSendPacket now s i = Some (r1, s1)" "nack_part s1 = nack_part s"
    using ReSendPacket_any [of s now i] sender_run_inv [OF run_resend.hyps(1)] by (auto simp: run_inv_def)
  then have "nack_part s' = nack_part s" using run_resend.hyps(3) by simp
  then show ?case using run_resend.IH by (auto simp: trace_inv_def nack_part_def requested_def answered_def)
next
  case (run_finish s tr n b s')
  then show ?case by (auto simp: trace_inv_def finish_nacks_def split: if_splits)
next
  case (run_repost s tr n tick s')
  then show ?case using schedule_nacks_same trace_inv_same [OF run_repost.IH, of s' Idle] by simp
qed (auto simp: trace_inv_def Send_SetAbsoluteSendTimeExtensionId_def)

section \<open>Properties\<close>

text \<open>
  C21: no request for a retransmission is lost and nothing faults while threads interleave. In every
  execution in which the packets reported as sent are packets as the packetizers build them, and while
  the channel is not torn down: every number of a request that the set of waiting numbers had room for
  has been answered since (\<open>ReSendPacket\<close> was run for it), or waits in the set, or is in the list
  of the running task; numbers wait only while a task is marked as scheduled; and exactly one task is
  queued, about to be posted or running when the mark is set, and none when it is not. Only requested
  numbers wait or are answered, the waiting numbers are distinct and at most 10001, and every task of
  the queue and every retransmission returns without a fault.
\<close>

theorem nacks_not_lost:
  assumes "sender_run s tr posting pc"
  shows "distinct (vs_pending_nacks s) \<and> length (vs_pending_nacks s) \<le> 10001 \<and>
    set (vs_pending_nacks s) \<union> set (to_resend pc) \<union> answered tr \<subseteq> requested tr \<and>
    (\<exists>q. vs_task_queue_history s = Some q \<and>
      (\<not> vs_history_shutdown s \<longrightarrow>
        unanswered tr \<subseteq> set (vs_pending_nacks s) \<union> set (to_resend pc) \<and>
        (vs_pending_nacks s \<noteq> [] \<longrightarrow> vs_nack_task_scheduled s) \<and>
        count_list (tasks_of q) NackTask + posting + of_bool (pc \<noteq> Idle) = of_bool (vs_nack_task_scheduled s)) \<and>
      (\<forall>t \<in> set (tasks_of q). t \<noteq> NackTask \<longrightarrow> (\<forall>now tick. \<exists>s'. run_history_task now tick t s = Some s')) \<and>
      (\<forall>now n. \<exists>r s'. ReSendPacket now s n = Some (r, s')))"
proof -
  from sender_run_inv [OF assms] obtain q where q: "stored_ok (vs_rtp_packet_history s)" "distinct (vs_pending_nacks s)"
    "length (vs_pending_nacks s) \<le> kMaxCapacity" "vs_task_queue_history s = Some q" "\<forall>t \<in> set (tasks_of q). task_ok t"
    "\<not> vs_history_shutdown s \<longrightarrow> (vs_pending_nacks s \<noteq> [] \<longrightarrow> vs_nack_task_scheduled s) \<and>
      queued_nacks q + posting + of_bool (pc \<noteq> Idle) = of_bool (vs_nack_task_scheduled s)"
    by (auto simp: run_inv_def)
  have "queued_nacks q = count_list (tasks_of q) NackTask" by (simp add: queued_nacks_def count_mset)
  moreover have "\<exists>s'. run_history_task now tick t s = Some s'" if "t \<in> set (tasks_of q)" "t \<noteq> NackTask" for t now tick
    using run_history_task_any [OF q(1), of t now tick] q(5) that by blast
  moreover have "\<exists>r s'. ReSendPacket now s n = Some (r, s')" for now n using ReSendPacket_any [OF q(1), of now n] by blast
  ultimately show ?thesis using q(2-4,6) sender_run_trace [OF assms] by (simp add: kMaxCapacity_def trace_inv_def)
qed

definition new_channel :: VideoSender where
  "new_channel = Send_Initialize (new_VideoSender [] None False 7 8 0) PT_H264 \<lparr>pa_is_shutdown = False, pa_posted = []\<rparr> True"

theorem nacks_not_lost_witness:
  "\<exists>s q. collect_nacks new_channel [5, 5, 7] = (True, s) \<and> vs_task_queue_history s = Some q \<and>
    unanswered [Requested [5, 5, 7] 0] = {5, 7} \<and> {5, 7} \<subseteq> set (vs_pending_nacks s) \<and>
    count_list (tasks_of q) NackTask = 0 \<and> vs_nack_task_scheduled s"
proof -
  let ?s = "new_channel\<lparr>vs_pending_nacks := [5, 7], vs_nack_task_scheduled := True\<rparr>"
  have col: "collect_nacks new_channel [5, 5, 7] = (True, ?s)" and p: "vs_pending_nacks new_channel = []"
    by (simp_all add: new_channel_def collect_nacks_def Send_Initialize_def new_VideoSender_def Let_def kMaxCapacity_def)
  have u: "unanswered [Requested [5, 5, 7] 0] = {5, 7}" by (simp add: kMaxCapacity_def)
  have c: "vs_rtx_enabled new_channel" "sender_run new_channel [] 0 Idle" "\<not> vs_history_shutdown new_channel"
    unfolding new_channel_def by (simp add: Send_Initialize_def Let_def, rule run_start, simp add: Send_Initialize_def new_VideoSender_def Let_def)
  have "sender_run ?s [Requested [5, 5, 7] 0] (0 + of_bool True) Idle"
    using run_collect [OF c(2,1) list.distinct(2) col] p by simp
  from nacks_not_lost [OF this] obtain q where "vs_task_queue_history ?s = Some q" "count_list (tasks_of q) NackTask = 0"
    "unanswered [Requested [5, 5, 7] 0] \<subseteq> set (vs_pending_nacks ?s)"
    using c(3) by auto
  with col u show ?thesis by (intro exI [of _ ?s] exI [of _ q]) simp
qed

end
