(* ===== verification/RtcpFeedback.thy ===== *)
theory RtcpFeedback
  imports RtcpPacket
begin

text \<open>
  RTCP feedback messages: \<open>src/rtcp/rtp_feedback/rtp_feedback.{h,cpp}\<close> (the common part),
  \<open>src/rtcp/nack.{h,cpp}\<close> (generic NACK) and \<open>src/rtcp/fir.{h,cpp}\<close> (full intra request).

  \<open>Pack\<close>/\<open>Unpack\<close> compress a list of lost sequence numbers into pairs of a base and a 16-bit
  mask; \<open>Create\<close> serialises, splitting over several datagrams when the buffer is full;
  \<open>Parse\<close> reads one packet back. Every method of the classes that changes state is modelled.
\<close>

section \<open>Common part\<close>

definition kCommonFeedbackLength :: nat where "kCommonFeedbackLength = 8"

text \<open>\<open>ParseCommonFeedback\<close> returns the sender and the media SSRC.\<close>

definition ParseCommonFeedback :: "byte list \<Rightarrow> (u32 \<times> u32) option" where
  "ParseCommonFeedback payload = do {
     sender_ssrc \<leftarrow> ReadBigEndian4 payload 0;
     media_ssrc \<leftarrow> ReadBigEndian4 payload 4;
     Some (sender_ssrc, media_ssrc) }"

definition CreateCommonFeedback :: "u32 \<Rightarrow> u32 \<Rightarrow> byte list \<Rightarrow> nat \<Rightarrow> byte list option" where
  "CreateCommonFeedback sender_ssrc media_ssrc payload pos = do {
     p \<leftarrow> WriteBigEndian4 payload (pos + 0) sender_ssrc;
     WriteBigEndian4 p (pos + 4) media_ssrc }"

section \<open>NACK\<close>

definition kRtpfbPacketType :: byte where "kRtpfbPacketType = 205"
definition kNackFeedbackMessageType :: nat where "kNackFeedbackMessageType = 1"
definition kNackItemLength :: nat where "kNackItemLength = 4"

record PackedNack =
  first_pid :: u16
  bitmask :: u16

record Nack =
  nack_sender_ssrc :: u32
  nack_media_ssrc :: u32
  packed :: "PackedNack list"
  packet_ids :: "u16 list"

definition new_Nack :: Nack where
  "new_Nack = \<lparr>nack_sender_ssrc = 0, nack_media_ssrc = 0, packed = [], packet_ids = []\<rparr>"

text \<open>The inner loop of \<open>Pack\<close>: the mask collected for \<open>first_pid\<close> and the ids left over.\<close>

fun pack_mask :: "u16 \<Rightarrow> u16 \<Rightarrow> u16 list \<Rightarrow> u16 \<times> u16 list" where
  "pack_mask pid m [] = (m, [])"
| "pack_mask pid m (x # xs) =
     (let shift = x - pid - 1 in
      if shift \<le> 15 then pack_mask pid (m OR push_bit (unat shift) 1) xs
      else (m, x # xs))"

lemma pack_mask_length: "pack_mask pid m xs = (m', ys) \<Longrightarrow> length ys \<le> length xs"
  by (induction pid m xs arbitrary: m' ys rule: pack_mask.induct)
    (auto simp: Let_def split: if_splits intro: le_SucI)

function pack_ids :: "u16 list \<Rightarrow> PackedNack list \<Rightarrow> PackedNack list" where
  "pack_ids [] acc = acc"
| "pack_ids (x # xs) acc =
     (case pack_mask x 0 xs of (m, rest) \<Rightarrow> pack_ids rest (acc @ [\<lparr>first_pid = x, bitmask = m\<rparr>]))"
  by pat_completeness auto
termination
  by (relation "measure (\<lambda>(ids, acc). length ids)")
    (simp, simp add: less_Suc_eq_le, metis pack_mask_length)

definition Pack :: "Nack \<Rightarrow> Nack" where
  "Pack n = n\<lparr>packed := pack_ids (packet_ids n) (packed n)\<rparr>"

definition SetPacketIds :: "Nack \<Rightarrow> u16 list \<Rightarrow> Nack" where
  "SetPacketIds n nack_list = Pack (n\<lparr>packet_ids := nack_list\<rparr>)"

text \<open>The loop over the mask bits in \<open>Unpack\<close>.\<close>

function unpack_bits :: "u16 \<Rightarrow> u16 \<Rightarrow> u16 list" where
  "unpack_bits m pid =
     (if m = 0 then []
      else (if m AND 1 \<noteq> 0 then [pid] else []) @ unpack_bits (drop_bit 1 m) (pid + 1))"
  by pat_completeness auto
termination
proof (relation "measure (\<lambda>(m, pid). unat m)")
  fix m :: u16
  assume "m \<noteq> 0"
  then have "0 < unat m" by (simp add: unat_gt_0)
  moreover have "unat (drop_bit 1 m) = unat m div 2"
    by (simp only: unat_drop_bit_eq) (simp add: drop_bit_eq_div)
  ultimately show "((drop_bit 1 m, pid + 1), m, pid) \<in> measure (\<lambda>(m, pid). unat m)" for pid :: u16
    by simp
qed simp

declare unpack_bits.simps [simp del]

definition Unpack :: "Nack \<Rightarrow> Nack" where
  "Unpack n = n\<lparr>packet_ids := packet_ids n @
     concat (map (\<lambda>item. first_pid item # unpack_bits (bitmask item) (first_pid item + 1)) (packed n))\<rparr>"

definition read_packed_nack :: "byte list \<Rightarrow> nat \<Rightarrow> PackedNack option" where
  "read_packed_nack b pos = do {
     pid \<leftarrow> ReadBigEndian2 b pos;
     m \<leftarrow> ReadBigEndian2 b (pos + 2);
     Some \<lparr>first_pid = pid, bitmask = m\<rparr> }"

definition write_packed_nack :: "PackedNack \<Rightarrow> byte list \<Rightarrow> nat \<Rightarrow> byte list option" where
  "write_packed_nack item b pos = do {
     b1 \<leftarrow> WriteBigEndian2 b (pos + 0) (first_pid item);
     WriteBigEndian2 b1 (pos + 2) (bitmask item) }"

definition Nack_Parse :: "Nack \<Rightarrow> RtcpCommonHeader \<Rightarrow> (bool \<times> Nack) option" where
  "Nack_Parse n h =
     (if payload_size_bytes h < kCommonFeedbackLength + kNackItemLength then Some (False, n)
      else let nack_items = (payload_size_bytes h - kCommonFeedbackLength) div kNackItemLength in do {
        (sender, media) \<leftarrow> ParseCommonFeedback (hdr_payload h);
        items \<leftarrow> read_items read_packed_nack kNackItemLength nack_items (hdr_payload h) kCommonFeedbackLength;
        Some (True, Unpack (n\<lparr>nack_sender_ssrc := sender, nack_media_ssrc := media,
                              packet_ids := [], packed := items\<rparr>)) })"

definition Nack_BlockLength :: "Nack \<Rightarrow> nat" where
  "Nack_BlockLength n = kHeaderLength + kCommonFeedbackLength + length (packed n) * kNackItemLength"

text \<open>
  The loop of \<open>Nack::Create\<close> over the packed items that are left. \<open>bytes_left_in_buffer\<close> is a
  \<open>size_t\<close> difference, which wraps when the write position is beyond \<open>max_length\<close>.
\<close>

definition kNackHeaderLength :: nat where
  "kNackHeaderLength = kHeaderLength + kCommonFeedbackLength"

definition nack_fields :: "nat \<Rightarrow> nat \<Rightarrow> nat" where
  "nack_fields bytes_left n = min ((bytes_left - kNackHeaderLength) div kNackItemLength) n"

definition write_nack_block :: "Nack \<Rightarrow> PackedNack list \<Rightarrow> wstate \<Rightarrow> wstate option" where
  "write_nack_block n items s = do {
     (b1, i1) \<leftarrow> CreateHeader kNackFeedbackMessageType kRtpfbPacketType
        ((kCommonFeedbackLength + length items * kNackItemLength) div 4) False (w_packet s) (w_index s);
     b2 \<leftarrow> CreateCommonFeedback (nack_sender_ssrc n) (nack_media_ssrc n) b1 i1;
     b3 \<leftarrow> write_items write_packed_nack kNackItemLength items b2 (i1 + kCommonFeedbackLength);
     Some (s\<lparr>w_packet := b3, w_index := i1 + kCommonFeedbackLength + length items * kNackItemLength\<rparr>) }"

function nack_create_loop :: "Nack \<Rightarrow> nat \<Rightarrow> PackedNack list \<Rightarrow> wstate \<Rightarrow> (bool \<times> wstate) option" where
  "nack_create_loop n max_length items s =
     (if items = [] then Some (True, s)
      else let bytes_left = size_sub max_length (w_index s) in
        if bytes_left < kNackHeaderLength + kNackItemLength then
          do {
            (ok, s') \<leftarrow> OnBufferFull s;
            if \<not> ok then Some (False, s') else nack_create_loop n max_length items s' }
        else
          let num = nack_fields bytes_left (length items) in do {
            s' \<leftarrow> write_nack_block n (take num items) s;
            nack_create_loop n max_length (drop num items) s' })"
  by pat_completeness auto
termination
proof (relation "measures [\<lambda>(n, m, items, s). length items, \<lambda>(n, m, items, s). w_index s]",
    goal_cases)
  case (3 n max_length items s x z)
  then show ?case by (cases items) (auto simp: nack_fields_def kNackItemLength_def kNackHeaderLength_def
      kHeaderLength_def kCommonFeedbackLength_def)
qed (auto simp: OnBufferFull_def Option.bind_eq_Some_conv split: if_splits)

declare nack_create_loop.simps [simp del]

definition Nack_Create :: "Nack \<Rightarrow> nat \<Rightarrow> wstate \<Rightarrow> (bool \<times> wstate) option" where
  "Nack_Create n max_length s = nack_create_loop n max_length (packed n) s"

section \<open>FIR\<close>

definition kFirPacketType :: byte where "kFirPacketType = 206"
definition kFirFeedbackMessageType :: nat where "kFirFeedbackMessageType = 4"
definition kFciLength :: nat where "kFciLength = 8"

record FirRequest =
  req_ssrc :: u32
  req_seq_nr :: byte

record Fir =
  fir_sender_ssrc :: u32
  fir_media_ssrc :: u32
  fir_items :: "FirRequest list"

definition new_Fir :: Fir where
  "new_Fir = \<lparr>fir_sender_ssrc = 0, fir_media_ssrc = 0, fir_items = []\<rparr>"

definition AddRequestTo :: "Fir \<Rightarrow> u32 \<Rightarrow> byte \<Rightarrow> Fir" where
  "AddRequestTo f ssrc seq_num =
     f\<lparr>fir_items := fir_items f @ [\<lparr>req_ssrc = ssrc, req_seq_nr = seq_num\<rparr>]\<rparr>"

definition read_fir_request :: "byte list \<Rightarrow> nat \<Rightarrow> FirRequest option" where
  "read_fir_request b next_fci = do {
     ssrc \<leftarrow> ReadBigEndian4 b next_fci;
     seq_nr \<leftarrow> ReadBigEndian1 b (next_fci + 4);
     Some \<lparr>req_ssrc = ssrc, req_seq_nr = seq_nr\<rparr> }"

definition write_fir_request :: "FirRequest \<Rightarrow> byte list \<Rightarrow> nat \<Rightarrow> byte list option" where
  "write_fir_request r b index = do {
     b1 \<leftarrow> WriteBigEndian4 b index (req_ssrc r);
     b2 \<leftarrow> WriteBigEndian1 b1 (index + 4) (req_seq_nr r);
     WriteBigEndian 3 b2 (index + 5) (0 :: u32) }"

definition Fir_Parse :: "Fir \<Rightarrow> RtcpCommonHeader \<Rightarrow> (bool \<times> Fir) option" where
  "Fir_Parse f h =
     (if payload_size_bytes h < kCommonFeedbackLength + kFciLength then Some (False, f)
      else if (payload_size_bytes h - kCommonFeedbackLength) mod kFciLength \<noteq> 0 then Some (False, f)
      else do {
        (sender, media) \<leftarrow> ParseCommonFeedback (hdr_payload h);
        items \<leftarrow> read_items read_fir_request kFciLength
          ((payload_size_bytes h - kCommonFeedbackLength) div kFciLength)
          (hdr_payload h) kCommonFeedbackLength;
        Some (True, f\<lparr>fir_sender_ssrc := sender, fir_media_ssrc := media, fir_items := items\<rparr>) })"

definition Fir_BlockLength :: "Fir \<Rightarrow> nat" where
  "Fir_BlockLength f = kHeaderLength + kCommonFeedbackLength + kFciLength * length (fir_items f)"

text \<open>The loop that flushes until the block fits.\<close>

function fir_make_room :: "nat \<Rightarrow> nat \<Rightarrow> wstate \<Rightarrow> (bool \<times> wstate) option" where
  "fir_make_room block_length max_length s =
     (if w_index s + block_length > max_length then do {
        (ok, s') \<leftarrow> OnBufferFull s;
        if \<not> ok then Some (False, s') else fir_make_room block_length max_length s' }
      else Some (True, s))"
  by pat_completeness auto
termination
  by (relation "measure (\<lambda>(bl, m, s). w_index s)")
    (auto simp: OnBufferFull_def Option.bind_eq_Some_conv split: if_splits)

declare fir_make_room.simps [simp del]

definition write_fir_block :: "Fir \<Rightarrow> wstate \<Rightarrow> wstate option" where
  "write_fir_block f s = do {
     (b1, i1) \<leftarrow> CreateHeader kFirFeedbackMessageType kFirPacketType
        (HeaderLength (Fir_BlockLength f)) False (w_packet s) (w_index s);
     b2 \<leftarrow> CreateCommonFeedback (fir_sender_ssrc f) (fir_media_ssrc f) b1 i1;
     b3 \<leftarrow> write_items write_fir_request kFciLength (fir_items f) b2 (i1 + kCommonFeedbackLength);
     Some (s\<lparr>w_packet := b3,
       w_index := i1 + kCommonFeedbackLength + length (fir_items f) * kFciLength\<rparr>) }"

definition Fir_Create :: "Fir \<Rightarrow> nat \<Rightarrow> wstate \<Rightarrow> (bool \<times> wstate) option" where
  "Fir_Create f max_length s = do {
     (room, s) \<leftarrow> fir_make_room (Fir_BlockLength f) max_length s;
     if \<not> room then Some (False, s)
     else do {
       s \<leftarrow> write_fir_block f s;
       Some (True, s) } }"

lemmas feedback_consts = kHeaderLength_def kHeaderSizeBytes_def kCommonFeedbackLength_def
  kNackItemLength_def kNackHeaderLength_def kFciLength_def

section \<open>The wire records\<close>

definition packed_nack_bytes :: "PackedNack \<Rightarrow> byte list" where
  "packed_nack_bytes item = be_bytes 2 (first_pid item) @ be_bytes 2 (bitmask item)"

definition fir_request_bytes :: "FirRequest \<Rightarrow> byte list" where
  "fir_request_bytes r = be_bytes 4 (req_ssrc r) @ [req_seq_nr r] @ be_bytes 3 (0 :: u32)"

lemma be16_two:
  "ReadBigEndian2 (pre @ be_bytes 2 (x :: u16) @ be_bytes 2 (y :: u16) @ post) (length pre + 2) = Some y"
  using be16.dec_enc [of "pre @ be_bytes 2 x" y post] by simp

interpretation nack_item: item_codec read_packed_nack write_packed_nack packed_nack_bytes
  kNackItemLength "\<lambda>_. True"
proof unfold_locales
  show "write_packed_nack x b pos = put b pos (packed_nack_bytes x)" for x b pos
    by (simp add: write_packed_nack_def packed_nack_bytes_def be_simps put_put)
  show "read_packed_nack (pre @ packed_nack_bytes x @ post) (length pre) = Some x" for pre x post
    using be16.dec_enc [of pre "first_pid x" "be_bytes 2 (bitmask x) @ post"]
      be16_two [of pre "first_pid x" "bitmask x" post]
    by (simp add: read_packed_nack_def packed_nack_bytes_def)
  show "\<exists>x. read_packed_nack b pos = Some x" if "pos + kNackItemLength \<le> length b" for pos b
    using that be16.dec_total [of pos b] be16.dec_total [of "pos + 2" b]
    by (auto simp: read_packed_nack_def kNackItemLength_def)
qed (simp add: packed_nack_bytes_def kNackItemLength_def)

interpretation fir_item: item_codec read_fir_request write_fir_request fir_request_bytes
  kFciLength "\<lambda>_. True"
proof unfold_locales
  show "write_fir_request x b pos = put b pos (fir_request_bytes x)" for x b pos
  proof (cases "pos + 8 \<le> length b")
    case True
    then show ?thesis
      by (simp add: write_fir_request_def fir_request_bytes_def be_simps WriteBigEndian1_def
          WriteBigEndian_put wr_put put_put put_put_bind put_SomeI ac_simps)
  next
    case False
    then show ?thesis
      by (auto simp: write_fir_request_def fir_request_bytes_def be_simps WriteBigEndian1_def
          WriteBigEndian_put wr_put put_put_bind put_def)
  qed
  show "read_fir_request (pre @ fir_request_bytes x @ post) (length pre) = Some x" for pre x post
    using be32.dec_enc [of pre "req_ssrc x" "[req_seq_nr x] @ be_bytes 3 (0 :: u32) @ post"]
    by (simp add: read_fir_request_def fir_request_bytes_def ReadBigEndian1_def rd_def nth_append)
  show "\<exists>x. read_fir_request b pos = Some x" if "pos + kFciLength \<le> length b" for pos b
    using that be32.dec_total [of pos b]
    by (auto simp: read_fir_request_def kFciLength_def ReadBigEndian1_def)
qed (simp add: fir_request_bytes_def kFciLength_def)

section \<open>Serialisation\<close>

definition common_bytes :: "u32 \<Rightarrow> u32 \<Rightarrow> byte list" where
  "common_bytes sender media = be_bytes 4 sender @ be_bytes 4 media"

lemma common_bytes_length [simp]: "length (common_bytes x y) = 8"
  by (simp add: common_bytes_def)

lemma CreateCommonFeedback_put: "CreateCommonFeedback x y b pos = put b pos (common_bytes x y)"
  by (simp add: CreateCommonFeedback_def common_bytes_def be_simps put_put)

lemma ParseCommonFeedback_bytes: "ParseCommonFeedback (common_bytes x y @ rest) = Some (x, y)"
  using be32.dec_enc [of "[]" x "be_bytes 4 y @ rest"] be32.dec_enc [of "be_bytes 4 x" y rest]
  by (simp add: ParseCommonFeedback_def common_bytes_def)

text \<open>The bytes of one NACK and one FIR block.\<close>

definition nack_block :: "Nack \<Rightarrow> PackedNack list \<Rightarrow> byte list" where
  "nack_block n items = header_bytes 1 205 (2 + length items) False @
     common_bytes (nack_sender_ssrc n) (nack_media_ssrc n) @ concat (map packed_nack_bytes items)"

definition fir_block :: "Fir \<Rightarrow> byte list" where
  "fir_block f = header_bytes 4 206 (2 + 2 * length (fir_items f)) False @
     common_bytes (fir_sender_ssrc f) (fir_media_ssrc f) @ concat (map fir_request_bytes (fir_items f))"

lemma nack_block_length [simp]: "length (nack_block n items) = 12 + 4 * length items"
  by (simp add: nack_block_def nack_item.concat_enc_length feedback_consts)

lemma fir_block_length [simp]: "length (fir_block f) = 12 + 8 * length (fir_items f)"
  by (simp add: fir_block_def fir_item.concat_enc_length feedback_consts)

lemma block_not_Nil [simp]: "nack_block n items \<noteq> []" "fir_block f \<noteq> []"
  by (simp_all add: nack_block_def fir_block_def header_bytes_def)

text \<open>Writing header, common part and items one after the other writes the block.\<close>

lemma write_block_put:
  assumes "pos + 12 + length body \<le> length b"
    and "\<And>b pos. pos \<le> length b \<Longrightarrow> W b pos = put b pos body"
  shows "Option.bind (CreateHeader c pt len False b pos) (\<lambda>(b1, i1).
      Option.bind (CreateCommonFeedback x y b1 i1) (\<lambda>b2. Option.bind (W b2 (i1 + 8)) (\<lambda>b3. f b3 i1))) =
    Option.bind (put b pos (header_bytes c pt len False @ common_bytes x y @ body)) (\<lambda>b3. f b3 (pos + 4))"
proof -
  let ?hc = "header_bytes c pt len False @ common_bytes x y"
  obtain b2 where b2: "put b pos ?hc = Some b2" using assms(1) by (simp add: put_SomeI)
  then have l: "length b2 = length b" by (rule put_length)
  have "Option.bind (CreateHeader c pt len False b pos) (\<lambda>(b1, i1).
      Option.bind (CreateCommonFeedback x y b1 i1) (\<lambda>b2. Option.bind (W b2 (i1 + 8)) (\<lambda>b3. f b3 i1))) =
    Option.bind (put b pos ?hc) (\<lambda>b2. Option.bind (W b2 (pos + 12)) (\<lambda>b3. f b3 (pos + 4)))"
    by (simp add: CreateHeader_put CreateCommonFeedback_put kHeaderLength_def map_conv_bind_option
        put_put_bind add.commute [of 12])
  also have "\<dots> = Option.bind (Option.bind (put b pos ?hc) (\<lambda>b2. put b2 (pos + 12) body)) (\<lambda>b3. f b3 (pos + 4))"
    using b2 l assms(1) by (simp add: assms(2))
  also have "Option.bind (put b pos ?hc) (\<lambda>b2. put b2 (pos + 12) body) = put b pos (?hc @ body)"
    by (rule put_put) simp
  finally show ?thesis by simp
qed

lemma write_nack_block_put:
  assumes "w_index s + length (nack_block n items) \<le> length (w_packet s)"
  shows "\<exists>b. put (w_packet s) (w_index s) (nack_block n items) = Some b \<and>
    write_nack_block n items s =
      Some (s\<lparr>w_packet := b, w_index := w_index s + length (nack_block n items)\<rparr>)"
proof -
  obtain b where b: "put (w_packet s) (w_index s) (nack_block n items) = Some b"
    using assms put_SomeI by blast
  have d: "(8 + length items * 4) div 4 = 2 + length items" by simp
  have "write_nack_block n items s = Option.bind (put (w_packet s) (w_index s) (nack_block n items))
    (\<lambda>b3. Some (s\<lparr>w_packet := b3, w_index := w_index s + 4 + 8 + length items * 4\<rparr>))"
    unfolding write_nack_block_def nack_block_def kNackFeedbackMessageType_def kRtpfbPacketType_def
      kCommonFeedbackLength_def kNackItemLength_def d
    by (rule write_block_put)
      (use assms nack_item.write_items_put nack_item.concat_enc_length in
        \<open>simp_all add: kNackItemLength_def\<close>)
  with b show ?thesis by (simp add: algebra_simps)
qed

lemma Fir_BlockLength_block: "Fir_BlockLength f = length (fir_block f)"
  by (simp add: Fir_BlockLength_def feedback_consts)

lemma write_fir_block_put:
  assumes "w_index s + length (fir_block f) \<le> length (w_packet s)" and "length (fir_block f) < 2 ^ 64"
  shows "\<exists>b. put (w_packet s) (w_index s) (fir_block f) = Some b \<and>
    write_fir_block f s = Some (s\<lparr>w_packet := b, w_index := w_index s + length (fir_block f)\<rparr>)"
proof -
  obtain b where b: "put (w_packet s) (w_index s) (fir_block f) = Some b"
    using assms put_SomeI by blast
  have hl: "HeaderLength (Fir_BlockLength f) = 2 + 2 * length (fir_items f)"
  proof -
    have "Fir_BlockLength f = 4 + 4 * (2 + 2 * length (fir_items f))"
      by (simp add: Fir_BlockLength_block)
    moreover have "Fir_BlockLength f < 2 ^ 64"
      using assms(2) by (simp only: Fir_BlockLength_block)
    ultimately show ?thesis by (simp add: HeaderLength_def kHeaderLength_def)
  qed
  have "write_fir_block f s = Option.bind (put (w_packet s) (w_index s) (fir_block f))
    (\<lambda>b3. Some (s\<lparr>w_packet := b3, w_index := w_index s + 4 + 8 + length (fir_items f) * 8\<rparr>))"
    unfolding write_fir_block_def fir_block_def hl kFirFeedbackMessageType_def kFirPacketType_def
      kCommonFeedbackLength_def kFciLength_def
    by (rule write_block_put)
      (use assms fir_item.write_items_put fir_item.concat_enc_length in
        \<open>simp_all add: kFciLength_def\<close>)
  with b show ?thesis by (simp add: algebra_simps)
qed

text \<open>\<open>Nack::Create\<close>: which sequences of blocks serialise a NACK.\<close>

definition nack_represents :: "Nack \<Rightarrow> byte list list \<Rightarrow> bool" where
  "nack_represents n bs \<longleftrightarrow> (\<exists>chunks. bs = map (nack_block n) chunks \<and> concat chunks = packed n \<and>
     (\<forall>c \<in> set chunks. c \<noteq> []))"

definition nack_fits :: "Nack \<Rightarrow> nat \<Rightarrow> bool" where
  "nack_fits n max_length \<longleftrightarrow> packed n = [] \<or> 16 \<le> max_length"

lemma nack_create_loop_emits:
  assumes "ready max_length s"
  shows "\<exists>s' chunks. nack_create_loop n max_length items s = Some (items = [] \<or> 16 \<le> max_length, s') \<and>
    ready max_length s' \<and> emits max_length s (map (nack_block n) chunks) s' \<and>
    (\<forall>c \<in> set chunks. c \<noteq> []) \<and> concat chunks = (if 16 \<le> max_length then items else [])"
  using assms
proof (induction n max_length items s rule: nack_create_loop.induct)
  case (1 n max_length items s)
  let ?left = "max_length - w_index s"
  have left: "size_sub max_length (w_index s) = ?left" using "1.prems" by (simp add: ready_def)
  show ?case
  proof (cases "items = []")
    case True
    then show ?thesis using "1.prems" emits_refl
      by (auto simp: nack_create_loop.simps intro!: exI [of _ "[]"])
  next
    case ne: False
    show ?thesis
    proof (cases "?left < 16")
      case full: True
      obtain s1 where s1: "OnBufferFull s = Some (w_index s \<noteq> 0, s1)" "w_index s1 = 0"
        "ready max_length s1" "emits max_length s [] s1"
        using OnBufferFull_emits [OF "1.prems"] by blast
      show ?thesis
      proof (cases "w_index s = 0")
        case True
        with full ne s1 show ?thesis
          by (auto simp: nack_create_loop.simps [of _ _ items s] left feedback_consts
              intro!: exI [of _ "[]"])
      next
        case False
        with "1.IH"(1) [OF ne left [symmetric] _ s1(1) refl _ s1(3)] full obtain s' chunks where
          "nack_create_loop n max_length items s1 = Some (items = [] \<or> 16 \<le> max_length, s')"
          "ready max_length s'" "emits max_length s1 (map (nack_block n) chunks) s'"
          "\<forall>c \<in> set chunks. c \<noteq> []" "concat chunks = (if 16 \<le> max_length then items else [])"
          by (auto simp: feedback_consts)
        moreover from this(3) have "emits max_length s (map (nack_block n) chunks) s'"
          using emits_trans [OF s1(4)] by simp
        ultimately show ?thesis using False full ne s1(1)
          by (auto simp: nack_create_loop.simps [of _ _ items s] left feedback_consts)
      qed
    next
      case room: False
      define k where "k = nack_fields ?left (length items)"
      let ?blk = "nack_block n (take k items)"
      have k: "0 < k" "k \<le> length items" "12 + 4 * k \<le> ?left"
        using room ne by (auto simp: k_def nack_fields_def feedback_consts min_def)
      then have fit: "w_index s + length ?blk \<le> length (w_packet s)"
        using "1.prems" by (auto simp: ready_def)
      obtain b where b: "put (w_packet s) (w_index s) ?blk = Some b"
        "write_nack_block n (take k items) s =
           Some (s\<lparr>w_packet := b, w_index := w_index s + length ?blk\<rparr>)" (is "_ = Some ?s1")
        using write_nack_block_put [OF fit] by blast
      have r1: "ready max_length ?s1"
        using "1.prems" k room put_length [OF b(1)] by (auto simp: ready_def)
      obtain s' chunks where IH: "nack_create_loop n max_length (drop k items) ?s1 =
          Some (drop k items = [] \<or> 16 \<le> max_length, s')"
          "ready max_length s'" "emits max_length ?s1 (map (nack_block n) chunks) s'"
          "\<forall>c \<in> set chunks. c \<noteq> []" "concat chunks = (if 16 \<le> max_length then drop k items else [])"
        using "1.IH"(2) [OF ne left [symmetric] _ k_def b(2) r1] room by (auto simp: feedback_consts)
      have "emits max_length s (map (nack_block n) (take k items # chunks)) s'"
        using emits_trans [OF emits_block [OF b(1)] IH(3)] by simp
      moreover have "16 \<le> max_length" using room "1.prems" by (auto simp: ready_def)
      ultimately show ?thesis using room ne IH b(2) k
        by (intro exI [of _ s'] exI [of _ "take k items # chunks"])
          (auto simp: nack_create_loop.simps [of _ _ items s] left feedback_consts k_def [symmetric])
    qed
  qed
qed

interpretation nack: rtcp_block Nack_Create nack_fits nack_represents
proof unfold_locales
  fix max_length s p
  assume "ready max_length s"
  then obtain s' chunks where
    "nack_create_loop p max_length (packed p) s = Some (packed p = [] \<or> 16 \<le> max_length, s')"
    "ready max_length s'" "emits max_length s (map (nack_block p) chunks) s'"
    "\<forall>c \<in> set chunks. c \<noteq> []" "concat chunks = (if 16 \<le> max_length then packed p else [])"
    using nack_create_loop_emits [of max_length s p "packed p"] by blast
  then show "\<exists>s' bs. Nack_Create p max_length s = Some (nack_fits p max_length, s') \<and>
      ready max_length s' \<and> emits max_length s bs s' \<and>
      (nack_fits p max_length \<longrightarrow> nack_represents p bs) \<and> (\<not> nack_fits p max_length \<longrightarrow> bs = [])"
    by (intro exI [of _ s'] exI [of _ "map (nack_block p) chunks"])
      (auto simp: Nack_Create_def nack_fits_def nack_represents_def split: if_splits)
qed

lemma fir_make_room_emits:
  assumes "ready max_length s"
  shows "\<exists>s'. fir_make_room n max_length s = Some (n \<le> max_length, s') \<and> ready max_length s' \<and>
    emits max_length s [] s' \<and> (n \<le> max_length \<longrightarrow> w_index s' + n \<le> max_length)"
proof (cases "max_length < w_index s + n")
  case True
  obtain s1 where s1: "OnBufferFull s = Some (w_index s \<noteq> 0, s1)" "w_index s1 = 0"
    "ready max_length s1" "emits max_length s [] s1"
    using OnBufferFull_emits [OF assms] by blast
  have "OnBufferFull s1 = Some (False, s1)" using s1(2) by (simp add: OnBufferFull_def)
  with True s1 show ?thesis
    by (auto simp: fir_make_room.simps [of n max_length s] fir_make_room.simps [of n max_length s1])
next
  case False
  then show ?thesis using assms emits_refl by (auto simp: fir_make_room.simps)
qed

definition fir_fits :: "Fir \<Rightarrow> nat \<Rightarrow> bool" where
  "fir_fits f max_length \<longleftrightarrow> Fir_BlockLength f \<le> max_length"

interpretation fir: rtcp_block Fir_Create fir_fits "\<lambda>f bs. bs = [fir_block f]"
proof unfold_locales
  fix max_length s p
  assume r: "ready max_length s"
  let ?n = "Fir_BlockLength p"
  obtain s1 where s1: "fir_make_room ?n max_length s = Some (?n \<le> max_length, s1)"
    "ready max_length s1" "emits max_length s [] s1" "?n \<le> max_length \<longrightarrow> w_index s1 + ?n \<le> max_length"
    using fir_make_room_emits [OF r] by blast
  show "\<exists>s' bs. Fir_Create p max_length s = Some (fir_fits p max_length, s') \<and>
      ready max_length s' \<and> emits max_length s bs s' \<and>
      (fir_fits p max_length \<longrightarrow> bs = [fir_block p]) \<and> (\<not> fir_fits p max_length \<longrightarrow> bs = [])"
  proof (cases "?n \<le> max_length")
    case False
    with s1 show ?thesis by (auto simp: Fir_Create_def fir_fits_def)
  next
    case True
    let ?blk = "fir_block p"
    have fit: "w_index s1 + length ?blk \<le> length (w_packet s1)" "length ?blk < 2 ^ 64"
      using s1(2,4) True unfolding Fir_BlockLength_block ready_def by linarith+
    obtain b where b: "put (w_packet s1) (w_index s1) ?blk = Some b"
      "write_fir_block p s1 = Some (s1\<lparr>w_packet := b, w_index := w_index s1 + length ?blk\<rparr>)"
      (is "_ = Some ?s'")
      using write_fir_block_put [OF fit] by blast
    then have "Fir_Create p max_length s = Some (True, ?s')"
      using s1(1) True by (simp add: Fir_Create_def)
    moreover have "emits max_length s [?blk] ?s'"
      using emits_trans [OF s1(3) emits_block [OF b(1)]] by simp
    moreover have "ready max_length ?s'"
      using s1(2,4) True put_length [OF b(1)] by (auto simp: ready_def Fir_BlockLength_block)
    ultimately show ?thesis using True by (auto simp: fir_fits_def)
  qed
qed

section \<open>Parsing back\<close>

text \<open>A block in front of other bytes, read as a received packet.\<close>

lemma block_header_Parse:
  assumes "length body = 4 * len" and "len < 65536" and "count < 32" and "4 + 4 * len \<le> size_bytes"
  shows "RtcpCommonHeader_Parse h (header_bytes count pt len False @ body @ rest) size_bytes =
    Some (True, \<lparr>hdr_packet_type = pt, hdr_count_or_format = of_nat count, hdr_padding_size = 0,
      hdr_payload_size = of_nat (length body), hdr_payload = body @ rest\<rparr>)"
  using Parse_header_bytes [of count body len size_bytes False h pt rest] assms by simp

lemma nack_block_Parse:
  assumes "items \<noteq> []" and "length items < 65534" and "length (nack_block n items) \<le> size_bytes"
  shows "\<exists>h'. RtcpCommonHeader_Parse h (nack_block n items @ rest) size_bytes = Some (True, h') \<and>
    hdr_packet_type h' = kRtpfbPacketType \<and> hdr_count_or_format h' = of_nat kNackFeedbackMessageType \<and>
    packet_size h' = length (nack_block n items) \<and>
    Nack_Parse m h' = Some (True, Unpack \<lparr>nack_sender_ssrc = nack_sender_ssrc n,
      nack_media_ssrc = nack_media_ssrc n, packed = items, packet_ids = []\<rparr>)"
proof -
  let ?c = "common_bytes (nack_sender_ssrc n) (nack_media_ssrc n)"
  let ?i = "concat (map packed_nack_bytes items)"
  let ?h = "\<lparr>hdr_packet_type = 205, hdr_count_or_format = of_nat 1, hdr_padding_size = 0,
      hdr_payload_size = of_nat (length (?c @ ?i)), hdr_payload = (?c @ ?i) @ rest\<rparr>"
  have li: "length ?i = 4 * length items"
    using nack_item.concat_enc_length [of items] by (simp add: kNackItemLength_def)
  have "RtcpCommonHeader_Parse h (header_bytes 1 205 (2 + length items) False @ (?c @ ?i) @ rest)
      size_bytes = Some (True, ?h)"
    using assms li by (intro block_header_Parse) simp_all
  then have H: "RtcpCommonHeader_Parse h (nack_block n items @ rest) size_bytes = Some (True, ?h)"
    by (simp add: nack_block_def)
  have sz: "unat (of_nat (length (?c @ ?i)) :: u32) = 8 + 4 * length items"
    using assms(2) li unat_of_nat_small [of "8 + 4 * length items", where 'a = 32] by simp
  have "read_items read_packed_nack kNackItemLength (length items) (?c @ ?i @ rest) (length ?c) = Some items"
    by (rule nack_item.read_items_enc) simp
  then have "read_items read_packed_nack 4 (length items) (?c @ ?i @ rest) 8 = Some items"
    by (simp add: kNackItemLength_def)
  moreover have "0 < length items" using assms(1) by simp
  ultimately have "Nack_Parse m ?h = Some (True, Unpack \<lparr>nack_sender_ssrc = nack_sender_ssrc n,
      nack_media_ssrc = nack_media_ssrc n, packed = items, packet_ids = []\<rparr>)"
    using sz by (cases m) (simp add: Nack_Parse_def payload_size_bytes_def feedback_consts
        ParseCommonFeedback_bytes)
  with H sz show ?thesis
    by (auto simp: kRtpfbPacketType_def kNackFeedbackMessageType_def packet_size_def feedback_consts)
qed

lemma fir_block_Parse:
  assumes "fir_items f \<noteq> []" and "length (fir_items f) < 32767" and "length (fir_block f) \<le> size_bytes"
  shows "\<exists>h'. RtcpCommonHeader_Parse h (fir_block f @ rest) size_bytes = Some (True, h') \<and>
    hdr_packet_type h' = kFirPacketType \<and> hdr_count_or_format h' = of_nat kFirFeedbackMessageType \<and>
    packet_size h' = length (fir_block f) \<and> Fir_Parse g h' = Some (True, f)"
proof -
  let ?c = "common_bytes (fir_sender_ssrc f) (fir_media_ssrc f)"
  let ?i = "concat (map fir_request_bytes (fir_items f))"
  let ?h = "\<lparr>hdr_packet_type = 206, hdr_count_or_format = of_nat 4, hdr_padding_size = 0,
      hdr_payload_size = of_nat (length (?c @ ?i)), hdr_payload = (?c @ ?i) @ rest\<rparr>"
  have li: "length ?i = 8 * length (fir_items f)"
    using fir_item.concat_enc_length [of "fir_items f"] by (simp add: kFciLength_def)
  have "RtcpCommonHeader_Parse h (header_bytes 4 206 (2 + 2 * length (fir_items f)) False @ (?c @ ?i) @ rest)
      size_bytes = Some (True, ?h)"
    using assms li by (intro block_header_Parse) simp_all
  then have H: "RtcpCommonHeader_Parse h (fir_block f @ rest) size_bytes = Some (True, ?h)"
    by (simp add: fir_block_def)
  have sz: "unat (of_nat (length (?c @ ?i)) :: u32) = 8 + 8 * length (fir_items f)"
    using assms(2) li unat_of_nat_small [of "8 + 8 * length (fir_items f)", where 'a = 32] by simp
  have "read_items read_fir_request kFciLength (length (fir_items f)) (?c @ ?i @ rest) (length ?c) =
      Some (fir_items f)"
    by (rule fir_item.read_items_enc) simp
  then have "read_items read_fir_request 8 (length (fir_items f)) (?c @ ?i @ rest) 8 = Some (fir_items f)"
    by (simp add: kFciLength_def)
  moreover have "0 < length (fir_items f)" using assms(1) by simp
  ultimately have "Fir_Parse g ?h = Some (True, f)"
    using sz by (simp add: Fir_Parse_def payload_size_bytes_def feedback_consts
        ParseCommonFeedback_bytes)
  with H sz show ?thesis
    by (auto simp: kFirPacketType_def kFirFeedbackMessageType_def packet_size_def feedback_consts)
qed

section \<open>Packing sequence numbers\<close>

lemma unpack_bits_eq:
  "m < 2 ^ k \<Longrightarrow> k \<le> 16 \<Longrightarrow>
    unpack_bits (of_nat m) pid = map (\<lambda>i. pid + of_nat i) (filter (bit m) [0..<k])"
proof (induction k arbitrary: m pid)
  case 0
  then show ?case by (simp add: unpack_bits.simps)
next
  case (Suc k)
  have m: "m < 65536"
  proof -
    have "(2::nat) ^ Suc k \<le> 2 ^ 16" using Suc.prems by (intro power_increasing) auto
    with Suc.prems show ?thesis by simp
  qed
  show ?case
  proof (cases "m = 0")
    case True
    then show ?thesis by (simp add: unpack_bits.simps filter_False)
  next
    case False
    have nz: "(of_nat m :: u16) \<noteq> 0" using False m
      by (metis len_num1 unat_0 unat_of_nat_small [where 'a = 16, of m, simplified])
    have db: "drop_bit 1 (of_nat m :: u16) = of_nat (m div 2)"
      using m by (simp add: word_unat_eq_iff unat_drop_bit_eq drop_bit_eq_div unat_div unat_of_nat_small)
    have odd: "(of_nat m :: u16) AND 1 \<noteq> 0 \<longleftrightarrow> odd m"
      by (simp add: and_one_eq mod_2_eq_odd) 
    have "[0..<Suc k] = 0 # map Suc [0..<k]" by (simp add: upt_conv_Cons map_Suc_upt)
    then have "filter (bit m) [0..<Suc k] =
        (if odd m then [0] else []) @ map Suc (filter (bit (m div 2)) [0..<k])"
      by (simp add: filter_map comp_def bit_Suc bit_0)
    moreover have "unpack_bits (of_nat (m div 2)) (pid + 1) =
        map (\<lambda>i. pid + 1 + of_nat i) (filter (bit (m div 2)) [0..<k])"
      using Suc.prems by (intro Suc.IH) auto
    ultimately show ?thesis
      using nz db odd by (subst unpack_bits.simps) (simp add: comp_def ac_simps)
  qed
qed

lemma unpack_bits_bits:
  "unpack_bits w pid = map (\<lambda>i. pid + of_nat i) (filter (bit w) [0..<16])"
proof -
  have "unat w < 2 ^ 16" using unsigned_less [of w, where 'a = nat] by simp
  then have "unpack_bits (of_nat (unat w)) pid =
      map (\<lambda>i. pid + of_nat i) (filter (bit (unat w)) [0..<16])"
    by (rule unpack_bits_eq) simp
  moreover have "filter (bit (unat w)) [0..<16] = filter (bit w) [0..<16]"
    by (rule filter_cong) (auto simp: bit_unsigned_iff)
  ultimately show ?thesis by simp
qed

lemma filter_bit_set:
  fixes m :: u16
  assumes "\<And>i. bit m i \<Longrightarrow> i < k" and "k \<le> s" and "s < 16"
  shows "filter (bit (m OR push_bit s 1)) [0..<16] = filter (bit m) [0..<16] @ [s]"
proof (rule sorted_distinct_set_unique)
  show "sorted (filter (bit m) [0..<16] @ [s])"
    using assms(1,2) by (force simp: sorted_append less_imp_le sorted_wrt_filter)
  show "distinct (filter (bit m) [0..<16] @ [s])"
    using assms(1,2) by force
  show "set (filter (bit (m OR push_bit s 1)) [0..<16]) = set (filter (bit m) [0..<16] @ [s])"
    using assms(3) by (auto simp: bit_simps)
qed (simp_all add: sorted_wrt_filter)

text \<open>
  The lists the loss detection hands to \<open>SetPacketIds\<close>: each id is ahead of the one before it,
  by less than the whole space minus the 16 ids a mask covers.
\<close>

fun ascending_ids :: "u16 list \<Rightarrow> bool" where
  "ascending_ids (x # y # xs) \<longleftrightarrow> 1 \<le> y - x \<and> y - x \<le> 65520 \<and> ascending_ids (y # xs)"
| "ascending_ids _ = True"

lemma ascending_ids_tl: "ascending_ids (x # xs) \<Longrightarrow> ascending_ids xs"
  by (cases xs) auto

lemma pack_mask_spec:
  assumes "pack_mask pid m xs = (m', rest)" and "ascending_ids ((pid + of_nat j) # xs)"
    and "\<And>i. bit m i \<Longrightarrow> i < j" and "j \<le> 16"
  shows "\<exists>ys. xs = ys @ rest \<and> ascending_ids rest \<and>
    map (\<lambda>i. pid + 1 + of_nat i) (filter (bit m') [0..<16]) =
    map (\<lambda>i. pid + 1 + of_nat i) (filter (bit m) [0..<16]) @ ys"
  using assms
proof (induction xs arbitrary: m j)
  case Nil
  then show ?case by simp
next
  case (Cons x xs)
  define d where "d = unat (x - (pid + of_nat j))"
  have d: "1 \<le> d" "d \<le> 65520"
    using Cons.prems(2) by (simp_all add: d_def word_le_nat_alt)
  have x: "x = pid + of_nat (j + d)" by (simp add: d_def)
  have shift: "x - pid - 1 = of_nat (j + d - 1)" using d(1) by (simp add: x of_nat_diff)
  have us: "unat (x - pid - 1) = j + d - 1"
    unfolding shift using d Cons.prems(4) by (intro unat_of_nat_small) simp
  have sh: "x - pid - 1 \<le> 15 \<longleftrightarrow> j + d \<le> 16"
    using d(1) by (auto simp: word_le_nat_alt us)
  show ?case
  proof (cases "j + d \<le> 16")
    case False
    with Cons.prems sh show ?thesis by (auto simp: Let_def dest: ascending_ids_tl)
  next
    case True
    define m1 where "m1 = m OR push_bit (j + d - 1) 1"
    have "pack_mask pid m1 xs = (m', rest)"
      using Cons.prems(1) sh True us by (simp add: Let_def m1_def)
    moreover have "ascending_ids ((pid + of_nat (j + d)) # xs)"
      using Cons.prems(2) x by (auto dest: ascending_ids_tl)
    moreover have "i < j + d" if "bit m1 i" for i
      using that Cons.prems(3) d(1) by (fastforce simp: m1_def bit_simps)
    ultimately obtain ys where ys: "xs = ys @ rest" "ascending_ids rest"
      "map (\<lambda>i. pid + 1 + of_nat i) (filter (bit m') [0..<16]) =
       map (\<lambda>i. pid + 1 + of_nat i) (filter (bit m1) [0..<16]) @ ys"
      using Cons.IH [of m1 "j + d"] True by blast
    have "filter (bit m1) [0..<16] = filter (bit m) [0..<16] @ [j + d - 1]"
      unfolding m1_def using Cons.prems(3) d(1) True by (intro filter_bit_set) auto
    with ys d(1) have "map (\<lambda>i. pid + 1 + of_nat i) (filter (bit m') [0..<16]) =
       map (\<lambda>i. pid + 1 + of_nat i) (filter (bit m) [0..<16]) @ x # ys"
      by (simp add: x of_nat_diff)
    with ys show ?thesis by auto
  qed
qed

abbreviation item_ids :: "PackedNack \<Rightarrow> u16 list" where
  "item_ids item \<equiv> first_pid item # unpack_bits (bitmask item) (first_pid item + 1)"

lemma unpack_pack_ids:
  "ascending_ids ids \<Longrightarrow> concat (map item_ids (pack_ids ids acc)) = concat (map item_ids acc) @ ids"
proof (induction ids acc rule: pack_ids.induct)
  case (2 x xs acc)
  obtain m rest where p: "pack_mask x 0 xs = (m, rest)" by force
  obtain ys where ys: "xs = ys @ rest" "ascending_ids rest"
    "map (\<lambda>i. x + 1 + of_nat i) (filter (bit m) [0..<16]) = ys"
    using pack_mask_spec [OF p, of 0] "2.prems" by (auto simp: filter_False)
  from 2(1) [OF p [symmetric] ys(2)] ys p show ?case
    by (simp add: unpack_bits_bits)
qed simp

lemma pack_ids_length: "length (pack_ids ids acc) \<le> length acc + length ids"
proof (induction ids acc rule: pack_ids.induct)
  case (2 x xs acc)
  obtain m rest where p: "pack_mask x 0 xs = (m, rest)" by force
  from 2 [OF p [symmetric]] pack_mask_length [OF p] p show ?case by simp
qed simp

section \<open>Properties\<close>

text \<open>How a receiver reads a block: header first, then the message.\<close>

definition parses_as_nack :: "byte list \<Rightarrow> Nack \<Rightarrow> bool" where
  "parses_as_nack b r \<longleftrightarrow> (\<exists>h. RtcpCommonHeader_Parse new_header b (length b) = Some (True, h) \<and>
     packet_size h = length b \<and> hdr_packet_type h = kRtpfbPacketType \<and>
     hdr_count_or_format h = of_nat kNackFeedbackMessageType \<and> Nack_Parse new_Nack h = Some (True, r))"

lemma parses_as_nack_block:
  assumes "items \<noteq> []" and "length items < 65534"
  shows "parses_as_nack (nack_block n items) (Unpack \<lparr>nack_sender_ssrc = nack_sender_ssrc n,
    nack_media_ssrc = nack_media_ssrc n, packed = items, packet_ids = []\<rparr>)"
  using nack_block_Parse [of items n "length (nack_block n items)" new_header "[]" new_Nack] assms
  unfolding parses_as_nack_def by (metis append.right_neutral order_refl)

lemma nack_represents_ids:
  assumes "nack_represents n bs" and "length (packed n) < 65534"
  shows "\<exists>rs. list_all2 parses_as_nack bs rs \<and>
    concat (map packet_ids rs) = concat (map item_ids (packed n)) \<and>
    (\<forall>r \<in> set rs. nack_sender_ssrc r = nack_sender_ssrc n \<and> nack_media_ssrc r = nack_media_ssrc n)"
proof -
  obtain chunks where c: "bs = map (nack_block n) chunks" "concat chunks = packed n" "\<forall>c \<in> set chunks. c \<noteq> []"
    using assms(1) by (auto simp: nack_represents_def)
  let ?r = "\<lambda>items. Unpack \<lparr>nack_sender_ssrc = nack_sender_ssrc n,
    nack_media_ssrc = nack_media_ssrc n, packed = items, packet_ids = []\<rparr>"
  have "length x < 65534" if "x \<in> set chunks" for x
  proof -
    have "length x \<le> length (concat chunks)"
      using that by (induction chunks) auto
    with c(2) assms(2) show ?thesis by simp
  qed
  with c(3) have "list_all2 parses_as_nack bs (map ?r chunks)"
    by (auto simp: c(1) list_all2_conv_all_nth intro!: parses_as_nack_block)
  moreover have "concat (map packet_ids (map ?r cs)) = concat (map item_ids (concat cs))" for cs
    by (induction cs) (simp_all add: Unpack_def)
  ultimately show ?thesis
    using c(2) by (intro exI [of _ "map ?r chunks"]) (auto simp: Unpack_def)
qed

text \<open>
  C32: the NACK path end to end. A list of lost sequence numbers, each ahead of the one before,
  is packed and serialised without leaving the buffer, whatever is already pending in it; the
  blocks go out whole, in order, in datagrams of at most \<open>max_length\<close> bytes; and a receiver
  that parses the blocks gets back exactly the list, in order, with both SSRCs. The loop that
  fragments the list always ends.
\<close>

theorem Nack_wire_roundtrip:
  assumes "ascending_ids ids" and "length ids < 65534" and "ready max_length s" and "16 \<le> max_length"
    and "packed n = []"
  shows "\<exists>s' bs rs. Nack_Create (SetPacketIds n ids) max_length s = Some (True, s') \<and>
    ready max_length s' \<and> emits max_length s bs s' \<and> list_all2 parses_as_nack bs rs \<and>
    concat (map packet_ids rs) = ids \<and>
    (\<forall>r \<in> set rs. nack_sender_ssrc r = nack_sender_ssrc n \<and> nack_media_ssrc r = nack_media_ssrc n)"
proof -
  let ?n = "SetPacketIds n ids"
  have n: "packed ?n = pack_ids ids []" "nack_sender_ssrc ?n = nack_sender_ssrc n"
    "nack_media_ssrc ?n = nack_media_ssrc n"
    using assms(5) by (simp_all add: SetPacketIds_def Pack_def)
  have "nack_fits ?n max_length" using assms(4) by (simp add: nack_fits_def)
  then obtain s' bs where C: "Nack_Create ?n max_length s = Some (True, s')" "ready max_length s'"
    "emits max_length s bs s'" "nack_represents ?n bs"
    using nack.create_emits [OF assms(3), of ?n] by auto
  have "length (packed ?n) < 65534" using pack_ids_length [of ids "[]"] assms(2) n(1) by simp
  from nack_represents_ids [OF C(4) this] C show ?thesis
    unfolding n by (auto simp: unpack_pack_ids [OF assms(1), of "[]", simplified])
qed

theorem Nack_wire_roundtrip_witness:
  "\<exists>s' bs rs. Nack_Create (SetPacketIds new_Nack [65534, 65535, 3, 40]) 1200
      \<lparr>w_packet = replicate 1500 0, w_index = 0, w_ready = []\<rparr> = Some (True, s') \<and>
    list_all2 parses_as_nack bs rs \<and> concat (map packet_ids rs) = [65534, 65535, 3, 40]"
proof -
  have "ascending_ids [65534, 65535, 3, 40]" by code_simp
  from Nack_wire_roundtrip [OF this, of 1200
      "\<lparr>w_packet = replicate 1500 0, w_index = 0, w_ready = []\<rparr>" new_Nack]
  show ?thesis by (auto simp: ready_def new_Nack_def)
qed

text \<open>
  a FIR that fits \<open>max_length\<close> is serialised as one whole block inside the buffer, after
  flushing what is pending if need be, and parsing the block gives back the same message with
  packet type 206 and format 4.
\<close>

theorem Fir_wire_roundtrip:
  assumes "fir_items f \<noteq> []" and "length (fir_items f) < 32767" and "ready max_length s"
    and "Fir_BlockLength f \<le> max_length"
  shows "\<exists>s' b h. Fir_Create f max_length s = Some (True, s') \<and> ready max_length s' \<and>
    emits max_length s [b] s' \<and> length b = Fir_BlockLength f \<and>
    RtcpCommonHeader_Parse new_header b (length b) = Some (True, h) \<and> packet_size h = length b \<and>
    hdr_packet_type h = 206 \<and> hdr_count_or_format h = 4 \<and> Fir_Parse new_Fir h = Some (True, f)"
proof -
  obtain s' where "Fir_Create f max_length s = Some (True, s')" "ready max_length s'"
    "emits max_length s [fir_block f] s'"
    using fir.create_emits [OF assms(3), of f] assms(4) by (auto simp: fir_fits_def)
  then show ?thesis
    using fir_block_Parse [OF assms(1,2) order_refl, of new_header "[]" new_Fir]
    by (auto simp: Fir_BlockLength_block kFirPacketType_def kFirFeedbackMessageType_def)
qed

theorem Fir_wire_roundtrip_witness:
  "\<exists>s' b h. Fir_Create (AddRequestTo new_Fir 77 9) 1200
      \<lparr>w_packet = replicate 1500 0, w_index = 1192, w_ready = []\<rparr> = Some (True, s') \<and>
    RtcpCommonHeader_Parse new_header b (length b) = Some (True, h) \<and>
    Fir_Parse new_Fir h = Some (True, AddRequestTo new_Fir 77 9)"
  using Fir_wire_roundtrip [of "AddRequestTo new_Fir 77 9" 1200
      "\<lparr>w_packet = replicate 1500 0, w_index = 1192, w_ready = []\<rparr>"]
  by (auto simp: ready_def new_Fir_def AddRequestTo_def Fir_BlockLength_def feedback_consts)

text \<open>
  on every RTCP packet whose common header was accepted, the NACK and FIR parsers finish
  without reading outside the received bytes; they accept exactly the payloads of at least one
  item, for FIR only those with a whole number of items, and every NACK accepted reports one id
  per item at least.
\<close>

theorem feedback_Parse_safe:
  assumes "RtcpCommonHeader_Parse h buffer size_bytes = Some (True, h')" and "size_bytes \<le> length buffer"
  shows "(\<exists>n'. Nack_Parse n h' = Some (12 \<le> payload_size_bytes h', n') \<and>
      (12 \<le> payload_size_bytes h' \<longrightarrow> length (packed n') = (payload_size_bytes h' - 8) div 4 \<and>
        length (packed n') \<le> length (packet_ids n'))) \<and>
    (\<exists>f'. Fir_Parse f h' = Some (16 \<le> payload_size_bytes h' \<and> payload_size_bytes h' mod 8 = 0, f'))"
proof -
  let ?p = "hdr_payload h'" and ?n = "payload_size_bytes h'"
  have len: "?n \<le> length ?p" using Parse_payload_length [OF assms] .
  have common: "\<exists>x y. ParseCommonFeedback ?p = Some (x, y)" if "8 \<le> ?n"
    using that len be32.dec_total [of 0 ?p] be32.dec_total [of 4 ?p]
    by (fastforce simp: ParseCommonFeedback_def)
  have ids: "length xs \<le> length (concat (map item_ids xs))" for xs
    by (induction xs) auto
  have "\<exists>n'. Nack_Parse n h' = Some (12 \<le> ?n, n') \<and> (12 \<le> ?n \<longrightarrow>
      length (packed n') = (?n - 8) div 4 \<and> length (packed n') \<le> length (packet_ids n'))"
  proof (cases "12 \<le> ?n")
    case True
    have "8 + (?n - 8) div 4 * kNackItemLength \<le> length ?p"
      using len True by (simp add: kNackItemLength_def)
    then obtain xs where "read_items read_packed_nack kNackItemLength ((?n - 8) div 4) ?p 8 = Some xs"
      "length xs = (?n - 8) div 4"
      using nack_item.read_items_total by blast
    then show ?thesis using True common ids [of xs]
      by (auto simp: Nack_Parse_def feedback_consts Unpack_def)
  qed (simp add: Nack_Parse_def feedback_consts)
  moreover have "\<exists>f'. Fir_Parse f h' = Some (16 \<le> ?n \<and> ?n mod 8 = 0, f')"
  proof (cases "16 \<le> ?n \<and> ?n mod 8 = 0")
    case True
    then have "8 + (?n - 8) div 8 * kFciLength \<le> length ?p" "(?n - 8) mod 8 = 0"
      using len by (simp_all add: kFciLength_def mod_eq_0_iff_dvd)
    moreover from this obtain xs where
      "read_items read_fir_request kFciLength ((?n - 8) div 8) ?p 8 = Some xs"
      using fir_item.read_items_total by blast
    ultimately show ?thesis using True common
      by (auto simp: Fir_Parse_def feedback_consts)
  next
    case False
    then have "?n < 16 \<or> (?n - 8) mod 8 \<noteq> 0" by presburger
    with False show ?thesis by (auto simp: Fir_Parse_def feedback_consts)
  qed
  ultimately show ?thesis by blast
qed

theorem feedback_Parse_safe_witness:
  "\<exists>h'. RtcpCommonHeader_Parse new_header [0x81, 205, 0, 3, 0, 0, 0, 1, 0, 0, 0, 2, 0, 9, 0, 1] 16 = Some (True, h') \<and>
    (\<exists>n'. Nack_Parse new_Nack h' = Some (12 \<le> payload_size_bytes h', n'))"
proof -
  have "\<exists>h'. RtcpCommonHeader_Parse new_header [0x81, 205, 0, 3, 0, 0, 0, 1, 0, 0, 0, 2, 0, 9, 0, 1] 16 = Some (True, h')"
    by (simp add: RtcpCommonHeader_Parse_def kHeaderSizeBytes_def rd_def Let_def)
  then show ?thesis using feedback_Parse_safe by fastforce
qed

end
