(* ===== verification/CcFeedback.thy ===== *)
theory CcFeedback
  imports RtcpFeedback Units
begin

text \<open>
  The congestion control feedback of RFC 8888, \<open>src/rtcp/congestion_control_feedback.{h,cpp}\<close>: for
  every packet since the last feedback whether it arrived, how long before the report, and its ECN
  mark. The packets are grouped by source; a group is written as the first sequence number, the
  number of packets and one 16-bit entry per packet.

  The arrival offset is scaled to 1/1024 seconds in single-precision floating point; that scaling is
  the parameter \<open>scaled\<close> of the writer. The loop that flushes the buffer is the one of \<open>Fir::Create\<close>.
\<close>

section \<open>Packets\<close>

datatype EcnMarking = kNotEct | kEct1 | kEct0 | kCe

record PacketInfo =
  pi_ssrc :: u32
  pi_sequence_number :: u16
  pi_arrival_time_offset :: time_delta
  pi_ecn :: EcnMarking

record CongestionControlFeedback =
  cc_sender_ssrc :: u32
  cc_packets :: "PacketInfo list"
  cc_report_timestamp_compact_ntp :: u32

definition new_CongestionControlFeedback :: CongestionControlFeedback where
  "new_CongestionControlFeedback = \<lparr>cc_sender_ssrc = 0, cc_packets = [], cc_report_timestamp_compact_ntp = 0\<rparr>"

definition kCcfbFeedbackMessageType :: nat where "kCcfbFeedbackMessageType = 11"
definition kSenderSsrcLength :: nat where "kSenderSsrcLength = 4"
definition kHeaderPerMediaSssrcLength :: nat where "kHeaderPerMediaSssrcLength = 8"
definition kTimestampLength :: nat where "kTimestampLength = 4"
definition kPerPacketLength :: nat where "kPerPacketLength = 2"

definition To13bitAto :: "(time_delta \<Rightarrow> int) \<Rightarrow> time_delta \<Rightarrow> u16" where
  "To13bitAto scaled arrival_time_offset =
     (if arrival_time_offset < 0 then 0x1FFF else word_of_int (min (scaled arrival_time_offset) 0x1FFE))"

definition AtoToTimeDelta :: "u16 \<Rightarrow> time_delta" where
  "AtoToTimeDelta receive_info =
     (let ato = receive_info AND 0x1FFF in
      if ato = 0x1FFE then PlusInfinity else if ato = 0x1FFF then MinusInfinity
      else Seconds (uint ato) sdiv 1024)"

definition To2BitEcn :: "EcnMarking \<Rightarrow> u16" where
  "To2BitEcn ecn_marking = (case ecn_marking of kNotEct \<Rightarrow> 0 | kEct1 \<Rightarrow> push_bit 13 1 | kEct0 \<Rightarrow> push_bit 13 2 | kCe \<Rightarrow> push_bit 13 3)"

definition ToEcnMarking :: "u16 \<Rightarrow> EcnMarking" where
  "ToEcnMarking receive_info =
     (let ecn = drop_bit 13 receive_info AND 3 in
      if ecn = 1 then kEct1 else if ecn = 2 then kEct0 else if ecn = 3 then kCe else kNotEct)"

definition packet_entry :: "(time_delta \<Rightarrow> int) \<Rightarrow> PacketInfo \<Rightarrow> u16" where
  "packet_entry scaled p = (if IsFinite (pi_arrival_time_offset p)
     then 0x8000 OR To2BitEcn (pi_ecn p) OR To13bitAto scaled (pi_arrival_time_offset p) else 0)"

section \<open>Serialisation\<close>

definition increase_size_per_ssrc :: "u16 \<Rightarrow> nat" where
  "increase_size_per_ssrc number_of_packets_for_ssrc =
     kHeaderPerMediaSssrcLength + unat number_of_packets_for_ssrc * 2 + (if odd (unat number_of_packets_for_ssrc) then 2 else 0)"

text \<open>The loop of \<open>BlockLength\<close>, with the number of the packet before.\<close>

fun group_sizes :: "u32 \<Rightarrow> u16 \<Rightarrow> u16 \<Rightarrow> PacketInfo list \<Rightarrow> nat" where
  "group_sizes ssrc first_sequence_number previous [] = increase_size_per_ssrc (previous - first_sequence_number + 1)"
| "group_sizes ssrc first_sequence_number previous (p # ps) =
     (if pi_ssrc p \<noteq> ssrc
      then increase_size_per_ssrc (previous - first_sequence_number + 1) +
        group_sizes (pi_ssrc p) (pi_sequence_number p) (pi_sequence_number p) ps
      else group_sizes ssrc first_sequence_number (pi_sequence_number p) ps)"

definition Ccfb_BlockLength :: "CongestionControlFeedback \<Rightarrow> nat" where
  "Ccfb_BlockLength c = kSenderSsrcLength + kHeaderLength + kTimestampLength +
     (case cc_packets c of [] \<Rightarrow> 0 | p # _ \<Rightarrow> group_sizes (pi_ssrc p) (pi_sequence_number p) (pi_sequence_number p) (cc_packets c))"

definition write_report_for_ssrc :: "(time_delta \<Rightarrow> int) \<Rightarrow> PacketInfo list \<Rightarrow> byte list \<times> nat \<Rightarrow> (byte list \<times> nat) option" where
  "write_report_for_ssrc scaled packets s =
     (case s of (b, pos) \<Rightarrow> do {
        b \<leftarrow> WriteBigEndian4 b pos (pi_ssrc (hd packets));
        b \<leftarrow> WriteBigEndian2 b (pos + 4) (pi_sequence_number (hd packets));
        let num_reports = of_nat (length packets) :: u16 in
        if num_reports > 16384 then Some (b, pos + 6)
        else do {
          b \<leftarrow> WriteBigEndian2 b (pos + 6) num_reports;
          b \<leftarrow> write_items (\<lambda>v b pos. WriteBigEndian2 b pos v) 2 (map (packet_entry scaled) packets) b (pos + 8);
          let pos = pos + 8 + 2 * length packets in
          if odd (unat num_reports) then do { b \<leftarrow> WriteBigEndian2 b pos (0 :: u16); Some (b, pos + 2) } else Some (b, pos) } })"

function write_reports :: "(time_delta \<Rightarrow> int) \<Rightarrow> PacketInfo list \<Rightarrow> byte list \<times> nat \<Rightarrow> (byte list \<times> nat) option" where
  "write_reports scaled remaining s =
     (case remaining of [] \<Rightarrow> Some s
      | p # _ \<Rightarrow>
        let number_of_packets_for_ssrc = length (takeWhile (\<lambda>q. pi_ssrc q = pi_ssrc p) remaining) in do {
          s \<leftarrow> write_report_for_ssrc scaled (take number_of_packets_for_ssrc remaining) s;
          write_reports scaled (drop number_of_packets_for_ssrc remaining) s })"
  by pat_completeness auto
termination
  by (relation "measure (\<lambda>(f, ps, s). length ps)") auto

declare write_reports.simps [simp del]

definition write_ccfb_block :: "(time_delta \<Rightarrow> int) \<Rightarrow> CongestionControlFeedback \<Rightarrow> wstate \<Rightarrow> wstate option" where
  "write_ccfb_block scaled c s = do {
     (b, i) \<leftarrow> CreateHeader kCcfbFeedbackMessageType kRtpfbPacketType (HeaderLength (Ccfb_BlockLength c)) False (w_packet s) (w_index s);
     b \<leftarrow> WriteBigEndian4 b i (cc_sender_ssrc c);
     (b, i) \<leftarrow> write_reports scaled (cc_packets c) (b, i + 4);
     b \<leftarrow> WriteBigEndian4 b i (cc_report_timestamp_compact_ntp c);
     Some (s\<lparr>w_packet := b, w_index := i + 4\<rparr>) }"

definition Ccfb_Create :: "(time_delta \<Rightarrow> int) \<Rightarrow> CongestionControlFeedback \<Rightarrow> nat \<Rightarrow> wstate \<Rightarrow> (bool \<times> wstate) option" where
  "Ccfb_Create scaled c max_length s = do {
     (room, s) \<leftarrow> fir_make_room (Ccfb_BlockLength c) max_length s;
     if \<not> room then Some (False, s)
     else do {
       s \<leftarrow> write_ccfb_block scaled c s;
       Some (True, s) } }"

section \<open>Parsing\<close>

definition parse_entry :: "u32 \<Rightarrow> u16 \<Rightarrow> nat \<Rightarrow> u16 \<Rightarrow> PacketInfo" where
  "parse_entry ssrc base_seqno i packet_info =
     \<lparr>pi_ssrc = ssrc, pi_sequence_number = base_seqno + of_nat i,
      pi_arrival_time_offset = (if packet_info AND 0x8000 \<noteq> 0 then AtoToTimeDelta packet_info else MinusInfinity),
      pi_ecn = ToEcnMarking packet_info\<rparr>"

function parse_reports :: "byte list \<Rightarrow> nat \<Rightarrow> nat \<Rightarrow> PacketInfo list \<Rightarrow> (bool \<times> PacketInfo list) option" where
  "parse_reports b payload_end payload packets =
     (if payload + kHeaderPerMediaSssrcLength < payload_end then do {
        ssrc \<leftarrow> ReadBigEndian4 b payload;
        base_seqno \<leftarrow> ReadBigEndian2 b (payload + 4);
        num_reports \<leftarrow> (ReadBigEndian2 b (payload + 6) :: u16 option);
        if payload + 8 + kPerPacketLength * unat num_reports > payload_end then Some (False, packets)
        else do {
          infos \<leftarrow> read_items ReadBigEndian2 2 (unat num_reports) b (payload + 8);
          parse_reports b payload_end (payload + 8 + 2 * unat num_reports + (if odd (unat num_reports) then 2 else 0))
            (packets @ map (\<lambda>i. parse_entry ssrc base_seqno i (infos ! i)) [0..<length infos]) } }
      else Some (payload = payload_end, packets))"
  by pat_completeness auto
termination
  by (relation "measure (\<lambda>(b, e, p, ps). e - p)") (auto simp: kHeaderPerMediaSssrcLength_def)

declare parse_reports.simps [simp del]

definition Ccfb_Parse :: "CongestionControlFeedback \<Rightarrow> RtcpCommonHeader \<Rightarrow> (bool \<times> CongestionControlFeedback) option" where
  "Ccfb_Parse c packet =
     (let b = hdr_payload packet; payload_end = payload_size_bytes packet in
      if payload_end mod 4 \<noteq> 0 \<or> payload_end < kSenderSsrcLength + kTimestampLength then Some (False, c)
      else do {
        sender \<leftarrow> ReadBigEndian4 b 0;
        ts \<leftarrow> ReadBigEndian4 b (payload_end - 4);
        (ok, packets) \<leftarrow> parse_reports b (payload_end - 4) 4 (cc_packets c);
        Some (ok, c\<lparr>cc_sender_ssrc := sender, cc_report_timestamp_compact_ntp := ts, cc_packets := packets\<rparr>) })"

section \<open>The bytes of a feedback\<close>

definition report_bytes :: "(time_delta \<Rightarrow> int) \<Rightarrow> PacketInfo list \<Rightarrow> byte list" where
  "report_bytes scaled g = be_bytes 4 (pi_ssrc (hd g)) @ be_bytes 2 (pi_sequence_number (hd g)) @ be_bytes 2 (of_nat (length g) :: u16) @
     concat (map (be_bytes 2) (map (packet_entry scaled) g)) @ (if odd (length g) then be_bytes 2 (0 :: u16) else [])"

text \<open>What the caller has to provide: packets of one source with consecutive numbers, source by source.\<close>

definition ok_group :: "PacketInfo list \<Rightarrow> bool" where
  "ok_group g \<longleftrightarrow> g \<noteq> [] \<and> length g \<le> 16384 \<and>
     (\<forall>i < length g. pi_ssrc (g ! i) = pi_ssrc (hd g) \<and> pi_sequence_number (g ! i) = pi_sequence_number (hd g) + of_nat i)"

fun ok_groups :: "PacketInfo list list \<Rightarrow> bool" where
  "ok_groups [] = True"
| "ok_groups (g # gs) = (ok_group g \<and> ok_groups gs \<and> (gs \<noteq> [] \<longrightarrow> pi_ssrc (hd (hd gs)) \<noteq> pi_ssrc (hd g)))"

lemma entries_length: "length (concat (map (be_bytes 2) xs)) = 2 * length (xs :: u16 list)"
  using be16.concat_enc_length [of xs] by simp

lemma report_bytes_length: "length (report_bytes scaled g) = 8 + 2 * length g + (if odd (length g) then 2 else 0)"
  by (simp add: report_bytes_def entries_length del: map_map)

lemma small_group: "length g \<le> 16384 \<Longrightarrow> unat (of_nat (length g) :: u16) = length g \<and> \<not> (16384 < (of_nat (length g) :: u16))"
  using unat_of_nat_small [of "length g", where 'a = 16] by (simp add: word_less_nat_alt)

lemma write_report_put:
  assumes "length g \<le> 16384" and "pos \<le> length b"
  shows "write_report_for_ssrc scaled g (b, pos) = map_option (\<lambda>b. (b, pos + length (report_bytes scaled g))) (put b pos (report_bytes scaled g))"
proof -
  let ?n = "of_nat (length g) :: u16" and ?e = "map (packet_entry scaled) g"
  let ?h = "be_bytes 4 (pi_ssrc (hd g)) @ be_bytes 2 (pi_sequence_number (hd g)) @ be_bytes 2 ?n"
  let ?f = "\<lambda>b. do { b \<leftarrow> write_items (\<lambda>v b pos. WriteBigEndian2 b pos v) 2 ?e b (pos + 8);
      if odd (length g) then do { b \<leftarrow> WriteBigEndian2 b (pos + 8 + 2 * length g) (0 :: u16); Some (b, pos + 8 + 2 * length g + 2) }
      else Some (b, pos + 8 + 2 * length g) }"
  have n: "unat ?n = length g" "\<not> 16384 < ?n" using small_group [OF assms(1)] by auto
  have "write_report_for_ssrc scaled g (b, pos) = Option.bind (put b pos ?h) ?f"
    unfolding write_report_for_ssrc_def prod.case Let_def n(1)
    using n(2) by (simp add: be_simps put_put_bind)
  also have "\<dots> = Option.bind (put b pos (?h @ concat (map (be_bytes 2) ?e)))
      (\<lambda>b. if odd (length g) then do { b \<leftarrow> put b (pos + 8 + 2 * length g) (be_bytes 2 (0 :: u16)); Some (b, pos + 8 + 2 * length g + 2) }
        else Some (b, pos + 8 + 2 * length g))"
  proof (cases "put b pos ?h")
    case None
    then show ?thesis by (auto simp: put_def split: if_splits)
  next
    case (Some b1)
    then have l: "pos + 8 \<le> length b1" by (auto simp: put_def split: if_splits)
    have "put b pos (?h @ concat (map (be_bytes 2) ?e)) = put b1 (pos + 8) (concat (map (be_bytes 2) ?e))"
      using put_put [of "pos + 8" pos ?h b "concat (map (be_bytes 2) ?e)"] Some by simp
    then show ?thesis using Some be16.write_items_put [OF l, of ?e] by (cases "odd (length g)") (simp_all add: be_simps)
  qed
  also have "\<dots> = map_option (\<lambda>b. (b, pos + length (report_bytes scaled g))) (put b pos (report_bytes scaled g))"
  proof (cases "odd (length g)")
    case True
    have "length (?h @ concat (map (be_bytes 2) ?e)) = 8 + 2 * length g" by (simp add: entries_length del: map_map)
    then show ?thesis
      using put_put_bind [of "pos + 8 + 2 * length g" pos "?h @ concat (map (be_bytes 2) ?e)" b "be_bytes 2 (0 :: u16)"] True
      by (simp add: report_bytes_length report_bytes_def map_conv_bind_option comp_def ac_simps del: map_map)
  next
    case False
    then show ?thesis unfolding report_bytes_length by (simp add: report_bytes_def map_conv_bind_option comp_def ac_simps)
  qed
  finally show ?thesis .
qed

lemma ok_group_same: "ok_group g \<Longrightarrow> p \<in> set g \<Longrightarrow> pi_ssrc p = pi_ssrc (hd g)"
  by (auto simp: ok_group_def in_set_conv_nth)

lemma first_group:
  assumes "ok_groups (g # gs)"
  shows "takeWhile (\<lambda>q. pi_ssrc q = pi_ssrc (hd (g @ concat gs))) (g @ concat gs) = g"
proof -
  have g: "g \<noteq> []" "ok_group g" using assms by (auto simp: ok_group_def)
  have "takeWhile (\<lambda>q. pi_ssrc q = pi_ssrc (hd g)) (concat gs) = []"
  proof (cases gs)
    case (Cons h gs')
    then have "h \<noteq> []" "pi_ssrc (hd h) \<noteq> pi_ssrc (hd g)" using assms by (auto simp: ok_group_def)
    then show ?thesis using Cons by (cases h) auto
  qed simp
  moreover have "takeWhile (\<lambda>q. pi_ssrc q = pi_ssrc (hd g)) (g @ concat gs) = g @ takeWhile (\<lambda>q. pi_ssrc q = pi_ssrc (hd g)) (concat gs)"
    by (rule takeWhile_append2) (rule ok_group_same [OF g(2)])
  ultimately show ?thesis using g(1) by simp
qed

lemma write_reports_put:
  assumes "ok_groups gs" and "pos \<le> length b"
  shows "write_reports scaled (concat gs) (b, pos) =
    map_option (\<lambda>b. (b, pos + length (concat (map (report_bytes scaled) gs)))) (put b pos (concat (map (report_bytes scaled) gs)))"
  using assms
proof (induction gs arbitrary: b pos)
  case Nil
  then show ?case by (simp add: write_reports.simps)
next
  case (Cons g gs)
  let ?r = "report_bytes scaled g" and ?rs = "concat (map (report_bytes scaled) gs)"
  have g: "g \<noteq> []" "length g \<le> 16384" "ok_groups gs" using Cons.prems(1) by (auto simp: ok_group_def)
  then obtain p ps where p: "concat (g # gs) = p # ps" by (cases g) auto
  have tw: "takeWhile (\<lambda>q. pi_ssrc q = pi_ssrc p) (p # ps) = g" using first_group [OF Cons.prems(1)] p by simp
  have tk: "take (length g) (p # ps) = g" "drop (length g) (p # ps) = concat gs" unfolding p [symmetric] by simp_all
  have "write_reports scaled (concat (g # gs)) (b, pos) =
      Option.bind (write_report_for_ssrc scaled g (b, pos)) (write_reports scaled (concat gs))"
    unfolding p by (subst write_reports.simps) (simp add: tw tk del: takeWhile.simps take_Suc_Cons drop_Suc_Cons)
  also have "\<dots> = Option.bind (put b pos ?r) (\<lambda>b. write_reports scaled (concat gs) (b, pos + length ?r))"
    using write_report_put [OF g(2) Cons.prems(2)] by (cases "put b pos ?r") simp_all
  also have "\<dots> = map_option (\<lambda>b. (b, pos + length (?r @ ?rs))) (put b pos (?r @ ?rs))"
  proof (cases "put b pos ?r")
    case None
    then show ?thesis by (auto simp: put_def split: if_splits)
  next
    case (Some b1)
    then have "pos + length ?r \<le> length b1" by (auto simp: put_def split: if_splits)
    then show ?thesis using Cons.IH [OF g(3), of "pos + length ?r" b1] put_put [OF refl, of b pos ?r ?rs] Some by (simp add: ac_simps)
  qed
  finally show ?case by simp
qed

section \<open>The length of a feedback\<close>

lemma group_sizes_group:
  assumes "\<forall>i < length g. pi_ssrc (g ! i) = ssrc \<and> pi_sequence_number (g ! i) = f + of_nat (k + i)" and "g = [] \<longrightarrow> 0 < k"
  shows "group_sizes ssrc f (f + of_nat (k - 1)) (g @ rest) = group_sizes ssrc f (f + of_nat (k + length g - 1)) rest"
  using assms
proof (induction g arbitrary: k)
  case (Cons p g)
  have p: "pi_ssrc p = ssrc" "pi_sequence_number p = f + of_nat k" using Cons.prems(1) by (auto simp: All_less_Suc2)
  have "\<forall>i < length g. pi_ssrc (g ! i) = ssrc \<and> pi_sequence_number (g ! i) = f + of_nat (Suc k + i)"
    using Cons.prems(1) by (auto simp: All_less_Suc2)
  from Cons.IH [OF this] show ?case using p by simp
qed simp

definition groups_length :: "PacketInfo list list \<Rightarrow> nat" where
  "groups_length gs = sum_list (map (\<lambda>g. 8 + 2 * length g + (if odd (length g) then 2 else 0)) gs)"

lemma groups_length: "length (concat (map (report_bytes scaled) gs)) = groups_length gs"
  by (induction gs) (simp_all add: groups_length_def report_bytes_length)

lemma group_count: "ok_group g \<Longrightarrow> unat (of_nat (length g - 1) + 1 :: u16) = length g"
proof -
  assume g: "ok_group g"
  then have "of_nat (length g - 1) + 1 = (of_nat (length g) :: u16)" by (cases g) (simp_all add: ok_group_def)
  with g show ?thesis using small_group [of g] by (simp add: ok_group_def)
qed

lemma group_sizes_groups:
  assumes "ok_groups (g # gs)"
  shows "group_sizes (pi_ssrc (hd g)) (pi_sequence_number (hd g)) (pi_sequence_number (hd g)) (g @ concat gs) = groups_length (g # gs)"
  using assms
proof (induction gs arbitrary: g)
  case Nil
  then have g: "ok_group g" by simp
  note n = group_count [OF g]
  have "group_sizes (pi_ssrc (hd g)) (pi_sequence_number (hd g)) (pi_sequence_number (hd g)) (g @ []) =
      group_sizes (pi_ssrc (hd g)) (pi_sequence_number (hd g)) (pi_sequence_number (hd g) + of_nat (length g - 1)) []"
    using group_sizes_group [of g "pi_ssrc (hd g)" "pi_sequence_number (hd g)" 0 "[]"] g by (simp add: ok_group_def)
  then show ?case using n by (simp add: groups_length_def increase_size_per_ssrc_def kHeaderPerMediaSssrcLength_def)
next
  case (Cons h gs)
  then have g: "ok_group g" "ok_groups (h # gs)" "pi_ssrc (hd h) \<noteq> pi_ssrc (hd g)" "h \<noteq> []" by (auto simp: ok_group_def)
  note n = group_count [OF g(1)]
  obtain p ps where h: "h = p # ps" using g(4) by (cases h) auto
  have "group_sizes (pi_ssrc (hd g)) (pi_sequence_number (hd g)) (pi_sequence_number (hd g)) (g @ concat (h # gs)) =
      group_sizes (pi_ssrc (hd g)) (pi_sequence_number (hd g)) (pi_sequence_number (hd g) + of_nat (length g - 1)) (p # ps @ concat gs)"
    using group_sizes_group [of g "pi_ssrc (hd g)" "pi_sequence_number (hd g)" 0 "concat (h # gs)"] g(1) h by (simp add: ok_group_def)
  also have "\<dots> = increase_size_per_ssrc (of_nat (length g - 1) + 1) + group_sizes (pi_ssrc p) (pi_sequence_number p) (pi_sequence_number p) (ps @ concat gs)"
    using g(3) h by simp
  also have "group_sizes (pi_ssrc p) (pi_sequence_number p) (pi_sequence_number p) (ps @ concat gs) = groups_length (h # gs)"
    using Cons.IH [OF g(2)] h by simp
  finally show ?case using n by (simp add: groups_length_def increase_size_per_ssrc_def kHeaderPerMediaSssrcLength_def)
qed

lemma Ccfb_BlockLength_groups:
  assumes "ok_groups gs" and "cc_packets c = concat gs"
  shows "Ccfb_BlockLength c = 12 + groups_length gs"
proof (cases gs)
  case Nil
  then show ?thesis using assms(2) by (simp add: Ccfb_BlockLength_def groups_length_def kSenderSsrcLength_def kHeaderLength_def kTimestampLength_def)
next
  case (Cons g gs')
  then obtain p ps where "concat gs = p # ps" "hd g = p" using assms(1) by (cases g) (auto simp: ok_group_def)
  then show ?thesis using group_sizes_groups [of g gs'] assms Cons
    by (simp add: Ccfb_BlockLength_def kSenderSsrcLength_def kHeaderLength_def kTimestampLength_def)
qed

section \<open>What is read back\<close>

definition wire_info :: "(time_delta \<Rightarrow> int) \<Rightarrow> PacketInfo \<Rightarrow> PacketInfo" where
  "wire_info scaled p = (if IsFinite (pi_arrival_time_offset p)
     then p\<lparr>pi_arrival_time_offset := AtoToTimeDelta (To13bitAto scaled (pi_arrival_time_offset p))\<rparr>
     else p\<lparr>pi_arrival_time_offset := MinusInfinity, pi_ecn := kNotEct\<rparr>)"

definition scaling :: "(time_delta \<Rightarrow> int) \<Rightarrow> bool" where
  "scaling scaled \<longleftrightarrow> (\<forall>d \<ge> 0. 0 \<le> scaled d)"

lemma To13bitAto_small: "scaling scaled \<Longrightarrow> uint (To13bitAto scaled d) \<le> 0x1FFF"
  by (auto simp: To13bitAto_def scaling_def uint_word_of_int min_def mod_pos_pos_trivial)

lemma entry_fields:
  fixes a :: u16
  assumes "uint a \<le> 0x1FFF"
  shows "(0x8000 OR To2BitEcn e OR a) AND 0x1FFF = a" and "ToEcnMarking (0x8000 OR To2BitEcn e OR a) = e"
    and "(0x8000 OR To2BitEcn e OR a) AND 0x8000 \<noteq> 0" and "a AND 0x1FFF = a"
proof -
  have m: "(0x1FFF :: u16) = mask 13" by (simp add: mask_eq_exp_minus_1)
  have t: "take_bit 13 a = a"
    using assms by (simp add: word_uint_eq_iff unsigned_take_bit_eq take_bit_int_eq_self)
  have "drop_bit 13 (take_bit 13 a) = 0" by (simp add: drop_bit_take_bit)
  then have d: "drop_bit 13 a = 0" using t by simp
  show "a AND 0x1FFF = a" unfolding m take_bit_eq_mask [symmetric] by (rule t)
  show "(0x8000 OR To2BitEcn e OR a) AND 0x1FFF = a"
    unfolding m take_bit_eq_mask [symmetric] using t by (cases e) (simp_all add: To2BitEcn_def take_bit_or push_bit_eq_mult)
  show "ToEcnMarking (0x8000 OR To2BitEcn e OR a) = e"
    using d by (cases e) (simp_all add: To2BitEcn_def ToEcnMarking_def drop_bit_or push_bit_eq_mult)
  show "(0x8000 OR To2BitEcn e OR a) AND 0x8000 \<noteq> 0"
  proof
    assume "(0x8000 OR To2BitEcn e OR a) AND 0x8000 = 0"
    moreover have "bit ((0x8000 OR To2BitEcn e OR a) AND 0x8000) 15" by (simp add: bit_simps)
    ultimately show False by simp
  qed
qed

lemma parse_entry_wire:
  assumes "scaling scaled" and "pi_ssrc p = ssrc" and "pi_sequence_number p = base + of_nat i"
  shows "parse_entry ssrc base i (packet_entry scaled p) = wire_info scaled p"
proof (cases "IsFinite (pi_arrival_time_offset p)")
  case True
  let ?a = "To13bitAto scaled (pi_arrival_time_offset p)"
  note a = To13bitAto_small [OF assms(1), of "pi_arrival_time_offset p"]
  note f = entry_fields(1-3) [OF a, of "pi_ecn p"] entry_fields(4) [OF a]
  have "AtoToTimeDelta (0x8000 OR To2BitEcn (pi_ecn p) OR ?a) = AtoToTimeDelta ?a"
    by (simp add: AtoToTimeDelta_def f(1,4))
  then show ?thesis using True f(2,3) assms(2,3) by (simp add: parse_entry_def packet_entry_def wire_info_def)
next
  case False
  then show ?thesis using assms(2,3) by (simp add: parse_entry_def packet_entry_def wire_info_def ToEcnMarking_def)
qed

text \<open>Reading the report of one group, and of all groups.\<close>

lemma read_report:
  assumes "ok_group g"
  shows "ReadBigEndian4 (pre @ report_bytes scaled g @ post) (length pre) = Some (pi_ssrc (hd g))"
    and "ReadBigEndian2 (pre @ report_bytes scaled g @ post) (length pre + 4) = Some (pi_sequence_number (hd g))"
    and "ReadBigEndian2 (pre @ report_bytes scaled g @ post) (length pre + 6) = Some (of_nat (length g) :: u16)"
    and "read_items ReadBigEndian2 2 (length g) (pre @ report_bytes scaled g @ post) (length pre + 8) = Some (map (packet_entry scaled) g)"
proof -
  let ?s = "be_bytes 4 (pi_ssrc (hd g))" and ?q = "be_bytes 2 (pi_sequence_number (hd g))" and ?n = "be_bytes 2 (of_nat (length g) :: u16)"
  let ?e = "map (packet_entry scaled) g" and ?p = "(if odd (length g) then be_bytes 2 (0 :: u16) else []) @ post"
  let ?i = "concat (map (be_bytes 2) ?e)"
  show "ReadBigEndian4 (pre @ report_bytes scaled g @ post) (length pre) = Some (pi_ssrc (hd g))"
    using be32.dec_enc [of pre "pi_ssrc (hd g)" "?q @ ?n @ ?i @ ?p"] by (simp add: report_bytes_def del: map_map)
  show "ReadBigEndian2 (pre @ report_bytes scaled g @ post) (length pre + 4) = Some (pi_sequence_number (hd g))"
    using be16.dec_enc [of "pre @ ?s" "pi_sequence_number (hd g)" "?n @ ?i @ ?p"] by (simp add: report_bytes_def del: map_map)
  show "ReadBigEndian2 (pre @ report_bytes scaled g @ post) (length pre + 6) = Some (of_nat (length g) :: u16)"
    using be16.dec_enc [of "pre @ ?s @ ?q" "of_nat (length g) :: u16" "?i @ ?p"] by (simp add: report_bytes_def del: map_map)
  show "read_items ReadBigEndian2 2 (length g) (pre @ report_bytes scaled g @ post) (length pre + 8) = Some ?e"
    using be16.read_items_enc [of ?e "pre @ ?s @ ?q @ ?n" ?p] by (simp add: report_bytes_def del: map_map)
qed

lemma parse_reports_groups:
  assumes "ok_groups gs" and "scaling scaled" and "payload_end = length pre + groups_length gs"
  shows "parse_reports (pre @ concat (map (report_bytes scaled) gs) @ post) payload_end (length pre) acc =
    Some (True, acc @ map (wire_info scaled) (concat gs))"
  using assms
proof (induction gs arbitrary: pre acc)
  case Nil
  then show ?case by (subst parse_reports.simps) (simp add: groups_length_def)
next
  case (Cons g gs)
  let ?r = "report_bytes scaled g" and ?b = "pre @ concat (map (report_bytes scaled) (g # gs)) @ post"
  have g: "ok_group g" "ok_groups gs" "0 < length g" "length g \<le> 16384" using Cons.prems(1) by (auto simp: ok_group_def)
  have n: "unat (of_nat (length g) :: u16) = length g" using small_group [OF g(4)] by simp
  have b: "?b = pre @ ?r @ concat (map (report_bytes scaled) gs) @ post" by simp
  note R = read_report [OF g(1), of pre scaled "concat (map (report_bytes scaled) gs) @ post", folded b]
  have e: "payload_end = length pre + 8 + 2 * length g + (if odd (length g) then 2 else 0) + groups_length gs"
    using Cons.prems(3) by (simp add: groups_length_def)
  have infos: "map (\<lambda>i. parse_entry (pi_ssrc (hd g)) (pi_sequence_number (hd g)) i (map (packet_entry scaled) g ! i)) [0..<length g] =
      map (wire_info scaled) g"
    using g(1) by (intro nth_equalityI) (auto simp: ok_group_def intro!: parse_entry_wire [OF Cons.prems(2)])
  have "parse_reports ?b payload_end (length pre) acc =
      parse_reports ?b payload_end (length pre + 8 + 2 * length g + (if odd (length g) then 2 else 0)) (acc @ map (wire_info scaled) g)"
    by (subst parse_reports.simps) (use R n e g(3) infos in \<open>simp add: kHeaderPerMediaSssrcLength_def kPerPacketLength_def del: concat.simps list.map\<close>)
  also have "\<dots> = Some (True, (acc @ map (wire_info scaled) g) @ map (wire_info scaled) (concat gs))"
    using Cons.IH [OF g(2) Cons.prems(2), of "pre @ ?r" "acc @ map (wire_info scaled) g"] e by (simp add: report_bytes_length ac_simps)
  finally show ?case by simp
qed

section \<open>Creating and parsing a block\<close>

definition ccfb_block :: "(time_delta \<Rightarrow> int) \<Rightarrow> CongestionControlFeedback \<Rightarrow> PacketInfo list list \<Rightarrow> byte list" where
  "ccfb_block scaled c gs = header_bytes 11 205 (2 + groups_length gs div 4) False @ be_bytes 4 (cc_sender_ssrc c) @
     concat (map (report_bytes scaled) gs) @ be_bytes 4 (cc_report_timestamp_compact_ntp c)"

lemma groups_length_4: "groups_length gs mod 4 = 0"
proof (induction gs)
  case (Cons g gs)
  have "(8 + 2 * length g + (if odd (length g) then 2 else 0)) mod 4 = 0" by (cases "odd (length g)") presburger+
  then show ?case using Cons unfolding groups_length_def list.map sum_list.Cons by presburger
qed (simp add: groups_length_def)

lemma ccfb_block_length: "length (ccfb_block scaled c gs) = 12 + groups_length gs"
  by (simp add: ccfb_block_def groups_length)

lemma write_ccfb_block_put:
  assumes "ok_groups gs" and "cc_packets c = concat gs" and "12 + groups_length gs < 2 ^ 64"
    and "w_index s + length (ccfb_block scaled c gs) \<le> length (w_packet s)"
  shows "\<exists>b. put (w_packet s) (w_index s) (ccfb_block scaled c gs) = Some b \<and>
    write_ccfb_block scaled c s = Some (s\<lparr>w_packet := b, w_index := w_index s + length (ccfb_block scaled c gs)\<rparr>)"
proof -
  let ?b = "w_packet s" and ?i = "w_index s" and ?rs = "concat (map (report_bytes scaled) gs)"
  let ?h = "header_bytes 11 205 (2 + groups_length gs div 4) False @ be_bytes 4 (cc_sender_ssrc c)" and ?t = "be_bytes 4 (cc_report_timestamp_compact_ntp c)"
  have hl: "HeaderLength (Ccfb_BlockLength c) = 2 + groups_length gs div 4"
  proof -
    have "(12 + groups_length gs) mod 4 = 0" "(8 + groups_length gs) div 4 = 2 + groups_length gs div 4"
      using groups_length_4 [of gs] by presburger+
    then show ?thesis using assms(3) unfolding Ccfb_BlockLength_groups [OF assms(1,2)]
      by (simp add: HeaderLength_def Let_def kHeaderLength_def)
  qed
  obtain b2 where b2: "put ?b ?i ?h = Some b2" "length b2 = length ?b" using assms(4) by (auto simp: ccfb_block_def put_def)
  obtain b3 where b3: "put b2 (?i + 8) ?rs = Some b3" "length b3 = length ?b" using assms(4) b2(2) by (auto simp: ccfb_block_def put_def)
  obtain b4 where b4: "put b3 (?i + 8 + length ?rs) ?t = Some b4" using assms(4) b3(2) by (auto simp: ccfb_block_def put_def)
  have p23: "put ?b ?i (?h @ ?rs) = Some b3" using put_put [of "?i + 8" ?i ?h ?b ?rs] b2(1) b3(1) by simp
  have "put ?b ?i ((?h @ ?rs) @ ?t) = Some b4"
    using put_put [of "?i + 8 + length ?rs" ?i "?h @ ?rs" ?b ?t] p23 b4 by (simp add: ac_simps)
  then have blk: "put ?b ?i (ccfb_block scaled c gs) = Some b4" by (simp add: ccfb_block_def)
  obtain b1 where b1: "put ?b ?i (header_bytes 11 205 (2 + groups_length gs div 4) False) = Some b1" "put b1 (?i + 4) (be_bytes 4 (cc_sender_ssrc c)) = Some b2"
    using put_put [of "?i + 4" ?i "header_bytes 11 205 (2 + groups_length gs div 4) False" ?b "be_bytes 4 (cc_sender_ssrc c)"] b2(1)
    by (cases "put ?b ?i (header_bytes 11 205 (2 + groups_length gs div 4) False)") auto
  have "?i + 8 \<le> length b2" using assms(4) b2(2) by (simp add: ccfb_block_length)
  from write_reports_put [OF assms(1) this, of scaled]
  have w: "write_reports scaled (cc_packets c) (b2, ?i + 8) = Some (b3, ?i + 8 + length ?rs)" using b3(1) assms(2) by simp
  have "write_ccfb_block scaled c s = Some (s\<lparr>w_packet := b4, w_index := ?i + 8 + length ?rs + 4\<rparr>)"
    unfolding write_ccfb_block_def hl kCcfbFeedbackMessageType_def kRtpfbPacketType_def CreateHeader_put be_simps b1(1)
    using b1(2) w b4 by (simp add: kHeaderLength_def be_simps ac_simps)
  then show ?thesis using blk by (auto simp: ccfb_block_length groups_length)
qed

lemma ccfb_block_Parse:
  assumes "ok_groups gs" and "scaling scaled" and "groups_length gs < 4 * 65000" and "length (ccfb_block scaled c gs) \<le> size_bytes"
  shows "\<exists>h'. RtcpCommonHeader_Parse h (ccfb_block scaled c gs @ rest) size_bytes = Some (True, h') \<and>
    hdr_packet_type h' = 205 \<and> hdr_count_or_format h' = 11 \<and> packet_size h' = length (ccfb_block scaled c gs) \<and>
    Ccfb_Parse new_CongestionControlFeedback h' = Some (True, c\<lparr>cc_packets := map (wire_info scaled) (concat gs)\<rparr>)"
proof -
  let ?s = "be_bytes 4 (cc_sender_ssrc c)" and ?t = "be_bytes 4 (cc_report_timestamp_compact_ntp c)" and ?rs = "concat (map (report_bytes scaled) gs)"
  let ?body = "?s @ ?rs @ ?t" and ?len = "2 + groups_length gs div 4"
  let ?h = "\<lparr>hdr_packet_type = 205, hdr_count_or_format = of_nat 11, hdr_padding_size = 0,
      hdr_payload_size = of_nat (length ?body), hdr_payload = ?body @ rest\<rparr>"
  have lb: "length ?body = 8 + groups_length gs" by (simp add: groups_length)
  moreover have l4: "8 + groups_length gs = 4 * ?len" using groups_length_4 [of gs] by presburger
  moreover have m4: "(8 + groups_length gs) mod 4 = 0" using groups_length_4 [of gs] by presburger
  ultimately have H: "RtcpCommonHeader_Parse h (ccfb_block scaled c gs @ rest) size_bytes = Some (True, ?h)"
    using block_header_Parse [of ?body ?len 11 size_bytes h 205 rest] assms(3,4)
    by (simp add: ccfb_block_length) (simp add: ccfb_block_def)
  have sz: "unat (of_nat (length ?body) :: u32) = 8 + groups_length gs"
    unfolding lb using assms(3) by (intro unat_of_nat_small) simp
  have r1: "ReadBigEndian4 (?body @ rest) 0 = Some (cc_sender_ssrc c)" using be32.dec_enc [of "[]" "cc_sender_ssrc c" "?rs @ ?t @ rest"] by simp
  have r2: "ReadBigEndian4 (?body @ rest) (4 + groups_length gs) = Some (cc_report_timestamp_compact_ntp c)"
    using be32.dec_enc [of "?s @ ?rs" "cc_report_timestamp_compact_ntp c" rest] by (simp add: groups_length)
  have r3: "parse_reports (?body @ rest) (4 + groups_length gs) 4 [] = Some (True, map (wire_info scaled) (concat gs))"
    using parse_reports_groups [OF assms(1,2), of "4 + groups_length gs" ?s "?t @ rest" "[]"] by simp
  have "Ccfb_Parse new_CongestionControlFeedback ?h = Some (True, c\<lparr>cc_packets := map (wire_info scaled) (concat gs)\<rparr>)"
    using r1 r2 r3 m4 sz
    by (cases c) (simp add: Ccfb_Parse_def payload_size_bytes_def kSenderSsrcLength_def kTimestampLength_def new_CongestionControlFeedback_def Let_def)
  moreover have "packet_size ?h = length (ccfb_block scaled c gs)"
    using sz by (simp add: packet_size_def ccfb_block_length kHeaderSizeBytes_def)
  ultimately show ?thesis using H by simp
qed

lemma Ccfb_Create_emits:
  assumes r: "ready max_length s" and "ok_groups gs" and c: "cc_packets c = concat gs" and m: "max_length < 2 ^ 64"
  shows "\<exists>s'. Ccfb_Create scaled c max_length s = Some (12 + groups_length gs \<le> max_length, s') \<and> ready max_length s' \<and>
    emits max_length s (if 12 + groups_length gs \<le> max_length then [ccfb_block scaled c gs] else []) s'"
proof -
  let ?n = "12 + groups_length gs"
  have n: "Ccfb_BlockLength c = ?n" by (rule Ccfb_BlockLength_groups [OF assms(2) c])
  obtain s1 where s1: "fir_make_room ?n max_length s = Some (?n \<le> max_length, s1)" "ready max_length s1"
      "emits max_length s [] s1" "?n \<le> max_length \<longrightarrow> w_index s1 + ?n \<le> max_length"
    using fir_make_room_emits [OF r] by blast
  show ?thesis
  proof (cases "?n \<le> max_length")
    case False
    with s1 show ?thesis by (auto simp: Ccfb_Create_def n)
  next
    case True
    let ?blk = "ccfb_block scaled c gs"
    have "w_index s1 + length ?blk \<le> length (w_packet s1)" "?n < 2 ^ 64"
      using s1(2,4) True m by (auto simp: ready_def ccfb_block_length)
    then obtain b where b: "put (w_packet s1) (w_index s1) ?blk = Some b"
        "write_ccfb_block scaled c s1 = Some (s1\<lparr>w_packet := b, w_index := w_index s1 + length ?blk\<rparr>)"
      using write_ccfb_block_put [OF assms(2) c, of s1 scaled] by blast
    let ?s' = "s1\<lparr>w_packet := b, w_index := w_index s1 + length ?blk\<rparr>"
    have "emits max_length s [?blk] ?s'" using emits_trans [OF s1(3) emits_block [OF b(1)]] by simp
    moreover have "ready max_length ?s'"
      using s1(2,4) True put_length [OF b(1)] by (auto simp: ready_def ccfb_block_length)
    ultimately show ?thesis using True s1(1) b(2) by (auto simp: Ccfb_Create_def n)
  qed
qed

text \<open>The precision of the arrival times: what the 13-bit code loses, for offsets it can carry.\<close>

lemma ato_precision:
  assumes "0 \<le> d" and "0 \<le> scaled d" and "scaled d < 0x1FFE" and "\<bar>scaled d * 1000000 - 1024 * d\<bar> \<le> 1000000"
  shows "\<bar>AtoToTimeDelta (To13bitAto scaled d) - d\<bar> \<le> 978"
proof -
  let ?k = "scaled d"
  have u: "uint (word_of_int ?k :: u16) = ?k" using assms(2,3) by (simp add: uint_word_of_int)
  have m: "(0x1FFF :: u16) = mask 13" by (simp add: mask_eq_exp_minus_1)
  have a: "To13bitAto scaled d = word_of_int ?k" using assms(1,3) by (simp add: To13bitAto_def)
  have k: "(word_of_int ?k :: u16) AND 0x1FFF = word_of_int ?k"
    by (rule entry_fields(4)) (use u assms(3) in simp)
  have "(word_of_int ?k :: u16) \<noteq> 0x1FFE" "(word_of_int ?k :: u16) \<noteq> 0x1FFF"
    using u assms(3) by (auto simp: word_uint_eq_iff)
  then have "AtoToTimeDelta (To13bitAto scaled d) = Seconds ?k sdiv 1024"
    by (simp add: AtoToTimeDelta_def a k u Let_def)
  also have "\<dots> = (?k * 1000000) div 1024" using assms(2) by (simp only: Seconds_def FromFraction_def) (rule sdiv_pos, simp_all)
  finally show ?thesis using assms(4) by linarith
qed

lemma parse_reports_total:
  assumes "payload_end \<le> length b"
  shows "\<exists>ok ps. parse_reports b payload_end payload acc = Some (ok, ps)"
  using assms
proof (induction b payload_end payload acc rule: parse_reports.induct)
  case (1 b payload_end payload packets)
  show ?case
  proof (cases "payload + 8 < payload_end")
    case False
    then show ?thesis by (subst parse_reports.simps) (simp add: kHeaderPerMediaSssrcLength_def)
  next
    case True
    then have l: "payload + 4 \<le> length b" "payload + 4 + 2 \<le> length b" "payload + 6 + 2 \<le> length b" using "1.prems" by auto
    obtain ssrc :: u32 and base :: u16 where r: "ReadBigEndian4 b payload = Some ssrc" "ReadBigEndian2 b (payload + 4) = Some base"
      using be32.dec_total [OF l(1)] be16.dec_total [OF l(2)] by blast
    obtain n :: u16 where n: "ReadBigEndian2 b (payload + 6) = Some n" using be16.dec_total [OF l(3)] by blast
    show ?thesis
    proof (cases "payload_end < payload + 8 + 2 * unat n")
      case over: True
      then have "parse_reports b payload_end payload packets = Some (False, packets)"
        using True r n by (subst parse_reports.simps) (simp add: kHeaderPerMediaSssrcLength_def kPerPacketLength_def)
      then show ?thesis by blast
    next
      case False
      then have "payload + 8 + unat n * 2 \<le> length b" using "1.prems" by simp
      then obtain infos :: "u16 list" where i: "read_items ReadBigEndian2 2 (unat n) b (payload + 8) = Some infos"
        using be16.read_items_total by blast
      show ?thesis using "1.IH" [OF _ r n _ i "1.prems"] True False
        by (subst parse_reports.simps) (simp add: r n i kHeaderPerMediaSssrcLength_def kPerPacketLength_def)
    qed
  qed
qed

section \<open>Properties\<close>

text \<open>
  a congestion control feedback over groups of consecutive packets, source by source and at most
  16384 per group, is serialised as one whole block of \<open>BlockLength\<close> bytes when it fits, and parsing
  the block gives back the sender, the report timestamp and every packet in order: its source, its
  number, and either "not received" or its ECN mark with the arrival time of the 13-bit code. An
  offset below the over-range code comes back within 978 microseconds when the scaling to 1/1024
  seconds is exact to one unit.
\<close>

theorem Ccfb_wire_roundtrip:
  assumes "ok_groups gs" and "cc_packets c = concat gs" and "scaling scaled" and "ready max_length s"
    and "12 + groups_length gs \<le> max_length" and "groups_length gs < 4 * 65000"
  shows "\<exists>s' b h. Ccfb_Create scaled c max_length s = Some (True, s') \<and> ready max_length s' \<and> emits max_length s [b] s' \<and>
    length b = Ccfb_BlockLength c \<and> RtcpCommonHeader_Parse new_header b (length b) = Some (True, h) \<and> packet_size h = length b \<and>
    hdr_packet_type h = 205 \<and> hdr_count_or_format h = 11 \<and>
    Ccfb_Parse new_CongestionControlFeedback h = Some (True, c\<lparr>cc_packets := map (wire_info scaled) (cc_packets c)\<rparr>) \<and>
    (\<forall>p \<in> set (cc_packets c). let d = pi_arrival_time_offset p in
      IsFinite d \<and> 0 \<le> d \<and> scaled d < 0x1FFE \<and> \<bar>scaled d * 1000000 - 1024 * d\<bar> \<le> 1000000 \<longrightarrow>
      \<bar>pi_arrival_time_offset (wire_info scaled p) - d\<bar> \<le> 978 \<and> pi_ecn (wire_info scaled p) = pi_ecn p)"
proof -
  have "max_length < 2 ^ 64" using assms(4) by (simp add: ready_def)
  then obtain s' where s': "Ccfb_Create scaled c max_length s = Some (True, s')" "ready max_length s'"
      "emits max_length s [ccfb_block scaled c gs] s'"
    using Ccfb_Create_emits [OF assms(4,1,2), of scaled] assms(5) by auto
  have "\<forall>p \<in> set (cc_packets c). let d = pi_arrival_time_offset p in
      IsFinite d \<and> 0 \<le> d \<and> scaled d < 0x1FFE \<and> \<bar>scaled d * 1000000 - 1024 * d\<bar> \<le> 1000000 \<longrightarrow>
      \<bar>pi_arrival_time_offset (wire_info scaled p) - d\<bar> \<le> 978 \<and> pi_ecn (wire_info scaled p) = pi_ecn p"
    using assms(3) by (auto simp: Let_def wire_info_def scaling_def intro!: ato_precision)
  then show ?thesis
    using s' ccfb_block_Parse [OF assms(1,3,6) order_refl, of new_header c "[]"] assms(2)
    by (auto simp: Ccfb_BlockLength_groups [OF assms(1,2)] ccfb_block_length)
qed

definition example_feedback :: CongestionControlFeedback where
  "example_feedback = \<lparr>cc_sender_ssrc = 7, cc_packets =
     [\<lparr>pi_ssrc = 1, pi_sequence_number = 65535, pi_arrival_time_offset = 20000, pi_ecn = kCe\<rparr>,
      \<lparr>pi_ssrc = 1, pi_sequence_number = 0, pi_arrival_time_offset = MinusInfinity, pi_ecn = kNotEct\<rparr>,
      \<lparr>pi_ssrc = 1, pi_sequence_number = 1, pi_arrival_time_offset = 9000000, pi_ecn = kNotEct\<rparr>,
      \<lparr>pi_ssrc = 2, pi_sequence_number = 30, pi_arrival_time_offset = -5, pi_ecn = kEct1\<rparr>],
     cc_report_timestamp_compact_ntp = 0xABCD\<rparr>"

theorem Ccfb_wire_roundtrip_witness:
  "\<exists>s' h. Ccfb_Create (\<lambda>d. d * 1024 div 1000000) example_feedback 1200 \<lparr>w_packet = replicate 1500 0, w_index = 1190, w_ready = []\<rparr> = Some (True, s') \<and>
    Ccfb_Parse new_CongestionControlFeedback h =
      Some (True, example_feedback\<lparr>cc_packets := map (wire_info (\<lambda>d. d * 1024 div 1000000)) (cc_packets example_feedback)\<rparr>)"
proof -
  let ?gs = "[take 3 (cc_packets example_feedback), drop 3 (cc_packets example_feedback)]"
  let ?s = "\<lparr>w_packet = replicate 1500 0, w_index = 1190, w_ready = []\<rparr>"
  have 1: "ok_groups ?gs" by (simp add: ok_group_def example_feedback_def All_less_Suc2 numeral_3_eq_3)
  have 2: "cc_packets example_feedback = concat ?gs" by simp
  have 3: "scaling (\<lambda>d. d * 1024 div 1000000)" unfolding scaling_def by (intro allI impI pos_imp_zdiv_nonneg_iff [THEN iffD2]) simp_all
  have 4: "ready 1200 ?s" by (simp add: ready_def)
  have 5: "groups_length ?gs = 28" by (simp add: groups_length_def example_feedback_def)
  from Ccfb_wire_roundtrip [OF 1 2 3 4] 5 show ?thesis by auto
qed

text \<open>
  on every RTCP packet whose common header was accepted, \<open>CongestionControlFeedback::Parse\<close>
  finishes without reading outside the received bytes, and it accepts a feedback only when the
  payload is whole words with room for the sender and the timestamp.
\<close>

theorem Ccfb_Parse_safe:
  assumes "RtcpCommonHeader_Parse h buffer size_bytes = Some (True, h')" and "size_bytes \<le> length buffer"
  shows "\<exists>ok c'. Ccfb_Parse c h' = Some (ok, c') \<and> (ok \<longrightarrow> payload_size_bytes h' mod 4 = 0 \<and> 8 \<le> payload_size_bytes h')"
proof (cases "payload_size_bytes h' mod 4 \<noteq> 0 \<or> payload_size_bytes h' < 8")
  case False
  let ?b = "hdr_payload h'" and ?n = "payload_size_bytes h'"
  have len: "?n \<le> length ?b" using Parse_payload_length [OF assms] .
  then obtain x y :: u32 where "ReadBigEndian4 ?b 0 = Some x" "ReadBigEndian4 ?b (?n - 4) = Some y"
    using False be32.dec_total [of 0 ?b] be32.dec_total [of "?n - 4" ?b] by fastforce
  moreover have "?n - 4 \<le> length ?b" using len by simp
  then obtain ok ps where "parse_reports ?b (?n - 4) 4 (cc_packets c) = Some (ok, ps)"
    using parse_reports_total by blast
  ultimately show ?thesis using False by (auto simp: Ccfb_Parse_def kSenderSsrcLength_def kTimestampLength_def)
qed (auto simp: Ccfb_Parse_def kSenderSsrcLength_def kTimestampLength_def)

theorem Ccfb_Parse_safe_witness:
  "\<exists>h'. RtcpCommonHeader_Parse new_header [0x8B, 205, 0, 4, 0, 0, 0, 1, 0, 0, 0, 2, 0, 9, 0, 99, 1, 2, 3, 4] 20 = Some (True, h') \<and>
    (\<exists>ok c'. Ccfb_Parse new_CongestionControlFeedback h' = Some (ok, c'))"
proof -
  have "\<exists>h'. RtcpCommonHeader_Parse new_header [0x8B, 205, 0, 4, 0, 0, 0, 1, 0, 0, 0, 2, 0, 9, 0, 99, 1, 2, 3, 4] 20 = Some (True, h')"
    by (simp add: RtcpCommonHeader_Parse_def kHeaderSizeBytes_def rd_def Let_def)
  then show ?thesis using Ccfb_Parse_safe by fastforce
qed

end
