(* ===== verification/FeedbackTracker.thy ===== *)
theory FeedbackTracker
  imports CcFeedback SeqNum "HOL-Library.Product_Lexorder"
begin

text \<open>
  The record of arrivals behind the congestion control feedback of one source,
  \<open>src/qos/congestion_control_feedback_tracker.{h,cc}\<close>.

  \<open>packets_\<close> are the packets since the last feedback, \<open>history_\<close> the last 16384 numbers seen at all
  with the order in which they came. A feedback covers every number from the one after the last
  feedback (or the lowest number received, when that is lower) to the highest number received. The
  iterator \<open>packet_it\<close> is the list of the packets from it on; reading it at the end is the value
  \<open>None\<close>. \<open>std::sort\<close> may order two copies with the same arrival time either way; the model keeps
  the order of arrival.
\<close>

section \<open>State\<close>

text \<open>Of a received packet, what feedback reads.\<close>

record RtpPacketReceived =
  rr_ssrc :: u32
  rr_sequence_number :: u16
  rr_marker :: bool
  rr_arrival_time :: timestamp
  rr_ecn :: EcnMarking

record TrackedPacket =
  tp_ssrc :: u32
  tp_unwrapped_sequence_number :: int
  tp_arrival_time :: timestamp
  tp_ecn :: EcnMarking

record FeedbackTracker =
  ft_last_sequence_number_in_feedback :: "int option"
  ft_unwrapper :: "u16 unwrapper"
  ft_packets :: "TrackedPacket list"
  ft_history :: "int \<rightharpoonup> TrackedPacket"
  ft_history_order :: "int list"

definition kMaxHistorySize :: nat where "kMaxHistorySize = 16384"

definition new_FeedbackTracker :: FeedbackTracker where
  "new_FeedbackTracker = \<lparr>ft_last_sequence_number_in_feedback = None, ft_unwrapper = new_unwrapper, ft_packets = [],
     ft_history = Map.empty, ft_history_order = []\<rparr>"

section \<open>Operations\<close>

definition remember :: "TrackedPacket \<Rightarrow> FeedbackTracker \<Rightarrow> FeedbackTracker" where
  "remember p t =
     (let n = tp_unwrapped_sequence_number p in
      case ft_history t n of
        None \<Rightarrow>
          let h = (ft_history t)(n \<mapsto> p); order = ft_history_order t @ [n] in
          if length order > kMaxHistorySize
          then t\<lparr>ft_history := h(hd order := None), ft_history_order := tl order\<rparr>
          else t\<lparr>ft_history := h, ft_history_order := order\<rparr>
      | Some k \<Rightarrow>
          let k = (if tp_arrival_time p < tp_arrival_time k then k\<lparr>tp_arrival_time := tp_arrival_time p\<rparr> else k);
              k = (if tp_ecn p = kCe then k\<lparr>tp_ecn := kCe\<rparr> else k) in
          t\<lparr>ft_history := (ft_history t)(n \<mapsto> k)\<rparr>)"

definition ReceivedPacket :: "FeedbackTracker \<Rightarrow> RtpPacketReceived \<Rightarrow> FeedbackTracker" where
  "ReceivedPacket t packet =
     (let (n, u) = Unwrap 0 (ft_unwrapper t) (rr_sequence_number packet);
          p = \<lparr>tp_ssrc = rr_ssrc packet, tp_unwrapped_sequence_number = n, tp_arrival_time = rr_arrival_time packet, tp_ecn = rr_ecn packet\<rparr>;
          t = t\<lparr>ft_unwrapper := u, ft_last_sequence_number_in_feedback :=
            (case ft_last_sequence_number_in_feedback t of
               Some l \<Rightarrow> Some (if n < l + 1 then n - 1 else l) | None \<Rightarrow> None)\<rparr>;
          t = remember p t in
      t\<lparr>ft_packets := ft_packets t @ [p]\<rparr>)"

text \<open>\<open>arrival_time_offset\<close> and \<open>ecn\<close> as one more copy of a packet is read.\<close>

definition merge_offset :: "timestamp \<Rightarrow> time_delta \<Rightarrow> TrackedPacket \<Rightarrow> time_delta" where
  "merge_offset feedback_time offset p =
     (let candidate = Timestamp_sub feedback_time (tp_arrival_time p) in
      if IsFinite offset then min offset candidate else candidate)"

fun read_copies :: "timestamp \<Rightarrow> int \<Rightarrow> TrackedPacket list \<Rightarrow> time_delta \<Rightarrow> EcnMarking \<Rightarrow> TrackedPacket list \<times> time_delta \<times> EcnMarking" where
  "read_copies feedback_time n [] offset ecn = ([], offset, ecn)"
| "read_copies feedback_time n (p # ps) offset ecn =
     (if tp_unwrapped_sequence_number p = n
      then read_copies feedback_time n ps (merge_offset feedback_time offset p) (if tp_ecn p = kCe then kCe else ecn)
      else (p # ps, offset, ecn))"

definition report_number :: "timestamp \<Rightarrow> (int \<rightharpoonup> TrackedPacket) \<Rightarrow> int \<Rightarrow> TrackedPacket list \<Rightarrow> (TrackedPacket list \<times> time_delta \<times> EcnMarking) option" where
  "report_number feedback_time history n packets =
     (let (offset, ecn) = (case history n of None \<Rightarrow> (MinusInfinity, kNotEct)
        | Some h \<Rightarrow> (Timestamp_sub feedback_time (tp_arrival_time h), tp_ecn h)) in
      case packets of [] \<Rightarrow> None
      | p # ps \<Rightarrow>
          if n = tp_unwrapped_sequence_number p
          then Some (read_copies feedback_time n ps (merge_offset feedback_time offset p)
            (if tp_ecn p = kCe then kCe else if ecn = kNotEct then tp_ecn p else ecn))
          else Some (p # ps, offset, ecn))"

function report_range :: "timestamp \<Rightarrow> (int \<rightharpoonup> TrackedPacket) \<Rightarrow> u32 \<Rightarrow> int \<Rightarrow> int \<Rightarrow> TrackedPacket list \<Rightarrow> PacketInfo list \<Rightarrow> PacketInfo list option" where
  "report_range feedback_time history ssrc n top_number packets packet_feedback =
     (if n \<le> top_number then do {
        (packets, offset, ecn) \<leftarrow> report_number feedback_time history n packets;
        report_range feedback_time history ssrc (n + 1) top_number packets
          (packet_feedback @ [\<lparr>pi_ssrc = ssrc, pi_sequence_number = word_of_int n, pi_arrival_time_offset = offset, pi_ecn = ecn\<rparr>]) }
      else Some packet_feedback)"
  by pat_completeness auto
termination
  by (relation "measure (\<lambda>(f, h, s, n, m, ps, acc). nat (m + 1 - n))") auto

declare report_range.simps [simp del]

definition AddPacketsToFeedback :: "timestamp \<Rightarrow> FeedbackTracker \<Rightarrow> PacketInfo list \<Rightarrow> (PacketInfo list \<times> FeedbackTracker) option" where
  "AddPacketsToFeedback feedback_time t packet_feedback =
     (if ft_packets t = [] then Some (packet_feedback, t)
      else
        let packets = sort_key (\<lambda>p. (tp_unwrapped_sequence_number p, tp_arrival_time p)) (ft_packets t);
            l = (case ft_last_sequence_number_in_feedback t of Some l \<Rightarrow> l | None \<Rightarrow> tp_unwrapped_sequence_number (hd packets) - 1);
            back = tp_unwrapped_sequence_number (List.last packets) in do {
        packet_feedback \<leftarrow> report_range feedback_time (ft_history t) (tp_ssrc (hd packets)) (l + 1) back packets packet_feedback;
        Some (packet_feedback, t\<lparr>ft_packets := [], ft_last_sequence_number_in_feedback := Some back\<rparr>) })"

section \<open>What a feedback says\<close>

abbreviation seq_of :: "TrackedPacket \<Rightarrow> int" where "seq_of \<equiv> tp_unwrapped_sequence_number"

definition copies :: "int \<Rightarrow> TrackedPacket list \<Rightarrow> TrackedPacket list" where
  "copies n ps = filter (\<lambda>p. seq_of p = n) ps"

definition history_offset :: "timestamp \<Rightarrow> (int \<rightharpoonup> TrackedPacket) \<Rightarrow> int \<Rightarrow> time_delta" where
  "history_offset feedback_time h n = (case h n of None \<Rightarrow> MinusInfinity | Some k \<Rightarrow> Timestamp_sub feedback_time (tp_arrival_time k))"

definition history_ecn :: "(int \<rightharpoonup> TrackedPacket) \<Rightarrow> int \<Rightarrow> EcnMarking" where
  "history_ecn h n = (case h n of None \<Rightarrow> kNotEct | Some k \<Rightarrow> tp_ecn k)"

definition merged_ecn :: "EcnMarking \<Rightarrow> TrackedPacket list \<Rightarrow> EcnMarking" where
  "merged_ecn e cs = (if \<exists>c \<in> set cs. tp_ecn c = kCe then kCe else if cs \<noteq> [] \<and> e = kNotEct then tp_ecn (hd cs) else e)"

definition entry :: "timestamp \<Rightarrow> (int \<rightharpoonup> TrackedPacket) \<Rightarrow> u32 \<Rightarrow> TrackedPacket list \<Rightarrow> int \<Rightarrow> PacketInfo" where
  "entry feedback_time h ssrc ps n =
     \<lparr>pi_ssrc = ssrc, pi_sequence_number = word_of_int n,
      pi_arrival_time_offset = foldl (merge_offset feedback_time) (history_offset feedback_time h n) (copies n ps),
      pi_ecn = merged_ecn (history_ecn h n) (copies n ps)\<rparr>"

lemma read_copies_fold:
  "read_copies f n ps offset ecn = (dropWhile (\<lambda>p. seq_of p = n) ps,
     foldl (merge_offset f) offset (takeWhile (\<lambda>p. seq_of p = n) ps),
     if \<exists>c \<in> set (takeWhile (\<lambda>p. seq_of p = n) ps). tp_ecn c = kCe then kCe else ecn)"
  by (induction ps arbitrary: offset ecn) auto

lemma copies_takeWhile:
  assumes "sorted (map seq_of ps)" and "\<forall>p \<in> set ps. n \<le> seq_of p"
  shows "takeWhile (\<lambda>p. seq_of p = n) ps = copies n ps"
  using assms
proof (induction ps)
  case (Cons p ps)
  show ?case
  proof (cases "seq_of p = n")
    case False
    then have "\<forall>q \<in> set (p # ps). seq_of q \<noteq> n" using Cons.prems by fastforce
    then show ?thesis by (simp add: copies_def filter_empty_conv)
  qed (use Cons in \<open>simp add: copies_def\<close>)
qed (simp add: copies_def)

lemma copies_dropWhile: "m \<noteq> n \<Longrightarrow> copies m (dropWhile (\<lambda>p. seq_of p = n) ps) = copies m ps"
  by (induction ps) (auto simp: copies_def)

lemma report_number_entry:
  assumes "sorted (map seq_of ps)" and "\<forall>p \<in> set ps. n \<le> seq_of p" and "ps \<noteq> []"
  shows "report_number f h n ps = Some (dropWhile (\<lambda>p. seq_of p = n) ps,
    pi_arrival_time_offset (entry f h ssrc ps n), pi_ecn (entry f h ssrc ps n))"
proof -
  obtain p qs where p: "ps = p # qs" using assms(3) by (cases ps) auto
  have o: "(case h n of None \<Rightarrow> (MinusInfinity, kNotEct) | Some k \<Rightarrow> (Timestamp_sub f (tp_arrival_time k), tp_ecn k)) =
      (history_offset f h n, history_ecn h n)"
    by (simp add: history_offset_def history_ecn_def split: option.split)
  note c = copies_takeWhile [OF assms(1,2), unfolded p]
  show ?thesis
  proof (cases "seq_of p = n")
    case True
    then have c': "copies n (p # qs) = p # takeWhile (\<lambda>p. seq_of p = n) qs" using c by simp
    show ?thesis unfolding report_number_def o p entry_def c' using True
      by (auto simp: read_copies_fold merged_ecn_def)
  next
    case False
    then have c': "copies n (p # qs) = []" using c by simp
    show ?thesis unfolding report_number_def o p entry_def c' using False by (simp add: merged_ecn_def)
  qed
qed

lemma report_range_entries:
  assumes "sorted (map seq_of ps)" and "\<forall>p \<in> set ps. n \<le> seq_of p \<and> seq_of p \<le> m" and "n \<le> m \<longrightarrow> ps \<noteq> [] \<and> seq_of (List.last ps) = m"
  shows "report_range f h ssrc n m ps acc = Some (acc @ map (entry f h ssrc ps) [n..m])"
  using assms
proof (induction f h ssrc n m ps acc rule: report_range.induct)
  case (1 f h ssrc n m ps acc)
  show ?case
  proof (cases "n \<le> m")
    case False
    then show ?thesis by (subst report_range.simps) simp
  next
    case True
    let ?d = "dropWhile (\<lambda>p. seq_of p = n) ps" and ?e = "entry f h ssrc ps n"
    have r: "report_number f h n ps = Some (?d, pi_arrival_time_offset ?e, pi_ecn ?e)"
      using report_number_entry [OF "1.prems"(1)] "1.prems"(2,3) True by blast
    have sd: "sorted (map seq_of ?d)" using sorted_dropWhile [OF "1.prems"(1), of "\<lambda>x. x = n"] by (simp add: dropWhile_map comp_def)
    have sub: "set ?d \<subseteq> set ps" by (auto dest: set_dropWhileD)
    have gt: "\<forall>p \<in> set ?d. n + 1 \<le> seq_of p \<and> seq_of p \<le> m"
    proof
      fix p assume p: "p \<in> set ?d"
      have "seq_of (hd ?d) \<noteq> n" using hd_dropWhile [of "\<lambda>p. seq_of p = n" ps] p by (cases ?d) auto
      moreover have "hd ?d \<in> set ps" using p sub by (cases ?d) auto
      moreover have "seq_of (hd ?d) \<le> seq_of p" using sd p by (cases ?d) auto
      ultimately show "n + 1 \<le> seq_of p \<and> seq_of p \<le> m" using "1.prems"(2) p sub by fastforce
    qed
    have last: "n + 1 \<le> m \<longrightarrow> ?d \<noteq> [] \<and> seq_of (List.last ?d) = m"
    proof
      assume "n + 1 \<le> m"
      then have "\<not> (\<forall>p \<in> set ps. seq_of p = n)" using "1.prems"(3) True last_in_set [of ps] by fastforce
      then have "?d \<noteq> []" by (simp add: dropWhile_eq_Nil_conv)
      then show "?d \<noteq> [] \<and> seq_of (List.last ?d) = m" using "1.prems"(3) True by (metis last_append takeWhile_dropWhile_id)
    qed
    have e: "map (entry f h ssrc ?d) [n + 1..m] = map (entry f h ssrc ps) [n + 1..m]"
      by (rule map_cong) (auto simp: entry_def copies_dropWhile)
    have "report_range f h ssrc n m ps acc =
        report_range f h ssrc (n + 1) m ?d (acc @ [\<lparr>pi_ssrc = ssrc, pi_sequence_number = word_of_int n,
          pi_arrival_time_offset = pi_arrival_time_offset ?e, pi_ecn = pi_ecn ?e\<rparr>])"
      using True r by (subst report_range.simps) simp
    also have "\<dots> = Some ((acc @ [?e]) @ map (entry f h ssrc ?d) [n + 1..m])"
      using "1.IH" [OF True r refl refl sd gt last] by (simp add: entry_def)
    finally show ?thesis using True e by (simp add: upto_rec1)
  qed
qed

text \<open>The arrival times of the copies of a number: the one remembered and those since the last feedback.\<close>

definition arrivals :: "FeedbackTracker \<Rightarrow> int \<Rightarrow> timestamp set" where
  "arrivals t n = (case ft_history t n of None \<Rightarrow> {} | Some k \<Rightarrow> {tp_arrival_time k}) \<union> tp_arrival_time ` set (copies n (ft_packets t))"

definition close_time :: "timestamp \<Rightarrow> bool" where
  "close_time v \<longleftrightarrow> \<bar>v\<bar> < 2 ^ 61"

lemma close_sub:
  assumes "close_time f" and "close_time a"
  shows "Timestamp_sub f a = f - a" and "IsFinite (f - a)"
  using assms by (auto simp: close_time_def Timestamp_sub_def infinity_defs)

lemma IsFinite_MinusInfinity [simp]: "\<not> IsFinite MinusInfinity"
  by (simp add: infinity_defs)

lemma merged_offset:
  assumes "close_time f" and "\<forall>c \<in> set cs. close_time (tp_arrival_time c)" and "finite A" and "A = {} \<longrightarrow> \<not> IsFinite offset"
    and "A \<noteq> {} \<longrightarrow> offset = f - Max A" and "\<forall>a \<in> A. close_time a" and "B = A \<union> tp_arrival_time ` set cs"
  shows "foldl (merge_offset f) offset cs = (if B = {} then offset else f - Max B)"
  using assms
proof (induction cs arbitrary: A offset)
  case (Cons c cs)
  let ?a = "tp_arrival_time c"
  have a: "close_time ?a" "Timestamp_sub f ?a = f - ?a" using Cons.prems close_sub by auto
  have fin: "IsFinite offset" if "A \<noteq> {}"
    using that Cons.prems(1,5,6) Max_in [OF Cons.prems(3) that] close_sub(2) by auto
  have m: "merge_offset f offset c = f - Max (insert ?a A)"
  proof (cases "A = {}")
    case True
    then show ?thesis using Cons.prems(4) a by (simp add: merge_offset_def)
  next
    case False
    have "Max (insert ?a A) = max ?a (Max A)" using Max_insert [OF Cons.prems(3) False] .
    then show ?thesis using fin [OF False] Cons.prems(5) False a(2) by (simp add: merge_offset_def max_def min_def)
  qed
  have "foldl (merge_offset f) (merge_offset f offset c) cs = (if B = {} then merge_offset f offset c else f - Max B)"
    by (rule Cons.IH [of "insert ?a A"]) (use Cons.prems a m in auto)
  then show ?case using Cons.prems(7) by simp
qed auto

definition times_ok :: "FeedbackTracker \<Rightarrow> bool" where
  "times_ok t \<longleftrightarrow> (\<forall>p \<in> set (ft_packets t). close_time (tp_arrival_time p)) \<and> (\<forall>k \<in> ran (ft_history t). close_time (tp_arrival_time k))"

lemma entry_offset:
  assumes "close_time f" and "times_ok t" and "set ps = set (ft_packets t)"
  shows "pi_arrival_time_offset (entry f (ft_history t) ssrc ps n) =
    (if arrivals t n = {} then MinusInfinity else f - Max (arrivals t n))"
proof -
  let ?A = "case ft_history t n of None \<Rightarrow> {} | Some k \<Rightarrow> {tp_arrival_time k}"
  have c: "set (copies n ps) = set (copies n (ft_packets t))" using assms(3) by (auto simp: copies_def)
  have h: "close_time (tp_arrival_time k)" if "ft_history t n = Some k" for k
    using assms(2) that by (auto simp: times_ok_def ran_def)
  have "foldl (merge_offset f) (history_offset f (ft_history t) n) (copies n ps) =
      (if arrivals t n = {} then history_offset f (ft_history t) n else f - Max (arrivals t n))"
  proof (rule merged_offset [OF assms(1), where A = ?A])
    show "\<forall>c \<in> set (copies n ps). close_time (tp_arrival_time c)"
      using assms(2) unfolding c by (auto simp: times_ok_def copies_def)
    show "?A \<noteq> {} \<longrightarrow> history_offset f (ft_history t) n = f - Max ?A"
      using h close_sub(1) [OF assms(1)] by (auto simp: history_offset_def split: option.splits)
    show "arrivals t n = ?A \<union> tp_arrival_time ` set (copies n ps)" unfolding arrivals_def c ..
  qed (use h in \<open>auto simp: history_offset_def split: option.splits\<close>)
  then show ?thesis by (auto simp: entry_def history_offset_def arrivals_def split: option.splits)
qed

lemma entry_ce:
  assumes "set ps = set (ft_packets t)"
  shows "pi_ecn (entry f (ft_history t) ssrc ps n) = kCe \<longleftrightarrow>
    history_ecn (ft_history t) n = kCe \<or> (\<exists>p \<in> set (ft_packets t). seq_of p = n \<and> tp_ecn p = kCe)"
proof -
  have c: "set (copies n ps) = {p \<in> set (ft_packets t). seq_of p = n}" using assms by (auto simp: copies_def)
  then have "copies n ps \<noteq> [] \<Longrightarrow> hd (copies n ps) \<in> {p \<in> set (ft_packets t). seq_of p = n}" using hd_in_set by blast
  then show ?thesis unfolding entry_def merged_ecn_def by (auto simp: c)
qed

section \<open>The invariant of a tracker\<close>

definition tracker_ok :: "u32 \<Rightarrow> FeedbackTracker \<Rightarrow> bool" where
  "tracker_ok ssrc t \<longleftrightarrow>
     (\<forall>l. ft_last_sequence_number_in_feedback t = Some l \<longrightarrow> (\<forall>p \<in> set (ft_packets t). l < seq_of p)) \<and>
     (\<forall>p \<in> set (ft_packets t). tp_ssrc p = ssrc) \<and>
     dom (ft_history t) = set (ft_history_order t) \<and> distinct (ft_history_order t) \<and> length (ft_history_order t) \<le> kMaxHistorySize"

lemma new_FeedbackTracker_ok: "tracker_ok ssrc new_FeedbackTracker" "times_ok new_FeedbackTracker"
  by (simp_all add: tracker_ok_def times_ok_def new_FeedbackTracker_def)

lemma remember_keeps [simp]:
  "ft_packets (remember p t) = ft_packets t" "ft_unwrapper (remember p t) = ft_unwrapper t"
  "ft_last_sequence_number_in_feedback (remember p t) = ft_last_sequence_number_in_feedback t"
  by (simp_all add: remember_def Let_def split: option.split)

lemma remember_history:
  assumes "dom (ft_history t) = set (ft_history_order t)" and "distinct (ft_history_order t)" and "length (ft_history_order t) \<le> kMaxHistorySize"
  shows "dom (ft_history (remember p t)) = set (ft_history_order (remember p t)) \<and> distinct (ft_history_order (remember p t)) \<and>
    length (ft_history_order (remember p t)) \<le> kMaxHistorySize"
proof (cases "ft_history t (seq_of p)")
  case None
  then have new: "seq_of p \<notin> set (ft_history_order t)" using assms(1) by (auto simp: domIff)
  show ?thesis
  proof (cases "ft_history_order t")
    case Nil
    then show ?thesis using None assms by (auto simp: remember_def Let_def kMaxHistorySize_def)
  next
    case (Cons a order)
    then show ?thesis using None assms new by (auto simp: remember_def Let_def)
  qed
next
  case (Some k)
  then have "seq_of p \<in> set (ft_history_order t)" using assms(1) by auto
  then show ?thesis using Some assms by (auto simp: remember_def Let_def)
qed

lemma remember_times:
  assumes "\<forall>k \<in> ran (ft_history t). close_time (tp_arrival_time k)" and "close_time (tp_arrival_time p)"
  shows "\<forall>k \<in> ran (ft_history (remember p t)). close_time (tp_arrival_time k)"
  using assms by (auto simp: remember_def Let_def ran_def split: option.splits if_splits)

lemma ReceivedPacket_ok:
  assumes "tracker_ok (rr_ssrc packet) t"
  shows "tracker_ok (rr_ssrc packet) (ReceivedPacket t packet)"
  using assms remember_history [of "t\<lparr>ft_unwrapper := u, ft_last_sequence_number_in_feedback := l\<rparr>" p for u l p]
  by (auto simp: tracker_ok_def ReceivedPacket_def Let_def split: prod.split option.splits) fastforce

lemma ReceivedPacket_times:
  assumes "times_ok t" and "close_time (rr_arrival_time packet)"
  shows "times_ok (ReceivedPacket t packet)"
proof -
  have h: "\<forall>k \<in> ran (ft_history (remember p (t\<lparr>ft_unwrapper := u, ft_last_sequence_number_in_feedback := l\<rparr>))). close_time (tp_arrival_time k)"
    if "tp_arrival_time p = rr_arrival_time packet" for p u l
    by (rule remember_times) (use assms that in \<open>simp_all add: times_ok_def\<close>)
  show ?thesis using assms by (simp add: times_ok_def ReceivedPacket_def Let_def split: prod.split) (intro allI impI h, simp)
qed

text \<open>The numbers a feedback covers.\<close>

definition first_number :: "FeedbackTracker \<Rightarrow> int" where
  "first_number t = (case ft_last_sequence_number_in_feedback t of Some l \<Rightarrow> l + 1 | None \<Rightarrow> Min (seq_of ` set (ft_packets t)))"

definition top_number :: "FeedbackTracker \<Rightarrow> int" where
  "top_number t = Max (seq_of ` set (ft_packets t))"

definition report :: "timestamp \<Rightarrow> u32 \<Rightarrow> FeedbackTracker \<Rightarrow> PacketInfo list" where
  "report f ssrc t = (if ft_packets t = [] then [] else
     map (entry f (ft_history t) ssrc (sort_key (\<lambda>p. (seq_of p, tp_arrival_time p)) (ft_packets t))) [first_number t..top_number t])"

lemma sorted_hd_last:
  assumes "sorted xs" and "xs \<noteq> []"
  shows "hd xs = Min (set xs)" and "List.last xs = Max (set xs)"
proof -
  show "hd xs = Min (set xs)" using assms by (cases xs) (auto intro!: Min_eqI [symmetric])
  show "List.last xs = Max (set xs)"
    using assms by (induction xs rule: rev_induct) (auto simp: sorted_append intro!: Max_eqI [symmetric])
qed

lemma AddPacketsToFeedback_report:
  assumes "tracker_ok ssrc t" and "ft_packets t \<noteq> []"
  shows "AddPacketsToFeedback f t acc = Some (acc @ report f ssrc t,
      t\<lparr>ft_packets := [], ft_last_sequence_number_in_feedback := Some (top_number t)\<rparr>)"
    and "\<forall>p \<in> set (ft_packets t). first_number t \<le> seq_of p \<and> seq_of p \<le> top_number t"
proof -
  let ?ps = "sort_key (\<lambda>p. (seq_of p, tp_arrival_time p)) (ft_packets t)"
  have set: "set ?ps = set (ft_packets t)" and ne: "?ps \<noteq> []" using assms(2) by (simp_all flip: set_empty)
  have "sorted (map (\<lambda>p. (seq_of p, tp_arrival_time p)) ?ps)" by simp
  then have srt: "sorted (map seq_of ?ps)" by (auto simp: sorted_map less_eq_prod_def elim!: sorted_wrt_mono_rel [rotated])
  have hl: "seq_of (hd ?ps) = Min (seq_of ` set (ft_packets t))" "seq_of (List.last ?ps) = top_number t"
    using sorted_hd_last [OF srt] ne set by (simp_all add: hd_map last_map top_number_def)
  have ssrc: "tp_ssrc (hd ?ps) = ssrc" using assms(1) hd_in_set [OF ne] set by (simp add: tracker_ok_def)
  show b: "\<forall>p \<in> set (ft_packets t). first_number t \<le> seq_of p \<and> seq_of p \<le> top_number t"
    using assms(1) by (auto simp: first_number_def top_number_def tracker_ok_def add1_zle_eq split: option.split)
  have n: "(case ft_last_sequence_number_in_feedback t of Some l \<Rightarrow> l | None \<Rightarrow> seq_of (hd ?ps) - 1) + 1 = first_number t"
    using hl(1) by (simp add: first_number_def split: option.split)
  have "report_range f (ft_history t) ssrc (first_number t) (top_number t) ?ps acc = Some (acc @ report f ssrc t)"
    using report_range_entries [OF srt, of "first_number t" "top_number t" f "ft_history t" ssrc acc] b ne hl(2) set assms(2)
    by (simp add: report_def)
  then show "AddPacketsToFeedback f t acc = Some (acc @ report f ssrc t,
      t\<lparr>ft_packets := [], ft_last_sequence_number_in_feedback := Some (top_number t)\<rparr>)"
    using assms(2) unfolding AddPacketsToFeedback_def Let_def n ssrc hl(2) by simp
qed

end
