(* ===== verification/FeedbackGenerator.thy ===== *)
theory FeedbackGenerator
  imports FeedbackTracker
begin

text \<open>
  When congestion control feedback is sent, \<open>src/qos/congestion_control_feedback_generator.{h,cc}\<close>: a
  tracker per source, a feedback after a frame is complete or 25 ms after the first packet, and no
  more often than the share of the bandwidth allows, at least 25 ms and at most 250 ms apart.

  Clock readings are arguments. The conversion of a time to a compact NTP stamp is the argument
  \<open>compact_ntp\<close> (a method of the \<open>Clock\<close> given to the constructor), the floating-point product
  \<open>estimate * 0.05\<close> the argument \<open>five_percent\<close>. The callback \<open>rtcp_sender_\<close> collects what is sent
  in \<open>fg_sent\<close>. The \<open>std::map\<close> of trackers is a list ordered by source.
\<close>

section \<open>State\<close>

type_synonym trackers = "(u32 \<times> FeedbackTracker) list"

record FeedbackGenerator =
  fg_max_feedback_rate :: unit_value
  fg_packet_overhead :: unit_value
  fg_send_rate_debt :: unit_value
  fg_feedback_trackers :: trackers
  fg_last_feedback_sent_time :: timestamp
  fg_first_arrival_time_since_feedback :: "timestamp option"
  fg_marker_bit_seen :: bool
  fg_next_possible_feedback_send_time :: timestamp
  fg_sent :: "CongestionControlFeedback list"

definition min_time_between_feedback :: time_delta where "min_time_between_feedback = Millis 25"
definition max_time_to_wait_for_packet_with_marker :: time_delta where "max_time_to_wait_for_packet_with_marker = Millis 25"
definition max_time_between_feedback :: time_delta where "max_time_between_feedback = Millis 250"

definition new_FeedbackGenerator :: FeedbackGenerator where
  "new_FeedbackGenerator = \<lparr>fg_max_feedback_rate = 1000000, fg_packet_overhead = 0, fg_send_rate_debt = 0,
     fg_feedback_trackers = [], fg_last_feedback_sent_time = 0, fg_first_arrival_time_since_feedback = None,
     fg_marker_bit_seen = False, fg_next_possible_feedback_send_time = 0, fg_sent = []\<rparr>"

section \<open>Operations\<close>

definition CalculateNextPossibleSendTime :: "FeedbackGenerator \<Rightarrow> unit_value \<Rightarrow> timestamp \<Rightarrow> FeedbackGenerator" where
  "CalculateNextPossibleSendTime g feedback_size now =
     (let time_since_last_sent = Timestamp_sub now (fg_last_feedback_sent_time g);
          debt_payed = rate_times_time (fg_max_feedback_rate g) time_since_last_sent;
          debt = (if debt_payed > fg_send_rate_debt g then 0 else unit_sub (fg_send_rate_debt g) debt_payed);
          debt = unit_add debt (unit_add feedback_size (fg_packet_overhead g));
          wait = (if fg_max_feedback_rate g = 0 then PlusInfinity else size_over_rate debt (fg_max_feedback_rate g)) in
      g\<lparr>fg_send_rate_debt := debt, fg_last_feedback_sent_time := now,
        fg_next_possible_feedback_send_time := Timestamp_add now
          (if wait < min_time_between_feedback then min_time_between_feedback
           else if max_time_between_feedback < wait then max_time_between_feedback else wait)\<rparr>)"

fun add_packets :: "timestamp \<Rightarrow> trackers \<Rightarrow> PacketInfo list \<Rightarrow> (PacketInfo list \<times> trackers) option" where
  "add_packets now [] infos = Some (infos, [])"
| "add_packets now ((ssrc, tracker) # ts) infos = do {
     (infos, tracker) \<leftarrow> AddPacketsToFeedback now tracker infos;
     (infos, ts) \<leftarrow> add_packets now ts infos;
     Some (infos, (ssrc, tracker) # ts) }"

definition SendFeedback :: "(timestamp \<Rightarrow> u32) \<Rightarrow> timestamp \<Rightarrow> FeedbackGenerator \<Rightarrow> FeedbackGenerator option" where
  "SendFeedback compact_ntp now g = do {
     (rtcp_packet_info, ts) \<leftarrow> add_packets now (fg_feedback_trackers g) [];
     let g = g\<lparr>fg_feedback_trackers := ts, fg_marker_bit_seen := False, fg_first_arrival_time_since_feedback := None\<rparr>;
         feedback = \<lparr>cc_sender_ssrc = 0, cc_packets = rtcp_packet_info, cc_report_timestamp_compact_ntp = compact_ntp now\<rparr>;
         g = CalculateNextPossibleSendTime g (int (Ccfb_BlockLength feedback)) now in
     Some (g\<lparr>fg_sent := fg_sent g @ [feedback]\<rparr>) }"

definition NextFeedbackTime :: "timestamp \<Rightarrow> FeedbackGenerator \<Rightarrow> timestamp" where
  "NextFeedbackTime current_time g =
     (case fg_first_arrival_time_since_feedback g of
        None \<Rightarrow> max (Timestamp_add current_time min_time_between_feedback) (fg_next_possible_feedback_send_time g)
      | Some first_arrival \<Rightarrow>
          if \<not> fg_marker_bit_seen g
          then max (fg_next_possible_feedback_send_time g) (Timestamp_add first_arrival max_time_to_wait_for_packet_with_marker)
          else fg_next_possible_feedback_send_time g)"

fun received_by :: "RtpPacketReceived \<Rightarrow> trackers \<Rightarrow> trackers" where
  "received_by packet [] = [(rr_ssrc packet, ReceivedPacket new_FeedbackTracker packet)]"
| "received_by packet ((ssrc, tracker) # ts) =
     (if rr_ssrc packet < ssrc then (rr_ssrc packet, ReceivedPacket new_FeedbackTracker packet) # (ssrc, tracker) # ts
      else if rr_ssrc packet = ssrc then (ssrc, ReceivedPacket tracker packet) # ts
      else (ssrc, tracker) # received_by packet ts)"

definition Generator_OnReceivedPacket :: "(timestamp \<Rightarrow> u32) \<Rightarrow> timestamp \<Rightarrow> FeedbackGenerator \<Rightarrow> RtpPacketReceived \<Rightarrow> FeedbackGenerator option" where
  "Generator_OnReceivedPacket compact_ntp current_time g packet =
     (let g = g\<lparr>fg_marker_bit_seen := fg_marker_bit_seen g \<or> rr_marker packet,
            fg_first_arrival_time_since_feedback := (case fg_first_arrival_time_since_feedback g of
              None \<Rightarrow> Some (rr_arrival_time packet) | Some a \<Rightarrow> Some a),
            fg_feedback_trackers := received_by packet (fg_feedback_trackers g)\<rparr> in
      if NextFeedbackTime current_time g < rr_arrival_time packet then SendFeedback compact_ntp current_time g else Some g)"

definition Generator_Process :: "(timestamp \<Rightarrow> u32) \<Rightarrow> timestamp \<Rightarrow> timestamp \<Rightarrow> FeedbackGenerator \<Rightarrow> (time_delta \<times> FeedbackGenerator) option" where
  "Generator_Process compact_ntp current_time now g = do {
     g \<leftarrow> (if NextFeedbackTime current_time g \<le> now then SendFeedback compact_ntp now g else Some g);
     Some (Timestamp_sub (NextFeedbackTime current_time g) now, g) }"

definition OnSendBandwidthEstimateChanged :: "(unit_value \<Rightarrow> unit_value) \<Rightarrow> FeedbackGenerator \<Rightarrow> unit_value \<Rightarrow> FeedbackGenerator" where
  "OnSendBandwidthEstimateChanged five_percent g estimate = g\<lparr>fg_max_feedback_rate := five_percent estimate\<rparr>"

definition SetTransportOverhead :: "FeedbackGenerator \<Rightarrow> unit_value \<Rightarrow> FeedbackGenerator" where
  "SetTransportOverhead g overhead_per_packet = g\<lparr>fg_packet_overhead := overhead_per_packet\<rparr>"

section \<open>Invariant\<close>

definition trackers_ok :: "trackers \<Rightarrow> bool" where
  "trackers_ok ts \<longleftrightarrow> sorted_wrt (<) (map fst ts) \<and> (\<forall>(ssrc, t) \<in> set ts. tracker_ok ssrc t \<and> times_ok t)"

lemma received_by_keys: "fst ` set (received_by packet ts) = insert (rr_ssrc packet) (fst ` set ts)"
  by (induction packet ts rule: received_by.induct) auto

lemma received_by_ok:
  assumes "trackers_ok ts" and "close_time (rr_arrival_time packet)"
  shows "trackers_ok (received_by packet ts)"
  using assms
proof (induction packet ts rule: received_by.induct)
  case (1 packet)
  then show ?case using ReceivedPacket_ok [OF new_FeedbackTracker_ok(1)] ReceivedPacket_times [OF new_FeedbackTracker_ok(2)]
    by (simp add: trackers_ok_def)
next
  case (2 packet ssrc tracker ts)
  have new: "tracker_ok (rr_ssrc packet) (ReceivedPacket new_FeedbackTracker packet)" "times_ok (ReceivedPacket new_FeedbackTracker packet)"
    using ReceivedPacket_ok [OF new_FeedbackTracker_ok(1)] ReceivedPacket_times [OF new_FeedbackTracker_ok(2) "2.prems"(2)] by auto
  have old: "tracker_ok ssrc tracker" "times_ok tracker" "trackers_ok ts" "\<forall>k \<in> fst ` set ts. ssrc < k"
    using "2.prems"(1) by (auto simp: trackers_ok_def)
  consider "rr_ssrc packet < ssrc" | "rr_ssrc packet = ssrc" | "ssrc < rr_ssrc packet" by force
  then show ?case
  proof cases
    case 1
    then show ?thesis using "2.prems"(1) new by (force simp: trackers_ok_def)
  next
    case 2
    then show ?thesis using old ReceivedPacket_ok [of packet tracker] ReceivedPacket_times [OF old(2) "2.prems"(2)]
      by (auto simp: trackers_ok_def)
  next
    case 3
    then have "trackers_ok (received_by packet ts)" using "2.IH" old(3) "2.prems"(2) by simp
    moreover have "\<forall>k \<in> fst ` set (received_by packet ts). ssrc < k" unfolding received_by_keys using old(4) 3 by simp
    ultimately show ?thesis using 3 old by (auto simp: trackers_ok_def)
  qed
qed

definition sent_tracker :: "FeedbackTracker \<Rightarrow> FeedbackTracker" where
  "sent_tracker t = (if ft_packets t = [] then t
     else t\<lparr>ft_packets := [], ft_last_sequence_number_in_feedback := Some (top_number t)\<rparr>)"

lemma sent_tracker_ok: "tracker_ok ssrc t \<and> times_ok t \<Longrightarrow> tracker_ok ssrc (sent_tracker t) \<and> times_ok (sent_tracker t)"
  by (simp add: sent_tracker_def tracker_ok_def times_ok_def)

lemma add_packets_report:
  assumes "trackers_ok ts"
  shows "add_packets now ts acc = Some (acc @ concat (map (\<lambda>(ssrc, t). report now ssrc t) ts), map (apsnd sent_tracker) ts)"
  using assms
proof (induction now ts acc rule: add_packets.induct)
  case (2 now ssrc tracker ts infos)
  have t: "tracker_ok ssrc tracker" "trackers_ok ts" using "2.prems" by (auto simp: trackers_ok_def)
  have a: "AddPacketsToFeedback now tracker infos = Some (infos @ report now ssrc tracker, sent_tracker tracker)"
  proof (cases "ft_packets tracker = []")
    case True
    then show ?thesis by (simp add: AddPacketsToFeedback_def report_def sent_tracker_def)
  next
    case False
    then show ?thesis using AddPacketsToFeedback_report(1) [OF t(1)] by (simp add: sent_tracker_def)
  qed
  show ?case using a "2.IH" [OF a refl t(2)] by simp
qed simp

lemma sent_trackers_ok: "trackers_ok ts \<Longrightarrow> trackers_ok (map (apsnd sent_tracker) ts)"
  using sent_tracker_ok by (fastforce simp: trackers_ok_def comp_def)

definition feedback_of :: "(timestamp \<Rightarrow> u32) \<Rightarrow> timestamp \<Rightarrow> trackers \<Rightarrow> CongestionControlFeedback" where
  "feedback_of compact_ntp now ts = \<lparr>cc_sender_ssrc = 0, cc_packets = concat (map (\<lambda>(ssrc, t). report now ssrc t) ts),
     cc_report_timestamp_compact_ntp = compact_ntp now\<rparr>"

lemma clamped_wait: "lo \<le> hi \<Longrightarrow> \<exists>w. lo \<le> w \<and> w \<le> hi \<and> f (if x < lo then lo else if hi < x then hi else x) = f w" for x :: int
  by (rule exI [of _ "if x < lo then lo else if hi < x then hi else x"]) auto

lemma CalculateNextPossibleSendTime_wait:
  "\<exists>w. Millis 25 \<le> w \<and> w \<le> Millis 250 \<and> fg_next_possible_feedback_send_time (CalculateNextPossibleSendTime g n now) = Timestamp_add now w"
  by (cases g, simp only: CalculateNextPossibleSendTime_def Let_def min_time_between_feedback_def max_time_between_feedback_def FeedbackGenerator.simps,
      rule clamped_wait) (simp add: Millis_def FromFraction_def)

lemma CalculateNextPossibleSendTime_keeps [simp]:
  "fg_sent (CalculateNextPossibleSendTime g n now) = fg_sent g"
  "fg_feedback_trackers (CalculateNextPossibleSendTime g n now) = fg_feedback_trackers g"
  "fg_first_arrival_time_since_feedback (CalculateNextPossibleSendTime g n now) = fg_first_arrival_time_since_feedback g"
  "fg_last_feedback_sent_time (CalculateNextPossibleSendTime g n now) = now"
  by (simp_all add: CalculateNextPossibleSendTime_def Let_def)

lemma SendFeedback_returns:
  assumes "trackers_ok (fg_feedback_trackers g)"
  shows "\<exists>g'. SendFeedback compact_ntp now g = Some g' \<and> fg_sent g' = fg_sent g @ [feedback_of compact_ntp now (fg_feedback_trackers g)] \<and>
    fg_feedback_trackers g' = map (apsnd sent_tracker) (fg_feedback_trackers g) \<and> trackers_ok (fg_feedback_trackers g') \<and>
    fg_first_arrival_time_since_feedback g' = None \<and> fg_last_feedback_sent_time g' = now \<and>
    (\<exists>w. Millis 25 \<le> w \<and> w \<le> Millis 250 \<and> fg_next_possible_feedback_send_time g' = Timestamp_add now w)"
  using sent_trackers_ok [OF assms] CalculateNextPossibleSendTime_wait
  by (simp add: SendFeedback_def add_packets_report [OF assms] feedback_of_def Let_def)

section \<open>The packets of a feedback\<close>

lemma concat_nonempty: "concat (filter (\<lambda>g. g \<noteq> []) gs) = concat gs"
  by (induction gs) auto

definition span_ok :: "FeedbackTracker \<Rightarrow> bool" where
  "span_ok t \<longleftrightarrow> (ft_packets t \<noteq> [] \<longrightarrow> top_number t - first_number t < 16384)"

lemma report_group:
  assumes "tracker_ok ssrc t" and "span_ok t" and "ft_packets t \<noteq> []"
  shows "ok_group (report now ssrc t)" and "pi_ssrc (hd (report now ssrc t)) = ssrc"
proof -
  obtain p where "p \<in> set (ft_packets t)" using assms(3) by (cases "ft_packets t") auto
  then have "first_number t \<le> top_number t" using AddPacketsToFeedback_report(2) [OF assms(1,3)] by fastforce
  then have l: "0 < length (report now ssrc t)" "length (report now ssrc t) \<le> 16384"
    using assms(2,3) by (auto simp: report_def span_ok_def)
  have n: "pi_ssrc (report now ssrc t ! i) = ssrc \<and> pi_sequence_number (report now ssrc t ! i) = word_of_int (first_number t) + of_nat i"
    if "i < length (report now ssrc t)" for i
    using that assms(3) by (simp add: report_def nth_upto entry_def)
  show "pi_ssrc (hd (report now ssrc t)) = ssrc" using n [OF l(1)] l(1) by (simp add: hd_conv_nth)
  show "ok_group (report now ssrc t)" using l n n [OF l(1)] by (auto simp: ok_group_def hd_conv_nth)
qed

definition groups :: "timestamp \<Rightarrow> trackers \<Rightarrow> PacketInfo list list" where
  "groups now ts = filter (\<lambda>g. g \<noteq> []) (map (\<lambda>(ssrc, t). report now ssrc t) ts)"

lemma groups_ok:
  assumes "trackers_ok ts" and "\<forall>(ssrc, t) \<in> set ts. span_ok t"
  shows "ok_groups (groups now ts)" and "groups now ts \<noteq> [] \<Longrightarrow> pi_ssrc (hd (hd (groups now ts))) \<in> fst ` set ts"
    and "concat (groups now ts) = cc_packets (feedback_of c now ts)"
proof -
  have "ok_groups (groups now ts) \<and> (groups now ts \<noteq> [] \<longrightarrow> pi_ssrc (hd (hd (groups now ts))) \<in> fst ` set ts)"
    using assms
  proof (induction ts)
    case (Cons a ts)
    obtain ssrc t where a: "a = (ssrc, t)" by (cases a)
    have t: "tracker_ok ssrc t" "span_ok t" "trackers_ok ts" "\<forall>k \<in> fst ` set ts. ssrc < k"
      using Cons.prems a by (auto simp: trackers_ok_def)
    note IH = Cons.IH [OF t(3)] Cons.prems(2)
    show ?case
    proof (cases "ft_packets t = []")
      case True
      then show ?thesis using IH a by (auto simp: groups_def report_def)
    next
      case False
      note r = report_group [OF t(1,2) False, of now]
      have g: "groups now (a # ts) = report now ssrc t # groups now ts" using r(1) a by (simp add: groups_def ok_group_def)
      show ?thesis unfolding g using IH r t(4) a by fastforce
    qed
  qed (simp add: groups_def)
  then show "ok_groups (groups now ts)" "groups now ts \<noteq> [] \<Longrightarrow> pi_ssrc (hd (hd (groups now ts))) \<in> fst ` set ts" by auto
  show "concat (groups now ts) = cc_packets (feedback_of c now ts)"
    by (simp add: groups_def feedback_of_def concat_nonempty)
qed

text \<open>
  A number with a packet in the record of its tracker, and its entry in a feedback. That the packets
  that arrive get there is part of the invariant of the executions below.
\<close>

definition waiting_for_report :: "FeedbackGenerator \<Rightarrow> u32 \<Rightarrow> int \<Rightarrow> FeedbackTracker \<Rightarrow> bool" where
  "waiting_for_report g ssrc n t \<longleftrightarrow> (ssrc, t) \<in> set (fg_feedback_trackers g) \<and> n \<in> seq_of ` set (ft_packets t)"

definition reported :: "CongestionControlFeedback \<Rightarrow> u32 \<Rightarrow> u16 \<Rightarrow> time_delta \<Rightarrow> bool" where
  "reported c ssrc n offset \<longleftrightarrow> (\<exists>i \<in> set (cc_packets c). pi_ssrc i = ssrc \<and> pi_sequence_number i = n \<and> pi_arrival_time_offset i = offset)"

lemma waiting_is_reported:
  assumes "trackers_ok (fg_feedback_trackers g)" and "waiting_for_report g ssrc n t" and "close_time now"
  shows "reported (feedback_of c now (fg_feedback_trackers g)) ssrc (word_of_int n) (now - Max (arrivals t n)) \<and> arrivals t n \<noteq> {}"
proof -
  let ?s = "sort_key (\<lambda>p. (seq_of p, tp_arrival_time p)) (ft_packets t)"
  have m: "(ssrc, t) \<in> set (fg_feedback_trackers g)" "n \<in> seq_of ` set (ft_packets t)" using assms(2) by (auto simp: waiting_for_report_def)
  have t: "tracker_ok ssrc t" "times_ok t" using assms(1) m(1) by (auto simp: trackers_ok_def)
  have ne: "ft_packets t \<noteq> []" using m(2) by auto
  have a: "arrivals t n \<noteq> {}" using m(2) by (auto simp: arrivals_def copies_def)
  have "entry now (ft_history t) ssrc ?s n \<in> set (report now ssrc t)"
    using AddPacketsToFeedback_report(2) [OF t(1) ne] m(2) ne by (fastforce simp: report_def)
  then have "entry now (ft_history t) ssrc ?s n \<in> set (cc_packets (feedback_of c now (fg_feedback_trackers g)))"
    using m(1) by (force simp: feedback_of_def)
  moreover have "pi_arrival_time_offset (entry now (ft_history t) ssrc ?s n) = now - Max (arrivals t n)"
    using entry_offset [OF assms(3) t(2), of ?s ssrc n] a by simp
  ultimately show ?thesis using a unfolding reported_def by (intro conjI bexI) (auto simp: entry_def)
qed

section \<open>Executions\<close>

text \<open>
  Packets arrive, the timer fires and the controller changes the limits in any order. The events, the
  latest first: a packet arrived and got an unwrapped number from the tracker of its source, or a
  feedback was sent, read off the list of what the callback was given.
\<close>

datatype feedback_event = Arrived RtpPacketReceived int | Sent timestamp CongestionControlFeedback

definition tracker_of :: "trackers \<Rightarrow> u32 \<Rightarrow> FeedbackTracker" where
  "tracker_of ts ssrc = (case map_of ts ssrc of None \<Rightarrow> new_FeedbackTracker | Some t \<Rightarrow> t)"

definition arrival_number :: "trackers \<Rightarrow> RtpPacketReceived \<Rightarrow> int" where
  "arrival_number ts p = fst (Unwrap 0 (ft_unwrapper (tracker_of ts (rr_ssrc p))) (rr_sequence_number p))"

definition sent_events :: "timestamp \<Rightarrow> FeedbackGenerator \<Rightarrow> FeedbackGenerator \<Rightarrow> feedback_event list" where
  "sent_events now g g' = map (Sent now) (drop (length (fg_sent g)) (fg_sent g'))"

inductive feedback_run ::
  "(timestamp \<Rightarrow> u32) \<Rightarrow> (unit_value \<Rightarrow> unit_value) \<Rightarrow> FeedbackGenerator \<Rightarrow> feedback_event list \<Rightarrow> bool"
  for compact_ntp :: "timestamp \<Rightarrow> u32" and five_percent :: "unit_value \<Rightarrow> unit_value" where
  start: "feedback_run compact_ntp five_percent new_FeedbackGenerator []"
| packet: "feedback_run compact_ntp five_percent g tr \<Longrightarrow> close_time (rr_arrival_time p) \<Longrightarrow> close_time now \<Longrightarrow>
    Generator_OnReceivedPacket compact_ntp now g p = Some g' \<Longrightarrow>
    feedback_run compact_ntp five_percent g' (sent_events now g g' @ Arrived p (arrival_number (fg_feedback_trackers g) p) # tr)"
| timer: "feedback_run compact_ntp five_percent g tr \<Longrightarrow> close_time now \<Longrightarrow>
    Generator_Process compact_ntp current_time now g = Some (d, g') \<Longrightarrow>
    feedback_run compact_ntp five_percent g' (sent_events now g g' @ tr)"
| bandwidth: "feedback_run compact_ntp five_percent g tr \<Longrightarrow>
    feedback_run compact_ntp five_percent (OnSendBandwidthEstimateChanged five_percent g estimate) tr"
| overhead: "feedback_run compact_ntp five_percent g tr \<Longrightarrow> feedback_run compact_ntp five_percent (SetTransportOverhead g n) tr"

text \<open>
  The packets since the last feedback; packets of which no copy came at another time; and what a
  feedback has to say: every packet since the last one, as received, and how long ago it arrived
  if that is unambiguous. (For copies that came at different times the code reports the last
  arrival where RFC 8888 asks for the first.)
\<close>

fun unreported :: "feedback_event list \<Rightarrow> (RtpPacketReceived \<times> int) list" where
  "unreported [] = []"
| "unreported (Arrived p n # tr) = (p, n) # unreported tr"
| "unreported (Sent now f # tr) = []"

definition single_arrival :: "feedback_event list \<Rightarrow> RtpPacketReceived \<Rightarrow> int \<Rightarrow> bool" where
  "single_arrival tr p n \<longleftrightarrow> (\<forall>q. Arrived q n \<in> set tr \<and> rr_ssrc q = rr_ssrc p \<longrightarrow> rr_arrival_time q = rr_arrival_time p)"

definition lists_arrivals :: "timestamp \<Rightarrow> CongestionControlFeedback \<Rightarrow> feedback_event list \<Rightarrow> bool" where
  "lists_arrivals now f tr \<longleftrightarrow> (\<forall>(p, n) \<in> set (unreported tr). \<exists>i \<in> set (cc_packets f).
     pi_ssrc i = rr_ssrc p \<and> pi_sequence_number i = rr_sequence_number p \<and> IsFinite (pi_arrival_time_offset i) \<and>
     (single_arrival tr p n \<longrightarrow> pi_arrival_time_offset i = now - rr_arrival_time p))"

fun all_listed :: "feedback_event list \<Rightarrow> bool" where
  "all_listed [] = True"
| "all_listed (Arrived p n # tr) = all_listed tr"
| "all_listed (Sent now f # tr) = (lists_arrivals now f tr \<and> all_listed tr)"

definition run_ok :: "FeedbackGenerator \<Rightarrow> bool" where
  "run_ok g \<longleftrightarrow> trackers_ok (fg_feedback_trackers g) \<and> close_time (fg_last_feedback_sent_time g) \<and>
     fg_next_possible_feedback_send_time g \<le> fg_last_feedback_sent_time g + 250000 \<and>
     (case fg_first_arrival_time_since_feedback g of None \<Rightarrow> \<forall>(ssrc, t) \<in> set (fg_feedback_trackers g). ft_packets t = []
      | Some a \<Rightarrow> close_time a)"

lemma close_add: "close_time now \<Longrightarrow> 0 \<le> w \<Longrightarrow> w \<le> 250000 \<Longrightarrow> Timestamp_add now w = now + w"
  by (auto simp: close_time_def Timestamp_add_def infinity_defs)

lemma SendFeedback_run_ok:
  assumes "trackers_ok (fg_feedback_trackers g)" and "close_time now" and "SendFeedback compact_ntp now g = Some g'"
  shows "run_ok g'"
proof -
  obtain w where w: "fg_feedback_trackers g' = map (apsnd sent_tracker) (fg_feedback_trackers g)" "trackers_ok (fg_feedback_trackers g')"
      "fg_first_arrival_time_since_feedback g' = None" "fg_last_feedback_sent_time g' = now"
      "Millis 25 \<le> w" "w \<le> Millis 250" "fg_next_possible_feedback_send_time g' = Timestamp_add now w"
    using SendFeedback_returns [OF assms(1), of compact_ntp now] assms(3) by auto
  then show ?thesis using assms(2) close_add [of now w]
    by (auto simp: run_ok_def Millis_def FromFraction_def sent_tracker_def)
qed

lemma feedback_run_ok: "feedback_run compact_ntp five_percent g tr \<Longrightarrow> run_ok g"
proof (induction rule: feedback_run.induct)
  case start
  then show ?case by (simp add: run_ok_def new_FeedbackGenerator_def trackers_ok_def close_time_def)
next
  case (packet g tr p now g')
  let ?g = "g\<lparr>fg_marker_bit_seen := fg_marker_bit_seen g \<or> rr_marker p,
      fg_first_arrival_time_since_feedback := (case fg_first_arrival_time_since_feedback g of None \<Rightarrow> Some (rr_arrival_time p) | Some a \<Rightarrow> Some a),
      fg_feedback_trackers := received_by p (fg_feedback_trackers g)\<rparr>"
  have ok: "run_ok ?g" using packet.IH packet.hyps(2) received_by_ok by (simp add: run_ok_def split: option.splits)
  show ?case
  proof (cases "NextFeedbackTime now ?g < rr_arrival_time p")
    case True
    then have "SendFeedback compact_ntp now ?g = Some g'" using packet.hyps(4) by (simp add: Generator_OnReceivedPacket_def Let_def)
    then show ?thesis using SendFeedback_run_ok ok packet.hyps(3) by (metis run_ok_def)
  next
    case False
    then show ?thesis using ok packet.hyps(4) by (simp add: Generator_OnReceivedPacket_def Let_def)
  qed
next
  case (timer g tr now current_time d g')
  then show ?case using SendFeedback_run_ok [of g now compact_ntp g']
    by (auto simp: Generator_Process_def run_ok_def bind_eq_Some_conv split: if_splits)
next
  case (bandwidth g tr estimate)
  then show ?case by (simp add: OnSendBandwidthEstimateChanged_def run_ok_def split: option.splits)
next
  case (overhead g tr n)
  then show ?case by (simp add: SetTransportOverhead_def run_ok_def split: option.splits)
qed

section \<open>Arrivals and feedback\<close>

definition unwrapper_ok :: "u16 unwrapper \<Rightarrow> bool" where
  "unwrapper_ok u \<longleftrightarrow> (\<forall>v. last_value u = Some v \<longrightarrow> v = word_of_int (last_unwrapped u))"

lemma Unwrap_number:
  assumes "unwrapper_ok u" and "Unwrap 0 u v = (n, u')"
  shows "word_of_int n = v \<and> unwrapper_ok u'"
proof -
  have d: "word_of_int (Delta 0 l v) = v - l" for l :: u16
    by (simp add: Delta_def ForwardDiff_def Let_def wi_hom_sub [symmetric])
  have "word_of_int n = v"
  proof (cases "last_value u")
    case None
    then show ?thesis using assms(2) by (auto simp: Unwrap_def Let_def)
  next
    case (Some l)
    then have "n = last_unwrapped u + Delta 0 l v" "l = word_of_int (last_unwrapped u)"
      using assms by (auto simp: Unwrap_def unwrapper_ok_def Let_def)
    then show ?thesis using d [of l] by (simp add: wi_hom_add [symmetric] del: of_int_add)
  qed
  moreover have "unwrapper_ok u'" using assms(2) calculation by (auto simp: Unwrap_def unwrapper_ok_def Let_def)
  ultimately show ?thesis ..
qed

text \<open>What a tracker knows after a packet.\<close>

lemma remember_arrivals: "arrivals (remember p t) n \<subseteq> arrivals t n \<union> (if n = seq_of p then {tp_arrival_time p} else {})"
  by (auto simp: arrivals_def remember_def Let_def copies_def split: option.splits if_splits)

lemma ReceivedPacket_record:
  assumes "unwrapper_ok (ft_unwrapper t)" and "n = fst (Unwrap 0 (ft_unwrapper t) (rr_sequence_number p))"
  shows "word_of_int n = rr_sequence_number p" and "unwrapper_ok (ft_unwrapper (ReceivedPacket t p))"
    and "\<exists>q. ft_packets (ReceivedPacket t p) = ft_packets t @ [q] \<and> seq_of q = n \<and> tp_arrival_time q = rr_arrival_time p"
    and "arrivals (ReceivedPacket t p) m \<subseteq> arrivals t m \<union> (if m = n then {rr_arrival_time p} else {})"
proof -
  obtain u where u: "Unwrap 0 (ft_unwrapper t) (rr_sequence_number p) = (n, u)" using assms(2) by (metis prod.collapse)
  define q where "q = \<lparr>tp_ssrc = rr_ssrc p, tp_unwrapped_sequence_number = n, tp_arrival_time = rr_arrival_time p, tp_ecn = rr_ecn p\<rparr>"
  define s where "s = t\<lparr>ft_unwrapper := u, ft_last_sequence_number_in_feedback :=
    (case ft_last_sequence_number_in_feedback t of Some l \<Rightarrow> Some (if n < l + 1 then n - 1 else l) | None \<Rightarrow> None)\<rparr>"
  have r: "ReceivedPacket t p = (remember q s)\<lparr>ft_packets := ft_packets t @ [q]\<rparr>"
    using u by (simp add: ReceivedPacket_def q_def s_def Let_def)
  show "word_of_int n = rr_sequence_number p" "unwrapper_ok (ft_unwrapper (ReceivedPacket t p))"
    using Unwrap_number [OF assms(1) u] unfolding r by (simp_all add: s_def)
  show "\<exists>q. ft_packets (ReceivedPacket t p) = ft_packets t @ [q] \<and> seq_of q = n \<and> tp_arrival_time q = rr_arrival_time p"
    unfolding r by (simp add: q_def)
  have "arrivals (ReceivedPacket t p) m \<subseteq> arrivals (remember q s) m \<union> (if m = n then {rr_arrival_time p} else {})"
    unfolding r by (auto simp: arrivals_def copies_def q_def s_def split: option.splits)
  moreover have "arrivals s m = arrivals t m" by (simp add: arrivals_def s_def)
  ultimately show "arrivals (ReceivedPacket t p) m \<subseteq> arrivals t m \<union> (if m = n then {rr_arrival_time p} else {})"
    using remember_arrivals [of q s m] by (auto simp: q_def split: if_splits)
qed

lemma received_by_set:
  "sorted_wrt (<) (map fst ts) \<Longrightarrow>
    set (received_by p ts) = insert (rr_ssrc p, ReceivedPacket (tracker_of ts (rr_ssrc p)) p) {(s, t). (s, t) \<in> set ts \<and> s \<noteq> rr_ssrc p}"
proof (induction p ts rule: received_by.induct)
  case (2 p ssrc tracker ts)
  have later: "\<forall>(s, t) \<in> set ts. ssrc < s" using "2.prems" by auto
  consider "rr_ssrc p < ssrc" | "rr_ssrc p = ssrc" | "ssrc < rr_ssrc p" by force
  then show ?case
  proof cases
    case 1
    then have "\<forall>(s, t) \<in> set ((ssrc, tracker) # ts). s \<noteq> rr_ssrc p" using later by fastforce
    then have "map_of ((ssrc, tracker) # ts) (rr_ssrc p) = None" by (auto simp: map_of_eq_None_iff)
    with 1 \<open>\<forall>(s, t) \<in> _. s \<noteq> _\<close> show ?thesis by (auto simp: tracker_of_def)
  next
    case 2
    then have "\<forall>(s, t) \<in> set ts. s \<noteq> rr_ssrc p" using later by fastforce
    with 2 show ?thesis by (auto simp: tracker_of_def)
  next
    case 3
    then show ?thesis using "2.IH" "2.prems" by (auto simp: tracker_of_def)
  qed
qed (simp add: tracker_of_def)

definition trace_ok :: "FeedbackGenerator \<Rightarrow> feedback_event list \<Rightarrow> bool" where
  "trace_ok g tr \<longleftrightarrow>
     (\<forall>(p, n) \<in> set (unreported tr). word_of_int n = rr_sequence_number p \<and>
       (\<exists>t q. (rr_ssrc p, t) \<in> set (fg_feedback_trackers g) \<and> q \<in> set (ft_packets t) \<and> seq_of q = n \<and>
         tp_arrival_time q = rr_arrival_time p)) \<and>
     (\<forall>(s, t) \<in> set (fg_feedback_trackers g). unwrapper_ok (ft_unwrapper t) \<and>
       (\<forall>n. \<forall>a \<in> arrivals t n. \<exists>p. Arrived p n \<in> set tr \<and> rr_ssrc p = s \<and> rr_arrival_time p = a)) \<and>
     fg_first_arrival_time_since_feedback g =
       (if unreported tr = [] then None else Some (rr_arrival_time (fst (last (unreported tr)))))"

lemma trace_known:
  assumes "trace_ok g tr" and "(s, t) \<in> set (fg_feedback_trackers g)"
  shows "unwrapper_ok (ft_unwrapper t)"
    and "a \<in> arrivals t n \<Longrightarrow> \<exists>p. Arrived p n \<in> set tr \<and> rr_ssrc p = s \<and> rr_arrival_time p = a"
  using bspec [OF conjunct1 [OF conjunct2 [OF assms(1) [unfolded trace_ok_def]]] assms(2)] by simp_all

lemma trace_waiting:
  assumes "trace_ok g tr" and "(p, n) \<in> set (unreported tr)"
  shows "word_of_int n = rr_sequence_number p"
    and "\<exists>t q. (rr_ssrc p, t) \<in> set (fg_feedback_trackers g) \<and> q \<in> set (ft_packets t) \<and> seq_of q = n \<and>
      tp_arrival_time q = rr_arrival_time p"
  using bspec [OF conjunct1 [OF assms(1) [unfolded trace_ok_def]] assms(2)] by simp_all

text \<open>The state before a feedback lists what arrived, so the feedback does.\<close>

lemma trace_lists:
  assumes "trackers_ok (fg_feedback_trackers g)" and "trace_ok g tr" and "close_time now"
  shows "lists_arrivals now (feedback_of c now (fg_feedback_trackers g)) tr"
  unfolding lists_arrivals_def
proof (intro ballI, clarify)
  fix p n assume pn: "(p, n) \<in> set (unreported tr)"
  then obtain t q where t: "word_of_int n = rr_sequence_number p" "(rr_ssrc p, t) \<in> set (fg_feedback_trackers g)"
    "q \<in> set (ft_packets t)" "seq_of q = n" "tp_arrival_time q = rr_arrival_time p"
    using trace_waiting [OF assms(2)] by blast
  then have w: "waiting_for_report g (rr_ssrc p) n t" by (auto simp: waiting_for_report_def)
  have a: "rr_arrival_time p \<in> arrivals t n"
    unfolding arrivals_def copies_def by (intro UnI2 image_eqI [of _ _ q]) (use t(3-5) in simp_all)
  have fin: "finite (arrivals t n)" by (auto simp: arrivals_def split: option.split)
  have "times_ok t" using assms(1) t(2) by (auto simp: trackers_ok_def)
  then have "close_time v" if "v \<in> arrivals t n" for v
    using that by (auto simp: times_ok_def arrivals_def copies_def ran_def split: option.splits)
  moreover have "Max (arrivals t n) \<in> arrivals t n" using Max_in [OF fin] a by auto
  ultimately have "IsFinite (now - Max (arrivals t n))" using close_sub(2) [OF assms(3)] by blast
  moreover have "Max (arrivals t n) = rr_arrival_time p" if "single_arrival tr p n"
  proof -
    have "\<forall>b \<in> arrivals t n. b = rr_arrival_time p"
    proof
      fix b assume "b \<in> arrivals t n"
      from trace_known(2) [OF assms(2) t(2) this] obtain r where
        r: "Arrived r n \<in> set tr" "rr_ssrc r = rr_ssrc p" "rr_arrival_time r = b" by blast
      have "rr_arrival_time r = rr_arrival_time p" using that r(1,2) unfolding single_arrival_def by blast
      with r(3) show "b = rr_arrival_time p" by simp
    qed
    with a have "arrivals t n = {rr_arrival_time p}" by blast
    then show ?thesis by simp
  qed
  moreover obtain i where "i \<in> set (cc_packets (feedback_of c now (fg_feedback_trackers g)))" "pi_ssrc i = rr_ssrc p"
    "pi_sequence_number i = word_of_int n" "pi_arrival_time_offset i = now - Max (arrivals t n)"
    using waiting_is_reported [OF assms(1) w assms(3), of c] by (auto simp: reported_def)
  ultimately show "\<exists>i \<in> set (cc_packets (feedback_of c now (fg_feedback_trackers g))).
     pi_ssrc i = rr_ssrc p \<and> pi_sequence_number i = rr_sequence_number p \<and> IsFinite (pi_arrival_time_offset i) \<and>
     (single_arrival tr p n \<longrightarrow> pi_arrival_time_offset i = now - rr_arrival_time p)"
    using t(1) by (intro bexI [of _ i]) simp_all
qed

text \<open>The steps: a packet is entered, a feedback is sent.\<close>

definition entered :: "FeedbackGenerator \<Rightarrow> RtpPacketReceived \<Rightarrow> FeedbackGenerator" where
  "entered g p = g\<lparr>fg_marker_bit_seen := fg_marker_bit_seen g \<or> rr_marker p,
     fg_first_arrival_time_since_feedback := (case fg_first_arrival_time_since_feedback g of
       None \<Rightarrow> Some (rr_arrival_time p) | Some a \<Rightarrow> Some a),
     fg_feedback_trackers := received_by p (fg_feedback_trackers g)\<rparr>"

lemma OnReceivedPacket_entered:
  "Generator_OnReceivedPacket c now g p =
    (if NextFeedbackTime now (entered g p) < rr_arrival_time p then SendFeedback c now (entered g p) else Some (entered g p))"
  by (simp add: Generator_OnReceivedPacket_def entered_def Let_def)

lemma entered_trace:
  assumes "trackers_ok (fg_feedback_trackers g)" and "trace_ok g tr"
  shows "trace_ok (entered g p) (Arrived p (arrival_number (fg_feedback_trackers g) p) # tr)"
proof -
  let ?ts = "fg_feedback_trackers g" and ?s = "rr_ssrc p"
  let ?t = "tracker_of ?ts ?s" and ?n = "arrival_number ?ts p"
  have srt: "sorted_wrt (<) (map fst ?ts)" using assms(1) by (simp add: trackers_ok_def)
  have dist: "distinct (map fst ?ts)" using srt by (simp add: strict_sorted_iff)
  have u: "unwrapper_ok (ft_unwrapper ?t)"
    using assms(2) by (auto simp: tracker_of_def trace_ok_def new_FeedbackTracker_def unwrapper_ok_def new_unwrapper_def
        dest!: map_of_SomeD split: option.split)
  note r = ReceivedPacket_record [OF u, of ?n p, unfolded arrival_number_def, OF refl, folded arrival_number_def]
  have set: "set (fg_feedback_trackers (entered g p)) = insert (?s, ReceivedPacket ?t p) {(s, t). (s, t) \<in> set ?ts \<and> s \<noteq> ?s}"
    using received_by_set [OF srt] by (simp add: entered_def)
  have same: "t = ?t" if "(?s, t) \<in> set ?ts" for t
    using map_of_is_SomeI [OF dist that] by (simp add: tracker_of_def)
  have old: "\<exists>t' q. (rr_ssrc p', t') \<in> set (fg_feedback_trackers (entered g p)) \<and> q \<in> set (ft_packets t') \<and> seq_of q = n \<and>
      tp_arrival_time q = rr_arrival_time p'" if m: "(p', n) \<in> set (unreported tr)" for p' n
  proof -
    obtain t q where q: "(rr_ssrc p', t) \<in> set ?ts" "q \<in> set (ft_packets t)" "seq_of q = n" "tp_arrival_time q = rr_arrival_time p'"
      using trace_waiting(2) [OF assms(2) m] by blast
    show ?thesis
    proof (cases "rr_ssrc p' = ?s")
      case True
      then have "q \<in> set (ft_packets (ReceivedPacket ?t p))" using same q(1,2) r(3) by auto
      with True q(3,4) show ?thesis unfolding set by auto
    next
      case False
      with q show ?thesis unfolding set by auto
    qed
  qed
  have known: "\<exists>p'. Arrived p' n \<in> set (Arrived p ?n # tr) \<and> rr_ssrc p' = s \<and> rr_arrival_time p' = a"
    if m: "(s, t) \<in> set (fg_feedback_trackers (entered g p))" "a \<in> arrivals t n" for s t n a
  proof (cases "(s, t) \<in> set ?ts")
    case True
    then show ?thesis using trace_known(2) [OF assms(2) True m(2)] by auto
  next
    case False
    then have st: "s = ?s" "t = ReceivedPacket ?t p" using m(1) unfolding set by auto
    then have "a \<in> arrivals ?t n \<or> n = ?n \<and> a = rr_arrival_time p" using m(2) r(4) [of n] by (auto split: if_splits)
    moreover have "\<exists>p'. Arrived p' n \<in> set tr \<and> rr_ssrc p' = ?s \<and> rr_arrival_time p' = a" if "a \<in> arrivals ?t n"
    proof (cases "map_of ?ts ?s")
      case None
      then show ?thesis using that by (simp add: tracker_of_def arrivals_def new_FeedbackTracker_def copies_def)
    next
      case (Some t0)
      then have "(?s, ?t) \<in> set ?ts" using map_of_SomeD by (fastforce simp: tracker_of_def)
      from trace_known(2) [OF assms(2) this that] show ?thesis .
    qed
    ultimately show ?thesis using st by auto
  qed
  have new: "word_of_int ?n = rr_sequence_number p" "unwrapper_ok (ft_unwrapper (ReceivedPacket ?t p))"
    "\<exists>q \<in> set (ft_packets (ReceivedPacket ?t p)). seq_of q = ?n \<and> tp_arrival_time q = rr_arrival_time p"
    using r(1-3) by auto
  have first: "fg_first_arrival_time_since_feedback (entered g p) = Some (rr_arrival_time (fst (last ((p, ?n) # unreported tr))))"
    using assms(2) by (auto simp: entered_def trace_ok_def)
  have uns: "\<forall>(s, t) \<in> set (fg_feedback_trackers (entered g p)). unwrapper_ok (ft_unwrapper t)"
    using assms(2) new(2) unfolding set trace_ok_def by auto
  have unr: "\<forall>(p', n) \<in> set (unreported tr). word_of_int n = rr_sequence_number p'"
    using assms(2) unfolding trace_ok_def by auto
  have here: "\<exists>t' q. (?s, t') \<in> set (fg_feedback_trackers (entered g p)) \<and> q \<in> set (ft_packets t') \<and> seq_of q = ?n \<and>
      tp_arrival_time q = rr_arrival_time p"
    using new(3) unfolding set by auto
  show ?thesis unfolding trace_ok_def first
  proof (intro conjI)
    show "\<forall>(p', n) \<in> set (unreported (Arrived p ?n # tr)). word_of_int n = rr_sequence_number p' \<and>
       (\<exists>t q. (rr_ssrc p', t) \<in> set (fg_feedback_trackers (entered g p)) \<and> q \<in> set (ft_packets t) \<and> seq_of q = n \<and>
         tp_arrival_time q = rr_arrival_time p')"
      using here new(1) old unr by auto
    show "\<forall>(s, t) \<in> set (fg_feedback_trackers (entered g p)). unwrapper_ok (ft_unwrapper t) \<and>
       (\<forall>n. \<forall>a \<in> arrivals t n. \<exists>p'. Arrived p' n \<in> set (Arrived p ?n # tr) \<and> rr_ssrc p' = s \<and> rr_arrival_time p' = a)"
      using uns known by blast
  qed simp
qed

lemma sent_trace:
  assumes "trackers_ok (fg_feedback_trackers g)" and "trace_ok g tr" and "close_time now" and "SendFeedback c now g = Some g'"
  shows "\<exists>f. fg_sent g' = fg_sent g @ [f] \<and> lists_arrivals now f tr \<and> trace_ok g' (Sent now f # tr)"
proof -
  have s: "fg_sent g' = fg_sent g @ [feedback_of c now (fg_feedback_trackers g)]"
    "fg_feedback_trackers g' = map (apsnd sent_tracker) (fg_feedback_trackers g)" "fg_first_arrival_time_since_feedback g' = None"
    using SendFeedback_returns [OF assms(1), of c now] assms(4) by auto
  have st: "arrivals (sent_tracker t) n \<subseteq> arrivals t n" "ft_unwrapper (sent_tracker t) = ft_unwrapper t" for t n
    by (auto simp: sent_tracker_def arrivals_def copies_def)
  have "unwrapper_ok (ft_unwrapper t') \<and>
      (\<forall>n. \<forall>a \<in> arrivals t' n. \<exists>p. Arrived p n \<in> set (Sent now f # tr) \<and> rr_ssrc p = ssrc \<and> rr_arrival_time p = a)"
    if m: "(ssrc, t') \<in> set (fg_feedback_trackers g')" for ssrc t' f
  proof -
    obtain t where t: "t' = sent_tracker t" "(ssrc, t) \<in> set (fg_feedback_trackers g)" using m unfolding s(2) by auto
    show ?thesis using trace_known [OF assms(2) t(2)] st unfolding t(1) by (metis list.set_intros(2) subsetD)
  qed
  then have "trace_ok g' (Sent now f # tr)" for f
    unfolding trace_ok_def s(3) by auto
  then show ?thesis using s(1) trace_lists [OF assms(1-3), of c] by blast
qed

lemma feedback_run_trace: "feedback_run compact_ntp five_percent g tr \<Longrightarrow> trace_ok g tr \<and> all_listed tr"
proof (induction rule: feedback_run.induct)
  case start
  then show ?case by (simp add: trace_ok_def new_FeedbackGenerator_def)
next
  case (packet g tr p now g')
  let ?tr = "Arrived p (arrival_number (fg_feedback_trackers g) p) # tr"
  have ok: "trackers_ok (fg_feedback_trackers g)" using feedback_run_ok [OF packet.hyps(1)] by (simp add: run_ok_def)
  have e: "trackers_ok (fg_feedback_trackers (entered g p))" "trace_ok (entered g p) ?tr" "fg_sent (entered g p) = fg_sent g"
    using received_by_ok [OF ok packet.hyps(2)] entered_trace [OF ok] packet.IH by (simp_all add: entered_def)
  show ?case
  proof (cases "NextFeedbackTime now (entered g p) < rr_arrival_time p")
    case True
    then have "SendFeedback compact_ntp now (entered g p) = Some g'" using packet.hyps(4) by (simp add: OnReceivedPacket_entered)
    from sent_trace [OF e(1,2) packet.hyps(3) this] show ?thesis using packet.IH e(3) by (auto simp: sent_events_def)
  next
    case False
    then have "g' = entered g p" using packet.hyps(4) by (simp add: OnReceivedPacket_entered)
    then show ?thesis using e packet.IH by (simp add: sent_events_def)
  qed
next
  case (timer g tr now current_time d g')
  have ok: "trackers_ok (fg_feedback_trackers g)" using feedback_run_ok [OF timer.hyps(1)] by (simp add: run_ok_def)
  show ?case
  proof (cases "NextFeedbackTime current_time g \<le> now")
    case True
    then have "SendFeedback compact_ntp now g = Some g'" using timer.hyps(3) by (auto simp: Generator_Process_def bind_eq_Some_conv)
    from sent_trace [OF ok _ timer.hyps(2) this, of tr] show ?thesis using timer.IH by (auto simp: sent_events_def)
  next
    case False
    then have "g' = g" using timer.hyps(3) by (auto simp: Generator_Process_def)
    then show ?thesis using timer.IH by (simp add: sent_events_def)
  qed
next
  case (bandwidth g tr estimate)
  then show ?case by (simp add: OnSendBandwidthEstimateChanged_def trace_ok_def)
next
  case (overhead g tr n)
  then show ?case by (simp add: SetTransportOverhead_def trace_ok_def)
qed

text \<open>A number is only reported as received when it was.\<close>

lemma reported_was_received:
  assumes "trackers_ok ts" and "close_time now" and "i \<in> set (cc_packets (feedback_of c now ts))" and "IsFinite (pi_arrival_time_offset i)"
  shows "\<exists>t n. (pi_ssrc i, t) \<in> set ts \<and> pi_sequence_number i = word_of_int n \<and> arrivals t n \<noteq> {} \<and>
    pi_arrival_time_offset i = now - Max (arrivals t n)"
proof -
  obtain ssrc t where t: "(ssrc, t) \<in> set ts" "i \<in> set (report now ssrc t)" using assms(3) by (auto simp: feedback_of_def)
  then have ok: "times_ok t" using assms(1) by (auto simp: trackers_ok_def)
  let ?s = "sort_key (\<lambda>p. (seq_of p, tp_arrival_time p)) (ft_packets t)"
  obtain n where n: "i = entry now (ft_history t) ssrc ?s n" using t(2) by (auto simp: report_def split: if_splits)
  have "pi_arrival_time_offset i = (if arrivals t n = {} then MinusInfinity else now - Max (arrivals t n))"
    unfolding n by (rule entry_offset [OF assms(2) ok]) simp
  then show ?thesis using assms(4) t(1) n by (intro exI [of _ t] exI [of _ n]) (auto simp: entry_def split: if_splits)
qed

section \<open>Properties\<close>

lemma SendFeedback_lists:
  assumes "trackers_ok (fg_feedback_trackers g)" and "trace_ok g tr" and "close_time now"
  shows "\<exists>g' f. SendFeedback c now g = Some g' \<and> fg_sent g' = fg_sent g @ [f] \<and> lists_arrivals now f tr"
  using SendFeedback_returns [OF assms(1), of c now] trace_lists [OF assms, of c] by blast

text \<open>
  C18: every packet that arrives is reported. In every execution each feedback that was sent lists every
  packet that had arrived since the feedback before it, under its source and number, as received, and,
  unless copies of the packet came at different times, with exactly the time since its arrival. The
  same holds of whatever comes next: another packet is taken without a fault, and if that sends a
  feedback, it lists the packets that waited and the new one; \<open>Process\<close> sends nothing before the
  feedback is due, and one that lists the packets that waited once it is. While packets wait, it is due
  at the latest 25 ms after the first of them arrived, or 250 ms after the last feedback. (For copies
  that came at different times the code reports the last arrival, not the first as the comment says.)
\<close>

theorem received_packets_reported:
  assumes "feedback_run compact_ntp five_percent g tr" and "close_time now"
  shows "all_listed tr \<and>
    (\<forall>p. close_time (rr_arrival_time p) \<longrightarrow> (\<exists>g'. Generator_OnReceivedPacket compact_ntp now g p = Some g' \<and>
      (fg_sent g' = fg_sent g \<or> (\<exists>f. fg_sent g' = fg_sent g @ [f] \<and>
        lists_arrivals now f (Arrived p (arrival_number (fg_feedback_trackers g) p) # tr))))) \<and>
    (\<exists>d g'. Generator_Process compact_ntp current_time now g = Some (d, g') \<and>
      (now < NextFeedbackTime current_time g \<longrightarrow> g' = g) \<and>
      (NextFeedbackTime current_time g \<le> now \<longrightarrow> (\<exists>f. fg_sent g' = fg_sent g @ [f] \<and> lists_arrivals now f tr))) \<and>
    (unreported tr \<noteq> [] \<longrightarrow> NextFeedbackTime current_time g \<le>
      max (fg_last_feedback_sent_time g + 250000) (rr_arrival_time (fst (last (unreported tr))) + 25000))"
proof (intro conjI)
  have ok: "run_ok g" "trackers_ok (fg_feedback_trackers g)" using feedback_run_ok [OF assms(1)] by (auto simp: run_ok_def)
  have tr: "trace_ok g tr" "all_listed tr" using feedback_run_trace [OF assms(1)] by simp_all
  show "all_listed tr" by (rule tr(2))
  show "\<forall>p. close_time (rr_arrival_time p) \<longrightarrow> (\<exists>g'. Generator_OnReceivedPacket compact_ntp now g p = Some g' \<and>
      (fg_sent g' = fg_sent g \<or> (\<exists>f. fg_sent g' = fg_sent g @ [f] \<and>
        lists_arrivals now f (Arrived p (arrival_number (fg_feedback_trackers g) p) # tr))))"
  proof (intro allI impI)
    fix p :: RtpPacketReceived
    assume p: "close_time (rr_arrival_time p)"
    have e: "trackers_ok (fg_feedback_trackers (entered g p))" "fg_sent (entered g p) = fg_sent g"
      using received_by_ok [OF ok(2) p] by (simp_all add: entered_def)
    from SendFeedback_lists [OF e(1) entered_trace [OF ok(2) tr(1)] assms(2), of compact_ntp] e(2)
    show "\<exists>g'. Generator_OnReceivedPacket compact_ntp now g p = Some g' \<and>
      (fg_sent g' = fg_sent g \<or> (\<exists>f. fg_sent g' = fg_sent g @ [f] \<and>
        lists_arrivals now f (Arrived p (arrival_number (fg_feedback_trackers g) p) # tr)))"
      unfolding OnReceivedPacket_entered by auto
  qed
  show "\<exists>d g'. Generator_Process compact_ntp current_time now g = Some (d, g') \<and>
      (now < NextFeedbackTime current_time g \<longrightarrow> g' = g) \<and>
      (NextFeedbackTime current_time g \<le> now \<longrightarrow> (\<exists>f. fg_sent g' = fg_sent g @ [f] \<and> lists_arrivals now f tr))"
    using SendFeedback_lists [OF ok(2) tr(1) assms(2), of compact_ntp]
    by (cases "NextFeedbackTime current_time g \<le> now") (auto simp: Generator_Process_def)
  show "unreported tr \<noteq> [] \<longrightarrow> NextFeedbackTime current_time g \<le>
      max (fg_last_feedback_sent_time g + 250000) (rr_arrival_time (fst (last (unreported tr))) + 25000)"
    using ok(1) tr(1) close_add [of _ 25000]
    by (auto simp: trace_ok_def NextFeedbackTime_def run_ok_def max_time_to_wait_for_packet_with_marker_def Millis_def FromFraction_def)
qed

definition example_arrival :: RtpPacketReceived where
  "example_arrival = \<lparr>rr_ssrc = 5, rr_sequence_number = 65535, rr_marker = False, rr_arrival_time = 1000, rr_ecn = kCe\<rparr>"

lemma example_tracker:
  "ft_packets (ReceivedPacket new_FeedbackTracker example_arrival) =
     [\<lparr>tp_ssrc = 5, tp_unwrapped_sequence_number = 65535, tp_arrival_time = 1000, tp_ecn = kCe\<rparr>]"
  "ft_history (ReceivedPacket new_FeedbackTracker example_arrival) =
     [65535 \<mapsto> \<lparr>tp_ssrc = 5, tp_unwrapped_sequence_number = 65535, tp_arrival_time = 1000, tp_ecn = kCe\<rparr>]"
  "ft_last_sequence_number_in_feedback (ReceivedPacket new_FeedbackTracker example_arrival) = None"
  by (simp_all add: ReceivedPacket_def new_FeedbackTracker_def example_arrival_def Unwrap_def new_unwrapper_def remember_def Let_def kMaxHistorySize_def)

definition example_generator :: FeedbackGenerator where
  "example_generator = new_FeedbackGenerator\<lparr>fg_first_arrival_time_since_feedback := Some 1000,
     fg_feedback_trackers := [(5, ReceivedPacket new_FeedbackTracker example_arrival)]\<rparr>"

lemma example_generator_run: "feedback_run c h example_generator [Arrived example_arrival 65535]"
  and example_generator_received: "Generator_OnReceivedPacket c 1000 new_FeedbackGenerator example_arrival = Some example_generator"
proof -
  show r: "Generator_OnReceivedPacket c 1000 new_FeedbackGenerator example_arrival = Some example_generator"
    by (simp add: Generator_OnReceivedPacket_def new_FeedbackGenerator_def example_arrival_def NextFeedbackTime_def example_generator_def
        max_time_to_wait_for_packet_with_marker_def Millis_def FromFraction_def Timestamp_add_def infinity_defs)
  have n: "arrival_number (fg_feedback_trackers new_FeedbackGenerator) example_arrival = 65535"
    by (simp add: arrival_number_def tracker_of_def new_FeedbackGenerator_def new_FeedbackTracker_def Unwrap_def new_unwrapper_def example_arrival_def)
  have "fg_sent example_generator = []" by (simp add: example_generator_def new_FeedbackGenerator_def)
  then show "feedback_run c h example_generator [Arrived example_arrival 65535]"
    using feedback_run.packet [OF feedback_run.start _ _ r, of h] n
    by (simp add: sent_events_def example_arrival_def close_time_def)
qed

lemma example_listed:
  assumes "lists_arrivals 30000 f [Arrived example_arrival 65535]"
  shows "\<exists>i \<in> set (cc_packets f). pi_ssrc i = 5 \<and> pi_sequence_number i = 65535 \<and> pi_arrival_time_offset i = 29000"
  using assms by (auto simp: lists_arrivals_def single_arrival_def example_arrival_def)

theorem received_packets_reported_witness:
  "\<exists>g d g' f. Generator_OnReceivedPacket (\<lambda>_. 0) 1000 new_FeedbackGenerator example_arrival = Some g \<and>
    Generator_Process (\<lambda>_. 0) 30000 30000 g = Some (d, g') \<and> fg_sent g' = [f] \<and>
    (\<exists>i \<in> set (cc_packets f). pi_ssrc i = 5 \<and> pi_sequence_number i = 65535 \<and> pi_arrival_time_offset i = 29000)"
proof -
  have n: "NextFeedbackTime 30000 example_generator \<le> 30000"
    by (simp add: NextFeedbackTime_def example_generator_def new_FeedbackGenerator_def
        max_time_to_wait_for_packet_with_marker_def Millis_def FromFraction_def Timestamp_add_def infinity_defs)
  have "close_time 30000" by (simp add: close_time_def)
  from received_packets_reported [OF example_generator_run [of "\<lambda>_. 0" "\<lambda>x. x"] this, of 30000] n
  obtain d g' f where "Generator_Process (\<lambda>_. 0) 30000 30000 example_generator = Some (d, g')"
    "fg_sent g' = fg_sent example_generator @ [f]" "lists_arrivals 30000 f [Arrived example_arrival 65535]"
    by blast
  then show ?thesis using example_generator_received example_listed by (auto simp: example_generator_def new_FeedbackGenerator_def)
qed

text \<open>
  What the writer relies on in the floating-point scaling: the units are not negative, and exact to
  one unit for offsets up to eight seconds, the range of the 13-bit code.
\<close>

definition scaling_exact :: "(time_delta \<Rightarrow> int) \<Rightarrow> bool" where
  "scaling_exact scaled \<longleftrightarrow> scaling scaled \<and> (\<forall>d. 0 \<le> d \<and> d \<le> 8000000 \<longrightarrow> \<bar>scaled d * 1000000 - 1024 * d\<bar> \<le> 1000000)"

lemma wire_offset:
  assumes "scaling_exact scaled" and "0 \<le> d" and "d \<le> 7990000" and "pi_arrival_time_offset i = d"
  shows "\<bar>pi_arrival_time_offset (wire_info scaled i) - d\<bar> \<le> 978"
proof -
  have f: "IsFinite d" using assms(2,3) by (simp add: infinity_defs)
  have "\<bar>scaled d * 1000000 - 1024 * d\<bar> \<le> 1000000" "0 \<le> scaled d" using assms(1-3) by (auto simp: scaling_exact_def scaling_def)
  moreover from this(1) have "scaled d < 0x1FFE" using assms(3) by linarith
  ultimately show ?thesis using ato_precision [OF assms(2), of scaled] f assms(4) by (simp add: wire_info_def)
qed

lemma wire_info_same [simp]:
  "pi_ssrc (wire_info scaled i) = pi_ssrc i" "pi_sequence_number (wire_info scaled i) = pi_sequence_number i"
  by (simp_all add: wire_info_def)

text \<open>
  C17: what the sender learns is when its packets arrived. A feedback that is sent in any reachable
  state, whose sources each span at most 16384 numbers and whose block fits, is serialised and
  parsed back by the other side, and there every packet that arrived since the last feedback is
  listed under its source and number. Unless copies of it came at different times, its delay is the
  time since its arrival, right to 978 microseconds, if that is less than 7.99 seconds.
\<close>

theorem feedback_reaches_sender:
  assumes "feedback_run compact_ntp five_percent g tr" and "close_time now"
    and "\<forall>(ssrc, t) \<in> set (fg_feedback_trackers g). span_ok t" and "scaling_exact scaled" and "ready max_length s"
    and "12 + groups_length (groups now (fg_feedback_trackers g)) \<le> max_length" and "max_length \<le> 65536"
  shows "\<exists>g' f s' b h c. SendFeedback compact_ntp now g = Some g' \<and> fg_sent g' = fg_sent g @ [f] \<and>
    Ccfb_Create scaled f max_length s = Some (True, s') \<and> emits max_length s [b] s' \<and>
    RtcpCommonHeader_Parse new_header b (length b) = Some (True, h) \<and> Ccfb_Parse new_CongestionControlFeedback h = Some (True, c) \<and>
    cc_report_timestamp_compact_ntp c = compact_ntp now \<and>
    (\<forall>(p, n) \<in> set (unreported tr). \<exists>i \<in> set (cc_packets c). pi_ssrc i = rr_ssrc p \<and> pi_sequence_number i = rr_sequence_number p \<and>
      (single_arrival tr p n \<and> 0 \<le> now - rr_arrival_time p \<and> now - rr_arrival_time p \<le> 7990000 \<longrightarrow>
        \<bar>pi_arrival_time_offset i - (now - rr_arrival_time p)\<bar> \<le> 978))"
proof -
  let ?ts = "fg_feedback_trackers g"
  let ?f = "feedback_of compact_ntp now ?ts"
  have ok: "trackers_ok ?ts" using feedback_run_ok [OF assms(1)] by (simp add: run_ok_def)
  note gs = groups_ok [OF ok assms(3), of now]
  have sc: "scaling scaled" using assms(4) by (simp add: scaling_exact_def)
  have "max_length < 2 ^ 64" using assms(7) by simp
  then obtain s' where s': "Ccfb_Create scaled ?f max_length s = Some (True, s')" "emits max_length s [ccfb_block scaled ?f (groups now ?ts)] s'"
    using Ccfb_Create_emits [OF assms(5) gs(1) gs(3) [of compact_ntp, symmetric], of scaled] assms(6) by auto
  have "groups_length (groups now ?ts) < 4 * 65000" using assms(6,7) by simp
  from ccfb_block_Parse [OF gs(1) sc this order_refl, of new_header ?f "[]"]
  obtain h where h: "RtcpCommonHeader_Parse new_header (ccfb_block scaled ?f (groups now ?ts)) (length (ccfb_block scaled ?f (groups now ?ts))) = Some (True, h)"
      "Ccfb_Parse new_CongestionControlFeedback h = Some (True, ?f\<lparr>cc_packets := map (wire_info scaled) (concat (groups now ?ts))\<rparr>)"
    by auto
  obtain g' where g': "SendFeedback compact_ntp now g = Some g'" "fg_sent g' = fg_sent g @ [?f]"
    using SendFeedback_returns [OF ok, of compact_ntp now] by auto
  have L: "lists_arrivals now ?f tr" using trace_lists [OF ok _ assms(2)] feedback_run_trace [OF assms(1)] by blast
  have "\<exists>i \<in> set (map (wire_info scaled) (concat (groups now ?ts))). pi_ssrc i = rr_ssrc p \<and> pi_sequence_number i = rr_sequence_number p \<and>
      (single_arrival tr p n \<and> 0 \<le> now - rr_arrival_time p \<and> now - rr_arrival_time p \<le> 7990000 \<longrightarrow>
        \<bar>pi_arrival_time_offset i - (now - rr_arrival_time p)\<bar> \<le> 978)" if "(p, n) \<in> set (unreported tr)" for p n
  proof -
    obtain i where i: "i \<in> set (cc_packets ?f)" "pi_ssrc i = rr_ssrc p" "pi_sequence_number i = rr_sequence_number p"
      "single_arrival tr p n \<longrightarrow> pi_arrival_time_offset i = now - rr_arrival_time p"
      using L \<open>(p, n) \<in> _\<close> unfolding lists_arrivals_def by fastforce
    have "wire_info scaled i \<in> set (map (wire_info scaled) (concat (groups now ?ts)))" using i(1) gs(3) [of compact_ntp] by simp
    then show ?thesis using i wire_offset [OF assms(4)] by (intro bexI [of _ "wire_info scaled i"]) auto
  qed
  then show ?thesis using g' s' h
    by (intro exI conjI) (assumption | simp add: feedback_of_def | blast)+
qed

theorem feedback_reaches_sender_witness:
  "\<exists>g' f h c i. SendFeedback (\<lambda>_. 9) 30000 example_generator = Some g' \<and> fg_sent g' = [f] \<and>
    Ccfb_Parse new_CongestionControlFeedback h = Some (True, c) \<and>
    i \<in> set (cc_packets c) \<and> pi_ssrc i = 5 \<and> pi_sequence_number i = 65535 \<and> \<bar>pi_arrival_time_offset i - 29000\<bar> \<le> 978"
proof -
  let ?t = "ReceivedPacket new_FeedbackTracker example_arrival" and ?s = "\<lparr>w_packet = replicate 1500 0, w_index = 0, w_ready = []\<rparr>"
  note t = example_tracker
  have g: "fg_feedback_trackers example_generator = [(5, ?t)]" "fg_sent example_generator = []"
    by (simp_all add: example_generator_def new_FeedbackGenerator_def)
  have fn: "first_number ?t = 65535" "top_number ?t = 65535" by (simp_all add: first_number_def top_number_def t)
  have sp: "\<forall>(ssrc, t) \<in> set (fg_feedback_trackers example_generator). span_ok t" by (simp add: g span_ok_def fn)
  have len: "12 + groups_length (groups 30000 (fg_feedback_trackers example_generator)) \<le> 1200"
    by (simp add: g groups_def report_def fn t groups_length_def)
  have sc: "scaling_exact (\<lambda>d. d * 1024 div 1000000)"
    unfolding scaling_exact_def scaling_def by (auto intro!: pos_imp_zdiv_nonneg_iff [THEN iffD2])
  have r: "close_time 30000" "ready 1200 ?s" by (simp_all add: close_time_def ready_def)
  have a: "rr_ssrc example_arrival = 5" "rr_sequence_number example_arrival = 65535" "rr_arrival_time example_arrival = 1000"
    "single_arrival [Arrived example_arrival 65535] example_arrival 65535"
    by (simp_all add: example_arrival_def single_arrival_def)
  from feedback_reaches_sender [OF example_generator_run [of "\<lambda>_. 9" "\<lambda>x. x"] r(1) sp sc r(2) len] a g(2)
  show ?thesis by fastforce
qed

end
