(* ===== verification/Demux.thy ===== *)
theory Demux
  imports VideoSender CcFeedback
begin

text \<open>
  What a transport does with a datagram from the network, \<open>src/transport/ice_transport.cpp\<close>: the tests
  that tell RTCP from RTP and the media from one another, the walk over a compound RTCP packet, and
  the calls into the transport controller. The controller is where the calls go: \<open>tr_calls\<close> are the
  calls made, in order, and \<open>tr_controller\<close> says that it exists. Its handlers for requests of the
  other side (\<open>src/transport/ice_transport_controller.cpp\<close>) come after.

  The datagram is the list of the bytes received; reading past it is the value \<open>None\<close>. Decryption is
  the argument \<open>decrypt\<close> (libsrtp), the readings of the monotonic and the wall clock
  for the report blocks of a datagram are \<open>clock 0\<close>, \<open>clock 1\<close> and so on.
\<close>

section \<open>Classification\<close>

definition PT_OPUS :: byte where "PT_OPUS = 111"
definition PT_DATA :: byte where "PT_DATA = 120"
definition PT_KCP :: byte where "PT_KCP = 121"

definition CheckIsRtpPacket :: "byte list \<Rightarrow> byte option" where
  "CheckIsRtpPacket b =
     (if length b < kFixedHeaderSize then Some 0
      else do {
        x0 \<leftarrow> rd b 0;
        if drop_bit 6 x0 AND 3 \<noteq> 2 then Some 0
        else do {
          x1 \<leftarrow> rd b 1;
          let pt = x1 AND 0x7F in
          Some (if pt \<in> {96, 99, PT_OPUS, PT_RTX, PT_DATA, PT_KCP} \<or> pt \<in> {96 - 1, 99 - 1, PT_OPUS - 1} then pt else 0) } })"

definition CheckIsRtcpPacket :: "byte list \<Rightarrow> byte option" where
  "CheckIsRtcpPacket b =
     (if length b < 4 then Some 0
      else do {
        x0 \<leftarrow> rd b 0;
        if drop_bit 6 x0 AND 3 \<noteq> 2 then Some 0
        else do { pt \<leftarrow> rd b 1; Some (if 192 \<le> pt \<and> pt \<le> 223 then pt else 0) } })"

text \<open>\<open>CheckIsVideoPacket\<close>, \<open>CheckIsAudioPacket\<close> and \<open>CheckIsDataPacket\<close> differ in the payload types.\<close>

definition check_payload_type :: "byte set \<Rightarrow> byte list \<Rightarrow> byte option" where
  "check_payload_type pts b =
     (if length b < 4 then Some 0
      else do {
        x0 \<leftarrow> rd b 0;
        if drop_bit 6 x0 AND 3 \<noteq> 2 then Some 0
        else do { x1 \<leftarrow> rd b 1; let pt = x1 AND 0x7F in Some (if pt \<in> pts then pt else 0) } })"

definition CheckIsVideoPacket :: "byte list \<Rightarrow> byte option" where
  "CheckIsVideoPacket = check_payload_type {96, 96 - 1, 97, 97 - 1, 98, 98 - 1, 99, 99 - 1, PT_RTX}"
definition CheckIsAudioPacket :: "byte list \<Rightarrow> byte option" where
  "CheckIsAudioPacket = check_payload_type {PT_OPUS}"
definition CheckIsDataPacket :: "byte list \<Rightarrow> byte option" where
  "CheckIsDataPacket = check_payload_type {PT_DATA, PT_KCP}"

definition GetRtpSsrc :: "byte list \<Rightarrow> u32 option" where
  "GetRtpSsrc b = (if length b \<ge> 12 then ReadBigEndian4 b 8 else Some 0)"

section \<open>State\<close>

datatype TransportCall =
    SenderReportCall SenderReport
  | ReceiverReportCall "RtcpReportBlock list"
  | FeedbackCall CongestionControlFeedback
  | NackCall u32 "u16 list"
  | FirCall u32
  | VideoCall "byte list" u32
  | AudioCall "byte list" u32
  | DataCall "byte list" u32
  | DataAckCall "byte list" u32 string

record IceTransport =
  tr_is_closed :: bool
  tr_enable_srtp :: bool
  tr_controller :: bool
  tr_clock :: SystemClock
  tr_data_senders_ssrc :: "(string \<times> u32) list"
  tr_calls :: "TransportCall list"

definition call :: "TransportCall \<Rightarrow> IceTransport \<Rightarrow> IceTransport" where
  "call c t = t\<lparr>tr_calls := tr_calls t @ [c]\<rparr>"

record RtcpPacketInfo =
  ri_remote_ssrc :: u32
  ri_report_block_datas :: "RtcpReportBlock list"
  ri_rtt :: "int option"

definition new_RtcpPacketInfo :: RtcpPacketInfo where
  "new_RtcpPacketInfo = \<lparr>ri_remote_ssrc = 0, ri_report_block_datas = [], ri_rtt = None\<rparr>"

section \<open>The blocks of a compound packet\<close>

definition HandleReportBlock :: "(nat \<Rightarrow> int \<times> int) \<Rightarrow> IceTransport \<Rightarrow> RtcpReportBlock \<Rightarrow> u32 \<Rightarrow> RtcpPacketInfo \<Rightarrow> RtcpPacketInfo" where
  "HandleReportBlock clock t report_block remote_ssrc info =
     (let (now_us, utc_ns) = clock (length (ri_report_block_datas info));
          now_ntp = MonotonicTimeUsToNtp (tr_clock t) now_us;
          d = RtcpReportBlock_SetReportBlock new_report_block remote_ssrc report_block (NtpToUtcTimeUs utc_ns now_ntp) now_us in
      if rb_last_sr report_block \<noteq> 0 then
        let rtt_ntp = CompactNtp now_ntp - rb_delay_since_last_sr report_block - rb_last_sr report_block;
            rtt = CompactNtpIntervalToMilliseconds rtt_ntp in
        info\<lparr>ri_rtt := Some rtt, ri_report_block_datas := ri_report_block_datas info @ [AddRoundTripTimeSample d rtt]\<rparr>
      else info\<lparr>ri_report_block_datas := ri_report_block_datas info @ [d]\<rparr>)"

text \<open>A handler gives whether the block is valid, the transport and the information gathered.\<close>

definition HandleSenderReport :: "SenderReport \<Rightarrow> RtcpCommonHeader \<Rightarrow> RtcpPacketInfo \<Rightarrow> IceTransport \<Rightarrow> (bool \<times> RtcpPacketInfo \<times> IceTransport) option" where
  "HandleSenderReport object block info t = do {
     (ok, sender_report) \<leftarrow> SenderReport_Parse object block;
     if \<not> ok then Some (False, info, t)
     else Some (True, info, if tr_controller t then call (SenderReportCall sender_report) t else t) }"

definition HandleReceiverReport :: "(nat \<Rightarrow> int \<times> int) \<Rightarrow> ReceiverReport \<Rightarrow> RtcpCommonHeader \<Rightarrow> RtcpPacketInfo \<Rightarrow> IceTransport \<Rightarrow> (bool \<times> RtcpPacketInfo \<times> IceTransport) option" where
  "HandleReceiverReport clock object block info t = do {
     (n, receiver_report) \<leftarrow> ReceiverReport_Parse object block;
     if n = 0 then Some (False, info, t)
     else
       let remote_ssrc = rr_sender_ssrc receiver_report;
           info = info\<lparr>ri_remote_ssrc := remote_ssrc\<rparr> in
       Some (True, foldl (\<lambda>info b. HandleReportBlock clock t b remote_ssrc info) info (rr_reports receiver_report), t) }"

definition HandleCongestionControlFeedback :: "RtcpCommonHeader \<Rightarrow> RtcpPacketInfo \<Rightarrow> IceTransport \<Rightarrow> (bool \<times> RtcpPacketInfo \<times> IceTransport) option" where
  "HandleCongestionControlFeedback block info t = do {
     (ok, feedback) \<leftarrow> Ccfb_Parse new_CongestionControlFeedback block;
     if \<not> ok \<or> cc_packets feedback = [] then Some (False, info, t)
     else Some (True, info, if tr_controller t then call (FeedbackCall feedback) t else t) }"

definition HandleNack :: "RtcpCommonHeader \<Rightarrow> RtcpPacketInfo \<Rightarrow> IceTransport \<Rightarrow> (bool \<times> RtcpPacketInfo \<times> IceTransport) option" where
  "HandleNack block info t = do {
     (ok, nack) \<leftarrow> Nack_Parse new_Nack block;
     if \<not> ok then Some (False, info, t)
     else if tr_controller t then Some (True, info, call (NackCall (nack_media_ssrc nack) (packet_ids nack)) t)
     else Some (False, info, t) }"

definition HandleFir :: "RtcpCommonHeader \<Rightarrow> RtcpPacketInfo \<Rightarrow> IceTransport \<Rightarrow> (bool \<times> RtcpPacketInfo \<times> IceTransport) option" where
  "HandleFir block info t = do {
     (ok, fir) \<leftarrow> Fir_Parse new_Fir block;
     if \<not> ok then Some (False, info, t)
     else if tr_controller t then Some (True, info, foldl (\<lambda>t r. call (FirCall (req_ssrc r)) t) t (fir_items fir))
     else Some (False, info, t) }"

text \<open>The \<open>switch\<close> over the type of a block; types and formats that are not known are valid.\<close>

definition handle_block :: "(nat \<Rightarrow> int \<times> int) \<Rightarrow> SenderReport \<Rightarrow> ReceiverReport \<Rightarrow> RtcpCommonHeader \<Rightarrow> RtcpPacketInfo \<Rightarrow> IceTransport \<Rightarrow> (bool \<times> RtcpPacketInfo \<times> IceTransport) option" where
  "handle_block clock sr rr block info t =
     (if hdr_packet_type block = RTCP_TYPE_SR then HandleSenderReport sr block info t
      else if hdr_packet_type block = RTCP_TYPE_RR then HandleReceiverReport clock rr block info t
      else if hdr_packet_type block = kRtpfbPacketType then
        (if unat (hdr_count_or_format block) = kCcfbFeedbackMessageType then HandleCongestionControlFeedback block info t
         else if unat (hdr_count_or_format block) = kNackFeedbackMessageType then HandleNack block info t
         else Some (True, info, t))
      else if hdr_packet_type block = kFirPacketType then
        (if unat (hdr_count_or_format block) = kFirFeedbackMessageType then HandleFir block info t else Some (True, info, t))
      else Some (True, info, t))"

function parse_blocks :: "(nat \<Rightarrow> int \<times> int) \<Rightarrow> SenderReport \<Rightarrow> ReceiverReport \<Rightarrow> byte list \<Rightarrow> nat \<Rightarrow> bool \<Rightarrow> RtcpPacketInfo \<Rightarrow> IceTransport \<Rightarrow>
    (bool \<times> bool \<times> RtcpPacketInfo \<times> IceTransport) option" where
  "parse_blocks clock sr rr next_block remaining valid info t =
     (if remaining = 0 then Some (True, valid, info, t)
      else do {
        (ok, block) \<leftarrow> RtcpCommonHeader_Parse new_header next_block remaining;
        if \<not> ok then Some (False, False, info, t)
        else
          let block_size = packet_size block in
          if block_size = 0 \<or> block_size > remaining then Some (False, False, info, t)
          else do {
            (block_valid, info, t) \<leftarrow> handle_block clock sr rr block info t;
            next_block \<leftarrow> NextPacket block;
            parse_blocks clock sr rr next_block (remaining - block_size) (valid \<and> block_valid) info t } })"
  by pat_completeness auto
termination
  by (relation "measure (\<lambda>(c, sr, rr, b, n, v, i, t). n)") auto

declare parse_blocks.simps [simp del]

text \<open>\<open>ParseRtcpPacket\<close>; the first flag of \<open>parse_blocks\<close> is false when it returned early.\<close>

definition ParseRtcpPacket :: "(nat \<Rightarrow> int \<times> int) \<Rightarrow> SenderReport \<Rightarrow> ReceiverReport \<Rightarrow> byte list \<Rightarrow> IceTransport \<Rightarrow> (bool \<times> IceTransport) option" where
  "ParseRtcpPacket clock sr rr buffer t =
     (if buffer = [] then Some (False, t)
      else do {
        (whole, valid, info, t) \<leftarrow> parse_blocks clock sr rr buffer (length buffer) True new_RtcpPacketInfo t;
        if \<not> whole then Some (False, t)
        else Some (valid, if valid \<and> tr_controller t \<and> ri_report_block_datas info \<noteq> []
          then call (ReceiverReportCall (ri_report_block_datas info)) t else t) })"

section \<open>A datagram\<close>

text \<open>
  The media; \<open>data_senders_ssrc_\<close> tells acknowledgements of data from data. Where the handlers of the
  control messages test the pointer to the controller, the media and the decryption use it without a
  test: without a controller they fault.
\<close>

definition controller_call :: "TransportCall \<Rightarrow> IceTransport \<Rightarrow> IceTransport option" where
  "controller_call c t = (if tr_controller t then Some (call c t) else None)"

definition dispatch_media :: "byte list \<Rightarrow> u32 \<Rightarrow> IceTransport \<Rightarrow> IceTransport option" where
  "dispatch_media b ssrc t = do {
     video \<leftarrow> CheckIsVideoPacket b;
     audio \<leftarrow> CheckIsAudioPacket b;
     data \<leftarrow> CheckIsDataPacket b;
     if video \<noteq> 0 then controller_call (VideoCall b ssrc) t
     else if audio \<noteq> 0 then controller_call (AudioCall b ssrc) t
     else if data \<noteq> 0 then
       (case find (\<lambda>kv. snd kv = ssrc) (tr_data_senders_ssrc t) of
          Some kv \<Rightarrow> controller_call (DataAckCall b ssrc (fst kv)) t
        | None \<Rightarrow> controller_call (DataCall b ssrc) t)
     else Some t }"

definition OnReceiveBuffer :: "(byte list \<Rightarrow> (byte list \<times> u32) option) \<Rightarrow> (nat \<Rightarrow> int \<times> int) \<Rightarrow> SenderReport \<Rightarrow> ReceiverReport \<Rightarrow> IceTransport \<Rightarrow> byte list \<Rightarrow> IceTransport option" where
  "OnReceiveBuffer decrypt clock sr rr t b =
     (if tr_is_closed t then Some t
      else do {
        rtcp \<leftarrow> CheckIsRtcpPacket b;
        if rtcp \<noteq> 0 then map_option snd (ParseRtcpPacket clock sr rr b t)
        else if tr_enable_srtp t then do {
          audio \<leftarrow> CheckIsAudioPacket b;
          data \<leftarrow> CheckIsDataPacket b;
          if audio = 0 \<and> data = 0 then
            (if \<not> tr_controller t then None
             else case decrypt b of
               None \<Rightarrow> do { _ \<leftarrow> rd b 1; Some t }
             | Some (b, ssrc) \<Rightarrow> dispatch_media b ssrc t)
          else do { ssrc \<leftarrow> GetRtpSsrc b; dispatch_media b ssrc t } }
        else do {
          rtp \<leftarrow> CheckIsRtpPacket b;
          if rtp = 0 then do { _ \<leftarrow> rd b 1; Some t }
          else do { ssrc \<leftarrow> GetRtpSsrc b; dispatch_media b ssrc t } } })"

section \<open>Any datagram\<close>

text \<open>A transport that differs in the calls made only, by control calls.\<close>

fun control_call :: "TransportCall \<Rightarrow> bool" where
  "control_call (VideoCall b ssrc) = False"
| "control_call (AudioCall b ssrc) = False"
| "control_call (DataCall b ssrc) = False"
| "control_call (DataAckCall b ssrc name) = False"
| "control_call c = True"

definition calls_more :: "(TransportCall list \<Rightarrow> bool) \<Rightarrow> IceTransport \<Rightarrow> IceTransport \<Rightarrow> bool" where
  "calls_more P t t' \<longleftrightarrow> (\<exists>cs. t' = t\<lparr>tr_calls := tr_calls t @ cs\<rparr> \<and> P cs)"

lemma calls_more_refl: "P [] \<Longrightarrow> calls_more P t t"
  by (auto simp: calls_more_def intro!: exI [of _ "[]"])

lemma calls_more_call: "P [c] \<Longrightarrow> calls_more P t (call c t)"
  by (auto simp: calls_more_def call_def)

lemma calls_more_trans:
  "calls_more (list_all control_call) t t' \<Longrightarrow> calls_more (list_all control_call) t' t'' \<Longrightarrow> calls_more (list_all control_call) t t''"
  by (auto simp: calls_more_def)

lemma foldl_calls: "(\<And>r. control_call (f r)) \<Longrightarrow> calls_more (list_all control_call) t (foldl (\<lambda>t r. call (f r) t) t rs)"
proof (induction rs arbitrary: t)
  case (Cons r rs)
  show ?case unfolding foldl_Cons
    by (rule calls_more_trans [OF calls_more_call Cons.IH]) (simp_all add: Cons.prems)
qed (simp add: calls_more_refl)

lemma handle_block_total:
  assumes "RtcpCommonHeader_Parse h b n = Some (True, block)" and "n \<le> length b"
  shows "\<exists>v info' t'. handle_block clock sr rr block info t = Some (v, info', t') \<and> calls_more (list_all control_call) t t'"
proof -
  note S = report_Parse_safe [OF assms, of sr rr] and F = feedback_Parse_safe [OF assms, of new_Nack new_Fir]
    and C = Ccfb_Parse_safe [OF assms, of new_CongestionControlFeedback]
  note c = calls_more_refl [of "list_all control_call"] calls_more_call [of "list_all control_call"] foldl_calls
  have "\<exists>v info' t'. HandleSenderReport sr block info t = Some (v, info', t') \<and> calls_more (list_all control_call) t t'"
    using S c by (auto simp: HandleSenderReport_def)
  moreover have "\<exists>v info' t'. HandleReceiverReport clock rr block info t = Some (v, info', t') \<and> calls_more (list_all control_call) t t'"
    using S c by (auto simp: HandleReceiverReport_def Let_def)
  moreover have "\<exists>v info' t'. HandleCongestionControlFeedback block info t = Some (v, info', t') \<and> calls_more (list_all control_call) t t'"
    using C c by (auto simp: HandleCongestionControlFeedback_def)
  moreover have "\<exists>v info' t'. HandleNack block info t = Some (v, info', t') \<and> calls_more (list_all control_call) t t'"
    using F c by (auto simp: HandleNack_def)
  moreover have "\<exists>v info' t'. HandleFir block info t = Some (v, info', t') \<and> calls_more (list_all control_call) t t'"
  proof -
    obtain ok f where "Fir_Parse new_Fir block = Some (ok, f)" using F by blast
    then show ?thesis using c(1) [of t] c(3) [of "\<lambda>r. FirCall (req_ssrc r)" t "fir_items f"]
      by (cases ok; cases "tr_controller t") (auto simp: HandleFir_def ex_bool_eq)
  qed
  ultimately show ?thesis using c(1) [of t] unfolding handle_block_def by (auto split: if_split)
qed

lemma parse_blocks_total:
  assumes "remaining \<le> length next_block"
  shows "\<exists>w v info' t'. parse_blocks clock sr rr next_block remaining valid info t = Some (w, v, info', t') \<and>
    calls_more (list_all control_call) t t'"
  using assms
proof (induction clock sr rr next_block remaining valid info t rule: parse_blocks.induct)
  case (1 clock sr rr next_block remaining valid info t)
  note same = calls_more_refl [of "list_all control_call" t, simplified]
  obtain ok h where h: "RtcpCommonHeader_Parse new_header next_block remaining = Some (ok, h)"
      "ok \<longrightarrow> 4 \<le> packet_size h \<and> packet_size h \<le> remaining \<and> NextPacket h = Some (drop (packet_size h) next_block)"
    using RtcpCommonHeader_Parse_safe [OF "1.prems", of new_header] by blast
  show ?case
  proof (cases "remaining = 0 \<or> \<not> ok")
    case True
    then show ?thesis using h(1) same by (subst parse_blocks.simps) auto
  next
    case False
    then have ok: "4 \<le> packet_size h" "packet_size h \<le> remaining" "NextPacket h = Some (drop (packet_size h) next_block)" "remaining \<noteq> 0"
        "RtcpCommonHeader_Parse new_header next_block remaining = Some (True, h)" using h by auto
    obtain v info' t1 where b: "handle_block clock sr rr h info t = Some (v, info', t1)" "calls_more (list_all control_call) t t1"
      using handle_block_total [OF ok(5) "1.prems"] by blast
    have d: "remaining - packet_size h \<le> length (drop (packet_size h) next_block)" using "1.prems" by simp
    obtain w v' i t2 where r: "parse_blocks clock sr rr (drop (packet_size h) next_block) (remaining - packet_size h) (valid \<and> v) info' t1 = Some (w, v', i, t2)"
        "calls_more (list_all control_call) t1 t2"
      using "1.IH" [OF ok(4,5) refl _ refl _ b(1) refl refl ok(3) d] ok(1,2) by auto
    then show ?thesis using ok b calls_more_trans [OF b(2) r(2)] by (subst parse_blocks.simps) (auto simp: Let_def)
  qed
qed

lemma ParseRtcpPacket_total:
  "\<exists>v t'. ParseRtcpPacket clock sr rr b t = Some (v, t') \<and> calls_more (list_all control_call) t t'"
proof (cases "b = []")
  case True
  then show ?thesis using calls_more_refl [of "list_all control_call" t] by (auto simp: ParseRtcpPacket_def)
next
  case False
  obtain w v info t1 where p: "parse_blocks clock sr rr b (length b) True new_RtcpPacketInfo t = Some (w, v, info, t1)"
      "calls_more (list_all control_call) t t1"
    using parse_blocks_total [OF order_refl] by blast
  have "calls_more (list_all control_call) t (call (ReceiverReportCall r) t1)" for r
    by (rule calls_more_trans [OF p(2) calls_more_call]) simp
  then show ?thesis using False p by (auto simp: ParseRtcpPacket_def)
qed

lemma rd_total: "i < length b \<Longrightarrow> \<exists>x. rd b i = Some x"
  by (simp add: rd_def)

lemma check_payload_type_total: "\<exists>x. check_payload_type pts b = Some x"
  by (cases "length b < 4") (auto simp: check_payload_type_def rd_def Let_def)

lemma CheckIsRtcpPacket_total: "\<exists>x. CheckIsRtcpPacket b = Some x"
  by (cases "length b < 4") (auto simp: CheckIsRtcpPacket_def rd_def)

lemma CheckIsRtpPacket_total: "\<exists>x. CheckIsRtpPacket b = Some x"
  by (cases "length b < kFixedHeaderSize") (auto simp: CheckIsRtpPacket_def kFixedHeaderSize_def rd_def Let_def)

lemma GetRtpSsrc_total: "\<exists>x. GetRtpSsrc b = Some x"
  using be32.dec_total [of 8 b] by (auto simp: GetRtpSsrc_def)

lemmas check_total = check_payload_type_total CheckIsRtcpPacket_total CheckIsRtpPacket_total GetRtpSsrc_total

definition one_media_call :: "TransportCall list \<Rightarrow> bool" where
  "one_media_call cs \<longleftrightarrow> cs = [] \<or> (\<exists>c. cs = [c] \<and> \<not> control_call c)"

lemma dispatch_media_total:
  assumes "tr_controller t"
  shows "\<exists>t'. dispatch_media b ssrc t = Some t' \<and> calls_more one_media_call t t'"
proof -
  obtain v a d where "CheckIsVideoPacket b = Some v" "CheckIsAudioPacket b = Some a" "CheckIsDataPacket b = Some d"
    using check_total(1) unfolding CheckIsVideoPacket_def CheckIsAudioPacket_def CheckIsDataPacket_def by blast
  then show ?thesis using assms calls_more_refl [of one_media_call t] calls_more_call [of one_media_call _ t]
    by (simp add: dispatch_media_def controller_call_def one_media_call_def split: option.split)
qed

text \<open>
  C16: whatever arrives, the transport survives it. A datagram of at least two bytes with any content,
  on a transport that is closed or has its controller and with any result of decryption, is handled to
  the end without reading outside the received bytes. It changes nothing but the calls made: either
  control messages only, or at most one packet of media handed on; a closed transport makes none.
\<close>

theorem any_datagram_demuxed:
  assumes "2 \<le> length b" and "tr_is_closed t \<or> tr_controller t"
  shows "\<exists>t'. OnReceiveBuffer decrypt clock sr rr t b = Some t' \<and>
    calls_more (\<lambda>cs. (tr_is_closed t \<longrightarrow> cs = []) \<and> (list_all control_call cs \<or> one_media_call cs)) t t'"
proof -
  have weak: "calls_more Q t t'" if "calls_more P t t'" "\<And>cs. P cs \<Longrightarrow> Q cs" for P Q t'
    using that by (auto simp: calls_more_def)
  obtain x1 r p a d s where x: "rd b 1 = Some x1" "CheckIsRtcpPacket b = Some r" "CheckIsRtpPacket b = Some p"
      "CheckIsAudioPacket b = Some a" "CheckIsDataPacket b = Some d" "GetRtpSsrc b = Some s"
    using rd_total [of 1 b] assms(1) check_total unfolding CheckIsAudioPacket_def CheckIsDataPacket_def by (metis Suc_1 Suc_le_lessD)
  let ?Q = "\<lambda>cs. (tr_is_closed t \<longrightarrow> cs = []) \<and> (list_all control_call cs \<or> one_media_call cs)"
  have same: "calls_more ?Q t t" by (rule calls_more_refl) simp
  have media: "\<exists>t'. dispatch_media b ssrc t = Some t' \<and> calls_more ?Q t t'" if "\<not> tr_is_closed t" for b ssrc
    using dispatch_media_total [of t b ssrc] that assms(2) by (auto intro: weak)
  have rtcp: "\<exists>v t'. ParseRtcpPacket clock sr rr b t = Some (v, t') \<and> calls_more ?Q t t'" if "\<not> tr_is_closed t"
    using ParseRtcpPacket_total [of clock sr rr b t] that by (auto intro: weak)
  show ?thesis
  proof (cases "tr_is_closed t")
    case False
    then show ?thesis using assms(2) media [OF False] rtcp [OF False] same x
      by (cases "r = 0"; cases "tr_enable_srtp t"; cases "a = 0 \<and> d = 0"; cases "decrypt b"; cases "p = 0")
        (auto simp: OnReceiveBuffer_def)
  qed (use same in \<open>simp add: OnReceiveBuffer_def\<close>)
qed

definition example_transport :: IceTransport where
  "example_transport = \<lparr>tr_is_closed = False, tr_enable_srtp = False, tr_controller = True,
     tr_clock = \<lparr>monotonic_to_utc_offset_us = 0\<rparr>, tr_data_senders_ssrc = [], tr_calls = []\<rparr>"

theorem any_datagram_demuxed_witness:
  "\<forall>sr rr. \<exists>t'. OnReceiveBuffer (\<lambda>_. None) (\<lambda>_. (0, 0)) sr rr example_transport [0x80, 200, 0, 1] = Some t'"
proof (intro allI)
  fix sr :: SenderReport and rr :: ReceiverReport
  show "\<exists>t'. OnReceiveBuffer (\<lambda>_. None) (\<lambda>_. (0, 0)) sr rr example_transport [0x80, 200, 0, 1] = Some t'"
    using any_datagram_demuxed [of "[0x80, 200, 0, 1]" example_transport "\<lambda>_. None" "\<lambda>_. (0, 0)" sr rr]
    by (auto simp: example_transport_def)
qed

text \<open>The error message for an unknown packet reads the second byte, also when there is none.\<close>

lemma short_datagram_overread:
  assumes "length b < 2" and "\<not> tr_is_closed t" and "\<not> tr_enable_srtp t"
  shows "OnReceiveBuffer decrypt clock sr rr t b = None"
  using assms by (simp add: OnReceiveBuffer_def CheckIsRtcpPacket_def CheckIsRtpPacket_def kFixedHeaderSize_def rd_def)

section \<open>The packets of this program\<close>

text \<open>
  Packets of the packetizers and retransmissions are video, whatever their marker says; on a transport
  that lost its controller, or has none yet, the first of them is a call through a null pointer.
\<close>

lemma wire_dispatched:
  assumes "length tm = 3" and "pt \<in> {96, 99, PT_RTX}" and "\<not> tr_is_closed t" and "\<not> tr_enable_srtp t"
  shows "OnReceiveBuffer decrypt clock sr rr t (wire eid tm m pt seq ts ssrc body) =
    controller_call (VideoCall (wire eid tm m pt seq ts ssrc body) ssrc) t"
proof -
  let ?b = "wire eid tm m pt seq ts ssrc body"
  have len: "12 \<le> length ?b" by (simp add: wire_length [OF assms(1)])
  have r0: "rd ?b 0 = Some (push_bit 6 kRtpVersion OR push_bit 4 (of_bool (eid \<noteq> None)))" by (simp add: wire_bytes rd_def)
  have r1: "rd ?b 1 = Some (push_bit 7 (of_bool m) OR pt)" by (simp add: wire_bytes rd_def)
  have v: "drop_bit 6 (push_bit 6 kRtpVersion OR push_bit 4 (of_bool (eid \<noteq> None)) :: byte) AND 3 = 2"
    by (cases "eid = None") (simp_all add: kRtpVersion_def)
  have pt: "(push_bit 7 (of_bool m) OR pt) AND 0x7F = pt" "\<not> (192 \<le> (push_bit 7 (of_bool m) OR pt) \<and> (push_bit 7 (of_bool m) OR pt) \<le> 223)"
    using assms(2) by (cases m; auto simp: PT_RTX_def)+
  have w: "take 8 ?b @ be_bytes 4 ssrc @ send_time_block eid tm @ body = ?b" by (simp add: wire_bytes push32_def be_bytes_4)
  have s: "ReadBigEndian4 ?b 8 = Some ssrc"
    using be32.dec_enc [of "take 8 ?b" ssrc "send_time_block eid tm @ body"] len unfolding w by (simp add: min_def)
  have "CheckIsRtcpPacket ?b = Some 0" "CheckIsRtpPacket ?b = Some pt" "CheckIsVideoPacket ?b = Some pt" "GetRtpSsrc ?b = Some ssrc"
    using len r0 r1 v pt s assms(2)
    by (auto simp: CheckIsRtcpPacket_def CheckIsRtpPacket_def CheckIsVideoPacket_def check_payload_type_def GetRtpSsrc_def kFixedHeaderSize_def Let_def)
  moreover obtain a d where "CheckIsAudioPacket ?b = Some a" "CheckIsDataPacket ?b = Some d"
    using check_total(1) unfolding CheckIsAudioPacket_def CheckIsDataPacket_def by blast
  moreover have "pt \<noteq> 0" using assms(2) by (auto simp: PT_RTX_def)
  ultimately show ?thesis using assms(3,4) by (simp add: OnReceiveBuffer_def dispatch_media_def)
qed

lemma media_without_controller:
  assumes "length tm = 3" and "pt \<in> {96, 99, PT_RTX}" and "\<not> tr_is_closed t" and "\<not> tr_controller t"
  shows "\<not> tr_enable_srtp t \<Longrightarrow> OnReceiveBuffer decrypt clock sr rr t (wire eid tm m pt seq ts ssrc body) = None"
  using wire_dispatched [OF assms(1-3)] assms(4) by (simp add: controller_call_def)

lemma one_block_dispatched:
  assumes "RtcpCommonHeader_Parse new_header b (length b) = Some (True, h)" and "packet_size h = length b"
    and "handle_block clock sr rr h new_RtcpPacketInfo t = Some (True, new_RtcpPacketInfo, t')"
    and "drop_bit 6 (b ! 0) AND 3 = 2" and "192 \<le> b ! 1" and "b ! 1 \<le> 223" and "\<not> tr_is_closed t"
  shows "OnReceiveBuffer decrypt clock sr rr t b = Some t'"
proof -
  obtain n: "4 \<le> length b" "NextPacket h = Some []"
    using RtcpCommonHeader_Parse_safe [of "length b" b new_header] assms(1,2) by auto
  have "parse_blocks clock sr rr b (length b) True new_RtcpPacketInfo t = Some (True, True, new_RtcpPacketInfo, t')"
    using assms(1-3) n
    by (subst parse_blocks.simps) (auto simp: Let_def parse_blocks.simps)
  then have "ParseRtcpPacket clock sr rr b t = Some (True, t')" using n(1) by (auto simp: ParseRtcpPacket_def new_RtcpPacketInfo_def)
  moreover have "\<exists>k. CheckIsRtcpPacket b = Some k \<and> k \<noteq> 0" using n(1) assms(4-6) by (auto simp: CheckIsRtcpPacket_def rd_def)
  ultimately show ?thesis using assms(7) by (auto simp: OnReceiveBuffer_def)
qed

text \<open>The type of an accepted block is its second byte, below the version.\<close>

lemma Parse_type_byte:
  assumes "RtcpCommonHeader_Parse h0 b n = Some (True, h)"
  shows "b ! 1 = hdr_packet_type h \<and> drop_bit 6 (b ! 0) AND 3 = 2"
  using assms by (auto simp: RtcpCommonHeader_Parse_def kHeaderSizeBytes_def rd_def Let_def Option.bind_eq_Some_conv split: if_splits)

lemma nack_dispatched:
  assumes "parses_as_nack b r" and "\<not> tr_is_closed t" and "tr_controller t"
  shows "OnReceiveBuffer decrypt clock sr rr t b = Some (call (NackCall (nack_media_ssrc r) (packet_ids r)) t)"
proof -
  obtain h where h: "RtcpCommonHeader_Parse new_header b (length b) = Some (True, h)" "packet_size h = length b"
      "hdr_packet_type h = 205" "hdr_count_or_format h = 1" "Nack_Parse new_Nack h = Some (True, r)"
    using assms(1) by (auto simp: parses_as_nack_def kRtpfbPacketType_def kNackFeedbackMessageType_def)
  have "handle_block clock sr rr h new_RtcpPacketInfo t = Some (True, new_RtcpPacketInfo, call (NackCall (nack_media_ssrc r) (packet_ids r)) t)"
    using h assms(3) by (simp add: handle_block_def HandleNack_def RTCP_TYPE_SR_def RTCP_TYPE_RR_def kRtpfbPacketType_def
        kCcfbFeedbackMessageType_def kNackFeedbackMessageType_def)
  then show ?thesis using one_block_dispatched [OF h(1,2)] Parse_type_byte [OF h(1)] h(3) assms(2) by simp
qed

section \<open>The round-trip time\<close>

lemma CompactNtp_value:
  "CompactNtp (UtcTimeUsToNtp t) = word_of_int ((t + kNtpEpochOffsetSeconds * 1000000) * 65536 div 1000000)"
proof -
  let ?s = "t div 1000000 + kNtpEpochOffsetSeconds" and ?us = "t mod 1000000"
  have f: "0 \<le> ?us * 2 ^ 32 div 1000000" "?us * 2 ^ 32 div 1000000 < 2 ^ 32" by (auto intro: div_int_pos_iff [THEN iffD2])
  have d: "drop_bit 16 (word_of_int (?us * 2 ^ 32 div 1000000) :: u32) = word_of_int (?us * 65536 div 1000000)"
  proof -
    have "drop_bit 16 (word_of_int x :: u32) = word_of_int (x div 2 ^ 16)" if "0 \<le> x" "x < 2 ^ 32" for x
    proof -
      have "uint (drop_bit 16 (word_of_int x :: u32)) = x div 65536"
        unfolding unsigned_drop_bit_eq using that by (simp add: take_bit_int_eq_self uint_word_of_int drop_bit_eq_div)
      then have "drop_bit 16 (word_of_int x :: u32) = word_of_int (x div 65536)" by (metis word_of_int_uint)
      then show ?thesis by simp
    qed
    then have "drop_bit 16 (word_of_int (?us * 2 ^ 32 div 1000000) :: u32) = word_of_int (?us * 2 ^ 32 div 1000000 div 2 ^ 16)"
      using f by blast
    also have "?us * 2 ^ 32 div 1000000 div 2 ^ 16 = ?us * 65536 div 1000000"
      using zdiv_zmult2_eq [of "2 ^ 16" "?us * 2 ^ 32" 1000000] div_mult_mult2 [of "2 ^ 16" "?us * 65536" 1000000]
      by (simp add: ac_simps)
    finally show ?thesis .
  qed
  have lo: "?us * 65536 div 1000000 < 65536" "0 \<le> ?us * 65536 div 1000000" by (auto intro: div_int_pos_iff [THEN iffD2])
  have o: "(push_bit 16 (word_of_int a) :: u32) OR word_of_int b = word_of_int (a * 65536 + b)" if "0 \<le> b" "b < 65536" for a b
  proof -
    have "take_bit 16 b = b" using that by (simp add: take_bit_int_eq_self)
    then have b16: "bit b n \<Longrightarrow> n < 16" for n by (metis bit_take_bit_iff)
    have "(push_bit 16 (word_of_int a) :: u32) + word_of_int b = push_bit 16 (word_of_int a) OR word_of_int b"
      by (rule disjunctive_add) (use b16 in \<open>auto simp: bit_simps not_le [symmetric]\<close>)
    then show ?thesis by (simp add: push_bit_eq_mult)
  qed
  have e: "?s * 65536 + ?us * 65536 div 1000000 = (t + kNtpEpochOffsetSeconds * 1000000) * 65536 div 1000000"
  proof -
    have "(t + kNtpEpochOffsetSeconds * 1000000) * 65536 = m * 65536 + 1000000 * ((q + kNtpEpochOffsetSeconds) * 65536)"
      if "t = 1000000 * q + m" for q m
      unfolding that by (simp add: algebra_simps)
    from this [OF mult_div_mod_eq [symmetric]] show ?thesis by simp
  qed
  have "CompactNtp (UtcTimeUsToNtp t) = push_bit 16 (word_of_int ?s) OR drop_bit 16 (word_of_int (?us * 2 ^ 32 div 1000000))"
    unfolding CompactNtp_def UtcTimeUsToNtp_parts hi_lo_split ..
  then show ?thesis unfolding d o [OF lo(2,1)] e .
qed

lemma floor_difference: "\<exists>f \<in> {0, 1}. (x + d) div 1000000 - x div 1000000 = d div 1000000 + f" for x d :: int
proof -
  have "(x + d) div 1000000 = x div 1000000 + d div 1000000 + (x mod 1000000 + d mod 1000000) div 1000000"
    by (rule div_add1_eq)
  moreover have "(x mod 1000000 + d mod 1000000) div 1000000 \<in> {0, 1}"
    using pos_mod_bound [of 1000000 x] pos_mod_bound [of 1000000 d] pos_mod_sign [of 1000000 x] pos_mod_sign [of 1000000 d]
    by (cases "x mod 1000000 + d mod 1000000 < 1000000") (auto simp: div_pos_pos_trivial div_add_self2 [where b = 1000000, symmetric])
  ultimately show ?thesis by auto
qed

text \<open>
  C20: the round-trip time is right. A report block that echoes a sender report of time \<open>t1\<close> after a
  delay of \<open>k\<close> units of 1/65536 seconds, read \<open>e\<close> microseconds after \<open>t1\<close>, gives the time that the
  two ways took, \<open>e - k * 1000000 / 65536\<close> microseconds, to within 516 microseconds, although all
  the timestamps have wrapped.
\<close>

theorem rtt_measured:
  assumes "rb_last_sr b = CompactNtp (MonotonicTimeUsToNtp (tr_clock t) t1)" and "rb_last_sr b \<noteq> 0"
    and "clock (length (ri_report_block_datas info)) = (t1 + e, utc_ns)"
    and "uint (rb_delay_since_last_sr b) * 1000000 \<le> e * 65536" and "e < 65000000000"
  shows "\<exists>r. ri_rtt (HandleReportBlock clock t b ssrc info) = Some r \<and>
    \<bar>65536 * (1000 * r) - (65536 * e - 1000000 * uint (rb_delay_since_last_sr b))\<bar> \<le> 65536 * 516 \<and>
    rb_last_rtt (List.last (ri_report_block_datas (HandleReportBlock clock t b ssrc info))) = r"
proof -
  define k where "k = uint (rb_delay_since_last_sr b)"
  define u where "u = (t1 + monotonic_to_utc_offset_us (tr_clock t) + kNtpEpochOffsetSeconds * 1000000) * 65536"
  have k: "0 \<le> k" "k * 1000000 \<le> e * 65536" using assms(4) by (simp_all add: k_def)
  obtain f where f: "f \<in> {0, 1}" "(u + e * 65536) div 1000000 - u div 1000000 = e * 65536 div 1000000 + f" using floor_difference by blast
  define n where "n = e * 65536 div 1000000 + f - k"
  have ke: "k \<le> e * 65536 div 1000000" using k(2) zdiv_mono1 [of "k * 1000000" "e * 65536" 1000000] by simp
  have "e * 65536 div 1000000 \<le> 65000000000 * 65536 div 1000000" using assms(5) by (intro zdiv_mono1) simp_all
  then have up: "e * 65536 div 1000000 < 2 ^ 32 - 1" by simp
  have n: "0 \<le> n" "n < 2 ^ 32" using f(1) ke up k(1) by (auto simp: n_def)
  have w: "CompactNtp (MonotonicTimeUsToNtp (tr_clock t) (t1 + e)) - rb_delay_since_last_sr b - rb_last_sr b = word_of_int n"
  proof -
    have c: "CompactNtp (MonotonicTimeUsToNtp (tr_clock t) (t1 + e)) = word_of_int ((u + e * 65536) div 1000000)"
      by (simp add: MonotonicTimeUsToNtp_def CompactNtp_value u_def algebra_simps)
    have l: "rb_last_sr b = word_of_int (u div 1000000)" by (simp add: assms(1) MonotonicTimeUsToNtp_def CompactNtp_value u_def)
    have d: "rb_delay_since_last_sr b = word_of_int k" by (simp add: k_def)
    have "(u + e * 65536) div 1000000 - k - u div 1000000 = n" using f(2) by (simp add: n_def)
    then show ?thesis unfolding c d l by (metis wi_hom_sub)
  qed
  define r where "r = (n * 1000 + 32768) div 65536"
  have un: "uint (word_of_int n :: u32) = n" using n by (simp add: uint_word_of_int)
  have rtt: "ri_rtt (HandleReportBlock clock t b ssrc info) = Some r"
      "rb_last_rtt (List.last (ri_report_block_datas (HandleReportBlock clock t b ssrc info))) = r"
    using assms(2,3) by (simp_all add: HandleReportBlock_def Let_def w CompactNtpIntervalToMilliseconds_def un r_def AddRoundTripTimeSample_def)
  have "\<bar>65536 * r - n * 1000\<bar> \<le> 32768" unfolding r_def by linarith
  moreover have "\<bar>n * 1000000 - (65536 * e - 1000000 * k)\<bar> \<le> 1000000"
  proof -
    have "e * 65536 - 1000000 < 1000000 * (e * 65536 div 1000000)" "1000000 * (e * 65536 div 1000000) \<le> e * 65536" by linarith+
    then show ?thesis using f(1) by (auto simp: n_def)
  qed
  ultimately have "\<bar>65536 * (1000 * r) - (65536 * e - 1000000 * k)\<bar> \<le> 65536 * 516" by linarith
  then show ?thesis using rtt by (simp add: k_def)
qed

theorem rtt_measured_witness:
  "\<exists>r. ri_rtt (HandleReportBlock (\<lambda>_. (1000000 + 90000, 0)) example_transport
      (new_report_block\<lparr>rb_last_sr := CompactNtp (MonotonicTimeUsToNtp (tr_clock example_transport) 1000000), rb_delay_since_last_sr := 3277\<rparr>)
      7 new_RtcpPacketInfo) = Some r \<and> \<bar>65536 * (1000 * r) - (65536 * 90000 - 1000000 * 3277)\<bar> \<le> 65536 * 516"
proof -
  let ?b = "new_report_block\<lparr>rb_last_sr := CompactNtp (MonotonicTimeUsToNtp (tr_clock example_transport) 1000000), rb_delay_since_last_sr := 3277\<rparr>"
  have "CompactNtp (MonotonicTimeUsToNtp (tr_clock example_transport) 1000000) \<noteq> 0"
    by (simp add: MonotonicTimeUsToNtp_def CompactNtp_value example_transport_def kNtpEpochOffsetSeconds_def)
  then show ?thesis
    using rtt_measured [of ?b example_transport 1000000 "\<lambda>_. (1000000 + 90000, 0)" new_RtcpPacketInfo 90000 0 7] by auto
qed

end
