(* ===== verification/SeqMap.thy ===== *)
theory SeqMap
  imports SeqNum
begin

text \<open>
  Ordered associative containers whose keys are sequence numbers or RTP timestamps:
  \<open>std::map\<close> and \<open>std::set\<close> with the comparators \<open>DescendingSeqNumComp\<close>
  (\<open>src/common/rtc_base/numerics/sequence_number_util.h\<close>) and \<open>RtpTimestampLess\<close>
  (\<open>src/transport/channel/rtp_video_receiver.h\<close>).

  A container is the list of its entries in the order of the comparator. The standard library
  requires the comparator to order the stored keys strictly; a circular comparison does so only
  on keys within half the number space. The locale \<open>ordered_window\<close> states this requirement, is
  interpreted for the circular comparison, and carries the laws of the operations.
\<close>

section \<open>Operations\<close>

type_synonym ('k, 'v) omap = "('k \<times> 'v) list"

definition keys_of :: "('k, 'v) omap \<Rightarrow> 'k list" where
  "keys_of m = map fst m"

text \<open>The entries from \<open>lower_bound(key)\<close> on, and from \<open>upper_bound(key)\<close> on.\<close>

definition from_lower :: "('k \<Rightarrow> 'k \<Rightarrow> bool) \<Rightarrow> 'k \<Rightarrow> ('k, 'v) omap \<Rightarrow> ('k, 'v) omap" where
  "from_lower lt key m = dropWhile (\<lambda>e. lt (fst e) key) m"

definition from_upper :: "('k \<Rightarrow> 'k \<Rightarrow> bool) \<Rightarrow> 'k \<Rightarrow> ('k, 'v) omap \<Rightarrow> ('k, 'v) omap" where
  "from_upper lt key m = dropWhile (\<lambda>e. \<not> lt key (fst e)) m"

definition om_find :: "('k \<Rightarrow> 'k \<Rightarrow> bool) \<Rightarrow> 'k \<Rightarrow> ('k, 'v) omap \<Rightarrow> 'v option" where
  "om_find lt key m =
     (case from_lower lt key m of [] \<Rightarrow> None | (k, v) # r \<Rightarrow> if lt key k then None else Some v)"

text \<open>The entries after \<open>key\<close>'s own.\<close>

definition om_rest :: "('k \<Rightarrow> 'k \<Rightarrow> bool) \<Rightarrow> 'k \<Rightarrow> ('k, 'v) omap \<Rightarrow> ('k, 'v) omap" where
  "om_rest lt key m =
     (case from_lower lt key m of [] \<Rightarrow> [] | (k, v) # r \<Rightarrow> if lt key k then (k, v) # r else r)"

text \<open>\<open>insert_or_assign\<close>, and \<open>erase(key)\<close>.\<close>

definition om_insert :: "('k \<Rightarrow> 'k \<Rightarrow> bool) \<Rightarrow> 'k \<Rightarrow> 'v \<Rightarrow> ('k, 'v) omap \<Rightarrow> ('k, 'v) omap" where
  "om_insert lt key v m = takeWhile (\<lambda>e. lt (fst e) key) m @ (key, v) # om_rest lt key m"

definition om_erase :: "('k \<Rightarrow> 'k \<Rightarrow> bool) \<Rightarrow> 'k \<Rightarrow> ('k, 'v) omap \<Rightarrow> ('k, 'v) omap" where
  "om_erase lt key m = takeWhile (\<lambda>e. lt (fst e) key) m @ om_rest lt key m"

section \<open>The interface of an ordered container\<close>

locale ordered_window =
  fixes lt :: "'k \<Rightarrow> 'k \<Rightarrow> bool" and position :: "'k \<Rightarrow> int" and W :: "'k set"
  assumes less_position: "a \<in> W \<Longrightarrow> b \<in> W \<Longrightarrow> lt a b \<longleftrightarrow> position a < position b"
    and inj_position: "inj_on position W"
begin

definition ordered :: "('k \<times> 'v) list \<Rightarrow> bool" where
  "ordered m \<longleftrightarrow> set (keys_of m) \<subseteq> W \<and> sorted_wrt lt (keys_of m)"

lemma ordered_simps [simp]:
  "ordered []"
  "ordered (e # m) \<longleftrightarrow> fst e \<in> W \<and> (\<forall>k \<in> set (keys_of m). lt (fst e) k) \<and> ordered m"
  by (auto simp: ordered_def keys_of_def)

lemma ordered_append:
  "ordered (m @ n) \<longleftrightarrow> ordered m \<and> ordered n \<and> (\<forall>a \<in> set (keys_of m). \<forall>b \<in> set (keys_of n). lt a b)"
  by (auto simp: ordered_def keys_of_def sorted_wrt_append)

lemma ordered_distinct: "ordered m \<Longrightarrow> distinct (keys_of m)"
proof (induction m)
  case (Cons e m)
  then have "fst e \<notin> set (keys_of m)"
    using less_position [of "fst e" "fst e"] by auto
  with Cons show ?case by (simp add: keys_of_def)
qed (simp add: keys_of_def)

lemma ordered_filter: "ordered m \<Longrightarrow> ordered (filter P m)"
  by (induction m) (auto simp: keys_of_def)

lemma less_irrefl: "a \<in> W \<Longrightarrow> \<not> lt a a"
  using less_position by simp

lemma less_trans': "a \<in> W \<Longrightarrow> b \<in> W \<Longrightarrow> c \<in> W \<Longrightarrow> lt a b \<Longrightarrow> lt b c \<Longrightarrow> lt a c"
  using less_position by auto

lemma less_cases:
  assumes "a \<in> W" and "b \<in> W"
  shows "lt a b \<or> a = b \<or> lt b a"
  using less_position [OF assms] less_position [OF assms(2,1)] inj_onD [OF inj_position _ assms] by linarith

lemma from_lower_filter:
  assumes "ordered m" and "key \<in> W"
  shows "from_lower lt key m = filter (\<lambda>e. \<not> lt (fst e) key) m"
  using assms
proof (induction m)
  case (Cons e m)
  show ?case
  proof (cases "lt (fst e) key")
    case False
    have "\<forall>x \<in> set m. \<not> lt (fst x) key"
    proof
      fix x assume x: "x \<in> set m"
      then have "lt (fst e) (fst x)" "fst x \<in> W" "fst e \<in> W"
        using Cons.prems(1) by (auto simp: keys_of_def ordered_def)
      then show "\<not> lt (fst x) key"
        using False Cons.prems(2) less_position by fastforce
    qed
    with False show ?thesis by (simp add: from_lower_def)
  qed (use Cons in \<open>simp add: from_lower_def\<close>)
qed (simp add: from_lower_def)

lemma from_upper_filter:
  assumes "ordered m" and "key \<in> W"
  shows "from_upper lt key m = filter (\<lambda>e. lt key (fst e)) m"
  using assms
proof (induction m)
  case (Cons e m)
  show ?case
  proof (cases "lt key (fst e)")
    case True
    have "\<forall>x \<in> set m. lt key (fst x)"
    proof
      fix x assume x: "x \<in> set m"
      then have "lt (fst e) (fst x)" "fst x \<in> W" "fst e \<in> W"
        using Cons.prems(1) by (auto simp: keys_of_def ordered_def)
      then show "lt key (fst x)"
        using True Cons.prems(2) less_trans' by blast
    qed
    with True show ?thesis by (simp add: from_upper_def)
  qed (use Cons in \<open>simp add: from_upper_def\<close>)
qed (simp add: from_upper_def)

lemma takeWhile_less_filter:
  assumes "ordered m" and "key \<in> W"
  shows "takeWhile (\<lambda>e. lt (fst e) key) m = filter (\<lambda>e. lt (fst e) key) m"
  using assms
proof (induction m)
  case (Cons e m)
  have "lt (fst e) key" if "x \<in> set m" "lt (fst x) key" for x
  proof -
    have "lt (fst e) (fst x)" "fst x \<in> W" "fst e \<in> W"
      using Cons.prems(1) that(1) by (auto simp: keys_of_def ordered_def)
    then show ?thesis using that(2) Cons.prems(2) less_trans' by blast
  qed
  then have "\<not> lt (fst e) key \<Longrightarrow> filter (\<lambda>e. lt (fst e) key) m = []" by (auto simp: filter_empty_conv)
  with Cons show ?case by auto
qed simp

lemma om_rest_filter:
  assumes "ordered m" and "key \<in> W"
  shows "om_rest lt key m = filter (\<lambda>e. lt key (fst e)) m"
proof -
  have "om_rest lt key m = filter (\<lambda>e. lt key (fst e)) (from_lower lt key m)"
  proof (cases "from_lower lt key m")
    case (Cons e r)
    have o: "ordered (e # r)"
      using ordered_filter [OF assms(1), of "\<lambda>e. \<not> lt (fst e) key"] from_lower_filter [OF assms] Cons by simp
    have "\<not> lt (fst e) key"
      using from_lower_filter [OF assms] Cons by (metis (mono_tags, lifting) filter_eq_ConsD)
    then have "lt key (fst e) \<or> fst e = key"
      using less_cases [of key "fst e"] assms(2) o by auto
    moreover have "\<forall>x \<in> set r. lt key (fst x)" if "lt key (fst e) \<or> fst e = key"
    proof
      fix x assume "x \<in> set r"
      then have "lt (fst e) (fst x)" "fst x \<in> W" "fst e \<in> W"
        using o by (auto simp: keys_of_def ordered_def)
      then show "lt key (fst x)" using that assms(2) less_trans' by blast
    qed
    ultimately show ?thesis
      using Cons less_irrefl [OF assms(2)] by (cases e) (auto simp: om_rest_def)
  qed (simp add: om_rest_def)
  also have "\<dots> = filter (\<lambda>e. lt key (fst e)) m"
    using from_lower_filter [OF assms] assms less_position
    by (auto simp: ordered_def keys_of_def intro!: filter_cong)
  finally show ?thesis .
qed

lemma map_of_filter_key:
  "map_of (filter (\<lambda>e. P (fst e)) m) k = (if P k then map_of m k else None)"
  by (induction m) auto

lemma map_of_below: "map_of (filter (\<lambda>e. lt (fst e) key) m) k = (if lt k key then map_of m k else None)"
  by (rule map_of_filter_key)

lemma map_of_above: "map_of (filter (\<lambda>e. lt key (fst e)) m) k = (if lt key k then map_of m k else None)"
  by (rule map_of_filter_key)

lemma om_find_map_of:
  assumes "ordered m" and "key \<in> W"
  shows "om_find lt key m = map_of m key"
proof -
  have "om_find lt key m = map_of (from_lower lt key m) key"
  proof (cases "from_lower lt key m")
    case (Cons e r)
    have o: "ordered (e # r)"
      using ordered_filter [OF assms(1), of "\<lambda>e. \<not> lt (fst e) key"] from_lower_filter [OF assms] Cons by simp
    have "\<not> lt (fst e) key"
      using from_lower_filter [OF assms] Cons by (metis (mono_tags, lifting) filter_eq_ConsD)
    then have c: "lt key (fst e) \<or> fst e = key"
      using less_cases [of key "fst e"] assms(2) o by auto
    have "key \<notin> fst ` set r" if "lt key (fst e)"
      using that o less_irrefl [OF assms(2)] less_trans' [of key "fst e" key] assms(2)
      by (auto simp: keys_of_def)
    then have "lt key (fst e) \<Longrightarrow> map_of r key = None" by (simp add: map_of_eq_None_iff)
    then show ?thesis
      using Cons c less_irrefl [OF assms(2)] by (cases e) (auto simp: om_find_def)
  qed (simp add: om_find_def)
  also have "\<dots> = map_of m key"
    using from_lower_filter [OF assms] less_irrefl [OF assms(2)]
      map_of_filter_key [of "\<lambda>k. \<not> lt k key" m key] by simp
  finally show ?thesis .
qed

lemma om_insert_ordered:
  assumes "ordered m" and "key \<in> W"
  shows "ordered (om_insert lt key v m)"
proof -
  have "lt (fst a) (fst b)" if "a \<in> set m" "b \<in> set m" "lt (fst a) key" "lt key (fst b)" for a b
    using that assms less_trans' [of "fst a" key "fst b"] by (auto simp: ordered_def keys_of_def)
  then show ?thesis
    using assms(2) ordered_filter [OF assms(1)]
    unfolding om_insert_def takeWhile_less_filter [OF assms] om_rest_filter [OF assms]
    by (auto simp: ordered_append keys_of_def)
qed

lemma om_insert_map_of:
  assumes "ordered m" and "key \<in> W"
  shows "map_of (om_insert lt key v m) = (map_of m)(key \<mapsto> v)"
proof
  fix k
  show "map_of (om_insert lt key v m) k = ((map_of m)(key \<mapsto> v)) k"
  proof (cases "k \<in> W")
    case True
    then show ?thesis
      using less_cases [OF True assms(2)] less_irrefl [OF assms(2)] less_position [OF True assms(2)]
        less_position [OF assms(2) True]
      unfolding om_insert_def takeWhile_less_filter [OF assms] om_rest_filter [OF assms]
      by (auto simp: map_add_def map_of_below map_of_above split: option.splits)
  next
    case False
    then have "map_of m k = None"
      using assms(1) by (auto simp: ordered_def keys_of_def map_of_eq_None_iff)
    with False assms(2) show ?thesis
      unfolding om_insert_def takeWhile_less_filter [OF assms] om_rest_filter [OF assms]
      by (auto simp: map_add_def map_of_below map_of_above split: option.splits)
  qed
qed

lemma split_filter:
  assumes "ordered m" and "key \<in> W"
  shows "filter (\<lambda>e. lt (fst e) key) m @ filter (\<lambda>e. lt key (fst e)) m = filter (\<lambda>e. fst e \<noteq> key) m"
  using assms
proof (induction m)
  case (Cons e m)
  have e: "fst e \<in> W" and m: "\<And>x. x \<in> set m \<Longrightarrow> lt (fst e) (fst x) \<and> fst x \<in> W" and o: "ordered m"
    using Cons.prems(1) by (auto simp: keys_of_def ordered_def)
  show ?case
  proof (cases "lt (fst e) key")
    case True
    then show ?thesis
      using Cons.IH [OF o Cons.prems(2)] e Cons.prems(2) less_position [of "fst e" key] less_position [of key "fst e"] by auto
  next
    case False
    have a: "\<And>x. x \<in> set m \<Longrightarrow> lt key (fst x)"
      using False m e less_cases [OF e Cons.prems(2)] less_trans' Cons.prems(2) by blast
    then have "filter (\<lambda>e. lt (fst e) key) m = []" "filter (\<lambda>e. lt key (fst e)) m = m" "filter (\<lambda>e. fst e \<noteq> key) m = m"
      using m Cons.prems(2) less_position less_irrefl by (fastforce simp: filter_empty_conv filter_id_conv)+
    then show ?thesis
      using False less_cases [OF e Cons.prems(2)] less_irrefl [OF e] by auto
  qed
qed simp

lemma om_erase_filter:
  assumes "ordered m" and "key \<in> W"
  shows "om_erase lt key m = filter (\<lambda>e. fst e \<noteq> key) m"
  unfolding om_erase_def takeWhile_less_filter [OF assms] om_rest_filter [OF assms]
  by (rule split_filter [OF assms])

end

section \<open>Keys on the circle\<close>

text \<open>The order of the circular comparison on the half circle that starts at \<open>base\<close>.\<close>

definition before :: "'a::len word \<Rightarrow> 'a word \<Rightarrow> bool" where
  "before a b = DescendingSeqNumComp 0 a b"

lemma before_position:
  fixes a b base :: "'a::len word"
  assumes "uint (a - base) < 2 ^ (LENGTH('a) - 1)" and "uint (b - base) < 2 ^ (LENGTH('a) - 1)"
  shows "before a b \<longleftrightarrow> uint (a - base) < uint (b - base)"
proof -
  let ?x = "\<lambda>w :: 'a word. uint base + uint (w - base)"
  have w: "word_of_int (?x w) = w" for w :: "'a word" by simp
  have "\<bar>?x b - ?x a\<bar> < 2 ^ (LENGTH('a) - 1)"
    using assms uint_ge_0 [of "a - base"] uint_ge_0 [of "b - base"] by linarith
  then show ?thesis
    using AheadOrAt_near [of "?x b" "?x a", where 'a = 'a] word_of_int_near_eq_iff [of "?x b" "?x a", where 'a = 'a]
    unfolding before_def DescendingSeqNumComp_def AheadOf_def w by auto
qed

definition half_circle :: "'a::len word \<Rightarrow> 'a word set" where
  "half_circle base = {k. uint (k - base) < 2 ^ (LENGTH('a) - 1)}"

interpretation circle: ordered_window before "\<lambda>k. uint (k - base)" "half_circle base"
  for base :: "'b::len word"
proof unfold_locales
  show "inj_on (\<lambda>k. uint (k - base)) (half_circle base)"
  proof (rule inj_onI)
    fix x y assume "uint (x - base) = uint (y - base)"
    then have "x - base = y - base" by (rule word_uint_eqI)
    then show "x = y" by simp
  qed
qed (simp add: before_position half_circle_def)

end
