(* ===== verification/FrameAssembly.thy ===== *)
theory FrameAssembly
  imports Av1 SeqMap Clock
begin

text \<open>
  Frame assembly in the video receiver, the part of
  \<open>src/transport/channel/rtp_video_receiver.cpp\<close> that turns packets into frames:
  \<open>ProcessH264RtpPacket\<close>, \<open>ProcessAv1RtpPacket\<close> and what they call.

  The state is the set of members that the two locks \<open>frame_assembly_mtx_\<close> and
  \<open>pending_frames_mtx_\<close> guard during assembly. The maps from sequence numbers and timestamps to
  packets and markers are HOL maps, since only lookups depend on them; \<open>pending_frames_\<close> is ordered
  by \<open>RtpTimestampLess\<close> and its order matters. The member \<open>fec_enable_\<close> is never set, so the model
  has its false branch. The frame buffer is represented by its capacity and by the bytes written to
  it; a write past the capacity is \<^term>\<open>None\<close>. One time stands for all clock readings of a call.

  The main result is stated once, in the locale \<open>frame_codec\<close>, for both codecs: the packets of a
  frame can arrive in any order, with duplicates, and the last missing one completes the frame.
\<close>

section \<open>State\<close>

record ReceivedFrame =
  rf_data :: "byte list"
  rf_received_timestamp_us :: int
  rf_captured_timestamp_us :: int

record PendingFrame =
  pf_frame :: "ReceivedFrame option"
  pf_is_complete :: bool
  pf_arrival_time :: int
  pf_is_keyframe :: bool
  pf_last_sequence_number :: "u16 option"
  pf_recovery_escalated :: bool
  pf_soft_fir_requested :: bool

definition new_PendingFrame :: PendingFrame where
  "new_PendingFrame = \<lparr>pf_frame = None, pf_is_complete = False, pf_arrival_time = 0, pf_is_keyframe = False,
     pf_last_sequence_number = None, pf_recovery_escalated = False, pf_soft_fir_requested = False\<rparr>"

definition RtpTimestampLess :: "u32 \<Rightarrow> u32 \<Rightarrow> bool" where
  "RtpTimestampLess lhs rhs \<longleftrightarrow> lhs \<noteq> rhs \<and> AheadOf 0 rhs lhs"

record FrameAssembly =
  fa_h264 :: "u16 \<rightharpoonup> RtpPacketH264"
  fa_av1 :: "u16 \<rightharpoonup> RtpPacketAv1"
  fa_start :: "u32 \<rightharpoonup> u16"
  fa_end :: "u32 \<rightharpoonup> u16"
  fa_buffer :: "nat option"
  fa_pending :: "(u32, PendingFrame) omap"
  fa_mapper :: RtpTimestampMapper

definition kVideoPayloadTypeFrequency :: u32 where "kVideoPayloadTypeFrequency = 90000"

definition new_FrameAssembly :: FrameAssembly where
  "new_FrameAssembly = \<lparr>fa_h264 = Map.empty, fa_av1 = Map.empty, fa_start = Map.empty, fa_end = Map.empty,
     fa_buffer = None, fa_pending = [], fa_mapper = new_RtpTimestampMapper kVideoPayloadTypeFrequency\<rparr>"

section \<open>Operations\<close>

definition kMaxPacketsPerFrame :: nat where "kMaxPacketsPerFrame = 4096"
definition NV12_BUFFER_SIZE :: nat where "NV12_BUFFER_SIZE = 1280 * 720 * 3 div 2"

definition FramePacketCount :: "u16 \<Rightarrow> u16 \<Rightarrow> nat" where
  "FramePacketCount start_sequence_number end_sequence_number =
     (let pkt_count = unat (end_sequence_number - start_sequence_number) + 1 in
      if pkt_count \<le> kMaxPacketsPerFrame then pkt_count else 0)"

definition SequenceNumberAt :: "u16 \<Rightarrow> nat \<Rightarrow> u16" where
  "SequenceNumberAt start_sequence_number offset = start_sequence_number + of_nat offset"

definition idr_at :: "byte list \<Rightarrow> nat \<Rightarrow> bool" where
  "idr_at d offset =
     (let nal_offset =
        (if d ! offset = 0 \<and> d ! (offset + 1) = 0 \<and> d ! (offset + 2) = 1 then offset + 3
         else if offset + 4 < length d \<and> d ! offset = 0 \<and> d ! (offset + 1) = 0 \<and> d ! (offset + 2) = 0 \<and>
                 d ! (offset + 3) = 1 then offset + 4
         else 0) in
      nal_offset \<noteq> 0 \<and> nal_offset < length d \<and> d ! nal_offset AND 0x1f = 5)"

definition IsH264KeyFrame :: "byte list \<Rightarrow> bool" where
  "IsH264KeyFrame d = list_ex (idr_at d) [0..<length d - 3]"

definition TrackPendingFramePacket :: "timestamp \<Rightarrow> FrameAssembly \<Rightarrow> u32 \<Rightarrow> u16 \<Rightarrow> FrameAssembly" where
  "TrackPendingFramePacket now fa timestamp sequence_number =
     (let p = (case om_find RtpTimestampLess timestamp (fa_pending fa) of None \<Rightarrow> new_PendingFrame | Some p \<Rightarrow> p);
          p = (if pf_arrival_time p = 0 then p\<lparr>pf_arrival_time := ms now\<rparr> else p);
          p = (case pf_last_sequence_number p of
                 None \<Rightarrow> p\<lparr>pf_last_sequence_number := Some sequence_number\<rparr>
               | Some l \<Rightarrow> if AheadOf 0 sequence_number l then p\<lparr>pf_last_sequence_number := Some sequence_number\<rparr> else p) in
      fa\<lparr>fa_pending := om_insert RtpTimestampLess timestamp p (fa_pending fa)\<rparr>)"

definition GetFrameSequenceRange :: "FrameAssembly \<Rightarrow> u32 \<Rightarrow> (u16 \<times> u16 \<times> nat) option" where
  "GetFrameSequenceRange fa timestamp =
     (case (fa_start fa timestamp, fa_end fa timestamp) of
        (Some s, Some e) \<Rightarrow> let pkt_count = FramePacketCount s e in
          if pkt_count = 0 then None else Some (s, e, pkt_count)
      | _ \<Rightarrow> None)"

definition CommitPendingFrame ::
  "timestamp \<Rightarrow> FrameAssembly \<Rightarrow> u32 \<Rightarrow> ReceivedFrame \<Rightarrow> bool \<Rightarrow> u16 \<Rightarrow> bool \<Rightarrow> FrameAssembly" where
  "CommitPendingFrame now fa timestamp frame is_keyframe end_sequence_number require_existing_entry =
     (let found = om_find RtpTimestampLess timestamp (fa_pending fa) in
      if require_existing_entry \<and> found = None then fa
      else
        let p = (case found of None \<Rightarrow> new_PendingFrame | Some p \<Rightarrow> p);
            first_arrival_time = (if pf_arrival_time p \<noteq> 0 then pf_arrival_time p else ms now);
            p = \<lparr>pf_frame = Some frame, pf_is_complete = True, pf_arrival_time = first_arrival_time,
              pf_is_keyframe = is_keyframe, pf_last_sequence_number = Some end_sequence_number,
              pf_recovery_escalated = False, pf_soft_fir_requested = False\<rparr> in
        fa\<lparr>fa_pending := om_insert RtpTimestampLess timestamp p (fa_pending fa)\<rparr>)"

definition ClearFrameMarkers :: "FrameAssembly \<Rightarrow> u32 \<Rightarrow> FrameAssembly" where
  "ClearFrameMarkers fa timestamp =
     fa\<lparr>fa_start := (fa_start fa)(timestamp := None), fa_end := (fa_end fa)(timestamp := None)\<rparr>"

definition EnsureFrameBufferCapacity :: "FrameAssembly \<Rightarrow> nat \<Rightarrow> FrameAssembly" where
  "EnsureFrameBufferCapacity fa required_capacity =
     (case fa_buffer fa of
        Some capacity \<Rightarrow> if capacity \<ge> required_capacity then fa
          else fa\<lparr>fa_buffer := Some (max required_capacity NV12_BUFFER_SIZE)\<rparr>
      | None \<Rightarrow> fa\<lparr>fa_buffer := Some (max required_capacity NV12_BUFFER_SIZE)\<rparr>)"

definition CreateReceivedFrame :: "timestamp \<Rightarrow> FrameAssembly \<Rightarrow> byte list \<Rightarrow> u32 \<Rightarrow> ReceivedFrame \<times> FrameAssembly" where
  "CreateReceivedFrame now fa d timestamp =
     (let (captured, m) = ToLocalTimeUs (fa_mapper fa) timestamp now in
      (\<lparr>rf_data = d, rf_received_timestamp_us = now, rf_captured_timestamp_us = captured\<rparr>, fa\<lparr>fa_mapper := m\<rparr>))"

text \<open>Writing \<open>d\<close> behind the \<open>written\<close> bytes of the frame buffer.\<close>

definition buffer_write :: "FrameAssembly \<Rightarrow> byte list \<Rightarrow> byte list \<Rightarrow> byte list option" where
  "buffer_write fa written d =
     (case fa_buffer fa of None \<Rightarrow> None
      | Some capacity \<Rightarrow> if length written + length d \<le> capacity then Some (written @ d) else None)"

subsection \<open>H.264\<close>

text \<open>The copying loop of \<open>PopCompleteFrame\<close>: packet \<open>offset\<close> is appended and erased.\<close>

definition pop_h264 :: "u16 \<Rightarrow> nat \<Rightarrow> byte list \<times> FrameAssembly \<Rightarrow> (byte list \<times> FrameAssembly) option" where
  "pop_h264 start_seq offset s =
     (case s of (dest, fa) \<Rightarrow>
       case fa_h264 fa (SequenceNumberAt start_seq offset) of None \<Rightarrow> Some (dest, fa)
       | Some q \<Rightarrow> do {
           d \<leftarrow> Payload (h264_packet q);
           dest \<leftarrow> buffer_write fa dest d;
           Some (dest, fa\<lparr>fa_h264 := (fa_h264 fa)(SequenceNumberAt start_seq offset := None)\<rparr>) })"

definition PopCompleteFrame :: "timestamp \<Rightarrow> FrameAssembly \<Rightarrow> u16 \<Rightarrow> u16 \<Rightarrow> nat \<Rightarrow> u32 \<Rightarrow> FrameAssembly option" where
  "PopCompleteFrame now fa start_seq end_seq pkt_count timestamp =
     (let complete_frame_size = sum_list (map (\<lambda>offset.
            case fa_h264 fa (SequenceNumberAt start_seq offset) of None \<Rightarrow> 0
            | Some q \<Rightarrow> rp_payload_size (h264_packet q)) [0..<pkt_count]);
          fa = EnsureFrameBufferCapacity fa (complete_frame_size + 1) in do {
      dest \<leftarrow> (case fa_h264 fa start_seq of None \<Rightarrow> Some []
        | Some q \<Rightarrow> buffer_write fa [] [push_bit 7 (fui_forbidden_bit q) OR push_bit 5 (fui_nal_reference_idc q) OR
            fuh_nal_unit_type q]);
      (dest, fa) \<leftarrow> foldM (pop_h264 start_seq) [0..<pkt_count] (dest, fa);
      let (frame, fa) = CreateReceivedFrame now fa dest timestamp;
          is_keyframe = IsH264KeyFrame (rf_data frame);
          fa = ClearFrameMarkers fa timestamp in
      Some (CommitPendingFrame now fa timestamp frame is_keyframe end_seq True) })"

definition CheckIsH264FrameCompleted :: "timestamp \<Rightarrow> FrameAssembly \<Rightarrow> RtpPacketH264 \<Rightarrow> bool \<Rightarrow> bool \<Rightarrow> FrameAssembly option" where
  "CheckIsH264FrameCompleted now fa q is_start is_end =
     (let timestamp = rp_timestamp (h264_packet q); seq = rp_sequence_number (h264_packet q);
          fa = TrackPendingFramePacket now fa timestamp seq;
          fa = (if is_start then fa\<lparr>fa_start := (fa_start fa)(timestamp \<mapsto> seq)\<rparr> else fa);
          fa = (if is_end then fa\<lparr>fa_end := (fa_end fa)(timestamp \<mapsto> seq)\<rparr> else fa) in
      case GetFrameSequenceRange fa timestamp of None \<Rightarrow> Some fa
      | Some (start_seq, end_seq, pkt_count) \<Rightarrow>
        if list_all (\<lambda>offset. case fa_h264 fa (SequenceNumberAt start_seq offset) of None \<Rightarrow> False
              | Some q \<Rightarrow> rp_timestamp (h264_packet q) = timestamp) [0..<pkt_count]
        then PopCompleteFrame now fa start_seq end_seq pkt_count timestamp
        else Some fa)"

definition ProcessH264RtpPacket :: "timestamp \<Rightarrow> FrameAssembly \<Rightarrow> RtpPacketH264 \<Rightarrow> FrameAssembly option" where
  "ProcessH264RtpPacket now fa q =
     (let p = h264_packet q in
      if fui_nal_unit_type q = NAL_NALU then do {
        payload \<leftarrow> Payload p;
        let bytestream = (push_bit 7 (fui_forbidden_bit q) OR push_bit 5 (fui_nal_reference_idc q) OR fui_nal_unit_type q) #
              payload;
            (frame, fa) = CreateReceivedFrame now fa bytestream (rp_timestamp p);
            is_keyframe = IsH264KeyFrame (rf_data frame) in
        Some (CommitPendingFrame now fa (rp_timestamp p) frame is_keyframe (rp_sequence_number p) False) }
      else if fui_nal_unit_type q = NAL_FU_A then
        CheckIsH264FrameCompleted now (fa\<lparr>fa_h264 := (fa_h264 fa)(rp_sequence_number p \<mapsto> q)\<rparr>) q (fuh_start q) (fuh_end q)
      else Some fa)"

subsection \<open>AV1\<close>

definition pop_av1 :: "u16 \<Rightarrow> nat \<Rightarrow> byte list \<times> FrameAssembly \<Rightarrow> (byte list \<times> FrameAssembly) option" where
  "pop_av1 start_seq offset s =
     (case s of (dest, fa) \<Rightarrow> do {
        q \<leftarrow> fa_av1 fa (SequenceNumberAt start_seq offset);
        d \<leftarrow> Payload (av1_packet q);
        dest \<leftarrow> buffer_write fa dest d;
        Some (dest, fa\<lparr>fa_av1 := (fa_av1 fa)(SequenceNumberAt start_seq offset := None)\<rparr>) })"

definition CheckIsAv1FrameCompleted :: "timestamp \<Rightarrow> FrameAssembly \<Rightarrow> RtpPacketAv1 \<Rightarrow> FrameAssembly option" where
  "CheckIsAv1FrameCompleted now fa q =
     (let timestamp = rp_timestamp (av1_packet q); seq = rp_sequence_number (av1_packet q);
          fa = TrackPendingFramePacket now fa timestamp seq;
          fa = (if Av1FrameStart q then fa\<lparr>fa_start := (fa_start fa)(timestamp \<mapsto> seq)\<rparr> else fa);
          fa = (if Av1FrameEnd q then fa\<lparr>fa_end := (fa_end fa)(timestamp \<mapsto> seq)\<rparr> else fa) in
      case GetFrameSequenceRange fa timestamp of None \<Rightarrow> Some fa
      | Some (start_seq, end_seq, pkt_count) \<Rightarrow>
        if list_all (\<lambda>offset. case fa_av1 fa (SequenceNumberAt start_seq offset) of None \<Rightarrow> False
              | Some q \<Rightarrow> rp_timestamp (av1_packet q) = timestamp) [0..<pkt_count]
        then do {
          first \<leftarrow> fa_av1 fa start_seq;
          let is_keyframe = Av1_IsKeyFrame first;
              complete_frame_size = sum_list (map (\<lambda>offset.
                case fa_av1 fa (SequenceNumberAt start_seq offset) of None \<Rightarrow> 0
                | Some q \<Rightarrow> rp_payload_size (av1_packet q)) [0..<pkt_count]);
              fa = EnsureFrameBufferCapacity fa complete_frame_size in do {
          (dest, fa) \<leftarrow> foldM (pop_av1 start_seq) [0..<pkt_count] ([], fa);
          d \<leftarrow> seg dest 0 complete_frame_size;
          let (frame, fa) = CreateReceivedFrame now fa d timestamp;
              fa = ClearFrameMarkers fa timestamp in
          Some (CommitPendingFrame now fa timestamp frame is_keyframe end_seq True) } }
        else Some fa)"

definition ProcessAv1RtpPacket :: "timestamp \<Rightarrow> FrameAssembly \<Rightarrow> RtpPacketAv1 \<Rightarrow> FrameAssembly option" where
  "ProcessAv1RtpPacket now fa q =
     CheckIsAv1FrameCompleted now (fa\<lparr>fa_av1 := (fa_av1 fa)(rp_sequence_number (av1_packet q) \<mapsto> q)\<rparr>) q"

subsection \<open>Abandoning a frame\<close>

definition DropFrameAssembly :: "FrameAssembly \<Rightarrow> u32 \<Rightarrow> FrameAssembly" where
  "DropFrameAssembly fa timestamp =
     (let fa = ClearFrameMarkers fa timestamp in
      fa\<lparr>fa_h264 := (\<lambda>k. case fa_h264 fa k of None \<Rightarrow> None
            | Some q \<Rightarrow> if rp_timestamp (h264_packet q) = timestamp then None else Some q),
         fa_av1 := (\<lambda>k. case fa_av1 fa k of None \<Rightarrow> None
            | Some q \<Rightarrow> if rp_timestamp (av1_packet q) = timestamp then None else Some q)\<rparr>)"

section \<open>Pending frames\<close>

lemma RtpTimestampLess_before: "RtpTimestampLess = before"
  by (auto simp: fun_eq_iff RtpTimestampLess_def before_def DescendingSeqNumComp_def AheadOf_def)

lemmas pending_laws = circle.om_find_map_of circle.om_insert_map_of circle.om_insert_ordered

definition entry_complete :: "(u32, PendingFrame) omap \<Rightarrow> u32 \<Rightarrow> bool" where
  "entry_complete m t \<longleftrightarrow> (\<exists>p. map_of m t = Some p \<and> pf_is_complete p)"

lemma TrackPendingFramePacket_pending:
  fixes now :: timestamp and s :: u16
  assumes "circle.ordered b (fa_pending fa)" and "t \<in> half_circle b"
  defines "m \<equiv> fa_pending (TrackPendingFramePacket now fa t s)"
  shows "circle.ordered b m \<and> (\<exists>p. map_of m = (map_of (fa_pending fa))(t \<mapsto> p)) \<and>
    (entry_complete m t \<longleftrightarrow> entry_complete (fa_pending fa) t)"
  using pending_laws [OF assms(1,2)]
  by (auto simp: m_def TrackPendingFramePacket_def Let_def RtpTimestampLess_before entry_complete_def new_PendingFrame_def
      split: option.splits)

lemma TrackPendingFramePacket_same [simp]:
  "fa_h264 (TrackPendingFramePacket now fa t s) = fa_h264 fa" "fa_av1 (TrackPendingFramePacket now fa t s) = fa_av1 fa"
  "fa_start (TrackPendingFramePacket now fa t s) = fa_start fa" "fa_end (TrackPendingFramePacket now fa t s) = fa_end fa"
  "fa_buffer (TrackPendingFramePacket now fa t s) = fa_buffer fa" "fa_mapper (TrackPendingFramePacket now fa t s) = fa_mapper fa"
  by (simp_all add: TrackPendingFramePacket_def Let_def)

lemma TrackPendingFramePacket_cong:
  "fa_pending (TrackPendingFramePacket now (fa\<lparr>fa_h264 := x\<rparr>) t s) = fa_pending (TrackPendingFramePacket now fa t s)"
  "fa_pending (TrackPendingFramePacket now (fa\<lparr>fa_av1 := y\<rparr>) t s) = fa_pending (TrackPendingFramePacket now fa t s)"
  by (simp_all add: TrackPendingFramePacket_def Let_def)

lemma CommitPendingFrame_same [simp]:
  "fa_h264 (CommitPendingFrame now fa t f k e r) = fa_h264 fa" "fa_av1 (CommitPendingFrame now fa t f k e r) = fa_av1 fa"
  "fa_start (CommitPendingFrame now fa t f k e r) = fa_start fa" "fa_end (CommitPendingFrame now fa t f k e r) = fa_end fa"
  by (simp_all add: CommitPendingFrame_def Let_def)

text \<open>What a commit leaves in the pending frames.\<close>

definition committed :: "(u32, PendingFrame) omap \<Rightarrow> (u32, PendingFrame) omap \<Rightarrow> u32 \<Rightarrow> byte list \<Rightarrow> bool \<Rightarrow> u16 \<Rightarrow> bool" where
  "committed m m' t d key e \<longleftrightarrow> (\<exists>p f. map_of m' = (map_of m)(t \<mapsto> p) \<and> pf_is_complete p \<and> pf_frame p = Some f \<and>
     rf_data f = d \<and> pf_is_keyframe p = key \<and> pf_last_sequence_number p = Some e)"

lemma CommitPendingFrame_pending:
  assumes "circle.ordered b (fa_pending fa)" and "t \<in> half_circle b" and "r \<Longrightarrow> map_of (fa_pending fa) t \<noteq> None"
  shows "circle.ordered b (fa_pending (CommitPendingFrame now fa t f k e r)) \<and>
    committed (fa_pending fa) (fa_pending (CommitPendingFrame now fa t f k e r)) t (rf_data f) k e"
  using pending_laws [OF assms(1,2)] assms(3)
  by (auto simp: CommitPendingFrame_def Let_def RtpTimestampLess_before committed_def)

lemma committed_track:
  assumes "map_of m = (map_of m0)(t \<mapsto> p)" and "committed m m' t d k e"
  shows "committed m0 m' t d k e"
  using assms by (auto simp: committed_def)

lemma CreateReceivedFrame_same:
  "CreateReceivedFrame now fa d t = (f, fa') \<Longrightarrow> rf_data f = d \<and> fa' = fa\<lparr>fa_mapper := fa_mapper fa'\<rparr>"
  by (auto simp: CreateReceivedFrame_def split: prod.splits)

lemma EnsureFrameBufferCapacity_buffer:
  "\<exists>c. EnsureFrameBufferCapacity fa n = fa\<lparr>fa_buffer := Some c\<rparr> \<and> n \<le> c"
proof -
  have "fa = fa\<lparr>fa_buffer := Some c\<rparr>" if "fa_buffer fa = Some c" for c using that by (cases fa) simp
  then show ?thesis by (cases "fa_buffer fa") (force simp: EnsureFrameBufferCapacity_def)+
qed

section \<open>The interface of a codec\<close>

definition seq_block :: "u16 \<Rightarrow> nat \<Rightarrow> u16 set" where
  "seq_block a c = SequenceNumberAt a ` {0..<c}"

lemma SequenceNumberAt_inj:
  assumes "i < 4096" and "j < 4096" and "SequenceNumberAt a i = SequenceNumberAt a j"
  shows "i = j"
proof -
  have "unat (of_nat i :: u16) = unat (of_nat j :: u16)" using assms(3) by (simp add: SequenceNumberAt_def)
  then show ?thesis
    using unat_of_nat_small [of i, where 'a = 16] unat_of_nat_small [of j, where 'a = 16] assms(1,2) by simp
qed

lemma FramePacketCount_block:
  assumes "0 < n" and "n \<le> 4096"
  shows "FramePacketCount a (SequenceNumberAt a (n - 1)) = n" "SequenceNumberAt a 0 = a"
  using assms unat_of_nat_small [of "n - 1", where 'a = 16]
  by (simp_all add: FramePacketCount_def SequenceNumberAt_def kMaxPacketsPerFrame_def Let_def del: of_nat_diff)

text \<open>All packets of the frame \<open>t\<close> are stored, from \<open>a\<close> to \<open>e\<close>; and the markers after a packet.\<close>

definition due :: "('p \<Rightarrow> RtpPacket) \<Rightarrow> (u16 \<rightharpoonup> 'p) \<Rightarrow> (u32 \<rightharpoonup> u16) \<Rightarrow> (u32 \<rightharpoonup> u16) \<Rightarrow> u32 \<Rightarrow> u16 \<Rightarrow> u16 \<Rightarrow> nat \<Rightarrow> bool" where
  "due pkt st ss es t a e c \<longleftrightarrow> ss t = Some a \<and> es t = Some e \<and> c = FramePacketCount a e \<and> c \<noteq> 0 \<and>
     (\<forall>i < c. \<exists>q. st (SequenceNumberAt a i) = Some q \<and> rp_timestamp (pkt q) = t)"

definition marked :: "('p \<Rightarrow> RtpPacket) \<Rightarrow> bool \<Rightarrow> (u32 \<rightharpoonup> u16) \<Rightarrow> 'p \<Rightarrow> (u32 \<rightharpoonup> u16)" where
  "marked pkt m ss q = (if m then ss(rp_timestamp (pkt q) \<mapsto> rp_sequence_number (pkt q)) else ss)"

text \<open>
  What both codecs promise of the handling of one packet of a fragmented frame: it is stored and
  marked; if start and end marker delimit a range of at most 4096 packets that are all stored with
  this timestamp, the frame made of them is committed and the packets and markers are removed;
  otherwise nothing else changes. \<open>lead\<close> is what the codec puts before the payload.
\<close>

locale frame_codec =
  fixes step :: "timestamp \<Rightarrow> FrameAssembly \<Rightarrow> 'p \<Rightarrow> FrameAssembly option"
    and store :: "FrameAssembly \<Rightarrow> u16 \<rightharpoonup> 'p"
    and pkt :: "'p \<Rightarrow> RtpPacket"
    and fragment :: "'p \<Rightarrow> bool" and is_start :: "'p \<Rightarrow> bool" and is_end :: "'p \<Rightarrow> bool"
    and lead :: "'p \<Rightarrow> byte list" and key :: "'p \<Rightarrow> byte list \<Rightarrow> bool"
  assumes step_waits: "fragment q \<Longrightarrow> st = (store fa)(rp_sequence_number (pkt q) \<mapsto> q) \<Longrightarrow>
      ss = marked pkt (is_start q) (fa_start fa) q \<Longrightarrow> es = marked pkt (is_end q) (fa_end fa) q \<Longrightarrow>
      (\<And>a e c. \<not> due pkt st ss es (rp_timestamp (pkt q)) a e c) \<Longrightarrow>
      \<exists>fa'. step now fa q = Some fa' \<and> store fa' = st \<and> fa_start fa' = ss \<and> fa_end fa' = es \<and>
        fa_pending fa' = fa_pending (TrackPendingFramePacket now fa (rp_timestamp (pkt q)) (rp_sequence_number (pkt q)))"
    and step_completes: "fragment q \<Longrightarrow> st = (store fa)(rp_sequence_number (pkt q) \<mapsto> q) \<Longrightarrow>
      ss = marked pkt (is_start q) (fa_start fa) q \<Longrightarrow> es = marked pkt (is_end q) (fa_end fa) q \<Longrightarrow> t = rp_timestamp (pkt q) \<Longrightarrow>
      due pkt st ss es t a e c \<Longrightarrow> (\<And>i. i < c \<Longrightarrow> Payload (pkt (the (st (SequenceNumberAt a i)))) = Some (ds ! i)) \<Longrightarrow>
      length ds = c \<Longrightarrow> circle.ordered b (fa_pending fa) \<Longrightarrow> t \<in> half_circle b \<Longrightarrow>
      \<exists>fa'. step now fa q = Some fa' \<and> store fa' = (\<lambda>k. if k \<in> seq_block a c then None else st k) \<and>
        fa_start fa' = ss(t := None) \<and> fa_end fa' = es(t := None) \<and> circle.ordered b (fa_pending fa') \<and>
        committed (fa_pending fa) (fa_pending fa') t (lead (the (st a)) @ concat ds)
          (key (the (st a)) (lead (the (st a)) @ concat ds)) e"
begin

text \<open>Packet \<open>i\<close> of a frame of \<open>n\<close> packets that starts at number \<open>a\<close>.\<close>

definition frame_packets :: "u32 \<Rightarrow> u16 \<Rightarrow> 'p list \<Rightarrow> byte list list \<Rightarrow> bool" where
  "frame_packets t a qs ds \<longleftrightarrow> qs \<noteq> [] \<and> length qs \<le> 4096 \<and> length ds = length qs \<and>
     (\<forall>i < length qs. fragment (qs ! i) \<and> rp_timestamp (pkt (qs ! i)) = t \<and>
       rp_sequence_number (pkt (qs ! i)) = SequenceNumberAt a i \<and> (is_start (qs ! i) \<longleftrightarrow> i = 0) \<and>
       (is_end (qs ! i) \<longleftrightarrow> i = length qs - 1) \<and> Payload (pkt (qs ! i)) = Some (ds ! i))"

text \<open>Nothing of the frame is there yet.\<close>

definition unseen :: "FrameAssembly \<Rightarrow> u32 \<Rightarrow> bool" where
  "unseen fa t \<longleftrightarrow> fa_start fa t = None \<and> fa_end fa t = None \<and> map_of (fa_pending fa) t = None \<and>
     (\<forall>k q. store fa k = Some q \<longrightarrow> rp_timestamp (pkt q) \<noteq> t)"

text \<open>Packet \<open>i\<close> of a frame with the pieces \<open>ds\<close>, whatever object stands for it.\<close>

definition is_packet :: "u32 \<Rightarrow> u16 \<Rightarrow> byte list list \<Rightarrow> byte list \<Rightarrow> (byte list \<Rightarrow> bool) \<Rightarrow> nat \<Rightarrow> 'p \<Rightarrow> bool" where
  "is_packet t a ds l k i q \<longleftrightarrow> fragment q \<and> rp_timestamp (pkt q) = t \<and> rp_sequence_number (pkt q) = SequenceNumberAt a i \<and>
     (is_start q \<longleftrightarrow> i = 0) \<and> (is_end q \<longleftrightarrow> i = length ds - 1) \<and> Payload (pkt q) = Some (ds ! i) \<and>
     (i = 0 \<longrightarrow> lead q = l \<and> key q = k)"

lemma frame_packets_is_packet:
  "frame_packets t a qs ds \<Longrightarrow> i < length qs \<Longrightarrow> is_packet t a ds (lead (qs ! 0)) (key (qs ! 0)) i (qs ! i)"
  by (auto simp: frame_packets_def is_packet_def)

text \<open>The packets with index in \<open>I\<close> have arrived.\<close>

definition arrived :: "u32 \<Rightarrow> u16 \<Rightarrow> byte list list \<Rightarrow> byte list \<Rightarrow> (byte list \<Rightarrow> bool) \<Rightarrow> (u32 \<rightharpoonup> PendingFrame) \<Rightarrow> u32 \<Rightarrow> nat set \<Rightarrow>
    FrameAssembly \<Rightarrow> bool" where
  "arrived t a ds l c P b I fa \<longleftrightarrow>
     (\<forall>k q. store fa k = Some q \<and> rp_timestamp (pkt q) = t \<longrightarrow> (\<exists>i \<in> I. k = SequenceNumberAt a i)) \<and>
     (\<forall>i \<in> I. \<exists>q. store fa (SequenceNumberAt a i) = Some q \<and> is_packet t a ds l c i q) \<and>
     fa_start fa t = (if 0 \<in> I then Some a else None) \<and>
     fa_end fa t = (if length ds - 1 \<in> I then Some (SequenceNumberAt a (length ds - 1)) else None) \<and>
     circle.ordered b (fa_pending fa) \<and> \<not> entry_complete (fa_pending fa) t \<and>
     (\<forall>t'. t' \<noteq> t \<longrightarrow> map_of (fa_pending fa) t' = P t')"

lemma unseen_arrived: "unseen fa t \<Longrightarrow> circle.ordered b (fa_pending fa) \<Longrightarrow> arrived t a ds l c (map_of (fa_pending fa)) b {} fa"
  by (auto simp: arrived_def unseen_def entry_complete_def)

lemma arrived_marks:
  assumes "is_packet t a ds l c i q" and "arrived t a ds l c P b I fa"
  shows "marked pkt (is_start q) (fa_start fa) q t = (if 0 \<in> insert i I then Some a else None)"
    "marked pkt (is_end q) (fa_end fa) q t =
      (if length ds - 1 \<in> insert i I then Some (SequenceNumberAt a (length ds - 1)) else None)"
  using assms by (auto simp: marked_def is_packet_def arrived_def SequenceNumberAt_def)

lemma arrived_step:
  assumes "is_packet t a ds l c i q" and "arrived t a ds l c P b I fa" and "I \<subseteq> {0..<length ds}" and "i < length ds"
    and "insert i I \<noteq> {0..<length ds}" and "t \<in> half_circle b" and "length ds \<le> 4096"
  shows "\<exists>fa'. step now fa q = Some fa' \<and> arrived t a ds l c P b (insert i I) fa'"
proof -
  let ?n = "length ds"
  have q: "fragment q" "rp_timestamp (pkt q) = t" "rp_sequence_number (pkt q) = SequenceNumberAt a i"
    and n: "?n \<le> 4096" "0 < ?n"
    using assms(1,4,7) by (auto simp: is_packet_def)
  define st where "st = (store fa)(SequenceNumberAt a i \<mapsto> q)"
  note m = arrived_marks [OF assms(1,2)]
  have only: "\<exists>j \<in> insert i I. k = SequenceNumberAt a j" if "st k = Some r" "rp_timestamp (pkt r) = t" for k r
    using that assms(2) by (auto simp: st_def arrived_def split: if_splits)
  have "\<not> due pkt st (marked pkt (is_start q) (fa_start fa) q) (marked pkt (is_end q) (fa_end fa) q) t x e d" for x e d
  proof
    assume "due pkt st (marked pkt (is_start q) (fa_start fa) q) (marked pkt (is_end q) (fa_end fa) q) t x e d"
    then have "x = a" "e = SequenceNumberAt a (?n - 1)" "d = FramePacketCount x e"
      and all: "\<forall>j < d. \<exists>r. st (SequenceNumberAt x j) = Some r \<and> rp_timestamp (pkt r) = t"
      unfolding due_def m by (auto split: if_splits)
    then have c: "d = ?n" "x = a" using FramePacketCount_block [OF n(2,1), of a] by auto
    have "{0..<?n} \<subseteq> insert i I"
    proof
      fix j assume j: "j \<in> {0..<?n}"
      then obtain k where k: "k \<in> insert i I" "SequenceNumberAt a j = SequenceNumberAt a k"
        using all only c by fastforce
      moreover have "k < ?n" using k(1) assms(3,4) by auto
      ultimately show "j \<in> insert i I" using SequenceNumberAt_inj [of j k a] j n by auto
    qed
    with assms(3-5) show False by auto
  qed
  then obtain fa' where fa': "step now fa q = Some fa'" "store fa' = st" "fa_start fa' = marked pkt (is_start q) (fa_start fa) q"
    "fa_end fa' = marked pkt (is_end q) (fa_end fa) q" "fa_pending fa' = fa_pending (TrackPendingFramePacket now fa t (SequenceNumberAt a i))"
    using step_waits [OF q(1), of st fa _ _ now] unfolding q st_def by blast
  have o: "circle.ordered b (fa_pending fa)" and old: "\<not> entry_complete (fa_pending fa) t"
    "\<forall>t'. t' \<noteq> t \<longrightarrow> map_of (fa_pending fa) t' = P t'"
    "\<forall>i \<in> I. \<exists>q. store fa (SequenceNumberAt a i) = Some q \<and> is_packet t a ds l c i q"
    using assms(2) by (auto simp: arrived_def)
  have p: "circle.ordered b (fa_pending fa')" "\<exists>p. map_of (fa_pending fa') = (map_of (fa_pending fa))(t \<mapsto> p)"
    "\<not> entry_complete (fa_pending fa') t"
    using TrackPendingFramePacket_pending [OF o assms(6), of now "SequenceNumberAt a i"] old(1) unfolding fa'(5) by blast+
  have "j = i" if "j \<in> I" "SequenceNumberAt a j = SequenceNumberAt a i" for j
    using SequenceNumberAt_inj [OF _ _ that(2)] that(1) assms(3,4) n by auto
  then have "\<forall>j \<in> insert i I. \<exists>r. st (SequenceNumberAt a j) = Some r \<and> is_packet t a ds l c j r"
    using old(3) assms(1) unfolding st_def by (metis fun_upd_apply insert_iff)
  then have "arrived t a ds l c P b (insert i I) fa'"
    using m only p old(2) unfolding arrived_def fa'(2-4) by auto
  with fa'(1) show ?thesis by blast
qed

lemma arrived_run:
  assumes "frame_packets t a qs ds" and "t \<in> half_circle b" and "arrived t a ds (lead (qs ! 0)) (key (qs ! 0)) P b I fa"
    and "I \<union> snd ` set js \<noteq> {0..<length qs}" and "I \<union> snd ` set js \<subseteq> {0..<length qs}"
  shows "\<exists>fa'. foldM (\<lambda>(now, i) fa. step now fa (qs ! i)) js fa = Some fa' \<and>
    arrived t a ds (lead (qs ! 0)) (key (qs ! 0)) P b (I \<union> snd ` set js) fa'"
  using assms(3-5)
proof (induction js arbitrary: I fa)
  case (Cons j js)
  obtain now i where j: "j = (now, i)" by (cases j)
  have n: "length ds = length qs" "length qs \<le> 4096" using assms(1) by (simp_all add: frame_packets_def)
  have "insert i I \<noteq> {0..<length ds}" "i < length qs" "I \<subseteq> {0..<length ds}" using Cons.prems(2,3) j n by auto
  then obtain fa1 where fa1: "step now fa (qs ! i) = Some fa1" "arrived t a ds (lead (qs ! 0)) (key (qs ! 0)) P b (insert i I) fa1"
    using arrived_step [OF frame_packets_is_packet [OF assms(1)] Cons.prems(1), of i now] assms(2) n by auto
  have "insert i I \<union> snd ` set js = I \<union> snd ` set (j # js)" using j by auto
  then obtain fa' where "foldM (\<lambda>(now, i) fa. step now fa (qs ! i)) js fa1 = Some fa'"
    "arrived t a ds (lead (qs ! 0)) (key (qs ! 0)) P b (I \<union> snd ` set (j # js)) fa'"
    using Cons.IH [OF fa1(2)] Cons.prems(2,3) by auto
  with fa1(1) j show ?case by auto
qed simp

lemma arrived_complete:
  assumes "is_packet t a ds l c i q" and "t \<in> half_circle b" and "arrived t a ds l c P b I fa"
    and "i < length ds" and "insert i I = {0..<length ds}" and "length ds \<le> 4096"
  shows "\<exists>fa'. step now fa q = Some fa' \<and> fa_start fa' t = None \<and> fa_end fa' t = None \<and>
    (\<forall>k q. store fa' k = Some q \<longrightarrow> rp_timestamp (pkt q) \<noteq> t) \<and> circle.ordered b (fa_pending fa') \<and>
    committed (fa_pending fa) (fa_pending fa') t (l @ concat ds) (c (l @ concat ds)) (SequenceNumberAt a (length ds - 1))"
proof -
  let ?n = "length ds"
  define st where "st = (store fa)(SequenceNumberAt a i \<mapsto> q)"
  define ss es where "ss = marked pkt (is_start q) (fa_start fa) q" and "es = marked pkt (is_end q) (fa_end fa) q"
  have q: "fragment q" "rp_timestamp (pkt q) = t" "rp_sequence_number (pkt q) = SequenceNumberAt a i"
    and n: "?n \<le> 4096" "0 < ?n"
    using assms(1,4,6) by (auto simp: is_packet_def)
  note m = arrived_marks [OF assms(1,3), folded ss_def es_def, unfolded assms(5)]
  have old: "\<forall>j \<in> I. \<exists>q. store fa (SequenceNumberAt a j) = Some q \<and> is_packet t a ds l c j q"
    "\<forall>k q. store fa k = Some q \<and> rp_timestamp (pkt q) = t \<longrightarrow> (\<exists>i \<in> I. k = SequenceNumberAt a i)"
    "circle.ordered b (fa_pending fa)"
    using assms(3) by (auto simp: arrived_def)
  have st: "\<exists>r. st (SequenceNumberAt a j) = Some r \<and> is_packet t a ds l c j r" if "j < ?n" for j
  proof (cases "j = i")
    case False
    then have "SequenceNumberAt a j \<noteq> SequenceNumberAt a i" using SequenceNumberAt_inj [of j i a] that assms(4) n by auto
    moreover have "j \<in> insert i I" unfolding assms(5) using that by simp
    with False have "j \<in> I" by simp
    ultimately show ?thesis using old(1) by (simp add: st_def)
  qed (use assms(1) in \<open>simp add: st_def\<close>)
  have pk: "is_packet t a ds l c j (the (st (SequenceNumberAt a j)))" if "j < ?n" for j using st [OF that] by force
  have only: "k \<in> seq_block a ?n" if stored: "st k = Some r" "rp_timestamp (pkt r) = t" for k r
  proof (cases "k = SequenceNumberAt a i")
    case False
    then have "store fa k = Some r" using stored(1) by (simp add: st_def)
    then obtain j where "j \<in> I" "k = SequenceNumberAt a j" using stored(2) old(2) by blast
    then show ?thesis using assms(5) by (auto simp: seq_block_def)
  qed (use assms(4) in \<open>simp add: seq_block_def\<close>)
  have "\<forall>j < ?n. \<exists>r. st (SequenceNumberAt a j) = Some r \<and> rp_timestamp (pkt r) = t" using st unfolding is_packet_def by blast
  then have due: "due pkt st ss es t a (SequenceNumberAt a (?n - 1)) ?n"
    unfolding due_def using m FramePacketCount_block [OF n(2,1), of a] n by auto
  have pay: "\<And>j. j < ?n \<Longrightarrow> Payload (pkt (the (st (SequenceNumberAt a j)))) = Some (ds ! j)"
    using pk by (simp add: is_packet_def)
  have "SequenceNumberAt a 0 = a" by (simp add: SequenceNumberAt_def)
  then have first: "lead (the (st a)) = l" "key (the (st a)) = c" using pk [of 0] n by (simp_all add: is_packet_def)
  have st': "st = (store fa)(rp_sequence_number (pkt q) \<mapsto> q)" by (simp only: st_def q(3))
  obtain fa' where fa': "step now fa q = Some fa'" "store fa' = (\<lambda>k. if k \<in> seq_block a ?n then None else st k)"
    "fa_start fa' = ss(t := None)" "fa_end fa' = es(t := None)" "circle.ordered b (fa_pending fa')"
    "committed (fa_pending fa) (fa_pending fa') t (l @ concat ds) (c (l @ concat ds)) (SequenceNumberAt a (?n - 1))"
    using step_completes [OF q(1) st' ss_def es_def q(2) [symmetric] due pay refl old(3) assms(2), of now, unfolded first] by blast
  have "\<forall>k q. store fa' k = Some q \<longrightarrow> rp_timestamp (pkt q) \<noteq> t"
    unfolding fa'(2) using only by (auto split: if_splits)
  with fa' show ?thesis by auto
qed

text \<open>The frame is assembled from its packets in any order.\<close>

lemma assemble:
  assumes "frame_packets t a qs ds" and "t \<in> half_circle b" and "unseen fa t" and "circle.ordered b (fa_pending fa)"
    and "snd ` set js = {0..<length qs} - {i}" and "i < length qs"
  defines "frame \<equiv> lead (qs ! 0) @ concat ds"
  shows "\<exists>fa1 fa2 p f. foldM (\<lambda>(now, i) fa. step now fa (qs ! i)) js fa = Some fa1 \<and> \<not> entry_complete (fa_pending fa1) t \<and>
    step now fa1 (qs ! i) = Some fa2 \<and> circle.ordered b (fa_pending fa2) \<and>
    map_of (fa_pending fa2) = (map_of (fa_pending fa))(t \<mapsto> p) \<and> pf_is_complete p \<and> pf_frame p = Some f \<and> rf_data f = frame \<and>
    pf_is_keyframe p = key (qs ! 0) frame \<and> pf_last_sequence_number p = Some (SequenceNumberAt a (length qs - 1)) \<and>
    fa_start fa2 t = None \<and> fa_end fa2 t = None \<and> (\<forall>k q. store fa2 k = Some q \<longrightarrow> rp_timestamp (pkt q) \<noteq> t)"
proof -
  let ?P = "map_of (fa_pending fa)" and ?l = "lead (qs ! 0)" and ?c = "key (qs ! 0)"
  have n: "length ds = length qs" "length qs \<le> 4096" using assms(1) by (simp_all add: frame_packets_def)
  have A0: "arrived t a ds ?l ?c ?P b {} fa" using unseen_arrived [OF assms(3,4)] .
  have "{} \<union> snd ` set js \<noteq> {0..<length qs}" "{} \<union> snd ` set js \<subseteq> {0..<length qs}" using assms(5,6) by auto
  then obtain fa1 where fa1: "foldM (\<lambda>(now, i) fa. step now fa (qs ! i)) js fa = Some fa1"
    "arrived t a ds ?l ?c ?P b (snd ` set js) fa1"
    using arrived_run [OF assms(1,2) A0, of js] by auto
  have "insert i (snd ` set js) = {0..<length qs}" using assms(5,6) by auto
  then obtain fa2 where fa2: "step now fa1 (qs ! i) = Some fa2" "fa_start fa2 t = None" "fa_end fa2 t = None"
    "\<forall>k q. store fa2 k = Some q \<longrightarrow> rp_timestamp (pkt q) \<noteq> t" "circle.ordered b (fa_pending fa2)"
    "committed (fa_pending fa1) (fa_pending fa2) t frame (key (qs ! 0) frame) (SequenceNumberAt a (length qs - 1))"
    using arrived_complete [OF frame_packets_is_packet [OF assms(1,6)] assms(2) fa1(2), of now] assms(6) n unfolding frame_def by auto
  have other: "\<forall>t'. t' \<noteq> t \<longrightarrow> map_of (fa_pending fa1) t' = ?P t'" "\<not> entry_complete (fa_pending fa1) t"
    using fa1(2) by (auto simp: arrived_def)
  obtain p f where p: "map_of (fa_pending fa2) = (map_of (fa_pending fa1))(t \<mapsto> p)" "pf_is_complete p" "pf_frame p = Some f"
    "rf_data f = frame" "pf_is_keyframe p = key (qs ! 0) frame" "pf_last_sequence_number p = Some (SequenceNumberAt a (length qs - 1))"
    using fa2(6) by (auto simp: committed_def)
  have "map_of (fa_pending fa2) = ?P(t \<mapsto> p)" using p(1) other(1) by (auto simp: fun_eq_iff)
  with fa1(1) fa2(1-5) p(2-6) other(2) show ?thesis by blast
qed

end

section \<open>The state after tracking and marking a packet\<close>

definition mark_frame :: "timestamp \<Rightarrow> FrameAssembly \<Rightarrow> u32 \<Rightarrow> u16 \<Rightarrow> bool \<Rightarrow> bool \<Rightarrow> FrameAssembly" where
  "mark_frame now fa t seq s x =
     (let fa = TrackPendingFramePacket now fa t seq;
          fa = (if s then fa\<lparr>fa_start := (fa_start fa)(t \<mapsto> seq)\<rparr> else fa) in
      if x then fa\<lparr>fa_end := (fa_end fa)(t \<mapsto> seq)\<rparr> else fa)"

lemma mark_frame_fields [simp]:
  "fa_h264 (mark_frame now fa t seq s x) = fa_h264 fa" "fa_av1 (mark_frame now fa t seq s x) = fa_av1 fa"
  "fa_start (mark_frame now fa t seq s x) = (if s then (fa_start fa)(t \<mapsto> seq) else fa_start fa)"
  "fa_end (mark_frame now fa t seq s x) = (if x then (fa_end fa)(t \<mapsto> seq) else fa_end fa)"
  "fa_pending (mark_frame now fa t seq s x) = fa_pending (TrackPendingFramePacket now fa t seq)"
  by (simp_all add: mark_frame_def Let_def)

lemma GetFrameSequenceRange_iff:
  "GetFrameSequenceRange fa t = Some (a, e, c) \<longleftrightarrow>
    fa_start fa t = Some a \<and> fa_end fa t = Some e \<and> c = FramePacketCount a e \<and> c \<noteq> 0"
  by (auto simp: GetFrameSequenceRange_def Let_def split: option.splits)

lemma case_option_iff: "(case v of None \<Rightarrow> False | Some q \<Rightarrow> P q) \<longleftrightarrow> (\<exists>q. v = Some q \<and> P q)"
  by (cases v) simp_all

lemma due_bound: "due pkt st ss es t a e c \<Longrightarrow> c \<le> 4096"
  by (auto simp: due_def FramePacketCount_def kMaxPacketsPerFrame_def Let_def)

section \<open>H.264 is a codec\<close>

lemma Payload_length: "Payload p = Some d \<Longrightarrow> length d = rp_payload_size p"
  by (auto simp: Payload_def dest: seg_length)

lemma sum_list_lengths:
  assumes "\<And>i. i < n \<Longrightarrow> f i = length (ds ! i)" and "length ds = n"
  shows "sum_list (map f [0..<n]) = length (concat ds)"
proof -
  have "map f [0..<n] = map length ds" using assms by (intro nth_equalityI) simp_all
  then show ?thesis by (simp add: length_concat)
qed

lemma pop_h264_run:
  assumes "distinct is" and "set is \<subseteq> {0..<4096}" and "fa_buffer fa = Some cap"
    and "\<And>i. i \<in> set is \<Longrightarrow> \<exists>q. fa_h264 fa (SequenceNumberAt a i) = Some q \<and> Payload (h264_packet q) = Some (d i)"
    and "length dest + length (concat (map d is)) \<le> cap"
  shows "foldM (pop_h264 a) is (dest, fa) = Some (dest @ concat (map d is),
    fa\<lparr>fa_h264 := (\<lambda>k. if k \<in> SequenceNumberAt a ` set is then None else fa_h264 fa k)\<rparr>)"
  using assms
proof (induction "is" arbitrary: dest fa)
  case (Cons i "is")
  obtain q where q: "fa_h264 fa (SequenceNumberAt a i) = Some q" "Payload (h264_packet q) = Some (d i)"
    using Cons.prems(4) by force
  let ?fa = "fa\<lparr>fa_h264 := (fa_h264 fa)(SequenceNumberAt a i := None)\<rparr>"
  have step: "pop_h264 a i (dest, fa) = Some (dest @ d i, ?fa)"
    using q Cons.prems(3,5) by (simp add: pop_h264_def buffer_write_def)
  have "SequenceNumberAt a j \<noteq> SequenceNumberAt a i" if "j \<in> set is" for j
    using SequenceNumberAt_inj [of j i a] that Cons.prems(1,2) by fastforce
  then have "foldM (pop_h264 a) is (dest @ d i, ?fa) = Some ((dest @ d i) @ concat (map d is),
      ?fa\<lparr>fa_h264 := (\<lambda>k. if k \<in> SequenceNumberAt a ` set is then None else fa_h264 ?fa k)\<rparr>)"
    using Cons.prems by (intro Cons.IH) auto
  then show ?case by (simp add: step) (auto simp: fun_eq_iff)
qed simp

lemma h264_check:
  fixes q :: RtpPacketH264
  assumes "t = rp_timestamp (h264_packet q)" and "m = mark_frame now fa t (rp_sequence_number (h264_packet q)) s x"
  shows "(\<And>a e c. \<not> due h264_packet (fa_h264 fa) (fa_start m) (fa_end m) t a e c) \<Longrightarrow>
      CheckIsH264FrameCompleted now fa q s x = Some m"
    "due h264_packet (fa_h264 fa) (fa_start m) (fa_end m) t a e c \<Longrightarrow>
      CheckIsH264FrameCompleted now fa q s x = PopCompleteFrame now m a e c t"
proof -
  let ?all = "\<lambda>a c. list_all (\<lambda>offset. case fa_h264 m (SequenceNumberAt a offset) of None \<Rightarrow> False
      | Some q \<Rightarrow> rp_timestamp (h264_packet q) = t) [0..<c]"
  have C: "CheckIsH264FrameCompleted now fa q s x = (case GetFrameSequenceRange m t of None \<Rightarrow> Some m
      | Some (a, e, c) \<Rightarrow> if ?all a c then PopCompleteFrame now m a e c t else Some m)"
    unfolding CheckIsH264FrameCompleted_def Let_def assms mark_frame_def by (rule refl)
  have A: "?all a c \<longleftrightarrow> (\<forall>i < c. \<exists>q. fa_h264 fa (SequenceNumberAt a i) = Some q \<and> rp_timestamp (h264_packet q) = t)" for a c
    by (simp add: list_all_iff assms(2) case_option_iff Ball_def)
  have D: "due h264_packet (fa_h264 fa) (fa_start m) (fa_end m) t a e c \<longleftrightarrow>
      GetFrameSequenceRange m t = Some (a, e, c) \<and> ?all a c" for a e c
    unfolding due_def A GetFrameSequenceRange_iff by blast
  show "CheckIsH264FrameCompleted now fa q s x = Some m"
    if "\<And>a e c. \<not> due h264_packet (fa_h264 fa) (fa_start m) (fa_end m) t a e c"
    using that unfolding C D by (cases "GetFrameSequenceRange m t") auto
  show "CheckIsH264FrameCompleted now fa q s x = PopCompleteFrame now m a e c t"
    if "due h264_packet (fa_h264 fa) (fa_start m) (fa_end m) t a e c"
    using that unfolding C D by simp
qed

definition h264_header :: "RtpPacketH264 \<Rightarrow> byte" where
  "h264_header q = push_bit 7 (fui_forbidden_bit q) OR push_bit 5 (fui_nal_reference_idc q) OR fuh_nal_unit_type q"

lemma finish_frame:
  fixes k :: bool and e :: u16
  assumes "CreateReceivedFrame now fa d t = (f, fa1)" and "circle.ordered b (fa_pending fa)" and "t \<in> half_circle b"
    and "map_of (fa_pending fa) t \<noteq> None"
  defines "fa2 \<equiv> CommitPendingFrame now (ClearFrameMarkers fa1 t) t f k e True"
  shows "rf_data f = d \<and> fa_h264 fa2 = fa_h264 fa \<and> fa_av1 fa2 = fa_av1 fa \<and> fa_start fa2 = (fa_start fa)(t := None) \<and>
    fa_end fa2 = (fa_end fa)(t := None) \<and> circle.ordered b (fa_pending fa2) \<and>
    committed (fa_pending fa) (fa_pending fa2) t d k e"
proof -
  have d: "rf_data f = d" "\<exists>m. fa1 = fa\<lparr>fa_mapper := m\<rparr>" using CreateReceivedFrame_same [OF assms(1)] by auto
  then have p: "fa_pending (ClearFrameMarkers fa1 t) = fa_pending fa" by (auto simp: ClearFrameMarkers_def)
  then have "circle.ordered b (fa_pending (ClearFrameMarkers fa1 t))" using assms(2) by simp
  from CommitPendingFrame_pending [OF this assms(3), of True now f k e] show ?thesis
    using assms(4) d unfolding fa2_def p by (auto simp: ClearFrameMarkers_def)
qed

lemma PopCompleteFrame_run:
  assumes "due h264_packet (fa_h264 m) (fa_start m) (fa_end m) t a e c" and "length ds = c"
    and "\<And>i. i < c \<Longrightarrow> Payload (h264_packet (the (fa_h264 m (SequenceNumberAt a i)))) = Some (ds ! i)"
    and "circle.ordered b (fa_pending m)" and "t \<in> half_circle b" and "map_of (fa_pending m) t \<noteq> None"
  defines "frame \<equiv> h264_header (the (fa_h264 m a)) # concat ds"
  shows "\<exists>fa'. PopCompleteFrame now m a e c t = Some fa' \<and>
    fa_h264 fa' = (\<lambda>k. if k \<in> seq_block a c then None else fa_h264 m k) \<and>
    fa_start fa' = (fa_start m)(t := None) \<and> fa_end fa' = (fa_end m)(t := None) \<and> circle.ordered b (fa_pending fa') \<and>
    committed (fa_pending m) (fa_pending fa') t frame (IsH264KeyFrame frame) e"
proof -
  have st: "\<And>i. i < c \<Longrightarrow> \<exists>q. fa_h264 m (SequenceNumberAt a i) = Some q" and c: "0 < c" "c \<le> 4096"
    using assms(1) due_bound [OF assms(1)] unfolding due_def by blast+
  obtain q where q: "fa_h264 m a = Some q" using st [OF c(1)] by (auto simp: SequenceNumberAt_def)
  have pay: "\<exists>q. fa_h264 m (SequenceNumberAt a i) = Some q \<and> Payload (h264_packet q) = Some (ds ! i)" if "i < c" for i
    using st [OF that] assms(3) [OF that] by auto
  have size: "sum_list (map (\<lambda>offset. case fa_h264 m (SequenceNumberAt a offset) of None \<Rightarrow> 0
      | Some q \<Rightarrow> rp_payload_size (h264_packet q)) [0..<c]) = length (concat ds)"
    by (rule sum_list_lengths) (use pay assms(2) in \<open>force dest: Payload_length\<close>)+
  obtain cap where cap: "EnsureFrameBufferCapacity m (length (concat ds) + 1) = m\<lparr>fa_buffer := Some cap\<rparr>" "length (concat ds) + 1 \<le> cap"
    using EnsureFrameBufferCapacity_buffer by blast
  let ?m = "m\<lparr>fa_buffer := Some cap\<rparr>"
  have "map ((!) ds) [0..<c] = ds" using assms(2) map_nth by blast
  then have pop: "foldM (pop_h264 a) [0..<c] ([h264_header q], ?m) =
      Some (frame, ?m\<lparr>fa_h264 := (\<lambda>k. if k \<in> seq_block a c then None else fa_h264 m k)\<rparr>)"
    using pop_h264_run [of "[0..<c]" ?m cap a "(!) ds" "[h264_header q]"] pay cap(2) c(2) q
    by (simp add: frame_def seq_block_def cong: if_cong)
  obtain f fa1 where f: "CreateReceivedFrame now (?m\<lparr>fa_h264 := (\<lambda>k. if k \<in> seq_block a c then None else fa_h264 m k)\<rparr>) frame t = (f, fa1)"
    by fastforce
  note fin = finish_frame [OF f, of b "IsH264KeyFrame frame" e]
  have "PopCompleteFrame now m a e c t =
      Some (CommitPendingFrame now (ClearFrameMarkers fa1 t) t f (IsH264KeyFrame frame) e True)"
    unfolding PopCompleteFrame_def Let_def size cap(1) h264_header_def [symmetric]
    using q cap(2) pop f CreateReceivedFrame_same [OF f] by (simp add: buffer_write_def)
  then show ?thesis using fin assms(4-6) by simp
qed

interpretation h264: frame_codec ProcessH264RtpPacket fa_h264 h264_packet "\<lambda>q. fui_nal_unit_type q = NAL_FU_A"
  fuh_start fuh_end "\<lambda>q. [h264_header q]" "\<lambda>q. IsH264KeyFrame"
proof unfold_locales
  fix q st ss es now and fa :: FrameAssembly
  assume q: "fui_nal_unit_type q = NAL_FU_A" and st: "st = (fa_h264 fa)(rp_sequence_number (h264_packet q) \<mapsto> q)"
    and ss: "ss = marked h264_packet (fuh_start q) (fa_start fa) q" and es: "es = marked h264_packet (fuh_end q) (fa_end fa) q"
  let ?t = "rp_timestamp (h264_packet q)" and ?s = "rp_sequence_number (h264_packet q)"
  define m where "m = mark_frame now (fa\<lparr>fa_h264 := st\<rparr>) ?t ?s (fuh_start q) (fuh_end q)"
  have m: "fa_h264 m = st" "fa_start m = ss" "fa_end m = es" "fa_pending m = fa_pending (TrackPendingFramePacket now fa ?t ?s)"
    by (simp_all add: m_def ss es marked_def TrackPendingFramePacket_cong)
  have P: "ProcessH264RtpPacket now fa q = CheckIsH264FrameCompleted now (fa\<lparr>fa_h264 := st\<rparr>) q (fuh_start q) (fuh_end q)"
    using q by (simp add: ProcessH264RtpPacket_def Let_def st NAL_FU_A_def NAL_NALU_def)
  note C = h264_check [OF refl m_def]
  show "\<exists>fa'. ProcessH264RtpPacket now fa q = Some fa' \<and> fa_h264 fa' = st \<and> fa_start fa' = ss \<and> fa_end fa' = es \<and>
      fa_pending fa' = fa_pending (TrackPendingFramePacket now fa ?t ?s)" if "\<And>a e c. \<not> due h264_packet st ss es ?t a e c"
    using C(1) m that unfolding P by simp
  show "\<exists>fa'. ProcessH264RtpPacket now fa q = Some fa' \<and> fa_h264 fa' = (\<lambda>k. if k \<in> seq_block a c then None else st k) \<and>
      fa_start fa' = ss(t := None) \<and> fa_end fa' = es(t := None) \<and> circle.ordered b (fa_pending fa') \<and>
      committed (fa_pending fa) (fa_pending fa') t ([h264_header (the (st a))] @ concat ds)
        (IsH264KeyFrame ([h264_header (the (st a))] @ concat ds)) e"
    if t: "t = ?t" and d: "due h264_packet st ss es t a e c"
      and pay: "\<And>i. i < c \<Longrightarrow> Payload (h264_packet (the (st (SequenceNumberAt a i)))) = Some (ds ! i)"
      and ds: "length ds = c" and o: "circle.ordered b (fa_pending fa)" and b: "t \<in> half_circle b" for t a e c ds b
  proof -
    have T: "circle.ordered b (fa_pending m)" "\<exists>p. map_of (fa_pending m) = (map_of (fa_pending fa))(t \<mapsto> p)"
      using TrackPendingFramePacket_pending [OF o b, of now ?s] unfolding m t by blast+
    have d': "due h264_packet (fa_h264 m) (fa_start m) (fa_end m) t a e c" using d by (simp only: m)
    have "CheckIsH264FrameCompleted now (fa\<lparr>fa_h264 := st\<rparr>) q (fuh_start q) (fuh_end q) = PopCompleteFrame now m a e c t"
      using C(2) [of a e c] d unfolding m t by simp
    moreover have "map_of (fa_pending m) t \<noteq> None" using T(2) by auto
    ultimately show ?thesis
      using PopCompleteFrame_run [OF d' ds _ T(1) b, of now] pay committed_track T(2) unfolding P m(1-3) by fastforce
  qed
qed

section \<open>AV1 is a codec\<close>

lemma pop_av1_run:
  assumes "distinct is" and "set is \<subseteq> {0..<4096}" and "fa_buffer fa = Some cap"
    and "\<And>i. i \<in> set is \<Longrightarrow> \<exists>q. fa_av1 fa (SequenceNumberAt a i) = Some q \<and> Payload (av1_packet q) = Some (d i)"
    and "length dest + length (concat (map d is)) \<le> cap"
  shows "foldM (pop_av1 a) is (dest, fa) = Some (dest @ concat (map d is),
    fa\<lparr>fa_av1 := (\<lambda>k. if k \<in> SequenceNumberAt a ` set is then None else fa_av1 fa k)\<rparr>)"
  using assms
proof (induction "is" arbitrary: dest fa)
  case (Cons i "is")
  obtain q where q: "fa_av1 fa (SequenceNumberAt a i) = Some q" "Payload (av1_packet q) = Some (d i)"
    using Cons.prems(4) by force
  let ?fa = "fa\<lparr>fa_av1 := (fa_av1 fa)(SequenceNumberAt a i := None)\<rparr>"
  have step: "pop_av1 a i (dest, fa) = Some (dest @ d i, ?fa)"
    using q Cons.prems(3,5) by (simp add: pop_av1_def buffer_write_def)
  have "SequenceNumberAt a j \<noteq> SequenceNumberAt a i" if "j \<in> set is" for j
    using SequenceNumberAt_inj [of j i a] that Cons.prems(1,2) by fastforce
  then have "foldM (pop_av1 a) is (dest @ d i, ?fa) = Some ((dest @ d i) @ concat (map d is),
      ?fa\<lparr>fa_av1 := (\<lambda>k. if k \<in> SequenceNumberAt a ` set is then None else fa_av1 ?fa k)\<rparr>)"
    using Cons.prems by (intro Cons.IH) auto
  then show ?case by (simp add: step) (auto simp: fun_eq_iff)
qed simp

text \<open>The completion branch of \<open>CheckIsAv1FrameCompleted\<close>, named.\<close>

definition pop_av1_frame :: "timestamp \<Rightarrow> FrameAssembly \<Rightarrow> u16 \<Rightarrow> u16 \<Rightarrow> nat \<Rightarrow> u32 \<Rightarrow> FrameAssembly option" where
  "pop_av1_frame now fa start_seq end_seq pkt_count timestamp = do {
     first \<leftarrow> fa_av1 fa start_seq;
     let is_keyframe = Av1_IsKeyFrame first;
         complete_frame_size = sum_list (map (\<lambda>offset. case fa_av1 fa (SequenceNumberAt start_seq offset) of None \<Rightarrow> 0
           | Some q \<Rightarrow> rp_payload_size (av1_packet q)) [0..<pkt_count]);
         fa = EnsureFrameBufferCapacity fa complete_frame_size in do {
     (dest, fa) \<leftarrow> foldM (pop_av1 start_seq) [0..<pkt_count] ([], fa);
     d \<leftarrow> seg dest 0 complete_frame_size;
     let (frame, fa) = CreateReceivedFrame now fa d timestamp; fa = ClearFrameMarkers fa timestamp in
     Some (CommitPendingFrame now fa timestamp frame is_keyframe end_seq True) } }"

lemma av1_check:
  fixes q :: RtpPacketAv1
  assumes "t = rp_timestamp (av1_packet q)" and "m = mark_frame now fa t (rp_sequence_number (av1_packet q)) (Av1FrameStart q) (Av1FrameEnd q)"
  shows "(\<And>a e c. \<not> due av1_packet (fa_av1 fa) (fa_start m) (fa_end m) t a e c) \<Longrightarrow> CheckIsAv1FrameCompleted now fa q = Some m"
    "due av1_packet (fa_av1 fa) (fa_start m) (fa_end m) t a e c \<Longrightarrow>
      CheckIsAv1FrameCompleted now fa q = pop_av1_frame now m a e c t"
proof -
  let ?all = "\<lambda>a c. list_all (\<lambda>offset. case fa_av1 m (SequenceNumberAt a offset) of None \<Rightarrow> False
      | Some q \<Rightarrow> rp_timestamp (av1_packet q) = t) [0..<c]"
  have C: "CheckIsAv1FrameCompleted now fa q = (case GetFrameSequenceRange m t of None \<Rightarrow> Some m
      | Some (a, e, c) \<Rightarrow> if ?all a c then pop_av1_frame now m a e c t else Some m)"
    unfolding CheckIsAv1FrameCompleted_def Let_def assms mark_frame_def pop_av1_frame_def by (rule refl)
  have A: "?all a c \<longleftrightarrow> (\<forall>i < c. \<exists>q. fa_av1 fa (SequenceNumberAt a i) = Some q \<and> rp_timestamp (av1_packet q) = t)" for a c
    by (simp add: list_all_iff assms(2) case_option_iff Ball_def)
  have D: "due av1_packet (fa_av1 fa) (fa_start m) (fa_end m) t a e c \<longleftrightarrow>
      GetFrameSequenceRange m t = Some (a, e, c) \<and> ?all a c" for a e c
    unfolding due_def A GetFrameSequenceRange_iff by blast
  show "CheckIsAv1FrameCompleted now fa q = Some m"
    if "\<And>a e c. \<not> due av1_packet (fa_av1 fa) (fa_start m) (fa_end m) t a e c"
    using that unfolding C D by (cases "GetFrameSequenceRange m t") auto
  show "CheckIsAv1FrameCompleted now fa q = pop_av1_frame now m a e c t"
    if "due av1_packet (fa_av1 fa) (fa_start m) (fa_end m) t a e c"
    using that unfolding C D by simp
qed

lemma pop_av1_frame_run:
  assumes "due av1_packet (fa_av1 m) (fa_start m) (fa_end m) t a e c" and "length ds = c"
    and "\<And>i. i < c \<Longrightarrow> Payload (av1_packet (the (fa_av1 m (SequenceNumberAt a i)))) = Some (ds ! i)"
    and "circle.ordered b (fa_pending m)" and "t \<in> half_circle b" and "map_of (fa_pending m) t \<noteq> None"
  shows "\<exists>fa'. pop_av1_frame now m a e c t = Some fa' \<and>
    fa_av1 fa' = (\<lambda>k. if k \<in> seq_block a c then None else fa_av1 m k) \<and>
    fa_start fa' = (fa_start m)(t := None) \<and> fa_end fa' = (fa_end m)(t := None) \<and> circle.ordered b (fa_pending fa') \<and>
    committed (fa_pending m) (fa_pending fa') t (concat ds) (Av1_IsKeyFrame (the (fa_av1 m a))) e"
proof -
  have st: "\<And>i. i < c \<Longrightarrow> \<exists>q. fa_av1 m (SequenceNumberAt a i) = Some q" and c: "0 < c" "c \<le> 4096"
    using assms(1) due_bound [OF assms(1)] unfolding due_def by blast+
  obtain q where q: "fa_av1 m a = Some q" using st [OF c(1)] by (auto simp: SequenceNumberAt_def)
  have pay: "\<exists>q. fa_av1 m (SequenceNumberAt a i) = Some q \<and> Payload (av1_packet q) = Some (ds ! i)" if "i < c" for i
    using st [OF that] assms(3) [OF that] by auto
  have size: "sum_list (map (\<lambda>offset. case fa_av1 m (SequenceNumberAt a offset) of None \<Rightarrow> 0
      | Some q \<Rightarrow> rp_payload_size (av1_packet q)) [0..<c]) = length (concat ds)"
    by (rule sum_list_lengths) (use pay assms(2) in \<open>force dest: Payload_length\<close>)+
  obtain cap where cap: "EnsureFrameBufferCapacity m (length (concat ds)) = m\<lparr>fa_buffer := Some cap\<rparr>" "length (concat ds) \<le> cap"
    using EnsureFrameBufferCapacity_buffer by blast
  let ?m = "m\<lparr>fa_buffer := Some cap\<rparr>"
  let ?m' = "?m\<lparr>fa_av1 := (\<lambda>k. if k \<in> seq_block a c then None else fa_av1 m k)\<rparr>"
  have "map ((!) ds) [0..<c] = ds" using assms(2) map_nth by blast
  then have pop: "foldM (pop_av1 a) [0..<c] ([], ?m) = Some (concat ds, ?m')"
    using pop_av1_run [of "[0..<c]" ?m cap a "(!) ds" "[]"] pay cap(2) c(2)
    by (simp add: seq_block_def cong: if_cong)
  obtain f fa1 where f: "CreateReceivedFrame now ?m' (concat ds) t = (f, fa1)" by fastforce
  have "seg (concat ds) 0 (length (concat ds)) = Some (concat ds)" by (simp add: seg_def)
  then have "pop_av1_frame now m a e c t =
      Some (CommitPendingFrame now (ClearFrameMarkers fa1 t) t f (Av1_IsKeyFrame q) e True)"
    unfolding pop_av1_frame_def Let_def size cap(1) using q pop f by simp
  then show ?thesis using finish_frame [OF f, of b "Av1_IsKeyFrame q" e] q assms(4-6) by simp
qed

interpretation av1: frame_codec ProcessAv1RtpPacket fa_av1 av1_packet "\<lambda>_. True" Av1FrameStart Av1FrameEnd
  "\<lambda>_. []" "\<lambda>q _. Av1_IsKeyFrame q"
proof unfold_locales
  fix q st ss es now and fa :: FrameAssembly
  assume st: "st = (fa_av1 fa)(rp_sequence_number (av1_packet q) \<mapsto> q)"
    and ss: "ss = marked av1_packet (Av1FrameStart q) (fa_start fa) q" and es: "es = marked av1_packet (Av1FrameEnd q) (fa_end fa) q"
  let ?t = "rp_timestamp (av1_packet q)" and ?s = "rp_sequence_number (av1_packet q)"
  define m where "m = mark_frame now (fa\<lparr>fa_av1 := st\<rparr>) ?t ?s (Av1FrameStart q) (Av1FrameEnd q)"
  have m: "fa_av1 m = st" "fa_start m = ss" "fa_end m = es" "fa_pending m = fa_pending (TrackPendingFramePacket now fa ?t ?s)"
    by (simp_all add: m_def ss es marked_def TrackPendingFramePacket_cong)
  have P: "ProcessAv1RtpPacket now fa q = CheckIsAv1FrameCompleted now (fa\<lparr>fa_av1 := st\<rparr>) q"
    by (simp add: ProcessAv1RtpPacket_def st)
  note C = av1_check [OF refl m_def]
  show "\<exists>fa'. ProcessAv1RtpPacket now fa q = Some fa' \<and> fa_av1 fa' = st \<and> fa_start fa' = ss \<and> fa_end fa' = es \<and>
      fa_pending fa' = fa_pending (TrackPendingFramePacket now fa ?t ?s)" if "\<And>a e c. \<not> due av1_packet st ss es ?t a e c"
    using C(1) m that unfolding P by simp
  show "\<exists>fa'. ProcessAv1RtpPacket now fa q = Some fa' \<and> fa_av1 fa' = (\<lambda>k. if k \<in> seq_block a c then None else st k) \<and>
      fa_start fa' = ss(t := None) \<and> fa_end fa' = es(t := None) \<and> circle.ordered b (fa_pending fa') \<and>
      committed (fa_pending fa) (fa_pending fa') t ([] @ concat ds) (Av1_IsKeyFrame (the (st a))) e"
    if t: "t = ?t" and d: "due av1_packet st ss es t a e c"
      and pay: "\<And>i. i < c \<Longrightarrow> Payload (av1_packet (the (st (SequenceNumberAt a i)))) = Some (ds ! i)"
      and ds: "length ds = c" and o: "circle.ordered b (fa_pending fa)" and b: "t \<in> half_circle b" for t a e c ds b
  proof -
    have T: "circle.ordered b (fa_pending m)" "\<exists>p. map_of (fa_pending m) = (map_of (fa_pending fa))(t \<mapsto> p)"
      using TrackPendingFramePacket_pending [OF o b, of now ?s] unfolding m t by blast+
    have d': "due av1_packet (fa_av1 m) (fa_start m) (fa_end m) t a e c" using d by (simp only: m)
    have "CheckIsAv1FrameCompleted now (fa\<lparr>fa_av1 := st\<rparr>) q = pop_av1_frame now m a e c t"
      using C(2) [of a e c] d unfolding m t by simp
    moreover have "map_of (fa_pending m) t \<noteq> None" using T(2) by auto
    ultimately show ?thesis
      using pop_av1_frame_run [OF d' ds _ T(1) b, of now] pay committed_track T(2) unfolding P m(1-3) by fastforce
  qed
qed

section \<open>From the packetizers to the pending frames\<close>

lemma H264_fua_packets:
  assumes "pz_ok z" and "unat (ucast (pz_payload_type z) :: byte) < 128"
    and "(ucast (pz_payload_type z) :: byte) \<noteq> PT_RTX" and "n \<le> length payload"
    and "MAX_NALU_LEN < n" and "packet_count n \<le> 4096"
  shows "\<exists>ps z' qs. H264_Build z payload n ts = Some (ps, z') \<and> length ps = packet_count n \<and> length qs = packet_count n \<and>
    (\<forall>i < packet_count n. rp_padding_size (ps ! i) = 0 \<and> built z (i = packet_count n - 1) (ucast (pz_payload_type z)) (pz_sequence_number z + 1 + of_nat i) ts
      ([fu_indicator_byte, fu_header_byte (i = 0) (i = packet_count n - 1)] @ chunk payload n i) (ps ! i)) \<and>
    (\<forall>i < packet_count n. open_h264 h (rp_buffer (ps ! i)) (length (rp_buffer (ps ! i))) = Some (True, qs ! i)) \<and>
    h264.frame_packets ts (pz_sequence_number z + 1) qs (map (chunk payload n) [0..<packet_count n]) \<and> h264_header (qs ! 0) = 28"
proof -
  let ?c = "packet_count n"
  obtain ps z' where ps: "BuildFua z payload n ts = Some (ps, z')" "length ps = ?c"
    "\<forall>i < ?c. rp_padding_size (ps ! i) = 0 \<and>
      built z (i = ?c - 1) (ucast (pz_payload_type z)) (pz_sequence_number z + 1 + of_nat i) ts
      ([fu_indicator_byte, fu_header_byte (i = 0) (i = ?c - 1)] @ chunk payload n i) (ps ! i)"
    using BuildFua_run [OF assms(1,2,4), of ts] by blast
  have "length (chunk payload n i) < 2 ^ 63" for i
    using chunk_length [of payload n i] by (simp add: MAX_NALU_LEN_def)
  note open1 = open_h264_fua [OF _ assms(3) this, of z]
  have "\<exists>q. open_h264 h (rp_buffer (ps ! i)) (length (rp_buffer (ps ! i))) = Some (True, q) \<and>
      Payload (h264_packet q) = Some (chunk payload n i) \<and> fui_nal_unit_type q = NAL_FU_A \<and>
      (fuh_start q \<longleftrightarrow> i = 0) \<and> (fuh_end q \<longleftrightarrow> i = ?c - 1) \<and> h264_header q = 28 \<and>
      rp_sequence_number (h264_packet q) = SequenceNumberAt (pz_sequence_number z + 1) i \<and> rp_timestamp (h264_packet q) = ts"
    if "i < ?c" for i
    using open1 [of "i = ?c - 1" "pz_sequence_number z + 1 + of_nat i" ts "i = 0" "i = ?c - 1" i "ps ! i" h] ps(3) that
    by (auto simp: h264_header_def NAL_FU_A_def SequenceNumberAt_def)
  then obtain f where f: "\<And>i. i < ?c \<Longrightarrow> open_h264 h (rp_buffer (ps ! i)) (length (rp_buffer (ps ! i))) = Some (True, f i) \<and>
      Payload (h264_packet (f i)) = Some (chunk payload n i) \<and> fui_nal_unit_type (f i) = NAL_FU_A \<and>
      (fuh_start (f i) \<longleftrightarrow> i = 0) \<and> (fuh_end (f i) \<longleftrightarrow> i = ?c - 1) \<and> h264_header (f i) = 28 \<and>
      rp_sequence_number (h264_packet (f i)) = SequenceNumberAt (pz_sequence_number z + 1) i \<and>
      rp_timestamp (h264_packet (f i)) = ts"
    by metis
  have "0 < ?c" using assms(5) packet_count_pos [of n] by simp
  then have "h264.frame_packets ts (pz_sequence_number z + 1) (map f [0..<?c]) (map (chunk payload n) [0..<?c])"
    "h264_header (map f [0..<?c] ! 0) = 28"
    using f assms(6) by (auto simp: h264.frame_packets_def)
  moreover have "H264_Build z payload n ts = Some (ps, z')" using ps(1) assms(5) by (simp add: H264_Build_def)
  ultimately show ?thesis using ps f by (intro exI [of _ ps] exI [of _ z'] exI [of _ "map f [0..<?c]"]) simp
qed

text \<open>A frame of which nothing is known, and a receiver that has assembled it.\<close>

definition unknown_frame :: "FrameAssembly \<Rightarrow> u32 \<Rightarrow> bool" where
  "unknown_frame fa t \<longleftrightarrow> fa_start fa t = None \<and> fa_end fa t = None \<and> map_of (fa_pending fa) t = None \<and>
     (\<forall>k q. fa_h264 fa k = Some q \<longrightarrow> rp_timestamp (h264_packet q) \<noteq> t) \<and>
     (\<forall>k q. fa_av1 fa k = Some q \<longrightarrow> rp_timestamp (av1_packet q) \<noteq> t)"

definition assembled :: "FrameAssembly \<Rightarrow> FrameAssembly \<Rightarrow> u32 \<Rightarrow> byte list \<Rightarrow> bool \<Rightarrow> u16 \<Rightarrow> bool" where
  "assembled fa fa' t d key e \<longleftrightarrow> (\<exists>p f. map_of (fa_pending fa') = (map_of (fa_pending fa))(t \<mapsto> p) \<and>
     pf_is_complete p \<and> pf_frame p = Some f \<and> rf_data f = d \<and> pf_is_keyframe p = key \<and>
     pf_last_sequence_number p = Some e) \<and> fa_start fa' t = None \<and> fa_end fa' t = None"

lemma new_FrameAssembly_start: "unknown_frame new_FrameAssembly t" "circle.ordered b (fa_pending new_FrameAssembly)"
  by (simp_all add: unknown_frame_def new_FrameAssembly_def)

lemma early_timestamp: "(t :: u32) < 2 ^ 31 \<Longrightarrow> t \<in> half_circle 0"
  by (simp add: half_circle_def word_less_def)

text \<open>Packets that a packetizer for AV1 makes of a frame are the packets of a frame.\<close>

lemma Av1_frame_packets:
  assumes "\<forall>i < length qs. \<exists>d. av1_view a ts (length qs) i d (ps ! i) (qs ! i)" and "qs \<noteq> []" and "length qs \<le> 4096"
  shows "av1.frame_packets ts (pz_sequence_number (av_base a) + 1) qs (map (\<lambda>q. the (Payload (av1_packet q))) qs)"
  using assms by (fastforce simp: av1.frame_packets_def av1_view_def SequenceNumberAt_def)

section \<open>Properties\<close>

text \<open>
  C4: an H.264 frame is assembled from its packets in any order. A payload of more than one and at
  most 4096 fragments is sent; the receiver opens the packets. Whatever order they are handled in,
  with any number of duplicates, as long as one packet is missing the frame is not complete; when
  that packet arrives, the frame is complete, every other pending frame is as before, and the markers
  of the frame are gone. The data of the frame is the byte 28, the FU indicator of the first fragment
  that the receiver leaves in front, followed by the payload: one byte more than was sent.
\<close>

theorem h264_assembly:
  assumes "pz_ok z" and "unat (ucast (pz_payload_type z) :: byte) < 128"
    and "(ucast (pz_payload_type z) :: byte) \<noteq> PT_RTX" and "n \<le> length payload"
    and "MAX_NALU_LEN < n" and "packet_count n \<le> 4096"
    and "unknown_frame fa ts" and "circle.ordered b (fa_pending fa)" and "ts \<in> half_circle b"
  shows "\<exists>ps z' qs. H264_Build z payload n ts = Some (ps, z') \<and> length ps = packet_count n \<and>
    (\<forall>i < length ps. open_h264 h (rp_buffer (ps ! i)) (length (rp_buffer (ps ! i))) = Some (True, qs ! i)) \<and>
    (\<forall>js i now. i < length ps \<and> snd ` set js = {0..<length ps} - {i} \<longrightarrow>
      (\<exists>fa1 fa2. foldM (\<lambda>(now, i) fa. ProcessH264RtpPacket now fa (qs ! i)) js fa = Some fa1 \<and>
        \<not> entry_complete (fa_pending fa1) ts \<and> ProcessH264RtpPacket now fa1 (qs ! i) = Some fa2 \<and>
        assembled fa fa2 ts (28 # take n payload) (IsH264KeyFrame (28 # take n payload))
          (pz_sequence_number z + of_nat (length ps)) \<and> circle.ordered b (fa_pending fa2)))"
proof -
  obtain ps z' qs where ps: "H264_Build z payload n ts = Some (ps, z')" "length ps = packet_count n" "length qs = packet_count n"
    "\<forall>i < packet_count n. open_h264 h (rp_buffer (ps ! i)) (length (rp_buffer (ps ! i))) = Some (True, qs ! i)"
    "h264.frame_packets ts (pz_sequence_number z + 1) qs (map (chunk payload n) [0..<packet_count n])" "h264_header (qs ! 0) = 28"
    using H264_fua_packets [OF assms(1-6), of ts h] by blast
  have u: "h264.unseen fa ts" using assms(7) by (simp add: unknown_frame_def h264.unseen_def)
  have "0 < packet_count n" using assms(5) packet_count_pos [of n] by simp
  then have e: "SequenceNumberAt (pz_sequence_number z + 1) (length qs - 1) = pz_sequence_number z + of_nat (length ps)"
    using ps(2,3) by (simp add: SequenceNumberAt_def of_nat_diff)
  have "\<exists>fa1 fa2. foldM (\<lambda>(now, i) fa. ProcessH264RtpPacket now fa (qs ! i)) js fa = Some fa1 \<and>
      \<not> entry_complete (fa_pending fa1) ts \<and> ProcessH264RtpPacket now fa1 (qs ! i) = Some fa2 \<and>
      assembled fa fa2 ts (28 # take n payload) (IsH264KeyFrame (28 # take n payload))
        (pz_sequence_number z + of_nat (length ps)) \<and> circle.ordered b (fa_pending fa2)"
    if "i < length ps" "snd ` set js = {0..<length ps} - {i}" for js :: "(timestamp \<times> nat) list" and i now
    using h264.assemble [OF ps(5) assms(9) u assms(8), of js i now] that ps(2,3,6)
    unfolding e assembled_def by (simp add: concat_chunk) blast
  with ps show ?thesis by (intro exI [of _ ps] exI [of _ z'] exI [of _ qs]) simp
qed

theorem h264_assembly_witness:
  "\<exists>ps z' qs fa1 fa2. H264_Build (new_Packetizer 7 PT_H264) (replicate 1200 5) 1200 90 = Some (ps, z') \<and> length ps = 2 \<and>
    ProcessH264RtpPacket 0 new_FrameAssembly (qs ! 1) = Some fa1 \<and> ProcessH264RtpPacket 5 fa1 (qs ! 0) = Some fa2 \<and>
    assembled new_FrameAssembly fa2 90 (28 # replicate 1200 5) (IsH264KeyFrame (28 # replicate 1200 5))
      (pz_sequence_number (new_Packetizer 7 PT_H264) + 2)"
proof -
  let ?z = "new_Packetizer 7 PT_H264" and ?fa = new_FrameAssembly
  have "pz_payload_type ?z = 96" by (simp add: new_Packetizer_def PT_H264_def)
  then have z: "pz_ok ?z" "unat (ucast (pz_payload_type ?z) :: byte) < 128" "(ucast (pz_payload_type ?z) :: byte) \<noteq> PT_RTX"
    by (simp_all add: new_Packetizer_ok PT_RTX_def)
  have c: "packet_count 1200 = 2" "packet_count 1200 \<le> 4096" "MAX_NALU_LEN < 1200" "1200 \<le> length (replicate 1200 (5 :: byte))"
    by (simp_all add: packet_count_def MAX_NALU_LEN_def)
  note u = new_FrameAssembly_start(1) [of 90] new_FrameAssembly_start(2) [of 0] and h = early_timestamp [of 90, simplified]
  have t: "take 1200 (replicate 1200 (5 :: byte)) = replicate 1200 5" by simp
  obtain ps z' qs where ps: "H264_Build ?z (replicate 1200 5) 1200 90 = Some (ps, z')" "length ps = 2"
    and all: "\<forall>js i now. i < length ps \<and> snd ` set js = {0..<length ps} - {i} \<longrightarrow>
      (\<exists>fa1 fa2. foldM (\<lambda>(now, i) fa. ProcessH264RtpPacket now fa (qs ! i)) js ?fa = Some fa1 \<and>
        \<not> entry_complete (fa_pending fa1) 90 \<and> ProcessH264RtpPacket now fa1 (qs ! i) = Some fa2 \<and>
        assembled ?fa fa2 90 (28 # replicate 1200 5) (IsH264KeyFrame (28 # replicate 1200 5))
          (pz_sequence_number ?z + of_nat (length ps)) \<and> circle.ordered 0 (fa_pending fa2))"
    using h264_assembly [OF z c(4,3,2) u h, of undefined] unfolding t c(1) by (elim exE conjE)
  have two: "snd ` set [(0 :: timestamp, 1 :: nat)] = {0..<length ps} - {0}" using ps(2) by auto
  then show ?thesis using all [rule_format, of 0 "[(0, 1)]" 5] ps by (simp add: foldM_Nil_Some) blast
qed

text \<open>
  C5: an AV1 frame is assembled from its packets in any order. The packets that
  \<open>RtpPacketizerAv1::Build\<close> makes of a frame of AV1 units can be handled in any order with any
  duplicates; the frame completes exactly when the last missing packet arrives, with exactly the
  bytes of the frame and with the key-frame flag the sender had set.
\<close>

theorem av1_assembly:
  assumes "av_ok a" and "units_ok us" and "us \<noteq> []" and "length (concat (map unit_bytes us)) < 2 ^ 31"
    and "unknown_frame fa ts" and "circle.ordered b (fa_pending fa)" and "ts \<in> half_circle b"
  defines "frame \<equiv> concat (map unit_bytes us)"
  shows "\<exists>ps a' qs. Av1_Build a frame (length frame) ts = Some (ps, a') \<and> length qs = length ps \<and>
    (\<forall>i < length ps. open_av1 (rp_buffer (ps ! i)) (length (rp_buffer (ps ! i))) = Some (True, qs ! i)) \<and>
    (length ps \<le> 4096 \<longrightarrow> (\<forall>js i now. i < length ps \<and> snd ` set js = {0..<length ps} - {i} \<longrightarrow>
      (\<exists>fa1 fa2. foldM (\<lambda>(now, i) fa. ProcessAv1RtpPacket now fa (qs ! i)) js fa = Some fa1 \<and>
        \<not> entry_complete (fa_pending fa1) ts \<and> ProcessAv1RtpPacket now fa1 (qs ! i) = Some fa2 \<and>
        assembled fa fa2 ts frame (av_current_frame_is_key_frame a) (pz_sequence_number (av_base a) + of_nat (length ps)) \<and>
        circle.ordered b (fa_pending fa2))))"
proof -
  have s: "sint (of_nat (length frame) :: u32) = int (length frame)"
    using assms(4) by (simp add: frame_def signed_of_nat signed_take_bit_int_eq_self)
  have P: "ParseObus frame (sint (of_nat (length frame) :: u32)) = Some (map unit_obu us)"
    unfolding s unfolding frame_def by (rule ParseObus_units [OF assms(2,4)])
  have ok: "\<forall>u \<in> set (map unit_obu us). obu_ok u" by (auto simp: obu_ok_def unit_obu_def unit_bytes_def)
  have f: "concat (map ob_payload (map unit_obu us)) = frame" by (simp add: frame_def unit_obu_def comp_def)
  obtain ps a' qs where ps: "Av1_Build a frame (length frame) ts = Some (ps, a')" "ps \<noteq> []" "length qs = length ps"
    and view: "\<forall>i < length ps. \<exists>d. av1_view a ts (length ps) i d (ps ! i) (qs ! i)"
    and data: "concat (map (\<lambda>q. the (Payload (av1_packet q))) qs) = frame"
    using Av1_Build_run [OF assms(1) P ok, of ts] assms(3) unfolding f by auto
  have u: "av1.unseen fa ts" using assms(5) by (simp add: unknown_frame_def av1.unseen_def)
  have key: "Av1_IsKeyFrame (qs ! 0) = av_current_frame_is_key_frame a" using view ps(2) by (auto simp: av1_view_def)
  have e: "SequenceNumberAt (pz_sequence_number (av_base a) + 1) (length qs - 1) = pz_sequence_number (av_base a) + of_nat (length ps)"
    using ps(2,3) by (simp add: SequenceNumberAt_def of_nat_diff Suc_le_eq)
  have "\<exists>fa1 fa2. foldM (\<lambda>(now, i) fa. ProcessAv1RtpPacket now fa (qs ! i)) js fa = Some fa1 \<and>
      \<not> entry_complete (fa_pending fa1) ts \<and> ProcessAv1RtpPacket now fa1 (qs ! i) = Some fa2 \<and>
      assembled fa fa2 ts frame (av_current_frame_is_key_frame a) (pz_sequence_number (av_base a) + of_nat (length ps)) \<and>
      circle.ordered b (fa_pending fa2)"
    if "length ps \<le> 4096" "i < length ps" "snd ` set js = {0..<length ps} - {i}" for js :: "(timestamp \<times> nat) list" and i now
  proof -
    have "av1.frame_packets ts (pz_sequence_number (av_base a) + 1) qs (map (\<lambda>q. the (Payload (av1_packet q))) qs)"
      by (rule Av1_frame_packets [of _ _ _ ps]) (use view ps that(1) in auto)
    from av1.assemble [OF this assms(7) u assms(6), of js i now] that ps(3) show ?thesis
      unfolding e assembled_def data key by (simp add: data) blast
  qed
  with ps view show ?thesis
    by (intro exI [of _ ps] exI [of _ a'] exI [of _ qs]) (auto simp: av1_view_def)
qed

theorem av1_assembly_witness:
  "\<exists>ps a' qs. Av1_Build (SetIsKeyFrame (new_Av1Packetizer 7) True) [0x0A, 2, 7, 8] 4 90 = Some (ps, a') \<and>
    (ps \<noteq> [] \<and> length ps \<le> 4096 \<longrightarrow> (\<forall>js. snd ` set js = {0..<length ps} - {0} \<longrightarrow>
      (\<exists>fa1 fa2. foldM (\<lambda>(now, i) fa. ProcessAv1RtpPacket now fa (qs ! i)) js new_FrameAssembly = Some fa1 \<and>
        ProcessAv1RtpPacket 5 fa1 (qs ! 0) = Some fa2 \<and> entry_complete (fa_pending fa2) 90)))"
proof -
  let ?us = "[\<lparr>un_header = 0x0A, un_extension = None, un_body = [7, 8]\<rparr>]"
    and ?a = "SetIsKeyFrame (new_Av1Packetizer 7) True" and ?fa = new_FrameAssembly
  have b: "concat (map unit_bytes ?us) = [0x0A, 2, 7, 8]"
    by (simp add: unit_bytes_def ObuHasSize_def kObuSizePresentBit_def uvarint.simps)
  have l: "length [0x0A :: byte, 2, 7, 8] = 4" by simp
  have us: "units_ok ?us" "?us \<noteq> []" "length (concat (map unit_bytes ?us)) < 2 ^ 31"
    unfolding b by (simp_all add: units_ok_def unit_ok_def ObuHasSize_def ObuHasExtension_def kObuSizePresentBit_def)
  have a: "av_ok ?a"
    by (simp add: av_ok_def SetIsKeyFrame_def new_Av1Packetizer_def new_Packetizer_ok) (simp add: new_Packetizer_def)
  note A = av1_assembly [OF a us new_FrameAssembly_start(1) [of 90] new_FrameAssembly_start(2) [of 0] early_timestamp [of 90, simplified], unfolded b l]
  have "assembled ?fa fa2 90 d k e \<Longrightarrow> entry_complete (fa_pending fa2) 90" for fa2 d k e
    by (auto simp: assembled_def entry_complete_def)
  then show ?thesis using A by (elim exE conjE) (intro exI conjI, assumption, blast)
qed

end
