(* ===== verification/ReceiverStats.thy ===== *)
theory ReceiverStats
  imports RtcpReports Units Clock
begin

text \<open>
  Reception statistics of the video receiver: the members that \<open>receiver_stats_mtx_\<close> guards in
  \<open>src/transport/channel/rtp_video_receiver.cpp\<close>, their update for every media packet
  (\<open>InsertRtpPacket\<close>), \<open>ReviseFrequencyAndJitter\<close>, the receiver report \<open>SendRR\<close> and
  \<open>OnSenderReport\<close>. Members of type \<open>int32_t\<close> are integers; the unsigned members wrap as words.

  Shown: what the loss counter counts, that the fraction lost always fits its byte, that the jitter
  filter never leaves its range, and that the report the peer parses carries these values.
\<close>

section \<open>State and operations\<close>

record ReceiverStats =
  rs_fraction_lost :: byte
  rs_cumulative_lost :: int
  rs_jitter :: u32
  rs_extended_high_seq_num :: u16
  rs_cumulative_loss :: int
  rs_last_report_cumulative_loss :: int
  rs_cumulative_loss_rtcp_offset :: int
  rs_last_receive_time :: "timestamp option"
  rs_last_payload_type_frequency :: int
  rs_last_extended_high_seq_num :: u16
  rs_jitter_q4 :: u32
  rs_last_received_timestamp :: u32
  rs_has_received_media_packet :: bool
  rs_remote_ssrc :: u32
  rs_last_remote_ntp_timestamp :: u32
  rs_last_remote_rtp_timestamp :: u32
  rs_last_arrival_timestamp :: u32
  rs_last_arrival_ntp_timestamp :: u32
  rs_packets_sent :: u32
  rs_bytes_sent :: u32
  rs_reports_count :: u32

definition new_ReceiverStats :: ReceiverStats where
  "new_ReceiverStats = \<lparr>rs_fraction_lost = 0, rs_cumulative_lost = 0, rs_jitter = 0, rs_extended_high_seq_num = 0,
     rs_cumulative_loss = 0, rs_last_report_cumulative_loss = 0, rs_cumulative_loss_rtcp_offset = 0,
     rs_last_receive_time = None, rs_last_payload_type_frequency = 0, rs_last_extended_high_seq_num = 0,
     rs_jitter_q4 = 0, rs_last_received_timestamp = 0, rs_has_received_media_packet = False, rs_remote_ssrc = 0,
     rs_last_remote_ntp_timestamp = 0, rs_last_remote_rtp_timestamp = 0, rs_last_arrival_timestamp = 0,
     rs_last_arrival_ntp_timestamp = 0, rs_packets_sent = 0, rs_bytes_sent = 0, rs_reports_count = 0\<rparr>"

definition ReviseFrequencyAndJitter :: "ReceiverStats \<Rightarrow> int \<Rightarrow> ReceiverStats" where
  "ReviseFrequencyAndJitter s payload_type_frequency =
     (if payload_type_frequency = rs_last_payload_type_frequency s then s
      else if payload_type_frequency \<noteq> 0 then
        let s = (if rs_last_payload_type_frequency s \<noteq> 0
              then s\<lparr>rs_jitter_q4 := ucast ((ucast (rs_jitter_q4 s) :: u64) * word_of_int payload_type_frequency div
                word_of_int (rs_last_payload_type_frequency s))\<rparr>
              else s) in
        s\<lparr>rs_last_payload_type_frequency := payload_type_frequency\<rparr>
      else s)"

text \<open>The jitter filter, in Q4: \<open>time_diff_samples\<close> is an \<open>int32_t\<close>.\<close>

definition jitter_update :: "u32 \<Rightarrow> int \<Rightarrow> u32" where
  "jitter_update jitter_q4 time_diff_samples =
     (let jitter_diff_q4 = sint ((word_of_int (\<bar>time_diff_samples\<bar> * 2 ^ 4) :: u32) - jitter_q4) in
      jitter_q4 + word_of_int ((jitter_diff_q4 + 8) div 2 ^ 4))"

definition stats_jitter :: "timestamp \<Rightarrow> u32 \<Rightarrow> int \<Rightarrow> ReceiverStats \<Rightarrow> ReceiverStats" where
  "stats_jitter now timestamp frequency s =
     (if timestamp \<noteq> rs_last_received_timestamp s then
        let receive_diff = Timestamp_sub now (the (rs_last_receive_time s));
            receive_diff_rtp = (word_of_int (time_seconds (unit_scale receive_diff frequency)) :: u32);
            time_diff_samples = sint (receive_diff_rtp - (timestamp - rs_last_received_timestamp s));
            s = ReviseFrequencyAndJitter s frequency;
            s = (if time_diff_samples < 5 * 90000 \<and> time_diff_samples > -5 * 90000
                 then s\<lparr>rs_jitter_q4 := jitter_update (rs_jitter_q4 s) time_diff_samples\<rparr> else s) in
        s\<lparr>rs_jitter := drop_bit 4 (rs_jitter_q4 s)\<rparr>
      else s)"

text \<open>The block of \<open>InsertRtpPacket\<close> that runs for every packet that was not retransmitted.\<close>

definition stats_packet :: "timestamp \<Rightarrow> u16 \<Rightarrow> u32 \<Rightarrow> ReceiverStats \<Rightarrow> ReceiverStats" where
  "stats_packet now sequence_number timestamp s =
     (let s = s\<lparr>rs_cumulative_loss := rs_cumulative_loss s - 1\<rparr>;
          s = (if rs_last_receive_time s = None
               then s\<lparr>rs_last_extended_high_seq_num := sequence_number - 1, rs_extended_high_seq_num := sequence_number - 1,
                 rs_last_receive_time := Some now\<rparr> else s);
          s = s\<lparr>rs_cumulative_loss := rs_cumulative_loss s + (uint sequence_number - uint (rs_extended_high_seq_num s)),
                rs_extended_high_seq_num := sequence_number\<rparr>;
          s = stats_jitter now timestamp 90000 s in
      s\<lparr>rs_last_received_timestamp := timestamp, rs_last_receive_time := Some now, rs_has_received_media_packet := True\<rparr>)"

text \<open>The report of \<open>SendRR\<close>; \<open>now\<close> is the compact NTP time.\<close>

definition make_report :: "u32 \<Rightarrow> u32 \<Rightarrow> u32 \<Rightarrow> ReceiverStats \<Rightarrow> ReceiverReport \<Rightarrow> ReceiverReport \<times> ReceiverStats" where
  "make_report now ssrc remote_ssrc s rtcp_rr =
     (let exp_since_last = uint (rs_extended_high_seq_num s) - uint (rs_last_extended_high_seq_num s);
          lost_since_last = rs_cumulative_loss s - rs_last_report_cumulative_loss s;
          s = s\<lparr>rs_fraction_lost := (if exp_since_last > 0 \<and> lost_since_last > 0
            then word_of_int (255 * lost_since_last sdiv exp_since_last) else 0)\<rparr>;
          s = s\<lparr>rs_cumulative_lost := rs_cumulative_loss s + rs_cumulative_loss_rtcp_offset s\<rparr>;
          s = (if rs_cumulative_lost s < 0
               then s\<lparr>rs_cumulative_lost := 0, rs_cumulative_loss_rtcp_offset := - rs_cumulative_loss s\<rparr> else s);
          s = (if rs_cumulative_lost s > 0x7fffff then s\<lparr>rs_cumulative_lost := 0x7fffff\<rparr> else s);
          delay_since_last_sr = (if rs_last_remote_ntp_timestamp s \<noteq> 0 then now - rs_last_arrival_ntp_timestamp s else 0);
          report = new_report_block\<lparr>rb_source_ssrc := remote_ssrc, rb_fraction_lost := rs_fraction_lost s\<rparr>;
          report = snd (SetCumulativeLost report (rs_cumulative_lost s));
          report = report\<lparr>rb_extended_high_seq_num := ucast (rs_extended_high_seq_num s), rb_jitter := rs_jitter s,
            rb_last_sr := rs_last_remote_ntp_timestamp s, rb_delay_since_last_sr := delay_since_last_sr\<rparr>;
          rtcp_rr = ReceiverReport_SetReportBlock (rtcp_rr\<lparr>rr_sender_ssrc := ssrc\<rparr>) report in
      (rtcp_rr, s\<lparr>rs_last_extended_high_seq_num := rs_extended_high_seq_num s,
        rs_last_report_cumulative_loss := rs_cumulative_loss s\<rparr>))"

text \<open>
  \<open>SendRR\<close> and \<open>SendRtcpRR\<close>: the report is built in fresh memory (\<open>junk\<close>) and handed to the send
  callback; the result is the callback's datagram, if there is a callback. The sender SSRC and the
  header of a new report object are not initialised, so the object is an argument.
\<close>

definition new_report :: "ReceiverReport \<Rightarrow> ReceiverReport" where
  "new_report junk = junk\<lparr>rr_reports := [], rr_buffer := [], rr_size := 0\<rparr>"

definition SendRR ::
  "(nat \<Rightarrow> byte) \<Rightarrow> ReceiverReport \<Rightarrow> u32 \<Rightarrow> u32 \<Rightarrow> u32 \<Rightarrow> ReceiverStats \<Rightarrow> (byte list \<times> ReceiverStats) option" where
  "SendRR junk object now ssrc remote_ssrc s =
     (case make_report now ssrc remote_ssrc s (new_report object) of (rtcp_rr, s) \<Rightarrow> do {
        (_, rtcp_rr) \<leftarrow> ReceiverReport_Build junk rtcp_rr;
        d \<leftarrow> seg (rr_buffer rtcp_rr) 0 (rr_size rtcp_rr);
        Some (d, s) })"

text \<open>\<open>OnSenderReport\<close>, with the time of arrival in milliseconds and as compact NTP time.\<close>

definition stats_sender_report :: "u32 \<Rightarrow> int \<Rightarrow> u32 \<Rightarrow> SenderReport \<Rightarrow> ReceiverStats \<Rightarrow> ReceiverStats" where
  "stats_sender_report remote_ssrc now_ms now_ntp sr s =
     (if sr_sender_ssrc sr \<noteq> remote_ssrc \<or> NtpTimestamp sr = 0 then s
      else s\<lparr>rs_remote_ssrc := sr_sender_ssrc sr, rs_last_remote_ntp_timestamp := CompactNtpTimestamp sr,
        rs_last_remote_rtp_timestamp := si_rtp_ts (sr_info sr), rs_last_arrival_timestamp := word_of_int now_ms,
        rs_last_arrival_ntp_timestamp := now_ntp, rs_packets_sent := si_sender_packet_count (sr_info sr),
        rs_bytes_sent := si_sender_octet_count (sr_info sr), rs_reports_count := rs_reports_count s + 1\<rparr>)"

section \<open>Counting losses\<close>

text \<open>The packets are numbers with arrival times and timestamps.\<close>

definition stats_run :: "(timestamp \<times> u16 \<times> u32) list \<Rightarrow> ReceiverStats \<Rightarrow> ReceiverStats" where
  "stats_run ps s = foldl (\<lambda>s (now, n, t). stats_packet now n t s) s ps"

text \<open>Packets interleaved with the reports that are sent and the sender reports that arrive.\<close>

datatype stats_event =
    MediaPacket timestamp u16 u32
  | ReportSent u32 u32 u32 ReceiverReport
  | SenderReportArrived u32 int u32 SenderReport

fun stats_step :: "stats_event \<Rightarrow> ReceiverStats \<Rightarrow> ReceiverStats" where
  "stats_step (MediaPacket now n t) s = stats_packet now n t s"
| "stats_step (ReportSent now ssrc remote_ssrc rr) s = snd (make_report now ssrc remote_ssrc s rr)"
| "stats_step (SenderReportArrived remote_ssrc now_ms now_ntp sr) s = stats_sender_report remote_ssrc now_ms now_ntp sr s"

definition stats_events :: "stats_event list \<Rightarrow> ReceiverStats \<Rightarrow> ReceiverStats" where
  "stats_events es s = foldl (\<lambda>s e. stats_step e s) s es"

fun event_numbers :: "stats_event list \<Rightarrow> u16 list" where
  "event_numbers [] = []"
| "event_numbers (MediaPacket now n t # es) = n # event_numbers es"
| "event_numbers (_ # es) = event_numbers es"

lemma stats_jitter_same [simp]:
  "rs_cumulative_loss (stats_jitter now t f s) = rs_cumulative_loss s"
  "rs_extended_high_seq_num (stats_jitter now t f s) = rs_extended_high_seq_num s"
  "rs_last_extended_high_seq_num (stats_jitter now t f s) = rs_last_extended_high_seq_num s"
  "rs_last_report_cumulative_loss (stats_jitter now t f s) = rs_last_report_cumulative_loss s"
  "rs_cumulative_loss_rtcp_offset (stats_jitter now t f s) = rs_cumulative_loss_rtcp_offset s"
  by (simp_all add: stats_jitter_def ReviseFrequencyAndJitter_def Let_def)

text \<open>The numbers of a run telescope: the counter is the advance of the number minus the packets.\<close>

lemma stats_packet_loss:
  assumes "rs_last_receive_time s \<noteq> None"
    and s'_def: "s' = stats_packet now n t s"
  shows "rs_cumulative_loss s' = rs_cumulative_loss s + (uint n - uint (rs_extended_high_seq_num s)) - 1 \<and>
    rs_extended_high_seq_num s' = n \<and> rs_last_receive_time s' \<noteq> None \<and>
    rs_last_extended_high_seq_num s' = rs_last_extended_high_seq_num s \<and>
    rs_last_report_cumulative_loss s' = rs_last_report_cumulative_loss s \<and>
    rs_cumulative_loss_rtcp_offset s' = rs_cumulative_loss_rtcp_offset s"
  using assms(1) by (auto simp: s'_def stats_packet_def Let_def)

lemma stats_run_loss:
  assumes "rs_last_receive_time s \<noteq> None"
    and s'_def: "s' = stats_run ps s"
  shows "rs_cumulative_loss s' = rs_cumulative_loss s +
      (uint (rs_extended_high_seq_num s') - uint (rs_extended_high_seq_num s)) - int (length ps) \<and>
    rs_last_receive_time s' \<noteq> None \<and>
    rs_extended_high_seq_num s' = (if ps = [] then rs_extended_high_seq_num s else fst (snd (last ps))) \<and>
    rs_last_extended_high_seq_num s' = rs_last_extended_high_seq_num s \<and>
    rs_last_report_cumulative_loss s' = rs_last_report_cumulative_loss s \<and>
    rs_cumulative_loss_rtcp_offset s' = rs_cumulative_loss_rtcp_offset s"
  unfolding s'_def using assms(1)
proof (induction ps arbitrary: s)
  case (Cons p ps)
  obtain now n t where p: "p = (now, n, t)" by (cases p) auto
  note s = stats_packet_loss [OF Cons.prems refl, of now n t]
  have r: "stats_run (p # ps) s = stats_run ps (stats_packet now n t s)" by (simp add: stats_run_def p)
  show ?case using Cons.IH [of "stats_packet now n t s"] s unfolding r by (auto simp: p)
qed (simp add: stats_run_def)

lemma stats_first:
  assumes "rs_last_receive_time s = None" and "rs_cumulative_loss s = 0" and "n \<noteq> 0"
    and s'_def: "s' = stats_packet now n t s"
  shows "rs_cumulative_loss s' = 0 \<and> rs_extended_high_seq_num s' = n \<and> rs_last_receive_time s' \<noteq> None \<and>
    rs_last_extended_high_seq_num s' = n - 1 \<and> rs_last_report_cumulative_loss s' = rs_last_report_cumulative_loss s \<and>
    rs_cumulative_loss_rtcp_offset s' = rs_cumulative_loss_rtcp_offset s"
proof -
  have "uint n \<noteq> 0" using assms(3) by (simp add: uint_0_iff)
  then have "1 \<le> uint n" using uint_ge_0 [of n] by linarith
  then have "uint (n - 1) = uint n - 1" by (simp add: uint_sub_if')
  then show ?thesis using assms(1,2) by (simp add: s'_def stats_packet_def Let_def)
qed

section \<open>Jitter\<close>

text \<open>The filter in exact arithmetic, and the range it stays in.\<close>

lemma jitter_update_exact:
  assumes "uint j \<le> 7200000" and "\<bar>d\<bar> < 450000"
  shows "uint (jitter_update j d) = uint j + (16 * \<bar>d\<bar> - uint j + 8) div 16 \<and> uint (jitter_update j d) \<le> 7200000"
proof -
  let ?x = "16 * \<bar>d\<bar> - uint j" and ?j = "uint j"
  have j: "0 \<le> ?j" by simp
  have x: "- 2147483648 \<le> ?x" "?x < 2147483648" using assms j by linarith+
  have "(word_of_int (\<bar>d\<bar> * 2 ^ 4) :: u32) - j = word_of_int ?x"
    by (simp add: mult.commute wi_hom_sub [symmetric])
  then have "sint ((word_of_int (\<bar>d\<bar> * 2 ^ 4) :: u32) - j) = ?x"
    using x by (simp only: signed_of_int) (simp add: signed_take_bit_int_eq_self)
  then have u: "jitter_update j d = word_of_int (?j + (?x + 8) div 16)"
    unfolding jitter_update_def Let_def by (simp add: wi_hom_add [symmetric])
  define q where "q = (?x + 8) div 16"
  have "16 * q \<le> ?x + 8" "?x + 8 < 16 * q + 16"
    using div_mult_mod_eq [of "?x + 8" 16] pos_mod_bound [of 16 "?x + 8"] pos_mod_sign [of 16 "?x + 8"] by (simp_all add: q_def)
  then have "0 \<le> ?j + q" "?j + q \<le> 7200000" using assms j by linarith+
  moreover from this have "uint (word_of_int (?j + q) :: u32) = ?j + q"
    by (simp only: uint_word_of_int) (simp add: take_bit_int_eq_self del: of_int_add)
  ultimately show ?thesis unfolding u [folded q_def] q_def [symmetric] by simp
qed

lemma ReviseFrequency_same:
  "rs_last_payload_type_frequency s \<in> {0, 90000} \<Longrightarrow> rs_jitter_q4 (ReviseFrequencyAndJitter s 90000) = rs_jitter_q4 s \<and>
    rs_last_payload_type_frequency (ReviseFrequencyAndJitter s 90000) = 90000"
  by (auto simp: ReviseFrequencyAndJitter_def)

section \<open>Reachable statistics\<close>

inductive stats_reachable :: "ReceiverStats \<Rightarrow> bool" where
  start: "stats_reachable new_ReceiverStats"
| packet: "stats_reachable s \<Longrightarrow> stats_reachable (stats_packet now n t s)"
| report: "stats_reachable s \<Longrightarrow> stats_reachable (snd (make_report now ssrc remote s rr))"
| sender_report: "stats_reachable s \<Longrightarrow> stats_reachable (stats_sender_report remote now_ms now_ntp sr s)"

definition stats_ok :: "ReceiverStats \<Rightarrow> bool" where
  "stats_ok s \<longleftrightarrow>
     rs_cumulative_loss s - rs_last_report_cumulative_loss s \<le>
       uint (rs_extended_high_seq_num s) - uint (rs_last_extended_high_seq_num s) \<and>
     (rs_last_receive_time s = None \<longrightarrow> rs_cumulative_loss s = rs_last_report_cumulative_loss s) \<and>
     uint (rs_jitter_q4 s) \<le> 7200000 \<and> rs_last_payload_type_frequency s \<in> {0, 90000} \<and>
     uint (rs_jitter s) \<le> 450000"

lemma stats_jitter_ok:
  assumes "uint (rs_jitter_q4 s) \<le> 7200000" and "rs_last_payload_type_frequency s \<in> {0, 90000}" and "uint (rs_jitter s) \<le> 450000"
    and s': "s' = stats_jitter now t 90000 s"
  shows "uint (rs_jitter_q4 s') \<le> 7200000 \<and> rs_last_payload_type_frequency s' \<in> {0, 90000} \<and> uint (rs_jitter s') \<le> 450000"
proof (cases "t = rs_last_received_timestamp s")
  case False
  define d where "d = sint ((word_of_int (time_seconds (unit_scale (Timestamp_sub now (the (rs_last_receive_time s))) 90000)) :: u32) -
    (t - rs_last_received_timestamp s))"
  define r where "r = ReviseFrequencyAndJitter s 90000"
  define q where "q = (if d < 450000 \<and> d > - 450000 then r\<lparr>rs_jitter_q4 := jitter_update (rs_jitter_q4 r) d\<rparr> else r)"
  have s'q: "s' = q\<lparr>rs_jitter := drop_bit 4 (rs_jitter_q4 q)\<rparr>"
    using False unfolding s' stats_jitter_def Let_def d_def r_def q_def by simp
  have r: "uint (rs_jitter_q4 r) \<le> 7200000" "rs_last_payload_type_frequency r = 90000"
    using ReviseFrequency_same [OF assms(2)] assms(1) by (simp_all add: r_def)
  have q: "uint (rs_jitter_q4 q) \<le> 7200000" "rs_last_payload_type_frequency q = 90000"
    using r jitter_update_exact [OF r(1), of d] by (auto simp: q_def)
  have "uint (drop_bit 4 (rs_jitter_q4 q)) = uint (rs_jitter_q4 q) div 16"
    by (simp add: drop_bit_eq_div uint_div)
  with q show ?thesis by (simp add: s'q)
qed (use assms in \<open>simp add: stats_jitter_def\<close>)

lemma stats_reachable_ok: "stats_reachable s \<Longrightarrow> stats_ok s"
proof (induction rule: stats_reachable.induct)
  case (packet s now n t)
  define s1 where "s1 = (let s = s\<lparr>rs_cumulative_loss := rs_cumulative_loss s - 1\<rparr>;
          s = (if rs_last_receive_time s = None
               then s\<lparr>rs_last_extended_high_seq_num := n - 1, rs_extended_high_seq_num := n - 1,
                 rs_last_receive_time := Some now\<rparr> else s) in
      s\<lparr>rs_cumulative_loss := rs_cumulative_loss s + (uint n - uint (rs_extended_high_seq_num s)), rs_extended_high_seq_num := n\<rparr>)"
  have j: "uint (rs_jitter_q4 s1) \<le> 7200000" "rs_last_payload_type_frequency s1 \<in> {0, 90000}" "uint (rs_jitter s1) \<le> 450000"
    and l: "rs_cumulative_loss s1 - rs_last_report_cumulative_loss s1 \<le>
      uint (rs_extended_high_seq_num s1) - uint (rs_last_extended_high_seq_num s1)"
    using packet.IH by (auto simp: s1_def stats_ok_def Let_def)
  have "stats_packet now n t s = (stats_jitter now t 90000 s1)\<lparr>rs_last_received_timestamp := t,
      rs_last_receive_time := Some now, rs_has_received_media_packet := True\<rparr>"
    by (simp add: stats_packet_def s1_def Let_def)
  then show ?case using stats_jitter_ok [OF j refl, of now t] l by (simp add: stats_ok_def)
qed (auto simp: stats_ok_def new_ReceiverStats_def make_report_def stats_sender_report_def Let_def)

lemma card_word_interval: "n \<le> m \<Longrightarrow> int (card {n..m}) = uint m - uint n + 1" for n m :: "'a::len word"
proof -
  assume le: "n \<le> m"
  have "uint ` {n..m} = {uint n..uint m}"
  proof (intro equalityI subsetI)
    fix x assume x: "x \<in> {uint n..uint m}"
    have "x < 2 ^ LENGTH('a)" using x uint_lt2p [of m] by (simp only: atLeastAtMost_iff) linarith
    moreover have "0 \<le> x" using x uint_ge_0 [of n] by (simp only: atLeastAtMost_iff) linarith
    ultimately have "uint (word_of_int x :: 'a word) = x" by (simp add: uint_word_of_int take_bit_int_eq_self)
    then show "x \<in> uint ` {n..m}" using x by (intro image_eqI [of _ _ "word_of_int x"]) (simp_all add: word_le_def)
  qed (auto simp: word_le_def)
  then have "card {n..m} = card {uint n..uint m}" using card_image [of uint "{n..m}"] by (simp add: inj_on_def word_uint_eq_iff)
  with le show ?thesis by (simp add: word_le_def)
qed

lemma sorted_wrt_ends: "sorted_wrt (<) xs \<Longrightarrow> \<forall>k \<in> set xs. hd xs \<le> k \<and> k \<le> last xs" for xs :: "'a::order list"
proof (induction xs)
  case (Cons x xs)
  then show ?case by (cases xs) (auto intro: less_imp_le order.trans)
qed simp

text \<open>The counter over a run of events, and the offset that the reports add to it.\<close>

lemma missing_numbers:
  fixes n :: u16
  assumes "sorted_wrt (<) (n # ns)"
  shows "int (card ({n..last (n # ns)} - set (n # ns))) = uint (last (n # ns)) - uint n + 1 - int (length (n # ns))"
proof -
  let ?nums = "n # ns"
  have "\<forall>k \<in> set ?nums. n \<le> k \<and> k \<le> last ?nums" using sorted_wrt_ends [OF assms] by simp
  then have sub: "set ?nums \<subseteq> {n..last ?nums}" by auto
  have "card (set ?nums) = length ?nums" using assms by (simp only: distinct_card strict_sorted_iff)
  moreover have "int (card {n..last ?nums}) = uint (last ?nums) - uint n + 1"
    using sub by (intro card_word_interval) auto
  moreover have "card (set ?nums) \<le> card {n..last ?nums}" using sub by (simp only: card_mono finite_code)
  ultimately show ?thesis using sub by (simp only: card_Diff_subset of_nat_diff finite_set)
qed

lemma event_numbers_append [simp]: "event_numbers (es @ fs) = event_numbers es @ event_numbers fs"
  by (induction es rule: event_numbers.induct) auto

lemma make_report_same:
  "rs_cumulative_loss (snd (make_report now ssrc remote s rr)) = rs_cumulative_loss s"
  "rs_extended_high_seq_num (snd (make_report now ssrc remote s rr)) = rs_extended_high_seq_num s"
  "rs_last_receive_time (snd (make_report now ssrc remote s rr)) = rs_last_receive_time s"
  "0 \<le> rs_cumulative_loss s + rs_cumulative_loss_rtcp_offset s \<Longrightarrow>
    rs_cumulative_loss_rtcp_offset (snd (make_report now ssrc remote s rr)) = rs_cumulative_loss_rtcp_offset s"
  by (simp_all add: make_report_def Let_def)

lemma stats_sender_report_same:
  "rs_cumulative_loss (stats_sender_report r m k sr s) = rs_cumulative_loss s"
  "rs_extended_high_seq_num (stats_sender_report r m k sr s) = rs_extended_high_seq_num s"
  "rs_last_receive_time (stats_sender_report r m k sr s) = rs_last_receive_time s"
  "rs_cumulative_loss_rtcp_offset (stats_sender_report r m k sr s) = rs_cumulative_loss_rtcp_offset s"
  by (simp_all add: stats_sender_report_def)

lemma stats_events_loss:
  fixes now :: timestamp and n :: u16 and t :: u32
  assumes "n \<noteq> 0"
  defines "nums \<equiv> \<lambda>es. n # event_numbers es" and "run \<equiv> \<lambda>es. stats_events es (stats_packet now n t new_ReceiverStats)"
  shows "rs_last_receive_time (run es) \<noteq> None \<and> rs_extended_high_seq_num (run es) = last (nums es) \<and>
    rs_cumulative_loss (run es) = uint (last (nums es)) - uint n + 1 - int (length (nums es)) \<and>
    (sorted_wrt (<) (nums es) \<longrightarrow> rs_cumulative_loss_rtcp_offset (run es) = 0)"
proof (induction es rule: rev_induct)
  case Nil
  have "rs_cumulative_loss (run []) = 0" "rs_extended_high_seq_num (run []) = n" "rs_last_receive_time (run []) \<noteq> None"
    "rs_cumulative_loss_rtcp_offset (run []) = 0"
    using stats_first [of new_ReceiverStats n "run []" now t] assms(1) by (auto simp: run_def stats_events_def new_ReceiverStats_def)
  then show ?case by (simp add: nums_def)
next
  case (snoc e es)
  have r: "run (es @ [e]) = stats_step e (run es)" by (simp add: run_def stats_events_def)
  show ?case
  proof (cases e)
    case (MediaPacket now' k t')
    then have k: "nums (es @ [e]) = nums es @ [k]" by (simp add: nums_def)
    have "sorted_wrt (<) (nums es @ [k]) \<longrightarrow> sorted_wrt (<) (nums es)" by (simp add: sorted_wrt_append)
    moreover note stats_packet_loss [OF _ refl, of "run es" now' k t']
    ultimately show ?thesis using snoc unfolding k r unfolding MediaPacket by simp
  next
    case (ReportSent ntp ssrc remote rr)
    then have k: "nums (es @ [e]) = nums es" by (simp add: nums_def)
    have "0 \<le> rs_cumulative_loss (run es) + rs_cumulative_loss_rtcp_offset (run es)" if "sorted_wrt (<) (nums es)"
      using snoc that missing_numbers [of n "event_numbers es"] by (simp add: nums_def)
    with snoc show ?thesis unfolding k r unfolding ReportSent by (simp add: make_report_same)
  next
    case (SenderReportArrived r m k sr)
    then have k: "nums (es @ [e]) = nums es" by (simp add: nums_def)
    with snoc show ?thesis unfolding k r unfolding SenderReportArrived by (simp add: stats_sender_report_same)
  qed
qed

text \<open>What \<open>SendRR\<close> sends, from any state, as its peer parses it.\<close>

lemma SendRR_block:
  assumes m: "make_report now ssrc remote_ssrc s (new_report object) = (rr, s')"
  shows "\<exists>d h r b. SendRR junk object now ssrc remote_ssrc s = Some (d, s') \<and> length d = 32 \<and>
    RtcpCommonHeader_Parse h0 d (length d) = Some (True, h) \<and> hdr_packet_type h = 201 \<and>
    ReceiverReport_Parse r0 h = Some (28, r) \<and> rr_sender_ssrc r = ssrc \<and> rr_reports r = [b] \<and>
    rb_source_ssrc b = remote_ssrc \<and> rb_fraction_lost b = rs_fraction_lost s' \<and> CumulativeLost b = rs_cumulative_lost s' \<and>
    0 \<le> rs_cumulative_lost s' \<and> rs_cumulative_lost s' \<le> 0x7fffff \<and> rb_jitter b = rs_jitter s \<and>
    rb_extended_high_seq_num b = ucast (rs_extended_high_seq_num s) \<and> rb_last_sr b = rs_last_remote_ntp_timestamp s"
proof -
  define c where "c = rs_cumulative_lost s'"
  have c: "0 \<le> c" "c \<le> 0x7fffff" using m by (auto simp: c_def make_report_def Let_def split: if_splits)
  have blocks: "\<exists>b. rr_reports rr = [b] \<and> rb_source_ssrc b = remote_ssrc \<and> rb_fraction_lost b = rs_fraction_lost s' \<and>
      rb_cumulative_lost b = word_of_int c \<and> rb_jitter b = rs_jitter s \<and>
      rb_extended_high_seq_num b = ucast (rs_extended_high_seq_num s) \<and> rb_last_sr b = rs_last_remote_ntp_timestamp s"
    and rr: "rr_sender_ssrc rr = ssrc" "rr_buffer rr = []" "rr_size rr = 0"
    using m unfolding c_def
    by (auto simp: make_report_def Let_def new_report_def SetCumulativeLost_def ReceiverReport_SetReportBlock_def
        split: if_splits)
  then obtain b where b: "rr_reports rr = [b]" "rb_source_ssrc b = remote_ssrc" "rb_fraction_lost b = rs_fraction_lost s'"
    "rb_cumulative_lost b = word_of_int c" "rb_jitter b = rs_jitter s"
    "rb_extended_high_seq_num b = ucast (rs_extended_high_seq_num s)" "rb_last_sr b = rs_last_remote_ntp_timestamp s"
    by blast
  have sc: "CumulativeLost b = c" using c by (simp add: CumulativeLost_def b(4) signed_of_int signed_take_bit_int_eq_self)
  have "lost_in_range b" using c by (simp add: lost_in_range_def sc)
  with b(1) have P: "length (rr_reports rr) \<le> 31" "\<forall>b \<in> set (rr_reports rr). lost_in_range b" by simp_all
  have len: "length (ReceiverReport_bytes rr) = 32" by (simp add: ReceiverReport_bytes_def b(1))
  have "SendRR junk object now ssrc remote_ssrc s = Some (ReceiverReport_bytes rr, s')"
    using m ReceiverReport_Build_bytes [OF P(1), of junk] rr by (simp add: SendRR_def seg_def)
  with ReceiverReport_Parse_bytes [OF P refl, of h0 r0] show ?thesis
    using b sc c rr(1) len unfolding c_def [symmetric] by (auto simp: wire_part_def CumulativeLost_def)
qed

section \<open>Properties\<close>

text \<open>
  C14: what the reports say of the losses. Packets of which the first has a number other than zero
  arrive, in any order and interleaved with reports that are sent and sender reports that arrive.
  The counter of the statistics is the distance from the first to the latest number plus one, minus the
  number of packets received, and it stays in the range of its 32 bits for at least
  \<open>2 ^ 31 - 2 ^ 17\<close> packets; packets out of order can make it smaller than the number of losses, and
  even negative. When the numbers rise without wrapping, it is the number of packets missing between
  the first and the latest, and the next report that \<open>SendRR\<close> sends, as its peer parses it, carries
  exactly this number as its cumulative loss, whatever was reported before.
\<close>

theorem loss_counter:
  fixes now :: timestamp and n :: u16 and t :: u32 and es :: "stats_event list"
  assumes "n \<noteq> 0"
  defines "s \<equiv> stats_events es (stats_packet now n t new_ReceiverStats)"
    and "nums \<equiv> n # event_numbers es"
  shows "rs_cumulative_loss s = uint (last nums) - uint n + 1 - int (length nums) \<and>
    (length nums \<le> 2 ^ 31 - 2 ^ 17 \<longrightarrow> - (2 ^ 31) \<le> rs_cumulative_loss s \<and> rs_cumulative_loss s < 2 ^ 31) \<and>
    (sorted_wrt (<) nums \<longrightarrow> rs_cumulative_loss s = int (card ({n..last nums} - set nums)) \<and>
      (\<exists>d s' h r b. SendRR junk object ntp ssrc remote_ssrc s = Some (d, s') \<and>
        RtcpCommonHeader_Parse h0 d (length d) = Some (True, h) \<and> ReceiverReport_Parse r0 h = Some (28, r) \<and>
        rr_reports r = [b] \<and> CumulativeLost b = int (card ({n..last nums} - set nums))))"
proof -
  note run = stats_events_loss [OF assms(1), of es now t, folded nums_def s_def]
  have l: "rs_cumulative_loss s = uint (last nums) - uint n + 1 - int (length nums)" using run by simp
  have b: "- (2 ^ 31) \<le> rs_cumulative_loss s \<and> rs_cumulative_loss s < 2 ^ 31" if "length nums \<le> 2 ^ 31 - 2 ^ 17"
  proof -
    have "uint (last nums) < 65536" "uint n < 65536" "0 \<le> uint (last nums)" "0 \<le> uint n"
      using uint_lt2p [of "last nums"] uint_lt2p [of n] by simp_all
    moreover have "length nums \<le> 2147352576" using that by simp
    ultimately have "- 2147483648 \<le> rs_cumulative_loss s \<and> rs_cumulative_loss s < 2147483648" unfolding l by linarith
    then show ?thesis by simp
  qed
  have m: "rs_cumulative_loss s = int (card ({n..last nums} - set nums))" "rs_cumulative_loss_rtcp_offset s = 0"
    if "sorted_wrt (<) nums"
    using run that missing_numbers [of n "event_numbers es"] by (simp_all add: nums_def del: of_nat_Suc)
  have "\<exists>d s' h r b. SendRR junk object ntp ssrc remote_ssrc s = Some (d, s') \<and>
      RtcpCommonHeader_Parse h0 d (length d) = Some (True, h) \<and> ReceiverReport_Parse r0 h = Some (28, r) \<and>
      rr_reports r = [b] \<and> CumulativeLost b = int (card ({n..last nums} - set nums))" if o: "sorted_wrt (<) nums"
  proof -
    obtain rr s' where r: "make_report ntp ssrc remote_ssrc s (new_report object) = (rr, s')" by fastforce
    have "card ({n..last nums} - set nums) \<le> card (UNIV :: u16 set)" by (rule card_mono) simp_all
    then have "int (card ({n..last nums} - set nums)) \<le> 65536" by (simp add: card_word)
    then have "rs_cumulative_lost s' = int (card ({n..last nums} - set nums))"
      using r m [OF o] by (auto simp: make_report_def Let_def split: if_splits)
    with SendRR_block [OF r, of junk h0 r0] show ?thesis by fastforce
  qed
  with l b m(1) show ?thesis by blast
qed

theorem loss_counter_witness:
  "\<exists>d s' h r b. SendRR (\<lambda>_. 0) undefined 7 1 2 (stats_events [MediaPacket 5 12 1, ReportSent 6 1 2 (new_report undefined), MediaPacket 9 15 2]
      (stats_packet 0 10 1 new_ReceiverStats)) = Some (d, s') \<and>
    RtcpCommonHeader_Parse new_header d (length d) = Some (True, h) \<and> ReceiverReport_Parse undefined h = Some (28, r) \<and>
    rr_reports r = [b] \<and> CumulativeLost b = 3"
  using loss_counter [of 10 "[MediaPacket 5 12 1, ReportSent 6 1 2 (new_report undefined), MediaPacket 9 15 2]" 0 1 "\<lambda>_. 0" undefined 7 1 2 new_header undefined]
  by auto

text \<open>
  The counter does not know that numbers wrap: when a stream passes from 65535 to 0 with no loss at
  all, the count drops by 65536, and the next report clamps it to zero.
\<close>

theorem loss_counter_at_wrap:
  "rs_cumulative_loss (stats_run [(0, 65535, 1), (5, 0, 1)] new_ReceiverStats) = - 65536 \<and>
    rs_cumulative_lost (snd (make_report 0 1 2 (stats_run [(0, 65535, 1), (5, 0, 1)] new_ReceiverStats) rr)) = 0"
  by (simp add: stats_run_def stats_packet_def Let_def new_ReceiverStats_def make_report_def stats_jitter_def
      ReviseFrequencyAndJitter_def)

text \<open>
  C15: the receiver report. In every reachable state \<open>SendRR\<close> hands the send callback one datagram
  of 32 bytes. Its peer parses it as a receiver report with one block: the fraction lost is exactly
  255 times the losses since the last report over the packets expected, and fits its byte without
  truncation; the cumulative loss is between 0 and \<open>0x7fffff\<close>; the jitter is at most 450000 ticks.
\<close>

theorem receiver_report_sent:
  assumes "stats_reachable s"
  defines "lost \<equiv> rs_cumulative_loss s - rs_last_report_cumulative_loss s"
    and "expected \<equiv> uint (rs_extended_high_seq_num s) - uint (rs_last_extended_high_seq_num s)"
  shows "\<exists>d s' h r b. SendRR junk object now ssrc remote_ssrc s = Some (d, s') \<and> length d = 32 \<and>
    RtcpCommonHeader_Parse h0 d (length d) = Some (True, h) \<and> hdr_packet_type h = 201 \<and>
    ReceiverReport_Parse r0 h = Some (28, r) \<and> rr_sender_ssrc r = ssrc \<and> rr_reports r = [b] \<and>
    rb_source_ssrc b = remote_ssrc \<and>
    uint (rb_fraction_lost b) = (if 0 < expected \<and> 0 < lost then 255 * lost div expected else 0) \<and>
    0 \<le> CumulativeLost b \<and> CumulativeLost b \<le> 0x7fffff \<and> uint (rb_jitter b) \<le> 450000 \<and>
    rb_extended_high_seq_num b = ucast (rs_extended_high_seq_num s) \<and> rb_last_sr b = rs_last_remote_ntp_timestamp s"
proof -
  have ok: "lost \<le> expected" "uint (rs_jitter s) \<le> 450000"
    using stats_reachable_ok [OF assms(1)] by (simp_all add: stats_ok_def lost_def expected_def)
  obtain rr s' where m: "make_report now ssrc remote_ssrc s (new_report object) = (rr, s')" by fastforce
  define f where "f = (if 0 < expected \<and> 0 < lost then 255 * lost div expected else 0)"
  have f: "0 \<le> f" "f < 256"
  proof -
    have "255 * lost div expected \<le> 255" if "0 < expected"
      using that ok(1) zdiv_mono1 [of "255 * lost" "255 * expected" expected] by simp
    then show "0 \<le> f" "f < 256" by (auto simp: f_def pos_imp_zdiv_nonneg_iff)
  qed
  have sd: "255 * lost sdiv expected = 255 * lost div expected" if "0 < expected" "0 < lost"
    using that by (simp add: signed_divide_int_def)
  have "rs_fraction_lost s' = word_of_int f"
    using m sd unfolding f_def lost_def expected_def by (auto simp: make_report_def Let_def split: if_splits)
  then have "uint (rs_fraction_lost s') = f" using f by (simp add: uint_word_of_int take_bit_int_eq_self)
  with SendRR_block [OF m, of junk h0 r0] ok(2) show ?thesis unfolding f_def [symmetric] by fastforce
qed

theorem receiver_report_sent_witness:
  "\<exists>d s' h r b. SendRR (\<lambda>_. 0) undefined 7 1 2 (stats_packet 5 12 1 (stats_packet 0 10 1 new_ReceiverStats)) = Some (d, s') \<and>
    RtcpCommonHeader_Parse new_header d (length d) = Some (True, h) \<and>
    ReceiverReport_Parse undefined h = Some (28, r) \<and> rr_reports r = [b] \<and> uint (rb_fraction_lost b) = 85"
  (is "\<exists>d s' h r b. SendRR _ _ _ _ _ ?s = _ \<and> _")
proof -
  have r: "stats_reachable ?s" by (intro stats_reachable.intros)
  have "rs_cumulative_loss ?s - rs_last_report_cumulative_loss ?s = 1"
    "uint (rs_extended_high_seq_num ?s) - uint (rs_last_extended_high_seq_num ?s) = 3"
    by (simp_all add: stats_packet_def Let_def new_ReceiverStats_def)
  with receiver_report_sent [OF r, of "\<lambda>_. 0" undefined 7 1 2 new_header undefined] show ?thesis by fastforce
qed

end
