(* ===== verification/Histogram.thy ===== *)
theory Histogram
  imports Prelude "HOL-Library.Log_Nat" "HOL-Library.Multiset"
begin

text \<open>
  The reordering histogram of the NACK requester, \<open>src/qos/histogram.{h,cc}\<close>: a circular buffer of
  the latest values with a count per bucket, and the smallest number of buckets that reaches a
  given share of the values. The shares are \<open>float\<close>s: the model computes them as rationals rounded
  to single precision after every operation. All of them lie between 1/128 and 2, far from the
  ends of the exponent range, which is therefore left out.
\<close>

section \<open>Single precision\<close>

definition f32_exp :: "rat \<Rightarrow> int" where
  "f32_exp q = (case quotient_of q of (a, b) \<Rightarrow>
     let e = bitlen a - bitlen b in
     if (if 0 \<le> e then b * 2 ^ nat e \<le> a else b \<le> a * 2 ^ nat (- e)) then e else e - 1)"

definition round_half_even :: "rat \<Rightarrow> int" where
  "round_half_even m =
     (let f = \<lfloor>m\<rfloor>; r = m - of_int f in
      if r < 1/2 then f else if r > 1/2 then f + 1 else if even f then f else f + 1)"

definition f32 :: "rat \<Rightarrow> rat" where
  "f32 q = (if q \<le> 0 then 0 else
     let e = f32_exp q;
         scale = (if e \<le> 23 then 2 ^ nat (23 - e) else 1 / 2 ^ nat (e - 23)) in
     of_int (round_half_even (q * scale)) / scale)"

section \<open>The histogram\<close>

record Histogram =
  hist_values :: "nat list"
  hist_capacity :: nat
  hist_buckets :: "nat list"
  hist_index :: nat

text \<open>
  \<open>reserve(max_num_values)\<close> on an empty vector: the capacity is \<open>max_num_values\<close> from then on,
  since the vector never grows beyond it.
\<close>

definition new_Histogram :: "nat \<Rightarrow> nat \<Rightarrow> Histogram" where
  "new_Histogram num_buckets max_num_values =
     \<lparr>hist_values = [], hist_capacity = max_num_values, hist_buckets = replicate num_buckets 0, hist_index = 0\<rparr>"

definition Histogram_Add :: "Histogram \<Rightarrow> nat \<Rightarrow> Histogram" where
  "Histogram_Add h v =
     (let v = min v (length (hist_buckets h) - 1);
          i = hist_index h;
          h = (if i < length (hist_values h)
               then h\<lparr>hist_buckets := (hist_buckets h)[hist_values h ! i := hist_buckets h ! (hist_values h ! i) - 1],
                      hist_values := (hist_values h)[i := v]\<rparr>
               else h\<lparr>hist_values := hist_values h @ [v]\<rparr>) in
      h\<lparr>hist_buckets := (hist_buckets h)[v := hist_buckets h ! v + 1],
        hist_index := (i + 1) mod hist_capacity h\<rparr>)"

text \<open>The loop of \<open>InverseCdf\<close>; \<open>bs\<close> are the buckets still to come.\<close>

fun inverse_cdf_loop :: "rat \<Rightarrow> nat \<Rightarrow> nat list \<Rightarrow> rat \<Rightarrow> nat \<Rightarrow> nat" where
  "inverse_cdf_loop probability n [] acc bucket = bucket"
| "inverse_cdf_loop probability n (b # bs) acc bucket =
     (if acc < probability
      then inverse_cdf_loop probability n bs (f32 (acc + f32 (of_nat b / of_nat n))) (bucket + 1)
      else bucket)"

definition InverseCdf :: "Histogram \<Rightarrow> rat \<Rightarrow> nat" where
  "InverseCdf h probability =
     inverse_cdf_loop probability (length (hist_values h)) (hist_buckets h) 0 0"

definition NumValues :: "Histogram \<Rightarrow> nat" where
  "NumValues h = length (hist_values h)"

section \<open>The window of values\<close>

text \<open>
  The abstract view: the values in the buffer are the latest ones, oldest first.
\<close>

definition hist_window :: "Histogram \<Rightarrow> nat list" where
  "hist_window h = (if length (hist_values h) < hist_capacity h then hist_values h
     else drop (hist_index h) (hist_values h) @ take (hist_index h) (hist_values h))"

definition hist_ok :: "Histogram \<Rightarrow> bool" where
  "hist_ok h \<longleftrightarrow> 0 < hist_capacity h \<and> hist_buckets h \<noteq> [] \<and> length (hist_values h) \<le> hist_capacity h \<and>
     (if length (hist_values h) < hist_capacity h then hist_index h = length (hist_values h)
      else hist_index h < hist_capacity h) \<and>
     (\<forall>v \<in> set (hist_values h). v < length (hist_buckets h)) \<and>
     (\<forall>i < length (hist_buckets h). hist_buckets h ! i = count (mset (hist_values h)) i)"

lemma new_Histogram_ok: "0 < n \<Longrightarrow> 0 < c \<Longrightarrow> hist_ok (new_Histogram n c)"
  by (simp add: hist_ok_def new_Histogram_def)

lemma Histogram_Add_fields [simp]:
  "hist_capacity (Histogram_Add h v) = hist_capacity h"
  "length (hist_buckets (Histogram_Add h v)) = length (hist_buckets h)"
  by (simp_all add: Histogram_Add_def Let_def)

lemma Histogram_Add_append:
  fixes v :: nat
  assumes "hist_ok h" and "length (hist_values h) < hist_capacity h"
  defines "w \<equiv> min v (length (hist_buckets h) - 1)"
  shows "hist_ok (Histogram_Add h v)" and "hist_window (Histogram_Add h v) = hist_window h @ [w]"
proof -
  have i: "hist_index h = length (hist_values h)" using assms(1,2) by (simp add: hist_ok_def)
  have A: "Histogram_Add h v = h\<lparr>hist_values := hist_values h @ [w],
      hist_buckets := (hist_buckets h)[w := hist_buckets h ! w + 1],
      hist_index := (length (hist_values h) + 1) mod hist_capacity h\<rparr>"
    by (simp add: Histogram_Add_def Let_def i w_def)
  have w: "w < length (hist_buckets h)" using assms(1) by (cases "hist_buckets h") (auto simp: w_def hist_ok_def)
  show "hist_ok (Histogram_Add h v)"
    using assms(1,2) w i unfolding A hist_ok_def
    by (cases "length (hist_values h) + 1 = hist_capacity h") (auto simp: nth_list_update)
  show "hist_window (Histogram_Add h v) = hist_window h @ [w]"
    using assms(2) unfolding A
    by (cases "length (hist_values h) + 1 = hist_capacity h") (auto simp: hist_window_def)
qed

lemma Histogram_Add_replace:
  fixes v :: nat
  assumes "hist_ok h" and "length (hist_values h) = hist_capacity h"
  defines "w \<equiv> min v (length (hist_buckets h) - 1)"
  shows "hist_ok (Histogram_Add h v)" and "hist_window (Histogram_Add h v) = tl (hist_window h) @ [w]"
proof -
  define i where "i = hist_index h"
  have i: "i < length (hist_values h)" using assms(1,2) by (simp add: hist_ok_def i_def)
  define x where "x = hist_values h ! i"
  have x: "x < length (hist_buckets h)" using assms(1) i by (auto simp: hist_ok_def x_def)
  have w: "w < length (hist_buckets h)" using assms(1) by (cases "hist_buckets h") (auto simp: w_def hist_ok_def)
  let ?b = "(hist_buckets h)[x := hist_buckets h ! x - 1]"
  have A: "Histogram_Add h v = h\<lparr>hist_values := (hist_values h)[i := w],
      hist_buckets := ?b[w := ?b ! w + 1], hist_index := (i + 1) mod hist_capacity h\<rparr>"
    using i by (simp add: Histogram_Add_def Let_def w_def x_def i_def)
  have c: "hist_buckets h ! j = count (mset (hist_values h)) j" if "j < length (hist_buckets h)" for j
    using assms(1) that by (simp add: hist_ok_def)
  have m: "mset ((hist_values h)[i := w]) = mset (hist_values h) - {#x#} + {#w#}"
    using i by (simp add: mset_update x_def)
  have "x \<in># mset (hist_values h)" using i by (simp add: x_def)
  then have "?b[w := ?b ! w + 1] ! j = count (mset ((hist_values h)[i := w])) j" if "j < length (hist_buckets h)" for j
    using that c x w unfolding m by (auto simp: nth_list_update)
  moreover have "\<forall>y \<in> set ((hist_values h)[i := w]). y < length (hist_buckets h)"
    using assms(1) w set_update_subset_insert [of "hist_values h" i w] by (auto simp: hist_ok_def)
  ultimately show "hist_ok (Histogram_Add h v)"
    using assms(1,2) unfolding A hist_ok_def by simp
  show "hist_window (Histogram_Add h v) = tl (hist_window h) @ [w]"
  proof (cases "i + 1 = hist_capacity h")
    case True
    have u: "(hist_values h)[i := w] = take i (hist_values h) @ [w]"
      using i True assms(2) by (simp add: upd_conv_take_nth_drop)
    have d: "drop i (hist_values h) = [x]"
      using i True assms(2) by (simp add: x_def flip: Cons_nth_drop_Suc)
    show ?thesis
      using True assms(2) d u unfolding A by (simp add: hist_window_def i_def [symmetric])
  next
    case False
    then have m: "(i + 1) mod hist_capacity h = i + 1" using assms(2) i by simp
    have "drop i (hist_values h) = x # drop (Suc i) (hist_values h)"
      using i by (simp add: Cons_nth_drop_Suc x_def)
    then show ?thesis
      using assms(2) i m unfolding A
      by (simp add: hist_window_def i_def [symmetric] take_Suc_conv_app_nth)
  qed
qed

lemma hist_window_length: "hist_ok h \<Longrightarrow> length (hist_window h) = length (hist_values h)"
  by (auto simp: hist_window_def hist_ok_def)

lemma hist_window_mset: "mset (hist_window h) = mset (hist_values h)"
proof -
  have "mset (drop i xs @ take i xs) = mset (take i xs @ drop i xs)" for i and xs :: "nat list"
    by (simp only: mset_append add.commute)
  then show ?thesis by (simp add: hist_window_def)
qed

lemma tl_drop_snoc: "k < length ws \<Longrightarrow> tl (drop k ws) @ [w] = drop (Suc k) (ws @ [w])"
  by (simp add: drop_Suc tl_drop)

lemma foldl_Histogram_Add:
  assumes "hist_ok h"
  shows "hist_ok (foldl Histogram_Add h vs) \<and> hist_capacity (foldl Histogram_Add h vs) = hist_capacity h \<and>
    length (hist_buckets (foldl Histogram_Add h vs)) = length (hist_buckets h) \<and>
    (let ws = hist_window h @ map (\<lambda>v. min v (length (hist_buckets h) - 1)) vs in
     hist_window (foldl Histogram_Add h vs) = drop (length ws - hist_capacity h) ws)"
proof (induction vs rule: rev_induct)
  case Nil
  then show ?case
    using assms hist_window_length [OF assms] by (simp add: hist_ok_def)
next
  case (snoc v vs)
  let ?g = "foldl Histogram_Add h vs" and ?ws = "hist_window h @ map (\<lambda>v. min v (length (hist_buckets h) - 1)) vs"
  let ?w = "min v (length (hist_buckets h) - 1)" and ?c = "hist_capacity h"
  have g: "hist_ok ?g" "hist_capacity ?g = ?c" "length (hist_buckets ?g) = length (hist_buckets h)"
    "hist_window ?g = drop (length ?ws - ?c) ?ws"
    using snoc by (simp_all add: Let_def)
  have l: "length (hist_values ?g) = min (length ?ws) ?c"
    using hist_window_length [OF g(1)] g(4) by auto
  show ?case
  proof (cases "length ?ws < ?c")
    case True
    then show ?thesis
      using Histogram_Add_append [OF g(1), of v] g l by (simp add: Let_def)
  next
    case False
    then have "length (hist_values ?g) = hist_capacity ?g" using l g(2) by simp
    note R = Histogram_Add_replace [OF g(1) this, of v]
    have "0 < ?c" using assms by (simp add: hist_ok_def)
    then have s: "Suc (length ?ws - ?c) = length (?ws @ [?w]) - ?c" and "length ?ws - ?c < length ?ws"
      using False by simp_all
    then have "tl (drop (length ?ws - ?c) ?ws) @ [?w] = drop (length (?ws @ [?w]) - ?c) (?ws @ [?w])"
      using tl_drop_snoc by (simp only: s [symmetric])
    then have "hist_window (Histogram_Add ?g v) = drop (length (?ws @ [?w]) - ?c) (?ws @ [?w])"
      using R(2) g(3,4) by simp
    then show ?thesis using R(1) g(2,3) by (simp add: Let_def)
  qed
qed

lemma inverse_cdf_loop_le: "inverse_cdf_loop p n bs acc bucket \<le> bucket + length bs"
  by (induction p n bs acc bucket rule: inverse_cdf_loop.induct) auto

text \<open>
  the histogram keeps the latest values. After any sequence of additions to a new histogram the
  buffer holds exactly the latest \<open>capacity\<close> values, clamped to the last bucket, every bucket
  counts its values in that window, and the inverse distribution function returns at most the
  number of buckets for every probability.
\<close>

theorem Histogram_window:
  fixes n c :: nat and vs :: "nat list"
  assumes "0 < n" and "0 < c"
  defines "h \<equiv> foldl Histogram_Add (new_Histogram n c) vs" and "ws \<equiv> map (\<lambda>v. min v (n - 1)) vs"
  shows "hist_window h = drop (length ws - c) ws \<and> NumValues h = min (length vs) c \<and>
    length (hist_buckets h) = n \<and>
    (\<forall>i < n. hist_buckets h ! i = count (mset (drop (length ws - c) ws)) i) \<and> InverseCdf h p \<le> n"
proof -
  have b: "length (hist_buckets (new_Histogram n c)) = n" "hist_capacity (new_Histogram n c) = c"
    "hist_window (new_Histogram n c) = []"
    by (simp_all add: new_Histogram_def hist_window_def)
  have h: "hist_ok h" "hist_window h = drop (length ws - c) ws" "length (hist_buckets h) = n"
    using foldl_Histogram_Add [OF new_Histogram_ok [OF assms(1,2)], of vs] b unfolding h_def ws_def
    by (simp_all add: Let_def)
  then have "NumValues h = min (length vs) c"
    using hist_window_length [OF h(1)] by (simp add: NumValues_def ws_def)
  moreover have "\<forall>i < n. hist_buckets h ! i = count (mset (hist_window h)) i"
    using h(1,3) by (simp add: hist_ok_def hist_window_mset)
  moreover have "InverseCdf h p \<le> n"
    using inverse_cdf_loop_le [of p _ "hist_buckets h" 0 0] h(3) by (simp add: InverseCdf_def)
  ultimately show ?thesis using h by simp
qed

theorem Histogram_window_witness:
  "hist_window (foldl Histogram_Add (new_Histogram 10 3) [5, 1, 2, 40]) = [1, 2, 9] \<and>
    InverseCdf (foldl Histogram_Add (new_Histogram 10 3) [5, 1, 2, 40]) (1/2) \<le> 10"
  using Histogram_window [of 10 3 "[5, 1, 2, 40]" "1/2"] by simp

end
