(* ===== verification/NackRequester.thy ===== *)
theory NackRequester
  imports SeqMap Histogram Units
begin

text \<open>
  The NACK requester of the video receiver, \<open>src/qos/nack_requester.{h,cc}\<close>, with the retry schedule
  of \<open>src/qos/video_recovery_timing.h\<close>.

  The maps and sets keyed by sequence numbers are the ordered containers of theory \<open>SeqMap\<close>. The
  clock is an argument, the current time in microseconds. \<open>nack_ok\<close> is the invariant; in
  particular all requested numbers lie within the 10000 before the newest one, where the circular
  comparison orders them, so the containers behave as maps.
\<close>

section \<open>State\<close>

definition kMaxPacketAge :: u16 where "kMaxPacketAge = 10000"
definition kMaxNackPackets :: nat where "kMaxNackPackets = 1000"
definition kDefaultRtt :: time_delta where "kDefaultRtt = Millis 100"
definition kMaxNackRetries :: int where "kMaxNackRetries = 100"
definition kMaxReorderedPackets :: nat where "kMaxReorderedPackets = 128"
definition kNumReorderingBuckets :: nat where "kNumReorderingBuckets = 10"
definition kFailedSendRetryDelay :: time_delta where "kFailedSendRetryDelay = Millis 20"
definition kDefaultSendNackDelay :: time_delta where "kDefaultSendNackDelay = Millis 10"

record NackInfo =
  ni_seq_num :: u16
  ni_send_at_seq_num :: u16
  ni_created_at_time :: timestamp
  ni_sent_at_time :: timestamp
  ni_last_send_attempt_time :: timestamp
  ni_retries :: int
  ni_send_pending :: bool

definition new_NackInfo :: "u16 \<Rightarrow> u16 \<Rightarrow> timestamp \<Rightarrow> NackInfo" where
  "new_NackInfo seq_num send_at_seq_num created_at_time =
     \<lparr>ni_seq_num = seq_num, ni_send_at_seq_num = send_at_seq_num, ni_created_at_time = created_at_time,
      ni_sent_at_time = MinusInfinity, ni_last_send_attempt_time = MinusInfinity, ni_retries = 0,
      ni_send_pending = False\<rparr>"

record NackRequester =
  nk_list :: "(u16, NackInfo) omap"
  nk_recovered :: "(u16, unit) omap"
  nk_histogram :: Histogram
  nk_initialized :: bool
  nk_rtt :: time_delta
  nk_has_rtt_sample :: bool
  nk_keyframe_request_pending :: bool
  nk_newest_seq_num :: u16
  nk_send_nack_delay :: time_delta

definition new_NackRequester :: NackRequester where
  "new_NackRequester = \<lparr>nk_list = [], nk_recovered = [],
     nk_histogram = new_Histogram kNumReorderingBuckets kMaxReorderedPackets,
     nk_initialized = False, nk_rtt = kDefaultRtt, nk_has_rtt_sample = False,
     nk_keyframe_request_pending = False, nk_newest_seq_num = 0, nk_send_nack_delay = kDefaultSendNackDelay\<rparr>"

section \<open>Operations\<close>

definition NackRetryRttMultiplier :: "bool \<Rightarrow> int \<Rightarrow> int" where
  "NackRetryRttMultiplier has_rtt_sample successful_nack_count =
     (if successful_nack_count \<le> 0 then 1
      else if has_rtt_sample then (if successful_nack_count \<le> 2 then 1 else 2)
      else push_bit (nat (min successful_nack_count 3)) 1)"

definition UpdateRtt :: "NackRequester \<Rightarrow> int \<Rightarrow> NackRequester" where
  "UpdateRtt n rtt_ms =
     (if rtt_ms \<le> 0 \<or> rtt_ms > 2000 then n
      else if nk_has_rtt_sample n then n\<lparr>nk_rtt := Millis ((3 * ms (nk_rtt n) + rtt_ms) sdiv 4)\<rparr>
      else n\<lparr>nk_rtt := Millis rtt_ms, nk_has_rtt_sample := True\<rparr>)"

definition WaitNumberOfPackets :: "NackRequester \<Rightarrow> rat \<Rightarrow> nat" where
  "WaitNumberOfPackets n probability =
     (if NumValues (nk_histogram n) = 0 then 0 else InverseCdf (nk_histogram n) probability)"

definition UpdateReorderingStatistics :: "NackRequester \<Rightarrow> u16 \<Rightarrow> NackRequester" where
  "UpdateReorderingStatistics n seq_num =
     n\<lparr>nk_histogram := Histogram_Add (nk_histogram n) (unat (ReverseDiff 0 (nk_newest_seq_num n) seq_num))\<rparr>"

text \<open>The body of the insertion loop, and the loop from \<open>start\<close> up to but not including \<open>end\<close>.\<close>

definition add_nack :: "timestamp \<Rightarrow> NackRequester \<Rightarrow> u16 \<Rightarrow> NackRequester" where
  "add_nack now n seq_num =
     (if om_find before seq_num (nk_recovered n) \<noteq> None then n
      else n\<lparr>nk_list := om_insert before seq_num
               (new_NackInfo seq_num (seq_num + of_nat (WaitNumberOfPackets n (1/2))) now) (nk_list n)\<rparr>)"

function add_nacks :: "timestamp \<Rightarrow> u16 \<Rightarrow> u16 \<Rightarrow> NackRequester \<Rightarrow> NackRequester" where
  "add_nacks now seq_num seq_num_end n =
     (if seq_num = seq_num_end then n else add_nacks now (seq_num + 1) seq_num_end (add_nack now n seq_num))"
  by pat_completeness auto

definition distance :: "u16 \<Rightarrow> u16 \<Rightarrow> nat" where
  "distance a b = unat (b - a)"

lemma distance_Suc: "a \<noteq> b \<Longrightarrow> distance a b = Suc (distance (a + 1) b)"
proof -
  assume "a \<noteq> b"
  then have "b - a \<noteq> 0" by simp
  then have "unat (b - a - 1) = unat (b - a) - 1" "unat (b - a) \<noteq> 0"
    by (metis unat_minus_one, simp add: unat_eq_zero)
  then show ?thesis by (simp add: distance_def algebra_simps)
qed

termination add_nacks
  by (relation "measure (\<lambda>(t, a, b, n). distance a b)") (auto simp: distance_Suc)

declare add_nacks.simps [simp del]

definition AddPacketsToNack :: "timestamp \<Rightarrow> NackRequester \<Rightarrow> u16 \<Rightarrow> u16 \<Rightarrow> NackRequester" where
  "AddPacketsToNack now n seq_num_start seq_num_end =
     (let n = n\<lparr>nk_list := from_lower before (seq_num_end - kMaxPacketAge) (nk_list n)\<rparr>;
          num_new_nacks = ForwardDiff 0 seq_num_start seq_num_end in
      if length (nk_list n) + unat num_new_nacks > kMaxNackPackets
      then n\<lparr>nk_list := [], nk_keyframe_request_pending := True\<rparr>
      else add_nacks now seq_num_start seq_num_end n)"

datatype NackFilterOptions = kSeqNumOnly | kTimeOnly

text \<open>The condition of the loop of \<open>GetNackBatch\<close> on an entry.\<close>

definition nack_due :: "timestamp \<Rightarrow> NackRequester \<Rightarrow> NackFilterOptions \<Rightarrow> NackInfo \<Rightarrow> bool" where
  "nack_due now n options i =
     (let delay_timed_out = Timestamp_sub now (ni_created_at_time i) \<ge> nk_send_nack_delay n;
          retry_delay = (if ni_retries i > 0
            then unit_scale (nk_rtt n) (NackRetryRttMultiplier (nk_has_rtt_sample n) (ni_retries i))
            else nk_rtt n);
          nack_on_rtt_passed = Timestamp_sub now (ni_sent_at_time i) \<ge> retry_delay;
          send_attempt_backoff_passed =
            Timestamp_sub now (ni_last_send_attempt_time i) \<ge> kFailedSendRetryDelay;
          nack_on_seq_num_passed = (IsInfinite (ni_sent_at_time i) \<and>
            AheadOrAt 0 (nk_newest_seq_num n) (ni_send_at_seq_num i)) in
      \<not> ni_send_pending i \<and> delay_timed_out \<and> send_attempt_backoff_passed \<and>
      (options \<noteq> kTimeOnly \<and> nack_on_seq_num_passed \<or> options \<noteq> kSeqNumOnly \<and> nack_on_rtt_passed))"

definition GetNackBatch :: "timestamp \<Rightarrow> NackRequester \<Rightarrow> NackFilterOptions \<Rightarrow> u16 list \<times> NackRequester" where
  "GetNackBatch now n options =
     (map (\<lambda>e. ni_seq_num (snd e)) (filter (\<lambda>e. nack_due now n options (snd e)) (nk_list n)),
      n\<lparr>nk_list := map (\<lambda>e. if nack_due now n options (snd e)
          then (fst e, (snd e)\<lparr>ni_send_pending := True\<rparr>) else e) (nk_list n)\<rparr>)"

definition ProcessNacks :: "timestamp \<Rightarrow> NackRequester \<Rightarrow> u16 list \<times> NackRequester" where
  "ProcessNacks now n = GetNackBatch now n kTimeOnly"

definition OnReceivedPacket :: "timestamp \<Rightarrow> NackRequester \<Rightarrow> u16 \<Rightarrow> bool \<Rightarrow> u16 list \<times> NackRequester" where
  "OnReceivedPacket now n seq_num is_recovered =
     (if \<not> nk_initialized n then ([], n\<lparr>nk_newest_seq_num := seq_num, nk_initialized := True\<rparr>)
      else if seq_num = nk_newest_seq_num n then ([], n)
      else if AheadOf 0 (nk_newest_seq_num n) seq_num then
        let n = (case om_find before seq_num (nk_list n) of None \<Rightarrow> n
                 | Some i \<Rightarrow>
                     let n = (if is_recovered \<and> ni_retries i = 1 \<and> \<not> IsInfinite (ni_sent_at_time i)
                              then UpdateRtt n (ms (Timestamp_sub now (ni_sent_at_time i))) else n) in
                     n\<lparr>nk_list := om_erase before seq_num (nk_list n)\<rparr>) in
        ([], if \<not> is_recovered then UpdateReorderingStatistics n seq_num else n)
      else if is_recovered then
        let r = om_insert before seq_num () (nk_recovered n) in
        ([], n\<lparr>nk_recovered := from_lower before (seq_num - kMaxPacketAge) r\<rparr>)
      else
        let n = AddPacketsToNack now n (nk_newest_seq_num n + 1) seq_num in
        GetNackBatch now (n\<lparr>nk_newest_seq_num := seq_num\<rparr>) kSeqNumOnly)"

text \<open>The body of the loop of \<open>OnNackBatchSent\<close>.\<close>

definition nack_sent :: "timestamp \<Rightarrow> bool \<Rightarrow> NackRequester \<Rightarrow> u16 \<Rightarrow> NackRequester" where
  "nack_sent sent_at send_successful n sequence_number =
     (case om_find before sequence_number (nk_list n) of
        None \<Rightarrow> n
      | Some i \<Rightarrow>
          if \<not> ni_send_pending i then n
          else
            let i = i\<lparr>ni_send_pending := False, ni_last_send_attempt_time := sent_at\<rparr> in
            if \<not> send_successful then n\<lparr>nk_list := om_insert before sequence_number i (nk_list n)\<rparr>
            else
              let i = i\<lparr>ni_retries := ni_retries i + 1, ni_sent_at_time := sent_at\<rparr> in
              if ni_retries i \<ge> kMaxNackRetries
              then n\<lparr>nk_list := om_erase before sequence_number (nk_list n)\<rparr>
              else n\<lparr>nk_list := om_insert before sequence_number i (nk_list n)\<rparr>)"

definition OnNackBatchSent :: "timestamp \<Rightarrow> NackRequester \<Rightarrow> u16 list \<Rightarrow> bool \<Rightarrow> NackRequester" where
  "OnNackBatchSent sent_at n nack_batch send_successful =
     foldl (nack_sent sent_at send_successful) n nack_batch"

definition ConsumeKeyFrameRequest :: "NackRequester \<Rightarrow> bool \<times> NackRequester" where
  "ConsumeKeyFrameRequest n =
     (nk_keyframe_request_pending n, n\<lparr>nk_keyframe_request_pending := False\<rparr>)"

definition ClearUpTo :: "NackRequester \<Rightarrow> u16 \<Rightarrow> NackRequester" where
  "ClearUpTo n seq_num =
     n\<lparr>nk_list := from_upper before seq_num (nk_list n),
       nk_recovered := from_upper before seq_num (nk_recovered n)\<rparr>"

definition HasPendingNacks :: "NackRequester \<Rightarrow> bool" where
  "HasPendingNacks n \<longleftrightarrow> nk_list n \<noteq> []"

definition HasPendingNacksUpTo :: "NackRequester \<Rightarrow> u16 \<Rightarrow> bool" where
  "HasPendingNacksUpTo n seq_num \<longleftrightarrow> length (nk_list n) \<noteq> length (from_upper before seq_num (nk_list n))"

definition RttMs :: "NackRequester \<Rightarrow> int" where
  "RttMs n = ms (nk_rtt n)"

section \<open>The window of requested numbers\<close>

definition window_ok :: "u16 \<Rightarrow> (u16, 'v) omap \<Rightarrow> bool" where
  "window_ok newest m \<longleftrightarrow> sorted_wrt before (keys_of m) \<and>
     (\<forall>k \<in> set (keys_of m). 0 < distance k newest \<and> distance k newest \<le> 10000)"

lemma uint_back:
  fixes k newest :: u16
  assumes "distance k newest \<le> 10000"
  shows "uint (k - (newest - kMaxPacketAge)) = 10000 - int (distance k newest)"
proof -
  have d: "uint (newest - k) = int (distance k newest)" by (simp only: distance_def uint_nat)
  have a: "uint kMaxPacketAge = 10000" by (simp add: kMaxPacketAge_def)
  have "uint (newest - k) \<le> uint kMaxPacketAge"
    using assms unfolding d a by simp
  then have "uint (kMaxPacketAge - (newest - k)) = uint kMaxPacketAge - uint (newest - k)"
    by (simp only: uint_sub_lem)
  moreover have "k - (newest - kMaxPacketAge) = kMaxPacketAge - (newest - k)" by simp
  ultimately show ?thesis by (simp only: d a)
qed

lemma window_half_circle: "distance k newest \<le> 10000 \<Longrightarrow> k \<in> half_circle (newest - kMaxPacketAge)"
  using uint_back [of k newest] by (simp add: half_circle_def)

lemma window_ordered: "window_ok newest m \<Longrightarrow> circle.ordered (newest - kMaxPacketAge) m"
  using window_half_circle by (auto simp: window_ok_def circle.ordered_def)

lemma window_ok_insert:
  assumes "window_ok newest m" and "0 < distance key newest" and "distance key newest \<le> 10000"
  shows "window_ok newest (om_insert before key v m)"
    and "map_of (om_insert before key v m) = (map_of m)(key \<mapsto> v)"
proof -
  note o = window_ordered [OF assms(1)] window_half_circle [OF assms(3)]
  show M: "map_of (om_insert before key v m) = (map_of m)(key \<mapsto> v)" by (rule circle.om_insert_map_of [OF o])
  have "set (keys_of (om_insert before key v m)) = insert key (set (keys_of m))"
    using arg_cong [OF M, of dom] by (simp add: keys_of_def dom_map_of_conv_image_fst)
  then show "window_ok newest (om_insert before key v m)"
    using circle.om_insert_ordered [OF o, of v] assms by (auto simp: window_ok_def circle.ordered_def)
qed

lemma window_distinct: "window_ok newest m \<Longrightarrow> distinct (keys_of m)"
  by (rule circle.ordered_distinct [OF window_ordered])

lemma window_length: "window_ok newest m \<Longrightarrow> length m = card (dom (map_of m))"
  using distinct_card [OF window_distinct, of newest m] by (simp add: keys_of_def dom_map_of_conv_image_fst)

lemma window_ok_filter: "window_ok newest m \<Longrightarrow> window_ok newest (filter P m)"
  by (auto simp: window_ok_def keys_of_def sorted_wrt_map sorted_wrt_filter)

lemma window_ok_dropWhile: "window_ok newest m \<Longrightarrow> window_ok newest (dropWhile P m)"
  by (auto simp: window_ok_def keys_of_def sorted_wrt_map dropWhile_eq_drop sorted_wrt_drop dest: in_set_dropD)

text \<open>A key that is found is in the container, whatever the key, since the comparison is total.\<close>

lemma before_total: "before a b \<or> a = b \<or> before b a"
  using AheadOf0_antisym [of a b] by (auto simp: before_def DescendingSeqNumComp_def)

lemma om_find_before: "om_find before key m = Some v \<Longrightarrow> (key, v) \<in> set m"
proof -
  assume f: "om_find before key m = Some v"
  then obtain k r where r: "from_lower before key m = (k, v) # r" "\<not> before key k"
    by (auto simp: om_find_def split: list.splits if_splits)
  then have "\<not> before k key" by (auto simp: from_lower_def dropWhile_eq_Cons_conv)
  with r(2) have "k = key" using before_total [of k key] by blast
  with r(1) show ?thesis by (auto simp: from_lower_def dest: set_dropWhileD [of _ _ m] dest!: arg_cong [where f = set])
qed

lemma om_erase_window:
  assumes "window_ok newest m" and "key \<in> set (keys_of m)"
  shows "om_erase before key m = filter (\<lambda>e. fst e \<noteq> key) m"
  using circle.om_erase_filter [OF window_ordered [OF assms(1)]] window_half_circle [of key newest] assms
  by (auto simp: window_ok_def)

lemma om_insert_set: "set (om_insert before key v m) \<subseteq> insert (key, v) (set m)"
proof -
  have "set (om_rest before key m) \<subseteq> set (from_lower before key m)"
    by (cases "from_lower before key m") (auto simp: om_rest_def split: if_splits)
  also have "\<dots> \<subseteq> set m" by (auto simp: from_lower_def dest: set_dropWhileD)
  finally show ?thesis by (auto simp: om_insert_def dest: set_takeWhileD)
qed

section \<open>The invariant\<close>

definition entry_ok :: "u16 \<times> NackInfo \<Rightarrow> bool" where
  "entry_ok e \<longleftrightarrow> ni_seq_num (snd e) = fst e \<and> 0 \<le> ni_retries (snd e) \<and> ni_retries (snd e) < kMaxNackRetries"

definition nack_ok :: "NackRequester \<Rightarrow> bool" where
  "nack_ok n \<longleftrightarrow> window_ok (nk_newest_seq_num n) (nk_list n) \<and> length (nk_list n) \<le> kMaxNackPackets \<and>
     (\<forall>e \<in> set (nk_list n). entry_ok e) \<and> (nk_initialized n \<or> nk_list n = []) \<and> hist_ok (nk_histogram n)"

lemma new_NackRequester_ok: "nack_ok new_NackRequester"
  by (simp add: nack_ok_def new_NackRequester_def window_ok_def keys_of_def new_Histogram_ok
      kNumReorderingBuckets_def kMaxReorderedPackets_def)

lemma nack_ok_suffix: "nack_ok n \<Longrightarrow> nack_ok (n\<lparr>nk_list := dropWhile P (nk_list n)\<rparr>)"
  using length_dropWhile_le [of P "nk_list n"]
  by (auto simp: nack_ok_def window_ok_dropWhile dest: set_dropWhileD)

lemma nack_ok_filter: "nack_ok n \<Longrightarrow> nack_ok (n\<lparr>nk_list := filter P (nk_list n)\<rparr>)"
  unfolding nack_ok_def by (auto simp: window_ok_filter intro: order_trans [OF length_filter_le])

lemma nack_ok_update:
  assumes "nack_ok n" and "(key, i) \<in> set (nk_list n)" and "entry_ok (key, i')"
  shows "nack_ok (n\<lparr>nk_list := om_insert before key i' (nk_list n)\<rparr>)"
proof -
  have w: "window_ok (nk_newest_seq_num n) (nk_list n)" using assms(1) by (simp add: nack_ok_def)
  have k: "key \<in> set (keys_of (nk_list n))" using assms(2) by (force simp: keys_of_def)
  then have d: "0 < distance key (nk_newest_seq_num n)" "distance key (nk_newest_seq_num n) \<le> 10000"
    using w by (auto simp: window_ok_def)
  have "dom (map_of (om_insert before key i' (nk_list n))) = dom (map_of (nk_list n))"
    using k by (auto simp: window_ok_insert(2) [OF w d] keys_of_def dom_map_of_conv_image_fst)
  then have "length (om_insert before key i' (nk_list n)) = length (nk_list n)"
    using window_length [OF w] window_length [OF window_ok_insert(1) [OF w d, of i']] by simp
  then show ?thesis
    using assms window_ok_insert(1) [OF w d] om_insert_set [of key i' "nk_list n"] by (auto simp: nack_ok_def)
qed

lemma UpdateRtt_fields [simp]:
  "nk_list (UpdateRtt n r) = nk_list n" "nk_newest_seq_num (UpdateRtt n r) = nk_newest_seq_num n"
  "nk_initialized (UpdateRtt n r) = nk_initialized n" "nk_histogram (UpdateRtt n r) = nk_histogram n"
  "nk_recovered (UpdateRtt n r) = nk_recovered n" "nk_keyframe_request_pending (UpdateRtt n r) = nk_keyframe_request_pending n"
  by (simp_all add: UpdateRtt_def)

lemma UpdateRtt_ok: "nack_ok n \<Longrightarrow> nack_ok (UpdateRtt n r)"
  by (simp add: nack_ok_def)

lemma nack_sent_ok:
  assumes "nack_ok n"
  shows "nack_ok (nack_sent t ok n s)"
proof (cases "om_find before s (nk_list n)")
  case (Some i)
  then have i: "(s, i) \<in> set (nk_list n)" by (rule om_find_before)
  then have e: "entry_ok (s, i)" using assms by (simp add: nack_ok_def)
  have "s \<in> set (keys_of (nk_list n))" using i by (force simp: keys_of_def)
  moreover have "window_ok (nk_newest_seq_num n) (nk_list n)" using assms by (simp add: nack_ok_def)
  ultimately have "om_erase before s (nk_list n) = filter (\<lambda>e. fst e \<noteq> s) (nk_list n)"
    using om_erase_window by blast
  then show ?thesis
    using Some assms e nack_ok_update [OF assms i] nack_ok_filter [OF assms]
    by (auto simp: nack_sent_def Let_def entry_ok_def)
qed (use assms in \<open>simp add: nack_sent_def\<close>)

lemma OnNackBatchSent_ok: "nack_ok n \<Longrightarrow> nack_ok (OnNackBatchSent t n b ok)"
  unfolding OnNackBatchSent_def by (induction b arbitrary: n) (auto simp: nack_sent_ok)

lemma GetNackBatch_ok: "nack_ok n \<Longrightarrow> nack_ok (snd (GetNackBatch now n opt))"
proof -
  assume n: "nack_ok n"
  have k: "keys_of (nk_list (snd (GetNackBatch now n opt))) = keys_of (nk_list n)"
    by (auto simp: GetNackBatch_def keys_of_def)
  then have "window_ok (nk_newest_seq_num n) (nk_list (snd (GetNackBatch now n opt)))"
    using n unfolding nack_ok_def window_ok_def by simp
  then show ?thesis
    using n by (auto simp: nack_ok_def GetNackBatch_def entry_ok_def split: if_splits)
qed

lemma ClearUpTo_ok: "nack_ok n \<Longrightarrow> nack_ok (ClearUpTo n s)"
  using nack_ok_suffix [of n "\<lambda>e. \<not> before s (fst e)"] by (simp add: ClearUpTo_def from_upper_def nack_ok_def)

section \<open>Missing numbers\<close>

lemma distance_self [simp]: "distance a a = 0" by (simp add: distance_def)

lemma distance_eq_0: "distance a b = 0 \<longleftrightarrow> a = b"
  by (auto simp: distance_def unat_eq_0)

lemma distance_bound: "distance a b < 2 ^ 16"
  using unsigned_less [of "b - a"] by (simp add: distance_def)

lemma distance_add:
  assumes "distance a b + distance b c < 2 ^ 16"
  shows "distance a c = distance a b + distance b c"
proof -
  have "unat (b - a) + unat (c - b) < 2 ^ LENGTH(16)" using assms by (simp add: distance_def)
  then have "unat ((b - a) + (c - b)) = unat (b - a) + unat (c - b)" by (simp only: unat_add_lem)
  then show ?thesis by (simp add: distance_def)
qed

lemma distance_step:
  assumes "distance a k < distance a b" and "k \<noteq> a"
  shows "distance (a + 1) k < distance (a + 1) b"
proof -
  have "a \<noteq> b" using assms(1) by auto
  then show ?thesis using assms distance_Suc [of a b] distance_Suc [of a k] by simp
qed

text \<open>The numbers from \<open>a\<close> up to but not including \<open>b\<close>.\<close>

definition seq_range :: "u16 \<Rightarrow> u16 \<Rightarrow> u16 set" where
  "seq_range a b = {k. distance a k < distance a b}"

lemma seq_range_self [simp]: "seq_range a a = {}"
  by (simp add: seq_range_def)

lemma seq_range_step: "a \<noteq> b \<Longrightarrow> seq_range a b = insert a (seq_range (a + 1) b)"
proof (rule set_eqI)
  fix k assume ab: "a \<noteq> b"
  show "k \<in> seq_range a b \<longleftrightarrow> k \<in> insert a (seq_range (a + 1) b)"
  proof (cases "k = a")
    case False
    then show ?thesis using distance_Suc [of a k] distance_Suc [OF ab] by (auto simp: seq_range_def)
  qed (use ab distance_Suc [OF ab] in \<open>simp add: seq_range_def\<close>)
qed

lemma seq_range_after:
  assumes "a \<noteq> b"
  shows "seq_range (a + 1) b = {k. k \<noteq> a \<and> distance a k < distance a b}"
proof (rule set_eqI)
  fix k
  have "distance (a + 1) a = 2 ^ 16 - 1"
    by (simp add: distance_def unsigned_minus_1_eq_mask mask_eq_exp_minus_1)
  then have "\<not> distance (a + 1) a < distance (a + 1) b" using distance_bound [of "a + 1" b] by simp
  then show "k \<in> seq_range (a + 1) b \<longleftrightarrow> k \<in> {k. k \<noteq> a \<and> distance a k < distance a b}"
    using distance_Suc [OF assms] distance_Suc [of a k] by (cases "k = a") (auto simp: seq_range_def)
qed

lemma add_nack_fields [simp]:
  "nk_newest_seq_num (add_nack now n k) = nk_newest_seq_num n" "nk_recovered (add_nack now n k) = nk_recovered n"
  "nk_initialized (add_nack now n k) = nk_initialized n" "nk_histogram (add_nack now n k) = nk_histogram n"
  "nk_keyframe_request_pending (add_nack now n k) = nk_keyframe_request_pending n"
  by (simp_all add: add_nack_def)

lemma add_nacks_fields:
  "nk_newest_seq_num (add_nacks now a b n) = nk_newest_seq_num n \<and> nk_recovered (add_nacks now a b n) = nk_recovered n \<and>
   nk_initialized (add_nacks now a b n) = nk_initialized n \<and> nk_histogram (add_nacks now a b n) = nk_histogram n \<and>
   nk_keyframe_request_pending (add_nacks now a b n) = nk_keyframe_request_pending n"
  by (induction now a b n rule: add_nacks.induct) (subst (1 2 3 4 5) add_nacks.simps, simp)

lemma add_nack_window:
  assumes "window_ok b (nk_list n)" and "\<forall>e \<in> set (nk_list n). entry_ok e"
    and "0 < distance k b" and "distance k b \<le> 10000"
  shows "window_ok b (nk_list (add_nack now n k)) \<and> (\<forall>e \<in> set (nk_list (add_nack now n k)). entry_ok e) \<and>
    length (nk_list (add_nack now n k)) \<le> Suc (length (nk_list n)) \<and>
    set (keys_of (nk_list (add_nack now n k))) = set (keys_of (nk_list n)) \<union>
      (if om_find before k (nk_recovered n) = None then {k} else {})"
proof (cases "om_find before k (nk_recovered n)")
  case None
  define i where "i = new_NackInfo k (k + of_nat (WaitNumberOfPackets n (1/2))) now"
  have A: "nk_list (add_nack now n k) = om_insert before k i (nk_list n)"
    using None by (simp add: add_nack_def i_def)
  note W = window_ok_insert [OF assms(1,3,4), of i]
  have K: "set (keys_of (om_insert before k i (nk_list n))) = insert k (set (keys_of (nk_list n)))"
    using arg_cong [OF W(2), of dom] by (simp add: keys_of_def dom_map_of_conv_image_fst)
  have "card (dom (map_of (om_insert before k i (nk_list n)))) \<le> Suc (card (dom (map_of (nk_list n))))"
    using W(2) by (simp add: card_insert_if finite_dom_map_of)
  then have "length (om_insert before k i (nk_list n)) \<le> Suc (length (nk_list n))"
    using window_length [OF assms(1)] window_length [OF W(1)] by simp
  moreover have "entry_ok (k, i)" by (simp add: entry_ok_def i_def new_NackInfo_def kMaxNackRetries_def)
  ultimately show ?thesis
    using None A W(1) K assms(2) om_insert_set [of k i "nk_list n"] by auto
qed (use assms in \<open>simp add: add_nack_def\<close>)

lemma add_nacks_window:
  assumes "window_ok b (nk_list n)" and "\<forall>e \<in> set (nk_list n). entry_ok e" and "distance a b \<le> 10000"
  shows "window_ok b (nk_list (add_nacks now a b n)) \<and> (\<forall>e \<in> set (nk_list (add_nacks now a b n)). entry_ok e) \<and>
    length (nk_list (add_nacks now a b n)) \<le> length (nk_list n) + distance a b \<and>
    set (keys_of (nk_list (add_nacks now a b n))) = set (keys_of (nk_list n)) \<union>
      {k \<in> seq_range a b. om_find before k (nk_recovered n) = None}"
  using assms
proof (induction now a b n rule: add_nacks.induct)
  case (1 now a b n)
  show ?case
  proof (cases "a = b")
    case False
    let ?n = "add_nack now n a"
    have d: "distance a b = Suc (distance (a + 1) b)" using distance_Suc [OF False] .
    then have "0 < distance a b" "distance (a + 1) b \<le> 10000" using 1(4) by simp_all
    note A = add_nack_window [OF 1(2,3) this(1) 1(4), of now]
    have "window_ok b (nk_list (add_nacks now (a + 1) b ?n)) \<and>
      (\<forall>e \<in> set (nk_list (add_nacks now (a + 1) b ?n)). entry_ok e) \<and>
      length (nk_list (add_nacks now (a + 1) b ?n)) \<le> length (nk_list ?n) + distance (a + 1) b \<and>
      set (keys_of (nk_list (add_nacks now (a + 1) b ?n))) = set (keys_of (nk_list ?n)) \<union>
        {k \<in> seq_range (a + 1) b. om_find before k (nk_recovered ?n) = None}"
      using 1(1) [OF False] A \<open>distance (a + 1) b \<le> 10000\<close> by blast
    then show ?thesis
      using A d False by (subst (1 2 3 4) add_nacks.simps) (auto simp: seq_range_step)
  next
    case True
    then have "add_nacks now a b n = n" by (subst add_nacks.simps) simp
    with True 1(2,3) show ?thesis by simp
  qed
qed

lemma AheadOf_distance:
  fixes a b :: u16
  assumes "AheadOf 0 b a"
  shows "0 < distance a b" and "distance a b \<le> 2 ^ 15"
proof -
  show "0 < distance a b" using assms distance_eq_0 [of a b] by (auto simp: AheadOf_def)
  have "uint (b - a) \<le> 2 ^ 15" using assms by (auto simp: AheadOf_def AheadOrAt0_iff)
  then show "distance a b \<le> 2 ^ 15" by (simp add: distance_def uint_nat del: of_nat_unat)
qed

text \<open>Dropping old entries when the newest number moves from \<open>old\<close> to \<open>new\<close>.\<close>

lemma from_lower_window:
  assumes "window_ok old m" and "distance old new < 20000"
  shows "from_lower before (new - kMaxPacketAge) m = filter (\<lambda>e. distance (fst e) new \<le> 10000) m"
    and "window_ok new (filter (\<lambda>e. distance (fst e) new \<le> 10000) m)"
proof -
  let ?b = "old - kMaxPacketAge" and ?key = "new - kMaxPacketAge"
  have d: "uint (?key - ?b) = int (distance old new)" by (simp add: distance_def uint_nat del: of_nat_unat)
  then have key: "?key \<in> half_circle ?b" using assms(2) by (simp add: half_circle_def)
  have add: "distance k new = distance k old + distance old new" if "k \<in> set (keys_of m)" for k
    using assms that by (intro distance_add) (auto simp: window_ok_def)
  have "before k ?key \<longleftrightarrow> \<not> distance k new \<le> 10000" if k: "k \<in> set (keys_of m)" for k
  proof -
    have k1: "distance k old \<le> 10000" using assms(1) k by (auto simp: window_ok_def)
    have "before k ?key \<longleftrightarrow> uint (k - ?b) < uint (?key - ?b)"
      using circle.less_position [OF window_half_circle [OF k1] key] .
    also have "\<dots> \<longleftrightarrow> 10000 < distance k old + distance old new"
      unfolding uint_back [OF k1] d by auto
    finally show ?thesis using add [OF k] by auto
  qed
  then show "from_lower before ?key m = filter (\<lambda>e. distance (fst e) new \<le> 10000) m"
    unfolding circle.from_lower_filter [OF window_ordered [OF assms(1)] key]
    by (intro filter_cong) (auto simp: keys_of_def)
  have "window_ok old (filter (\<lambda>e. distance (fst e) new \<le> 10000) m)" using window_ok_filter [OF assms(1)] .
  then show "window_ok new (filter (\<lambda>e. distance (fst e) new \<le> 10000) m)"
    using add by (fastforce simp: window_ok_def keys_of_def)
qed

lemma AddPacketsToNack_window:
  fixes now :: timestamp and n :: NackRequester and new :: u16
  assumes "nack_ok n" and "AheadOf 0 new (nk_newest_seq_num n)"
  defines "old \<equiv> nk_newest_seq_num n" and "kept \<equiv> filter (\<lambda>e. distance (fst e) new \<le> 10000) (nk_list n)"
    and "n' \<equiv> AddPacketsToNack now n (nk_newest_seq_num n + 1) new"
  shows "nack_ok (n'\<lparr>nk_newest_seq_num := new, nk_initialized := True\<rparr>) \<and> nk_initialized n' = nk_initialized n \<and>
    nk_recovered n' = nk_recovered n \<and>
    (if length kept + (distance old new - 1) > kMaxNackPackets
     then nk_list n' = [] \<and> nk_keyframe_request_pending n'
     else nk_keyframe_request_pending n' = nk_keyframe_request_pending n \<and>
       set (keys_of (nk_list n')) = set (keys_of kept) \<union>
         {k \<in> seq_range (old + 1) new. om_find before k (nk_recovered n) = None})"
proof -
  let ?n = "n\<lparr>nk_list := from_lower before (new - kMaxPacketAge) (nk_list n)\<rparr>"
  have w: "window_ok old (nk_list n)" "\<forall>e \<in> set (nk_list n). entry_ok e" "hist_ok (nk_histogram n)"
    using assms(1) by (simp_all add: nack_ok_def old_def)
  have d: "distance old new = Suc (distance (old + 1) new)"
    using assms(2) distance_Suc [of old new] by (auto simp: old_def AheadOf_def)
  have f: "unat (ForwardDiff 0 (old + 1) new) = distance old new - 1"
    using d by (simp add: ForwardDiff_def distance_def)
  show ?thesis
  proof (cases "distance old new < 20000")
    case True
    note F = from_lower_window [OF w(1) True, folded kept_def]
    have N: "n' = (if length kept + (distance old new - 1) > kMaxNackPackets
        then ?n\<lparr>nk_list := [], nk_keyframe_request_pending := True\<rparr> else add_nacks now (old + 1) new ?n)"
      unfolding n'_def AddPacketsToNack_def Let_def old_def [symmetric] f using F(1) by simp
    show ?thesis
    proof (cases "length kept + (distance old new - 1) > kMaxNackPackets")
      case True
      with N w(3) show ?thesis by (simp add: nack_ok_def window_ok_def keys_of_def)
    next
      case False
      let ?m = "add_nacks now (old + 1) new ?n"
      have l: "nk_list ?n = kept" "nk_recovered ?n = nk_recovered n" using F(1) by simp_all
      have e: "\<forall>e \<in> set kept. entry_ok e" using w(2) by (simp add: kept_def)
      have "distance (old + 1) new \<le> 10000" using False d by (simp add: kMaxNackPackets_def)
      then have A: "window_ok new (nk_list ?m)" "\<forall>e \<in> set (nk_list ?m). entry_ok e"
        "length (nk_list ?m) \<le> length kept + distance (old + 1) new"
        "set (keys_of (nk_list ?m)) = set (keys_of kept) \<union>
          {k \<in> seq_range (old + 1) new. om_find before k (nk_recovered n) = None}"
        using add_nacks_window [of new ?n "old + 1" now, unfolded l] F(2) e by blast+
      have "length (nk_list ?m) \<le> kMaxNackPackets" using A(3) False d by simp
      moreover have "n' = ?m" using N False by simp
      ultimately show ?thesis
        using False A(1,2,4) w(3) add_nacks_fields [of now "old + 1" new ?n] by (simp add: nack_ok_def)
    qed
  next
    case False
    then have "n' = ?n\<lparr>nk_list := [], nk_keyframe_request_pending := True\<rparr>"
      unfolding n'_def AddPacketsToNack_def Let_def old_def [symmetric] f by (simp add: kMaxNackPackets_def)
    moreover have "length kept + (distance old new - 1) > kMaxNackPackets" using False by (simp add: kMaxNackPackets_def)
    ultimately show ?thesis using w(3) by (simp add: nack_ok_def window_ok_def keys_of_def)
  qed
qed

lemma OnReceivedPacket_ok:
  assumes "nack_ok n"
  shows "nack_ok (snd (OnReceivedPacket now n s rec))"
proof -
  let ?new = "nk_newest_seq_num n"
  consider (init) "\<not> nk_initialized n" | (same) "nk_initialized n" "s = ?new"
    | (old) "nk_initialized n" "s \<noteq> ?new" "AheadOf 0 ?new s"
    | (rec) "nk_initialized n" "s \<noteq> ?new" "\<not> AheadOf 0 ?new s" rec
    | (new) "nk_initialized n" "s \<noteq> ?new" "\<not> AheadOf 0 ?new s" "\<not> rec" by blast
  then show ?thesis
  proof cases
    case init
    with assms show ?thesis by (simp add: OnReceivedPacket_def nack_ok_def window_ok_def keys_of_def)
  next
    case old
    have h: "hist_ok (Histogram_Add h v)" if "hist_ok h" for h v
      using that Histogram_Add_append(1) [OF that] Histogram_Add_replace(1) [OF that]
      by (metis hist_ok_def le_neq_implies_less)
    have stat: "nack_ok m \<Longrightarrow> nack_ok (UpdateReorderingStatistics m s)" for m
      by (simp add: UpdateReorderingStatistics_def nack_ok_def h)
    have er: "om_erase before s (nk_list n) = filter (\<lambda>e. fst e \<noteq> s) (nk_list n)" if "om_find before s (nk_list n) = Some i" for i
      using om_erase_window [of ?new "nk_list n" s] om_find_before [OF that] assms
      by (force simp: nack_ok_def keys_of_def)
    show ?thesis
    proof (cases "om_find before s (nk_list n)")
      case None
      with old assms stat show ?thesis by (simp add: OnReceivedPacket_def)
    next
      case (Some i)
      have "nack_ok (m\<lparr>nk_list := filter (\<lambda>e. fst e \<noteq> s) (nk_list n)\<rparr>)" if "nack_ok m" "nk_list m = nk_list n" for m
        using nack_ok_filter [OF that(1), of "\<lambda>e. fst e \<noteq> s"] that(2) by simp
      with Some old er [OF Some] assms stat UpdateRtt_ok [OF assms] show ?thesis
        by (simp add: OnReceivedPacket_def Let_def)
    qed
  next
    case new
    then have a: "AheadOf 0 s ?new" using AheadOf0_antisym [of s ?new] by simp
    define n' where "n' = AddPacketsToNack now n (?new + 1) s"
    have "nack_ok (n'\<lparr>nk_newest_seq_num := s, nk_initialized := True\<rparr>)" "nk_initialized n'"
      using AddPacketsToNack_window [OF assms a, of now] new(1) by (simp_all add: n'_def)
    then have "nack_ok (n'\<lparr>nk_newest_seq_num := s\<rparr>)" by (simp add: nack_ok_def)
    then show ?thesis
      using new GetNackBatch_ok by (simp add: OnReceivedPacket_def n'_def)
  qed (use assms in \<open>simp_all add: OnReceivedPacket_def nack_ok_def\<close>)
qed

section \<open>Runs\<close>

text \<open>The calls the receiver makes, with the batch each returns, and the states they reach.\<close>

inductive nack_step :: "NackRequester \<Rightarrow> u16 list \<Rightarrow> NackRequester \<Rightarrow> bool" where
  step_received: "OnReceivedPacket now n s rec = (b, n') \<Longrightarrow> nack_step n b n'"
| step_process: "ProcessNacks now n = (b, n') \<Longrightarrow> nack_step n b n'"
| step_sent: "nack_step n [] (OnNackBatchSent now n batch ok)"
| step_keyframe: "nack_step n [] (snd (ConsumeKeyFrameRequest n))"
| step_clear: "nack_step n [] (ClearUpTo n s)"
| step_rtt: "nack_step n [] (UpdateRtt n r)"

inductive nack_reach :: "NackRequester \<Rightarrow> bool" where
  reach_new: "nack_reach new_NackRequester"
| reach_step: "nack_reach n \<Longrightarrow> nack_step n b n' \<Longrightarrow> nack_reach n'"

inductive_cases nack_stepE: "nack_step n b n'"

lemma nack_step_ok: "nack_step n b n' \<Longrightarrow> nack_ok n \<Longrightarrow> nack_ok n'"
proof (induction rule: nack_step.induct)
  case (step_received now n s rec b n')
  then show ?case using OnReceivedPacket_ok [of n now s rec] by simp
next
  case (step_process now n b n')
  then show ?case using GetNackBatch_ok [of n now kTimeOnly] by (simp add: ProcessNacks_def)
next
  case (step_keyframe n)
  then show ?case by (simp add: ConsumeKeyFrameRequest_def nack_ok_def)
qed (simp_all add: OnNackBatchSent_ok ClearUpTo_ok UpdateRtt_ok)

lemma nack_reach_ok: "nack_reach n \<Longrightarrow> nack_ok n"
  by (induction rule: nack_reach.induct) (auto intro: new_NackRequester_ok nack_step_ok)

lemma GetNackBatch_subset:
  "nack_ok n \<Longrightarrow> set (fst (GetNackBatch now n opt)) \<subseteq> set (keys_of (nk_list n))"
  by (force simp: GetNackBatch_def nack_ok_def entry_ok_def keys_of_def)

lemma nack_due_time:
  "nack_due now n kTimeOnly i \<Longrightarrow> \<not> ni_send_pending i \<and>
    Timestamp_sub now (ni_created_at_time i) \<ge> nk_send_nack_delay n \<and>
    Timestamp_sub now (ni_last_send_attempt_time i) \<ge> Millis 20 \<and>
    Timestamp_sub now (ni_sent_at_time i) \<ge>
      unit_scale (nk_rtt n) (if ni_retries i > 0 then NackRetryRttMultiplier (nk_has_rtt_sample n) (ni_retries i) else 1)"
  by (simp add: nack_due_def Let_def kFailedSendRetryDelay_def unit_scale_def split: if_splits)

section \<open>Properties\<close>

text \<open>
  C39: invariant of the NACK requester. In every state that any sequence of received packets, timer
  ticks, send reports, clears and round-trip updates can reach, at most 1000 numbers are requested;
  they are distinct, ordered from old to new, all strictly older than the newest received number
  and at most 10000 behind it, and each has been sent fewer than 100 times.
\<close>

theorem nack_invariant:
  assumes "nack_reach n"
  shows "length (nk_list n) \<le> 1000 \<and> distinct (keys_of (nk_list n)) \<and> sorted_wrt before (keys_of (nk_list n)) \<and>
    (\<forall>e \<in> set (nk_list n). ni_seq_num (snd e) = fst e \<and> 0 \<le> ni_retries (snd e) \<and> ni_retries (snd e) < 100 \<and>
      AheadOf 0 (nk_newest_seq_num n) (fst e) \<and> unat (nk_newest_seq_num n - fst e) \<le> 10000)"
proof -
  have ok: "nack_ok n" using nack_reach_ok [OF assms] .
  have "AheadOf 0 (nk_newest_seq_num n) k" if "0 < distance k (nk_newest_seq_num n)" "distance k (nk_newest_seq_num n) \<le> 10000" for k
  proof -
    have "uint (nk_newest_seq_num n - k) \<le> 10000"
      using that(2) by (simp add: distance_def uint_nat del: of_nat_unat)
    then show ?thesis using that(1) by (auto simp: AheadOf_def AheadOrAt0_iff)
  qed
  then show ?thesis
    using ok window_distinct by (auto simp: nack_ok_def window_ok_def entry_ok_def keys_of_def kMaxNackPackets_def
        kMaxNackRetries_def distance_def)
qed

theorem nack_invariant_witness:
  "\<exists>n. nack_reach n \<and> keys_of (nk_list n) = [8, 9] \<and> length (nk_list n) \<le> 1000 \<and> distinct (keys_of (nk_list n))"
proof -
  define n1 where "n1 = snd (OnReceivedPacket 0 new_NackRequester 7 False)"
  define n2 where "n2 = snd (OnReceivedPacket 0 n1 10 False)"
  have "nack_step new_NackRequester (fst (OnReceivedPacket 0 new_NackRequester 7 False)) n1"
    "nack_step n1 (fst (OnReceivedPacket 0 n1 10 False)) n2"
    unfolding n1_def n2_def by (rule step_received, rule prod.collapse [symmetric])+
  then have r: "nack_reach n2" using reach_new reach_step by blast
  have "keys_of (nk_list n2) = [8, 9]" unfolding n2_def n1_def by code_simp
  with r nack_invariant [OF r] show ?thesis by blast
qed

text \<open>
  C38: exactly the missing packets are requested. When a packet arrives in order after a gap, the
  requested numbers are those requested before that are at most 10000 behind it, together with
  every number of the gap that was not recovered already; unless that would exceed the limit of
  1000, when the list is emptied and a key frame is requested instead. The numbers returned for
  immediate sending are requested ones.
\<close>

theorem nack_gap:
  assumes "nack_reach n" and "nk_initialized n" and "AheadOf 0 s (nk_newest_seq_num n)"
    and "OnReceivedPacket now n s False = (batch, n')"
  defines "kept \<equiv> filter (\<lambda>k. unat (s - k) \<le> 10000) (keys_of (nk_list n))"
    and "gap \<equiv> unat (s - nk_newest_seq_num n) - 1"
  shows "nk_newest_seq_num n' = s \<and> set batch \<subseteq> set (keys_of (nk_list n')) \<and>
    (if length kept + gap > 1000 then nk_list n' = [] \<and> nk_keyframe_request_pending n'
     else set (keys_of (nk_list n')) = set kept \<union>
       {k. k \<noteq> nk_newest_seq_num n \<and> unat (k - nk_newest_seq_num n) < unat (s - nk_newest_seq_num n) \<and>
         om_find before k (nk_recovered n) = None})"
proof -
  let ?old = "nk_newest_seq_num n"
  define m where "m = (AddPacketsToNack now n (?old + 1) s)\<lparr>nk_newest_seq_num := s\<rparr>"
  have ok: "nack_ok n" using nack_reach_ok [OF assms(1)] .
  note A = AddPacketsToNack_window [OF ok assms(3), of now]
  have ne: "s \<noteq> ?old" "\<not> AheadOf 0 ?old s" using assms(3) AheadOf0_antisym [of s ?old] by (auto simp: AheadOf_def)
  have G: "GetNackBatch now m kSeqNumOnly = (batch, n')"
    using assms(2,4) ne by (simp add: OnReceivedPacket_def Let_def m_def)
  have mk: "nack_ok m" using A assms(2) by (simp add: m_def nack_ok_def)
  have keys: "keys_of (nk_list n') = keys_of (nk_list m)" "nk_newest_seq_num n' = s"
    "nk_keyframe_request_pending n' = nk_keyframe_request_pending m"
    using G by (auto simp: GetNackBatch_def keys_of_def m_def)
  have k: "kept = keys_of (filter (\<lambda>e. distance (fst e) s \<le> 10000) (nk_list n))"
    by (simp add: kept_def keys_of_def filter_map distance_def o_def)
  have r: "seq_range (?old + 1) s = {k. k \<noteq> ?old \<and> distance ?old k < distance ?old s}"
    using ne(1) by (intro seq_range_after) auto
  show ?thesis
    using A keys GetNackBatch_subset [OF mk, of now kSeqNumOnly] G
    unfolding k r gap_def m_def
    by (auto simp: keys_of_def distance_def kMaxNackPackets_def split: if_splits)
qed

theorem nack_gap_witness:
  "\<exists>n n' batch. nack_reach n \<and> OnReceivedPacket 20000 n 10 False = (batch, n') \<and>
    nk_newest_seq_num n' = 10 \<and> set (keys_of (nk_list n')) = {8, 9}"
proof -
  define n where "n = snd (OnReceivedPacket 0 new_NackRequester 7 False)"
  have "nack_step new_NackRequester (fst (OnReceivedPacket 0 new_NackRequester 7 False)) n"
    unfolding n_def by (rule step_received, rule prod.collapse [symmetric])
  then have r: "nack_reach n" using reach_new reach_step by blast
  have i: "nk_initialized n" "nk_newest_seq_num n = 7" "nk_list n = []" "nk_recovered n = []"
    by (simp_all add: n_def OnReceivedPacket_def new_NackRequester_def)
  have a: "AheadOf 0 10 (nk_newest_seq_num n)" unfolding i(2) by code_simp
  obtain batch n' where o: "OnReceivedPacket 20000 n 10 False = (batch, n')" by fastforce
  have g: "{k :: u16. k \<noteq> 7 \<and> unat (k - 7) < unat (10 - 7 :: u16) \<and> om_find before k ([] :: (u16, unit) omap) = None} = {8, 9}"
  proof -
    have "k = 8 \<or> k = 9" if "k \<noteq> 7" "unat (k - 7) < 3" for k :: u16
    proof -
      have inv: "of_nat (unat (k - 7)) = k - 7" by simp
      have "unat (k - 7) = 0 \<or> unat (k - 7) = 1 \<or> unat (k - 7) = 2" using that(2) by linarith
      then have "k - 7 = of_nat 0 \<or> k - 7 = of_nat 1 \<or> k - 7 = of_nat 2" using inv by metis
      then show ?thesis using that(1) by (auto simp: diff_eq_eq)
    qed
    then show ?thesis by (auto simp: om_find_def from_lower_def)
  qed
  from nack_gap [OF r i(1) a o] g show ?thesis
    using r o by (intro exI [of _ n] exI [of _ n'] exI [of _ batch]) (simp add: i keys_of_def)
qed

text \<open>
  pacing of requests. The numbers that a timer tick returns are distinct requested ones whose
  entry was not already waiting for a send report, was created at least 10 ms ago, was last
  attempted at least 20 ms ago and, if it was sent before, at least one retry interval of one, two
  or more round-trip times ago. Until a send report arrives no later call returns any of them
  again.
\<close>

theorem nack_pacing:
  assumes "nack_reach n" and "ProcessNacks now n = (batch, n')"
  shows "distinct batch \<and> set batch \<subseteq> set (keys_of (nk_list n)) \<and>
    (\<forall>s \<in> set batch. \<exists>i. (s, i) \<in> set (nk_list n) \<and> \<not> ni_send_pending i \<and>
      Timestamp_sub now (ni_created_at_time i) \<ge> nk_send_nack_delay n \<and>
      Timestamp_sub now (ni_last_send_attempt_time i) \<ge> Millis 20 \<and>
      Timestamp_sub now (ni_sent_at_time i) \<ge>
        unit_scale (nk_rtt n) (if ni_retries i > 0 then NackRetryRttMultiplier (nk_has_rtt_sample n) (ni_retries i) else 1)) \<and>
    (\<forall>later opt. set (fst (GetNackBatch later n' opt)) \<inter> set batch = {})"
proof -
  have ok: "nack_ok n" using nack_reach_ok [OF assms(1)] .
  let ?due = "\<lambda>e. nack_due now n kTimeOnly (snd e)"
  have entry: "\<forall>e \<in> set (nk_list n). ni_seq_num (snd e) = fst e" using ok by (simp add: nack_ok_def entry_ok_def)
  have dk: "distinct (keys_of (nk_list n))" using ok window_distinct by (auto simp: nack_ok_def)
  have B: "batch = map fst (filter ?due (nk_list n))"
    and N: "nk_list n' = map (\<lambda>e. if ?due e then (fst e, (snd e)\<lparr>ni_send_pending := True\<rparr>) else e) (nk_list n)"
    using assms(2) entry by (auto simp: ProcessNacks_def GetNackBatch_def)
  have "distinct batch" using dk unfolding B keys_of_def by (rule distinct_map_filter)
  moreover have "set (fst (GetNackBatch later n' opt)) \<inter> set batch = {}" for later opt
  proof -
    have "fst e \<notin> set batch" if e1: "e \<in> set (nk_list n')" and e2: "nack_due later n' opt (snd e)" for e
    proof
      obtain e0 where e0: "e0 \<in> set (nk_list n)" "e = (if ?due e0 then (fst e0, (snd e0)\<lparr>ni_send_pending := True\<rparr>) else e0)"
        using e1 unfolding N set_map by (elim imageE) blast
      then have nd: "\<not> ?due e0" using e2 by (auto simp: nack_due_def Let_def)
      assume "fst e \<in> set batch"
      then obtain e1 where "e1 \<in> set (nk_list n)" "?due e1" "fst e1 = fst e0"
        using B e0 nd by auto
      then have "e1 = e0" using e0(1) dk by (metis eq_key_imp_eq_value keys_of_def prod.collapse)
      with nd \<open>?due e1\<close> show False by simp
    qed
    moreover have "\<forall>e \<in> set (nk_list n'). ni_seq_num (snd e) = fst e" using entry N by auto
    ultimately show ?thesis by (auto simp: GetNackBatch_def)
  qed
  moreover have "\<forall>s \<in> set batch. \<exists>i. (s, i) \<in> set (nk_list n) \<and> ?due (s, i)" using B by force
  then have "\<forall>s \<in> set batch. \<exists>i. (s, i) \<in> set (nk_list n) \<and> \<not> ni_send_pending i \<and>
      Timestamp_sub now (ni_created_at_time i) \<ge> nk_send_nack_delay n \<and>
      Timestamp_sub now (ni_last_send_attempt_time i) \<ge> Millis 20 \<and>
      Timestamp_sub now (ni_sent_at_time i) \<ge>
        unit_scale (nk_rtt n) (if ni_retries i > 0 then NackRetryRttMultiplier (nk_has_rtt_sample n) (ni_retries i) else 1)"
    using nack_due_time by fastforce
  moreover have "set batch \<subseteq> set (keys_of (nk_list n))" using B by (auto simp: keys_of_def)
  ultimately show ?thesis by blast
qed

theorem nack_pacing_witness:
  "\<exists>n n'. nack_reach n \<and> ProcessNacks 20000 n = ([8, 9], n') \<and> (\<forall>later opt. set (fst (GetNackBatch later n' opt)) \<inter> {8, 9} = {})"
proof -
  define n1 where "n1 = snd (OnReceivedPacket 0 new_NackRequester 7 False)"
  define n2 where "n2 = snd (OnReceivedPacket 0 n1 10 False)"
  have "nack_step new_NackRequester (fst (OnReceivedPacket 0 new_NackRequester 7 False)) n1"
    "nack_step n1 (fst (OnReceivedPacket 0 n1 10 False)) n2"
    unfolding n1_def n2_def by (rule step_received, rule prod.collapse [symmetric])+
  then have r: "nack_reach n2" using reach_new reach_step by blast
  have "fst (ProcessNacks 20000 n2) = [8, 9]" unfolding n2_def n1_def by code_simp
  then obtain n' where p: "ProcessNacks 20000 n2 = ([8, 9], n')" by (metis prod.collapse)
  have "\<forall>later opt. set (fst (GetNackBatch later n' opt)) \<inter> {8, 9} = {}"
    using nack_pacing [OF r p] by simp
  with r p show ?thesis by blast
qed

end
