(* ===== verification/RtcpSender.thy ===== *)
theory RtcpSender
  imports RtcpFeedback
begin

text \<open>
  \<open>src/rtcp/rtcp_sender/rtcp_sender.h\<close>: the class that collects RTCP packets into compound
  datagrams. The send callback is a parameter of the model: \<^term>\<open>None\<close> for a null
  \<open>std::function\<close>, otherwise the value it returns for a datagram (negative for an error). The
  field \<open>snd_sent\<close> records the datagrams it was called with.
\<close>

section \<open>The class\<close>

definition IP_PACKET_SIZE :: nat where "IP_PACKET_SIZE = 1500"

record RtcpSender =
  snd_max_packet_size :: nat
  snd_index :: nat
  snd_pending_send_successful :: bool
  snd_buffer :: "byte list"
  snd_sent :: "byte list list"

text \<open>The constructor logs an error when \<open>max_packet_size\<close> is too large, and keeps the value.\<close>

definition new_RtcpSender :: "nat \<Rightarrow> byte list \<Rightarrow> RtcpSender" where
  "new_RtcpSender max_packet_size uninitialised =
     \<lparr>snd_max_packet_size = max_packet_size, snd_index = 0, snd_pending_send_successful = True,
      snd_buffer = uninitialised, snd_sent = []\<rparr>"

definition SendBuffer :: "(byte list \<Rightarrow> int) option \<Rightarrow> RtcpSender \<Rightarrow> byte list \<Rightarrow> RtcpSender" where
  "SendBuffer callback s d =
     (case callback of
        None \<Rightarrow> s\<lparr>snd_pending_send_successful := False\<rparr>
      | Some f \<Rightarrow>
          (let s = s\<lparr>snd_sent := snd_sent s @ [d]\<rparr> in
           if f d < 0 then s\<lparr>snd_pending_send_successful := False\<rparr> else s))"

text \<open>
  \<open>AppendPacket\<close>: \<open>create\<close> is the virtual method \<open>Create\<close> of the packet. It never reads the
  sender's status, so the calls of \<open>SendBuffer\<close> it makes are run on the datagrams it handed out.
\<close>

definition AppendPacket ::
  "(byte list \<Rightarrow> int) option \<Rightarrow> (nat \<Rightarrow> wstate \<Rightarrow> (bool \<times> wstate) option) \<Rightarrow> RtcpSender \<Rightarrow> RtcpSender option" where
  "AppendPacket callback create s = do {
     (created, w) \<leftarrow> create (snd_max_packet_size s)
        \<lparr>w_packet = snd_buffer s, w_index = snd_index s, w_ready = []\<rparr>;
     let s = foldl (SendBuffer callback) s (w_ready w) in
     Some (s\<lparr>snd_buffer := w_packet w, snd_index := w_index w,
       snd_pending_send_successful := (snd_pending_send_successful s \<and> created)\<rparr>) }"

definition Send :: "(byte list \<Rightarrow> int) option \<Rightarrow> RtcpSender \<Rightarrow> (bool \<times> RtcpSender) option" where
  "Send callback s = do {
     s \<leftarrow> (if snd_index s > 0 then do {
              d \<leftarrow> seg (snd_buffer s) 0 (snd_index s);
              Some ((SendBuffer callback s d)\<lparr>snd_index := 0\<rparr>) }
           else Some s);
     Some (snd_pending_send_successful s, s\<lparr>snd_pending_send_successful := True\<rparr>) }"

text \<open>The packets the transport sends through this class, with the virtual dispatch.\<close>

datatype rtcp_message = MNack Nack | MFir Fir

fun message_Create :: "rtcp_message \<Rightarrow> nat \<Rightarrow> wstate \<Rightarrow> (bool \<times> wstate) option" where
  "message_Create (MNack n) = Nack_Create n"
| "message_Create (MFir f) = Fir_Create f"

text \<open>A client: append every packet, then send.\<close>

fun send_all :: "(byte list \<Rightarrow> int) option \<Rightarrow> rtcp_message list \<Rightarrow> RtcpSender \<Rightarrow> (bool \<times> RtcpSender) option" where
  "send_all callback [] s = Send callback s"
| "send_all callback (p # ps) s = do {
     s \<leftarrow> AppendPacket callback (message_Create p) s;
     send_all callback ps s }"

section \<open>The contract\<close>

fun message_fits :: "rtcp_message \<Rightarrow> nat \<Rightarrow> bool" where
  "message_fits (MNack n) m = nack_fits n m"
| "message_fits (MFir f) m = fir_fits f m"

fun message_represents :: "rtcp_message \<Rightarrow> byte list list \<Rightarrow> bool" where
  "message_represents (MNack n) bs = nack_represents n bs"
| "message_represents (MFir f) bs = (bs = [fir_block f])"

interpretation message: rtcp_block message_Create message_fits message_represents
proof unfold_locales
  show "ready max_length s \<Longrightarrow>
    \<exists>s' bs. message_Create p max_length s = Some (message_fits p max_length, s') \<and>
      ready max_length s' \<and> emits max_length s bs s' \<and>
      (message_fits p max_length \<longrightarrow> message_represents p bs) \<and>
      (\<not> message_fits p max_length \<longrightarrow> bs = [])" for max_length s p
    using nack.create_emits fir.create_emits by (cases p) simp_all
qed

definition callback_ok :: "(byte list \<Rightarrow> int) option \<Rightarrow> byte list \<Rightarrow> bool" where
  "callback_ok callback d = (case callback of None \<Rightarrow> False | Some f \<Rightarrow> 0 \<le> f d)"

lemma foldl_SendBuffer:
  "foldl (SendBuffer (Some f)) s ds =
     s\<lparr>snd_sent := snd_sent s @ ds,
       snd_pending_send_successful := (snd_pending_send_successful s \<and> (\<forall>d \<in> set ds. callback_ok (Some f) d))\<rparr>"
  by (induction ds arbitrary: s) (auto simp: SendBuffer_def Let_def callback_ok_def)

definition sender_inv :: "RtcpSender \<Rightarrow> bool" where
  "sender_inv s \<longleftrightarrow> snd_index s \<le> snd_max_packet_size s \<and> snd_max_packet_size s \<le> IP_PACKET_SIZE \<and>
     length (snd_buffer s) = IP_PACKET_SIZE"

abbreviation sender_pending :: "RtcpSender \<Rightarrow> byte list" where
  "sender_pending s \<equiv> take (snd_index s) (snd_buffer s)"

lemma AppendPacket_message:
  assumes "sender_inv s" and "sender_pending s = concat pend"
  shows "\<exists>s' bs gs pend'. AppendPacket (Some f) (message_Create p) s = Some s' \<and> sender_inv s' \<and>
    snd_max_packet_size s' = snd_max_packet_size s \<and>
    pend @ bs = concat gs @ pend' \<and> sender_pending s' = concat pend' \<and>
    snd_sent s' = snd_sent s @ map concat gs \<and>
    (\<forall>g \<in> set gs. concat g \<noteq> [] \<and> length (concat g) \<le> snd_max_packet_size s) \<and>
    (if message_fits p (snd_max_packet_size s) then message_represents p bs else bs = []) \<and>
    snd_pending_send_successful s' = (snd_pending_send_successful s \<and>
      (\<forall>g \<in> set gs. callback_ok (Some f) (concat g)) \<and> message_fits p (snd_max_packet_size s))"
proof -
  let ?w = "\<lparr>w_packet = snd_buffer s, w_index = snd_index s, w_ready = []\<rparr>"
  let ?m = "snd_max_packet_size s"
  have "ready ?m ?w" using assms(1) by (simp add: ready_def sender_inv_def IP_PACKET_SIZE_def)
  then obtain w bs where w: "message_Create p ?m ?w = Some (message_fits p ?m, w)" "ready ?m w"
    "emits ?m ?w bs w" "if message_fits p ?m then message_represents p bs else bs = []"
    using message.create_emits by (metis (full_types))
  from w(3) assms(2) obtain gs pend' where g: "pend @ bs = concat gs @ pend'" "pending w = concat pend'"
    "w_ready w = map concat gs" "\<forall>g \<in> set gs. concat g \<noteq> [] \<and> length (concat g) \<le> ?m"
    "length (w_packet w) = length (snd_buffer s)"
    unfolding emits_def by (auto simp: pending_def)
  show ?thesis
    using w(1,2,4) g assms(1)
    by (intro exI [of _ "s\<lparr>snd_sent := snd_sent s @ map concat gs, snd_buffer := w_packet w,
        snd_index := w_index w, snd_pending_send_successful := (snd_pending_send_successful s \<and>
          (\<forall>g \<in> set gs. callback_ok (Some f) (concat g)) \<and> message_fits p ?m)\<rparr>"]
        exI [of _ bs] exI [of _ gs] exI [of _ pend'])
      (auto simp: AppendPacket_def foldl_SendBuffer Let_def sender_inv_def ready_def pending_def)
qed

text \<open>What a run puts on the wire: groups of whole blocks, each group one datagram.\<close>

definition sends :: "nat \<Rightarrow> rtcp_message list \<Rightarrow> byte list list \<Rightarrow> byte list list list \<Rightarrow> bool" where
  "sends m ps pend gs \<longleftrightarrow> (\<exists>bss. pend @ concat bss = concat gs \<and>
     list_all2 (\<lambda>p bs. if message_fits p m then message_represents p bs else bs = []) ps bss) \<and>
     (\<forall>g \<in> set gs. concat g \<noteq> [] \<and> length (concat g) \<le> m)"

lemma sends_Cons:
  assumes "pend @ bs = concat gs @ pend'" and "sends m ps pend' gs'"
    and "\<forall>g \<in> set gs. concat g \<noteq> [] \<and> length (concat g) \<le> m"
    and "if message_fits p m then message_represents p bs else bs = []"
  shows "sends m (p # ps) pend (gs @ gs')"
proof -
  obtain bss where b: "pend' @ concat bss = concat gs'"
    "list_all2 (\<lambda>p bs. if message_fits p m then message_represents p bs else bs = []) ps bss"
    using assms(2) by (auto simp: sends_def)
  have "pend @ concat (bs # bss) = concat (gs @ gs')"
    using assms(1) b(1) by (simp flip: b(1))
  with b(2) assms show ?thesis
    unfolding sends_def by (intro conjI exI [of _ "bs # bss"]) (auto simp: sends_def)
qed

lemma Send_flush:
  assumes "sender_inv s" and "sender_pending s = concat pend"
  shows "\<exists>s' gs. Send (Some f) s =
      Some (snd_pending_send_successful s \<and> (\<forall>g \<in> set gs. callback_ok (Some f) (concat g)), s') \<and>
    snd_sent s' = snd_sent s @ map concat gs \<and> snd_index s' = 0 \<and> snd_pending_send_successful s' \<and>
    (\<forall>g \<in> set gs. concat g \<noteq> [] \<and> length (concat g) \<le> snd_max_packet_size s) \<and>
    gs = (if concat pend = [] then [] else [pend])"
proof (cases "snd_index s = 0")
  case True
  with assms show ?thesis by (auto simp: Send_def)
next
  case False
  then have "seg (snd_buffer s) 0 (snd_index s) = Some (concat pend)" "concat pend \<noteq> []"
    "length (concat pend) \<le> snd_max_packet_size s"
    using assms by (auto simp: seg_def sender_inv_def simp flip: assms(2))
  with False show ?thesis
    by (auto simp: Send_def SendBuffer_def Let_def callback_ok_def simp del: concat_eq_Nil_conv)
qed

lemma send_all_correct:
  assumes "sender_inv s" and "sender_pending s = concat pend" and "\<forall>b \<in> set pend. b \<noteq> []"
  shows "\<exists>s' gs. send_all (Some f) ps s = Some (snd_pending_send_successful s \<and>
      (\<forall>p \<in> set ps. message_fits p (snd_max_packet_size s)) \<and>
      (\<forall>g \<in> set gs. callback_ok (Some f) (concat g)), s') \<and>
    snd_sent s' = snd_sent s @ map concat gs \<and> snd_index s' = 0 \<and>
    sends (snd_max_packet_size s) ps pend gs"
  using assms
proof (induction ps arbitrary: s pend)
  case Nil
  let ?gs = "if concat pend = [] then [] else [pend]"
  have "concat ?gs = pend"
    using Nil(3) by (cases pend) auto
  then have "sends (snd_max_packet_size s) [] pend ?gs"
    if "\<forall>g \<in> set ?gs. concat g \<noteq> [] \<and> length (concat g) \<le> snd_max_packet_size s"
    using that unfolding sends_def by (intro conjI exI [of _ "[]"]) simp_all
  with Send_flush [OF Nil(1,2), of f] show ?case by auto
next
  case (Cons p ps)
  let ?m = "snd_max_packet_size s"
  obtain s1 bs gs pend' where 1: "AppendPacket (Some f) (message_Create p) s = Some s1" "sender_inv s1"
    "snd_max_packet_size s1 = ?m" "pend @ bs = concat gs @ pend'" "sender_pending s1 = concat pend'"
    "snd_sent s1 = snd_sent s @ map concat gs"
    "\<forall>g \<in> set gs. concat g \<noteq> [] \<and> length (concat g) \<le> ?m"
    "if message_fits p ?m then message_represents p bs else bs = []"
    "snd_pending_send_successful s1 = (snd_pending_send_successful s \<and>
      (\<forall>g \<in> set gs. callback_ok (Some f) (concat g)) \<and> message_fits p ?m)"
    using AppendPacket_message [OF Cons.prems(1,2)] by blast
  have "\<forall>b \<in> set bs. b \<noteq> []"
  proof
    fix b assume "b \<in> set bs"
    with 1(8) show "b \<noteq> []"
      by (cases p) (auto simp: nack_represents_def block_not_Nil [symmetric] split: if_splits)
  qed
  then have "\<forall>b \<in> set pend'. b \<noteq> []"
    using 1(4) Cons.prems(3) by (metis UnCI Un_iff set_append)
  from Cons.IH [OF 1(2,5) this] obtain s' gs' where 2: "send_all (Some f) ps s1 =
      Some (snd_pending_send_successful s1 \<and> (\<forall>p \<in> set ps. message_fits p ?m) \<and>
      (\<forall>g \<in> set gs'. callback_ok (Some f) (concat g)), s')"
    "snd_sent s' = snd_sent s1 @ map concat gs'" "snd_index s' = 0" "sends ?m ps pend' gs'"
    unfolding 1(3) by blast
  with 1 sends_Cons [OF 1(4) 2(4) 1(7,8)] show ?case
    by (intro exI [of _ s'] exI [of _ "gs @ gs'"]) auto
qed

text \<open>
  C33: a sender whose packet size fits its 1500-byte buffer never leaves the buffer, whatever
  NACK and FIR packets are appended. Every datagram is non-empty and at most \<open>max_packet_size\<close>
  long; together they carry the blocks of the packets that fit, whole and in order; nothing is
  left pending after \<open>Send\<close>; and \<open>Send\<close> returns true exactly when every packet fitted and
  the callback accepted every datagram.
\<close>

theorem RtcpSender_send_all:
  assumes "m \<le> IP_PACKET_SIZE" and "length buf = IP_PACKET_SIZE"
  shows "\<exists>s gs bss. send_all (Some f) ps (new_RtcpSender m buf) =
      Some ((\<forall>p \<in> set ps. message_fits p m) \<and> (\<forall>d \<in> set (snd_sent s). 0 \<le> f d), s) \<and>
    snd_sent s = map concat gs \<and> snd_index s = 0 \<and> concat gs = concat bss \<and>
    list_all2 (\<lambda>p bs. if message_fits p m then message_represents p bs else bs = []) ps bss \<and>
    (\<forall>d \<in> set (snd_sent s). d \<noteq> [] \<and> length d \<le> m)"
proof -
  let ?s = "new_RtcpSender m buf"
  have "sender_inv ?s" "sender_pending ?s = concat []"
    using assms by (simp_all add: sender_inv_def new_RtcpSender_def)
  from send_all_correct [OF this, of f ps] obtain s gs where "send_all (Some f) ps ?s =
      Some ((\<forall>p \<in> set ps. message_fits p m) \<and> (\<forall>g \<in> set gs. callback_ok (Some f) (concat g)), s)"
    and g: "snd_sent s = map concat gs" "snd_index s = 0" "sends m ps [] gs"
    by (auto simp: new_RtcpSender_def)
  then have "send_all (Some f) ps ?s =
      Some ((\<forall>p \<in> set ps. message_fits p m) \<and> (\<forall>d \<in> set (snd_sent s). 0 \<le> f d), s)"
    by (simp add: callback_ok_def)
  moreover obtain bss where "concat gs = concat bss"
    "list_all2 (\<lambda>p bs. if message_fits p m then message_represents p bs else bs = []) ps bss"
  proof -
    obtain bss where "[] @ concat bss = concat gs"
      "list_all2 (\<lambda>p bs. if message_fits p m then message_represents p bs else bs = []) ps bss"
      using g(3) unfolding sends_def by blast
    then show ?thesis by (intro that [of bss]) simp_all
  qed
  moreover have "\<forall>d \<in> set (snd_sent s). d \<noteq> [] \<and> length d \<le> m"
    using g(1,3) by (simp add: sends_def del: concat_eq_Nil_conv)
  ultimately show ?thesis using g by blast
qed

theorem RtcpSender_send_all_witness:
  "\<exists>s. send_all (Some (\<lambda>_. 0)) [MNack (SetPacketIds new_Nack [7, 8]), MFir (AddRequestTo new_Fir 3 1)]
      (new_RtcpSender 1200 (replicate 1500 0)) = Some (True, s) \<and> snd_index s = 0"
  using RtcpSender_send_all [of 1200 "replicate 1500 0" "\<lambda>_. 0"
      "[MNack (SetPacketIds new_Nack [7, 8]), MFir (AddRequestTo new_Fir 3 1)]"]
  by (auto simp: IP_PACKET_SIZE_def nack_fits_def fir_fits_def Fir_BlockLength_def feedback_consts
      AddRequestTo_def new_Fir_def)

end
