(* ===== verification/VideoReceiver.thy ===== *)
theory VideoReceiver
  imports FrameAssembly ReceiverStats NackRequester RtcpSender Rtx
begin

text \<open>
  The video receiver \<open>RtpVideoReceiver\<close> (\<open>src/transport/channel/rtp_video_receiver.cpp\<close>) as a whole:
  ingestion of a packet (\<open>InsertRtpPacket\<close>), NACK and FIR feedback, and the worker \<open>Process\<close> that
  delivers frames in order, gives up on frames at a deadline and asks for key frames.

  One record holds the members, and an execution of the threads is a sequence of operations. \<open>Process\<close>
  releases its locks between the iterations of its loop, and reads the clock anew in each.
  \<open>InsertRtpPacket\<close> is one function here, but the code takes and releases a lock for the test of an obsolete
  frame, one for the NACKs and one for the assembly; the executions below also have the steps after the test and the assembly
  alone, in whatever state the other threads have left. Calls of components that have no
  model here (the congestion controller, the I/O statistics) and frames handed to the client's
  callback are recorded in \<open>vr_calls\<close> and \<open>vr_delivered\<close>; logging has no effect. The transport's
  send callback is a parameter. \<^term>\<open>None\<close> as a result is undefined behaviour of the code called.
\<close>

section \<open>State\<close>

record RecoveryCounters =
  rc_completed_frames :: u64
  rc_discarded_frames :: u64
  rc_soft_stalls :: u64
  rc_hard_timeouts :: u64
  rc_obsolete_packets :: u64
  rc_accepted_rtx_packets :: u64
  rc_late_rtx_packets :: u64
  rc_fir_sent :: u64
  rc_fir_suppressed :: u64
  rc_fir_failed :: u64
  rc_soft_fir_sent :: u64
  rc_soft_fir_avoided :: u64
  rc_fir_responses :: u64
  rc_fir_response_total_ms :: u64
  rc_fir_response_max_ms :: u64

definition zero_counters :: RecoveryCounters where
  "zero_counters = \<lparr>rc_completed_frames = 0, rc_discarded_frames = 0, rc_soft_stalls = 0, rc_hard_timeouts = 0,
     rc_obsolete_packets = 0, rc_accepted_rtx_packets = 0, rc_late_rtx_packets = 0, rc_fir_sent = 0,
     rc_fir_suppressed = 0, rc_fir_failed = 0, rc_soft_fir_sent = 0, rc_soft_fir_avoided = 0, rc_fir_responses = 0,
     rc_fir_response_total_ms = 0, rc_fir_response_max_ms = 0\<rparr>"

datatype receiver_call =
    CcOnReceivedPacket RtpPacket timestamp
  | UpdateVideoInboundBytes u32
  | IncrementVideoInboundRtpPacketCount
  | UpdateVideoPacketLossCount u16

record VideoReceiver =
  vr_fa :: FrameAssembly
  vr_last_complete_frame_ts :: "u32 option"
  vr_awaiting_keyframe :: bool
  vr_last_discarded_frame_ts :: "u32 option"
  vr_nack :: NackRequester
  vr_rtcp_sender :: RtcpSender
  vr_rtcp_stop :: bool
  vr_is_running :: bool
  vr_keyframe_request_pending :: bool
  vr_keyframe_request_started_ms :: int
  vr_next_keyframe_request_ms :: int
  vr_last_recovery_stats_log_ms :: int
  vr_sequence_number_fir :: byte
  vr_ssrc :: u32
  vr_remote_ssrc :: u32
  vr_rtx_ssrc :: u32
  vr_media_payload_type :: byte
  vr_abs_send_time_ext_id :: "byte option"
  vr_counters :: RecoveryCounters
  vr_stats :: ReceiverStats
  vr_last_recv_bytes :: u32
  vr_total_rtp_packets_recv :: u32
  vr_total_rtp_payload_recv :: u32
  vr_io_statistics :: bool
  vr_on_receive_complete_frame :: bool
  vr_calls :: "receiver_call list"
  vr_delivered :: "(u32 \<times> bool \<times> ReceivedFrame) list"

definition new_VideoReceiver :: "u32 \<Rightarrow> byte list \<Rightarrow> bool \<Rightarrow> timestamp \<Rightarrow> VideoReceiver" where
  "new_VideoReceiver ssrc uninitialised io_statistics now =
     \<lparr>vr_fa = new_FrameAssembly, vr_last_complete_frame_ts = None, vr_awaiting_keyframe = False,
      vr_last_discarded_frame_ts = None, vr_nack = new_NackRequester,
      vr_rtcp_sender = new_RtcpSender 1200 uninitialised, vr_rtcp_stop = False, vr_is_running = True,
      vr_keyframe_request_pending = False, vr_keyframe_request_started_ms = 0, vr_next_keyframe_request_ms = 0,
      vr_last_recovery_stats_log_ms = ms now, vr_sequence_number_fir = 0, vr_ssrc = ssrc, vr_remote_ssrc = 0,
      vr_rtx_ssrc = 0, vr_media_payload_type = ucast PT_H264, vr_abs_send_time_ext_id = None,
      vr_counters = zero_counters, vr_stats = new_ReceiverStats, vr_last_recv_bytes = 0,
      vr_total_rtp_packets_recv = 0, vr_total_rtp_payload_recv = 0, vr_io_statistics = io_statistics,
      vr_on_receive_complete_frame = False, vr_calls = [], vr_delivered = []\<rparr>"

definition SetMediaConfig :: "VideoReceiver \<Rightarrow> u32 \<Rightarrow> u32 \<Rightarrow> byte \<Rightarrow> VideoReceiver" where
  "SetMediaConfig v remote_ssrc rtx_ssrc media_payload_type =
     (let v = (if vr_remote_ssrc v \<noteq> remote_ssrc
               then v\<lparr>vr_fa := (vr_fa v)\<lparr>fa_mapper := Mapper_Reset (fa_mapper (vr_fa v))\<rparr>\<rparr> else v) in
      v\<lparr>vr_remote_ssrc := remote_ssrc, vr_rtx_ssrc := (if rtx_ssrc \<noteq> remote_ssrc then rtx_ssrc else 0),
        vr_media_payload_type := media_payload_type\<rparr>)"

definition RtxEnabled :: "VideoReceiver \<Rightarrow> bool" where
  "RtxEnabled v \<longleftrightarrow> vr_rtx_ssrc v \<noteq> 0"

section \<open>Feedback\<close>

type_synonym send_func = "(byte list \<Rightarrow> int) option"

text \<open>The callback the constructor gives the RTCP sender.\<close>

definition rtcp_callback :: "send_func \<Rightarrow> VideoReceiver \<Rightarrow> byte list \<Rightarrow> int" where
  "rtcp_callback data_send_func v d =
     (case data_send_func of None \<Rightarrow> - 1 | Some f \<Rightarrow> if vr_rtcp_stop v then - 1 else f d)"

text \<open>\<open>AppendPacket\<close> and \<open>Send\<close> of one message.\<close>

definition send_message :: "send_func \<Rightarrow> VideoReceiver \<Rightarrow> rtcp_message \<Rightarrow> (bool \<times> VideoReceiver) option" where
  "send_message data_send_func v m = do {
     (ok, s) \<leftarrow> send_all (Some (rtcp_callback data_send_func v)) [m] (vr_rtcp_sender v);
     Some (ok, v\<lparr>vr_rtcp_sender := s\<rparr>) }"

definition SendNack :: "send_func \<Rightarrow> VideoReceiver \<Rightarrow> u16 list \<Rightarrow> (bool \<times> VideoReceiver) option" where
  "SendNack data_send_func v nack_list =
     (if \<not> RtxEnabled v \<or> nack_list = [] \<or> vr_rtcp_stop v then Some (False, v)
      else send_message data_send_func v (MNack (SetPacketIds
        (new_Nack\<lparr>nack_sender_ssrc := vr_ssrc v, nack_media_ssrc := vr_remote_ssrc v\<rparr>) nack_list)))"

definition kMaxNackIdsPerRtcpPacket :: nat where "kMaxNackIdsPerRtcpPacket = 256"

function SendPreparedNackBatch :: "send_func \<Rightarrow> timestamp \<Rightarrow> VideoReceiver \<Rightarrow> u16 list \<Rightarrow> VideoReceiver option" where
  "SendPreparedNackBatch data_send_func now v nack_batch =
     (if nack_batch = [] then Some v
      else let datagram_batch = take kMaxNackIdsPerRtcpPacket nack_batch in do {
        (send_successful, v) \<leftarrow> SendNack data_send_func v datagram_batch;
        let v = v\<lparr>vr_nack := OnNackBatchSent now (vr_nack v) datagram_batch send_successful\<rparr> in
        SendPreparedNackBatch data_send_func now v (drop kMaxNackIdsPerRtcpPacket nack_batch) })"
  by pat_completeness auto
termination
  by (relation "measure (\<lambda>(_, _, _, b). length b)") (auto simp: kMaxNackIdsPerRtcpPacket_def)

definition kFirRetryIntervalMs :: int where "kFirRetryIntervalMs = 1500"
definition kFailedFirRetryIntervalMs :: int where "kFailedFirRetryIntervalMs = 500"

definition count :: "((u64 \<Rightarrow> u64) \<Rightarrow> RecoveryCounters \<Rightarrow> RecoveryCounters) \<Rightarrow> VideoReceiver \<Rightarrow> VideoReceiver" where
  "count f v = v\<lparr>vr_counters := f (\<lambda>n. n + 1) (vr_counters v)\<rparr>"

definition SendKeyFrameRequest :: "send_func \<Rightarrow> timestamp \<Rightarrow> VideoReceiver \<Rightarrow> bool \<Rightarrow> (bool \<times> VideoReceiver) option" where
  "SendKeyFrameRequest data_send_func now v enter_awaiting_state =
     (let v = (if enter_awaiting_state then v\<lparr>vr_awaiting_keyframe := True\<rparr> else v); now_ms = ms now in
      if now_ms < vr_next_keyframe_request_ms v then Some (False, count rc_fir_suppressed_update v)
      else
        let request_already_pending = vr_keyframe_request_pending v;
            v = v\<lparr>vr_sequence_number_fir := vr_sequence_number_fir v + 1\<rparr>;
            fir = AddRequestTo (new_Fir\<lparr>fir_sender_ssrc := vr_ssrc v\<rparr>) (vr_remote_ssrc v) (vr_sequence_number_fir v) in do {
        (sent, v) \<leftarrow> send_message data_send_func v (MFir fir);
        if \<not> sent then Some (False, count rc_fir_failed_update
          (v\<lparr>vr_next_keyframe_request_ms := now_ms + kFailedFirRetryIntervalMs\<rparr>))
        else
          let v = (if \<not> request_already_pending
                   then v\<lparr>vr_keyframe_request_started_ms := now_ms, vr_keyframe_request_pending := True\<rparr> else v) in
          Some (True, count rc_fir_sent_update (v\<lparr>vr_next_keyframe_request_ms := now_ms + kFirRetryIntervalMs\<rparr>)) })"

definition RequestKeyFrame :: "send_func \<Rightarrow> timestamp \<Rightarrow> VideoReceiver \<Rightarrow> VideoReceiver option" where
  "RequestKeyFrame data_send_func now v = map_option snd (SendKeyFrameRequest data_send_func now v True)"

definition ProcessPendingNacks :: "send_func \<Rightarrow> timestamp \<Rightarrow> VideoReceiver \<Rightarrow> VideoReceiver option" where
  "ProcessPendingNacks data_send_func now v =
     (if \<not> RtxEnabled v then Some v
      else case ProcessNacks now (vr_nack v) of (nack_batch, n) \<Rightarrow>
        SendPreparedNackBatch data_send_func now (v\<lparr>vr_nack := n\<rparr>) nack_batch)"

definition OnRttUpdate :: "VideoReceiver \<Rightarrow> int \<Rightarrow> VideoReceiver" where
  "OnRttUpdate v rtt_ms = (if \<not> RtxEnabled v then v else v\<lparr>vr_nack := UpdateRtt (vr_nack v) rtt_ms\<rparr>)"

text \<open>Members that a sender report updates; the clock is absent when \<open>system_clock_\<close> is null.\<close>

definition OnSenderReport ::
  "SystemClock option \<Rightarrow> int \<Rightarrow> int \<Rightarrow> timestamp \<Rightarrow> VideoReceiver \<Rightarrow> SenderReport \<Rightarrow> VideoReceiver" where
  "OnSenderReport system_clock utc_ns mono_ns now v sender_report =
     (case system_clock of None \<Rightarrow> v
      | Some c \<Rightarrow>
        if sr_sender_ssrc sender_report \<noteq> vr_remote_ssrc v \<or> NtpTimestamp sender_report = 0 then v
        else v\<lparr>vr_fa := (vr_fa v)\<lparr>fa_mapper := UpdateFromSenderReport (fa_mapper (vr_fa v))
                 (si_rtp_ts (sr_info sender_report)) (NtpToMonotonicTimeUs c utc_ns (NtpTimestamp sender_report))\<rparr>,
               vr_stats := stats_sender_report (vr_remote_ssrc v) (ms now) (CompactNtp (CurrentNtpTime c mono_ns))
                 sender_report (vr_stats v)\<rparr>)"

section \<open>Recovery\<close>

record FrameRecoveryTiming =
  soft_deadline_ms :: int
  soft_fir_confirmation_delay_ms :: int
  hard_deadline_ms :: int

definition clamp :: "int \<Rightarrow> int \<Rightarrow> int \<Rightarrow> int" where
  "clamp v lo hi = (if v < lo then lo else if hi < v then hi else v)"

definition SoftFrameRecoveryDeadlineMs :: "int \<Rightarrow> int" where
  "SoftFrameRecoveryDeadlineMs rtt_ms = clamp (2 * rtt_ms + 30) 100 500"
definition SoftFirConfirmationDelayMs :: "int \<Rightarrow> int" where
  "SoftFirConfirmationDelayMs rtt_ms = clamp rtt_ms 75 150"
definition HardFrameRecoveryDeadlineMs :: "int \<Rightarrow> int" where
  "HardFrameRecoveryDeadlineMs rtt_ms = clamp (5 * rtt_ms + 80) 350 1000"

definition GetFrameRecoveryTiming :: "VideoReceiver \<Rightarrow> FrameRecoveryTiming" where
  "GetFrameRecoveryTiming v =
     (if \<not> RtxEnabled v
      then \<lparr>soft_deadline_ms = 80, soft_fir_confirmation_delay_ms = 0, hard_deadline_ms = 200\<rparr>
      else if \<not> nk_has_rtt_sample (vr_nack v)
      then \<lparr>soft_deadline_ms = 200, soft_fir_confirmation_delay_ms = 100, hard_deadline_ms = 600\<rparr>
      else let rtt_ms = max (RttMs (vr_nack v)) 1 in
        \<lparr>soft_deadline_ms = SoftFrameRecoveryDeadlineMs rtt_ms,
         soft_fir_confirmation_delay_ms = SoftFirConfirmationDelayMs rtt_ms,
         hard_deadline_ms = HardFrameRecoveryDeadlineMs rtt_ms\<rparr>)"

text \<open>Every five seconds the counters are logged and start again.\<close>

definition MaybeLogRecoveryStats :: "timestamp \<Rightarrow> VideoReceiver \<Rightarrow> bool \<Rightarrow> VideoReceiver" where
  "MaybeLogRecoveryStats now v force =
     (if \<not> force \<and> ms now - vr_last_recovery_stats_log_ms v < 5000 then v
      else v\<lparr>vr_last_recovery_stats_log_ms := ms now, vr_counters := zero_counters\<rparr>)"

definition complete_keyframe :: "u32 \<times> PendingFrame \<Rightarrow> bool" where
  "complete_keyframe e \<longleftrightarrow> pf_is_complete (snd e) \<and> pf_is_keyframe (snd e)"

definition MaybeRetryKeyFrameRequest :: "send_func \<Rightarrow> timestamp \<Rightarrow> VideoReceiver \<Rightarrow> VideoReceiver option" where
  "MaybeRetryKeyFrameRequest data_send_func now v =
     (if vr_awaiting_keyframe v \<and> list_ex complete_keyframe (fa_pending (vr_fa v)) then Some v
      else if \<not> vr_awaiting_keyframe v then Some v
      else if ms now \<ge> vr_next_keyframe_request_ms v
      then map_option snd (SendKeyFrameRequest data_send_func now v False)
      else Some v)"

definition OnCompleteKeyFrame :: "VideoReceiver \<Rightarrow> int \<Rightarrow> VideoReceiver" where
  "OnCompleteKeyFrame v now_ms =
     (if \<not> vr_keyframe_request_pending v then v
      else
        let request_started_ms = vr_keyframe_request_started_ms v;
            v = v\<lparr>vr_keyframe_request_pending := False, vr_keyframe_request_started_ms := 0\<rparr> in
        if request_started_ms \<le> 0 \<or> now_ms < request_started_ms then v
        else let response_ms = word_of_int (now_ms - request_started_ms); c = vr_counters v in
          v\<lparr>vr_counters := c\<lparr>rc_fir_responses := rc_fir_responses c + 1,
            rc_fir_response_total_ms := rc_fir_response_total_ms c + response_ms,
            rc_fir_response_max_ms := max (rc_fir_response_max_ms c) response_ms\<rparr>\<rparr>)"

definition IsFrameTimestampObsolete :: "VideoReceiver \<Rightarrow> u32 \<Rightarrow> bool" where
  "IsFrameTimestampObsolete v timestamp \<longleftrightarrow>
     (case vr_last_complete_frame_ts v of None \<Rightarrow> False | Some l \<Rightarrow> \<not> AheadOf 0 timestamp l) \<or>
     (case vr_last_discarded_frame_ts v of None \<Rightarrow> False | Some l \<Rightarrow> \<not> AheadOf 0 timestamp l)"

definition MarkFrameDiscarded :: "VideoReceiver \<Rightarrow> u32 \<Rightarrow> VideoReceiver" where
  "MarkFrameDiscarded v timestamp =
     (case vr_last_discarded_frame_ts v of
        None \<Rightarrow> v\<lparr>vr_last_discarded_frame_ts := Some timestamp\<rparr>
      | Some l \<Rightarrow> if AheadOf 0 timestamp l then v\<lparr>vr_last_discarded_frame_ts := Some timestamp\<rparr> else v)"

section \<open>The worker\<close>

text \<open>How an iteration of the loop of \<open>Process\<close> ends.\<close>

datatype outcome = Break | Return_false | Continue

text \<open>Dropping the first pending frame, and delivering it.\<close>

definition drop_first :: "VideoReceiver \<Rightarrow> u32 \<Rightarrow> VideoReceiver" where
  "drop_first v timestamp =
     (let v = count rc_discarded_frames_update v in
      v\<lparr>vr_fa := DropFrameAssembly ((vr_fa v)\<lparr>fa_pending := tl (fa_pending (vr_fa v))\<rparr>) timestamp\<rparr>)"

definition deliver_first :: "timestamp \<Rightarrow> VideoReceiver \<Rightarrow> u32 \<Rightarrow> PendingFrame \<Rightarrow> VideoReceiver" where
  "deliver_first now v timestamp p =
     (let soft_fir_avoided = pf_recovery_escalated p \<and> \<not> pf_soft_fir_requested p;
          v = v\<lparr>vr_last_complete_frame_ts := Some timestamp,
                vr_fa := (vr_fa v)\<lparr>fa_pending := tl (fa_pending (vr_fa v))\<rparr>\<rparr>;
          v = (if soft_fir_avoided then count rc_soft_fir_avoided_update v else v) in
      case pf_frame p of None \<Rightarrow> v
      | Some f \<Rightarrow>
        let v = (if pf_is_keyframe p then OnCompleteKeyFrame v (ms now) else v);
            v = count rc_completed_frames_update v in
        if vr_on_receive_complete_frame v then v\<lparr>vr_delivered := vr_delivered v @ [(timestamp, pf_is_keyframe p, f)]\<rparr> else v)"

definition has_blocking_nacks :: "VideoReceiver \<Rightarrow> PendingFrame \<Rightarrow> bool" where
  "has_blocking_nacks v p =
     (case pf_last_sequence_number p of Some l \<Rightarrow> HasPendingNacksUpTo (vr_nack v) l | None \<Rightarrow> HasPendingNacks (vr_nack v))"

definition clear_nacks :: "VideoReceiver \<Rightarrow> PendingFrame \<Rightarrow> VideoReceiver" where
  "clear_nacks v p =
     (case pf_last_sequence_number p of Some l \<Rightarrow> v\<lparr>vr_nack := ClearUpTo (vr_nack v) l\<rparr> | None \<Rightarrow> v)"

definition update_first :: "(PendingFrame \<Rightarrow> PendingFrame) \<Rightarrow> VideoReceiver \<Rightarrow> VideoReceiver" where
  "update_first f v = v\<lparr>vr_fa := (vr_fa v)\<lparr>fa_pending :=
     (case fa_pending (vr_fa v) of [] \<Rightarrow> [] | (t, p) # r \<Rightarrow> (t, f p) # r)\<rparr>\<rparr>"

definition request_if_due :: "send_func \<Rightarrow> timestamp \<Rightarrow> VideoReceiver \<Rightarrow> (bool \<times> VideoReceiver) option" where
  "request_if_due data_send_func now v =
     (if ms now \<ge> vr_next_keyframe_request_ms v then SendKeyFrameRequest data_send_func now v False else Some (False, v))"

text \<open>A first frame that can be neither dropped nor delivered now: the deadlines.\<close>

definition process_deadlines ::
  "send_func \<Rightarrow> FrameRecoveryTiming \<Rightarrow> timestamp \<Rightarrow> VideoReceiver \<Rightarrow> u32 \<Rightarrow> PendingFrame \<Rightarrow> (outcome \<times> VideoReceiver) option" where
  "process_deadlines data_send_func timing now v t p =
     (let frame_age_ms = ms now - pf_arrival_time p in
      if frame_age_ms > hard_deadline_ms timing then
        let v = MarkFrameDiscarded (clear_nacks (v\<lparr>vr_awaiting_keyframe := True\<rparr>) p) t;
            v = count rc_hard_timeouts_update (drop_first v t) in
        map_option (\<lambda>(_, v). (Return_false, v)) (request_if_due data_send_func now v)
      else if \<not> pf_recovery_escalated p \<and> frame_age_ms > soft_deadline_ms timing then
        Some (Return_false, count rc_soft_stalls_update (update_first (pf_recovery_escalated_update (\<lambda>_. True)) v))
      else if pf_recovery_escalated p \<and> \<not> pf_soft_fir_requested p \<and>
          frame_age_ms > soft_deadline_ms timing + soft_fir_confirmation_delay_ms timing then do {
        (sent, v) \<leftarrow> request_if_due data_send_func now (update_first (pf_soft_fir_requested_update (\<lambda>_. True)) v);
        Some (Return_false, if sent then count rc_soft_fir_sent_update v else v) }
      else Some (Break, v))"

definition process_step ::
  "send_func \<Rightarrow> FrameRecoveryTiming \<Rightarrow> timestamp \<Rightarrow> VideoReceiver \<Rightarrow> (outcome \<times> VideoReceiver) option" where
  "process_step data_send_func timing now v =
     (case fa_pending (vr_fa v) of [] \<Rightarrow> Some (Break, v)
      | (t, p) # rest \<Rightarrow>
        let is_older_than_decoded_frame =
              (case vr_last_complete_frame_ts v of None \<Rightarrow> False | Some l \<Rightarrow> \<not> AheadOf 0 t l);
            newer_complete_keyframe_available =
              ((vr_awaiting_keyframe v \<or> pf_recovery_escalated p) \<and> \<not> (pf_is_complete p \<and> pf_is_keyframe p) \<and>
               list_ex complete_keyframe rest) in
        if is_older_than_decoded_frame then Some (Continue, drop_first v t)
        else if newer_complete_keyframe_available then Some (Continue, drop_first (v\<lparr>vr_awaiting_keyframe := True\<rparr>) t)
        else if pf_is_complete p \<and> vr_awaiting_keyframe v \<and> pf_is_keyframe p
        then Some (Continue, deliver_first now (clear_nacks (v\<lparr>vr_awaiting_keyframe := False\<rparr>) p) t p)
        else if pf_is_complete p \<and> vr_awaiting_keyframe v then Some (Continue, drop_first v t)
        else if pf_is_complete p \<and> \<not> has_blocking_nacks v p then Some (Continue, deliver_first now v t p)
        else process_deadlines data_send_func timing now v t p)"

text \<open>The loop; iteration \<open>i\<close> reads the time \<open>clock i\<close>. Every iteration that continues removes a frame.\<close>

lemma drop_first_pending [simp]: "fa_pending (vr_fa (drop_first v t)) = tl (fa_pending (vr_fa v))"
  by (simp add: drop_first_def DropFrameAssembly_def ClearFrameMarkers_def count_def Let_def)

lemma count_same [simp]: "vr_fa (count f v) = vr_fa v" "vr_delivered (count f v) = vr_delivered v"
  "vr_last_complete_frame_ts (count f v) = vr_last_complete_frame_ts v" "vr_awaiting_keyframe (count f v) = vr_awaiting_keyframe v"
  "vr_on_receive_complete_frame (count f v) = vr_on_receive_complete_frame v"
  "vr_last_discarded_frame_ts (count f v) = vr_last_discarded_frame_ts v"
  "vr_rtcp_sender (count f v) = vr_rtcp_sender v" "vr_next_keyframe_request_ms (count f v) = vr_next_keyframe_request_ms v"
  "vr_nack (count f v) = vr_nack v" "vr_rtcp_stop (count f v) = vr_rtcp_stop v" "vr_is_running (count f v) = vr_is_running v"
  by (simp_all add: count_def)

lemma OnCompleteKeyFrame_same [simp]: "vr_fa (OnCompleteKeyFrame v m) = vr_fa v"
  "vr_delivered (OnCompleteKeyFrame v m) = vr_delivered v"
  "vr_last_complete_frame_ts (OnCompleteKeyFrame v m) = vr_last_complete_frame_ts v"
  "vr_awaiting_keyframe (OnCompleteKeyFrame v m) = vr_awaiting_keyframe v"
  "vr_on_receive_complete_frame (OnCompleteKeyFrame v m) = vr_on_receive_complete_frame v"
  "vr_last_discarded_frame_ts (OnCompleteKeyFrame v m) = vr_last_discarded_frame_ts v"
  "vr_rtcp_sender (OnCompleteKeyFrame v m) = vr_rtcp_sender v"
  "vr_next_keyframe_request_ms (OnCompleteKeyFrame v m) = vr_next_keyframe_request_ms v"
  "vr_nack (OnCompleteKeyFrame v m) = vr_nack v" "vr_rtcp_stop (OnCompleteKeyFrame v m) = vr_rtcp_stop v"
  "vr_is_running (OnCompleteKeyFrame v m) = vr_is_running v"
  by (simp_all add: OnCompleteKeyFrame_def Let_def)

lemma clear_nacks_same [simp]: "vr_fa (clear_nacks v p) = vr_fa v" "vr_delivered (clear_nacks v p) = vr_delivered v"
  "vr_last_complete_frame_ts (clear_nacks v p) = vr_last_complete_frame_ts v"
  "vr_awaiting_keyframe (clear_nacks v p) = vr_awaiting_keyframe v"
  "vr_on_receive_complete_frame (clear_nacks v p) = vr_on_receive_complete_frame v"
  "vr_last_discarded_frame_ts (clear_nacks v p) = vr_last_discarded_frame_ts v"
  "vr_rtcp_sender (clear_nacks v p) = vr_rtcp_sender v"
  "vr_next_keyframe_request_ms (clear_nacks v p) = vr_next_keyframe_request_ms v"
  "vr_rtcp_stop (clear_nacks v p) = vr_rtcp_stop v" "vr_is_running (clear_nacks v p) = vr_is_running v"
  by (simp_all add: clear_nacks_def split: option.split)

lemma deliver_first_fa [simp]: "vr_fa (deliver_first now v t p) = (vr_fa v)\<lparr>fa_pending := tl (fa_pending (vr_fa v))\<rparr>"
  by (simp add: deliver_first_def Let_def split: option.split)

lemma process_step_continue:
  "process_step ds timing now v = Some (Continue, v') \<Longrightarrow>
    fa_pending (vr_fa v) \<noteq> [] \<and> fa_pending (vr_fa v') = tl (fa_pending (vr_fa v))"
  by (auto simp: process_step_def process_deadlines_def Let_def split: list.splits if_splits option.splits bind_splits)

function process_loop ::
  "send_func \<Rightarrow> FrameRecoveryTiming \<Rightarrow> (nat \<Rightarrow> timestamp) \<Rightarrow> nat \<Rightarrow> VideoReceiver \<Rightarrow> (bool \<times> VideoReceiver) option" where
  "process_loop data_send_func timing clock i v =
     (case process_step data_send_func timing (clock i) v of
        None \<Rightarrow> None
      | Some (Break, v') \<Rightarrow> Some (True, v')
      | Some (Return_false, v') \<Rightarrow> Some (False, v')
      | Some (Continue, v') \<Rightarrow> process_loop data_send_func timing clock (Suc i) v')"
  by pat_completeness auto
termination
  by (relation "measure (\<lambda>(_, _, _, _, v). length (fa_pending (vr_fa v)))")
    (auto dest!: sym [of "Some _"] process_step_continue)

definition Process :: "send_func \<Rightarrow> timestamp \<Rightarrow> (nat \<Rightarrow> timestamp) \<Rightarrow> VideoReceiver \<Rightarrow> (bool \<times> VideoReceiver) option" where
  "Process data_send_func now clock v =
     (if \<not> vr_is_running v then Some (False, v)
      else do {
        v \<leftarrow> ProcessPendingNacks data_send_func now v;
        let v = MaybeLogRecoveryStats now v False in do {
        v \<leftarrow> MaybeRetryKeyFrameRequest data_send_func now v;
        process_loop data_send_func (GetFrameRecoveryTiming v) clock 0 v } })"

section \<open>Ingestion\<close>

text \<open>The media packet of a received packet: itself, or what an RTX packet carries; None if it is dropped.\<close>

definition media_of :: "VideoReceiver \<Rightarrow> RtpPacket \<Rightarrow> RtpPacket option option" where
  "media_of v p =
     (if rp_payload_type p \<noteq> PT_RTX then Some (Some p)
      else if vr_rtx_ssrc v = 0 \<or> rp_ssrc p \<noteq> vr_rtx_ssrc v then Some None
      else do {
        (ok, m) \<leftarrow> RestoreMediaPacketFromRtx (vr_remote_ssrc v) (vr_media_payload_type v) p new_RtpPacket;
        Some (if ok then Some m else None) })"

definition io_calls :: "VideoReceiver \<Rightarrow> receiver_call list \<Rightarrow> VideoReceiver" where
  "io_calls v cs = (if vr_io_statistics v then v\<lparr>vr_calls := vr_calls v @ cs\<rparr> else v)"

definition add_received_bytes :: "VideoReceiver \<Rightarrow> RtpPacket \<Rightarrow> VideoReceiver" where
  "add_received_bytes v p =
     v\<lparr>vr_last_recv_bytes := of_nat (rp_payload_size p),
       vr_total_rtp_payload_recv := vr_total_rtp_payload_recv v + of_nat (rp_payload_size p),
       vr_total_rtp_packets_recv := vr_total_rtp_packets_recv v + 1\<rparr>"

text \<open>An obsolete packet: its RTX packet still satisfies the NACK.\<close>

definition insert_obsolete :: "timestamp \<Rightarrow> VideoReceiver \<Rightarrow> bool \<Rightarrow> RtpPacket \<Rightarrow> VideoReceiver" where
  "insert_obsolete now v is_recovered media_packet =
     (let v = count rc_obsolete_packets_update v in
      if is_recovered
      then count rc_late_rtx_packets_update
        (v\<lparr>vr_nack := snd (OnReceivedPacket now (vr_nack v) (rp_sequence_number media_packet) True)\<rparr>)
      else v)"

text \<open>Statistics of a media packet.\<close>

definition insert_statistics :: "timestamp \<Rightarrow> VideoReceiver \<Rightarrow> bool \<Rightarrow> RtpPacket \<Rightarrow> RtpPacket \<Rightarrow> RtpPacket \<Rightarrow> VideoReceiver" where
  "insert_statistics now v is_recovered p media_packet received =
     (let v = (if \<not> is_recovered
               then v\<lparr>vr_stats := stats_packet now (rp_sequence_number media_packet) (rp_timestamp received) (vr_stats v)\<rparr>
               else v);
          v = add_received_bytes v p in
      io_calls v ([UpdateVideoInboundBytes (vr_last_recv_bytes v), IncrementVideoInboundRtpPacketCount] @
        (if \<not> is_recovered then [UpdateVideoPacketLossCount (rp_sequence_number media_packet)] else [])))"

text \<open>Sequence tracking.\<close>

definition insert_nack :: "send_func \<Rightarrow> timestamp \<Rightarrow> VideoReceiver \<Rightarrow> bool \<Rightarrow> RtpPacket \<Rightarrow> VideoReceiver option" where
  "insert_nack data_send_func now v is_recovered media_packet =
     (if RtxEnabled v then
        let (nack_batch, n) = OnReceivedPacket now (vr_nack v) (rp_sequence_number media_packet) is_recovered;
            (request_keyframe_for_nack_overflow, n) = ConsumeKeyFrameRequest n in do {
        v \<leftarrow> SendPreparedNackBatch data_send_func now (v\<lparr>vr_nack := n\<rparr>) nack_batch;
        if request_keyframe_for_nack_overflow then RequestKeyFrame data_send_func now v else Some v }
      else Some v)"

text \<open>Depacketization; \<open>object\<close> is the uninitialised H.264 packet object.\<close>

definition insert_payload :: "send_func \<Rightarrow> RtpPacketH264 \<Rightarrow> timestamp \<Rightarrow> VideoReceiver \<Rightarrow> RtpPacket \<Rightarrow> VideoReceiver option" where
  "insert_payload data_send_func object now v media_packet =
     (if rp_payload_type media_packet = ucast PT_AV1 then do {
        (ok, q) \<leftarrow> open_av1 (rp_buffer media_packet) (rp_size media_packet);
        if \<not> ok then RequestKeyFrame data_send_func now v
        else do { fa \<leftarrow> ProcessAv1RtpPacket now (vr_fa v) q; Some (v\<lparr>vr_fa := fa\<rparr>) } }
      else if rp_payload_type media_packet = ucast PT_H264 then do {
        (ok, q) \<leftarrow> open_h264 object (rp_buffer media_packet) (rp_size media_packet);
        if \<not> ok then RequestKeyFrame data_send_func now v
        else do { fa \<leftarrow> ProcessH264RtpPacket now (vr_fa v) q; Some (v\<lparr>vr_fa := fa\<rparr>) } }
      else Some v)"

text \<open>The part of \<open>InsertRtpPacket\<close> after the packet was found not to be obsolete.\<close>

definition insert_media ::
  "send_func \<Rightarrow> RtpPacketH264 \<Rightarrow> timestamp \<Rightarrow> VideoReceiver \<Rightarrow> bool \<Rightarrow> RtpPacket \<Rightarrow> RtpPacket \<Rightarrow> VideoReceiver option" where
  "insert_media data_send_func object now v is_recovered p media_packet =
     (let payload_type = rp_payload_type media_packet;
          v = (if is_recovered then count rc_accepted_rtx_packets_update v else v) in do {
      (ok, received) \<leftarrow> RtpPacket_Build new_RtpPacket (rp_buffer media_packet) (rp_size media_packet);
      if \<not> ok then Some v
      else
        let received = received\<lparr>rp_abs_send_time_ext_id := vr_abs_send_time_ext_id v\<rparr>;
            padding_payload_type = vr_media_payload_type v - 1 in
        if \<not> is_recovered \<and> rp_ssrc media_packet \<noteq> vr_remote_ssrc v \<and> payload_type = padding_payload_type then
          let v = add_received_bytes (v\<lparr>vr_calls := vr_calls v @ [CcOnReceivedPacket received now]\<rparr>) p in
          Some (io_calls v [UpdateVideoInboundBytes (vr_last_recv_bytes v), IncrementVideoInboundRtpPacketCount])
        else
          let v = insert_statistics now v is_recovered p media_packet received;
              is_media_padding = (\<not> is_recovered \<and> payload_type = padding_payload_type) in
          if payload_type \<noteq> vr_media_payload_type v \<and> \<not> is_media_padding then Some v
          else
            let v = (if \<not> is_recovered then v\<lparr>vr_calls := vr_calls v @ [CcOnReceivedPacket received now]\<rparr> else v) in do {
            v \<leftarrow> insert_nack data_send_func now v is_recovered media_packet;
            if is_media_padding then Some v else insert_payload data_send_func object now v media_packet } })"

definition InsertRtpPacket :: "send_func \<Rightarrow> RtpPacketH264 \<Rightarrow> timestamp \<Rightarrow> VideoReceiver \<Rightarrow> RtpPacket \<Rightarrow> VideoReceiver option" where
  "InsertRtpPacket data_send_func object now v p =
     (let is_recovered = (rp_payload_type p = PT_RTX) in do {
      m \<leftarrow> media_of v p;
      case m of None \<Rightarrow> Some v
      | Some media_packet \<Rightarrow>
        if rp_payload_type media_packet = vr_media_payload_type v \<and> IsFrameTimestampObsolete v (rp_timestamp media_packet)
        then Some (insert_obsolete now v is_recovered media_packet)
        else insert_media data_send_func object now v is_recovered p media_packet })"

text \<open>A turn of the thread that sends receiver reports.\<close>

definition RtcpThread_turn ::
  "(nat \<Rightarrow> byte) \<Rightarrow> ReceiverReport \<Rightarrow> u32 \<Rightarrow> int \<Rightarrow> VideoReceiver \<Rightarrow> (byte list option \<times> VideoReceiver) option" where
  "RtcpThread_turn junk object now elapsed v =
     (if \<not> vr_rtcp_stop v \<and> elapsed \<ge> 5000 \<and> rs_has_received_media_packet (vr_stats v) then do {
        (d, s) \<leftarrow> SendRR junk object now (vr_ssrc v) (vr_remote_ssrc v) (vr_stats v);
        Some (Some d, v\<lparr>vr_stats := s\<rparr>) }
      else Some (None, v))"

definition StopRtcp :: "VideoReceiver \<Rightarrow> VideoReceiver" where
  "StopRtcp v = v\<lparr>vr_is_running := False, vr_rtcp_stop := True\<rparr>"

definition SetOnReceiveCompleteFrame :: "VideoReceiver \<Rightarrow> VideoReceiver" where
  "SetOnReceiveCompleteFrame v = v\<lparr>vr_on_receive_complete_frame := True\<rparr>"

definition SetAbsoluteSendTimeExtensionId :: "VideoReceiver \<Rightarrow> byte option \<Rightarrow> VideoReceiver" where
  "SetAbsoluteSendTimeExtensionId v extension_id = v\<lparr>vr_abs_send_time_ext_id := extension_id\<rparr>"

section \<open>Executions\<close>

text \<open>
  The states the receiver can reach when the worker, the packet thread, the report thread and the
  client interleave. The worker's loop is one step per iteration, since it releases its locks in
  between. The ingestion of a packet is a step (\<open>insert\<close>), and so is what is left of it after
  the packet was found not to be obsolete (\<open>media\<close>) and after the NACKs were sent (\<open>payload\<close>): the lock
  of the test is released, and when the rest runs the worker may have abandoned the frame.
\<close>

inductive rx_reachable :: "VideoReceiver \<Rightarrow> bool" where
  start: "length buf = IP_PACKET_SIZE \<Longrightarrow> rx_reachable (new_VideoReceiver ssrc buf io now)"
| configure: "rx_reachable v \<Longrightarrow> rx_reachable (SetMediaConfig v remote rtx pt)"
| callback: "rx_reachable v \<Longrightarrow> rx_reachable (SetOnReceiveCompleteFrame v)"
| extension: "rx_reachable v \<Longrightarrow> rx_reachable (SetAbsoluteSendTimeExtensionId v ext)"
| insert: "rx_reachable v \<Longrightarrow> InsertRtpPacket ds obj now v p = Some v' \<Longrightarrow> rx_reachable v'"
| media: "rx_reachable v \<Longrightarrow> insert_media ds obj now v is_recovered p media_packet = Some v' \<Longrightarrow> rx_reachable v'"
| payload: "rx_reachable v \<Longrightarrow> insert_payload ds obj now v media_packet = Some v' \<Longrightarrow> rx_reachable v'"
| request: "rx_reachable v \<Longrightarrow> RequestKeyFrame ds now v = Some v' \<Longrightarrow> rx_reachable v'"
| rtt: "rx_reachable v \<Longrightarrow> rx_reachable (OnRttUpdate v rtt_ms)"
| sender_report: "rx_reachable v \<Longrightarrow> rx_reachable (OnSenderReport c utc_ns mono_ns now v sr)"
| report: "rx_reachable v \<Longrightarrow> RtcpThread_turn junk obj now elapsed v = Some (d, v') \<Longrightarrow> rx_reachable v'"
| stop: "rx_reachable v \<Longrightarrow> rx_reachable (StopRtcp v)"
| nacks: "rx_reachable v \<Longrightarrow> ProcessPendingNacks ds now v = Some v' \<Longrightarrow> rx_reachable v'"
| log: "rx_reachable v \<Longrightarrow> rx_reachable (MaybeLogRecoveryStats now v force)"
| retry: "rx_reachable v \<Longrightarrow> MaybeRetryKeyFrameRequest ds now v = Some v' \<Longrightarrow> rx_reachable v'"
| worker: "rx_reachable v \<Longrightarrow> process_step ds timing now v = Some (out, v') \<Longrightarrow> rx_reachable v'"

text \<open>What feedback leaves alone.\<close>

abbreviation core :: "VideoReceiver \<Rightarrow> FrameAssembly \<times> (u32 \<times> bool \<times> ReceivedFrame) list \<times> u32 option \<times> u32 option \<times> bool" where
  "core v \<equiv> (vr_fa v, vr_delivered v, vr_last_complete_frame_ts v, vr_last_discarded_frame_ts v, vr_on_receive_complete_frame v)"

lemma send_message_core: "send_message ds v m = Some (ok, v') \<Longrightarrow> \<exists>s. v' = v\<lparr>vr_rtcp_sender := s\<rparr>"
  by (auto simp: send_message_def split: bind_splits)

lemma SendNack_core: "SendNack ds v ids = Some (ok, v') \<Longrightarrow> \<exists>s. v' = v\<lparr>vr_rtcp_sender := s\<rparr>"
proof -
  have "\<exists>s. v = v\<lparr>vr_rtcp_sender := s\<rparr>" by (rule exI [of _ "vr_rtcp_sender v"]) simp
  then show "SendNack ds v ids = Some (ok, v') \<Longrightarrow> \<exists>s. v' = v\<lparr>vr_rtcp_sender := s\<rparr>"
    by (auto simp: SendNack_def dest: send_message_core split: if_splits)
qed

declare SendPreparedNackBatch.simps [simp del]

lemma SendPreparedNackBatch_core:
  "SendPreparedNackBatch ds now v ids = Some v' \<Longrightarrow> \<exists>s n. v' = v\<lparr>vr_rtcp_sender := s, vr_nack := n\<rparr>"
proof (induction ds now v ids rule: SendPreparedNackBatch.induct)
  case (1 ds now v ids)
  let ?ids = "take kMaxNackIdsPerRtcpPacket ids"
  show ?case
  proof (cases "ids = []")
    case True
    with "1.prems" have "v' = v\<lparr>vr_rtcp_sender := vr_rtcp_sender v, vr_nack := vr_nack v\<rparr>"
      by (simp add: SendPreparedNackBatch.simps)
    then show ?thesis by blast
  next
    case False
    with "1.prems" obtain ok w where w: "SendNack ds v ?ids = Some (ok, w)"
      and r: "SendPreparedNackBatch ds now (w\<lparr>vr_nack := OnNackBatchSent now (vr_nack w) ?ids ok\<rparr>)
        (drop kMaxNackIdsPerRtcpPacket ids) = Some v'"
      by (subst (asm) SendPreparedNackBatch.simps) (auto simp: Let_def split: bind_splits)
    obtain s where s: "w = v\<lparr>vr_rtcp_sender := s\<rparr>" using SendNack_core [OF w] by blast
    obtain s' n where "v' = (w\<lparr>vr_nack := OnNackBatchSent now (vr_nack w) ?ids ok\<rparr>)\<lparr>vr_rtcp_sender := s', vr_nack := n\<rparr>"
      using "1.IH" [OF False refl w refl refl r] by blast
    then show ?thesis unfolding s by (intro exI [of _ s'] exI [of _ n]) simp
  qed
qed

lemma SendKeyFrameRequest_core:
  "SendKeyFrameRequest ds now v e = Some (ok, v') \<Longrightarrow> core v' = core v \<and> (vr_awaiting_keyframe v' \<longleftrightarrow> vr_awaiting_keyframe v \<or> e)"
  by (auto simp: SendKeyFrameRequest_def Let_def dest!: send_message_core split: if_splits bind_splits)

lemma RequestKeyFrame_core: "RequestKeyFrame ds now v = Some v' \<Longrightarrow> core v' = core v"
  by (auto simp: RequestKeyFrame_def dest!: SendKeyFrameRequest_core)

lemma ProcessPendingNacks_core: "ProcessPendingNacks ds now v = Some v' \<Longrightarrow> core v' = core v"
  by (auto simp: ProcessPendingNacks_def dest!: SendPreparedNackBatch_core split: if_splits prod.splits)

lemma MaybeRetryKeyFrameRequest_core: "MaybeRetryKeyFrameRequest ds now v = Some v' \<Longrightarrow> core v' = core v"
  by (auto simp: MaybeRetryKeyFrameRequest_def dest!: SendKeyFrameRequest_core split: if_splits)

lemma request_if_due_core: "request_if_due ds now v = Some (ok, v') \<Longrightarrow> core v' = core v \<and> vr_awaiting_keyframe v' = vr_awaiting_keyframe v"
  by (auto simp: request_if_due_def dest!: SendKeyFrameRequest_core split: if_splits)

lemma insert_nack_core: "insert_nack ds now v r m = Some v' \<Longrightarrow> core v' = core v"
  by (auto simp: insert_nack_def Let_def dest!: SendPreparedNackBatch_core RequestKeyFrame_core
      split: if_splits prod.splits bind_splits)

lemma insert_statistics_core: "core (insert_statistics now v r p m q) = core v"
  by (simp add: insert_statistics_def io_calls_def add_received_bytes_def Let_def)

text \<open>A packet changes at most the assembly.\<close>

definition assembly_step :: "timestamp \<Rightarrow> FrameAssembly \<Rightarrow> FrameAssembly \<Rightarrow> bool" where
  "assembly_step now fa fa' \<longleftrightarrow> fa' = fa \<or> (\<exists>q. ProcessH264RtpPacket now fa q = Some fa') \<or>
     (\<exists>q. ProcessAv1RtpPacket now fa q = Some fa')"

abbreviation outcome_of :: "VideoReceiver \<Rightarrow> (u32 \<times> bool \<times> ReceivedFrame) list \<times> u32 option \<times> u32 option \<times> bool" where
  "outcome_of v \<equiv> (vr_delivered v, vr_last_complete_frame_ts v, vr_last_discarded_frame_ts v, vr_on_receive_complete_frame v)"

lemma insert_payload_core:
  "insert_payload ds obj now v m = Some v' \<Longrightarrow> outcome_of v' = outcome_of v \<and> assembly_step now (vr_fa v) (vr_fa v')"
  unfolding insert_payload_def assembly_step_def
  by (fastforce dest!: RequestKeyFrame_core split: if_splits bind_splits)

lemma insert_media_core:
  assumes "insert_media ds obj now v r p m = Some v'"
  shows "outcome_of v' = outcome_of v \<and> assembly_step now (vr_fa v) (vr_fa v')"
proof -
  have refl: "assembly_step now fa fa" for fa by (simp add: assembly_step_def)
  obtain ok received where b: "RtpPacket_Build new_RtpPacket (rp_buffer m) (rp_size m) = Some (ok, received)"
    using assms by (auto simp: insert_media_def Let_def split: bind_splits)
  define v0 where "v0 = (if r then count rc_accepted_rtx_packets_update v else v)"
  define v1 where "v1 = insert_statistics now v0 r p m (received\<lparr>rp_abs_send_time_ext_id := vr_abs_send_time_ext_id v0\<rparr>)"
  define v2 where "v2 = (if \<not> r then v1\<lparr>vr_calls := vr_calls v1 @
    [CcOnReceivedPacket (received\<lparr>rp_abs_send_time_ext_id := vr_abs_send_time_ext_id v0\<rparr>) now]\<rparr> else v1)"
  have v0: "core v0 = core v" by (simp add: v0_def)
  have v1: "core v1 = core v" using v0 insert_statistics_core unfolding v1_def by metis
  have v2: "core v2 = core v" using v1 by (simp add: v2_def)
  define w where "w = (let v = add_received_bytes (v0\<lparr>vr_calls := vr_calls v0 @
    [CcOnReceivedPacket (received\<lparr>rp_abs_send_time_ext_id := vr_abs_send_time_ext_id v0\<rparr>) now]\<rparr>) p in
    io_calls v [UpdateVideoInboundBytes (vr_last_recv_bytes v), IncrementVideoInboundRtpPacketCount])"
  have w: "core w = core v" using v0 by (simp add: w_def Let_def io_calls_def add_received_bytes_def)
  have "\<exists>a b c. Some v' = (if \<not> ok then Some v0 else if a then Some w else if b then Some v1
      else Option.bind (insert_nack ds now v2 r m) (\<lambda>v3. if c then Some v3 else insert_payload ds obj now v3 m))"
    unfolding assms [symmetric] insert_media_def Let_def b Option.bind.bind_lunit prod.case v0_def [symmetric] v1_def [symmetric]
      v2_def [symmetric] w_def [unfolded Let_def, symmetric] by blast
  then consider "core v' = core v" | v3 where "insert_nack ds now v2 r m = Some v3" "v' = v3 \<or> insert_payload ds obj now v3 m = Some v'"
    using v0 v1 w by (fastforce split: if_splits bind_splits)
  then show ?thesis
  proof cases
    case 2
    have "core v3 = core v" using insert_nack_core [OF 2(1)] v2 by simp
    then show ?thesis using 2(2) insert_payload_core [of ds obj now v3 m v'] refl by auto
  qed (simp add: refl)
qed

lemma InsertRtpPacket_core:
  "InsertRtpPacket ds obj now v p = Some v' \<Longrightarrow> outcome_of v' = outcome_of v \<and> assembly_step now (vr_fa v) (vr_fa v')"
  by (auto simp: InsertRtpPacket_def Let_def insert_obsolete_def assembly_step_def dest!: insert_media_core
      split: if_splits bind_splits option.splits)

section \<open>Pending frames are well formed\<close>

definition frames_ok :: "FrameAssembly \<Rightarrow> bool" where
  "frames_ok fa \<longleftrightarrow> (\<forall>e \<in> set (fa_pending fa). pf_is_complete (snd e) \<longrightarrow> pf_frame (snd e) \<noteq> None)"

lemma set_om_insert: "set (om_insert lt k v m) \<subseteq> insert (k, v) (set m)"
proof -
  have "set (om_rest lt k m) \<subseteq> set (from_lower lt k m)" by (cases "from_lower lt k m") (auto simp: om_rest_def)
  then have "set (om_rest lt k m) \<subseteq> set m" by (auto simp: from_lower_def dest: set_dropWhileD)
  then show ?thesis by (auto simp: om_insert_def dest: set_takeWhileD)
qed

lemma om_find_in: "om_find lt k m = Some v \<Longrightarrow> \<exists>k'. (k', v) \<in> set m"
  using set_dropWhileD [of _ "\<lambda>e. lt (fst e) k" m]
  by (fastforce simp: om_find_def from_lower_def split: list.splits if_splits)

lemma TrackPendingFramePacket_frames_ok: "frames_ok fa \<Longrightarrow> frames_ok (TrackPendingFramePacket now fa t s)"
proof -
  assume ok: "frames_ok fa"
  define p where "p = (case om_find RtpTimestampLess t (fa_pending fa) of None \<Rightarrow> new_PendingFrame | Some p \<Rightarrow> p)"
  have "pf_is_complete p \<longrightarrow> pf_frame p \<noteq> None"
    using ok om_find_in [of RtpTimestampLess t "fa_pending fa"]
    by (force simp: p_def frames_ok_def new_PendingFrame_def split: option.splits)
  moreover define p1 where "p1 = (if pf_arrival_time p = 0 then p\<lparr>pf_arrival_time := ms now\<rparr> else p)"
  moreover define p2 where "p2 = (case pf_last_sequence_number p1 of None \<Rightarrow> p1\<lparr>pf_last_sequence_number := Some s\<rparr>
    | Some l \<Rightarrow> if AheadOf 0 s l then p1\<lparr>pf_last_sequence_number := Some s\<rparr> else p1)"
  moreover have "fa_pending (TrackPendingFramePacket now fa t s) = om_insert RtpTimestampLess t p2 (fa_pending fa)"
    unfolding TrackPendingFramePacket_def Let_def p2_def p1_def p_def by simp
  moreover have "pf_is_complete p2 = pf_is_complete p" "pf_frame p2 = pf_frame p"
    by (simp_all add: p2_def p1_def split: option.split)
  ultimately show ?thesis using ok set_om_insert unfolding frames_ok_def by fastforce
qed

lemma CommitPendingFrame_frames_ok: "frames_ok fa \<Longrightarrow> frames_ok (CommitPendingFrame now fa t f k e r)"
  using set_om_insert [of RtpTimestampLess t _ "fa_pending fa"]
  by (fastforce simp: CommitPendingFrame_def Let_def frames_ok_def)

lemma frames_ok_pending: "fa_pending fa' = fa_pending fa \<Longrightarrow> frames_ok fa' = frames_ok fa"
  by (simp add: frames_ok_def)

lemma foldM_keeps:
  assumes "foldM f xs s = Some s'" and "\<And>x s s'. f x s = Some s' \<Longrightarrow> P s' = P s"
  shows "P s' = P s"
  using assms(1) by (induction xs arbitrary: s) (auto simp: assms(2) split: bind_splits)

lemma pop_step_pending:
  "pop_h264 a i s = Some s' \<Longrightarrow> fa_pending (snd s') = fa_pending (snd s)"
  "pop_av1 a i s = Some s' \<Longrightarrow> fa_pending (snd s') = fa_pending (snd s)"
  by (auto simp: pop_h264_def pop_av1_def split: bind_splits option.splits prod.splits)

lemma pop_loops_pending:
  "foldM (pop_h264 a) xs (d, fa) = Some (d', fa') \<Longrightarrow> fa_pending fa' = fa_pending fa"
  "foldM (pop_av1 a) xs (d, fa) = Some (d', fa') \<Longrightarrow> fa_pending fa' = fa_pending fa"
  using foldM_keeps [of "pop_h264 a" xs "(d, fa)" "(d', fa')" "\<lambda>s. fa_pending (snd s)", OF _ pop_step_pending(1)]
    foldM_keeps [of "pop_av1 a" xs "(d, fa)" "(d', fa')" "\<lambda>s. fa_pending (snd s)", OF _ pop_step_pending(2)]
  by simp_all

lemma CreateReceivedFrame_pending: "CreateReceivedFrame now fa d t = (f, fa') \<Longrightarrow> fa_pending fa' = fa_pending fa"
  by (auto simp: CreateReceivedFrame_def split: prod.splits)

lemma EnsureFrameBufferCapacity_pending [simp]: "fa_pending (EnsureFrameBufferCapacity fa n) = fa_pending fa"
  by (simp add: EnsureFrameBufferCapacity_def split: option.split)

lemma finish_frames_ok:
  assumes "frames_ok fa" and "CreateReceivedFrame now fa d t = (f, fa')"
  shows "frames_ok (CommitPendingFrame now (ClearFrameMarkers fa' t) t f k e r)" "frames_ok (CommitPendingFrame now fa' t f k e r)"
  using assms frames_ok_pending [OF CreateReceivedFrame_pending [OF assms(2)]]
    frames_ok_pending [of "ClearFrameMarkers fa' t" fa'] CommitPendingFrame_frames_ok
  by (simp_all add: ClearFrameMarkers_def)

lemma mark_frame_frames_ok: "frames_ok fa \<Longrightarrow> frames_ok (mark_frame now fa t n s x)"
  using TrackPendingFramePacket_frames_ok frames_ok_pending [of "mark_frame now fa t n s x" "TrackPendingFramePacket now fa t n"]
  by simp

lemma PopCompleteFrame_frames_ok:
  assumes "PopCompleteFrame now fa a e c t = Some fa'" and "frames_ok fa"
  shows "frames_ok fa'"
proof -
  obtain d0 d fa1 n f fa2 k where 1: "foldM (pop_h264 a) [0..<c] (d0, EnsureFrameBufferCapacity fa n) = Some (d, fa1)"
    "CreateReceivedFrame now fa1 d t = (f, fa2)" "fa' = CommitPendingFrame now (ClearFrameMarkers fa2 t) t f k e True"
    using assms(1) unfolding PopCompleteFrame_def Let_def by (auto split: bind_splits prod.splits)
  have "frames_ok fa1" using frames_ok_pending [of fa1 fa] pop_loops_pending(1) [OF 1(1)] assms(2) by simp
  then show ?thesis using 1(2,3) finish_frames_ok(1) by simp
qed

lemma pop_av1_frame_frames_ok:
  assumes "pop_av1_frame now fa a e c t = Some fa'" and "frames_ok fa"
  shows "frames_ok fa'"
proof -
  obtain d d' fa1 n f fa2 k where 1: "foldM (pop_av1 a) [0..<c] ([], EnsureFrameBufferCapacity fa n) = Some (d, fa1)"
    "CreateReceivedFrame now fa1 d' t = (f, fa2)" "fa' = CommitPendingFrame now (ClearFrameMarkers fa2 t) t f k e True"
    using assms(1) unfolding pop_av1_frame_def Let_def by (auto split: bind_splits prod.splits)
  have "frames_ok fa1" using frames_ok_pending [of fa1 fa] pop_loops_pending(2) [OF 1(1)] assms(2) by simp
  then show ?thesis using 1(2,3) finish_frames_ok(1) by simp
qed

lemma ProcessH264RtpPacket_frames_ok:
  assumes "ProcessH264RtpPacket now fa q = Some fa'" and "frames_ok fa"
  shows "frames_ok fa'"
proof -
  let ?t = "rp_timestamp (h264_packet q)" and ?n = "rp_sequence_number (h264_packet q)"
  let ?fa = "fa\<lparr>fa_h264 := (fa_h264 fa)(?n \<mapsto> q)\<rparr>"
  let ?m = "mark_frame now ?fa ?t ?n (fuh_start q) (fuh_end q)"
  have m: "frames_ok ?m" using assms(2) by (intro mark_frame_frames_ok) (simp add: frames_ok_def)
  show ?thesis
  proof (cases "fui_nal_unit_type q = NAL_NALU")
    case True
    then obtain d f fa1 k where 1: "CreateReceivedFrame now fa d ?t = (f, fa1)" "fa' = CommitPendingFrame now fa1 ?t f k ?n False"
      using assms(1) by (simp add: ProcessH264RtpPacket_def Let_def) (auto split: bind_splits prod.splits)
    then show ?thesis using finish_frames_ok(2) [OF assms(2) 1(1)] by simp
  next
    case False
    show ?thesis
    proof (cases "fui_nal_unit_type q = NAL_FU_A")
      case True
      with False assms(1) have "CheckIsH264FrameCompleted now ?fa q (fuh_start q) (fuh_end q) = Some fa'"
        by (simp add: ProcessH264RtpPacket_def Let_def)
      then have "fa' = ?m \<or> (\<exists>a e c. PopCompleteFrame now ?m a e c ?t = Some fa')"
        using h264_check [OF refl refl, where now = now and fa = ?fa and q = q and s = "fuh_start q" and x = "fuh_end q"]
        by (metis option.inject)
      then show ?thesis using m PopCompleteFrame_frames_ok by blast
    next
      case other: False
      with False assms show ?thesis by (simp add: ProcessH264RtpPacket_def Let_def)
    qed
  qed
qed

lemma ProcessAv1RtpPacket_frames_ok:
  assumes "ProcessAv1RtpPacket now fa q = Some fa'" and "frames_ok fa"
  shows "frames_ok fa'"
proof -
  let ?t = "rp_timestamp (av1_packet q)" and ?n = "rp_sequence_number (av1_packet q)"
  let ?fa = "fa\<lparr>fa_av1 := (fa_av1 fa)(?n \<mapsto> q)\<rparr>"
  let ?m = "mark_frame now ?fa ?t ?n (Av1FrameStart q) (Av1FrameEnd q)"
  have m: "frames_ok ?m" using assms(2) by (intro mark_frame_frames_ok) (simp add: frames_ok_def)
  have "CheckIsAv1FrameCompleted now ?fa q = Some fa'" using assms(1) by (simp add: ProcessAv1RtpPacket_def)
  then have "fa' = ?m \<or> (\<exists>a e c. pop_av1_frame now ?m a e c ?t = Some fa')"
    using av1_check [OF refl refl, where now = now and fa = ?fa and q = q] by (metis option.inject)
  then show ?thesis using m pop_av1_frame_frames_ok by blast
qed

lemma assembly_step_frames_ok: "assembly_step now fa fa' \<Longrightarrow> frames_ok fa \<Longrightarrow> frames_ok fa'"
  using ProcessH264RtpPacket_frames_ok ProcessAv1RtpPacket_frames_ok by (auto simp: assembly_step_def)

section \<open>Iterations of the worker\<close>

definition ahead_of_decoded :: "VideoReceiver \<Rightarrow> u32 \<Rightarrow> bool" where
  "ahead_of_decoded v t \<longleftrightarrow> (\<forall>l. vr_last_complete_frame_ts v = Some l \<longrightarrow> AheadOf 0 t l)"

lemma drop_first_same [simp]: "vr_delivered (drop_first v t) = vr_delivered v"
  "vr_last_complete_frame_ts (drop_first v t) = vr_last_complete_frame_ts v"
  "vr_last_discarded_frame_ts (drop_first v t) = vr_last_discarded_frame_ts v"
  "vr_on_receive_complete_frame (drop_first v t) = vr_on_receive_complete_frame v"
  "vr_rtcp_sender (drop_first v t) = vr_rtcp_sender v" "vr_rtcp_stop (drop_first v t) = vr_rtcp_stop v"
  "vr_next_keyframe_request_ms (drop_first v t) = vr_next_keyframe_request_ms v"
  "vr_awaiting_keyframe (drop_first v t) = vr_awaiting_keyframe v"
  by (simp_all add: drop_first_def Let_def)

lemma MarkFrameDiscarded_same [simp]: "vr_fa (MarkFrameDiscarded v t) = vr_fa v" "vr_delivered (MarkFrameDiscarded v t) = vr_delivered v"
  "vr_last_complete_frame_ts (MarkFrameDiscarded v t) = vr_last_complete_frame_ts v"
  "vr_on_receive_complete_frame (MarkFrameDiscarded v t) = vr_on_receive_complete_frame v"
  "vr_awaiting_keyframe (MarkFrameDiscarded v t) = vr_awaiting_keyframe v"
  "vr_rtcp_sender (MarkFrameDiscarded v t) = vr_rtcp_sender v" "vr_rtcp_stop (MarkFrameDiscarded v t) = vr_rtcp_stop v"
  "vr_next_keyframe_request_ms (MarkFrameDiscarded v t) = vr_next_keyframe_request_ms v"
  by (simp_all add: MarkFrameDiscarded_def split: option.split)

lemma update_first_same [simp]: "vr_delivered (update_first f v) = vr_delivered v"
  "vr_last_complete_frame_ts (update_first f v) = vr_last_complete_frame_ts v"
  "vr_last_discarded_frame_ts (update_first f v) = vr_last_discarded_frame_ts v"
  "vr_on_receive_complete_frame (update_first f v) = vr_on_receive_complete_frame v"
  "vr_awaiting_keyframe (update_first f v) = vr_awaiting_keyframe v" "vr_rtcp_sender (update_first f v) = vr_rtcp_sender v"
  "vr_next_keyframe_request_ms (update_first f v) = vr_next_keyframe_request_ms v"
  by (simp_all add: update_first_def)

text \<open>An iteration that delivers nothing, and one that delivers.\<close>

definition held :: "VideoReceiver \<Rightarrow> VideoReceiver \<Rightarrow> bool" where
  "held v v' \<longleftrightarrow> vr_delivered v' = vr_delivered v \<and> vr_last_complete_frame_ts v' = vr_last_complete_frame_ts v \<and>
     vr_on_receive_complete_frame v' = vr_on_receive_complete_frame v \<and> (frames_ok (vr_fa v) \<longrightarrow> frames_ok (vr_fa v'))"

lemma held_cong: "core w' = core w \<Longrightarrow> held v w \<Longrightarrow> held v w'"
  by (simp add: held_def)

lemma held_refl: "core w = core v \<Longrightarrow> held v w"
  by (simp add: held_def)

lemma held_drop: "held v w \<Longrightarrow> held v (drop_first w t)"
  by (cases "fa_pending (vr_fa w)") (auto simp: held_def frames_ok_def)

lemma held_update:
  "(\<And>p. pf_is_complete (f p) = pf_is_complete p \<and> pf_frame (f p) = pf_frame p) \<Longrightarrow> held v (update_first f v)"
  by (cases "fa_pending (vr_fa v)") (auto simp: held_def frames_ok_def update_first_def)

lemma process_deadlines_held:
  assumes "process_deadlines ds timing now v t p = Some (out, v')"
  shows "held v v' \<and> out \<noteq> Continue"
proof -
  have m: "held v (MarkFrameDiscarded (clear_nacks (v\<lparr>vr_awaiting_keyframe := True\<rparr>) p) t)" by (simp add: held_def)
  have d: "held v (count rc_hard_timeouts_update (drop_first (MarkFrameDiscarded (clear_nacks (v\<lparr>vr_awaiting_keyframe := True\<rparr>) p) t) t))"
    by (rule held_cong [OF _ held_drop [OF m]]) simp
  have u: "held v (update_first (pf_recovery_escalated_update (\<lambda>_. True)) v)"
    "held v (update_first (pf_soft_fir_requested_update (\<lambda>_. True)) v)"
    by (simp_all add: held_update)
  show ?thesis
    using assms d u held_refl [of v v] unfolding process_deadlines_def Let_def
    by (auto simp: held_def dest!: request_if_due_core split: if_splits bind_splits)
qed

lemma process_step_cases:
  assumes "process_step ds timing now v = Some (out, v')"
  obtains (deliver) t p rest w where "fa_pending (vr_fa v) = (t, p) # rest" "pf_is_complete p" "ahead_of_decoded v t"
      "vr_awaiting_keyframe v \<longrightarrow> pf_is_keyframe p" "\<not> vr_awaiting_keyframe v \<longrightarrow> \<not> has_blocking_nacks v p"
      "core w = core v" "\<not> vr_awaiting_keyframe w" "v' = deliver_first now w t p" "out = Continue"
  | (hold) "held v v'"
proof (cases "fa_pending (vr_fa v)")
  case Nil
  with assms show ?thesis by (auto simp: process_step_def intro: hold held_refl)
next
  case (Cons e rest)
  obtain t p where e: "e = (t, p)" by fastforce
  let ?c = "clear_nacks (v\<lparr>vr_awaiting_keyframe := False\<rparr>) p"
  have d: "held v (drop_first v t)" "held v (drop_first (v\<lparr>vr_awaiting_keyframe := True\<rparr>) t)"
    by (rule held_drop, simp add: held_def)+
  have c: "core ?c = core v" "\<not> vr_awaiting_keyframe ?c" by simp_all
  consider "held v v'" | "ahead_of_decoded v t" "pf_is_complete p" "vr_awaiting_keyframe v" "pf_is_keyframe p" "v' = deliver_first now ?c t p" "out = Continue"
    | "ahead_of_decoded v t" "pf_is_complete p" "\<not> vr_awaiting_keyframe v" "\<not> has_blocking_nacks v p" "v' = deliver_first now v t p" "out = Continue"
    using assms d process_deadlines_held [of ds timing now v t p out v']
    unfolding process_step_def Cons e list.case prod.case Let_def ahead_of_decoded_def
    by (auto split: if_splits option.splits)
  then show ?thesis
  proof cases
    case 2
    then show ?thesis using c Cons e by (intro deliver [of t p rest ?c]) simp_all
  next
    case 3
    then show ?thesis using Cons e by (intro deliver [of t p rest v]) simp_all
  qed (rule hold)
qed

lemma deliver_first_outcome:
  assumes "pf_frame p \<noteq> None"
  shows "vr_delivered (deliver_first now w t p) =
      (if vr_on_receive_complete_frame w then vr_delivered w @ [(t, pf_is_keyframe p, the (pf_frame p))] else vr_delivered w) \<and>
    vr_last_complete_frame_ts (deliver_first now w t p) = Some t \<and>
    vr_on_receive_complete_frame (deliver_first now w t p) = vr_on_receive_complete_frame w"
  using assms by (auto simp: deliver_first_def Let_def)

section \<open>Order of delivery\<close>

definition delivery_ok :: "VideoReceiver \<Rightarrow> bool" where
  "delivery_ok v \<longleftrightarrow> frames_ok (vr_fa v) \<and> successively (\<lambda>a b. AheadOf 0 (fst b) (fst a)) (vr_delivered v) \<and>
     (vr_delivered v \<noteq> [] \<longrightarrow> vr_on_receive_complete_frame v \<and>
       vr_last_complete_frame_ts v = Some (fst (last (vr_delivered v))))"

lemma delivery_ok_cong: "core v' = core v \<Longrightarrow> delivery_ok v \<Longrightarrow> delivery_ok v'"
  by (simp add: delivery_ok_def)

lemma process_step_delivery_ok:
  assumes "process_step ds timing now v = Some (out, v')" and "delivery_ok v"
  shows "delivery_ok v'"
  using assms(1)
proof (cases rule: process_step_cases)
  case (deliver t p rest w)
  have f: "pf_frame p \<noteq> None" using assms(2) deliver(1,2) by (auto simp: delivery_ok_def frames_ok_def)
  have "frames_ok (vr_fa v')" using assms(2) deliver(1,6,8) by (auto simp: delivery_ok_def frames_ok_def)
  moreover have "AheadOf 0 t (fst (last (vr_delivered v)))" if "vr_delivered v \<noteq> []"
    using that assms(2) deliver(3) by (auto simp: delivery_ok_def ahead_of_decoded_def)
  ultimately show ?thesis
    using assms(2) deliver(6) deliver_first_outcome [OF f, of now w t] unfolding deliver(8)
    by (auto simp: delivery_ok_def successively_append_iff)
qed (use assms(2) in \<open>simp add: delivery_ok_def held_def\<close>)

lemma rx_reachable_delivery_ok: "rx_reachable v \<Longrightarrow> delivery_ok v"
proof (induction rule: rx_reachable.induct)
  case (insert v ds obj now p v')
  then show ?case
    using InsertRtpPacket_core [OF insert.hyps(2)] assembly_step_frames_ok by (auto simp: delivery_ok_def)
next
  case (media v ds obj now is_recovered p media_packet v')
  then show ?case
    using insert_media_core [OF media.hyps(2)] assembly_step_frames_ok by (auto simp: delivery_ok_def)
next
  case (payload v ds obj now media_packet v')
  then show ?case
    using insert_payload_core [OF payload.hyps(2)] assembly_step_frames_ok by (auto simp: delivery_ok_def)
next
  case (worker v ds timing now out v')
  then show ?case using process_step_delivery_ok by blast
next
  case (report v junk obj now elapsed d v')
  then show ?case by (auto simp: RtcpThread_turn_def delivery_ok_def split: if_splits bind_splits)
next
  case (request v ds now v')
  then show ?case using delivery_ok_cong RequestKeyFrame_core by blast
next
  case (nacks v ds now v')
  then show ?case using delivery_ok_cong ProcessPendingNacks_core by blast
next
  case (retry v ds now v')
  then show ?case using delivery_ok_cong MaybeRetryKeyFrameRequest_core by blast
qed (auto simp: delivery_ok_def frames_ok_def new_VideoReceiver_def new_FrameAssembly_def SetMediaConfig_def Let_def
    SetOnReceiveCompleteFrame_def SetAbsoluteSendTimeExtensionId_def OnRttUpdate_def OnSenderReport_def StopRtcp_def
    MaybeLogRecoveryStats_def split: option.split)

end
