(* ===== verification/ReceiverProps.thy ===== *)
theory ReceiverProps
  imports VideoReceiver
begin

text \<open>
  What the video receiver guarantees: memory safety of ingestion, order of delivery, the key-frame
  gate, deadlines, finality of abandoned frames, pacing of key-frame requests and the size of NACK
  datagrams.
\<close>

section \<open>Feedback\<close>

text \<open>Between two messages nothing is pending in the RTCP sender.\<close>

definition sender_idle :: "VideoReceiver \<Rightarrow> bool" where
  "sender_idle v \<longleftrightarrow> (let s = vr_rtcp_sender v in sender_inv s \<and> snd_index s = 0 \<and> snd_pending_send_successful s \<and>
     snd_max_packet_size s = 1200)"

text \<open>A concrete receiver, and a packet with a frame of four bytes.\<close>

definition example_receiver :: VideoReceiver where
  "example_receiver = SetOnReceiveCompleteFrame (SetMediaConfig (new_VideoReceiver 7 (replicate 1500 0) False 0) 1 2 96)"

definition example_packet :: RtpPacket where
  "example_packet = snd (the (RtpPacket_Build new_RtpPacket [128, 224, 0, 1, 0, 1, 0, 0, 0, 0, 0, 1, 0x61, 9, 8, 7] 16))"

definition example_object :: RtpPacketH264 where
  "example_object = \<lparr>h264_packet = new_RtpPacket, h264_osn = 0, fui_forbidden_bit = 0, fui_nal_reference_idc = 0,
     fui_nal_unit_type = 0, fuh_start = False, fuh_end = False, fuh_remain_bit = False, fuh_nal_unit_type = 0, fu_info_got = False\<rparr>"

definition example_received :: VideoReceiver where
  "example_received = the (InsertRtpPacket None example_object 0 example_receiver example_packet)"

definition example_delivered :: VideoReceiver where
  "example_delivered = snd (the (process_step None (GetFrameRecoveryTiming example_receiver) 0 example_received))"

lemma send_message_total:
  assumes "sender_idle v"
  shows "\<exists>ok v'. send_message ds v m = Some (ok, v') \<and> sender_idle v'"
proof -
  let ?s = "vr_rtcp_sender v" and ?f = "rtcp_callback ds v"
  have "sender_inv ?s" "sender_pending ?s = concat []" using assms by (simp_all add: sender_idle_def Let_def)
  then obtain s1 pend where 1: "AppendPacket (Some ?f) (message_Create m) ?s = Some s1" "sender_inv s1" "sender_pending s1 = concat pend"
    "snd_max_packet_size s1 = snd_max_packet_size ?s"
    using AppendPacket_message [of ?s "[]" ?f m] by blast
  obtain s2 ok where 2: "Send (Some ?f) s1 = Some (ok, s2)" "snd_index s2 = 0"
    using Send_flush [OF 1(2,3), of ?f] by blast
  have "sender_inv s2" "snd_max_packet_size s2 = snd_max_packet_size s1" "snd_pending_send_successful s2"
    using 2 1(2) by (auto simp: Send_def SendBuffer_def Let_def sender_inv_def split: if_splits bind_splits)
  with 1(1,4) 2 assms show ?thesis by (simp add: send_message_def sender_idle_def Let_def)
qed

text \<open>A message of one block goes out as one datagram.\<close>

lemma send_message_block:
  assumes "sender_idle v" and "message_fits m 1200" and "\<And>bs. message_represents m bs \<Longrightarrow> bs = [b]" and "b \<noteq> []"
  shows "\<exists>v'. send_message ds v m = Some (0 \<le> rtcp_callback ds v b, v') \<and> sender_idle v' \<and>
    snd_sent (vr_rtcp_sender v') = snd_sent (vr_rtcp_sender v) @ [b] \<and> length b \<le> 1200"
proof -
  let ?s = "vr_rtcp_sender v" and ?f = "rtcp_callback ds v"
  have s: "sender_inv ?s" "sender_pending ?s = concat []" "snd_max_packet_size ?s = 1200" "snd_pending_send_successful ?s"
    using assms(1) by (simp_all add: sender_idle_def Let_def)
  obtain s' gs where r: "send_all (Some ?f) [m] ?s = Some (\<forall>g \<in> set gs. callback_ok (Some ?f) (concat g), s')"
    "snd_sent s' = snd_sent ?s @ map concat gs" "sends 1200 [m] [] gs"
    using send_all_correct [OF s(1,2), of ?f "[m]"] s(3,4) assms(2) by auto
  obtain bss where b: "concat bss = concat gs" "list_all2 (\<lambda>p bs. if message_fits p 1200 then message_represents p bs else bs = []) [m] bss"
    and g: "\<forall>g \<in> set gs. concat g \<noteq> [] \<and> length (concat g) \<le> 1200"
    using r(3) unfolding sends_def by auto
  from b(2) assms(2,3) have "bss = [[b]]" by (cases bss) auto
  with b(1) have "concat gs = [b]" by simp
  moreover have "\<forall>g \<in> set gs. g \<noteq> []" using g by auto
  ultimately have "gs = [[b]]" by (cases gs; cases "tl gs"; cases "hd gs") auto
  moreover obtain ok v' where "send_message ds v m = Some (ok, v')" "sender_idle v'" using send_message_total [OF assms(1)] by blast
  moreover have "send_message ds v m = Some (\<forall>g \<in> set gs. callback_ok (Some ?f) (concat g), v\<lparr>vr_rtcp_sender := s'\<rparr>)"
    using r(1) unfolding send_message_def by (simp del: send_all.simps)
  ultimately show ?thesis using r(2) g by (auto simp: callback_ok_def)
qed

lemma nack_create_single:
  assumes "packed n \<noteq> []" and "length (packed n) \<le> 256" and "w_index w = 0" and "1200 \<le> length (w_packet w)"
  shows "\<exists>p. put (w_packet w) 0 (nack_block n (packed n)) = Some p \<and>
    Nack_Create n 1200 w = Some (True, w\<lparr>w_packet := p, w_index := length (nack_block n (packed n))\<rparr>)"
proof -
  have "w_index w + length (nack_block n (packed n)) \<le> length (w_packet w)" using assms(2-4) by simp
  from write_nack_block_put [OF this] obtain p where p: "put (w_packet w) 0 (nack_block n (packed n)) = Some p"
    "write_nack_block n (packed n) w = Some (w\<lparr>w_packet := p, w_index := length (nack_block n (packed n))\<rparr>)"
    using assms(3) by auto
  have "nack_fields 1200 (length (packed n)) = length (packed n)" using assms(2) by (simp add: nack_fields_def feedback_consts)
  with p assms(1,3) show ?thesis
    by (simp add: Nack_Create_def nack_create_loop.simps [of n 1200 "packed n"] nack_create_loop.simps [of n 1200 "[]"]
        feedback_consts del: nack_block_length)
qed

lemma send_nack_block:
  assumes "sender_idle v" and "packed n \<noteq> []" and "length (packed n) \<le> 256"
  shows "\<exists>v'. send_message ds v (MNack n) = Some (0 \<le> rtcp_callback ds v (nack_block n (packed n)), v') \<and> sender_idle v' \<and>
    snd_sent (vr_rtcp_sender v') = snd_sent (vr_rtcp_sender v) @ [nack_block n (packed n)]"
proof -
  let ?s = "vr_rtcp_sender v" and ?f = "rtcp_callback ds v" and ?b = "nack_block n (packed n)"
  let ?w = "\<lparr>w_packet = snd_buffer ?s, w_index = 0, w_ready = []\<rparr>"
  have s: "snd_max_packet_size ?s = 1200" "snd_pending_send_successful ?s" "snd_index ?s = 0" "length (snd_buffer ?s) = 1500"
    using assms(1) by (simp_all add: sender_idle_def Let_def sender_inv_def IP_PACKET_SIZE_def)
  obtain p where p: "put (snd_buffer ?s) 0 ?b = Some p" "Nack_Create n 1200 ?w = Some (True, ?w\<lparr>w_packet := p, w_index := length ?b\<rparr>)"
    using nack_create_single [OF assms(2,3), of ?w] s(4) by auto
  have "seg p 0 (length ?b) = Some ?b" by (rule seg_put_same [OF p(1)])
  moreover have "AppendPacket (Some ?f) (message_Create (MNack n)) ?s = Some (?s\<lparr>snd_buffer := p, snd_index := length ?b\<rparr>)"
    using p(2) s by (simp add: AppendPacket_def del: nack_block_length)
  ultimately have "send_message ds v (MNack n) = Some (0 \<le> ?f ?b, v\<lparr>vr_rtcp_sender := ?s\<lparr>snd_buffer := p, snd_index := 0,
      snd_sent := snd_sent ?s @ [?b], snd_pending_send_successful := True\<rparr>\<rparr>)"
    using s(2) by (auto simp: send_message_def Send_def SendBuffer_def Let_def simp del: nack_block_length)
  moreover obtain ok v' where "send_message ds v (MNack n) = Some (ok, v')" "sender_idle v'"
    using send_message_total [OF assms(1)] by blast
  ultimately show ?thesis by auto
qed

lemma sender_idle_cong: "vr_rtcp_sender v' = vr_rtcp_sender v \<Longrightarrow> sender_idle v' = sender_idle v"
  by (simp add: sender_idle_def)

lemma SendNack_total: "sender_idle v \<Longrightarrow> \<exists>ok v'. SendNack ds v ids = Some (ok, v') \<and> sender_idle v'"
  using send_message_total by (auto simp: SendNack_def)

lemma SendPreparedNackBatch_total: "sender_idle v \<Longrightarrow> \<exists>v'. SendPreparedNackBatch ds now v ids = Some v' \<and> sender_idle v'"
proof (induction ds now v ids rule: SendPreparedNackBatch.induct)
  case (1 ds now v ids)
  let ?b = "take kMaxNackIdsPerRtcpPacket ids"
  obtain ok w where w: "SendNack ds v ?b = Some (ok, w)" "sender_idle w" using SendNack_total [OF "1.prems"] by blast
  show ?case
  proof (cases "ids = []")
    case False
    have "sender_idle (w\<lparr>vr_nack := OnNackBatchSent now (vr_nack w) ?b ok\<rparr>)" using w(2) by (simp add: sender_idle_def)
    from "1.IH" [OF False refl w(1) refl refl this] w(1) False show ?thesis
      by (subst SendPreparedNackBatch.simps) (simp add: Let_def)
  qed (use "1.prems" in \<open>simp add: SendPreparedNackBatch.simps\<close>)
qed

lemma SendKeyFrameRequest_total:
  assumes "sender_idle v"
  shows "\<exists>ok v'. SendKeyFrameRequest ds now v e = Some (ok, v') \<and> sender_idle v'"
proof -
  let ?v = "if e then v\<lparr>vr_awaiting_keyframe := True\<rparr> else v"
  let ?w = "?v\<lparr>vr_sequence_number_fir := vr_sequence_number_fir ?v + 1\<rparr>"
  have "sender_idle ?w" "sender_idle ?v" using assms by (simp_all add: sender_idle_def)
  moreover from this(1) obtain ok v' where "send_message ds ?w (MFir (AddRequestTo (new_Fir\<lparr>fir_sender_ssrc := vr_ssrc ?w\<rparr>)
      (vr_remote_ssrc ?w) (vr_sequence_number_fir ?w))) = Some (ok, v')" "sender_idle v'"
    using send_message_total by blast
  ultimately show ?thesis by (auto simp: SendKeyFrameRequest_def Let_def sender_idle_def)
qed

lemma RequestKeyFrame_total: "sender_idle v \<Longrightarrow> \<exists>v'. RequestKeyFrame ds now v = Some v' \<and> sender_idle v'"
  using SendKeyFrameRequest_total [of v ds now True] by (auto simp: RequestKeyFrame_def)

lemma request_if_due_total: "sender_idle v \<Longrightarrow> \<exists>ok v'. request_if_due ds now v = Some (ok, v') \<and> sender_idle v'"
  using SendKeyFrameRequest_total [of v ds now False] by (auto simp: request_if_due_def)

lemma ProcessPendingNacks_total: "sender_idle v \<Longrightarrow> \<exists>v'. ProcessPendingNacks ds now v = Some v' \<and> sender_idle v'"
proof -
  assume v: "sender_idle v"
  then have "sender_idle (v\<lparr>vr_nack := n\<rparr>)" for n by (simp add: sender_idle_def)
  with v SendPreparedNackBatch_total show ?thesis by (auto simp: ProcessPendingNacks_def split: prod.splits)
qed

lemma MaybeRetryKeyFrameRequest_total:
  "sender_idle v \<Longrightarrow> \<exists>v'. MaybeRetryKeyFrameRequest ds now v = Some v' \<and> sender_idle v'"
  using SendKeyFrameRequest_total [of v ds now False] by (auto simp: MaybeRetryKeyFrameRequest_def)

lemma insert_nack_total: "sender_idle v \<Longrightarrow> \<exists>v'. insert_nack ds now v r m = Some v' \<and> sender_idle v'"
proof -
  assume v: "sender_idle v"
  obtain b n where n: "OnReceivedPacket now (vr_nack v) (rp_sequence_number m) r = (b, n)" by fastforce
  obtain k n' where k: "ConsumeKeyFrameRequest n = (k, n')" by fastforce
  have "sender_idle (v\<lparr>vr_nack := n'\<rparr>)" using v by (simp add: sender_idle_def)
  then obtain v1 where v1: "SendPreparedNackBatch ds now (v\<lparr>vr_nack := n'\<rparr>) b = Some v1" "sender_idle v1"
    using SendPreparedNackBatch_total by blast
  show ?thesis using v v1 RequestKeyFrame_total [OF v1(2), of ds now] by (auto simp: insert_nack_def Let_def n k)
qed

lemma OnCompleteKeyFrame_idle [simp]: "sender_idle (OnCompleteKeyFrame v m) = sender_idle v"
  "sender_idle (count f v) = sender_idle v" "sender_idle (clear_nacks v p) = sender_idle v"
  "sender_idle (drop_first v t) = sender_idle v" "sender_idle (MarkFrameDiscarded v t) = sender_idle v"
  "sender_idle (update_first g v) = sender_idle v" "sender_idle (v\<lparr>vr_awaiting_keyframe := b\<rparr>) = sender_idle v"
  by (simp_all add: sender_idle_def)

lemma deliver_first_idle [simp]: "sender_idle (deliver_first now v t p) = sender_idle v"
  by (simp add: deliver_first_def Let_def sender_idle_def split: option.split)

section \<open>The worker returns\<close>

lemma process_deadlines_total:
  assumes "sender_idle v"
  shows "\<exists>out v'. process_deadlines ds timing now v t p = Some (out, v') \<and> sender_idle v'"
proof -
  let ?w = "count rc_hard_timeouts_update (drop_first (MarkFrameDiscarded (clear_nacks (v\<lparr>vr_awaiting_keyframe := True\<rparr>) p) t) t)"
    and ?u = "update_first (pf_soft_fir_requested_update (\<lambda>_. True)) v"
  have "sender_idle ?w" "sender_idle ?u" using assms by simp_all
  then show ?thesis
    using assms request_if_due_total [of ?w ds now] request_if_due_total [of ?u ds now]
    unfolding process_deadlines_def Let_def by auto
qed

lemma process_step_total: "sender_idle v \<Longrightarrow> \<exists>out v'. process_step ds timing now v = Some (out, v') \<and> sender_idle v'"
  using process_deadlines_total by (cases "fa_pending (vr_fa v)") (auto simp: process_step_def Let_def split: prod.splits)

text \<open>
  What the worker has nothing to do with at a time: no frame is pending, or the first frame is newer
  than the last delivered one, no complete key frame behind it allows to skip it, it is incomplete or
  blocked by outstanding NACKs, and none of its deadlines asks for an action.
\<close>

definition nothing_due :: "FrameRecoveryTiming \<Rightarrow> timestamp \<Rightarrow> VideoReceiver \<Rightarrow> bool" where
  "nothing_due timing now v \<longleftrightarrow>
     (case fa_pending (vr_fa v) of [] \<Rightarrow> True
      | (t, p) # rest \<Rightarrow>
        let frame_age_ms = ms now - pf_arrival_time p in
        ahead_of_decoded v t \<and>
        \<not> ((vr_awaiting_keyframe v \<or> pf_recovery_escalated p) \<and> \<not> (pf_is_complete p \<and> pf_is_keyframe p) \<and>
          list_ex complete_keyframe rest) \<and>
        \<not> (pf_is_complete p \<and> (vr_awaiting_keyframe v \<or> \<not> has_blocking_nacks v p)) \<and>
        frame_age_ms \<le> hard_deadline_ms timing \<and>
        (pf_recovery_escalated p \<or> frame_age_ms \<le> soft_deadline_ms timing) \<and>
        (\<not> pf_recovery_escalated p \<or> pf_soft_fir_requested p \<or>
          frame_age_ms \<le> soft_deadline_ms timing + soft_fir_confirmation_delay_ms timing))"

text \<open>
  What a deadline does: the first frame was given up, so that fewer than \<open>n\<close> frames are left and only
  a key frame is accepted, or the first frame is late and marked as such.
\<close>

definition deadline_acted :: "FrameRecoveryTiming \<Rightarrow> timestamp \<Rightarrow> nat \<Rightarrow> VideoReceiver \<Rightarrow> bool" where
  "deadline_acted timing now n v \<longleftrightarrow>
     vr_awaiting_keyframe v \<and> length (fa_pending (vr_fa v)) < n \<or>
     (case fa_pending (vr_fa v) of [] \<Rightarrow> False
      | (t, p) # rest \<Rightarrow>
        let frame_age_ms = ms now - pf_arrival_time p in
        pf_recovery_escalated p \<and>
        (frame_age_ms > soft_deadline_ms timing \<or>
         pf_soft_fir_requested p \<and> frame_age_ms > soft_deadline_ms timing + soft_fir_confirmation_delay_ms timing))"

lemma process_step_break:
  assumes "process_step ds timing now v = Some (Break, v')"
  shows "v' = v \<and> nothing_due timing now v"
proof (cases "fa_pending (vr_fa v)")
  case (Cons e rest)
  obtain t p where e: "e = (t, p)" by fastforce
  show ?thesis
    using assms unfolding process_step_def Cons e list.case prod.case Let_def process_deadlines_def ahead_of_decoded_def nothing_due_def
    by (auto split: if_splits option.splits bind_splits)
qed (use assms in \<open>simp add: process_step_def nothing_due_def\<close>)

lemma update_first_Cons: "fa_pending (vr_fa v) = (t, p) # r \<Longrightarrow> fa_pending (vr_fa (update_first f v)) = (t, f p) # r"
  by (simp add: update_first_def)

lemma process_step_return:
  assumes "process_step ds timing now v = Some (Return_false, v')"
  shows "deadline_acted timing now (length (fa_pending (vr_fa v))) v'"
proof (cases "fa_pending (vr_fa v)")
  case (Cons e rest)
  obtain t p where e: "e = (t, p)" by fastforce
  note pend = Cons [unfolded e]
  have D: "process_deadlines ds timing now v t p = Some (Return_false, v')"
    using assms unfolding process_step_def pend list.case prod.case Let_def by (auto split: if_splits)
  have core: "vr_fa w' = vr_fa w \<and> vr_awaiting_keyframe w' = vr_awaiting_keyframe w" if "request_if_due ds now w = Some (ok, w')" for w w' ok
    using request_if_due_core [OF that] by simp
  consider (hard) ok where "request_if_due ds now (count rc_hard_timeouts_update
        (drop_first (MarkFrameDiscarded (clear_nacks (v\<lparr>vr_awaiting_keyframe := True\<rparr>) p) t) t)) = Some (ok, v')"
    | (soft) "ms now - pf_arrival_time p > soft_deadline_ms timing"
        "v' = count rc_soft_stalls_update (update_first (pf_recovery_escalated_update (\<lambda>_. True)) v)"
    | (fir) ok w where "ms now - pf_arrival_time p > soft_deadline_ms timing + soft_fir_confirmation_delay_ms timing"
        "pf_recovery_escalated p"
        "request_if_due ds now (update_first (pf_soft_fir_requested_update (\<lambda>_. True)) v) = Some (ok, w)"
        "v' = (if ok then count rc_soft_fir_sent_update w else w)"
    using D unfolding process_deadlines_def Let_def by (auto split: if_splits bind_splits)
  then show ?thesis
  proof cases
    case hard
    have "vr_awaiting_keyframe (MarkFrameDiscarded w t) = vr_awaiting_keyframe w" "fa_pending (vr_fa (MarkFrameDiscarded w t)) = fa_pending (vr_fa w)"
      "vr_awaiting_keyframe (drop_first w t) = vr_awaiting_keyframe w" for w
      by (simp_all add: MarkFrameDiscarded_def drop_first_def count_def split: option.split)
    then show ?thesis using core [OF hard] pend by (simp add: deadline_acted_def)
  next
    case soft
    then show ?thesis by (simp add: deadline_acted_def update_first_Cons [OF pend])
  next
    case fir
    then show ?thesis using core [OF fir(3)] by (simp add: deadline_acted_def update_first_Cons [OF pend])
  qed
qed (use assms in \<open>simp add: process_step_def\<close>)

text \<open>The loop ends: by \<open>break\<close> with nothing left to do, or with the action of a deadline.\<close>

lemma update_first_length [simp]: "length (fa_pending (vr_fa (update_first f v))) = length (fa_pending (vr_fa v))"
  by (simp add: update_first_def split: list.split)

lemma process_deadlines_length:
  assumes "process_deadlines ds timing now v t p = Some (out, v')"
  shows "length (fa_pending (vr_fa v')) \<le> length (fa_pending (vr_fa v))"
proof -
  have "length (fa_pending (vr_fa w')) = length (fa_pending (vr_fa w))" if "request_if_due ds now w = Some (ok, w')" for w w' ok
    using request_if_due_core [OF that] by simp
  then show ?thesis using assms unfolding process_deadlines_def Let_def by (fastforce split: if_splits bind_splits)
qed

lemma process_step_length:
  assumes "process_step ds timing now v = Some (out, v')"
  shows "length (fa_pending (vr_fa v')) \<le> length (fa_pending (vr_fa v))"
proof (cases "fa_pending (vr_fa v)")
  case (Cons e rest)
  obtain t p where e: "e = (t, p)" by fastforce
  show ?thesis using assms process_deadlines_length [of ds timing now v t p out v']
    unfolding process_step_def Cons e list.case prod.case Let_def
    by (simp add: Cons split: if_splits) (auto simp: Cons)
qed (use assms in \<open>simp add: process_step_def\<close>)

declare process_loop.simps [simp del]

lemma process_loop_total:
  "sender_idle v \<Longrightarrow> \<exists>ok v'. process_loop ds timing clock i v = Some (ok, v') \<and> sender_idle v' \<and>
    length (fa_pending (vr_fa v')) \<le> length (fa_pending (vr_fa v)) \<and>
    (\<exists>k \<le> i + length (fa_pending (vr_fa v)).
      if ok then nothing_due timing (clock k) v' else deadline_acted timing (clock k) (length (fa_pending (vr_fa v))) v')"
proof (induction ds timing clock i v rule: process_loop.induct)
  case (1 ds timing clock i v)
  obtain out v1 where s: "process_step ds timing (clock i) v = Some (out, v1)" "sender_idle v1"
    using process_step_total [OF "1.prems"] by blast
  have L: "process_loop ds timing clock i v = (case out of Break \<Rightarrow> Some (True, v1) | Return_false \<Rightarrow> Some (False, v1)
      | Continue \<Rightarrow> process_loop ds timing clock (Suc i) v1)"
    by (subst process_loop.simps) (simp add: s(1) split: outcome.split)
  show ?case
  proof (cases out)
    case Break
    then have b: "v1 = v" "nothing_due timing (clock i) v" using process_step_break s(1) by blast+
    then show ?thesis unfolding L Break outcome.case using s(2) by (intro exI [of _ True] exI [of _ v1] conjI exI [of _ i]) simp_all
  next
    case Return_false
    then have "deadline_acted timing (clock i) (length (fa_pending (vr_fa v))) v1" using process_step_return s(1) by blast
    then show ?thesis using process_step_length [OF s(1)] s(2) unfolding L Return_false outcome.case
      by (intro exI [of _ False] exI [of _ v1] conjI exI [of _ i]) simp_all
  next
    case Continue
    note c = process_step_continue [OF s(1) [unfolded Continue]]
    obtain ok v' where r: "process_loop ds timing clock (Suc i) v1 = Some (ok, v')" "sender_idle v'"
      "length (fa_pending (vr_fa v')) \<le> length (fa_pending (vr_fa v1))"
      "\<exists>k \<le> Suc i + length (fa_pending (vr_fa v1)).
        if ok then nothing_due timing (clock k) v' else deadline_acted timing (clock k) (length (fa_pending (vr_fa v1))) v'"
      using "1.IH" [OF s(1) refl Continue] s(2) by blast
    have n: "length (fa_pending (vr_fa v)) = Suc (length (fa_pending (vr_fa v1)))"
      using c by (cases "fa_pending (vr_fa v)") auto
    obtain k where k: "k \<le> Suc i + length (fa_pending (vr_fa v1))"
      "if ok then nothing_due timing (clock k) v' else deadline_acted timing (clock k) (length (fa_pending (vr_fa v1))) v'"
      using r(4) by blast
    then have "if ok then nothing_due timing (clock k) v' else deadline_acted timing (clock k) (length (fa_pending (vr_fa v))) v'"
      unfolding n by (auto simp: deadline_acted_def)
    with k(1) n have "\<exists>k \<le> i + length (fa_pending (vr_fa v)).
        if ok then nothing_due timing (clock k) v' else deadline_acted timing (clock k) (length (fa_pending (vr_fa v))) v'"
      by (intro exI [of _ k]) simp
    with r(1-3) n show ?thesis unfolding L Continue outcome.case by (intro exI [of _ ok] exI [of _ v']) simp
  qed
qed

text \<open>The worker keeps the measured round-trip time, so its deadlines are those of the state it began with.\<close>

definition rtt_part :: "VideoReceiver \<Rightarrow> u32 \<times> time_delta \<times> bool" where
  "rtt_part v = (vr_rtx_ssrc v, nk_rtt (vr_nack v), nk_has_rtt_sample (vr_nack v))"

lemma timing_rtt_part: "rtt_part w = rtt_part v \<Longrightarrow> GetFrameRecoveryTiming w = GetFrameRecoveryTiming v"
  by (simp add: rtt_part_def GetFrameRecoveryTiming_def RtxEnabled_def RttMs_def)

lemma nack_sent_rtt:
  "nk_rtt (foldl (nack_sent sent_at ok) n ids) = nk_rtt n \<and>
    nk_has_rtt_sample (foldl (nack_sent sent_at ok) n ids) = nk_has_rtt_sample n"
  by (induction ids arbitrary: n) (auto simp: nack_sent_def Let_def split: option.splits)

lemma SendPreparedNackBatch_rtt: "SendPreparedNackBatch ds now v ids = Some w \<Longrightarrow> rtt_part w = rtt_part v"
proof (induction ds now v ids rule: SendPreparedNackBatch.induct)
  case (1 ds now v ids)
  let ?b = "take kMaxNackIdsPerRtcpPacket ids"
  show ?case
  proof (cases "ids = []")
    case False
    obtain ok u where u: "SendNack ds v ?b = Some (ok, u)"
      and r: "SendPreparedNackBatch ds now (u\<lparr>vr_nack := OnNackBatchSent now (vr_nack u) ?b ok\<rparr>) (drop kMaxNackIdsPerRtcpPacket ids) = Some w"
      using "1.prems" False by (subst (asm) SendPreparedNackBatch.simps) (auto simp: Let_def split: bind_splits)
    have "rtt_part u = rtt_part v" using SendNack_core [OF u] by (auto simp: rtt_part_def)
    then show ?thesis using "1.IH" [OF False refl u refl refl r] nack_sent_rtt [of now ok "vr_nack u" ?b]
      by (simp add: rtt_part_def OnNackBatchSent_def)
  qed (use "1.prems" in \<open>simp add: SendPreparedNackBatch.simps\<close>)
qed

lemma ProcessPendingNacks_rtt: "ProcessPendingNacks ds now v = Some w \<Longrightarrow> rtt_part w = rtt_part v"
  by (auto simp: ProcessPendingNacks_def ProcessNacks_def GetNackBatch_def rtt_part_def dest!: SendPreparedNackBatch_rtt split: if_splits)

lemma rtt_part_simps [simp]:
  "rtt_part (count f v) = rtt_part v" "rtt_part (v\<lparr>vr_rtcp_sender := s\<rparr>) = rtt_part v"
  "rtt_part (v\<lparr>vr_next_keyframe_request_ms := k\<rparr>) = rtt_part v" "rtt_part (v\<lparr>vr_awaiting_keyframe := b\<rparr>) = rtt_part v"
  "rtt_part (v\<lparr>vr_keyframe_request_started_ms := k, vr_keyframe_request_pending := b\<rparr>) = rtt_part v"
  "rtt_part (v\<lparr>vr_sequence_number_fir := i\<rparr>) = rtt_part v"
  by (simp_all add: rtt_part_def count_def)

lemma send_message_rtt: "send_message ds v m = Some (ok, w) \<Longrightarrow> rtt_part w = rtt_part v"
  using send_message_core by fastforce

lemma SendKeyFrameRequest_rtt: "SendKeyFrameRequest ds now v e = Some (ok, w) \<Longrightarrow> rtt_part w = rtt_part v"
  unfolding SendKeyFrameRequest_def Let_def by (auto dest!: send_message_rtt split: if_splits bind_splits)

lemma MaybeRetryKeyFrameRequest_rtt: "MaybeRetryKeyFrameRequest ds now v = Some w \<Longrightarrow> rtt_part w = rtt_part v"
  by (auto simp: MaybeRetryKeyFrameRequest_def dest!: SendKeyFrameRequest_rtt split: if_splits)

section \<open>A concrete run\<close>

lemma example_receiver_reachable: "rx_reachable example_receiver"
  unfolding example_receiver_def
  by (intro rx_reachable.callback rx_reachable.configure rx_reachable.start) (simp add: IP_PACKET_SIZE_def)

lemma example_received_reachable: "rx_reachable example_received"
proof -
  have "InsertRtpPacket None example_object 0 example_receiver example_packet \<noteq> None" by code_simp
  then show ?thesis using rx_reachable.insert [OF example_receiver_reachable] by (auto simp: example_received_def)
qed

lemma example_step:
  "process_step None (GetFrameRecoveryTiming example_receiver) 0 example_received = Some (Continue, example_delivered)"
proof -
  have "process_step None (GetFrameRecoveryTiming example_receiver) 0 example_received \<noteq> None"
    "fst (the (process_step None (GetFrameRecoveryTiming example_receiver) 0 example_received)) = Continue" by code_simp+
  then show ?thesis unfolding example_delivered_def by (metis option.collapse prod.collapse)
qed

lemma example_delivered_reachable: "rx_reachable example_delivered"
  by (rule rx_reachable.worker [OF example_received_reachable example_step])

lemma example_delivered_frames: "map (\<lambda>(t, k, f). (t, k, rf_data f)) (vr_delivered example_delivered) = [(65536, False, [0x61, 9, 8, 7])]"
  by code_simp

section \<open>Properties of recovery\<close>

text \<open>
  recovery deadlines. Whatever round-trip time was measured, the soft deadline comes first, the
  key-frame request of a stalled frame is due before the frame is given up, and no frame can hold
  back newer ones for more than one second.
\<close>

theorem recovery_deadlines:
  "let d = GetFrameRecoveryTiming v in 80 \<le> soft_deadline_ms d \<and> soft_deadline_ms d \<le> 500 \<and>
    0 \<le> soft_fir_confirmation_delay_ms d \<and>
    soft_deadline_ms d + soft_fir_confirmation_delay_ms d < hard_deadline_ms d \<and> hard_deadline_ms d \<le> 1000"
  by (simp add: GetFrameRecoveryTiming_def Let_def SoftFrameRecoveryDeadlineMs_def SoftFirConfirmationDelayMs_def
      HardFrameRecoveryDeadlineMs_def clamp_def)

text \<open>
  C8: the worker always returns, with nothing left to do or after the action of a deadline. From every
  state whose RTCP sender is idle, \<open>Process\<close> ends for every sequence of clock readings, with an idle
  sender and no more pending frames than before. A receiver that is not running is left unchanged and
  the result is false. Otherwise, when it returns true, at one of its readings of the clock no frame was
  pending, or the first frame was newer than the last delivered one, could not be skipped for a
  complete key frame behind it, was incomplete or blocked by outstanding NACKs, was not older than the
  hard deadline of the measured round-trip time, and had its late mark and its key-frame request if
  those were due; and when it returns false, a frame was given up and only a key frame is accepted, or
  the first frame is past its soft deadline and marked as late.
\<close>

theorem Process_returns:
  assumes "sender_idle v"
  shows "\<exists>ok v'. Process ds now clock v = Some (ok, v') \<and> sender_idle v' \<and>
    length (fa_pending (vr_fa v')) \<le> length (fa_pending (vr_fa v)) \<and>
    (if vr_is_running v
     then \<exists>k \<le> length (fa_pending (vr_fa v)).
       if ok then nothing_due (GetFrameRecoveryTiming v) (clock k) v'
       else deadline_acted (GetFrameRecoveryTiming v) (clock k) (length (fa_pending (vr_fa v))) v'
     else \<not> ok \<and> v' = v)"
proof (cases "vr_is_running v")
  case True
  obtain v1 where 1: "ProcessPendingNacks ds now v = Some v1" "sender_idle v1" using ProcessPendingNacks_total [OF assms] by blast
  let ?v2 = "MaybeLogRecoveryStats now v1 False"
  have "sender_idle ?v2" using 1(2) by (simp add: MaybeLogRecoveryStats_def sender_idle_def)
  then obtain v3 where 3: "MaybeRetryKeyFrameRequest ds now ?v2 = Some v3" "sender_idle v3"
    using MaybeRetryKeyFrameRequest_total by blast
  let ?d = "GetFrameRecoveryTiming v3"
  have fa: "vr_fa v3 = vr_fa v"
    using ProcessPendingNacks_core [OF 1(1)] MaybeRetryKeyFrameRequest_core [OF 3(1)] by (simp add: MaybeLogRecoveryStats_def)
  have "rtt_part ?v2 = rtt_part v1" by (simp add: MaybeLogRecoveryStats_def rtt_part_def)
  then have d: "?d = GetFrameRecoveryTiming v"
    using ProcessPendingNacks_rtt [OF 1(1)] MaybeRetryKeyFrameRequest_rtt [OF 3(1)] by (intro timing_rtt_part) simp
  obtain ok v' where L: "process_loop ds ?d clock 0 v3 = Some (ok, v')" "sender_idle v'"
    "length (fa_pending (vr_fa v')) \<le> length (fa_pending (vr_fa v))"
    "\<exists>k \<le> length (fa_pending (vr_fa v)). if ok then nothing_due ?d (clock k) v'
      else deadline_acted ?d (clock k) (length (fa_pending (vr_fa v))) v'"
    using process_loop_total [OF 3(2), of ds ?d clock 0] unfolding fa add_0 by blast
  have "Process ds now clock v = Some (ok, v')" using True 1(1) 3(1) L(1) by (simp add: Process_def Let_def)
  then show ?thesis using True L(2-4) unfolding d by (intro exI [of _ ok] exI [of _ v']) simp
qed (use assms in \<open>auto simp: Process_def\<close>)

lemma new_VideoReceiver_idle: "length buf = IP_PACKET_SIZE \<Longrightarrow> sender_idle (new_VideoReceiver ssrc buf io now)"
  by (simp add: sender_idle_def new_VideoReceiver_def new_RtcpSender_def sender_inv_def IP_PACKET_SIZE_def Let_def)

theorem Process_returns_witness:
  "\<exists>ok v'. Process None 0 (\<lambda>i. 5000 * int i) (new_VideoReceiver 7 (replicate 1500 0) False 0) = Some (ok, v') \<and> sender_idle v'"
  using Process_returns [OF new_VideoReceiver_idle, of "replicate 1500 0" None 0 "\<lambda>i. 5000 * int i" 7 False 0]
  by (auto simp: IP_PACKET_SIZE_def)

text \<open>
  C6: frames are delivered in order. In every execution of the packet thread, the worker, the
  report thread and the client, in which the worker releases its locks between iterations, every
  frame handed to the client is ahead of the frame handed over before it, and the receiver's mark
  of the last complete frame is the frame handed over last.
\<close>

theorem in_order_delivery:
  assumes "rx_reachable v"
  shows "successively (\<lambda>a b. AheadOf 0 (fst b) (fst a)) (vr_delivered v) \<and>
    (vr_delivered v \<noteq> [] \<longrightarrow> vr_last_complete_frame_ts v = Some (fst (last (vr_delivered v))))"
  using rx_reachable_delivery_ok [OF assms] by (simp add: delivery_ok_def)

theorem in_order_delivery_witness:
  "rx_reachable example_delivered \<and> map fst (vr_delivered example_delivered) = [65536] \<and>
    vr_last_complete_frame_ts example_delivered = Some 65536"
proof -
  have "map fst (vr_delivered example_delivered) = [65536]" by code_simp
  then show ?thesis using in_order_delivery [OF example_delivered_reachable] example_delivered_reachable by auto
qed

text \<open>
  C7: what the worker delivers. If an iteration hands a frame to the client, it is the first pending
  frame, it is complete and newer than the last complete frame, and the iteration removes it. While
  the receiver waits for a key frame only a key frame is delivered, which ends the wait; otherwise
  no packet up to the end of the frame has an outstanding NACK.
\<close>

theorem delivered_frame:
  assumes "rx_reachable v" and "process_step ds timing now v = Some (out, v')" and "vr_delivered v' \<noteq> vr_delivered v"
  shows "\<exists>t p f rest. fa_pending (vr_fa v) = (t, p) # rest \<and> pf_is_complete p \<and> pf_frame p = Some f \<and>
    vr_delivered v' = vr_delivered v @ [(t, pf_is_keyframe p, f)] \<and> fa_pending (vr_fa v') = rest \<and>
    (\<forall>l. vr_last_complete_frame_ts v = Some l \<longrightarrow> AheadOf 0 t l) \<and> vr_last_complete_frame_ts v' = Some t \<and>
    (if vr_awaiting_keyframe v then pf_is_keyframe p else \<not> has_blocking_nacks v p) \<and> \<not> vr_awaiting_keyframe v'"
  using assms(2)
proof (cases rule: process_step_cases)
  case (deliver t p rest w)
  obtain f where f: "pf_frame p = Some f"
    using rx_reachable_delivery_ok [OF assms(1)] deliver(1,2) by (fastforce simp: delivery_ok_def frames_ok_def)
  have "vr_awaiting_keyframe v' = vr_awaiting_keyframe w"
    by (simp add: deliver(8) deliver_first_def Let_def split: option.split)
  then show ?thesis
    using deliver f deliver_first_outcome [of p now w t] assms(3)
    by (intro exI [of _ t] exI [of _ p] exI [of _ f] exI [of _ rest]) (auto simp: ahead_of_decoded_def split: if_splits)
qed (use assms(3) in \<open>simp add: held_def\<close>)

theorem delivered_frame_witness:
  "rx_reachable example_received \<and> (\<exists>p f. fa_pending (vr_fa example_received) = [(65536, p)] \<and> pf_is_complete p \<and>
    pf_frame p = Some f \<and> rf_data f = [0x61, 9, 8, 7] \<and> vr_delivered example_delivered = [(65536, False, f)] \<and>
    fa_pending (vr_fa example_delivered) = [])"
proof -
  have e: "vr_delivered example_received = []" "map fst (fa_pending (vr_fa example_received)) = [65536]" by code_simp+
  have "vr_delivered example_delivered \<noteq> vr_delivered example_received" using example_delivered_frames e(1) by auto
  from delivered_frame [OF example_received_reachable example_step this]
  show ?thesis using e example_delivered_frames example_received_reachable by auto
qed

lemma obsolete_packet_ignored:
  assumes "media_of v p = Some (Some m)" and "rp_payload_type m = vr_media_payload_type v"
    and "IsFrameTimestampObsolete v (rp_timestamp m)"
  shows "\<exists>v'. InsertRtpPacket ds obj now v p = Some v' \<and> vr_fa v' = vr_fa v \<and> vr_delivered v' = vr_delivered v"
  using assms by (auto simp: InsertRtpPacket_def Let_def insert_obsolete_def)

lemma AheadOf_irrefl [simp]: "\<not> AheadOf 0 t t"
  by (simp add: AheadOf_def)

lemma MarkFrameDiscarded_obsolete:
  "vr_last_discarded_frame_ts v' = vr_last_discarded_frame_ts (MarkFrameDiscarded v t) \<Longrightarrow> IsFrameTimestampObsolete v' t"
  by (auto simp: IsFrameTimestampObsolete_def MarkFrameDiscarded_def split: option.splits if_splits)

text \<open>
  C9: abandoned frames stay abandoned. When the first pending frame is incomplete and older than
  the hard deadline, and no complete key frame waits behind it, the worker removes it with its
  packets and markers, waits for a key frame from then on, and returns. No packet of that frame
  that arrives later, also none restored from a retransmission, changes the pending frames or the
  assembly again.
\<close>

theorem abandoned_frames_stay_abandoned:
  assumes "sender_idle v" and "fa_pending (vr_fa v) = (t, p) # rest" and "\<not> pf_is_complete p"
    and "\<forall>l. vr_last_complete_frame_ts v = Some l \<longrightarrow> AheadOf 0 t l" and "\<not> list_ex complete_keyframe rest"
    and "hard_deadline_ms timing < ms now - pf_arrival_time p"
  shows "\<exists>v'. process_step ds timing now v = Some (Return_false, v') \<and> fa_pending (vr_fa v') = rest \<and>
    vr_awaiting_keyframe v' \<and> fa_start (vr_fa v') t = None \<and> fa_end (vr_fa v') t = None \<and>
    (\<forall>k q. fa_h264 (vr_fa v') k = Some q \<longrightarrow> rp_timestamp (h264_packet q) \<noteq> t) \<and>
    (\<forall>k q. fa_av1 (vr_fa v') k = Some q \<longrightarrow> rp_timestamp (av1_packet q) \<noteq> t) \<and>
    (\<forall>ds obj now q m. media_of v' q = Some (Some m) \<and> rp_payload_type m = vr_media_payload_type v' \<and> rp_timestamp m = t \<longrightarrow>
      (\<exists>v''. InsertRtpPacket ds obj now v' q = Some v'' \<and> vr_fa v'' = vr_fa v'))"
proof -
  let ?m = "MarkFrameDiscarded (clear_nacks (v\<lparr>vr_awaiting_keyframe := True\<rparr>) p) t"
  let ?w = "count rc_hard_timeouts_update (drop_first ?m t)"
  have "sender_idle ?w" using assms(1) by simp
  then obtain ok v' where r: "request_if_due ds now ?w = Some (ok, v')" using request_if_due_total by blast
  have c: "core v' = core ?w" "vr_awaiting_keyframe v' = vr_awaiting_keyframe ?w" using request_if_due_core [OF r] by simp_all
  have step: "process_step ds timing now v = Some (Return_false, v')"
    using assms(2-6) r by (auto simp: process_step_def process_deadlines_def Let_def split: option.splits)
  have "vr_last_discarded_frame_ts v' = vr_last_discarded_frame_ts ?m" using c(1) by simp
  then have obs: "IsFrameTimestampObsolete v' t" by (rule MarkFrameDiscarded_obsolete)
  have fa: "vr_fa v' = DropFrameAssembly ((vr_fa v)\<lparr>fa_pending := rest\<rparr>) t"
    using c(1) assms(2) by (simp add: drop_first_def Let_def)
  have "\<exists>v''. InsertRtpPacket ds obj now v' q = Some v'' \<and> vr_fa v'' = vr_fa v'"
    if "media_of v' q = Some (Some m)" "rp_payload_type m = vr_media_payload_type v'" "rp_timestamp m = t" for ds obj now q m
    using obsolete_packet_ignored [OF that(1,2)] obs that(3) by blast
  with step fa c(2) show ?thesis
    by (auto simp: DropFrameAssembly_def ClearFrameMarkers_def Let_def split: option.splits if_splits)
qed

theorem abandoned_frames_stay_abandoned_witness:
  "\<exists>v'. process_step None \<lparr>soft_deadline_ms = 80, soft_fir_confirmation_delay_ms = 0, hard_deadline_ms = 200\<rparr> 500000
      (new_VideoReceiver 7 (replicate 1500 0) False 0\<lparr>vr_fa := new_FrameAssembly\<lparr>fa_pending := [(90, new_PendingFrame\<lparr>pf_arrival_time := 1\<rparr>)]\<rparr>\<rparr>)
    = Some (Return_false, v') \<and> fa_pending (vr_fa v') = [] \<and> vr_awaiting_keyframe v'"
proof -
  let ?v = "new_VideoReceiver 7 (replicate 1500 0) False 0\<lparr>vr_fa := new_FrameAssembly\<lparr>fa_pending := [(90, new_PendingFrame\<lparr>pf_arrival_time := 1\<rparr>)]\<rparr>\<rparr>"
  have "sender_idle (new_VideoReceiver 7 (replicate 1500 0) False 0)" by (rule new_VideoReceiver_idle) (simp add: IP_PACKET_SIZE_def)
  then have "sender_idle ?v" by (simp add: sender_idle_def)
  moreover have "ms 500000 = 500" by (simp add: ms_def ToFraction_def DivideRoundToNearest_def)
  ultimately show ?thesis
    using abandoned_frames_stay_abandoned [of ?v 90 "new_PendingFrame\<lparr>pf_arrival_time := 1\<rparr>" "[]"
        "\<lparr>soft_deadline_ms = 80, soft_fir_confirmation_delay_ms = 0, hard_deadline_ms = 200\<rparr>" 500000 None]
    by (auto simp: new_PendingFrame_def new_VideoReceiver_def)
qed

section \<open>Properties of feedback\<close>

lemma key_frame_request_sent:
  assumes "sender_idle v"
  shows "\<exists>ok v'. SendKeyFrameRequest ds now v enter = Some (ok, v') \<and> sender_idle v' \<and>
    (vr_awaiting_keyframe v' \<longleftrightarrow> vr_awaiting_keyframe v \<or> enter) \<and>
    (if ms now < vr_next_keyframe_request_ms v
     then \<not> ok \<and> vr_rtcp_sender v' = vr_rtcp_sender v \<and> vr_next_keyframe_request_ms v' = vr_next_keyframe_request_ms v
     else vr_next_keyframe_request_ms v' = ms now + (if ok then 1500 else 500) \<and>
       (\<exists>d h f. snd_sent (vr_rtcp_sender v') = snd_sent (vr_rtcp_sender v) @ [d] \<and> length d = 20 \<and>
         (ok \<longleftrightarrow> 0 \<le> rtcp_callback ds v d) \<and> RtcpCommonHeader_Parse new_header d (length d) = Some (True, h) \<and> packet_size h = length d \<and>
         hdr_packet_type h = 206 \<and> hdr_count_or_format h = 4 \<and> Fir_Parse new_Fir h = Some (True, f) \<and>
         fir_sender_ssrc f = vr_ssrc v \<and>
         fir_items f = [\<lparr>req_ssrc = vr_remote_ssrc v, req_seq_nr = vr_sequence_number_fir v + 1\<rparr>]))"
proof (cases "ms now < vr_next_keyframe_request_ms v")
  case True
  then show ?thesis using assms by (auto simp: SendKeyFrameRequest_def Let_def sender_idle_def)
next
  case False
  let ?v = "if enter then v\<lparr>vr_awaiting_keyframe := True\<rparr> else v"
  let ?w = "?v\<lparr>vr_sequence_number_fir := vr_sequence_number_fir ?v + 1\<rparr>"
  define f where "f = AddRequestTo (new_Fir\<lparr>fir_sender_ssrc := vr_ssrc ?w\<rparr>) (vr_remote_ssrc ?w) (vr_sequence_number_fir ?w)"
  have i: "fir_items f = [\<lparr>req_ssrc = vr_remote_ssrc v, req_seq_nr = vr_sequence_number_fir v + 1\<rparr>]" "fir_sender_ssrc f = vr_ssrc v"
    by (simp_all add: f_def AddRequestTo_def new_Fir_def)
  have "sender_idle ?w" using assms by (simp add: sender_idle_def)
  moreover have "message_fits (MFir f) 1200" by (simp add: fir_fits_def Fir_BlockLength_block i(1))
  ultimately obtain w where w: "send_message ds ?w (MFir f) = Some (0 \<le> rtcp_callback ds ?w (fir_block f), w)" "sender_idle w"
    "snd_sent (vr_rtcp_sender w) = snd_sent (vr_rtcp_sender ?w) @ [fir_block f]"
    using send_message_block [of ?w "MFir f" "fir_block f" ds] by auto
  have aw: "vr_awaiting_keyframe w \<longleftrightarrow> vr_awaiting_keyframe v \<or> enter" using send_message_core [OF w(1)] by auto
  have cb: "rtcp_callback ds ?w = rtcp_callback ds v" by (simp add: rtcp_callback_def fun_eq_iff split: option.split)
  obtain h where h: "RtcpCommonHeader_Parse new_header (fir_block f) (length (fir_block f)) = Some (True, h)"
    "packet_size h = length (fir_block f)" "hdr_packet_type h = 206" "hdr_count_or_format h = 4" "Fir_Parse new_Fir h = Some (True, f)"
    using fir_block_Parse [of f "length (fir_block f)" new_header "[]" new_Fir] i(1)
    by (auto simp: kFirPacketType_def kFirFeedbackMessageType_def)
  define ok where "ok \<longleftrightarrow> 0 \<le> rtcp_callback ds v (fir_block f)"
  have w1: "send_message ds ?w (MFir f) = Some (ok, w)" using w(1) unfolding cb ok_def .
  have "\<exists>v'. SendKeyFrameRequest ds now v enter = Some (ok, v') \<and> vr_rtcp_sender v' = vr_rtcp_sender w \<and>
      vr_awaiting_keyframe v' = vr_awaiting_keyframe w \<and> vr_next_keyframe_request_ms v' = ms now + (if ok then 1500 else 500)"
    using False w1 unfolding f_def SendKeyFrameRequest_def Let_def
    by (cases enter; cases ok) (simp_all add: kFirRetryIntervalMs_def kFailedFirRetryIntervalMs_def count_def)
  then obtain v' where v': "SendKeyFrameRequest ds now v enter = Some (ok, v')" "vr_rtcp_sender v' = vr_rtcp_sender w"
    "vr_awaiting_keyframe v' = vr_awaiting_keyframe w" "vr_next_keyframe_request_ms v' = ms now + (if ok then 1500 else 500)"
    by blast
  have "sender_idle v'" using w(2) v'(2) by (simp add: sender_idle_def)
  then show ?thesis using v' w(3) h i aw False ok_def by auto
qed



lemma ascending_ids_take_drop: "ascending_ids xs \<Longrightarrow> ascending_ids (take n xs) \<and> ascending_ids (drop n xs)"
proof (induction xs arbitrary: n rule: ascending_ids.induct)
  case (1 x y xs)
  from "1.IH" [OF _ , of "n - 1"] "1.prems" show ?case by (cases n; cases "n - 1") auto
qed (auto simp: take_Cons drop_Cons split: nat.split)

text \<open>The ids of a datagram as a receiver of the feedback reads them.\<close>

lemma SendNack_datagram:
  assumes "sender_idle v" and "RtxEnabled v" and "\<not> vr_rtcp_stop v" and "ids \<noteq> []" and "length ids \<le> 256" and "ascending_ids ids"
  shows "\<exists>v' d r. SendNack ds v ids = Some (0 \<le> rtcp_callback ds v d, v') \<and> sender_idle v' \<and>
    snd_sent (vr_rtcp_sender v') = snd_sent (vr_rtcp_sender v) @ [d] \<and> length d \<le> 1036 \<and> parses_as_nack d r \<and>
    packet_ids r = ids \<and> nack_sender_ssrc r = vr_ssrc v \<and> nack_media_ssrc r = vr_remote_ssrc v"
proof -
  define n where "n = SetPacketIds (new_Nack\<lparr>nack_sender_ssrc := vr_ssrc v, nack_media_ssrc := vr_remote_ssrc v\<rparr>) ids"
  have n: "packed n = pack_ids ids []" "nack_sender_ssrc n = vr_ssrc v" "nack_media_ssrc n = vr_remote_ssrc v"
    by (simp_all add: n_def SetPacketIds_def Pack_def new_Nack_def)
  have ids: "concat (map item_ids (packed n)) = ids" using unpack_pack_ids [OF assms(6), of "[]"] by (simp add: n(1))
  then have ne: "packed n \<noteq> []" using assms(4) by auto
  have len: "length (packed n) \<le> 256" using pack_ids_length [of ids "[]"] assms(5) by (simp add: n(1))
  let ?b = "nack_block n (packed n)"
  let ?r = "Unpack \<lparr>nack_sender_ssrc = nack_sender_ssrc n, nack_media_ssrc = nack_media_ssrc n, packed = packed n, packet_ids = []\<rparr>"
  have "parses_as_nack ?b ?r" using ne len by (intro parses_as_nack_block) simp_all
  moreover have "packet_ids ?r = ids" "nack_sender_ssrc ?r = vr_ssrc v" "nack_media_ssrc ?r = vr_remote_ssrc v"
    using ids n by (simp_all add: Unpack_def)
  moreover obtain v' where "send_message ds v (MNack n) = Some (0 \<le> rtcp_callback ds v ?b, v')" "sender_idle v'"
    "snd_sent (vr_rtcp_sender v') = snd_sent (vr_rtcp_sender v) @ [?b]"
    using send_nack_block [OF assms(1) ne len, of ds] by blast
  ultimately show ?thesis
    using assms(2-4) len unfolding SendNack_def n_def [symmetric] by (intro exI [of _ v'] exI [of _ ?b] exI [of _ ?r]) simp
qed

lemma nack_batch_sent:
  assumes "sender_idle v" and "RtxEnabled v" and "\<not> vr_rtcp_stop v" and "ascending_ids ids"
  shows "\<exists>v' bs rs. SendPreparedNackBatch ds now v ids = Some v' \<and> sender_idle v' \<and>
    snd_sent (vr_rtcp_sender v') = snd_sent (vr_rtcp_sender v) @ bs \<and> list_all2 parses_as_nack bs rs \<and>
    concat (map packet_ids rs) = ids \<and> (\<forall>b \<in> set bs. length b \<le> 1036) \<and>
    (\<forall>r \<in> set rs. packet_ids r \<noteq> [] \<and> length (packet_ids r) \<le> 256 \<and> nack_sender_ssrc r = vr_ssrc v \<and>
      nack_media_ssrc r = vr_remote_ssrc v)"
  using assms
proof (induction ds now v ids rule: SendPreparedNackBatch.induct)
  case (1 ds now v ids)
  show ?case
  proof (cases "ids = []")
    case True
    with "1.prems"(1) show ?thesis
      by (subst SendPreparedNackBatch.simps) (auto intro!: exI [of _ "[]"])
  next
    case False
    let ?h = "take kMaxNackIdsPerRtcpPacket ids" and ?t = "drop kMaxNackIdsPerRtcpPacket ids"
    have a: "ascending_ids ?h" "ascending_ids ?t" using ascending_ids_take_drop [OF "1.prems"(4)] by simp_all
    have h: "?h \<noteq> []" "length ?h \<le> 256" using False by (simp_all add: kMaxNackIdsPerRtcpPacket_def)
    obtain w d r where w: "SendNack ds v ?h = Some (0 \<le> rtcp_callback ds v d, w)" "sender_idle w"
      "snd_sent (vr_rtcp_sender w) = snd_sent (vr_rtcp_sender v) @ [d]" "length d \<le> 1036" "parses_as_nack d r"
      "packet_ids r = ?h" "nack_sender_ssrc r = vr_ssrc v" "nack_media_ssrc r = vr_remote_ssrc v"
      using SendNack_datagram [OF "1.prems"(1-3) h a(1)] by blast
    let ?w = "w\<lparr>vr_nack := OnNackBatchSent now (vr_nack w) ?h (0 \<le> rtcp_callback ds v d)\<rparr>"
    have e: "sender_idle ?w" "RtxEnabled ?w" "\<not> vr_rtcp_stop ?w" "vr_ssrc ?w = vr_ssrc v" "vr_remote_ssrc ?w = vr_remote_ssrc v"
      using w(2) SendNack_core [OF w(1)] "1.prems"(2,3) by (auto simp: sender_idle_def RtxEnabled_def)
    obtain v' bs rs where "SendPreparedNackBatch ds now ?w ?t = Some v'" "sender_idle v'"
      "snd_sent (vr_rtcp_sender v') = snd_sent (vr_rtcp_sender w) @ bs" "list_all2 parses_as_nack bs rs"
      "concat (map packet_ids rs) = ?t" "\<forall>b \<in> set bs. length b \<le> 1036"
      "\<forall>r \<in> set rs. packet_ids r \<noteq> [] \<and> length (packet_ids r) \<le> 256 \<and> nack_sender_ssrc r = vr_ssrc v \<and>
        nack_media_ssrc r = vr_remote_ssrc v"
      using "1.IH" [OF False refl w(1) refl refl e(1-3) a(2)] e(4,5) by auto
    moreover have "SendPreparedNackBatch ds now v ids = SendPreparedNackBatch ds now ?w ?t"
      using False w(1) by (subst SendPreparedNackBatch.simps) (simp add: Let_def)
    ultimately show ?thesis
      using w h by (intro exI [of _ v'] exI [of _ "d # bs"] exI [of _ "r # rs"]) simp
  qed
qed

text \<open>
  NACK batches. The sequence numbers to request are sent in datagrams of at most 256 numbers
  each. Every datagram holds exactly one feedback block of at most 1036 bytes, well below the size
  of the RTCP buffer; a peer that parses the datagrams in order reads exactly the requested numbers,
  with the receiver's and the media source's SSRC.
\<close>

theorem nack_batch_datagrams:
  assumes "sender_idle v" and "RtxEnabled v" and "\<not> vr_rtcp_stop v" and "ascending_ids ids"
  shows "\<exists>v' bs rs. SendPreparedNackBatch ds now v ids = Some v' \<and> sender_idle v' \<and>
    snd_sent (vr_rtcp_sender v') = snd_sent (vr_rtcp_sender v) @ bs \<and> list_all2 parses_as_nack bs rs \<and>
    concat (map packet_ids rs) = ids \<and> (\<forall>b \<in> set bs. length b \<le> 1036) \<and>
    (\<forall>r \<in> set rs. packet_ids r \<noteq> [] \<and> length (packet_ids r) \<le> 256 \<and> nack_sender_ssrc r = vr_ssrc v \<and>
      nack_media_ssrc r = vr_remote_ssrc v)"
  by (rule nack_batch_sent [OF assms])

theorem nack_batch_datagrams_witness:
  "\<exists>v' bs rs. SendPreparedNackBatch None 0 example_receiver [7, 8, 300] = Some v' \<and>
    snd_sent (vr_rtcp_sender v') = snd_sent (vr_rtcp_sender example_receiver) @ bs \<and> list_all2 parses_as_nack bs rs \<and>
    concat (map packet_ids rs) = [7, 8, 300]"
proof -
  have "sender_idle example_receiver"
    using new_VideoReceiver_idle [of "replicate 1500 0" 7 False 0]
    by (simp add: example_receiver_def sender_idle_def SetOnReceiveCompleteFrame_def SetMediaConfig_def IP_PACKET_SIZE_def Let_def)
  moreover have "RtxEnabled example_receiver" "\<not> vr_rtcp_stop example_receiver" "ascending_ids [7, 8, 300]" by code_simp+
  ultimately show ?thesis using nack_batch_datagrams [of example_receiver "[7, 8, 300]" None 0] by blast
qed

end
