(* ===== verification/ReceiverSafety.thy ===== *)
theory ReceiverSafety
  imports ReceiverProps
begin

text \<open>
  Memory safety of the receive path. \<open>VideoChannelReceive::OnReceiveRtpPacket\<close>
  (\<open>src/transport/channel/video_channel_receive.cpp\<close>) hands every datagram of the network to the
  receiver. The theorem: no sequence of datagrams, whatever their bytes, makes parsing, RTX
  restoration, depacketization or frame assembly read or write outside a buffer.
\<close>

section \<open>The channel\<close>

definition OnReceiveRtpPacket ::
  "send_func \<Rightarrow> RtpPacketH264 \<Rightarrow> timestamp \<Rightarrow> VideoReceiver \<Rightarrow> byte list \<Rightarrow> (int \<times> VideoReceiver) option" where
  "OnReceiveRtpPacket data_send_func object now v d =
     (let v = io_calls v [UpdateVideoInboundBytes (of_nat (length d))] in
      if length d < kFixedHeaderSize then Some (- 1, v)
      else do {
        (ok, p) \<leftarrow> RtpPacket_Build new_RtpPacket d (unat (of_nat (length d) :: u32));
        if \<not> ok then Some (- 1, v)
        else do { v \<leftarrow> InsertRtpPacket data_send_func object now v p; Some (0, v) } })"

definition Channel_Initialize :: "u32 \<Rightarrow> u32 \<Rightarrow> byte option \<Rightarrow> byte \<Rightarrow> VideoReceiver \<Rightarrow> VideoReceiver" where
  "Channel_Initialize ssrc rtx_ssrc abs_send_time_ext_id payload_type v =
     SetOnReceiveCompleteFrame (SetAbsoluteSendTimeExtensionId (SetMediaConfig v ssrc rtx_ssrc payload_type) abs_send_time_ext_id)"

section \<open>Packets\<close>

definition packet_ok :: "RtpPacket \<Rightarrow> bool" where
  "packet_ok p \<longleftrightarrow> 12 \<le> rp_payload_offset p \<and>
     rp_payload_offset p + rp_payload_size p + rp_padding_size p = rp_size p \<and> length (rp_buffer p) = rp_size p \<and> rp_size p < 2 ^ 32"

lemma Build_packet_ok:
  assumes "sz \<le> length buffer" and "sz < 2 ^ 32"
  shows "\<exists>ok p'. RtpPacket_Build p buffer sz = Some (ok, p') \<and> (ok \<longrightarrow> packet_ok p' \<and> rp_size p' = sz)"
  using RtpPacket_Build_ok [OF assms(1), of p] assms by (auto simp: packet_ok_def)

lemma packet_ok_Payload: "packet_ok p \<Longrightarrow> \<exists>d. Payload p = Some d \<and> length d = rp_payload_size p \<and> length d < 2 ^ 32"
  by (auto simp: packet_ok_def Payload_def seg_def)

lemma GetFrameHeaderInfo_total:
  assumes "packet_ok (h264_packet h)" and "\<not> fu_info_got h"
  shows "\<exists>ok h'. GetFrameHeaderInfo h = Some (ok, h') \<and> (ok \<longrightarrow> Payload (h264_packet h') \<noteq> None)"
proof -
  let ?p = "h264_packet h"
  obtain d where d: "Payload ?p = Some d" "length d = rp_payload_size ?p" "length d < 2 ^ 32" using packet_ok_Payload [OF assms(1)] by blast
  have r: "rd (rp_buffer ?p) (rp_payload_offset ?p + i) = Some (d ! i)" if "i < rp_payload_size ?p" for i
    using Payload_rd [OF d(1)] that d(2) by simp
  have o: "Payload (add_offset_to_payload ?p k) \<noteq> None" if "k \<le> rp_payload_size ?p" for k
    using Payload_add_offset [OF d(1), of k] that d(2,3) by simp
  note R = r [of 0, simplified] r [of 1] r [of 2] r [of 3] o [of 1] o [of 2] o [of 3] o [of 4] d(1)
  show ?thesis
  proof (cases "rp_payload_type ?p = PT_RTX")
    case True
    then show ?thesis
      using assms(2) R by (auto simp: GetFrameHeaderInfo_def Let_def eval_nat_numeral)
  next
    case False
    then show ?thesis
      using assms(2) R by (auto simp: GetFrameHeaderInfo_def Let_def eval_nat_numeral)
  qed
qed

lemma open_h264_total:
  assumes "sz \<le> length buffer" and "sz < 2 ^ 32"
  shows "\<exists>ok h'. open_h264 h buffer sz = Some (ok, h') \<and> (ok \<longrightarrow> Payload (h264_packet h') \<noteq> None)"
proof -
  obtain ok p where p: "RtpPacket_Build new_RtpPacket buffer sz = Some (ok, p)" "ok \<longrightarrow> packet_ok p"
    using Build_packet_ok [OF assms] by blast
  then show ?thesis using GetFrameHeaderInfo_total [of "h\<lparr>h264_packet := p, fu_info_got := False\<rparr>"] by (auto simp: open_h264_def)
qed

lemma open_av1_total:
  assumes "sz \<le> length buffer" and "sz < 2 ^ 32"
  shows "\<exists>ok q. open_av1 buffer sz = Some (ok, q) \<and> (ok \<longrightarrow> Payload (av1_packet q) \<noteq> None)"
proof -
  obtain ok p where p: "RtpPacket_Build new_RtpPacket buffer sz = Some (ok, p)" "ok \<longrightarrow> packet_ok p"
    using Build_packet_ok [OF assms] by blast
  show ?thesis
  proof (cases ok)
    case True
    obtain d where d: "Payload p = Some d" "length d = rp_payload_size p" "length d < 2 ^ 32"
      using packet_ok_Payload [of p] p(2) True by auto
    show ?thesis
      using p(1) True Payload_rd [OF d(1), of 0] Payload_add_offset [OF d(1), of 1] d(2,3)
      by (auto simp: open_av1_def Av1_GetFrameHeaderInfo_def Let_def)
  qed (use p in \<open>auto simp: open_av1_def Let_def\<close>)
qed

lemma seg_total: "i + n \<le> length b \<Longrightarrow> \<exists>xs. seg b i n = Some xs \<and> length xs = n"
  by (simp add: seg_def)

lemma wr_then:
  assumes "i < 12" and "12 \<le> length b" and "\<And>b'. length b' = length b \<Longrightarrow> \<exists>ok m. f b' = Some (ok, m) \<and> (ok \<longrightarrow> P m)"
  shows "\<exists>ok m. Option.bind (wr b i x) f = Some (ok, m) \<and> (ok \<longrightarrow> P m)"
  using assms by (simp add: wr_def)

lemma RestoreMediaPacketFromRtx_total:
  assumes "packet_ok p"
  shows "\<exists>ok m. RestoreMediaPacketFromRtx ssrc pt p mp = Some (ok, m) \<and> (ok \<longrightarrow> packet_ok m)"
proof (cases "rp_payload_type p \<noteq> PT_RTX \<or> rp_payload_size p < 2 \<or> rp_payload_offset p < kFixedHeaderSize \<or>
    ssrc = 0 \<or> pt = PT_UNDEFINED \<or> pt = PT_RTX")
  case False
  let ?b = "rp_buffer p" and ?o = "rp_payload_offset p" and ?n = "rp_payload_size p" and ?k = "rp_padding_size p"
  have len: "length ?b = ?o + ?n + ?k" "12 \<le> ?o" "2 \<le> ?n" "rp_size p = ?o + ?n + ?k" "?o + ?n + ?k < 2 ^ 32"
    using assms False by (auto simp: packet_ok_def)
  obtain hdr where hdr: "seg ?b 0 ?o = Some hdr" "length hdr = ?o" using seg_total [of 0 ?o ?b] len by auto
  have "?o + 2 + (?n - 2) \<le> length ?b" using len by simp
  then obtain pl where pl: "seg ?b (?o + 2) (?n - 2) = Some pl" "length pl = ?n - 2" using seg_total by blast
  have sub: "size_sub (rp_size p) ?k = ?o + ?n" using len by (simp add: size_sub_def)
  obtain xs where "seg ?b (?o + ?n) ?k = Some xs" "length xs = ?k" using seg_total [of "?o + ?n" ?k ?b] len(1) by auto
  then obtain pad where pad: "(if ?k > 0 then seg ?b (size_sub (rp_size p) ?k) ?k else Some []) = Some pad" "length pad \<le> ?k"
    unfolding sub by (cases "?k > 0") auto
  let ?m = "hdr @ pl @ pad"
  have m: "12 \<le> length ?m" "length ?m < 2 ^ 32" using hdr pl pad len by simp_all
  have r: "rd ?b ?o = Some (?b ! ?o)" "rd ?b (?o + 1) = Some (?b ! (?o + 1))" "rd ?m 1 = Some (?m ! 1)"
    using len m by (simp_all add: rd_def del: length_append)
  have B: "\<exists>ok q. RtpPacket_Build mp b (length b) = Some (ok, q) \<and> (ok \<longrightarrow> packet_ok q)" if "length b = length ?m" for b
    using Build_packet_ok [of "length b" b mp] that m(2) by auto
  show ?thesis
    unfolding RestoreMediaPacketFromRtx_def Let_def using False hdr(1) pl(1) pad(1) r m(1) B
    by (simp add: Option.bind.simps del: length_append) (intro wr_then, simp_all del: length_append)
next
  case True
  then have "RestoreMediaPacketFromRtx ssrc pt p mp = Some (False, mp)" by (simp add: RestoreMediaPacketFromRtx_def)
  then show ?thesis by blast
qed

section \<open>Assembly\<close>

text \<open>Every stored packet has a payload inside its buffer.\<close>

definition store_ok :: "FrameAssembly \<Rightarrow> bool" where
  "store_ok fa \<longleftrightarrow> (\<forall>k q. fa_h264 fa k = Some q \<longrightarrow> Payload (h264_packet q) \<noteq> None) \<and>
     (\<forall>k q. fa_av1 fa k = Some q \<longrightarrow> Payload (av1_packet q) \<noteq> None)"

lemma store_ok_shrink:
  assumes "store_ok fa" and "\<And>k q. fa_h264 fa' k = Some q \<Longrightarrow> fa_h264 fa k = Some q" and "\<And>k q. fa_av1 fa' k = Some q \<Longrightarrow> fa_av1 fa k = Some q"
  shows "store_ok fa'"
  using assms unfolding store_ok_def by blast

lemma finish_store:
  assumes "CreateReceivedFrame now fa d t = (f, fa1)"
  shows "fa_h264 (CommitPendingFrame now (ClearFrameMarkers fa1 t) t f k e r) = fa_h264 fa"
    "fa_av1 (CommitPendingFrame now (ClearFrameMarkers fa1 t) t f k e r) = fa_av1 fa"
    "fa_h264 (CommitPendingFrame now fa1 t f k e r) = fa_h264 fa" "fa_av1 (CommitPendingFrame now fa1 t f k e r) = fa_av1 fa"
proof -
  obtain m where "fa1 = fa\<lparr>fa_mapper := m\<rparr>" using CreateReceivedFrame_same [OF assms] by metis
  then show "fa_h264 (CommitPendingFrame now (ClearFrameMarkers fa1 t) t f k e r) = fa_h264 fa"
    "fa_av1 (CommitPendingFrame now (ClearFrameMarkers fa1 t) t f k e r) = fa_av1 fa"
    "fa_h264 (CommitPendingFrame now fa1 t f k e r) = fa_h264 fa" "fa_av1 (CommitPendingFrame now fa1 t f k e r) = fa_av1 fa"
    by (simp_all add: ClearFrameMarkers_def)
qed

text \<open>The payloads of the packets of a complete frame.\<close>

lemma due_payloads:
  assumes "due pkt st ss es t a e c" and "\<And>k q. st k = Some q \<Longrightarrow> Payload (pkt q) \<noteq> None"
  obtains d where "\<And>i. i < c \<Longrightarrow> \<exists>q. st (SequenceNumberAt a i) = Some q \<and> Payload (pkt q) = Some (d i)"
proof -
  have "\<forall>i < c. \<exists>q d. st (SequenceNumberAt a i) = Some q \<and> Payload (pkt q) = Some d"
    using assms by (fastforce simp: due_def)
  then show ?thesis using that by metis
qed

lemma payload_sizes:
  assumes "\<And>i. i < c \<Longrightarrow> \<exists>q. st (SequenceNumberAt a i) = Some q \<and> Payload (pkt q) = Some (d i)"
  shows "sum_list (map (\<lambda>i. case st (SequenceNumberAt a i) of None \<Rightarrow> 0 | Some q \<Rightarrow> rp_payload_size (pkt q)) [0..<c]) =
    length (concat (map d [0..<c]))"
  by (rule sum_list_lengths) (use assms in \<open>force dest: Payload_length\<close>)+

lemma PopCompleteFrame_total:
  assumes "due h264_packet (fa_h264 m) (fa_start m) (fa_end m) t a e c" and "store_ok m"
  shows "\<exists>fa'. PopCompleteFrame now m a e c t = Some fa' \<and> store_ok fa'"
proof -
  obtain d where d: "\<And>i. i < c \<Longrightarrow> \<exists>q. fa_h264 m (SequenceNumberAt a i) = Some q \<and> Payload (h264_packet q) = Some (d i)"
    using due_payloads [OF assms(1)] assms(2) unfolding store_ok_def by blast
  have c: "0 < c" "c \<le> 4096" using assms(1) due_bound [OF assms(1)] by (auto simp: due_def)
  obtain q where q: "fa_h264 m a = Some q" using d [OF c(1)] by (auto simp: SequenceNumberAt_def)
  let ?n = "length (concat (map d [0..<c]))"
  obtain cap where cap: "EnsureFrameBufferCapacity m (?n + 1) = m\<lparr>fa_buffer := Some cap\<rparr>" "?n + 1 \<le> cap"
    using EnsureFrameBufferCapacity_buffer by blast
  let ?m = "m\<lparr>fa_buffer := Some cap\<rparr>"
  obtain dest m1 where m1: "foldM (pop_h264 a) [0..<c] ([h264_header q], ?m) = Some (dest, m1)"
    "fa_h264 m1 = (\<lambda>k. if k \<in> SequenceNumberAt a ` {0..<c} then None else fa_h264 m k)" "fa_av1 m1 = fa_av1 m"
    using pop_h264_run [of "[0..<c]" ?m cap a d "[h264_header q]"] d cap(2) c(2) by (auto cong: if_cong)
  obtain f fa1 where f: "CreateReceivedFrame now m1 dest t = (f, fa1)" by fastforce
  have sizes: "sum_list (map (\<lambda>i. case fa_h264 m (SequenceNumberAt a i) of None \<Rightarrow> 0 | Some q \<Rightarrow> rp_payload_size (h264_packet q)) [0..<c]) = ?n"
    by (rule payload_sizes) (rule d)
  have "PopCompleteFrame now m a e c t = Some (CommitPendingFrame now (ClearFrameMarkers fa1 t) t f (IsH264KeyFrame (rf_data f)) e True)"
    unfolding PopCompleteFrame_def Let_def sizes cap(1) h264_header_def [symmetric]
    using q cap(2) m1(1) f by (simp add: buffer_write_def)
  moreover have "store_ok (CommitPendingFrame now (ClearFrameMarkers fa1 t) t f (IsH264KeyFrame (rf_data f)) e True)"
    by (rule store_ok_shrink [OF assms(2)]) (simp_all add: finish_store [OF f] m1(2,3) del: CommitPendingFrame_same split: if_splits)
  ultimately show ?thesis by blast
qed

lemma pop_av1_frame_total:
  assumes "due av1_packet (fa_av1 m) (fa_start m) (fa_end m) t a e c" and "store_ok m"
  shows "\<exists>fa'. pop_av1_frame now m a e c t = Some fa' \<and> store_ok fa'"
proof -
  obtain d where d: "\<And>i. i < c \<Longrightarrow> \<exists>q. fa_av1 m (SequenceNumberAt a i) = Some q \<and> Payload (av1_packet q) = Some (d i)"
    using due_payloads [OF assms(1)] assms(2) unfolding store_ok_def by blast
  have c: "0 < c" "c \<le> 4096" using assms(1) due_bound [OF assms(1)] by (auto simp: due_def)
  obtain q where q: "fa_av1 m a = Some q" using d [OF c(1)] by (auto simp: SequenceNumberAt_def)
  let ?n = "length (concat (map d [0..<c]))"
  obtain cap where cap: "EnsureFrameBufferCapacity m ?n = m\<lparr>fa_buffer := Some cap\<rparr>" "?n \<le> cap"
    using EnsureFrameBufferCapacity_buffer by blast
  let ?m = "m\<lparr>fa_buffer := Some cap\<rparr>"
  obtain m1 where m1: "foldM (pop_av1 a) [0..<c] ([], ?m) = Some (concat (map d [0..<c]), m1)"
    "fa_av1 m1 = (\<lambda>k. if k \<in> SequenceNumberAt a ` {0..<c} then None else fa_av1 m k)" "fa_h264 m1 = fa_h264 m"
    using pop_av1_run [of "[0..<c]" ?m cap a d "[]"] d cap(2) c(2) by (auto cong: if_cong)
  obtain f fa1 where f: "CreateReceivedFrame now m1 (concat (map d [0..<c])) t = (f, fa1)" by fastforce
  have sizes: "sum_list (map (\<lambda>i. case fa_av1 m (SequenceNumberAt a i) of None \<Rightarrow> 0 | Some q \<Rightarrow> rp_payload_size (av1_packet q)) [0..<c]) = ?n"
    by (rule payload_sizes) (rule d)
  have "seg (concat (map d [0..<c])) 0 ?n = Some (concat (map d [0..<c]))" by (simp add: seg_def)
  then have "pop_av1_frame now m a e c t = Some (CommitPendingFrame now (ClearFrameMarkers fa1 t) t f (Av1_IsKeyFrame q) e True)"
    unfolding pop_av1_frame_def Let_def sizes cap(1) using q m1(1) f by simp
  moreover have "store_ok (CommitPendingFrame now (ClearFrameMarkers fa1 t) t f (Av1_IsKeyFrame q) e True)"
    by (rule store_ok_shrink [OF assms(2)]) (simp_all add: finish_store [OF f] m1(2,3) del: CommitPendingFrame_same split: if_splits)
  ultimately show ?thesis by blast
qed

lemma ProcessH264RtpPacket_total:
  assumes "store_ok fa" and "Payload (h264_packet q) \<noteq> None"
  shows "\<exists>fa'. ProcessH264RtpPacket now fa q = Some fa' \<and> store_ok fa'"
proof -
  let ?t = "rp_timestamp (h264_packet q)" and ?n = "rp_sequence_number (h264_packet q)"
  let ?fa = "fa\<lparr>fa_h264 := (fa_h264 fa)(?n \<mapsto> q)\<rparr>"
  let ?m = "mark_frame now ?fa ?t ?n (fuh_start q) (fuh_end q)"
  have m: "store_ok ?m" using assms by (auto simp: store_ok_def)
  note C = h264_check [OF refl refl, where now = now and fa = ?fa and q = q and s = "fuh_start q" and x = "fuh_end q"]
  have "\<exists>fa'. CheckIsH264FrameCompleted now ?fa q (fuh_start q) (fuh_end q) = Some fa' \<and> store_ok fa'"
  proof (cases "\<exists>a e c. due h264_packet (fa_h264 ?fa) (fa_start ?m) (fa_end ?m) ?t a e c")
    case True
    then show ?thesis using C(2) PopCompleteFrame_total [OF _ m] by (metis mark_frame_fields(1))
  next
    case False
    then show ?thesis using C(1) m by blast
  qed
  moreover have "\<exists>fa'. ProcessH264RtpPacket now fa q = Some fa' \<and> store_ok fa'" if "fui_nal_unit_type q = NAL_NALU"
  proof -
    obtain d where d: "Payload (h264_packet q) = Some d" using assms(2) by blast
    let ?b = "(push_bit 7 (fui_forbidden_bit q) OR push_bit 5 (fui_nal_reference_idc q) OR fui_nal_unit_type q) # d"
    obtain f fa1 where f: "CreateReceivedFrame now fa ?b ?t = (f, fa1)" by fastforce
    have "store_ok (CommitPendingFrame now fa1 ?t f (IsH264KeyFrame (rf_data f)) ?n False)"
      by (rule store_ok_shrink [OF assms(1)]) (simp_all only: finish_store [OF f])
    then show ?thesis using that d f by (simp add: ProcessH264RtpPacket_def Let_def)
  qed
  ultimately show ?thesis
    using assms(1) by (cases "fui_nal_unit_type q = NAL_NALU") (simp_all add: ProcessH264RtpPacket_def Let_def)
qed

lemma ProcessAv1RtpPacket_total:
  assumes "store_ok fa" and "Payload (av1_packet q) \<noteq> None"
  shows "\<exists>fa'. ProcessAv1RtpPacket now fa q = Some fa' \<and> store_ok fa'"
proof -
  let ?t = "rp_timestamp (av1_packet q)" and ?n = "rp_sequence_number (av1_packet q)"
  let ?fa = "fa\<lparr>fa_av1 := (fa_av1 fa)(?n \<mapsto> q)\<rparr>"
  let ?m = "mark_frame now ?fa ?t ?n (Av1FrameStart q) (Av1FrameEnd q)"
  have m: "store_ok ?m" using assms by (auto simp: store_ok_def)
  note C = av1_check [OF refl refl, where now = now and fa = ?fa and q = q]
  show ?thesis
  proof (cases "\<exists>a e c. due av1_packet (fa_av1 ?fa) (fa_start ?m) (fa_end ?m) ?t a e c")
    case True
    then show ?thesis using C(2) pop_av1_frame_total [OF _ m] unfolding ProcessAv1RtpPacket_def by (metis mark_frame_fields(2))
  next
    case False
    then show ?thesis using C(1) m unfolding ProcessAv1RtpPacket_def by blast
  qed
qed

section \<open>The receiver\<close>

text \<open>What holds of the receiver between two datagrams.\<close>

definition rx_safe :: "VideoReceiver \<Rightarrow> bool" where
  "rx_safe v \<longleftrightarrow> sender_idle v \<and> store_ok (vr_fa v)"

lemma rx_safe_cong: "vr_rtcp_sender w = vr_rtcp_sender v \<Longrightarrow> vr_fa w = vr_fa v \<Longrightarrow> rx_safe v \<Longrightarrow> rx_safe w"
  by (simp add: rx_safe_def sender_idle_def)

lemma io_calls_same [simp]: "vr_rtcp_sender (io_calls v cs) = vr_rtcp_sender v" "vr_fa (io_calls v cs) = vr_fa v"
  by (simp_all add: io_calls_def)

lemma insert_statistics_sender [simp]: "vr_rtcp_sender (insert_statistics now v r p m q) = vr_rtcp_sender v"
  "vr_fa (insert_statistics now v r p m q) = vr_fa v"
  by (simp_all add: insert_statistics_def Let_def add_received_bytes_def)

lemma insert_obsolete_safe: "rx_safe v \<Longrightarrow> rx_safe (insert_obsolete now v r m)"
  by (erule rx_safe_cong [rotated -1]) (simp_all add: insert_obsolete_def Let_def)

lemma media_of_total:
  assumes "packet_ok p"
  shows "\<exists>m. media_of v p = Some m \<and> (\<forall>q. m = Some q \<longrightarrow> packet_ok q)"
  using RestoreMediaPacketFromRtx_total [OF assms, of "vr_remote_ssrc v" "vr_media_payload_type v" new_RtpPacket] assms
  by (auto simp: media_of_def)

lemma RequestKeyFrame_safe: "rx_safe v \<Longrightarrow> \<exists>v'. RequestKeyFrame ds now v = Some v' \<and> rx_safe v'"
  using RequestKeyFrame_total [of v ds now] RequestKeyFrame_core [of ds now v] by (fastforce simp: rx_safe_def)

lemma insert_nack_safe: "rx_safe v \<Longrightarrow> \<exists>v'. insert_nack ds now v r m = Some v' \<and> rx_safe v'"
  using insert_nack_total [of v ds now r m] insert_nack_core [of ds now v r m] by (fastforce simp: rx_safe_def)

lemma insert_payload_safe:
  assumes "rx_safe v" and "packet_ok m"
  shows "\<exists>v'. insert_payload ds object now v m = Some v' \<and> rx_safe v'"
proof -
  have sz: "rp_size m \<le> length (rp_buffer m)" "rp_size m < 2 ^ 32" using assms(2) by (auto simp: packet_ok_def)
  have st: "store_ok (vr_fa v)" and fa: "rx_safe (v\<lparr>vr_fa := fa\<rparr>)" if "store_ok fa" for fa
    using assms(1) that by (simp_all add: rx_safe_def sender_idle_def)
  obtain ok q where q: "open_av1 (rp_buffer m) (rp_size m) = Some (ok, q)" "ok \<longrightarrow> Payload (av1_packet q) \<noteq> None"
    using open_av1_total [OF sz] by blast
  obtain ok' q' where q': "open_h264 object (rp_buffer m) (rp_size m) = Some (ok', q')" "ok' \<longrightarrow> Payload (h264_packet q') \<noteq> None"
    using open_h264_total [OF sz] by blast
  note K = RequestKeyFrame_safe [OF assms(1), of ds now]
  have A: "\<exists>v'. do { fa \<leftarrow> ProcessAv1RtpPacket now (vr_fa v) q; Some (v\<lparr>vr_fa := fa\<rparr>) } = Some v' \<and> rx_safe v'" if "ok"
    using ProcessAv1RtpPacket_total [of "vr_fa v" q now] assms(1) q(2) that fa by (auto simp: rx_safe_def)
  have H: "\<exists>v'. do { fa \<leftarrow> ProcessH264RtpPacket now (vr_fa v) q'; Some (v\<lparr>vr_fa := fa\<rparr>) } = Some v' \<and> rx_safe v'" if "ok'"
    using ProcessH264RtpPacket_total [of "vr_fa v" q' now] assms(1) q'(2) that fa by (auto simp: rx_safe_def)
  show ?thesis unfolding insert_payload_def using q(1) q'(1) K A H assms(1) by (cases ok; cases ok') simp_all
qed

lemma rx_safe_if: "rx_safe v \<Longrightarrow> rx_safe w \<Longrightarrow> rx_safe (if c then v else w)"
  by simp

lemma some_safe: "P v \<Longrightarrow> \<exists>v'. Some v = Some v' \<and> P v'"
  by simp

lemma some_if:
  "(c \<Longrightarrow> \<exists>v. x = Some v \<and> P v) \<Longrightarrow> (\<not> c \<Longrightarrow> \<exists>v. y = Some v \<and> P v) \<Longrightarrow> \<exists>v. (if c then x else y) = Some v \<and> P v"
  by simp

lemma insert_media_safe:
  assumes "rx_safe v" and "packet_ok p" and "packet_ok m"
  shows "\<exists>v'. insert_media ds object now v r p m = Some v' \<and> rx_safe v'"
proof -
  let ?v = "if r then count rc_accepted_rtx_packets_update v else v"
  have v: "rx_safe ?v" using assms(1) by (auto intro: rx_safe_cong)
  obtain ok q where q: "RtpPacket_Build new_RtpPacket (rp_buffer m) (rp_size m) = Some (ok, q)"
    using Build_packet_ok [of "rp_size m" "rp_buffer m" new_RtpPacket] assms(3) by (auto simp: packet_ok_def)
  have s: "rx_safe (insert_statistics now ?v r p m q')" for q' by (rule rx_safe_cong [OF _ _ v]) simp_all
  have c: "rx_safe (w\<lparr>vr_calls := cs\<rparr>)" if "rx_safe w" for w cs by (rule rx_safe_cong [OF _ _ that]) simp_all
  have pad: "rx_safe (io_calls (add_received_bytes (?v\<lparr>vr_calls := cs\<rparr>) p) ds)" for cs ds
    by (rule rx_safe_cong [OF _ _ v]) (simp_all add: add_received_bytes_def)
  have rest: "\<exists>v'. do { w \<leftarrow> insert_nack ds now w r m; if pd then Some w else insert_payload ds object now w m } = Some v' \<and> rx_safe v'"
    if w: "rx_safe w" for w pd
  proof -
    obtain w1 where "insert_nack ds now w r m = Some w1" "rx_safe w1" using insert_nack_safe [OF w] by blast
    then show ?thesis using insert_payload_safe [OF _ assms(3), of w1 ds object now] by simp
  qed
  show ?thesis unfolding insert_media_def Let_def q Option.bind.simps prod.case
    by (intro some_if some_safe rest) (assumption | rule v s c pad rx_safe_if)+
qed

lemma InsertRtpPacket_safe:
  assumes "rx_safe v" and "packet_ok p"
  shows "\<exists>v'. InsertRtpPacket ds object now v p = Some v' \<and> rx_safe v'"
proof -
  obtain m where m: "media_of v p = Some m" "\<And>q. m = Some q \<Longrightarrow> packet_ok q" using media_of_total [OF assms(2)] by blast
  show ?thesis
    using m(1) assms(1) insert_obsolete_safe [OF assms(1)] insert_media_safe [OF assms(1,2) m(2)]
    by (cases m) (auto simp: InsertRtpPacket_def Let_def)
qed

text \<open>The worker only takes packets out of the store.\<close>

lemma store_ok_pending [simp]: "store_ok (fa\<lparr>fa_pending := ps\<rparr>) = store_ok fa"
  by (simp add: store_ok_def)

lemma DropFrameAssembly_store: "store_ok fa \<Longrightarrow> store_ok (DropFrameAssembly fa t)"
  by (erule store_ok_shrink) (auto simp: DropFrameAssembly_def ClearFrameMarkers_def Let_def split: option.splits if_splits)

lemma drop_first_store [intro]: "store_ok (vr_fa v) \<Longrightarrow> store_ok (vr_fa (drop_first v t))"
  by (simp add: drop_first_def Let_def DropFrameAssembly_store)

lemma update_first_store [simp]: "store_ok (vr_fa (update_first f v)) = store_ok (vr_fa v)"
  by (simp add: update_first_def)

lemma process_deadlines_store:
  assumes "process_deadlines ds timing now v t p = Some (out, v')" and "store_ok (vr_fa v)"
  shows "store_ok (vr_fa v')"
  using assms drop_first_store [of "MarkFrameDiscarded (clear_nacks (v\<lparr>vr_awaiting_keyframe := True\<rparr>) p) t" t]
  unfolding process_deadlines_def Let_def
  by (auto dest!: request_if_due_core split: if_splits bind_splits)

lemma process_step_store:
  assumes "process_step ds timing now v = Some (out, v')" and "store_ok (vr_fa v)"
  shows "store_ok (vr_fa v')"
proof (cases "fa_pending (vr_fa v)")
  case (Cons e rest)
  obtain t p where e: "e = (t, p)" by fastforce
  show ?thesis
    using assms drop_first_store [of v t] drop_first_store [of "v\<lparr>vr_awaiting_keyframe := True\<rparr>" t]
      process_deadlines_store [of ds timing now v t p out v']
    unfolding process_step_def Cons e list.case prod.case Let_def by (auto split: if_splits)
qed (use assms in \<open>simp add: process_step_def\<close>)

lemma process_loop_store: "process_loop ds timing clock i v = Some (ok, v') \<Longrightarrow> store_ok (vr_fa v) \<Longrightarrow> store_ok (vr_fa v')"
proof (induction ds timing clock i v rule: process_loop.induct)
  case (1 ds timing clock i v)
  show ?case
  proof (cases "process_step ds timing (clock i) v")
    case (Some s)
    obtain out v1 where s: "s = (out, v1)" by fastforce
    have "store_ok (vr_fa v1)" using process_step_store [of ds timing "clock i" v out v1] Some s "1.prems"(2) by simp
    then show ?thesis
      using "1.prems"(1) "1.IH" [OF Some s [symmetric]] Some s by (subst (asm) process_loop.simps) (auto split: outcome.splits)
  qed (use "1.prems" in \<open>simp add: process_loop.simps\<close>)
qed

lemma Process_safe:
  assumes "rx_safe v"
  shows "\<exists>ok v'. Process ds now clock v = Some (ok, v') \<and> rx_safe v'"
proof (cases "vr_is_running v")
  case True
  have v: "sender_idle v" "store_ok (vr_fa v)" using assms by (simp_all add: rx_safe_def)
  obtain v1 where 1: "ProcessPendingNacks ds now v = Some v1" "sender_idle v1" using ProcessPendingNacks_total [OF v(1)] by blast
  let ?v2 = "MaybeLogRecoveryStats now v1 False"
  have "sender_idle ?v2" using 1(2) by (simp add: MaybeLogRecoveryStats_def sender_idle_def)
  then obtain v3 where 3: "MaybeRetryKeyFrameRequest ds now ?v2 = Some v3" "sender_idle v3"
    using MaybeRetryKeyFrameRequest_total by blast
  have fa: "vr_fa v3 = vr_fa v"
    using ProcessPendingNacks_core [OF 1(1)] MaybeRetryKeyFrameRequest_core [OF 3(1)] by (simp add: MaybeLogRecoveryStats_def)
  obtain ok v' where L: "process_loop ds (GetFrameRecoveryTiming v3) clock 0 v3 = Some (ok, v')" "sender_idle v'"
    using process_loop_total [OF 3(2)] by blast
  then show ?thesis
    using True 1(1) 3(1) process_loop_store [OF L(1)] v(2) fa by (simp add: Process_def rx_safe_def)
qed (use assms in \<open>auto simp: Process_def\<close>)

section \<open>Executions\<close>

text \<open>What happens to a channel: a datagram arrives, or the worker takes a turn.\<close>

datatype rx_event = Datagram timestamp "byte list" | Turn timestamp "nat \<Rightarrow> timestamp"

definition run_event :: "send_func \<Rightarrow> RtpPacketH264 \<Rightarrow> rx_event \<Rightarrow> VideoReceiver \<Rightarrow> VideoReceiver option" where
  "run_event data_send_func object e v =
     (case e of Datagram now d \<Rightarrow> map_option snd (OnReceiveRtpPacket data_send_func object now v d)
      | Turn now clock \<Rightarrow> map_option snd (Process data_send_func now clock v))"

lemma run_event_safe:
  assumes "rx_safe v"
  shows "\<exists>v'. run_event ds object e v = Some v' \<and> rx_safe v'"
proof (cases e)
  case (Datagram now d)
  let ?v = "io_calls v [UpdateVideoInboundBytes (of_nat (length d))]" and ?n = "unat (of_nat (length d) :: u32)"
  have v: "rx_safe ?v" by (rule rx_safe_cong [OF _ _ assms]) simp_all
  have "?n \<le> length d" "?n < 2 ^ 32" by (simp_all add: unat_of_nat)
  then obtain ok p where p: "RtpPacket_Build new_RtpPacket d ?n = Some (ok, p)" "ok \<longrightarrow> packet_ok p"
    using Build_packet_ok by blast
  show ?thesis
    using p v InsertRtpPacket_safe [OF v, of p ds object now] by (auto simp: Datagram run_event_def OnReceiveRtpPacket_def Let_def)
next
  case (Turn now clock)
  then show ?thesis using Process_safe [OF assms, of ds now clock] by (auto simp: run_event_def)
qed

lemma new_channel_safe:
  "length buf = IP_PACKET_SIZE \<Longrightarrow> rx_safe (Channel_Initialize remote rtx ext pt (new_VideoReceiver ssrc buf io t0))"
  using new_VideoReceiver_idle [of buf ssrc io t0]
  by (simp add: rx_safe_def sender_idle_def store_ok_def Channel_Initialize_def SetOnReceiveCompleteFrame_def
      SetAbsoluteSendTimeExtensionId_def SetMediaConfig_def new_VideoReceiver_def new_FrameAssembly_def Let_def)

text \<open>
  C3: no datagram can make the receiver misbehave. From an initialised channel, for every
  configuration, every state of the transport, every sequence of datagrams with arbitrary bytes
  arriving at arbitrary times and turns of the worker in between, every step completes: no read or
  write outside a buffer, no endless loop, and the state that carries this on is kept.
\<close>

theorem any_datagrams_safe:
  assumes "length buf = IP_PACKET_SIZE"
  shows "\<exists>v'. foldM (run_event ds object) es (Channel_Initialize remote rtx ext pt (new_VideoReceiver ssrc buf io t0)) = Some v' \<and>
    sender_idle v' \<and> store_ok (vr_fa v')"
  using foldM_inv [of es rx_safe "run_event ds object", OF run_event_safe new_channel_safe [OF assms]]
  by (simp add: rx_safe_def)

theorem any_datagrams_safe_witness:
  "\<exists>v'. foldM (run_event None undefined) [Datagram 5 [1, 2, 3], Datagram 9 (replicate 40 255), Turn 12 (\<lambda>i. 12), Datagram 10 []]
     (Channel_Initialize 1 2 None 96 (new_VideoReceiver 7 (replicate 1500 0) False 0)) = Some v' \<and> sender_idle v'"
  using any_datagrams_safe [of "replicate 1500 0" None undefined
      "[Datagram 5 [1, 2, 3], Datagram 9 (replicate 40 255), Turn 12 (\<lambda>i. 12), Datagram 10 []]" 1 2 None 96 7 False 0]
  by (auto simp: IP_PACKET_SIZE_def simp del: foldM.simps)

end
