(* ===== verification/Controller.thy ===== *)
theory Controller
  imports Demux ReceiverSafety
begin

text \<open>
  What the transport controller does with the messages of the other side,
  \<open>src/transport/ice_transport_controller.{h,cpp}\<close>: media go to the receiver of their source, NACKs to
  the sender of the requested source, requests for key frames to the encoder of the stream, sender
  reports to the receiver, and receiver reports give round-trip times and loss.

  A stream is modelled as far as these handlers use it; the transceiver of a stream that is not
  video is not modelled. Clock readings are arguments: \<open>now\<close> and \<open>tick\<close>, the time in the task queues.
\<close>

section \<open>State\<close>

record SenderContext =
  sx_ssrc :: "u32 option"
  sx_is_video :: bool
  sx_transceiver :: "VideoSender option"

record ReceiverContext =
  rx_is_video :: bool
  rx_transceiver :: "VideoReceiver option"

record LossReport =
  lr_extended_highest_sequence_number :: u32
  lr_cumulative_lost :: int

record TransportLossReport =
  tl_packets_lost_delta :: int
  tl_packets_received_delta :: int
  tl_receive_time :: timestamp
  tl_start_time :: timestamp

record Controller =
  ct_stream_senders :: "(string \<times> SenderContext option) list"
  ct_stream_receivers :: "(string \<times> ReceiverContext option) list"
  ct_ssrc_to_name :: "u32 \<rightharpoonup> string"
  ct_force_i_frame_streams :: "string list"
  ct_b_force_i_frame :: bool
  ct_last_report_blocks :: "u32 \<rightharpoonup> LossReport"
  ct_last_report_block_time :: timestamp
  ct_loss_reports :: "TransportLossReport list"

section \<open>NACK and key frames\<close>

fun first_sender :: "u32 \<Rightarrow> (VideoSender \<Rightarrow> VideoSender option) \<Rightarrow> (string \<times> SenderContext option) list \<Rightarrow> (string \<times> SenderContext option) list option" where
  "first_sender media_ssrc f [] = Some []"
| "first_sender media_ssrc f ((name, c) # senders) =
     (case c of
        Some x \<Rightarrow>
          (case sx_transceiver x of
             Some s \<Rightarrow>
               if sx_is_video x \<and> (case sx_ssrc x of Some i \<Rightarrow> i | None \<Rightarrow> 0) = media_ssrc
               then do { s \<leftarrow> f s; Some ((name, Some (x\<lparr>sx_transceiver := Some s\<rparr>)) # senders) }
               else map_option ((#) (name, c)) (first_sender media_ssrc f senders)
           | None \<Rightarrow> map_option ((#) (name, c)) (first_sender media_ssrc f senders))
      | None \<Rightarrow> map_option ((#) (name, c)) (first_sender media_ssrc f senders))"

definition Controller_OnReceiveNack :: "int \<Rightarrow> Controller \<Rightarrow> u32 \<Rightarrow> u16 list \<Rightarrow> Controller option" where
  "Controller_OnReceiveNack tick c media_ssrc nack_sequence_numbers = do {
     senders \<leftarrow> first_sender media_ssrc (\<lambda>s. OnReceiveNack tick s nack_sequence_numbers) (ct_stream_senders c);
     Some (c\<lparr>ct_stream_senders := senders\<rparr>) }"

definition video_names :: "(string \<times> SenderContext option) list \<Rightarrow> string list" where
  "video_names senders = map fst (filter (\<lambda>(name, c). case c of Some x \<Rightarrow> sx_is_video x | None \<Rightarrow> False) senders)"

definition FullIntraRequestAllVideoStreams :: "Controller \<Rightarrow> Controller" where
  "FullIntraRequestAllVideoStreams c =
     (let channel_names = video_names (ct_stream_senders c) in
      if channel_names = [] then c\<lparr>ct_b_force_i_frame := True\<rparr>
      else c\<lparr>ct_force_i_frame_streams := foldl (\<lambda>s n. List.insert n s) (ct_force_i_frame_streams c) channel_names\<rparr>)"

definition FullIntraRequest_channel :: "Controller \<Rightarrow> string \<Rightarrow> Controller" where
  "FullIntraRequest_channel c channel_name =
     (if channel_name = [] then FullIntraRequestAllVideoStreams c
      else c\<lparr>ct_force_i_frame_streams := List.insert channel_name (ct_force_i_frame_streams c)\<rparr>)"

definition FullIntraRequest :: "Controller \<Rightarrow> u32 \<Rightarrow> Controller" where
  "FullIntraRequest c media_ssrc =
     (if media_ssrc = 0 then FullIntraRequestAllVideoStreams c
      else
        let channel_name = (case find (\<lambda>(name, x). case x of Some x \<Rightarrow> sx_is_video x \<and> (case sx_ssrc x of Some i \<Rightarrow> i | None \<Rightarrow> 0) = media_ssrc | None \<Rightarrow> False)
              (ct_stream_senders c) of Some (name, x) \<Rightarrow> name | None \<Rightarrow> []) in
        if channel_name = [] then c else FullIntraRequest_channel c channel_name)"

section \<open>Media and sender reports\<close>

fun at_name :: "string \<Rightarrow> ('a \<Rightarrow> 'a option) \<Rightarrow> (string \<times> 'a) list \<Rightarrow> (string \<times> 'a) list option" where
  "at_name n f [] = Some []"
| "at_name n f ((k, x) # xs) = (if k = n then do { x \<leftarrow> f x; Some ((k, x) # xs) } else map_option ((#) (k, x)) (at_name n f xs))"

text \<open>\<open>stream_receivers_[channel_name]->transceiver->\<close> dereferences without a check.\<close>

definition OnReceiveVideoRtpPacket :: "send_func \<Rightarrow> RtpPacketH264 \<Rightarrow> timestamp \<Rightarrow> Controller \<Rightarrow> byte list \<Rightarrow> u32 \<Rightarrow> Controller option" where
  "OnReceiveVideoRtpPacket data_send_func object now c data ssrc =
     (case ct_ssrc_to_name c ssrc of None \<Rightarrow> Some c
      | Some channel_name \<Rightarrow> do {
          receivers \<leftarrow> at_name channel_name (\<lambda>x. do {
            x \<leftarrow> x; v \<leftarrow> rx_transceiver x;
            (r, v) \<leftarrow> OnReceiveRtpPacket data_send_func object now v data;
            Some (Some (x\<lparr>rx_transceiver := Some v\<rparr>)) }) (ct_stream_receivers c);
          Some (c\<lparr>ct_stream_receivers := receivers\<rparr>) })"

definition Controller_OnSenderReport :: "SystemClock option \<Rightarrow> int \<Rightarrow> int \<Rightarrow> timestamp \<Rightarrow> Controller \<Rightarrow> SenderReport \<Rightarrow> Controller option" where
  "Controller_OnSenderReport system_clock utc_ns mono_ns now c sender_report =
     (case ct_ssrc_to_name c (sr_sender_ssrc sender_report) of None \<Rightarrow> Some c
      | Some channel_name \<Rightarrow> do {
          receivers \<leftarrow> at_name channel_name (\<lambda>x. Some (map_option (\<lambda>x. x\<lparr>rx_transceiver :=
            map_option (\<lambda>v. OnSenderReport system_clock utc_ns mono_ns now v sender_report) (rx_transceiver x)\<rparr>) x)) (ct_stream_receivers c);
          Some (c\<lparr>ct_stream_receivers := receivers\<rparr>) })"

section \<open>Receiver reports\<close>

definition usable_rtt :: "RtcpReportBlock \<Rightarrow> bool" where
  "usable_rtt b \<longleftrightarrow> rb_num_rtts b \<noteq> 0 \<and> 0 < rb_last_rtt b \<and> rb_last_rtt b \<le> 2000"

text \<open>The first loop: the lowest usable round trip, and the update of the senders.\<close>

fun rtt_updates :: "int \<Rightarrow> RtcpReportBlock list \<Rightarrow> int option \<Rightarrow> (string \<times> SenderContext option) list \<Rightarrow> (int option \<times> (string \<times> SenderContext option) list) option" where
  "rtt_updates tick [] transport_rtt_ms senders = Some (transport_rtt_ms, senders)"
| "rtt_updates tick (b # bs) transport_rtt_ms senders =
     (if \<not> usable_rtt b then rtt_updates tick bs transport_rtt_ms senders
      else do {
        senders \<leftarrow> first_sender (rb_source_ssrc b) (\<lambda>s. VideoSender.OnRttUpdate tick s (rb_last_rtt b)) senders;
        rtt_updates tick bs (Some (case transport_rtt_ms of Some r \<Rightarrow> min r (rb_last_rtt b) | None \<Rightarrow> rb_last_rtt b)) senders })"

definition update_receivers :: "int \<Rightarrow> (string \<times> ReceiverContext option) list \<Rightarrow> (string \<times> ReceiverContext option) list" where
  "update_receivers rtt_ms = map (apsnd (map_option (\<lambda>x. if rx_is_video x
     then x\<lparr>rx_transceiver := map_option (\<lambda>v. VideoReceiver.OnRttUpdate v rtt_ms) (rx_transceiver x)\<rparr> else x)))"

text \<open>The second loop: sums of \<open>int\<close>; the difference of the extended numbers is taken in \<open>uint32_t\<close>.\<close>

fun loss_deltas :: "RtcpReportBlock list \<Rightarrow> (u32 \<rightharpoonup> LossReport) \<Rightarrow> int \<Rightarrow> int \<Rightarrow> int \<times> int \<times> (u32 \<rightharpoonup> LossReport)" where
  "loss_deltas [] blocks packets_delta lost_delta = (packets_delta, lost_delta, blocks)"
| "loss_deltas (b # bs) blocks packets_delta lost_delta =
     (let (packets_delta, lost_delta) = (case blocks (rb_source_ssrc b) of
            None \<Rightarrow> (packets_delta, lost_delta)
          | Some l \<Rightarrow> (sint (of_int packets_delta + (rb_extended_high_seq_num b - lr_extended_highest_sequence_number l) :: u32),
              lost_delta + (CumulativeLost b - lr_cumulative_lost l))) in
      loss_deltas bs (blocks(rb_source_ssrc b \<mapsto> \<lparr>lr_extended_highest_sequence_number = rb_extended_high_seq_num b,
        lr_cumulative_lost = CumulativeLost b\<rparr>)) packets_delta lost_delta)"

definition Controller_OnReceiverReport :: "int \<Rightarrow> timestamp \<Rightarrow> Controller \<Rightarrow> RtcpReportBlock list \<Rightarrow> Controller option" where
  "Controller_OnReceiverReport tick now c report_block_datas =
     (if report_block_datas = [] then Some c
      else do {
        (transport_rtt_ms, senders) \<leftarrow> rtt_updates tick report_block_datas None (ct_stream_senders c);
        let c = c\<lparr>ct_stream_senders := senders,
              ct_stream_receivers := (case transport_rtt_ms of Some r \<Rightarrow> update_receivers r (ct_stream_receivers c) | None \<Rightarrow> ct_stream_receivers c)\<rparr>;
            (packets_delta, lost_delta, blocks) = loss_deltas report_block_datas (ct_last_report_blocks c) 0 0;
            c = c\<lparr>ct_last_report_blocks := blocks\<rparr> in
        if packets_delta = 0 \<or> packets_delta - lost_delta < 1 then Some c
        else Some (c\<lparr>ct_loss_reports := ct_loss_reports c @ [\<lparr>tl_packets_lost_delta = lost_delta,
            tl_packets_received_delta = packets_delta - lost_delta, tl_receive_time = now, tl_start_time = ct_last_report_block_time c\<rparr>],
          ct_last_report_block_time := now\<rparr>) })"

section \<open>The calls of the transport\<close>

text \<open>
  A call made by the transport, performed by the controller. Congestion control feedback, audio and
  data leave the parts of the controller that are modelled here as they are.
\<close>

record Readings =
  rd_send_func :: send_func
  rd_object :: RtpPacketH264
  rd_clock :: "SystemClock option"
  rd_utc_ns :: int
  rd_mono_ns :: int
  rd_now :: timestamp
  rd_tick :: int

definition perform :: "Readings \<Rightarrow> TransportCall \<Rightarrow> Controller \<Rightarrow> Controller option" where
  "perform r a c =
     (case a of
        NackCall media_ssrc numbers \<Rightarrow> Controller_OnReceiveNack (rd_tick r) c media_ssrc numbers
      | FirCall media_ssrc \<Rightarrow> Some (FullIntraRequest c media_ssrc)
      | VideoCall b ssrc \<Rightarrow> OnReceiveVideoRtpPacket (rd_send_func r) (rd_object r) (rd_now r) c b ssrc
      | SenderReportCall s \<Rightarrow> Controller_OnSenderReport (rd_clock r) (rd_utc_ns r) (rd_mono_ns r) (rd_now r) c s
      | ReceiverReportCall bs \<Rightarrow> Controller_OnReceiverReport (rd_tick r) (rd_now r) c bs
      | _ \<Rightarrow> Some c)"

end
