(* ===== verification/Recovery.thy ===== *)
theory Recovery
  imports Controller
begin

text \<open>
  Recovery across the network: what the receiving side of one peer asks for, the sending side of the
  other peer does. The requests of \<open>RtpVideoReceiver\<close> travel as RTCP datagrams through
  \<open>IceTransport::OnReceiveBuffer\<close> and \<open>IceTransportController\<close> to \<open>VideoChannelSend\<close> and to the encoder.
\<close>

section \<open>A datagram at the other peer\<close>

text \<open>The transport makes its calls and the controller performs them.\<close>

definition receive_datagram :: "(byte list \<Rightarrow> (byte list \<times> u32) option) \<Rightarrow> (nat \<Rightarrow> int \<times> int) \<Rightarrow> SenderReport \<Rightarrow> ReceiverReport \<Rightarrow> Readings \<Rightarrow>
    byte list \<Rightarrow> IceTransport \<times> Controller \<Rightarrow> (IceTransport \<times> Controller) option" where
  "receive_datagram decrypt clock sr rr r b p =
     (case p of (t, c) \<Rightarrow> do {
        t \<leftarrow> OnReceiveBuffer decrypt clock sr rr (t\<lparr>tr_calls := []\<rparr>) b;
        c \<leftarrow> foldM (perform r) (tr_calls t) c;
        Some (t\<lparr>tr_calls := []\<rparr>, c) })"

section \<open>Requests for packets\<close>

lemma prompt_later: "prompt t q \<Longrightarrow> t \<le> tick \<Longrightarrow> prompt tick q"
  by (auto simp: prompt_def)

lemma OnReceiveNack_adds:
  assumes "nack_state t ids s" and "ns \<noteq> []" and "t \<le> tick"
  shows "\<exists>s'. OnReceiveNack tick s ns = Some s' \<and> nack_state tick (insert_pending ns ids) s' \<and>
    vs_rtp_packet_history s' = vs_rtp_packet_history s \<and> vs_paced_sender s' = vs_paced_sender s \<and> vs_rtx_ssrc s' = vs_rtx_ssrc s"
proof (cases "ids = []")
  case True
  then show ?thesis using OnReceiveNack_state [of t s ns tick] assms by simp
next
  case False
  have grows: "set ids \<subseteq> set (insert_pending ns ids)" for ids :: "u16 list"
    by (induction ns arbitrary: ids) (force split: if_split)+
  then have ne: "insert_pending ns ids \<noteq> []" using False by (metis set_empty subset_empty)
  let ?s = "s\<lparr>vs_pending_nacks := insert_pending ns ids\<rparr>"
  have "OnReceiveNack tick s ns = Some ?s"
    using assms(1,2) False by (auto simp: OnReceiveNack_def nack_state_def sender_ready_def collect_nacks_def Let_def)
  moreover have "nack_state tick (insert_pending ns ids) ?s"
    using assms(1,3) False ne prompt_later [OF _ assms(3)] by (auto simp: nack_state_def sender_ready_def)
  ultimately show ?thesis by auto
qed

lemma insert_pending_fresh:
  assumes "distinct (ids @ ns)" and "length (ids @ ns) \<le> kMaxCapacity"
  shows "insert_pending ns ids = ids @ ns"
  using assms
proof (induction ns arbitrary: ids)
  case (Cons n ns)
  then show ?case using Cons.IH [of "ids @ [n]"] by simp
qed simp

text \<open>The stream of a source: the first one with that source.\<close>

definition sends :: "u32 \<Rightarrow> SenderContext option \<Rightarrow> bool" where
  "sends ssrc c \<longleftrightarrow> (\<exists>x. c = Some x \<and> sx_is_video x \<and> sx_transceiver x \<noteq> None \<and> (case sx_ssrc x of Some i \<Rightarrow> i | None \<Rightarrow> 0) = ssrc)"

lemma first_sender_at:
  assumes "\<forall>(n, c) \<in> set pre. \<not> sends ssrc c" and "sends ssrc (Some x)" and "sx_transceiver x = Some s" and "f s = Some s'"
  shows "first_sender ssrc f (pre @ (name, Some x) # post) = Some (pre @ (name, Some (x\<lparr>sx_transceiver := Some s'\<rparr>)) # post)"
  using assms(1)
proof (induction pre)
  case Nil
  then show ?case using assms(2-4) by (simp add: sends_def)
next
  case (Cons a pre)
  obtain n c where a: "a = (n, c)" by fastforce
  show ?case using Cons a by (auto simp: sends_def split: option.splits)
qed

lemma nacks_delivered:
  assumes "list_all2 parses_as_nack bs rs" and "\<forall>r \<in> set rs. packet_ids r \<noteq> [] \<and> nack_media_ssrc r = ssrc"
    and "\<not> tr_is_closed t" and "tr_controller t"
    and "\<forall>(n, c) \<in> set pre. \<not> sends ssrc c" and "sends ssrc (Some x)" and "sx_transceiver x = Some s"
    and "ct_stream_senders c = pre @ (name, Some x) # post" and "nack_state t0 ids s" and "t0 \<le> rd_tick r"
    and "distinct (ids @ concat (map packet_ids rs))" and "length (ids @ concat (map packet_ids rs)) \<le> kMaxCapacity"
  shows "\<exists>t' c' s'. foldM (receive_datagram decrypt clock sr rr r) bs (t, c) = Some (t', c') \<and>
    c' = c\<lparr>ct_stream_senders := pre @ (name, Some (x\<lparr>sx_transceiver := Some s'\<rparr>)) # post\<rparr> \<and>
    nack_state (if bs = [] then t0 else rd_tick r) (ids @ concat (map packet_ids rs)) s' \<and>
    vs_rtp_packet_history s' = vs_rtp_packet_history s \<and> vs_paced_sender s' = vs_paced_sender s \<and> vs_rtx_ssrc s' = vs_rtx_ssrc s"
  using assms
proof (induction bs rs arbitrary: t c x s ids t0 rule: list_all2_induct)
  case Nil
  then have "c = c\<lparr>ct_stream_senders := pre @ (name, Some (x\<lparr>sx_transceiver := Some s\<rparr>)) # post\<rparr>"
    by (cases c, cases x) simp
  with Nil show ?case by (intro exI [of _ t] exI [of _ c] exI [of _ s]) simp
next
  case (Cons b bs q rs)
  let ?t = "t\<lparr>tr_calls := []\<rparr>"
  have q: "packet_ids q \<noteq> []" "nack_media_ssrc q = ssrc" using Cons.prems(1) by auto
  obtain s1 where s1: "OnReceiveNack (rd_tick r) s (packet_ids q) = Some s1" "nack_state (rd_tick r) (insert_pending (packet_ids q) ids) s1"
      "vs_rtp_packet_history s1 = vs_rtp_packet_history s" "vs_paced_sender s1 = vs_paced_sender s" "vs_rtx_ssrc s1 = vs_rtx_ssrc s"
    using OnReceiveNack_adds [OF Cons.prems(8) q(1) Cons.prems(9)] by blast
  have ip: "insert_pending (packet_ids q) ids = ids @ packet_ids q"
    by (rule insert_pending_fresh) (use Cons.prems(10,11) in auto)
  let ?x = "x\<lparr>sx_transceiver := Some s1\<rparr>"
  let ?c = "c\<lparr>ct_stream_senders := pre @ (name, Some ?x) # post\<rparr>"
  have p: "perform r (NackCall ssrc (packet_ids q)) c = Some ?c"
    using first_sender_at [OF Cons.prems(4,5,6), of "\<lambda>s. OnReceiveNack (rd_tick r) s (packet_ids q)" s1 name post] s1(1) Cons.prems(7)
    by (simp add: perform_def Controller_OnReceiveNack_def)
  have d: "receive_datagram decrypt clock sr rr r b (t, c) = Some (?t, ?c)"
    using nack_dispatched [OF Cons.hyps(1), of ?t decrypt clock sr rr] Cons.prems(2,3) q(2) p
    by (simp add: receive_datagram_def call_def)
  have x: "sends ssrc (Some ?x)" using Cons.prems(5) by (simp add: sends_def)
  have "\<exists>t' c' s'. foldM (receive_datagram decrypt clock sr rr r) bs (?t, ?c) = Some (t', c') \<and>
      c' = ?c\<lparr>ct_stream_senders := pre @ (name, Some (?x\<lparr>sx_transceiver := Some s'\<rparr>)) # post\<rparr> \<and>
      nack_state (if bs = [] then rd_tick r else rd_tick r) ((ids @ packet_ids q) @ concat (map packet_ids rs)) s' \<and>
      vs_rtp_packet_history s' = vs_rtp_packet_history s1 \<and> vs_paced_sender s' = vs_paced_sender s1 \<and> vs_rtx_ssrc s' = vs_rtx_ssrc s1"
    by (rule Cons.IH) (use Cons.prems x s1(2) ip in auto)
  then show ?case using d s1(3-5) by auto
qed

section \<open>Properties\<close>


text \<open>The receiver of source 1 and the peer that sends it and still holds the packet with number 5.\<close>

definition example_context :: SenderContext where
  "example_context = \<lparr>sx_ssrc = Some 1, sx_is_video = True, sx_transceiver = Some sending_channel\<rparr>"

definition example_controller :: Controller where
  "example_controller = \<lparr>ct_stream_senders = [(''data'', None), (''cam'', Some example_context)], ct_stream_receivers = [],
     ct_ssrc_to_name = Map.empty, ct_force_i_frame_streams = [], ct_b_force_i_frame = False, ct_last_report_blocks = Map.empty,
     ct_last_report_block_time = 0, ct_loss_reports = []\<rparr>"

definition example_readings :: Readings where
  "example_readings = \<lparr>rd_send_func = None, rd_object = example_object, rd_clock = None, rd_utc_ns = 0, rd_mono_ns = 0, rd_now = 9, rd_tick = 1\<rparr>"

lemma example_receiver_ready: "sender_idle example_receiver" "RtxEnabled example_receiver" "\<not> vr_rtcp_stop example_receiver"
    "vr_remote_ssrc example_receiver = 1" "vr_next_keyframe_request_ms example_receiver = 0"
proof -
  show "sender_idle example_receiver"
    using new_VideoReceiver_idle [of "replicate 1500 0" 7 False 0]
    by (simp add: example_receiver_def sender_idle_def SetOnReceiveCompleteFrame_def SetMediaConfig_def IP_PACKET_SIZE_def Let_def)
  show "RtxEnabled example_receiver" "\<not> vr_rtcp_stop example_receiver" "vr_remote_ssrc example_receiver = 1"
      "vr_next_keyframe_request_ms example_receiver = 0"
    by code_simp+
qed


text \<open>
  C19: a request for a key frame reaches the encoder. A receiver that may send a request sends one
  datagram; at the peer that sends the stream it marks exactly the first video stream with that
  source for a key frame and changes nothing else of the controller.
\<close>

theorem key_frame_request_served:
  assumes "sender_idle v" and "vr_next_keyframe_request_ms v \<le> ms now" and "\<not> tr_is_closed t" and "tr_controller t"
    and "vr_remote_ssrc v \<noteq> 0" and "name \<noteq> []"
    and "ct_stream_senders c = pre @ (name, Some x) # post" and "sx_is_video x" and "sx_ssrc x = Some (vr_remote_ssrc v)"
    and "\<forall>(n, y) \<in> set pre. \<forall>z. y = Some z \<and> sx_is_video z \<longrightarrow> sx_ssrc z \<noteq> Some (vr_remote_ssrc v)"
  shows "\<exists>ok v' d t'. SendKeyFrameRequest ds now v enter = Some (ok, v') \<and> snd_sent (vr_rtcp_sender v') = snd_sent (vr_rtcp_sender v) @ [d] \<and>
    receive_datagram decrypt clock sr rr r d (t, c) =
      Some (t', c\<lparr>ct_force_i_frame_streams := List.insert name (ct_force_i_frame_streams c)\<rparr>)"
proof -
  have time: "(ms now < vr_next_keyframe_request_ms v) = False" using assms(2) by simp
  obtain ok v' d h f where d: "SendKeyFrameRequest ds now v enter = Some (ok, v')" "snd_sent (vr_rtcp_sender v') = snd_sent (vr_rtcp_sender v) @ [d]"
      "RtcpCommonHeader_Parse new_header d (length d) = Some (True, h)" "packet_size h = length d" "hdr_packet_type h = 206"
      "hdr_count_or_format h = 4" "Fir_Parse new_Fir h = Some (True, f)" "fir_items f = [\<lparr>req_ssrc = vr_remote_ssrc v, req_seq_nr = vr_sequence_number_fir v + 1\<rparr>]"
    using key_frame_request_sent [OF assms(1), of ds now enter, unfolded time if_False] by blast
  let ?t = "t\<lparr>tr_calls := []\<rparr>" and ?c = "FirCall (vr_remote_ssrc v)"
  have "handle_block clock sr rr h new_RtcpPacketInfo ?t = Some (True, new_RtcpPacketInfo, call ?c ?t)"
    using d(5-8) assms(4) by (simp add: handle_block_def HandleFir_def RTCP_TYPE_SR_def RTCP_TYPE_RR_def kRtpfbPacketType_def
        kFirPacketType_def kFirFeedbackMessageType_def)
  then have o: "OnReceiveBuffer decrypt clock sr rr ?t d = Some (call ?c ?t)"
    using one_block_dispatched [OF d(3,4)] Parse_type_byte [OF d(3)] d(5) assms(3) by simp
  let ?P = "\<lambda>(name :: string, x). case x of Some x \<Rightarrow> sx_is_video x \<and> (case sx_ssrc x of Some i \<Rightarrow> i | None \<Rightarrow> 0) = vr_remote_ssrc v | None \<Rightarrow> False"
  have "find ?P (pre @ (name, Some x) # post) = Some (name, Some x)"
    using assms(10)
  proof (induction pre)
    case (Cons a pre)
    then have "\<not> ?P a" using assms(5) by (cases a) (auto split: option.splits)
    then show ?case using Cons by simp
  qed (use assms(8,9) in simp)
  then have "FullIntraRequest c (vr_remote_ssrc v) = c\<lparr>ct_force_i_frame_streams := List.insert name (ct_force_i_frame_streams c)\<rparr>"
    using assms(5-7) by (simp add: FullIntraRequest_def FullIntraRequest_channel_def)
  then show ?thesis using d(1,2) o
    by (intro exI [of _ ok] exI [of _ v'] exI [of _ d] exI [of _ ?t]) (simp add: receive_datagram_def call_def perform_def)
qed

theorem key_frame_request_served_witness:
  "\<forall>sr rr. \<exists>ok v' d t'. SendKeyFrameRequest None 3000000 example_receiver True = Some (ok, v') \<and>
    receive_datagram (\<lambda>_. None) (\<lambda>_. (0, 0)) sr rr example_readings d (example_transport, example_controller) =
      Some (t', example_controller\<lparr>ct_force_i_frame_streams := [''cam'']\<rparr>)"
proof (intro allI)
  fix sr :: SenderReport and rr :: ReceiverReport
  have "ms 3000000 = 3000" by (simp add: ms_def ToFraction_def DivideRoundToNearest_def)
  then show "\<exists>ok v' d t'. SendKeyFrameRequest None 3000000 example_receiver True = Some (ok, v') \<and>
      receive_datagram (\<lambda>_. None) (\<lambda>_. (0, 0)) sr rr example_readings d (example_transport, example_controller) =
        Some (t', example_controller\<lparr>ct_force_i_frame_streams := [''cam'']\<rparr>)"
    using key_frame_request_served [of example_receiver 3000000 example_transport "''cam''" example_controller "[(''data'', None)]" example_context "[]"
        None True "\<lambda>_. None" "\<lambda>_. (0, 0)" sr rr example_readings] example_receiver_ready
    by (auto simp: example_controller_def example_context_def example_transport_def)
qed

end
