(* ===== verification/NackTrack.thy ===== *)
theory NackTrack
  imports FrameAssembly NackRequester
begin

text \<open>
  The NACK requester while the packets of one frame arrive: positions of sequence numbers relative
  to a frame, and the invariant \<open>nack_track\<close>, which says that exactly packets of the frame that are
  still missing can be requested, so that no request is left when all packets have arrived.
\<close>

section \<open>The numbers of a frame\<close>

text \<open>Positions on the circle of sequence numbers, counted from the number before the frame.\<close>

lemma position_at:
  assumes "i < 1000"
  shows "uint (SequenceNumberAt a i - (a - 1)) = int i + 1"
proof -
  have "SequenceNumberAt a i - (a - 1) = word_of_int (int i + 1)" by (simp add: SequenceNumberAt_def)
  then show ?thesis using assms by (simp only: uint_word_of_int) simp
qed

lemma place_half_circle: "i < 1000 \<Longrightarrow> SequenceNumberAt a i \<in> half_circle (a - 1)"
  unfolding half_circle_def mem_Collect_eq position_at by simp

lemma start_half_circle: "a - 1 \<in> half_circle (a - 1)"
  by (simp add: half_circle_def)

text \<open>A number at position \<open>j\<close>: the one before the frame, or one of the frame.\<close>

definition place :: "u16 \<Rightarrow> nat \<Rightarrow> u16" where
  "place a j = a - 1 + of_nat j"

lemma place_Suc: "place a (Suc i) = SequenceNumberAt a i"
  by (simp add: place_def SequenceNumberAt_def)

lemma place_minus: "distance (place a j) (place a k) = nat ((int k - int j) mod 2 ^ 16)"
proof -
  have "place a k - place a j = word_of_int (int k - int j)" by (simp add: place_def)
  then show ?thesis unfolding distance_def by (simp only: unat_eq_nat_uint uint_word_of_int) simp
qed

lemma place_distance: "j \<le> k \<Longrightarrow> k \<le> 1000 \<Longrightarrow> distance (place a j) (place a k) = k - j"
  by (simp add: place_minus nat_diff_distrib)

lemma place_distance_back:
  assumes "j < k" and "k \<le> 1000"
  shows "64000 < distance (place a k) (place a j)"
proof -
  have "(int j - int k + 2 ^ 16) mod 2 ^ 16 = int j - int k + 2 ^ 16"
    by (rule mod_pos_pos_trivial) (use assms in simp_all)
  then have "(int j - int k) mod 2 ^ 16 = int j - int k + 2 ^ 16" by (simp only: mod_add_self2)
  then show ?thesis using assms by (simp add: place_minus)
qed

lemma place_inj:
  assumes "j \<le> 1000" and "k \<le> 1000" and "place a j = place a k"
  shows "j = k"
proof -
  have d: "distance (place a j) (place a k) = 0" "distance (place a k) (place a j) = 0" using assms(3) by simp_all
  show ?thesis
  proof (cases "j \<le> k")
    case True
    then show ?thesis using place_distance [OF True assms(2), of a] d(1) by linarith
  next
    case False
    then show ?thesis using place_distance [of k j a] assms(1) d(2) by linarith
  qed
qed

lemma place_before: "j \<le> 1000 \<Longrightarrow> k \<le> 1000 \<Longrightarrow> AheadOf 0 (place a k) (place a j) \<longleftrightarrow> j < k"
proof -
  assume jk: "j \<le> 1000" "k \<le> 1000"
  have pos: "uint (place a l - (a - 1)) = int l" if "l \<le> 1000" for l
    using that by (simp add: place_def uint_nat unat_of_nat del: of_nat_unat)
  have "before (place a j) (place a k) \<longleftrightarrow> uint (place a j - (a - 1)) < uint (place a k - (a - 1))"
    by (rule before_position) (use jk in \<open>simp_all add: pos\<close>)
  then show ?thesis using jk by (simp add: pos before_def DescendingSeqNumComp_def)
qed

lemma place_range:
  assumes "j < k" and "k \<le> 1000"
  shows "seq_range (place a j + 1) (place a k) = place a ` {Suc j..<k}"
proof -
  have n: "place a j + 1 = place a (Suc j)" by (simp add: place_def)
  show ?thesis
  proof (intro set_eqI iffI)
    fix x assume "x \<in> seq_range (place a j + 1) (place a k)"
    then have d: "distance (place a (Suc j)) x < k - Suc j"
      using place_distance [of "Suc j" k a] assms unfolding n by (simp add: seq_range_def)
    define l where "l = distance (place a (Suc j)) x"
    have "x = place a (Suc j) + of_nat l" by (simp add: l_def distance_def)
    then have "x = place a (Suc j + l)" by (simp add: place_def)
    then show "x \<in> place a ` {Suc j..<k}" using d l_def by auto
  next
    fix x assume "x \<in> place a ` {Suc j..<k}"
    then show "x \<in> seq_range (place a j + 1) (place a k)"
      using assms place_distance [of "Suc j" _ a] unfolding n by (auto simp: seq_range_def)
  qed
qed

section \<open>Requests for the packets of a frame\<close>

text \<open>
  The frame has the numbers \<open>place a (Suc i)\<close> for \<open>i < c\<close>; those with \<open>i \<in> I\<close> have been handled. Only
  missing ones are requested, and a number ahead of the newest one that was handled, by a
  retransmission, is remembered.
\<close>

definition nack_track :: "u16 \<Rightarrow> nat \<Rightarrow> nat set \<Rightarrow> NackRequester \<Rightarrow> bool" where
  "nack_track a c I n \<longleftrightarrow> nack_ok n \<and> \<not> nk_keyframe_request_pending n \<and>
     circle.ordered (a - 1) (nk_recovered n) \<and> set (keys_of (nk_recovered n)) \<subseteq> (\<lambda>i. place a (Suc i)) ` {0..<c} \<and>
     set (keys_of (nk_list n)) \<subseteq> (\<lambda>i. place a (Suc i)) ` ({0..<c} - I) \<and>
     (if nk_initialized n
      then \<exists>j \<le> c. nk_newest_seq_num n = place a j \<and>
        (\<forall>i \<in> I. j < Suc i \<longrightarrow> place a (Suc i) \<in> set (keys_of (nk_recovered n)))
      else I = {})"

lemma nack_track_fields:
  assumes "nack_track a c I n" and "nack_ok n'" and "set (keys_of (nk_list n')) \<subseteq> set (keys_of (nk_list n))"
    and "nk_recovered n' = nk_recovered n" "nk_initialized n' = nk_initialized n" "nk_newest_seq_num n' = nk_newest_seq_num n"
    "nk_keyframe_request_pending n' = nk_keyframe_request_pending n"
  shows "nack_track a c I n'"
  using assms unfolding nack_track_def by auto

lemma GetNackBatch_same: "keys_of (nk_list (snd (GetNackBatch now n opt))) = keys_of (nk_list n)"
  "nk_recovered (snd (GetNackBatch now n opt)) = nk_recovered n" "nk_initialized (snd (GetNackBatch now n opt)) = nk_initialized n"
  "nk_newest_seq_num (snd (GetNackBatch now n opt)) = nk_newest_seq_num n"
  "nk_keyframe_request_pending (snd (GetNackBatch now n opt)) = nk_keyframe_request_pending n"
  by (simp_all add: GetNackBatch_def keys_of_def)

lemma GetNackBatch_track: "nack_track a c I n \<Longrightarrow> nack_track a c I (snd (GetNackBatch now n opt))"
proof -
  assume n: "nack_track a c I n"
  then have "nack_ok n" by (simp add: nack_track_def)
  then show ?thesis by (intro nack_track_fields [OF n]) (simp_all add: GetNackBatch_ok GetNackBatch_same)
qed

lemma nack_sent_same: "nk_recovered (nack_sent now ok n s) = nk_recovered n" "nk_initialized (nack_sent now ok n s) = nk_initialized n"
  "nk_newest_seq_num (nack_sent now ok n s) = nk_newest_seq_num n"
  "nk_keyframe_request_pending (nack_sent now ok n s) = nk_keyframe_request_pending n"
  by (simp_all add: nack_sent_def Let_def split: option.split)

lemma keys_om_insert: "set (keys_of (om_insert before k i m)) \<subseteq> insert k (set (keys_of m))"
  using om_insert_set [of k i m] by (auto simp: keys_of_def)

lemma keys_om_erase: "set (keys_of (om_erase before k m)) \<subseteq> set (keys_of m)"
proof -
  have "set (om_erase before k m) \<subseteq> set m"
    using set_dropWhileD [of _ "\<lambda>e. before (fst e) k" m]
    by (auto simp: om_erase_def om_rest_def from_lower_def dest!: set_takeWhileD split: list.splits if_splits)
      (metis list.set_intros set_dropWhileD)+
  then show ?thesis by (auto simp: keys_of_def)
qed

lemma nack_sent_track: "nack_track a c I n \<Longrightarrow> nack_track a c I (nack_sent now ok n s)"
proof -
  assume n: "nack_track a c I n"
  then have "nack_ok n" by (simp add: nack_track_def)
  moreover have "set (keys_of (nk_list (nack_sent now ok n s))) \<subseteq> set (keys_of (nk_list n))"
  proof (cases "om_find before s (nk_list n)")
    case (Some i)
    then have "s \<in> set (keys_of (nk_list n))" using om_find_before by (force simp: keys_of_def)
    then show ?thesis using Some keys_om_insert [of s _ "nk_list n"] keys_om_erase [of s "nk_list n"]
      by (simp add: nack_sent_def Let_def) blast
  qed (simp add: nack_sent_def)
  ultimately show ?thesis
    by (intro nack_track_fields [OF n]) (simp_all add: nack_sent_ok nack_sent_same)
qed

lemma OnNackBatchSent_track: "nack_track a c I n \<Longrightarrow> nack_track a c I (OnNackBatchSent now n ids ok)"
  unfolding OnNackBatchSent_def by (induction ids arbitrary: n) (auto simp: nack_sent_track)

text \<open>Requested numbers lie behind the newest one.\<close>

lemma nack_track_behind:
  assumes "nack_track a c I n" and "c \<le> 1000" and "nk_newest_seq_num n = place a j" and "j \<le> c" and "k \<in> set (keys_of (nk_list n))"
  shows "\<exists>i < c. k = place a (Suc i) \<and> i \<notin> I \<and> Suc i < j"
proof -
  obtain i where i: "i < c" "i \<notin> I" "k = place a (Suc i)" using assms(1,5) by (auto simp: nack_track_def)
  have "0 < distance k (place a j)" "distance k (place a j) \<le> 10000"
    using assms(1,3,5) by (auto simp: nack_track_def nack_ok_def window_ok_def)
  then have "Suc i < j"
    using place_distance_back [of j "Suc i" a] i(1,3) assms(2) by (cases "Suc i" j rule: linorder_cases) auto
  with i show ?thesis by blast
qed

lemma track_ahead:
  assumes "nack_track a c I n" and "c \<le> 1000" and "i < c" and "nk_newest_seq_num n = place a j" and "j \<le> c" and "j < Suc i"
    and rec: "\<And>l. l \<in> I \<Longrightarrow> j < Suc l \<Longrightarrow> place a (Suc l) \<in> set (keys_of (nk_recovered n))" and "nk_initialized n"
  shows "nack_track a c (insert i I)
    ((AddPacketsToNack now n (nk_newest_seq_num n + 1) (place a (Suc i)))\<lparr>nk_newest_seq_num := place a (Suc i)\<rparr>)"
proof -
  let ?s = "place a (Suc i)" and ?n = "AddPacketsToNack now n (nk_newest_seq_num n + 1) (place a (Suc i))"
  have ok: "nack_ok n" and pend: "\<not> nk_keyframe_request_pending n" and o: "circle.ordered (a - 1) (nk_recovered n)"
    and K: "set (keys_of (nk_list n)) \<subseteq> (\<lambda>i. place a (Suc i)) ` ({0..<c} - I)"
    using assms(1) by (simp_all add: nack_track_def)
  have A: "AheadOf 0 ?s (nk_newest_seq_num n)" unfolding assms(4) using assms(2,3,5,6) by (subst place_before) auto
  define kept where "kept = filter (\<lambda>e. distance (fst e) ?s \<le> 10000) (nk_list n)"
  note W = AddPacketsToNack_window [OF ok A, of now, folded kept_def]
  have "keys_of kept = filter (\<lambda>k. distance k ?s \<le> 10000) (keys_of (nk_list n))"
    by (simp add: kept_def keys_of_def filter_map comp_def)
  moreover have "set (keys_of (nk_list n)) \<subseteq> (\<lambda>i. place a (Suc i)) ` {0..<j - 1}"
  proof
    fix k assume "k \<in> set (keys_of (nk_list n))"
    then obtain l where "k = place a (Suc l)" "Suc l < j" using nack_track_behind [OF assms(1,2,4,5)] by blast
    then show "k \<in> (\<lambda>i. place a (Suc i)) ` {0..<j - 1}" by (intro image_eqI [of _ _ l]) auto
  qed
  ultimately have "card (set (keys_of (nk_list n))) \<le> j - 1"
    using surj_card_le [of "{0..<j - 1}" "set (keys_of (nk_list n))" "\<lambda>i. place a (Suc i)"] by simp
  moreover have "length kept \<le> length (keys_of (nk_list n))" by (simp add: kept_def keys_of_def)
  moreover have "distinct (keys_of (nk_list n))" using ok window_distinct by (auto simp: nack_ok_def)
  moreover have d: "distance (nk_newest_seq_num n) ?s = Suc i - j" unfolding assms(4) using assms(2,3,6) by (intro place_distance) auto
  ultimately have "\<not> length kept + (distance (nk_newest_seq_num n) ?s - 1) > kMaxNackPackets"
    using distinct_card [of "keys_of (nk_list n)"] assms(2,3,6) by (simp add: kMaxNackPackets_def)
  then have n: "nk_keyframe_request_pending ?n = nk_keyframe_request_pending n" "nack_ok (?n\<lparr>nk_newest_seq_num := ?s, nk_initialized := True\<rparr>)"
    "nk_initialized ?n = nk_initialized n" "nk_recovered ?n = nk_recovered n"
    "set (keys_of (nk_list ?n)) = set (keys_of kept) \<union>
      {k \<in> seq_range (nk_newest_seq_num n + 1) ?s. om_find before k (nk_recovered n) = None}"
    using W by (simp_all only: if_False)
  have r: "seq_range (nk_newest_seq_num n + 1) ?s = place a ` {Suc j..<Suc i}"
    unfolding assms(4) using assms(2,3,6) by (intro place_range) auto
  have new: "\<exists>l < c. k = place a (Suc l) \<and> l \<notin> insert i I" if k: "k \<in> set (keys_of (nk_list ?n))" for k
  proof (cases "k \<in> set (keys_of (nk_list n))")
    case True
    then obtain l where "l < c" "k = place a (Suc l)" "l \<notin> I" "Suc l < j" using nack_track_behind [OF assms(1,2,4,5)] by blast
    then show ?thesis using assms(6) by auto
  next
    case False
    then have "k \<in> seq_range (nk_newest_seq_num n + 1) ?s" "om_find before k (nk_recovered n) = None"
      using k unfolding n(5) by (auto simp: kept_def keys_of_def)
    then obtain m where m: "k = place a m" "Suc j \<le> m" "m < Suc i" "om_find before (place a m) (nk_recovered n) = None"
      unfolding r by auto
    define l where "l = m - 1"
    have l: "m = Suc l" "l < i" "j < Suc l" using m(2,3) by (auto simp: l_def)
    have "place a m \<in> half_circle (a - 1)" using place_half_circle [of l a] l assms(2,3) by (simp add: place_Suc)
    then have "map_of (nk_recovered n) (place a m) = None" using m(4) circle.om_find_map_of [OF o] by metis
    then have "place a (Suc l) \<notin> set (keys_of (nk_recovered n))" unfolding l(1) by (simp add: map_of_eq_None_iff keys_of_def)
    then have "l \<notin> I" using rec l(3) by blast
    then show ?thesis using m(1) l assms(3) by (intro exI [of _ l]) auto
  qed
  then have "set (keys_of (nk_list ?n)) \<subseteq> (\<lambda>i. place a (Suc i)) ` ({0..<c} - insert i I)" by fastforce
  moreover have "nack_ok (?n\<lparr>nk_newest_seq_num := ?s\<rparr>)" using n(2,3) assms(8) by (simp add: nack_ok_def)
  moreover have "\<exists>j' \<le> c. ?s = place a j' \<and> (\<forall>l \<in> insert i I. j' < Suc l \<longrightarrow> place a (Suc l) \<in> set (keys_of (nk_recovered n)))"
    using assms(3,6) rec by (intro exI [of _ "Suc i"]) auto
  ultimately show ?thesis
    using assms(1) n(1,3,4) assms(8) pend unfolding nack_track_def by simp
qed

text \<open>Numbers of the frame are never too old for the set of recovered ones.\<close>

lemma recovered_kept:
  assumes "set (keys_of m) \<subseteq> (\<lambda>i. place a (Suc i)) ` {0..<c}" and "c \<le> 1000" and "i < c"
  shows "from_lower before (place a (Suc i) - kMaxPacketAge) m = m"
proof -
  let ?key = "place a (Suc i) - kMaxPacketAge"
  have "\<not> before (fst e) ?key" if "e \<in> set m" for e
  proof -
    have "fst e \<in> (\<lambda>i. place a (Suc i)) ` {0..<c}" using assms(1) that by (auto simp: keys_of_def)
    then obtain l where l: "l < c" "fst e = place a (Suc l)" by auto
    have "fst e - ?key = word_of_int (10000 + int l - int i)" unfolding l(2) by (simp add: place_def kMaxPacketAge_def)
    moreover have "(10000 + int l - int i) mod 2 ^ 16 = 10000 + int l - int i"
      by (rule mod_pos_pos_trivial) (use l(1) assms(2,3) in simp_all)
    ultimately have "uint (fst e - ?key) = 10000 + int l - int i" by (simp only: uint_word_of_int) simp
    then show ?thesis using before_position [of "fst e" ?key ?key] l(1) assms(2,3) by simp
  qed
  then show ?thesis unfolding from_lower_def by (cases m) (simp_all add: dropWhile_eq_Cons_conv)
qed

lemma track_received:
  assumes "nack_track a c I n" and "c \<le> 1000" and "i < c" and "I \<subseteq> {0..<c}"
  shows "nack_track a c (insert i I) (snd (OnReceivedPacket now n (place a (Suc i)) r))"
proof (cases "nk_initialized n")
  case False
  then have "I = {}" "nk_list n = []" "nack_ok n" using assms(1) by (auto simp: nack_track_def nack_ok_def)
  moreover have "\<exists>j \<le> c. place a (Suc i) = place a j \<and> (j < Suc i \<longrightarrow> place a (Suc i) \<in> set (keys_of (nk_recovered n)))"
    using assms(3) by (intro exI [of _ "Suc i"]) simp
  ultimately show ?thesis
    using assms(1) False by (simp add: OnReceivedPacket_def nack_track_def nack_ok_def window_ok_def keys_of_def)
next
  case True
  let ?s = "place a (Suc i)" and ?new = "nk_newest_seq_num n"
  obtain j where j: "j \<le> c" "?new = place a j"
    and rec: "\<And>l. l \<in> I \<Longrightarrow> j < Suc l \<Longrightarrow> place a (Suc l) \<in> set (keys_of (nk_recovered n))"
    using assms(1) True by (auto simp: nack_track_def)
  have ok: "nack_ok (snd (OnReceivedPacket now n ?s r))" using OnReceivedPacket_ok assms(1) by (simp add: nack_track_def)
  have o: "circle.ordered (a - 1) (nk_recovered n)" "set (keys_of (nk_recovered n)) \<subseteq> (\<lambda>i. place a (Suc i)) ` {0..<c}"
    and pend: "\<not> nk_keyframe_request_pending n"
    using assms(1) by (simp_all add: nack_track_def)
  note behind = nack_track_behind [OF assms(1,2) j(2,1)]
  have ahead: "AheadOf 0 ?new ?s \<longleftrightarrow> Suc i < j" unfolding j(2) using assms(2,3) j(1) by (subst place_before) auto
  have same: "?s = ?new \<longleftrightarrow> Suc i = j" using place_inj [of "Suc i" j a] assms(2,3) j by auto
  have keep: "nack_track a c (insert i I) n'"
    if n': "nack_ok n'" "set (keys_of (nk_list n')) \<subseteq> set (keys_of (nk_list n)) - {?s}" "nk_recovered n' = nk_recovered n"
      "nk_initialized n' = nk_initialized n" "nk_newest_seq_num n' = ?new"
      "nk_keyframe_request_pending n' = nk_keyframe_request_pending n" and "Suc i \<le> j" for n'
  proof -
    have "set (keys_of (nk_list n')) \<subseteq> (\<lambda>i. place a (Suc i)) ` ({0..<c} - insert i I)"
      using n'(2) assms(1) unfolding nack_track_def by (auto 0 3)
    then show ?thesis using n' o pend True j rec that(7) unfolding nack_track_def by auto
  qed
  consider "Suc i = j" | "Suc i < j" | "j < Suc i" r | "j < Suc i" "\<not> r" by linarith
  then show ?thesis
  proof cases
    case 1
    have "?s \<notin> set (keys_of (nk_list n))"
    proof
      assume "?s \<in> set (keys_of (nk_list n))"
      then obtain l where "l < c" "?s = place a (Suc l)" "Suc l < j" using behind by blast
      then show False using place_inj [of "Suc i" "Suc l" a] assms(2,3) 1 by simp
    qed
    then show ?thesis using keep [of n] ok 1 same True assms(1) by (auto simp: OnReceivedPacket_def nack_track_def)
  next
    case 2
    have n: "nk_recovered (snd (OnReceivedPacket now n ?s r)) = nk_recovered n" "nk_newest_seq_num (snd (OnReceivedPacket now n ?s r)) = ?new"
      "nk_initialized (snd (OnReceivedPacket now n ?s r)) = nk_initialized n"
      "nk_keyframe_request_pending (snd (OnReceivedPacket now n ?s r)) = nk_keyframe_request_pending n"
      "nk_list (snd (OnReceivedPacket now n ?s r)) =
        (case om_find before ?s (nk_list n) of None \<Rightarrow> nk_list n | Some _ \<Rightarrow> om_erase before ?s (nk_list n))"
      using 2 ahead same True
      by (simp_all add: OnReceivedPacket_def Let_def UpdateReorderingStatistics_def split: option.split)
    have w: "window_ok ?new (nk_list n)" using assms(1) by (simp add: nack_track_def nack_ok_def)
    have "set (keys_of (nk_list (snd (OnReceivedPacket now n ?s r)))) \<subseteq> set (keys_of (nk_list n)) - {?s}"
    proof (cases "?s \<in> set (keys_of (nk_list n))")
      case True
      have "?s \<in> half_circle (?new - kMaxPacketAge)" using True w window_half_circle by (auto simp: window_ok_def)
      then have "om_find before ?s (nk_list n) = map_of (nk_list n) ?s" by (rule circle.om_find_map_of [OF window_ordered [OF w]])
      moreover have "map_of (nk_list n) ?s \<noteq> None" using True by (simp add: map_of_eq_None_iff keys_of_def)
      ultimately have "om_find before ?s (nk_list n) \<noteq> None" by simp
      then show ?thesis using om_erase_window [OF w True] unfolding n(5) by (auto simp: keys_of_def)
    next
      case False
      then show ?thesis using keys_om_erase [of ?s "nk_list n"] unfolding n(5) by (auto split: option.split)
    qed
    then show ?thesis using keep [OF ok] n(1-4) 2 by simp
  next
    case 3
    let ?r = "om_insert before ?s () (nk_recovered n)"
    have h: "?s \<in> half_circle (a - 1)" using place_half_circle [of i a] assms(2,3) by (simp add: place_Suc)
    have k: "set (keys_of ?r) = insert ?s (set (keys_of (nk_recovered n)))"
      using arg_cong [OF circle.om_insert_map_of [OF o(1) h, of "()"], of dom] by (simp add: keys_of_def dom_map_of_conv_image_fst)
    have f: "from_lower before (?s - kMaxPacketAge) ?r = ?r"
      by (rule recovered_kept [OF _ assms(2,3)]) (use k o(2) assms(3) in auto)
    have "snd (OnReceivedPacket now n ?s r) = n\<lparr>nk_recovered := ?r\<rparr>"
      using 3 ahead same True f by (simp add: OnReceivedPacket_def Let_def)
    moreover have "set (keys_of (nk_list n)) \<subseteq> (\<lambda>i. place a (Suc i)) ` ({0..<c} - insert i I)"
      using behind 3(1) by fastforce
    moreover have "circle.ordered (a - 1) ?r" using circle.om_insert_ordered [OF o(1) h] .
    moreover have "insert ?s (set (keys_of (nk_recovered n))) \<subseteq> (\<lambda>i. place a (Suc i)) ` {0..<c}" using o(2) assms(3) by auto
    moreover have "\<exists>j \<le> c. ?new = place a j \<and> (\<forall>l \<in> insert i I. j < Suc l \<longrightarrow> place a (Suc l) \<in> insert ?s (set (keys_of (nk_recovered n))))"
      using j rec by (intro exI [of _ j]) auto
    ultimately show ?thesis using ok True pend by (simp add: nack_track_def k)
  next
    case 4
    have "snd (OnReceivedPacket now n ?s r) =
      snd (GetNackBatch now ((AddPacketsToNack now n (?new + 1) ?s)\<lparr>nk_newest_seq_num := ?s\<rparr>) kSeqNumOnly)"
      using 4 ahead same True by (simp add: OnReceivedPacket_def Let_def)
    then show ?thesis using GetNackBatch_track track_ahead [OF assms(1-3) j(2,1) 4(1) rec True, of now] by simp
  qed
qed

lemma nack_track_complete: "nack_track a c {0..<c} n \<Longrightarrow> nk_list n = []"
  by (simp add: nack_track_def keys_of_def)

end
