(* ===== verification/Delivery.thy ===== *)
theory Delivery
  imports ReceiverSafety NackTrack
begin

text \<open>
  From the sender to the client: what becomes of a frame whose packets arrive in any order, some of
  them only as retransmissions. The theory composes the packetizer, the numbering and stamping of
  packets as they leave (\<open>transmit\<close>), the RTX encapsulation, the channel, the receiver with its
  NACK requester, the frame assembly and the worker.
\<close>

section \<open>Packets that leave\<close>

text \<open>
  The paced sender gives the packet its number; the callback of \<open>IceTransportController\<close> stamps the
  send time if the extension was negotiated, and a packet that cannot be stamped is not sent.
\<close>

definition transmit :: "byte option \<Rightarrow> u64 \<Rightarrow> (u32 \<rightharpoonup> u16) \<Rightarrow> RtpPacketToSend \<Rightarrow> (RtpPacketToSend \<times> (u32 \<rightharpoonup> u16)) option" where
  "transmit abs_send_time_ext_id send_time_ntp ssrc_seq packet = do {
     (packet, ssrc_seq) \<leftarrow> SendPacket ssrc_seq packet;
     case abs_send_time_ext_id of None \<Rightarrow> Some (packet, ssrc_seq)
     | Some i \<Rightarrow> do {
         (ok, p) \<leftarrow> UpdateAbsoluteSendTimestamp (ts_packet packet) i (NtpToAbsoluteSendTime send_time_ntp);
         if ok then Some (packet\<lparr>ts_packet := p\<rparr>, ssrc_seq) else None } }"

fun transmit_all :: "byte option \<Rightarrow> (u32 \<rightharpoonup> u16) \<Rightarrow> (u64 \<times> RtpPacketToSend) list \<Rightarrow> (RtpPacketToSend list \<times> (u32 \<rightharpoonup> u16)) option" where
  "transmit_all eid ssrc_seq [] = Some ([], ssrc_seq)"
| "transmit_all eid ssrc_seq ((ntp, p) # ps) = do {
     (s, ssrc_seq) \<leftarrow> transmit eid ntp ssrc_seq p;
     (ss, ssrc_seq) \<leftarrow> transmit_all eid ssrc_seq ps;
     Some (s # ss, ssrc_seq) }"

lemma transmit_on_wire:
  assumes "on_wire eid t m pt seq ts ssrc body (ts_packet p)" and "length t = 3"
    and k_def: "k = (case ssrc_seq ssrc of None \<Rightarrow> 1 | Some n \<Rightarrow> n)"
  shows "\<exists>t' s. transmit eid ntp ssrc_seq p = Some (s, ssrc_seq(ssrc \<mapsto> k + 1)) \<and> length t' = 3 \<and>
    on_wire eid t' m pt k ts ssrc body (ts_packet s)"
proof -
  have s: "rp_ssrc (ts_packet p) = ssrc" using assms(1) by (simp add: on_wire_def holds_def)
  obtain p' where p': "UpdateSequenceNumber (ts_packet p) k = Some p'" "on_wire eid t m pt k ts ssrc body p'"
    using UpdateSequenceNumber_on_wire [OF assms(1)] by blast
  have S: "SendPacket ssrc_seq p = Some (p\<lparr>ts_packet := p'\<rparr>, ssrc_seq(ssrc \<mapsto> k + 1))"
    unfolding SendPacket_def Let_def s k_def [symmetric] p'(1) by simp
  show ?thesis
  proof (cases eid)
    case None
    then show ?thesis using S p'(2) assms(2) by (auto simp: transmit_def)
  next
    case (Some i)
    obtain t' q where "UpdateAbsoluteSendTimestamp p' i (NtpToAbsoluteSendTime ntp) = Some (True, q)" "length t' = 3"
      "on_wire (Some i) t' m pt k ts ssrc body q"
      using UpdateAbsoluteSendTimestamp_on_wire p'(2) assms(2) Some by blast
    then show ?thesis using S Some by (auto simp: transmit_def)
  qed
qed

text \<open>The packets of a frame leave with consecutive numbers.\<close>

lemma transmit_all_on_wire:
  assumes "\<forall>i < length ps. \<exists>t seq. length t = 3 \<and> on_wire eid t (m i) pt seq ts ssrc (body i) (ts_packet (snd (ps ! i)))"
    and "ssrc_seq ssrc = Some k"
  shows "\<exists>ss. transmit_all eid ssrc_seq ps = Some (ss, ssrc_seq(ssrc \<mapsto> k + of_nat (length ps))) \<and> length ss = length ps \<and>
    (\<forall>i < length ps. \<exists>t. length t = 3 \<and> on_wire eid t (m i) pt (SequenceNumberAt k i) ts ssrc (body i) (ts_packet (ss ! i)))"
  using assms
proof (induction ps arbitrary: ssrc_seq k m body)
  case Nil
  then show ?case by (simp add: fun_upd_idem)
next
  case (Cons e ps)
  obtain ntp p where e: "e = (ntp, p)" by fastforce
  obtain t seq where p: "length t = 3" "on_wire eid t (m 0) pt seq ts ssrc (body 0) (ts_packet p)"
    using Cons.prems(1) e by fastforce
  obtain t' s where s: "transmit eid ntp ssrc_seq p = Some (s, ssrc_seq(ssrc \<mapsto> k + 1))" "length t' = 3"
    "on_wire eid t' (m 0) pt k ts ssrc (body 0) (ts_packet s)"
    using transmit_on_wire [OF p(2,1), of k ssrc_seq ntp] Cons.prems(2) by auto
  have "\<forall>i < length ps. \<exists>t seq. length t = 3 \<and> on_wire eid t (m (Suc i)) pt seq ts ssrc (body (Suc i)) (ts_packet (snd (ps ! i)))"
    using Cons.prems(1) by fastforce
  from Cons.IH [OF this, of "ssrc_seq(ssrc \<mapsto> k + 1)" "k + 1", OF fun_upd_same]
  obtain ss where ss: "transmit_all eid (ssrc_seq(ssrc \<mapsto> k + 1)) ps = Some (ss, ssrc_seq(ssrc \<mapsto> k + 1 + of_nat (length ps)))"
    "length ss = length ps"
    "\<forall>i < length ps. \<exists>t. length t = 3 \<and> on_wire eid t (m (Suc i)) pt (SequenceNumberAt (k + 1) i) ts ssrc (body (Suc i)) (ts_packet (ss ! i))"
    unfolding fun_upd_upd by blast
  have "\<exists>t. length t = 3 \<and> on_wire eid t (m i) pt (SequenceNumberAt k i) ts ssrc (body i) (ts_packet ((s # ss) ! i))"
    if "i < length (e # ps)" for i
    using that s(2,3) ss(3) by (cases i) (auto simp: SequenceNumberAt_def add.assoc)
  then show ?case using s(1) ss(1,2) e by (intro exI [of _ "s # ss"]) (simp add: add.assoc del: fun_upd_apply)
qed

section \<open>Datagrams that carry a packet\<close>

text \<open>
  The packet itself, or, when retransmission was negotiated, the RTX packet made from it, numbered
  and stamped on its own.
\<close>

definition carries :: "byte option \<Rightarrow> u32 \<Rightarrow> RtpPacketToSend \<Rightarrow> byte list \<Rightarrow> bool" where
  "carries eid rtx_ssrc sent d \<longleftrightarrow> d = rp_buffer (ts_packet sent) \<or>
     (rtx_ssrc \<noteq> 0 \<and> (\<exists>r ntp ssrc_seq s ssrc_seq'. make_rtx rtx_ssrc sent = Some (Some r) \<and>
       transmit eid ntp ssrc_seq r = Some (s, ssrc_seq') \<and> d = rp_buffer (ts_packet s)))"

text \<open>What the channel and the receiver make of it.\<close>

lemma carries_direct: "carries eid rtx s (rp_buffer (ts_packet s))"
  by (simp add: carries_def)

lemma PT_RTX_small: "unat PT_RTX < 128"
  by (simp add: PT_RTX_def)

lemma rtx_media:
  assumes "on_wire eid t m PT_RTX k ts rtx_ssrc ([ucast (drop_bit 8 seq), ucast seq] @ body) p" and "length t = 3"
    and "valid_ext_id eid" and "unat pt < 128" and "pt \<noteq> PT_RTX" and "pt \<noteq> PT_UNDEFINED" and "ssrc \<noteq> 0"
  shows "\<exists>q r. RtpPacket_Build new_RtpPacket (rp_buffer p) (length (rp_buffer p)) = Some (True, q) \<and> rp_payload_type q = PT_RTX \<and>
    rp_ssrc q = rtx_ssrc \<and> RestoreMediaPacketFromRtx ssrc pt q new_RtpPacket = Some (True, r) \<and> on_wire eid t m pt seq ts ssrc body r"
proof -
  let ?w = "wire eid t m PT_RTX k ts rtx_ssrc ([ucast (drop_bit 8 seq), ucast seq] @ body)"
  have b: "rp_buffer p = ?w" using assms(1) by (simp add: on_wire_def)
  obtain q where q: "RtpPacket_Build new_RtpPacket ?w (length ?w) = Some (True, q)"
    "on_wire eid t m PT_RTX k ts rtx_ssrc ([ucast (drop_bit 8 seq), ucast seq] @ body) q"
    using Build_on_wire [OF assms(3,2), of PT_RTX] by (metis PT_RTX_small)
  obtain r where "RtpPacket_Build new_RtpPacket (wire eid t m pt seq ts ssrc body) (length (wire eid t m pt seq ts ssrc body)) = Some (True, r)"
    "on_wire eid t m pt seq ts ssrc body r"
    using Build_on_wire [OF assms(3,2,4)] by blast
  then show ?thesis
    using q RestoreMediaPacketFromRtx_wire [OF q(1) assms(3,2,7,6,5)] b by (auto simp: on_wire_def holds_def)
qed

lemma carries_media:
  assumes "carries eid (vr_rtx_ssrc v) sent d" and "on_wire eid t m pt seq ts ssrc body (ts_packet sent)" and "length t = 3"
    and "valid_ext_id eid" and "unat pt < 128" and "pt \<noteq> PT_RTX" and "pt \<noteq> PT_UNDEFINED" and "ssrc \<noteq> 0"
    and "vr_remote_ssrc v = ssrc" and "vr_media_payload_type v = pt"
  shows "\<exists>p q t. RtpPacket_Build new_RtpPacket d (length d) = Some (True, p) \<and> media_of v p = Some (Some q) \<and> length t = 3 \<and>
    on_wire eid t m pt seq ts ssrc body q \<and> 12 \<le> length d \<and> length d \<le> 22 + length body"
  using assms(1) unfolding carries_def
proof (elim disjE conjE exE)
  assume "d = rp_buffer (ts_packet sent)"
  then have d: "d = wire eid t m pt seq ts ssrc body" using assms(2) by (simp add: on_wire_def)
  obtain p where "RtpPacket_Build new_RtpPacket d (length d) = Some (True, p)" "on_wire eid t m pt seq ts ssrc body p"
    unfolding d using Build_on_wire [OF assms(4,3,5)] by blast
  moreover from this(2) have "media_of v p = Some (Some p)" using assms(6) by (simp add: media_of_def on_wire_def holds_def)
  moreover have "12 \<le> length d" "length d \<le> 22 + length body" unfolding d by (simp_all add: wire_length [OF assms(3)])
  ultimately show ?thesis using assms(3) by blast
next
  fix r ntp ssrc_seq s ssrc_seq'
  let ?o = "[ucast (drop_bit 8 seq), ucast seq] @ body"
  assume r: "vr_rtx_ssrc v \<noteq> 0" "make_rtx (vr_rtx_ssrc v) sent = Some (Some r)" "transmit eid ntp ssrc_seq r = Some (s, ssrc_seq')"
    "d = rp_buffer (ts_packet s)"
  have w: "on_wire eid t m PT_RTX seq ts (vr_rtx_ssrc v) ?o (ts_packet r)"
    using make_rtx_wire [OF assms(2) refl assms(4,3,5), of "vr_rtx_ssrc v"] r(2) by auto
  obtain t' k where t': "length t' = 3" "on_wire eid t' m PT_RTX k ts (vr_rtx_ssrc v) ?o (ts_packet s)"
    using transmit_on_wire [OF w assms(3) refl, where ssrc_seq = ssrc_seq and ntp = ntp] r(3) by auto
  have l: "12 \<le> length d" "length d \<le> 22 + length body"
    using t'(2) unfolding r(4) on_wire_def by (simp_all add: wire_length [OF t'(1)])
  obtain q p where "RtpPacket_Build new_RtpPacket d (length d) = Some (True, q)" "rp_payload_type q = PT_RTX"
    "rp_ssrc q = vr_rtx_ssrc v" "RestoreMediaPacketFromRtx ssrc pt q new_RtpPacket = Some (True, p)"
    "on_wire eid t' m pt seq ts ssrc body p"
    using rtx_media [of eid t' m k ts "vr_rtx_ssrc v" seq body "ts_packet s" pt ssrc] assms(4-8) r(4) t' by blast
  then show ?thesis
    using r(1) assms(9,10) t'(1) l by (intro exI [of _ q] exI [of _ p] exI [of _ t']) (simp add: media_of_def)
qed

section \<open>One packet of the frame at the receiver\<close>

definition nacks_open :: "u16 \<Rightarrow> nat \<Rightarrow> nat set \<Rightarrow> VideoReceiver \<Rightarrow> bool" where
  "nacks_open a c I v \<longleftrightarrow> (if RtxEnabled v then nack_track a c I (vr_nack v) else nk_list (vr_nack v) = [])"

text \<open>What the packets of a frame leave alone in a receiver.\<close>

definition same_rx :: "VideoReceiver \<Rightarrow> VideoReceiver \<Rightarrow> bool" where
  "same_rx v w \<longleftrightarrow> sender_idle w \<and> outcome_of w = outcome_of v \<and> vr_awaiting_keyframe w = vr_awaiting_keyframe v \<and>
     vr_is_running w = vr_is_running v \<and> vr_remote_ssrc w = vr_remote_ssrc v \<and> vr_rtx_ssrc w = vr_rtx_ssrc v \<and>
     vr_media_payload_type w = vr_media_payload_type v"

lemma same_rx_trans: "same_rx u v \<Longrightarrow> same_rx v w \<Longrightarrow> same_rx u w"
  by (simp add: same_rx_def)

lemma SendPreparedNackBatch_track:
  "SendPreparedNackBatch ds now v ids = Some v' \<Longrightarrow> nack_track a c I (vr_nack v) \<Longrightarrow> nack_track a c I (vr_nack v')"
proof (induction ds now v ids rule: SendPreparedNackBatch.induct)
  case (1 ds now v ids)
  let ?ids = "take kMaxNackIdsPerRtcpPacket ids"
  show ?case
  proof (cases "ids = []")
    case True
    with "1.prems" show ?thesis by (simp add: SendPreparedNackBatch.simps)
  next
    case False
    with "1.prems"(1) obtain ok w where w: "SendNack ds v ?ids = Some (ok, w)"
      and r: "SendPreparedNackBatch ds now (w\<lparr>vr_nack := OnNackBatchSent now (vr_nack w) ?ids ok\<rparr>)
        (drop kMaxNackIdsPerRtcpPacket ids) = Some v'"
      by (subst (asm) SendPreparedNackBatch.simps) (auto simp: Let_def split: bind_splits)
    have "vr_nack w = vr_nack v" using SendNack_core [OF w] by auto
    then show ?thesis using "1.IH" [OF False refl w refl refl r] "1.prems"(2) OnNackBatchSent_track by simp
  qed
qed

lemma insert_nack_track:
  assumes "sender_idle v" and "nacks_open a c I v" and "c \<le> 1000" and "i < c" and "I \<subseteq> {0..<c}"
    and "rp_sequence_number m = SequenceNumberAt a i"
  shows "\<exists>s n. insert_nack ds now v r m = Some (v\<lparr>vr_rtcp_sender := s, vr_nack := n\<rparr>) \<and>
    sender_idle (v\<lparr>vr_rtcp_sender := s, vr_nack := n\<rparr>) \<and> nacks_open a c (insert i I) (v\<lparr>vr_rtcp_sender := s, vr_nack := n\<rparr>)"
proof (cases "RtxEnabled v")
  case True
  obtain b n where n: "OnReceivedPacket now (vr_nack v) (rp_sequence_number m) r = (b, n)" by fastforce
  have t: "nack_track a c (insert i I) n"
    using track_received [OF _ assms(3-5), of a "vr_nack v" now r] assms(2,6) True n by (simp add: nacks_open_def place_Suc)
  then have k: "ConsumeKeyFrameRequest n = (False, n)" by (simp add: nack_track_def ConsumeKeyFrameRequest_def)
  have "sender_idle (v\<lparr>vr_nack := n\<rparr>)" using assms(1) by (simp add: sender_idle_def)
  then obtain v' where v': "SendPreparedNackBatch ds now (v\<lparr>vr_nack := n\<rparr>) b = Some v'" "sender_idle v'"
    using SendPreparedNackBatch_total by blast
  obtain s n' where "v' = v\<lparr>vr_rtcp_sender := s, vr_nack := n'\<rparr>" using SendPreparedNackBatch_core [OF v'(1)] by auto
  moreover have "nack_track a c (insert i I) (vr_nack v')" using SendPreparedNackBatch_track [OF v'(1)] t by simp
  ultimately show ?thesis
    using v' True by (intro exI [of _ s] exI [of _ n']) (simp add: insert_nack_def n k nacks_open_def RtxEnabled_def)
next
  case False
  then show ?thesis using assms(1,2)
    by (intro exI [of _ "vr_rtcp_sender v"] exI [of _ "vr_nack v"]) (simp add: insert_nack_def nacks_open_def)
qed

lemma insert_media_track:
  assumes "sender_idle v" and "nacks_open a c I v" and "c \<le> 1000" and "i < c" and "I \<subseteq> {0..<c}"
    and "rp_sequence_number m = SequenceNumberAt a i" and "rp_payload_type m = vr_media_payload_type v"
    and "vr_media_payload_type v = ucast PT_H264" and "rp_ssrc m = vr_remote_ssrc v"
    and "RtpPacket_Build new_RtpPacket (rp_buffer m) (rp_size m) = Some (True, m')"
    and "open_h264 object (rp_buffer m) (rp_size m) = Some (True, q)" and "ProcessH264RtpPacket now (vr_fa v) q = Some fa"
  shows "\<exists>v'. insert_media ds object now v r p m = Some v' \<and> same_rx v v' \<and> vr_fa v' = fa \<and> nacks_open a c (insert i I) v'"
proof -
  define v1 where "v1 = (if r then count rc_accepted_rtx_packets_update v else v)"
  define rc where "rc = m'\<lparr>rp_abs_send_time_ext_id := vr_abs_send_time_ext_id v1\<rparr>"
  define v2 where "v2 = insert_statistics now v1 r p m rc"
  define v3 where "v3 = (if \<not> r then v2\<lparr>vr_calls := vr_calls v2 @ [CcOnReceivedPacket rc now]\<rparr> else v2)"
  have pt: "(ucast PT_H264 :: byte) \<noteq> ucast PT_H264 - 1" "(ucast PT_H264 :: byte) \<noteq> ucast PT_AV1"
    by (simp_all add: PT_H264_def PT_AV1_def)
  have s: "vr_rtcp_sender v3 = vr_rtcp_sender v" "vr_nack v3 = vr_nack v" "vr_fa v3 = vr_fa v" "RtxEnabled v3 = RtxEnabled v"
    "vr_media_payload_type v2 = vr_media_payload_type v" "outcome_of v3 = outcome_of v"
    "vr_awaiting_keyframe v3 = vr_awaiting_keyframe v" "vr_is_running v3 = vr_is_running v" "vr_remote_ssrc v3 = vr_remote_ssrc v"
    "vr_rtx_ssrc v3 = vr_rtx_ssrc v" "vr_media_payload_type v3 = vr_media_payload_type v"
    by (simp_all add: v3_def v2_def v1_def insert_statistics_def io_calls_def add_received_bytes_def Let_def RtxEnabled_def count_def)
  have "sender_idle v3" "nacks_open a c I v3" using assms(1,2) s(1,2,4) by (simp_all add: sender_idle_def nacks_open_def)
  then obtain sd n where n: "insert_nack ds now v3 r m = Some (v3\<lparr>vr_rtcp_sender := sd, vr_nack := n\<rparr>)"
    "sender_idle (v3\<lparr>vr_rtcp_sender := sd, vr_nack := n\<rparr>)" "nacks_open a c (insert i I) (v3\<lparr>vr_rtcp_sender := sd, vr_nack := n\<rparr>)"
    using insert_nack_track [OF _ _ assms(3-6)] by blast
  let ?w = "v3\<lparr>vr_rtcp_sender := sd, vr_nack := n\<rparr>"
  have pl: "insert_payload ds object now ?w m = Some (?w\<lparr>vr_fa := fa\<rparr>)"
    using pt(2) assms(7,8,11,12) s(3) by (simp add: insert_payload_def)
  have "vr_media_payload_type v1 = vr_media_payload_type v" by (simp add: v1_def count_def)
  then have c: "rp_payload_type m \<noteq> vr_media_payload_type v1 - 1" "vr_media_payload_type v2 = rp_payload_type m"
    using assms(7,8) pt(1) s(5) by simp_all
  have "insert_media ds object now v r p m = Some (?w\<lparr>vr_fa := fa\<rparr>)"
    unfolding insert_media_def Let_def assms(10) Option.bind.simps prod.case v1_def [symmetric] rc_def [symmetric] v2_def [symmetric]
      v3_def [symmetric] n(1)
    by (simp only: c simp_thms if_False if_True Option.bind.simps pl)
  moreover have "same_rx v (?w\<lparr>vr_fa := fa\<rparr>)" using n(2) s by (simp add: same_rx_def sender_idle_def)
  moreover have "nacks_open a c (insert i I) (?w\<lparr>vr_fa := fa\<rparr>)" using n(3) by (auto simp: nacks_open_def RtxEnabled_def split: if_splits)
  ultimately show ?thesis by simp
qed

lemma built_on_wire:
  assumes "built z m pt seq ts body p" and "rp_padding_size p = 0" and "pz_ok z" and "unat pt < 128"
  shows "on_wire (pz_abs_send_time_ext_id z) [0, 0, 0] m pt seq ts (pz_ssrc z) body p"
proof -
  have b: "rp_buffer p = wire (pz_abs_send_time_ext_id z) [0, 0, 0] m pt seq ts (pz_ssrc z) body"
    using assms(1,2) by (simp add: built_def plain_frame_def wire_def)
  have c: "RtpPacket_Build new_RtpPacket (rp_buffer p) (length (rp_buffer p)) = Some (True, p)"
    using assms(1) unfolding built_def by blast
  show ?thesis
    using Build_on_wire [of "pz_abs_send_time_ext_id z" "[0, 0, 0]" pt new_RtpPacket m seq ts "pz_ssrc z" body] assms(3,4) c unfolding b
    by (simp add: pz_ok_def)
qed

text \<open>The body of packet \<open>i\<close> of a fragmented frame, and what the receiver opens.\<close>

definition fu_body :: "byte list list \<Rightarrow> nat \<Rightarrow> byte list" where
  "fu_body ds i = [fu_indicator_byte, fu_header_byte (i = 0) (i = length ds - 1)] @ ds ! i"

lemma open_h264_wire:
  assumes "on_wire eid t m pt (SequenceNumberAt a i) ts ssrc (fu_body ds i) p" and "length t = 3" and "valid_ext_id eid"
    and "unat pt < 128" and "pt \<noteq> PT_RTX" and "length (ds ! i) < 2 ^ 31"
  shows "\<exists>p' q. RtpPacket_Build new_RtpPacket (rp_buffer p) (rp_size p) = Some (True, p') \<and>
    open_h264 object (rp_buffer p) (rp_size p) = Some (True, q) \<and> h264.is_packet ts a ds [28] IsH264KeyFrame i q"
proof -
  have b: "rp_buffer p = wire eid t m pt (SequenceNumberAt a i) ts ssrc (fu_body ds i)" "rp_size p = length (rp_buffer p)"
    using assms(1) by (simp_all add: on_wire_def holds_def)
  obtain p' where p': "RtpPacket_Build new_RtpPacket (rp_buffer p) (rp_size p) = Some (True, p')"
    "on_wire eid t m pt (SequenceNumberAt a i) ts ssrc (fu_body ds i) p'"
    using Build_on_wire [OF assms(3,2,4)] unfolding b(2) unfolding b(1) by blast
  let ?h = "object\<lparr>h264_packet := p', fu_info_got := False\<rparr>"
  obtain q where q: "GetFrameHeaderInfo ?h = Some (True, q)" "Payload (h264_packet q) = Some (ds ! i)"
    "h264_packet q = add_offset_to_payload p' 2" "fui_forbidden_bit q = 0" "fui_nal_reference_idc q = 0" "fui_nal_unit_type q = NAL_FU_A"
    "fuh_start q = (i = 0)" "fuh_end q = (i = length ds - 1)" "fuh_nal_unit_type q = NAL_FU_A"
    using GetFrameHeaderInfo_fua [of ?h fu_indicator_byte "fu_header_byte (i = 0) (i = length ds - 1)" "ds ! i"] p'(2) assms(5,6)
    by (auto simp: on_wire_def holds_def fu_bytes fu_body_def)
  have "rp_timestamp (h264_packet q) = ts" "rp_sequence_number (h264_packet q) = SequenceNumberAt a i"
    using p'(2) unfolding q(3) by (simp_all add: on_wire_def holds_def add_offset_to_payload_def)
  moreover have "h264_header q = 28" using q(4,5,9) by (simp add: h264_header_def NAL_FU_A_def)
  ultimately have "h264.is_packet ts a ds [28] IsH264KeyFrame i q"
    using q(2,6-8) by (simp add: h264.is_packet_def)
  then show ?thesis using p'(1) q(1) by (simp add: open_h264_def)
qed

text \<open>A datagram that carries packet \<open>i\<close>, at a receiver that is waiting for the frame.\<close>

lemma channel_packet:
  fixes D :: send_func
  assumes "carries eid (vr_rtx_ssrc v) sent d" and "on_wire eid t m pt (SequenceNumberAt a i) ts ssrc (fu_body ds i) (ts_packet sent)"
    and "length t = 3" and "valid_ext_id eid" and "pt = ucast PT_H264" and "ssrc \<noteq> 0" and "length (ds ! i) < 2 ^ 31"
    and "vr_remote_ssrc v = ssrc" and "vr_media_payload_type v = pt" and "\<not> IsFrameTimestampObsolete v ts"
    and "sender_idle v" and "nacks_open a (length ds) I v" and "length ds \<le> 1000" and "i < length ds" and "I \<subseteq> {0..<length ds}"
    and "\<And>q. h264.is_packet ts a ds [28] IsH264KeyFrame i q \<Longrightarrow> \<exists>fa. ProcessH264RtpPacket now (vr_fa v) q = Some fa \<and> Q fa"
  shows "\<exists>v'. OnReceiveRtpPacket D object now v d = Some (0, v') \<and> same_rx v v' \<and> Q (vr_fa v') \<and> nacks_open a (length ds) (insert i I) v'"
proof -
  define w where "w = io_calls v [UpdateVideoInboundBytes (of_nat (length d))]"
  have pt: "unat pt < 128" "pt \<noteq> PT_RTX" "pt \<noteq> PT_UNDEFINED"
    using assms(5) by (simp_all add: PT_H264_def PT_RTX_def PT_UNDEFINED_def)
  have w: "vr_rtx_ssrc w = vr_rtx_ssrc v" "vr_remote_ssrc w = ssrc" "vr_media_payload_type w = pt" "same_rx v w" "vr_fa w = vr_fa v"
    "sender_idle w" "nacks_open a (length ds) I w" "IsFrameTimestampObsolete w ts = IsFrameTimestampObsolete v ts"
    using assms(8,9,11,12) by (simp_all add: w_def io_calls_def same_rx_def sender_idle_def nacks_open_def RtxEnabled_def IsFrameTimestampObsolete_def)
  obtain p q t' where p: "RtpPacket_Build new_RtpPacket d (length d) = Some (True, p)" "media_of w p = Some (Some q)" "length t' = 3"
    "on_wire eid t' m pt (SequenceNumberAt a i) ts ssrc (fu_body ds i) q" "12 \<le> length d" "length d \<le> 22 + length (fu_body ds i)"
    using carries_media [of eid w sent d t m pt "SequenceNumberAt a i" ts ssrc "fu_body ds i"] assms(1-4,6) pt w(1-3) by auto
  obtain q' h where h: "RtpPacket_Build new_RtpPacket (rp_buffer q) (rp_size q) = Some (True, q')"
    "open_h264 object (rp_buffer q) (rp_size q) = Some (True, h)" "h264.is_packet ts a ds [28] IsH264KeyFrame i h"
    using open_h264_wire [OF p(4,3) assms(4) pt(1,2) assms(7)] by blast
  obtain fa where fa: "ProcessH264RtpPacket now (vr_fa w) h = Some fa" "Q fa" using assms(16) [OF h(3)] w(5) by auto
  have q: "rp_sequence_number q = SequenceNumberAt a i" "rp_payload_type q = pt" "rp_ssrc q = ssrc" "rp_timestamp q = ts"
    using p(4) by (simp_all add: on_wire_def holds_def)
  obtain v' where v': "insert_media D object now w (rp_payload_type p = PT_RTX) p q = Some v'" "same_rx w v'" "vr_fa v' = fa"
    "nacks_open a (length ds) (insert i I) v'"
    using insert_media_track [OF w(6,7) assms(13-15) q(1) _ _ _ h(1,2) fa(1), of D "rp_payload_type p = PT_RTX" p] q w(2,3) assms(5) by auto
  have "InsertRtpPacket D object now w p = Some v'"
    unfolding InsertRtpPacket_def Let_def p(2) using v'(1) assms(10) w(8) q(4) by simp
  moreover have "length (fu_body ds i) < 2 ^ 31 + 2" using assms(7) by (simp add: fu_body_def)
  then have "unat (of_nat (length d) :: u32) = length d" using p(6) by (simp add: unat_of_nat)
  ultimately have "OnReceiveRtpPacket D object now v d = Some (0, v')"
    using p(1,5) unfolding OnReceiveRtpPacket_def w_def [symmetric] Let_def by (simp add: kFixedHeaderSize_def)
  with v' w(4) fa(2) show ?thesis using same_rx_trans by blast
qed

section \<open>The worker\<close>

lemma deliver_single:
  assumes "sender_idle v" and "vr_is_running v" and "vr_on_receive_complete_frame v" and "fa_pending (vr_fa v) = [(t, p)]"
    and "pf_is_complete p" and "pf_frame p = Some f" and "\<not> IsFrameTimestampObsolete v t" and "nk_list (vr_nack v) = []"
    and "vr_awaiting_keyframe v \<longrightarrow> pf_is_keyframe p"
  shows "\<exists>v'. Process D now clock v = Some (True, v') \<and> vr_delivered v' = vr_delivered v @ [(t, pf_is_keyframe p, f)] \<and>
    fa_pending (vr_fa v') = [] \<and> vr_last_complete_frame_ts v' = Some t \<and> \<not> vr_awaiting_keyframe v'"
proof -
  let ?l = "MaybeLogRecoveryStats now v False"
  have l: "core ?l = core v" "vr_awaiting_keyframe ?l = vr_awaiting_keyframe v" "vr_nack ?l = vr_nack v"
    by (simp_all add: MaybeLogRecoveryStats_def)
  have "ProcessPendingNacks D now v = Some v"
    using assms(8) by (simp add: ProcessPendingNacks_def ProcessNacks_def GetNackBatch_def SendPreparedNackBatch.simps)
  moreover have "MaybeRetryKeyFrameRequest D now ?l = Some ?l"
    using l assms(4,5,9) by (auto simp: MaybeRetryKeyFrameRequest_def complete_keyframe_def)
  ultimately have P: "Process D now clock v = process_loop D (GetFrameRecoveryTiming ?l) clock 0 ?l"
    using assms(2) by (simp add: Process_def)
  have pend: "fa_pending (vr_fa ?l) = [(t, p)]" using l(1) assms(4) by simp
  have nb: "\<not> has_blocking_nacks ?l p"
    using l(3) assms(8) by (simp add: has_blocking_nacks_def HasPendingNacksUpTo_def HasPendingNacks_def from_upper_def split: option.split)
  have old: "\<not> (case vr_last_complete_frame_ts ?l of None \<Rightarrow> False | Some l \<Rightarrow> \<not> AheadOf 0 t l)"
    using assms(7) l(1) by (auto simp: IsFrameTimestampObsolete_def split: option.splits)
  obtain w where w: "process_step D (GetFrameRecoveryTiming ?l) (clock 0) ?l = Some (Continue, deliver_first (clock 0) w t p)"
    "core w = core ?l" "\<not> vr_awaiting_keyframe w"
  proof (cases "vr_awaiting_keyframe v")
    case True
    have "core (clear_nacks (?l\<lparr>vr_awaiting_keyframe := False\<rparr>) p) = core ?l" "\<not> vr_awaiting_keyframe (clear_nacks (?l\<lparr>vr_awaiting_keyframe := False\<rparr>) p)"
      by simp_all
    then show ?thesis using that old assms(5,9) True l(2) by (simp add: process_step_def pend)
  next
    case False
    then show ?thesis using that [of ?l] old assms(5) nb l(2) by (simp add: process_step_def pend)
  qed
  let ?v = "deliver_first (clock 0) w t p"
  have d: "vr_delivered ?v = vr_delivered v @ [(t, pf_is_keyframe p, f)]" "vr_last_complete_frame_ts ?v = Some t"
    using deliver_first_outcome [of p "clock 0" w t] w(2) l(1) assms(3,6) by auto
  have e: "fa_pending (vr_fa ?v) = []" using w(2) pend by simp
  have a: "\<not> vr_awaiting_keyframe ?v" using w(3) by (simp add: deliver_first_def Let_def split: option.split)
  have "process_loop D (GetFrameRecoveryTiming ?l) clock 0 ?l = Some (True, ?v)"
    using w(1) e by (subst process_loop.simps, simp) (subst process_loop.simps, simp add: process_step_def)
  with P d e a show ?thesis by auto
qed

section \<open>A frame from the sender to the client\<close>

text \<open>
  A receiver that waits for the frame with timestamp \<open>ts\<close> whose first packet has number \<open>k\<close>: no
  frame is pending, no packet is requested, and if the requester has seen packets the newest one is
  the packet before the frame.
\<close>

definition rx_ready :: "u16 \<Rightarrow> u32 \<Rightarrow> VideoReceiver \<Rightarrow> bool" where
  "rx_ready k ts v \<longleftrightarrow> sender_idle v \<and> vr_is_running v \<and> vr_on_receive_complete_frame v \<and>
     vr_media_payload_type v = ucast PT_H264 \<and> fa_pending (vr_fa v) = [] \<and> unknown_frame (vr_fa v) ts \<and>
     \<not> IsFrameTimestampObsolete v ts \<and> nk_list (vr_nack v) = [] \<and>
     (RtxEnabled v \<longrightarrow> nack_ok (vr_nack v) \<and> nk_recovered (vr_nack v) = [] \<and> \<not> nk_keyframe_request_pending (vr_nack v) \<and>
       (nk_initialized (vr_nack v) \<longrightarrow> nk_newest_seq_num (vr_nack v) = k - 1))"

lemma rx_ready_nacks: "rx_ready k ts v \<Longrightarrow> nacks_open k c {} v"
  by (auto simp: rx_ready_def nacks_open_def nack_track_def keys_of_def place_def intro!: exI [of _ 0])

definition rx_track :: "u16 \<Rightarrow> byte list list \<Rightarrow> u32 \<Rightarrow> VideoReceiver \<Rightarrow> nat set \<Rightarrow> VideoReceiver \<Rightarrow> bool" where
  "rx_track k ds ts v I w \<longleftrightarrow> same_rx v w \<and> nacks_open k (length ds) I w \<and>
     h264.arrived ts k ds [28] IsH264KeyFrame Map.empty ts I (vr_fa w)"

lemma rx_ready_track: "rx_ready k ts v \<Longrightarrow> rx_track k ds ts v {} v"
proof -
  assume r: "rx_ready k ts v"
  then have "h264.unseen (vr_fa v) ts" "circle.ordered ts (fa_pending (vr_fa v))"
    by (simp_all add: rx_ready_def unknown_frame_def h264.unseen_def)
  from h264.unseen_arrived [OF this] show ?thesis
    using r rx_ready_nacks [OF r] by (simp add: rx_track_def same_rx_def rx_ready_def)
qed

lemma half_circle_self: "t \<in> half_circle t"
  by (simp add: half_circle_def)

lemma missing_one:
  assumes "i < (n :: nat)" and "A = {0..<n} - {i}"
  shows "A \<noteq> {0..<n}" and "A \<subseteq> {0..<n}" and "insert i A = {0..<n}"
proof -
  have i: "i \<in> {0..<n}" using assms(1) by simp
  then show "A \<noteq> {0..<n}" "A \<subseteq> {0..<n}" "insert i A = {0..<n}" unfolding assms(2) by blast+
qed

lemma ordered_single:
  assumes "circle.ordered b m" and "map_of m = [t \<mapsto> p]"
  shows "m = [(t, p)]"
proof -
  have d: "distinct (map fst m)" using circle.ordered_distinct [OF assms(1)] by (simp add: keys_of_def)
  have "(a, b) \<in> set m \<longleftrightarrow> a = t \<and> b = p" for a b
    using map_of_eq_Some_iff [OF d, of a b] assms(2) by (cases "a = t") auto
  then have "set m = {(t, p)}" by auto
  moreover have "distinct m" using d by (simp add: distinct_map)
  ultimately have "length m = 1" using distinct_card [of m] by simp
  with \<open>set m = _\<close> show ?thesis by (cases m) auto
qed

text \<open>A frame that has left: fragment \<open>i\<close> of \<open>ds\<close> in packet \<open>i\<close>, with consecutive numbers from \<open>k\<close>.\<close>

definition frame_sent :: "byte option \<Rightarrow> u16 \<Rightarrow> u32 \<Rightarrow> u32 \<Rightarrow> byte list list \<Rightarrow> RtpPacketToSend list \<Rightarrow> bool" where
  "frame_sent eid k ts ssrc ds ss \<longleftrightarrow> length ss = length ds \<and> (\<forall>i < length ds. \<exists>t. length t = 3 \<and>
     on_wire eid t (i = length ds - 1) (ucast PT_H264) (SequenceNumberAt k i) ts ssrc (fu_body ds i) (ts_packet (ss ! i)))"

lemma frame_arrival:
  assumes "frame_sent eid k ts ssrc ds ss" and "valid_ext_id eid" and "ssrc \<noteq> 0" and "length ds \<le> 1000"
    and "\<forall>d \<in> set ds. length d < 2 ^ 31" and "rx_ready k ts v" and "vr_remote_ssrc v = ssrc" and "rx_track k ds ts v I w"
    and "I \<subseteq> {0..<length ds}" and "i < length ds" and "carries eid (vr_rtx_ssrc v) (ss ! i) d"
    and "\<And>q. h264.is_packet ts k ds [28] IsH264KeyFrame i q \<Longrightarrow> \<exists>fa. ProcessH264RtpPacket now (vr_fa w) q = Some fa \<and> Q fa"
  shows "\<exists>w'. OnReceiveRtpPacket D object now w d = Some (0, w') \<and> same_rx v w' \<and> Q (vr_fa w') \<and> nacks_open k (length ds) (insert i I) w'"
proof -
  obtain t where t: "length t = 3"
    "on_wire eid t (i = length ds - 1) (ucast PT_H264) (SequenceNumberAt k i) ts ssrc (fu_body ds i) (ts_packet (ss ! i))"
    using assms(1,10) by (auto simp: frame_sent_def)
  have s: "same_rx v w" "nacks_open k (length ds) I w" using assms(8) by (simp_all add: rx_track_def)
  have o: "\<not> IsFrameTimestampObsolete w ts" "vr_media_payload_type w = ucast PT_H264" "vr_remote_ssrc w = ssrc" "vr_rtx_ssrc w = vr_rtx_ssrc v"
    using s(1) assms(6,7) by (simp_all add: same_rx_def rx_ready_def IsFrameTimestampObsolete_def)
  have "sender_idle w" using s(1) by (simp add: same_rx_def)
  moreover have "length (ds ! i) < 2 ^ 31" using assms(5,10) by simp
  ultimately show ?thesis
    using channel_packet [where Q = Q and D = D and object = object, OF _ t(2,1) assms(2) refl assms(3) _ o(3,2,1) _ s(2) assms(4,10,9,12)] assms(11) o(4)
      same_rx_trans [OF s(1)] by metis
qed

lemma frame_arrivals:
  assumes "frame_sent eid k ts ssrc ds ss" and "valid_ext_id eid" and "ssrc \<noteq> 0" and "length ds \<le> 1000"
    and "\<forall>d \<in> set ds. length d < 2 ^ 31" and "rx_ready k ts v" and "vr_remote_ssrc v = ssrc"
    and "\<forall>(now, i, d) \<in> set js. i < length ds \<and> carries eid (vr_rtx_ssrc v) (ss ! i) d" and "I \<subseteq> {0..<length ds}"
    and "I \<union> (\<lambda>(now, i, d). i) ` set js \<noteq> {0..<length ds}" and "rx_track k ds ts v I w"
  shows "\<exists>w'. foldM (\<lambda>(now, i, d) w. map_option snd (OnReceiveRtpPacket D object now w d)) js w = Some w' \<and>
    rx_track k ds ts v (I \<union> (\<lambda>(now, i, d). i) ` set js) w'"
  using assms(8-11)
proof (induction js arbitrary: I w)
  case (Cons j js)
  obtain now i d where j: "j = (now, i, d)" by (cases j)
  have i: "i < length ds" "carries eid (vr_rtx_ssrc v) (ss ! i) d" using Cons.prems(1) j by auto
  have sub: "(\<lambda>(now, i, d). i) ` set js \<subseteq> {0..<length ds}" using Cons.prems(1) by auto
  have I: "insert i I \<noteq> {0..<length ds}" using Cons.prems(2,3) i(1) sub j by auto
  have A: "h264.arrived ts k ds [28] IsH264KeyFrame Map.empty ts I (vr_fa w)" using Cons.prems(4) by (simp add: rx_track_def)
  have "\<exists>fa. ProcessH264RtpPacket now (vr_fa w) q = Some fa \<and> h264.arrived ts k ds [28] IsH264KeyFrame Map.empty ts (insert i I) fa"
    if "h264.is_packet ts k ds [28] IsH264KeyFrame i q" for q
    using h264.arrived_step [OF that A Cons.prems(2) i(1) I half_circle_self] assms(4) by simp
  then obtain w' where w': "OnReceiveRtpPacket D object now w d = Some (0, w')" "rx_track k ds ts v (insert i I) w'"
    using frame_arrival [OF assms(1-7) Cons.prems(4,2) i, of now] unfolding rx_track_def by blast
  have eq: "insert i I \<union> (\<lambda>(now, i, d). i) ` set js = I \<union> (\<lambda>(now, i, d). i) ` set (j # js)" using j by auto
  have "\<forall>(now, i, d) \<in> set js. i < length ds \<and> carries eid (vr_rtx_ssrc v) (ss ! i) d" "insert i I \<subseteq> {0..<length ds}"
    using Cons.prems(1,2) i(1) by auto
  from Cons.IH [OF this _ w'(2)] show ?case using Cons.prems(3) w'(1) j unfolding eq by simp
qed simp

lemma frame_completed:
  assumes "frame_sent eid k ts ssrc ds ss" and "valid_ext_id eid" and "ssrc \<noteq> 0" and "length ds \<le> 1000"
    and "\<forall>d \<in> set ds. length d < 2 ^ 31" and "rx_ready k ts v" and "vr_remote_ssrc v = ssrc" and "rx_track k ds ts v I w"
    and "I \<subseteq> {0..<length ds}" and "insert i I = {0..<length ds}" and "i < length ds" and "carries eid (vr_rtx_ssrc v) (ss ! i) d"
  shows "\<exists>w' p f. OnReceiveRtpPacket D object now w d = Some (0, w') \<and> same_rx v w' \<and> nk_list (vr_nack w') = [] \<and>
    fa_pending (vr_fa w') = [(ts, p)] \<and> pf_is_complete p \<and> pf_frame p = Some f \<and> rf_data f = [28] @ concat ds \<and>
    pf_is_keyframe p = IsH264KeyFrame ([28] @ concat ds)"
proof -
  let ?f = "[28] @ concat ds"
  have A: "h264.arrived ts k ds [28] IsH264KeyFrame Map.empty ts I (vr_fa w)" using assms(8) by (simp add: rx_track_def)
  define Q where "Q fa \<longleftrightarrow> circle.ordered ts (fa_pending fa) \<and> committed (fa_pending (vr_fa w)) (fa_pending fa) ts ?f
    (IsH264KeyFrame ?f) (SequenceNumberAt k (length ds - 1))" for fa :: FrameAssembly
  have "\<exists>fa. ProcessH264RtpPacket now (vr_fa w) q = Some fa \<and> Q fa" if "h264.is_packet ts k ds [28] IsH264KeyFrame i q" for q
    using h264.arrived_complete [OF that half_circle_self A assms(11,10), of now] assms(4) unfolding Q_def by auto
  then obtain w' where w': "OnReceiveRtpPacket D object now w d = Some (0, w')" "same_rx v w'" "Q (vr_fa w')"
    "nacks_open k (length ds) (insert i I) w'"
    using frame_arrival [OF assms(1-9,11,12), of now Q D object] by blast
  obtain p f where p: "map_of (fa_pending (vr_fa w')) = (map_of (fa_pending (vr_fa w)))(ts \<mapsto> p)" "pf_is_complete p"
    "pf_frame p = Some f" "rf_data f = ?f" "pf_is_keyframe p = IsH264KeyFrame ?f"
    using w'(3) unfolding Q_def committed_def by blast
  have "map_of (fa_pending (vr_fa w)) t' = None" if "t' \<noteq> ts" for t' using A that unfolding h264.arrived_def by simp
  then have "map_of (fa_pending (vr_fa w')) = [ts \<mapsto> p]" unfolding p(1) by (intro ext) simp
  moreover have "circle.ordered ts (fa_pending (vr_fa w'))" using w'(3) unfolding Q_def by simp
  ultimately have "fa_pending (vr_fa w') = [(ts, p)]" by (rule ordered_single [rotated])
  moreover have "nk_list (vr_nack w') = []"
    using w'(4) nack_track_complete unfolding assms(10) nacks_open_def by (cases "RtxEnabled w'") simp_all
  ultimately show ?thesis using w'(1,2) p(2-5) by blast
qed

lemma H264_frame_sent:
  assumes "pz_ok z" and "pz_payload_type z = PT_H264" and "n \<le> length payload" and "MAX_NALU_LEN < n" and "packet_count n \<le> 1000"
    and "ssrc_seq (pz_ssrc z) = Some k"
  shows "\<exists>ps z' ss. H264_Build z payload n ts = Some (ps, z') \<and> length ps = packet_count n \<and>
    transmit_all (pz_abs_send_time_ext_id z) ssrc_seq (map (\<lambda>i. (ntp i, new_RtpPacketToSend (ps ! i))) [0..<length ps]) =
      Some (ss, ssrc_seq(pz_ssrc z \<mapsto> k + of_nat (packet_count n))) \<and>
    frame_sent (pz_abs_send_time_ext_id z) k ts (pz_ssrc z) (map (chunk payload n) [0..<packet_count n]) ss"
proof -
  let ?pt = "ucast (pz_payload_type z) :: byte" and ?c = "packet_count n" and ?eid = "pz_abs_send_time_ext_id z"
  define ds where "ds = map (chunk payload n) [0..<?c]"
  have pt: "unat ?pt < 128" "?pt \<noteq> PT_RTX" using assms(2) by (simp_all add: PT_H264_def PT_RTX_def)
  have "?c \<le> 4096" using assms(5) by simp
  then obtain ps z' where ps: "H264_Build z payload n ts = Some (ps, z')" "length ps = ?c"
    "\<forall>i < ?c. rp_padding_size (ps ! i) = 0 \<and> built z (i = ?c - 1) ?pt (pz_sequence_number z + 1 + of_nat i) ts
      ([fu_indicator_byte, fu_header_byte (i = 0) (i = ?c - 1)] @ chunk payload n i) (ps ! i)"
    using H264_fua_packets [OF assms(1) pt assms(3,4), of ts] by blast
  let ?l = "map (\<lambda>i. (ntp i, new_RtpPacketToSend (ps ! i))) [0..<length ps]"
  have "\<forall>i < length ?l. \<exists>t seq. length t = 3 \<and> on_wire ?eid t (i = ?c - 1) ?pt seq ts (pz_ssrc z) (fu_body ds i) (ts_packet (snd (?l ! i)))"
  proof (intro allI impI)
    fix i assume "i < length ?l"
    then have i: "i < ?c" using ps(2) by simp
    have "on_wire ?eid [0, 0, 0] (i = ?c - 1) ?pt (pz_sequence_number z + 1 + of_nat i) ts (pz_ssrc z) (fu_body ds i) (ps ! i)"
      using built_on_wire [OF _ _ assms(1) pt(1)] ps(3) i by (simp add: fu_body_def ds_def)
    then show "\<exists>t seq. length t = 3 \<and> on_wire ?eid t (i = ?c - 1) ?pt seq ts (pz_ssrc z) (fu_body ds i) (ts_packet (snd (?l ! i)))"
      using i ps(2) by (intro exI [of _ "[0, 0, 0]"] exI) (auto simp: new_RtpPacketToSend_def)
  qed
  from transmit_all_on_wire [where m = "\<lambda>i. i = ?c - 1" and body = "fu_body ds" and ssrc_seq = ssrc_seq and ssrc = "pz_ssrc z", OF this assms(6)] ps(2)
  obtain ss where "transmit_all ?eid ssrc_seq ?l = Some (ss, ssrc_seq(pz_ssrc z \<mapsto> k + of_nat ?c))" "length ss = ?c"
    "\<forall>i < ?c. \<exists>t. length t = 3 \<and> on_wire ?eid t (i = ?c - 1) ?pt (SequenceNumberAt k i) ts (pz_ssrc z) (fu_body ds i) (ts_packet (ss ! i))"
    by auto
  then show ?thesis
    using ps(1,2) assms(2) unfolding ds_def [symmetric]
    by (intro exI [of _ ps] exI [of _ z'] exI [of _ ss]) (simp add: frame_sent_def, simp add: ds_def)
qed

section \<open>Properties\<close>


lemma configured_ready:
  assumes "length buf = IP_PACKET_SIZE" and "v = SetOnReceiveCompleteFrame (SetMediaConfig (new_VideoReceiver ssrc buf io now) remote rtx 96)"
  shows "rx_ready k ts v" and "vr_remote_ssrc v = remote" and "\<not> vr_awaiting_keyframe v" and "vr_delivered v = []"
proof -
  have "sender_idle v" using new_VideoReceiver_idle [OF assms(1)] unfolding assms(2)
    by (simp add: SetOnReceiveCompleteFrame_def SetMediaConfig_def sender_idle_def)
  then show "rx_ready k ts v"
    using new_FrameAssembly_start(1) [of ts] new_NackRequester_ok unfolding assms(2)
    by (simp add: rx_ready_def SetOnReceiveCompleteFrame_def SetMediaConfig_def new_VideoReceiver_def Let_def
        unknown_frame_def new_FrameAssembly_def IsFrameTimestampObsolete_def new_NackRequester_def PT_H264_def)
qed (simp_all add: assms(2) SetOnReceiveCompleteFrame_def SetMediaConfig_def new_VideoReceiver_def)

definition waiting_receiver :: VideoReceiver where
  "waiting_receiver = SetOnReceiveCompleteFrame (SetMediaConfig (new_VideoReceiver 9 (replicate 1500 0) False 0) 7 2 96)"

lemmas waiting_receiver_ready = configured_ready [OF _ waiting_receiver_def, unfolded length_replicate IP_PACKET_SIZE_def, OF refl]

definition sent_payload :: "byte list" where
  "sent_payload = replicate 1200 5"

lemma sent_payload: "length sent_payload = 1200" "take 1200 sent_payload = sent_payload"
  unfolding sent_payload_def by (rule length_replicate) (simp only: take_replicate min.idem)


end
