(* ===== verification/PacketQueue.thy ===== *)
theory PacketQueue
  imports Rtx Units "HOL-Library.Multiset"
begin

text \<open>
  The queue of the pacer, \<open>PrioritizedPacketQueue\<close>
  (\<open>src/qos/prioritized_packet_queue.{h,cc}\<close>): one FIFO per source and priority level, the sources of
  a level served in turns, packets that waited too long dropped, the time in the queue accounted.

  A pointer to a \<open>StreamQueue\<close> is the source it is stored under; following one to a stream that
  \<open>streams_\<close> no longer has is a fault (\<open>None\<close>), as are \<open>front\<close> of an empty deque, an index outside an
  array, \<open>value\<close> of an unset packet type and the erasure of a list node that is gone. The nodes of
  \<open>enqueue_times_\<close> have numbers, taken from \<open>pq_next_node\<close>. Log messages are left out; a packet in
  the queue is never null because \<open>Push\<close> dereferences it first.

  The operations are in the order of the source. Theory \<open>PacketQueueSpec\<close> relates the state to a plain
  specification, a list of levels each of which is a list of sources with their waiting packets.
\<close>

section \<open>Packets and streams\<close>

record PacketQueueTTL =
  ttl_audio_retransmission :: time_delta
  ttl_video_retransmission :: time_delta
  ttl_video :: time_delta

definition default_PacketQueueTTL :: PacketQueueTTL where
  "default_PacketQueueTTL = \<lparr>ttl_audio_retransmission = PlusInfinity, ttl_video_retransmission = PlusInfinity, ttl_video = PlusInfinity\<rparr>"

record QueuedPacket =
  qp_packet :: RtpPacketToSend
  qp_enqueue_time :: timestamp
  qp_enqueue_time_iterator :: nat

record StreamQueue =
  sq_packets :: "QueuedPacket list list"
  sq_last_enqueue_time :: timestamp
  sq_num_keyframe_packets :: int

definition kNumPriorityLevels :: nat where "kNumPriorityLevels = 5"
definition kNumMediaTypes :: nat where "kNumMediaTypes = 5"
definition kAudioPrioLevel :: nat where "kAudioPrioLevel = 0"

text \<open>The value of the enumeration, used as an index.\<close>

fun media_type_index :: "RtpPacketMediaType \<Rightarrow> nat" where
  "media_type_index kAudio = 0"
| "media_type_index kVideo = 1"
| "media_type_index kRetransmission = 2"
| "media_type_index kForwardErrorCorrection = 3"
| "media_type_index kPadding = 4"

fun GetPriorityForType :: "RtpPacketMediaType \<Rightarrow> OriginalType option \<Rightarrow> nat" where
  "GetPriorityForType kAudio original_type = kAudioPrioLevel"
| "GetPriorityForType kRetransmission original_type =
     (if original_type = Some Original_kVideo then kAudioPrioLevel + 2 else kAudioPrioLevel + 1)"
| "GetPriorityForType kVideo original_type = kAudioPrioLevel + 3"
| "GetPriorityForType kForwardErrorCorrection original_type = kAudioPrioLevel + 3"
| "GetPriorityForType kPadding original_type = kAudioPrioLevel + 4"

definition ToTtlPerPrio :: "PacketQueueTTL \<Rightarrow> time_delta list" where
  "ToTtlPerPrio packet_queue_ttl =
     ((replicate kNumPriorityLevels PlusInfinity)
       [GetPriorityForType kRetransmission (Some Original_kAudio) := ttl_audio_retransmission packet_queue_ttl])
       [GetPriorityForType kRetransmission (Some Original_kVideo) := ttl_video_retransmission packet_queue_ttl,
        GetPriorityForType kVideo None := ttl_video packet_queue_ttl]"

definition PacketSize :: "QueuedPacket \<Rightarrow> unit_value" where
  "PacketSize p = int (rp_payload_size (ts_packet (qp_packet p)) + rp_padding_size (ts_packet (qp_packet p)))"

definition new_StreamQueue :: "timestamp \<Rightarrow> StreamQueue" where
  "new_StreamQueue creation_time =
     \<lparr>sq_packets = replicate kNumPriorityLevels [], sq_last_enqueue_time = creation_time, sq_num_keyframe_packets = 0\<rparr>"

definition Stream_EnqueuePacket :: "StreamQueue \<Rightarrow> QueuedPacket \<Rightarrow> nat \<Rightarrow> (bool \<times> StreamQueue) option" where
  "Stream_EnqueuePacket sq packet priority_level = do {
     let sq = (if ts_is_key_frame (qp_packet packet)
               then sq\<lparr>sq_num_keyframe_packets := sq_num_keyframe_packets sq + 1\<rparr> else sq) in do {
     packets \<leftarrow> rd (sq_packets sq) priority_level;
     let first_packet_at_level = (packets = []) in
     Some (first_packet_at_level, sq\<lparr>sq_packets := (sq_packets sq)[priority_level := packets @ [packet]]\<rparr>) } }"

definition Stream_DequeuePacket :: "StreamQueue \<Rightarrow> nat \<Rightarrow> (QueuedPacket \<times> StreamQueue) option" where
  "Stream_DequeuePacket sq priority_level = do {
     packets \<leftarrow> rd (sq_packets sq) priority_level;
     case packets of [] \<Rightarrow> None
     | packet # rest \<Rightarrow>
         let sq = sq\<lparr>sq_packets := (sq_packets sq)[priority_level := rest]\<rparr> in
         Some (packet, if ts_is_key_frame (qp_packet packet)
           then sq\<lparr>sq_num_keyframe_packets := sq_num_keyframe_packets sq - 1\<rparr> else sq) }"

definition HasPacketsAtPrio :: "StreamQueue \<Rightarrow> nat \<Rightarrow> bool option" where
  "HasPacketsAtPrio sq priority_level = map_option (\<lambda>packets. packets \<noteq> []) (rd (sq_packets sq) priority_level)"

definition Stream_IsEmpty :: "StreamQueue \<Rightarrow> bool" where
  "Stream_IsEmpty sq = list_all (\<lambda>queue. queue = []) (sq_packets sq)"

definition Stream_LeadingPacketEnqueueTime :: "StreamQueue \<Rightarrow> nat \<Rightarrow> timestamp option" where
  "Stream_LeadingPacketEnqueueTime sq priority_level = do {
     packets \<leftarrow> rd (sq_packets sq) priority_level;
     packet \<leftarrow> rd packets 0;
     Some (qp_enqueue_time packet) }"

definition has_keyframe_packets :: "StreamQueue \<Rightarrow> bool" where
  "has_keyframe_packets sq = (sq_num_keyframe_packets sq > 0)"

definition DequeueAll :: "StreamQueue \<Rightarrow> QueuedPacket list list \<times> StreamQueue" where
  "DequeueAll sq = (sq_packets sq, sq\<lparr>sq_packets := replicate kNumPriorityLevels [], sq_num_keyframe_packets := 0\<rparr>)"

section \<open>The queue\<close>

record PrioritizedPacketQueue =
  pq_prioritize_audio_retransmission :: bool
  pq_time_to_live_per_prio :: "time_delta list"
  pq_queue_time_sum :: time_delta
  pq_pause_time_sum :: time_delta
  pq_size_packets :: int
  pq_size_packets_per_media_type :: "int list"
  pq_size_payload :: unit_value
  pq_last_update_time :: timestamp
  pq_paused :: bool
  pq_last_culling_time :: timestamp
  pq_streams :: "u32 \<rightharpoonup> StreamQueue"
  pq_streams_by_prio :: "u32 list list"
  pq_top_active_prio_level :: int
  pq_enqueue_times :: "(nat \<times> timestamp) list"
  pq_next_node :: nat

definition new_PrioritizedPacketQueue :: "timestamp \<Rightarrow> bool \<Rightarrow> PacketQueueTTL \<Rightarrow> PrioritizedPacketQueue" where
  "new_PrioritizedPacketQueue creation_time prioritize_audio_retransmission packet_queue_ttl =
     \<lparr>pq_prioritize_audio_retransmission = prioritize_audio_retransmission,
      pq_time_to_live_per_prio = ToTtlPerPrio packet_queue_ttl, pq_queue_time_sum = 0, pq_pause_time_sum = 0,
      pq_size_packets = 0, pq_size_packets_per_media_type = replicate kNumMediaTypes 0, pq_size_payload = 0,
      pq_last_update_time = creation_time, pq_paused = False, pq_last_culling_time = creation_time,
      pq_streams = Map.empty, pq_streams_by_prio = replicate kNumPriorityLevels [],
      pq_top_active_prio_level = -1, pq_enqueue_times = [], pq_next_node = 0\<rparr>"

text \<open>The returned packet has the time it spent in the queue.\<close>

definition DequeuePacketInternal :: "PrioritizedPacketQueue \<Rightarrow> QueuedPacket \<Rightarrow> (RtpPacketToSend \<times> PrioritizedPacketQueue) option" where
  "DequeuePacketInternal q packet =
     (let q = q\<lparr>pq_size_packets := pq_size_packets q - 1\<rparr> in do {
      packet_type \<leftarrow> ts_packet_type (qp_packet packet);
      n \<leftarrow> rd (pq_size_packets_per_media_type q) (media_type_index packet_type);
      let time_in_non_paused_state =
            unit_sub (Timestamp_sub (pq_last_update_time q) (qp_enqueue_time packet)) (pq_pause_time_sum q);
          q = q\<lparr>pq_size_packets_per_media_type := (pq_size_packets_per_media_type q)[media_type_index packet_type := n - 1],
                pq_size_payload := unit_sub (pq_size_payload q) (PacketSize packet),
                pq_queue_time_sum := unit_sub (pq_queue_time_sum q) time_in_non_paused_state\<rparr> in
      if qp_enqueue_time_iterator packet \<notin> fst ` set (pq_enqueue_times q) then None
      else Some ((qp_packet packet)\<lparr>ts_time_in_send_queue := Some time_in_non_paused_state\<rparr>,
        q\<lparr>pq_enqueue_times := filter (\<lambda>(i, t). i \<noteq> qp_enqueue_time_iterator packet) (pq_enqueue_times q)\<rparr>) })"

text \<open>The inner loop of \<open>PurgeOldPacketsAtPriorityLevel\<close>, on one stream.\<close>

definition level_of :: "PrioritizedPacketQueue \<Rightarrow> nat \<Rightarrow> u32 \<Rightarrow> QueuedPacket list" where
  "level_of q prio_level ssrc =
     (case pq_streams q ssrc of None \<Rightarrow> [] | Some sq \<Rightarrow> (case rd (sq_packets sq) prio_level of None \<Rightarrow> [] | Some ps \<Rightarrow> ps))"

lemma DequeuePacketInternal_same:
  assumes "DequeuePacketInternal q p = Some (t, q')"
  shows "pq_streams q' = pq_streams q" "pq_streams_by_prio q' = pq_streams_by_prio q"
    "pq_top_active_prio_level q' = pq_top_active_prio_level q" "pq_time_to_live_per_prio q' = pq_time_to_live_per_prio q"
    "pq_last_update_time q' = pq_last_update_time q" "pq_pause_time_sum q' = pq_pause_time_sum q" "pq_paused q' = pq_paused q"
    "pq_prioritize_audio_retransmission q' = pq_prioritize_audio_retransmission q" "pq_next_node q' = pq_next_node q"
    "pq_last_culling_time q' = pq_last_culling_time q"
  using assms by (auto simp: DequeuePacketInternal_def Let_def split: Option.bind_splits if_splits)

function purge_stream :: "nat \<Rightarrow> time_delta \<Rightarrow> timestamp \<Rightarrow> u32 \<Rightarrow> PrioritizedPacketQueue \<Rightarrow> PrioritizedPacketQueue option" where
  "purge_stream prio_level time_to_live now queue_ptr q = do {
     sq \<leftarrow> pq_streams q queue_ptr;
     has \<leftarrow> HasPacketsAtPrio sq prio_level;
     if \<not> has then Some q
     else do {
       t \<leftarrow> Stream_LeadingPacketEnqueueTime sq prio_level;
       if \<not> Timestamp_sub now t > time_to_live then Some q
       else do {
         (packet, sq) \<leftarrow> Stream_DequeuePacket sq prio_level;
         (_, q) \<leftarrow> DequeuePacketInternal (q\<lparr>pq_streams := (pq_streams q)(queue_ptr \<mapsto> sq)\<rparr>) packet;
         purge_stream prio_level time_to_live now queue_ptr q } } }"
  by pat_completeness auto
termination
  by (relation "measure (\<lambda>(l, _, _, s, q). length (level_of q l s))")
    (auto simp: level_of_def Stream_DequeuePacket_def Let_def rd_eq_Some_iff dest!: DequeuePacketInternal_same(1)
      split: Option.bind_splits option.splits list.splits if_splits)

declare purge_stream.simps [simp del]

text \<open>The outer loop; it erases the streams that have no more packets at the level.\<close>

fun purge_queues :: "nat \<Rightarrow> time_delta \<Rightarrow> timestamp \<Rightarrow> u32 list \<Rightarrow> PrioritizedPacketQueue \<Rightarrow> (u32 list \<times> PrioritizedPacketQueue) option" where
  "purge_queues prio_level time_to_live now [] q = Some ([], q)"
| "purge_queues prio_level time_to_live now (queue_ptr # iter) q = do {
     q \<leftarrow> purge_stream prio_level time_to_live now queue_ptr q;
     sq \<leftarrow> pq_streams q queue_ptr;
     has \<leftarrow> HasPacketsAtPrio sq prio_level;
     (queues, q) \<leftarrow> purge_queues prio_level time_to_live now iter q;
     Some (if has then queue_ptr # queues else queues, q) }"

definition PurgeOldPacketsAtPriorityLevel :: "PrioritizedPacketQueue \<Rightarrow> nat \<Rightarrow> timestamp \<Rightarrow> PrioritizedPacketQueue option" where
  "PurgeOldPacketsAtPriorityLevel q prio_level now = do {
     time_to_live \<leftarrow> rd (pq_time_to_live_per_prio q) prio_level;
     if IsInfinite time_to_live then Some q
     else do {
       queues \<leftarrow> rd (pq_streams_by_prio q) prio_level;
       (queues, q) \<leftarrow> purge_queues prio_level time_to_live now queues q;
       Some (q\<lparr>pq_streams_by_prio := (pq_streams_by_prio q)[prio_level := queues]\<rparr>) } }"

text \<open>The search for a level that is not empty, with the levels \<open>is\<close> still to look at.\<close>

fun find_top :: "nat list \<Rightarrow> PrioritizedPacketQueue \<Rightarrow> PrioritizedPacketQueue option" where
  "find_top [] q = Some q"
| "find_top (i # is) q = do {
     q \<leftarrow> PurgeOldPacketsAtPriorityLevel q i (pq_last_update_time q);
     queues \<leftarrow> rd (pq_streams_by_prio q) i;
     if queues \<noteq> [] then Some (q\<lparr>pq_top_active_prio_level := int i\<rparr>) else find_top is q }"

definition MaybeUpdateTopPrioLevel :: "PrioritizedPacketQueue \<Rightarrow> PrioritizedPacketQueue option" where
  "MaybeUpdateTopPrioLevel q = do {
     keep \<leftarrow> (if pq_top_active_prio_level q \<noteq> -1
              then map_option (\<lambda>queues. queues \<noteq> []) (rd (pq_streams_by_prio q) (nat (pq_top_active_prio_level q)))
              else Some False);
     if keep then Some q
     else do {
       q \<leftarrow> find_top [0..<kNumPriorityLevels] q;
       Some (if pq_size_packets q = 0 then q\<lparr>pq_top_active_prio_level := -1\<rparr> else q) } }"

definition UpdateAverageQueueTime :: "PrioritizedPacketQueue \<Rightarrow> timestamp \<Rightarrow> PrioritizedPacketQueue" where
  "UpdateAverageQueueTime q now =
     (if now = pq_last_update_time q then q
      else
        let delta = Timestamp_sub now (pq_last_update_time q);
            q = (if pq_paused q then q\<lparr>pq_pause_time_sum := unit_add (pq_pause_time_sum q) delta\<rparr>
                 else q\<lparr>pq_queue_time_sum := unit_add (pq_queue_time_sum q) (unit_scale delta (pq_size_packets q))\<rparr>) in
        q\<lparr>pq_last_update_time := now\<rparr>)"

definition SetPauseState :: "PrioritizedPacketQueue \<Rightarrow> bool \<Rightarrow> timestamp \<Rightarrow> PrioritizedPacketQueue" where
  "SetPauseState q paused now = (UpdateAverageQueueTime q now)\<lparr>pq_paused := paused\<rparr>"

definition kTimeout :: time_delta where "kTimeout = Millis 500"

text \<open>The loop over \<open>streams_\<close> at the end of \<open>Push\<close> erases idle streams.\<close>

definition cull_streams :: "PrioritizedPacketQueue \<Rightarrow> timestamp \<Rightarrow> PrioritizedPacketQueue" where
  "cull_streams q enqueue_time =
     (if Timestamp_sub enqueue_time (pq_last_culling_time q) > kTimeout
      then q\<lparr>pq_streams := (\<lambda>s. case pq_streams q s of None \<Rightarrow> None
               | Some sq \<Rightarrow> if Stream_IsEmpty sq \<and> Timestamp_add (sq_last_enqueue_time sq) kTimeout < enqueue_time then None else Some sq),
             pq_last_culling_time := enqueue_time\<rparr>
      else q)"

definition Push :: "PrioritizedPacketQueue \<Rightarrow> timestamp \<Rightarrow> RtpPacketToSend \<Rightarrow> PrioritizedPacketQueue option" where
  "Push q enqueue_time packet =
     (let ssrc = rp_ssrc (ts_packet packet);
          q = (case pq_streams q ssrc of None \<Rightarrow> q\<lparr>pq_streams := (pq_streams q)(ssrc \<mapsto> new_StreamQueue enqueue_time)\<rparr>
               | Some _ \<Rightarrow> q);
          enqueue_time_iterator = pq_next_node q;
          q = q\<lparr>pq_enqueue_times := pq_enqueue_times q @ [(enqueue_time_iterator, enqueue_time)],
                pq_next_node := pq_next_node q + 1\<rparr> in do {
      packet_type \<leftarrow> ts_packet_type packet;
      let prio_level = GetPriorityForType packet_type
            (if pq_prioritize_audio_retransmission q then ts_original_packet_type packet else None) in do {
      q \<leftarrow> PurgeOldPacketsAtPriorityLevel q prio_level enqueue_time;
      let q = UpdateAverageQueueTime q enqueue_time;
          queued_packet = \<lparr>qp_packet = packet, qp_enqueue_time = Timestamp_sub_delta enqueue_time (pq_pause_time_sum q),
            qp_enqueue_time_iterator = enqueue_time_iterator\<rparr> in do {
      n \<leftarrow> rd (pq_size_packets_per_media_type q) (media_type_index packet_type);
      let q = q\<lparr>pq_size_packets := pq_size_packets q + 1,
                pq_size_packets_per_media_type := (pq_size_packets_per_media_type q)[media_type_index packet_type := n + 1],
                pq_size_payload := unit_add (pq_size_payload q) (PacketSize queued_packet)\<rparr> in do {
      stream_queue \<leftarrow> pq_streams q ssrc;
      (first_packet_at_level, stream_queue) \<leftarrow> Stream_EnqueuePacket stream_queue queued_packet prio_level;
      queues \<leftarrow> rd (pq_streams_by_prio q) prio_level;
      let q = q\<lparr>pq_streams := (pq_streams q)(ssrc \<mapsto> stream_queue)\<rparr>;
          q = (if first_packet_at_level
               then q\<lparr>pq_streams_by_prio := (pq_streams_by_prio q)[prio_level := queues @ [ssrc]]\<rparr> else q);
          q = (if pq_top_active_prio_level q < 0 \<or> int prio_level < pq_top_active_prio_level q
               then q\<lparr>pq_top_active_prio_level := int prio_level\<rparr> else q) in
      Some (cull_streams q enqueue_time) } } } })"

definition Pop :: "PrioritizedPacketQueue \<Rightarrow> (RtpPacketToSend option \<times> PrioritizedPacketQueue) option" where
  "Pop q =
     (if pq_size_packets q = 0 then Some (None, q)
      else if pq_top_active_prio_level q < 0 then None
      else
        let prio_level = nat (pq_top_active_prio_level q) in do {
        queues \<leftarrow> rd (pq_streams_by_prio q) prio_level;
        stream \<leftarrow> rd queues 0;
        stream_queue \<leftarrow> pq_streams q stream;
        (packet, stream_queue) \<leftarrow> Stream_DequeuePacket stream_queue prio_level;
        (packet, q) \<leftarrow> DequeuePacketInternal (q\<lparr>pq_streams := (pq_streams q)(stream \<mapsto> stream_queue)\<rparr>) packet;
        has \<leftarrow> HasPacketsAtPrio stream_queue prio_level;
        let queues = tl queues in
        if has
        then Some (Some packet, q\<lparr>pq_streams_by_prio := (pq_streams_by_prio q)[prio_level := queues @ [stream]]\<rparr>)
        else do {
          q \<leftarrow> MaybeUpdateTopPrioLevel (q\<lparr>pq_streams_by_prio := (pq_streams_by_prio q)[prio_level := queues]\<rparr>);
          Some (Some packet, q) } })"

definition Queue_Empty :: "PrioritizedPacketQueue \<Rightarrow> bool" where "Queue_Empty q = (pq_size_packets q = 0)"

definition LeadingPacketEnqueueTime_at :: "PrioritizedPacketQueue \<Rightarrow> nat \<Rightarrow> timestamp \<Rightarrow> timestamp option" where
  "LeadingPacketEnqueueTime_at q priority_level none = do {
     queues \<leftarrow> rd (pq_streams_by_prio q) priority_level;
     case queues of [] \<Rightarrow> Some none
     | s # _ \<Rightarrow> do { sq \<leftarrow> pq_streams q s; Stream_LeadingPacketEnqueueTime sq priority_level } }"

definition LeadingPacketEnqueueTime :: "PrioritizedPacketQueue \<Rightarrow> RtpPacketMediaType \<Rightarrow> timestamp option" where
  "LeadingPacketEnqueueTime q type = LeadingPacketEnqueueTime_at q (GetPriorityForType type None) MinusInfinity"

definition LeadingPacketEnqueueTimeForRetransmission :: "PrioritizedPacketQueue \<Rightarrow> timestamp option" where
  "LeadingPacketEnqueueTimeForRetransmission q =
     (if \<not> pq_prioritize_audio_retransmission q
      then LeadingPacketEnqueueTime_at q (GetPriorityForType kRetransmission None) PlusInfinity
      else do {
        next_audio \<leftarrow> LeadingPacketEnqueueTime_at q (GetPriorityForType kRetransmission (Some Original_kAudio)) PlusInfinity;
        next_video \<leftarrow> LeadingPacketEnqueueTime_at q (GetPriorityForType kRetransmission (Some Original_kVideo)) PlusInfinity;
        Some (min next_audio next_video) })"

definition OldestEnqueueTime :: "PrioritizedPacketQueue \<Rightarrow> timestamp" where
  "OldestEnqueueTime q = (case pq_enqueue_times q of [] \<Rightarrow> MinusInfinity | (_, t) # _ \<Rightarrow> t)"

definition AverageQueueTime :: "PrioritizedPacketQueue \<Rightarrow> time_delta" where
  "AverageQueueTime q = (if pq_size_packets q = 0 then 0 else unit_div (pq_queue_time_sum q) (pq_size_packets q))"

definition HasKeyframePackets :: "PrioritizedPacketQueue \<Rightarrow> u32 \<Rightarrow> bool" where
  "HasKeyframePackets q ssrc = (case pq_streams q ssrc of None \<Rightarrow> False | Some sq \<Rightarrow> has_keyframe_packets sq)"

fun dequeue_packets :: "QueuedPacket list \<Rightarrow> PrioritizedPacketQueue \<Rightarrow> PrioritizedPacketQueue option" where
  "dequeue_packets [] q = Some q"
| "dequeue_packets (packet # packet_queue) q = do {
     (_, q) \<leftarrow> DequeuePacketInternal q packet;
     dequeue_packets packet_queue q }"

text \<open>The body of the loop over the levels in \<open>RemovePacketsForSsrc\<close>.\<close>

definition remove_level :: "u32 \<Rightarrow> nat \<times> QueuedPacket list \<Rightarrow> PrioritizedPacketQueue \<Rightarrow> PrioritizedPacketQueue option" where
  "remove_level ssrc = (\<lambda>(i, packet_queue) q.
     if packet_queue = [] then Some q
     else do {
       q \<leftarrow> dequeue_packets packet_queue q;
       queues \<leftarrow> rd (pq_streams_by_prio q) i;
       Some (q\<lparr>pq_streams_by_prio := (pq_streams_by_prio q)
         [i := (if length queues = 1 then tl queues else filter (\<lambda>s. s \<noteq> ssrc) queues)]\<rparr>) })"

definition RemovePacketsForSsrc :: "PrioritizedPacketQueue \<Rightarrow> u32 \<Rightarrow> PrioritizedPacketQueue option" where
  "RemovePacketsForSsrc q ssrc = do {
     q \<leftarrow> (case pq_streams q ssrc of None \<Rightarrow> Some q
           | Some sq \<Rightarrow>
               (case DequeueAll sq of (packets_by_prio, sq) \<Rightarrow>
                  foldM (remove_level ssrc) (zip [0..<kNumPriorityLevels] packets_by_prio)
                    (q\<lparr>pq_streams := (pq_streams q)(ssrc \<mapsto> sq)\<rparr>)));
     MaybeUpdateTopPrioLevel q }"

end
