(* ===== verification/Prober.thy ===== *)
theory Prober
  imports Units
begin

text \<open>
  The prober of the pacer, \<open>BitrateProber\<close> (\<open>src/qos/bitrate_prober.{h,cc}\<close>): clusters of probes that
  wait for their turn, the time of the next probe, and the expiry of clusters that were not sent in
  time.

  The \<open>std::queue\<close> of clusters is a list. Integers of type \<open>int\<close> are unbounded; the conversions from
  \<open>int64_t\<close> to \<open>int\<close> wrap (\<open>to_int32\<close>). A division by a zero rate is a fault, the value \<open>None\<close>.
  Log messages are left out.
\<close>

section \<open>Types\<close>

text \<open>From \<open>src/common/api/transport/network_types.h\<close>.\<close>

record ProbeClusterConfig =
  pcc_at_time :: timestamp
  pcc_target_data_rate :: unit_value
  pcc_target_duration :: time_delta
  pcc_min_probe_delta :: time_delta
  pcc_target_probe_count :: int
  pcc_id :: int

record PacedPacketInfo =
  ppi_send_bitrate :: unit_value
  ppi_probe_cluster_id :: int
  ppi_probe_cluster_min_probes :: int
  ppi_probe_cluster_min_bytes :: int
  ppi_probe_cluster_bytes_sent :: int

definition kNotAProbe :: int where "kNotAProbe = -1"

definition new_PacedPacketInfo :: PacedPacketInfo where
  "new_PacedPacketInfo = \<lparr>ppi_send_bitrate = 0, ppi_probe_cluster_id = kNotAProbe, ppi_probe_cluster_min_probes = -1,
     ppi_probe_cluster_min_bytes = -1, ppi_probe_cluster_bytes_sent = 0\<rparr>"

datatype ProbingState = kDisabled | kInactive | kActive

record BitrateProberConfig =
  bpc_max_probe_delay :: time_delta
  bpc_min_packet_size :: unit_value
  bpc_allow_start_probing_immediately :: bool

record ProbeCluster =
  cl_pace_info :: PacedPacketInfo
  cl_sent_probes :: int
  cl_sent_packets :: int
  cl_sent_bytes :: int
  cl_min_probe_delta :: time_delta
  cl_requested_at :: timestamp
  cl_started_at :: timestamp

record BitrateProber =
  bp_probing_state :: ProbingState
  bp_clusters :: "ProbeCluster list"
  bp_next_probe_time :: timestamp
  bp_config :: BitrateProberConfig

definition kProbeClusterTimeout :: time_delta where "kProbeClusterTimeout = Seconds 5"
definition kMaxPendingProbeClusters :: nat where "kMaxPendingProbeClusters = 5"

definition to_int32 :: "int \<Rightarrow> int" where "to_int32 v = signed_take_bit 31 v"

text \<open>The division of a size by a rate; dividing by zero is a fault.\<close>

definition size_div_rate :: "unit_value \<Rightarrow> unit_value \<Rightarrow> time_delta option" where
  "size_div_rate sz rate = (if rate = 0 then None else Some (size_over_rate sz rate))"

section \<open>Operations\<close>

definition new_BitrateProberConfig :: BitrateProberConfig where
  "new_BitrateProberConfig = \<lparr>bpc_max_probe_delay = Millis 10, bpc_min_packet_size = 200, bpc_allow_start_probing_immediately = False\<rparr>"

definition SetEnabled :: "BitrateProber \<Rightarrow> bool \<Rightarrow> BitrateProber" where
  "SetEnabled b enable =
     (if enable
      then (if bp_probing_state b = kDisabled then b\<lparr>bp_probing_state := kInactive\<rparr> else b)
      else b\<lparr>bp_probing_state := kDisabled\<rparr>)"

definition new_BitrateProber :: BitrateProber where
  "new_BitrateProber = SetEnabled
     \<lparr>bp_probing_state = kDisabled, bp_clusters = [], bp_next_probe_time = PlusInfinity, bp_config = new_BitrateProberConfig\<rparr> True"

definition is_probing :: "BitrateProber \<Rightarrow> bool" where "is_probing b \<longleftrightarrow> bp_probing_state b = kActive"

definition RecommendedMinProbeSize :: "BitrateProber \<Rightarrow> unit_value" where
  "RecommendedMinProbeSize b =
     (case bp_clusters b of [] \<Rightarrow> 0 | c # _ \<Rightarrow> rate_times_time (ppi_send_bitrate (cl_pace_info c)) (cl_min_probe_delta c))"

definition ReadyToSetActiveState :: "BitrateProber \<Rightarrow> unit_value \<Rightarrow> bool" where
  "ReadyToSetActiveState b packet_size =
     (if bp_clusters b = [] then False
      else case bp_probing_state b of
        kDisabled \<Rightarrow> False
      | kActive \<Rightarrow> False
      | kInactive \<Rightarrow> bpc_allow_start_probing_immediately (bp_config b) \<or>
          packet_size \<ge> min (RecommendedMinProbeSize b) (bpc_min_packet_size (bp_config b)))"

definition MaybeSetActiveState :: "BitrateProber \<Rightarrow> unit_value \<Rightarrow> BitrateProber" where
  "MaybeSetActiveState b packet_size =
     (if ReadyToSetActiveState b packet_size then b\<lparr>bp_next_probe_time := MinusInfinity, bp_probing_state := kActive\<rparr> else b)"

definition Prober_SetAllowProbeWithoutMediaPacket :: "BitrateProber \<Rightarrow> bool \<Rightarrow> BitrateProber" where
  "Prober_SetAllowProbeWithoutMediaPacket b allow =
     MaybeSetActiveState (b\<lparr>bp_config := (bp_config b)\<lparr>bpc_allow_start_probing_immediately := allow\<rparr>\<rparr>) 0"

definition Prober_AbortProbing :: "BitrateProber \<Rightarrow> BitrateProber" where
  "Prober_AbortProbing b =
     (let b = b\<lparr>bp_clusters := [], bp_next_probe_time := PlusInfinity\<rparr> in
      if bp_probing_state b \<noteq> kDisabled then b\<lparr>bp_probing_state := kInactive\<rparr> else b)"

definition OnIncomingPacket :: "BitrateProber \<Rightarrow> unit_value \<Rightarrow> BitrateProber" where
  "OnIncomingPacket b packet_size = MaybeSetActiveState b packet_size"

definition RemoveExpiredClusters :: "BitrateProber \<Rightarrow> timestamp \<Rightarrow> bool \<times> BitrateProber" where
  "RemoveExpiredClusters b now =
     (let left = dropWhile (\<lambda>c. Timestamp_sub now (cl_requested_at c) \<ge> kProbeClusterTimeout) (bp_clusters b);
          removed_cluster = (length left < length (bp_clusters b));
          b = b\<lparr>bp_clusters := left\<rparr> in
      if \<not> removed_cluster then (False, b)
      else if left = [] then
        (True, let b = b\<lparr>bp_next_probe_time := PlusInfinity\<rparr> in
           if bp_probing_state b \<noteq> kDisabled then b\<lparr>bp_probing_state := kInactive\<rparr> else b)
      else if bp_probing_state b = kActive then (True, b\<lparr>bp_next_probe_time := MinusInfinity\<rparr>)
      else (True, b))"

text \<open>The loop that makes room pops the front while the limit is reached.\<close>

definition CreateProbeCluster :: "BitrateProber \<Rightarrow> ProbeClusterConfig \<Rightarrow> BitrateProber" where
  "CreateProbeCluster b cluster_config =
     (let b = snd (RemoveExpiredClusters b (pcc_at_time cluster_config));
          kept = drop (length (bp_clusters b) - (kMaxPendingProbeClusters - 1)) (bp_clusters b);
          cluster = \<lparr>cl_pace_info = new_PacedPacketInfo\<lparr>ppi_probe_cluster_min_probes := pcc_target_probe_count cluster_config,
                ppi_probe_cluster_min_bytes := to_int32 (rate_times_time (pcc_target_data_rate cluster_config) (pcc_target_duration cluster_config)),
                ppi_send_bitrate := pcc_target_data_rate cluster_config, ppi_probe_cluster_id := pcc_id cluster_config\<rparr>,
              cl_sent_probes = 0, cl_sent_packets = 0, cl_sent_bytes = 0, cl_min_probe_delta = pcc_min_probe_delta cluster_config,
              cl_requested_at = pcc_at_time cluster_config, cl_started_at = MinusInfinity\<rparr> in
      MaybeSetActiveState (b\<lparr>bp_clusters := kept @ [cluster]\<rparr>) 0)"

definition NextClusterExpiration :: "BitrateProber \<Rightarrow> timestamp" where
  "NextClusterExpiration b =
     (case bp_clusters b of [] \<Rightarrow> PlusInfinity | c # _ \<Rightarrow> Timestamp_add (cl_requested_at c) kProbeClusterTimeout)"

definition NextProbeTime :: "BitrateProber \<Rightarrow> timestamp" where
  "NextProbeTime b = (if bp_probing_state b \<noteq> kActive \<or> bp_clusters b = [] then PlusInfinity else bp_next_probe_time b)"

definition CurrentCluster :: "BitrateProber \<Rightarrow> timestamp \<Rightarrow> PacedPacketInfo option \<times> BitrateProber" where
  "CurrentCluster b now =
     (case bp_clusters b of
        [] \<Rightarrow> (None, b)
      | c # cs \<Rightarrow>
          if bp_probing_state b \<noteq> kActive then (None, b)
          else
            let allowed_probe_delay = max (bpc_max_probe_delay (bp_config b)) (unit_scale (cl_min_probe_delta c) 2);
                late = (IsFinite (bp_next_probe_time b) \<and> Timestamp_sub now (bp_next_probe_time b) > allowed_probe_delay);
                b = (if late then b\<lparr>bp_clusters := cs\<rparr> else b) in
            case bp_clusters b of
              [] \<Rightarrow> (None, b\<lparr>bp_probing_state := kInactive\<rparr>)
            | c # _ \<Rightarrow> (Some ((cl_pace_info c)\<lparr>ppi_probe_cluster_bytes_sent := cl_sent_bytes c\<rparr>), b))"

definition CalculateNextProbeTime :: "ProbeCluster \<Rightarrow> timestamp option" where
  "CalculateNextProbeTime cluster = do {
     delta \<leftarrow> size_div_rate (cl_sent_bytes cluster) (ppi_send_bitrate (cl_pace_info cluster));
     Some (Timestamp_add (cl_started_at cluster) delta) }"

definition ProbeSent :: "BitrateProber \<Rightarrow> timestamp \<Rightarrow> unit_value \<Rightarrow> int \<Rightarrow> BitrateProber option" where
  "ProbeSent b now sz packet_count =
     (case bp_clusters b of
        [] \<Rightarrow> Some b
      | cluster # rest \<Rightarrow>
          let cluster = (if cl_sent_probes cluster = 0 then cluster\<lparr>cl_started_at := now\<rparr> else cluster);
              cluster = cluster\<lparr>cl_sent_bytes := cl_sent_bytes cluster + to_int32 sz,
                cl_sent_packets := cl_sent_packets cluster + packet_count, cl_sent_probes := cl_sent_probes cluster + 1\<rparr> in do {
          next \<leftarrow> CalculateNextProbeTime cluster;
          let b = b\<lparr>bp_next_probe_time := max next (Timestamp_add now (cl_min_probe_delta cluster))\<rparr>;
              b = (if cl_sent_bytes cluster \<ge> ppi_probe_cluster_min_bytes (cl_pace_info cluster) \<and>
                      cl_sent_probes cluster \<ge> ppi_probe_cluster_min_probes (cl_pace_info cluster)
                   then b\<lparr>bp_clusters := rest\<rparr> else b\<lparr>bp_clusters := cluster # rest\<rparr>) in
          Some (if bp_clusters b = [] then b\<lparr>bp_probing_state := kInactive\<rparr> else b) })"

end
