(* ===== verification/Pacer.thy ===== *)
theory Pacer
  imports PacketQueue Prober
begin

text \<open>
  The pacer, \<open>PacingController\<close> (\<open>src/qos/pacing_controller.{h,cc}\<close>): a leaky bucket that decides
  when the packets of the queue leave, when padding fills the rate, and when a probe is sent.

  The abstract class \<open>PacketSender\<close>, through which packets leave, and the clock are the record
  \<open>PacketSender\<close> of functions on a state \<open>'s\<close>, which every operation threads through. A reading of
  the clock, a call of \<open>SendPacket\<close> and so on happen in the order of the source. \<open>OnBatchComplete\<close> is
  missing: the source calls it in the deleter of an empty \<open>unique_ptr\<close>, which never runs.

  \<open>None\<close> is a fault: a division by a zero rate, a packet without a type, or a fault of the queue or
  of the sender. The loop of \<open>ProcessPackets\<close> is bounded by \<open>circuit_breaker_threshold_\<close>; the number
  of iterations left is an argument. Variables that only log messages read (\<open>max_rate\<close>,
  \<open>padding_packets_generated\<close>, \<open>padding_generation_failed\<close>) are left out.
\<close>

section \<open>State\<close>

record 's PacketSender =
  ps_SendPacket :: "RtpPacketToSend \<Rightarrow> PacedPacketInfo \<Rightarrow> 's \<Rightarrow> 's option"
  ps_FetchFec :: "'s \<Rightarrow> RtpPacketToSend list \<times> 's"
  ps_GeneratePadding :: "unit_value \<Rightarrow> 's \<Rightarrow> (RtpPacketToSend list \<times> 's) option"
  ps_CurrentTime :: "'s \<Rightarrow> timestamp \<times> 's"

record PacerConfiguration =
  cfg_drain_large_queues :: bool
  cfg_queue_time_limit :: time_delta
  cfg_keyframe_flushing :: bool
  cfg_prioritize_audio_retransmission :: bool
  cfg_packet_queue_ttl :: PacketQueueTTL
  cfg_send_burst_interval :: time_delta

record PacingController =
  pc_drain_large_queues :: bool
  pc_send_padding_if_silent :: bool
  pc_pace_audio :: bool
  pc_ignore_transport_overhead :: bool
  pc_fast_retransmissions :: bool
  pc_keyframe_flushing :: bool
  pc_transport_overhead_per_packet :: unit_value
  pc_send_burst_interval :: time_delta
  pc_last_timestamp :: timestamp
  pc_paused :: bool
  pc_media_debt :: unit_value
  pc_padding_debt :: unit_value
  pc_pacing_rate :: unit_value
  pc_adjusted_media_rate :: unit_value
  pc_padding_rate :: unit_value
  pc_prober :: BitrateProber
  pc_probing_send_failure :: bool
  pc_last_process_time :: timestamp
  pc_last_send_time :: timestamp
  pc_first_sent_packet_time :: "timestamp option"
  pc_seen_first_packet :: bool
  pc_packet_queue :: PrioritizedPacketQueue
  pc_congested :: bool
  pc_queue_time_limit :: time_delta
  pc_account_for_audio :: bool
  pc_include_overhead :: bool
  pc_circuit_breaker_threshold :: int

definition kCongestedPacketInterval :: time_delta where "kCongestedPacketInterval = Millis 500"
definition kMaxDebtInTime :: time_delta where "kMaxDebtInTime = Millis 500"
definition kMaxElapsedTime :: time_delta where "kMaxElapsedTime = Seconds 2"
definition kPausedProcessInterval :: time_delta where "kPausedProcessInterval = kCongestedPacketInterval"
definition kTargetPaddingDuration :: time_delta where "kTargetPaddingDuration = Millis 5"
definition kMaxPaddingReplayDuration :: time_delta where "kMaxPaddingReplayDuration = Millis 50"
definition kMaxEarlyProbeProcessing :: time_delta where "kMaxEarlyProbeProcessing = Millis 1"
definition kMaxBurstSize :: unit_value where "kMaxBurstSize = 63 * 1000"
definition kDefaultBurstInterval :: time_delta where "kDefaultBurstInterval = Millis 40"
definition kMaxExpectedQueueLength :: time_delta where "kMaxExpectedQueueLength = Millis 2000"

definition DefaultConfiguration :: PacerConfiguration where
  "DefaultConfiguration = \<lparr>cfg_drain_large_queues = True, cfg_queue_time_limit = kMaxExpectedQueueLength,
     cfg_keyframe_flushing = False, cfg_prioritize_audio_retransmission = False,
     cfg_packet_queue_ttl = default_PacketQueueTTL, cfg_send_burst_interval = kDefaultBurstInterval\<rparr>"

text \<open>The constructor reads the clock twice.\<close>

definition new_PacingController :: "'s PacketSender \<Rightarrow> PacerConfiguration \<Rightarrow> 's \<Rightarrow> PacingController \<times> 's" where
  "new_PacingController env configuration s =
     (case ps_CurrentTime env s of (last_timestamp, s) \<Rightarrow>
      case ps_CurrentTime env s of (last_process_time, s) \<Rightarrow>
      (\<lparr>pc_drain_large_queues = cfg_drain_large_queues configuration, pc_send_padding_if_silent = True, pc_pace_audio = False,
        pc_ignore_transport_overhead = False, pc_fast_retransmissions = True,
        pc_keyframe_flushing = cfg_keyframe_flushing configuration, pc_transport_overhead_per_packet = 0,
        pc_send_burst_interval = cfg_send_burst_interval configuration, pc_last_timestamp = last_timestamp, pc_paused = False,
        pc_media_debt = 0, pc_padding_debt = 0, pc_pacing_rate = 0, pc_adjusted_media_rate = 0, pc_padding_rate = 0,
        pc_prober = new_BitrateProber, pc_probing_send_failure = False, pc_last_process_time = last_process_time,
        pc_last_send_time = last_process_time, pc_first_sent_packet_time = None, pc_seen_first_packet = False,
        pc_packet_queue = new_PrioritizedPacketQueue last_process_time (cfg_prioritize_audio_retransmission configuration)
          (cfg_packet_queue_ttl configuration),
        pc_congested = False, pc_queue_time_limit = cfg_queue_time_limit configuration, pc_account_for_audio = False,
        pc_include_overhead = False, pc_circuit_breaker_threshold = 2 ^ 16\<rparr>, s))"

section \<open>Time and budgets\<close>

definition ClearProbingSendFailure :: "PacingController \<Rightarrow> PacingController" where
  "ClearProbingSendFailure pc = pc\<lparr>pc_probing_send_failure := False\<rparr>"

text \<open>A reading of the clock never goes back.\<close>

definition CurrentTime :: "'s PacketSender \<Rightarrow> PacingController \<Rightarrow> 's \<Rightarrow> (timestamp \<times> PacingController \<times> 's) option" where
  "CurrentTime env pc s =
     (case ps_CurrentTime env s of (time, s) \<Rightarrow>
      let time = (if time < pc_last_timestamp pc then pc_last_timestamp pc else time) in
      Some (time, pc\<lparr>pc_last_timestamp := time\<rparr>, s))"

definition QueueSizeData :: "PacingController \<Rightarrow> unit_value" where
  "QueueSizeData pc =
     (let sz = pq_size_payload (pc_packet_queue pc) in
      if pc_include_overhead pc
      then unit_add sz (unit_scale (pc_transport_overhead_per_packet pc) (pq_size_packets (pc_packet_queue pc)))
      else sz)"

definition UpdateTimeAndGetElapsed :: "PacingController \<Rightarrow> timestamp \<Rightarrow> time_delta \<times> PacingController" where
  "UpdateTimeAndGetElapsed pc now =
     (if IsMinusInfinity (pc_last_process_time pc) \<or> now < pc_last_process_time pc then (0, pc)
      else
        let elapsed_time = Timestamp_sub now (pc_last_process_time pc);
            pc = pc\<lparr>pc_last_process_time := now\<rparr> in
        (if elapsed_time > kMaxElapsedTime then kMaxElapsedTime else elapsed_time, pc))"

definition UpdateBudgetWithElapsedTime :: "PacingController \<Rightarrow> time_delta \<Rightarrow> PacingController" where
  "UpdateBudgetWithElapsedTime pc delta =
     pc\<lparr>pc_media_debt := unit_sub (pc_media_debt pc) (min (pc_media_debt pc) (rate_times_time (pc_adjusted_media_rate pc) delta)),
        pc_padding_debt := unit_sub (pc_padding_debt pc) (min (pc_padding_debt pc) (rate_times_time (pc_padding_rate pc) delta))\<rparr>"

text \<open>The two calls that always come together.\<close>

definition drain_until :: "PacingController \<Rightarrow> timestamp \<Rightarrow> PacingController" where
  "drain_until pc now = (case UpdateTimeAndGetElapsed pc now of (elapsed_time, pc) \<Rightarrow> UpdateBudgetWithElapsedTime pc elapsed_time)"

definition UpdatePaddingBudgetWithSentData :: "PacingController \<Rightarrow> unit_value \<Rightarrow> PacingController" where
  "UpdatePaddingBudgetWithSentData pc sz =
     pc\<lparr>pc_padding_debt := min (unit_add (pc_padding_debt pc) sz) (rate_times_time (pc_padding_rate pc) kMaxDebtInTime)\<rparr>"

definition UpdateBudgetWithSentData :: "PacingController \<Rightarrow> unit_value \<Rightarrow> PacingController" where
  "UpdateBudgetWithSentData pc sz =
     UpdatePaddingBudgetWithSentData
       (pc\<lparr>pc_media_debt := min (unit_add (pc_media_debt pc) sz) (rate_times_time (pc_adjusted_media_rate pc) kMaxDebtInTime)\<rparr>) sz"

definition MaybeUpdateMediaRateDueToLongQueue :: "PacingController \<Rightarrow> timestamp \<Rightarrow> PacingController" where
  "MaybeUpdateMediaRateDueToLongQueue pc now =
     (let pc = pc\<lparr>pc_adjusted_media_rate := pc_pacing_rate pc\<rparr> in
      if \<not> pc_drain_large_queues pc then pc
      else
        let queue_size_data = QueueSizeData pc in
        if queue_size_data > 0 then
          let pc = pc\<lparr>pc_packet_queue := UpdateAverageQueueTime (pc_packet_queue pc) now\<rparr>;
              avg_time_left = max (Millis 1) (unit_sub (pc_queue_time_limit pc) (AverageQueueTime (pc_packet_queue pc)));
              min_rate_needed = size_over_time queue_size_data avg_time_left in
          if min_rate_needed > pc_pacing_rate pc then pc\<lparr>pc_adjusted_media_rate := min_rate_needed\<rparr> else pc
        else pc)"

text \<open>The time of the leading packet that is not paced: audio, or else a retransmission.\<close>

definition NextUnpacedSendTime :: "PacingController \<Rightarrow> timestamp option" where
  "NextUnpacedSendTime pc = do {
     leading_audio_send_time \<leftarrow>
       (if \<not> pc_pace_audio pc then LeadingPacketEnqueueTime (pc_packet_queue pc) kAudio else Some MinusInfinity);
     if IsFinite leading_audio_send_time then Some leading_audio_send_time
     else do {
       leading_retransmission_send_time \<leftarrow>
         (if pc_fast_retransmissions pc then LeadingPacketEnqueueTimeForRetransmission (pc_packet_queue pc) else Some MinusInfinity);
       if IsFinite leading_retransmission_send_time then Some leading_retransmission_send_time
       else Some MinusInfinity } }"

definition ShouldSendKeepalive :: "PacingController \<Rightarrow> timestamp \<Rightarrow> bool" where
  "ShouldSendKeepalive pc now \<longleftrightarrow>
     (pc_send_padding_if_silent pc \<or> pc_paused pc \<or> pc_congested pc \<or> \<not> pc_seen_first_packet pc) \<and>
     Timestamp_sub now (pc_last_send_time pc) \<ge> kCongestedPacketInterval"

text \<open>The send time of a queue that is neither paused nor probing nor congested.\<close>

definition paced_send_time :: "PacingController \<Rightarrow> timestamp option" where
  "paced_send_time pc = do {
     next_send_time \<leftarrow>
       (if pc_adjusted_media_rate pc > 0 \<and> \<not> Queue_Empty (pc_packet_queue pc) then do {
          drain_time \<leftarrow> size_div_rate (pc_media_debt pc) (pc_adjusted_media_rate pc);
          burst_limit \<leftarrow> size_div_rate kMaxBurstSize (pc_adjusted_media_rate pc);
          let send_burst_interval = min (pc_send_burst_interval pc) burst_limit in
          Some (Timestamp_add (pc_last_process_time pc) (if send_burst_interval > drain_time then 0 else drain_time)) }
        else if pc_padding_rate pc > 0 \<and> Queue_Empty (pc_packet_queue pc) then do {
          media_drain_time \<leftarrow> size_div_rate (pc_media_debt pc) (pc_adjusted_media_rate pc);
          padding_drain_time \<leftarrow> size_div_rate (pc_padding_debt pc) (pc_padding_rate pc);
          let drain_time = max media_drain_time padding_drain_time;
              drain_time = (if drain_time = 0 \<and> (pc_media_debt pc \<noteq> 0 \<or> pc_padding_debt pc \<noteq> 0) then 1 else drain_time) in
          Some (Timestamp_add (pc_last_process_time pc) drain_time) }
        else Some (Timestamp_add (pc_last_process_time pc) kPausedProcessInterval));
     Some (if pc_send_padding_if_silent pc
           then min next_send_time (Timestamp_add (pc_last_send_time pc) kPausedProcessInterval)
           else next_send_time) }"

definition planned_send_time :: "PacingController \<Rightarrow> timestamp \<Rightarrow> timestamp option" where
  "planned_send_time pc now =
     (if pc_paused pc then Some (Timestamp_add (pc_last_send_time pc) kPausedProcessInterval)
      else if is_probing (pc_prober pc) \<and> \<not> pc_probing_send_failure pc \<and> \<not> IsPlusInfinity (NextProbeTime (pc_prober pc))
      then Some (if IsMinusInfinity (NextProbeTime (pc_prober pc)) then now else NextProbeTime (pc_prober pc))
      else do {
        unpaced_send_time \<leftarrow> NextUnpacedSendTime pc;
        if IsFinite unpaced_send_time then Some unpaced_send_time
        else if pc_congested pc \<or> \<not> pc_seen_first_packet pc
        then Some (Timestamp_add (pc_last_send_time pc) kCongestedPacketInterval)
        else paced_send_time pc })"

definition NextSendTime :: "'s PacketSender \<Rightarrow> PacingController \<Rightarrow> 's \<Rightarrow> (timestamp \<times> PacingController \<times> 's) option" where
  "NextSendTime env pc s = do {
     (now, pc, s) \<leftarrow> CurrentTime env pc s;
     send_time \<leftarrow> planned_send_time pc now;
     Some (min send_time (NextClusterExpiration (pc_prober pc)), pc, s) }"

section \<open>Settings\<close>

definition CreateProbeClusters :: "PacingController \<Rightarrow> ProbeClusterConfig list \<Rightarrow> PacingController" where
  "CreateProbeClusters pc probe_cluster_configs =
     (let pc = pc\<lparr>pc_prober := fold (\<lambda>config b. CreateProbeCluster b config) probe_cluster_configs (pc_prober pc)\<rparr> in
      if probe_cluster_configs \<noteq> [] then ClearProbingSendFailure pc else pc)"

definition Pause :: "'s PacketSender \<Rightarrow> PacingController \<Rightarrow> 's \<Rightarrow> (PacingController \<times> 's) option" where
  "Pause env pc s =
     (let pc = pc\<lparr>pc_paused := True\<rparr> in do {
      (now, pc, s) \<leftarrow> CurrentTime env pc s;
      Some (pc\<lparr>pc_packet_queue := SetPauseState (pc_packet_queue pc) True now\<rparr>, s) })"

definition Resume :: "'s PacketSender \<Rightarrow> PacingController \<Rightarrow> 's \<Rightarrow> (PacingController \<times> 's) option" where
  "Resume env pc s = do {
     (now, pc, s) \<leftarrow> CurrentTime env pc s;
     let pc = (if pc_paused pc then pc\<lparr>pc_last_process_time := now\<rparr> else pc);
         pc = pc\<lparr>pc_paused := False\<rparr> in
     Some (pc\<lparr>pc_packet_queue := SetPauseState (pc_packet_queue pc) False now\<rparr>, s) }"

definition SetCongested :: "'s PacketSender \<Rightarrow> PacingController \<Rightarrow> bool \<Rightarrow> 's \<Rightarrow> (PacingController \<times> 's) option" where
  "SetCongested env pc congested s =
     (let congestion_cleared = (pc_congested pc \<and> \<not> congested) in do {
      (pc, s) \<leftarrow> (if congestion_cleared
        then do { (now, pc, s) \<leftarrow> CurrentTime env pc s; Some (drain_until pc now, s) }
        else Some (pc, s));
      let pc = pc\<lparr>pc_congested := congested\<rparr> in
      Some (if congestion_cleared then ClearProbingSendFailure pc else pc, s) })"

definition SetCircuitBreakerThreshold :: "PacingController \<Rightarrow> int \<Rightarrow> PacingController" where
  "SetCircuitBreakerThreshold pc num_iterations = pc\<lparr>pc_circuit_breaker_threshold := num_iterations\<rparr>"

definition Pacer_RemovePacketsForSsrc :: "PacingController \<Rightarrow> u32 \<Rightarrow> PacingController option" where
  "Pacer_RemovePacketsForSsrc pc ssrc = do {
     q \<leftarrow> RemovePacketsForSsrc (pc_packet_queue pc) ssrc;
     Some (pc\<lparr>pc_packet_queue := q\<rparr>) }"

definition SetProbingEnabled :: "PacingController \<Rightarrow> bool \<Rightarrow> PacingController" where
  "SetProbingEnabled pc enabled = pc\<lparr>pc_prober := SetEnabled (pc_prober pc) enabled\<rparr>"

definition AbortProbing :: "PacingController \<Rightarrow> PacingController" where
  "AbortProbing pc = pc\<lparr>pc_prober := Prober_AbortProbing (pc_prober pc), pc_probing_send_failure := False\<rparr>"

definition SetPacingRates :: "'s PacketSender \<Rightarrow> PacingController \<Rightarrow> unit_value \<Rightarrow> unit_value \<Rightarrow> 's \<Rightarrow> (PacingController \<times> 's) option" where
  "SetPacingRates env pc pacing_rate padding_rate s =
     (let padding_rate = (if padding_rate > pacing_rate then pacing_rate else padding_rate);
          pc = pc\<lparr>pc_pacing_rate := pacing_rate, pc_padding_rate := padding_rate\<rparr> in do {
      (now, pc, s) \<leftarrow> CurrentTime env pc s;
      Some (MaybeUpdateMediaRateDueToLongQueue pc now, s) })"

definition SetAccountForAudioPackets :: "PacingController \<Rightarrow> bool \<Rightarrow> PacingController" where
  "SetAccountForAudioPackets pc account_for_audio = pc\<lparr>pc_account_for_audio := account_for_audio\<rparr>"

definition SetIncludeOverhead :: "PacingController \<Rightarrow> PacingController" where
  "SetIncludeOverhead pc = pc\<lparr>pc_include_overhead := True\<rparr>"

definition SetTransportOverhead :: "PacingController \<Rightarrow> unit_value \<Rightarrow> PacingController" where
  "SetTransportOverhead pc overhead_per_packet =
     (if pc_ignore_transport_overhead pc then pc else pc\<lparr>pc_transport_overhead_per_packet := overhead_per_packet\<rparr>)"

definition SetSendBurstInterval :: "PacingController \<Rightarrow> time_delta \<Rightarrow> PacingController" where
  "SetSendBurstInterval pc burst_interval = pc\<lparr>pc_send_burst_interval := burst_interval\<rparr>"

definition SetAllowProbeWithoutMediaPacket :: "PacingController \<Rightarrow> bool \<Rightarrow> PacingController" where
  "SetAllowProbeWithoutMediaPacket pc allow =
     (let pc = pc\<lparr>pc_prober := Prober_SetAllowProbeWithoutMediaPacket (pc_prober pc) allow\<rparr> in
      if allow \<and> is_probing (pc_prober pc) then ClearProbingSendFailure pc else pc)"

definition SetQueueTimeLimit :: "PacingController \<Rightarrow> time_delta \<Rightarrow> PacingController" where
  "SetQueueTimeLimit pc limit = pc\<lparr>pc_queue_time_limit := limit\<rparr>"

definition ExpectedQueueTime :: "PacingController \<Rightarrow> time_delta option" where
  "ExpectedQueueTime pc = size_div_rate (QueueSizeData pc) (pc_adjusted_media_rate pc)"

definition CurrentBufferLevel :: "PacingController \<Rightarrow> unit_value" where
  "CurrentBufferLevel pc = max (pc_media_debt pc) (pc_padding_debt pc)"

definition OldestPacketEnqueueTime :: "PacingController \<Rightarrow> timestamp" where
  "OldestPacketEnqueueTime pc = OldestEnqueueTime (pc_packet_queue pc)"

section \<open>Packets\<close>

definition EnqueuePacket :: "'s PacketSender \<Rightarrow> PacingController \<Rightarrow> RtpPacketToSend \<Rightarrow> 's \<Rightarrow> (PacingController \<times> 's) option" where
  "EnqueuePacket env pc packet s = do {
     pc \<leftarrow> (if pc_keyframe_flushing pc \<and> ts_packet_type packet = Some kVideo \<and> ts_is_key_frame packet \<and>
              ts_is_first_packet_of_frame packet \<and> \<not> HasKeyframePackets (pc_packet_queue pc) (rp_ssrc (ts_packet packet))
            then Pacer_RemovePacketsForSsrc pc (rp_ssrc (ts_packet packet)) else Some pc);
     let pc = pc\<lparr>pc_prober := OnIncomingPacket (pc_prober pc) (int (rp_payload_size (ts_packet packet)))\<rparr>;
         pc = (if is_probing (pc_prober pc) then ClearProbingSendFailure pc else pc) in do {
     (now, pc, s) \<leftarrow> CurrentTime env pc s;
     (pc, s) \<leftarrow> (if Queue_Empty (pc_packet_queue pc) then do {
          (next_send_time, pc, s) \<leftarrow> NextSendTime env pc s;
          let target_process_time = (if IsFinite next_send_time then min now next_send_time else now) in
          Some (drain_until pc target_process_time, s) }
        else Some (pc, s));
     q \<leftarrow> Push (pc_packet_queue pc) now packet;
     let pc = pc\<lparr>pc_packet_queue := q, pc_seen_first_packet := True\<rparr> in
     Some (MaybeUpdateMediaRateDueToLongQueue pc now, s) } }"

fun enqueue_each :: "'s PacketSender \<Rightarrow> RtpPacketToSend list \<Rightarrow> PacingController \<times> 's \<Rightarrow> (PacingController \<times> 's) option" where
  "enqueue_each env [] (pc, s) = Some (pc, s)"
| "enqueue_each env (packet # packets) (pc, s) = do {
     (pc, s) \<leftarrow> EnqueuePacket env pc packet s;
     enqueue_each env packets (pc, s) }"

text \<open>\<open>SendPacket\<close> and the loop over \<open>FetchFec\<close> after it.\<close>

definition send_and_fetch_fec :: "'s PacketSender \<Rightarrow> RtpPacketToSend \<Rightarrow> PacedPacketInfo \<Rightarrow> PacingController \<times> 's \<Rightarrow> (PacingController \<times> 's) option" where
  "send_and_fetch_fec env packet info = (\<lambda>(pc, s). do {
     s \<leftarrow> ps_SendPacket env packet info s;
     case ps_FetchFec env s of (fec, s) \<Rightarrow> enqueue_each env fec (pc, s) })"

definition OnPacketSent :: "PacingController \<Rightarrow> RtpPacketMediaType \<Rightarrow> unit_value \<Rightarrow> timestamp \<Rightarrow> PacingController" where
  "OnPacketSent pc packet_type packet_size send_time =
     (let pc = (if pc_first_sent_packet_time pc = None \<and> packet_type \<noteq> kPadding
                then pc\<lparr>pc_first_sent_packet_time := Some send_time\<rparr> else pc);
          audio_packet = (packet_type = kAudio);
          pc = (if (\<not> audio_packet \<or> pc_account_for_audio pc) \<and> packet_size > 0 then UpdateBudgetWithSentData pc packet_size else pc) in
      pc\<lparr>pc_last_send_time := send_time\<rparr>)"

definition PaddingToAdd :: "PacingController \<Rightarrow> unit_value \<Rightarrow> unit_value \<Rightarrow> unit_value" where
  "PaddingToAdd pc recommended_probe_size data_sent =
     (if \<not> Queue_Empty (pc_packet_queue pc) then 0
      else if pc_congested pc then 0
      else if recommended_probe_size \<noteq> 0 then
        (if recommended_probe_size > data_sent then unit_sub recommended_probe_size data_sent else 0)
      else if pc_padding_rate pc > 0 \<and> pc_padding_debt pc = 0 then rate_times_time (pc_padding_rate pc) kTargetPaddingDuration
      else 0)"

text \<open>The reasons not to send the next packet of the queue, for a queue that is not empty.\<close>

definition send_blocked :: "PacingController \<Rightarrow> bool \<Rightarrow> timestamp \<Rightarrow> timestamp \<Rightarrow> bool option" where
  "send_blocked pc is_probe target_send_time now = do {
     unpaced_send_time \<leftarrow> NextUnpacedSendTime pc;
     if IsInfinite unpaced_send_time \<and> \<not> is_probe then
       (if pc_congested pc then Some True
        else if now \<le> target_send_time \<and> pc_send_burst_interval pc = 0 then do {
          flush_time \<leftarrow> size_div_rate (pc_media_debt pc) (pc_adjusted_media_rate pc);
          Some (Timestamp_add now flush_time > target_send_time) }
        else Some False)
     else Some False }"

definition GetPendingPacket :: "'s PacketSender \<Rightarrow> PacedPacketInfo \<Rightarrow> timestamp \<Rightarrow> timestamp \<Rightarrow> PacingController \<times> 's \<Rightarrow>
    (RtpPacketToSend option \<times> PacingController \<times> 's) option" where
  "GetPendingPacket env pacing_info target_send_time now = (\<lambda>(pc, s).
     let is_probe = (ppi_probe_cluster_id pacing_info \<noteq> kNotAProbe) in do {
     (padding, s) \<leftarrow> (if is_probe \<and> ppi_probe_cluster_bytes_sent pacing_info = 0 then ps_GeneratePadding env 1 s else Some ([], s));
     case padding of
       packet # _ \<Rightarrow> Some (Some packet, pc, s)
     | [] \<Rightarrow>
         if Queue_Empty (pc_packet_queue pc) then Some (None, pc, s)
         else do {
           blocked \<leftarrow> send_blocked pc is_probe target_send_time now;
           if blocked then Some (None, pc, s)
           else do {
             (packet, q) \<leftarrow> Pop (pc_packet_queue pc);
             Some (packet, pc\<lparr>pc_packet_queue := q\<rparr>, s) } } })"

section \<open>The send loop\<close>

record SendLoop =
  sl_pacing_info :: PacedPacketInfo
  sl_target_send_time :: timestamp
  sl_data_sent :: unit_value
  sl_packets_sent :: int

text \<open>What does not change during the loop: the time, whether it is a probe, and the probe size.\<close>

type_synonym send_constants = "timestamp \<times> bool \<times> unit_value"

text \<open>The branch of the loop without a packet; the flag says whether the loop goes on.\<close>

definition pad_step :: "'s PacketSender \<Rightarrow> send_constants \<Rightarrow> SendLoop \<Rightarrow> PacingController \<times> 's \<Rightarrow> (bool \<times> SendLoop \<times> PacingController \<times> 's) option" where
  "pad_step env = (\<lambda>(now, probing, recommended_probe_size) l (pc, s).
     let behind = (Timestamp_sub now (sl_target_send_time l) > kMaxPaddingReplayDuration);
         l = (if behind then l\<lparr>sl_target_send_time := Timestamp_sub_delta now kMaxPaddingReplayDuration\<rparr> else l);
         pc = (if behind then pc\<lparr>pc_last_process_time := max (pc_last_process_time pc) (sl_target_send_time l)\<rparr> else pc);
         padding_to_add = PaddingToAdd pc recommended_probe_size (sl_data_sent l) in
     if padding_to_add > 0 then do {
       (padding_packets, s) \<leftarrow> ps_GeneratePadding env padding_to_add s;
       if padding_packets \<noteq> [] then do {
         (pc, s) \<leftarrow> enqueue_each env padding_packets (pc, s);
         Some (True, l, pc, s) }
       else Some (False, l, UpdatePaddingBudgetWithSentData pc padding_to_add, s) }
     else Some (False, l, pc, s))"

text \<open>The branch that sends a packet.\<close>

definition send_step :: "'s PacketSender \<Rightarrow> send_constants \<Rightarrow> RtpPacketToSend \<Rightarrow> SendLoop \<Rightarrow> PacingController \<times> 's \<Rightarrow>
    (bool \<times> SendLoop \<times> PacingController \<times> 's) option" where
  "send_step env = (\<lambda>(now, probing, recommended_probe_size) packet l (pc, s). do {
     packet_type \<leftarrow> ts_packet_type packet;
     let packet_size = int (rp_payload_size (ts_packet packet) + rp_padding_size (ts_packet packet));
         packet_size = (if pc_include_overhead pc
           then unit_add packet_size (unit_add (int (rp_payload_offset (ts_packet packet))) (pc_transport_overhead_per_packet pc))
           else packet_size) in do {
     (pc, s) \<leftarrow> send_and_fetch_fec env packet (sl_pacing_info l) (pc, s);
     let l = l\<lparr>sl_data_sent := unit_add (sl_data_sent l) packet_size, sl_packets_sent := sl_packets_sent l + 1\<rparr>;
         pc = OnPacketSent pc packet_type packet_size now;
         l = (if probing
              then l\<lparr>sl_pacing_info := (sl_pacing_info l)\<lparr>ppi_probe_cluster_bytes_sent :=
                ppi_probe_cluster_bytes_sent (sl_pacing_info l) + packet_size\<rparr>\<rparr> else l) in
     if probing \<and> sl_data_sent l \<ge> recommended_probe_size then Some (False, l, pc, s)
     else do {
       (target_send_time, pc, s) \<leftarrow> NextSendTime env pc s;
       if target_send_time > now \<and> \<not> probing then Some (False, l\<lparr>sl_target_send_time := target_send_time\<rparr>, pc, s)
       else
         let target_send_time = (if target_send_time > now then now else target_send_time) in
         Some (True, l\<lparr>sl_target_send_time := target_send_time\<rparr>, drain_until pc target_send_time, s) } } })"

definition loop_step :: "'s PacketSender \<Rightarrow> send_constants \<Rightarrow> SendLoop \<Rightarrow> PacingController \<times> 's \<Rightarrow> (bool \<times> SendLoop \<times> PacingController \<times> 's) option" where
  "loop_step env k l st = do {
     (packet, st) \<leftarrow> GetPendingPacket env (sl_pacing_info l) (sl_target_send_time l) (fst k) st;
     case packet of None \<Rightarrow> pad_step env k l st | Some packet \<Rightarrow> send_step env k packet l st }"

text \<open>
  The loop, with the iterations left and whether it goes on; the flag of the result says that the
  loop ended before the circuit breaker.
\<close>

function send_loop :: "'s PacketSender \<Rightarrow> send_constants \<Rightarrow> int \<Rightarrow> bool \<Rightarrow> SendLoop \<Rightarrow> PacingController \<times> 's \<Rightarrow>
    (bool \<times> SendLoop \<times> PacingController \<times> 's) option" where
  "send_loop env k iterations False l st = Some (True, l, st)"
| "send_loop env k iterations True l st =
     (if iterations \<le> 0 then Some (False, l, st)
      else do {
        (continue, l, st) \<leftarrow> loop_step env k l st;
        send_loop env k (iterations - 1) continue l st })"
  by pat_completeness auto
termination by (relation "measure (\<lambda>(env, k, n, c, l, st). nat n)") auto

section \<open>Processing\<close>

fun send_keepalives :: "'s PacketSender \<Rightarrow> RtpPacketToSend list \<Rightarrow> unit_value \<Rightarrow> PacingController \<times> 's \<Rightarrow> (unit_value \<times> PacingController \<times> 's) option" where
  "send_keepalives env [] keepalive_data_sent (pc, s) = Some (keepalive_data_sent, pc, s)"
| "send_keepalives env (packet # packets) keepalive_data_sent (pc, s) = do {
     let keepalive_data_sent = unit_add keepalive_data_sent (int (rp_payload_size (ts_packet packet) + rp_padding_size (ts_packet packet))) in do {
     (pc, s) \<leftarrow> send_and_fetch_fec env packet new_PacedPacketInfo (pc, s);
     send_keepalives env packets keepalive_data_sent (pc, s) } }"

definition process_keepalive :: "'s PacketSender \<Rightarrow> timestamp \<Rightarrow> PacingController \<times> 's \<Rightarrow> (PacingController \<times> 's) option" where
  "process_keepalive env now = (\<lambda>(pc, s).
     if ShouldSendKeepalive pc now then do {
       (keepalive_data_sent, pc, s) \<leftarrow> (if pc_seen_first_packet pc then do {
            (keepalive_packets, s) \<leftarrow> ps_GeneratePadding env 1 s;
            send_keepalives env keepalive_packets 0 (pc, s) }
          else Some (0, pc, s));
       Some (OnPacketSent pc kPadding keepalive_data_sent now, s) }
     else Some (pc, s))"

text \<open>The cluster that a probe belongs to, and the size it should have.\<close>

definition choose_probe :: "PacingController \<Rightarrow> timestamp \<Rightarrow> PacedPacketInfo \<times> bool \<times> unit_value \<times> PacingController" where
  "choose_probe pc now =
     (if is_probing (pc_prober pc) then
        (case CurrentCluster (pc_prober pc) now of (info, b) \<Rightarrow>
           let pc = pc\<lparr>pc_prober := b\<rparr>;
               pacing_info = (case info of None \<Rightarrow> new_PacedPacketInfo | Some info \<Rightarrow> info) in
           if ppi_probe_cluster_id pacing_info \<noteq> kNotAProbe then (pacing_info, True, RecommendedMinProbeSize b, pc)
           else (pacing_info, False, 0, pc))
      else (new_PacedPacketInfo, False, 0, pc))"

definition finish_probe :: "'s PacketSender \<Rightarrow> bool \<Rightarrow> SendLoop \<Rightarrow> PacingController \<times> 's \<Rightarrow> (PacingController \<times> 's) option" where
  "finish_probe env probing l = (\<lambda>(pc, s).
     if probing then
       let send_failure = (sl_data_sent l = 0);
           pc = pc\<lparr>pc_probing_send_failure := send_failure\<rparr> in
       if \<not> send_failure then do {
         (now, pc, s) \<leftarrow> CurrentTime env pc s;
         b \<leftarrow> ProbeSent (pc_prober pc) now (sl_data_sent l) (sl_packets_sent l);
         Some (pc\<lparr>pc_prober := b\<rparr>, s) }
       else Some (pc, s)
     else Some (pc, s))"

text \<open>What \<open>ProcessPackets\<close> does once it is time to send.\<close>

definition process_due :: "'s PacketSender \<Rightarrow> timestamp \<Rightarrow> timestamp \<Rightarrow> PacingController \<times> 's \<Rightarrow> (PacingController \<times> 's) option" where
  "process_due env now target_send_time = (\<lambda>(pc, s).
     case UpdateTimeAndGetElapsed pc target_send_time of (elapsed_time, pc) \<Rightarrow>
     let pc = (if elapsed_time > 0 then UpdateBudgetWithElapsedTime pc elapsed_time else pc) in
     case choose_probe pc now of (pacing_info, probing, recommended_probe_size, pc) \<Rightarrow> do {
     (ended, l, pc, s) \<leftarrow> send_loop env (now, probing, recommended_probe_size) (pc_circuit_breaker_threshold pc) True
        \<lparr>sl_pacing_info = pacing_info, sl_target_send_time = target_send_time, sl_data_sent = 0, sl_packets_sent = 0\<rparr> (pc, s);
     if \<not> ended then Some (pc\<lparr>pc_last_send_time := now, pc_last_process_time := now\<rparr>, s)
     else do {
       (pc, s) \<leftarrow> finish_probe env probing l (pc, s);
       (now, pc, s) \<leftarrow> CurrentTime env pc s;
       Some (MaybeUpdateMediaRateDueToLongQueue pc now, s) } })"

definition ProcessPackets :: "'s PacketSender \<Rightarrow> PacingController \<Rightarrow> 's \<Rightarrow> (PacingController \<times> 's) option" where
  "ProcessPackets env pc s = do {
     (now, pc, s) \<leftarrow> CurrentTime env pc s;
     let (removed, b) = RemoveExpiredClusters (pc_prober pc) now;
         pc = pc\<lparr>pc_prober := b\<rparr>;
         pc = (if removed then pc\<lparr>pc_probing_send_failure := False\<rparr> else pc) in do {
     (pc, s) \<leftarrow> process_keepalive env now (pc, s);
     if pc_paused pc then Some (pc, s)
     else
       let early_execute_margin = (if is_probing (pc_prober pc) then kMaxEarlyProbeProcessing else 0) in do {
       (target_send_time, pc, s) \<leftarrow> NextSendTime env pc s;
       if Timestamp_add now early_execute_margin < target_send_time then Some (drain_until pc now, s)
       else process_due env now target_send_time (pc, s) } } }"

end
