(* ===== verification/PacedSend.thy ===== *)
theory PacedSend
  imports Pacer Histogram
begin

text \<open>
  The paced sender, \<open>src/transport/paced_sender/paced_sender.{h,cpp}\<close>: the tasks of the pacer's task
  queue around the controller of theory \<open>Pacer\<close>, and the class \<open>PacketSender\<close> that it implements.

  A public method posts its body to the task queue, or runs it if it is called there; the bodies are
  modelled, and an execution is a sequence of them. The class is split in two, since the controller
  it owns calls back into it: \<open>PacerOutput\<close> has what these calls use. Readings of the clock are
  \<open>clock 0\<close>, \<open>clock 1\<close> and so on; \<open>pad n\<close> is what the callback \<open>generat_padding_func_\<close> returns in a call
  after \<open>n\<close> readings. The calls of \<open>on_sent_packet_func_\<close> are recorded in
  \<open>po_sent\<close>; they do not call back into the pacer, so \<open>processing_packets_\<close> is false whenever a task
  starts. \<open>po_made\<close> records the padding packets and \<open>po_entered\<close> the packets
  of the channels. \<open>MaybeProcessPackets\<close> tests the flag \<open>is_shutdown_\<close> where the code does, at the start, in
  the condition of its loop and after the loop; an execution sets it between tasks. The delayed tasks posted are recorded in \<open>pd_posted\<close>
  with their delay. The filter of packet sizes is in single precision.
\<close>

section \<open>The sender called by the controller\<close>

record PacerOutput =
  po_is_shutdown :: bool
  po_has_on_sent_packet_func :: bool
  po_ssrc_seq :: "u32 \<rightharpoonup> u16"
  po_transport_seq :: int
  po_sent :: "(RtpPacketToSend \<times> PacedPacketInfo) list"
  po_made :: "RtpPacketToSend list"
  po_entered :: "RtpPacketToSend list"
  po_clock_reads :: nat

definition Clock_CurrentTime :: "(nat \<Rightarrow> timestamp) \<Rightarrow> PacerOutput \<Rightarrow> timestamp \<times> PacerOutput" where
  "Clock_CurrentTime clock s = (clock (po_clock_reads s), s\<lparr>po_clock_reads := po_clock_reads s + 1\<rparr>)"

definition Paced_SendPacket :: "RtpPacketToSend \<Rightarrow> PacedPacketInfo \<Rightarrow> PacerOutput \<Rightarrow> PacerOutput option" where
  "Paced_SendPacket packet cluster_info s =
     (if po_is_shutdown s then Some s
      else if po_has_on_sent_packet_func s then do {
        (packet, ssrc_seq) \<leftarrow> SendPacket (po_ssrc_seq s) packet;
        Some (s\<lparr>po_ssrc_seq := ssrc_seq, po_sent := po_sent s @ [(packet, cluster_info)]\<rparr>) }
      else Some s)"

definition Paced_FetchFec :: "PacerOutput \<Rightarrow> RtpPacketToSend list \<times> PacerOutput" where
  "Paced_FetchFec s = ([], s)"

fun stamp_padding :: "timestamp \<Rightarrow> int \<Rightarrow> RtpPacketToSend list \<Rightarrow> RtpPacketToSend list" where
  "stamp_padding padding_time transport_seq [] = []"
| "stamp_padding padding_time transport_seq (packet # packets) =
     set_packet_type (packet\<lparr>ts_capture_time := padding_time, ts_transport_sequence_number := Some transport_seq\<rparr>) kPadding #
     stamp_padding padding_time (transport_seq + 1) packets"

type_synonym padding_func = "nat \<Rightarrow> u32 \<Rightarrow> int \<Rightarrow> RtpPacketToSend list"

definition Paced_GeneratePadding :: "(nat \<Rightarrow> timestamp) \<Rightarrow> padding_func \<Rightarrow> unit_value \<Rightarrow> PacerOutput \<Rightarrow>
    (RtpPacketToSend list \<times> PacerOutput) option" where
  "Paced_GeneratePadding clock pad sz s =
     (if po_is_shutdown s then Some ([], s)
      else case Clock_CurrentTime clock s of (padding_time, s) \<Rightarrow>
        let rtp_packets = pad (po_clock_reads s) (word_of_int sz) padding_time;
            to_send_rtp_packets = stamp_padding padding_time (po_transport_seq s) rtp_packets in
        Some (to_send_rtp_packets,
          s\<lparr>po_transport_seq := po_transport_seq s + int (length rtp_packets), po_made := po_made s @ to_send_rtp_packets\<rparr>))"

definition paced_env :: "(nat \<Rightarrow> timestamp) \<Rightarrow> padding_func \<Rightarrow> PacerOutput PacketSender" where
  "paced_env clock pad = \<lparr>ps_SendPacket = Paced_SendPacket, ps_FetchFec = Paced_FetchFec,
     ps_GeneratePadding = Paced_GeneratePadding clock pad, ps_CurrentTime = Clock_CurrentTime clock\<rparr>"

section \<open>The filter of packet sizes\<close>

definition kValueUndefined :: rat where "kValueUndefined = -1"
definition filter_alpha :: rat where "filter_alpha = f32 (95 / 100)"

text \<open>\<open>ExpFilter::Apply\<close> (\<open>src/common/rtc_base/numerics/exp_filter.cc\<close>) with the exponent one.\<close>

definition ExpFilter_Apply :: "rat \<Rightarrow> nat \<Rightarrow> rat" where
  "ExpFilter_Apply filtered sample =
     (if filtered = kValueUndefined then f32 (of_nat sample)
      else f32 (f32 (filter_alpha * filtered) + f32 (f32 (1 - filter_alpha) * f32 (of_nat sample))))"

section \<open>The tasks\<close>

record PacerStats =
  st_oldest_packet_enqueue_time :: timestamp
  st_queue_size :: unit_value
  st_expected_queue_time :: time_delta
  st_first_sent_packet_time :: "timestamp option"

record PacedSenderState =
  pd_controller :: PacingController
  pd_out :: PacerOutput
  pd_next_process_time :: timestamp
  pd_is_started :: bool
  pd_transport_ready :: bool
  pd_packet_size :: rat
  pd_include_overhead :: bool
  pd_current_stats :: PacerStats
  pd_processing_packets :: bool
  pd_task_queue_stopped :: bool
  pd_posted :: "(timestamp \<times> time_delta) list"

definition LowLatencyPacingConfiguration :: PacerConfiguration where
  "LowLatencyPacingConfiguration = DefaultConfiguration\<lparr>cfg_keyframe_flushing := True\<rparr>"

definition max_hold_back_window :: time_delta where "max_hold_back_window = Millis 5"
definition max_hold_back_window_in_packets :: int where "max_hold_back_window_in_packets = 3"

definition new_PacedSender :: "PacerOutput PacketSender \<Rightarrow> PacedSenderState" where
  "new_PacedSender env =
     (case new_PacingController env LowLatencyPacingConfiguration
        \<lparr>po_is_shutdown = False, po_has_on_sent_packet_func = False, po_ssrc_seq = Map.empty, po_transport_seq = 0,
         po_sent = [], po_made = [], po_entered = [], po_clock_reads = 0\<rparr> of (pc, s) \<Rightarrow>
      \<lparr>pd_controller = pc, pd_out = s, pd_next_process_time = MinusInfinity, pd_is_started = False,
       pd_transport_ready = False, pd_packet_size = kValueUndefined, pd_include_overhead = False,
       pd_current_stats = \<lparr>st_oldest_packet_enqueue_time = MinusInfinity, st_queue_size = 0, st_expected_queue_time = 0,
         st_first_sent_packet_time = None\<rparr>,
       pd_processing_packets = False, pd_task_queue_stopped = False, pd_posted = []\<rparr>)"

definition Shutdown :: "PacedSenderState \<Rightarrow> PacedSenderState" where
  "Shutdown d = d\<lparr>pd_out := (pd_out d)\<lparr>po_is_shutdown := True\<rparr>\<rparr>"

definition SetOnSentPacketFunc :: "PacedSenderState \<Rightarrow> PacedSenderState" where
  "SetOnSentPacketFunc d = d\<lparr>pd_out := (pd_out d)\<lparr>po_has_on_sent_packet_func := True\<rparr>\<rparr>"

definition UpdateStats :: "PacedSenderState \<Rightarrow> PacedSenderState option" where
  "UpdateStats d = do {
     expected_queue_time \<leftarrow> ExpectedQueueTime (pd_controller d);
     Some (d\<lparr>pd_current_stats := \<lparr>st_oldest_packet_enqueue_time = OldestPacketEnqueueTime (pd_controller d),
       st_queue_size = QueueSizeData (pd_controller d), st_expected_queue_time = expected_queue_time,
       st_first_sent_packet_time = pc_first_sent_packet_time (pd_controller d)\<rparr>\<rparr>) }"

definition execute_margin :: "PacingController \<Rightarrow> time_delta" where
  "execute_margin pc = (if is_probing (pc_prober pc) then kMaxEarlyProbeProcessing else 0)"

text \<open>The loop of \<open>MaybeProcessPackets\<close>, with the next send time; it ends when the sender is shut down.\<close>

partial_function (option) process_while ::
    "PacerOutput PacketSender \<Rightarrow> timestamp \<Rightarrow> timestamp \<Rightarrow> PacingController \<times> PacerOutput \<Rightarrow>
     (timestamp \<times> PacingController \<times> PacerOutput) option" where
  "process_while env now next_send_time st =
     (if \<not> po_is_shutdown (snd st) \<and> next_send_time \<le> Timestamp_add now (execute_margin (fst st)) then do {
        st \<leftarrow> ProcessPackets env (fst st) (snd st);
        (next_send_time, st) \<leftarrow> NextSendTime env (fst st) (snd st);
        process_while env now next_send_time st }
      else Some (next_send_time, st))"

lemma process_while_code [code]: "process_while env now next_send_time (pc, s) =
     (if \<not> po_is_shutdown s \<and> next_send_time \<le> Timestamp_add now (execute_margin pc) then do {
        st \<leftarrow> ProcessPackets env pc s;
        (next_send_time, st) \<leftarrow> NextSendTime env (fst st) (snd st);
        process_while env now next_send_time st }
      else Some (next_send_time, pc, s))"
  by (subst process_while.simps) simp

definition hold_back :: "PacedSenderState \<Rightarrow> time_delta option" where
  "hold_back d =
     (if is_probing (pc_prober (pd_controller d)) then Some 0
      else
        let pacing_rate = pc_adjusted_media_rate (pd_controller d) in
        if pacing_rate \<noteq> 0 \<and> pd_packet_size d \<noteq> kValueUndefined then do {
          avg_packet_send_time \<leftarrow> size_div_rate \<lfloor>pd_packet_size d\<rfloor> pacing_rate;
          Some (min max_hold_back_window (unit_scale avg_packet_send_time max_hold_back_window_in_packets)) }
        else Some max_hold_back_window)"

text \<open>The end of \<open>MaybeProcessPackets\<close>: when the next task has to run, and whether it is posted.\<close>

definition schedule_next :: "timestamp \<Rightarrow> timestamp \<Rightarrow> time_delta \<Rightarrow> PacedSenderState \<Rightarrow> PacedSenderState option" where
  "schedule_next now next_send_time early_execute_margin d = do {
     hold_back_window \<leftarrow> hold_back d;
     let time_to_next_process = max hold_back_window (unit_sub (Timestamp_sub next_send_time now) early_execute_margin);
         next_send_time = Timestamp_add now time_to_next_process in
     Some (if IsMinusInfinity (pd_next_process_time d) \<or> pd_next_process_time d > next_send_time
       then (if \<not> pd_task_queue_stopped d
             then d\<lparr>pd_posted := pd_posted d @ [(next_send_time, RoundUpTo time_to_next_process (Millis 1))],
                    pd_next_process_time := next_send_time\<rparr>
             else d)
       else d) }"

definition MaybeProcessPackets :: "PacerOutput PacketSender \<Rightarrow> timestamp \<Rightarrow> PacedSenderState \<Rightarrow> PacedSenderState option" where
  "MaybeProcessPackets env scheduled_process_time d =
     (if po_is_shutdown (pd_out d) \<or> \<not> pd_is_started d \<or> \<not> pd_transport_ready d then Some d
      else if IsFinite scheduled_process_time \<and> scheduled_process_time \<noteq> pd_next_process_time d then Some d
      else
        let d = (if IsFinite scheduled_process_time then d\<lparr>pd_next_process_time := MinusInfinity\<rparr> else d) in do {
        (next_send_time, pc, s) \<leftarrow> NextSendTime env (pd_controller d) (pd_out d);
        case ps_CurrentTime env s of (now, s) \<Rightarrow> do {
        (next_send_time, pc, s) \<leftarrow> process_while env now next_send_time (pc, s);
        let d = d\<lparr>pd_controller := pc, pd_out := s\<rparr> in
        if po_is_shutdown s then Some d
        else do {
          d \<leftarrow> UpdateStats d;
          schedule_next now next_send_time (execute_margin pc) d } } })"

definition MaybeScheduleProcessPackets :: "PacerOutput PacketSender \<Rightarrow> PacedSenderState \<Rightarrow> PacedSenderState option" where
  "MaybeScheduleProcessPackets env d =
     (if \<not> pd_processing_packets d then MaybeProcessPackets env MinusInfinity d else Some d)"

text \<open>Running an operation of the controller on the members of the class.\<close>

definition on_controller :: "(PacingController \<Rightarrow> PacerOutput \<Rightarrow> (PacingController \<times> PacerOutput) option) \<Rightarrow> PacedSenderState \<Rightarrow> PacedSenderState option" where
  "on_controller f d = do {
     (pc, s) \<leftarrow> f (pd_controller d) (pd_out d);
     Some (d\<lparr>pd_controller := pc, pd_out := s\<rparr>) }"

definition Sender_SetSendBurstInterval :: "time_delta \<Rightarrow> PacedSenderState \<Rightarrow> PacedSenderState" where
  "Sender_SetSendBurstInterval burst_interval d = d\<lparr>pd_controller := SetSendBurstInterval (pd_controller d) burst_interval\<rparr>"

definition Sender_SetAllowProbeWithoutMediaPacket :: "PacerOutput PacketSender \<Rightarrow> bool \<Rightarrow> PacedSenderState \<Rightarrow> PacedSenderState option" where
  "Sender_SetAllowProbeWithoutMediaPacket env allow d =
     MaybeScheduleProcessPackets env (d\<lparr>pd_controller := SetAllowProbeWithoutMediaPacket (pd_controller d) allow\<rparr>)"

definition SetTransportReady :: "PacerOutput PacketSender \<Rightarrow> bool \<Rightarrow> PacedSenderState \<Rightarrow> PacedSenderState option" where
  "SetTransportReady env ready d =
     (let d = d\<lparr>pd_transport_ready := ready\<rparr> in
      if ready then on_controller (Resume env) d
      else do {
        d \<leftarrow> on_controller (Pause env) (d\<lparr>pd_controller := AbortProbing (pd_controller d)\<rparr>);
        Some (d\<lparr>pd_next_process_time := MinusInfinity\<rparr>) })"

definition EnsureStarted :: "PacerOutput PacketSender \<Rightarrow> PacedSenderState \<Rightarrow> PacedSenderState option" where
  "EnsureStarted env d = MaybeProcessPackets env MinusInfinity (d\<lparr>pd_is_started := True\<rparr>)"

definition Sender_CreateProbeClusters :: "PacerOutput PacketSender \<Rightarrow> ProbeClusterConfig list \<Rightarrow> PacedSenderState \<Rightarrow> PacedSenderState option" where
  "Sender_CreateProbeClusters env configs d =
     (if \<not> pd_transport_ready d then Some d
      else MaybeScheduleProcessPackets env (d\<lparr>pd_controller := CreateProbeClusters (pd_controller d) configs\<rparr>))"

definition Sender_Pause :: "PacerOutput PacketSender \<Rightarrow> PacedSenderState \<Rightarrow> PacedSenderState option" where
  "Sender_Pause env d = on_controller (Pause env) d"

definition Sender_Resume :: "PacerOutput PacketSender \<Rightarrow> PacedSenderState \<Rightarrow> PacedSenderState option" where
  "Sender_Resume env d = do { d \<leftarrow> on_controller (Resume env) d; MaybeProcessPackets env MinusInfinity d }"

definition Sender_SetCongested :: "PacerOutput PacketSender \<Rightarrow> bool \<Rightarrow> PacedSenderState \<Rightarrow> PacedSenderState option" where
  "Sender_SetCongested env congested d = do {
     d \<leftarrow> on_controller (\<lambda>pc. SetCongested env pc congested) d;
     MaybeScheduleProcessPackets env d }"

definition Sender_SetPacingRates :: "PacerOutput PacketSender \<Rightarrow> unit_value \<Rightarrow> unit_value \<Rightarrow> PacedSenderState \<Rightarrow> PacedSenderState option" where
  "Sender_SetPacingRates env pacing_rate padding_rate d = do {
     d \<leftarrow> on_controller (\<lambda>pc. SetPacingRates env pc pacing_rate padding_rate) d;
     MaybeScheduleProcessPackets env d }"

definition EnqueuePacketOnQueue :: "PacerOutput PacketSender \<Rightarrow> RtpPacketToSend \<Rightarrow> PacedSenderState \<Rightarrow> PacedSenderState option" where
  "EnqueuePacketOnQueue env packet d =
     (let packet = packet\<lparr>ts_transport_sequence_number := Some (po_transport_seq (pd_out d))\<rparr>;
          d = d\<lparr>pd_out := (pd_out d)\<lparr>po_transport_seq := po_transport_seq (pd_out d) + 1, po_entered := po_entered (pd_out d) @ [packet]\<rparr>\<rparr>;
          packet_size = rp_payload_size (ts_packet packet) + rp_padding_size (ts_packet packet);
          packet_size = (if pd_include_overhead d then packet_size + rp_payload_offset (ts_packet packet) else packet_size);
          d = d\<lparr>pd_packet_size := ExpFilter_Apply (pd_packet_size d) packet_size\<rparr> in
      on_controller (\<lambda>pc. EnqueuePacket env pc packet) d)"

definition EnqueuePacketsOnQueue :: "PacerOutput PacketSender \<Rightarrow> RtpPacketToSend list \<Rightarrow> PacedSenderState \<Rightarrow> PacedSenderState option" where
  "EnqueuePacketsOnQueue env packets d = do {
     d \<leftarrow> foldM (EnqueuePacketOnQueue env) packets d;
     MaybeProcessPackets env MinusInfinity d }"

definition Sender_EnqueuePacket :: "PacerOutput PacketSender \<Rightarrow> RtpPacketToSend \<Rightarrow> PacedSenderState \<Rightarrow> PacedSenderState option" where
  "Sender_EnqueuePacket env packet d = do {
     d \<leftarrow> EnqueuePacketOnQueue env packet d;
     MaybeProcessPackets env MinusInfinity d }"

definition Sender_RemovePacketsForSsrc :: "PacerOutput PacketSender \<Rightarrow> u32 \<Rightarrow> PacedSenderState \<Rightarrow> PacedSenderState option" where
  "Sender_RemovePacketsForSsrc env ssrc d = do {
     pc \<leftarrow> Pacer_RemovePacketsForSsrc (pd_controller d) ssrc;
     MaybeProcessPackets env MinusInfinity (d\<lparr>pd_controller := pc\<rparr>) }"

definition Sender_SetAccountForAudioPackets :: "PacerOutput PacketSender \<Rightarrow> bool \<Rightarrow> PacedSenderState \<Rightarrow> PacedSenderState option" where
  "Sender_SetAccountForAudioPackets env account_for_audio d =
     MaybeProcessPackets env MinusInfinity (d\<lparr>pd_controller := SetAccountForAudioPackets (pd_controller d) account_for_audio\<rparr>)"

definition Sender_SetIncludeOverhead :: "PacerOutput PacketSender \<Rightarrow> PacedSenderState \<Rightarrow> PacedSenderState option" where
  "Sender_SetIncludeOverhead env d =
     MaybeProcessPackets env MinusInfinity (d\<lparr>pd_include_overhead := True, pd_controller := SetIncludeOverhead (pd_controller d)\<rparr>)"

definition Sender_SetTransportOverhead :: "PacerOutput PacketSender \<Rightarrow> unit_value \<Rightarrow> PacedSenderState \<Rightarrow> PacedSenderState option" where
  "Sender_SetTransportOverhead env overhead_per_packet d =
     MaybeProcessPackets env MinusInfinity (d\<lparr>pd_controller := SetTransportOverhead (pd_controller d) overhead_per_packet\<rparr>)"

definition Sender_SetQueueTimeLimit :: "PacerOutput PacketSender \<Rightarrow> time_delta \<Rightarrow> PacedSenderState \<Rightarrow> PacedSenderState option" where
  "Sender_SetQueueTimeLimit env limit d =
     MaybeProcessPackets env MinusInfinity (d\<lparr>pd_controller := SetQueueTimeLimit (pd_controller d) limit\<rparr>)"

definition OldestPacketWaitTime :: "PacerOutput PacketSender \<Rightarrow> PacedSenderState \<Rightarrow> time_delta \<times> PacedSenderState" where
  "OldestPacketWaitTime env d =
     (let oldest_packet = st_oldest_packet_enqueue_time (pd_current_stats d) in
      if IsInfinite oldest_packet then (0, d)
      else case ps_CurrentTime env (pd_out d) of (current, s) \<Rightarrow>
        (if current < oldest_packet then 0 else Timestamp_sub current oldest_packet, d\<lparr>pd_out := s\<rparr>))"

end
