(* ===== verification/PacketQueueSpec.thy ===== *)
theory PacketQueueSpec
  imports PacketQueue
begin

text \<open>
  What the queue of the pacer does: a plain specification by lists, the relation between it and
  the state of \<open>PrioritizedPacketQueue\<close>, and the proof that every operation keeps the relation and
  never faults. A level of the specification is the list of sources that have packets there, in the
  order they are served, each with its packets in the order they came.
\<close>

section \<open>The specification\<close>

type_synonym rr_level = "(u32 \<times> QueuedPacket list) list"
type_synonym rr_queue = "rr_level list"

definition upd :: "u32 \<Rightarrow> (QueuedPacket list \<Rightarrow> QueuedPacket list) \<Rightarrow> rr_level \<Rightarrow> rr_level" where
  "upd s f lev = map (\<lambda>(s', ps). (s', if s' = s then f ps else ps)) lev"

text \<open>
  A packet is too old by the time it was given when it entered the list. \<open>Push\<close> gives it the time of
  the push less the pauses so far, so this is the time of the push in a queue that was never paused
  (\<open>unpaused_run\<close>); after a pause the code lets packets with a finite time to live expire too early.
\<close>

definition too_old :: "time_delta \<Rightarrow> timestamp \<Rightarrow> QueuedPacket \<Rightarrow> bool" where
  "too_old ttl now p = (Timestamp_sub now (qp_enqueue_time p) > ttl)"

definition rr_purge_level :: "time_delta \<Rightarrow> timestamp \<Rightarrow> rr_level \<Rightarrow> rr_level" where
  "rr_purge_level ttl now lev =
     (if IsInfinite ttl then lev else filter (\<lambda>(s, ps). ps \<noteq> []) (map (\<lambda>(s, ps). (s, dropWhile (too_old ttl now) ps)) lev))"

definition rr_push_level :: "u32 \<Rightarrow> QueuedPacket \<Rightarrow> rr_level \<Rightarrow> rr_level" where
  "rr_push_level s p lev = (if s \<in> fst ` set lev then upd s (\<lambda>ps. ps @ [p]) lev else lev @ [(s, [p])])"

definition rr_purge :: "time_delta list \<Rightarrow> nat \<Rightarrow> timestamp \<Rightarrow> rr_queue \<Rightarrow> rr_queue" where
  "rr_purge ttls i now a = a[i := rr_purge_level (ttls ! i) now (a ! i)]"

definition rr_push :: "nat \<Rightarrow> u32 \<Rightarrow> QueuedPacket \<Rightarrow> rr_queue \<Rightarrow> rr_queue" where
  "rr_push i s p a = a[i := rr_push_level s p (a ! i)]"

text \<open>The head of the first source goes, the source to the end if it has more.\<close>

fun rr_pop_level :: "rr_level \<Rightarrow> rr_level" where
  "rr_pop_level ((s, p # ps) # lev) = lev @ (if ps = [] then [] else [(s, ps)])"
| "rr_pop_level lev = lev"

text \<open>If there is no packet at the level of the last pop, levels are purged from the first on until one has a packet.\<close>

fun rr_settle :: "time_delta list \<Rightarrow> timestamp \<Rightarrow> nat list \<Rightarrow> rr_queue \<Rightarrow> rr_queue" where
  "rr_settle ttls now [] a = a"
| "rr_settle ttls now (i # is) a =
     (let a = rr_purge ttls i now a in if a ! i \<noteq> [] then a else rr_settle ttls now is a)"

definition rr_top :: "time_delta list \<Rightarrow> timestamp \<Rightarrow> int \<Rightarrow> rr_queue \<Rightarrow> rr_queue" where
  "rr_top ttls now t a = (if t \<noteq> -1 \<and> a ! nat t \<noteq> [] then a else rr_settle ttls now [0..<kNumPriorityLevels] a)"

definition rr_pop :: "time_delta list \<Rightarrow> timestamp \<Rightarrow> int \<Rightarrow> rr_queue \<Rightarrow> rr_queue" where
  "rr_pop ttls now t a = rr_top ttls now t (a[nat t := rr_pop_level (a ! nat t)])"

definition rr_remove :: "u32 \<Rightarrow> rr_queue \<Rightarrow> rr_queue" where
  "rr_remove s a = map (filter (\<lambda>(s', ps). s' \<noteq> s)) a"

definition flat :: "rr_level \<Rightarrow> QueuedPacket list" where "flat lev = concat (map snd lev)"
definition packets_of :: "rr_queue \<Rightarrow> QueuedPacket list" where "packets_of a = concat (map flat a)"

definition no_empty :: "rr_queue \<Rightarrow> bool" where
  "no_empty a \<longleftrightarrow> (\<forall>lev \<in> set a. \<forall>(s, ps) \<in> set lev. ps \<noteq> [])"

definition is_top :: "int \<Rightarrow> rr_queue \<Rightarrow> bool" where
  "is_top t a \<longleftrightarrow> (if packets_of a = [] then t = -1 else \<exists>i < length a. t = int i \<and> a ! i \<noteq> [] \<and> (\<forall>j < i. a ! j = []))"

section \<open>The relation to the state\<close>

definition stream_level :: "(u32 \<rightharpoonup> StreamQueue) \<Rightarrow> nat \<Rightarrow> u32 \<Rightarrow> QueuedPacket list" where
  "stream_level st i s = (case st s of None \<Rightarrow> [] | Some sq \<Rightarrow> sq_packets sq ! i)"

definition stream_ok :: "StreamQueue \<Rightarrow> bool" where
  "stream_ok sq \<longleftrightarrow> length (sq_packets sq) = kNumPriorityLevels \<and>
     sq_num_keyframe_packets sq = int (length (filter (\<lambda>p. ts_is_key_frame (qp_packet p)) (concat (sq_packets sq))))"

definition entries :: "rr_level \<Rightarrow> u32 \<Rightarrow> QueuedPacket list" where
  "entries lev s = (case map_of lev s of None \<Rightarrow> [] | Some ps \<Rightarrow> ps)"

definition shape :: "(u32 \<rightharpoonup> StreamQueue) \<Rightarrow> u32 list list \<Rightarrow> rr_queue \<Rightarrow> bool" where
  "shape st by_prio a \<longleftrightarrow> length a = kNumPriorityLevels \<and> by_prio = map (map fst) a \<and> (\<forall>sq \<in> ran st. stream_ok sq) \<and>
     (\<forall>i < kNumPriorityLevels. distinct (map fst (a ! i)) \<and> fst ` set (a ! i) \<subseteq> dom st \<and>
       (\<forall>s. stream_level st i s = entries (a ! i) s))"

text \<open>
  The counters, for the multiset \<open>M\<close> of the packets in the queue. While \<open>Push\<close> runs, \<open>nodes\<close> has the
  node of the packet that is not in the queue yet.
\<close>

definition counts :: "nat multiset \<Rightarrow> PrioritizedPacketQueue \<Rightarrow> QueuedPacket multiset \<Rightarrow> bool" where
  "counts nodes q M \<longleftrightarrow> pq_size_packets q = int (size M) \<and> (\<forall>p \<in># M. ts_packet_type (qp_packet p) \<noteq> None) \<and>
     pq_size_packets_per_media_type q =
       map (\<lambda>i. int (size {#p \<in># M. media_type_index (the (ts_packet_type (qp_packet p))) = i#})) [0..<kNumMediaTypes] \<and>
     mset (map fst (pq_enqueue_times q)) = image_mset qp_enqueue_time_iterator M + nodes \<and>
     distinct (map fst (pq_enqueue_times q)) \<and> (\<forall>i \<in> fst ` set (pq_enqueue_times q). i < pq_next_node q)"

text \<open>
  The sums of times and sizes. They are exact as long as the clock of the queue does not run
  backwards and stays below \<open>2 ^ 45\<close> microseconds (a year), and the queue has at most \<open>2 ^ 17\<close>
  packets of less than \<open>2 ^ 32\<close> bytes; then no \<open>int64_t\<close> overflows.
\<close>

definition waited :: "PrioritizedPacketQueue \<Rightarrow> QueuedPacket \<Rightarrow> time_delta" where
  "waited q p = pq_last_update_time q - qp_enqueue_time p - pq_pause_time_sum q"

definition ledger :: "PrioritizedPacketQueue \<Rightarrow> QueuedPacket multiset \<Rightarrow> bool" where
  "ledger q M \<longleftrightarrow> 0 \<le> pq_pause_time_sum q \<and> pq_pause_time_sum q \<le> pq_last_update_time q \<and> pq_last_update_time q < 2 ^ 45 \<and>
     size M \<le> 2 ^ 17 \<and> (\<forall>p \<in># M. 0 \<le> qp_enqueue_time p \<and> 0 \<le> waited q p \<and> PacketSize p < 2 ^ 32) \<and>
     pq_queue_time_sum q = (\<Sum>p\<in>#M. waited q p) \<and> pq_size_payload q = (\<Sum>p\<in>#M. PacketSize p)"

text \<open>The mode says whether the sums are kept track of, and the nodes of packets under way.\<close>

type_synonym mode = "bool \<times> nat multiset"

definition account :: "mode \<Rightarrow> PrioritizedPacketQueue \<Rightarrow> QueuedPacket multiset \<Rightarrow> bool" where
  "account mode q M \<longleftrightarrow> counts (snd mode) q M \<and> (fst mode \<longrightarrow> ledger q M)"

definition queue_core :: "mode \<Rightarrow> PrioritizedPacketQueue \<Rightarrow> rr_queue \<Rightarrow> bool" where
  "queue_core mode q a \<longleftrightarrow> shape (pq_streams q) (pq_streams_by_prio q) a \<and> no_empty a \<and>
     account mode q (mset (packets_of a)) \<and> length (pq_time_to_live_per_prio q) = kNumPriorityLevels"

definition queue_inv :: "mode \<Rightarrow> PrioritizedPacketQueue \<Rightarrow> rr_queue \<Rightarrow> bool" where
  "queue_inv mode q a \<longleftrightarrow> queue_core mode q a \<and> is_top (pq_top_active_prio_level q) a"

section \<open>The counters\<close>

lemma media_type_index_less: "media_type_index t < kNumMediaTypes"
  by (cases t) (simp_all add: kNumMediaTypes_def)

lemma GetPriorityForType_less [simp]: "GetPriorityForType t og < kNumPriorityLevels"
  by (cases t) (simp_all add: kNumPriorityLevels_def kAudioPrioLevel_def)

lemma filter_node:
  assumes "distinct (map fst xs)" and "mset (map fst xs) = add_mset n M"
  shows "mset (map fst (filter (\<lambda>(i, t). i \<noteq> n) xs)) = M"
proof -
  have "map fst (filter (\<lambda>(i, t). i \<noteq> n) xs) = filter (\<lambda>i. i \<noteq> n) (map fst xs)"
    by (induction xs) auto
  also have "\<dots> = remove1 n (map fst xs)" by (simp add: assms(1) distinct_remove1_removeAll removeAll_filter_not_eq eq_commute)
  finally show ?thesis using assms(2) by simp
qed

lemma counts_dequeue:
  assumes "counts nodes q (add_mset p M)"
  shows "\<exists>t q'. DequeuePacketInternal q p = Some (t, q') \<and> counts nodes q' M"
proof -
  let ?x = "\<lambda>p. media_type_index (the (ts_packet_type (qp_packet p)))" and ?n = "qp_enqueue_time_iterator p"
  obtain ty where ty: "ts_packet_type (qp_packet p) = Some ty" using assms by (auto simp: counts_def)
  have times: "mset (map fst (pq_enqueue_times q)) = add_mset ?n (image_mset qp_enqueue_time_iterator M + nodes)"
    "distinct (map fst (pq_enqueue_times q))" using assms by (auto simp: counts_def)
  then have "?n \<in> set (map fst (pq_enqueue_times q))" by (metis set_mset_mset union_single_eq_member)
  then have n: "?n \<in> fst ` set (pq_enqueue_times q)" by simp
  have m: "(map (\<lambda>i. int (size {#r \<in># add_mset p M. ?x r = i#})) [0..<kNumMediaTypes])[media_type_index ty := int (size {#r \<in># M. ?x r = media_type_index ty#})] =
      map (\<lambda>i. int (size {#r \<in># M. ?x r = i#})) [0..<kNumMediaTypes]"
    using ty media_type_index_less [of ty] by (intro nth_equalityI) (simp_all add: nth_list_update)
  show ?thesis
    using assms ty n m filter_node [OF times(2,1)] media_type_index_less [of ty]
    by (auto simp: DequeuePacketInternal_def counts_def Let_def distinct_map_filter)
qed

lemma small_finite: "\<bar>v\<bar> \<le> 2 ^ 62 \<Longrightarrow> IsFinite v"
  by (auto simp: infinity_defs)

lemma sum_mset_bound:
  fixes f :: "'a \<Rightarrow> int"
  assumes "\<forall>p \<in># N. 0 \<le> f p \<and> f p \<le> B" and "int (size N) \<le> K" and "0 \<le> B"
  shows "0 \<le> (\<Sum>p\<in>#N. f p)" "(\<Sum>p\<in>#N. f p) \<le> K * B"
proof -
  have "0 \<le> (\<Sum>p\<in>#N. f p) \<and> (\<Sum>p\<in>#N. f p) \<le> int (size N) * B"
    using assms(1) by (induction N) (auto simp: distrib_right)
  moreover have "int (size N) * B \<le> K * B" using assms(2,3) by (intro mult_right_mono)
  ultimately show "0 \<le> (\<Sum>p\<in>#N. f p)" "(\<Sum>p\<in>#N. f p) \<le> K * B" by auto
qed

lemma ledger_bounds:
  assumes "ledger q M"
  shows "0 \<le> pq_queue_time_sum q" "pq_queue_time_sum q \<le> 2 ^ 62" "0 \<le> pq_size_payload q" "pq_size_payload q \<le> 2 ^ 49"
proof -
  note l = assms [unfolded ledger_def]
  have n: "int (size M) \<le> 2 ^ 17" using l by simp
  have w: "\<forall>p \<in># M. 0 \<le> waited q p \<and> waited q p \<le> 2 ^ 45" "\<forall>p \<in># M. 0 \<le> PacketSize p \<and> PacketSize p \<le> 2 ^ 32"
    using l by (auto simp: waited_def PacketSize_def)
  show "0 \<le> pq_queue_time_sum q" "pq_queue_time_sum q \<le> 2 ^ 62" "0 \<le> pq_size_payload q" "pq_size_payload q \<le> 2 ^ 49"
    using l sum_mset_bound [OF w(1) n] sum_mset_bound [OF w(2) n] by simp_all
qed

lemma PacketSize_pos [simp]: "0 \<le> PacketSize p" by (simp add: PacketSize_def)

lemma ledger_dequeue:
  assumes "ledger q (add_mset p M)" and "DequeuePacketInternal q p = Some (t, q')"
  shows "ledger q' M" "ts_time_in_send_queue t = Some (waited q p)"
proof -
  note l = assms(1) [unfolded ledger_def]
  have w: "0 \<le> qp_enqueue_time p" "0 \<le> waited q p" "PacketSize p < 2 ^ 32" "0 \<le> pq_pause_time_sum q"
    "pq_pause_time_sum q \<le> pq_last_update_time q" "pq_last_update_time q < 2 ^ 45" using l by auto
  then have e: "unit_sub (Timestamp_sub (pq_last_update_time q) (qp_enqueue_time p)) (pq_pause_time_sum q) = waited q p"
    by (simp add: Timestamp_ops finite_unit_sub small_finite waited_def)
  have f: "IsFinite (pq_queue_time_sum q)" "IsFinite (pq_size_payload q)" "IsFinite (waited q p)" "IsFinite (PacketSize p)"
    using ledger_bounds [OF assms(1)] w PacketSize_pos [of p] by (auto intro!: small_finite simp: waited_def)
  have q': "pq_queue_time_sum q' = pq_queue_time_sum q - waited q p" "pq_size_payload q' = pq_size_payload q - PacketSize p"
      "ts_time_in_send_queue t = Some (waited q p)"
    using assms(2) f by (auto simp: DequeuePacketInternal_def Let_def e finite_unit_sub split: Option.bind_splits if_splits)
  have "waited q' = waited q" using DequeuePacketInternal_same [OF assms(2)] by (simp add: waited_def fun_eq_iff)
  then show "ledger q' M" "ts_time_in_send_queue t = Some (waited q p)"
    using l q' DequeuePacketInternal_same(5,6) [OF assms(2)] by (auto simp: ledger_def)
qed

text \<open>The parts of the state that taking out packets does not touch.\<close>

definition frame0 :: "PrioritizedPacketQueue \<Rightarrow> PrioritizedPacketQueue \<Rightarrow> bool" where
  "frame0 q q' \<longleftrightarrow> pq_time_to_live_per_prio q' = pq_time_to_live_per_prio q \<and>
     pq_last_update_time q' = pq_last_update_time q \<and> pq_pause_time_sum q' = pq_pause_time_sum q \<and> pq_paused q' = pq_paused q \<and>
     pq_prioritize_audio_retransmission q' = pq_prioritize_audio_retransmission q \<and> pq_next_node q' = pq_next_node q"

definition frame :: "PrioritizedPacketQueue \<Rightarrow> PrioritizedPacketQueue \<Rightarrow> bool" where
  "frame q q' \<longleftrightarrow> frame0 q q' \<and> pq_top_active_prio_level q' = pq_top_active_prio_level q"

lemma frame_refl [simp]: "frame q q" "frame0 q q" by (simp_all add: frame_def frame0_def)
lemma frame_trans: "frame q q' \<Longrightarrow> frame q' q'' \<Longrightarrow> frame q q''" by (simp add: frame_def frame0_def)
lemma frame0_trans: "frame0 q q' \<Longrightarrow> frame0 q' q'' \<Longrightarrow> frame0 q q''" by (simp add: frame0_def)

lemma account_streams [simp]:
  "account mode (q\<lparr>pq_streams := st\<rparr>) M = account mode q M" "account mode (q\<lparr>pq_streams_by_prio := bp\<rparr>) M = account mode q M"
  "account mode (q\<lparr>pq_top_active_prio_level := t\<rparr>) M = account mode q M"
  by (simp_all add: account_def counts_def ledger_def waited_def)

lemma frame_streams [simp]: "frame q (q'\<lparr>pq_streams := st\<rparr>) = frame q q'" "frame (q\<lparr>pq_streams := st\<rparr>) q' = frame q q'"
    "frame q (q'\<lparr>pq_streams_by_prio := bp\<rparr>) = frame q q'" "frame (q\<lparr>pq_streams_by_prio := bp\<rparr>) q' = frame q q'"
  by (simp_all add: frame_def frame0_def)

lemma account_dequeue:
  assumes "account mode q (add_mset p M)"
  shows "\<exists>t q'. DequeuePacketInternal q p = Some (t, q') \<and> account mode q' M \<and> frame q q' \<and>
    pq_streams q' = pq_streams q \<and> pq_streams_by_prio q' = pq_streams_by_prio q \<and>
    (fst mode \<longrightarrow> ts_time_in_send_queue t = Some (waited q p)) \<and> t = (qp_packet p)\<lparr>ts_time_in_send_queue := ts_time_in_send_queue t\<rparr>"
proof -
  obtain t q' where d: "DequeuePacketInternal q p = Some (t, q')" "counts (snd mode) q' M"
    using counts_dequeue [of "snd mode" q p M] assms by (auto simp: account_def)
  moreover have "t = (qp_packet p)\<lparr>ts_time_in_send_queue := ts_time_in_send_queue t\<rparr>"
    using d(1) by (auto simp: DequeuePacketInternal_def Let_def split: Option.bind_splits if_splits)
  ultimately show ?thesis
    using ledger_dequeue [OF _ d(1)] assms DequeuePacketInternal_same [OF d(1)]
    by (intro exI [of _ t] exI [of _ q']) (auto simp: account_def frame_def frame0_def)
qed

lemma account_dequeue_stream:
  assumes "account mode q (add_mset p M)"
  shows "\<exists>t q'. DequeuePacketInternal (q\<lparr>pq_streams := st\<rparr>) p = Some (t, q') \<and> account mode q' M \<and> frame q q' \<and>
    pq_streams q' = st \<and> pq_streams_by_prio q' = pq_streams_by_prio q \<and>
    (fst mode \<longrightarrow> ts_time_in_send_queue t = Some (waited q p)) \<and> t = (qp_packet p)\<lparr>ts_time_in_send_queue := ts_time_in_send_queue t\<rparr>"
  using account_dequeue [of mode "q\<lparr>pq_streams := st\<rparr>" p M] assms by (simp add: waited_def)

section \<open>Levels\<close>

lemma upd_simps [simp]: "upd s f [] = []" "upd s f (x # lev) = (fst x, if fst x = s then f (snd x) else snd x) # upd s f lev"
  by (simp_all add: upd_def case_prod_beta)

lemma entries_simps [simp]: "entries [] s = []" "entries (x # lev) s = (if s = fst x then snd x else entries lev s)"
  by (simp_all add: entries_def split: prod.splits)

lemma entries_other [simp]: "s \<notin> fst ` set lev \<Longrightarrow> entries lev s = []"
  by (induction lev) auto

lemma level_entries_append: "entries (xs @ ys) r = (if r \<in> fst ` set xs then entries xs r else entries ys r)"
  by (induction xs) auto

lemma fst_upd [simp]: "map fst (upd s f lev) = map fst lev" "fst ` set (upd s f lev) = fst ` set lev"
  by (induction lev) auto

lemma map_of_upd: "map_of (upd s f lev) s' = (if s' = s then map_option f (map_of lev s') else map_of lev s')"
  by (induction lev) auto

lemma upd_other: "s \<notin> fst ` set lev \<Longrightarrow> upd s f lev = lev"
  by (induction lev) auto

lemma upd_cong: "distinct (map fst lev) \<Longrightarrow> map_of lev s = Some ps \<Longrightarrow> f ps = g ps \<Longrightarrow> upd s f lev = upd s g lev"
  by (induction lev) (auto simp: upd_other split: if_splits)

lemma upd_upd: "upd s g (upd s f lev) = upd s (\<lambda>ps. g (f ps)) lev"
  by (induction lev) auto

lemma upd_same: "distinct (map fst lev) \<Longrightarrow> map_of lev s = Some ps \<Longrightarrow> f ps = ps \<Longrightarrow> upd s f lev = lev"
  by (induction lev) (auto simp: upd_other split: if_splits)

lemma flat_simps [simp]: "flat [] = []" "flat ((s, ps) # lev) = ps @ flat lev" "flat (lev @ lev') = flat lev @ flat lev'"
  by (simp_all add: flat_def)

lemma flat_upd:
  assumes "distinct (map fst lev)" and "map_of lev s = Some ps"
  obtains R where "mset (flat lev) = mset ps + R" "\<And>f. mset (flat (upd s f lev)) = mset (f ps) + R"
proof -
  have "\<exists>R. mset (flat lev) = mset ps + R \<and> (\<forall>f. mset (flat (upd s f lev)) = mset (f ps) + R)"
    using assms
  proof (induction lev)
    case (Cons x lev)
    show ?case
    proof (cases "fst x = s")
      case True
      then show ?thesis using Cons.prems upd_other [of s lev] by (cases x) auto
    next
      case False
      then obtain R where "mset (flat lev) = mset ps + R" "\<And>f. mset (flat (upd s f lev)) = mset (f ps) + R"
        using Cons by (cases x) auto
      then show ?thesis using False by (cases x) (auto intro!: exI [of _ "mset (snd x) + R"])
    qed
  qed simp
  then show thesis using that by blast
qed

lemma packets_of_split:
  assumes "i < length a"
  obtains R where "mset (packets_of a) = mset (flat (a ! i)) + R" "\<And>lev. mset (packets_of (a[i := lev])) = mset (flat lev) + R"
proof
  let ?R = "mset (packets_of (take i a)) + mset (packets_of (drop (Suc i) a))"
  show "mset (packets_of (a[i := lev])) = mset (flat lev) + ?R" for lev
    using assms by (simp add: upd_conv_take_nth_drop packets_of_def)
  from this [of "a ! i"] show "mset (packets_of a) = mset (flat (a ! i)) + ?R" by simp
qed

lemma packets_of_empty: "no_empty a \<Longrightarrow> packets_of a = [] \<longleftrightarrow> (\<forall>i < length a. a ! i = [])"
  by (force simp: packets_of_def no_empty_def flat_def in_set_conv_nth all_set_conv_all_nth)

lemma no_empty_update: "no_empty a \<Longrightarrow> \<forall>(s, ps) \<in> set lev. ps \<noteq> [] \<Longrightarrow> no_empty (a[i := lev])"
  using set_update_subset_insert [of a i lev] by (auto simp: no_empty_def)

lemma flat_empty: "no_empty a \<Longrightarrow> i < length a \<Longrightarrow> flat (a ! i) = [] \<longleftrightarrow> a ! i = []"
  by (cases "a ! i") (force simp: no_empty_def dest: nth_mem)+

section \<open>Streams\<close>

lemma stream_level_Some: "st s = Some sq \<Longrightarrow> stream_level st i s = sq_packets sq ! i"
  by (simp add: stream_level_def)

lemma concat_list_update:
  assumes "i < length xs"
  obtains R where "mset (concat xs) = mset (xs ! i) + R" "\<And>ys. mset (concat (xs[i := ys])) = mset ys + R"
proof
  let ?R = "mset (concat (take i xs)) + mset (concat (drop (Suc i) xs))"
  show "mset (concat (xs[i := ys])) = mset ys + ?R" for ys
    using assms by (simp add: upd_conv_take_nth_drop)
  from this [of "xs ! i"] show "mset (concat xs) = mset (xs ! i) + ?R" by simp
qed

lemma length_filter_mset: "length (filter P xs) = size (filter_mset P (mset xs))"
  by (simp flip: mset_filter)

lemma stream_ok_update:
  assumes "stream_ok sq" and "i < kNumPriorityLevels" and "sq_packets sq' = (sq_packets sq)[i := ps]"
    and "sq_num_keyframe_packets sq' = sq_num_keyframe_packets sq +
      int (length (filter (\<lambda>p. ts_is_key_frame (qp_packet p)) ps)) - int (length (filter (\<lambda>p. ts_is_key_frame (qp_packet p)) (sq_packets sq ! i)))"
  shows "stream_ok sq'"
proof -
  obtain R where "mset (concat (sq_packets sq)) = mset (sq_packets sq ! i) + R"
    "\<And>ys. mset (concat ((sq_packets sq)[i := ys])) = mset ys + R"
    using concat_list_update [of i "sq_packets sq"] assms(1,2) by (auto simp: stream_ok_def)
  then show ?thesis using assms by (simp add: stream_ok_def length_filter_mset)
qed

lemma Stream_DequeuePacket_ok:
  assumes "stream_ok sq" and "i < kNumPriorityLevels" and "sq_packets sq ! i = p # ps"
  obtains sq' where "Stream_DequeuePacket sq i = Some (p, sq')" "sq_packets sq' = (sq_packets sq)[i := ps]" "stream_ok sq'"
proof -
  let ?sq = "snd (the (Stream_DequeuePacket sq i))"
  have d: "Stream_DequeuePacket sq i = Some (p, ?sq)" "sq_packets ?sq = (sq_packets sq)[i := ps]"
      "sq_num_keyframe_packets ?sq = sq_num_keyframe_packets sq - (if ts_is_key_frame (qp_packet p) then 1 else 0)"
    using assms by (simp_all add: Stream_DequeuePacket_def stream_ok_def Let_def)
  moreover have "stream_ok ?sq" by (rule stream_ok_update [OF assms(1,2) d(2)]) (use d(3) assms(3) in simp)
  ultimately show thesis using that by blast
qed

lemma Stream_EnqueuePacket_ok:
  assumes "stream_ok sq" and "i < kNumPriorityLevels"
  obtains sq' where "Stream_EnqueuePacket sq p i = Some (sq_packets sq ! i = [], sq')"
    "sq_packets sq' = (sq_packets sq)[i := sq_packets sq ! i @ [p]]" "stream_ok sq'"
proof -
  let ?sq = "snd (the (Stream_EnqueuePacket sq p i))"
  have d: "Stream_EnqueuePacket sq p i = Some (sq_packets sq ! i = [], ?sq)" "sq_packets ?sq = (sq_packets sq)[i := sq_packets sq ! i @ [p]]"
      "sq_num_keyframe_packets ?sq = sq_num_keyframe_packets sq + (if ts_is_key_frame (qp_packet p) then 1 else 0)"
    using assms by (simp_all add: Stream_EnqueuePacket_def stream_ok_def Let_def)
  moreover have "stream_ok ?sq" by (rule stream_ok_update [OF assms d(2)]) (use d(3) in simp)
  ultimately show thesis using that by blast
qed

lemma HasPacketsAtPrio_ok: "stream_ok sq \<Longrightarrow> i < kNumPriorityLevels \<Longrightarrow> HasPacketsAtPrio sq i = Some (sq_packets sq ! i \<noteq> [])"
  by (simp add: HasPacketsAtPrio_def stream_ok_def)

lemma shape_stream:
  assumes "shape st bp a" and "i < kNumPriorityLevels" and "map_of (a ! i) s = Some ps"
  obtains sq where "st s = Some sq" "stream_ok sq" "sq_packets sq ! i = ps" "length (sq_packets sq) = kNumPriorityLevels"
proof -
  have "s \<in> dom st" using assms map_of_SomeD [OF assms(3)] by (force simp: shape_def)
  then obtain sq where sq: "st s = Some sq" by auto
  moreover have "stream_ok sq" using assms(1) sq by (auto simp: shape_def ran_def)
  moreover have "stream_level st i s = ps" using assms by (simp add: shape_def entries_def)
  ultimately show thesis using that by (simp add: stream_level_def stream_ok_def)
qed

text \<open>Changing one level of a stream changes its entry.\<close>

lemma shape_set:
  assumes "shape st bp a" and "i < kNumPriorityLevels" and "st s = Some sq" and "stream_ok sq'"
    and "sq_packets sq' = (sq_packets sq)[i := ps]" and "distinct (map fst lev)" and "fst ` set lev \<subseteq> dom st"
    and "\<forall>r. entries lev r = (if r = s then ps else entries (a ! i) r)"
  shows "shape (st(s \<mapsto> sq')) (bp[i := map fst lev]) (a[i := lev])"
proof -
  have l: "length (sq_packets sq) = kNumPriorityLevels" using assms(1,3) by (auto simp: shape_def ran_def stream_ok_def)
  have lev: "stream_level (st(s \<mapsto> sq')) j r = (if r = s \<and> j = i then ps else stream_level st j r)" if "j < kNumPriorityLevels" for j r
    using that l assms(2,3,5) by (simp add: stream_level_def nth_list_update)
  have "\<forall>x \<in> ran (st(s \<mapsto> sq')). stream_ok x" using assms(1,4) by (auto simp: shape_def ran_def)
  moreover have "fst ` set (a ! j) \<subseteq> insert s (dom st)" if "j < kNumPriorityLevels" for j
    using assms(1) that unfolding shape_def by blast
  moreover have "fst ` set lev \<subseteq> insert s (dom st)" using assms(7) by blast
  ultimately show ?thesis
    using assms(1,2,6,8) lev by (simp add: shape_def nth_list_update map_update)
qed

lemma shape_update:
  assumes "shape st bp a" and "i < kNumPriorityLevels" and "st s = Some sq" and "stream_ok sq'"
    and "sq_packets sq' = (sq_packets sq)[i := ps]" and "s \<in> fst ` set (a ! i)"
  shows "shape (st(s \<mapsto> sq')) bp (a[i := upd s (\<lambda>_. ps) (a ! i)])"
proof -
  have d: "distinct (map fst (a ! i))" "fst ` set (a ! i) \<subseteq> dom st" "bp[i := map fst (a ! i)] = bp"
    using assms(1,2) by (auto simp: shape_def list_update_same_conv)
  have m: "map_of (a ! i) s \<noteq> None" using assms(6) by (simp add: map_of_eq_None_iff)
  then have "entries (upd s (\<lambda>_. ps) (a ! i)) r = (if r = s then ps else entries (a ! i) r)" for r
    by (auto simp: entries_def map_of_upd)
  then show ?thesis using shape_set [OF assms(1-5), of "upd s (\<lambda>_. ps) (a ! i)"] d by simp
qed

text \<open>Rearranging the entries of a level.\<close>

lemma shape_level:
  assumes "shape st bp a" and "i < kNumPriorityLevels" and "distinct (map fst lev)" and "fst ` set lev \<subseteq> dom st"
    and "\<forall>s. entries lev s = stream_level st i s"
  shows "shape st (bp[i := map fst lev]) (a[i := lev])"
  using assms by (simp add: shape_def nth_list_update map_update)

lemma shape_dequeue:
  assumes "shape st bp a" and "i < kNumPriorityLevels" and "map_of (a ! i) s = Some (p # ps)" and "st s = Some sq"
  obtains sq' where "Stream_DequeuePacket sq i = Some (p, sq')" "sq_packets sq' ! i = ps" "stream_ok sq'"
    "shape (st(s \<mapsto> sq')) bp (a[i := upd s (\<lambda>_. ps) (a ! i)])"
proof -
  have sq: "stream_ok sq" "sq_packets sq ! i = p # ps" "length (sq_packets sq) = kNumPriorityLevels"
    using shape_stream [OF assms(1-3)] assms(4) by auto
  obtain sq' where sq': "Stream_DequeuePacket sq i = Some (p, sq')" "sq_packets sq' = (sq_packets sq)[i := ps]" "stream_ok sq'"
    using Stream_DequeuePacket_ok [OF sq(1) assms(2) sq(2)] .
  moreover have "s \<in> fst ` set (a ! i)" using map_of_SomeD [OF assms(3)] by force
  ultimately show thesis using that [of sq'] shape_update [OF assms(1,2,4) sq'(3,2)] sq(3) assms(2) by simp
qed

section \<open>Purging\<close>

lemma purge_stream_ok:
  assumes "shape (pq_streams q) bp a" and "i < kNumPriorityLevels" and "map_of (a ! i) s = Some ps" and "account mode q (mset ps + M)"
  shows "\<exists>q'. purge_stream i ttl now s q = Some q' \<and> frame q q' \<and> pq_streams_by_prio q' = pq_streams_by_prio q \<and> dom (pq_streams q') = dom (pq_streams q) \<and>
    shape (pq_streams q') bp (a[i := upd s (dropWhile (too_old ttl now)) (a ! i)]) \<and> account mode q' (mset (dropWhile (too_old ttl now) ps) + M)"
  using assms
proof (induction ps arbitrary: q a)
  case Nil
  obtain sq where sq: "pq_streams q s = Some sq" "stream_ok sq" "sq_packets sq ! i = []" using shape_stream [OF Nil(1-3)] .
  have u: "upd s (dropWhile (too_old ttl now)) (a ! i) = a ! i" by (rule upd_same [where ps = "[]"]) (use Nil(1-3) in \<open>simp_all add: shape_def\<close>)
  have "purge_stream i ttl now s q = Some q"
    using sq HasPacketsAtPrio_ok [OF sq(2) assms(2)] by (subst purge_stream.simps) simp
  then show ?case using Nil unfolding u by simp
next
  case (Cons p ps)
  obtain sq where sq: "pq_streams q s = Some sq" "stream_ok sq" "sq_packets sq ! i = p # ps" "length (sq_packets sq) = kNumPriorityLevels"
    using shape_stream [OF Cons.prems(1-3)] .
  have h: "HasPacketsAtPrio sq i = Some True" "Stream_LeadingPacketEnqueueTime sq i = Some (qp_enqueue_time p)"
    using HasPacketsAtPrio_ok [OF sq(2) assms(2)] sq assms(2) by (simp_all add: Stream_LeadingPacketEnqueueTime_def)
  have d: "distinct (map fst (a ! i))" "length a = kNumPriorityLevels" using Cons.prems(1,2) by (auto simp: shape_def)
  have u: "upd s f (a ! i) = upd s g (upd s (\<lambda>_. ps) (a ! i))" if "f (p # ps) = g ps" for f g
    unfolding upd_upd by (rule upd_cong [OF d(1) Cons.prems(3)]) (rule that)
  show ?case
  proof (cases "too_old ttl now p")
    case False
    then have "purge_stream i ttl now s q = Some q" using sq h by (subst purge_stream.simps) (simp add: too_old_def)
    moreover have "upd s (dropWhile (too_old ttl now)) (a ! i) = a ! i"
      by (rule upd_same [OF d(1) Cons.prems(3)]) (use False in simp)
    ultimately show ?thesis using Cons.prems False by simp
  next
    case True
    obtain sq' where sq': "Stream_DequeuePacket sq i = Some (p, sq')"
        "shape ((pq_streams q)(s \<mapsto> sq')) bp (a[i := upd s (\<lambda>_. ps) (a ! i)])"
      using shape_dequeue [OF Cons.prems(1-3) sq(1)] by blast
    obtain t q1 where q1: "DequeuePacketInternal (q\<lparr>pq_streams := (pq_streams q)(s \<mapsto> sq')\<rparr>) p = Some (t, q1)"
        "account mode q1 (mset ps + M)" "frame q q1" "pq_streams q1 = (pq_streams q)(s \<mapsto> sq')" "pq_streams_by_prio q1 = pq_streams_by_prio q"
      using account_dequeue_stream [of mode q p "mset ps + M" "(pq_streams q)(s \<mapsto> sq')"] Cons.prems(4) by auto
    have m: "map_of (a[i := upd s (\<lambda>_. ps) (a ! i)] ! i) s = Some ps" using Cons.prems(2,3) d by (simp add: map_of_upd)
    have e: "purge_stream i ttl now s q = purge_stream i ttl now s q1"
      using True sq(1) h sq'(1) q1(1) by (subst purge_stream.simps) (simp add: too_old_def)
    obtain q' where q': "purge_stream i ttl now s q1 = Some q'" "frame q1 q'" "pq_streams_by_prio q' = pq_streams_by_prio q1" "dom (pq_streams q') = insert s (dom (pq_streams q))"
        "shape (pq_streams q') bp (a[i := upd s (dropWhile (too_old ttl now)) (upd s (\<lambda>_. ps) (a ! i))])"
        "account mode q' (mset (dropWhile (too_old ttl now) ps) + M)"
      using Cons.IH [OF _ Cons.prems(2) m q1(2)] sq'(2) d(2) Cons.prems(2) unfolding q1(4) by fastforce
    have "frame q q'" by (rule frame_trans [OF q1(3) q'(2)])
    moreover have "insert s (dom (pq_streams q)) = dom (pq_streams q)" using sq(1) by auto
    ultimately show ?thesis using e q' q1(5) True u [of "dropWhile (too_old ttl now)" "dropWhile (too_old ttl now)"] by simp
  qed
qed

lemma purge_queues_ok:
  assumes "shape (pq_streams q) bp a" and "i < kNumPriorityLevels" and "distinct ss" and "set ss \<subseteq> fst ` set (a ! i)"
    and "account mode q (mset (flat (a ! i)) + M)"
  shows "\<exists>q'. purge_queues i ttl now ss q =
      Some (filter (\<lambda>s. dropWhile (too_old ttl now) (entries (a ! i) s) \<noteq> []) ss, q') \<and> frame q q' \<and> pq_streams_by_prio q' = pq_streams_by_prio q \<and>
    dom (pq_streams q') = dom (pq_streams q) \<and> shape (pq_streams q') bp (a[i := fold (\<lambda>s. upd s (dropWhile (too_old ttl now))) ss (a ! i)]) \<and>
    account mode q' (mset (flat (fold (\<lambda>s. upd s (dropWhile (too_old ttl now))) ss (a ! i))) + M)"
  using assms
proof (induction ss arbitrary: q a)
  case (Cons s ss)
  let ?f = "dropWhile (too_old ttl now)"
  obtain ps where ps: "map_of (a ! i) s = Some ps" using Cons.prems(4) by (metis insert_subset list.set(2) map_of_eq_None_iff not_None_eq)
  have d: "distinct (map fst (a ! i))" "i < length a" using Cons.prems(1,2) by (auto simp: shape_def)
  obtain R where R: "mset (flat (a ! i)) = mset ps + R" "\<And>f. mset (flat (upd s f (a ! i))) = mset (f ps) + R" using flat_upd [OF d(1) ps] by blast
  obtain q1 where q1: "purge_stream i ttl now s q = Some q1" "frame q q1" "pq_streams_by_prio q1 = pq_streams_by_prio q"
      "shape (pq_streams q1) bp (a[i := upd s ?f (a ! i)])" "account mode q1 (mset (?f ps) + (R + M))" "dom (pq_streams q1) = dom (pq_streams q)"
    using purge_stream_ok [OF Cons.prems(1,2) ps, of mode "R + M" ttl now] Cons.prems(5) by (auto simp: R(1) ac_simps)
  let ?a = "a[i := upd s ?f (a ! i)]"
  have m: "map_of (?a ! i) s = Some (?f ps)" using ps d(2) by (simp add: map_of_upd)
  obtain sq where sq: "pq_streams q1 s = Some sq" "stream_ok sq" "sq_packets sq ! i = ?f ps" using shape_stream [OF q1(4) Cons.prems(2) m] .
  have h: "HasPacketsAtPrio sq i = Some (?f ps \<noteq> [])" using HasPacketsAtPrio_ok [OF sq(2) Cons.prems(2)] sq(3) by simp
  have acc: "account mode q1 (mset (flat (?a ! i)) + M)" using q1(5) d(2) by (simp add: R(2) ac_simps)
  have sub: "set ss \<subseteq> fst ` set (?a ! i)" "distinct ss" using Cons.prems(3,4) d(2) by auto
  obtain q' where q': "purge_queues i ttl now ss q1 = Some (filter (\<lambda>s. ?f (entries (?a ! i) s) \<noteq> []) ss, q')" "frame q1 q'"
      "dom (pq_streams q') = dom (pq_streams q1)" "pq_streams_by_prio q' = pq_streams_by_prio q1" "shape (pq_streams q') bp (?a[i := fold (\<lambda>s. upd s ?f) ss (?a ! i)])"
      "account mode q' (mset (flat (fold (\<lambda>s. upd s ?f) ss (?a ! i))) + M)"
    using Cons.IH [OF q1(4) Cons.prems(2) sub(2,1) acc] by blast
  have "entries (?a ! i) r = entries (a ! i) r" if "r \<in> set ss" for r
    using that Cons.prems(3) d(2) by (auto simp: entries_def map_of_upd)
  then have "filter (\<lambda>s. ?f (entries (?a ! i) s) \<noteq> []) ss = filter (\<lambda>s. ?f (entries (a ! i) s) \<noteq> []) ss" by (intro filter_cong) auto
  then have "purge_queues i ttl now (s # ss) q = Some (filter (\<lambda>s. ?f (entries (a ! i) s) \<noteq> []) (s # ss), q')"
    using q1(1) sq(1) h q'(1) ps by (simp add: entries_def)
  then show ?case using q' q1(3,6) d(2) frame_trans [OF q1(2) q'(2)] by auto
qed simp

lemma fold_upd:
  "distinct ss \<Longrightarrow> fold (\<lambda>s. upd s f) ss lev = map (\<lambda>(s, ps). (s, if s \<in> set ss then f ps else ps)) lev"
proof (induction ss arbitrary: lev)
  case (Cons s ss)
  then show ?case by (auto simp: upd_def case_prod_beta)
qed (simp add: case_prod_beta)

lemma filter_entries:
  assumes "distinct (map fst lev)"
  shows "filter (\<lambda>s. f (entries lev s) \<noteq> []) (map fst lev) = map fst (filter (\<lambda>(s, ps). ps \<noteq> []) (map (\<lambda>(s, ps). (s, f ps)) lev))"
proof -
  have e: "\<forall>(s, ps) \<in> set lev. entries lev s = ps" using assms by (auto simp: entries_def)
  have "filter (\<lambda>s. f (entries lev s) \<noteq> []) (map fst xs) = map fst (filter (\<lambda>(s, ps). ps \<noteq> []) (map (\<lambda>(s, ps). (s, f ps)) xs))"
    if "\<forall>(s, ps) \<in> set xs. entries lev s = ps" for xs
    using that by (induction xs) auto
  then show ?thesis using e by blast
qed

lemma shape_drop_empty:
  assumes "shape st bp (a[i := lev])" and "i < kNumPriorityLevels"
  shows "shape st (bp[i := map fst (filter (\<lambda>(s, ps). ps \<noteq> []) lev)]) (a[i := filter (\<lambda>(s, ps). ps \<noteq> []) lev])"
proof -
  have l: "length a = kNumPriorityLevels" using assms(1) by (simp add: shape_def)
  have d: "distinct (map fst lev)" "fst ` set lev \<subseteq> dom st" "\<forall>s. stream_level st i s = entries lev s"
    using assms l unfolding shape_def by (metis nth_list_update_eq)+
  have "entries (filter (\<lambda>(s, ps). ps \<noteq> []) lev) s = entries lev s" for s
    using d(1) by (induction lev) auto
  moreover have "fst ` set (filter (\<lambda>(s, ps). ps \<noteq> []) lev) \<subseteq> dom st" using d(2) by fastforce
  ultimately show ?thesis
    using shape_level [OF assms, of "filter (\<lambda>(s, ps). ps \<noteq> []) lev"] d by (simp add: distinct_map_filter)
qed

lemma Purge_ok:
  assumes "queue_core mode q a" and "i < kNumPriorityLevels"
  shows "\<exists>q'. PurgeOldPacketsAtPriorityLevel q i now = Some q' \<and> frame q q' \<and> dom (pq_streams q') = dom (pq_streams q) \<and>
    queue_core mode q' (rr_purge (pq_time_to_live_per_prio q) i now a)"
proof -
  let ?ttl = "pq_time_to_live_per_prio q ! i" let ?f = "dropWhile (too_old ?ttl now)"
  have core: "shape (pq_streams q) (pq_streams_by_prio q) a" "account mode q (mset (packets_of a))" "no_empty a"
      "length (pq_time_to_live_per_prio q) = kNumPriorityLevels" using assms(1) by (auto simp: queue_core_def)
  have d: "distinct (map fst (a ! i))" "length a = kNumPriorityLevels" "pq_streams_by_prio q = map (map fst) a"
    using core(1) assms(2) by (auto simp: shape_def)
  have ne: "no_empty (rr_purge (pq_time_to_live_per_prio q) i now a)"
    unfolding rr_purge_def using core(3) by (rule no_empty_update) (use core(3) assms(2) d(2) in \<open>auto simp: rr_purge_level_def no_empty_def\<close>)
  show ?thesis
  proof (cases "IsInfinite ?ttl")
    case True
    then show ?thesis using assms core d(2)
      by (simp add: PurgeOldPacketsAtPriorityLevel_def rr_purge_def rr_purge_level_def)
  next
    case False
    obtain R where R: "mset (packets_of a) = mset (flat (a ! i)) + R" "\<And>lev. mset (packets_of (a[i := lev])) = mset (flat lev) + R"
      using packets_of_split [of i a] assms(2) d(2) by auto
    let ?lev = "map (\<lambda>(s, ps). (s, ?f ps)) (a ! i)"
    have fold: "fold (\<lambda>s. upd s ?f) (map fst (a ! i)) (a ! i) = ?lev"
      unfolding fold_upd [OF d(1)] by (rule map_cong) force+
    obtain q1 where q1: "purge_queues i ?ttl now (map fst (a ! i)) q =
          Some (map fst (filter (\<lambda>(s, ps). ps \<noteq> []) ?lev), q1)" "frame q q1" "pq_streams_by_prio q1 = pq_streams_by_prio q"
        "dom (pq_streams q1) = dom (pq_streams q)" "shape (pq_streams q1) (pq_streams_by_prio q) (a[i := ?lev])" "account mode q1 (mset (flat ?lev) + R)"
      using purge_queues_ok [OF core(1) assms(2) d(1), of mode R ?ttl now] core(2) R(1) unfolding fold filter_entries [OF d(1)] by auto
    have "flat (filter (\<lambda>(s, ps). ps \<noteq> []) lev) = flat lev" for lev by (induction lev) auto
    then have "account mode q1 (mset (packets_of (rr_purge (pq_time_to_live_per_prio q) i now a)))"
      using q1(6) False by (simp add: R(2) rr_purge_def rr_purge_level_def)
    moreover have "PurgeOldPacketsAtPriorityLevel q i now =
        Some (q1\<lparr>pq_streams_by_prio := (pq_streams_by_prio q)[i := map fst (filter (\<lambda>(s, ps). ps \<noteq> []) ?lev)]\<rparr>)"
      using q1(1,3) False assms(2) core(4) d by (simp add: PurgeOldPacketsAtPriorityLevel_def)
    ultimately show ?thesis
      using q1(2,4) shape_drop_empty [OF q1(5) assms(2)] False core(4) ne
      by (simp add: queue_core_def rr_purge_def rr_purge_level_def frame_def frame0_def)
  qed
qed

section \<open>The top level\<close>

lemma is_top_iff:
  assumes "no_empty a"
  shows "is_top t a \<longleftrightarrow> (if \<forall>i < length a. a ! i = [] then t = -1 else \<exists>i < length a. t = int i \<and> a ! i \<noteq> [] \<and> (\<forall>j < i. a ! j = []))"
  using packets_of_empty [OF assms] by (simp add: is_top_def)

lemma queue_core_length: "queue_core mode q a \<Longrightarrow> length a = kNumPriorityLevels \<and> no_empty a \<and> pq_streams_by_prio q = map (map fst) a"
  by (simp add: queue_core_def shape_def)

lemma queue_core_size: "queue_core mode q a \<Longrightarrow> pq_size_packets q = int (length (packets_of a))"
  by (simp add: queue_core_def account_def counts_def)

lemma queue_core_top [simp]: "queue_core mode (q\<lparr>pq_top_active_prio_level := t\<rparr>) a = queue_core mode q a"
  by (simp add: queue_core_def)

lemma rr_settle_length [simp]: "length (rr_settle ttls now is a) = length a"
  by (induction "is" arbitrary: a) (auto simp: rr_purge_def Let_def)

lemma find_top_ok:
  assumes "queue_core mode q a" and "\<forall>j < k. a ! j = []" and "k + n = kNumPriorityLevels"
  shows "\<exists>q'. find_top [k..<k + n] q = Some q' \<and> frame0 q q' \<and>
    queue_core mode q' (rr_settle (pq_time_to_live_per_prio q) (pq_last_update_time q) [k..<k + n] a) \<and>
    (packets_of (rr_settle (pq_time_to_live_per_prio q) (pq_last_update_time q) [k..<k + n] a) \<noteq> [] \<longrightarrow>
      is_top (pq_top_active_prio_level q') (rr_settle (pq_time_to_live_per_prio q) (pq_last_update_time q) [k..<k + n] a))"
  using assms
proof (induction n arbitrary: k q a)
  case 0
  then show ?case using queue_core_length [OF 0(1)] packets_of_empty [of a] by simp
next
  case (Suc n)
  let ?t = "pq_time_to_live_per_prio q" and ?now = "pq_last_update_time q"
  let ?a = "rr_purge ?t k ?now a"
  have k: "k < kNumPriorityLevels" using Suc.prems(3) by simp
  have l: "length ?a = kNumPriorityLevels" using queue_core_length [OF Suc.prems(1)] by (simp add: rr_purge_def)
  obtain q1 where q1: "PurgeOldPacketsAtPriorityLevel q k ?now = Some q1" "frame q q1" "queue_core mode q1 ?a"
    using Purge_ok [OF Suc.prems(1) k] by blast
  have rd: "rd (pq_streams_by_prio q1) k = Some (map fst (?a ! k))" using queue_core_length [OF q1(3)] k by simp
  have low: "\<forall>j < k. ?a ! j = []" using Suc.prems(2) by (simp add: rr_purge_def)
  have up: "[k..<k + Suc n] = k # [Suc k..<Suc k + n]" by (simp add: upt_rec)
  show ?case
  proof (cases "?a ! k = []")
    case False
    have "is_top (int k) ?a"
      using False low k l queue_core_length [OF q1(3)] by (subst is_top_iff) auto
    then show ?thesis using False q1 rd unfolding up by (simp add: Let_def frame_def frame0_def)
  next
    case True
    have "\<forall>j < Suc k. ?a ! j = []" using low True by (simp add: less_Suc_eq)
    moreover have "Suc k + n = kNumPriorityLevels" using Suc.prems(3) by simp
    moreover have fr: "pq_time_to_live_per_prio q1 = ?t" "pq_last_update_time q1 = ?now" "frame0 q q1" using q1(2) by (auto simp: frame_def frame0_def)
    ultimately obtain q' where q': "find_top [Suc k..<Suc k + n] q1 = Some q'" "frame0 q1 q'"
        "queue_core mode q' (rr_settle ?t ?now [Suc k..<Suc k + n] ?a)"
        "packets_of (rr_settle ?t ?now [Suc k..<Suc k + n] ?a) \<noteq> [] \<longrightarrow> is_top (pq_top_active_prio_level q') (rr_settle ?t ?now [Suc k..<Suc k + n] ?a)"
      using Suc.IH [OF q1(3), of "Suc k"] by metis
    have "find_top [k..<k + Suc n] q = Some q'" "rr_settle ?t ?now [k..<k + Suc n] a = rr_settle ?t ?now [Suc k..<Suc k + n] ?a"
      unfolding up using q1(1) rd True q'(1) by (simp_all add: Let_def del: upt_Suc)
    then show ?thesis using q' frame0_trans [OF fr(3) q'(2)] by simp
  qed
qed

lemma MaybeUpdateTop_ok:
  assumes "queue_core mode q a" and "pq_top_active_prio_level q = -1 \<or>
      (\<exists>i < kNumPriorityLevels. pq_top_active_prio_level q = int i \<and> (\<forall>j < i. a ! j = []))"
  shows "\<exists>q'. MaybeUpdateTopPrioLevel q = Some q' \<and> frame0 q q' \<and>
    queue_inv mode q' (rr_top (pq_time_to_live_per_prio q) (pq_last_update_time q) (pq_top_active_prio_level q) a)"
proof -
  let ?t = "pq_top_active_prio_level q"
  have l: "length a = kNumPriorityLevels" "pq_streams_by_prio q = map (map fst) a" "no_empty a" using queue_core_length [OF assms(1)] by auto
  define keep where "keep = (?t \<noteq> -1 \<and> a ! nat ?t \<noteq> [])"
  have k: "(if ?t \<noteq> -1 then map_option (\<lambda>queues. queues \<noteq> []) (rd (pq_streams_by_prio q) (nat ?t)) else Some False) = Some keep"
    using assms(2) l by (auto simp: keep_def)
  show ?thesis
  proof (cases keep)
    case True
    have "is_top ?t a" using True assms(2) l by (subst is_top_iff) (auto simp: keep_def)
    moreover have "MaybeUpdateTopPrioLevel q = Some q" unfolding MaybeUpdateTopPrioLevel_def k using True by simp
    ultimately show ?thesis using True assms(1) by (simp add: queue_inv_def rr_top_def keep_def)
  next
    case False
    let ?a = "rr_settle (pq_time_to_live_per_prio q) (pq_last_update_time q) [0..<kNumPriorityLevels] a"
    obtain q1 where q1: "find_top [0..<kNumPriorityLevels] q = Some q1" "frame0 q q1" "queue_core mode q1 ?a"
        "packets_of ?a \<noteq> [] \<longrightarrow> is_top (pq_top_active_prio_level q1) ?a"
      using find_top_ok [OF assms(1), of 0 kNumPriorityLevels] by auto
    have top: "rr_top (pq_time_to_live_per_prio q) (pq_last_update_time q) ?t a = ?a" using False by (auto simp: rr_top_def keep_def)
    have "MaybeUpdateTopPrioLevel q = Some (if pq_size_packets q1 = 0 then q1\<lparr>pq_top_active_prio_level := -1\<rparr> else q1)"
      unfolding MaybeUpdateTopPrioLevel_def k using False q1(1) by simp
    moreover have "is_top (-1) ?a" if "packets_of ?a = []" using that by (simp add: is_top_def)
    ultimately show ?thesis unfolding top
      using q1 queue_core_size [OF q1(3)] by (auto simp: queue_inv_def frame0_def)
  qed
qed

section \<open>Taking packets out\<close>

lemma Pop_ok:
  assumes "queue_inv mode q a" and "packets_of a \<noteq> []"
  obtains i s p ps rest t q' where "i < kNumPriorityLevels" "pq_top_active_prio_level q = int i" "a ! i = (s, p # ps) # rest" "\<forall>j < i. a ! j = []"
    "Pop q = Some (Some t, q')" "frame0 q q'" "t = (qp_packet p)\<lparr>ts_time_in_send_queue := ts_time_in_send_queue t\<rparr>"
    "fst mode \<longrightarrow> ts_time_in_send_queue t = Some (waited q p)"
    "queue_inv mode q' (rr_pop (pq_time_to_live_per_prio q) (pq_last_update_time q) (pq_top_active_prio_level q) a)"
proof -
  note core = assms(1) [unfolded queue_inv_def, THEN conjunct1]
  have l: "length a = kNumPriorityLevels" "pq_streams_by_prio q = map (map fst) a" "no_empty a" using queue_core_length [OF core] by auto
  obtain i where i: "i < kNumPriorityLevels" "pq_top_active_prio_level q = int i" "a ! i \<noteq> []" "\<forall>j < i. a ! j = []"
    using assms l(1) by (auto simp: queue_inv_def is_top_def)
  obtain s p ps rest where lev: "a ! i = (s, p # ps) # rest"
    using i(1,3) l(1,3) nth_mem [of i a] by (cases "a ! i") (force simp: no_empty_def neq_Nil_conv)+
  have shape: "shape (pq_streams q) (pq_streams_by_prio q) a" using core by (simp add: queue_core_def)
  have m: "map_of (a ! i) s = Some (p # ps)" by (simp add: lev)
  obtain sq where sq: "pq_streams q s = Some sq" using shape_stream [OF shape i(1) m] .
  obtain sq' where sq': "Stream_DequeuePacket sq i = Some (p, sq')" "sq_packets sq' ! i = ps" "stream_ok sq'"
      "shape ((pq_streams q)(s \<mapsto> sq')) (pq_streams_by_prio q) (a[i := upd s (\<lambda>_. ps) (a ! i)])"
    using shape_dequeue [OF shape i(1) m sq] .
  obtain R where R: "mset (packets_of a) = mset (flat (a ! i)) + R" "\<And>lev. mset (packets_of (a[i := lev])) = mset (flat lev) + R"
    using packets_of_split [of i a] i(1) l(1) by auto
  obtain t q1 where q1: "DequeuePacketInternal (q\<lparr>pq_streams := (pq_streams q)(s \<mapsto> sq')\<rparr>) p = Some (t, q1)"
      "account mode q1 (mset ps + mset (flat rest) + R)" "frame q q1"
      "pq_streams q1 = (pq_streams q)(s \<mapsto> sq')" "pq_streams_by_prio q1 = pq_streams_by_prio q"
      "fst mode \<longrightarrow> ts_time_in_send_queue t = Some (waited q p)" "t = (qp_packet p)\<lparr>ts_time_in_send_queue := ts_time_in_send_queue t\<rparr>"
    using account_dequeue_stream [of mode q p "mset ps + mset (flat rest) + R" "(pq_streams q)(s \<mapsto> sq')"] core R(1) lev
    by (auto simp: queue_core_def)
  let ?lev = "rr_pop_level (a ! i)" let ?bp = "(pq_streams_by_prio q)[i := map fst ?lev]"
  have dist: "distinct (map fst (a ! i))" "fst ` set (a ! i) \<subseteq> dom (pq_streams q)" using shape i(1) by (auto simp: shape_def)
  have sh: "shape (pq_streams q1) ?bp (a[i := ?lev])"
  proof -
    have "entries ?lev r = stream_level ((pq_streams q)(s \<mapsto> sq')) i r" for r
    proof -
      have "stream_level ((pq_streams q)(s \<mapsto> sq')) i r = entries (upd s (\<lambda>_. ps) (a ! i)) r"
        using sq'(4) i(1) l(1) by (simp add: shape_def nth_list_update)
      also have "\<dots> = (if r = s then ps else entries rest r)" using dist(1) by (auto simp: lev upd_other)
      also have "\<dots> = entries ?lev r"
        using dist(1) by (auto simp: lev level_entries_append)
      finally show ?thesis by simp
    qed
    moreover have "distinct (map fst ?lev)" using dist(1) by (auto simp: lev)
    moreover have "fst ` set ?lev \<subseteq> dom ((pq_streams q)(s \<mapsto> sq'))" using dist(2) by (auto simp: lev)
    ultimately show ?thesis unfolding q1(4) using shape_level [OF sq'(4) i(1), of ?lev] by simp
  qed
  let ?q = "q1\<lparr>pq_streams_by_prio := ?bp\<rparr>"
  have core1: "queue_core mode ?q (a[i := ?lev])"
  proof -
    have "no_empty (a[i := ?lev])"
      by (rule no_empty_update [OF l(3)]) (use l(1,3) i(1) nth_mem [of i a] lev in \<open>auto simp: no_empty_def\<close>)
    moreover have "account mode q1 (mset (packets_of (a[i := ?lev])))" using q1(2) by (cases "ps = []") (simp_all add: R(2) lev ac_simps)
    ultimately show ?thesis using sh core q1(3) by (simp add: queue_core_def frame_def frame0_def)
  qed
  have nz: "pq_size_packets q \<noteq> 0" using assms(2) queue_core_size [OF core] by simp
  have h: "HasPacketsAtPrio sq' i = Some (ps \<noteq> [])" using HasPacketsAtPrio_ok [OF sq'(3) i(1)] sq'(2) by simp
  have rd: "rd (pq_streams_by_prio q) i = Some (map fst (a ! i))" using l i(1) by simp
  have top: "pq_top_active_prio_level ?q = int i" "frame q ?q" using q1(3) i(2) by (simp_all add: frame_def frame0_def)
  have pop: "Pop q = (if ps \<noteq> [] then Some (Some t, ?q) else do { q \<leftarrow> MaybeUpdateTopPrioLevel ?q; Some (Some t, q) })"
    using nz i(2) rd sq sq'(1) q1(1,5) h by (simp add: Pop_def lev Let_def)
  have keep: "MaybeUpdateTopPrioLevel ?q = Some ?q" if "ps \<noteq> []"
    using that top(1) i(1) l by (simp add: MaybeUpdateTopPrioLevel_def q1(5) lev)
  obtain q' where q': "MaybeUpdateTopPrioLevel ?q = Some q'" "frame0 ?q q'"
      "queue_inv mode q' (rr_top (pq_time_to_live_per_prio ?q) (pq_last_update_time ?q) (pq_top_active_prio_level ?q) (a[i := ?lev]))"
    using MaybeUpdateTop_ok [OF core1] top(1) i by auto
  have "Pop q = Some (Some t, q')" using pop q'(1) keep by (cases "ps = []") auto
  moreover have "frame0 q q'" using q'(2) top(2) by (auto simp: frame_def intro: frame0_trans)
  moreover have "queue_inv mode q' (rr_pop (pq_time_to_live_per_prio q) (pq_last_update_time q) (pq_top_active_prio_level q) a)"
    using q'(3) top i(2) by (simp add: rr_pop_def frame_def frame0_def)
  ultimately show thesis using that [OF i(1,2) lev i(4)] q1(6,7) by blast
qed

section \<open>The clock of the queue\<close>

lemma ledger_update:
  assumes "ledger q M" and "pq_size_packets q = int (size M)" and "pq_last_update_time q \<le> now" and "now < 2 ^ 45"
  shows "ledger (UpdateAverageQueueTime q now) M"
proof (cases "now = pq_last_update_time q")
  case False
  note l = assms(1) [unfolded ledger_def]
  let ?d = "now - pq_last_update_time q" and ?q = "UpdateAverageQueueTime q now"
  have n: "int (size M) \<le> 2 ^ 17" using l by simp
  have "?d \<le> 2 ^ 45" using l assms(3,4) by simp
  then have sc: "0 \<le> ?d * int (size M)" "?d * int (size M) \<le> 2 ^ 45 * 2 ^ 17"
    using n assms(3) mult_mono [of ?d "2 ^ 45" "int (size M)" "2 ^ 17"] by simp_all
  have d: "Timestamp_sub now (pq_last_update_time q) = ?d"
    unfolding Timestamp_ops by (rule finite_unit_sub) (use l assms(3,4) in \<open>auto intro!: small_finite\<close>)
  have p: "unit_add (pq_pause_time_sum q) ?d = pq_pause_time_sum q + ?d"
    by (rule finite_unit_add) (use l assms(3,4) in \<open>auto intro!: small_finite\<close>)
  have q: "unit_add (pq_queue_time_sum q) (?d * int (size M)) = pq_queue_time_sum q + ?d * int (size M)"
    by (rule finite_unit_add) (use ledger_bounds [OF assms(1)] sc in \<open>auto intro!: small_finite\<close>)
  have u: "?q = (if pq_paused q then q\<lparr>pq_pause_time_sum := pq_pause_time_sum q + ?d\<rparr>
      else q\<lparr>pq_queue_time_sum := pq_queue_time_sum q + ?d * int (size M)\<rparr>)\<lparr>pq_last_update_time := now\<rparr>"
    using False by (simp add: UpdateAverageQueueTime_def Let_def d p q unit_scale_def assms(2))
  have w: "waited ?q r = (if pq_paused q then waited q r else waited q r + ?d)" for r by (simp add: u waited_def)
  have "(\<Sum>r\<in>#M. waited q r + ?d) = (\<Sum>r\<in>#M. waited q r) + ?d * int (size M)" by (simp add: sum_mset.distrib)
  moreover have "waited ?q = (if pq_paused q then waited q else (\<lambda>r. waited q r + ?d))" using w by (auto simp: fun_eq_iff)
  moreover have "pq_pause_time_sum ?q = pq_pause_time_sum q + (if pq_paused q then ?d else 0)" "pq_last_update_time ?q = now"
    "pq_queue_time_sum ?q = pq_queue_time_sum q + (if pq_paused q then 0 else ?d * int (size M))" "pq_size_payload ?q = pq_size_payload q"
    by (simp_all add: u)
  ultimately show ?thesis using l assms(3,4) by (simp add: ledger_def)
qed (simp add: UpdateAverageQueueTime_def assms)

lemma Update_same [simp]:
  "pq_streams (UpdateAverageQueueTime q now) = pq_streams q" "pq_streams_by_prio (UpdateAverageQueueTime q now) = pq_streams_by_prio q"
  "pq_top_active_prio_level (UpdateAverageQueueTime q now) = pq_top_active_prio_level q"
  "pq_time_to_live_per_prio (UpdateAverageQueueTime q now) = pq_time_to_live_per_prio q"
  "pq_last_update_time (UpdateAverageQueueTime q now) = now" "pq_paused (UpdateAverageQueueTime q now) = pq_paused q"
  "pq_prioritize_audio_retransmission (UpdateAverageQueueTime q now) = pq_prioritize_audio_retransmission q"
  "pq_next_node (UpdateAverageQueueTime q now) = pq_next_node q" "pq_size_packets (UpdateAverageQueueTime q now) = pq_size_packets q"
  "pq_size_packets_per_media_type (UpdateAverageQueueTime q now) = pq_size_packets_per_media_type q"
  "pq_enqueue_times (UpdateAverageQueueTime q now) = pq_enqueue_times q" "pq_size_payload (UpdateAverageQueueTime q now) = pq_size_payload q"
  by (simp_all add: UpdateAverageQueueTime_def Let_def)

definition timely :: "PrioritizedPacketQueue \<Rightarrow> timestamp \<Rightarrow> bool" where
  "timely q now \<longleftrightarrow> pq_last_update_time q \<le> now \<and> now < 2 ^ 45"

lemma Update_core:
  assumes "queue_core mode q a" and "fst mode \<longrightarrow> timely q now"
  shows "queue_core mode (UpdateAverageQueueTime q now) a"
  using assms ledger_update [of q _ now] by (auto simp: queue_core_def account_def counts_def timely_def)

lemma SetPauseState_ok:
  assumes "queue_inv mode q a" and "fst mode \<longrightarrow> timely q now"
  shows "queue_inv mode (UpdateAverageQueueTime q now) a" "queue_inv mode (SetPauseState q b now) a"
proof -
  show "queue_inv mode (UpdateAverageQueueTime q now) a" using assms Update_core [of mode q a now] by (simp add: queue_inv_def)
  then show "queue_inv mode (SetPauseState q b now) a"
    by (simp add: SetPauseState_def queue_inv_def queue_core_def account_def counts_def ledger_def waited_def)
qed

section \<open>Putting packets in\<close>

lemma stream_ok_new: "stream_ok (new_StreamQueue t)" "sq_packets (new_StreamQueue t) = replicate kNumPriorityLevels []"
  by (simp_all add: stream_ok_def new_StreamQueue_def)

lemma shape_new:
  assumes "shape st bp a" and "st s = None"
  shows "shape (st(s \<mapsto> new_StreamQueue t)) bp a"
proof -
  have "s \<notin> fst ` set (a ! i)" if "i < kNumPriorityLevels" for i using assms that unfolding shape_def by blast
  moreover have "stream_level (st(s \<mapsto> new_StreamQueue t)) i r = stream_level st i r" if "i < kNumPriorityLevels" for i r
    using assms(2) that by (simp add: stream_level_def stream_ok_new)
  moreover have "\<forall>x \<in> ran (st(s \<mapsto> new_StreamQueue t)). stream_ok x" using assms stream_ok_new by (auto simp: shape_def ran_def)
  moreover have "fst ` set (a ! i) \<subseteq> insert s (dom st)" if "i < kNumPriorityLevels" for i using assms(1) that unfolding shape_def by blast
  ultimately show ?thesis using assms(1) by (simp add: shape_def)
qed

lemma shape_cull:
  assumes "shape st bp a" and "no_empty a" and "\<forall>s. st' s = st s \<or> st' s = None \<and> (\<forall>sq. st s = Some sq \<longrightarrow> Stream_IsEmpty sq)"
  shows "shape st' bp a"
proof -
  have l: "stream_level st' i s = stream_level st i s" if "i < kNumPriorityLevels" for i s
  proof (cases "st s")
    case (Some sq)
    then have "stream_ok sq" using assms(1) by (auto simp: shape_def ran_def)
    then show ?thesis using assms(3) [rule_format, of s] Some that
      by (auto simp: stream_level_def Stream_IsEmpty_def list_all_length stream_ok_def)
  qed (use assms(3) [rule_format, of s] in \<open>auto simp: stream_level_def\<close>)
  have "fst ` set (a ! i) \<subseteq> dom st'" if "i < kNumPriorityLevels" for i
  proof
    fix s assume s: "s \<in> fst ` set (a ! i)"
    have i: "i < length a" "distinct (map fst (a ! i))" using that assms(1) by (auto simp: shape_def)
    then have "entries (a ! i) s \<noteq> []" using s assms(2) nth_mem [OF i(1)] by (fastforce simp: entries_def no_empty_def)
    then have "stream_level st' i s \<noteq> []" using assms(1) that l by (simp add: shape_def)
    then show "s \<in> dom st'" by (auto simp: stream_level_def split: option.splits)
  qed
  moreover have "\<forall>x \<in> ran st'. stream_ok x"
  proof
    fix x assume "x \<in> ran st'"
    then obtain s where "st' s = Some x" by (auto simp: ran_def)
    with assms(3) [rule_format, of s] have "x \<in> ran st" by (auto simp: ran_def)
    then show "stream_ok x" using assms(1) by (simp add: shape_def)
  qed
  ultimately show ?thesis using assms(1) l by (simp add: shape_def)
qed

lemma cull_same [simp]:
  "queue_inv mode (cull_streams q now) a = (shape (pq_streams (cull_streams q now)) (pq_streams_by_prio q) a \<and> no_empty a \<and>
     account mode q (mset (packets_of a)) \<and> length (pq_time_to_live_per_prio q) = kNumPriorityLevels \<and> is_top (pq_top_active_prio_level q) a)"
  by (auto simp: queue_inv_def queue_core_def cull_streams_def account_def counts_def ledger_def waited_def)

lemma cull_ok: "queue_inv mode q a \<Longrightarrow> queue_inv mode (cull_streams q now) a"
proof -
  assume q: "queue_inv mode q a"
  have "shape (pq_streams (cull_streams q now)) (pq_streams_by_prio q) a"
    by (rule shape_cull [of "pq_streams q"]) (use q in \<open>simp_all add: queue_inv_def queue_core_def cull_streams_def split: option.splits\<close>)
  then show "queue_inv mode (cull_streams q now) a" using q unfolding cull_same by (simp add: queue_inv_def queue_core_def)
qed

lemma account_enqueue:
  assumes "account (b, {#qp_enqueue_time_iterator p#}) q M" and "ts_packet_type (qp_packet p) = Some ty"
    and "b \<longrightarrow> 0 \<le> qp_enqueue_time p \<and> waited q p = 0 \<and> PacketSize p < 2 ^ 32 \<and> size M < 2 ^ 17"
  shows "\<exists>n. rd (pq_size_packets_per_media_type q) (media_type_index ty) = Some n \<and>
    account (b, {#}) (q\<lparr>pq_size_packets := pq_size_packets q + 1,
      pq_size_packets_per_media_type := (pq_size_packets_per_media_type q)[media_type_index ty := n + 1],
      pq_size_payload := unit_add (pq_size_payload q) (PacketSize p)\<rparr>) (add_mset p M)"
proof -
  let ?x = "\<lambda>p. media_type_index (the (ts_packet_type (qp_packet p)))"
  let ?n = "int (size {#r \<in># M. ?x r = media_type_index ty#})"
  have c: "counts {#qp_enqueue_time_iterator p#} q M" using assms(1) by (simp add: account_def)
  have rd: "rd (pq_size_packets_per_media_type q) (media_type_index ty) = Some ?n"
    using c media_type_index_less [of ty] by (simp add: counts_def)
  have m: "(map (\<lambda>i. int (size {#r \<in># M. ?x r = i#})) [0..<kNumMediaTypes])[media_type_index ty := ?n + 1] =
      map (\<lambda>i. int (size {#r \<in># add_mset p M. ?x r = i#})) [0..<kNumMediaTypes]"
    using assms(2) media_type_index_less [of ty] by (intro nth_equalityI) (simp_all add: nth_list_update)
  have "unit_add (pq_size_payload q) (PacketSize p) = pq_size_payload q + PacketSize p" if b
    by (rule finite_unit_add)
      (use assms(1,3) that ledger_bounds [of q M] PacketSize_pos [of p] in \<open>auto simp: account_def intro!: small_finite simp del: PacketSize_pos\<close>)
  then show ?thesis using rd c m assms by (auto simp: account_def counts_def ledger_def waited_def)
qed

lemma packets_of_purge: "length (packets_of (rr_purge ttls i now a)) \<le> length (packets_of a)"
proof (cases "i < length a")
  case True
  have "length (flat (filter (\<lambda>(s, ps). ps \<noteq> []) (map (\<lambda>(s, ps). (s, dropWhile P ps)) lev))) \<le> length (flat lev)" for P lev
    by (induction lev) (auto simp: trans_le_add2 intro!: add_mono length_dropWhile_le)
  then have "length (flat (rr_purge_level (ttls ! i) now (a ! i))) \<le> length (flat (a ! i))" by (simp add: rr_purge_level_def)
  moreover obtain R where "mset (packets_of a) = mset (flat (a ! i)) + R" "\<And>lev. mset (packets_of (a[i := lev])) = mset (flat lev) + R"
    using packets_of_split [OF True] by blast
  ultimately show ?thesis unfolding rr_purge_def by (metis add_le_cancel_right size_mset size_union)
qed (simp add: rr_purge_def list_update_beyond)

definition queued :: "PrioritizedPacketQueue \<Rightarrow> timestamp \<Rightarrow> RtpPacketToSend \<Rightarrow> QueuedPacket" where
  "queued q now packet = \<lparr>qp_packet = packet,
     qp_enqueue_time = Timestamp_sub_delta now (pq_pause_time_sum (UpdateAverageQueueTime q now)), qp_enqueue_time_iterator = pq_next_node q\<rparr>"

definition prio_of :: "bool \<Rightarrow> RtpPacketToSend \<Rightarrow> nat" where
  "prio_of separate packet = GetPriorityForType (the (ts_packet_type packet)) (if separate then ts_original_packet_type packet else None)"

definition rr_enqueue :: "PrioritizedPacketQueue \<Rightarrow> timestamp \<Rightarrow> RtpPacketToSend \<Rightarrow> rr_queue \<Rightarrow> rr_queue" where
  "rr_enqueue q now packet a =
     (let i = prio_of (pq_prioritize_audio_retransmission q) packet in
      rr_push i (rp_ssrc (ts_packet packet)) (queued q now packet) (rr_purge (pq_time_to_live_per_prio q) i now a))"

lemma shape_push:
  assumes "shape st bp a" and "no_empty a" and "i < kNumPriorityLevels" and "st s = Some sq"
  obtains sq' where "Stream_EnqueuePacket sq p i = Some (s \<notin> fst ` set (a ! i), sq')"
    "shape (st(s \<mapsto> sq')) (if s \<notin> fst ` set (a ! i) then bp[i := map fst (a ! i) @ [s]] else bp) (rr_push i s p a)"
proof -
  have sq: "stream_ok sq" using assms(1,4) by (auto simp: shape_def ran_def)
  have d: "distinct (map fst (a ! i))" "fst ` set (a ! i) \<subseteq> dom st" "i < length a" using assms(1,3) by (auto simp: shape_def)
  have e: "sq_packets sq ! i = entries (a ! i) s" using assms(1,3,4) stream_level_Some [of st s sq i] by (simp add: shape_def)
  obtain sq' where sq': "Stream_EnqueuePacket sq p i = Some (sq_packets sq ! i = [], sq')"
      "sq_packets sq' = (sq_packets sq)[i := sq_packets sq ! i @ [p]]" "stream_ok sq'"
    using Stream_EnqueuePacket_ok [OF sq assms(3)] .
  show thesis
  proof (cases "s \<in> fst ` set (a ! i)")
    case True
    then obtain ps where ps: "map_of (a ! i) s = Some ps" by (metis map_of_eq_None_iff not_None_eq)
    have ne: "ps \<noteq> []" using map_of_SomeD [OF ps] assms(2) nth_mem [OF d(3)] by (auto simp: no_empty_def)
    have "upd s (\<lambda>_. ps @ [p]) (a ! i) = upd s (\<lambda>ps. ps @ [p]) (a ! i)" by (rule upd_cong [OF d(1) ps]) simp
    then have "shape (st(s \<mapsto> sq')) bp (rr_push i s p a)"
      using shape_update [OF assms(1,3,4) sq'(3,2) True] True e ps by (simp add: rr_push_def rr_push_level_def entries_def)
    then show ?thesis using that sq'(1) e ps ne True by (simp add: entries_def)
  next
    case False
    have "entries (a ! i @ [(s, [p])]) r = (if r = s then [p] else entries (a ! i) r)" for r
      using False by (auto simp: level_entries_append)
    then have "shape (st(s \<mapsto> sq')) (bp[i := map fst (a ! i) @ [s]]) (rr_push i s p a)"
      using shape_set [OF assms(1,3,4) sq'(3,2), of "a ! i @ [(s, [p])]"] d False domI [of st s sq] assms(4) e
      by (simp add: rr_push_def rr_push_level_def)
    then show ?thesis using that sq'(1) e False by simp
  qed
qed

lemma is_top_push:
  assumes "is_top t a" and "no_empty a" and "i < length a" and "\<forall>j < length a. j \<noteq> i \<longrightarrow> a' ! j = a ! j" and "a' ! i \<noteq> []"
    and "length a' = length a" and "no_empty a'"
  shows "is_top (if t < 0 \<or> int i < t then int i else t) a'"
proof (cases "\<forall>i < length a. a ! i = []")
  case True
  then have "t = -1" using assms(1,2) by (simp add: is_top_iff)
  then show ?thesis using True assms(3-7) by (subst is_top_iff) (auto intro!: exI [of _ i])
next
  case False
  then obtain k where k: "k < length a" "t = int k" "a ! k \<noteq> []" "\<forall>j < k. a ! j = []"
    using assms(1) unfolding is_top_iff [OF assms(2)] if_not_P [OF False] by blast
  show ?thesis
  proof (cases "i < k")
    case True
    then show ?thesis using k assms(3-7) by (subst is_top_iff) (auto intro!: exI [of _ i])
  next
    case False
    then have "a' ! k \<noteq> []" using k assms(4,5) by (cases "i = k") auto
    then show ?thesis using False k assms(3-7) by (subst is_top_iff) (auto intro!: exI [of _ k])
  qed
qed

lemma flat_push: "distinct (map fst lev) \<Longrightarrow> mset (flat (rr_push_level s p lev)) = add_mset p (mset (flat lev))"
proof -
  assume d: "distinct (map fst lev)"
  show ?thesis
  proof (cases "s \<in> fst ` set lev")
    case True
    then obtain ps where "map_of lev s = Some ps" by (metis map_of_eq_None_iff not_None_eq)
    from flat_upd [OF d this] obtain R where "mset (flat lev) = mset ps + R" "\<And>f. mset (flat (upd s f lev)) = mset (f ps) + R" by blast
    then show ?thesis using True by (simp add: rr_push_level_def)
  qed (simp add: rr_push_level_def)
qed

lemma no_empty_push:
  assumes "no_empty a" and "i < length a"
  shows "no_empty (rr_push i s p a)"
proof -
  have "\<forall>(s, ps) \<in> set (a ! i). ps \<noteq> []" using assms nth_mem by (auto simp: no_empty_def)
  then have "\<forall>(s, ps) \<in> set (rr_push_level s p (a ! i)). ps \<noteq> []" by (auto simp: rr_push_level_def upd_def split: if_splits)
  then show ?thesis unfolding rr_push_def by (rule no_empty_update [OF assms(1)])
qed

lemma rr_push_level_neq: "rr_push_level s p lev \<noteq> []"
  by (cases lev) (auto simp: rr_push_level_def)

lemma Push_ok:
  assumes "queue_inv (b, {#}) q a" and "ts_packet_type packet = Some ty"
    and "b \<longrightarrow> timely q now \<and> length (packets_of a) < 2 ^ 17 \<and>
      rp_payload_size (ts_packet packet) + rp_padding_size (ts_packet packet) < 2 ^ 32"
  shows "\<exists>q'. Push q now packet = Some q' \<and> queue_inv (b, {#}) q' (rr_enqueue q now packet a) \<and>
    pq_time_to_live_per_prio q' = pq_time_to_live_per_prio q \<and> pq_last_update_time q' = now \<and>
    pq_pause_time_sum q' = pq_pause_time_sum (UpdateAverageQueueTime q now) \<and> pq_paused q' = pq_paused q \<and>
    pq_prioritize_audio_retransmission q' = pq_prioritize_audio_retransmission q \<and> pq_next_node q' = Suc (pq_next_node q)"
proof -
  let ?s = "rp_ssrc (ts_packet packet)" and ?n = "pq_next_node q"
  let ?i = "GetPriorityForType ty (if pq_prioritize_audio_retransmission q then ts_original_packet_type packet else None)"
  note core = assms(1) [unfolded queue_inv_def, THEN conjunct1]
  define q0 where "q0 = (case pq_streams q ?s of None \<Rightarrow> q\<lparr>pq_streams := (pq_streams q)(?s \<mapsto> new_StreamQueue now)\<rparr> | Some _ \<Rightarrow> q)
    \<lparr>pq_enqueue_times := pq_enqueue_times q @ [(?n, now)], pq_next_node := ?n + 1\<rparr>"
  have q0: "frame q (q0\<lparr>pq_next_node := ?n\<rparr>)" "pq_streams_by_prio q0 = pq_streams_by_prio q" "?s \<in> dom (pq_streams q0)"
      "pq_next_node q0 = Suc ?n" "shape (pq_streams q0) (pq_streams_by_prio q) a"
    using core shape_new [of "pq_streams q" "pq_streams_by_prio q" a ?s now]
    by (auto simp: q0_def frame_def frame0_def queue_core_def split: option.splits)
  have n: "?n \<notin> fst ` set (pq_enqueue_times q)" using core by (auto simp: queue_core_def account_def counts_def)
  have core0: "queue_core (b, {#?n#}) q0 a"
    using core q0(2,5) n by (auto simp: q0_def queue_core_def account_def counts_def ledger_def waited_def less_Suc_eq split: option.splits)
  obtain q1 where q1: "PurgeOldPacketsAtPriorityLevel q0 ?i now = Some q1" "frame q0 q1" "dom (pq_streams q1) = dom (pq_streams q0)"
      "queue_core (b, {#?n#}) q1 (rr_purge (pq_time_to_live_per_prio q0) ?i now a)"
    using Purge_ok [OF core0 GetPriorityForType_less] by blast
  let ?a = "rr_purge (pq_time_to_live_per_prio q) ?i now a" and ?q2 = "UpdateAverageQueueTime q1 now" let ?p = "queued q now packet"
  have same: "pq_last_update_time q1 = pq_last_update_time q" "pq_pause_time_sum q1 = pq_pause_time_sum q" "pq_paused q1 = pq_paused q"
      "pq_time_to_live_per_prio q0 = pq_time_to_live_per_prio q" "pq_top_active_prio_level q1 = pq_top_active_prio_level q"
    using q0(1) q1(2) by (auto simp: frame_def frame0_def)
  have pause: "pq_pause_time_sum ?q2 = pq_pause_time_sum (UpdateAverageQueueTime q now)"
    using same by (simp add: UpdateAverageQueueTime_def Let_def)
  have core2: "queue_core (b, {#?n#}) ?q2 ?a"
    using Update_core [OF q1(4), of now] assms(3) same by (simp add: timely_def)
  have len: "length ?a = kNumPriorityLevels" "no_empty ?a" using queue_core_length [OF core2] by auto
  have rdq: "rd (pq_streams_by_prio ?q2) ?i = Some (map fst (?a ! ?i))" "distinct (map fst (?a ! ?i))"
    using core2 len by (simp_all add: queue_core_def shape_def)
  obtain sq where sq: "pq_streams ?q2 ?s = Some sq" using q0(3) q1(3) by auto
  obtain sq' where sq': "Stream_EnqueuePacket sq ?p ?i = Some (?s \<notin> fst ` set (?a ! ?i), sq')"
      "shape ((pq_streams ?q2)(?s \<mapsto> sq'))
        (if ?s \<notin> fst ` set (?a ! ?i) then (pq_streams_by_prio ?q2)[?i := map fst (?a ! ?i) @ [?s]] else pq_streams_by_prio ?q2) (rr_push ?i ?s ?p ?a)"
    using shape_push [where a = ?a and i = ?i and p = ?p and bp = "pq_streams_by_prio ?q2" and st = "pq_streams ?q2" and s = ?s, OF _ len(2) GetPriorityForType_less sq] core2
    unfolding queue_core_def by blast
  obtain m where m: "rd (pq_size_packets_per_media_type ?q2) (media_type_index ty) = Some m"
      "account (b, {#}) (?q2\<lparr>pq_size_packets := pq_size_packets ?q2 + 1,
        pq_size_packets_per_media_type := (pq_size_packets_per_media_type ?q2)[media_type_index ty := m + 1],
        pq_size_payload := unit_add (pq_size_payload ?q2) (PacketSize ?p)\<rparr>) (add_mset ?p (mset (packets_of ?a)))"
  proof -
    have "0 \<le> qp_enqueue_time ?p \<and> waited ?q2 ?p = 0 \<and> PacketSize ?p < 2 ^ 32 \<and> size (mset (packets_of ?a)) < 2 ^ 17" if b
    proof -
      have l: "ledger ?q2 (mset (packets_of ?a))" using core2 that by (simp add: queue_core_def account_def)
      have "Timestamp_sub_delta now (pq_pause_time_sum ?q2) = now - pq_pause_time_sum ?q2"
        unfolding Timestamp_ops by (rule finite_unit_sub) (use l assms(3) that in \<open>auto simp: ledger_def timely_def intro!: small_finite\<close>)
      moreover have "length (packets_of ?a) \<le> length (packets_of a)" by (rule packets_of_purge)
      ultimately show ?thesis using l assms(3) that by (auto simp: queued_def waited_def ledger_def pause PacketSize_def)
    qed
    then show thesis
      using that account_enqueue [of b ?p ?q2 "mset (packets_of ?a)" ty] core2 assms(2) by (auto simp: queue_core_def queued_def)
  qed
  let ?t = "pq_top_active_prio_level q"
  define q3a where "q3a = ?q2\<lparr>pq_size_packets := pq_size_packets ?q2 + 1,
      pq_size_packets_per_media_type := (pq_size_packets_per_media_type ?q2)[media_type_index ty := m + 1],
      pq_size_payload := unit_add (pq_size_payload ?q2) (PacketSize ?p), pq_streams := (pq_streams ?q2)(?s \<mapsto> sq')\<rparr>"
  define q3b where "q3b = (if ?s \<notin> fst ` set (?a ! ?i)
      then q3a\<lparr>pq_streams_by_prio := (pq_streams_by_prio ?q2)[?i := map fst (?a ! ?i) @ [?s]]\<rparr> else q3a)"
  define q3 where "q3 = (if ?t < 0 \<or> int ?i < ?t then q3b\<lparr>pq_top_active_prio_level := int ?i\<rparr> else q3b)"
  have q3: "pq_streams q3 = (pq_streams ?q2)(?s \<mapsto> sq')"
      "pq_streams_by_prio q3 = (if ?s \<notin> fst ` set (?a ! ?i) then (pq_streams_by_prio ?q2)[?i := map fst (?a ! ?i) @ [?s]] else pq_streams_by_prio ?q2)"
      "pq_top_active_prio_level q3 = (if ?t < 0 \<or> int ?i < ?t then int ?i else ?t)" "frame0 ?q2 q3"
      "account (b, {#}) q3 M \<longleftrightarrow> account (b, {#}) q3a M" for M
    using same(5) by (simp_all add: q3_def q3b_def q3a_def frame0_def)
  have "Push q now packet = Some (cull_streams q3 now)"
    using assms(2) q1(1) m(1) sq sq'(1) rdq(1) same(5) pause unfolding q0_def q3_def q3b_def q3a_def
    by (cases "pq_streams q ?s"; cases "?s \<in> fst ` set (?a ! ?i)"; cases "?t < 0 \<or> int ?i < ?t")
      (simp_all add: Push_def Let_def queued_def split del: if_split)
  moreover have "queue_inv (b, {#}) q3 (rr_push ?i ?s ?p ?a)"
  proof -
    obtain R where R: "mset (packets_of ?a) = mset (flat (?a ! ?i)) + R" "\<And>lev. mset (packets_of (?a[?i := lev])) = mset (flat lev) + R"
      using packets_of_split [of ?i ?a] len(1) by auto
    have "account (b, {#}) q3 (mset (packets_of (rr_push ?i ?s ?p ?a)))"
      using m(2) unfolding q3(5) q3a_def rr_push_def R(2) flat_push [OF rdq(2)] by (simp add: R(1))
    moreover have "is_top (pq_top_active_prio_level q3) (rr_push ?i ?s ?p ?a)"
    proof -
      have "no_empty (rr_push ?i ?s ?p ?a)" by (rule no_empty_push [OF len(2)]) (use len(1) in simp)
      moreover have "rr_push ?i ?s ?p ?a ! ?i \<noteq> []" using len(1) by (simp add: rr_push_def rr_push_level_neq)
      moreover have "\<forall>j < length a. j \<noteq> ?i \<longrightarrow> rr_push ?i ?s ?p ?a ! j = a ! j" "length (rr_push ?i ?s ?p ?a) = length a" "?i < length a"
        using queue_core_length [OF core] by (simp_all add: rr_push_def rr_purge_def)
      moreover have "is_top ?t a" "no_empty a" using assms(1) queue_core_length [OF core] by (simp_all add: queue_inv_def)
      ultimately show ?thesis unfolding q3(3) by (intro is_top_push)
    qed
    ultimately show ?thesis
      using sq'(2) no_empty_push [OF len(2)] len(1) core2 q3(4) by (simp add: queue_inv_def queue_core_def q3(1,2) frame0_def)
  qed
  ultimately show ?thesis
    using cull_ok [of "(b, {#})" q3] assms(2) same q0(1,4) q1(2) q3(4) pause
    by (simp add: rr_enqueue_def prio_of_def Let_def cull_streams_def frame_def frame0_def)
qed

section \<open>Removing a source\<close>

lemma dequeue_packets_ok:
  "account mode q (mset ps + M) \<Longrightarrow> \<exists>q'. dequeue_packets ps q = Some q' \<and> account mode q' M \<and> frame q q' \<and>
    pq_streams q' = pq_streams q \<and> pq_streams_by_prio q' = pq_streams_by_prio q"
proof (induction ps arbitrary: q)
  case (Cons p ps)
  obtain t q1 where q1: "DequeuePacketInternal q p = Some (t, q1)" "account mode q1 (mset ps + M)" "frame q q1"
      "pq_streams q1 = pq_streams q" "pq_streams_by_prio q1 = pq_streams_by_prio q"
    using account_dequeue [of mode q p "mset ps + M"] Cons.prems by auto
  obtain q2 where "dequeue_packets ps q1 = Some q2" "account mode q2 M" "frame q1 q2" "pq_streams q2 = pq_streams q1"
      "pq_streams_by_prio q2 = pq_streams_by_prio q1"
    using Cons.IH [OF q1(2)] by blast
  then show ?case using q1 frame_trans [OF q1(3)] by simp
qed simp

definition without :: "u32 \<Rightarrow> rr_level \<Rightarrow> rr_level" where
  "without s lev = filter (\<lambda>(s', ps). s' \<noteq> s) lev"

lemma without_simps [simp]: "without s [] = []" "without s (x # lev) = (if fst x = s then without s lev else x # without s lev)"
  by (auto simp: without_def split: prod.splits)

lemma without_other: "s \<notin> fst ` set lev \<Longrightarrow> without s lev = lev"
  by (induction lev) auto

lemma map_fst_without: "map fst (without s lev) = filter (\<lambda>s'. s' \<noteq> s) (map fst lev)"
  by (induction lev) auto

lemma flat_without: "distinct (map fst lev) \<Longrightarrow> mset (flat lev) = mset (entries lev s) + mset (flat (without s lev))"
proof (induction lev)
  case (Cons x lev)
  show ?case
  proof (cases "fst x = s")
    case True
    then have "s \<notin> fst ` set lev" using Cons.prems by auto
    then show ?thesis using True by (cases x) (simp add: without_other)
  next
    case False
    have "mset (flat lev) = mset (entries lev s) + mset (flat (without s lev))" using Cons by simp
    then show ?thesis using False by (cases x) simp
  qed
qed simp

lemma entries_without: "entries (without s lev) r = (if r = s then [] else entries lev r)"
  by (induction lev) auto

lemma remove_level_ok:
  assumes "rd (pq_streams_by_prio q) i = Some (map fst lev)" and "distinct (map fst lev)" and "\<forall>(s, ps) \<in> set lev. ps \<noteq> []"
    and "account mode q (mset (flat lev) + M)"
  shows "\<exists>q'. remove_level s (i, entries lev s) q = Some q' \<and> account mode q' (mset (flat (without s lev)) + M) \<and> frame q q' \<and>
    pq_streams q' = pq_streams q \<and> pq_streams_by_prio q' = (pq_streams_by_prio q)[i := map fst (without s lev)]"
proof (cases "s \<in> fst ` set lev")
  case False
  then show ?thesis using assms by (simp add: remove_level_def without_other rd_eq_Some_iff)
next
  case True
  then obtain ps where ps: "map_of lev s = Some ps" by (metis map_of_eq_None_iff not_None_eq)
  then have e: "entries lev s \<noteq> []" using assms(3) map_of_SomeD [OF ps] by (auto simp: entries_def)
  obtain q1 where q1: "dequeue_packets (entries lev s) q = Some q1" "account mode q1 (mset (flat (without s lev)) + M)" "frame q q1"
      "pq_streams q1 = pq_streams q" "pq_streams_by_prio q1 = pq_streams_by_prio q"
    using dequeue_packets_ok [of mode q "entries lev s" "mset (flat (without s lev)) + M"] assms(4) flat_without [OF assms(2), of s]
    by (auto simp: ac_simps)
  have one: "tl (map fst lev) = map fst (without s lev)" if "length (map fst lev) = 1"
    using that True by (cases lev) auto
  have "(if length (map fst lev) = 1 then tl (map fst lev) else filter (\<lambda>s'. s' \<noteq> s) (map fst lev)) = map fst (without s lev)"
    using one by (simp add: map_fst_without)
  then show ?thesis using e q1 assms(1) by (simp add: remove_level_def del: length_map)
qed

lemma rr_remove_nth: "i < length a \<Longrightarrow> rr_remove s a ! i = without s (a ! i)"
  by (simp add: rr_remove_def without_def)

lemma remove_levels_ok:
  assumes "\<forall>i < length a. distinct (map fst (a ! i))" and "no_empty a" and "k + n = length a"
    and "pq_streams_by_prio q = map (map fst) (take k (rr_remove s a) @ drop k a)"
    and "account mode q (mset (packets_of (take k (rr_remove s a) @ drop k a)))"
  shows "\<exists>q'. foldM (remove_level s) (map (\<lambda>i. (i, entries (a ! i) s)) [k..<k + n]) q = Some q' \<and>
    account mode q' (mset (packets_of (rr_remove s a))) \<and> frame q q' \<and>
    pq_streams q' = pq_streams q \<and> pq_streams_by_prio q' = map (map fst) (rr_remove s a)"
  using assms(3-)
proof (induction n arbitrary: k q)
  case 0
  then show ?case by (simp add: rr_remove_def)
next
  case (Suc n)
  let ?r = "rr_remove s a" and ?a = "take k (rr_remove s a) @ drop k a"
  have k: "k < length a" "length ?r = length a" using Suc.prems(1) by (auto simp: rr_remove_def)
  have d: "drop k a = a ! k # drop (Suc k) a" "take (Suc k) ?r = take k ?r @ [?r ! k]"
    using k by (simp_all add: Cons_nth_drop_Suc take_Suc_conv_app_nth)
  let ?M = "mset (packets_of (take k ?r)) + mset (packets_of (drop (Suc k) a))"
  have acc: "account mode q (mset (flat (a ! k)) + ?M)" using Suc.prems(3) by (simp add: d packets_of_def ac_simps)
  have rd: "rd (pq_streams_by_prio q) k = Some (map fst (a ! k))" using Suc.prems(2) k by (simp add: nth_append d)
  have ne: "\<forall>(s, ps) \<in> set (a ! k). ps \<noteq> []" using assms(2) nth_mem [OF k(1)] by (auto simp: no_empty_def)
  obtain q1 where q1: "remove_level s (k, entries (a ! k) s) q = Some q1" "account mode q1 (mset (flat (without s (a ! k))) + ?M)" "frame q q1"
      "pq_streams q1 = pq_streams q" "pq_streams_by_prio q1 = (pq_streams_by_prio q)[k := map fst (without s (a ! k))]"
    using remove_level_ok [OF rd _ ne acc, of s] assms(1) k(1) by blast
  have bp: "pq_streams_by_prio q1 = map (map fst) (take (Suc k) ?r @ drop (Suc k) a)"
    using q1(5) Suc.prems(2) k by (simp add: d list_update_append rr_remove_nth)
  have acc1: "account mode q1 (mset (packets_of (take (Suc k) ?r @ drop (Suc k) a)))"
    using q1(2) k by (simp add: d packets_of_def rr_remove_nth ac_simps)
  have "Suc k + n = length a" using Suc.prems(1) by simp
  then obtain q2 where q2: "foldM (remove_level s) (map (\<lambda>i. (i, entries (a ! i) s)) [Suc k..<Suc k + n]) q1 = Some q2"
      "account mode q2 (mset (packets_of ?r))" "frame q1 q2" "pq_streams q2 = pq_streams q1" "pq_streams_by_prio q2 = map (map fst) ?r"
    using Suc.IH [OF _ bp acc1] by blast
  have "[k..<k + Suc n] = k # [Suc k..<Suc k + n]" by (simp add: upt_rec)
  then show ?case using q1 q2 frame_trans [OF q1(3) q2(3)] by simp
qed

lemma shape_remove:
  assumes "shape st bp a" and "st s = Some sq"
  shows "shape (st(s \<mapsto> snd (DequeueAll sq))) (map (map fst) (rr_remove s a)) (rr_remove s a)"
proof -
  let ?st = "st(s \<mapsto> snd (DequeueAll sq))"
  have l: "length a = kNumPriorityLevels" "length (rr_remove s a) = length a" using assms(1) by (simp_all add: shape_def rr_remove_def)
  have "\<forall>x \<in> ran ?st. stream_ok x" using assms(1) by (auto simp: shape_def ran_def DequeueAll_def stream_ok_def)
  moreover have "distinct (map fst (rr_remove s a ! i)) \<and> fst ` set (rr_remove s a ! i) \<subseteq> dom ?st \<and>
      (\<forall>r. stream_level ?st i r = entries (rr_remove s a ! i) r)" if "i < kNumPriorityLevels" for i
  proof (intro conjI allI)
    have "fst ` set (a ! i) \<subseteq> dom st" using assms(1) that by (simp add: shape_def)
    then show "fst ` set (rr_remove s a ! i) \<subseteq> dom ?st" using that l by (auto simp: rr_remove_nth without_def)
    show "distinct (map fst (rr_remove s a ! i))" using assms(1) that l by (simp add: rr_remove_nth map_fst_without shape_def)
    show "stream_level ?st i r = entries (rr_remove s a ! i) r" for r
      using assms(1) that l by (simp add: rr_remove_nth entries_without shape_def stream_level_def DequeueAll_def)
  qed
  ultimately show ?thesis using l by (simp add: shape_def)
qed

lemma RemovePackets_ok:
  assumes "queue_inv mode q a"
  shows "\<exists>q'. RemovePacketsForSsrc q s = Some q' \<and> frame0 q q' \<and>
    queue_inv mode q' (rr_top (pq_time_to_live_per_prio q) (pq_last_update_time q) (pq_top_active_prio_level q) (rr_remove s a))"
proof -
  let ?r = "rr_remove s a" and ?t = "pq_top_active_prio_level q"
  note core = assms [unfolded queue_inv_def, THEN conjunct1]
  have l: "length a = kNumPriorityLevels" "no_empty a" "pq_streams_by_prio q = map (map fst) a" using queue_core_length [OF core] by auto
  have shape: "shape (pq_streams q) (pq_streams_by_prio q) a" using core by (simp add: queue_core_def)
  have ne: "no_empty ?r" using l(2) by (auto simp: no_empty_def rr_remove_def)
  have top: "?t = -1 \<or> (\<exists>i < kNumPriorityLevels. ?t = int i \<and> (\<forall>j < i. ?r ! j = []))"
    using assms l(1) by (auto simp: queue_inv_def is_top_def rr_remove_nth split: if_splits)
  obtain q1 where q1: "(case pq_streams q s of None \<Rightarrow> Some q | Some sq \<Rightarrow> (case DequeueAll sq of (packets_by_prio, sq) \<Rightarrow>
        foldM (remove_level s) (zip [0..<kNumPriorityLevels] packets_by_prio) (q\<lparr>pq_streams := (pq_streams q)(s \<mapsto> sq)\<rparr>))) = Some q1"
      "queue_core mode q1 ?r" "frame q q1"
  proof (cases "pq_streams q s")
    case None
    have "s \<notin> fst ` set lev" if lev: "lev \<in> set a" for lev
    proof -
      obtain i where "i < kNumPriorityLevels" "lev = a ! i" using lev l(1) by (auto simp: in_set_conv_nth)
      then have "fst ` set lev \<subseteq> dom (pq_streams q)" using shape by (simp add: shape_def)
      then show ?thesis using None by (meson domIff in_mono)
    qed
    then have "?r = a" using without_other by (auto simp: rr_remove_def without_def [symmetric] intro!: map_idI)
    then show ?thesis using that None core by simp
  next
    case (Some sq)
    let ?q = "q\<lparr>pq_streams := (pq_streams q)(s \<mapsto> snd (DequeueAll sq))\<rparr>"
    have sq: "length (sq_packets sq) = kNumPriorityLevels" using shape Some by (auto simp: shape_def ran_def stream_ok_def)
    have "sq_packets sq ! i = entries (a ! i) s" if "i < kNumPriorityLevels" for i
      using shape that stream_level_Some [of "pq_streams q" s sq i] Some by (simp add: shape_def)
    then have z: "zip [0..<kNumPriorityLevels] (sq_packets sq) = map (\<lambda>i. (i, entries (a ! i) s)) [0..<kNumPriorityLevels]"
      using sq by (intro nth_equalityI) auto
    obtain q1 where "foldM (remove_level s) (map (\<lambda>i. (i, entries (a ! i) s)) [0..<kNumPriorityLevels]) ?q = Some q1"
        "account mode q1 (mset (packets_of ?r))" "frame ?q q1" "pq_streams q1 = pq_streams ?q" "pq_streams_by_prio q1 = map (map fst) ?r"
    proof -
      have d: "\<forall>i < length a. distinct (map fst (a ! i))" using shape by (simp add: shape_def)
      have "account mode ?q (mset (packets_of (take 0 ?r @ drop 0 a)))" using core by (simp add: queue_core_def)
      then show thesis using that remove_levels_ok [OF d l(2), of 0 kNumPriorityLevels ?q s mode] l(1,3) by auto
    qed
    then show ?thesis using that [of q1] Some z shape_remove [OF shape Some] core ne
      by (simp add: DequeueAll_def queue_core_def frame_def frame0_def)
  qed
  obtain q' where "MaybeUpdateTopPrioLevel q1 = Some q'" "frame0 q1 q'"
      "queue_inv mode q' (rr_top (pq_time_to_live_per_prio q1) (pq_last_update_time q1) (pq_top_active_prio_level q1) ?r)"
    using MaybeUpdateTop_ok [OF q1(2)] top q1(3) by (auto simp: frame_def)
  then show ?thesis using q1(1,3) by (simp add: RemovePacketsForSsrc_def frame_def frame0_def)
qed

end
