(* ===== verification/PacketQueueProps.thy ===== *)
theory PacketQueueProps
  imports PacketQueueSpec
begin

text \<open>
  Runs of the queue of the pacer: it never faults and its bookkeeping is exact, it refines the
  specification by lists, packets leave by priority and in turns, and the time in the queue is
  the time that was not paused.
\<close>

section \<open>Runs\<close>

datatype QueueOp = OpPush timestamp RtpPacketToSend | OpPop | OpRemove u32 | OpPause bool timestamp | OpUpdate timestamp

type_synonym queue_run = "RtpPacketToSend list \<times> PrioritizedPacketQueue"

fun run_op :: "QueueOp \<Rightarrow> queue_run \<Rightarrow> queue_run option" where
  "run_op (OpPush now packet) (out, q) = map_option (Pair out) (Push q now packet)"
| "run_op OpPop (out, q) = map_option (\<lambda>(t, q). (out @ (case t of None \<Rightarrow> [] | Some t \<Rightarrow> [t]), q)) (Pop q)"
| "run_op (OpRemove ssrc) (out, q) = map_option (Pair out) (RemovePacketsForSsrc q ssrc)"
| "run_op (OpPause paused now) (out, q) = Some (out, SetPauseState q paused now)"
| "run_op (OpUpdate now) (out, q) = Some (out, UpdateAverageQueueTime q now)"

fun typed_op :: "QueueOp \<Rightarrow> bool" where
  "typed_op (OpPush now packet) = (ts_packet_type packet \<noteq> None)"
| "typed_op _ = True"

text \<open>The levels of a queue.\<close>

definition levels :: "PrioritizedPacketQueue \<Rightarrow> rr_queue" where
  "levels q = map (\<lambda>i. map (\<lambda>s. (s, stream_level (pq_streams q) i s)) (pq_streams_by_prio q ! i)) [0..<kNumPriorityLevels]"

lemma queue_core_levels: "queue_core mode q a \<Longrightarrow> levels q = a"
proof -
  assume q: "queue_core mode q a"
  then have a: "length a = kNumPriorityLevels" "pq_streams_by_prio q = map (map fst) a"
    "\<forall>i < kNumPriorityLevels. distinct (map fst (a ! i)) \<and> (\<forall>s. stream_level (pq_streams q) i s = entries (a ! i) s)"
    by (auto simp: queue_core_def shape_def)
  have "map (\<lambda>s. (s, entries lev s)) (map fst lev) = lev" if "distinct (map fst lev)" for lev
    using that by (auto simp: entries_def intro!: map_idI)
  then show "levels q = a" using a by (intro nth_equalityI) (auto simp: levels_def)
qed

lemma queue_inv_levels: "queue_inv mode q a \<Longrightarrow> queue_inv mode q (levels q)"
  using queue_core_levels [of mode q a] by (simp add: queue_inv_def)

text \<open>A packet waits in the list of its source, at the level of its type.\<close>

definition waiting_at :: "rr_queue \<Rightarrow> nat \<Rightarrow> u32 \<Rightarrow> QueuedPacket \<Rightarrow> bool" where
  "waiting_at a i s p \<longleftrightarrow> i < length a \<and> (\<exists>ps. (s, ps) \<in> set (a ! i) \<and> p \<in> set ps)"

definition placed :: "bool \<Rightarrow> rr_queue \<Rightarrow> bool" where
  "placed separate a \<longleftrightarrow> (\<forall>i s p. waiting_at a i s p \<longrightarrow> rp_ssrc (ts_packet (qp_packet p)) = s \<and> prio_of separate (qp_packet p) = i)"

definition fewer :: "rr_queue \<Rightarrow> rr_queue \<Rightarrow> bool" where
  "fewer a' a \<longleftrightarrow> (\<forall>i s p. waiting_at a' i s p \<longrightarrow> waiting_at a i s p)"

lemma fewer_refl [simp]: "fewer a a" by (simp add: fewer_def)
lemma fewer_trans: "fewer a b \<Longrightarrow> fewer b c \<Longrightarrow> fewer a c" by (simp add: fewer_def)
lemma placed_fewer: "fewer a' a \<Longrightarrow> placed b a \<Longrightarrow> placed b a'" unfolding fewer_def placed_def by blast

lemma waiting_at_update: "waiting_at (a[i := lev]) j s p \<longleftrightarrow>
    (if i = j then j < length a \<and> (\<exists>ps. (s, ps) \<in> set lev \<and> p \<in> set ps) else waiting_at a j s p)"
proof (cases "i = j")
  case True
  then show ?thesis by (cases "j < length a") (simp_all add: waiting_at_def)
qed (simp add: waiting_at_def)

lemma fewer_update:
  assumes "\<And>s ps' p. (s, ps') \<in> set lev \<Longrightarrow> p \<in> set ps' \<Longrightarrow> \<exists>ps. (s, ps) \<in> set (a ! i) \<and> p \<in> set ps"
  shows "fewer (a[i := lev]) a"
  unfolding fewer_def waiting_at_update using assms by (auto simp: waiting_at_def)

lemma fewer_purge: "fewer (rr_purge ttls i now a) a"
  unfolding rr_purge_def
  by (rule fewer_update) (auto simp: rr_purge_level_def split: if_splits dest: set_dropWhileD)

lemma fewer_settle: "fewer (rr_settle ttls now is a) a"
proof (induction "is" arbitrary: a)
  case (Cons i "is")
  from fewer_trans [OF Cons fewer_purge] show ?case using fewer_purge by (simp add: Let_def)
qed simp

lemma fewer_top: "fewer (rr_top ttls now t a) a"
  by (simp add: rr_top_def fewer_settle)

lemma fewer_pop: "fewer (rr_pop ttls now t a) a"
proof -
  have "fewer (a[nat t := rr_pop_level (a ! nat t)]) a"
    by (rule fewer_update, cases "a ! nat t" rule: rr_pop_level.cases) (auto split: if_splits)
  from fewer_trans [OF fewer_top this] show ?thesis by (simp add: rr_pop_def)
qed

lemma fewer_remove: "fewer (rr_remove s a) a"
  by (auto simp: fewer_def waiting_at_def rr_remove_def)

lemma waiting_at_push: "waiting_at (rr_push i s p a) j r x \<Longrightarrow> waiting_at a j r x \<or> j = i \<and> r = s \<and> x = p"
  unfolding rr_push_def waiting_at_update by (auto simp: rr_push_level_def upd_def waiting_at_def split: if_splits)

lemma placed_enqueue:
  assumes "placed (pq_prioritize_audio_retransmission q) a"
  shows "placed (pq_prioritize_audio_retransmission q) (rr_enqueue q now packet a)"
  using placed_fewer [OF fewer_purge assms] unfolding placed_def rr_enqueue_def Let_def
  by (auto dest!: waiting_at_push simp: queued_def)

section \<open>Every run is safe\<close>

definition run_inv :: "mode \<Rightarrow> bool \<Rightarrow> time_delta list \<Rightarrow> queue_run \<Rightarrow> bool" where
  "run_inv mode separate ttls r \<longleftrightarrow> (\<exists>a. queue_inv mode (snd r) a \<and> placed separate a) \<and>
     pq_prioritize_audio_retransmission (snd r) = separate \<and> pq_time_to_live_per_prio (snd r) = ttls"

lemma Pop_empty: "queue_inv mode q a \<Longrightarrow> packets_of a = [] \<Longrightarrow> Pop q = Some (None, q)"
  using queue_core_size [of mode q a] by (simp add: Pop_def queue_inv_def)

lemma run_op_inv:
  assumes "run_inv (False, {#}) separate ttls r" and "typed_op e"
  shows "\<exists>r'. run_op e r = Some r' \<and> run_inv (False, {#}) separate ttls r'"
proof -
  obtain out q where r: "r = (out, q)" by (cases r)
  obtain a where a: "queue_inv (False, {#}) q a" "placed separate a" "pq_prioritize_audio_retransmission q = separate"
      "pq_time_to_live_per_prio q = ttls" using assms(1) by (auto simp: run_inv_def r)
  show ?thesis
  proof (cases e)
    case (OpPush now packet)
    then obtain ty where "ts_packet_type packet = Some ty" using assms(2) by auto
    from Push_ok [OF a(1) this, of now] placed_enqueue [of q a now packet] a
    show ?thesis by (auto simp: OpPush r run_inv_def)
  next
    case OpPop
    show ?thesis
    proof (cases "packets_of a = []")
      case True
      then show ?thesis using Pop_empty [OF a(1)] a by (auto simp: OpPop r run_inv_def)
    next
      case False
      obtain t q' where "Pop q = Some (Some t, q')" "frame0 q q'"
          "queue_inv (False, {#}) q' (rr_pop (pq_time_to_live_per_prio q) (pq_last_update_time q) (pq_top_active_prio_level q) a)"
        using Pop_ok [OF a(1) False] by metis
      then show ?thesis using a placed_fewer [OF fewer_pop a(2)] by (auto simp: OpPop r run_inv_def frame0_def)
    qed
  next
    case (OpRemove s)
    from RemovePackets_ok [OF a(1), of s] obtain q' where "RemovePacketsForSsrc q s = Some q'" "frame0 q q'"
        "queue_inv (False, {#}) q' (rr_top (pq_time_to_live_per_prio q) (pq_last_update_time q) (pq_top_active_prio_level q) (rr_remove s a))" by blast
    then show ?thesis using a placed_fewer [OF fewer_trans [OF fewer_top fewer_remove] a(2)]
      by (auto simp: OpRemove r run_inv_def frame0_def)
  next
    case (OpPause b now)
    then show ?thesis using SetPauseState_ok(2) [OF a(1), of now b] a by (auto simp: r run_inv_def SetPauseState_def)
  next
    case (OpUpdate now)
    then show ?thesis using SetPauseState_ok(1) [OF a(1), of now] a by (auto simp: r run_inv_def)
  qed
qed

lemma new_queue_inv:
  assumes "b \<longrightarrow> 0 \<le> t \<and> t < 2 ^ 45"
  shows "queue_inv (b, {#}) (new_PrioritizedPacketQueue t separate ttl) (replicate kNumPriorityLevels [])"
proof -
  have p: "packets_of (replicate n []) = []" for n by (induction n) (simp_all add: packets_of_def)
  show ?thesis unfolding queue_inv_def queue_core_def is_top_def p using assms
    by (simp add: new_PrioritizedPacketQueue_def shape_def stream_level_def no_empty_def account_def counts_def ledger_def
      ToTtlPerPrio_def map_replicate_const)
qed

section \<open>The order of the packets\<close>

text \<open>One packet of each source that has one, in the order of the sources, round after round.\<close>

definition round_of :: "nat \<Rightarrow> rr_level \<Rightarrow> QueuedPacket list" where
  "round_of r lev = map (\<lambda>(s, ps). ps ! r) (filter (\<lambda>(s, ps). r < length ps) lev)"

definition rounds :: "rr_level \<Rightarrow> QueuedPacket list" where
  "rounds lev = concat (map (\<lambda>r. round_of r lev) [0..<length (flat lev)])"

definition service_order :: "rr_queue \<Rightarrow> QueuedPacket list" where
  "service_order a = concat (map rounds a)"

lemma round_of_long: "length (flat lev) \<le> r \<Longrightarrow> round_of r lev = []"
  by (induction lev) (auto simp: round_of_def)

lemma round_of_append [simp]: "round_of r (lev @ lev') = round_of r lev @ round_of r lev'"
  by (simp add: round_of_def)

lemma rounds_enough:
  assumes "length (flat lev) \<le> n"
  shows "concat (map (\<lambda>r. round_of r lev) [0..<n]) = rounds lev"
proof -
  have "[0..<n] = [0..<length (flat lev)] @ [length (flat lev)..<n]" using assms by (metis le_add_diff_inverse upt_add_eq_append zero_le)
  moreover have "concat (map (\<lambda>r. round_of r lev) [length (flat lev)..<n]) = []" using round_of_long by auto
  ultimately show ?thesis by (simp add: rounds_def)
qed

lemma rotate_concat: "concat (map (\<lambda>r. b r @ A r) [0..<n]) @ b n = b 0 @ concat (map (\<lambda>r. A r @ b (Suc r)) [0..<n])"
  by (induction n) auto

lemma rounds_pop: "rounds ((s, p # ps) # lev) = p # rounds (rr_pop_level ((s, p # ps) # lev))"
proof -
  let ?b = "\<lambda>r. round_of r [(s, p # ps)]" and ?A = "\<lambda>r. round_of r lev" and ?n = "length (p # ps) + length (flat lev)"
  have h: "round_of r ((s, p # ps) # lev) = ?b r @ ?A r" for r by (simp add: round_of_def)
  have t: "round_of r (rr_pop_level ((s, p # ps) # lev)) = ?A r @ ?b (Suc r)" for r by (simp add: round_of_def)
  have "rounds ((s, p # ps) # lev) = concat (map (\<lambda>r. ?b r @ ?A r) [0..<?n]) @ ?b ?n"
    using round_of_long [of "[(s, p # ps)]" ?n] by (simp add: rounds_def h del: upt_Suc)
  also have "\<dots> = ?b 0 @ concat (map (\<lambda>r. ?A r @ ?b (Suc r)) [0..<?n])" by (rule rotate_concat)
  also have "\<dots> = p # rounds (rr_pop_level ((s, p # ps) # lev))"
    unfolding t [symmetric] by (subst rounds_enough) (auto simp: round_of_def)
  finally show ?thesis .
qed

definition unstamped :: "RtpPacketToSend \<Rightarrow> RtpPacketToSend" where
  "unstamped t = t\<lparr>ts_time_in_send_queue := None\<rparr>"

lemma infinite_settle:
  assumes "\<forall>i < length a. IsInfinite (ttls ! i)" and "set is \<subseteq> {..<length a}"
  shows "rr_settle ttls now is a = a"
  using assms(2) by (induction "is") (auto simp: rr_purge_def rr_purge_level_def assms(1) Let_def)

lemma infinite_pop:
  assumes "\<forall>i < length a. IsInfinite (ttls ! i)" and "length a = kNumPriorityLevels"
  shows "rr_pop ttls now t a = a[nat t := rr_pop_level (a ! nat t)]"
  using infinite_settle [of "a[nat t := rr_pop_level (a ! nat t)]" ttls "[0..<kNumPriorityLevels]" now] assms
  by (simp add: rr_pop_def rr_top_def atLeast0LessThan)

lemma service_order_pop:
  assumes "i < length a" and "a ! i = (s, p # ps) # rest" and "\<forall>j < i. a ! j = []"
  shows "service_order a = p # service_order (a[i := rr_pop_level (a ! i)])"
proof -
  have z: "concat (map rounds (take i a)) = []"
    using assms(1,3) by (auto simp: in_set_conv_nth rounds_def)
  have "service_order (a[i := lev]) = rounds lev @ concat (map rounds (drop (Suc i) a))" for lev
    using assms(1) z by (simp add: service_order_def upd_conv_take_nth_drop)
  from this [of "a ! i"] this [of "rr_pop_level (a ! i)"] show ?thesis
    unfolding list_update_id by (simp only: assms(2) rounds_pop append_Cons)
qed

lemma queue_inv_length: "queue_inv mode q a \<Longrightarrow> length a = kNumPriorityLevels"
  using queue_core_length [of mode q a] by (simp add: queue_inv_def)

lemma pops_in_order:
  assumes "queue_inv mode q a" and "\<forall>i < kNumPriorityLevels. IsInfinite (pq_time_to_live_per_prio q ! i)"
  shows "\<exists>ts q'. foldM run_op (replicate (length (service_order a)) OpPop) (out, q) = Some (out @ ts, q') \<and>
    map unstamped ts = map (\<lambda>p. unstamped (qp_packet p)) (service_order a) \<and> Pop q' = Some (None, q')"
  using assms
proof (induction "length (service_order a)" arbitrary: q a out)
  case 0
  have "packets_of a = []"
  proof (rule ccontr)
    assume "packets_of a \<noteq> []"
    then obtain i s p ps rest where i: "i < kNumPriorityLevels" "a ! i = (s, p # ps) # rest" "\<forall>j < i. a ! j = []"
      using Pop_ok [OF 0(2)] by metis
    moreover have "i < length a" using i(1) queue_inv_length [OF 0(2)] by simp
    ultimately show False using 0(1) service_order_pop [of i a s p ps rest] by simp
  qed
  then show ?case using Pop_empty [OF 0(2)] 0(1) by simp
next
  case (Suc n)
  have l: "length a = kNumPriorityLevels" using queue_inv_length [OF Suc.prems(1)] .
  have "packets_of a \<noteq> []"
  proof
    assume "packets_of a = []"
    then have "\<forall>lev \<in> set a. flat lev = []" by (simp add: packets_of_def)
    then have "service_order a = []" by (simp add: service_order_def rounds_def)
    then show False using Suc(2) by simp
  qed
  then obtain i s p ps rest t q' where i: "i < kNumPriorityLevels" "pq_top_active_prio_level q = int i" "a ! i = (s, p # ps) # rest" "\<forall>j < i. a ! j = []"
      and q': "Pop q = Some (Some t, q')" "frame0 q q'" "t = (qp_packet p)\<lparr>ts_time_in_send_queue := ts_time_in_send_queue t\<rparr>"
        "queue_inv mode q' (rr_pop (pq_time_to_live_per_prio q) (pq_last_update_time q) (pq_top_active_prio_level q) a)"
    using Pop_ok [OF Suc.prems(1)] by metis
  let ?a = "a[i := rr_pop_level (a ! i)]"
  have a: "rr_pop (pq_time_to_live_per_prio q) (pq_last_update_time q) (pq_top_active_prio_level q) a = ?a"
    using infinite_pop [of a "pq_time_to_live_per_prio q"] Suc.prems(2) l i(2) by simp
  have so: "service_order a = p # service_order ?a" using service_order_pop [OF _ i(3,4)] i(1) l by simp
  obtain ts q2 where ts: "foldM run_op (replicate n OpPop) (out @ [t], q') = Some ((out @ [t]) @ ts, q2)"
      "map unstamped ts = map (\<lambda>p. unstamped (qp_packet p)) (service_order ?a)" "Pop q2 = Some (None, q2)"
    using Suc(1) [of ?a q' "out @ [t]"] Suc(2) so q'(2,4) Suc.prems(2) unfolding a by (auto simp: frame0_def)
  have "unstamped t = unstamped (qp_packet p)" by (subst q'(3)) (simp add: unstamped_def)
  then show ?case using ts q'(1) so Suc(2) by (intro exI [of _ "t # ts"] exI [of _ q2]) simp
qed

lemma run_safe:
  assumes "list_all typed_op ops"
  shows "\<exists>r. foldM run_op ops ([], new_PrioritizedPacketQueue t separate ttl) = Some r \<and> run_inv (False, {#}) separate (ToTtlPerPrio ttl) r"
proof -
  have "placed separate (replicate n [])" for n by (auto simp: placed_def waiting_at_def)
  then have "run_inv (False, {#}) separate (ToTtlPerPrio ttl) ([], new_PrioritizedPacketQueue t separate ttl)"
    using new_queue_inv [of False t separate ttl] unfolding run_inv_def by (auto simp: new_PrioritizedPacketQueue_def)
  then show ?thesis using assms
  proof (induction ops rule: rev_induct)
    case (snoc e ops)
    then show ?case using run_op_inv [of separate "ToTtlPerPrio ttl" _ e] by fastforce
  qed simp
qed

lemma default_ttl: "ToTtlPerPrio default_PacketQueueTTL = replicate kNumPriorityLevels PlusInfinity"
  by code_simp

text \<open>Every operation acts on the levels as the specification says, with the times that were stored.\<close>

lemma levels_refine:
  assumes "queue_inv (False, {#}) q (levels q)"
  shows "(ts_packet_type packet \<noteq> None \<longrightarrow> (\<exists>q'. Push q now packet = Some q' \<and> levels q' = rr_enqueue q now packet (levels q))) \<and>
    (packets_of (levels q) = [] \<longrightarrow> Pop q = Some (None, q)) \<and>
    (packets_of (levels q) \<noteq> [] \<longrightarrow> (\<exists>i s p ps rest t q'. i < kNumPriorityLevels \<and> (\<forall>j < i. levels q ! j = []) \<and>
      levels q ! i = (s, p # ps) # rest \<and> Pop q = Some (Some t, q') \<and> unstamped t = unstamped (qp_packet p) \<and>
      levels q' = rr_pop (pq_time_to_live_per_prio q) (pq_last_update_time q) (int i) (levels q))) \<and>
    (\<exists>q'. RemovePacketsForSsrc q s = Some q' \<and> levels q' =
      rr_top (pq_time_to_live_per_prio q) (pq_last_update_time q) (pq_top_active_prio_level q) (rr_remove s (levels q))) \<and>
    levels (SetPauseState q paused now) = levels q \<and> levels (UpdateAverageQueueTime q now) = levels q"
proof (intro conjI impI)
  let ?m = "(False, {#}) :: mode"
  have lv: "levels q' = a" if "queue_inv ?m q' a" for q' a using that queue_core_levels [of ?m q' a] by (simp add: queue_inv_def)
  show "\<exists>q'. Push q now packet = Some q' \<and> levels q' = rr_enqueue q now packet (levels q)" if "ts_packet_type packet \<noteq> None"
    using that Push_ok [OF assms, of packet _ now] lv by fastforce
  show "Pop q = Some (None, q)" if "packets_of (levels q) = []" using Pop_empty [OF assms that] .
  show "\<exists>i s p ps rest t q'. i < kNumPriorityLevels \<and> (\<forall>j < i. levels q ! j = []) \<and>
      levels q ! i = (s, p # ps) # rest \<and> Pop q = Some (Some t, q') \<and> unstamped t = unstamped (qp_packet p) \<and>
      levels q' = rr_pop (pq_time_to_live_per_prio q) (pq_last_update_time q) (int i) (levels q)" if ne: "packets_of (levels q) \<noteq> []"
  proof -
    obtain i s p ps rest t q' where i: "i < kNumPriorityLevels" "pq_top_active_prio_level q = int i" "levels q ! i = (s, p # ps) # rest"
        "\<forall>j < i. levels q ! j = []" "Pop q = Some (Some t, q')" "t = (qp_packet p)\<lparr>ts_time_in_send_queue := ts_time_in_send_queue t\<rparr>"
        "queue_inv ?m q' (rr_pop (pq_time_to_live_per_prio q) (pq_last_update_time q) (pq_top_active_prio_level q) (levels q))"
      using Pop_ok [OF assms ne] by metis
    have "unstamped t = unstamped (qp_packet p)" by (subst i(6)) (simp add: unstamped_def)
    then show ?thesis using i lv [OF i(7)] by (intro exI [of _ i] exI [of _ s] exI [of _ p] exI [of _ ps] exI [of _ rest] exI [of _ t] exI [of _ q']) simp
  qed
  show "\<exists>q'. RemovePacketsForSsrc q s = Some q' \<and> levels q' =
      rr_top (pq_time_to_live_per_prio q) (pq_last_update_time q) (pq_top_active_prio_level q) (rr_remove s (levels q))"
    using RemovePackets_ok [OF assms, of s] lv by blast
  show "levels (SetPauseState q paused now) = levels q" "levels (UpdateAverageQueueTime q now) = levels q"
    using SetPauseState_ok [OF assms, of now] lv by auto
qed

section \<open>Runs without a pause\<close>

text \<open>
  \<open>Push\<close> stores the time of the push less the pauses so far, and the expiry compares the clock with
  what was stored. In a queue that was never paused the stored time is the time of the push.
\<close>

fun unpaused_op :: "QueueOp \<Rightarrow> bool" where
  "unpaused_op (OpPause paused now) = (\<not> paused)"
| "unpaused_op _ = True"

definition unpaused :: "PrioritizedPacketQueue \<Rightarrow> bool" where
  "unpaused q \<longleftrightarrow> pq_pause_time_sum q = 0 \<and> \<not> pq_paused q"

lemma unpaused_update: "unpaused q \<Longrightarrow> unpaused (UpdateAverageQueueTime q now)"
  by (simp add: unpaused_def UpdateAverageQueueTime_def Let_def)

lemma queued_unpaused: "unpaused q \<Longrightarrow> qp_enqueue_time (queued q now packet) = now \<and> qp_packet (queued q now packet) = packet"
  using unpaused_update [of q now] by (simp add: queued_def unpaused_def Timestamp_ops unit_sub_def infinity_defs)

lemma unpaused_frame: "frame0 q q' \<Longrightarrow> unpaused q \<Longrightarrow> unpaused q'"
  by (simp add: unpaused_def frame0_def)

lemma unpaused_step:
  assumes "queue_inv (False, {#}) q (levels q)" and "typed_op e" and "unpaused_op e" and "unpaused q"
    and "run_op e (out, q) = Some (out', q')"
  shows "unpaused q' \<and> (\<forall>i s p. waiting_at (levels q') i s p \<longrightarrow>
    waiting_at (levels q) i s p \<or> e = OpPush (qp_enqueue_time p) (qp_packet p))"
proof -
  have lv: "levels q' = a" if "queue_inv (False, {#}) q' a" for q' a
    using that queue_core_levels [of "(False, {#})" q' a] by (simp add: queue_inv_def)
  have less: "\<forall>i s p. waiting_at (levels q') i s p \<longrightarrow> waiting_at (levels q) i s p" if "fewer (levels q') (levels q)"
    using that unfolding fewer_def .
  show ?thesis
  proof (cases e)
    case (OpPush now packet)
    then obtain ty where ty: "ts_packet_type packet = Some ty" using assms(2) by auto
    have q': "unpaused q'" "levels q' = rr_enqueue q now packet (levels q)"
      using Push_ok [OF assms(1) ty, of now] lv assms(4,5) unpaused_update [OF assms(4), of now] by (auto simp: OpPush unpaused_def)
    have "waiting_at (levels q) i s p \<or> p = queued q now packet" if "waiting_at (levels q') i s p" for i s p
      using that fewer_purge unfolding q'(2) rr_enqueue_def Let_def fewer_def by (auto dest!: waiting_at_push)
    then show ?thesis using q'(1) queued_unpaused [OF assms(4), of now packet] OpPush by fastforce
  next
    case OpPop
    show ?thesis
    proof (cases "packets_of (levels q) = []")
      case True
      then show ?thesis using Pop_empty [OF assms(1)] assms(4,5) by (auto simp: OpPop)
    next
      case False
      obtain t q1 where "Pop q = Some (Some t, q1)" "frame0 q q1"
          "queue_inv (False, {#}) q1 (rr_pop (pq_time_to_live_per_prio q) (pq_last_update_time q) (pq_top_active_prio_level q) (levels q))"
        using Pop_ok [OF assms(1) False] by metis
      then show ?thesis using assms(4,5) lv unpaused_frame fewer_pop less by (auto simp: OpPop)
    qed
  next
    case (OpRemove s)
    from RemovePackets_ok [OF assms(1), of s] obtain q1 where "RemovePacketsForSsrc q s = Some q1" "frame0 q q1"
        "queue_inv (False, {#}) q1 (rr_top (pq_time_to_live_per_prio q) (pq_last_update_time q) (pq_top_active_prio_level q) (rr_remove s (levels q)))"
      by blast
    then show ?thesis using assms(4,5) lv unpaused_frame fewer_trans [OF fewer_top fewer_remove] less by (auto simp: OpRemove)
  next
    case (OpPause b now)
    then show ?thesis using SetPauseState_ok(2) [OF assms(1), of now b] lv assms(3-5) unpaused_update [OF assms(4), of now]
      by (auto simp: SetPauseState_def unpaused_def)
  next
    case (OpUpdate now)
    then show ?thesis using SetPauseState_ok(1) [OF assms(1), of now] lv assms(4,5) unpaused_update [OF assms(4), of now] by auto
  qed
qed

lemma unpaused_run:
  assumes "list_all typed_op ops" and "list_all unpaused_op ops"
    and "foldM run_op ops ([], new_PrioritizedPacketQueue t separate ttl) = Some (out, q)"
  shows "unpaused q \<and> (\<forall>i s p. waiting_at (levels q) i s p \<longrightarrow> OpPush (qp_enqueue_time p) (qp_packet p) \<in> set ops)"
  using assms
proof (induction ops arbitrary: out q rule: rev_induct)
  case Nil
  have "levels (new_PrioritizedPacketQueue t separate ttl) = replicate kNumPriorityLevels []"
    using new_queue_inv [of False t separate ttl] queue_core_levels by (auto simp: queue_inv_def)
  then show ?case using Nil.prems(3) by (auto simp: unpaused_def new_PrioritizedPacketQueue_def waiting_at_def)
next
  case (snoc e ops)
  obtain out1 q1 where r: "foldM run_op ops ([], new_PrioritizedPacketQueue t separate ttl) = Some (out1, q1)" "run_op e (out1, q1) = Some (out, q)"
    using snoc.prems(3) by (auto split: Option.bind_splits)
  have IH: "unpaused q1" "\<forall>i s p. waiting_at (levels q1) i s p \<longrightarrow> OpPush (qp_enqueue_time p) (qp_packet p) \<in> set ops"
    using snoc.IH [OF _ _ r(1)] snoc.prems(1,2) by simp_all
  have "queue_inv (False, {#}) q1 (levels q1)"
    using run_safe [of ops t separate ttl] snoc.prems(1) r(1) queue_inv_levels by (auto simp: run_inv_def)
  from unpaused_step [OF this _ _ IH(1) r(2)] snoc.prems(1,2) IH(2) show ?case by fastforce
qed

section \<open>Runs with a clock\<close>

text \<open>
  Runs whose clock does not run backwards and whose sizes stay in the bounds of \<open>ledger\<close>.
\<close>

fun in_bounds :: "PrioritizedPacketQueue \<Rightarrow> QueueOp \<Rightarrow> bool" where
  "in_bounds q (OpPush now packet) = (timely q now \<and> pq_size_packets q < 2 ^ 17 \<and> ts_packet_type packet \<noteq> None \<and>
     int (rp_payload_size (ts_packet packet) + rp_padding_size (ts_packet packet)) < 2 ^ 32)"
| "in_bounds q (OpPause paused now) = timely q now"
| "in_bounds q (OpUpdate now) = timely q now"
| "in_bounds q _ = True"

inductive timed_run :: "queue_run \<Rightarrow> bool" where
  start: "0 \<le> t \<Longrightarrow> t < 2 ^ 45 \<Longrightarrow> timed_run ([], new_PrioritizedPacketQueue t separate ttl)"
| step: "timed_run (out, q) \<Longrightarrow> in_bounds q e \<Longrightarrow> run_op e (out, q) = Some r \<Longrightarrow> timed_run r"

inductive_cases timed_runE: "timed_run r"

lemma timed_run_inv: "timed_run r \<Longrightarrow> queue_inv (True, {#}) (snd r) (levels (snd r))"
proof (induction rule: timed_run.induct)
  case (start t separate ttl)
  then show ?case using new_queue_inv [of True t separate ttl] queue_inv_levels by auto
next
  case (step out q e r)
  let ?a = "levels q"
  note q = step.IH [unfolded snd_conv]
  have "\<exists>a. queue_inv (True, {#}) (snd r) a"
  proof (cases e)
    case (OpPush now packet)
    then obtain ty where ty: "ts_packet_type packet = Some ty" using step.hyps(2) by auto
    have "length (packets_of ?a) < 2 ^ 17"
      using step.hyps(2) q queue_core_size [of "(True, {#})" q ?a] by (simp add: OpPush queue_inv_def)
    then show ?thesis using Push_ok [OF q ty, of now] step.hyps(2,3) by (auto simp: OpPush)
  next
    case OpPop
    show ?thesis
    proof (cases "packets_of ?a = []")
      case True
      then show ?thesis using Pop_empty [OF q] step.hyps(3) q by (auto simp: OpPop)
    next
      case False
      obtain t q' a' where "Pop q = Some (Some t, q')" "queue_inv (True, {#}) q' a'" using Pop_ok [OF q False] by metis
      then show ?thesis using step.hyps(3) by (auto simp: OpPop)
    qed
  next
    case (OpRemove s)
    then show ?thesis using RemovePackets_ok [OF q, of s] step.hyps(3) by auto
  next
    case (OpPause b now)
    then show ?thesis using SetPauseState_ok(2) [OF q, of now b] step.hyps(2,3) by auto
  next
    case (OpUpdate now)
    then show ?thesis using SetPauseState_ok(1) [OF q, of now] step.hyps(2,3) by auto
  qed
  then show ?case using queue_inv_levels by blast
qed

fun all_in_bounds :: "QueueOp list \<Rightarrow> queue_run \<Rightarrow> bool" where
  "all_in_bounds [] r = True"
| "all_in_bounds (e # es) r = (in_bounds (snd r) e \<and> (case run_op e r of None \<Rightarrow> False | Some r' \<Rightarrow> all_in_bounds es r'))"

lemma timed_run_ops: "timed_run r \<Longrightarrow> all_in_bounds es r \<Longrightarrow> \<exists>r'. foldM run_op es r = Some r' \<and> timed_run r'"
proof (induction es arbitrary: r)
  case (Cons e es)
  then obtain r1 where "run_op e r = Some r1" "all_in_bounds es r1" "in_bounds (snd r) e" by (auto split: option.splits)
  moreover from this have "timed_run r1" using timed_run.step [of "fst r" "snd r" e r1] Cons.prems(1) by simp
  ultimately show ?case using Cons.IH [of r1] by simp
qed simp

lemma waited_update:
  assumes "ledger q M" and "pq_size_packets q = int (size M)" and "timely q now"
  shows "waited (UpdateAverageQueueTime q now) p = waited q p + (if pq_paused q then 0 else now - pq_last_update_time q)"
proof (cases "now = pq_last_update_time q")
  case False
  have d: "Timestamp_sub now (pq_last_update_time q) = now - pq_last_update_time q"
    unfolding Timestamp_ops by (rule finite_unit_sub) (use assms in \<open>auto simp: ledger_def timely_def intro!: small_finite\<close>)
  have "unit_add (pq_pause_time_sum q) (now - pq_last_update_time q) = pq_pause_time_sum q + (now - pq_last_update_time q)"
    by (rule finite_unit_add) (use assms in \<open>auto simp: ledger_def timely_def intro!: small_finite\<close>)
  then show ?thesis using False by (simp add: UpdateAverageQueueTime_def Let_def d waited_def)
qed (simp add: UpdateAverageQueueTime_def)

lemma waited_queued:
  assumes "ledger q M" and "pq_size_packets q = int (size M)" and "timely q now"
  shows "waited (UpdateAverageQueueTime q now) (queued q now packet) = 0"
proof -
  have "ledger (UpdateAverageQueueTime q now) M" using ledger_update [OF assms(1,2)] assms(3) by (simp add: timely_def)
  then have "Timestamp_sub_delta now (pq_pause_time_sum (UpdateAverageQueueTime q now)) = now - pq_pause_time_sum (UpdateAverageQueueTime q now)"
    unfolding Timestamp_ops by (intro finite_unit_sub) (use assms(3) in \<open>auto simp: ledger_def timely_def intro!: small_finite\<close>)
  then show ?thesis by (simp add: waited_def queued_def)
qed

section \<open>Properties\<close>

text \<open>
  C28: the queue of the pacer is safe. Whatever is pushed, popped, removed, paused and updated, in any
  order and at any times, if every pushed packet has a type then no operation dereferences a stream
  that was erased, reads the front of an empty list or leaves an array. Afterwards the levels are
  consistent: each level lists exactly the sources that have packets there, once each and in turn, the
  packets wait under their source and at the level of their type, the number of packets, the number per
  media type, the list of enqueue times and the key frames counted per stream are those of the packets
  in the queue, and the top level is the first one that is not empty.
\<close>

theorem packet_queue_safe:
  assumes "list_all typed_op ops"
  shows "\<exists>out q. foldM run_op ops ([], new_PrioritizedPacketQueue t separate ttl) = Some (out, q) \<and>
    queue_inv (False, {#}) q (levels q) \<and> placed separate (levels q)"
proof -
  obtain r a where r: "foldM run_op ops ([], new_PrioritizedPacketQueue t separate ttl) = Some r" "queue_inv (False, {#}) (snd r) a" "placed separate a"
    using run_safe [OF assms, of t separate ttl] by (auto simp: run_inv_def)
  moreover have "levels (snd r) = a" using r(2) queue_core_levels [of "(False, {#})" "snd r" a] by (simp add: queue_inv_def)
  ultimately show ?thesis by (cases r) auto
qed

definition example_packet :: "u32 \<Rightarrow> u16 \<Rightarrow> RtpPacketMediaType \<Rightarrow> RtpPacketToSend" where
  "example_packet ssrc n ty = (new_RtpPacketToSend (new_RtpPacket\<lparr>rp_ssrc := ssrc, rp_sequence_number := n, rp_payload_size := 100\<rparr>))
     \<lparr>ts_packet_type := Some ty\<rparr>"

theorem packet_queue_safe_witness:
  "\<exists>out q. foldM run_op [OpPop, OpPush 5 (example_packet 1 7 kVideo), OpPause True 6, OpRemove 1, OpPop]
      ([], new_PrioritizedPacketQueue 0 False default_PacketQueueTTL) = Some (out, q) \<and> queue_inv (False, {#}) q (levels q)"
  using packet_queue_safe [of "[OpPop, OpPush 5 (example_packet 1 7 kVideo), OpPause True 6, OpRemove 1, OpPop]" 0 False default_PacketQueueTTL]
  by (auto simp: example_packet_def simp del: foldM.simps)

text \<open>
  C27: the queue of the pacer refines a plain specification. After any run of operations on a queue
  that was never paused, or that has the default times to live, under which nothing expires: a push
  drops, from the front of the list of each source of its level, the packets that were pushed longer
  ago than the time to live of the level, and puts the packet at the end of the list of its source, the
  source at the end of the level if it had no packets there; a pop takes the first packet of the first source
  of the first level that is not empty and moves the source to the end, or out if it has no more
  packets, and then, only if that level is empty, drops expired packets, as of the last update of the
  clock, level by level until one has a packet; on an empty queue it returns nothing and changes
  nothing; a removal takes out the source from every level and drops expired packets in the same
  way; pausing and updating the clock change no level. The times in the specification are the times of
  the pushes: without a pause every packet in the queue was pushed at the time it has there, and a new
  one has the time of its push. (After a pause the code expires packets too early; that case is left out.)
\<close>

theorem packet_queue_refines:
  assumes "list_all typed_op ops" and "foldM run_op ops ([], new_PrioritizedPacketQueue t0 separate ttl) = Some (out, q)"
    and "list_all unpaused_op ops \<or> ttl = default_PacketQueueTTL"
  shows "((\<forall>i < kNumPriorityLevels. \<forall>u a. rr_purge (pq_time_to_live_per_prio q) i u a = a) \<or>
      (\<forall>p \<in> set (packets_of (levels q)). OpPush (qp_enqueue_time p) (qp_packet p) \<in> set ops) \<and>
      qp_enqueue_time (queued q now packet) = now) \<and> qp_packet (queued q now packet) = packet \<and>
    pq_time_to_live_per_prio q = ToTtlPerPrio ttl \<and>
    (ts_packet_type packet \<noteq> None \<longrightarrow> (\<exists>q'. Push q now packet = Some q' \<and> levels q' = rr_enqueue q now packet (levels q))) \<and>
    (packets_of (levels q) = [] \<longrightarrow> Pop q = Some (None, q)) \<and>
    (packets_of (levels q) \<noteq> [] \<longrightarrow> (\<exists>i s p ps rest t q'. i < kNumPriorityLevels \<and> (\<forall>j < i. levels q ! j = []) \<and>
      levels q ! i = (s, p # ps) # rest \<and> Pop q = Some (Some t, q') \<and> unstamped t = unstamped (qp_packet p) \<and>
      levels q' = rr_pop (pq_time_to_live_per_prio q) (pq_last_update_time q) (int i) (levels q))) \<and>
    (\<exists>q'. RemovePacketsForSsrc q s = Some q' \<and> levels q' =
      rr_top (pq_time_to_live_per_prio q) (pq_last_update_time q) (pq_top_active_prio_level q) (rr_remove s (levels q))) \<and>
    levels (SetPauseState q paused now) = levels q \<and> levels (UpdateAverageQueueTime q now) = levels q"
proof -
  have r: "run_inv (False, {#}) separate (ToTtlPerPrio ttl) (out, q)" using run_safe [OF assms(1), of t0 separate ttl] assms(2) by auto
  then have inv: "queue_inv (False, {#}) q (levels q)" "pq_time_to_live_per_prio q = ToTtlPerPrio ttl"
    using queue_inv_levels by (auto simp: run_inv_def)
  have "(\<forall>i < kNumPriorityLevels. \<forall>u a. rr_purge (pq_time_to_live_per_prio q) i u a = a) \<or>
      (\<forall>p \<in> set (packets_of (levels q)). OpPush (qp_enqueue_time p) (qp_packet p) \<in> set ops) \<and>
      qp_enqueue_time (queued q now packet) = now"
    using assms(3)
  proof
    assume "list_all unpaused_op ops"
    from unpaused_run [OF assms(1) this assms(2)] queued_unpaused [of q now packet] show ?thesis
      by (fastforce simp: packets_of_def flat_def waiting_at_def in_set_conv_nth)
  next
    assume "ttl = default_PacketQueueTTL"
    then show ?thesis using inv(2) default_ttl by (simp add: rr_purge_def rr_purge_level_def IsInfinite_def)
  qed
  moreover have "qp_packet (queued q now packet) = packet" by (simp add: queued_def)
  moreover note inv(2) levels_refine [OF inv(1), of packet now s paused]
  ultimately show ?thesis by (intro conjI) (assumption | elim conjE)+
qed

definition short_ttl :: PacketQueueTTL where
  "short_ttl = default_PacketQueueTTL\<lparr>ttl_video := Millis 1\<rparr>"

theorem packet_queue_refines_witness:
  "\<exists>q q'. foldM run_op [OpPush 5 (example_packet 1 7 kVideo)] ([], new_PrioritizedPacketQueue 0 False short_ttl) = Some ([], q) \<and>
    Push q 2000 (example_packet 1 8 kVideo) = Some q' \<and>
    map (\<lambda>p. (qp_enqueue_time p, rp_sequence_number (ts_packet (qp_packet p)))) (packets_of (levels q')) = [(2000, 8)]"
proof -
  let ?ops = "[OpPush 5 (example_packet 1 7 kVideo)]" and ?q0 = "new_PrioritizedPacketQueue 0 False short_ttl"
  have t: "list_all typed_op ?ops" "list_all unpaused_op ?ops" "ts_packet_type (example_packet 1 8 kVideo) \<noteq> None"
    by (simp_all add: example_packet_def)
  obtain out q where q: "foldM run_op ?ops ([], ?q0) = Some (out, q)" using run_safe [OF t(1), of 0 False short_ttl] by (metis surj_pair)
  have "fst (the (foldM run_op ?ops ([], ?q0))) = []" by code_simp
  then have o: "out = []" using q by simp
  let ?q = "snd (the (foldM run_op ?ops ([], ?q0)))"
  have "map (\<lambda>p. (qp_enqueue_time p, rp_sequence_number (ts_packet (qp_packet p))))
      (packets_of (rr_enqueue ?q 2000 (example_packet 1 8 kVideo) (levels ?q))) = [(2000, 8)]" by code_simp
  then have e: "map (\<lambda>p. (qp_enqueue_time p, rp_sequence_number (ts_packet (qp_packet p))))
      (packets_of (rr_enqueue q 2000 (example_packet 1 8 kVideo) (levels q))) = [(2000, 8)]" using q by simp
  from packet_queue_refines [OF t(1) q disjI1 [OF t(2)], of 2000 "example_packet 1 8 kVideo"] t(3)
  obtain q' where "Push q 2000 (example_packet 1 8 kVideo) = Some q'" "levels q' = rr_enqueue q 2000 (example_packet 1 8 kVideo) (levels q)"
    by blast
  with q o e show ?thesis by (intro exI [of _ q] exI [of _ q']) simp
qed

text \<open>
  C26: packets leave by priority and in turns. With the default times to live, after any run,
  popping until the queue is empty returns every packet in the queue exactly once: level by
  level, and within a level in rounds, where each round takes the next packet of each source that
  still has one, in the order of the sources. So packets of one source and level keep their order and
  no source waits for a second packet of another one. Only the time in the queue is written to the packets.
\<close>

theorem packets_leave_in_turns:
  assumes "list_all typed_op ops" and "foldM run_op ops ([], new_PrioritizedPacketQueue t separate default_PacketQueueTTL) = Some (out, q)"
  shows "\<exists>ts q'. foldM run_op (replicate (length (service_order (levels q))) OpPop) (out, q) = Some (out @ ts, q') \<and>
    map unstamped ts = map (\<lambda>p. unstamped (qp_packet p)) (service_order (levels q)) \<and> Pop q' = Some (None, q')"
proof -
  have r: "run_inv (False, {#}) separate (ToTtlPerPrio default_PacketQueueTTL) (out, q)" using run_safe [OF assms(1), of t separate default_PacketQueueTTL] assms(2) by auto
  then obtain a where a: "queue_inv (False, {#}) q a" by (auto simp: run_inv_def)
  have "\<forall>i < kNumPriorityLevels. IsInfinite (pq_time_to_live_per_prio q ! i)"
    using r default_ttl by (auto simp: run_inv_def IsInfinite_def)
  from pops_in_order [OF queue_inv_levels [OF a] this] show ?thesis .
qed

theorem packets_leave_in_turns_witness:
  "let ops = [OpPush 1 (example_packet 1 1 kVideo), OpPush 1 (example_packet 1 2 kVideo), OpPush 2 (example_packet 2 1 kVideo),
              OpPush 3 (example_packet 3 1 kAudio)];
       q = snd (the (foldM run_op ops ([], new_PrioritizedPacketQueue 0 False default_PacketQueueTTL))) in
     map (\<lambda>p. (rp_ssrc (ts_packet (qp_packet p)), rp_sequence_number (ts_packet (qp_packet p)))) (service_order (levels q)) =
       [(3, 1), (1, 1), (2, 1), (1, 2)] \<and>
     (\<exists>ts q'. foldM run_op (replicate 4 OpPop) ([], q) = Some (ts, q') \<and> Pop q' = Some (None, q'))"
proof -
  let ?ops = "[OpPush 1 (example_packet 1 1 kVideo), OpPush 1 (example_packet 1 2 kVideo), OpPush 2 (example_packet 2 1 kVideo),
     OpPush 3 (example_packet 3 1 kAudio)]"
  let ?r = "foldM run_op ?ops ([], new_PrioritizedPacketQueue 0 False default_PacketQueueTTL)"
  have t: "list_all typed_op ?ops" by (simp add: example_packet_def)
  obtain out q where q: "?r = Some (out, q)" using run_safe [OF t, of 0 False default_PacketQueueTTL] by (metis surj_pair)
  have o: "map (\<lambda>p. (rp_ssrc (ts_packet (qp_packet p)), rp_sequence_number (ts_packet (qp_packet p)))) (service_order (levels (snd (the ?r)))) =
      [(3, 1), (1, 1), (2, 1), (1, 2)]" by code_simp
  have "fst (the ?r) = []" by code_simp
  then have "out = []" using q by simp
  moreover have "length (service_order (levels q)) = 4" using arg_cong [OF o, of length] q by simp
  ultimately show ?thesis using packets_leave_in_turns [OF t q] o q by (auto simp: Let_def simp del: foldM.simps)
qed

text \<open>
  C29: the time in the queue is the time that was not paused. As long as the clock does not run
  backwards and the bounds hold, the sums of the queue are exact and fit an \<open>int64_t\<close>: the sum
  of the queue times is the sum, over the packets in the queue, of the time each has waited, the average is its quotient by the number of packets,
  and the payload size is the sum of their sizes. A pushed packet has waited for
  no time; when the clock advances every packet waits for the time that passed, or for none while the queue is
  paused; and a popped packet is stamped with the time it has waited.
\<close>

theorem queue_times_exact:
  assumes "timed_run (out, q)"
  shows "pq_queue_time_sum q = (\<Sum>p\<leftarrow>packets_of (levels q). waited q p) \<and> pq_size_payload q = (\<Sum>p\<leftarrow>packets_of (levels q). PacketSize p) \<and>
    0 \<le> pq_queue_time_sum q \<and> int64 (pq_queue_time_sum q) \<and> int64 (pq_size_payload q) \<and>
    AverageQueueTime q = (\<Sum>p\<leftarrow>packets_of (levels q). waited q p) div int (length (packets_of (levels q))) \<and>
    (timely q now \<longrightarrow>
      (\<forall>p. waited (UpdateAverageQueueTime q now) p = waited q p + (if pq_paused q then 0 else now - pq_last_update_time q)) \<and>
      waited (UpdateAverageQueueTime q now) (queued q now packet) = 0) \<and>
    (\<forall>t q'. Pop q = Some (Some t, q') \<longrightarrow> (\<exists>p \<in> set (packets_of (levels q)). unstamped t = unstamped (qp_packet p) \<and>
      ts_time_in_send_queue t = Some (waited q p)))"
proof -
  let ?a = "levels q" let ?M = "mset (packets_of ?a)"
  have q: "queue_inv (True, {#}) q ?a" using timed_run_inv [OF assms] by simp
  then have l: "ledger q ?M" "pq_size_packets q = int (size ?M)" by (auto simp: queue_inv_def queue_core_def account_def counts_def)
  have s: "pq_queue_time_sum q = (\<Sum>p\<leftarrow>packets_of ?a. waited q p)" "pq_size_payload q = (\<Sum>p\<leftarrow>packets_of ?a. PacketSize p)"
    using l(1) by (simp_all add: ledger_def flip: sum_mset_sum_list)
  have avg: "AverageQueueTime q = (\<Sum>p\<leftarrow>packets_of ?a. waited q p) div int (length (packets_of ?a))"
    using l(2) s(1) ledger_bounds(1) [OF l(1)] by (simp add: AverageQueueTime_def unit_div_def sdiv_pos)
  have "\<exists>p \<in> set (packets_of ?a). unstamped t = unstamped (qp_packet p) \<and> ts_time_in_send_queue t = Some (waited q p)"
    if pop: "Pop q = Some (Some t, q')" for t q'
  proof -
    have ne: "packets_of ?a \<noteq> []" using pop Pop_empty [OF q] by auto
    obtain i s p ps rest t1 q1 where i: "i < kNumPriorityLevels" "?a ! i = (s, p # ps) # rest" "Pop q = Some (Some t1, q1)"
        "t1 = (qp_packet p)\<lparr>ts_time_in_send_queue := ts_time_in_send_queue t1\<rparr>" "ts_time_in_send_queue t1 = Some (waited q p)"
      using Pop_ok [OF q ne] by (metis fst_conv)
    have "p \<in> set (packets_of ?a)"
      using i(1,2) queue_inv_length [OF q] nth_mem [of i ?a] by (force simp: packets_of_def flat_def)
    moreover have "unstamped t1 = unstamped (qp_packet p)" by (subst i(4)) (simp add: unstamped_def)
    ultimately show ?thesis using i(3,5) pop by auto
  qed
  then show ?thesis
    using s avg ledger_bounds [OF l(1)] waited_update [OF l] waited_queued [OF l] by (auto simp: int64_def)
qed

theorem queue_times_exact_witness:
  "let q = snd (the (foldM run_op [OpPush 10 (example_packet 1 1 kVideo), OpPause True 15, OpPause False 40, OpUpdate 42]
       ([], new_PrioritizedPacketQueue 0 False default_PacketQueueTTL))) in
     AverageQueueTime q = 7 \<and> 0 \<le> pq_queue_time_sum q \<and> int64 (pq_queue_time_sum q)"
proof -
  let ?es = "[OpPush 10 (example_packet 1 1 kVideo), OpPause True 15, OpPause False 40, OpUpdate 42]"
  let ?r = "([], new_PrioritizedPacketQueue 0 False default_PacketQueueTTL) :: queue_run"
  have "timed_run ?r" by (rule timed_run.start) simp_all
  moreover have "all_in_bounds ?es ?r" by code_simp
  ultimately obtain r where r: "foldM run_op ?es ?r = Some r" "timed_run r" using timed_run_ops by blast
  have "AverageQueueTime (snd (the (foldM run_op ?es ?r))) = 7" by code_simp
  moreover have "timed_run (fst r, snd r)" using r(2) by simp
  note queue_times_exact [OF this, of 42 "example_packet 1 1 kVideo"]
  ultimately show ?thesis unfolding Let_def r(1) option.sel by blast
qed

end
