(* ===== verification/PacerInv.thy ===== *)
theory PacerInv
  imports PacedSend PacketQueueProps
begin

text \<open>
  The invariant of the pacer and its books. The interface \<open>PacketSender\<close> is the locale \<open>packet_sender\<close>,
  with what the controller relies on; the class \<open>PacedSender\<close> of theory \<open>PacedSend\<close> interprets it. In
  the locale every operation of the controller is shown to return and to keep the books: what has
  been sent, what waits in the queue, what is in hand and what was discarded is together what came in
  and what was made as padding.
\<close>

section \<open>Results\<close>

text \<open>The operation returns, and its result satisfies \<open>P\<close>.\<close>

definition yields :: "'a option \<Rightarrow> ('a \<Rightarrow> bool) \<Rightarrow> bool" where
  "yields r P \<longleftrightarrow> (\<exists>x. r = Some x \<and> P x)"

lemma yields_Some [simp]: "yields (Some x) P \<longleftrightarrow> P x" by (simp add: yields_def)

lemma yields_bind: "yields r P \<Longrightarrow> (\<And>x. P x \<Longrightarrow> yields (f x) Q) \<Longrightarrow> yields (Option.bind r f) Q"
  by (auto simp: yields_def)

lemma yields_mono: "yields r P \<Longrightarrow> (\<And>x. P x \<Longrightarrow> Q x) \<Longrightarrow> yields r Q"
  by (auto simp: yields_def)

section \<open>The queue without expiry\<close>

definition waiting :: "PrioritizedPacketQueue \<Rightarrow> RtpPacketToSend multiset" where
  "waiting q = image_mset qp_packet (mset (packets_of (levels q)))"

text \<open>The queue of a pacer whose packets never expire.\<close>

definition queue_good :: "PrioritizedPacketQueue \<Rightarrow> bool" where
  "queue_good q \<longleftrightarrow> queue_inv (False, {#}) q (levels q) \<and> (\<forall>i < kNumPriorityLevels. IsInfinite (pq_time_to_live_per_prio q ! i))"

lemma queue_good_of: "queue_inv (False, {#}) q a \<Longrightarrow> \<forall>i < kNumPriorityLevels. IsInfinite (pq_time_to_live_per_prio q ! i) \<Longrightarrow>
    queue_good q \<and> levels q = a"
  using queue_core_levels [of "(False, {#})" q a] queue_inv_levels [of "(False, {#})" q a]
  by (simp add: queue_good_def queue_inv_def)

lemma queue_good_size: "queue_good q \<Longrightarrow> pq_size_packets q = int (size (waiting q))"
  using queue_core_size [of "(False, {#})" q "levels q"] by (simp add: queue_good_def queue_inv_def waiting_def)

lemma queue_good_typed: "queue_good q \<Longrightarrow> t \<in># waiting q \<Longrightarrow> ts_packet_type t \<noteq> None"
  by (auto simp: queue_good_def queue_inv_def queue_core_def account_def counts_def waiting_def)

lemma Push_good:
  assumes "queue_good q" and "ts_packet_type packet \<noteq> None"
  shows "\<exists>q'. Push q now packet = Some q' \<and> queue_good q' \<and> waiting q' = add_mset packet (waiting q) \<and>
    (\<forall>i. levels q ! i = [] \<and> i \<noteq> prio_of (pq_prioritize_audio_retransmission q) packet \<longrightarrow> levels q' ! i = [])"
proof -
  let ?a = "levels q" let ?i = "prio_of (pq_prioritize_audio_retransmission q) packet"
  let ?s = "rp_ssrc (ts_packet packet)" and ?p = "queued q now packet"
  obtain ty where ty: "ts_packet_type packet = Some ty" using assms(2) by auto
  have q: "queue_inv (False, {#}) q ?a" and ttl: "\<forall>i < kNumPriorityLevels. IsInfinite (pq_time_to_live_per_prio q ! i)"
    using assms(1) by (simp_all add: queue_good_def)
  have l: "length ?a = kNumPriorityLevels" using queue_inv_length [OF q] .
  have i: "?i < length ?a" unfolding l prio_of_def by simp
  have e: "rr_enqueue q now packet ?a = ?a[?i := rr_push_level ?s ?p (?a ! ?i)]"
    using ttl i by (simp add: rr_enqueue_def Let_def rr_push_def rr_purge_def rr_purge_level_def l)
  have d: "distinct (map fst (?a ! ?i))" using q i l by (simp add: queue_inv_def queue_core_def shape_def)
  obtain q' where q': "Push q now packet = Some q'" "queue_inv (False, {#}) q' (rr_enqueue q now packet ?a)"
      "pq_time_to_live_per_prio q' = pq_time_to_live_per_prio q"
    using Push_ok [OF q ty] by auto
  have g: "queue_good q'" "levels q' = rr_enqueue q now packet ?a" using queue_good_of [OF q'(2)] ttl q'(3) by simp_all
  obtain R where R: "mset (packets_of ?a) = mset (flat (?a ! ?i)) + R" "\<And>lev. mset (packets_of (?a[?i := lev])) = mset (flat lev) + R"
    using packets_of_split [OF i] by blast
  have "mset (packets_of (levels q')) = add_mset ?p (mset (packets_of ?a))" unfolding g(2) e R flat_push [OF d] by simp
  then have "waiting q' = add_mset packet (waiting q)" by (simp add: waiting_def queued_def)
  moreover have "levels q ! i = [] \<and> i \<noteq> ?i \<longrightarrow> levels q' ! i = []" for i by (simp add: g(2) e)
  ultimately show ?thesis using q'(1) g(1) by blast
qed

lemma Pop_good:
  assumes "queue_good q" and "pq_size_packets q \<noteq> 0"
  shows "\<exists>p x q'. Pop q = Some (Some (p\<lparr>ts_time_in_send_queue := x\<rparr>), q') \<and> queue_good q' \<and> waiting q = add_mset p (waiting q') \<and>
    (\<forall>i < kNumPriorityLevels. levels q ! i = [] \<longrightarrow> levels q' ! i = [])"
proof -
  let ?a = "levels q"
  have q: "queue_inv (False, {#}) q ?a" and ttl: "\<forall>i < kNumPriorityLevels. IsInfinite (pq_time_to_live_per_prio q ! i)"
    using assms(1) by (simp_all add: queue_good_def)
  have l: "length ?a = kNumPriorityLevels" using queue_inv_length [OF q] .
  have "packets_of ?a \<noteq> []" using queue_good_size [OF assms(1)] assms(2) by (auto simp: waiting_def)
  then obtain i s p ps rest t q' where i: "i < kNumPriorityLevels" "pq_top_active_prio_level q = int i" "?a ! i = (s, p # ps) # rest"
      and q': "Pop q = Some (Some t, q')" "frame0 q q'" "t = (qp_packet p)\<lparr>ts_time_in_send_queue := ts_time_in_send_queue t\<rparr>"
        "queue_inv (False, {#}) q' (rr_pop (pq_time_to_live_per_prio q) (pq_last_update_time q) (pq_top_active_prio_level q) ?a)"
    using Pop_ok [OF q] by metis
  have e: "rr_pop (pq_time_to_live_per_prio q) (pq_last_update_time q) (pq_top_active_prio_level q) ?a = ?a[i := rr_pop_level (?a ! i)]"
    using infinite_pop [of ?a "pq_time_to_live_per_prio q"] ttl l i(2) by simp
  have g: "queue_good q'" "levels q' = ?a[i := rr_pop_level (?a ! i)]"
    using queue_good_of [OF q'(4) [unfolded e]] ttl q'(2) by (simp_all add: frame0_def)
  obtain R where R: "mset (packets_of ?a) = mset (flat (?a ! i)) + R" "\<And>lev. mset (packets_of (?a[i := lev])) = mset (flat lev) + R"
    using packets_of_split [of i ?a] i(1) l by auto
  have "mset (packets_of ?a) = add_mset p (mset (packets_of (levels q')))" unfolding g(2) R i(3) by simp
  then have "waiting q = add_mset (qp_packet p) (waiting q')" by (simp add: waiting_def)
  moreover have "levels q ! j = [] \<longrightarrow> levels q' ! j = []" for j using i(3) by (cases "j = i") (simp_all add: g(2))
  ultimately show ?thesis using q'(1,3) g(1) by metis
qed

lemma fewer_remove_mset: "mset (packets_of (rr_remove s a)) \<subseteq># mset (packets_of a)"
proof -
  have "mset (flat (filter P lev)) \<subseteq># mset (flat lev)" for P lev
    by (induction lev) (auto simp: flat_def subset_mset.add_mono intro: subset_mset.add_increasing)
  then show ?thesis
    by (induction a) (auto simp: rr_remove_def packets_of_def subset_mset.add_mono)
qed

lemma Remove_good:
  assumes "queue_good q"
  shows "\<exists>q'. RemovePacketsForSsrc q s = Some q' \<and> queue_good q' \<and> waiting q' \<subseteq># waiting q \<and>
    (\<forall>i < kNumPriorityLevels. levels q ! i = [] \<longrightarrow> levels q' ! i = [])"
proof -
  let ?a = "levels q"
  have q: "queue_inv (False, {#}) q ?a" and ttl: "\<forall>i < kNumPriorityLevels. IsInfinite (pq_time_to_live_per_prio q ! i)"
    using assms by (simp_all add: queue_good_def)
  have l: "length (rr_remove s ?a) = kNumPriorityLevels" using queue_inv_length [OF q] by (simp add: rr_remove_def)
  have e: "rr_top (pq_time_to_live_per_prio q) (pq_last_update_time q) t (rr_remove s ?a) = rr_remove s ?a" for t
    using infinite_settle [of "rr_remove s ?a" "pq_time_to_live_per_prio q" "[0..<kNumPriorityLevels]"] ttl l
    by (simp add: rr_top_def atLeast0LessThan)
  obtain q' where q': "RemovePacketsForSsrc q s = Some q'" "frame0 q q'" "queue_inv (False, {#}) q' (rr_remove s ?a)"
    using RemovePackets_ok [OF q, of s] unfolding e by blast
  have g: "queue_good q'" "levels q' = rr_remove s ?a" using queue_good_of [OF q'(3)] ttl q'(2) by (simp_all add: frame0_def)
  have "waiting q' \<subseteq># waiting q" unfolding waiting_def g(2) by (intro image_mset_subseteq_mono fewer_remove_mset)
  moreover have "levels q ! i = [] \<longrightarrow> levels q' ! i = []" if "i < kNumPriorityLevels" for i
    using that queue_inv_length [OF q] by (simp add: g(2) rr_remove_def)
  ultimately show ?thesis using q'(1) g(1) by blast
qed

lemma Update_good:
  assumes "queue_good q"
  shows "queue_good (UpdateAverageQueueTime q now)" "waiting (UpdateAverageQueueTime q now) = waiting q"
    "queue_good (SetPauseState q b now)" "waiting (SetPauseState q b now) = waiting q"
proof -
  have q: "queue_inv (False, {#}) q (levels q)" and ttl: "\<forall>i < kNumPriorityLevels. IsInfinite (pq_time_to_live_per_prio q ! i)"
    using assms by (simp_all add: queue_good_def)
  note u = SetPauseState_ok [OF q, of now, simplified]
  show "queue_good (UpdateAverageQueueTime q now)" "waiting (UpdateAverageQueueTime q now) = waiting q"
    using queue_good_of [OF u(1)] ttl by (simp_all add: waiting_def)
  show "queue_good (SetPauseState q b now)" "waiting (SetPauseState q b now) = waiting q"
    using queue_good_of [OF u(2) [of b]] ttl by (simp_all add: waiting_def SetPauseState_def)
qed

lemma Leading_good:
  assumes "queue_good q" and "i < kNumPriorityLevels"
  shows "\<exists>t. LeadingPacketEnqueueTime_at q i none = Some t"
proof -
  let ?a = "levels q"
  have q: "queue_inv (False, {#}) q ?a" using assms(1) by (simp add: queue_good_def)
  have l: "length ?a = kNumPriorityLevels" using queue_inv_length [OF q] .
  have sh: "shape (pq_streams q) (pq_streams_by_prio q) ?a" "no_empty ?a" using q by (simp_all add: queue_inv_def queue_core_def)
  show ?thesis
  proof (cases "?a ! i")
    case Nil
    then show ?thesis using sh(1) assms(2) l by (simp add: LeadingPacketEnqueueTime_at_def shape_def rd_def)
  next
    case (Cons x rest)
    obtain s ps where x: "x = (s, ps)" by (cases x)
    have ne: "ps \<noteq> []" using sh(2) Cons x assms(2) l nth_mem [of i ?a] unfolding no_empty_def by fastforce
    have sl: "fst ` set (?a ! i) \<subseteq> dom (pq_streams q)" "stream_level (pq_streams q) i s = entries (?a ! i) s" "\<forall>sq \<in> ran (pq_streams q). stream_ok sq"
      using sh(1) assms(2) unfolding shape_def by simp_all
    obtain sq where sq: "pq_streams q s = Some sq" using sl(1) Cons x by auto
    have "sq_packets sq ! i = ps" using sl(2) Cons x by (simp add: stream_level_Some [of "pq_streams q" s sq, OF sq])
    moreover have "i < length (sq_packets sq)" using sl(3) sq assms(2) by (auto simp: stream_ok_def ran_def)
    ultimately show ?thesis using sh(1) assms(2) l Cons x sq ne
      by (simp add: LeadingPacketEnqueueTime_at_def shape_def rd_def Stream_LeadingPacketEnqueueTime_def)
  qed
qed

lemma NextUnpaced_good:
  assumes "queue_good (pc_packet_queue pc)"
  shows "\<exists>t. NextUnpacedSendTime pc = Some t"
proof -
  note L = Leading_good [OF assms, OF GetPriorityForType_less]
  obtain a r t1 t2 where "LeadingPacketEnqueueTime (pc_packet_queue pc) kAudio = Some a"
      "LeadingPacketEnqueueTimeForRetransmission (pc_packet_queue pc) = Some r"
    using L [of kAudio None MinusInfinity] L [of kRetransmission None PlusInfinity]
      L [of kRetransmission "Some Original_kAudio" PlusInfinity] L [of kRetransmission "Some Original_kVideo" PlusInfinity]
    unfolding LeadingPacketEnqueueTime_def LeadingPacketEnqueueTimeForRetransmission_def by fastforce
  then show ?thesis by (simp add: NextUnpacedSendTime_def)
qed

section \<open>Rates and clusters\<close>

definition rates_ok :: "PacingController \<Rightarrow> bool" where
  "rates_ok pc \<longleftrightarrow> 0 \<le> pc_padding_rate pc \<and> pc_padding_rate pc \<le> pc_pacing_rate pc \<and> 0 < pc_pacing_rate pc \<and>
     pc_pacing_rate pc \<le> pc_adjusted_media_rate pc \<and> (\<not> pc_drain_large_queues pc \<longrightarrow> pc_adjusted_media_rate pc = pc_pacing_rate pc)"

definition prober_ok :: "BitrateProber \<Rightarrow> bool" where
  "prober_ok b \<longleftrightarrow> (\<forall>c \<in> set (bp_clusters b). 0 < ppi_send_bitrate (cl_pace_info c)) \<and> (is_probing b \<longrightarrow> bp_clusters b \<noteq> [])"

lemma planned_send_time_good:
  assumes "queue_good (pc_packet_queue pc)" and "rates_ok pc"
  shows "\<exists>t. planned_send_time pc now = Some t"
proof -
  have "pc_adjusted_media_rate pc \<noteq> 0" using assms(2) by (auto simp: rates_ok_def)
  then have "\<exists>t. paced_send_time pc = Some t" by (auto simp: paced_send_time_def size_div_rate_def Let_def)
  then show ?thesis using NextUnpaced_good [OF assms(1)] by (auto simp: planned_send_time_def)
qed

lemma send_blocked_good:
  assumes "queue_good (pc_packet_queue pc)" and "rates_ok pc"
  shows "\<exists>b. send_blocked pc is_probe target now = Some b"
  using NextUnpaced_good [OF assms(1)] assms(2) by (auto simp: send_blocked_def size_div_rate_def rates_ok_def)

text \<open>
  The settings: the controller without what changes as packets come and go. The operations that
  process packets keep the settings; \<open>vital\<close> is what the books, the rates and the settings depend on.
\<close>

definition settings :: "PacingController \<Rightarrow> PacingController" where
  "settings pc = pc\<lparr>pc_last_timestamp := 0, pc_media_debt := 0, pc_padding_debt := 0, pc_adjusted_media_rate := 0,
     pc_prober := new_BitrateProber, pc_probing_send_failure := False, pc_last_process_time := 0, pc_last_send_time := 0,
     pc_first_sent_packet_time := None, pc_seen_first_packet := False,
     pc_packet_queue := new_PrioritizedPacketQueue 0 False default_PacketQueueTTL\<rparr>"

definition vital :: "PacingController \<Rightarrow> PrioritizedPacketQueue \<times> unit_value \<times> BitrateProber \<times> PacingController" where
  "vital pc = (pc_packet_queue pc, pc_adjusted_media_rate pc, pc_prober pc, settings pc)"

lemma settings_updates [simp]:
  "settings (pc\<lparr>pc_last_timestamp := t\<rparr>) = settings pc" "settings (pc\<lparr>pc_media_debt := d\<rparr>) = settings pc"
  "settings (pc\<lparr>pc_padding_debt := d\<rparr>) = settings pc" "settings (pc\<lparr>pc_probing_send_failure := b\<rparr>) = settings pc"
  "settings (pc\<lparr>pc_last_process_time := t\<rparr>) = settings pc" "settings (pc\<lparr>pc_last_send_time := t\<rparr>) = settings pc"
  "settings (pc\<lparr>pc_first_sent_packet_time := f\<rparr>) = settings pc" "settings (pc\<lparr>pc_seen_first_packet := b\<rparr>) = settings pc"
  "settings (pc\<lparr>pc_packet_queue := q\<rparr>) = settings pc" "settings (pc\<lparr>pc_prober := pr\<rparr>) = settings pc"
  "settings (pc\<lparr>pc_adjusted_media_rate := r\<rparr>) = settings pc"
  by (simp_all add: settings_def)

lemma settings_same:
  assumes "settings pc' = settings pc"
  shows "pc_padding_rate pc' = pc_padding_rate pc" "pc_pacing_rate pc' = pc_pacing_rate pc" "pc_drain_large_queues pc' = pc_drain_large_queues pc"
    "pc_send_burst_interval pc' = pc_send_burst_interval pc" "pc_paused pc' = pc_paused pc" "pc_congested pc' = pc_congested pc"
    "pc_circuit_breaker_threshold pc' = pc_circuit_breaker_threshold pc" "pc_include_overhead pc' = pc_include_overhead pc"
    "pc_send_padding_if_silent pc' = pc_send_padding_if_silent pc" "pc_account_for_audio pc' = pc_account_for_audio pc"
    "pc_pace_audio pc' = pc_pace_audio pc" "pc_fast_retransmissions pc' = pc_fast_retransmissions pc"
  using arg_cong [OF assms, of pc_padding_rate] arg_cong [OF assms, of pc_pacing_rate] arg_cong [OF assms, of pc_drain_large_queues]
    arg_cong [OF assms, of pc_send_burst_interval] arg_cong [OF assms, of pc_paused] arg_cong [OF assms, of pc_congested]
    arg_cong [OF assms, of pc_circuit_breaker_threshold] arg_cong [OF assms, of pc_include_overhead]
    arg_cong [OF assms, of pc_send_padding_if_silent] arg_cong [OF assms, of pc_account_for_audio]
    arg_cong [OF assms, of pc_pace_audio] arg_cong [OF assms, of pc_fast_retransmissions]
  by (simp_all add: settings_def)

lemma vital_updates [simp]:
  "vital (pc\<lparr>pc_last_timestamp := t\<rparr>) = vital pc" "vital (pc\<lparr>pc_media_debt := d\<rparr>) = vital pc"
  "vital (pc\<lparr>pc_padding_debt := d\<rparr>) = vital pc" "vital (pc\<lparr>pc_probing_send_failure := b\<rparr>) = vital pc"
  "vital (pc\<lparr>pc_last_process_time := t\<rparr>) = vital pc" "vital (pc\<lparr>pc_last_send_time := t\<rparr>) = vital pc"
  "vital (pc\<lparr>pc_first_sent_packet_time := f\<rparr>) = vital pc" "vital (pc\<lparr>pc_seen_first_packet := b\<rparr>) = vital pc"
  by (simp_all add: vital_def)

lemma vital_ops [simp]:
  "vital (ClearProbingSendFailure pc) = vital pc" "vital (UpdateBudgetWithElapsedTime pc delta) = vital pc"
  "vital (snd (UpdateTimeAndGetElapsed pc now)) = vital pc" "vital (drain_until pc now) = vital pc"
  "vital (UpdatePaddingBudgetWithSentData pc sz) = vital pc" "vital (UpdateBudgetWithSentData pc sz) = vital pc"
  "vital (OnPacketSent pc ty sz t) = vital pc"
proof -
  show e: "vital (UpdateBudgetWithElapsedTime pc delta) = vital pc" for pc delta by (simp add: UpdateBudgetWithElapsedTime_def)
  show u: "vital (snd (UpdateTimeAndGetElapsed pc now)) = vital pc" for pc now by (simp add: UpdateTimeAndGetElapsed_def Let_def)
  then show "vital (drain_until pc now) = vital pc" by (simp add: drain_until_def case_prod_beta e)
  show p: "vital (UpdatePaddingBudgetWithSentData pc sz) = vital pc" for pc sz by (simp add: UpdatePaddingBudgetWithSentData_def)
  show d: "vital (UpdateBudgetWithSentData pc sz) = vital pc" for pc by (simp add: UpdateBudgetWithSentData_def p)
  show "vital (OnPacketSent pc ty sz t) = vital pc" by (simp add: OnPacketSent_def Let_def d)
qed (simp add: ClearProbingSendFailure_def)

lemma rates_settings: "settings pc' = settings pc \<Longrightarrow> pc_adjusted_media_rate pc' = pc_adjusted_media_rate pc \<Longrightarrow> rates_ok pc' = rates_ok pc"
  using settings_same [of pc' pc] by (simp add: rates_ok_def)

lemma vital_pc:
  assumes "vital pc' = vital pc"
  shows "pc_packet_queue pc' = pc_packet_queue pc" "rates_ok pc' = rates_ok pc" "pc_prober pc' = pc_prober pc" "settings pc' = settings pc"
  using assms rates_settings [of pc' pc] by (simp_all add: vital_def)

lemma MaybeSetActive_clusters [simp]: "bp_clusters (MaybeSetActiveState b sz) = bp_clusters b"
  by (simp add: MaybeSetActiveState_def)

lemma MaybeSetActive_good: "prober_ok b \<Longrightarrow> prober_ok (MaybeSetActiveState b sz)"
  by (auto simp: MaybeSetActiveState_def prober_ok_def is_probing_def ReadyToSetActiveState_def)

lemma RemoveExpired_good:
  assumes "prober_ok b"
  shows "prober_ok (snd (RemoveExpiredClusters b now)) \<and> set (bp_clusters (snd (RemoveExpiredClusters b now))) \<subseteq> set (bp_clusters b)"
proof -
  define left where "left = dropWhile (\<lambda>c. Timestamp_sub now (cl_requested_at c) \<ge> kProbeClusterTimeout) (bp_clusters b)"
  have s: "set left \<subseteq> set (bp_clusters b)" unfolding left_def by (auto dest: set_dropWhileD)
  have "\<not> length left < length (bp_clusters b) \<Longrightarrow> left = bp_clusters b"
    unfolding left_def by (metis dropWhile_eq_drop drop_0 length_drop diff_less neq0_conv length_greater_0_conv dropWhile.simps(1) length_takeWhile_le)
  then show ?thesis using assms s
    unfolding RemoveExpiredClusters_def left_def [symmetric] by (auto simp: Let_def prober_ok_def is_probing_def)
qed

lemma CurrentCluster_good:
  assumes "CurrentCluster b now = (info, b')" and "prober_ok b"
  shows "prober_ok b'" "set (bp_clusters b') \<subseteq> set (bp_clusters b)" "bp_clusters b = [] \<Longrightarrow> info = None"
  using assms by (auto simp: CurrentCluster_def Let_def prober_ok_def is_probing_def split: list.splits if_splits)

lemma ProbeSent_good:
  assumes "prober_ok b"
  shows "yields (ProbeSent b now sz n) (\<lambda>b'. prober_ok b' \<and> (bp_clusters b = [] \<longrightarrow> bp_clusters b' = []))"
proof (cases "bp_clusters b")
  case (Cons c cs)
  then have "ppi_send_bitrate (cl_pace_info c) \<noteq> 0" "\<forall>c' \<in> set cs. 0 < ppi_send_bitrate (cl_pace_info c')" "0 < ppi_send_bitrate (cl_pace_info c)"
    using assms by (auto simp: prober_ok_def)
  then show ?thesis using Cons
    by (auto simp: ProbeSent_def Let_def CalculateNextProbeTime_def size_div_rate_def prober_ok_def is_probing_def)
qed (use assms in \<open>simp add: ProbeSent_def\<close>)

lemma CreateProbeCluster_good:
  assumes "prober_ok b" and "0 < pcc_target_data_rate c"
  shows "prober_ok (CreateProbeCluster b c)"
  unfolding CreateProbeCluster_def Let_def
  by (rule MaybeSetActive_good) (use assms RemoveExpired_good [of b "pcc_at_time c"] in \<open>auto simp: prober_ok_def dest!: in_set_dropD\<close>)

section \<open>The interface\<close>

text \<open>
  \<open>key\<close> tells packets apart, whatever stamp and number they get on their way; \<open>sent\<close> and \<open>made\<close> are
  the packets sent and made so far, \<open>wf\<close> is an invariant of the sender. A packet is given a type before it reaches the controller.
\<close>

locale packet_sender =
  fixes env :: "'s PacketSender" and wf :: "'s \<Rightarrow> bool" and live :: "'s \<Rightarrow> bool" and key :: "RtpPacketToSend \<Rightarrow> 'k" and sent :: "'s \<Rightarrow> 'k list" and made :: "'s \<Rightarrow> 'k list"
  assumes clock: "wf s \<Longrightarrow> ps_CurrentTime env s = (t, s') \<Longrightarrow> wf s' \<and> live s' = live s \<and> sent s' = sent s \<and> made s' = made s"
    and send: "wf s \<Longrightarrow> live s \<Longrightarrow> yields (ps_SendPacket env packet info s) (\<lambda>s'. wf s' \<and> live s' \<and> sent s' = sent s @ [key packet] \<and> made s' = made s)"
    and fec: "wf s \<Longrightarrow> ps_FetchFec env s = (ps, s') \<Longrightarrow> wf s' \<and> live s' = live s \<and> sent s' = sent s \<and> made s' = made s @ map key ps \<and>
      (\<forall>p \<in> set ps. ts_packet_type p = Some kForwardErrorCorrection)"
    and padding: "wf s \<Longrightarrow> yields (ps_GeneratePadding env sz s) (\<lambda>(ps, s'). wf s' \<and> live s' = live s \<and> sent s' = sent s \<and> made s' = made s @ map key ps \<and>
      (\<forall>p \<in> set ps. ts_packet_type p = Some kPadding))"
    and key_stamp: "key (packet\<lparr>ts_time_in_send_queue := x\<rparr>) = key packet"

context packet_sender
begin

text \<open>
  The books: \<open>E\<close> came in from outside, \<open>H\<close> is in hand. In the mode \<open>(strict, v, k)\<close> a strict run has
  no probes and discards nothing; \<open>v\<close> says whether the sender is live, and \<open>k\<close> are the settings.
\<close>

definition sound :: "bool \<times> bool \<times> PacingController \<Rightarrow> 'k multiset \<Rightarrow> 'k multiset \<Rightarrow> PacingController \<Rightarrow> 's \<Rightarrow> bool" where
  "sound m E H pc s \<longleftrightarrow> queue_good (pc_packet_queue pc) \<and> rates_ok pc \<and> prober_ok (pc_prober pc) \<and> wf s \<and> live s = fst (snd m) \<and> settings pc = snd (snd m) \<and>
     (fst m \<longrightarrow> bp_clusters (pc_prober pc) = []) \<and>
     (\<exists>L. mset (sent s) + image_mset key (waiting (pc_packet_queue pc)) + H + L = E + mset (made s) \<and> (fst m \<longrightarrow> L = {#}))"

lemma sound_vital: "vital pc' = vital pc \<Longrightarrow> sound m E H pc' s = sound m E H pc s"
  using vital_pc [of pc' pc] by (simp add: sound_def)

lemmas sound_updates [simp] = vital_updates [THEN sound_vital] vital_ops [THEN sound_vital]

lemma sound_prober: "sound m E H pc s \<Longrightarrow> prober_ok b \<Longrightarrow> (fst m \<Longrightarrow> bp_clusters b = []) \<Longrightarrow> sound m E H (pc\<lparr>pc_prober := b\<rparr>) s"
  using rates_settings [of "pc\<lparr>pc_prober := b\<rparr>" pc] by (simp add: sound_def)

lemma sound_fewer_clusters:
  "sound m E H pc s \<Longrightarrow> prober_ok b \<Longrightarrow> set (bp_clusters b) \<subseteq> set (bp_clusters (pc_prober pc)) \<Longrightarrow> sound m E H (pc\<lparr>pc_prober := b\<rparr>) s"
  by (rule sound_prober) (auto simp: sound_def)

lemma sound_queue:
  assumes "sound m E H pc s" and "queue_good q" and "waiting q = waiting (pc_packet_queue pc)"
  shows "sound m E H (pc\<lparr>pc_packet_queue := q\<rparr>) s"
  using assms by (simp add: sound_def rates_ok_def)

lemma sound_world: "sound m E H pc s \<Longrightarrow> wf s' \<Longrightarrow> live s' = live s \<Longrightarrow> sent s' = sent s \<Longrightarrow> made s' = made s @ map key ps \<Longrightarrow> sound m E (image_mset key (mset ps) + H) pc s'"
  by (auto simp: sound_def ac_simps)

lemma sound_discard: "sound m E (K + H) pc s \<Longrightarrow> (fst m \<Longrightarrow> K = {#}) \<Longrightarrow> sound m E H pc s"
proof -
  assume s: "sound m E (K + H) pc s" and K: "fst m \<Longrightarrow> K = {#}"
  then obtain L where "mset (sent s) + image_mset key (waiting (pc_packet_queue pc)) + (K + H) + L = E + mset (made s)" "fst m \<longrightarrow> L = {#}"
    by (auto simp: sound_def)
  then have "mset (sent s) + image_mset key (waiting (pc_packet_queue pc)) + H + (K + L) = E + mset (made s)" "fst m \<longrightarrow> K + L = {#}"
    using K by (simp_all add: ac_simps)
  then show ?thesis using s unfolding sound_def by blast
qed

lemma CurrentTime_sound: "sound m E H pc s \<Longrightarrow> yields (CurrentTime env pc s) (\<lambda>(now, pc, s). sound m E H pc s)"
proof -
  assume s: "sound m E H pc s"
  obtain t s' where t: "ps_CurrentTime env s = (t, s')" by fastforce
  have "wf s" using s by (simp add: sound_def)
  from clock [OF this t] have "sound m E H pc s'" using sound_world [OF s, of s' "[]"] by simp
  then show ?thesis by (simp add: CurrentTime_def t Let_def)
qed

lemma MaybeUpdate_sound:
  assumes "sound m E H pc s"
  shows "sound m E H (MaybeUpdateMediaRateDueToLongQueue pc now) s"
  using assms Update_good [where q = "pc_packet_queue pc" and now = now]
  by (auto simp: MaybeUpdateMediaRateDueToLongQueue_def Let_def sound_def rates_ok_def)

lemma NextSendTime_sound:
  assumes "sound m E H pc s"
  shows "yields (NextSendTime env pc s) (\<lambda>(t, pc, s). sound m E H pc s)"
  unfolding NextSendTime_def
proof (rule yields_bind [OF CurrentTime_sound [OF assms]], goal_cases)
  case (1 x)
  then obtain now pc s where x: "x = (now, pc, s)" "sound m E H pc s" by (cases x) auto
  then obtain t where "planned_send_time pc now = Some t" using planned_send_time_good [of pc now] by (auto simp: sound_def)
  then show ?case using x by simp
qed

lemma Remove_sound:
  assumes "sound m E H pc s" and "\<not> fst m"
  shows "yields (Pacer_RemovePacketsForSsrc pc ssrc) (\<lambda>pc. sound m E H pc s)"
proof -
  let ?w = "waiting (pc_packet_queue pc)"
  obtain q where q: "RemovePacketsForSsrc (pc_packet_queue pc) ssrc = Some q" "queue_good q" "waiting q \<subseteq># ?w"
    using Remove_good [of "pc_packet_queue pc" ssrc] assms(1) by (auto simp: sound_def)
  obtain L where "mset (sent s) + image_mset key ?w + H + L = E + mset (made s)" using assms(1) by (auto simp: sound_def)
  moreover have "image_mset key ?w = image_mset key (waiting q) + image_mset key (?w - waiting q)"
    using q(3) by (metis image_mset_union subset_mset.add_diff_inverse)
  ultimately have "mset (sent s) + image_mset key (waiting q) + H + (image_mset key (?w - waiting q) + L) = E + mset (made s)"
    by (simp add: ac_simps)
  then show ?thesis using assms q(1,2) by (auto simp: Pacer_RemovePacketsForSsrc_def sound_def rates_ok_def)
qed

lemma Push_sound:
  assumes "sound m E (add_mset (key packet) H) pc s" and "ts_packet_type packet \<noteq> None"
  shows "yields (Push (pc_packet_queue pc) now packet) (\<lambda>q. sound m E H (pc\<lparr>pc_packet_queue := q\<rparr>) s)"
proof -
  obtain q where "Push (pc_packet_queue pc) now packet = Some q" "queue_good q" "waiting q = add_mset packet (waiting (pc_packet_queue pc))"
    using Push_good [of "pc_packet_queue pc" packet now] assms by (auto simp: sound_def)
  then show ?thesis using assms(1) by (auto simp: sound_def rates_ok_def)
qed

text \<open>The first packet of a key frame may flush the packets before it.\<close>

definition flushes :: "RtpPacketToSend \<Rightarrow> bool" where
  "flushes packet \<longleftrightarrow> ts_packet_type packet = Some kVideo \<and> ts_is_key_frame packet \<and> ts_is_first_packet_of_frame packet"

lemma EnqueuePacket_sound:
  assumes "sound m E (add_mset (key packet) H) pc s" and "ts_packet_type packet \<noteq> None" and "fst m \<longrightarrow> \<not> flushes packet"
  shows "yields (EnqueuePacket env pc packet s) (\<lambda>(pc, s). sound m E H pc s)"
proof -
  let ?H = "add_mset (key packet) H" let ?ssrc = "rp_ssrc (ts_packet packet)"
  have 1: "yields (if pc_keyframe_flushing pc \<and> ts_packet_type packet = Some kVideo \<and> ts_is_key_frame packet \<and>
              ts_is_first_packet_of_frame packet \<and> \<not> HasKeyframePackets (pc_packet_queue pc) ?ssrc
            then Pacer_RemovePacketsForSsrc pc ?ssrc else Some pc) (\<lambda>pc. sound m E ?H pc s)"
    using assms Remove_sound [of m E ?H pc s ?ssrc] by (auto simp: flushes_def)
  have 2: "sound m E ?H (pc\<lparr>pc_prober := OnIncomingPacket (pc_prober pc) sz\<rparr>) s" if "sound m E ?H pc s" for pc sz
    using that by (intro sound_fewer_clusters) (simp_all add: OnIncomingPacket_def MaybeSetActive_good sound_def)
  have 3: "yields (if Queue_Empty (pc_packet_queue pc) then do {
          (next_send_time, pc, s) \<leftarrow> NextSendTime env pc s;
          let target_process_time = (if IsFinite next_send_time then min now next_send_time else now) in
          Some (drain_until pc target_process_time, s) }
        else Some (pc, s)) (\<lambda>(pc, s). sound m E ?H pc s)" if "sound m E ?H pc s" for pc s now
    using that by (auto intro!: yields_bind [OF NextSendTime_sound [OF that]])
  have 4: "yields (do { q \<leftarrow> Push (pc_packet_queue pc) now packet;
        Some (MaybeUpdateMediaRateDueToLongQueue (pc\<lparr>pc_packet_queue := q, pc_seen_first_packet := True\<rparr>) now, s) })
      (\<lambda>(pc, s). sound m E H pc s)" if "sound m E ?H pc s" for pc s now
    by (rule yields_bind [OF Push_sound [OF that assms(2)]]) (simp add: MaybeUpdate_sound)
  have 5: "yields (do { (pc, s) \<leftarrow> (if Queue_Empty (pc_packet_queue pc) then do {
          (next_send_time, pc, s) \<leftarrow> NextSendTime env pc s;
          Some (drain_until pc (if IsFinite next_send_time then min now next_send_time else now), s) }
        else Some (pc, s));
      q \<leftarrow> Push (pc_packet_queue pc) now packet;
      Some (MaybeUpdateMediaRateDueToLongQueue (pc\<lparr>pc_packet_queue := q, pc_seen_first_packet := True\<rparr>) now, s) })
      (\<lambda>(pc, s). sound m E H pc s)" if "sound m E ?H pc s" for pc s now
    by (rule yields_bind [OF 3 [OF that, unfolded Let_def]]) (use 4 in auto)
  have 6: "sound m E ?H (if is_probing (pc_prober pc) then ClearProbingSendFailure pc else pc) s" if "sound m E ?H pc s" for pc
    using that by simp
  show ?thesis
    unfolding EnqueuePacket_def Let_def
    by (rule yields_bind [OF 1], rule yields_bind [OF CurrentTime_sound [OF 6 [OF 2]]], assumption) (use 5 in auto)
qed

lemma enqueue_each_sound:
  assumes "sound m E (image_mset key (mset ps) + H) pc s" and "\<forall>p \<in> set ps. ts_packet_type p \<noteq> None \<and> \<not> flushes p"
  shows "yields (enqueue_each env ps (pc, s)) (\<lambda>(pc, s). sound m E H pc s)"
  using assms
proof (induction ps arbitrary: pc s)
  case (Cons p ps)
  have "yields (EnqueuePacket env pc p s) (\<lambda>(pc, s). sound m E (image_mset key (mset ps) + H) pc s)"
    using Cons.prems by (intro EnqueuePacket_sound) simp_all
  then show ?case by (simp, elim yields_bind) (use Cons in auto)
qed simp

lemma send_and_fetch_fec_sound:
  assumes "sound m E (add_mset (key packet) H) pc s" and "fst (snd m)"
  shows "yields (send_and_fetch_fec env packet info (pc, s)) (\<lambda>(pc, s). sound m E H pc s)"
proof -
  have live: "wf s" "live s" using assms by (simp_all add: sound_def)
  have 1: "yields (ps_SendPacket env packet info s) (\<lambda>s'. sound m E H pc s')"
    by (rule yields_mono [OF send [OF live]]) (use assms live in \<open>auto simp: sound_def\<close>)
  have 2: "yields (case ps_FetchFec env s' of (fec, s) \<Rightarrow> enqueue_each env fec (pc, s)) (\<lambda>(pc, s). sound m E H pc s)"
    if "sound m E H pc s'" for s'
  proof (cases "ps_FetchFec env s'")
    case (Pair ps s1)
    have "wf s'" using that by (simp add: sound_def)
    note f = fec [OF this Pair]
    show ?thesis unfolding Pair prod.case
      by (rule enqueue_each_sound, rule sound_world [OF that]) (use f in \<open>auto simp: flushes_def\<close>)
  qed
  show ?thesis unfolding send_and_fetch_fec_def prod.case by (rule yields_bind [OF 1 2])
qed

lemma GeneratePadding_sound:
  assumes "sound m E H pc s"
  shows "yields (ps_GeneratePadding env sz s)
    (\<lambda>(ps, s). sound m E (image_mset key (mset ps) + H) pc s \<and> (\<forall>p \<in> set ps. ts_packet_type p = Some kPadding))"
proof (rule yields_mono [OF padding], goal_cases)
  case (2 x)
  then show ?case using sound_world [OF assms] by (cases x) auto
qed (use assms in \<open>simp add: sound_def\<close>)

text \<open>In hand after the choice of a packet.\<close>

definition chosen :: "bool \<times> bool \<times> PacingController \<Rightarrow> 'k multiset \<Rightarrow> RtpPacketToSend option \<Rightarrow> PacingController \<times> 's \<Rightarrow> bool" where
  "chosen m E packet st = (case packet of None \<Rightarrow> sound m E {#} (fst st) (snd st)
     | Some p \<Rightarrow> ts_packet_type p \<noteq> None \<and> sound m E {#key p#} (fst st) (snd st))"

lemma Pop_sound:
  assumes "sound m E {#} pc s" and "\<not> Queue_Empty (pc_packet_queue pc)"
  shows "yields (do { (packet, q) \<leftarrow> Pop (pc_packet_queue pc); Some (packet, pc\<lparr>pc_packet_queue := q\<rparr>, s) }) (\<lambda>(packet, st). chosen m E packet st)"
proof -
  have q: "queue_good (pc_packet_queue pc)" using assms(1) by (simp add: sound_def)
  obtain p x q' where "Pop (pc_packet_queue pc) = Some (Some (p\<lparr>ts_time_in_send_queue := x\<rparr>), q')" "queue_good q'"
      "waiting (pc_packet_queue pc) = add_mset p (waiting q')"
    using Pop_good [OF q] assms(2) by (auto simp: Queue_Empty_def)
  then show ?thesis using assms(1) queue_good_typed [OF q, of p] by (auto simp: chosen_def key_stamp sound_def rates_ok_def)
qed

lemma GetPendingPacket_sound:
  assumes "sound m E {#} pc s" and "fst m \<longrightarrow> ppi_probe_cluster_id info = kNotAProbe"
  shows "yields (GetPendingPacket env info target now (pc, s)) (\<lambda>(packet, st). chosen m E packet st)"
proof -
  let ?probe = "ppi_probe_cluster_id info \<noteq> kNotAProbe"
  have 1: "yields (if ?probe \<and> ppi_probe_cluster_bytes_sent info = 0 then ps_GeneratePadding env 1 s else Some ([], s))
      (\<lambda>(ps, s). sound m E (image_mset key (mset ps)) pc s \<and> (\<forall>p \<in> set ps. ts_packet_type p = Some kPadding) \<and> (ps \<noteq> [] \<longrightarrow> \<not> fst m))"
    using assms by (auto intro!: yields_mono [OF GeneratePadding_sound [OF assms(1), of 1]])
  have 2: "chosen m E (Some p) (pc, s')" if "sound m E (image_mset key (mset (p # ps))) pc s'" "\<not> fst m" "ts_packet_type p = Some kPadding" for p ps s'
    using that sound_discard [of m E "image_mset key (mset ps)" "{#key p#}" pc s'] by (simp add: chosen_def)
  have 3: "yields (if Queue_Empty (pc_packet_queue pc) then Some (None, pc, s')
         else do {
           blocked \<leftarrow> send_blocked pc ?probe target now;
           if blocked then Some (None, pc, s')
           else do { (packet, q) \<leftarrow> Pop (pc_packet_queue pc); Some (packet, pc\<lparr>pc_packet_queue := q\<rparr>, s') } })
      (\<lambda>(packet, st). chosen m E packet st)" if "sound m E {#} pc s'" for s'
    using that send_blocked_good [of pc ?probe target now] Pop_sound [OF that] by (auto simp: chosen_def sound_def)
  show ?thesis unfolding GetPendingPacket_def Let_def prod.case
  proof (rule yields_bind [OF 1], goal_cases)
    case (1 x)
    then show ?case using 2 3 by (cases x; cases "fst x") auto
  qed
qed

text \<open>The state inside the loop.\<close>

definition looping :: "bool \<times> bool \<times> PacingController \<Rightarrow> 'k multiset \<Rightarrow> SendLoop \<Rightarrow> PacingController \<times> 's \<Rightarrow> bool" where
  "looping m E l st \<longleftrightarrow> sound m E {#} (fst st) (snd st) \<and> (fst m \<longrightarrow> ppi_probe_cluster_id (sl_pacing_info l) = kNotAProbe)"

lemma pad_step_sound:
  assumes "sound m E {#} pc s" and "fst m \<longrightarrow> ppi_probe_cluster_id (sl_pacing_info l) = kNotAProbe"
  shows "yields (pad_step env k l (pc, s)) (\<lambda>(c, l, st). looping m E l st)"
proof -
  obtain now probing size where k: "k = (now, probing, size)" by (cases k)
  let ?behind = "Timestamp_sub now (sl_target_send_time l) > kMaxPaddingReplayDuration"
  define l' where "l' = (if ?behind then l\<lparr>sl_target_send_time := Timestamp_sub_delta now kMaxPaddingReplayDuration\<rparr> else l)"
  define pc' where "pc' = (if ?behind then pc\<lparr>pc_last_process_time := max (pc_last_process_time pc) (sl_target_send_time l')\<rparr> else pc)"
  have s: "sound m E {#} pc' s" and l: "fst m \<longrightarrow> ppi_probe_cluster_id (sl_pacing_info l') = kNotAProbe"
    using assms by (simp_all add: pc'_def l'_def)
  have "yields (do {
       (padding_packets, s) \<leftarrow> ps_GeneratePadding env n s;
       if padding_packets \<noteq> [] then do { (pc, s) \<leftarrow> enqueue_each env padding_packets (pc', s); Some (True, l', pc, s) }
       else Some (False, l', UpdatePaddingBudgetWithSentData pc' n, s) }) (\<lambda>(c, l, st). looping m E l st)" for n
  proof (rule yields_bind [OF GeneratePadding_sound [OF s]], goal_cases)
    case (1 x)
    then obtain ps s' where x: "x = (ps, s')" "sound m E (image_mset key (mset ps) + {#}) pc' s'" "\<forall>p \<in> set ps. ts_packet_type p = Some kPadding"
      by (cases x) auto
    show ?case
    proof (cases "ps = []")
      case False
      have "yields (enqueue_each env ps (pc', s')) (\<lambda>(pc, s). sound m E {#} pc s)"
        by (rule enqueue_each_sound [OF x(2)]) (use x(3) in \<open>auto simp: flushes_def\<close>)
      from yields_bind [OF this, of "\<lambda>(pc, s). Some (True, l', pc, s)" "\<lambda>(c, l, st). looping m E l st"] show ?thesis
        using False l by (auto simp: x(1) looping_def)
    qed (use x l in \<open>simp add: looping_def\<close>)
  qed
  then show ?thesis using s l
    unfolding pad_step_def k prod.case Let_def l'_def [symmetric] pc'_def [symmetric] by (auto simp: looping_def)
qed

lemma send_step_sound:
  assumes "sound m E {#key packet#} pc s" and "fst m \<longrightarrow> ppi_probe_cluster_id (sl_pacing_info l) = kNotAProbe"
    and "ts_packet_type packet \<noteq> None" and "fst (snd m)"
  shows "yields (send_step env k packet l (pc, s)) (\<lambda>(c, l, st). looping m E l st)"
proof -
  obtain now probing size where k: "k = (now, probing, size)" by (cases k)
  obtain ty where ty: "ts_packet_type packet = Some ty" using assms(3) by auto
  have N: "yields (do { (target, pc, s) \<leftarrow> NextSendTime env pc s; f target pc s }) Q"
    if "sound m E {#} pc s" "\<And>t pc s. sound m E {#} pc s \<Longrightarrow> yields (f t pc s) Q" for f Q pc s
    by (rule yields_bind [OF NextSendTime_sound [OF that(1)]]) (use that(2) in auto)
  show ?thesis
    unfolding send_step_def k prod.case ty Option.bind.simps Let_def
    by (rule yields_bind [OF send_and_fetch_fec_sound [OF assms(1,4)]])
      (use assms(2) in \<open>auto simp: looping_def intro!: N\<close>)
qed

lemma loop_step_sound:
  assumes "looping m E l (pc, s)" and "fst (snd m)"
  shows "yields (loop_step env k l (pc, s)) (\<lambda>(c, l, st). looping m E l st)"
proof -
  have 1: "sound m E {#} pc s" "fst m \<longrightarrow> ppi_probe_cluster_id (sl_pacing_info l) = kNotAProbe" using assms(1) by (simp_all add: looping_def)
  show ?thesis unfolding loop_step_def
  proof (rule yields_bind [OF GetPendingPacket_sound [OF 1]], goal_cases)
    case (1 x)
    then show ?case using pad_step_sound [OF _ \<open>fst m \<longrightarrow> _\<close>] send_step_sound [OF _ \<open>fst m \<longrightarrow> _\<close> _ assms(2)]
      by (cases x; cases "fst x") (auto simp: chosen_def)
  qed
qed

lemma send_loop_sound:
  assumes "looping m E l st" and "fst (snd m)"
  shows "yields (send_loop env k n c l st) (\<lambda>(c, l, st). looping m E l st)"
  using assms(1)
proof (induction "nat n" arbitrary: n c l st)
  case 0
  then show ?case by (cases c) simp_all
next
  case (Suc i)
  show ?case
  proof (cases c)
    case True
    have 1: "yields (loop_step env k l st) (\<lambda>(c, l, st). looping m E l st)"
      using loop_step_sound [of m E l "fst st" "snd st"] Suc.prems assms(2) by simp
    have "yields (do { (c, l, st) \<leftarrow> loop_step env k l st; send_loop env k (n - 1) c l st }) (\<lambda>(c, l, st). looping m E l st)"
      by (rule yields_bind [OF 1]) (use Suc.hyps in \<open>auto simp: nat_diff_distrib'\<close>)
    then show ?thesis using True Suc.prems by simp
  qed (use Suc.prems in simp)
qed

lemma send_keepalives_sound:
  assumes "sound m E (image_mset key (mset ps)) pc s" and "fst (snd m)"
  shows "yields (send_keepalives env ps n (pc, s)) (\<lambda>(n, pc, s). sound m E {#} pc s)"
  using assms(1)
proof (induction ps arbitrary: n pc s)
  case (Cons p ps)
  have "sound m E (add_mset (key p) (image_mset key (mset ps))) pc s" using Cons.prems by simp
  show ?case unfolding send_keepalives.simps Let_def
    by (rule yields_bind [OF send_and_fetch_fec_sound [OF \<open>sound m E (add_mset _ _) pc s\<close> assms(2)]]) (use Cons.IH in auto)
qed simp

lemma process_keepalive_sound:
  assumes "sound m E {#} pc s" and "fst (snd m)"
  shows "yields (process_keepalive env now (pc, s)) (\<lambda>(pc, s). sound m E {#} pc s)"
proof -
  have G: "yields (do { (ps, s) \<leftarrow> ps_GeneratePadding env 1 s; send_keepalives env ps 0 (pc, s) }) (\<lambda>(n, pc, s). sound m E {#} pc s)"
    by (rule yields_bind [OF GeneratePadding_sound [OF assms(1)]]) (use assms(2) in \<open>auto intro: send_keepalives_sound\<close>)
  have "yields (if pc_seen_first_packet pc then do { (ps, s) \<leftarrow> ps_GeneratePadding env 1 s; send_keepalives env ps 0 (pc, s) }
      else Some (0, pc, s)) (\<lambda>(n, pc, s). sound m E {#} pc s)" using G assms(1) by simp
  from yields_bind [OF this, of "\<lambda>(n, pc, s). Some (OnPacketSent pc kPadding n now, s)"] show ?thesis
    using assms(1) by (auto simp: process_keepalive_def)
qed

lemma choose_probe_sound:
  assumes "sound m E H pc s" and "choose_probe pc now = (info, probing, sz, pc')"
  shows "sound m E H pc' s" "fst m \<longrightarrow> ppi_probe_cluster_id info = kNotAProbe"
proof -
  obtain i b where c: "CurrentCluster (pc_prober pc) now = (i, b)" by fastforce
  have "prober_ok (pc_prober pc)" using assms(1) by (simp add: sound_def)
  note cl = CurrentCluster_good [OF c this]
  have "sound m E H (pc\<lparr>pc_prober := b\<rparr>) s" by (rule sound_fewer_clusters [OF assms(1) cl(1,2)])
  then show "sound m E H pc' s" using assms by (auto simp: choose_probe_def c Let_def split: if_splits)
  have "fst m \<Longrightarrow> i = None" using cl(3) assms(1) by (simp add: sound_def)
  then show "fst m \<longrightarrow> ppi_probe_cluster_id info = kNotAProbe"
    using assms(2) by (auto simp: choose_probe_def c Let_def new_PacedPacketInfo_def split: if_splits)
qed

lemma finish_probe_sound:
  assumes "sound m E {#} pc s"
  shows "yields (finish_probe env probing l (pc, s)) (\<lambda>(pc, s). sound m E {#} pc s)"
proof -
  have "yields (do { b \<leftarrow> ProbeSent (pc_prober pc) now n k; Some (pc\<lparr>pc_prober := b\<rparr>, s) }) (\<lambda>(pc, s). sound m E {#} pc s)"
    if "sound m E {#} pc s" for now n k pc s
    by (rule yields_bind [OF ProbeSent_good]) (use that in \<open>auto simp: sound_def rates_ok_def\<close>)
  then have "yields (do { (now, pc, s) \<leftarrow> CurrentTime env pc s; b \<leftarrow> ProbeSent (pc_prober pc) now n k; Some (pc\<lparr>pc_prober := b\<rparr>, s) })
      (\<lambda>(pc, s). sound m E {#} pc s)" if "sound m E {#} pc s" for n k pc
    by (intro yields_bind [OF CurrentTime_sound [OF that]]) auto
  then show ?thesis using assms unfolding finish_probe_def by (auto simp: Let_def)
qed

lemma process_due_sound:
  assumes "sound m E {#} pc s" and "fst (snd m)"
  shows "yields (process_due env now target (pc, s)) (\<lambda>(pc, s). sound m E {#} pc s)"
proof -
  obtain e pc1 where e: "UpdateTimeAndGetElapsed pc target = (e, pc1)" by fastforce
  define pc2 where "pc2 = (if e > 0 then UpdateBudgetWithElapsedTime pc1 e else pc1)"
  obtain info probing sz pc3 where c: "choose_probe pc2 now = (info, probing, sz, pc3)" by (metis prod_cases4)
  have "sound m E {#} pc1 s" using assms(1) sound_vital [OF vital_ops(3)] e by (metis snd_conv)
  then have 2: "sound m E {#} pc2 s" by (simp add: pc2_def)
  let ?l = "\<lparr>sl_pacing_info = info, sl_target_send_time = target, sl_data_sent = 0, sl_packets_sent = 0\<rparr>"
  have 3: "looping m E ?l (pc3, s)" using choose_probe_sound [OF 2 c] by (simp add: looping_def)
  have F: "yields (do { (pc, s) \<leftarrow> finish_probe env probing l (pc, s); (now, pc, s) \<leftarrow> CurrentTime env pc s;
      Some (MaybeUpdateMediaRateDueToLongQueue pc now, s) }) (\<lambda>(pc, s). sound m E {#} pc s)" if "sound m E {#} pc s" for l pc s
  proof (rule yields_bind [OF finish_probe_sound [OF that]], goal_cases)
    case (1 x)
    then have "sound m E {#} (fst x) (snd x)" by (cases x) simp
    from yields_bind [OF CurrentTime_sound [OF this], of "\<lambda>(now, pc, s). Some (MaybeUpdateMediaRateDueToLongQueue pc now, s)" "\<lambda>(pc, s). sound m E {#} pc s"]
    show ?case by (cases x) (simp add: case_prod_beta MaybeUpdate_sound)
  qed
  show ?thesis
    unfolding process_due_def prod.case e pc2_def [symmetric] c Let_def
    by (rule yields_bind [OF send_loop_sound [OF 3 assms(2)]]) (use F in \<open>auto simp: looping_def\<close>)
qed

theorem ProcessPackets_sound:
  assumes "sound m E {#} pc s" and "fst (snd m)"
  shows "yields (ProcessPackets env pc s) (\<lambda>(pc, s). sound m E {#} pc s)"
proof -
  have 1: "yields (do { (target, pc, s) \<leftarrow> NextSendTime env pc s;
       if Timestamp_add now margin < target then Some (drain_until pc now, s)
       else process_due env now target (pc, s) }) (\<lambda>(pc, s). sound m E {#} pc s)" if "sound m E {#} pc s" for now margin pc s
    by (rule yields_bind [OF NextSendTime_sound [OF that]]) (use process_due_sound [OF _ assms(2)] in auto)
  have 2: "yields (do { (pc, s) \<leftarrow> process_keepalive env now (pc, s);
       if pc_paused pc then Some (pc, s)
       else do { (target, pc', s) \<leftarrow> NextSendTime env pc s;
         if Timestamp_add now (if is_probing (pc_prober pc) then kMaxEarlyProbeProcessing else 0) < target then Some (drain_until pc' now, s)
         else process_due env now target (pc', s) } }) (\<lambda>(pc, s). sound m E {#} pc s)" if "sound m E {#} pc s" for now pc s
    by (rule yields_bind [OF process_keepalive_sound [OF that assms(2)]]) (use 1 in auto)
  have 3: "sound m E {#} (if r then (pc\<lparr>pc_prober := b\<rparr>)\<lparr>pc_probing_send_failure := False\<rparr> else pc\<lparr>pc_prober := b\<rparr>) s"
    if "sound m E {#} pc s" "RemoveExpiredClusters (pc_prober pc) now = (r, b)" for pc s r b now
  proof -
    have "prober_ok (pc_prober pc)" using that(1) by (simp add: sound_def)
    from RemoveExpired_good [OF this, of now] have "sound m E {#} (pc\<lparr>pc_prober := b\<rparr>) s" using sound_fewer_clusters [OF that(1), of b] that(2) by simp
    then show ?thesis by simp
  qed
  show ?thesis
    unfolding ProcessPackets_def
  proof (rule yields_bind [OF CurrentTime_sound [OF assms(1)]], goal_cases)
    case (1 x)
    then obtain now pc s where x: "x = (now, pc, s)" "sound m E {#} pc s" by (cases x) auto
    obtain r b where r: "RemoveExpiredClusters (pc_prober pc) now = (r, b)" by fastforce
    show ?case unfolding x(1) prod.case r Let_def by (rule 2 [OF 3 [OF x(2) r]])
  qed
qed

end

end
