(* ===== verification/PacerRuns.thy ===== *)
theory PacerRuns
  imports PacerInv
begin

text \<open>
  Executions of the pacer: sequences of operations of the controller, with the class \<open>PacedSender\<close> as
  its sender, and sequences of the tasks of \<open>PacedSender\<close>.
\<close>

section \<open>Operations of the controller\<close>

datatype PacerOp = EnqueueOp RtpPacketToSend | ProcessOp | NextSendTimeOp | PauseOp | ResumeOp | CongestedOp bool | RatesOp unit_value unit_value |
  ClustersOp "ProbeClusterConfig list" | AbortOp | ProbingOp bool | AllowProbeOp bool | RemoveOp u32 | BurstOp time_delta | LimitOp time_delta |
  AudioOp bool | IncludeOverheadOp | OverheadOp unit_value | BreakerOp int

fun controller_op :: "'s PacketSender \<Rightarrow> PacerOp \<Rightarrow> PacingController \<times> 's \<Rightarrow> (PacingController \<times> 's) option" where
  "controller_op env (EnqueueOp packet) (pc, s) = EnqueuePacket env pc packet s"
| "controller_op env ProcessOp (pc, s) = ProcessPackets env pc s"
| "controller_op env NextSendTimeOp (pc, s) = map_option snd (NextSendTime env pc s)"
| "controller_op env PauseOp (pc, s) = Pause env pc s"
| "controller_op env ResumeOp (pc, s) = Resume env pc s"
| "controller_op env (CongestedOp congested) (pc, s) = SetCongested env pc congested s"
| "controller_op env (RatesOp pacing_rate padding_rate) (pc, s) = SetPacingRates env pc pacing_rate padding_rate s"
| "controller_op env (ClustersOp configs) (pc, s) = Some (CreateProbeClusters pc configs, s)"
| "controller_op env AbortOp (pc, s) = Some (AbortProbing pc, s)"
| "controller_op env (ProbingOp enabled) (pc, s) = Some (SetProbingEnabled pc enabled, s)"
| "controller_op env (AllowProbeOp allow) (pc, s) = Some (SetAllowProbeWithoutMediaPacket pc allow, s)"
| "controller_op env (RemoveOp ssrc) (pc, s) = map_option (\<lambda>pc. (pc, s)) (Pacer_RemovePacketsForSsrc pc ssrc)"
| "controller_op env (BurstOp burst_interval) (pc, s) = Some (SetSendBurstInterval pc burst_interval, s)"
| "controller_op env (LimitOp limit) (pc, s) = Some (SetQueueTimeLimit pc limit, s)"
| "controller_op env (AudioOp account_for_audio) (pc, s) = Some (SetAccountForAudioPackets pc account_for_audio, s)"
| "controller_op env IncludeOverheadOp (pc, s) = Some (SetIncludeOverhead pc, s)"
| "controller_op env (OverheadOp overhead) (pc, s) = Some (SetTransportOverhead pc overhead, s)"
| "controller_op env (BreakerOp n) (pc, s) = Some (SetCircuitBreakerThreshold pc n, s)"

text \<open>Packets have types, and rates are positive.\<close>

fun valid_op :: "PacerOp \<Rightarrow> bool" where
  "valid_op (EnqueueOp packet) = (ts_packet_type packet \<noteq> None)"
| "valid_op (RatesOp pacing_rate padding_rate) = (0 < pacing_rate \<and> 0 \<le> padding_rate)"
| "valid_op (ClustersOp configs) = list_all (\<lambda>c. 0 < pcc_target_data_rate c) configs"
| "valid_op _ = True"

text \<open>The operations of a run in which nothing may be discarded.\<close>

definition flush_packet :: "RtpPacketToSend \<Rightarrow> bool" where
  "flush_packet packet \<longleftrightarrow> ts_packet_type packet = Some kVideo \<and> ts_is_key_frame packet \<and> ts_is_first_packet_of_frame packet"

fun keeps_all :: "PacerOp \<Rightarrow> bool" where
  "keeps_all (EnqueueOp packet) = (\<not> flush_packet packet)"
| "keeps_all (ClustersOp configs) = False"
| "keeps_all (RemoveOp ssrc) = False"
| "keeps_all _ = True"

fun entering :: "PacerOp \<Rightarrow> RtpPacketToSend list" where
  "entering (EnqueueOp packet) = [packet]"
| "entering _ = []"

lemma prober_settings [simp]:
  "bp_clusters (SetEnabled b e) = bp_clusters b" "bp_clusters (Prober_SetAllowProbeWithoutMediaPacket b a) = bp_clusters b"
  "bp_clusters (Prober_AbortProbing b) = []"
  by (simp_all add: SetEnabled_def Prober_SetAllowProbeWithoutMediaPacket_def Prober_AbortProbing_def Let_def)

lemma allow_good: "prober_ok b \<Longrightarrow> prober_ok (Prober_SetAllowProbeWithoutMediaPacket b a)"
  unfolding Prober_SetAllowProbeWithoutMediaPacket_def by (rule MaybeSetActive_good) (simp add: prober_ok_def is_probing_def)

lemma CreateProbeClusters_good:
  "prober_ok b \<Longrightarrow> list_all (\<lambda>c. 0 < pcc_target_data_rate c) cs \<Longrightarrow> prober_ok (fold (\<lambda>config b. CreateProbeCluster b config) cs b)"
  by (induction cs arbitrary: b) (auto simp: CreateProbeCluster_good)

text \<open>The rate that is computed does not depend on the rate before.\<close>

lemma MaybeUpdate_any_rate:
  "MaybeUpdateMediaRateDueToLongQueue (pc\<lparr>pc_adjusted_media_rate := r\<rparr>) now = MaybeUpdateMediaRateDueToLongQueue pc now"
  by (simp add: MaybeUpdateMediaRateDueToLongQueue_def QueueSizeData_def Let_def)

lemma SetPacingRates_any:
  "SetPacingRates env pc r r' s = do {
     (now, pc, s) \<leftarrow> CurrentTime env (pc\<lparr>pc_pacing_rate := r, pc_padding_rate := min r r', pc_adjusted_media_rate := r\<rparr>) s;
     Some (MaybeUpdateMediaRateDueToLongQueue pc now, s) }"
proof -
  define pc' where "pc' = pc\<lparr>pc_pacing_rate := r, pc_padding_rate := min r r'\<rparr>"
  have c: "CurrentTime env (pc'\<lparr>pc_adjusted_media_rate := r\<rparr>) s = map_option (\<lambda>(now, pc, s). (now, pc\<lparr>pc_adjusted_media_rate := r\<rparr>, s)) (CurrentTime env pc' s)"
    by (simp add: CurrentTime_def Let_def case_prod_beta)
  have p: "pc\<lparr>pc_pacing_rate := r, pc_padding_rate := min r r', pc_adjusted_media_rate := r\<rparr> = pc'\<lparr>pc_adjusted_media_rate := r\<rparr>" by (simp add: pc'_def)
  have m: "(if r < r' then r else r') = min r r'" by (simp add: min_def)
  show ?thesis unfolding p c SetPacingRates_def m pc'_def [symmetric] Let_def
    by (cases "CurrentTime env pc' s") (auto simp: MaybeUpdate_any_rate)
qed

context packet_sender
begin

lemma flush_packet: "flush_packet packet = flushes packet"
  by (simp add: flush_packet_def flushes_def)

lemma sound_enter: "sound m E H pc s \<Longrightarrow> sound m (add_mset k E) (add_mset k H) pc s"
  by (auto simp: sound_def)

text \<open>The books between two operations.\<close>

definition booked :: "bool \<times> bool \<Rightarrow> 'k multiset \<Rightarrow> PacingController \<Rightarrow> 's \<Rightarrow> bool" where
  "booked m E pc s \<longleftrightarrow> sound (fst m, snd m, settings pc) E {#} pc s"

lemma booked_sound: "sound (fst m, snd m, k) E {#} pc s \<Longrightarrow> booked m E pc s"
  by (simp add: booked_def sound_def)

lemma booked_setting:
  assumes "booked m E pc s" and "pc_packet_queue pc' = pc_packet_queue pc" and "rates_ok pc'" and "prober_ok (pc_prober pc')"
    and "fst m \<Longrightarrow> bp_clusters (pc_prober pc') = []"
  shows "booked m E pc' s"
  using assms by (simp add: booked_def sound_def)

lemma booked_pause:
  assumes "booked m E pc s"
  shows "booked m E (pc\<lparr>pc_paused := b\<rparr>) s" "booked m E (pc\<lparr>pc_congested := b\<rparr>) s" "booked m E (pc\<lparr>pc_last_process_time := t\<rparr>) s"
    "booked m E (pc\<lparr>pc_probing_send_failure := b\<rparr>) s"
  using assms by (auto simp: booked_def sound_def rates_ok_def)

lemma CurrentTime_then:
  assumes "sound m E H pc s" and "\<And>now pc s. sound m E H pc s \<Longrightarrow> yields (f now pc s) Q"
  shows "yields (do { (now, pc, s) \<leftarrow> CurrentTime env pc s; f now pc s }) Q"
  by (rule yields_bind [OF CurrentTime_sound [OF assms(1)]]) (use assms(2) in auto)

lemma CurrentTime_booked:
  assumes "booked m E pc s" and "\<And>now pc s. booked m E pc s \<Longrightarrow> yields (f now pc s) Q"
  shows "yields (do { (now, pc, s) \<leftarrow> CurrentTime env pc s; f now pc s }) Q"
  by (rule CurrentTime_then [OF assms(1) [unfolded booked_def]]) (blast intro: assms(2) booked_sound)

lemma Pause_sound:
  assumes "booked m E pc s"
  shows "yields (Pause env pc s) (\<lambda>(pc, s). booked m E pc s)" "yields (Resume env pc s) (\<lambda>(pc, s). booked m E pc s)"
proof -
  have g: "booked m E (pc\<lparr>pc_packet_queue := SetPauseState (pc_packet_queue pc) b now\<rparr>) s" if "booked m E pc s" for pc s b now
    using that Update_good(3,4) [where q = "pc_packet_queue pc" and now = now and b = b] by (auto simp: booked_def sound_def rates_ok_def)
  show "yields (Pause env pc s) (\<lambda>(pc, s). booked m E pc s)"
    unfolding Pause_def Let_def by (rule CurrentTime_booked) (use assms g in \<open>auto simp: booked_pause\<close>)
  have 1: "booked m E ((if pc_paused pc then pc\<lparr>pc_last_process_time := now\<rparr> else pc)\<lparr>pc_paused := False\<rparr>) s" if "booked m E pc s" for pc s now
    using that booked_pause by simp
  show "yields (Resume env pc s) (\<lambda>(pc, s). booked m E pc s)"
    unfolding Resume_def Let_def by (rule CurrentTime_booked [OF assms]) (use g [OF 1] in simp)
qed

lemma SetCongested_sound:
  assumes "booked m E pc s"
  shows "yields (SetCongested env pc congested s) (\<lambda>(pc, s). booked m E pc s)"
proof -
  have d: "booked m E (drain_until pc now) s" if "booked m E pc s" for pc s now
    by (rule booked_sound [of _ "settings pc"]) (use that in \<open>simp add: booked_def\<close>)
  have 1: "yields (if b then do { (now, pc, s) \<leftarrow> CurrentTime env pc s; Some (drain_until pc now, s) } else Some (pc, s)) (\<lambda>(pc, s). booked m E pc s)" for b
    using assms d by (auto intro!: CurrentTime_booked)
  show ?thesis unfolding SetCongested_def Let_def
    by (rule yields_bind [OF 1]) (auto simp: ClearProbingSendFailure_def booked_pause)
qed

lemma SetPacingRates_sound:
  assumes "queue_good (pc_packet_queue pc)" and "\<And>r r'. 0 < r' \<Longrightarrow> 0 \<le> r \<Longrightarrow> r \<le> r' \<Longrightarrow>
      booked m E (pc\<lparr>pc_pacing_rate := r', pc_padding_rate := r, pc_adjusted_media_rate := r'\<rparr>) s"
    and "0 < pacing_rate" and "0 \<le> padding_rate"
  shows "yields (SetPacingRates env pc pacing_rate padding_rate s) (\<lambda>(pc, s). booked m E pc s)"
proof -
  have b: "booked m E (pc\<lparr>pc_pacing_rate := pacing_rate, pc_padding_rate := min pacing_rate padding_rate, pc_adjusted_media_rate := pacing_rate\<rparr>) s"
    using assms(3,4) by (intro assms(2)) auto
  show ?thesis unfolding SetPacingRates_any
    by (rule CurrentTime_booked [OF b]) (use MaybeUpdate_sound booked_sound in \<open>fastforce simp: booked_def\<close>)
qed

lemma rates_free:
  assumes "booked m E pc s" and "0 < r'" and "0 \<le> r" and "r \<le> r'"
  shows "booked m E (pc\<lparr>pc_pacing_rate := r', pc_padding_rate := r, pc_adjusted_media_rate := r'\<rparr>) s"
  using assms by (auto simp: booked_def sound_def rates_ok_def)

lemma controller_op_sound:
  assumes "booked m E pc s" and "snd m" and "valid_op e" and "fst m \<longrightarrow> keeps_all e"
  shows "yields (controller_op env e (pc, s)) (\<lambda>(pc, s). booked m (mset (map key (entering e)) + E) pc s)"
proof -
  have s: "sound (fst m, snd m, settings pc) E {#} pc s" and live: "fst (snd (fst m, snd m, settings pc))"
    using assms(1,2) by (simp_all add: booked_def)
  note set = booked_setting [OF assms(1)]
  have ok: "rates_ok pc" "prober_ok (pc_prober pc)" "fst m \<longrightarrow> bp_clusters (pc_prober pc) = []" "queue_good (pc_packet_queue pc)"
    using s by (simp_all add: sound_def)
  show ?thesis
  proof (cases e)
    case (EnqueueOp packet)
    then have "yields (EnqueuePacket env pc packet s) (\<lambda>(pc', s). sound (fst m, snd m, settings pc) (add_mset (key packet) E) {#} pc' s)"
      using EnqueuePacket_sound [OF sound_enter [OF s], of packet] assms(3,4) by (simp add: flush_packet)
    then show ?thesis using booked_sound [of m "settings pc" "add_mset (key packet) E"] by (auto simp: EnqueueOp yields_def)
  next
    case NextSendTimeOp
    then show ?thesis using NextSendTime_sound [OF s] booked_sound [of m "settings pc" E] by (auto simp: yields_def)
  next
    case ProcessOp
    then show ?thesis using ProcessPackets_sound [OF s live] booked_sound [of m "settings pc" E] by (auto simp: yields_def)
  next
    case PauseOp
    then show ?thesis using Pause_sound(1) [OF assms(1)] by simp
  next
    case ResumeOp
    then show ?thesis using Pause_sound(2) [OF assms(1)] by simp
  next
    case (CongestedOp b)
    then show ?thesis using SetCongested_sound [OF assms(1)] by simp
  next
    case (RatesOp r r')
    then show ?thesis using SetPacingRates_sound [OF ok(4) rates_free [OF assms(1)]] assms(3) by simp
  next
    case (ClustersOp cs)
    then show ?thesis using set [of "CreateProbeClusters pc cs"] CreateProbeClusters_good [OF ok(2), of cs] ok(1) assms(3,4)
      by (auto simp: CreateProbeClusters_def Let_def ClearProbingSendFailure_def rates_ok_def)
  next
    case AbortOp
    then show ?thesis using set [of "AbortProbing pc"] ok(1) by (auto simp: AbortProbing_def prober_ok_def rates_ok_def Prober_AbortProbing_def is_probing_def Let_def)
  next
    case (ProbingOp b)
    then show ?thesis using set [of "SetProbingEnabled pc b"] ok(1-3)
      by (auto simp: SetProbingEnabled_def prober_ok_def rates_ok_def SetEnabled_def is_probing_def)
  next
    case (AllowProbeOp b)
    have "booked m E (SetAllowProbeWithoutMediaPacket pc b) s"
      by (rule set) (use allow_good [OF ok(2), of b] ok(1,3) in
        \<open>auto simp: SetAllowProbeWithoutMediaPacket_def Let_def ClearProbingSendFailure_def rates_ok_def\<close>)
    then show ?thesis by (simp add: AllowProbeOp)
  next
    case (RemoveOp ssrc)
    then show ?thesis using Remove_sound [OF s, of ssrc] assms(4) booked_sound [of m "settings pc" E] by (auto simp: yields_def)
  qed (use set ok in \<open>auto simp: SetSendBurstInterval_def SetQueueTimeLimit_def SetAccountForAudioPackets_def SetIncludeOverhead_def SetTransportOverhead_def
    SetCircuitBreakerThreshold_def rates_ok_def\<close>)
qed

lemma controller_run_sound:
  assumes "booked m E pc s" and "snd m" and "list_all valid_op es" and "fst m \<longrightarrow> list_all keeps_all es"
  shows "yields (foldM (controller_op env) es (pc, s)) (\<lambda>(pc, s). booked m (mset (map key (concat (map entering es))) + E) pc s)"
  using assms(1,3,4)
proof (induction es arbitrary: pc s E)
  case (Cons e es)
  have 1: "yields (controller_op env e (pc, s)) (\<lambda>(pc, s). booked m (mset (map key (entering e)) + E) pc s)"
    by (rule controller_op_sound [OF Cons.prems(1) assms(2)]) (use Cons.prems in auto)
  show ?case unfolding foldM.simps
  proof (rule yields_bind [OF 1], goal_cases)
    case (1 x)
    then have "booked m (mset (map key (entering e)) + E) (fst x) (snd x)" by (cases x) simp
    from Cons.IH [OF this] Cons.prems(2,3) show ?case by (simp add: ac_simps)
  qed
qed simp

end

section \<open>The paced sender as the sender\<close>

text \<open>A packet, whatever sequence number and queue time it is given.\<close>

definition identity :: "RtpPacketToSend \<Rightarrow> RtpPacketToSend" where
  "identity t = t\<lparr>ts_packet := the (UpdateSequenceNumber (ts_packet t) 0), ts_time_in_send_queue := None\<rparr>"

definition out_live :: "PacerOutput \<Rightarrow> bool" where
  "out_live s \<longleftrightarrow> \<not> po_is_shutdown s"

definition sent_packets :: "PacerOutput \<Rightarrow> RtpPacketToSend list" where
  "sent_packets s = map (\<lambda>x. identity (fst x)) (po_sent s)"

definition made_packets :: "PacerOutput \<Rightarrow> RtpPacketToSend list" where
  "made_packets s = map identity (po_made s)"

lemma UpdateSequenceNumber_total: "\<exists>p'. UpdateSequenceNumber p n = Some p' \<and> rp_ssrc p' = rp_ssrc p \<and> UpdateSequenceNumber p' m = UpdateSequenceNumber p m"
  by (auto simp: UpdateSequenceNumber_def wr_def list_update_swap)

lemma SendPacket_total: "\<exists>t' seqs'. SendPacket seqs t = Some (t', seqs') \<and> identity t' = identity t"
proof -
  let ?n = "case seqs (rp_ssrc (ts_packet t)) of None \<Rightarrow> 1 | Some n \<Rightarrow> n"
  obtain p where "UpdateSequenceNumber (ts_packet t) ?n = Some p" "UpdateSequenceNumber p 0 = UpdateSequenceNumber (ts_packet t) 0"
    using UpdateSequenceNumber_total [of "ts_packet t" ?n 0] by blast
  then show ?thesis by (simp add: SendPacket_def Let_def identity_def)
qed

lemma stamp_padding_type: "p \<in> set (stamp_padding t n ps) \<Longrightarrow> ts_packet_type p = Some kPadding"
  by (induction ps arbitrary: n) (auto simp: set_packet_type_def Let_def)

lemma stamp_padding_labels: "map ts_transport_sequence_number (stamp_padding t n ps) = map (\<lambda>i. Some (n + int i)) [0..<length ps]"
proof (induction ps arbitrary: n)
  case (Cons p ps)
  have "map (\<lambda>i. Some (n + int i)) [0..<length (p # ps)] = Some n # map (\<lambda>i. Some (n + 1 + int i)) [0..<length ps]"
    by (simp add: upt_conv_Cons map_Suc_upt [symmetric] del: upt_Suc)
  then show ?case using Cons [of "n + 1"] by (simp add: set_packet_type_def Let_def del: upt_Suc)
qed simp

text \<open>Every packet has got a transport sequence number of its own, from zero on.\<close>

definition labelled :: "PacerOutput \<Rightarrow> bool" where
  "labelled s \<longleftrightarrow> 0 \<le> po_transport_seq s \<and>
     image_mset ts_transport_sequence_number (mset (po_entered s @ po_made s)) = mset (map (\<lambda>i. Some (int i)) [0..<nat (po_transport_seq s)])"

lemma labels_more:
  assumes "0 \<le> n"
  shows "map (\<lambda>i. Some (int i)) [0..<nat (n + int k)] = map (\<lambda>i. Some (int i)) [0..<nat n] @ map (\<lambda>i. Some (n + int i)) [0..<k]"
proof -
  have "[0..<nat n + k] = [0..<nat n] @ map (\<lambda>i. i + nat n) [0..<k]" by (simp add: upt_add_eq_append [of 0 "nat n"] map_add_upt add.commute [of k])
  then show ?thesis using assms by (simp add: nat_add_distrib ac_simps)
qed

lemma labelled_make:
  assumes "labelled s"
  shows "labelled (s\<lparr>po_transport_seq := po_transport_seq s + int (length ps), po_made := po_made s @ stamp_padding t (po_transport_seq s) ps\<rparr>)"
  using assms labels_more [of "po_transport_seq s" "length ps"] arg_cong [OF stamp_padding_labels [of t "po_transport_seq s" ps], of mset]
  by (simp add: labelled_def)

text \<open>The invariant between two packets from the channels; \<open>en\<close> are the packets that entered so far.\<close>

definition settled :: "RtpPacketToSend list \<Rightarrow> PacerOutput \<Rightarrow> bool" where
  "settled en s \<longleftrightarrow> labelled s \<and> po_entered s = en \<and> po_has_on_sent_packet_func s"

interpretation paced: packet_sender "paced_env clock pad" "settled en" out_live identity sent_packets made_packets
  for clock :: "nat \<Rightarrow> timestamp" and pad :: padding_func and en :: "RtpPacketToSend list"
proof
  fix s :: PacerOutput and t s' assume "settled en s" and "ps_CurrentTime (paced_env clock pad) s = (t, s')"
  then show "settled en s' \<and> out_live s' = out_live s \<and> sent_packets s' = sent_packets s \<and> made_packets s' = made_packets s"
    by (auto simp: paced_env_def Clock_CurrentTime_def out_live_def sent_packets_def made_packets_def settled_def labelled_def)
next
  fix s :: PacerOutput and packet info assume "settled en s" and "out_live s"
  then show "yields (ps_SendPacket (paced_env clock pad) packet info s)
      (\<lambda>s'. settled en s' \<and> out_live s' \<and> sent_packets s' = sent_packets s @ [identity packet] \<and> made_packets s' = made_packets s)"
    using SendPacket_total [of "po_ssrc_seq s" packet]
    by (auto simp: paced_env_def Paced_SendPacket_def out_live_def sent_packets_def made_packets_def settled_def labelled_def)
next
  fix s s' :: PacerOutput and ps assume "settled en s" and "ps_FetchFec (paced_env clock pad) s = (ps, s')"
  then show "settled en s' \<and> out_live s' = out_live s \<and> sent_packets s' = sent_packets s \<and> made_packets s' = made_packets s @ map identity ps \<and>
      (\<forall>p \<in> set ps. ts_packet_type p = Some kForwardErrorCorrection)"
    by (auto simp: paced_env_def Paced_FetchFec_def)
next
  fix s :: PacerOutput and sz assume l: "settled en s"
  then have "labelled (s\<lparr>po_clock_reads := n\<rparr>)" for n by (auto simp: settled_def labelled_def)
  from labelled_make [OF this, simplified] l
  show "yields (ps_GeneratePadding (paced_env clock pad) sz s) (\<lambda>(ps, s'). settled en s' \<and> out_live s' = out_live s \<and> sent_packets s' = sent_packets s \<and>
      made_packets s' = made_packets s @ map identity ps \<and> (\<forall>p \<in> set ps. ts_packet_type p = Some kPadding))"
    by (auto simp: paced_env_def Paced_GeneratePadding_def Clock_CurrentTime_def Let_def out_live_def sent_packets_def made_packets_def settled_def
      dest: stamp_padding_type)
next
  fix packet :: RtpPacketToSend and x
  show "identity (packet\<lparr>ts_time_in_send_queue := x\<rparr>) = identity packet" by (simp add: identity_def)
qed

end
