(* ===== verification/PacerProps.thy ===== *)
theory PacerProps
  imports PacerRuns
begin

text \<open>
  The tasks of \<open>PacedSender\<close> in any order, and the properties of the pacer: no operation faults, and
  no packet is lost or sent twice.
\<close>

section \<open>Tasks\<close>

datatype PacerTask = EnqueueTask "RtpPacketToSend list" | EnqueueOneTask RtpPacketToSend | ProcessTask timestamp | StartTask | TransportTask bool |
  ClustersTask "ProbeClusterConfig list" | PauseTask | ResumeTask | CongestedTask bool | RatesTask unit_value unit_value | RemoveTask u32 |
  AudioTask bool | IncludeOverheadTask | OverheadTask unit_value | LimitTask time_delta | BurstTask time_delta | AllowProbeTask bool | ShutdownTask

fun run_task :: "PacerOutput PacketSender \<Rightarrow> PacerTask \<Rightarrow> PacedSenderState \<Rightarrow> PacedSenderState option" where
  "run_task env (EnqueueTask packets) d = EnqueuePacketsOnQueue env packets d"
| "run_task env (EnqueueOneTask packet) d = Sender_EnqueuePacket env packet d"
| "run_task env (ProcessTask scheduled) d = MaybeProcessPackets env scheduled d"
| "run_task env StartTask d = EnsureStarted env d"
| "run_task env (TransportTask ready) d = SetTransportReady env ready d"
| "run_task env (ClustersTask configs) d = Sender_CreateProbeClusters env configs d"
| "run_task env PauseTask d = Sender_Pause env d"
| "run_task env ResumeTask d = Sender_Resume env d"
| "run_task env (CongestedTask congested) d = Sender_SetCongested env congested d"
| "run_task env (RatesTask pacing_rate padding_rate) d = Sender_SetPacingRates env pacing_rate padding_rate d"
| "run_task env (RemoveTask ssrc) d = Sender_RemovePacketsForSsrc env ssrc d"
| "run_task env (AudioTask account_for_audio) d = Sender_SetAccountForAudioPackets env account_for_audio d"
| "run_task env IncludeOverheadTask d = Sender_SetIncludeOverhead env d"
| "run_task env (OverheadTask overhead) d = Sender_SetTransportOverhead env overhead d"
| "run_task env (LimitTask limit) d = Sender_SetQueueTimeLimit env limit d"
| "run_task env (BurstTask burst_interval) d = Some (Sender_SetSendBurstInterval burst_interval d)"
| "run_task env (AllowProbeTask allow) d = Sender_SetAllowProbeWithoutMediaPacket env allow d"
| "run_task env ShutdownTask d = Some (Shutdown d)"

fun valid_task :: "PacerTask \<Rightarrow> bool" where
  "valid_task (EnqueueTask packets) = list_all (\<lambda>p. ts_packet_type p \<noteq> None) packets"
| "valid_task (EnqueueOneTask packet) = (ts_packet_type packet \<noteq> None)"
| "valid_task (RatesTask pacing_rate padding_rate) = (0 < pacing_rate \<and> 0 \<le> padding_rate)"
| "valid_task (ClustersTask configs) = list_all (\<lambda>c. 0 < pcc_target_data_rate c) configs"
| "valid_task _ = True"

fun keeping_task :: "PacerTask \<Rightarrow> bool" where
  "keeping_task (EnqueueTask packets) = list_all (\<lambda>p. \<not> flush_packet p) packets"
| "keeping_task (EnqueueOneTask packet) = (\<not> flush_packet packet)"
| "keeping_task (RemoveTask ssrc) = False"
| "keeping_task (ClustersTask configs) = False"
| "keeping_task _ = True"

text \<open>
  What \<open>IceTransportController::Create\<close> (\<open>src/transport/ice_transport_controller.cpp\<close>) does with a new
  paced sender.
\<close>

definition init_paced_sender :: "PacerOutput PacketSender \<Rightarrow> time_delta \<Rightarrow> PacedSenderState option" where
  "init_paced_sender env queue_limit = do {
     d \<leftarrow> Sender_SetPacingRates env 300000 0 (new_PacedSender env);
     let d = Sender_SetSendBurstInterval (Millis 40) d in do {
     d \<leftarrow> Sender_SetQueueTimeLimit env queue_limit d;
     d \<leftarrow> Sender_SetAllowProbeWithoutMediaPacket env False d;
     Some (SetOnSentPacketFunc d) } }"

section \<open>The books of the paced sender\<close>

text \<open>\<open>en\<close> are the packets of the channels that entered so far, with their transport sequence numbers.\<close>

definition paced_sound :: "bool \<Rightarrow> RtpPacketToSend list \<Rightarrow> PacedSenderState \<Rightarrow> bool" where
  "paced_sound strict en d \<longleftrightarrow> paced.booked en (strict, \<not> po_is_shutdown (pd_out d)) (mset (map identity en)) (pd_controller d) (pd_out d)"

lemma paced_sound_en: "paced.sound en m E H pc s \<Longrightarrow> po_entered s = en \<and> \<not> po_is_shutdown s = fst (snd m)"
  by (auto simp: paced.sound_def settled_def out_live_def)

lemma paced_soundB: "paced.booked en (strict, \<not> b) (mset (map identity en)) pc s \<Longrightarrow> paced_sound strict en (d\<lparr>pd_controller := pc, pd_out := s\<rparr>)"
  using paced_sound_en [of en "(strict, \<not> b, settings pc)"] by (fastforce simp: paced_sound_def paced.booked_def)

lemma paced_soundI: "paced.sound en (strict, \<not> b, k) (mset (map identity en)) {#} pc s \<Longrightarrow> paced_sound strict en (d\<lparr>pd_controller := pc, pd_out := s\<rparr>)"
  by (rule paced_soundB [where b = b], rule paced.booked_sound [where k = k]) simp

lemma paced_sound_other [simp]:
  "paced_sound strict en (d\<lparr>pd_next_process_time := t\<rparr>) = paced_sound strict en d" "paced_sound strict en (d\<lparr>pd_is_started := b\<rparr>) = paced_sound strict en d"
  "paced_sound strict en (d\<lparr>pd_transport_ready := b\<rparr>) = paced_sound strict en d" "paced_sound strict en (d\<lparr>pd_packet_size := r\<rparr>) = paced_sound strict en d"
  "paced_sound strict en (d\<lparr>pd_include_overhead := b\<rparr>) = paced_sound strict en d" "paced_sound strict en (d\<lparr>pd_current_stats := st\<rparr>) = paced_sound strict en d"
  "paced_sound strict en (d\<lparr>pd_posted := ps\<rparr>) = paced_sound strict en d"
  by (simp_all add: paced_sound_def)

lemma process_while_sound:
  assumes "process_while (paced_env clock pad) now t st = Some r" and "paced.sound en m E {#} (fst st) (snd st)" and "fst (snd m)"
  shows "paced.sound en m E {#} (fst (snd r)) (snd (snd r))"
proof -
  define env where "env = paced_env clock pad"
  have "env = paced_env clock pad \<longrightarrow> paced.sound en m E {#} (fst st) (snd st) \<longrightarrow> paced.sound en m E {#} (fst (snd r)) (snd (snd r))"
  proof (rule process_while.raw_induct [where P = "\<lambda>env now t st r. env = paced_env clock pad \<longrightarrow> paced.sound en m E {#} (fst st) (snd st) \<longrightarrow>
      paced.sound en m E {#} (fst (snd r)) (snd (snd r))", OF _ assms(1) [folded env_def]], goal_cases)
    case (1 loop env now t st r)
    show ?case
    proof (intro impI)
      assume e: "env = paced_env clock pad" and s: "paced.sound en m E {#} (fst st) (snd st)"
      show "paced.sound en m E {#} (fst (snd r)) (snd (snd r))"
      proof (cases "\<not> po_is_shutdown (snd st) \<and> t \<le> Timestamp_add now (execute_margin (fst st))")
        case True
        then obtain st1 t2 st2 where p: "ProcessPackets env (fst st) (snd st) = Some st1" "NextSendTime env (fst st1) (snd st1) = Some (t2, st2)"
            "loop env now t2 st2 = Some r"
          using 1(2) by (auto split: Option.bind_splits)
        have "paced.sound en m E {#} (fst st1) (snd st1)"
          using paced.ProcessPackets_sound [OF s assms(3), of clock pad] p(1) by (auto simp: yields_def e)
        from paced.NextSendTime_sound [OF this, of clock pad] have "paced.sound en m E {#} (fst st2) (snd st2)"
          using p(2) by (auto simp: yields_def e)
        then show ?thesis using 1(1) [OF p(3)] e by simp
      qed (use 1(2) s in auto)
    qed
  qed
  then show ?thesis using assms(2) by (simp add: env_def)
qed

lemma MaybeProcessPackets_sound:
  assumes "MaybeProcessPackets (paced_env clock pad) t d = Some d'" and "paced_sound strict en d"
  shows "paced_sound strict en d'"
proof (cases "po_is_shutdown (pd_out d) \<or> \<not> pd_is_started d \<or> \<not> pd_transport_ready d \<or> IsFinite t \<and> t \<noteq> pd_next_process_time d")
  case False
  let ?env = "paced_env clock pad"
  define d0 where "d0 = (if IsFinite t then d\<lparr>pd_next_process_time := MinusInfinity\<rparr> else d)"
  let ?m = "(strict, \<not> po_is_shutdown (pd_out d0), settings (pd_controller d0))" let ?E = "mset (map identity en)"
  have s: "paced.sound en ?m ?E {#} (pd_controller d0) (pd_out d0)" "fst (snd ?m)" using assms(2) False by (auto simp: d0_def paced_sound_def paced.booked_def)
  let ?rest = "\<lambda>now r. let d = d0\<lparr>pd_controller := fst (snd r), pd_out := snd (snd r)\<rparr> in
      if po_is_shutdown (snd (snd r)) then Some d
      else do { d \<leftarrow> UpdateStats d; schedule_next now (fst r) (execute_margin (fst (snd r))) d }"
  have "NextSendTime ?env (pd_controller d0) (pd_out d0) \<bind> (\<lambda>x. let c = ps_CurrentTime ?env (snd (snd x)) in
      process_while ?env (fst c) (fst x) (fst (snd x), snd c) \<bind> ?rest (fst c)) = Some d'"
    using assms(1) False unfolding MaybeProcessPackets_def d0_def [symmetric] by (simp add: Let_def case_prod_unfold split: if_split_asm)
  then obtain x r where r: "NextSendTime ?env (pd_controller d0) (pd_out d0) = Some x"
      "process_while ?env (fst (ps_CurrentTime ?env (snd (snd x)))) (fst x) (fst (snd x), snd (ps_CurrentTime ?env (snd (snd x)))) = Some r"
      "?rest (fst (ps_CurrentTime ?env (snd (snd x)))) r = Some d'"
    by (auto simp: Option.bind_eq_Some_conv Let_def split del: if_split)
  define s1 s2 where "s1 = snd (snd x)" and "s2 = snd (ps_CurrentTime ?env s1)"
  have c: "ps_CurrentTime ?env s1 = (fst (ps_CurrentTime ?env s1), s2)" by (simp add: s2_def)
  have "paced.sound en ?m ?E {#} (fst (snd x)) s1" using paced.NextSendTime_sound [OF s(1), of clock pad] r(1) by (auto simp: yields_def s1_def)
  moreover have "settled en s2 \<and> out_live s2 = out_live s1 \<and> sent_packets s2 = sent_packets s1 \<and> made_packets s2 = made_packets s1"
    using paced.clock [OF _ c] calculation by (auto simp: paced.sound_def)
  ultimately have "paced.sound en ?m ?E {#} (fst (snd x)) s2" by (auto simp: paced.sound_def)
  from process_while_sound [OF r(2)] this s(2) have "paced.sound en ?m ?E {#} (fst (snd r)) (snd (snd r))" by (simp add: s1_def s2_def)
  then have "paced_sound strict en (d0\<lparr>pd_controller := fst (snd r), pd_out := snd (snd r)\<rparr>)" by (rule paced_soundI)
  moreover have "paced_sound strict en d1" if "UpdateStats d = Some d1" "paced_sound strict en d" for d d1
    using that by (auto simp: UpdateStats_def split: Option.bind_splits)
  moreover have "paced_sound strict en d2" if "schedule_next t1 t2 k d1 = Some d2" "paced_sound strict en d1" for t1 t2 k d1 d2
    using that by (auto simp: schedule_next_def Let_def split: Option.bind_splits if_splits)
  ultimately show ?thesis using r(3) unfolding Let_def by (auto split: Option.bind_splits if_splits)
qed (use assms in \<open>auto simp: MaybeProcessPackets_def split: if_splits\<close>)

lemma Maybe_bind_sound:
  assumes "Option.bind r (MaybeProcessPackets (paced_env clock pad) t) = Some d'" and "\<And>d. r = Some d \<Longrightarrow> paced_sound strict en d"
  shows "paced_sound strict en d'"
  using assms MaybeProcessPackets_sound [where d' = d'] by (auto split: Option.bind_splits)

lemma MaybeSchedule_sound:
  "MaybeScheduleProcessPackets (paced_env clock pad) d = Some d' \<Longrightarrow> paced_sound strict en d \<Longrightarrow> paced_sound strict en d'"
  using MaybeProcessPackets_sound by (auto simp: MaybeScheduleProcessPackets_def split: if_splits)

lemma on_controller_sound:
  assumes "on_controller f d = Some d'" and "paced_sound strict en d"
    and "\<And>en m E pc s. paced.booked en m E pc s \<Longrightarrow> yields (f pc s) (\<lambda>(pc, s). paced.booked en m E pc s)"
  shows "paced_sound strict en d'"
proof -
  obtain pc s where f: "f (pd_controller d) (pd_out d) = Some (pc, s)" "d' = d\<lparr>pd_controller := pc, pd_out := s\<rparr>"
    using assms(1) by (auto simp: on_controller_def split: Option.bind_splits)
  show ?thesis unfolding f(2)
    by (rule paced_soundB [where b = "po_is_shutdown (pd_out d)"]) (use assms(3) [OF assms(2) [unfolded paced_sound_def]] f(1) in \<open>auto simp: yields_def\<close>)
qed

lemma controller_calls_sound:
  "on_controller (Pause (paced_env clock pad)) d = Some d' \<Longrightarrow> paced_sound strict en d \<Longrightarrow> paced_sound strict en d'"
  "on_controller (Resume (paced_env clock pad)) d = Some d' \<Longrightarrow> paced_sound strict en d \<Longrightarrow> paced_sound strict en d'"
  "on_controller (\<lambda>pc. SetCongested (paced_env clock pad) pc b) d = Some d' \<Longrightarrow> paced_sound strict en d \<Longrightarrow> paced_sound strict en d'"
  "0 < r \<Longrightarrow> 0 \<le> r' \<Longrightarrow> on_controller (\<lambda>pc. SetPacingRates (paced_env clock pad) pc r r') d = Some d' \<Longrightarrow> paced_sound strict en d \<Longrightarrow> paced_sound strict en d'"
  by (erule on_controller_sound, assumption, erule paced.Pause_sound paced.SetCongested_sound)+
    (erule on_controller_sound, assumption, rule paced.SetPacingRates_sound [OF _ paced.rates_free],
      auto simp: paced.booked_def paced.sound_def)

lemma controller_setting_sound:
  assumes "paced_sound strict en d" and "pc_packet_queue pc = pc_packet_queue (pd_controller d)" and "rates_ok (pd_controller d) \<longrightarrow> rates_ok pc"
    and "prober_ok (pc_prober (pd_controller d)) \<longrightarrow> prober_ok (pc_prober pc)"
    and "strict \<Longrightarrow> bp_clusters (pc_prober (pd_controller d)) = [] \<longrightarrow> bp_clusters (pc_prober pc) = []"
  shows "paced_sound strict en (d\<lparr>pd_controller := pc\<rparr>)"
  using assms by (simp add: paced_sound_def paced.booked_def paced.sound_def)

definition unlabelled :: "RtpPacketToSend \<Rightarrow> RtpPacketToSend" where
  "unlabelled p = p\<lparr>ts_transport_sequence_number := None\<rparr>"

lemma EnqueuePacketOnQueue_sound:
  assumes "EnqueuePacketOnQueue (paced_env clock pad) packet d = Some d'" and "paced_sound strict en d"
    and "ts_packet_type packet \<noteq> None" and "strict \<longrightarrow> \<not> flush_packet packet"
  shows "\<exists>p. unlabelled p = unlabelled packet \<and> paced_sound strict (en @ [p]) d'"
proof -
  define p where "p = packet\<lparr>ts_transport_sequence_number := Some (po_transport_seq (pd_out d))\<rparr>"
  let ?s = "(pd_out d)\<lparr>po_transport_seq := po_transport_seq (pd_out d) + 1, po_entered := po_entered (pd_out d) @ [p]\<rparr>"
  let ?m = "(strict, \<not> po_is_shutdown (pd_out d), settings (pd_controller d))"
  have l: "labelled (pd_out d)" "po_entered (pd_out d) = en" using assms(2) by (auto simp: paced_sound_def paced.booked_def paced.sound_def settled_def)
  then have "labelled ?s" using labels_more [of "po_transport_seq (pd_out d)" 1] by (simp add: labelled_def p_def)
  then have "paced.sound (en @ [p]) ?m (add_mset (identity p) (mset (map identity en))) {#identity p#} (pd_controller d) ?s"
    using assms(2) by (auto simp: paced_sound_def paced.booked_def paced.sound_def settled_def out_live_def sent_packets_def made_packets_def)
  from paced.EnqueuePacket_sound [OF this, of clock pad]
  have "yields (EnqueuePacket (paced_env clock pad) (pd_controller d) p ?s)
      (\<lambda>(pc, s). paced.sound (en @ [p]) ?m (mset (map identity (en @ [p]))) {#} pc s)"
    using assms(3,4) by (simp add: p_def paced.flushes_def flush_packet_def)
  then obtain pc s where e: "EnqueuePacket (paced_env clock pad) (pd_controller d) p ?s = Some (pc, s)"
      "paced.sound (en @ [p]) ?m (mset (map identity (en @ [p]))) {#} pc s" by (auto simp: yields_def)
  then have "paced_sound strict (en @ [p]) d'" using assms(1) paced_soundI [OF e(2)]
    unfolding EnqueuePacketOnQueue_def p_def [symmetric] on_controller_def Let_def by auto
  then show ?thesis by (intro exI [of _ p]) (simp add: p_def unlabelled_def)
qed

lemma EnqueueAll_sound:
  assumes "foldM (EnqueuePacketOnQueue (paced_env clock pad)) ps d = Some d'" and "paced_sound strict en d"
    and "list_all (\<lambda>p. ts_packet_type p \<noteq> None) ps" and "strict \<longrightarrow> list_all (\<lambda>p. \<not> flush_packet p) ps"
  shows "\<exists>ps'. map unlabelled ps' = map unlabelled ps \<and> paced_sound strict (en @ ps') d'"
  using assms
proof (induction ps arbitrary: d en)
  case (Cons packet ps)
  then obtain d1 where d1: "EnqueuePacketOnQueue (paced_env clock pad) packet d = Some d1" "foldM (EnqueuePacketOnQueue (paced_env clock pad)) ps d1 = Some d'"
    by (auto split: Option.bind_splits)
  then obtain p where p: "unlabelled p = unlabelled packet" "paced_sound strict (en @ [p]) d1"
    using EnqueuePacketOnQueue_sound [OF d1(1) Cons.prems(2)] Cons.prems(3,4) by auto
  then obtain ps' where "map unlabelled ps' = map unlabelled ps" "paced_sound strict ((en @ [p]) @ ps') d'"
    using Cons.IH [OF d1(2) p(2)] Cons.prems(3,4) by auto
  then show ?case using p(1) by (intro exI [of _ "p # ps'"]) simp
qed (auto intro: exI [of _ "[]"])

text \<open>The packets that a task brings in.\<close>

fun task_packets :: "PacerTask \<Rightarrow> RtpPacketToSend list" where
  "task_packets (EnqueueTask packets) = packets"
| "task_packets (EnqueueOneTask packet) = [packet]"
| "task_packets _ = []"

lemma enqueue_task_sound:
  assumes "run_task (paced_env clock pad) t d = Some d'" and "paced_sound strict en d" and "valid_task t" and "strict \<longrightarrow> keeping_task t"
    and "task_packets t \<noteq> []"
  shows "\<exists>ps. map unlabelled ps = map unlabelled (task_packets t) \<and> paced_sound strict (en @ ps) d'"
proof -
  have *: "\<exists>ps'. map unlabelled ps' = map unlabelled ps \<and> paced_sound strict (en @ ps') d'"
    if r: "Option.bind (foldM (EnqueuePacketOnQueue (paced_env clock pad)) ps d) (MaybeProcessPackets (paced_env clock pad) MinusInfinity) = Some d'"
      "list_all (\<lambda>p. ts_packet_type p \<noteq> None) ps" "strict \<longrightarrow> list_all (\<lambda>p. \<not> flush_packet p) ps" for ps
  proof -
    obtain d1 where d1: "foldM (EnqueuePacketOnQueue (paced_env clock pad)) ps d = Some d1" "MaybeProcessPackets (paced_env clock pad) MinusInfinity d1 = Some d'"
      using r(1) by (auto split: Option.bind_splits)
    then show ?thesis using EnqueueAll_sound [OF d1(1) assms(2) r(2,3)] MaybeProcessPackets_sound [OF d1(2)] by blast
  qed
  show ?thesis
  proof (cases t)
    case (EnqueueOneTask p)
    have "foldM f [p] d = f p d" for f :: "RtpPacketToSend \<Rightarrow> PacedSenderState \<Rightarrow> PacedSenderState option" by (cases "f p d") simp_all
    then show ?thesis using * [of "[p]"] assms EnqueueOneTask by (simp add: Sender_EnqueuePacket_def)
  qed (use assms * in \<open>auto simp: EnqueuePacketsOnQueue_def\<close>)
qed

lemma run_task_same:
  assumes "run_task (paced_env clock pad) t d = Some d'" and "paced_sound strict en d" and "valid_task t" and "strict \<longrightarrow> keeping_task t"
    and "task_packets t = []"
  shows "paced_sound strict en d'"
proof (cases t)
  case (EnqueueTask ps)
  then show ?thesis using assms MaybeProcessPackets_sound by (simp add: EnqueuePacketsOnQueue_def)
next
  case (EnqueueOneTask p)
  then show ?thesis using assms(5) by simp
next
  case (ProcessTask x)
  then show ?thesis using assms(1,2) MaybeProcessPackets_sound by simp
next
  case StartTask
  then show ?thesis using assms(1,2) MaybeProcessPackets_sound by (fastforce simp: EnsureStarted_def)
next
  case (TransportTask b)
  have a: "paced_sound strict en (d\<lparr>pd_transport_ready := False, pd_controller := AbortProbing (pd_controller d)\<rparr>)"
    by (rule controller_setting_sound) (use assms(2) in \<open>auto simp: prober_ok_def AbortProbing_def rates_ok_def Prober_AbortProbing_def is_probing_def Let_def\<close>)
  show ?thesis
  proof (cases b)
    case True
    then show ?thesis using assms(1,2) controller_calls_sound(2) [of clock pad "d\<lparr>pd_transport_ready := True\<rparr>" d']
      by (simp add: TransportTask SetTransportReady_def)
  next
    case False
    then show ?thesis using assms(1) controller_calls_sound(1) [OF _ a]
      by (auto simp: TransportTask SetTransportReady_def split: Option.bind_splits)
  qed
next
  case (ClustersTask cs)
  have "paced_sound strict en (d\<lparr>pd_controller := CreateProbeClusters (pd_controller d) cs\<rparr>)" if "\<not> strict"
    by (rule controller_setting_sound [OF assms(2)]) (use CreateProbeClusters_good [of _ cs] assms(3) that in
       \<open>auto simp: ClustersTask CreateProbeClusters_def Let_def ClearProbingSendFailure_def rates_ok_def\<close>)
  then show ?thesis using assms MaybeSchedule_sound by (auto simp: ClustersTask Sender_CreateProbeClusters_def split: if_splits)
next
  case PauseTask
  then show ?thesis using assms(1,2) controller_calls_sound(1) by (simp add: Sender_Pause_def)
next
  case ResumeTask
  then show ?thesis using assms(1,2) Maybe_bind_sound controller_calls_sound(2) by (fastforce simp: Sender_Resume_def)
next
  case (CongestedTask b)
  then show ?thesis using assms(1,2) MaybeSchedule_sound controller_calls_sound(3) by (fastforce simp: Sender_SetCongested_def split: Option.bind_splits)
next
  case (RatesTask r r')
  then show ?thesis using assms(1-3) MaybeSchedule_sound controller_calls_sound(4) by (fastforce simp: Sender_SetPacingRates_def split: Option.bind_splits)
next
  case (RemoveTask ssrc)
  have "yields (Pacer_RemovePacketsForSsrc (pd_controller d) ssrc) (\<lambda>pc. paced_sound strict en (d\<lparr>pd_controller := pc\<rparr>))" if "\<not> strict"
    using paced.Remove_sound [OF assms(2) [unfolded paced_sound_def paced.booked_def], of ssrc] paced.booked_sound [of _ "(strict, \<not> po_is_shutdown (pd_out d))"] that
    by (auto simp: paced_sound_def yields_def)
  then show ?thesis using assms MaybeProcessPackets_sound by (fastforce simp: RemoveTask Sender_RemovePacketsForSsrc_def yields_def)
next
  case (AllowProbeTask b)
  have "paced_sound strict en (d\<lparr>pd_controller := SetAllowProbeWithoutMediaPacket (pd_controller d) b\<rparr>)"
    by (rule controller_setting_sound [OF assms(2)])
      (auto simp: SetAllowProbeWithoutMediaPacket_def Let_def ClearProbingSendFailure_def rates_ok_def allow_good)
  then show ?thesis using assms(1) MaybeSchedule_sound by (simp add: AllowProbeTask Sender_SetAllowProbeWithoutMediaPacket_def)
next
  case ShutdownTask
  have "paced_sound strict en (Shutdown d)" using assms(2)
    by (auto simp: Shutdown_def paced_sound_def paced.booked_def paced.sound_def settled_def labelled_def out_live_def sent_packets_def made_packets_def)
  then show ?thesis using assms(1) by (simp add: ShutdownTask)
next
  case IncludeOverheadTask
  have "paced_sound strict en (d\<lparr>pd_include_overhead := True, pd_controller := SetIncludeOverhead (pd_controller d)\<rparr>)"
    by (rule controller_setting_sound) (use assms(2) in \<open>auto simp: SetIncludeOverhead_def rates_ok_def\<close>)
  then show ?thesis using assms(1) MaybeProcessPackets_sound by (simp add: IncludeOverheadTask Sender_SetIncludeOverhead_def)
next
  case (BurstTask x)
  have "paced_sound strict en (d\<lparr>pd_controller := SetSendBurstInterval (pd_controller d) x\<rparr>)"
    by (rule controller_setting_sound [OF assms(2)]) (auto simp: SetSendBurstInterval_def rates_ok_def)
  then show ?thesis using assms(1) by (simp add: BurstTask Sender_SetSendBurstInterval_def)
next
  case (AudioTask x)
  have "paced_sound strict en (d\<lparr>pd_controller := SetAccountForAudioPackets (pd_controller d) x\<rparr>)"
    by (rule controller_setting_sound [OF assms(2)]) (auto simp: SetAccountForAudioPackets_def rates_ok_def)
  then show ?thesis using assms(1) MaybeProcessPackets_sound by (simp add: AudioTask Sender_SetAccountForAudioPackets_def)
next
  case (OverheadTask x)
  have "paced_sound strict en (d\<lparr>pd_controller := SetTransportOverhead (pd_controller d) x\<rparr>)"
    by (rule controller_setting_sound [OF assms(2)]) (auto simp: SetTransportOverhead_def rates_ok_def)
  then show ?thesis using assms(1) MaybeProcessPackets_sound by (simp add: OverheadTask Sender_SetTransportOverhead_def)
next
  case (LimitTask x)
  have "paced_sound strict en (d\<lparr>pd_controller := SetQueueTimeLimit (pd_controller d) x\<rparr>)"
    by (rule controller_setting_sound [OF assms(2)]) (auto simp: SetQueueTimeLimit_def rates_ok_def)
  then show ?thesis using assms(1) MaybeProcessPackets_sound by (simp add: LimitTask Sender_SetQueueTimeLimit_def)
qed

lemma default_queue_good: "queue_good (new_PrioritizedPacketQueue t b default_PacketQueueTTL)" "waiting (new_PrioritizedPacketQueue t b default_PacketQueueTTL) = {#}"
proof -
  have ttl: "pq_time_to_live_per_prio (new_PrioritizedPacketQueue t b default_PacketQueueTTL) = replicate kNumPriorityLevels PlusInfinity"
    unfolding new_PrioritizedPacketQueue_def by (simp add: default_ttl)
  have p: "packets_of (replicate n []) = []" for n by (induction n) (simp_all add: packets_of_def)
  note g = queue_good_of [OF new_queue_inv [of False t b default_PacketQueueTTL, simplified]]
  show "queue_good (new_PrioritizedPacketQueue t b default_PacketQueueTTL)" "waiting (new_PrioritizedPacketQueue t b default_PacketQueueTTL) = {#}"
    using g by (simp_all add: ttl waiting_def p IsInfinite_def)
qed

lemma init_sound: "yields (init_paced_sender (paced_env clock pad) limit) (paced_sound strict [])"
proof -
  have q: "pq_size_payload (new_PrioritizedPacketQueue t b ttl) = 0" for t b ttl by (simp add: new_PrioritizedPacketQueue_def)
  show ?thesis
    by (simp add: init_paced_sender_def Sender_SetPacingRates_def Sender_SetQueueTimeLimit_def Sender_SetSendBurstInterval_def
      Sender_SetAllowProbeWithoutMediaPacket_def MaybeScheduleProcessPackets_def MaybeProcessPackets_def on_controller_def
      new_PacedSender_def new_PacingController_def SetPacingRates_def CurrentTime_def paced_env_def Clock_CurrentTime_def Let_def
      MaybeUpdateMediaRateDueToLongQueue_def QueueSizeData_def q LowLatencyPacingConfiguration_def DefaultConfiguration_def
      SetOnSentPacketFunc_def SetSendBurstInterval_def SetQueueTimeLimit_def SetAllowProbeWithoutMediaPacket_def
      paced_sound_def paced.booked_def paced.sound_def settled_def labelled_def out_live_def default_queue_good rates_ok_def prober_ok_def
      is_probing_def
      sent_packets_def made_packets_def new_BitrateProber_def Prober_SetAllowProbeWithoutMediaPacket_def SetEnabled_def
      MaybeSetActiveState_def ReadyToSetActiveState_def)
qed

lemma run_task_sound:
  assumes "run_task (paced_env clock pad) t d = Some d'" and "paced_sound strict en d" and "valid_task t" and "strict \<longrightarrow> keeping_task t"
  shows "\<exists>ps. map unlabelled ps = map unlabelled (task_packets t) \<and> paced_sound strict (en @ ps) d'"
  using enqueue_task_sound [OF assms] run_task_same [OF assms] by (cases "task_packets t = []") auto

lemma run_tasks_sound:
  assumes "foldM (run_task (paced_env clock pad)) ts d = Some d'" and "paced_sound strict en d" and "list_all valid_task ts" and "strict \<longrightarrow> list_all keeping_task ts"
  shows "\<exists>ps. map unlabelled ps = map unlabelled (concat (map task_packets ts)) \<and> paced_sound strict (en @ ps) d'"
  using assms
proof (induction ts arbitrary: d en)
  case (Cons t ts)
  then obtain d1 where d1: "run_task (paced_env clock pad) t d = Some d1" "foldM (run_task (paced_env clock pad)) ts d1 = Some d'"
    by (auto split: Option.bind_splits)
  then obtain ps where ps: "map unlabelled ps = map unlabelled (task_packets t)" "paced_sound strict (en @ ps) d1"
    using run_task_sound [OF d1(1) Cons.prems(2)] Cons.prems(3,4) by auto
  then obtain ps' where "map unlabelled ps' = map unlabelled (concat (map task_packets ts))" "paced_sound strict ((en @ ps) @ ps') d'"
    using Cons.IH [OF d1(2) ps(2)] Cons.prems(3,4) by auto
  then show ?case using ps(1) by (intro exI [of _ "ps @ ps'"]) simp
qed (auto intro: exI [of _ "[]"])

section \<open>Properties\<close>

text \<open>The state of the class \<open>PacedSender\<close> that the controller calls back into, with the callback set.\<close>

definition ready_output :: PacerOutput where
  "ready_output = \<lparr>po_is_shutdown = False, po_has_on_sent_packet_func = True, po_ssrc_seq = Map.empty, po_transport_seq = 0,
     po_sent = [], po_made = [], po_entered = [], po_clock_reads = 0\<rparr>"

lemma distinct_submset:
  assumes "mset xs \<subseteq># mset ys" and "distinct ys"
  shows "distinct xs"
proof -
  have "count (mset xs) a = (if a \<in> set xs then 1 else 0)" for a
  proof (cases "a \<in> set xs")
    case True
    then have "0 < count (mset xs) a" by simp
    moreover have "count (mset xs) a \<le> count (mset ys) a" using assms(1) by (simp add: mset_subset_eq_count)
    moreover have "count (mset ys) a \<le> 1" using assms(2) by (simp add: distinct_count_atmost_1)
    ultimately have "count (mset xs) a = 1" by linarith
    then show ?thesis using True by simp
  qed (simp add: count_mset_0_iff)
  then show ?thesis by (simp add: distinct_count_atmost_1)
qed

lemma new_controller_booked:
  assumes "cfg_packet_queue_ttl cfg = default_PacketQueueTTL" and "0 < r'" and "0 \<le> r" and "r \<le> r'"
    and "new_PacingController (paced_env clock pad) cfg ready_output = (pc, s)"
  shows "paced.booked [] (strict, True) {#} (pc\<lparr>pc_pacing_rate := r', pc_padding_rate := r, pc_adjusted_media_rate := r'\<rparr>) s"
    "queue_good (pc_packet_queue pc)"
  using assms by (auto simp: new_PacingController_def paced_env_def Clock_CurrentTime_def ready_output_def paced.booked_def paced.sound_def
    settled_def labelled_def out_live_def default_queue_good rates_ok_def prober_ok_def is_probing_def sent_packets_def made_packets_def
    new_BitrateProber_def SetEnabled_def)

text \<open>
  C25: the pacer never faults. Once the pacing rates have been set, any sequence of operations of the
  controller returns, for any readings of the clock, any padding, any configuration without expiry and any burst
  interval, provided only that packets have a type and rates are positive: no rate that divides is
  zero, no packet without a type is sent, and no operation of the queue dereferences what is gone. The rates
  stay ordered, the queue stays consistent, and the prober is only active while it has a cluster.
\<close>

theorem pacer_never_faults:
  assumes "cfg_packet_queue_ttl cfg = default_PacketQueueTTL" and "0 < pacing_rate" and "0 \<le> padding_rate" and "list_all valid_op ops"
  shows "\<exists>pc s. foldM (controller_op (paced_env clock pad)) (RatesOp pacing_rate padding_rate # ops)
      (new_PacingController (paced_env clock pad) cfg ready_output) = Some (pc, s) \<and>
    0 \<le> pc_padding_rate pc \<and> pc_padding_rate pc \<le> pc_pacing_rate pc \<and> 0 < pc_pacing_rate pc \<and> pc_pacing_rate pc \<le> pc_adjusted_media_rate pc \<and>
    queue_inv (False, {#}) (pc_packet_queue pc) (levels (pc_packet_queue pc)) \<and> ExpectedQueueTime pc \<noteq> None \<and>
    (is_probing (pc_prober pc) \<longrightarrow> bp_clusters (pc_prober pc) \<noteq> [])"
proof -
  let ?env = "paced_env clock pad"
  obtain pc s where n: "new_PacingController ?env cfg ready_output = (pc, s)" by fastforce
  have "yields (SetPacingRates ?env pc pacing_rate padding_rate s) (\<lambda>(pc, s). paced.booked [] (False, True) {#} pc s)"
    using paced.SetPacingRates_sound [OF new_controller_booked(2) [OF assms(1) _ _ _ n, of 1 0] new_controller_booked(1) [OF assms(1) _ _ _ n]] assms(2,3) by simp
  then obtain pc1 s1 where 1: "SetPacingRates ?env pc pacing_rate padding_rate s = Some (pc1, s1)" "paced.booked [] (False, True) {#} pc1 s1"
    by (auto simp: yields_def)
  obtain pc2 s2 E where "foldM (controller_op ?env) ops (pc1, s1) = Some (pc2, s2)" "paced.booked [] (False, True) E pc2 s2"
    using paced.controller_run_sound [OF 1(2), of ops clock pad] assms(4) by (auto simp: yields_def)
  moreover from this(2) have "ExpectedQueueTime pc2 \<noteq> None"
    by (auto simp: paced.booked_def paced.sound_def rates_ok_def ExpectedQueueTime_def size_div_rate_def)
  ultimately show ?thesis using 1(1) n by (auto simp: paced.booked_def paced.sound_def rates_ok_def queue_good_def prober_ok_def)
qed

definition example_ops :: "PacerOp list" where
  "example_ops = [EnqueueOp (example_packet 1 7 kVideo), ProcessOp, CongestedOp True, BurstOp 0, EnqueueOp (example_packet 2 7 kAudio), ProcessOp, RemoveOp 1,
     ClustersOp [\<lparr>pcc_at_time = 4, pcc_target_data_rate = 900000, pcc_target_duration = Millis 15, pcc_min_probe_delta = Millis 2,
       pcc_target_probe_count = 5, pcc_id = 1\<rparr>], AllowProbeOp True, ProcessOp, PauseOp, ProcessOp, ResumeOp, ProcessOp]"

theorem pacer_never_faults_witness:
  "\<exists>pc s. foldM (controller_op (paced_env int (\<lambda>_ _ _. []))) (RatesOp 300000 500000 # example_ops)
      (new_PacingController (paced_env int (\<lambda>_ _ _. [])) DefaultConfiguration ready_output) = Some (pc, s) \<and>
    pc_padding_rate pc \<le> pc_pacing_rate pc"
  using pacer_never_faults [of DefaultConfiguration 300000 500000 example_ops int "\<lambda>_ _ _. []"]
  by (auto simp: DefaultConfiguration_def example_ops_def example_packet_def simp del: foldM.simps)

text \<open>
  C23: no packet is lost and none is sent twice. In any sequence of tasks of the paced sender that
  returns, every packet that a channel enqueued or that was made as padding got a transport sequence
  number of its own, from zero on; and these packets are, up to the sequence number and the queue time
  they are stamped with, exactly the packets sent, the packets waiting in the queue, and the packets
  discarded. Nothing is discarded unless a key frame flushes the packets before it, packets are
  removed, or a probe asks for padding.
\<close>

theorem packets_conserved:
  assumes "init_paced_sender (paced_env clock pad) limit = Some d\<^sub>0" and "list_all valid_task ts"
    and "foldM (run_task (paced_env clock pad)) ts d\<^sub>0 = Some d"
  shows "map unlabelled (po_entered (pd_out d)) = map unlabelled (concat (map task_packets ts)) \<and>
    mset (map ts_transport_sequence_number (po_entered (pd_out d) @ po_made (pd_out d))) = mset (map (\<lambda>i. Some (int i)) [0..<nat (po_transport_seq (pd_out d))]) \<and>
    (\<exists>discarded. mset (map identity (po_entered (pd_out d) @ po_made (pd_out d))) =
        mset (map identity (map fst (po_sent (pd_out d)))) + image_mset identity (waiting (pc_packet_queue (pd_controller d))) + discarded \<and>
      (list_all keeping_task ts \<longrightarrow> discarded = {#})) \<and>
    distinct (map ts_transport_sequence_number (map fst (po_sent (pd_out d))))"
proof -
  let ?s = "pd_out d" let ?strict = "list_all keeping_task ts"
  have "paced_sound ?strict [] d\<^sub>0" using init_sound [of clock pad limit ?strict] assms(1) by (simp add: yields_def)
  then obtain ps where ps: "map unlabelled ps = map unlabelled (concat (map task_packets ts))" "paced_sound ?strict ps d"
    using run_tasks_sound [OF assms(3), of ?strict "[]"] assms(2) by auto
  then have s: "po_entered ?s = ps" "labelled ?s" by (auto simp: paced_sound_def paced.booked_def paced.sound_def settled_def)
  obtain L where L: "mset (sent_packets ?s) + image_mset identity (waiting (pc_packet_queue (pd_controller d))) + L =
      mset (map identity ps) + mset (made_packets ?s)" "?strict \<longrightarrow> L = {#}"
    using ps(2) by (auto simp: paced_sound_def paced.booked_def paced.sound_def)
  have lab: "mset (map ts_transport_sequence_number (po_entered ?s @ po_made ?s)) = mset (map (\<lambda>i. Some (int i)) [0..<nat (po_transport_seq ?s)])"
    using s(2) by (simp add: labelled_def)
  have i: "ts_transport_sequence_number \<circ> identity = ts_transport_sequence_number" by (simp add: fun_eq_iff identity_def)
  have "mset (map ts_transport_sequence_number (po_entered ?s @ po_made ?s)) =
      image_mset (ts_transport_sequence_number \<circ> identity) (mset (po_entered ?s @ po_made ?s))" by (simp add: i)
  also have "\<dots> = image_mset ts_transport_sequence_number (mset (sent_packets ?s) + image_mset identity (waiting (pc_packet_queue (pd_controller d))) + L)"
    unfolding L(1) by (simp add: s(1) made_packets_def image_mset.compositionality)
  finally have "mset (map ts_transport_sequence_number (sent_packets ?s)) \<subseteq># mset (map (\<lambda>i. Some (int i)) [0..<nat (po_transport_seq ?s)])"
    unfolding lab by simp
  moreover have "distinct (map (\<lambda>i. Some (int i)) [0..<nat (po_transport_seq ?s)])" by (simp add: distinct_map inj_on_def)
  ultimately have "distinct (map ts_transport_sequence_number (sent_packets ?s))"
    by (rule distinct_submset)
  then have "distinct (map ts_transport_sequence_number (map fst (po_sent ?s)))"
    by (simp add: sent_packets_def comp_def identity_def)
  moreover have "mset (map identity (po_entered ?s @ po_made ?s)) =
      mset (map identity (map fst (po_sent ?s))) + image_mset identity (waiting (pc_packet_queue (pd_controller d))) + L"
    using L(1) by (simp add: s(1) sent_packets_def made_packets_def image_mset.compositionality comp_def)
  ultimately show ?thesis using ps(1) s(1) lab L(2) by blast
qed


definition example_tasks :: "PacerTask list" where
  "example_tasks = [StartTask, TransportTask True, EnqueueTask [example_packet 1 7 kVideo, example_packet 2 9 kAudio], EnqueueOneTask (example_packet 1 8 kVideo)]"

theorem packets_conserved_witness:
  "\<exists>d\<^sub>0 d. init_paced_sender (paced_env int (\<lambda>_ _ _. [])) (Millis 2000) = Some d\<^sub>0 \<and>
     foldM (run_task (paced_env int (\<lambda>_ _ _. []))) example_tasks d\<^sub>0 = Some d \<and> length (po_sent (pd_out d)) = 3 \<and>
     distinct (map ts_transport_sequence_number (map fst (po_sent (pd_out d))))"
proof -
  let ?env = "paced_env int (\<lambda>_ _ _. [])"
  let ?d0 = "the (init_paced_sender ?env (Millis 2000))" let ?r = "foldM (run_task ?env) example_tasks ?d0"
  have 0: "init_paced_sender ?env (Millis 2000) = Some ?d0"
    using init_sound [of int "\<lambda>_ _ _. []" "Millis 2000" True] by (auto simp: yields_def)
  have "map_option (\<lambda>d. length (po_sent (pd_out d))) ?r = Some 3" by code_simp
  then obtain d where d: "?r = Some d" "length (po_sent (pd_out d)) = 3" by (cases ?r) auto
  moreover have "list_all valid_task example_tasks" by code_simp
  ultimately show ?thesis using 0 packets_conserved [OF 0 _ d(1)] by blast
qed

end
