(* ===== verification/PacerTerm.thy ===== *)
theory PacerTerm
  imports PacerProps
begin

text \<open>
  The loop of \<open>PacedSender::MaybeProcessPackets\<close> ends. Every call of \<open>ProcessPackets\<close> in it sends a packet, or
  moves the last time a packet was sent or the time up to which the budget was updated. This holds
  while there is no padding and no probe, for a burst interval other than zero and a clock that does not go back.
\<close>

section \<open>States on the way\<close>

text \<open>A clock that is monotonic and below a year.\<close>

definition steady :: "(nat \<Rightarrow> timestamp) \<Rightarrow> bool" where
  "steady clock \<longleftrightarrow> mono clock \<and> (\<forall>n. 0 \<le> clock n \<and> clock n < 2 ^ 45)"

definition tame :: "PacingController \<Rightarrow> bool" where
  "tame pc \<longleftrightarrow> queue_good (pc_packet_queue pc) \<and> rates_ok pc \<and> bp_clusters (pc_prober pc) = [] \<and> \<not> is_probing (pc_prober pc) \<and>
     pc_padding_rate pc = 0 \<and> 0 < pc_circuit_breaker_threshold pc \<and> pc_send_burst_interval pc \<noteq> 0 \<and> pc_send_padding_if_silent pc"

definition in_time :: "PacingController \<Rightarrow> bool" where
  "in_time pc \<longleftrightarrow> 0 \<le> pc_last_process_time pc \<and> pc_last_process_time pc < 2 ^ 45 \<and> 0 \<le> pc_last_send_time pc \<and>
     pc_last_send_time pc \<le> pc_last_timestamp pc \<and> pc_last_timestamp pc < 2 ^ 45"

text \<open>\<open>b\<close> bounds the readings of the clock to come from below.\<close>

definition punctual :: "(nat \<Rightarrow> timestamp) \<Rightarrow> timestamp \<Rightarrow> PacingController \<Rightarrow> PacerOutput \<Rightarrow> bool" where
  "punctual clock b pc s \<longleftrightarrow> steady clock \<and> b \<le> clock (po_clock_reads s) \<and> tame pc \<and> in_time pc"

definition load :: "PacingController \<Rightarrow> nat" where
  "load pc = size (waiting (pc_packet_queue pc))"

text \<open>Packets are sent, or times move on.\<close>

definition ahead :: "bool \<Rightarrow> PacingController \<Rightarrow> PacingController \<Rightarrow> bool" where
  "ahead strict pc pc' \<longleftrightarrow> load pc' < load pc \<or>
     load pc' = load pc \<and> pc_last_process_time pc \<le> pc_last_process_time pc' \<and> pc_last_send_time pc \<le> pc_last_send_time pc' \<and>
     (strict \<longrightarrow> pc_last_process_time pc < pc_last_process_time pc' \<or> pc_last_send_time pc < pc_last_send_time pc')"

lemma ahead_trans: "ahead a p q \<Longrightarrow> ahead b q r \<Longrightarrow> ahead (a \<or> b) p r"
  by (auto simp: ahead_def)

lemma ahead_refl [simp]: "ahead False pc pc"
  by (simp add: ahead_def)

lemma ahead_weak: "ahead a p q \<Longrightarrow> ahead False p q"
  by (auto simp: ahead_def)

lemma tame_vital: "vital pc' = vital pc \<Longrightarrow> tame pc' = tame pc"
  using vital_pc [of pc' pc] settings_same [of pc' pc] by (simp add: tame_def)

lemmas tame_updates [simp] = vital_updates [THEN tame_vital] vital_ops [THEN tame_vital]

lemma load_vital: "vital pc' = vital pc \<Longrightarrow> load pc' = load pc"
  using vital_pc(1) [of pc' pc] by (simp add: load_def)

lemmas load_updates [simp] = vital_updates [THEN load_vital] vital_ops [THEN load_vital]

lemma punctual_parts:
  assumes "punctual clock b pc s"
  shows "steady clock" "tame pc" "in_time pc" "b \<le> clock (po_clock_reads s)" "queue_good (pc_packet_queue pc)" "rates_ok pc"
    "\<not> is_probing (pc_prober pc)" "bp_clusters (pc_prober pc) = []"
  using assms by (simp_all add: punctual_def tame_def)

lemma punctual_reads: "punctual clock b pc s \<Longrightarrow> po_clock_reads s \<le> po_clock_reads s' \<Longrightarrow> punctual clock b pc s'"
  unfolding punctual_def steady_def by (metis monoD order_trans)

lemma CurrentTime_punctual:
  assumes "punctual clock b pc s"
  shows "yields (CurrentTime (paced_env clock pad) pc s) (\<lambda>(now, pc', s'). punctual clock b pc' s' \<and> pc' = pc\<lparr>pc_last_timestamp := now\<rparr> \<and>
    b \<le> now \<and> pc_last_timestamp pc \<le> now \<and> 0 \<le> now \<and> now < 2 ^ 45)"
proof -
  let ?now = "max (pc_last_timestamp pc) (clock (po_clock_reads s))" let ?s = "s\<lparr>po_clock_reads := po_clock_reads s + 1\<rparr>"
  have c: "CurrentTime (paced_env clock pad) pc s = Some (?now, pc\<lparr>pc_last_timestamp := ?now\<rparr>, ?s)"
    by (simp add: CurrentTime_def paced_env_def Clock_CurrentTime_def Let_def max_def)
  have n: "b \<le> ?now" "0 \<le> ?now" "?now < 2 ^ 45" using punctual_parts [OF assms] by (auto simp: steady_def in_time_def max_def)
  have "punctual clock b (pc\<lparr>pc_last_timestamp := ?now\<rparr>) s" using assms n by (auto simp: punctual_def in_time_def)
  then have "punctual clock b (pc\<lparr>pc_last_timestamp := ?now\<rparr>) ?s" by (rule punctual_reads) simp
  then show ?thesis using n by (simp add: c)
qed

section \<open>The next send time\<close>

definition next_send :: "PacingController \<Rightarrow> timestamp" where
  "next_send pc = min (the (planned_send_time pc 0)) PlusInfinity"

lemma planned_any:
  assumes "tame pc"
  shows "planned_send_time (pc\<lparr>pc_last_timestamp := x\<rparr>) now = Some (the (planned_send_time pc 0))"
proof -
  have p: "\<not> is_probing (pc_prober pc)" using assms by (simp add: tame_def)
  have "planned_send_time (pc\<lparr>pc_last_timestamp := x\<rparr>) now = planned_send_time pc 0"
    using p by (simp add: planned_send_time_def paced_send_time_def NextUnpacedSendTime_def cong: if_cong)
  then show ?thesis using planned_send_time_good [of pc 0] assms by (auto simp: tame_def)
qed

lemma next_send_timestamp [simp]: "tame pc \<Longrightarrow> next_send (pc\<lparr>pc_last_timestamp := x\<rparr>) = next_send pc"
  using planned_any [of pc x 0] by (simp add: next_send_def)

lemma NextSendTime_punctual:
  assumes "punctual clock b pc s"
  shows "yields (NextSendTime (paced_env clock pad) pc s) (\<lambda>(t, pc', s'). t = next_send pc \<and> punctual clock b pc' s' \<and>
    (\<exists>x. pc' = pc\<lparr>pc_last_timestamp := x\<rparr> \<and> pc_last_timestamp pc \<le> x \<and> b \<le> x))"
  unfolding NextSendTime_def
proof (rule yields_bind [OF CurrentTime_punctual [OF assms]], goal_cases)
  case (1 x)
  then show ?case using planned_any [OF punctual_parts(2) [OF assms]] punctual_parts(8) [OF assms]
    by (cases x) (auto simp: next_send_def NextClusterExpiration_def)
qed

lemma kInterval [simp]: "kCongestedPacketInterval = 500000" "kPausedProcessInterval = 500000"
  by (simp_all add: kPausedProcessInterval_def kCongestedPacketInterval_def Millis_def FromFraction_def)

lemma small_add: "0 \<le> t \<Longrightarrow> t < 2 ^ 45 \<Longrightarrow> Timestamp_add t 500000 = t + 500000"
  unfolding Timestamp_ops by (rule finite_unit_add) (auto simp: infinity_defs)

lemma small_sub: "0 \<le> t \<Longrightarrow> t < 2 ^ 45 \<Longrightarrow> 0 \<le> u \<Longrightarrow> u < 2 ^ 45 \<Longrightarrow> Timestamp_sub t u = t - u"
  unfolding Timestamp_ops by (rule finite_unit_sub) (auto simp: infinity_defs)

lemma keepalive_due:
  assumes "tame pc" and "in_time pc" and "0 \<le> now" and "now < 2 ^ 45"
  shows "ShouldSendKeepalive pc now \<longleftrightarrow> pc_last_send_time pc + 500000 \<le> now"
  using assms small_sub [of now "pc_last_send_time pc"] by (auto simp: ShouldSendKeepalive_def tame_def in_time_def)

lemma empty_unpaced:
  assumes "queue_good (pc_packet_queue pc)" and "Queue_Empty (pc_packet_queue pc)" and "NextUnpacedSendTime pc = Some t"
  shows "\<not> IsFinite t"
proof -
  let ?q = "pc_packet_queue pc"
  have q: "queue_inv (False, {#}) ?q (levels ?q)" using assms(1) by (simp add: queue_good_def)
  have "packets_of (levels ?q) = []" using queue_good_size [OF assms(1)] assms(2) by (simp add: Queue_Empty_def waiting_def)
  then have e: "ps = []" if "lev \<in> set (levels ?q)" "(s, ps) \<in> set lev" for lev s ps
    using that by (force simp: packets_of_def flat_def)
  have "levels ?q ! i = []" if "i < kNumPriorityLevels" for i
  proof (rule ccontr)
    assume "levels ?q ! i \<noteq> []"
    then obtain s ps where "(s, ps) \<in> set (levels ?q ! i)" by (metis list.set_intros(1) neq_Nil_conv surj_pair)
    moreover have "levels ?q ! i \<in> set (levels ?q)" using that queue_inv_length [OF q] by simp
    moreover have "no_empty (levels ?q)" using q by (simp add: queue_inv_def queue_core_def)
    ultimately show False using e unfolding no_empty_def by blast
  qed
  moreover have "shape (pq_streams ?q) (pq_streams_by_prio ?q) (levels ?q)" using q by (simp add: queue_inv_def queue_core_def)
  ultimately have l: "LeadingPacketEnqueueTime_at ?q i none = Some none" if "i < kNumPriorityLevels" for i none
    using that queue_inv_length [OF q] by (simp add: LeadingPacketEnqueueTime_at_def shape_def rd_def)
  have "LeadingPacketEnqueueTime ?q kAudio = Some MinusInfinity" "LeadingPacketEnqueueTimeForRetransmission ?q = Some PlusInfinity"
    unfolding LeadingPacketEnqueueTime_def LeadingPacketEnqueueTimeForRetransmission_def by (simp_all only: l [OF GetPriorityForType_less]) simp
  moreover have "\<not> IsFinite MinusInfinity" "\<not> IsFinite PlusInfinity" by (simp_all add: infinity_defs)
  ultimately show ?thesis using assms(3) by (auto simp: NextUnpacedSendTime_def split: if_splits)
qed

text \<open>What is due when no keepalive is.\<close>

lemma next_send_due:
  assumes "tame pc" and "in_time pc" and "next_send pc \<le> now" and "now < pc_last_send_time pc + 500000" and "now < 2 ^ 45"
  shows "\<not> pc_paused pc" "\<not> Queue_Empty (pc_packet_queue pc) \<Longrightarrow> send_blocked pc False target now = Some False"
    "Queue_Empty (pc_packet_queue pc) \<Longrightarrow> next_send pc = pc_last_process_time pc + 500000"
proof -
  obtain t where t: "planned_send_time pc 0 = Some t" using planned_any [OF assms(1), of "pc_last_timestamp pc" 0] by simp
  have i: "0 \<le> pc_last_send_time pc" "pc_last_send_time pc < 2 ^ 45" "0 \<le> pc_last_process_time pc" "pc_last_process_time pc < 2 ^ 45"
    using assms(2) by (auto simp: in_time_def)
  have P: "PlusInfinity = 2 ^ 63 - 1" by (simp add: PlusInfinity_def)
  have le: "t \<le> now" using assms(3,5) by (auto simp: next_send_def t P)
  obtain u where u: "NextUnpacedSendTime pc = Some u" using NextUnpaced_good [of pc] assms(1) by (auto simp: tame_def)
  have p: "\<not> is_probing (pc_prober pc)" "pc_padding_rate pc = 0" "pc_send_padding_if_silent pc" "pc_send_burst_interval pc \<noteq> 0" "queue_good (pc_packet_queue pc)"
    using assms(1) by (simp_all add: tame_def)
  show np: "\<not> pc_paused pc" using t le assms(4) small_add [OF i(1,2)] by (auto simp: planned_send_time_def)
  have c: "IsFinite u \<or> \<not> pc_congested pc \<and> pc_seen_first_packet pc"
    using t le assms(4) small_add [OF i(1,2)] np p(1) by (auto simp: planned_send_time_def u split: if_splits)
  show "send_blocked pc False target now = Some False" if "\<not> Queue_Empty (pc_packet_queue pc)"
    using c p(4) by (auto simp: send_blocked_def u IsFinite_def)
  show "next_send pc = pc_last_process_time pc + 500000" if e: "Queue_Empty (pc_packet_queue pc)"
  proof -
    have "\<not> IsFinite u" by (rule empty_unpaced [OF p(5) e u])
    then have "t = min (pc_last_process_time pc + 500000) (pc_last_send_time pc + 500000)"
      using t np p c e small_add [OF i(1,2)] small_add [OF i(3,4)] by (simp add: planned_send_time_def u paced_send_time_def)
    then have "t = pc_last_process_time pc + 500000" using le assms(4) by (simp add: min_def split: if_splits)
    then show ?thesis using i by (simp add: next_send_def t P)
  qed
qed

section \<open>The send loop\<close>

lemma drain_times:
  assumes "in_time pc"
  shows "pc_last_process_time (drain_until pc x) = max (pc_last_process_time pc) x" "pc_last_send_time (drain_until pc x) = pc_last_send_time pc"
    "pc_last_timestamp (drain_until pc x) = pc_last_timestamp pc"
  using assms by (auto simp: drain_until_def UpdateTimeAndGetElapsed_def UpdateBudgetWithElapsedTime_def Let_def in_time_def infinity_defs)

lemma drain_punctual:
  assumes "punctual clock b pc s" and "x < 2 ^ 45"
  shows "punctual clock b (drain_until pc x) s"
  using assms drain_times [OF punctual_parts(3) [OF assms(1)], of x] by (auto simp: punctual_def in_time_def)

lemma OnPacketSent_times [simp]:
  "pc_last_send_time (OnPacketSent pc ty sz t) = t" "pc_last_process_time (OnPacketSent pc ty sz t) = pc_last_process_time pc"
  "pc_last_timestamp (OnPacketSent pc ty sz t) = pc_last_timestamp pc"
  by (simp_all add: OnPacketSent_def Let_def UpdateBudgetWithSentData_def UpdatePaddingBudgetWithSentData_def)

text \<open>During the loop the last packet was sent before \<open>now\<close>, a reading of the clock.\<close>

definition during :: "timestamp \<Rightarrow> PacingController \<Rightarrow> bool" where
  "during now pc \<longleftrightarrow> pc_last_send_time pc \<le> now \<and> now \<le> pc_last_timestamp pc \<and> 0 \<le> now"

lemma OnPacketSent_punctual:
  "punctual clock b pc s \<Longrightarrow> during now pc \<Longrightarrow> punctual clock b (OnPacketSent pc ty sz now) s"
  by (auto simp: punctual_def in_time_def during_def)

lemma send_and_fetch_fec_paced:
  "yields (send_and_fetch_fec (paced_env clock pad) packet info (pc, s)) (\<lambda>(pc', s'). pc' = pc \<and> po_clock_reads s' = po_clock_reads s)"
  using SendPacket_total [of "po_ssrc_seq s" packet]
  by (auto simp: send_and_fetch_fec_def paced_env_def Paced_SendPacket_def Paced_FetchFec_def)

lemma GetPendingPacket_punctual:
  assumes "punctual clock b pc s" and "ppi_probe_cluster_id info = kNotAProbe"
  shows "yields (GetPendingPacket (paced_env clock pad) info target now (pc, s)) (\<lambda>(packet, pc', s'). s' = s \<and>
    (case packet of
      None \<Rightarrow> pc' = pc \<and> (Queue_Empty (pc_packet_queue pc) \<or> send_blocked pc False target now \<noteq> Some False)
    | Some p \<Rightarrow> ts_packet_type p \<noteq> None \<and> (\<exists>q. pc' = pc\<lparr>pc_packet_queue := q\<rparr>) \<and> tame pc' \<and> load pc = Suc (load pc')))"
proof (cases "Queue_Empty (pc_packet_queue pc)")
  case False
  note pt = punctual_parts [OF assms(1)]
  obtain bl where bl: "send_blocked pc False target now = Some bl" using send_blocked_good [OF pt(5,6)] by blast
  obtain p x q where p: "Pop (pc_packet_queue pc) = Some (Some (p\<lparr>ts_time_in_send_queue := x\<rparr>), q)" "queue_good q"
      "waiting (pc_packet_queue pc) = add_mset p (waiting q)"
    using Pop_good [OF pt(5)] False by (auto simp: Queue_Empty_def)
  have "ts_packet_type p \<noteq> None" using queue_good_typed [OF pt(5), of p] p(3) by simp
  moreover have "tame (pc\<lparr>pc_packet_queue := q\<rparr>)" using pt(2) p(2) by (simp add: tame_def rates_ok_def)
  ultimately show ?thesis using False bl p assms(2) by (auto simp: GetPendingPacket_def Let_def load_def)
qed (use assms(2) in \<open>simp add: GetPendingPacket_def Let_def\<close>)

lemma pad_step_punctual:
  assumes "punctual clock b pc s" and "during now pc"
  shows "yields (pad_step env (now, False, 0) l (pc, s)) (\<lambda>(c, l', pc', s'). \<not> c \<and> s' = s \<and> sl_pacing_info l' = sl_pacing_info l \<and>
    punctual clock b pc' s \<and> during now pc' \<and> ahead False pc pc')"
proof -
  define behind where "behind \<longleftrightarrow> Timestamp_sub now (sl_target_send_time l) > kMaxPaddingReplayDuration"
  have n: "now < 2 ^ 45" "0 \<le> now" using assms by (auto simp: during_def punctual_def in_time_def)
  then have "Timestamp_sub_delta now kMaxPaddingReplayDuration \<le> now"
    unfolding Timestamp_ops using finite_unit_sub [of now kMaxPaddingReplayDuration]
    by (simp add: kMaxPaddingReplayDuration_def Millis_def FromFraction_def infinity_defs)
  then have "punctual clock b (pc\<lparr>pc_last_process_time := max (pc_last_process_time pc) (Timestamp_sub_delta now kMaxPaddingReplayDuration)\<rparr>) s"
    using assms(1) n by (auto simp: punctual_def in_time_def)
  then show ?thesis using assms punctual_parts(2) [OF assms(1)] unfolding pad_step_def prod.case behind_def [symmetric] Let_def
    by (auto simp: PaddingToAdd_def tame_def during_def ahead_def)
qed

lemma send_step_punctual:
  assumes "punctual clock b pc s" and "during now pc" and "ts_packet_type packet \<noteq> None"
  shows "yields (send_step (paced_env clock pad) (now, False, 0) packet l (pc, s)) (\<lambda>(c, l', pc', s').
    sl_pacing_info l' = sl_pacing_info l \<and> punctual clock b pc' s' \<and> during now pc' \<and> load pc' = load pc)"
proof -
  obtain ty where ty: "ts_packet_type packet = Some ty" using assms(3) by auto
  have n: "now < 2 ^ 45" using assms by (auto simp: during_def punctual_def in_time_def)
  have d: "punctual clock b (drain_until pc t) s \<and> during now (drain_until pc t)" if "punctual clock b pc s" "during now pc" "t \<le> now" for pc s t
    using drain_punctual [OF that(1), of t] drain_times [OF punctual_parts(3) [OF that(1)], of t] that(2,3) n by (auto simp: during_def)
  show ?thesis
    unfolding send_step_def prod.case ty Option.bind.simps Let_def
  proof (rule yields_bind [OF send_and_fetch_fec_paced], goal_cases)
    case (1 x)
    then obtain s1 where x: "x = (pc, s1)" "po_clock_reads s1 = po_clock_reads s" by (cases x) auto
    have p: "punctual clock b (OnPacketSent pc ty sz now) s1" for sz
      by (rule OnPacketSent_punctual [OF punctual_reads [OF assms(1)] assms(2)]) (simp add: x(2))
    show ?case unfolding x(1) prod.case simp_thms if_False
      by (rule yields_bind [OF NextSendTime_punctual [OF p]]) (use d assms(2) in \<open>auto simp: during_def\<close>)
  qed
qed

lemma ahead_load: "ahead a pc pc' \<Longrightarrow> load pc' \<le> load pc"
  by (auto simp: ahead_def)

text \<open>A packet can leave.\<close>

definition unblocked :: "timestamp \<Rightarrow> timestamp \<Rightarrow> PacingController \<Rightarrow> bool" where
  "unblocked target now pc \<longleftrightarrow> \<not> Queue_Empty (pc_packet_queue pc) \<and> send_blocked pc False target now = Some False"

lemma loop_step_punctual:
  assumes "punctual clock b pc s" and "during now pc" and "ppi_probe_cluster_id (sl_pacing_info l) = kNotAProbe"
  shows "yields (loop_step (paced_env clock pad) (now, False, 0) l (pc, s)) (\<lambda>(c, l', pc', s').
    sl_pacing_info l' = sl_pacing_info l \<and> punctual clock b pc' s' \<and> during now pc' \<and> ahead False pc pc' \<and>
    (c \<or> unblocked (sl_target_send_time l) now pc \<longrightarrow> load pc' < load pc))"
  unfolding loop_step_def fst_conv
proof (rule yields_bind [OF GetPendingPacket_punctual [OF assms(1,3)]], goal_cases)
  case (1 x)
  then obtain packet pc1 where x: "x = (packet, pc1, s)" by (cases x) auto
  show ?case
  proof (cases packet)
    case None
    then show ?thesis using 1 yields_mono [OF pad_step_punctual [OF assms(1,2)]] by (auto simp: x unblocked_def)
  next
    case (Some p)
    then obtain q where q: "pc1 = pc\<lparr>pc_packet_queue := q\<rparr>" and p: "ts_packet_type p \<noteq> None" "tame pc1" "load pc = Suc (load pc1)"
      using 1 by (auto simp: x)
    have "punctual clock b pc1 s" "during now pc1" using assms(1,2) p(2) by (simp_all add: q punctual_def during_def in_time_def)
    note s = send_step_punctual [OF this p(1), of pad l]
    show ?thesis unfolding x Some prod.case option.case by (rule yields_mono [OF s]) (use p(3) in \<open>auto simp: ahead_def\<close>)
  qed
qed

lemma send_loop_punctual:
  assumes "punctual clock b pc s" and "during now pc" and "ppi_probe_cluster_id (sl_pacing_info l) = kNotAProbe"
  shows "yields (send_loop (paced_env clock pad) (now, False, 0) n c l (pc, s)) (\<lambda>(ended, l', pc', s').
    punctual clock b pc' s' \<and> during now pc' \<and> ahead False pc pc' \<and> (\<not> c \<longrightarrow> ended) \<and>
    (0 < n \<and> c \<and> (\<not> ended \<or> unblocked (sl_target_send_time l) now pc) \<longrightarrow> load pc' < load pc))"
  using assms
proof (induction "nat n" arbitrary: n c l pc s)
  case 0
  then show ?case by (cases c) simp_all
next
  case (Suc i)
  show ?case
  proof (cases c)
    case True
    have "yields (do { (c, l, st) \<leftarrow> loop_step (paced_env clock pad) (now, False, 0) l (pc, s); send_loop (paced_env clock pad) (now, False, 0) (n - 1) c l st })
      (\<lambda>(ended, l', pc', s'). punctual clock b pc' s' \<and> during now pc' \<and> ahead False pc pc' \<and>
        (\<not> ended \<or> unblocked (sl_target_send_time l) now pc \<longrightarrow> load pc' < load pc))"
    proof (rule yields_bind [OF loop_step_punctual [OF Suc.prems]], goal_cases)
      case (1 x)
      obtain c1 l1 pc1 s1 where x: "x = (c1, l1, pc1, s1)" by (cases x)
      have i: "i = nat (n - 1)" using Suc.hyps(2) by simp
      have "yields (send_loop (paced_env clock pad) (now, False, 0) (n - 1) c1 l1 (pc1, s1)) (\<lambda>(ended, l', pc', s').
          punctual clock b pc' s' \<and> during now pc' \<and> ahead False pc1 pc' \<and> (\<not> c1 \<longrightarrow> ended) \<and>
          (0 < n - 1 \<and> c1 \<and> (\<not> ended \<or> unblocked (sl_target_send_time l1) now pc1) \<longrightarrow> load pc' < load pc1))"
        by (rule Suc.hyps(1) [OF i]) (use 1 Suc.prems(3) in \<open>auto simp: x\<close>)
      then show ?case unfolding x prod.case
        by (rule yields_mono) (use 1 in \<open>auto simp: x dest: ahead_trans [of False _ pc1 False] ahead_load\<close>)
    qed
    moreover have "\<not> n \<le> 0" using Suc.hyps(2) by simp
    ultimately show ?thesis unfolding eq_True [THEN iffD2, OF True] by (auto elim: yields_mono)
  qed (use Suc.prems in simp)
qed

section \<open>Processing\<close>

lemma MaybeUpdate_punctual:
  assumes "punctual clock b pc s"
  shows "punctual clock b (MaybeUpdateMediaRateDueToLongQueue pc now) s" "load (MaybeUpdateMediaRateDueToLongQueue pc now) = load pc"
    "pc_last_process_time (MaybeUpdateMediaRateDueToLongQueue pc now) = pc_last_process_time pc"
    "pc_last_send_time (MaybeUpdateMediaRateDueToLongQueue pc now) = pc_last_send_time pc"
  using assms Update_good [where q = "pc_packet_queue pc" and now = now]
  by (auto simp: MaybeUpdateMediaRateDueToLongQueue_def Let_def punctual_def tame_def rates_ok_def in_time_def load_def)

lemma unblocked_vital:
  assumes "vital pc' = vital pc" and "tame pc"
  shows "unblocked target now pc' = unblocked target now pc"
  using vital_pc [OF assms(1)] settings_same [OF vital_pc(4) [OF assms(1)]] assms(2)
  by (simp add: unblocked_def send_blocked_def NextUnpacedSendTime_def tame_def cong: if_cong)

lemma process_due_punctual:
  assumes "punctual clock b pc s" and "during now pc" and "target \<le> now"
  shows "yields (process_due (paced_env clock pad) now target (pc, s)) (\<lambda>(pc', s'). punctual clock b pc' s' \<and>
    ahead (unblocked target now pc \<or> pc_last_process_time pc < target) pc pc')"
proof -
  note pt = punctual_parts [OF assms(1)]
  obtain e pc1 where e: "UpdateTimeAndGetElapsed pc target = (e, pc1)" by fastforce
  define pc2 where "pc2 = (if e > 0 then UpdateBudgetWithElapsedTime pc1 e else pc1)"
  have v: "vital pc2 = vital pc" using vital_ops(3) [of pc target] e by (simp add: pc2_def)
  have t2: "pc_last_process_time pc2 = max (pc_last_process_time pc) target" "pc_last_send_time pc2 = pc_last_send_time pc" "pc_last_timestamp pc2 = pc_last_timestamp pc"
    using e pt(3) by (auto simp: pc2_def UpdateTimeAndGetElapsed_def UpdateBudgetWithElapsedTime_def Let_def in_time_def infinity_defs split: if_splits)
  have p2: "punctual clock b pc2 s" "during now pc2"
    using assms tame_vital [OF v] t2 by (auto simp: punctual_def during_def in_time_def)
  have a2: "ahead (pc_last_process_time pc < target) pc pc2" using t2 load_vital [OF v] by (auto simp: ahead_def)
  have c: "choose_probe pc2 now = (new_PacedPacketInfo, False, 0, pc2)" using punctual_parts(7) [OF p2(1)] by (simp add: choose_probe_def)
  have th: "0 < pc_circuit_breaker_threshold pc2" using punctual_parts(2) [OF p2(1)] by (simp add: tame_def)
  have u: "unblocked target now pc2 = unblocked target now pc" by (rule unblocked_vital [OF v pt(2)])
  let ?l = "\<lparr>sl_pacing_info = new_PacedPacketInfo, sl_target_send_time = target, sl_data_sent = 0, sl_packets_sent = 0\<rparr>"
  have i: "ppi_probe_cluster_id (sl_pacing_info ?l) = kNotAProbe" by (simp add: new_PacedPacketInfo_def)
  let ?strict = "unblocked target now pc \<or> pc_last_process_time pc < target"
  have F: "yields (do { (now, pc, s) \<leftarrow> CurrentTime (paced_env clock pad) pc3 s3; Some (MaybeUpdateMediaRateDueToLongQueue pc now, s) })
      (\<lambda>(pc', s'). punctual clock b pc' s' \<and> ahead ?strict pc pc')" if "punctual clock b pc3 s3" "ahead ?strict pc pc3" for pc3 s3
    by (rule yields_bind [OF CurrentTime_punctual [OF that(1)]]) (use that(2) MaybeUpdate_punctual in \<open>auto simp: ahead_def\<close>)
  show ?thesis
    unfolding process_due_def prod.case e pc2_def [symmetric] c Let_def
  proof (rule yields_bind [OF send_loop_punctual [OF p2 i]], goal_cases)
    case (1 x)
    obtain ended l3 pc3 s3 where x: "x = (ended, l3, pc3, s3)" by (cases x)
    have 3: "punctual clock b pc3 s3" "during now pc3" "ahead False pc2 pc3" "\<not> ended \<or> unblocked target now pc \<Longrightarrow> load pc3 < load pc2"
      using 1 th u by (auto simp: x)
    have a: "ahead (\<not> ended \<or> ?strict) pc pc3"
      using ahead_trans [OF a2 3(3)] 3(4) load_vital [OF v] by (auto simp: ahead_def)
    show ?case
    proof (cases ended)
      case True
      then show ?thesis using F [OF 3(1)] a by (simp add: x finish_probe_def)
    next
      case False
      have "punctual clock b (pc3\<lparr>pc_last_send_time := now, pc_last_process_time := now\<rparr>) s3"
        using 3(1,2) by (auto simp: punctual_def in_time_def during_def)
      then show ?thesis using False 3(4) load_vital [OF v] by (simp add: x ahead_def)
    qed
  qed
qed

lemma GeneratePadding_reads:
  "yields (ps_GeneratePadding (paced_env clock pad) sz s) (\<lambda>(ps, s'). po_clock_reads s \<le> po_clock_reads s')"
  by (simp add: paced_env_def Paced_GeneratePadding_def Clock_CurrentTime_def Let_def)

lemma send_keepalives_paced:
  "yields (send_keepalives (paced_env clock pad) ps n (pc, s)) (\<lambda>(n, pc', s'). pc' = pc \<and> po_clock_reads s' = po_clock_reads s)"
proof (induction ps arbitrary: n s)
  case (Cons p ps)
  show ?case unfolding send_keepalives.simps Let_def
  proof (rule yields_bind [OF send_and_fetch_fec_paced], goal_cases)
    case (1 x)
    then obtain s1 where x: "x = (pc, s1)" "po_clock_reads s1 = po_clock_reads s" by (cases x) auto
    show ?case unfolding x(1) prod.case by (rule yields_mono [OF Cons.IH]) (use x(2) in auto)
  qed
qed simp

lemma process_keepalive_punctual:
  assumes "punctual clock b pc s" and "during now pc"
  shows "yields (process_keepalive (paced_env clock pad) now (pc, s)) (\<lambda>(pc', s'). punctual clock b pc' s' \<and> during now pc' \<and>
    ahead (ShouldSendKeepalive pc now) pc pc' \<and> (\<not> ShouldSendKeepalive pc now \<longrightarrow> pc' = pc))"
proof (cases "ShouldSendKeepalive pc now")
  case True
  have n: "now < 2 ^ 45" "0 \<le> now" using assms by (auto simp: during_def punctual_def in_time_def)
  have k: "pc_last_send_time pc + 500000 \<le> now" using True keepalive_due [OF punctual_parts(2,3) [OF assms(1)] n(2,1)] by simp
  have 1: "yields (do { (ps, s) \<leftarrow> ps_GeneratePadding (paced_env clock pad) 1 s; send_keepalives (paced_env clock pad) ps 0 (pc, s) })
      (\<lambda>(n, pc', s'). pc' = pc \<and> po_clock_reads s \<le> po_clock_reads s')"
  proof (rule yields_bind [OF GeneratePadding_reads], goal_cases)
    case (1 x)
    then show ?case by (cases x) (simp, rule yields_mono [OF send_keepalives_paced], auto)
  qed
  have 2: "yields (if pc_seen_first_packet pc then do { (ps, s) \<leftarrow> ps_GeneratePadding (paced_env clock pad) 1 s; send_keepalives (paced_env clock pad) ps 0 (pc, s) }
      else Some (0, pc, s)) (\<lambda>(n, pc', s'). pc' = pc \<and> po_clock_reads s \<le> po_clock_reads s')" using 1 by simp
  show ?thesis
    unfolding process_keepalive_def prod.case if_P [OF True]
  proof (rule yields_bind [OF 2], goal_cases)
    case (1 x)
    then obtain n s1 where x: "x = (n, pc, s1)" "po_clock_reads s \<le> po_clock_reads s1" by (cases x) auto
    show ?case using OnPacketSent_punctual [OF punctual_reads [OF assms(1) x(2)] assms(2)] assms(2) k True
      by (simp add: x(1) during_def ahead_def)
  qed
qed (use assms in \<open>simp add: process_keepalive_def\<close>)

lemma process_rest_punctual:
  fixes pc2 s2 now clock b pad
  defines "due \<equiv> next_send pc2 \<le> now \<and> now < pc_last_send_time pc2 + 500000"
  assumes p: "punctual clock b pc2 s2" "during now pc2"
  shows "yields (if pc_paused pc2 then Some (pc2, s2)
       else do { (target, pc', s) \<leftarrow> NextSendTime (paced_env clock pad) pc2 s2;
         if Timestamp_add now (if is_probing (pc_prober pc2) then kMaxEarlyProbeProcessing else 0) < target then Some (drain_until pc' now, s)
         else process_due (paced_env clock pad) now target (pc', s) })
      (\<lambda>(pc', s'). punctual clock b pc' s' \<and> ahead due pc2 pc')"
proof -
  let ?env = "paced_env clock pad"
  note pt = punctual_parts [OF p(1)]
  have n: "now < 2 ^ 45" "0 \<le> now" using p by (auto simp: during_def punctual_def in_time_def)
  then have add: "Timestamp_add now (if is_probing (pc_prober pc2) then kMaxEarlyProbeProcessing else 0) = now"
    using pt(7) by (simp add: Timestamp_add_def infinity_defs)
  have 1: "yields (do { (target, pc', s) \<leftarrow> NextSendTime ?env pc2 s2;
       if now < target then Some (drain_until pc' now, s) else process_due ?env now target (pc', s) })
    (\<lambda>(pc', s'). punctual clock b pc' s' \<and> ahead due pc2 pc')"
  proof (rule yields_bind [OF NextSendTime_punctual [OF p(1)]], goal_cases)
    case (1 x)
    then obtain y s3 where x: "x = (next_send pc2, pc2\<lparr>pc_last_timestamp := y\<rparr>, s3)" "punctual clock b (pc2\<lparr>pc_last_timestamp := y\<rparr>) s3"
        "pc_last_timestamp pc2 \<le> y" by (cases x) auto
    let ?pc = "pc2\<lparr>pc_last_timestamp := y\<rparr>"
    have d: "during now ?pc" using p(2) x(3) by (auto simp: during_def)
    show ?case
    proof (cases "now < next_send pc2")
      case True
      then show ?thesis using drain_punctual [OF x(2) n(1)] drain_times [OF punctual_parts(3) [OF x(2)], of now] by (simp add: x(1) ahead_def due_def)
    next
      case False
      have s: "unblocked (next_send pc2) now ?pc \<or> pc_last_process_time ?pc < next_send pc2" if due
        using next_send_due(2) [OF punctual_parts(2,3) [OF x(2)], of now "next_send pc2"] next_send_due(3) [OF punctual_parts(2,3) [OF x(2)], of now]
          that pt(2) n(1) unfolding due_def by (cases "Queue_Empty (pc_packet_queue pc2)") (auto simp: unblocked_def)
      have "yields (process_due ?env now (next_send pc2) (?pc, s3)) (\<lambda>(pc', s'). punctual clock b pc' s' \<and>
          ahead (unblocked (next_send pc2) now ?pc \<or> pc_last_process_time ?pc < next_send pc2) ?pc pc')"
        by (rule process_due_punctual [OF x(2) d]) (use False in simp)
      then show ?thesis using False s by (simp add: x(1)) (elim yields_mono, auto simp: ahead_def)
    qed
  qed
  have "\<not> due" if "pc_paused pc2" using next_send_due(1) [OF pt(2,3), of now] n that unfolding due_def by blast
  then show ?thesis using 1 p(1) unfolding add by (auto simp: ahead_def)
qed

text \<open>When the next send time has come, processing gets somewhere.\<close>

theorem ProcessPackets_progress:
  assumes "punctual clock b pc s" and "next_send pc \<le> b"
  shows "yields (ProcessPackets (paced_env clock pad) pc s) (\<lambda>(pc', s'). punctual clock b pc' s' \<and> ahead True pc pc')"
proof -
  let ?env = "paced_env clock pad"
  have pt: "RemoveExpiredClusters (pc_prober pc) now = (False, pc_prober pc)" for now
    using punctual_parts(8) [OF assms(1)] by (simp add: RemoveExpiredClusters_def)
  show ?thesis
    unfolding ProcessPackets_def Let_def
  proof (rule yields_bind [OF CurrentTime_punctual [OF assms(1)]], goal_cases)
    case (1 x)
    then obtain now s1 where x: "x = (now, pc\<lparr>pc_last_timestamp := now\<rparr>, s1)" "punctual clock b (pc\<lparr>pc_last_timestamp := now\<rparr>) s1"
        "b \<le> now" "pc_last_timestamp pc \<le> now" "0 \<le> now" "now < 2 ^ 45" by (cases x) auto
    let ?pc = "pc\<lparr>pc_last_timestamp := now\<rparr>"
    have d: "during now ?pc" using x(4,5) punctual_parts(3) [OF assms(1)] by (auto simp: during_def in_time_def)
    have k: "ShouldSendKeepalive ?pc now \<longleftrightarrow> pc_last_send_time pc + 500000 \<le> now"
      using keepalive_due [OF punctual_parts(2,3) [OF x(2)] x(5,6)] by simp
    have "yields (do { (pc, s) \<leftarrow> process_keepalive ?env now (?pc, s1);
        if pc_paused pc then Some (pc, s)
        else do { (target, pc', s) \<leftarrow> NextSendTime ?env pc s;
          if Timestamp_add now (if is_probing (pc_prober pc) then kMaxEarlyProbeProcessing else 0) < target then Some (drain_until pc' now, s)
          else process_due ?env now target (pc', s) } }) (\<lambda>(pc', s'). punctual clock b pc' s' \<and> ahead True pc pc')"
    proof (rule yields_bind [OF process_keepalive_punctual [OF x(2) d]], goal_cases)
      case (1 z)
      then obtain pc2 s2 where z: "z = (pc2, s2)" "punctual clock b pc2 s2" "during now pc2" "ahead (ShouldSendKeepalive ?pc now) ?pc pc2"
          "\<not> ShouldSendKeepalive ?pc now \<Longrightarrow> pc2 = ?pc" by (cases z) auto
      have "next_send pc2 \<le> now \<and> now < pc_last_send_time pc2 + 500000" if "\<not> ShouldSendKeepalive ?pc now"
        using z(5) [OF that] that k assms(2) x(3) punctual_parts(2) [OF assms(1)] by simp
      then have a: "ahead True pc pc'" if "ahead (next_send pc2 \<le> now \<and> now < pc_last_send_time pc2 + 500000) pc2 pc'" for pc'
        using ahead_trans [OF z(4) that] by (auto simp: ahead_def)
      show ?case unfolding z(1) prod.case by (rule yields_mono [OF process_rest_punctual [OF z(2,3)]]) (use a in auto)
    qed
    then show ?case by (simp add: x(1) pt)
  qed
qed

section \<open>The loop of the paced sender\<close>

definition rank :: "PacingController \<Rightarrow> nat \<times> nat" where
  "rank pc = (load pc, nat (2 ^ 45 - pc_last_process_time pc) + nat (2 ^ 45 - pc_last_send_time pc))"

lemma ahead_rank: "ahead True pc pc' \<Longrightarrow> in_time pc' \<Longrightarrow> (rank pc', rank pc) \<in> less_than <*lex*> less_than"
  by (auto simp: ahead_def rank_def in_time_def)

lemma process_while_returns:
  assumes "punctual clock b pc s" and "0 \<le> b" and "b < 2 ^ 45"
  shows "yields (process_while (paced_env clock pad) b (next_send pc) (pc, s)) (\<lambda>(t, pc', s'). punctual clock b pc' s')"
  using assms(1)
proof (induction "rank pc" arbitrary: pc s rule: wf_induct_rule [OF wf_lex_prod [OF wf_less_than wf_less_than]])
  case 1
  let ?env = "paced_env clock pad"
  have m: "Timestamp_add b (execute_margin pc) = b"
    using punctual_parts(7) [OF 1(2)] assms(2,3) by (simp add: execute_margin_def Timestamp_add_def infinity_defs)
  show ?case
  proof (cases "\<not> po_is_shutdown s \<and> next_send pc \<le> b")
    case True
    show ?thesis unfolding process_while_code m if_P [OF True]
    proof (rule yields_bind [OF ProcessPackets_progress [OF 1(2) conjunct2 [OF True]]], goal_cases)
      case (1 st)
      then obtain pc1 s1 where st: "st = (pc1, s1)" "punctual clock b pc1 s1" "ahead True pc pc1" by (cases st) auto
      show ?case unfolding st(1) fst_conv snd_conv
      proof (rule yields_bind [OF NextSendTime_punctual [OF st(2)]], goal_cases)
        case (1 x)
        then obtain y s2 where x: "x = (next_send pc1, pc1\<lparr>pc_last_timestamp := y\<rparr>, s2)" "punctual clock b (pc1\<lparr>pc_last_timestamp := y\<rparr>) s2"
          by (cases x) auto
        have "ahead True pc (pc1\<lparr>pc_last_timestamp := y\<rparr>)" using st(3) by (simp add: ahead_def)
        from \<open>\<And>pc' s'. _ \<Longrightarrow> punctual clock b pc' s' \<Longrightarrow> _\<close> [OF ahead_rank [OF this punctual_parts(3) [OF x(2)]] x(2)]
        show ?case using punctual_parts(2) [OF st(2)] by (simp add: x(1))
      qed
    qed
  next
    case False
    then show ?thesis unfolding process_while_code m if_not_P [OF False] using 1(2) by simp
  qed
qed

definition on_time :: "(nat \<Rightarrow> timestamp) \<Rightarrow> PacedSenderState \<Rightarrow> bool" where
  "on_time clock d \<longleftrightarrow> punctual clock 0 (pd_controller d) (pd_out d)"

lemma on_time_other [simp]:
  "on_time clock (d\<lparr>pd_next_process_time := t\<rparr>) = on_time clock d" "on_time clock (d\<lparr>pd_is_started := b\<rparr>) = on_time clock d"
  "on_time clock (d\<lparr>pd_transport_ready := b\<rparr>) = on_time clock d" "on_time clock (d\<lparr>pd_packet_size := r\<rparr>) = on_time clock d"
  "on_time clock (d\<lparr>pd_include_overhead := b\<rparr>) = on_time clock d" "on_time clock (d\<lparr>pd_current_stats := st\<rparr>) = on_time clock d"
  "on_time clock (d\<lparr>pd_posted := ps\<rparr>) = on_time clock d"
  by (simp_all add: on_time_def)

lemma schedule_returns:
  assumes "on_time clock d"
  shows "yields (do { d \<leftarrow> UpdateStats d; schedule_next now t m d }) (on_time clock)"
proof -
  have "pc_adjusted_media_rate (pd_controller d) \<noteq> 0" using assms by (auto simp: on_time_def punctual_def tame_def rates_ok_def)
  then show ?thesis using assms
    by (auto simp: UpdateStats_def ExpectedQueueTime_def size_div_rate_def schedule_next_def hold_back_def Let_def)
qed

lemma MaybeProcessPackets_returns:
  assumes "on_time clock d"
  shows "yields (MaybeProcessPackets (paced_env clock pad) t d) (on_time clock)"
proof -
  let ?env = "paced_env clock pad"
  define d0 where "d0 = (if IsFinite t then d\<lparr>pd_next_process_time := MinusInfinity\<rparr> else d)"
  have d0: "punctual clock 0 (pd_controller d0) (pd_out d0)" using assms by (simp add: d0_def on_time_def)
  have "yields (do {
        (next_send_time, pc, s) \<leftarrow> NextSendTime ?env (pd_controller d0) (pd_out d0);
        case ps_CurrentTime ?env s of (now, s) \<Rightarrow> do {
        (next_send_time, pc, s) \<leftarrow> process_while ?env now next_send_time (pc, s);
        let d = d0\<lparr>pd_controller := pc, pd_out := s\<rparr> in
        if po_is_shutdown s then Some d
        else do {
          d \<leftarrow> UpdateStats d;
          schedule_next now next_send_time (execute_margin pc) d } } }) (on_time clock)"
  proof (rule yields_bind [OF NextSendTime_punctual [OF d0]], goal_cases)
    case (1 x)
    then obtain y s where x: "x = (next_send (pd_controller d0), (pd_controller d0)\<lparr>pc_last_timestamp := y\<rparr>, s)"
        "punctual clock 0 ((pd_controller d0)\<lparr>pc_last_timestamp := y\<rparr>) s" by (cases x) auto
    let ?pc = "(pd_controller d0)\<lparr>pc_last_timestamp := y\<rparr>" and ?s = "s\<lparr>po_clock_reads := po_clock_reads s + 1\<rparr>" and ?now = "clock (po_clock_reads s)"
    have n: "next_send (pd_controller d0) = next_send ?pc" using punctual_parts(2) [OF d0] by simp
    have now: "0 \<le> ?now" "?now < 2 ^ 45" "?now \<le> clock (po_clock_reads s + 1)"
      using punctual_parts(1) [OF d0] by (auto simp: steady_def mono_def)
    then have p: "punctual clock ?now ?pc ?s" using x(2) by (simp add: punctual_def)
    have c: "ps_CurrentTime ?env s = (?now, ?s)" by (simp add: paced_env_def Clock_CurrentTime_def)
    have zero: "punctual clock 0 pc s" if "punctual clock ?now pc s" for pc s using that now(1) by (auto simp: punctual_def)
    show ?case unfolding x(1) prod.case c n
    proof (rule yields_bind [OF process_while_returns [OF p now(1,2)]], goal_cases)
      case (1 r)
      then obtain n pc s where r: "r = (n, pc, s)" "on_time clock (d0\<lparr>pd_controller := pc, pd_out := s\<rparr>)"
        using zero by (cases r) (auto simp: on_time_def)
      show ?case unfolding r(1) prod.case Let_def using schedule_returns [OF r(2)] r(2) by (simp add: yields_def)
    qed
  qed
  then show ?thesis using assms unfolding MaybeProcessPackets_def d0_def [symmetric] Let_def by simp
qed

section \<open>The other operations\<close>

lemma punctual_queue: "punctual clock b pc s \<Longrightarrow> queue_good q \<Longrightarrow> punctual clock b (pc\<lparr>pc_packet_queue := q\<rparr>) s"
  by (simp add: punctual_def tame_def rates_ok_def in_time_def)

lemma punctual_flags:
  assumes "punctual clock b pc s"
  shows "punctual clock b (pc\<lparr>pc_paused := v\<rparr>) s" "punctual clock b (pc\<lparr>pc_congested := v\<rparr>) s" "punctual clock b (ClearProbingSendFailure pc) s"
    "punctual clock b (pc\<lparr>pc_seen_first_packet := v\<rparr>) s"
  using assms by (auto simp: punctual_def tame_def rates_ok_def in_time_def ClearProbingSendFailure_def)

lemma CurrentTime_returns:
  assumes "punctual clock b pc s" and "\<And>now pc s. punctual clock b pc s \<Longrightarrow> 0 \<le> now \<Longrightarrow> now < 2 ^ 45 \<Longrightarrow> yields (f now pc s) Q"
  shows "yields (do { (now, pc, s) \<leftarrow> CurrentTime (paced_env clock pad) pc s; f now pc s }) Q"
  by (rule yields_bind [OF CurrentTime_punctual [OF assms(1)]]) (use assms(2) in auto)

lemma Pause_returns:
  assumes "punctual clock b pc s"
  shows "yields (Pause (paced_env clock pad) pc s) (\<lambda>(pc, s). punctual clock b pc s)"
    "yields (Resume (paced_env clock pad) pc s) (\<lambda>(pc, s). punctual clock b pc s)"
proof -
  have q: "punctual clock b (pc\<lparr>pc_packet_queue := SetPauseState (pc_packet_queue pc) v now\<rparr>) s" if "punctual clock b pc s" for pc s v now
    by (rule punctual_queue [OF that Update_good(3) [OF punctual_parts(5) [OF that]]])
  show "yields (Pause (paced_env clock pad) pc s) (\<lambda>(pc, s). punctual clock b pc s)"
    unfolding Pause_def Let_def by (rule CurrentTime_returns [OF punctual_flags(1) [OF assms]]) (use q in simp)
  have r: "punctual clock b ((if pc_paused pc then pc\<lparr>pc_last_process_time := now\<rparr> else pc)\<lparr>pc_paused := False\<rparr>) s"
    if "punctual clock b pc s" "0 \<le> now" "now < 2 ^ 45" for pc s now
    using that by (auto simp: punctual_def tame_def rates_ok_def in_time_def)
  show "yields (Resume (paced_env clock pad) pc s) (\<lambda>(pc, s). punctual clock b pc s)"
    unfolding Resume_def Let_def by (rule CurrentTime_returns [OF assms]) (use q [OF r] in simp)
qed

lemma SetCongested_returns:
  assumes "punctual clock b pc s"
  shows "yields (SetCongested (paced_env clock pad) pc congested s) (\<lambda>(pc, s). punctual clock b pc s)"
proof -
  have "yields (do { (now, pc, s) \<leftarrow> CurrentTime (paced_env clock pad) pc s; Some (drain_until pc now, s) }) (\<lambda>(pc, s). punctual clock b pc s)"
    by (rule CurrentTime_returns [OF assms]) (simp add: drain_punctual)
  then have 1: "yields (if v then do { (now, pc, s) \<leftarrow> CurrentTime (paced_env clock pad) pc s; Some (drain_until pc now, s) } else Some (pc, s))
      (\<lambda>(pc, s). punctual clock b pc s)" for v using assms by simp
  show ?thesis unfolding SetCongested_def Let_def by (rule yields_bind [OF 1]) (auto simp: punctual_flags)
qed

lemma SetPacingRates_returns:
  assumes "punctual clock b (pc\<lparr>pc_pacing_rate := r, pc_padding_rate := 0, pc_adjusted_media_rate := r\<rparr>) s" and "0 < r"
  shows "yields (SetPacingRates (paced_env clock pad) pc r 0 s) (\<lambda>(pc, s). punctual clock b pc s)"
proof -
  have m: "min r 0 = 0" using assms(2) by simp
  show ?thesis unfolding SetPacingRates_any m by (rule CurrentTime_returns [OF assms(1)]) (simp add: MaybeUpdate_punctual(1))
qed

lemma Remove_returns:
  assumes "punctual clock b pc s"
  shows "yields (Pacer_RemovePacketsForSsrc pc ssrc) (\<lambda>pc. punctual clock b pc s)"
  using Remove_good [OF punctual_parts(5) [OF assms], of ssrc] punctual_queue [OF assms] by (auto simp: Pacer_RemovePacketsForSsrc_def)

lemma quiet_prober:
  assumes "bp_clusters p = []" and "\<not> is_probing p"
  shows "bp_clusters (MaybeSetActiveState p sz) = []" "\<not> is_probing (MaybeSetActiveState p sz)"
  using assms by (simp_all add: MaybeSetActiveState_def ReadyToSetActiveState_def)

lemma punctual_prober:
  "punctual clock b pc s \<Longrightarrow> bp_clusters p = [] \<Longrightarrow> \<not> is_probing p \<Longrightarrow> punctual clock b (pc\<lparr>pc_prober := p\<rparr>) s"
  by (simp add: punctual_def tame_def rates_ok_def in_time_def)

lemma EnqueuePacket_returns:
  assumes "punctual clock b pc s" and "ts_packet_type packet \<noteq> None"
  shows "yields (EnqueuePacket (paced_env clock pad) pc packet s) (\<lambda>(pc, s). punctual clock b pc s)"
proof -
  let ?env = "paced_env clock pad" let ?ssrc = "rp_ssrc (ts_packet packet)"
  have 1: "yields (if c then Pacer_RemovePacketsForSsrc pc ?ssrc else Some pc) (\<lambda>pc. punctual clock b pc s)" for c
    using Remove_returns [OF assms(1)] assms(1) by simp
  have 2: "punctual clock b (pc\<lparr>pc_prober := OnIncomingPacket (pc_prober pc) sz\<rparr>) s" "\<not> is_probing (OnIncomingPacket (pc_prober pc) sz)"
    if "punctual clock b pc s" for pc s sz
    using punctual_prober [OF that] quiet_prober [OF punctual_parts(8,7) [OF that]] by (simp_all add: OnIncomingPacket_def)
  have 3: "yields (if Queue_Empty (pc_packet_queue pc) then do {
          (next_send_time, pc, s) \<leftarrow> NextSendTime ?env pc s;
          Some (drain_until pc (if IsFinite next_send_time then min now next_send_time else now), s) }
        else Some (pc, s)) (\<lambda>(pc, s). punctual clock b pc s)" if "punctual clock b pc s" "now < 2 ^ 45" for pc s now
    using that by (auto intro!: yields_bind [OF NextSendTime_punctual [OF that(1)]] drain_punctual)
  have 4: "yields (do { q \<leftarrow> Push (pc_packet_queue pc) now packet;
        Some (MaybeUpdateMediaRateDueToLongQueue (pc\<lparr>pc_packet_queue := q, pc_seen_first_packet := True\<rparr>) now, s) })
      (\<lambda>(pc, s). punctual clock b pc s)" if p: "punctual clock b pc s" for pc s now
    using Push_good [OF punctual_parts(5) [OF p] assms(2), of now] MaybeUpdate_punctual(1) [OF punctual_flags(4) [OF punctual_queue [OF p]]] by auto
  have 5: "yields (do { (pc, s) \<leftarrow> (if Queue_Empty (pc_packet_queue pc) then do {
          (next_send_time, pc, s) \<leftarrow> NextSendTime ?env pc s;
          Some (drain_until pc (if IsFinite next_send_time then min now next_send_time else now), s) }
        else Some (pc, s));
      q \<leftarrow> Push (pc_packet_queue pc) now packet;
      Some (MaybeUpdateMediaRateDueToLongQueue (pc\<lparr>pc_packet_queue := q, pc_seen_first_packet := True\<rparr>) now, s) })
      (\<lambda>(pc, s). punctual clock b pc s)" if "punctual clock b pc s" "now < 2 ^ 45" for pc s now
    by (rule yields_bind [OF 3 [OF that]]) (use 4 in auto)
  have 6: "punctual clock b (if v then ClearProbingSendFailure pc else pc) s" if "punctual clock b pc s" for pc v
    using that punctual_flags(3) by simp
  show ?thesis
    unfolding EnqueuePacket_def Let_def
    by (rule yields_bind [OF 1], rule yields_bind [OF CurrentTime_punctual [OF 6 [OF 2(1)]]], assumption) (use 5 in auto)
qed

section \<open>Tasks\<close>

text \<open>Tasks without padding, probes and a burst interval of zero.\<close>

fun calm_task :: "PacerTask \<Rightarrow> bool" where
  "calm_task (RatesTask pacing_rate padding_rate) = (0 < pacing_rate \<and> padding_rate = 0)"
| "calm_task (ClustersTask configs) = False"
| "calm_task (BurstTask burst_interval) = (burst_interval \<noteq> 0)"
| "calm_task t = valid_task t"

lemma MaybeSchedule_returns:
  "on_time clock d \<Longrightarrow> yields (MaybeScheduleProcessPackets (paced_env clock pad) d) (on_time clock)"
  using MaybeProcessPackets_returns by (simp add: MaybeScheduleProcessPackets_def)

lemma on_controller_returns:
  assumes "on_time clock d" and "\<And>pc s. punctual clock 0 pc s \<Longrightarrow> yields (f pc s) (\<lambda>(pc, s). punctual clock 0 pc s)"
  shows "yields (on_controller f d) (on_time clock)"
  unfolding on_controller_def
  by (rule yields_bind [OF assms(2) [OF assms(1) [unfolded on_time_def]]]) (auto simp: on_time_def)

lemma on_time_setting:
  "on_time clock d \<Longrightarrow> (\<And>s. punctual clock 0 (pd_controller d) s \<Longrightarrow> punctual clock 0 pc s) \<Longrightarrow> on_time clock (d\<lparr>pd_controller := pc\<rparr>)"
  by (simp add: on_time_def)

lemma punctual_settings:
  assumes "punctual clock b pc s"
  shows "punctual clock b (SetAccountForAudioPackets pc v) s" "punctual clock b (SetIncludeOverhead pc) s" "punctual clock b (SetTransportOverhead pc n) s"
    "punctual clock b (SetQueueTimeLimit pc n) s" "n \<noteq> 0 \<Longrightarrow> punctual clock b (SetSendBurstInterval pc n) s" "punctual clock b (AbortProbing pc) s"
    "punctual clock b (SetAllowProbeWithoutMediaPacket pc v) s"
proof -
  show "punctual clock b (SetAccountForAudioPackets pc v) s" "punctual clock b (SetIncludeOverhead pc) s" "punctual clock b (SetTransportOverhead pc n) s"
    "punctual clock b (SetQueueTimeLimit pc n) s" "n \<noteq> 0 \<Longrightarrow> punctual clock b (SetSendBurstInterval pc n) s"
    using assms by (simp_all add: punctual_def tame_def rates_ok_def in_time_def SetAccountForAudioPackets_def SetIncludeOverhead_def
      SetTransportOverhead_def SetQueueTimeLimit_def SetSendBurstInterval_def)
  have "punctual clock b (pc\<lparr>pc_prober := Prober_AbortProbing (pc_prober pc)\<rparr>) s"
    by (rule punctual_prober [OF assms]) (simp_all add: Prober_AbortProbing_def is_probing_def Let_def)
  then show "punctual clock b (AbortProbing pc) s" using punctual_flags(3) by (force simp: AbortProbing_def ClearProbingSendFailure_def)
  have q: "bp_clusters (Prober_SetAllowProbeWithoutMediaPacket (pc_prober pc) v) = []" "\<not> is_probing (Prober_SetAllowProbeWithoutMediaPacket (pc_prober pc) v)"
    using punctual_parts(7,8) [OF assms] quiet_prober [of "pc_prober pc\<lparr>bp_config := c\<rparr>" for c]
    by (simp_all add: Prober_SetAllowProbeWithoutMediaPacket_def is_probing_def)
  then show "punctual clock b (SetAllowProbeWithoutMediaPacket pc v) s"
    using punctual_prober [OF assms q] by (simp add: SetAllowProbeWithoutMediaPacket_def Let_def)
qed

lemma punctual_output: "po_clock_reads s' = po_clock_reads s \<Longrightarrow> punctual clock b pc s' = punctual clock b pc s"
  by (simp add: punctual_def)

lemma EnqueuePacketOnQueue_returns:
  assumes "on_time clock d" and "ts_packet_type packet \<noteq> None"
  shows "yields (EnqueuePacketOnQueue (paced_env clock pad) packet d) (on_time clock)"
  unfolding EnqueuePacketOnQueue_def Let_def
  by (rule on_controller_returns, use assms(1) in \<open>simp add: on_time_def punctual_def\<close>) (rule EnqueuePacket_returns, use assms(2) in simp_all)

lemma EnqueueAll_returns:
  "on_time clock d \<Longrightarrow> list_all (\<lambda>p. ts_packet_type p \<noteq> None) ps \<Longrightarrow> yields (foldM (EnqueuePacketOnQueue (paced_env clock pad)) ps d) (on_time clock)"
proof (induction ps arbitrary: d)
  case (Cons p ps)
  then show ?case unfolding foldM.simps by (intro yields_bind [OF EnqueuePacketOnQueue_returns [of clock d p pad]]) auto
qed simp

lemma rates_any:
  "punctual clock b pc s \<Longrightarrow> 0 < r \<Longrightarrow> punctual clock b (pc\<lparr>pc_pacing_rate := r, pc_padding_rate := 0, pc_adjusted_media_rate := r\<rparr>) s"
  by (simp add: punctual_def tame_def rates_ok_def in_time_def)

lemma run_task_returns:
  assumes "on_time clock d" and "calm_task t"
  shows "yields (run_task (paced_env clock pad) t d) (on_time clock)"
proof -
  note M = MaybeProcessPackets_returns and S = MaybeSchedule_returns and C = on_controller_returns [OF assms(1)]
  note set = on_time_setting [OF assms(1) punctual_settings(1)] on_time_setting [OF assms(1) punctual_settings(2)] on_time_setting [OF assms(1) punctual_settings(3)]
    on_time_setting [OF assms(1) punctual_settings(4)] on_time_setting [OF assms(1) punctual_settings(7)]
  show ?thesis
  proof (cases t)
    case (EnqueueTask ps)
    then show ?thesis using assms(2) yields_bind [OF EnqueueAll_returns [OF assms(1)] M] by (simp add: EnqueuePacketsOnQueue_def)
  next
    case (EnqueueOneTask p)
    then show ?thesis using assms(2) yields_bind [OF EnqueuePacketOnQueue_returns [OF assms(1)] M] by (simp add: Sender_EnqueuePacket_def)
  next
    case (TransportTask v)
    let ?d = "d\<lparr>pd_transport_ready := False, pd_controller := AbortProbing (pd_controller d)\<rparr>"
    have "on_time clock ?d" using assms(1) punctual_settings(6) by (simp add: on_time_def)
    then have "yields (on_controller (Pause (paced_env clock pad)) ?d) (on_time clock)" by (rule on_controller_returns) (rule Pause_returns)
    then have "yields (do { d \<leftarrow> on_controller (Pause (paced_env clock pad)) ?d; Some (d\<lparr>pd_next_process_time := MinusInfinity\<rparr>) }) (on_time clock)"
      by (rule yields_bind) simp
    moreover have "yields (on_controller (Resume (paced_env clock pad)) (d\<lparr>pd_transport_ready := True\<rparr>)) (on_time clock)"
      by (rule on_controller_returns [OF _ Pause_returns(2)]) (use assms(1) in simp_all)
    ultimately show ?thesis by (simp add: TransportTask SetTransportReady_def Let_def)
  next
    case (CongestedTask v)
    then show ?thesis using yields_bind [OF C [OF SetCongested_returns] S] by (simp add: Sender_SetCongested_def)
  next
    case (RatesTask r r')
    then have "yields (on_controller (\<lambda>pc. SetPacingRates (paced_env clock pad) pc r 0) d) (on_time clock)"
      using assms(2) by (intro C SetPacingRates_returns rates_any) auto
    from yields_bind [OF this S] show ?thesis using RatesTask assms(2) by (simp add: Sender_SetPacingRates_def)
  next
    case ResumeTask
    then show ?thesis using yields_bind [OF C [OF Pause_returns(2)] M] by (simp add: Sender_Resume_def)
  next
    case (RemoveTask ssrc)
    have "yields (Pacer_RemovePacketsForSsrc (pd_controller d) ssrc) (\<lambda>pc. on_time clock (d\<lparr>pd_controller := pc\<rparr>))"
      using Remove_returns [OF assms(1) [unfolded on_time_def]] by (simp add: on_time_def)
    from yields_bind [OF this M] show ?thesis by (simp add: RemoveTask Sender_RemovePacketsForSsrc_def)
  next
    case PauseTask
    then show ?thesis using C [OF Pause_returns(1)] by (simp add: Sender_Pause_def)
  next
    case (AllowProbeTask v)
    then show ?thesis using S [OF set(5)] by (simp add: Sender_SetAllowProbeWithoutMediaPacket_def)
  next
    case IncludeOverheadTask
    then show ?thesis using M [of clock "d\<lparr>pd_include_overhead := True, pd_controller := SetIncludeOverhead (pd_controller d)\<rparr>"] set(2)
      by (simp add: Sender_SetIncludeOverhead_def on_time_def)
  next
    case (BurstTask n)
    then show ?thesis using assms punctual_settings(5) by (simp add: Sender_SetSendBurstInterval_def on_time_def)
  next
    case ShutdownTask
    then show ?thesis using assms(1) by (simp add: Shutdown_def on_time_def punctual_def)
  qed (use assms(2) M [OF assms(1)] M [OF set(1)] M [OF set(3)] M [OF set(4)] M [of clock "d\<lparr>pd_is_started := True\<rparr>"] assms(1) in
    \<open>simp_all add: EnsureStarted_def Sender_SetAccountForAudioPackets_def Sender_SetTransportOverhead_def Sender_SetQueueTimeLimit_def\<close>)
qed

text \<open>
  The constructor reads the clock for the last timestamp before it reads it for the other times, so
  that the first operation may find them in the wrong order; it reads the clock first.
\<close>

lemma init_returns:
  assumes "steady clock"
  shows "yields (init_paced_sender (paced_env clock pad) limit) (on_time clock)"
proof -
  let ?env = "paced_env clock pad"
  define d where "d = new_PacedSender ?env"
  let ?rates = "\<lambda>pc. pc\<lparr>pc_pacing_rate := 300000, pc_padding_rate := 0, pc_adjusted_media_rate := 300000\<rparr>"
  have c: "0 \<le> clock n" "clock n < 2 ^ 45" "clock 0 \<le> clock 1" "clock 1 \<le> clock 2" for n
    using assms by (auto simp: steady_def mono_def)
  have off: "\<not> pd_is_started d" "\<not> pd_processing_packets d" "po_clock_reads (pd_out d) = 2" "pc_last_timestamp (pd_controller d) = clock 0"
    by (simp_all add: d_def new_PacedSender_def new_PacingController_def paced_env_def Clock_CurrentTime_def)
  have p: "punctual clock 0 (?rates ((pd_controller d)\<lparr>pc_last_timestamp := clock 1\<rparr>)) (pd_out d)"
    using c assms by (simp add: d_def punctual_def tame_def in_time_def rates_ok_def new_PacedSender_def new_PacingController_def paced_env_def Clock_CurrentTime_def
      LowLatencyPacingConfiguration_def DefaultConfiguration_def default_queue_good new_BitrateProber_def SetEnabled_def is_probing_def
      kDefaultBurstInterval_def Millis_def FromFraction_def)
  have "SetPacingRates ?env (pd_controller d) 300000 0 (pd_out d) = SetPacingRates ?env ((pd_controller d)\<lparr>pc_last_timestamp := clock 1\<rparr>) 300000 0 (pd_out d)"
    using c(3,4) by (simp add: SetPacingRates_def CurrentTime_def paced_env_def Clock_CurrentTime_def off Let_def)
  moreover have "yields (SetPacingRates ?env ((pd_controller d)\<lparr>pc_last_timestamp := clock 1\<rparr>) 300000 0 (pd_out d)) (\<lambda>(pc, s). punctual clock 0 pc s)"
    by (rule SetPacingRates_returns [OF p]) simp
  ultimately obtain pc s where r: "SetPacingRates ?env (pd_controller d) 300000 0 (pd_out d) = Some (pc, s)" "punctual clock 0 pc s"
    by (auto simp: yields_def)
  define d1 where "d1 = d\<lparr>pd_controller := pc, pd_out := s\<rparr>"
  have 1: "Sender_SetPacingRates ?env 300000 0 d = Some d1"
    using off(1,2) by (simp add: Sender_SetPacingRates_def on_controller_def r(1) MaybeScheduleProcessPackets_def MaybeProcessPackets_def d1_def)
  have "on_time clock d1" using r(2) by (simp add: on_time_def d1_def)
  then have 2: "on_time clock (Sender_SetSendBurstInterval (Millis 40) d1)"
    using run_task_returns [of clock d1 "BurstTask (Millis 40)" pad] by (simp add: Millis_def FromFraction_def)
  have L: "yields (Sender_SetQueueTimeLimit ?env limit d) (on_time clock)" "yields (Sender_SetAllowProbeWithoutMediaPacket ?env False d) (on_time clock)"
    if "on_time clock d" for d
    using run_task_returns [OF that, of "LimitTask limit" pad] run_task_returns [OF that, of "AllowProbeTask False" pad] by simp_all
  have 3: "yields (do { d \<leftarrow> Sender_SetAllowProbeWithoutMediaPacket ?env False d; Some (SetOnSentPacketFunc d) }) (on_time clock)" if "on_time clock d" for d
    by (rule yields_bind [OF L(2) [OF that]]) (simp add: SetOnSentPacketFunc_def on_time_def punctual_def)
  show ?thesis unfolding init_paced_sender_def d_def [symmetric] 1 Option.bind.simps Let_def
    by (rule yields_bind [OF L(1) [OF 2] 3])
qed

section \<open>Property\<close>

text \<open>
  C24: the pacer always returns. With a clock that does not go back, any sequence of tasks of the paced
  sender returns, whatever the padding callback makes, as long as packets have a type, rates are
  positive, and no padding rate, no probes and no zero burst interval are asked for. In particular the
  loop of \<open>MaybeProcessPackets\<close> ends, although it runs as long as the next send time has come:
  every call of \<open>ProcessPackets\<close> sends a packet or moves the next send time.
\<close>

theorem paced_sender_returns:
  assumes "mono clock" and "\<And>n. 0 \<le> clock n \<and> clock n < 2 ^ 45" and "list_all calm_task ts"
  shows "\<exists>d\<^sub>0 d. init_paced_sender (paced_env clock pad) limit = Some d\<^sub>0 \<and> foldM (run_task (paced_env clock pad)) ts d\<^sub>0 = Some d"
proof -
  have run: "yields (foldM (run_task (paced_env clock pad)) ts d) (on_time clock)" if "on_time clock d" "list_all calm_task ts" for d ts
    using that
  proof (induction ts arbitrary: d)
    case (Cons t ts)
    then show ?case unfolding foldM.simps by (intro yields_bind [OF run_task_returns [of clock d t pad]]) auto
  qed simp
  have "steady clock" using assms(1,2) by (simp add: steady_def)
  from init_returns [OF this, of pad limit] obtain d where "init_paced_sender (paced_env clock pad) limit = Some d" "on_time clock d"
    by (auto simp: yields_def)
  then show ?thesis using run [OF _ assms(3), of d] by (auto simp: yields_def)
qed

definition example_clock :: "nat \<Rightarrow> timestamp" where
  "example_clock n = 1000 * int (min n 1000)"

theorem paced_sender_returns_witness:
  "\<exists>d\<^sub>0 d. init_paced_sender (paced_env example_clock (\<lambda>_ _ _. [])) (Millis 2000) = Some d\<^sub>0 \<and>
     foldM (run_task (paced_env example_clock (\<lambda>_ _ _. []))) (example_tasks @ [RatesTask 64000 0, CongestedTask True, PauseTask, ResumeTask, RemoveTask 1, ShutdownTask]) d\<^sub>0 = Some d"
proof (rule paced_sender_returns)
  show "mono example_clock" by (auto simp: mono_def example_clock_def)
  show "0 \<le> example_clock n \<and> example_clock n < 2 ^ 45" for n by (simp add: example_clock_def min_def)
  show "list_all calm_task (example_tasks @ [RatesTask 64000 0, CongestedTask True, PauseTask, ResumeTask, RemoveTask 1, ShutdownTask])" by code_simp
qed

end
