(* ===== verification/Spec2Isabelle.thy ===== *)
theory Spec2Isabelle
  imports ByteIO SenderRuns CcFeedback FeedbackGenerator Recovery SeqNum RtcpSender RtcpReports Packetizer Rtx Units Histogram NackRequester PacketHistory Delivery PacerTerm
begin

text \<open>
  Verification of MiniRTC, a real-time media library in C++.

  \<^bold>\<open>The program.\<close> Two peers exchange video over an ICE connection. At the sender a channel splits an
  encoded frame into RTP packets (\<open>src/rtp/rtp_packetizer\<close>), keeps them in a history for
  retransmission, and hands them to the pacer (\<open>src/transport/paced_sender\<close>, \<open>src/qos\<close>), which numbers
  them and lets them leave at the rate the congestion control allows. At the receiver the ICE
  transport (\<open>src/transport/ice_transport.cpp\<close>) tells RTP from RTCP and dispatches both: media to the
  channel and receiver of the stream (\<open>src/transport/channel\<close>), which restores retransmissions,
  assembles frames, asks for lost packets (NACK) and key frames (FIR), reports on reception, and delivers frames in order;
  RTCP to the handlers of the controller, which resend packets, request key frames from the encoder
  and measure the round-trip time. Arrivals of packets are reported back to the sender's congestion control
  (\<open>src/qos/congestion_control_feedback_*\<close>).

  \<^bold>\<open>Conventions.\<close> A class is a record, a method a function from the state to the state; a method that
  may fault returns an option, and \<open>None\<close> stands for undefined behaviour of the source: an access
  outside a buffer, the value of an empty optional, a division by zero, a pointer to what is gone.
  Integers whose wrap-around matters are words; the units of time, size and rate are integers with the two values for the infinities.
  Standard containers are lists, maps or ordered association lists in the order of their
  comparator. Clock readings, callbacks, codecs and the network are arguments. A section under a
  lock is one step, and threads interleave between steps. Where the operations of a thread take several locks in turn, the
  theory of the component says what one step is: \<open>InsertRtpPacket\<close> is a single function, which \<open>Delivery\<close>
  and \<open>ReceiverSafety\<close> run as a whole, and the executions of \<open>VideoReceiver\<close> may also enter it after its test of an obsolete
  frame or after its NACKs. A pointer that the code does not test is part of the state, and using it when it is null is \<open>None\<close>
  (the controller of the ICE transport). Logging and statistics that nothing reads are left out.

  \<^bold>\<open>Theories\<close>, with the source they model.

  \<^item> \<open>Prelude\<close>: words, bounded reads and writes, the named theorem collections, and the interface
    \<open>item_codec\<close> of fixed-size items in a buffer, which \<open>ByteIO\<close>, \<open>RtpPacket\<close>, \<open>RtcpFeedback\<close> and
    \<open>RtcpReports\<close> interpret.
  \<^item> \<open>ByteIO\<close> (\<open>src/common/byte_io.h\<close>), \<open>SeqNum\<close> (\<open>src/common/rtc_base/numerics\<close>), \<open>SeqMap\<close> (containers
    ordered by wrapping numbers, interface \<open>ordered_window\<close>), \<open>Units\<close> (\<open>src/common/api/units\<close>),
    \<open>Clock\<close> (\<open>src/common/clock\<close>, RTP timestamps), \<open>TaskQueue\<close> (\<open>src/common/task_queue.h\<close>, interface \<open>fifo\<close>).
  \<^item> \<open>RtpPacket\<close>, \<open>Packetizer\<close>, \<open>Obu\<close>, \<open>Av1\<close>, \<open>Rtx\<close>, \<open>PacketHistory\<close> (\<open>src/rtp\<close>): parsing and building of packets,
    fragmentation for H.264 and AV1, retransmission packets, the history.
  \<^item> \<open>RtcpPacket\<close>, \<open>RtcpFeedback\<close>, \<open>RtcpReports\<close>, \<open>RtcpSender\<close>, \<open>CcFeedback\<close> (\<open>src/rtcp\<close>): the RTCP messages; the
    interface \<open>rtcp_block\<close> is what \<open>RtcpSender\<close> relies on of the messages it collects.
  \<^item> \<open>Histogram\<close>, \<open>NackRequester\<close>, \<open>NackTrack\<close>, \<open>FeedbackTracker\<close>, \<open>FeedbackGenerator\<close> (\<open>src/qos\<close>).
  \<^item> \<open>FrameAssembly\<close>, \<open>VideoReceiver\<close>, \<open>ReceiverStats\<close>, \<open>ReceiverSafety\<close>, \<open>ReceiverProps\<close>
    (\<open>src/transport/channel/rtp_video_receiver.cpp\<close>, \<open>video_channel_receive.cpp\<close>); the two codecs interpret \<open>frame_codec\<close>.
  \<^item> \<open>VideoSender\<close>, \<open>SenderRuns\<close> (\<open>video_channel_send.cpp\<close>): the sending side and its threads.
  \<^item> \<open>Demux\<close>, \<open>Controller\<close> (\<open>src/transport/ice_transport.cpp\<close>, \<open>ice_transport_controller.cpp\<close>), \<open>Recovery\<close>
    and \<open>Delivery\<close>, which compose sender, network and receiver.
  \<^item> \<open>PacketQueue\<close>, \<open>PacketQueueSpec\<close>, \<open>PacketQueueProps\<close> (\<open>src/qos/prioritized_packet_queue.{h,cc}\<close>),
    \<open>Prober\<close> (\<open>bitrate_prober.{h,cc}\<close>), \<open>Pacer\<close> (\<open>pacing_controller.{h,cc}\<close>), \<open>PacedSend\<close>
    (\<open>src/transport/paced_sender\<close>), \<open>PacerInv\<close>, \<open>PacerRuns\<close>, \<open>PacerProps\<close>, \<open>PacerTerm\<close>. The abstract class
    \<open>PacketSender\<close> through which the controller sends is the locale \<open>packet_sender\<close>, interpreted by the paced sender.

  \<^bold>\<open>What is shown.\<close>

  \<^item> Delivery and recovery: a frame reaches the client exactly once although packets are lost, repeated and
    reordered. An AV1 frame is assembled to the bytes sent; a fragmented H.264 frame arrives with one byte
    28 in front of them, which the receiver makes of the fields of the first fragment and the sender never put there.
    Lost packets are sent again; no requested number that
    the sender had room for is forgotten before it is answered; a key-frame request reaches the encoder.
  \<^item> Safety: no sequence of datagrams makes the receiving side leave a buffer or hang; no operation of
    the history, of the queue of the pacer or of the pacer itself faults.
  \<^item> The receiver: frames are delivered in order, the worker returns and leaves nothing to do at the head of the
    queue, abandoned frames stay abandoned, requests are paced; while the numbers
    rise without wrapping the reports carry the number of packets missing.
  \<^item> Wire formats: what is written is read back (RTP, RTX, NACK, reports, congestion control feedback, AV1 units).
  \<^item> Feedback: every packet that arrives is listed in the next feedback, with the time since its arrival if it arrived once; of a
    repeated packet the code reports the last arrival, where its comment asks for the first. The round-trip time and the reports are right within stated bounds.
  \<^item> The pacer: its queue refines a specification by lists (with a finite time to live only while it is never
    paused, since a pause before a packet enters counts towards its expiry), serves by priority and in turns, and accounts its times
    exactly; no packet is lost or sent twice on the way through the pacer; its loop ends.

  \<^bold>\<open>Termination.\<close> All functions are total HOL functions but the loop \<open>process_while\<close> of the paced
  sender, which is a partial function into the option type since it may spin for
  tiny padding rates; \<open>PacerTerm\<close> proves that it returns when there is no padding. The send loop of the controller is
  bounded by the circuit breaker of the source.

  \<^bold>\<open>Not modelled.\<close> Codecs and pixel formats, libnice, libsrtp and OpenFEC are third-party code behind
  adapters. The bandwidth estimators and the congestion controller are control loops over floating-point
  filters; their decisions enter as the rates and clusters that the pacer is given. Negotiation,
  signalling and statistics are driven by JSON, WebSocket and logging
  libraries. Audio and data channels repeat the video paths. Of the ICE transport and the controller the
  receiving side and the control messages are modelled, not connection management and the adaptation of resolution.
\<close>

end
